(* ===== verification/Elua_Prelude.thy ===== *)
theory Elua_Prelude
  imports Main "HOL-Library.Word"
begin

text \<open>
  The shared base of the development: names for the machine types of \<^verbatim>\<open>type.h\<close>, the status
  codes of \<^verbatim>\<open>inc/platform.h\<close>, reads and writes of byte blocks in which an access outside the
  block is visible (it is \<^const>\<open>None\<close>, C leaves it undefined), Duff's device of
  \<^verbatim>\<open>inc/utils.h\<close>, and the arithmetic of power-of-two masks that ring buffers, packet formats and
  file system images all rely on. The collections \<open>mask_simps\<close> (masks and alignment),
  \<open>block_simps\<close> (blocks) and \<open>byte_simps\<close> (splitting words into bytes) feed the component proofs.
\<close>

unbundle bit_operations_syntax

named_theorems mask_simps
named_theorems block_simps
named_theorems byte_simps

type_synonym u8 = "8 word"
type_synonym u16 = "16 word"
type_synonym u32 = "32 word"
type_synonym u64 = "64 word"

text \<open>Status codes of \<^verbatim>\<open>inc/platform.h\<close>.\<close>

datatype platform_status = PLATFORM_ERR | PLATFORM_OK | PLATFORM_UNDERFLOW

section \<open>The build configuration\<close>

text \<open>
  What a board's build fixes with preprocessor constants: the headers under \<^verbatim>\<open>src/platform\<close> and
  the build system define them, and every definition that depends on one takes the record as an
  argument. The model is of a build with buffered devices, virtual timers, the serial multiplexer and
  interrupt handlers enabled (a build without virtual UARTs or CDC has the number 0).
\<close>

record build_config =
  NUM_UART :: nat
  SERMUX_NUM_VUART :: nat
  NUM_CDC_UART :: nat
  SERMUX_PHYS_ID :: nat
  NUM_TIMER :: nat
  VTMR_NUM_TIMERS :: nat
  VTMR_FREQ_HZ :: nat
  PLATFORM_INT_QUEUE_LOG_SIZE :: nat
  INT_ELUA_LAST :: nat
  INT_TMR_MATCH :: nat
  INT_UART_RX :: nat

abbreviation "SERMUX_SERVICE_ID_FIRST \<equiv> (0xD0 :: nat)"
abbreviation "SERMUX_SERVICE_ID_LAST \<equiv> (0xD7 :: nat)"
abbreviation "CDC_UART_ID \<equiv> (0xB0 :: nat)"

text \<open>
  What the builder checks of a configuration: physical UARTs below the pseudo ids, at most eight
  virtual UARTs (\<^verbatim>\<open>SERMUX_SERVICE_MAX\<close>), at most one CDC UART, an interrupt queue that an 8-bit
  index covers, interrupt ids below \<^verbatim>\<open>LUA_INT_MAX_SOURCES\<close>.
\<close>

definition config_ok :: "build_config \<Rightarrow> bool" where
  "config_ok cfg \<longleftrightarrow> NUM_UART cfg \<le> CDC_UART_ID \<and> SERMUX_NUM_VUART cfg \<le> 8
     \<and> NUM_CDC_UART cfg \<le> 1 \<and> SERMUX_PHYS_ID cfg < NUM_UART cfg
     \<and> VTMR_NUM_TIMERS cfg < 128 \<and> PLATFORM_INT_QUEUE_LOG_SIZE cfg \<le> 8
     \<and> INT_ELUA_LAST cfg < 128"

text \<open>A configuration of the size of a common board, for examples.\<close>

definition example_config :: build_config where
  "example_config = \<lparr>NUM_UART = 4, SERMUX_NUM_VUART = 2, NUM_CDC_UART = 1, SERMUX_PHYS_ID = 0,
     NUM_TIMER = 4, VTMR_NUM_TIMERS = 4, VTMR_FREQ_HZ = 10, PLATFORM_INT_QUEUE_LOG_SIZE = 5,
     INT_ELUA_LAST = 5, INT_TMR_MATCH = 4, INT_UART_RX = 3\<rparr>"

lemma example_config_ok: "config_ok example_config"
  by (simp add: config_ok_def example_config_def)

section \<open>Blocks of memory\<close>

text \<open>
  A block obtained from the allocator is a list of bytes. Copying into it at an offset
  (\<^verbatim>\<open>memcpy\<close>, \<^verbatim>\<open>*d++ = *s++\<close>) and out of it is undefined outside the block.
\<close>

definition blit :: "'a list \<Rightarrow> nat \<Rightarrow> 'a list \<Rightarrow> 'a list option" where
  "blit xs off ys =
     (if off + length ys \<le> length xs
      then Some (take off xs @ ys @ drop (off + length ys) xs) else None)"

definition fetch :: "'a list \<Rightarrow> nat \<Rightarrow> nat \<Rightarrow> 'a list option" where
  "fetch xs off n = (if off + n \<le> length xs then Some (take n (drop off xs)) else None)"

lemma blit_length [block_simps]: "blit xs off ys = Some zs \<Longrightarrow> length zs = length xs"
  by (auto simp: blit_def split: if_splits)

lemma blit_Some_iff [block_simps]:
  "(\<exists>zs. blit xs off ys = Some zs) \<longleftrightarrow> off + length ys \<le> length xs"
  by (simp add: blit_def)

text \<open>A block cut into chunks of \<open>e\<close> bytes: writing chunk \<open>j\<close> changes that chunk only.\<close>

definition chunk :: "nat \<Rightarrow> 'a list \<Rightarrow> nat \<Rightarrow> 'a list" where
  "chunk e xs k = take e (drop (e * k) xs)"

lemma chunk_range:
  fixes k n e :: nat
  assumes "k < n"
  shows "e * k + e \<le> e * n"
proof -
  have "Suc k \<le> n" using assms by simp
  then have "e * Suc k \<le> e * n" by (rule mult_le_mono2)
  then show ?thesis by simp
qed

lemma blit_chunk_same:
  assumes "blit xs (e * j) ys = Some zs" and "length ys = e"
  shows "chunk e zs j = ys"
  using assms by (auto simp: blit_def chunk_def split: if_splits)

lemma blit_chunk_other:
  assumes b: "blit xs (e * j) ys = Some zs" and l: "length ys = e" and kj: "k \<noteq> j"
  shows "chunk e zs k = chunk e xs k"
proof -
  from b l have zs: "zs = take (e * j) xs @ ys @ drop (e * j + e) xs"
    and fits: "e * j + e \<le> length xs"
    by (auto simp: blit_def split: if_splits)
  show ?thesis
  proof (cases "k < j")
    case True
    then have "e * k + e \<le> e * j" by (rule chunk_range)
    then show ?thesis
      unfolding chunk_def zs using fits
      by (simp add: drop_take take_append min_absorb1 min_absorb2 del: mult_le_cancel1 mult_le_cancel2)
  next
    case False
    with kj have "j < k" by simp
    then have jk: "e * j + e \<le> e * k" by (rule chunk_range)
    have "drop (e * k) zs = drop (e * k) xs"
      unfolding zs using jk fits l \<open>j < k\<close> by (auto simp: min_def)
    then show ?thesis by (simp add: chunk_def)
  qed
qed

section \<open>Strings and error codes of the C library\<close>

text \<open>
  A C string is the list of its bytes before the terminator. Comparing without case
  (\<^verbatim>\<open>strcasecmp\<close>, \<^verbatim>\<open>strncasecmp\<close>) folds the letters; the error codes are those that the modelled
  functions set.
\<close>

datatype errno = ENFILE | EEXIST | EROFS | EACCES | ENOSPC | ENOENT | EINVAL | EBADF
  | ENODEV | ENOSYS | EPERM | EXDEV | ENOMEM

definition to_lower :: "u8 \<Rightarrow> u8" where
  "to_lower c = (if 0x41 \<le> c \<and> c \<le> 0x5A then c + 0x20 else c)"

definition strcasecmp_eq :: "u8 list \<Rightarrow> u8 list \<Rightarrow> bool" where
  "strcasecmp_eq a b \<longleftrightarrow> map to_lower a = map to_lower b"

definition strncasecmp_eq :: "u8 list \<Rightarrow> u8 list \<Rightarrow> nat \<Rightarrow> bool" where
  "strncasecmp_eq a b n \<longleftrightarrow> map to_lower (take n a) = map to_lower (take n b)"

lemma strcasecmp_eq_length: "strcasecmp_eq a b \<Longrightarrow> length a = length b"
  unfolding strcasecmp_eq_def by (rule map_eq_imp_length_eq)

lemma strcasecmp_eq_refl [simp]: "strcasecmp_eq a a"
  by (simp add: strcasecmp_eq_def)

lemma strcasecmp_eq_sym: "strcasecmp_eq a b \<Longrightarrow> strcasecmp_eq b a"
  by (simp add: strcasecmp_eq_def)

lemma strcasecmp_eq_trans: "strcasecmp_eq a b \<Longrightarrow> strcasecmp_eq b c \<Longrightarrow> strcasecmp_eq a c"
  by (simp add: strcasecmp_eq_def)

text \<open>Comparing over the length of the second string asks whether it is a prefix.\<close>

lemma strncasecmp_prefix:
  "strncasecmp_eq a b (length b) \<longleftrightarrow> length b \<le> length a \<and> strcasecmp_eq (take (length b) a) b"
  by (auto simp: strncasecmp_eq_def strcasecmp_eq_def dest: map_eq_imp_length_eq)

section \<open>Duff's device\<close>

text \<open>
  The number of times \<^verbatim>\<open>DUFF_DEVICE_8( count, action )\<close> runs its action: the switch enters an
  eight-fold unrolled \<^verbatim>\<open>do ... while( --_times > 0 )\<close> loop at \<^verbatim>\<open>_count & 7\<close>, and
  \<^verbatim>\<open>_times = ( _count + 7 ) >> 3\<close>. The body of a \<^verbatim>\<open>do\<close> loop runs at least once.
\<close>

definition duff_times :: "nat \<Rightarrow> nat" where
  "duff_times count = drop_bit 3 (count + 7)"

definition duff_device_8 :: "nat \<Rightarrow> nat" where
  "duff_device_8 count =
     (let entry = (if count mod 8 = 0 then 8 else count mod 8);
          again = duff_times count - 1
      in entry + 8 * again)"

lemma duff_device_8_count [simp]: "0 < count \<Longrightarrow> duff_device_8 count = count"
proof -
  assume "0 < count"
  have t: "duff_times count = (count + 7) div 8" by (simp add: duff_times_def drop_bit_eq_div)
  have c: "count = 8 * (count div 8) + count mod 8" by simp
  show ?thesis
  proof (cases "count mod 8 = 0")
    case True
    with c \<open>0 < count\<close> obtain k where k: "count = 8 * Suc k" by (cases "count div 8") auto
    then have d: "duff_times count = Suc k" unfolding t by simp
    from k True show ?thesis unfolding duff_device_8_def Let_def d by simp
  next
    case False
    define q r where "q = count div 8" and "r = count mod 8"
    have r: "r < 8" "0 < r" and cq: "count = 8 * q + r" using False c by (simp_all add: q_def r_def)
    have "(count + 7) div 8 = Suc q" unfolding cq by (rule div_nat_eqI) (use r in simp_all)
    then have "(count + 7) div 8 = Suc (count div 8)" by (simp add: q_def)
    with False c show ?thesis by (simp add: duff_device_8_def t)
  qed
qed

lemma duff_device_8_zero: "duff_device_8 0 = 8"
  by (simp add: duff_device_8_def duff_times_def drop_bit_eq_div)

section \<open>Masks\<close>

lemma and_pow2_minus_1 [mask_simps]:
  fixes x :: int
  shows "x AND (2 ^ n - 1) = x mod 2 ^ n"
  by (simp add: take_bit_eq_mod flip: mask_eq_exp_minus_1 take_bit_eq_mask)

lemma u16_of_mod [mask_simps]:
  assumes "n \<le> 16"
  shows "unat (word_of_int (int x mod 2 ^ n) :: u16) = x mod 2 ^ n"
proof -
  have "x mod 2 ^ n < 2 ^ n" by simp
  also have "\<dots> \<le> 2 ^ 16" using assms by (intro power_increasing) auto
  finally have "x mod 2 ^ n < 2 ^ 16" .
  moreover have "int x mod 2 ^ n = int (x mod 2 ^ n)" by (simp add: zmod_int)
  ultimately show ?thesis by (simp add: unat_of_nat take_bit_nat_eq_self)
qed

lemma u32_single_bit: "bit (2 ^ n :: u32) m \<longleftrightarrow> m = n \<and> n < 32"
  by (auto simp: bit_exp_iff)

lemma and_single_bit:
  fixes w :: u32
  shows "w AND 2 ^ n \<noteq> 0 \<longleftrightarrow> bit w n"
proof (cases "bit w n")
  case True
  then have "bit (w AND 2 ^ n) n" by (auto simp: bit_and_iff u32_single_bit dest: bit_imp_le_length)
  then show ?thesis using True by auto
next
  case False
  then have "w AND 2 ^ n = 0" by (intro bit_word_eqI) (auto simp: bit_and_iff u32_single_bit)
  then show ?thesis using False by simp
qed

lemma uint_not_minus_1 [simp]: "uint (x :: 'a::len word) \<noteq> -1"
  using uint_ge_0 [of x] by linarith

end
