(* ===== verification/Ring.thy ===== *)
theory Ring
  imports Elua_Prelude
begin

text \<open>
  First-in first-out queues. Two parts of the program keep a queue in an array that is indexed
  modulo its size: the device buffers of \<^verbatim>\<open>src/buf.c\<close> and the interrupt queue of
  \<^verbatim>\<open>src/elua_int.c\<close>. This theory has the arithmetic of such arrays (\<open>ring_list\<close>) and the
  contract both promise (\<open>bounded_fifo\<close>): within its capacity a queue hands out what was put in,
  in order. Clients prove their facts once, in the locale.
\<close>

section \<open>Arrays read modulo their size\<close>

definition ring_list :: "(nat \<Rightarrow> 'a) \<Rightarrow> nat \<Rightarrow> nat \<Rightarrow> nat \<Rightarrow> 'a list" where
  "ring_list a n r c = map (\<lambda>i. a ((r + i) mod n)) [0..<c]"

lemma ring_list_0 [simp]: "ring_list a n r 0 = []"
  by (simp add: ring_list_def)

lemma length_ring_list [simp]: "length (ring_list a n r c) = c"
  by (simp add: ring_list_def)

lemma mod_offset_inj:
  fixes r i j n :: nat
  assumes "(r + i) mod n = (r + j) mod n" and "i < n" and "j < n"
  shows "i = j"
proof -
  have "(int r + int i) mod int n = (int r + int j) mod int n"
    using assms(1) by (metis of_nat_add of_nat_mod)
  then have "int n dvd int i - int j"
    by (metis add_diff_cancel_left mod_eq_dvd_iff)
  then have "int i = int j"
    using assms(2,3) by (metis mod_eq_dvd_iff mod_pos_pos_trivial of_nat_0_le_iff of_nat_less_iff)
  then show ?thesis by simp
qed

lemma ring_list_cong:
  assumes "\<And>i. i < c \<Longrightarrow> a ((r + i) mod n) = b ((r + i) mod n)"
  shows "ring_list a n r c = ring_list b n r c"
  using assms by (simp add: ring_list_def)

lemma ring_list_put:
  assumes "c < n"
  shows "ring_list (a((r + c) mod n := x)) n r (Suc c) = ring_list a n r c @ [x]"
proof -
  have "ring_list (a((r + c) mod n := x)) n r c = ring_list a n r c"
  proof (rule ring_list_cong)
    fix i assume "i < c"
    with assms have "(r + i) mod n \<noteq> (r + c) mod n" by (metis mod_offset_inj less_irrefl less_trans)
    then show "(a((r + c) mod n := x)) ((r + i) mod n) = a ((r + i) mod n)" by simp
  qed
  then show ?thesis by (simp add: ring_list_def)
qed

lemma ring_list_get:
  assumes "r < n"
  shows "ring_list a n r (Suc c) = a r # ring_list a n (Suc r mod n) c"
proof -
  have "map (\<lambda>i. a ((r + i) mod n)) [0..<Suc c] = a (r mod n) # map (\<lambda>i. a ((r + Suc i) mod n)) [0..<c]"
    by (simp add: map_upt_Suc del: upt_Suc)
  moreover have "(r + Suc i) mod n = (Suc r mod n + i) mod n" for i
    by (simp add: mod_add_left_eq)
  ultimately show ?thesis using assms by (simp add: ring_list_def)
qed

section \<open>The contract of a bounded queue\<close>

text \<open>Storing a list of elements, and taking out a given number of them.\<close>

fun put_all :: "('a \<Rightarrow> 's \<Rightarrow> 's) \<Rightarrow> 'a list \<Rightarrow> 's \<Rightarrow> 's" where
  "put_all put [] s = s"
| "put_all put (x # xs) s = put_all put xs (put x s)"

fun take_out :: "('s \<Rightarrow> ('a \<times> 's) option) \<Rightarrow> nat \<Rightarrow> 's \<Rightarrow> ('a list \<times> 's) option" where
  "take_out get 0 s = Some ([], s)"
| "take_out get (Suc n) s =
     (case get s of None \<Rightarrow> None
      | Some (x, s') \<Rightarrow> (case take_out get n s' of None \<Rightarrow> None
                        | Some (xs, s'') \<Rightarrow> Some (x # xs, s'')))"

locale bounded_fifo =
  fixes inv :: "'s \<Rightarrow> bool"
    and contents :: "'s \<Rightarrow> 'a list"
    and cap :: "'s \<Rightarrow> nat"
    and ok :: "'s \<Rightarrow> 'a \<Rightarrow> bool"
    and put :: "'a \<Rightarrow> 's \<Rightarrow> 's"
    and get :: "'s \<Rightarrow> ('a \<times> 's) option"
  assumes inv_put: "inv s \<Longrightarrow> ok s x \<Longrightarrow> length (contents s) < cap s \<Longrightarrow> inv (put x s)"
    and contents_put:
      "inv s \<Longrightarrow> ok s x \<Longrightarrow> length (contents s) < cap s \<Longrightarrow> contents (put x s) = contents s @ [x]"
    and cap_put: "inv s \<Longrightarrow> ok s x \<Longrightarrow> length (contents s) < cap s \<Longrightarrow> cap (put x s) = cap s"
    and ok_put: "inv s \<Longrightarrow> ok s x \<Longrightarrow> length (contents s) < cap s \<Longrightarrow> ok (put x s) y = ok s y"
    and get_empty: "inv s \<Longrightarrow> contents s = [] \<Longrightarrow> get s = None"
    and get_head: "inv s \<Longrightarrow> contents s = x # xs \<Longrightarrow>
      \<exists>s'. get s = Some (x, s') \<and> inv s' \<and> contents s' = xs \<and> cap s' = cap s"
begin

lemma put_all_contents:
  assumes "inv s" and "\<forall>x \<in> set xs. ok s x" and "length (contents s) + length xs \<le> cap s"
  shows "inv (put_all put xs s) \<and> contents (put_all put xs s) = contents s @ xs
    \<and> cap (put_all put xs s) = cap s"
  using assms
proof (induction xs arbitrary: s)
  case Nil
  then show ?case by simp
next
  case (Cons x xs)
  from Cons.prems have room: "length (contents s) < cap s" and okx: "ok s x" by auto
  note put = inv_put [OF Cons.prems(1) okx room] contents_put [OF Cons.prems(1) okx room]
    cap_put [OF Cons.prems(1) okx room] ok_put [OF Cons.prems(1) okx room]
  have "inv (put_all put xs (put x s)) \<and> contents (put_all put xs (put x s)) = contents (put x s) @ xs
    \<and> cap (put_all put xs (put x s)) = cap (put x s)"
    by (rule Cons.IH) (use put Cons.prems in auto)
  then show ?case using put by simp
qed

lemma take_out_contents:
  assumes "inv s" and "n \<le> length (contents s)"
  shows "\<exists>s'. take_out get n s = Some (take n (contents s), s') \<and> inv s'
    \<and> contents s' = drop n (contents s)"
  using assms
proof (induction n arbitrary: s)
  case 0
  then show ?case by simp
next
  case (Suc n)
  then obtain x xs where c: "contents s = x # xs" by (cases "contents s") auto
  with Suc.prems obtain s1 where s1: "get s = Some (x, s1)" "inv s1" "contents s1 = xs"
    using get_head by blast
  with Suc.prems c have "n \<le> length (contents s1)" by simp
  with s1 Suc.IH [of s1] obtain s2 where
    "take_out get n s1 = Some (take n xs, s2)" "inv s2" "contents s2 = drop n xs" by auto
  with s1 c show ?case by auto
qed

lemma fifo_order:
  assumes "inv s" and "contents s = []" and "\<forall>x \<in> set xs. ok s x" and "length xs \<le> cap s"
  shows "\<exists>s'. take_out get (length xs) (put_all put xs s) = Some (xs, s') \<and> get s' = None"
proof -
  from assms have p: "inv (put_all put xs s)" "contents (put_all put xs s) = xs"
    using put_all_contents [of s xs] by auto
  then obtain s' where s': "take_out get (length xs) (put_all put xs s) = Some (xs, s')" "inv s'"
      "contents s' = []"
    using take_out_contents [of "put_all put xs s" "length xs"] by auto
  then have "get s' = None" by (intro get_empty)
  with s' show ?thesis by blast
qed

end

end
