(* ===== verification/Buf.thy ===== *)
theory Buf
  imports Ring
begin

text \<open>
  The buffers of character devices, \<^verbatim>\<open>src/buf.c\<close>: one descriptor per UART and ADC channel, a ring of
  elements of one, two or four bytes. A descriptor is the struct \<^verbatim>\<open>buf_desc\<close> of \<^verbatim>\<open>inc/buf.h\<close>; the
  descriptor arrays are a function from resource id and resource number. An operation that would
  touch memory outside the allocated block returns \<^const>\<open>None\<close>. The lemmas show that a descriptor
  is a bounded queue (\<open>bounded_fifo\<close>), also when the receive interrupt writes between the
  steps of a read, what happens when it is full, and when it is resized.
\<close>

datatype buf_id = BUF_ID_UART | BUF_ID_ADC

record buf_desc =
  logsize :: u8
  logdsize :: u8
  wptr :: u16
  rptr :: u16
  count :: u16
  buf :: "u8 list option"

type_synonym bufs = "buf_id \<Rightarrow> nat \<Rightarrow> buf_desc"

text \<open>\<^verbatim>\<open>realloc\<close>: the block (or NULL) and the new size; NULL or a block of that size that starts
  with what the old one held.\<close>

type_synonym realloc_fun = "u8 list option \<Rightarrow> nat \<Rightarrow> u8 list option"

definition realloc_spec :: "realloc_fun \<Rightarrow> bool" where
  "realloc_spec ra \<longleftrightarrow> (\<forall>p n b. ra p n = Some b \<longrightarrow> length b = n \<and>
     (case p of None \<Rightarrow> True | Some old \<Rightarrow> take (min n (length old)) b = take (min n (length old)) old))"

abbreviation "BUF_SIZE_NONE \<equiv> (0 :: u8)"
abbreviation "BUF_DSIZE_U8 \<equiv> (0 :: u8)"
abbreviation "BUF_DSIZE_U16 \<equiv> (1 :: u8)"

section \<open>The helper macros\<close>

definition buf_realsize :: "buf_desc \<Rightarrow> nat" where
  "buf_realsize d = push_bit (unat (logsize d) - unat (logdsize d)) 1"

definition buf_bytesize :: "buf_desc \<Rightarrow> nat" where
  "buf_bytesize d = push_bit (unat (logsize d)) 1"

definition buf_realdsize :: "buf_desc \<Rightarrow> nat" where
  "buf_realdsize d = push_bit (unat (logdsize d)) 1"

definition buf_mod_incr :: "buf_desc \<Rightarrow> u16 \<Rightarrow> u16" where
  "buf_mod_incr d m =
     word_of_int ((uint m + int (buf_realdsize d)) AND (int (buf_bytesize d) - 1))"

definition bufh_check_resnum :: "build_config \<Rightarrow> buf_id \<Rightarrow> nat \<Rightarrow> nat" where
  "bufh_check_resnum cfg resid resnum =
     (if resid = BUF_ID_UART \<and> (resnum \<ge> SERMUX_SERVICE_ID_FIRST \<or> resnum = CDC_UART_ID)
      then if resnum = CDC_UART_ID
           then resnum - CDC_UART_ID + NUM_UART cfg + SERMUX_NUM_VUART cfg
           else resnum - SERMUX_SERVICE_ID_FIRST + NUM_UART cfg
      else resnum)"

definition num_total_uart :: "build_config \<Rightarrow> nat" where
  "num_total_uart cfg = NUM_UART cfg + SERMUX_NUM_VUART cfg + NUM_CDC_UART cfg"

section \<open>The operations\<close>

definition buf_set_desc ::
  "realloc_fun \<Rightarrow> u8 \<Rightarrow> u8 \<Rightarrow> buf_desc \<Rightarrow> platform_status \<times> buf_desc" where
  "buf_set_desc ra lsize ldsize d =
     (let d1 = d\<lparr>logdsize := ldsize, logsize := lsize + ldsize\<rparr>
      in case ra (buf d1) (buf_bytesize d1) of
           None \<Rightarrow>
             (if lsize \<noteq> BUF_SIZE_NONE then PLATFORM_ERR else PLATFORM_OK,
              d1\<lparr>buf := None, logsize := BUF_SIZE_NONE, rptr := 0, wptr := 0, count := 0\<rparr>)
         | Some b \<Rightarrow> (PLATFORM_OK, d1\<lparr>buf := Some b\<rparr>))"

definition buf_set ::
  "build_config \<Rightarrow> realloc_fun \<Rightarrow> buf_id \<Rightarrow> nat \<Rightarrow> u8 \<Rightarrow> u8 \<Rightarrow> bufs \<Rightarrow> platform_status \<times> bufs" where
  "buf_set cfg ra resid resnum lsize ldsize s =
     (let n = bufh_check_resnum cfg resid resnum;
          (st, d) = buf_set_desc ra lsize ldsize (s resid n)
      in (st, s(resid := (s resid)(n := d))))"

definition buf_flush :: "build_config \<Rightarrow> buf_id \<Rightarrow> nat \<Rightarrow> bufs \<Rightarrow> bufs" where
  "buf_flush cfg resid resnum s =
     (let n = bufh_check_resnum cfg resid resnum
      in s(resid := (s resid)(n := (s resid n)\<lparr>rptr := 0, wptr := 0, count := 0\<rparr>)))"

definition buf_write_desc :: "u8 list \<Rightarrow> buf_desc \<Rightarrow> (platform_status \<times> buf_desc) option" where
  "buf_write_desc data d =
     (if logsize d = BUF_SIZE_NONE then Some (PLATFORM_ERR, d)
      else if unat (count d) > buf_realsize d then Some (PLATFORM_ERR, d)
      else case fetch data 0 (duff_device_8 (buf_realdsize d)) of
             None \<Rightarrow> None
           | Some x \<Rightarrow>
             (case Option.bind (buf d) (\<lambda>b. blit b (unat (wptr d)) x) of
                None \<Rightarrow> None
              | Some b \<Rightarrow> Some (PLATFORM_OK,
                  d\<lparr>buf := Some b, wptr := buf_mod_incr d (wptr d), count := count d + 1\<rparr>)))"

definition buf_write ::
  "build_config \<Rightarrow> buf_id \<Rightarrow> nat \<Rightarrow> u8 list \<Rightarrow> bufs \<Rightarrow> (platform_status \<times> bufs) option" where
  "buf_write cfg resid resnum data s =
     (let n = bufh_check_resnum cfg resid resnum
      in case buf_write_desc data (s resid n) of
           None \<Rightarrow> None
         | Some (st, d) \<Rightarrow> Some (st, s(resid := (s resid)(n := d))))"

definition buf_is_enabled :: "build_config \<Rightarrow> buf_id \<Rightarrow> nat \<Rightarrow> bufs \<Rightarrow> bool" where
  "buf_is_enabled cfg resid resnum s =
     (logsize (s resid (bufh_check_resnum cfg resid resnum)) \<noteq> BUF_SIZE_NONE)"

definition buf_get_size :: "build_config \<Rightarrow> buf_id \<Rightarrow> nat \<Rightarrow> bufs \<Rightarrow> nat" where
  "buf_get_size cfg resid resnum s =
     (let d = s resid (bufh_check_resnum cfg resid resnum)
      in if logsize d = BUF_SIZE_NONE then 0 else buf_realsize d)"

definition buf_get_count :: "build_config \<Rightarrow> buf_id \<Rightarrow> nat \<Rightarrow> bufs \<Rightarrow> u16" where
  "buf_get_count cfg resid resnum s = count (s resid (bufh_check_resnum cfg resid resnum))"

text \<open>
  A read runs with interrupts enabled except while the count is decremented, so the receive handler
  can run between its steps: the test and the copy, the decrement, the advance of the read pointer.
\<close>

definition buf_read_copy :: "buf_desc \<Rightarrow> u8 list option option" where
  "buf_read_copy d =
     (if logsize d = BUF_SIZE_NONE \<or> count d = 0 then Some None
      else case Option.bind (buf d) (\<lambda>b. fetch b (unat (rptr d)) (duff_device_8 (buf_realdsize d))) of
             None \<Rightarrow> None | Some x \<Rightarrow> Some (Some x))"

definition buf_read_dec :: "buf_desc \<Rightarrow> buf_desc" where
  "buf_read_dec d = d\<lparr>count := count d - 1\<rparr>"

definition buf_read_advance :: "buf_desc \<Rightarrow> buf_desc" where
  "buf_read_advance d = d\<lparr>rptr := buf_mod_incr d (rptr d)\<rparr>"

definition buf_read_desc :: "buf_desc \<Rightarrow> (platform_status \<times> u8 list \<times> buf_desc) option" where
  "buf_read_desc d =
     (case buf_read_copy d of
        None \<Rightarrow> None
      | Some None \<Rightarrow> Some (PLATFORM_UNDERFLOW, [], d)
      | Some (Some x) \<Rightarrow> Some (PLATFORM_OK, x, buf_read_advance (buf_read_dec d)))"

definition buf_read ::
  "build_config \<Rightarrow> buf_id \<Rightarrow> nat \<Rightarrow> bufs \<Rightarrow> (platform_status \<times> u8 list \<times> bufs) option" where
  "buf_read cfg resid resnum s =
     (let n = bufh_check_resnum cfg resid resnum
      in case buf_read_desc (s resid n) of
           None \<Rightarrow> None
         | Some (st, x, d) \<Rightarrow> Some (st, x, s(resid := (s resid)(n := d))))"

section \<open>A descriptor is a bounded queue\<close>

definition buf_inv :: "buf_desc \<Rightarrow> bool" where
  "buf_inv d \<longleftrightarrow> logsize d \<noteq> BUF_SIZE_NONE \<and> unat (logdsize d) \<le> unat (logsize d)
     \<and> unat (logsize d) \<le> 15
     \<and> (\<exists>b. buf d = Some b \<and> length b = 2 ^ unat (logsize d))
     \<and> (\<exists>r. r < buf_realsize d \<and> unat (rptr d) = buf_realdsize d * r
          \<and> unat (wptr d) = buf_realdsize d * ((r + unat (count d)) mod buf_realsize d))
     \<and> unat (count d) \<le> buf_realsize d"

definition buf_elems :: "buf_desc \<Rightarrow> u8 list list" where
  "buf_elems d = ring_list (chunk (buf_realdsize d) (the (buf d))) (buf_realsize d)
     (unat (rptr d) div buf_realdsize d) (unat (count d))"

lemma buf_sizes:
  "buf_realsize d = 2 ^ (unat (logsize d) - unat (logdsize d))"
  "buf_bytesize d = 2 ^ unat (logsize d)"
  "buf_realdsize d = 2 ^ unat (logdsize d)"
  by (simp_all add: buf_realsize_def buf_bytesize_def buf_realdsize_def)

lemma buf_realdsize_pos [simp]: "0 < buf_realdsize d" "buf_realdsize d \<noteq> 0"
  by (simp_all add: buf_sizes)

lemma buf_realsize_pos [simp]: "0 < buf_realsize d" "buf_realsize d \<noteq> 0"
  by (simp_all add: buf_sizes)

lemma buf_bytesize_prod:
  assumes "unat (logdsize d) \<le> unat (logsize d)"
  shows "buf_bytesize d = buf_realdsize d * buf_realsize d"
  using assms by (simp add: buf_sizes flip: power_add)

lemma buf_mod_incr_unat:
  assumes "unat (logsize d) \<le> 16"
  shows "unat (buf_mod_incr d m) = (unat m + buf_realdsize d) mod buf_bytesize d"
proof -
  have "buf_mod_incr d m = word_of_int (int (unat m + buf_realdsize d) mod 2 ^ unat (logsize d))"
    by (simp add: buf_mod_incr_def buf_sizes and_pow2_minus_1)
  then show ?thesis using u16_of_mod [OF assms, of "unat m + buf_realdsize d"]
    by (simp add: buf_sizes)
qed

lemma buf_mod_incr_slot:
  assumes "unat (logdsize d) \<le> unat (logsize d)" and "unat (logsize d) \<le> 16"
    and "unat m = buf_realdsize d * k"
  shows "unat (buf_mod_incr d m) = buf_realdsize d * (Suc k mod buf_realsize d)"
proof -
  have "unat (buf_mod_incr d m) = (buf_realdsize d * k + buf_realdsize d) mod (buf_realdsize d * buf_realsize d)"
    using assms by (simp add: buf_mod_incr_unat buf_bytesize_prod)
  also have "buf_realdsize d * k + buf_realdsize d = buf_realdsize d * Suc k" by simp
  finally show ?thesis by (simp only: mult_mod_right)
qed


lemma buf_invE:
  assumes "buf_inv d"
  obtains b r where "logsize d \<noteq> BUF_SIZE_NONE" "unat (logdsize d) \<le> unat (logsize d)"
    "unat (logsize d) \<le> 15" "buf d = Some b" "length b = buf_realdsize d * buf_realsize d"
    "r < buf_realsize d" "unat (rptr d) = buf_realdsize d * r"
    "unat (wptr d) = buf_realdsize d * ((r + unat (count d)) mod buf_realsize d)"
    "unat (count d) \<le> buf_realsize d"
    "buf_elems d = ring_list (chunk (buf_realdsize d) b) (buf_realsize d) r (unat (count d))"
  using assms unfolding buf_inv_def buf_elems_def
  by (auto simp: buf_bytesize_prod [symmetric] buf_sizes(2))

lemma buf_realsize_bound:
  assumes "unat (logsize d) \<le> 15"
  shows "buf_realsize d \<le> 32768"
proof -
  have "(2::nat) ^ (unat (logsize d) - unat (logdsize d)) \<le> 2 ^ 15"
    using assms by (intro power_increasing) auto
  then show ?thesis by (simp add: buf_sizes)
qed

lemma u16_suc: "unat (c :: u16) \<le> 32768 \<Longrightarrow> unat (c + 1) = Suc (unat c)"
  by (simp add: unat_word_ariths)

lemma u16_pred: "0 < unat (c :: u16) \<Longrightarrow> unat (c - 1) = unat c - 1"
  by unat_arith

lemma chunk_blit:
  assumes "blit b (e * j) x = Some b'" and "length x = e"
  shows "chunk e b' = (chunk e b)(j := x)"
  using blit_chunk_same [OF assms] blit_chunk_other [OF assms] by (auto simp: fun_eq_iff)

text \<open>
  What a write does in a state that satisfies the invariant, full or not: it stores its element in
  the slot of the write pointer.
\<close>

lemma buf_write_step:
  assumes "buf_inv d" and "length x = buf_realdsize d"
  obtains b b' r where "buf d = Some b" "unat (rptr d) = buf_realdsize d * r" "r < buf_realsize d"
    "chunk (buf_realdsize d) b' =
       (chunk (buf_realdsize d) b)((r + unat (count d)) mod buf_realsize d := x)"
    "length b' = length b" "length b = 2 ^ unat (logsize d)"
    "buf_elems d = ring_list (chunk (buf_realdsize d) b) (buf_realsize d) r (unat (count d))"
    "buf_write_desc x d = Some (PLATFORM_OK,
       d\<lparr>buf := Some b', wptr := buf_mod_incr d (wptr d), count := count d + 1\<rparr>)"
    "unat (buf_mod_incr d (wptr d)) =
       buf_realdsize d * ((r + Suc (unat (count d))) mod buf_realsize d)"
    "unat (count d + 1) = Suc (unat (count d))"
  using assms(1)
proof (rule buf_invE)
  fix b r
  let ?e = "buf_realdsize d" and ?n = "buf_realsize d" and ?c = "unat (count d)"
  assume d: "logsize d \<noteq> BUF_SIZE_NONE" "unat (logdsize d) \<le> unat (logsize d)"
    "unat (logsize d) \<le> 15" "buf d = Some b" "length b = ?e * ?n" "r < ?n"
    "unat (rptr d) = ?e * r" "unat (wptr d) = ?e * ((r + ?c) mod ?n)" "?c \<le> ?n"
    "buf_elems d = ring_list (chunk ?e b) ?n r ?c"
  have slot: "(r + ?c) mod ?n < ?n" by simp
  then have "?e * ((r + ?c) mod ?n) + length x \<le> length b"
    using chunk_range [OF slot, of ?e] d assms(2) by simp
  then obtain b' where b': "blit b (?e * ((r + ?c) mod ?n)) x = Some b'"
    using blit_Some_iff by metis
  have w: "unat (buf_mod_incr d (wptr d)) = ?e * (Suc (r + ?c) mod ?n)"
    using buf_mod_incr_slot [of d "wptr d" "(r + ?c) mod ?n"] d by (simp add: mod_Suc_eq)
  show thesis
  proof (rule that [of b r b'])
    show "buf_write_desc x d = Some (PLATFORM_OK,
       d\<lparr>buf := Some b', wptr := buf_mod_incr d (wptr d), count := count d + 1\<rparr>)"
      using d b' assms(2) by (simp add: buf_write_desc_def fetch_def)
    show "unat (count d + 1) = Suc ?c"
      using buf_realsize_bound [OF d(3)] d(9) by (intro u16_suc) simp
    show "length b = 2 ^ unat (logsize d)"
      using d by (simp add: buf_bytesize_prod [symmetric] buf_sizes(2))
  qed (use d b' w chunk_blit [OF b' assms(2)] blit_length [OF b'] in simp_all)
qed

lemma buf_write_room:
  assumes "buf_inv d" and "length x = buf_realdsize d" and room: "unat (count d) < buf_realsize d"
  obtains d' where "buf_write_desc x d = Some (PLATFORM_OK, d')" "buf_inv d'"
    "buf_elems d' = buf_elems d @ [x]" "logsize d' = logsize d" "logdsize d' = logdsize d"
    "rptr d' = rptr d" "unat (count d') = Suc (unat (count d))"
  using assms(1,2)
proof (rule buf_write_step)
  fix b b' r
  let ?e = "buf_realdsize d" and ?n = "buf_realsize d" and ?c = "unat (count d)"
  let ?d = "d\<lparr>buf := Some b', wptr := buf_mod_incr d (wptr d), count := count d + 1\<rparr>"
  assume h: "buf d = Some b" "unat (rptr d) = ?e * r" "r < ?n"
    "chunk ?e b' = (chunk ?e b)((r + ?c) mod ?n := x)" "length b' = length b"
    "length b = 2 ^ unat (logsize d)"
    "buf_elems d = ring_list (chunk ?e b) ?n r ?c" "buf_write_desc x d = Some (PLATFORM_OK, ?d)"
    "unat (buf_mod_incr d (wptr d)) = ?e * ((r + Suc ?c) mod ?n)" "unat (count d + 1) = Suc ?c"
  have same: "buf_realdsize ?d = ?e" "buf_realsize ?d = ?n"
    by (simp_all add: buf_realdsize_def buf_realsize_def)
  have "buf_inv ?d"
    using assms(1) room h unfolding buf_inv_def same by (auto intro!: exI [of _ r])
  moreover have "buf_elems ?d = buf_elems d @ [x]"
    using h room by (simp add: buf_elems_def same ring_list_put)
  ultimately show thesis using h by (intro that [of ?d]) simp_all
qed


lemma buf_read_step:
  assumes "buf_inv d" and "count d \<noteq> 0"
  obtains x d' where "buf_read_copy d = Some (Some x)" "d' = buf_read_advance (buf_read_dec d)"
    "buf_read_desc d = Some (PLATFORM_OK, x, d')" "buf_inv d'" "buf_elems d = x # buf_elems d'"
    "logsize d' = logsize d" "logdsize d' = logdsize d" "length x = buf_realdsize d"
  using assms(1)
proof (rule buf_invE)
  fix b r
  let ?e = "buf_realdsize d" and ?n = "buf_realsize d" and ?c = "unat (count d)"
  let ?d = "buf_read_advance (buf_read_dec d)"
  assume d: "logsize d \<noteq> BUF_SIZE_NONE" "unat (logdsize d) \<le> unat (logsize d)"
    "unat (logsize d) \<le> 15" "buf d = Some b" "length b = ?e * ?n" "r < ?n"
    "unat (rptr d) = ?e * r" "unat (wptr d) = ?e * ((r + ?c) mod ?n)" "?c \<le> ?n"
    "buf_elems d = ring_list (chunk ?e b) ?n r ?c"
  have fits: "?e * r + ?e \<le> length b" using chunk_range [OF d(6), of ?e] d(5) by simp
  have cpos: "0 < ?c" using assms(2) by (simp add: unat_gt_0)
  then obtain c where c: "?c = Suc c" by (cases ?c) auto
  then have c': "unat (count d - 1) = c" using u16_pred [OF cpos] by simp
  have same: "buf_realdsize ?d = ?e" "buf_realsize ?d = ?n" "buf_realdsize (buf_read_dec d) = ?e"
    "buf_realsize (buf_read_dec d) = ?n"
    by (simp_all add: buf_realdsize_def buf_realsize_def buf_read_advance_def buf_read_dec_def)
  have r': "unat (rptr ?d) = ?e * (Suc r mod ?n)"
    using buf_mod_incr_slot [of "buf_read_dec d" "rptr d" r] d same
    by (simp add: buf_read_advance_def buf_read_dec_def)
  have cp: "buf_read_copy d = Some (Some (chunk ?e b r))"
    using d fits assms(2) by (simp add: buf_read_copy_def fetch_def chunk_def)
  have "(r + Suc c) mod ?n = (Suc r mod ?n + c) mod ?n" by (simp add: mod_add_left_eq)
  then have "buf_inv ?d"
    unfolding buf_inv_def same using d c c' r'
    by (auto simp: buf_read_advance_def buf_read_dec_def buf_bytesize_prod [symmetric] buf_sizes(2)
        intro!: exI [of _ "Suc r mod ?n"])
  moreover have "buf_elems d = chunk ?e b r # buf_elems ?d"
    using d c c' r' by (simp add: buf_elems_def same ring_list_get)
      (simp add: buf_read_advance_def buf_read_dec_def)
  ultimately show thesis
    using cp fits
    by (intro that [of "chunk ?e b r" ?d])
      (simp_all add: buf_read_desc_def buf_read_advance_def buf_read_dec_def chunk_def)
qed

text \<open>The descriptor operations as total functions, as the queue contract reads them.\<close>

definition buf_put :: "u8 list \<Rightarrow> buf_desc \<Rightarrow> buf_desc" where
  "buf_put x d = (case buf_write_desc x d of None \<Rightarrow> d | Some (st, d') \<Rightarrow> d')"

definition buf_get :: "buf_desc \<Rightarrow> (u8 list \<times> buf_desc) option" where
  "buf_get d = (case buf_read_desc d of Some (PLATFORM_OK, x, d') \<Rightarrow> Some (x, d') | _ \<Rightarrow> None)"

definition buf_fits :: "buf_desc \<Rightarrow> u8 list \<Rightarrow> bool" where
  "buf_fits d x \<longleftrightarrow> length x = buf_realdsize d"

lemma length_buf_elems [simp]: "length (buf_elems d) = unat (count d)"
  by (simp add: buf_elems_def)

lemma buf_put_sizes [simp]: "logsize (buf_put x d) = logsize d" "logdsize (buf_put x d) = logdsize d"
  by (simp_all add: buf_put_def buf_write_desc_def split: option.split)

lemma put_all_sizes:
  "logsize (put_all buf_put xs d) = logsize d \<and> logdsize (put_all buf_put xs d) = logdsize d"
  by (induction xs arbitrary: d) simp_all

lemma buf_put_room:
  assumes "buf_inv d" and "buf_fits d x" and "length (buf_elems d) < buf_realsize d"
  shows "buf_inv (buf_put x d)" "buf_elems (buf_put x d) = buf_elems d @ [x]"
    "buf_realsize (buf_put x d) = buf_realsize d" "buf_fits (buf_put x d) y = buf_fits d y"
  using assms
  by (auto simp: buf_put_def buf_fits_def buf_realsize_def buf_realdsize_def
      elim!: buf_write_room [of d x])

interpretation device_buffer: bounded_fifo buf_inv buf_elems buf_realsize buf_fits buf_put buf_get
proof unfold_locales
  fix d x xs
  assume "buf_inv d" "buf_elems d = x # xs"
  moreover from this have "count d \<noteq> 0" by (metis length_buf_elems length_greater_0_conv list.distinct(1) unat_gt_0)
  ultimately show "\<exists>d'. buf_get d = Some (x, d') \<and> buf_inv d' \<and> buf_elems d' = xs
      \<and> buf_realsize d' = buf_realsize d"
    by (auto simp: buf_get_def buf_realsize_def elim!: buf_read_step [of d])
next
  fix d
  assume "buf_inv d" "buf_elems d = []"
  then have "count d = 0" by (metis length_buf_elems list.size(3) unat_eq_0)
  then show "buf_get d = None" by (simp add: buf_get_def buf_read_desc_def buf_read_copy_def)
qed (auto simp: buf_put_room)


section \<open>Properties\<close>

text \<open>A buffer that is enabled and empty accepts as many elements as it has room for and hands
  them out in the order they were written, after which it is empty; no step touches memory outside
  the allocated block.\<close>

theorem buf_fifo_order:
  assumes "buf_inv d" and "count d = 0"
    and "\<forall>x \<in> set xs. length x = buf_realdsize d" and "length xs \<le> buf_realsize d"
  shows "\<exists>d'. take_out buf_get (length xs) (put_all buf_put xs d) = Some (xs, d')
    \<and> buf_get d' = None"
proof (rule device_buffer.fifo_order)
  show "buf_elems d = []" using assms(2) by (simp add: buf_elems_def)
qed (use assms in \<open>simp_all add: buf_fits_def\<close>)

definition example_buf :: buf_desc where
  "example_buf = \<lparr>logsize = 2, logdsize = 0, wptr = 0, rptr = 0, count = 0, buf = Some [0, 0, 0, 0]\<rparr>"

lemma example_buf_inv: "buf_inv example_buf"
  by (auto simp: buf_inv_def example_buf_def buf_realsize_def buf_realdsize_def
      intro!: exI [of _ "0 :: nat"])

lemma example_buf_sizes: "buf_realsize example_buf = 4" "buf_realdsize example_buf = 1"
  by (simp_all add: example_buf_def buf_realsize_def buf_realdsize_def push_bit_eq_mult)

theorem buf_fifo_order_witness:
  "\<exists>d'. take_out buf_get 2 (put_all buf_put [[7], [9]] example_buf) = Some ([[7], [9]], d')
    \<and> buf_get d' = None"
  using buf_fifo_order [OF example_buf_inv, of "[[7], [9]]"]
  by (simp add: example_buf_sizes) (simp add: example_buf_def numeral_2_eq_2)

text \<open>C22: A write to a device with room returns \<^verbatim>\<open>PLATFORM_OK\<close>, appends the element to that
  device's queue and changes no other buffer; a read from a device with data returns
  \<^verbatim>\<open>PLATFORM_OK\<close> and the oldest element; a read from an empty device returns
  \<^verbatim>\<open>PLATFORM_UNDERFLOW\<close> and changes nothing.\<close>

theorem buf_write_read_refine:
  fixes s :: bufs
  assumes n: "n = bufh_check_resnum cfg resid resnum" and inv: "buf_inv (s resid n)"
  shows "(length x = buf_realdsize (s resid n) \<and> unat (count (s resid n)) < buf_realsize (s resid n) \<longrightarrow>
      (\<exists>s'. buf_write cfg resid resnum x s = Some (PLATFORM_OK, s') \<and> buf_inv (s' resid n)
        \<and> buf_elems (s' resid n) = buf_elems (s resid n) @ [x]
        \<and> (\<forall>i m. (i, m) \<noteq> (resid, n) \<longrightarrow> s' i m = s i m)))
    \<and> (buf_elems (s resid n) = y # ys \<longrightarrow>
      (\<exists>s'. buf_read cfg resid resnum s = Some (PLATFORM_OK, y, s') \<and> buf_inv (s' resid n)
        \<and> buf_elems (s' resid n) = ys \<and> (\<forall>i m. (i, m) \<noteq> (resid, n) \<longrightarrow> s' i m = s i m)))
    \<and> (buf_elems (s resid n) = [] \<longrightarrow>
      buf_read cfg resid resnum s = Some (PLATFORM_UNDERFLOW, [], s))"
proof (intro conjI impI)
  assume "length x = buf_realdsize (s resid n) \<and> unat (count (s resid n)) < buf_realsize (s resid n)"
  with inv obtain d' where "buf_write_desc x (s resid n) = Some (PLATFORM_OK, d')" "buf_inv d'"
      "buf_elems d' = buf_elems (s resid n) @ [x]"
    by (auto elim: buf_write_room)
  then show "\<exists>s'. buf_write cfg resid resnum x s = Some (PLATFORM_OK, s') \<and> buf_inv (s' resid n)
        \<and> buf_elems (s' resid n) = buf_elems (s resid n) @ [x]
        \<and> (\<forall>i m. (i, m) \<noteq> (resid, n) \<longrightarrow> s' i m = s i m)"
    by (auto simp: buf_write_def Let_def n)
next
  assume y: "buf_elems (s resid n) = y # ys"
  then have "count (s resid n) \<noteq> 0" by (auto simp: buf_elems_def)
  with inv obtain x d' where "buf_read_desc (s resid n) = Some (PLATFORM_OK, x, d')" "buf_inv d'"
      "buf_elems (s resid n) = x # buf_elems d'"
    by (rule buf_read_step)
  with y show "\<exists>s'. buf_read cfg resid resnum s = Some (PLATFORM_OK, y, s') \<and> buf_inv (s' resid n)
        \<and> buf_elems (s' resid n) = ys \<and> (\<forall>i m. (i, m) \<noteq> (resid, n) \<longrightarrow> s' i m = s i m)"
    by (auto simp: buf_read_def Let_def n)
next
  assume "buf_elems (s resid n) = []"
  then have "count (s resid n) = 0" by (metis length_buf_elems list.size(3) unat_eq_0)
  then show "buf_read cfg resid resnum s = Some (PLATFORM_UNDERFLOW, [], s)"
    by (simp add: buf_read_def Let_def buf_read_desc_def buf_read_copy_def n fun_upd_idem)
qed

theorem buf_write_read_refine_witness:
  "\<exists>s'. buf_write example_config BUF_ID_UART 0xD1 [7] (\<lambda>i m. example_buf) = Some (PLATFORM_OK, s')
    \<and> buf_elems (s' BUF_ID_UART 5) = [[7]]"
proof -
  have "bufh_check_resnum example_config BUF_ID_UART 0xD1 = 5"
    by (simp add: bufh_check_resnum_def example_config_def)
  moreover have "buf_elems example_buf = []" "unat (count example_buf) = 0"
    by (simp_all add: buf_elems_def example_buf_def)
  ultimately show ?thesis
    using buf_write_read_refine [where n = 5 and cfg = example_config and resid = BUF_ID_UART
        and resnum = "0xD1" and s = "\<lambda>i m. example_buf" and x = "[7]"]
    by (auto simp: example_buf_inv example_buf_sizes)
qed

text \<open>
  The receive interrupt may store elements before the copy, between the decrement of the count and
  the advance of the read pointer, and after it; \<open>ws1\<close> arrive after the copy and before the
  decrement, \<open>ws2\<close> before the advance, \<open>ws3\<close> after it.
\<close>

definition buf_read_interleaved ::
  "u8 list list \<Rightarrow> u8 list list \<Rightarrow> u8 list list \<Rightarrow> buf_desc \<Rightarrow> (u8 list \<times> buf_desc) option" where
  "buf_read_interleaved ws1 ws2 ws3 d =
     (case buf_read_copy d of
        Some (Some x) \<Rightarrow>
          (let d1 = buf_read_dec (put_all buf_put ws1 d);
               d2 = buf_read_advance (put_all buf_put ws2 d1)
           in Some (x, put_all buf_put ws3 d2))
      | _ \<Rightarrow> None)"

lemma buf_mod_incr_rptr [simp]: "buf_mod_incr (d\<lparr>rptr := p\<rparr>) m = buf_mod_incr d m"
  by (simp add: buf_mod_incr_def buf_realdsize_def buf_bytesize_def)

lemma buf_put_advance: "buf_put x (buf_read_advance d) = buf_read_advance (buf_put x d)"
  by (simp add: buf_put_def buf_write_desc_def buf_read_advance_def buf_realsize_def buf_realdsize_def
      buf_mod_incr_def buf_bytesize_def split: option.split)

lemma put_all_advance: "put_all buf_put ws (buf_read_advance d) = buf_read_advance (put_all buf_put ws d)"
  by (induction ws arbitrary: d) (simp_all add: buf_put_advance)

text \<open>C36: A read during which the receive interrupt stores any elements, between any of its steps,
  returns the oldest element and leaves the other elements followed by the stored ones, as long as
  there was room for each: the consumer and the interrupt need no lock but the one around the
  decrement.\<close>

theorem buf_read_interleaving_safe:
  assumes inv: "buf_inv d" and y: "buf_elems d = y # ys"
    and ws: "\<forall>x \<in> set (ws1 @ ws2 @ ws3). length x = buf_realdsize d"
    and room: "Suc (length ys + length ws1) \<le> buf_realsize d"
      "length ys + length ws1 + length ws2 + length ws3 \<le> buf_realsize d"
  shows "\<exists>d'. buf_read_interleaved ws1 ws2 ws3 d = Some (y, d') \<and> buf_inv d'
    \<and> buf_elems d' = ys @ ws1 @ ws2 @ ws3"
proof -
  let ?d1 = "put_all buf_put ws1 d"
  have d1: "buf_inv ?d1" "buf_elems ?d1 = y # ys @ ws1" "buf_realsize ?d1 = buf_realsize d"
    using device_buffer.put_all_contents [OF inv, of ws1] ws room y by (auto simp: buf_fits_def)
  from d1(2) have "count ?d1 \<noteq> 0" by (auto simp: buf_elems_def)
  with d1(1) obtain x d2 where d2: "d2 = buf_read_advance (buf_read_dec ?d1)" "buf_inv d2"
      "buf_elems ?d1 = x # buf_elems d2" "logsize d2 = logsize ?d1" "logdsize d2 = logdsize ?d1"
    by (rule buf_read_step)
  from y have "count d \<noteq> 0" by (auto simp: buf_elems_def)
  with inv obtain x0 where x0: "buf_read_copy d = Some (Some x0)" "hd (buf_elems d) = x0"
    by (rule buf_read_step) auto
  have "buf_read_interleaved ws1 ws2 ws3 d = Some (y, put_all buf_put (ws2 @ ws3) d2)"
  proof -
    have "put_all buf_put (ws2 @ ws3) d2 = put_all buf_put ws3 (put_all buf_put ws2 d2)"
      by (induction ws2 arbitrary: d2) simp_all
    then show ?thesis
      using x0 y d2(1) by (simp add: buf_read_interleaved_def put_all_advance)
  qed
  moreover have "buf_inv (put_all buf_put (ws2 @ ws3) d2)
      \<and> buf_elems (put_all buf_put (ws2 @ ws3) d2) = buf_elems d2 @ ws2 @ ws3"
  proof -
    have e2: "buf_elems d2 = ys @ ws1" using d1(2) d2(3) by simp
    have sz: "buf_realsize d2 = buf_realsize d" "buf_realdsize d2 = buf_realdsize d"
      using d1(3) d2(4,5) by (simp_all add: buf_realsize_def buf_realdsize_def put_all_sizes)
    show ?thesis
      using device_buffer.put_all_contents [OF d2(2), of "ws2 @ ws3"] ws room
      unfolding e2 sz buf_fits_def by auto
  qed
  ultimately show ?thesis using d1 d2 by auto
qed


theorem buf_read_interleaving_safe_witness:
  "\<exists>d'. buf_read_interleaved [[8]] [[9]] [[10]] (buf_put [7] example_buf) = Some ([7], d')
    \<and> buf_inv d' \<and> buf_elems d' = [[8], [9], [10]]"
proof -
  have "buf_elems example_buf = []" by (simp add: buf_elems_def example_buf_def)
  then have "buf_inv (buf_put [7] example_buf)" "buf_elems (buf_put [7] example_buf) = [[7]]"
    using buf_put_room [OF example_buf_inv, of "[7]"] by (simp_all add: buf_fits_def example_buf_sizes)
  moreover have "buf_realdsize (buf_put [7] example_buf) = 1" "buf_realsize (buf_put [7] example_buf) = 4"
    using example_buf_sizes by (simp_all add: buf_realdsize_def buf_realsize_def)
  ultimately show ?thesis
    using buf_read_interleaving_safe [of "buf_put [7] example_buf" "[7]" "[]" "[[8]]" "[[9]]" "[[10]]"]
    by simp
qed

text \<open>The overflow test of \<^verbatim>\<open>buf_write\<close> (\<^verbatim>\<open>count > BUF_REALSIZE\<close>) lets one element more in than
  the buffer holds: a write to a full buffer returns \<^verbatim>\<open>PLATFORM_OK\<close>, replaces the oldest unread
  element, and the next read returns the newest element in its place; only the write after that is
  refused.\<close>

theorem buf_write_full_overwrites:
  assumes inv: "buf_inv d" and full: "unat (count d) = buf_realsize d"
    and x: "length x = buf_realdsize d"
  shows "\<exists>d' d''. buf_write_desc x d = Some (PLATFORM_OK, d')
    \<and> unat (count d') = buf_realsize d + 1
    \<and> buf_read_desc d' = Some (PLATFORM_OK, x, d'')
    \<and> buf_write_desc z d' = Some (PLATFORM_ERR, d')"
  using inv x
proof (rule buf_write_step)
  fix b b' r
  let ?e = "buf_realdsize d" and ?n = "buf_realsize d" and ?c = "unat (count d)"
  let ?d = "d\<lparr>buf := Some b', wptr := buf_mod_incr d (wptr d), count := count d + 1\<rparr>"
  assume h: "unat (rptr d) = ?e * r" "r < ?n" "length b' = length b" "length b = 2 ^ unat (logsize d)"
    "chunk ?e b' = (chunk ?e b)((r + ?c) mod ?n := x)"
    "buf_write_desc x d = Some (PLATFORM_OK, ?d)" "unat (count d + 1) = Suc ?c"
  have same: "buf_realdsize ?d = ?e" "buf_realsize ?d = ?n"
    by (simp_all add: buf_realdsize_def buf_realsize_def)
  have ls: "logsize d \<noteq> BUF_SIZE_NONE" "length b = ?e * ?n"
    using inv h by (simp_all add: buf_inv_def buf_bytesize_prod [symmetric] buf_sizes(2))
  have "chunk ?e b' r = x" using h full by simp
  then have "fetch b' (?e * r) ?e = Some x"
    using chunk_range [OF h(2), of ?e] ls h(3) by (simp add: fetch_def chunk_def)
  moreover have "count d + 1 \<noteq> 0" using h(7) by (metis nat.distinct(1) unat_0)
  ultimately have "buf_read_copy ?d = Some (Some x)"
    using ls h(1) by (simp add: buf_read_copy_def same)
  then have "buf_read_desc ?d = Some (PLATFORM_OK, x, buf_read_advance (buf_read_dec ?d))"
    by (simp add: buf_read_desc_def)
  moreover have "buf_write_desc z ?d = Some (PLATFORM_ERR, ?d)"
    using h(7) full ls(1) by (simp add: buf_write_desc_def same)
  ultimately show ?thesis using h(6,7) full by simp
qed

theorem buf_write_full_overwrites_witness:
  "\<exists>d' d''. buf_write_desc [5] (put_all buf_put [[1], [2], [3], [4]] example_buf) = Some (PLATFORM_OK, d')
    \<and> buf_read_desc d' = Some (PLATFORM_OK, [5], d'')"
proof -
  have e: "buf_elems example_buf = []" by (simp add: buf_elems_def example_buf_def)
  let ?d = "put_all buf_put [[1], [2], [3], [4]] example_buf"
  have d: "buf_inv ?d" "buf_elems ?d = [[1], [2], [3], [4]]" "buf_realsize ?d = 4"
    using device_buffer.put_all_contents [OF example_buf_inv, of "[[1], [2], [3], [4]]"]
    by (simp_all add: e buf_fits_def example_buf_sizes)
  moreover have "unat (count ?d) = 4"
    using arg_cong [of _ _ length, OF d(2)] by simp
  moreover have "buf_realdsize ?d = 1" using example_buf_sizes by (simp add: buf_realdsize_def)
  ultimately show ?thesis using buf_write_full_overwrites [of ?d "[5]" "[]"] by auto
qed

lemma realloc_length: "realloc_spec ra \<Longrightarrow> ra p n = Some b \<Longrightarrow> length b = n"
  unfolding realloc_spec_def by blast

text \<open>Setting a buffer of \<open>2 ^ lsize\<close> elements of \<open>2 ^ ldsize\<close> bytes and flushing it (the
  order in which a UART is given its buffer) leaves an empty queue of that capacity, when
  the allocator grants the block; when it does not, the call fails and the device is unbuffered.\<close>

theorem buf_set_flush:
  fixes s :: bufs
  assumes ra: "realloc_spec ra" and sz: "lsize \<noteq> BUF_SIZE_NONE" "unat lsize + unat ldsize \<le> 15"
    and n: "n = bufh_check_resnum cfg resid resnum"
    and set: "buf_set cfg ra resid resnum lsize ldsize s = (st, s')"
  shows "(st = PLATFORM_OK \<longrightarrow>
      buf_inv (buf_flush cfg resid resnum s' resid n) \<and> buf_elems (buf_flush cfg resid resnum s' resid n) = []
      \<and> buf_get_size cfg resid resnum s' = 2 ^ unat lsize)
    \<and> (st \<noteq> PLATFORM_OK \<longrightarrow> st = PLATFORM_ERR \<and> \<not> buf_is_enabled cfg resid resnum s')"
proof -
  let ?d = "(s resid n)\<lparr>logdsize := ldsize, logsize := lsize + ldsize\<rparr>"
  have ls: "unat (lsize + ldsize) = unat lsize + unat ldsize"
    using sz(2) by (simp add: unat_word_ariths)
  then have nz: "lsize + ldsize \<noteq> 0" using sz(1) by (metis add_is_0 unat_0 unat_eq_0)
  show ?thesis
  proof (cases "ra (buf ?d) (buf_bytesize ?d)")
    case None
    then show ?thesis using set sz(1)
      by (auto simp: buf_set_def buf_set_desc_def Let_def n buf_is_enabled_def split: if_splits)
  next
    case (Some b)
    then have "length b = buf_bytesize ?d" using ra by (auto simp: realloc_spec_def)
    then have b: "length b = 2 ^ (unat lsize + unat ldsize)" by (simp add: buf_sizes ls)
    from Some set have s': "st = PLATFORM_OK" "s' = s(resid := (s resid)(n := ?d\<lparr>buf := Some b\<rparr>))"
      by (auto simp: buf_set_def buf_set_desc_def Let_def n)
    have "buf_inv (buf_flush cfg resid resnum s' resid n)"
      using b ls sz nz by (auto simp: s' buf_flush_def Let_def n buf_inv_def buf_sizes
          intro!: exI [of _ "0 :: nat"])
    then show ?thesis using nz ls
      by (simp add: s' buf_flush_def Let_def n buf_elems_def buf_get_size_def buf_sizes)
  qed
qed

theorem buf_set_flush_witness:
  "\<exists>s'. buf_set example_config (\<lambda>p m. Some (replicate m 0)) BUF_ID_UART 1 3 0 (\<lambda>i m. example_buf) = (PLATFORM_OK, s')
    \<and> buf_inv (buf_flush example_config BUF_ID_UART 1 s' BUF_ID_UART 1)"
proof -
  let ?ra = "\<lambda>p m. Some (replicate m 0)"
  have ra: "realloc_spec (\<lambda>p m. if p = Some (replicate 4 0) then Some (replicate m 0) else None)"
    by (auto simp: realloc_spec_def take_replicate min_def split: option.splits)
  obtain s' where s': "buf_set example_config
      (\<lambda>p m. if p = Some (replicate 4 0) then Some (replicate m 0) else None)
      BUF_ID_UART 1 3 0 (\<lambda>i m. example_buf) = (PLATFORM_OK, s')"
    by (simp add: buf_set_def buf_set_desc_def example_buf_def bufh_check_resnum_def numeral_eq_Suc)
  then have "buf_inv (buf_flush example_config BUF_ID_UART 1 s' BUF_ID_UART 1)"
    using buf_set_flush [OF ra _ _ _ s'] by (simp add: bufh_check_resnum_def)
  moreover have "buf_set example_config ?ra BUF_ID_UART 1 3 0 (\<lambda>i m. example_buf) = (PLATFORM_OK, s')"
    using s' by (simp add: buf_set_def buf_set_desc_def example_buf_def bufh_check_resnum_def
        numeral_eq_Suc)
  ultimately show ?thesis by blast
qed

text \<open>\<^verbatim>\<open>buf_set\<close> keeps the pointers of a buffer it shrinks: after it gives a device a smaller
  block while the write pointer is beyond the new end, the next write is outside the
  block.\<close>

theorem buf_set_shrink_unsafe:
  fixes s :: bufs
  assumes ra: "realloc_spec ra" and n: "n = bufh_check_resnum cfg resid resnum"
    and sz: "lsize \<noteq> BUF_SIZE_NONE" "unat lsize + unat ldsize \<le> 15"
    and beyond: "2 ^ (unat lsize + unat ldsize) \<le> unat (wptr (s resid n))"
    and cnt: "unat (count (s resid n)) \<le> 2 ^ unat lsize"
    and set: "buf_set cfg ra resid resnum lsize ldsize s = (PLATFORM_OK, s')"
  shows "buf_write cfg resid resnum x s' = None"
proof -
  let ?d = "(s resid n)\<lparr>logdsize := ldsize, logsize := lsize + ldsize\<rparr>"
  have ls: "unat (lsize + ldsize) = unat lsize + unat ldsize"
    using sz(2) by (simp add: unat_word_ariths)
  then have nz: "lsize + ldsize \<noteq> 0" using sz(1) by (metis add_is_0 unat_0 unat_eq_0)
  obtain b where s': "s' = s(resid := (s resid)(n := ?d\<lparr>buf := Some b\<rparr>))"
    and b: "length b = 2 ^ (unat lsize + unat ldsize)"
    using set sz(1) ls
    by (auto simp: buf_set_def buf_set_desc_def Let_def n buf_sizes dest: realloc_length [OF ra]
        split: option.splits)
  have "blit b (unat (wptr (s resid n))) (take (2 ^ unat ldsize) x) = None" if "2 ^ unat ldsize \<le> length x"
  proof -
    have "0 < (2::nat) ^ unat ldsize" by simp
    with beyond have "\<not> unat (wptr (s resid n)) + 2 ^ unat ldsize \<le> 2 ^ (unat lsize + unat ldsize)"
      by linarith
    then show ?thesis using that b by (simp add: blit_def)
  qed
  then show ?thesis using nz cnt ls
    by (simp add: buf_write_def Let_def n [symmetric] s' buf_write_desc_def buf_sizes fetch_def)
qed

definition example_used_buf :: buf_desc where
  "example_used_buf = \<lparr>logsize = 4, logdsize = 0, wptr = 9, rptr = 8, count = 1, buf = Some (replicate 16 0)\<rparr>"

theorem buf_set_shrink_unsafe_witness:
  "buf_inv example_used_buf \<and> (\<exists>s'. buf_set example_config (\<lambda>p m. Some (replicate m 0)) BUF_ID_UART 0 3 0
      (\<lambda>i m. example_used_buf) = (PLATFORM_OK, s') \<and> buf_write example_config BUF_ID_UART 0 [1] s' = None)"
proof
  show "buf_inv example_used_buf"
    by (auto simp: buf_inv_def example_used_buf_def buf_sizes intro!: exI [of _ "8 :: nat"])
  let ?ra = "\<lambda>p m. if p = Some (replicate 16 0) then Some (replicate m 0) else None"
  have ra: "realloc_spec ?ra"
    by (auto simp: realloc_spec_def take_replicate min_def split: option.splits)
  obtain s' where s': "buf_set example_config ?ra BUF_ID_UART 0 3 0 (\<lambda>i m. example_used_buf) = (PLATFORM_OK, s')"
    by (simp add: buf_set_def buf_set_desc_def example_used_buf_def bufh_check_resnum_def)
  moreover have "buf_set example_config (\<lambda>p m. Some (replicate m 0)) BUF_ID_UART 0 3 0
      (\<lambda>i m. example_used_buf) = (PLATFORM_OK, s')"
    using s' by (simp add: buf_set_def buf_set_desc_def example_used_buf_def bufh_check_resnum_def)
  moreover have "buf_write example_config BUF_ID_UART 0 [1] s' = None"
    by (rule buf_set_shrink_unsafe [OF ra refl _ _ _ _ s'])
      (simp_all add: example_used_buf_def bufh_check_resnum_def)
  ultimately show "\<exists>s'. buf_set example_config (\<lambda>p m. Some (replicate m 0)) BUF_ID_UART 0 3 0
      (\<lambda>i m. example_used_buf) = (PLATFORM_OK, s') \<and> buf_write example_config BUF_ID_UART 0 [1] s' = None"
    by blast
qed

text \<open>The UART ids that exist: physical ones, virtual ones and the CDC port.\<close>

definition uart_id_valid :: "build_config \<Rightarrow> nat \<Rightarrow> bool" where
  "uart_id_valid cfg i \<longleftrightarrow> i < NUM_UART cfg
     \<or> SERMUX_SERVICE_ID_FIRST \<le> i \<and> i < SERMUX_SERVICE_ID_FIRST + SERMUX_NUM_VUART cfg
     \<or> i = CDC_UART_ID \<and> NUM_CDC_UART cfg = 1"

text \<open>The translation of UART ids to buffer numbers stays inside the descriptor array and
  gives different ports different buffers.\<close>

theorem bufh_check_resnum_inj:
  assumes "config_ok cfg" and "uart_id_valid cfg i" and "uart_id_valid cfg j"
  shows "bufh_check_resnum cfg BUF_ID_UART i < num_total_uart cfg
    \<and> (bufh_check_resnum cfg BUF_ID_UART i = bufh_check_resnum cfg BUF_ID_UART j \<longrightarrow> i = j)"
  using assms unfolding config_ok_def uart_id_valid_def bufh_check_resnum_def num_total_uart_def
  by auto

theorem bufh_check_resnum_inj_witness:
  "bufh_check_resnum example_config BUF_ID_UART 0xD1 \<noteq> bufh_check_resnum example_config BUF_ID_UART 0xB0
    \<and> bufh_check_resnum example_config BUF_ID_UART 0xB0 < num_total_uart example_config"
  using bufh_check_resnum_inj [OF example_config_ok, of "0xB0" "0xD1"]
  by (auto simp: uart_id_valid_def example_config_def)

end
