(* ===== verification/Elua_Int.thy ===== *)
theory Elua_Int
  imports Ring
begin

text \<open>
  Interrupts for Lua programs, \<^verbatim>\<open>src/elua_int.c\<close>: interrupt handlers put elements into a queue
  and set the Lua hook, the Lua virtual machine calls the hook, the hook takes one element and calls
  the Lua handler. The state is the file's static variables, with the parts of the Lua state the file
  uses: whether a state exists (\<^verbatim>\<open>lua_getstate\<close>), which of its threads have the hook set (\<^verbatim>\<open>lua_sethook\<close>; a coroutine
  inherits it from the thread that creates it), the
  handler table in the registry, and the calls made of Lua handlers, in order. The hook is split
  where an interrupt can come in between (\<open>int_step\<close>), and a handler may raise an error, which leaves the hook without its last
  part. The lemmas show that the queue is a
  bounded queue and that, however hook and interrupts interleave, each accepted interrupt is taken
  once, in order, and the hook is set exactly as long as it has work, until an error or an inherited hook lets the hook run
  on an empty queue; what happens then is shown at the end.
\<close>

record elua_int_element =
  id :: u8
  resnum :: u16

type_synonym lua_ref = nat
type_synonym c_handler = nat
type_synonym lua_thread = nat

text \<open>The threads of the Lua state are numbered; the main thread, which \<^verbatim>\<open>lua_getstate\<close> returns, is 0.\<close>

abbreviation "MAIN_THREAD \<equiv> (0 :: lua_thread)"

record int_state =
  elua_int_read_idx :: u8
  elua_int_write_idx :: u8
  elua_int_queue :: "elua_int_element list"
  elua_int_flags :: "u32 list"
  lua_state :: bool
  lua_hooks :: "lua_thread set"
  inttable :: "u8 \<Rightarrow> lua_ref option"
  lua_calls :: "(lua_ref \<times> u16) list"

abbreviation "ELUA_INT_EMPTY_SLOT \<equiv> (0 :: u8)"
abbreviation "ELUA_INT_FIRST_ID \<equiv> (1 :: nat)"
abbreviation "LUA_INT_MAX_SOURCES \<equiv> (128 :: nat)"

section \<open>Enable flags\<close>

definition elua_int_enable :: "u8 \<Rightarrow> int_state \<Rightarrow> int_state" where
  "elua_int_enable inttype s =
     (if unat inttype < LUA_INT_MAX_SOURCES
      then let i = unat (drop_bit 5 inttype)
           in s\<lparr>elua_int_flags := (elua_int_flags s)[i :=
                  elua_int_flags s ! i OR push_bit (unat (inttype AND 0x1F)) 1]\<rparr>
      else s)"

definition elua_int_disable :: "u8 \<Rightarrow> int_state \<Rightarrow> int_state" where
  "elua_int_disable inttype s =
     (if unat inttype < LUA_INT_MAX_SOURCES
      then let i = unat (drop_bit 5 inttype)
           in s\<lparr>elua_int_flags := (elua_int_flags s)[i :=
                  elua_int_flags s ! i AND NOT (push_bit (unat (inttype AND 0x1F)) 1)]\<rparr>
      else s)"

definition elua_int_is_enabled :: "u8 \<Rightarrow> int_state \<Rightarrow> bool" where
  "elua_int_is_enabled inttype s =
     (if unat inttype < LUA_INT_MAX_SOURCES
      then elua_int_flags s ! unat (drop_bit 5 inttype) AND push_bit (unat (inttype AND 0x1F)) 1 \<noteq> 0
      else False)"

fun clear_flags :: "nat \<Rightarrow> u32 list \<Rightarrow> u32 list" where
  "clear_flags 0 flags = flags"
| "clear_flags (Suc n) flags = clear_flags n (flags[n := 0])"

definition elua_int_disable_all :: "int_state \<Rightarrow> int_state" where
  "elua_int_disable_all s =
     s\<lparr>elua_int_flags := clear_flags (drop_bit 5 LUA_INT_MAX_SOURCES) (elua_int_flags s)\<rparr>"

section \<open>The queue\<close>

definition int_idx_incr :: "build_config \<Rightarrow> u8 \<Rightarrow> u8" where
  "int_idx_incr cfg i = word_of_int ((uint i + 1) AND (push_bit (PLATFORM_INT_QUEUE_LOG_SIZE cfg) 1 - 1))"

definition elua_int_add :: "build_config \<Rightarrow> u8 \<Rightarrow> u16 \<Rightarrow> int_state \<Rightarrow> platform_status \<times> int_state" where
  "elua_int_add cfg inttype rn s =
     (if unat inttype < ELUA_INT_FIRST_ID \<or> unat inttype > INT_ELUA_LAST cfg then (PLATFORM_ERR, s)
      else if \<not> lua_state s \<or> \<not> elua_int_is_enabled inttype s then (PLATFORM_ERR, s)
      else let w = unat (elua_int_write_idx s)
           in if id (elua_int_queue s ! w) \<noteq> ELUA_INT_EMPTY_SLOT then (PLATFORM_ERR, s)
              else (PLATFORM_OK,
                s\<lparr>elua_int_queue := (elua_int_queue s)[w := \<lparr>id = inttype, resnum = rn\<rparr>],
                  elua_int_write_idx := int_idx_incr cfg (elua_int_write_idx s),
                  lua_hooks := insert MAIN_THREAD (lua_hooks s)\<rparr>))"

text \<open>The hook, in the steps between which an interrupt can come in.\<close>

definition hook_fetch :: "int_state \<Rightarrow> elua_int_element" where
  "hook_fetch s = elua_int_queue s ! unat (elua_int_read_idx s)"

definition hook_clear :: "int_state \<Rightarrow> int_state" where
  "hook_clear s = (let r = unat (elua_int_read_idx s)
     in s\<lparr>elua_int_queue := (elua_int_queue s)[r := (elua_int_queue s ! r)\<lparr>id := ELUA_INT_EMPTY_SLOT\<rparr>]\<rparr>)"

definition hook_advance :: "build_config \<Rightarrow> int_state \<Rightarrow> int_state" where
  "hook_advance cfg s = s\<lparr>elua_int_read_idx := int_idx_incr cfg (elua_int_read_idx s)\<rparr>"

text \<open>The call of the Lua handler, if there is one for an enabled interrupt: it is recorded, and the hook waits for it.\<close>

definition hook_call :: "elua_int_element \<Rightarrow> int_state \<Rightarrow> bool \<times> int_state" where
  "hook_call crt s =
     (if elua_int_is_enabled (id crt) s
      then case inttable s (id crt) of
             Some f \<Rightarrow> (True, s\<lparr>lua_calls := lua_calls s @ [(f, resnum crt)]\<rparr>)
           | None \<Rightarrow> (False, s)
      else (False, s))"

definition hook_finish :: "lua_thread \<Rightarrow> int_state \<Rightarrow> int_state" where
  "hook_finish L s =
     (if id (elua_int_queue s ! unat (elua_int_read_idx s)) = ELUA_INT_EMPTY_SLOT
      then s\<lparr>lua_hooks := lua_hooks s - {L}\<rparr> else s)"

text \<open>The whole hook on thread \<open>L\<close>, without interrupts in between. The call of the handler is not protected: \<open>fails\<close> says which elements make their
  handler raise an error, and then the error leaves the hook at once.\<close>

definition elua_int_hook :: "build_config \<Rightarrow> (elua_int_element \<Rightarrow> bool) \<Rightarrow> lua_thread \<Rightarrow> int_state \<Rightarrow> int_state" where
  "elua_int_hook cfg fails L s =
     (let crt = hook_fetch s; (called, s') = hook_call crt (hook_advance cfg (hook_clear s))
      in if called \<and> fails crt then s' else hook_finish L s')"

definition elua_int_cleanup :: "int_state \<Rightarrow> int_state" where
  "elua_int_cleanup s =
     (elua_int_disable_all s)\<lparr>elua_int_read_idx := 0, elua_int_write_idx := 0,
        elua_int_queue := map (\<lambda>_. \<lparr>id = ELUA_INT_EMPTY_SLOT, resnum = 0\<rparr>) (elua_int_queue s)\<rparr>"

text \<open>The part of \<^verbatim>\<open>lua_close\<close> (\<^verbatim>\<open>src/lua/lstate.c\<close>) that runs with interrupts disabled. The hook of the main thread is cleared; the other threads
  end with their state.\<close>

definition lua_close_int :: "int_state \<Rightarrow> int_state" where
  "lua_close_int s =
     elua_int_cleanup (s\<lparr>lua_hooks := {}, lua_state := False, inttable := \<lambda>_. None\<rparr>)"

section \<open>C handlers\<close>

definition elua_int_set_c_handler ::
  "build_config \<Rightarrow> u8 \<Rightarrow> c_handler option \<Rightarrow> c_handler option list
     \<Rightarrow> c_handler option \<times> c_handler option list" where
  "elua_int_set_c_handler cfg inttype phandler hs =
     (if unat inttype < ELUA_INT_FIRST_ID \<or> unat inttype > INT_ELUA_LAST cfg then (None, hs)
      else let i = unat (inttype - 1) in (hs ! i, hs[i := phandler]))"

definition elua_int_get_c_handler ::
  "build_config \<Rightarrow> u8 \<Rightarrow> c_handler option list \<Rightarrow> c_handler option" where
  "elua_int_get_c_handler cfg inttype hs =
     (if unat inttype < ELUA_INT_FIRST_ID \<or> unat inttype > INT_ELUA_LAST cfg then None
      else hs ! (unat inttype - ELUA_INT_FIRST_ID))"

section \<open>The flags are a set of interrupt ids\<close>

lemma u8_split [mask_simps]:
  fixes i :: u8
  shows "unat (drop_bit 5 i) = unat i div 32" "unat (i AND 0x1F) = unat i mod 32"
proof -
  show "unat (drop_bit 5 i) = unat i div 32"
    by (simp add: drop_bit_eq_div unat_div_distrib)
  have "i AND 0x1F = take_bit 5 i" by (simp add: take_bit_eq_mask mask_eq_exp_minus_1)
  then show "unat (i AND 0x1F) = unat i mod 32"
    by (simp only: unsigned_take_bit_eq) (simp add: take_bit_eq_mod)
qed

definition flags_ok :: "int_state \<Rightarrow> bool" where
  "flags_ok s \<longleftrightarrow> length (elua_int_flags s) = 4"

lemma is_enabled_bit:
  "elua_int_is_enabled i s \<longleftrightarrow> unat i < 128 \<and> bit (elua_int_flags s ! (unat i div 32)) (unat i mod 32)"
  by (simp add: elua_int_is_enabled_def u8_split and_single_bit)

lemma u8_div_mod_inj: "unat (i :: u8) div 32 = unat j div 32 \<Longrightarrow> unat i mod 32 = unat j mod 32 \<Longrightarrow> i = j"
  by (metis div_mult_mod_eq word_unat_eq_iff)

lemma enable_is_enabled:
  assumes "flags_ok s"
  shows "elua_int_is_enabled j (elua_int_enable i s) \<longleftrightarrow>
    elua_int_is_enabled j s \<or> j = i \<and> unat i < 128"
  using assms u8_div_mod_inj [of j i]
  by (auto simp: is_enabled_bit elua_int_enable_def Let_def flags_ok_def u8_split nth_list_update
      bit_or_iff u32_single_bit)

lemma disable_is_enabled:
  assumes "flags_ok s"
  shows "elua_int_is_enabled j (elua_int_disable i s) \<longleftrightarrow> elua_int_is_enabled j s \<and> j \<noteq> i"
  using assms u8_div_mod_inj [of j i]
  by (auto simp: is_enabled_bit elua_int_disable_def Let_def flags_ok_def u8_split nth_list_update
      bit_and_iff bit_not_iff u32_single_bit)

lemma clear_flags_keep: "n \<le> i \<Longrightarrow> clear_flags n fs ! i = fs ! i"
  by (induction n arbitrary: fs) simp_all

lemma clear_flags_nth: "n \<le> length fs \<Longrightarrow> i < n \<Longrightarrow> clear_flags n fs ! i = 0"
proof (induction n arbitrary: fs)
  case (Suc n)
  then show ?case by (cases "i = n") (simp_all add: clear_flags_keep)
qed simp

lemma length_clear_flags [simp]: "length (clear_flags n fs) = length fs"
  by (induction n arbitrary: fs) simp_all

section \<open>The queue is a bounded queue\<close>

abbreviation int_queue_size :: "build_config \<Rightarrow> nat" where
  "int_queue_size cfg \<equiv> 2 ^ PLATFORM_INT_QUEUE_LOG_SIZE cfg"

text \<open>\<open>queue_at cfg r c s\<close>: the queue holds \<open>c\<close> elements from slot \<open>r\<close> on, the other slots are
  empty, and the write index is after the last.\<close>

definition queue_at :: "build_config \<Rightarrow> nat \<Rightarrow> nat \<Rightarrow> int_state \<Rightarrow> bool" where
  "queue_at cfg r c s \<longleftrightarrow> length (elua_int_queue s) = int_queue_size cfg
     \<and> r < int_queue_size cfg \<and> c \<le> int_queue_size cfg
     \<and> unat (elua_int_write_idx s) = (r + c) mod int_queue_size cfg
     \<and> (\<forall>i < c. id (elua_int_queue s ! ((r + i) mod int_queue_size cfg)) \<noteq> ELUA_INT_EMPTY_SLOT)
     \<and> (\<forall>i. c \<le> i \<and> i < int_queue_size cfg \<longrightarrow>
          id (elua_int_queue s ! ((r + i) mod int_queue_size cfg)) = ELUA_INT_EMPTY_SLOT)"

definition queued_from :: "build_config \<Rightarrow> nat \<Rightarrow> nat \<Rightarrow> int_state \<Rightarrow> elua_int_element list" where
  "queued_from cfg r c s = ring_list (\<lambda>i. elua_int_queue s ! i) (int_queue_size cfg) r c"

lemma int_idx_incr_unat:
  assumes "PLATFORM_INT_QUEUE_LOG_SIZE cfg \<le> 8"
  shows "unat (int_idx_incr cfg i) = Suc (unat i) mod int_queue_size cfg"
proof -
  have "(uint i + 1) AND (2 ^ PLATFORM_INT_QUEUE_LOG_SIZE cfg - 1) = int (Suc (unat i) mod int_queue_size cfg)"
    by (simp add: and_pow2_minus_1 zmod_int ac_simps)
  moreover have "Suc (unat i) mod int_queue_size cfg < 2 ^ 8"
    using assms by (intro less_le_trans [OF mod_less_divisor power_increasing]) auto
  ultimately show ?thesis by (simp add: int_idx_incr_def unat_of_nat take_bit_nat_eq_self)
qed

lemma queue_at_unique:
  assumes "queue_at cfg r c s" and "queue_at cfg r c' s"
  shows "c = c'"
proof (rule ccontr)
  assume "c \<noteq> c'"
  then consider "c < c'" | "c' < c" by linarith
  then show False using assms by cases (auto simp: queue_at_def dest: spec [of _ c] spec [of _ c'])
qed

lemma queue_at_add:
  assumes q: "queue_at cfg r c s" and log: "PLATFORM_INT_QUEUE_LOG_SIZE cfg \<le> 8"
    and room: "c < int_queue_size cfg" and e: "id e \<noteq> ELUA_INT_EMPTY_SLOT"
    and w: "w = unat (elua_int_write_idx s)"
  shows "queue_at cfg r (Suc c) (s\<lparr>elua_int_queue := (elua_int_queue s)[w := e],
      elua_int_write_idx := int_idx_incr cfg (elua_int_write_idx s), lua_hooks := h\<rparr>)"
    and "queued_from cfg r (Suc c) (s\<lparr>elua_int_queue := (elua_int_queue s)[w := e],
      elua_int_write_idx := int_idx_incr cfg (elua_int_write_idx s), lua_hooks := h\<rparr>) =
      queued_from cfg r c s @ [e]"
proof -
  let ?n = "int_queue_size cfg" and ?q = "elua_int_queue s"
  have w': "w = (r + c) mod ?n" "w < length ?q" using q w by (auto simp: queue_at_def)
  have ne: "(r + i) mod ?n \<noteq> w" if "i < ?n" "i \<noteq> c" for i
    using that room mod_offset_inj [of r i ?n c] by (auto simp: w')
  have nth: "?q[w := e] ! ((r + i) mod ?n) = (if i = c then e else ?q ! ((r + i) mod ?n))" if "i < ?n" for i
    using that ne [of i] w' by (cases "i = c") auto
  show "queue_at cfg r (Suc c) (s\<lparr>elua_int_queue := ?q[w := e],
      elua_int_write_idx := int_idx_incr cfg (elua_int_write_idx s), lua_hooks := h\<rparr>)"
    using q room e nth unfolding queue_at_def
    by (auto simp: int_idx_incr_unat [OF log] mod_Suc_eq less_Suc_eq_le)
  have "ring_list (\<lambda>i. ?q[w := e] ! i) ?n r (Suc c) =
      ring_list ((\<lambda>i. ?q ! i)((r + c) mod ?n := e)) ?n r (Suc c)"
    using nth room ne by (intro ring_list_cong) (auto simp: w'(1) [symmetric])
  then show "queued_from cfg r (Suc c) (s\<lparr>elua_int_queue := ?q[w := e],
      elua_int_write_idx := int_idx_incr cfg (elua_int_write_idx s), lua_hooks := h\<rparr>) =
      queued_from cfg r c s @ [e]"
    using ring_list_put [OF room, of "\<lambda>i. ?q ! i" r e] by (simp add: queued_from_def)
qed

lemma queue_at_take:
  assumes q: "queue_at cfg r (Suc c) s"
  shows "queue_at cfg (Suc r mod int_queue_size cfg) c
      (s\<lparr>elua_int_queue := (elua_int_queue s)[r := (elua_int_queue s ! r)\<lparr>id := ELUA_INT_EMPTY_SLOT\<rparr>]\<rparr>)"
    and "queued_from cfg r (Suc c) s = elua_int_queue s ! r #
      queued_from cfg (Suc r mod int_queue_size cfg) c
      (s\<lparr>elua_int_queue := (elua_int_queue s)[r := (elua_int_queue s ! r)\<lparr>id := ELUA_INT_EMPTY_SLOT\<rparr>]\<rparr>)"
proof -
  let ?n = "int_queue_size cfg" and ?q = "elua_int_queue s"
  let ?q' = "?q[r := (?q ! r)\<lparr>id := ELUA_INT_EMPTY_SLOT\<rparr>]"
  have r: "r < ?n" "length ?q = ?n" "Suc c \<le> ?n" using q by (auto simp: queue_at_def)
  have shift: "(Suc r mod ?n + i) mod ?n = (r + Suc i) mod ?n" for i by (simp add: mod_add_left_eq)
  have ne: "(r + Suc i) mod ?n \<noteq> r" if "Suc i < ?n" for i
    using mod_offset_inj [of r "Suc i" ?n 0] that r by auto
  have last: "(r + Suc i) mod ?n = r" if "Suc i = ?n" for i using r(1) unfolding that by simp
  have "id (?q' ! ((Suc r mod ?n + i) mod ?n)) = ELUA_INT_EMPTY_SLOT" if "c \<le> i" "i < ?n" for i
  proof (cases "Suc i = ?n")
    case True
    then show ?thesis using r last by (simp add: shift del: add_Suc_right)
  next
    case False
    with that have "Suc i < ?n" by simp
    then have "?q' ! ((r + Suc i) mod ?n) = ?q ! ((r + Suc i) mod ?n)" using ne [of i] by simp
    moreover have "id (?q ! ((r + Suc i) mod ?n)) = ELUA_INT_EMPTY_SLOT"
      using q that \<open>Suc i < ?n\<close> unfolding queue_at_def by (metis Suc_le_mono)
    ultimately show ?thesis unfolding shift by simp
  qed
  moreover have "?q' ! ((Suc r mod ?n + i) mod ?n) = ?q ! ((r + Suc i) mod ?n)" if "i < c" for i
    using that ne [of i] r unfolding shift by simp
  ultimately show "queue_at cfg (Suc r mod ?n) c (s\<lparr>elua_int_queue := ?q'\<rparr>)"
    and "queued_from cfg r (Suc c) s = ?q ! r # queued_from cfg (Suc r mod ?n) c (s\<lparr>elua_int_queue := ?q'\<rparr>)"
    using q r unfolding queue_at_def queued_from_def ring_list_get [OF r(1)]
    by (auto simp: mod_add_left_eq ring_list_def)
qed

definition queue_count :: "build_config \<Rightarrow> nat \<Rightarrow> int_state \<Rightarrow> nat" where
  "queue_count cfg r s = length (takeWhile
     (\<lambda>i. id (elua_int_queue s ! ((r + i) mod int_queue_size cfg)) \<noteq> ELUA_INT_EMPTY_SLOT)
     [0..<int_queue_size cfg])"

definition queue_pending :: "build_config \<Rightarrow> int_state \<Rightarrow> elua_int_element list" where
  "queue_pending cfg s =
     (let r = unat (elua_int_read_idx s) in queued_from cfg r (queue_count cfg r s) s)"

definition int_inv :: "build_config \<Rightarrow> int_state \<Rightarrow> bool" where
  "int_inv cfg s \<longleftrightarrow> config_ok cfg \<and> flags_ok s
     \<and> (\<exists>c. queue_at cfg (unat (elua_int_read_idx s)) c s)"

definition int_accepts :: "build_config \<Rightarrow> int_state \<Rightarrow> elua_int_element \<Rightarrow> bool" where
  "int_accepts cfg s e \<longleftrightarrow> ELUA_INT_FIRST_ID \<le> unat (id e) \<and> unat (id e) \<le> INT_ELUA_LAST cfg
     \<and> lua_state s \<and> elua_int_is_enabled (id e) s"

definition int_put :: "build_config \<Rightarrow> elua_int_element \<Rightarrow> int_state \<Rightarrow> int_state" where
  "int_put cfg e s = snd (elua_int_add cfg (id e) (resnum e) s)"

definition int_get :: "build_config \<Rightarrow> int_state \<Rightarrow> (elua_int_element \<times> int_state) option" where
  "int_get cfg s =
     (if id (hook_fetch s) = ELUA_INT_EMPTY_SLOT then None
      else Some (hook_fetch s, hook_advance cfg (hook_clear s)))"

lemma queue_count_at:
  assumes "queue_at cfg r c s"
  shows "queue_count cfg r s = c"
proof -
  let ?P = "\<lambda>i. id (elua_int_queue s ! ((r + i) mod int_queue_size cfg)) \<noteq> ELUA_INT_EMPTY_SLOT"
  have c: "c \<le> int_queue_size cfg" using assms by (simp add: queue_at_def)
  then have "[0..<int_queue_size cfg] = [0..<c] @ [c..<int_queue_size cfg]"
    by (metis le_add_diff_inverse upt_add_eq_append zero_le)
  moreover have "\<forall>i \<in> set [0..<c]. ?P i" using assms by (simp add: queue_at_def)
  moreover have "takeWhile ?P [c..<int_queue_size cfg] = []"
    using assms by (cases "c < int_queue_size cfg") (simp_all add: queue_at_def upt_conv_Cons)
  ultimately show ?thesis by (simp add: queue_count_def takeWhile_append)
qed

lemma int_invE:
  assumes "int_inv cfg s"
  obtains c where "queue_at cfg (unat (elua_int_read_idx s)) c s" "config_ok cfg" "flags_ok s"
    "PLATFORM_INT_QUEUE_LOG_SIZE cfg \<le> 8" "length (queue_pending cfg s) = c"
    "queue_pending cfg s = queued_from cfg (unat (elua_int_read_idx s)) c s"
  using assms unfolding int_inv_def queue_pending_def Let_def
  by (auto simp: queue_count_at queued_from_def config_ok_def)

lemma elua_int_add_full:
  assumes "queue_at cfg r (int_queue_size cfg) s"
  shows "elua_int_add cfg i rn s = (PLATFORM_ERR, s)"
proof -
  have "unat (elua_int_write_idx s) = r mod int_queue_size cfg"
    "id (elua_int_queue s ! (r mod int_queue_size cfg)) \<noteq> ELUA_INT_EMPTY_SLOT"
    using assms unfolding queue_at_def by (auto dest: spec [of _ 0])
  then show ?thesis by (simp add: elua_int_add_def Let_def)
qed

lemma elua_int_add_room:
  assumes "queue_at cfg r c s" and "c < int_queue_size cfg" and "int_accepts cfg s e"
  shows "elua_int_add cfg (id e) (resnum e) s = (PLATFORM_OK,
    s\<lparr>elua_int_queue := (elua_int_queue s)[unat (elua_int_write_idx s) := e],
      elua_int_write_idx := int_idx_incr cfg (elua_int_write_idx s), lua_hooks := insert MAIN_THREAD (lua_hooks s)\<rparr>)"
  using assms by (cases e) (auto simp: elua_int_add_def queue_at_def int_accepts_def Let_def)

lemma elua_int_add_reject:
  "\<not> int_accepts cfg s e \<Longrightarrow> elua_int_add cfg (id e) (resnum e) s = (PLATFORM_ERR, s)"
  by (auto simp: elua_int_add_def int_accepts_def)

lemma accepts_id: "int_accepts cfg s e \<Longrightarrow> id e \<noteq> ELUA_INT_EMPTY_SLOT"
  by (auto simp: int_accepts_def)

lemma int_put_room:
  assumes inv: "int_inv cfg s" and acc: "int_accepts cfg s e"
    and room: "length (queue_pending cfg s) < int_queue_size cfg"
  shows "int_inv cfg (int_put cfg e s)" "queue_pending cfg (int_put cfg e s) = queue_pending cfg s @ [e]"
    "int_accepts cfg (int_put cfg e s) = int_accepts cfg s" "MAIN_THREAD \<in> lua_hooks (int_put cfg e s)"
proof -
  obtain c where c: "queue_at cfg (unat (elua_int_read_idx s)) c s" "config_ok cfg" "flags_ok s"
    "PLATFORM_INT_QUEUE_LOG_SIZE cfg \<le> 8" "length (queue_pending cfg s) = c"
    "queue_pending cfg s = queued_from cfg (unat (elua_int_read_idx s)) c s"
    using inv by (rule int_invE)
  note add = elua_int_add_room [OF c(1) _ acc] queue_at_add [OF c(1,4) _ accepts_id [OF acc] refl]
  have q: "queue_at cfg (unat (elua_int_read_idx s)) (Suc c) (int_put cfg e s)"
    using add room c(5) by (simp add: int_put_def)
  then show "int_inv cfg (int_put cfg e s)"
    using add room c by (auto simp: int_inv_def int_put_def flags_ok_def)
  show "queue_pending cfg (int_put cfg e s) = queue_pending cfg s @ [e]"
    using add room c queue_count_at [OF q] by (simp add: queue_pending_def int_put_def)
  show "int_accepts cfg (int_put cfg e s) = int_accepts cfg s" "MAIN_THREAD \<in> lua_hooks (int_put cfg e s)"
    using add room c by (auto simp: int_accepts_def int_put_def elua_int_is_enabled_def fun_eq_iff)
qed

lemma hook_take:
  assumes q: "queue_at cfg r (Suc c) s" and r: "unat (elua_int_read_idx s) = r"
    and log: "PLATFORM_INT_QUEUE_LOG_SIZE cfg \<le> 8"
  shows "queue_at cfg (Suc r mod int_queue_size cfg) c (hook_clear s)"
    "queued_from cfg r (Suc c) s = hook_fetch s # queued_from cfg (Suc r mod int_queue_size cfg) c (hook_clear s)"
    "unat (elua_int_read_idx (hook_advance cfg s')) = Suc (unat (elua_int_read_idx s')) mod int_queue_size cfg"
  using queue_at_take [OF q] r int_idx_incr_unat [OF log]
  by (simp_all add: hook_clear_def hook_fetch_def hook_advance_def)

lemma queue_at_advance [simp]: "queue_at cfg r c (hook_advance cfg s) = queue_at cfg r c s"
  "queued_from cfg r c (hook_advance cfg s) = queued_from cfg r c s"
  by (simp_all add: queue_at_def queued_from_def hook_advance_def)

lemma hook_clear_frame [simp]:
  "elua_int_write_idx (hook_clear s) = elua_int_write_idx s"
  "elua_int_read_idx (hook_clear s) = elua_int_read_idx s"
  "lua_hooks (hook_clear s) = lua_hooks s" "elua_int_flags (hook_clear s) = elua_int_flags s"
  "inttable (hook_clear s) = inttable s" "lua_calls (hook_clear s) = lua_calls s"
  by (simp_all add: hook_clear_def Let_def)

lemma hook_advance_frame [simp]:
  "elua_int_queue (hook_advance cfg s) = elua_int_queue s"
  "elua_int_write_idx (hook_advance cfg s) = elua_int_write_idx s"
  "lua_hooks (hook_advance cfg s) = lua_hooks s"
  "elua_int_flags (hook_advance cfg s) = elua_int_flags s"
  "inttable (hook_advance cfg s) = inttable s" "lua_calls (hook_advance cfg s) = lua_calls s"
  by (simp_all add: hook_advance_def)

lemma int_get_head:
  assumes inv: "int_inv cfg s" and ne: "queue_pending cfg s = e # es"
  shows "hook_fetch s = e" "id e \<noteq> ELUA_INT_EMPTY_SLOT"
    "int_inv cfg (hook_advance cfg (hook_clear s))"
    "queue_pending cfg (hook_advance cfg (hook_clear s)) = es"
proof -
  let ?r = "unat (elua_int_read_idx s)" and ?s = "hook_advance cfg (hook_clear s)"
  obtain c where c: "queue_at cfg ?r c s" "config_ok cfg" "flags_ok s"
    "PLATFORM_INT_QUEUE_LOG_SIZE cfg \<le> 8" "length (queue_pending cfg s) = c"
    "queue_pending cfg s = queued_from cfg ?r c s"
    using inv by (rule int_invE)
  with ne obtain c' where c': "c = Suc c'" by (cases c) auto
  note take = hook_take [OF c(1) [unfolded c'] refl c(4)]
  have r: "unat (elua_int_read_idx ?s) = Suc ?r mod int_queue_size cfg"
    using take(3) [of "hook_clear s"] by simp
  from take(2) c(6) ne c' show fetch: "hook_fetch s = e" by simp
  have "?r < int_queue_size cfg" using c(1) by (simp add: queue_at_def)
  then show "id e \<noteq> ELUA_INT_EMPTY_SLOT"
    using c(1) c' fetch unfolding queue_at_def hook_fetch_def by (auto dest!: spec [of _ 0])
  have q: "queue_at cfg (unat (elua_int_read_idx ?s)) c' ?s" using take(1) by (simp add: r)
  then show "int_inv cfg ?s"
    using c(2,3) by (auto simp: int_inv_def flags_ok_def)
  show "queue_pending cfg ?s = es"
    using take(2) c(6) ne c' queue_count_at [OF q] by (simp add: queue_pending_def r)
qed

lemma int_get_empty:
  assumes "int_inv cfg s" and "queue_pending cfg s = []"
  shows "id (hook_fetch s) = ELUA_INT_EMPTY_SLOT"
proof -
  obtain c where "queue_at cfg (unat (elua_int_read_idx s)) c s" "length (queue_pending cfg s) = c"
    using assms(1) by (rule int_invE)
  then have "queue_at cfg (unat (elua_int_read_idx s)) 0 s" using assms(2) by simp
  then show ?thesis unfolding queue_at_def hook_fetch_def by (auto dest!: spec [of _ 0])
qed

interpretation int_queue: bounded_fifo "int_inv cfg" "queue_pending cfg" "\<lambda>_. int_queue_size cfg"
    "int_accepts cfg" "int_put cfg" "int_get cfg" for cfg
  by unfold_locales (auto simp: int_put_room int_get_def int_get_empty int_get_head)

section \<open>Interrupts while the hook runs\<close>

text \<open>
  A run of the system: interrupts are added at any moment, Lua code enables and disables them,
  sets handlers and creates coroutines, the virtual machine calls the hook of a thread when it is set (not on a thread whose hook already runs:
  \<^verbatim>\<open>luaD_callhook\<close> clears its \<^verbatim>\<open>allowhook\<close>), and the Lua state is closed and opened again. While a handler runs (\<open>calling\<close>: the threads whose hook waits for
  its handler, the innermost first), the hook of another thread may run. A handler returns or raises an error; an error ends
  its hook without the last part. Programs that set hooks of their own (\<^verbatim>\<open>debug.sethook\<close>) are left out.
  \<open>accepted\<close> are the interrupts for which \<^verbatim>\<open>elua_int_add\<close> returned \<^verbatim>\<open>PLATFORM_OK\<close> since the state
  was last closed, \<open>taken\<close> those the hook took off the queue; \<open>failed\<close> and \<open>inherited\<close> say that since then a handler
  raised an error, or a coroutine was created with the hook set, and \<open>stray\<close> that the hook was called on an empty queue.
\<close>

datatype hook_phase =
    Hook_idle
  | Hook_fetched lua_thread elua_int_element
  | Hook_cleared lua_thread elua_int_element
  | Hook_advanced lua_thread elua_int_element
  | Hook_called lua_thread

record int_sys =
  ist :: int_state
  hook_at :: hook_phase
  calling :: "lua_thread list"
  accepted :: "elua_int_element list"
  taken :: "elua_int_element list"
  failed :: bool
  inherited :: bool
  stray :: bool

inductive int_step :: "build_config \<Rightarrow> int_sys \<Rightarrow> int_sys \<Rightarrow> bool" for cfg where
  step_add: "elua_int_add cfg (id e) (resnum e) (ist S) = (res, s') \<Longrightarrow>
    int_step cfg S (S\<lparr>ist := s', accepted := accepted S @ (if res = PLATFORM_OK then [e] else [])\<rparr>)"
| step_enable: "int_step cfg S (S\<lparr>ist := elua_int_enable i (ist S)\<rparr>)"
| step_disable: "int_step cfg S (S\<lparr>ist := elua_int_disable i (ist S)\<rparr>)"
| step_set_handler: "lua_state (ist S) \<Longrightarrow>
    int_step cfg S (S\<lparr>ist := (ist S)\<lparr>inttable := (inttable (ist S))(i := f)\<rparr>\<rparr>)"
| step_newthread: "hook_at S = Hook_idle \<Longrightarrow> L' \<noteq> MAIN_THREAD \<Longrightarrow> L' \<notin> set (calling S) \<Longrightarrow>
    int_step cfg S (S\<lparr>ist := (ist S)\<lparr>lua_hooks := (if L \<in> lua_hooks (ist S) then insert L' (lua_hooks (ist S)) else lua_hooks (ist S) - {L'})\<rparr>,
      inherited := inherited S \<or> L \<in> lua_hooks (ist S)\<rparr>)"
| step_fetch: "hook_at S = Hook_idle \<Longrightarrow> L \<in> lua_hooks (ist S) \<Longrightarrow> L \<notin> set (calling S) \<Longrightarrow>
    int_step cfg S (S\<lparr>hook_at := Hook_fetched L (hook_fetch (ist S)), stray := stray S \<or> id (hook_fetch (ist S)) = ELUA_INT_EMPTY_SLOT\<rparr>)"
| step_clear: "hook_at S = Hook_fetched L e \<Longrightarrow>
    int_step cfg S (S\<lparr>hook_at := Hook_cleared L e, ist := hook_clear (ist S), taken := taken S @ [e]\<rparr>)"
| step_advance: "hook_at S = Hook_cleared L e \<Longrightarrow>
    int_step cfg S (S\<lparr>hook_at := Hook_advanced L e, ist := hook_advance cfg (ist S)\<rparr>)"
| step_call: "hook_at S = Hook_advanced L e \<Longrightarrow> hook_call e (ist S) = (called, s') \<Longrightarrow>
    int_step cfg S (S\<lparr>hook_at := (if called then Hook_idle else Hook_called L), calling := (if called then [L] else []) @ calling S, ist := s'\<rparr>)"
| step_return: "hook_at S = Hook_idle \<Longrightarrow> calling S = L # Ls \<Longrightarrow> int_step cfg S (S\<lparr>hook_at := Hook_called L, calling := Ls\<rparr>)"
| step_error: "hook_at S = Hook_idle \<Longrightarrow> calling S = L # Ls \<Longrightarrow> int_step cfg S (S\<lparr>calling := Ls, failed := True\<rparr>)"
| step_finish: "hook_at S = Hook_called L \<Longrightarrow>
    int_step cfg S (S\<lparr>hook_at := Hook_idle, ist := hook_finish L (ist S)\<rparr>)"
| step_close: "hook_at S = Hook_idle \<Longrightarrow> calling S = [] \<Longrightarrow> lua_state (ist S) \<Longrightarrow>
    int_step cfg S (S\<lparr>ist := lua_close_int (ist S), accepted := [], taken := [], failed := False, inherited := False, stray := False\<rparr>)"
| step_open: "hook_at S = Hook_idle \<Longrightarrow> \<not> lua_state (ist S) \<Longrightarrow>
    int_step cfg S (S\<lparr>ist := (ist S)\<lparr>lua_state := True\<rparr>\<rparr>)"

definition int_boot :: "build_config \<Rightarrow> int_state" where
  "int_boot cfg = \<lparr>elua_int_read_idx = 0, elua_int_write_idx = 0,
     elua_int_queue = replicate (int_queue_size cfg) \<lparr>id = ELUA_INT_EMPTY_SLOT, resnum = 0\<rparr>,
     elua_int_flags = [0, 0, 0, 0], lua_state = False, lua_hooks = {}, inttable = (\<lambda>_. None),
     lua_calls = []\<rparr>"

definition int_start :: "build_config \<Rightarrow> int_sys" where
  "int_start cfg = \<lparr>ist = int_boot cfg, hook_at = Hook_idle, calling = [], accepted = [], taken = [], failed = False, inherited = False, stray = False\<rparr>"

inductive int_reachable :: "build_config \<Rightarrow> int_sys \<Rightarrow> bool" for cfg where
  boot: "int_reachable cfg (int_start cfg)"
| step: "int_reachable cfg S \<Longrightarrow> int_step cfg S S' \<Longrightarrow> int_reachable cfg S'"

text \<open>The slot from which the next element will be taken: while the hook has emptied a slot and not
  yet advanced the read index, the one after it.\<close>

definition next_slot :: "build_config \<Rightarrow> int_sys \<Rightarrow> nat" where
  "next_slot cfg S = (let r = unat (elua_int_read_idx (ist S))
     in case hook_at S of Hook_cleared L e \<Rightarrow> Suc r mod int_queue_size cfg | _ \<Rightarrow> r)"

text \<open>The queue and its hook, as long as the hook was not called on an empty queue.\<close>

definition sys_inv_at :: "build_config \<Rightarrow> nat \<Rightarrow> int_sys \<Rightarrow> bool" where
  "sys_inv_at cfg c S \<longleftrightarrow> queue_at cfg (next_slot cfg S) c (ist S)
     \<and> accepted S = taken S @ queued_from cfg (next_slot cfg S) c (ist S)
     \<and> (0 < c \<longrightarrow> MAIN_THREAD \<in> lua_hooks (ist S))
     \<and> (\<forall>L e. hook_at S = Hook_fetched L e \<longrightarrow> 0 < c \<and> e = hook_fetch (ist S))
     \<and> (case hook_at S of Hook_cleared L e \<Rightarrow> unat (elua_int_read_idx (ist S)) < int_queue_size cfg | _ \<Rightarrow> True)"

text \<open>Without errors and inherited hooks only the main thread has the hook, while it has work.\<close>

definition hook_busy :: "int_sys \<Rightarrow> bool" where
  "hook_busy S \<longleftrightarrow> hook_at S \<noteq> Hook_idle \<or> calling S \<noteq> []"

definition main_only :: "nat \<Rightarrow> int_sys \<Rightarrow> bool" where
  "main_only c S \<longleftrightarrow> lua_hooks (ist S) = (if 0 < c \<or> hook_busy S then {MAIN_THREAD} else {})
     \<and> (case hook_at S of Hook_idle \<Rightarrow> calling S = [] \<or> calling S = [MAIN_THREAD]
        | Hook_fetched L e \<Rightarrow> L = MAIN_THREAD \<and> calling S = [] | Hook_cleared L e \<Rightarrow> L = MAIN_THREAD \<and> calling S = []
        | Hook_advanced L e \<Rightarrow> L = MAIN_THREAD \<and> calling S = [] | Hook_called L \<Rightarrow> L = MAIN_THREAD \<and> calling S = [])"

definition clean :: "int_sys \<Rightarrow> bool" where
  "clean S \<longleftrightarrow> \<not> failed S \<and> \<not> inherited S"

definition sys_inv :: "build_config \<Rightarrow> int_sys \<Rightarrow> bool" where
  "sys_inv cfg S \<longleftrightarrow> flags_ok (ist S) \<and> length (elua_int_queue (ist S)) = int_queue_size cfg \<and> (stray S \<longrightarrow> \<not> clean S)
     \<and> (stray S \<or> (\<exists>c. sys_inv_at cfg c S \<and> (clean S \<longrightarrow> main_only c S)))"

lemma queue_at_cong:
  assumes "elua_int_queue s' = elua_int_queue s" and "elua_int_write_idx s' = elua_int_write_idx s"
  shows "queue_at cfg r c s' = queue_at cfg r c s" "queued_from cfg r c s' = queued_from cfg r c s"
  using assms by (simp_all add: queue_at_def queued_from_def)

lemma enable_frame [simp]:
  "elua_int_queue (elua_int_enable i s) = elua_int_queue s"
  "elua_int_write_idx (elua_int_enable i s) = elua_int_write_idx s"
  "elua_int_read_idx (elua_int_enable i s) = elua_int_read_idx s"
  "lua_hooks (elua_int_enable i s) = lua_hooks s" "lua_state (elua_int_enable i s) = lua_state s"
  "flags_ok (elua_int_enable i s) = flags_ok s"
  by (simp_all add: elua_int_enable_def Let_def flags_ok_def)

lemma disable_frame [simp]:
  "elua_int_queue (elua_int_disable i s) = elua_int_queue s"
  "elua_int_write_idx (elua_int_disable i s) = elua_int_write_idx s"
  "elua_int_read_idx (elua_int_disable i s) = elua_int_read_idx s"
  "lua_hooks (elua_int_disable i s) = lua_hooks s" "lua_state (elua_int_disable i s) = lua_state s"
  "flags_ok (elua_int_disable i s) = flags_ok s"
  by (simp_all add: elua_int_disable_def Let_def flags_ok_def)

lemma hook_call_frame [simp]:
  "elua_int_queue (snd (hook_call e s)) = elua_int_queue s"
  "elua_int_write_idx (snd (hook_call e s)) = elua_int_write_idx s"
  "elua_int_read_idx (snd (hook_call e s)) = elua_int_read_idx s"
  "lua_hooks (snd (hook_call e s)) = lua_hooks s" "flags_ok (snd (hook_call e s)) = flags_ok s"
  "elua_int_flags (snd (hook_call e s)) = elua_int_flags s" "inttable (snd (hook_call e s)) = inttable s"
  by (simp_all add: hook_call_def flags_ok_def split: option.split)

lemma hook_finish_frame [simp]:
  "elua_int_queue (hook_finish L s) = elua_int_queue s"
  "elua_int_write_idx (hook_finish L s) = elua_int_write_idx s"
  "elua_int_read_idx (hook_finish L s) = elua_int_read_idx s"
  "elua_int_flags (hook_finish L s) = elua_int_flags s" "inttable (hook_finish L s) = inttable s"
  "lua_calls (hook_finish L s) = lua_calls s"
  by (simp_all add: hook_finish_def)

lemma close_empty:
  assumes "length (elua_int_queue s) = int_queue_size cfg" and "flags_ok s"
  shows "queue_at cfg 0 0 (lua_close_int s)" "flags_ok (lua_close_int s)"
    "elua_int_read_idx (lua_close_int s) = 0" "lua_hooks (lua_close_int s) = {}"
    "\<not> lua_state (lua_close_int s)" "\<not> elua_int_is_enabled i (lua_close_int s)"
  using assms
  by (simp_all add: lua_close_int_def elua_int_cleanup_def elua_int_disable_all_def queue_at_def
      flags_ok_def is_enabled_bit clear_flags_nth drop_bit_eq_div)

lemma flags_ok_cong: "elua_int_flags s' = elua_int_flags s \<Longrightarrow> flags_ok s' = flags_ok s"
  by (simp add: flags_ok_def)

text \<open>The parts of the state that the queue and its hook consist of.\<close>

lemma sys_inv_at_frame:
  assumes "sys_inv_at cfg c S" and "elua_int_queue (ist S') = elua_int_queue (ist S)" and "elua_int_write_idx (ist S') = elua_int_write_idx (ist S)"
    and "elua_int_read_idx (ist S') = elua_int_read_idx (ist S)" and "MAIN_THREAD \<in> lua_hooks (ist S) \<longrightarrow> MAIN_THREAD \<in> lua_hooks (ist S')"
    and "hook_at S' = hook_at S \<or> (\<forall>L e. hook_at S \<noteq> Hook_cleared L e) \<and> (\<forall>L e. hook_at S' \<noteq> Hook_cleared L e \<and> hook_at S' \<noteq> Hook_fetched L e)"
    and "accepted S' = accepted S" and "taken S' = taken S"
  shows "sys_inv_at cfg c S'"
proof -
  have n: "next_slot cfg S' = next_slot cfg S"
    using assms(4,6) by (auto simp: next_slot_def Let_def split: hook_phase.splits)
  have "hook_fetch (ist S') = hook_fetch (ist S)" using assms(2,4) by (simp add: hook_fetch_def)
  then show ?thesis
    using assms(1) queue_at_cong [OF assms(2,3)] assms(4-8) unfolding sys_inv_at_def n
    by (auto split: hook_phase.splits)
qed

lemma main_only_frame:
  "lua_hooks (ist S') = lua_hooks (ist S) \<Longrightarrow> hook_at S' = hook_at S \<Longrightarrow> calling S' = calling S \<Longrightarrow> main_only c S' = main_only c S"
  unfolding main_only_def hook_busy_def by (simp cong: hook_phase.case_cong)

lemma main_only_idle:
  assumes m: "main_only c S" and "hook_at S = Hook_idle" and L: "L \<in> lua_hooks (ist S)" "L \<notin> set (calling S)"
  shows "L = MAIN_THREAD" "0 < c" "calling S = []" "lua_hooks (ist S) = {MAIN_THREAD}"
proof -
  have h: "lua_hooks (ist S) = (if 0 < c \<or> calling S \<noteq> [] then {MAIN_THREAD} else {})" "calling S = [] \<or> calling S = [MAIN_THREAD]"
    using m assms(2) by (simp_all add: main_only_def hook_busy_def)
  then have c: "0 < c \<or> calling S \<noteq> []" using L(1) by (metis empty_iff)
  then show "lua_hooks (ist S) = {MAIN_THREAD}" using h(1) by simp
  then show "L = MAIN_THREAD" using L(1) by simp
  then show "calling S = []" using h(2) L(2) by auto
  then show "0 < c" using c by simp
qed

lemma sys_inv_add:
  assumes inv: "sys_inv_at cfg c S" and log: "PLATFORM_INT_QUEUE_LOG_SIZE cfg \<le> 8"
    and add: "elua_int_add cfg (id e) (resnum e) (ist S) = (res, s')"
    and S': "S' = S\<lparr>ist := s', accepted := accepted S @ (if res = PLATFORM_OK then [e] else [])\<rparr>"
  shows "\<exists>c'. sys_inv_at cfg c' S' \<and> (main_only c S \<longrightarrow> main_only c' S')"
proof (cases "int_accepts cfg (ist S) e \<and> c < int_queue_size cfg")
  case False
  have q: "queue_at cfg (next_slot cfg S) c (ist S)" using inv by (simp add: sys_inv_at_def)
  then have "c \<le> int_queue_size cfg" by (simp add: queue_at_def)
  with False consider "\<not> int_accepts cfg (ist S) e" | "c = int_queue_size cfg" by linarith
  then have "res = PLATFORM_ERR" "s' = ist S"
    using add elua_int_add_reject elua_int_add_full [of cfg "next_slot cfg S" "ist S"] q
    by (cases; auto)+
  then have "S' = S" by (simp add: S')
  with inv show ?thesis by blast
next
  case True
  have q: "queue_at cfg (next_slot cfg S) c (ist S)" using inv by (simp add: sys_inv_at_def)
  from True have acc: "int_accepts cfg (ist S) e" and room: "c < int_queue_size cfg" by auto
  note s' = elua_int_add_room [OF q room acc, unfolded add]
  note qa = queue_at_add [OF q log room accepts_id [OF acc] refl, where h = "insert MAIN_THREAD (lua_hooks (ist S))"]
  have slot: "next_slot cfg S' = next_slot cfg S" using s' by (simp add: next_slot_def S')
  have "hook_fetch s' = hook_fetch (ist S)" if "hook_at S = Hook_fetched L x" for L x
  proof -
    from that inv have "0 < c" and ns: "next_slot cfg S = unat (elua_int_read_idx (ist S))"
      by (auto simp: sys_inv_at_def next_slot_def Let_def)
    then have "unat (elua_int_write_idx (ist S)) \<noteq> unat (elua_int_read_idx (ist S))"
      using q room mod_offset_inj [of "next_slot cfg S" 0 "int_queue_size cfg" c]
      by (auto simp: queue_at_def)
    then show ?thesis using s' by (simp add: hook_fetch_def)
  qed
  then have "sys_inv_at cfg (Suc c) S'"
    using inv s' qa unfolding sys_inv_at_def slot by (auto simp: S' split: hook_phase.splits)
  moreover have "main_only c S \<longrightarrow> main_only (Suc c) S'"
    using s' by (auto simp: main_only_def hook_busy_def S' split: hook_phase.splits)
  ultimately show ?thesis by blast
qed

lemma sys_inv_clear:
  assumes inv: "sys_inv_at cfg c S" and at: "hook_at S = Hook_fetched L e"
    and log: "PLATFORM_INT_QUEUE_LOG_SIZE cfg \<le> 8"
    and S': "S' = S\<lparr>hook_at := Hook_cleared L e, ist := hook_clear (ist S), taken := taken S @ [e]\<rparr>"
  shows "\<exists>c'. sys_inv_at cfg c' S' \<and> (main_only c S \<longrightarrow> main_only c' S')"
proof -
  from inv at obtain c' where c: "c = Suc c'" by (cases c) (auto simp: sys_inv_at_def)
  have q: "queue_at cfg (unat (elua_int_read_idx (ist S))) (Suc c') (ist S)"
    using inv at c by (simp add: sys_inv_at_def next_slot_def)
  then have "unat (elua_int_read_idx (ist S)) < int_queue_size cfg" by (simp add: queue_at_def)
  then have "sys_inv_at cfg c' S'"
    using inv at c hook_take [OF q refl log] by (simp add: sys_inv_at_def next_slot_def S')
  moreover have "main_only c S \<longrightarrow> main_only c' S'" using at by (simp add: main_only_def hook_busy_def S')
  ultimately show ?thesis by blast
qed

lemma sys_inv_advance:
  assumes inv: "sys_inv_at cfg c S" and at: "hook_at S = Hook_cleared L e"
    and log: "PLATFORM_INT_QUEUE_LOG_SIZE cfg \<le> 8"
    and S': "S' = S\<lparr>hook_at := Hook_advanced L e, ist := hook_advance cfg (ist S)\<rparr>"
  shows "sys_inv_at cfg c S' \<and> (main_only c S \<longrightarrow> main_only c S')"
  using inv at int_idx_incr_unat [OF log, of "elua_int_read_idx (ist S)"]
  by (simp add: sys_inv_at_def next_slot_def main_only_def hook_busy_def S') (simp add: hook_advance_def)

lemma sys_inv_finish:
  assumes inv: "sys_inv_at cfg c S" and at: "hook_at S = Hook_called L"
    and S': "S' = S\<lparr>hook_at := Hook_idle, ist := hook_finish L (ist S)\<rparr>"
  shows "sys_inv_at cfg c S' \<and> (main_only c S \<longrightarrow> main_only c S')"
proof -
  let ?r = "unat (elua_int_read_idx (ist S))"
  have q: "queue_at cfg ?r c (ist S)" using inv at by (simp add: sys_inv_at_def next_slot_def)
  then have "?r < int_queue_size cfg" by (simp add: queue_at_def)
  with q have "id (elua_int_queue (ist S) ! ?r) = ELUA_INT_EMPTY_SLOT \<longleftrightarrow> c = 0"
    unfolding queue_at_def by (auto dest!: spec [of _ 0])
  then have h: "lua_hooks (hook_finish L (ist S)) = (if c = 0 then lua_hooks (ist S) - {L} else lua_hooks (ist S))"
    by (simp add: hook_finish_def)
  then have "sys_inv_at cfg c S'" using inv at queue_at_cong [of "hook_finish L (ist S)" "ist S"]
    by (simp add: sys_inv_at_def next_slot_def S')
  moreover have "main_only c S \<longrightarrow> main_only c S'" using at h by (auto simp: main_only_def hook_busy_def S')
  ultimately show ?thesis by blast
qed

lemma step_frame:
  assumes "int_step cfg S S'" and "flags_ok (ist S)"
  shows "flags_ok (ist S') \<and> length (elua_int_queue (ist S')) = length (elua_int_queue (ist S))"
  using assms
proof cases
  case (step_call L e called s')
  then have "s' = snd (hook_call e (ist S))" by simp
  then show ?thesis using assms(2) step_call(1) by simp
next
  case (step_add e res s')
  then show ?thesis using assms(2) by (auto simp: elua_int_add_def Let_def flags_ok_def split: if_splits)
qed (use assms(2) in \<open>auto simp: flags_ok_def hook_clear_def hook_advance_def hook_finish_def lua_close_int_def elua_int_cleanup_def
    elua_int_disable_all_def elua_int_enable_def elua_int_disable_def Let_def\<close>)

text \<open>A step keeps the invariant of the queue and, without errors and inherited hooks, of the hook.\<close>

lemma inv_at_step:
  assumes "int_step cfg S S'" and inv: "sys_inv_at cfg c S" and main: "clean S \<longrightarrow> main_only c S" and log: "PLATFORM_INT_QUEUE_LOG_SIZE cfg \<le> 8"
    and len: "length (elua_int_queue (ist S)) = int_queue_size cfg" and fl: "flags_ok (ist S)" and ns: "\<not> stray S'"
  shows "\<exists>c'. sys_inv_at cfg c' S' \<and> (clean S' \<longrightarrow> main_only c' S')"
  using assms(1)
proof cases
  case (step_add e res s')
  with sys_inv_add [OF inv log step_add(2,1)] main show ?thesis by (auto simp: clean_def)
next
  case (step_enable i)
  then have "sys_inv_at cfg c S'" by (intro sys_inv_at_frame [OF inv]) simp_all
  moreover have "main_only c S' = main_only c S" by (rule main_only_frame) (use step_enable in simp_all)
  moreover have "clean S' = clean S" using step_enable by (simp add: clean_def)
  ultimately show ?thesis using main by blast
next
  case (step_disable i)
  then have "sys_inv_at cfg c S'" by (intro sys_inv_at_frame [OF inv]) simp_all
  moreover have "main_only c S' = main_only c S" by (rule main_only_frame) (use step_disable in simp_all)
  moreover have "clean S' = clean S" using step_disable by (simp add: clean_def)
  ultimately show ?thesis using main by blast
next
  case (step_set_handler i f)
  then have "sys_inv_at cfg c S'" by (intro sys_inv_at_frame [OF inv]) simp_all
  moreover have "main_only c S' = main_only c S" by (rule main_only_frame) (use step_set_handler in simp_all)
  moreover have "clean S' = clean S" using step_set_handler by (simp add: clean_def)
  ultimately show ?thesis using main by blast
next
  case (step_newthread L' L)
  then have "sys_inv_at cfg c S'" by (intro sys_inv_at_frame [OF inv]) auto
  moreover have "clean S' \<longrightarrow> main_only c S'"
  proof
    assume "clean S'"
    then have L: "L \<notin> lua_hooks (ist S)" and m: "main_only c S" using main step_newthread(1) by (simp_all add: clean_def)
    have "L' \<notin> lua_hooks (ist S)" using m step_newthread(3) unfolding main_only_def by (metis empty_iff singletonD)
    then have "S' = S" using step_newthread(1) L \<open>clean S'\<close> by (simp add: clean_def)
    then show "main_only c S'" using m by simp
  qed
  ultimately show ?thesis by blast
next
  case (step_fetch L)
  have q: "queue_at cfg (unat (elua_int_read_idx (ist S))) c (ist S)" using inv step_fetch(2) by (simp add: sys_inv_at_def next_slot_def)
  have "id (hook_fetch (ist S)) \<noteq> ELUA_INT_EMPTY_SLOT" using ns step_fetch(1) by simp
  then have "0 < c" using q unfolding queue_at_def hook_fetch_def by (auto dest: spec [of _ 0])
  then have "sys_inv_at cfg c S'" using inv step_fetch by (simp add: sys_inv_at_def next_slot_def)
  moreover have "clean S' \<longrightarrow> main_only c S'"
  proof
    assume "clean S'"
    then have m: "main_only c S" using main step_fetch(1) by (simp add: clean_def)
    show "main_only c S'" using main_only_idle [OF m step_fetch(2-4)] step_fetch(1) by (simp add: main_only_def hook_busy_def)
  qed
  ultimately show ?thesis by blast
next
  case (step_clear L e)
  with sys_inv_clear [OF inv step_clear(2) log step_clear(1)] main show ?thesis by (auto simp: clean_def)
next
  case (step_advance L e)
  with sys_inv_advance [OF inv step_advance(2) log step_advance(1)] main show ?thesis by (auto simp: clean_def)
next
  case (step_call L e called s')
  then have "s' = snd (hook_call e (ist S))" by simp
  then have "sys_inv_at cfg c S'" "lua_hooks s' = lua_hooks (ist S)" using step_call(1,2) by (auto intro!: sys_inv_at_frame [OF inv])
  moreover have "clean S' \<longrightarrow> main_only c S'"
    using main step_call(1,2) calculation(2) by (auto simp: main_only_def hook_busy_def clean_def)
  ultimately show ?thesis by blast
next
  case (step_return L Ls)
  then have "sys_inv_at cfg c S'" by (intro sys_inv_at_frame [OF inv]) auto
  moreover have "clean S' \<longrightarrow> main_only c S'" using main step_return by (auto simp: main_only_def hook_busy_def clean_def)
  ultimately show ?thesis by blast
next
  case (step_error L Ls)
  then have "sys_inv_at cfg c S'" by (intro sys_inv_at_frame [OF inv]) auto
  then show ?thesis using step_error by (auto simp: clean_def)
next
  case (step_finish L)
  with sys_inv_finish [OF inv step_finish(2,1)] main show ?thesis by (auto simp: clean_def)
next
  case step_close
  then have "sys_inv_at cfg 0 S'" "main_only 0 S'"
    using close_empty [OF len fl] by (simp_all add: sys_inv_at_def next_slot_def queued_from_def main_only_def hook_busy_def)
  then show ?thesis by blast
next
  case step_open
  then have "sys_inv_at cfg c S'" by (intro sys_inv_at_frame [OF inv]) simp_all
  moreover have "main_only c S' = main_only c S" by (rule main_only_frame) (use step_open in simp_all)
  moreover have "clean S' = clean S" using step_open by (simp add: clean_def)
  ultimately show ?thesis using main by blast
qed

text \<open>A hook that is called on an empty queue was left set by an error, or inherited.\<close>

lemma stray_step:
  assumes "int_step cfg S S'" and "stray S \<longrightarrow> \<not> clean S" and "\<not> stray S \<longrightarrow> sys_inv_at cfg c S \<and> (clean S \<longrightarrow> main_only c S)"
  shows "stray S' \<longrightarrow> \<not> clean S'"
  using assms(1)
proof cases
  case (step_fetch L)
  have "\<not> (id (hook_fetch (ist S)) = ELUA_INT_EMPTY_SLOT \<and> clean S \<and> \<not> stray S)"
  proof
    assume s: "id (hook_fetch (ist S)) = ELUA_INT_EMPTY_SLOT \<and> clean S \<and> \<not> stray S"
    then have i: "sys_inv_at cfg c S" "main_only c S" using assms(3) by simp_all
    then have "0 < c" using main_only_idle [OF i(2) step_fetch(2-4)] by simp
    moreover have q: "queue_at cfg (unat (elua_int_read_idx (ist S))) c (ist S)" using i(1) step_fetch(2) by (simp add: sys_inv_at_def next_slot_def)
    moreover have "unat (elua_int_read_idx (ist S)) < int_queue_size cfg" using q by (simp add: queue_at_def)
    ultimately show False using s unfolding queue_at_def hook_fetch_def by (auto dest!: spec [of _ 0])
  qed
  then show ?thesis using assms(2) step_fetch(1) by (auto simp: clean_def)
qed (use assms(2) in \<open>auto simp: clean_def\<close>)

lemma sys_inv_step:
  assumes "int_step cfg S S'" and inv: "sys_inv cfg S" and log: "PLATFORM_INT_QUEUE_LOG_SIZE cfg \<le> 8"
  shows "sys_inv cfg S'"
proof -
  note I = inv [unfolded sys_inv_def]
  have fl: "flags_ok (ist S)" "length (elua_int_queue (ist S)) = int_queue_size cfg" using I by blast+
  then have fl': "flags_ok (ist S')" "length (elua_int_queue (ist S')) = int_queue_size cfg" using step_frame [OF assms(1)] by simp_all
  obtain c where c: "\<not> stray S \<longrightarrow> sys_inv_at cfg c S \<and> (clean S \<longrightarrow> main_only c S)" using I by blast
  have st: "stray S' \<longrightarrow> \<not> clean S'" by (rule stray_step [OF assms(1) _ c]) (use I in blast)
  have "\<exists>c'. sys_inv_at cfg c' S' \<and> (clean S' \<longrightarrow> main_only c' S')" if ns: "\<not> stray S'"
  proof (cases "stray S")
    case False
    then show ?thesis using inv_at_step [OF assms(1) _ _ log fl(2,1) ns] c by blast
  next
    case True
    from assms(1) have "hook_at S = Hook_idle \<and> calling S = []
        \<and> S' = S\<lparr>ist := lua_close_int (ist S), accepted := [], taken := [], failed := False, inherited := False, stray := False\<rparr>"
      by cases (use True ns in simp_all)
    then have "sys_inv_at cfg 0 S'" "main_only 0 S'"
      using close_empty [OF fl(2,1)] by (simp_all add: sys_inv_at_def next_slot_def queued_from_def main_only_def hook_busy_def)
    then show ?thesis by blast
  qed
  then show ?thesis using fl' st unfolding sys_inv_def by blast
qed

lemma sys_inv_start: "sys_inv cfg (int_start cfg)"
proof -
  have "sys_inv_at cfg 0 (int_start cfg)" "main_only 0 (int_start cfg)"
    by (simp_all add: sys_inv_at_def next_slot_def int_start_def int_boot_def queue_at_def queued_from_def main_only_def hook_busy_def)
  then show ?thesis by (auto simp: sys_inv_def int_start_def int_boot_def flags_ok_def)
qed

lemma sys_inv_reachable:
  assumes "int_reachable cfg S" and "PLATFORM_INT_QUEUE_LOG_SIZE cfg \<le> 8"
  shows "sys_inv cfg S"
  using assms(1)
proof induction
  case boot
  then show ?case by (rule sys_inv_start)
next
  case (step S S')
  then show ?case using sys_inv_step assms(2) by blast
qed

section \<open>Draining the queue\<close>

definition int_call_of :: "int_state \<Rightarrow> elua_int_element \<Rightarrow> (lua_ref \<times> u16) list" where
  "int_call_of s e = (case inttable s (id e) of
     Some f \<Rightarrow> if elua_int_is_enabled (id e) s then [(f, resnum e)] else [] | None \<Rightarrow> [])"

text \<open>Called on a queue, the hook takes its oldest element, calls the handler registered for
  it if the interrupt is still enabled, with the resource number of the element, and clears
  itself when that was the last one, if the handler did not raise an error.\<close>

lemma hook_step:
  assumes inv: "int_inv cfg s" and ne: "queue_pending cfg s = e # es"
  shows "int_inv cfg (elua_int_hook cfg fails L s) \<and> queue_pending cfg (elua_int_hook cfg fails L s) = es
    \<and> lua_hooks (elua_int_hook cfg fails L s) = (if es = [] \<and> (int_call_of s e = [] \<or> \<not> fails e) then lua_hooks s - {L} else lua_hooks s)
    \<and> lua_calls (elua_int_hook cfg fails L s) = lua_calls s @ int_call_of s e"
proof -
  let ?t = "hook_advance cfg (hook_clear s)"
  let ?u = "snd (hook_call e ?t)"
  define v where "v = elua_int_hook cfg fails L s"
  note h = int_get_head [OF inv ne]
  have calls: "lua_calls ?u = lua_calls s @ int_call_of s e" "fst (hook_call e ?t) \<longleftrightarrow> int_call_of s e \<noteq> []"
    by (simp_all add: hook_call_def elua_int_is_enabled_def int_call_of_def split: option.split)
  have v: "v = (if int_call_of s e \<noteq> [] \<and> fails e then ?u else hook_finish L ?u)"
    using calls(2) by (simp add: v_def elua_int_hook_def h(1) Let_def split_beta)
  then have fr: "elua_int_queue v = elua_int_queue ?t" "elua_int_write_idx v = elua_int_write_idx ?t" "elua_int_read_idx v = elua_int_read_idx ?t"
    "flags_ok v = flags_ok ?t" "lua_calls v = lua_calls ?u"
    by (simp_all add: flags_ok_def)
  have same: "queue_at cfg r c v = queue_at cfg r c ?t" "queued_from cfg r c v = queued_from cfg r c ?t" "queue_count cfg r v = queue_count cfg r ?t" for r c
    using fr(1,2) by (simp_all add: queue_at_def queued_from_def queue_count_def)
  have "queue_pending cfg v = es" using h(4) by (simp add: queue_pending_def same fr(3))
  moreover have "int_inv cfg v" using h(3) by (simp add: int_inv_def same fr(3,4))
  moreover have "id (hook_fetch ?t) = ELUA_INT_EMPTY_SLOT \<longleftrightarrow> es = []"
    using h(3,4) int_get_empty [OF h(3)] by (cases es) (auto dest: int_get_head(1,2) [OF h(3)])
  then have "lua_hooks v = (if es = [] \<and> (int_call_of s e = [] \<or> \<not> fails e) then lua_hooks s - {L} else lua_hooks s)"
    unfolding v by (simp add: hook_finish_def hook_fetch_def)
  ultimately show ?thesis using fr(5) calls(1) by (simp add: v_def)
qed

lemma hook_frame [simp]:
  "inttable (elua_int_hook cfg fails L s) = inttable s" "elua_int_flags (elua_int_hook cfg fails L s) = elua_int_flags s"
  by (simp_all add: elua_int_hook_def Let_def split_beta)

lemma int_call_of_hook [simp]: "int_call_of (elua_int_hook cfg fails L s) = int_call_of s"
  by (simp add: int_call_of_def fun_eq_iff elua_int_is_enabled_def split: option.split)

lemma hook_drain:
  assumes "int_inv cfg s" and "queue_pending cfg s = es" and "\<forall>e \<in> set es. \<not> fails e"
  shows "queue_pending cfg ((elua_int_hook cfg fails L ^^ length es) s) = []
    \<and> lua_calls ((elua_int_hook cfg fails L ^^ length es) s) = lua_calls s @ concat (map (int_call_of s) es)
    \<and> (es \<noteq> [] \<longrightarrow> lua_hooks ((elua_int_hook cfg fails L ^^ length es) s) = lua_hooks s - {L})"
  using assms
proof (induction es arbitrary: s)
  case Nil
  then show ?case by simp
next
  case (Cons e es)
  note h = hook_step [OF Cons.prems(1,2), of fails L]
  from Cons.IH [of "elua_int_hook cfg fails L s"] h Cons.prems(3) show ?case
    by (cases "es = []") (simp_all add: funpow_Suc_right del: funpow.simps)
qed

section \<open>Examples\<close>

lemma int_inv_boot:
  assumes "config_ok cfg"
  shows "int_inv cfg (int_boot cfg)" "queue_pending cfg (int_boot cfg) = []"
proof -
  have q: "queue_at cfg 0 0 (int_boot cfg)" by (simp add: queue_at_def int_boot_def)
  have r: "elua_int_read_idx (int_boot cfg) = 0" by (simp add: int_boot_def)
  show "int_inv cfg (int_boot cfg)" using q assms by (auto simp: int_inv_def r flags_ok_def int_boot_def)
  show "queue_pending cfg (int_boot cfg) = []"
    using queue_count_at [OF q] by (simp add: queue_pending_def r queued_from_def)
qed

text \<open>A state with Lua running, interrupt 4 enabled and two interrupts queued.\<close>

definition example_int :: int_state where
  "example_int = elua_int_enable 4 ((int_boot example_config)\<lparr>lua_state := True, inttable := [4 \<mapsto> 77]\<rparr>)"

lemma example_queue_size: "PLATFORM_INT_QUEUE_LOG_SIZE example_config = 5"
  by (simp add: example_config_def)

lemma example_int_inv: "int_inv example_config example_int" "queue_pending example_config example_int = []"
proof -
  have q: "queue_at example_config r c example_int = queue_at example_config r c (int_boot example_config)"
    "queued_from example_config r c example_int = queued_from example_config r c (int_boot example_config)"
    "queue_count example_config r example_int = queue_count example_config r (int_boot example_config)" for r c
    by (simp_all add: queue_at_def queued_from_def queue_count_def example_int_def)
  moreover have "flags_ok example_int" by (simp add: example_int_def) (simp add: flags_ok_def int_boot_def)
  moreover have "elua_int_read_idx example_int = elua_int_read_idx (int_boot example_config)"
    by (simp add: example_int_def)
  ultimately show "int_inv example_config example_int" "queue_pending example_config example_int = []"
    using int_inv_boot [OF example_config_ok] by (simp_all add: int_inv_def queue_pending_def)
qed

lemma example_int_accepts: "int_accepts example_config example_int \<lparr>id = 4, resnum = n\<rparr>"
proof -
  have "elua_int_is_enabled 4 example_int"
    unfolding example_int_def by (subst enable_is_enabled) (simp_all add: flags_ok_def int_boot_def)
  then show ?thesis by (simp add: int_accepts_def example_config_def) (simp add: example_int_def int_boot_def)
qed

section \<open>Properties\<close>



text \<open>What an error in a handler does: raised by the handler of the last interrupt in the queue, it leaves the hook set. The next
  call of the hook then takes an empty slot, and the read index is one slot ahead of the queue: the next interrupt is accepted, but the
  hook does not find it and clears itself, so that it waits in the queue without a hook.\<close>

theorem int_error_strands:
  assumes inv: "int_inv cfg s" and one: "queue_pending cfg s = [e]" and hook: "MAIN_THREAD \<in> lua_hooks s"
    and err: "int_call_of s e \<noteq> []" "fails e" and size: "4 \<le> int_queue_size cfg" and e': "int_accepts cfg s e'" "\<not> elua_int_is_enabled ELUA_INT_EMPTY_SLOT s"
  shows "MAIN_THREAD \<in> lua_hooks (elua_int_hook cfg fails MAIN_THREAD s)
    \<and> (\<exists>s3. elua_int_add cfg (id e') (resnum e') (elua_int_hook cfg fails MAIN_THREAD (elua_int_hook cfg fails MAIN_THREAD s)) = (PLATFORM_OK, s3)
      \<and> lua_calls (elua_int_hook cfg fails MAIN_THREAD s3) = lua_calls (elua_int_hook cfg fails MAIN_THREAD s)
      \<and> MAIN_THREAD \<notin> lua_hooks (elua_int_hook cfg fails MAIN_THREAD s3) \<and> e' \<in> set (elua_int_queue (elua_int_hook cfg fails MAIN_THREAD s3)))"
proof -
  let ?n = "int_queue_size cfg" and ?h = "elua_int_hook cfg fails MAIN_THREAD"
  have log: "PLATFORM_INT_QUEUE_LOG_SIZE cfg \<le> 8" using inv by (rule int_invE)
  define s1 where "s1 = ?h s"
  have s1: "int_inv cfg s1" "queue_pending cfg s1 = []" "lua_hooks s1 = lua_hooks s" "\<not> elua_int_is_enabled ELUA_INT_EMPTY_SLOT s1"
    using hook_step [OF inv one, of fails MAIN_THREAD] err e'(2) by (simp_all add: s1_def elua_int_is_enabled_def)
  define r where "r = unat (elua_int_read_idx s1)"
  obtain c where "queue_at cfg r c s1" "length (queue_pending cfg s1) = c" unfolding r_def using s1(1) by (rule int_invE)
  then have q: "queue_at cfg r 0 s1" using s1(2) by simp
  then have r: "r < ?n" "length (elua_int_queue s1) = ?n" "unat (elua_int_write_idx s1) = r" by (simp_all add: queue_at_def)
  have emp: "id (elua_int_queue s1 ! j) = ELUA_INT_EMPTY_SLOT" if "j < ?n" for j
  proof -
    have "(r + (j + ?n - r)) mod ?n = j" using that r(1) by simp
    moreover have "(r + (j + ?n - r)) mod ?n = (r + (j + ?n - r) mod ?n) mod ?n" by (simp add: mod_add_right_eq)
    ultimately show ?thesis using q mod_less_divisor [of ?n "j + ?n - r"] unfolding queue_at_def by (metis le0 zero_less_numeral zero_less_power)
  qed
  let ?t = "hook_advance cfg (hook_clear s1)"
  have slots: "Suc r mod ?n < ?n" "Suc (Suc r mod ?n) mod ?n < ?n" using r(1) by (simp_all add: mod_less_divisor)
  have far: "Suc r mod ?n \<noteq> r" "Suc (Suc r mod ?n) mod ?n \<noteq> r" "Suc (Suc r mod ?n) mod ?n \<noteq> Suc r mod ?n"
    using mod_offset_inj [of r 1 ?n 0] mod_offset_inj [of r 2 ?n 0] mod_offset_inj [of r 2 ?n 1] size r(1) by (auto simp: mod_Suc_eq)
  have rt: "unat (elua_int_read_idx ?t) = Suc r mod ?n"
    using int_idx_incr_unat [OF log] by (simp add: hook_advance_def r_def)
  have f1: "id (hook_fetch s1) = ELUA_INT_EMPTY_SLOT" using emp [OF r(1)] by (simp add: hook_fetch_def r_def)
  then have call1: "hook_call (hook_fetch s1) ?t = (False, ?t)" using s1(4) by (simp add: hook_call_def elua_int_is_enabled_def)
  have qt: "elua_int_queue ?t ! j = (if j = r then (elua_int_queue s1 ! r)\<lparr>id := ELUA_INT_EMPTY_SLOT\<rparr> else elua_int_queue s1 ! j)" if "j < ?n" for j
    using that r(1,2) by (simp add: hook_clear_def Let_def r_def nth_list_update)
  have "id (elua_int_queue ?t ! unat (elua_int_read_idx ?t)) = ELUA_INT_EMPTY_SLOT" unfolding rt using qt [OF slots(1)] emp [OF slots(1)] by simp
  then have s2: "?h s1 = ?t\<lparr>lua_hooks := lua_hooks s1 - {MAIN_THREAD}\<rparr>" by (simp add: elua_int_hook_def call1 hook_finish_def)
  define s2 where "s2 = ?h s1"
  have s2': "elua_int_queue s2 = elua_int_queue ?t" "elua_int_write_idx s2 = elua_int_write_idx s1" "elua_int_read_idx s2 = elua_int_read_idx ?t"
    "lua_calls s2 = lua_calls s1" "elua_int_flags s2 = elua_int_flags s1" "lua_hooks s2 = lua_hooks s1 - {MAIN_THREAD}" "lua_state s2 = lua_state s"
    unfolding s2_def s2 by (simp_all add: hook_advance_def hook_clear_def Let_def)
      (simp add: s1_def elua_int_hook_def hook_call_def hook_finish_def hook_advance_def hook_clear_def Let_def split: option.split)
  have fl: "elua_int_flags s1 = elua_int_flags s" by (simp add: s1_def)
  have en: "elua_int_is_enabled j s2 = elua_int_is_enabled j s" for j by (simp add: elua_int_is_enabled_def s2'(5) fl)
  have acc: "ELUA_INT_FIRST_ID \<le> unat (id e')" "unat (id e') \<le> INT_ELUA_LAST cfg" "lua_state s2" "elua_int_is_enabled (id e') s2"
    using e'(1) s2'(7) by (simp_all add: int_accepts_def en)
  have "id (elua_int_queue s2 ! r) = ELUA_INT_EMPTY_SLOT" using qt [OF r(1)] by (simp add: s2'(1))
  then have add: "elua_int_add cfg (id e') (resnum e') s2 = (PLATFORM_OK, s2\<lparr>elua_int_queue := (elua_int_queue s2)[r := e'],
      elua_int_write_idx := int_idx_incr cfg (elua_int_write_idx s2), lua_hooks := insert MAIN_THREAD (lua_hooks s2)\<rparr>)"
    using acc r(3) s2'(2) by (cases e') (simp add: elua_int_add_def Let_def)
  define s3 where "s3 = s2\<lparr>elua_int_queue := (elua_int_queue s2)[r := e'],
      elua_int_write_idx := int_idx_incr cfg (elua_int_write_idx s2), lua_hooks := insert MAIN_THREAD (lua_hooks s2)\<rparr>"
  have l2: "length (elua_int_queue s2) = ?n" using r(2) by (simp add: s2'(1) hook_clear_def Let_def)
  have s3: "unat (elua_int_read_idx s3) = Suc r mod ?n" "elua_int_queue s3 ! r = e'" "length (elua_int_queue s3) = ?n"
    "\<And>j. j < ?n \<Longrightarrow> j \<noteq> r \<Longrightarrow> id (elua_int_queue s3 ! j) = ELUA_INT_EMPTY_SLOT" "\<not> elua_int_is_enabled ELUA_INT_EMPTY_SLOT s3"
    using rt r(1) l2 qt emp s1(4) s2'(1,3,5) by (simp_all add: s3_def elua_int_is_enabled_def)
  let ?u = "hook_advance cfg (hook_clear s3)"
  have "id (hook_fetch s3) = ELUA_INT_EMPTY_SLOT" unfolding hook_fetch_def s3(1) using s3(4) [OF slots(1) far(1)] .
  then have call3: "hook_call (hook_fetch s3) ?u = (False, ?u)" using s3(5) by (simp add: hook_call_def elua_int_is_enabled_def)
  have ru: "unat (elua_int_read_idx ?u) = Suc (Suc r mod ?n) mod ?n" using int_idx_incr_unat [OF log] s3(1) by (simp add: hook_advance_def)
  have qu: "elua_int_queue ?u ! j = elua_int_queue s3 ! j" if "j \<noteq> Suc r mod ?n" for j
    using that s3(1) by (simp add: hook_clear_def Let_def)
  have "id (elua_int_queue ?u ! unat (elua_int_read_idx ?u)) = ELUA_INT_EMPTY_SLOT"
    unfolding ru using qu [OF far(3)] s3(4) [OF slots(2) far(2)] by simp
  then have s4: "?h s3 = ?u\<lparr>lua_hooks := lua_hooks s3 - {MAIN_THREAD}\<rparr>" by (simp add: elua_int_hook_def call3 hook_finish_def)
  have "elua_int_queue ?u ! r = e'" "r < length (elua_int_queue ?u)" using qu [of r] far(1) s3(2,3) r(1) by (simp_all add: hook_clear_def Let_def)
  then have "e' \<in> set (elua_int_queue ?u)" by (metis nth_mem)
  moreover have "lua_calls ?u = lua_calls s1" by (simp add: s3_def s2'(4))
  ultimately have "lua_calls (?h s3) = lua_calls s1 \<and> MAIN_THREAD \<notin> lua_hooks (?h s3) \<and> e' \<in> set (elua_int_queue (?h s3))" by (simp add: s4)
  moreover have "elua_int_add cfg (id e') (resnum e') (?h (?h s)) = (PLATFORM_OK, s3)" using add unfolding s3_def s2_def s1_def .
  ultimately show ?thesis using s1(3) hook unfolding s1_def by blast
qed

text \<open>With no further interrupts, and handlers that raise no error, the hook drains the queue: as many calls of the hook as there are
  queued interrupts empty it and clear the hook, and the Lua handlers of those that are enabled
  have been called once each, in the order the interrupts were queued.\<close>

theorem int_hook_drains:
  assumes "int_inv cfg s" and "n = length (queue_pending cfg s)" and "\<forall>e \<in> set (queue_pending cfg s). \<not> fails e"
  shows "queue_pending cfg ((elua_int_hook cfg fails L ^^ n) s) = []
    \<and> lua_calls ((elua_int_hook cfg fails L ^^ n) s) =
        lua_calls s @ concat (map (int_call_of s) (queue_pending cfg s))
    \<and> (0 < n \<longrightarrow> lua_hooks ((elua_int_hook cfg fails L ^^ n) s) = lua_hooks s - {L})"
  using hook_drain [OF assms(1) refl assms(3)] assms(2) by auto

theorem int_hook_drains_witness:
  "lua_calls ((elua_int_hook example_config (\<lambda>_. False) MAIN_THREAD ^^ 2)
      (put_all (int_put example_config) [\<lparr>id = 4, resnum = 1\<rparr>, \<lparr>id = 4, resnum = 2\<rparr>] example_int))
    = [(77, 1), (77, 2)]"
proof -
  let ?es = "[\<lparr>id = 4, resnum = 1\<rparr>, \<lparr>id = 4, resnum = 2\<rparr>] :: elua_int_element list"
  let ?s = "put_all (int_put example_config) ?es example_int"
  have q: "int_inv example_config ?s" "queue_pending example_config ?s = ?es"
    using int_queue.put_all_contents [OF example_int_inv(1), of ?es] example_int_inv(2)
    by (simp_all add: example_int_accepts example_queue_size)
  have acc: "int_accepts example_config example_int e = int_accepts example_config ?s e" for e
    using int_put_room(3) [OF example_int_inv(1) example_int_accepts [of 1]]
      int_put_room [OF int_put_room(1) [OF example_int_inv(1) example_int_accepts [of 1]], of "\<lparr>id = 4, resnum = 2\<rparr>"]
      int_put_room(2) [OF example_int_inv(1) example_int_accepts [of 1]] example_int_accepts [of 2] example_int_inv(2)
    by (simp add: example_queue_size)
  have en: "elua_int_is_enabled 4 ?s"
    using acc [of "\<lparr>id = 4, resnum = 2\<rparr>"] example_int_accepts [of 2] by (simp add: int_accepts_def)
  have "inttable (int_put cfg e s) = inttable s" "lua_calls (int_put cfg e s) = lua_calls s" for cfg e s
    by (simp_all add: int_put_def elua_int_add_def Let_def)
  then have "inttable ?s 4 = Some 77" "lua_calls ?s = []"
    by (simp_all add: example_int_def elua_int_enable_def int_boot_def Let_def)
  then show ?thesis
    using int_hook_drains [OF q(1), of 2 "\<lambda>_. False" MAIN_THREAD] q(2) en by (simp add: int_call_of_def)
qed

theorem int_error_strands_witness:
  "\<exists>s3. elua_int_add example_config 4 2 (elua_int_hook example_config (\<lambda>_. True) MAIN_THREAD (elua_int_hook example_config (\<lambda>_. True) MAIN_THREAD
      (int_put example_config \<lparr>id = 4, resnum = 1\<rparr> example_int))) = (PLATFORM_OK, s3)
    \<and> MAIN_THREAD \<notin> lua_hooks (elua_int_hook example_config (\<lambda>_. True) MAIN_THREAD s3)"
proof -
  let ?e = "\<lparr>id = 4, resnum = 1\<rparr> :: elua_int_element" and ?e' = "\<lparr>id = 4, resnum = 2\<rparr> :: elua_int_element"
  let ?s = "int_put example_config ?e example_int"
  note p = int_put_room [OF example_int_inv(1) example_int_accepts [of 1]]
  have s: "int_inv example_config ?s" "queue_pending example_config ?s = [?e]" "MAIN_THREAD \<in> lua_hooks ?s" "int_accepts example_config ?s ?e'"
    using p example_int_inv(2) example_int_accepts [of 2] by (simp_all add: example_queue_size)
  have en: "elua_int_is_enabled 4 ?s" using s(4) by (simp add: int_accepts_def)
  have fr: "inttable (int_put cfg e s) = inttable s" "elua_int_flags (int_put cfg e s) = elua_int_flags s" for cfg e s
    by (simp_all add: int_put_def elua_int_add_def Let_def)
  then have "inttable ?s 4 = Some 77" by (simp add: example_int_def elua_int_enable_def int_boot_def Let_def)
  then have call: "int_call_of ?s ?e \<noteq> []" using en by (simp add: int_call_of_def)
  have "\<not> elua_int_is_enabled 0 example_int"
    unfolding example_int_def by (subst enable_is_enabled) (simp_all add: flags_ok_def int_boot_def elua_int_is_enabled_def)
  then have "\<not> elua_int_is_enabled 0 ?s" using fr(2) by (simp add: elua_int_is_enabled_def)
  then show ?thesis
    using int_error_strands [OF s(1-3) call _ _ s(4), of "\<lambda>_. True"] by (auto simp: example_queue_size)
qed

text \<open>\<^verbatim>\<open>elua_int_add\<close> accepts an interrupt exactly when its id is valid, a Lua state exists,
  the interrupt is enabled and the queue is not full; it then appends it to the queue and sets
  the hook. Otherwise it returns \<^verbatim>\<open>PLATFORM_ERR\<close> and changes nothing.\<close>

theorem int_add_contract:
  assumes inv: "int_inv cfg s"
  shows "if int_accepts cfg s e \<and> length (queue_pending cfg s) < int_queue_size cfg
    then \<exists>s'. elua_int_add cfg (id e) (resnum e) s = (PLATFORM_OK, s') \<and> int_inv cfg s'
      \<and> queue_pending cfg s' = queue_pending cfg s @ [e] \<and> MAIN_THREAD \<in> lua_hooks s'
    else elua_int_add cfg (id e) (resnum e) s = (PLATFORM_ERR, s)"
proof -
  obtain c where c: "queue_at cfg (unat (elua_int_read_idx s)) c s" "length (queue_pending cfg s) = c"
    using inv by (rule int_invE)
  have le: "c \<le> int_queue_size cfg" using c(1) by (simp add: queue_at_def)
  show ?thesis
  proof (cases "int_accepts cfg s e \<and> c < int_queue_size cfg")
    case True
    then have acc: "int_accepts cfg s e" and room: "c < int_queue_size cfg" by auto
    show ?thesis
      using elua_int_add_room [OF c(1) room acc] int_put_room [OF inv acc] True c(2)
      by (auto simp: int_put_def)
  next
    case False
    then show ?thesis using elua_int_add_reject [of cfg s e] elua_int_add_full [of cfg _ s] c le by auto
  qed
qed

theorem int_add_contract_witness:
  "\<exists>s'. elua_int_add example_config 4 9 example_int = (PLATFORM_OK, s')
    \<and> queue_pending example_config s' = [\<lparr>id = 4, resnum = 9\<rparr>] \<and> MAIN_THREAD \<in> lua_hooks s'"
  using int_add_contract [OF example_int_inv(1), of "\<lparr>id = 4, resnum = 9\<rparr>"] example_int_accepts [of 9]
    example_int_inv(2) by auto

text \<open>The 128 enable bits packed into four words behave as a set of interrupt ids: enabling
  adds one id (ids from 128 on are ignored), disabling removes one, no other id is affected, and
  \<^verbatim>\<open>elua_int_disable_all\<close> empties it.\<close>

theorem int_flags_set:
  assumes "flags_ok s"
  shows "elua_int_is_enabled j (elua_int_enable i s) = (elua_int_is_enabled j s \<or> j = i \<and> unat i < 128)
    \<and> elua_int_is_enabled j (elua_int_disable i s) = (elua_int_is_enabled j s \<and> j \<noteq> i)
    \<and> \<not> elua_int_is_enabled j (elua_int_disable_all s)"
  using enable_is_enabled [OF assms] disable_is_enabled [OF assms] assms
  by (simp add: is_enabled_bit elua_int_disable_all_def drop_bit_eq_div clear_flags_nth flags_ok_def)

theorem int_flags_set_witness:
  "elua_int_is_enabled 37 (elua_int_enable 37 (int_boot example_config))
    \<and> \<not> elua_int_is_enabled 5 (elua_int_disable 5 (int_boot example_config))"
  using int_flags_set [of "int_boot example_config"] by (simp add: flags_ok_def int_boot_def)

text \<open>Closing the Lua state drops every queued interrupt, disables all of them and clears the
  hook, so that until a state is opened and an interrupt enabled again nothing is queued.\<close>

theorem int_close_quiet:
  assumes "int_inv cfg s"
  shows "int_inv cfg (lua_close_int s) \<and> queue_pending cfg (lua_close_int s) = []
    \<and> lua_hooks (lua_close_int s) = {}
    \<and> elua_int_add cfg i rn (lua_close_int s) = (PLATFORM_ERR, lua_close_int s)
    \<and> elua_int_add cfg i rn ((lua_close_int s)\<lparr>lua_state := True\<rparr>) =
        (PLATFORM_ERR, (lua_close_int s)\<lparr>lua_state := True\<rparr>)"
proof -
  obtain c where c: "queue_at cfg (unat (elua_int_read_idx s)) c s" "config_ok cfg" "flags_ok s"
    using assms by (rule int_invE)
  have "length (elua_int_queue s) = int_queue_size cfg" using c(1) by (simp add: queue_at_def)
  note e = close_empty [OF this c(3)]
  have "elua_int_is_enabled i ((lua_close_int s)\<lparr>lua_state := True\<rparr>) = elua_int_is_enabled i (lua_close_int s)"
    by (simp add: elua_int_is_enabled_def)
  then show ?thesis
    using e c(2) queue_count_at [OF e(1)]
    by (auto simp: int_inv_def queue_pending_def queued_from_def elua_int_add_def)
qed

theorem int_close_quiet_witness:
  "queue_pending example_config (lua_close_int (int_put example_config \<lparr>id = 4, resnum = 1\<rparr> example_int)) = []"
  using int_close_quiet [of example_config "int_put example_config \<lparr>id = 4, resnum = 1\<rparr> example_int"]
    int_put_room(1) [OF example_int_inv(1) example_int_accepts [of 1]] example_int_inv(2) by simp

text \<open>The C handler table: after a handler is set for a valid interrupt it is the one found for
  that interrupt, the handlers of the others are unchanged, the call returns the previous handler
  (for chaining), and ids outside the platform's range have no handler. No access is outside the
  table.\<close>

theorem int_c_handlers:
  assumes "length hs = INT_ELUA_LAST cfg" and "elua_int_set_c_handler cfg i h hs = (old, hs')"
  shows "old = elua_int_get_c_handler cfg i hs \<and> length hs' = length hs
    \<and> elua_int_get_c_handler cfg j hs' =
        (if j = i \<and> 1 \<le> unat i \<and> unat i \<le> INT_ELUA_LAST cfg then h
         else elua_int_get_c_handler cfg j hs)
    \<and> (1 \<le> unat i \<and> unat i \<le> INT_ELUA_LAST cfg \<longrightarrow> unat (i - 1) < length hs)"
proof -
  have "1 \<le> unat i \<Longrightarrow> unat (i - 1) = unat i - 1" by unat_arith
  moreover have "1 \<le> unat i \<Longrightarrow> 1 \<le> unat j \<Longrightarrow> unat i - 1 = unat j - 1 \<Longrightarrow> i = j"
    by (simp add: word_unat_eq_iff)
  ultimately show ?thesis using assms
    by (auto simp: elua_int_set_c_handler_def elua_int_get_c_handler_def Let_def nth_list_update
        split: if_splits)
qed

theorem int_c_handlers_witness:
  "elua_int_get_c_handler example_config 3 (snd (elua_int_set_c_handler example_config 3 (Some 8) [None, None, Some 1, None, None]))
    = Some 8"
  using int_c_handlers [of "[None, None, Some 1, None, None]" example_config 3 "Some 8" "Some 1" _ 3]
  by (simp add: example_config_def elua_int_set_c_handler_def)

end
