(* ===== verification/Sermux.thy ===== *)
theory Sermux
  imports Elua_Prelude
begin

text \<open>
  The protocol of the serial multiplexer (\<^verbatim>\<open>inc/sermux.h\<close>): several virtual UARTs share one
  physical link. A byte of service \<open>i\<close> is preceded by the service id when the last byte was of
  another service; the reserved bytes (the ids, the escape character, the request for the service id)
  are sent as the escape character and the byte with bit 5 flipped. Both ends of the link, the
  board (\<^verbatim>\<open>src/common_uart.c\<close>) and the PC (\<^verbatim>\<open>mux_src/main.c\<close>), implement a sender and a receiver.
  The locales state what a sender and a receiver promise; what follows for a link is proved here once
  and holds of both directions.
\<close>

abbreviation "SERMUX_ESCAPE_CHAR \<equiv> (0xC0 :: u8)"
abbreviation "SERMUX_FORCE_SID_CHAR \<equiv> (0xFF :: u8)"
abbreviation "SERMUX_ESCAPE_XOR_MASK \<equiv> (0x20 :: u8)"
abbreviation "SERMUX_ESC_MASK \<equiv> (0x100 :: int)"

definition mux_reserved :: "u8 \<Rightarrow> bool" where
  "mux_reserved d \<longleftrightarrow> d = SERMUX_ESCAPE_CHAR \<or> d = SERMUX_FORCE_SID_CHAR
     \<or> SERMUX_SERVICE_ID_FIRST \<le> unat d \<and> unat d \<le> SERMUX_SERVICE_ID_LAST"

definition mux_frame :: "u8 \<Rightarrow> u8 list" where
  "mux_frame d = (if mux_reserved d then [SERMUX_ESCAPE_CHAR, d XOR SERMUX_ESCAPE_XOR_MASK] else [d])"

definition mux_encode :: "int \<Rightarrow> nat \<Rightarrow> u8 \<Rightarrow> u8 list" where
  "mux_encode out i d = (if int i \<noteq> out then [of_nat i] else []) @ mux_frame d"

text \<open>The value from which the last byte can be sent again: the byte that went over the link, with
  bit 8 set when it was escaped.\<close>

definition mux_last :: "u8 \<Rightarrow> int" where
  "mux_last d = (if mux_reserved d then SERMUX_ESC_MASK OR uint (d XOR SERMUX_ESCAPE_XOR_MASK) else uint d)"

definition mux_resend :: "int \<Rightarrow> u8 list" where
  "mux_resend prev =
     (if prev AND SERMUX_ESC_MASK \<noteq> 0 then [SERMUX_ESCAPE_CHAR] else []) @ [word_of_int (prev AND 0xFF)]"

lemma xor_mask_twice [simp]: "(d XOR SERMUX_ESCAPE_XOR_MASK) XOR SERMUX_ESCAPE_XOR_MASK = (d :: u8)"
  by (simp add: xor.assoc)

lemma mux_reserved_cases:
  "mux_reserved d \<longleftrightarrow> d \<in> {0xC0, 0xFF, 0xD0, 0xD1, 0xD2, 0xD3, 0xD4, 0xD5, 0xD6, 0xD7}"
proof -
  have "(0xD0 \<le> unat d \<and> unat d \<le> 0xD7) \<longleftrightarrow> unat d \<in> {0xD0, 0xD1, 0xD2, 0xD3, 0xD4, 0xD5, 0xD6, 0xD7}"
    by auto
  then show ?thesis by (auto simp: mux_reserved_def word_unat_eq_iff)
qed

lemma mux_reserved_xor: "mux_reserved d \<Longrightarrow> \<not> mux_reserved (d XOR SERMUX_ESCAPE_XOR_MASK)"
  by (auto simp: mux_reserved_cases)

lemma and_exp_zero: "\<not> bit x n \<Longrightarrow> (x :: int) AND 2 ^ n = 0"
  by (rule bit_eqI) (auto simp: bit_and_iff bit_exp_iff)

lemma mux_resend_last: "mux_resend (mux_last d) = mux_frame d"
proof (cases "mux_reserved d")
  case True
  then show ?thesis
    by (auto simp: mux_reserved_cases mux_resend_def mux_last_def mux_frame_def)
next
  case False
  have "uint d AND 2 ^ 8 = 0" by (rule and_exp_zero) (simp add: bit_uint_iff)
  moreover have "uint d AND (2 ^ 8 - 1) = uint d"
    by (simp only: and_pow2_minus_1) (use uint_lt2p [of d] in simp)
  ultimately have "uint d AND 0x100 = 0" "uint d AND 0xFF = uint d" by simp_all
  with False show ?thesis
    by (simp add: mux_resend_def mux_last_def mux_frame_def)
qed

lemma mux_last_nonneg: "0 \<le> mux_last d"
  by (simp add: mux_last_def or_nonnegative_int_iff)

section \<open>What a sender and a receiver promise\<close>

fun run_bytes :: "(u8 \<Rightarrow> 's \<Rightarrow> 's option) \<Rightarrow> u8 list \<Rightarrow> 's \<Rightarrow> 's option" where
  "run_bytes recv [] s = Some s"
| "run_bytes recv (b # bs) s = (case recv b s of None \<Rightarrow> None | Some s' \<Rightarrow> run_bytes recv bs s')"

lemma run_bytes_append:
  "run_bytes recv (as @ bs) s = (case run_bytes recv as s of None \<Rightarrow> None | Some s' \<Rightarrow> run_bytes recv bs s')"
  by (induction as arbitrary: s) (simp_all split: option.split)

fun send_all :: "(nat \<Rightarrow> u8 \<Rightarrow> 's \<Rightarrow> 's) \<Rightarrow> (nat \<times> u8) list \<Rightarrow> 's \<Rightarrow> 's" where
  "send_all send [] s = s"
| "send_all send ((i, d) # ms) s = send_all send ms (send i d s)"

definition of_service :: "nat \<Rightarrow> (nat \<times> u8) list \<Rightarrow> u8 list" where
  "of_service i ms = map snd (filter (\<lambda>m. fst m = i) ms)"

lemma of_service_Cons [simp]:
  "of_service i [] = []"
  "of_service i ((j, d) # ms) = (if j = i then d # of_service i ms else of_service i ms)"
  by (simp_all add: of_service_def)

locale mux_sender =
  fixes svc :: "nat \<Rightarrow> bool"
    and tx_inv :: "'s \<Rightarrow> bool"
    and send :: "nat \<Rightarrow> u8 \<Rightarrow> 's \<Rightarrow> 's"
    and out_sid :: "'s \<Rightarrow> int"
    and prev_sent :: "'s \<Rightarrow> int"
    and link_out :: "'s \<Rightarrow> u8 list"
    and force_sid :: "'s \<Rightarrow> 's option"
  assumes svc_range: "svc i \<Longrightarrow> SERMUX_SERVICE_ID_FIRST \<le> i \<and> i \<le> SERMUX_SERVICE_ID_LAST"
    and send_inv: "tx_inv s \<Longrightarrow> svc i \<Longrightarrow> tx_inv (send i d s)"
    and send_out: "tx_inv s \<Longrightarrow> svc i \<Longrightarrow> link_out (send i d s) = link_out s @ mux_encode (out_sid s) i d"
    and send_sid: "tx_inv s \<Longrightarrow> svc i \<Longrightarrow> out_sid (send i d s) = int i"
    and send_prev: "tx_inv s \<Longrightarrow> svc i \<Longrightarrow> prev_sent (send i d s) = mux_last d"
    and force_resend: "tx_inv s \<Longrightarrow> prev_sent s \<noteq> -1 \<Longrightarrow> \<exists>s'. force_sid s = Some s'
      \<and> link_out s' = link_out s @ word_of_int (out_sid s) # mux_resend (prev_sent s)"

locale mux_receiver =
  fixes rsvc :: "nat \<Rightarrow> bool"
    and rx_inv :: "'r \<Rightarrow> bool"
    and recv :: "u8 \<Rightarrow> 'r \<Rightarrow> 'r option"
    and in_sid :: "'r \<Rightarrow> int"
    and got_esc :: "'r \<Rightarrow> bool"
    and got :: "'r \<Rightarrow> nat \<Rightarrow> u8 list"
    and bound :: "nat \<Rightarrow> nat \<Rightarrow> bool"
    and requests :: "'r \<Rightarrow> u8 list"
  assumes rsvc_range: "rsvc i \<Longrightarrow> SERMUX_SERVICE_ID_FIRST \<le> i \<and> i \<le> SERMUX_SERVICE_ID_LAST"
    and recv_sid: "rx_inv r \<Longrightarrow> rsvc i \<Longrightarrow> \<exists>r'. recv (of_nat i) r = Some r' \<and> rx_inv r'
      \<and> in_sid r' = int i \<and> got_esc r' = got_esc r \<and> got r' = got r \<and> requests r' = requests r"
    and recv_esc: "rx_inv r \<Longrightarrow> \<exists>r'. recv SERMUX_ESCAPE_CHAR r = Some r' \<and> rx_inv r'
      \<and> in_sid r' = in_sid r \<and> got_esc r' \<and> got r' = got r \<and> requests r' = requests r"
    and recv_data: "rx_inv r \<Longrightarrow> \<not> mux_reserved b \<Longrightarrow>
      d = (if got_esc r then b XOR SERMUX_ESCAPE_XOR_MASK else b) \<Longrightarrow> (got_esc r \<Longrightarrow> mux_reserved d) \<Longrightarrow>
      in_sid r = int i \<Longrightarrow> rsvc i \<Longrightarrow> bound i (Suc (length (got r i))) \<Longrightarrow> \<exists>r'. recv b r = Some r'
      \<and> rx_inv r' \<and> in_sid r' = in_sid r \<and> \<not> got_esc r' \<and> got r' = (got r)(i := got r i @ [d])
      \<and> requests r' = requests r"
    and recv_unknown: "rx_inv r \<Longrightarrow> \<not> mux_reserved b \<Longrightarrow>
      (got_esc r \<Longrightarrow> mux_reserved (b XOR SERMUX_ESCAPE_XOR_MASK)) \<Longrightarrow> in_sid r = -1 \<Longrightarrow> \<exists>r'. recv b r = Some r'
      \<and> rx_inv r' \<and> in_sid r' = -1 \<and> \<not> got_esc r' \<and> got r' = got r
      \<and> requests r' = requests r @ [SERMUX_FORCE_SID_CHAR]"
begin

lemma recv_frame:
  assumes "rx_inv r" and "\<not> got_esc r" and "in_sid r = int i" and "rsvc i"
    and "bound i (Suc (length (got r i)))"
  shows "\<exists>r'. run_bytes recv (mux_frame d) r = Some r' \<and> rx_inv r' \<and> in_sid r' = int i
    \<and> \<not> got_esc r' \<and> got r' = (got r)(i := got r i @ [d]) \<and> requests r' = requests r"
proof (cases "mux_reserved d")
  case False
  then show ?thesis using recv_data [OF assms(1) False, of d i] assms by (auto simp: mux_frame_def)
next
  case True
  obtain r1 where r1: "recv SERMUX_ESCAPE_CHAR r = Some r1" "rx_inv r1" "in_sid r1 = int i" "got_esc r1"
      "got r1 = got r" "requests r1 = requests r"
    using recv_esc [OF assms(1)] assms(3) by auto
  obtain r2 where "recv (d XOR SERMUX_ESCAPE_XOR_MASK) r1 = Some r2" "rx_inv r2" "in_sid r2 = int i"
      "\<not> got_esc r2" "got r2 = (got r1)(i := got r1 i @ [d])" "requests r2 = requests r1"
    using recv_data [OF r1(2) mux_reserved_xor [OF True], of d i] r1 True assms by auto
  with r1 True show ?thesis by (simp add: mux_frame_def)
qed

lemma recv_encode:
  assumes "rx_inv r" and "\<not> got_esc r" and "out \<noteq> -1 \<Longrightarrow> in_sid r = out" and "rsvc i"
    and "bound i (Suc (length (got r i)))"
  shows "\<exists>r'. run_bytes recv (mux_encode out i d) r = Some r' \<and> rx_inv r' \<and> in_sid r' = int i
    \<and> \<not> got_esc r' \<and> got r' = (got r)(i := got r i @ [d]) \<and> requests r' = requests r"
proof (cases "int i = out")
  case True
  then show ?thesis using recv_frame [of r i d] assms by (auto simp: mux_encode_def)
next
  case False
  obtain r1 where r1: "recv (of_nat i) r = Some r1" "rx_inv r1" "in_sid r1 = int i"
      "\<not> got_esc r1" "got r1 = got r" "requests r1 = requests r"
    using recv_sid [OF assms(1,4)] assms(2) by auto
  then show ?thesis using recv_frame [of r1 i d] assms False by (simp add: mux_encode_def)
qed

text \<open>A receiver that does not know the current service asks for it and drops the byte.\<close>

lemma recv_frame_unknown:
  assumes "rx_inv r" and "\<not> got_esc r" and "in_sid r = -1"
  shows "\<exists>r'. run_bytes recv (mux_frame d) r = Some r' \<and> rx_inv r' \<and> in_sid r' = -1
    \<and> \<not> got_esc r' \<and> got r' = got r \<and> requests r' = requests r @ [SERMUX_FORCE_SID_CHAR]"
proof (cases "mux_reserved d")
  case False
  then show ?thesis using recv_unknown [OF assms(1) False] assms by (auto simp: mux_frame_def)
next
  case True
  obtain r1 where r1: "recv SERMUX_ESCAPE_CHAR r = Some r1" "rx_inv r1" "in_sid r1 = -1" "got_esc r1"
      "got r1 = got r" "requests r1 = requests r"
    using recv_esc [OF assms(1)] assms(3) by auto
  obtain r2 where "recv (d XOR SERMUX_ESCAPE_XOR_MASK) r1 = Some r2" "rx_inv r2" "in_sid r2 = -1"
      "\<not> got_esc r2" "got r2 = got r1" "requests r2 = requests r1 @ [SERMUX_FORCE_SID_CHAR]"
    using recv_unknown [OF r1(2) mux_reserved_xor [OF True]] r1 True by auto
  with r1 True show ?thesis by (simp add: mux_frame_def)
qed

end

section \<open>A link\<close>

text \<open>One direction of the link: what the sender puts on the line is what the receiver is fed. The
  two ends agree on the service of the last byte, or the sender has not sent anything.\<close>

locale mux_link = mux_sender svc tx_inv send out_sid prev_sent link_out force_sid +
  mux_receiver rsvc rx_inv recv in_sid got_esc got bound requests
  for svc :: "nat \<Rightarrow> bool" and tx_inv :: "'s \<Rightarrow> bool" and send and out_sid and prev_sent and link_out
    and force_sid and rsvc :: "nat \<Rightarrow> bool" and rx_inv :: "'r \<Rightarrow> bool" and recv and in_sid and got_esc
    and got and bound and requests +
  assumes svc_rsvc: "svc i \<Longrightarrow> rsvc i"
    and bound_mono: "bound i n \<Longrightarrow> m \<le> n \<Longrightarrow> bound i m"
begin

definition in_sync :: "'s \<Rightarrow> 'r \<Rightarrow> bool" where
  "in_sync s r \<longleftrightarrow> tx_inv s \<and> rx_inv r \<and> \<not> got_esc r \<and> (out_sid s \<noteq> -1 \<longrightarrow> in_sid r = out_sid s)"

lemma link_delivers:
  assumes "in_sync s r" and "\<forall>(i, d) \<in> set ms. svc i"
    and "\<forall>i. svc i \<longrightarrow> bound i (length (got r i) + length (of_service i ms))"
  shows "\<exists>bs r'. link_out (send_all send ms s) = link_out s @ bs \<and> run_bytes recv bs r = Some r'
    \<and> in_sync (send_all send ms s) r' \<and> (\<forall>i. got r' i = got r i @ of_service i ms)
    \<and> requests r' = requests r"
  using assms
proof (induction ms arbitrary: s r)
  case Nil
  then show ?case by auto
next
  case (Cons m ms)
  obtain i d where m: "m = (i, d)" by (cases m)
  from Cons.prems m have i: "svc i" and inv: "tx_inv s" by (auto simp: in_sync_def)
  have "bound i (Suc (length (got r i)))"
    using Cons.prems(3) i m by (auto intro: bound_mono)
  then obtain r1 where r1: "run_bytes recv (mux_encode (out_sid s) i d) r = Some r1" "rx_inv r1"
      "in_sid r1 = int i" "\<not> got_esc r1" "got r1 = (got r)(i := got r i @ [d])" "requests r1 = requests r"
    using recv_encode [of r "out_sid s" i d] Cons.prems(1) svc_rsvc [OF i] by (auto simp: in_sync_def)
  have sync: "in_sync (send i d s) r1"
    using r1 send_inv [OF inv i] send_sid [OF inv i] by (simp add: in_sync_def)
  have room: "\<forall>j. svc j \<longrightarrow> bound j (length (got r1 j) + length (of_service j ms))"
    using Cons.prems(3) m r1(5) by (auto split: if_splits)
  have svcs: "\<forall>(i, d) \<in> set ms. svc i" using Cons.prems(2) by simp
  obtain bs r2 where "link_out (send_all send ms (send i d s)) = link_out (send i d s) @ bs"
      "run_bytes recv bs r1 = Some r2" "in_sync (send_all send ms (send i d s)) r2"
      "\<forall>j. got r2 j = got r1 j @ of_service j ms" "requests r2 = requests r1"
    using Cons.IH [OF sync svcs room] by blast
  then show ?case
    using r1 m send_out [OF inv i, of d]
    by (intro exI [of _ "mux_encode (out_sid s) i d @ bs"] exI [of _ r2])
      (auto simp: run_bytes_append)
qed

text \<open>A receiver that lost its state (it was restarted) gets the byte it could not place, and is in
  step again, after its request has reached the sender and the answer has come back.\<close>

lemma link_resync:
  assumes "tx_inv s" and "rx_inv r" and "\<not> got_esc r" and "in_sid r = -1" and "svc i" and "out_sid s = int i"
    and "bound i (Suc (length (got r i)))"
  shows "\<exists>r1 s2 bs r2. run_bytes recv (mux_encode (out_sid s) i d) r = Some r1
    \<and> requests r1 = requests r @ [SERMUX_FORCE_SID_CHAR] \<and> got r1 = got r
    \<and> force_sid (send i d s) = Some s2 \<and> link_out s2 = link_out (send i d s) @ bs
    \<and> run_bytes recv bs r1 = Some r2 \<and> got r2 = (got r)(i := got r i @ [d]) \<and> in_sid r2 = int i
    \<and> \<not> got_esc r2"
proof -
  obtain r1 where r1: "run_bytes recv (mux_frame d) r = Some r1" "rx_inv r1" "in_sid r1 = -1"
      "\<not> got_esc r1" "got r1 = got r" "requests r1 = requests r @ [SERMUX_FORCE_SID_CHAR]"
    using recv_frame_unknown [OF assms(2-4)] by blast
  have "prev_sent (send i d s) = mux_last d" by (rule send_prev [OF assms(1,5)])
  moreover have "mux_last d \<noteq> -1"
    using mux_last_nonneg [of d] by linarith
  ultimately obtain s2 where s2: "force_sid (send i d s) = Some s2"
      "link_out s2 = link_out (send i d s) @ of_nat i # mux_frame d"
    using force_resend [OF send_inv [OF assms(1,5)], of d] send_sid [OF assms(1,5), of d]
    by (auto simp: mux_resend_last)
  have "run_bytes recv (of_nat i # mux_frame d) r1 = run_bytes recv (mux_encode (-1) i d) r1"
    by (simp add: mux_encode_def)
  moreover obtain r2 where "run_bytes recv (mux_encode (-1) i d) r1 = Some r2" "in_sid r2 = int i"
      "\<not> got_esc r2" "got r2 = (got r)(i := got r i @ [d])"
    using recv_encode [of r1 "-1" i d] r1 assms(5,7) svc_rsvc by auto
  ultimately show ?thesis using r1 s2 assms(6) by (auto simp: mux_encode_def)
qed

end

end
