(* ===== verification/Uart.thy ===== *)
theory Uart
  imports Buf Elua_Int Sermux
begin

text \<open>
  The UART functions common to all platforms, \<^verbatim>\<open>src/common_uart.c\<close>: buffered and unbuffered
  reception with a timeout, the receive interrupt, the board's end of the serial multiplexer, and the
  installation of buffers and of the receive handler. The state has the file's static variables,
  the device buffers, the table of C handlers, and as the hardware sees it: the bytes sent on each
  physical port, the bytes waiting in each receive register, the receive interrupts that are enabled.
  The calls of a chained interrupt handler are recorded. A function value of the environment stands
  for what interrupts do between two polls.
\<close>

record uart_state =
  uart_service_id_in :: int
  uart_service_id_out :: int
  uart_got_esc :: bool
  uart_last_sent :: int
  uart_bufs :: bufs
  uart_tx :: "(nat \<times> u8) list"
  uart_hw_rx :: "nat \<Rightarrow> u8 list"
  uart_handlers :: "c_handler option list"
  prev_uart_rx_handler :: "c_handler option"
  uart_rx_int :: "nat \<Rightarrow> bool"
  uart_chained :: "(c_handler \<times> nat) list"

text \<open>What a call that may wait does: it returns, it is still waiting when the environment's moves
  are used up, or it touches memory outside a block.\<close>

datatype 'a run = Returned 'a | Waiting | Undefined

abbreviation "PLATFORM_TIMER_SYS_MAX \<equiv> (2 ^ 52 - 2 :: nat)"
abbreviation "PLATFORM_TIMER_INF_TIMEOUT \<equiv> (2 ^ 52 - 1 :: nat)"

text \<open>The handler \<^verbatim>\<open>cmn_uart_rx_inthandler\<close> as a value of the handler table.\<close>

abbreviation "CMN_UART_RX_INTHANDLER \<equiv> (1 :: c_handler)"

section \<open>Ports\<close>

definition platform_uart_exists :: "build_config \<Rightarrow> nat \<Rightarrow> bool" where
  "platform_uart_exists cfg i =
     (if i \<ge> SERMUX_SERVICE_ID_FIRST \<and> i < SERMUX_SERVICE_ID_FIRST + SERMUX_NUM_VUART cfg then True
      else if NUM_CDC_UART cfg = 1 \<and> i = CDC_UART_ID then True
      else if i < NUM_UART cfg then True else False)"

definition platform_s_uart_send :: "nat \<Rightarrow> u8 \<Rightarrow> uart_state \<Rightarrow> uart_state" where
  "platform_s_uart_send i d s = s\<lparr>uart_tx := uart_tx s @ [(i, d)]\<rparr>"

definition platform_s_uart_recv :: "nat \<Rightarrow> uart_state \<Rightarrow> int \<times> uart_state" where
  "platform_s_uart_recv i s =
     (case uart_hw_rx s i of [] \<Rightarrow> (-1, s)
      | x # xs \<Rightarrow> (uint x, s\<lparr>uart_hw_rx := (uart_hw_rx s)(i := xs)\<rparr>))"

section \<open>Sending\<close>

definition platform_uart_send :: "build_config \<Rightarrow> nat \<Rightarrow> u8 \<Rightarrow> uart_state \<Rightarrow> uart_state" where
  "platform_uart_send cfg i d s =
     (let phys = SERMUX_PHYS_ID cfg;
          s = (if i \<ge> SERMUX_SERVICE_ID_FIRST \<and> i < SERMUX_SERVICE_ID_FIRST + SERMUX_NUM_VUART cfg
               then let s1 = (if int i \<noteq> uart_service_id_out s then platform_s_uart_send phys (of_nat i) s else s);
                        s2 = s1\<lparr>uart_last_sent := uint d\<rparr>;
                        s3 = (if d = SERMUX_ESCAPE_CHAR \<or> d = SERMUX_FORCE_SID_CHAR
                                 \<or> unat d \<ge> SERMUX_SERVICE_ID_FIRST \<and> unat d \<le> SERMUX_SERVICE_ID_LAST
                              then (platform_s_uart_send phys (d XOR SERMUX_ESCAPE_XOR_MASK)
                                     (platform_s_uart_send phys SERMUX_ESCAPE_CHAR s2))
                                     \<lparr>uart_last_sent := SERMUX_ESC_MASK OR uint (d XOR SERMUX_ESCAPE_XOR_MASK)\<rparr>
                              else platform_s_uart_send phys d s2)
                    in s3\<lparr>uart_service_id_out := int i\<rparr>
               else s)
      in if i < NUM_UART cfg \<or> i = CDC_UART_ID then platform_s_uart_send i d s else s)"

section \<open>Reception\<close>

definition uart_buf_write :: "build_config \<Rightarrow> nat \<Rightarrow> u8 \<Rightarrow> uart_state \<Rightarrow> uart_state option" where
  "uart_buf_write cfg i d s =
     (case buf_write cfg BUF_ID_UART i [d] (uart_bufs s) of
        None \<Rightarrow> None | Some (st, b) \<Rightarrow> Some (s\<lparr>uart_bufs := b\<rparr>))"

definition cmn_rx_handler :: "build_config \<Rightarrow> nat \<Rightarrow> u8 \<Rightarrow> uart_state \<Rightarrow> uart_state option" where
  "cmn_rx_handler cfg usart_id d s =
     (if usart_id = SERMUX_PHYS_ID cfg then
        (if d \<noteq> SERMUX_ESCAPE_CHAR then
           (if unat d \<ge> SERMUX_SERVICE_ID_FIRST \<and> unat d < SERMUX_SERVICE_ID_FIRST + SERMUX_NUM_VUART cfg
            then Some (s\<lparr>uart_service_id_in := uint d\<rparr>)
            else if d = SERMUX_FORCE_SID_CHAR \<and> uart_last_sent s \<noteq> -1
            then let phys = SERMUX_PHYS_ID cfg;
                     s1 = platform_s_uart_send phys (word_of_int (uart_service_id_out s)) s;
                     s2 = (if uart_last_sent s1 AND SERMUX_ESC_MASK \<noteq> 0
                           then platform_s_uart_send phys SERMUX_ESCAPE_CHAR s1 else s1);
                     s3 = platform_s_uart_send phys (word_of_int (uart_last_sent s2 AND 0xFF)) s2
                 in Some (s3\<lparr>uart_last_sent := -1\<rparr>)
            else let d' = (if uart_got_esc s then d XOR SERMUX_ESCAPE_XOR_MASK else d);
                     s1 = (if uart_got_esc s then s\<lparr>uart_got_esc := False\<rparr> else s)
                 in if uart_service_id_in s1 = -1
                    then Some (platform_s_uart_send (SERMUX_PHYS_ID cfg) SERMUX_FORCE_SID_CHAR s1)
                    else uart_buf_write cfg (nat (uart_service_id_in s1)) d' s1)
         else Some (s\<lparr>uart_got_esc := True\<rparr>))
      else uart_buf_write cfg usart_id d s)"

text \<open>The \<^verbatim>\<open>while\<close> loop of the receive interrupt handler; the bytes that wait in the receive
  register bound the number of rounds.\<close>

fun rx_drain :: "build_config \<Rightarrow> nat \<Rightarrow> nat \<Rightarrow> uart_state \<Rightarrow> uart_state option" where
  "rx_drain cfg i 0 s = Some s"
| "rx_drain cfg i (Suc n) s =
     (case platform_s_uart_recv i s of
        (c, s1) \<Rightarrow> if c = -1 then Some s1
          else (case cmn_rx_handler cfg i (word_of_int c) s1 of
                  None \<Rightarrow> None | Some s2 \<Rightarrow> rx_drain cfg i n s2))"

definition cmn_uart_rx_inthandler :: "build_config \<Rightarrow> nat \<Rightarrow> uart_state \<Rightarrow> uart_state option" where
  "cmn_uart_rx_inthandler cfg rn s =
     (case (if buf_is_enabled cfg BUF_ID_UART rn (uart_bufs s) \<or> rn = SERMUX_PHYS_ID cfg
            then rx_drain cfg rn (Suc (length (uart_hw_rx s rn))) s else Some s) of
        None \<Rightarrow> None
      | Some s1 \<Rightarrow> (case prev_uart_rx_handler s1 of
                     None \<Rightarrow> Some s1
                   | Some h \<Rightarrow> Some (s1\<lparr>uart_chained := uart_chained s1 @ [(h, rn)]\<rparr>)))"

text \<open>A single poll of \<^verbatim>\<open>buf_read\<close> into a one-byte variable.\<close>

definition uart_buf_poll :: "build_config \<Rightarrow> nat \<Rightarrow> uart_state \<Rightarrow> (u8 option \<times> uart_state) option" where
  "uart_buf_poll cfg i s =
     (case buf_read cfg BUF_ID_UART i (uart_bufs s) of
        None \<Rightarrow> None
      | Some (PLATFORM_UNDERFLOW, x, b) \<Rightarrow> Some (None, s\<lparr>uart_bufs := b\<rparr>)
      | Some (st, x, b) \<Rightarrow>
          (case x of [d] \<Rightarrow> Some (Some d, s\<lparr>uart_bufs := b\<rparr>) | _ \<Rightarrow> None))"

fun buf_wait :: "build_config \<Rightarrow> nat \<Rightarrow> (uart_state \<Rightarrow> uart_state) list \<Rightarrow> uart_state \<Rightarrow> (int \<times> uart_state) run" where
  "buf_wait cfg i env s =
     (case uart_buf_poll cfg i s of
        None \<Rightarrow> Undefined
      | Some (Some d, s1) \<Rightarrow> Returned (uint d, s1)
      | Some (None, s1) \<Rightarrow> (case env of [] \<Rightarrow> Waiting | e # es \<Rightarrow> buf_wait cfg i es (e s1)))"

fun hw_wait :: "nat \<Rightarrow> (uart_state \<Rightarrow> uart_state) list \<Rightarrow> uart_state \<Rightarrow> (int \<times> uart_state) run" where
  "hw_wait i env s =
     (case platform_s_uart_recv i s of
        (c, s1) \<Rightarrow> if c \<noteq> -1 then Returned (c, s1)
          else (case env of [] \<Rightarrow> Waiting | e # es \<Rightarrow> hw_wait i es (e s1)))"

definition cmn_recv_helper ::
  "build_config \<Rightarrow> nat \<Rightarrow> nat \<Rightarrow> (uart_state \<Rightarrow> uart_state) list \<Rightarrow> uart_state \<Rightarrow> (int \<times> uart_state) run" where
  "cmn_recv_helper cfg i timeout env s =
     (if buf_is_enabled cfg BUF_ID_UART i (uart_bufs s)
      then if timeout = 0
           then (case uart_buf_poll cfg i s of
                   None \<Rightarrow> Undefined
                 | Some (None, s1) \<Rightarrow> Returned (-1, s1)
                 | Some (Some d, s1) \<Rightarrow> Returned (uint d, s1))
           else buf_wait cfg i env s
      else if i < NUM_UART cfg \<or> i = CDC_UART_ID
           then if timeout = 0 then Returned (platform_s_uart_recv i s) else hw_wait i env s
           else Returned (-1, s))"

text \<open>The polling loop of a receive with a timeout: each round polls, then reads the timer; an
  element of the environment is the difference read from the timer and what interrupts do before the
  next round.\<close>

fun recv_poll_loop ::
  "build_config \<Rightarrow> nat \<Rightarrow> nat \<Rightarrow> (nat \<times> (uart_state \<Rightarrow> uart_state)) list \<Rightarrow> uart_state \<Rightarrow> (int \<times> uart_state) run" where
  "recv_poll_loop cfg i timeout [] s =
     (case cmn_recv_helper cfg i 0 [] s of
        Returned (res, s1) \<Rightarrow> if res \<ge> 0 then Returned (res, s1) else Waiting
      | Waiting \<Rightarrow> Waiting
      | Undefined \<Rightarrow> Undefined)"
| "recv_poll_loop cfg i timeout ((diff, e) # es) s =
     (case cmn_recv_helper cfg i 0 [] s of
        Returned (res, s1) \<Rightarrow>
          if res \<ge> 0 then Returned (res, s1)
          else if diff \<ge> timeout then Returned (res, s1)
          else recv_poll_loop cfg i timeout es (e s1)
      | Waiting \<Rightarrow> Waiting
      | Undefined \<Rightarrow> Undefined)"

definition platform_uart_recv ::
  "build_config \<Rightarrow> nat \<Rightarrow> nat \<Rightarrow> (nat \<times> (uart_state \<Rightarrow> uart_state)) list \<Rightarrow> uart_state \<Rightarrow> (int \<times> uart_state) run" where
  "platform_uart_recv cfg i timeout env s =
     (if timeout = 0 then cmn_recv_helper cfg i timeout [] s
      else if timeout = PLATFORM_TIMER_INF_TIMEOUT then cmn_recv_helper cfg i timeout (map snd env) s
      else recv_poll_loop cfg i timeout env s)"

section \<open>Installing buffers\<close>

text \<open>\<open>ra\<close> is the allocator, \<open>set_status\<close> the platform's answer to enabling the receive
  interrupt of a port (negative: refused).\<close>

definition uart_set_rx_int :: "(nat \<Rightarrow> int) \<Rightarrow> nat \<Rightarrow> bool \<Rightarrow> uart_state \<Rightarrow> int \<times> uart_state" where
  "uart_set_rx_int set_status i on s =
     (set_status i, if set_status i < 0 then s else s\<lparr>uart_rx_int := (uart_rx_int s)(i := on)\<rparr>)"

definition install_rx_handler :: "build_config \<Rightarrow> uart_state \<Rightarrow> uart_state" where
  "install_rx_handler cfg s =
     (let i = of_nat (INT_UART_RX cfg)
      in if elua_int_get_c_handler cfg i (uart_handlers s) \<noteq> Some CMN_UART_RX_INTHANDLER
         then let (prev, hs) = elua_int_set_c_handler cfg i (Some CMN_UART_RX_INTHANDLER) (uart_handlers s)
              in s\<lparr>uart_handlers := hs, prev_uart_rx_handler := prev\<rparr>
         else s)"

definition platform_uart_set_buffer ::
  "build_config \<Rightarrow> realloc_fun \<Rightarrow> (nat \<Rightarrow> int) \<Rightarrow> nat \<Rightarrow> nat \<Rightarrow> uart_state \<Rightarrow> platform_status \<times> uart_state" where
  "platform_uart_set_buffer cfg ra set_status i log2size s =
     (if i = SERMUX_PHYS_ID cfg then (PLATFORM_ERR, s)
      else if log2size = 0
      then if i \<ge> SERMUX_SERVICE_ID_FIRST then (PLATFORM_ERR, s)
           else let s2 = (if i \<noteq> CDC_UART_ID
                    then let s1 = (if uart_rx_int s i then snd (uart_set_rx_int set_status i False s) else s);
                             ix = of_nat (INT_UART_RX cfg)
                         in if elua_int_get_c_handler cfg ix (uart_handlers s1) = Some CMN_UART_RX_INTHANDLER
                            then s1\<lparr>uart_handlers :=
                                   snd (elua_int_set_c_handler cfg ix (prev_uart_rx_handler s1) (uart_handlers s1))\<rparr>
                            else s1
                    else s);
                    (st, b) = buf_set cfg ra BUF_ID_UART i BUF_SIZE_NONE BUF_DSIZE_U8 (uart_bufs s2)
                in (PLATFORM_OK, s2\<lparr>uart_bufs := b\<rparr>)
      else let (st, b) = buf_set cfg ra BUF_ID_UART i (of_nat log2size) BUF_DSIZE_U8 (uart_bufs s);
               s1 = s\<lparr>uart_bufs := b\<rparr>
           in if st = PLATFORM_ERR then (PLATFORM_ERR, s1)
              else if i = CDC_UART_ID \<or> i \<ge> SERMUX_SERVICE_ID_FIRST then (PLATFORM_OK, s1)
              else let s2 = install_rx_handler cfg s1;
                       (r, s3) = uart_set_rx_int set_status i True s2
                   in if r < 0 then (PLATFORM_ERR, s3) else (PLATFORM_OK, s3))"

text \<open>Setting up the multiplexer does not return when the interrupt cannot be enabled
  (\<^const>\<open>None\<close>).\<close>

definition cmn_uart_setup_sermux ::
  "build_config \<Rightarrow> (nat \<Rightarrow> int) \<Rightarrow> uart_state \<Rightarrow> uart_state option" where
  "cmn_uart_setup_sermux cfg set_status s =
     (let (r, s1) = uart_set_rx_int set_status (SERMUX_PHYS_ID cfg) True s
      in if r = 0 then Some (install_rx_handler cfg s1) else None)"

definition platform_uart_set_flow_control ::
  "(nat \<Rightarrow> nat \<Rightarrow> platform_status) \<Rightarrow> nat \<Rightarrow> nat \<Rightarrow> platform_status" where
  "platform_uart_set_flow_control platform_set i type =
     (if i \<ge> SERMUX_SERVICE_ID_FIRST \<or> i = CDC_UART_ID then PLATFORM_ERR else platform_set i type)"

section \<open>The board's end of the multiplexer\<close>

definition board_service :: "build_config \<Rightarrow> nat \<Rightarrow> bool" where
  "board_service cfg i \<longleftrightarrow> config_ok cfg \<and> SERMUX_SERVICE_ID_FIRST \<le> i
     \<and> i < SERMUX_SERVICE_ID_FIRST + SERMUX_NUM_VUART cfg"

definition board_link_out :: "build_config \<Rightarrow> uart_state \<Rightarrow> u8 list" where
  "board_link_out cfg s = map snd (filter (\<lambda>m. fst m = SERMUX_PHYS_ID cfg) (uart_tx s))"

definition vuart_buf :: "build_config \<Rightarrow> uart_state \<Rightarrow> nat \<Rightarrow> buf_desc" where
  "vuart_buf cfg s i = uart_bufs s BUF_ID_UART (bufh_check_resnum cfg BUF_ID_UART i)"

text \<open>Every virtual UART has a buffer of single bytes, of \<open>sizes i\<close> elements.\<close>

definition board_rx_inv :: "build_config \<Rightarrow> (nat \<Rightarrow> nat) \<Rightarrow> uart_state \<Rightarrow> bool" where
  "board_rx_inv cfg sizes s \<longleftrightarrow> config_ok cfg \<and> (\<forall>i. board_service cfg i \<longrightarrow> buf_inv (vuart_buf cfg s i)
     \<and> logdsize (vuart_buf cfg s i) = BUF_DSIZE_U8 \<and> buf_realsize (vuart_buf cfg s i) = sizes i)"

definition board_got :: "build_config \<Rightarrow> uart_state \<Rightarrow> nat \<Rightarrow> u8 list" where
  "board_got cfg s i = (if board_service cfg i then map hd (buf_elems (vuart_buf cfg s i)) else [])"

lemma board_link_out_send [simp]:
  "board_link_out cfg (platform_s_uart_send i d s) =
     board_link_out cfg s @ (if i = SERMUX_PHYS_ID cfg then [d] else [])"
  by (simp add: board_link_out_def platform_s_uart_send_def)

lemma board_link_out_frame [simp]:
  "board_link_out cfg (s\<lparr>uart_last_sent := x\<rparr>) = board_link_out cfg s"
  "board_link_out cfg (s\<lparr>uart_service_id_out := x\<rparr>) = board_link_out cfg s"
  "board_link_out cfg (s\<lparr>uart_service_id_in := x\<rparr>) = board_link_out cfg s"
  "board_link_out cfg (s\<lparr>uart_got_esc := e\<rparr>) = board_link_out cfg s"
  "board_link_out cfg (s\<lparr>uart_bufs := b\<rparr>) = board_link_out cfg s"
  by (simp_all add: board_link_out_def)

lemma platform_s_uart_send_frame [simp]:
  "uart_service_id_in (platform_s_uart_send i d s) = uart_service_id_in s"
  "uart_service_id_out (platform_s_uart_send i d s) = uart_service_id_out s"
  "uart_last_sent (platform_s_uart_send i d s) = uart_last_sent s"
  "uart_got_esc (platform_s_uart_send i d s) = uart_got_esc s"
  "uart_bufs (platform_s_uart_send i d s) = uart_bufs s"
  by (simp_all add: platform_s_uart_send_def)

lemma board_serviceD:
  assumes "board_service cfg i"
  shows "SERMUX_SERVICE_ID_FIRST \<le> i" "i \<le> SERMUX_SERVICE_ID_LAST" "\<not> i < NUM_UART cfg" "i \<noteq> CDC_UART_ID"
    "i < SERMUX_SERVICE_ID_FIRST + SERMUX_NUM_VUART cfg" "unat (of_nat i :: u8) = i" "uint (of_nat i :: u8) = int i"
    "bufh_check_resnum cfg BUF_ID_UART i = i - SERMUX_SERVICE_ID_FIRST + NUM_UART cfg"
proof -
  from assms show r: "SERMUX_SERVICE_ID_FIRST \<le> i" "i \<le> SERMUX_SERVICE_ID_LAST"
    by (auto simp: board_service_def config_ok_def)
  with assms show "\<not> i < NUM_UART cfg" "i \<noteq> CDC_UART_ID" "i < SERMUX_SERVICE_ID_FIRST + SERMUX_NUM_VUART cfg"
    by (auto simp: board_service_def config_ok_def)
  from r have "i < 2 ^ 8" by simp
  then show "unat (of_nat i :: u8) = i" by (simp add: unat_of_nat take_bit_nat_eq_self)
  then show "uint (of_nat i :: u8) = int i" by (metis uint_nat)
  from r show "bufh_check_resnum cfg BUF_ID_UART i = i - SERMUX_SERVICE_ID_FIRST + NUM_UART cfg"
    by (simp add: bufh_check_resnum_def)
qed

lemma board_send:
  assumes "board_service cfg i"
  shows "board_link_out cfg (platform_uart_send cfg i d s) =
      board_link_out cfg s @ mux_encode (uart_service_id_out s) i d"
    "uart_service_id_out (platform_uart_send cfg i d s) = int i"
    "uart_last_sent (platform_uart_send cfg i d s) = mux_last d"
  using board_serviceD [OF assms]
  by (simp_all add: platform_uart_send_def Let_def mux_encode_def mux_frame_def mux_reserved_def mux_last_def)

interpretation board_sender: mux_sender "board_service cfg" "\<lambda>_. config_ok cfg" "platform_uart_send cfg"
    uart_service_id_out uart_last_sent "board_link_out cfg"
    "cmn_rx_handler cfg (SERMUX_PHYS_ID cfg) SERMUX_FORCE_SID_CHAR" for cfg
proof unfold_locales
  fix s :: uart_state
  assume "uart_last_sent s \<noteq> -1" "config_ok cfg"
  then show "\<exists>s'. cmn_rx_handler cfg (SERMUX_PHYS_ID cfg) SERMUX_FORCE_SID_CHAR s = Some s' \<and>
      board_link_out cfg s' = board_link_out cfg s @ word_of_int (uart_service_id_out s) # mux_resend (uart_last_sent s)"
    by (simp add: cmn_rx_handler_def Let_def mux_resend_def config_ok_def)
qed (use board_serviceD board_send in auto)

lemma uart_buf_write_room:
  assumes "buf_inv (vuart_buf cfg s i)" and "logdsize (vuart_buf cfg s i) = BUF_DSIZE_U8"
    and "length (buf_elems (vuart_buf cfg s i)) < buf_realsize (vuart_buf cfg s i)"
  obtains s' d' where "uart_buf_write cfg i d s = Some s'" "buf_inv d'"
    "buf_elems d' = buf_elems (vuart_buf cfg s i) @ [[d]]" "logdsize d' = BUF_DSIZE_U8"
    "buf_realsize d' = buf_realsize (vuart_buf cfg s i)"
    "s' = s\<lparr>uart_bufs := (uart_bufs s)(BUF_ID_UART :=
       (uart_bufs s BUF_ID_UART)(bufh_check_resnum cfg BUF_ID_UART i := d'))\<rparr>"
proof -
  let ?d = "vuart_buf cfg s i"
  have "length [d] = buf_realdsize ?d" using assms(2) by (simp add: buf_sizes)
  moreover have "unat (count ?d) < buf_realsize ?d" using assms(3) by simp
  ultimately obtain d' where "buf_write_desc [d] ?d = Some (PLATFORM_OK, d')" "buf_inv d'"
      "buf_elems d' = buf_elems ?d @ [[d]]" "logsize d' = logsize ?d" "logdsize d' = logdsize ?d"
    by (rule buf_write_room [OF assms(1)])
  then show thesis
    using assms(2)
    by (intro that [of _ d']) (auto simp: uart_buf_write_def buf_write_def vuart_buf_def Let_def buf_sizes)
qed

lemma vuart_buf_upd:
  assumes "board_service cfg i" and "board_service cfg j"
  shows "vuart_buf cfg (s\<lparr>uart_bufs := (uart_bufs s)(BUF_ID_UART :=
      (uart_bufs s BUF_ID_UART)(bufh_check_resnum cfg BUF_ID_UART i := d))\<rparr>) j =
    (if j = i then d else vuart_buf cfg s j)"
  using board_serviceD(1,8) [OF assms(1)] board_serviceD(1,8) [OF assms(2)]
  by (auto simp: vuart_buf_def)

lemma board_rx_frame:
  assumes "uart_bufs s' = uart_bufs s"
  shows "board_rx_inv cfg sizes s' = board_rx_inv cfg sizes s" "board_got cfg s' = board_got cfg s"
  using assms by (simp_all add: board_rx_inv_def vuart_buf_def board_got_def fun_eq_iff)

lemma board_rx_config: "board_rx_inv cfg sizes s \<Longrightarrow> config_ok cfg"
  by (simp add: board_rx_inv_def)

lemma cmn_rx_data:
  assumes "config_ok cfg" and "\<not> mux_reserved b"
  shows "cmn_rx_handler cfg (SERMUX_PHYS_ID cfg) b s =
    (if uart_service_id_in s = -1
     then Some (platform_s_uart_send (SERMUX_PHYS_ID cfg) SERMUX_FORCE_SID_CHAR (s\<lparr>uart_got_esc := False\<rparr>))
     else uart_buf_write cfg (nat (uart_service_id_in s))
       (if uart_got_esc s then b XOR SERMUX_ESCAPE_XOR_MASK else b) (s\<lparr>uart_got_esc := False\<rparr>))"
proof -
  have b: "b \<noteq> SERMUX_ESCAPE_CHAR" "b \<noteq> SERMUX_FORCE_SID_CHAR"
    "\<not> (SERMUX_SERVICE_ID_FIRST \<le> unat b \<and> unat b < SERMUX_SERVICE_ID_FIRST + SERMUX_NUM_VUART cfg)"
    using assms by (auto simp: mux_reserved_def config_ok_def)
  have "\<not> uart_got_esc s \<Longrightarrow> s\<lparr>uart_got_esc := False\<rparr> = s" by (cases s) simp
  then show ?thesis
    unfolding cmn_rx_handler_def using b by (cases "uart_got_esc s") (simp_all only: Let_def if_False if_True simp_thms, simp_all)
qed

lemma board_recv_data:
  assumes inv: "board_rx_inv cfg sizes s" and b: "\<not> mux_reserved b" and sid: "uart_service_id_in s = int i"
    and svc: "board_service cfg i" and room: "Suc (length (board_got cfg s i)) \<le> sizes i"
    and d: "d = (if uart_got_esc s then b XOR SERMUX_ESCAPE_XOR_MASK else b)"
  shows "\<exists>s'. cmn_rx_handler cfg (SERMUX_PHYS_ID cfg) b s = Some s' \<and> board_rx_inv cfg sizes s'
    \<and> uart_service_id_in s' = uart_service_id_in s \<and> \<not> uart_got_esc s'
    \<and> board_got cfg s' = (board_got cfg s)(i := board_got cfg s i @ [d])
    \<and> board_link_out cfg s' = board_link_out cfg s"
proof -
  let ?s = "s\<lparr>uart_got_esc := False\<rparr>"
  have h: "cmn_rx_handler cfg (SERMUX_PHYS_ID cfg) b s = uart_buf_write cfg i d ?s"
    using inv b sid d by (simp add: cmn_rx_data board_rx_inv_def)
  have v: "vuart_buf cfg ?s = vuart_buf cfg s" by (simp add: fun_eq_iff vuart_buf_def)
  have "length (buf_elems (vuart_buf cfg s i)) < buf_realsize (vuart_buf cfg s i)"
    using room inv svc by (simp add: board_got_def board_rx_inv_def)
  then obtain s' d' where s': "uart_buf_write cfg i d ?s = Some s'" "buf_inv d'"
    "buf_elems d' = buf_elems (vuart_buf cfg s i) @ [[d]]" "logdsize d' = BUF_DSIZE_U8"
    "buf_realsize d' = buf_realsize (vuart_buf cfg s i)"
    "s' = ?s\<lparr>uart_bufs := (uart_bufs ?s)(BUF_ID_UART :=
       (uart_bufs ?s BUF_ID_UART)(bufh_check_resnum cfg BUF_ID_UART i := d'))\<rparr>"
    using inv svc by (elim uart_buf_write_room [of cfg ?s i d, unfolded v, rotated 2])
      (simp_all add: board_rx_inv_def)
  have vb: "vuart_buf cfg s' j = (if j = i then d' else vuart_buf cfg s j)" if "board_service cfg j" for j
    unfolding s'(6) using vuart_buf_upd [OF svc that, of ?s d'] by (simp add: v)
  have "board_rx_inv cfg sizes s'" using inv s'(2-5) svc by (auto simp: board_rx_inv_def vb)
  moreover have "board_got cfg s' = (board_got cfg s)(i := board_got cfg s i @ [d])"
    using s'(3) svc by (auto simp: board_got_def vb fun_eq_iff)
  ultimately show ?thesis using h s' by auto
qed

interpretation board_receiver: mux_receiver "board_service cfg" "board_rx_inv cfg sizes"
    "cmn_rx_handler cfg (SERMUX_PHYS_ID cfg)" uart_service_id_in uart_got_esc "board_got cfg"
    "\<lambda>i n. n \<le> sizes i" "board_link_out cfg" for cfg sizes
proof unfold_locales
  fix s i
  assume "board_rx_inv cfg sizes s" "board_service cfg i"
  then show "\<exists>s'. cmn_rx_handler cfg (SERMUX_PHYS_ID cfg) (of_nat i) s = Some s' \<and> board_rx_inv cfg sizes s'
      \<and> uart_service_id_in s' = int i \<and> uart_got_esc s' = uart_got_esc s \<and> board_got cfg s' = board_got cfg s
      \<and> board_link_out cfg s' = board_link_out cfg s"
    using board_serviceD [of cfg i]
    by (auto simp: cmn_rx_handler_def board_rx_frame [of "s\<lparr>uart_service_id_in := int i\<rparr>" s])
next
  fix s b
  assume "board_rx_inv cfg sizes s" "\<not> mux_reserved b" "uart_service_id_in s = -1"
  then show "\<exists>s'. cmn_rx_handler cfg (SERMUX_PHYS_ID cfg) b s = Some s' \<and> board_rx_inv cfg sizes s'
      \<and> uart_service_id_in s' = -1 \<and> \<not> uart_got_esc s' \<and> board_got cfg s' = board_got cfg s
      \<and> board_link_out cfg s' = board_link_out cfg s @ [SERMUX_FORCE_SID_CHAR]"
    using board_rx_frame [of "platform_s_uart_send (SERMUX_PHYS_ID cfg) SERMUX_FORCE_SID_CHAR (s\<lparr>uart_got_esc := False\<rparr>)" s]
    by (simp add: cmn_rx_data board_rx_config)
next
  fix s
  assume "board_rx_inv cfg sizes s"
  then show "\<exists>s'. cmn_rx_handler cfg (SERMUX_PHYS_ID cfg) SERMUX_ESCAPE_CHAR s = Some s' \<and> board_rx_inv cfg sizes s'
      \<and> uart_service_id_in s' = uart_service_id_in s \<and> uart_got_esc s' \<and> board_got cfg s' = board_got cfg s
      \<and> board_link_out cfg s' = board_link_out cfg s"
    using board_rx_frame [of "s\<lparr>uart_got_esc := True\<rparr>" s] by (simp add: cmn_rx_handler_def)
qed (use board_recv_data board_serviceD in blast)+

section \<open>The receive interrupt of an ordinary port\<close>

lemma rx_drain_port:
  assumes "i \<noteq> SERMUX_PHYS_ID cfg" and "buf_inv (vuart_buf cfg s i)"
    and "logdsize (vuart_buf cfg s i) = BUF_DSIZE_U8" and "uart_hw_rx s i = xs" and "length xs < n"
    and "length (buf_elems (vuart_buf cfg s i)) + length xs \<le> buf_realsize (vuart_buf cfg s i)"
  shows "\<exists>s'. rx_drain cfg i n s = Some s' \<and> uart_hw_rx s' i = [] \<and> buf_inv (vuart_buf cfg s' i)
    \<and> buf_elems (vuart_buf cfg s' i) = buf_elems (vuart_buf cfg s i) @ map (\<lambda>x. [x]) xs
    \<and> prev_uart_rx_handler s' = prev_uart_rx_handler s \<and> uart_chained s' = uart_chained s
    \<and> (\<forall>r m. (r, m) \<noteq> (BUF_ID_UART, bufh_check_resnum cfg BUF_ID_UART i) \<longrightarrow> uart_bufs s' r m = uart_bufs s r m)"
  using assms
proof (induction xs arbitrary: s n)
  case Nil
  then obtain m where "n = Suc m" by (cases n) auto
  with Nil show ?case by (simp add: platform_s_uart_recv_def)
next
  case (Cons x xs)
  then obtain m where n: "n = Suc m" by (cases n) auto
  let ?s = "s\<lparr>uart_hw_rx := (uart_hw_rx s)(i := xs)\<rparr>"
  have v: "vuart_buf cfg ?s = vuart_buf cfg s" by (simp add: fun_eq_iff vuart_buf_def)
  have "length (buf_elems (vuart_buf cfg s i)) < buf_realsize (vuart_buf cfg s i)"
    using Cons.prems(6) by simp
  then obtain s1 d1 where s1: "uart_buf_write cfg i x ?s = Some s1" "buf_inv d1"
    "buf_elems d1 = buf_elems (vuart_buf cfg s i) @ [[x]]" "logdsize d1 = BUF_DSIZE_U8"
    "buf_realsize d1 = buf_realsize (vuart_buf cfg s i)"
    "s1 = ?s\<lparr>uart_bufs := (uart_bufs ?s)(BUF_ID_UART :=
       (uart_bufs ?s BUF_ID_UART)(bufh_check_resnum cfg BUF_ID_UART i := d1))\<rparr>"
    using Cons.prems(2,3) by (elim uart_buf_write_room [of cfg ?s i x, unfolded v, rotated 2]) simp_all
  have d1: "vuart_buf cfg s1 i = d1" by (simp add: s1(6) vuart_buf_def)
  have run: "rx_drain cfg i n s = rx_drain cfg i m s1"
    using Cons.prems(1,4) s1(1) by (simp add: n platform_s_uart_recv_def cmn_rx_handler_def)
  have len: "length (buf_elems d1) = Suc (length (buf_elems (vuart_buf cfg s i)))" 
    using s1(3) by (simp only: length_append) simp
  have room1: "length (buf_elems d1) + length xs \<le> buf_realsize d1"
    using Cons.prems(6) s1(5) len by simp
  have hw1: "uart_hw_rx s1 i = xs" and m: "length xs < m" using s1(6) Cons.prems(5) n by simp_all
  obtain s2 where "rx_drain cfg i m s1 = Some s2" "uart_hw_rx s2 i = []" "buf_inv (vuart_buf cfg s2 i)"
    "buf_elems (vuart_buf cfg s2 i) = buf_elems (vuart_buf cfg s1 i) @ map (\<lambda>x. [x]) xs"
    "prev_uart_rx_handler s2 = prev_uart_rx_handler s1" "uart_chained s2 = uart_chained s1"
    "\<forall>r m. (r, m) \<noteq> (BUF_ID_UART, bufh_check_resnum cfg BUF_ID_UART i) \<longrightarrow> uart_bufs s2 r m = uart_bufs s1 r m"
    using Cons.IH [OF Cons.prems(1), of s1 m, unfolded d1, OF s1(2,4) hw1 m room1] by (auto simp: d1)
  then show ?case using run s1 d1 by (auto simp: s1(6))
qed

section \<open>Properties\<close>

text \<open>The receive interrupt of a buffered port moves every byte that waits in the hardware into the
  port's buffer, in order and after what it held, touches no other buffer, and passes the
  interrupt on to the handler that was installed before it.\<close>

theorem uart_rx_interrupt:
  assumes "i \<noteq> SERMUX_PHYS_ID cfg" and "buf_inv (vuart_buf cfg s i)"
    and "logdsize (vuart_buf cfg s i) = BUF_DSIZE_U8"
    and "length (buf_elems (vuart_buf cfg s i)) + length (uart_hw_rx s i) \<le> buf_realsize (vuart_buf cfg s i)"
  shows "\<exists>s'. cmn_uart_rx_inthandler cfg i s = Some s' \<and> uart_hw_rx s' i = []
    \<and> buf_elems (vuart_buf cfg s' i) = buf_elems (vuart_buf cfg s i) @ map (\<lambda>x. [x]) (uart_hw_rx s i)
    \<and> uart_chained s' = uart_chained s @ (case prev_uart_rx_handler s of None \<Rightarrow> [] | Some h \<Rightarrow> [(h, i)])
    \<and> (\<forall>r m. (r, m) \<noteq> (BUF_ID_UART, bufh_check_resnum cfg BUF_ID_UART i) \<longrightarrow> uart_bufs s' r m = uart_bufs s r m)"
proof -
  have "buf_is_enabled cfg BUF_ID_UART i (uart_bufs s)"
    using assms(2) by (simp add: buf_is_enabled_def buf_inv_def vuart_buf_def)
  moreover obtain s' where "rx_drain cfg i (Suc (length (uart_hw_rx s i))) s = Some s'" "uart_hw_rx s' i = []"
    "buf_elems (vuart_buf cfg s' i) = buf_elems (vuart_buf cfg s i) @ map (\<lambda>x. [x]) (uart_hw_rx s i)"
    "prev_uart_rx_handler s' = prev_uart_rx_handler s" "uart_chained s' = uart_chained s"
    "\<forall>r m. (r, m) \<noteq> (BUF_ID_UART, bufh_check_resnum cfg BUF_ID_UART i) \<longrightarrow> uart_bufs s' r m = uart_bufs s r m"
    using rx_drain_port [OF assms(1-3) refl _ assms(4), of "Suc (length (uart_hw_rx s i))"] by auto
  ultimately show ?thesis
    by (auto simp: cmn_uart_rx_inthandler_def vuart_buf_def split: option.split)
qed

definition example_uart :: uart_state where
  "example_uart = \<lparr>uart_service_id_in = -1, uart_service_id_out = -1, uart_got_esc = False,
     uart_last_sent = -1, uart_bufs = (\<lambda>_ _. example_buf), uart_tx = [], uart_hw_rx = (\<lambda>_. [65, 66]),
     uart_handlers = [None, None, Some 9, None, None], prev_uart_rx_handler = Some 9,
     uart_rx_int = (\<lambda>_. False), uart_chained = []\<rparr>"

lemma example_uart_buf:
  "vuart_buf cfg example_uart i = example_buf" "buf_elems example_buf = []" "logdsize example_buf = 0"
  by (simp_all add: vuart_buf_def example_uart_def example_buf_def buf_elems_def)

theorem uart_rx_interrupt_witness:
  "\<exists>s'. cmn_uart_rx_inthandler example_config 1 example_uart = Some s'
    \<and> buf_elems (vuart_buf example_config s' 1) = [[65], [66]] \<and> uart_chained s' = [(9, 1)]"
  using uart_rx_interrupt [of 1 example_config example_uart] example_buf_inv example_buf_sizes
  by (simp add: example_uart_buf) (auto simp: example_uart_def example_config_def)

text \<open>A port is quiet if a poll finds nothing and changes nothing.\<close>

lemma uart_poll_buffered:
  assumes inv: "buf_inv (vuart_buf cfg s i)" "logdsize (vuart_buf cfg s i) = BUF_DSIZE_U8"
    and e: "buf_elems (vuart_buf cfg s i) = x # xs"
  shows "\<exists>d s'. x = [d] \<and> uart_buf_poll cfg i s = Some (Some d, s') \<and> buf_inv (vuart_buf cfg s' i)
    \<and> logdsize (vuart_buf cfg s' i) = BUF_DSIZE_U8 \<and> buf_elems (vuart_buf cfg s' i) = xs"
proof -
  let ?d = "vuart_buf cfg s i"
  from e have "count ?d \<noteq> 0" by (auto simp: buf_elems_def)
  then obtain y d' where y: "buf_read_desc ?d = Some (PLATFORM_OK, y, d')" "buf_elems ?d = y # buf_elems d'"
      "length y = buf_realdsize ?d" "buf_inv d'" "logdsize d' = logdsize ?d"
    by (rule buf_read_step [OF inv(1)])
  from y(3) inv(2) obtain c where c: "y = [c]" by (auto simp: buf_sizes length_Suc_conv)
  moreover from c y(2) e have "x = [c]" "buf_elems d' = xs" by simp_all
  ultimately show ?thesis using y(1,4,5) inv(2)
    by (simp add: uart_buf_poll_def buf_read_def Let_def vuart_buf_def)
qed

text \<open>A byte that waits in the buffer is returned whatever the timeout is.\<close>

lemma platform_uart_recv_buffered:
  assumes inv: "buf_inv (vuart_buf cfg s i)" "logdsize (vuart_buf cfg s i) = BUF_DSIZE_U8"
    and e: "buf_elems (vuart_buf cfg s i) = x # xs"
  shows "\<exists>d s'. x = [d] \<and> platform_uart_recv cfg i timeout env s = Returned (uint d, s') \<and> buf_inv (vuart_buf cfg s' i)
    \<and> logdsize (vuart_buf cfg s' i) = BUF_DSIZE_U8 \<and> buf_elems (vuart_buf cfg s' i) = xs"
proof -
  from uart_poll_buffered [OF assms] obtain d s' where d: "x = [d]" "uart_buf_poll cfg i s = Some (Some d, s')"
      "buf_inv (vuart_buf cfg s' i)" "logdsize (vuart_buf cfg s' i) = BUF_DSIZE_U8" "buf_elems (vuart_buf cfg s' i) = xs"
    by blast
  have en: "buf_is_enabled cfg BUF_ID_UART i (uart_bufs s)"
    using inv(1) by (simp add: buf_is_enabled_def buf_inv_def vuart_buf_def)
  have hlp: "cmn_recv_helper cfg i t es s = Returned (uint d, s')" for t es
    using en d(2) by (simp add: cmn_recv_helper_def)
  have "platform_uart_recv cfg i timeout env s = Returned (uint d, s')"
    using hlp by (cases env) (auto simp: platform_uart_recv_def)
  with d show ?thesis by blast
qed

lemma cmn_recv_helper_buffered:
  assumes "buf_inv (vuart_buf cfg s i)" and "logdsize (vuart_buf cfg s i) = BUF_DSIZE_U8"
  shows "buf_elems (vuart_buf cfg s i) = [] \<Longrightarrow> cmn_recv_helper cfg i 0 env s = Returned (-1, s)"
    and "buf_elems (vuart_buf cfg s i) = x # xs \<Longrightarrow> \<exists>d s'. x = [d] \<and>
      cmn_recv_helper cfg i 0 env s = Returned (uint d, s') \<and> buf_elems (vuart_buf cfg s' i) = xs"
proof -
  let ?d = "vuart_buf cfg s i"
  have en: "buf_is_enabled cfg BUF_ID_UART i (uart_bufs s)"
    using assms(1) by (simp add: buf_is_enabled_def buf_inv_def vuart_buf_def)
  show "cmn_recv_helper cfg i 0 env s = Returned (-1, s)" if e: "buf_elems ?d = []"
  proof -
    from e have "count ?d = 0" by (metis length_buf_elems list.size(3) unat_eq_0)
    then have "buf_read cfg BUF_ID_UART i (uart_bufs s) = Some (PLATFORM_UNDERFLOW, [], uart_bufs s)"
      by (simp add: buf_read_def Let_def buf_read_desc_def buf_read_copy_def vuart_buf_def fun_upd_idem)
    then show ?thesis using en by (simp add: cmn_recv_helper_def uart_buf_poll_def)
  qed
  show "\<exists>d s'. x = [d] \<and> cmn_recv_helper cfg i 0 env s = Returned (uint d, s')
      \<and> buf_elems (vuart_buf cfg s' i) = xs" if e: "buf_elems ?d = x # xs"
    using uart_poll_buffered [OF assms e] en by (auto simp: cmn_recv_helper_def)
qed

lemma recv_poll_quiet:
  assumes "\<forall>k < length pre. fst (pre ! k) < timeout"
    and "\<forall>k < length pre. let t = fold (\<lambda>p. snd p) (take k pre) s in
      buf_inv (vuart_buf cfg t i) \<and> logdsize (vuart_buf cfg t i) = BUF_DSIZE_U8
      \<and> buf_elems (vuart_buf cfg t i) = []"
  shows "recv_poll_loop cfg i timeout (pre @ env) s =
    recv_poll_loop cfg i timeout env (fold (\<lambda>p. snd p) pre s)"
  using assms
proof (induction pre arbitrary: s)
  case Nil
  then show ?case by simp
next
  case (Cons p pre)
  obtain diff e where p: "p = (diff, e)" by (cases p)
  have "cmn_recv_helper cfg i 0 [] s = Returned (-1, s)"
    using Cons.prems(2) by (intro cmn_recv_helper_buffered) (auto simp: Let_def dest: spec [of _ 0])
  moreover have "diff < timeout" using Cons.prems(1) p by auto
  moreover have "recv_poll_loop cfg i timeout (pre @ env) (e s) =
      recv_poll_loop cfg i timeout env (fold (\<lambda>p. snd p) pre (e s))"
  proof (rule Cons.IH)
    show "\<forall>k < length pre. fst (pre ! k) < timeout" using Cons.prems(1) by auto
    show "\<forall>k < length pre. let t = fold (\<lambda>p. snd p) (take k pre) (e s) in
      buf_inv (vuart_buf cfg t i) \<and> logdsize (vuart_buf cfg t i) = BUF_DSIZE_U8
      \<and> buf_elems (vuart_buf cfg t i) = []"
      using Cons.prems(2) p by (auto simp: Let_def dest: spec [of _ "Suc k" for k])
  qed
  ultimately show ?case by (simp add: p)
qed

text \<open>A receive with a timeout polls the buffer of the port; while it finds nothing and the timer is
  below the timeout it goes on. The first poll that finds data ends it with the oldest byte; when the
  timer reaches the timeout before that it returns -1. In particular it always returns once the
  timer has reached the timeout.\<close>

theorem uart_recv_timeout:
  assumes "timeout \<noteq> 0" and "timeout \<noteq> PLATFORM_TIMER_INF_TIMEOUT"
    and "\<forall>k < length pre. fst (pre ! k) < timeout"
    and "\<forall>k < length pre. let t = fold (\<lambda>p. snd p) (take k pre) s in
      buf_inv (vuart_buf cfg t i) \<and> logdsize (vuart_buf cfg t i) = BUF_DSIZE_U8
      \<and> buf_elems (vuart_buf cfg t i) = []"
    and "t = fold (\<lambda>p. snd p) pre s" and "buf_inv (vuart_buf cfg t i)"
    and "logdsize (vuart_buf cfg t i) = BUF_DSIZE_U8"
  shows "case buf_elems (vuart_buf cfg t i) of
      [] \<Rightarrow> timeout \<le> diff \<longrightarrow> platform_uart_recv cfg i timeout (pre @ (diff, e) # env) s = Returned (-1, t)
    | x # xs \<Rightarrow> \<exists>d s'. x = [d] \<and> platform_uart_recv cfg i timeout (pre @ (diff, e) # env) s = Returned (uint d, s')
        \<and> buf_elems (vuart_buf cfg s' i) = xs"
proof -
  have run: "platform_uart_recv cfg i timeout (pre @ (diff, e) # env) s =
      recv_poll_loop cfg i timeout ((diff, e) # env) t"
    using recv_poll_quiet [OF assms(3,4)] assms(1,2,5) by (simp add: platform_uart_recv_def)
  show ?thesis
  proof (cases "buf_elems (vuart_buf cfg t i)")
    case Nil
    then show ?thesis using run cmn_recv_helper_buffered(1) [OF assms(6,7) Nil] by simp
  next
    case (Cons x xs)
    then show ?thesis using run cmn_recv_helper_buffered(2) [OF assms(6,7) Cons, of "[]"] by auto
  qed
qed

theorem uart_recv_timeout_witness:
  "platform_uart_recv example_config 1 100 [(40, \<lambda>s. s), (120, \<lambda>s. s)] example_uart = Returned (-1, example_uart)"
  using uart_recv_timeout [of 100 "[(40, \<lambda>s. s)]" example_uart example_config 1 example_uart 120 "\<lambda>s. s" "[]"]
    example_buf_inv by (simp add: example_uart_buf)

text \<open>Disabling the buffer of one port uninstalls the shared receive handler although another port
  is still buffered: after two physical ports were given buffers and one gave its buffer up, the
  interrupt goes to the handler installed before them and the other port's buffer is no
  longer filled.\<close>

theorem uart_set_buffer_shared_handler:
  assumes cfg: "config_ok cfg" "1 \<le> INT_UART_RX cfg" "INT_UART_RX cfg \<le> INT_ELUA_LAST cfg"
    and ports: "i < NUM_UART cfg" "j < NUM_UART cfg" "i \<noteq> j" "i \<noteq> SERMUX_PHYS_ID cfg" "j \<noteq> SERMUX_PHYS_ID cfg"
    and hs: "length (uart_handlers s) = INT_ELUA_LAST cfg"
      "elua_int_get_c_handler cfg (of_nat (INT_UART_RX cfg)) (uart_handlers s) = h" "h \<noteq> Some CMN_UART_RX_INTHANDLER"
    and run: "0 < n" "n < 8" "platform_uart_set_buffer cfg (\<lambda>p k. Some (replicate k 0)) (\<lambda>_. 0) i n s = (r1, s1)"
      "platform_uart_set_buffer cfg (\<lambda>p k. Some (replicate k 0)) (\<lambda>_. 0) j n s1 = (r2, s2)"
      "platform_uart_set_buffer cfg (\<lambda>p k. Some (replicate k 0)) (\<lambda>_. 0) i 0 s2 = (r3, s3)"
  shows "r1 = PLATFORM_OK \<and> r2 = PLATFORM_OK \<and> r3 = PLATFORM_OK
    \<and> buf_is_enabled cfg BUF_ID_UART j (uart_bufs s3) \<and> uart_rx_int s3 j
    \<and> elua_int_get_c_handler cfg (of_nat (INT_UART_RX cfg)) (uart_handlers s3) = h"
proof -
  let ?ix = "of_nat (INT_UART_RX cfg) :: u8"
  have ix: "unat ?ix = INT_UART_RX cfg" "unat (?ix - 1) = INT_UART_RX cfg - 1"
  proof -
    have "INT_UART_RX cfg < 2 ^ 8" using cfg by (simp add: config_ok_def)
    then show u: "unat ?ix = INT_UART_RX cfg" by (simp add: unat_of_nat take_bit_nat_eq_self)
    have "1 \<le> unat ?ix" using cfg(2) by (simp add: u)
    then have "unat (?ix - 1) = unat ?ix - 1" by unat_arith
    then show "unat (?ix - 1) = INT_UART_RX cfg - 1" by (simp add: u)
  qed
  have set: "elua_int_set_c_handler cfg ?ix g l = (l ! (INT_UART_RX cfg - 1), l[INT_UART_RX cfg - 1 := g])"
    and get: "elua_int_get_c_handler cfg ?ix l = l ! (INT_UART_RX cfg - 1)" for g l
    using cfg by (simp_all add: elua_int_set_c_handler_def elua_int_get_c_handler_def ix Let_def)
  have n: "(of_nat n :: u8) \<noteq> 0"
  proof
    assume "(of_nat n :: u8) = 0"
    then have "unat (of_nat n :: u8) = 0" by simp
    then show False using run(1,2) by (simp add: unat_of_nat take_bit_nat_eq_self)
  qed
  have p: "\<not> SERMUX_SERVICE_ID_FIRST \<le> i" "\<not> SERMUX_SERVICE_ID_FIRST \<le> j" "i \<noteq> CDC_UART_ID" "j \<noteq> CDC_UART_ID"
    "bufh_check_resnum cfg BUF_ID_UART i = i" "bufh_check_resnum cfg BUF_ID_UART j = j"
    using ports cfg(1) by (auto simp: config_ok_def bufh_check_resnum_def)
  have len: "INT_UART_RX cfg - 1 < length (uart_handlers s)" using hs(1) cfg by simp
  have s1: "r1 = PLATFORM_OK" "prev_uart_rx_handler s1 = h" "length (uart_handlers s1) = length (uart_handlers s)"
    "uart_handlers s1 ! (INT_UART_RX cfg - 1) = Some CMN_UART_RX_INTHANDLER"
    using run(1,3) ports p hs len
    by (auto simp: platform_uart_set_buffer_def install_rx_handler_def uart_set_rx_int_def buf_set_def buf_set_desc_def set get Let_def)
  have s2: "r2 = PLATFORM_OK" "prev_uart_rx_handler s2 = h" "length (uart_handlers s2) = length (uart_handlers s)"
    "uart_handlers s2 ! (INT_UART_RX cfg - 1) = Some CMN_UART_RX_INTHANDLER"
    "buf_is_enabled cfg BUF_ID_UART j (uart_bufs s2)" "uart_rx_int s2 j"
    using run(1,4) ports p s1 n
    by (auto simp: platform_uart_set_buffer_def install_rx_handler_def uart_set_rx_int_def buf_set_def buf_set_desc_def
        buf_is_enabled_def set get Let_def)
  show ?thesis
    using run(5) ports p s1 s2 len
    by (auto simp: platform_uart_set_buffer_def uart_set_rx_int_def buf_set_def buf_set_desc_def
        buf_is_enabled_def set get Let_def split: if_splits)
qed

theorem uart_set_buffer_shared_handler_witness:
  "\<exists>s3. platform_uart_set_buffer example_config (\<lambda>p k. Some (replicate k 0)) (\<lambda>_. 0) 1 0
      (snd (platform_uart_set_buffer example_config (\<lambda>p k. Some (replicate k 0)) (\<lambda>_. 0) 2 3
        (snd (platform_uart_set_buffer example_config (\<lambda>p k. Some (replicate k 0)) (\<lambda>_. 0) 1 3 example_uart))))
      = (PLATFORM_OK, s3)
    \<and> buf_is_enabled example_config BUF_ID_UART 2 (uart_bufs s3)
    \<and> elua_int_get_c_handler example_config 3 (uart_handlers s3) = Some 9"
proof -
  let ?f = "platform_uart_set_buffer example_config (\<lambda>p k. Some (replicate k 0)) (\<lambda>_. 0)"
  obtain r1 s1 where 1: "?f 1 3 example_uart = (r1, s1)" by fastforce
  obtain r2 s2 where 2: "?f 2 3 s1 = (r2, s2)" by fastforce
  obtain r3 s3 where 3: "?f 1 0 s2 = (r3, s3)" by fastforce
  have c: "NUM_UART example_config = 4" "SERMUX_PHYS_ID example_config = 0" "INT_UART_RX example_config = 3"
    "INT_ELUA_LAST example_config = 5" by (simp_all add: example_config_def)
  have h: "length (uart_handlers example_uart) = 5"
    "elua_int_get_c_handler example_config 3 (uart_handlers example_uart) = Some 9"
    by (simp_all add: example_uart_def elua_int_get_c_handler_def c)
  show ?thesis
    using uart_set_buffer_shared_handler [OF example_config_ok _ _ _ _ _ _ _ _ _ _ _ _ 1 2 3, of "Some 9"] 1 2 3
    by (simp add: c h)
qed

end
