(* ===== verification/Eluarpc.thy ===== *)
theory Eluarpc
  imports Elua_Prelude "HOL-Library.Monad_Syntax"
begin

text \<open>
  The RPC layer, \<^verbatim>\<open>src/eluarpc.c\<close>: typed values are written into a packet buffer and read back from
  it, under the control of a format string. A packet buffer is a block of bytes, a pointer into it
  an offset; a store or load outside the block is \<^const>\<open>None\<close>. The variable arguments of a write are
  a list of integers and pointers, the results of a read a list of values; the error flag of the
  file is threaded through the read functions. The lemmas show that reading with the format of
  the writer gives back the values, with pointers to the data inside the packet, and that the size
  in the header is the size of the packet.
\<close>

abbreviation "TYPE_INT_8 \<equiv> (0x01 :: u8)"
abbreviation "TYPE_INT_16 \<equiv> (0x02 :: u8)"
abbreviation "TYPE_INT_32 \<equiv> (0x03 :: u8)"
abbreviation "TYPE_PTR \<equiv> (0x04 :: u8)"
abbreviation "TYPE_START \<equiv> (0x05 :: u8)"
abbreviation "TYPE_END \<equiv> (0x06 :: u8)"
abbreviation "TYPE_OP_ID \<equiv> (0x07 :: u8)"
abbreviation "TYPE_SMALL_PTR \<equiv> (0x08 :: u8)"
abbreviation "TYPE_PKT_SIZE \<equiv> (0xA5 :: u8)"
abbreviation "PACKET_SIG \<equiv> (0x18AFC284 :: u32)"
abbreviation "ELUARPC_OP_RES_MOD \<equiv> (0x80 :: u8)"
abbreviation "ELUARPC_START_OFFSET \<equiv> (4 :: nat)"
abbreviation "ELUARPC_PTR_HEADER_SIZE \<equiv> (6 :: nat)"
abbreviation "ELUARPC_SMALL_PTR_HEADER_SIZE \<equiv> (4 :: nat)"
abbreviation "ELUARPC_READ_BUF_OFFSET \<equiv> (17 :: nat)"

type_synonym packet_buf = "u8 list"
type_synonym cursor = "packet_buf \<times> nat"

datatype rpc_arg = Int_arg u32 | Ptr_arg "u8 list option"
datatype rpc_val = U8_val u8 | U16_val u16 | U32_val u32 | Ptr_val "nat option" u32

section \<open>Serialization\<close>

text \<open>A run of \<^verbatim>\<open>*p ++ = x\<close>.\<close>

definition store :: "u8 list \<Rightarrow> cursor \<Rightarrow> cursor option" where
  "store bs c = (case c of (b, p) \<Rightarrow> map_option (\<lambda>b'. (b', p + length bs)) (blit b p bs))"

definition eluarpc_write_u8 :: "u8 \<Rightarrow> cursor \<Rightarrow> cursor option" where
  "eluarpc_write_u8 fdata = store [TYPE_INT_8, fdata]"

definition eluarpc_write_op_id :: "u8 \<Rightarrow> cursor \<Rightarrow> cursor option" where
  "eluarpc_write_op_id fdata = store [TYPE_OP_ID, fdata]"

definition eluarpc_write_u16 :: "u16 \<Rightarrow> cursor \<Rightarrow> cursor option" where
  "eluarpc_write_u16 fdata =
     store [TYPE_INT_16, ucast (fdata AND 0xFF), ucast (drop_bit 8 fdata AND 0xFF)]"

definition eluarpc_write_u32 :: "u32 \<Rightarrow> cursor \<Rightarrow> cursor option" where
  "eluarpc_write_u32 fdata =
     store [TYPE_INT_32, ucast (fdata AND 0xFF), ucast (drop_bit 8 fdata AND 0xFF),
       ucast (drop_bit 16 fdata AND 0xFF), ucast (drop_bit 24 fdata AND 0xFF)]"

text \<open>\<^verbatim>\<open>memcpy\<close> of \<open>n\<close> bytes to the cursor unless the source is NULL; the pointer advances anyway.\<close>

definition store_ptr :: "u8 list option \<Rightarrow> nat \<Rightarrow> cursor \<Rightarrow> cursor option" where
  "store_ptr src n c = (case c of (b, p) \<Rightarrow>
     (case src of
        None \<Rightarrow> Some (b, p + n)
      | Some s \<Rightarrow> do { bs \<leftarrow> fetch s 0 n; b' \<leftarrow> blit b p bs; Some (b', p + n) }))"

definition eluarpc_write_ptr :: "u8 list option \<Rightarrow> u32 \<Rightarrow> cursor \<Rightarrow> cursor option" where
  "eluarpc_write_ptr src srclen c =
     do { c1 \<leftarrow> store [TYPE_PTR] c; c2 \<leftarrow> eluarpc_write_u32 srclen c1; store_ptr src (unat srclen) c2 }"

definition eluarpc_write_small_ptr :: "u8 list option \<Rightarrow> u16 \<Rightarrow> cursor \<Rightarrow> cursor option" where
  "eluarpc_write_small_ptr src srclen c =
     do { c1 \<leftarrow> store [TYPE_SMALL_PTR] c; c2 \<leftarrow> eluarpc_write_u16 srclen c1; store_ptr src (unat srclen) c2 }"

section \<open>Deserialization\<close>

definition load :: "packet_buf \<Rightarrow> nat \<Rightarrow> u8 option" where
  "load b p = (if p < length b then Some (b ! p) else None)"

type_synonym reader = "bool \<times> nat"

definition eluarpc_read_expect :: "packet_buf \<Rightarrow> u8 \<Rightarrow> reader \<Rightarrow> reader option" where
  "eluarpc_read_expect b fdata r = (case r of (err, p) \<Rightarrow>
     do { x \<leftarrow> load b p; Some (if x \<noteq> fdata then True else err, p + 1) })"

definition eluarpc_read_u8 :: "packet_buf \<Rightarrow> reader \<Rightarrow> (u8 \<times> reader) option" where
  "eluarpc_read_u8 b r =
     do { (err, p) \<leftarrow> eluarpc_read_expect b TYPE_INT_8 r; x \<leftarrow> load b p; Some (x, err, p + 1) }"

definition eluarpc_read_op_id :: "packet_buf \<Rightarrow> reader \<Rightarrow> (u8 \<times> reader) option" where
  "eluarpc_read_op_id b r =
     do { (err, p) \<leftarrow> eluarpc_read_expect b TYPE_OP_ID r; x \<leftarrow> load b p; Some (x, err, p + 1) }"

definition eluarpc_expect_op_id :: "packet_buf \<Rightarrow> u8 \<Rightarrow> reader \<Rightarrow> reader option" where
  "eluarpc_expect_op_id b i r =
     do { (err, p) \<leftarrow> eluarpc_read_expect b TYPE_OP_ID r; temp \<leftarrow> load b p;
          Some (if temp \<noteq> i then True else err, p + 1) }"

definition eluarpc_read_u16 :: "packet_buf \<Rightarrow> reader \<Rightarrow> (u16 \<times> reader) option" where
  "eluarpc_read_u16 b r =
     do { (err, p) \<leftarrow> eluarpc_read_expect b TYPE_INT_16 r;
          x0 \<leftarrow> load b p; x1 \<leftarrow> load b (p + 1);
          Some (ucast x0 OR push_bit 8 (ucast x1), err, p + 2) }"

definition eluarpc_read_u32 :: "packet_buf \<Rightarrow> reader \<Rightarrow> (u32 \<times> reader) option" where
  "eluarpc_read_u32 b r =
     do { (err, p) \<leftarrow> eluarpc_read_expect b TYPE_INT_32 r;
          x0 \<leftarrow> load b p; x1 \<leftarrow> load b (p + 1); x2 \<leftarrow> load b (p + 2); x3 \<leftarrow> load b (p + 3);
          Some (ucast x0 OR push_bit 8 (ucast x1) OR push_bit 16 (ucast x2) OR push_bit 24 (ucast x3),
                err, p + 4) }"

text \<open>The read functions for pointers are only called with a NULL destination: they skip the data.\<close>

definition eluarpc_read_ptr :: "packet_buf \<Rightarrow> reader \<Rightarrow> (u32 \<times> reader) option" where
  "eluarpc_read_ptr b r =
     do { r1 \<leftarrow> eluarpc_read_expect b TYPE_PTR r; (n, err, p) \<leftarrow> eluarpc_read_u32 b r1;
          Some (n, err, p + unat n) }"

definition eluarpc_read_small_ptr :: "packet_buf \<Rightarrow> reader \<Rightarrow> (u16 \<times> reader) option" where
  "eluarpc_read_small_ptr b r =
     do { r1 \<leftarrow> eluarpc_read_expect b TYPE_SMALL_PTR r; (n, err, p) \<leftarrow> eluarpc_read_u16 b r1;
          Some (n, err, p + unat n) }"

section \<open>Packets\<close>

definition eluarpc_start_packet :: "packet_buf \<Rightarrow> cursor option" where
  "eluarpc_start_packet b =
     do { c \<leftarrow> store [TYPE_START] (b, ELUARPC_START_OFFSET); eluarpc_write_u32 PACKET_SIG c }"

definition eluarpc_end_packet :: "cursor \<Rightarrow> packet_buf option" where
  "eluarpc_end_packet c =
     do { c1 \<leftarrow> store [TYPE_END] c; (b, p) \<leftarrow> eluarpc_write_u32 (NOT PACKET_SIG) c1;
          c2 \<leftarrow> store [TYPE_PKT_SIZE] (b, 0); (b', _) \<leftarrow> eluarpc_write_u16 (of_nat p) c2; Some b' }"

definition eluarpc_match_packet_start :: "packet_buf \<Rightarrow> bool \<Rightarrow> reader option" where
  "eluarpc_match_packet_start b err =
     do { r \<leftarrow> eluarpc_read_expect b TYPE_START (err, ELUARPC_START_OFFSET);
          (fdata, err', p) \<leftarrow> eluarpc_read_u32 b r;
          Some (if fdata \<noteq> PACKET_SIG then True else err', p) }"

definition eluarpc_match_packet_end :: "packet_buf \<Rightarrow> reader \<Rightarrow> reader option" where
  "eluarpc_match_packet_end b r =
     do { r1 \<leftarrow> eluarpc_read_expect b TYPE_END r; (fdata, err, p) \<leftarrow> eluarpc_read_u32 b r1;
          Some (if fdata \<noteq> NOT PACKET_SIG then True else err, p) }"

text \<open>The functions below return the error flag (\<^verbatim>\<open>ELUARPC_ERR\<close> is true).\<close>

definition eluarpc_get_request_id :: "packet_buf \<Rightarrow> (bool \<times> u8) option" where
  "eluarpc_get_request_id b =
     do { r \<leftarrow> eluarpc_match_packet_start b False; (i, err, p) \<leftarrow> eluarpc_read_op_id b r; Some (err, i) }"

definition eluarpc_replace_flag :: "u32 \<Rightarrow> u32 \<Rightarrow> u32 \<Rightarrow> u32" where
  "eluarpc_replace_flag val origflag newflag = (if val AND origflag \<noteq> 0 then newflag else 0)"

definition eluarpc_get_packet_size :: "packet_buf \<Rightarrow> (bool \<times> u16) option" where
  "eluarpc_get_packet_size b =
     do { r \<leftarrow> eluarpc_read_expect b TYPE_PKT_SIZE (False, 0); (n, err, p) \<leftarrow> eluarpc_read_u16 b r;
          Some (err, n) }"

section \<open>Format strings\<close>

text \<open>An argument of the wrong kind is undefined (\<^verbatim>\<open>va_arg\<close>); an unknown specifier is skipped.\<close>

primrec gen_write_loop :: "string \<Rightarrow> rpc_arg list \<Rightarrow> cursor \<Rightarrow> cursor option" where
  "gen_write_loop [] args c = Some c"
| "gen_write_loop (f # fmt) args c =
     (if f = CHR ''o'' then (case args of
        Int_arg x # args' \<Rightarrow> do { c' \<leftarrow> eluarpc_write_op_id (ucast x) c; gen_write_loop fmt args' c' } | _ \<Rightarrow> None)
      else if f = CHR ''r'' then (case args of
        Int_arg x # args' \<Rightarrow> do { c' \<leftarrow> store [ELUARPC_OP_RES_MOD OR ucast x] c; gen_write_loop fmt args' c' } | _ \<Rightarrow> None)
      else if f = CHR ''c'' then (case args of
        Int_arg x # args' \<Rightarrow> do { c' \<leftarrow> eluarpc_write_u8 (ucast x) c; gen_write_loop fmt args' c' } | _ \<Rightarrow> None)
      else if f = CHR ''h'' then (case args of
        Int_arg x # args' \<Rightarrow> do { c' \<leftarrow> eluarpc_write_u16 (ucast x) c; gen_write_loop fmt args' c' } | _ \<Rightarrow> None)
      else if f = CHR ''i'' \<or> f = CHR ''l'' \<or> f = CHR ''L'' then (case args of
        Int_arg x # args' \<Rightarrow> do { c' \<leftarrow> eluarpc_write_u32 x c; gen_write_loop fmt args' c' } | _ \<Rightarrow> None)
      else if f = CHR ''p'' then (case args of
        Ptr_arg s # Int_arg n # args' \<Rightarrow> do { c' \<leftarrow> eluarpc_write_ptr s n c; gen_write_loop fmt args' c' } | _ \<Rightarrow> None)
      else if f = CHR ''P'' then (case args of
        Ptr_arg s # Int_arg n # args' \<Rightarrow> do { c' \<leftarrow> eluarpc_write_small_ptr s (ucast n) c; gen_write_loop fmt args' c' } | _ \<Rightarrow> None)
      else gen_write_loop fmt args c)"

definition eluarpc_gen_write :: "packet_buf \<Rightarrow> string \<Rightarrow> rpc_arg list \<Rightarrow> packet_buf option" where
  "eluarpc_gen_write b fmt args =
     do { c \<leftarrow> eluarpc_start_packet b; c' \<leftarrow> gen_write_loop fmt args c; eluarpc_end_packet c' }"

text \<open>\<open>ids\<close> are the arguments of the \<^verbatim>\<open>o\<close> and \<^verbatim>\<open>r\<close> specifiers; the other specifiers produce the
  value stored through their pointer arguments, in order.\<close>

definition out_ptr :: "nat \<Rightarrow> nat \<Rightarrow> nat \<Rightarrow> nat option" where
  "out_ptr tempptr hdr p = (if p = tempptr + hdr then None else Some (tempptr + hdr))"

primrec gen_read_loop :: "string \<Rightarrow> u32 list \<Rightarrow> packet_buf \<Rightarrow> reader \<Rightarrow> (rpc_val list \<times> reader) option" where
  "gen_read_loop [] ids b r = Some ([], r)"
| "gen_read_loop (f # fmt) ids b r =
     (if f = CHR ''o'' then (case ids of
        x # ids' \<Rightarrow> do { r' \<leftarrow> eluarpc_expect_op_id b (ucast x) r; gen_read_loop fmt ids' b r' } | _ \<Rightarrow> None)
      else if f = CHR ''r'' then (case ids of
        x # ids' \<Rightarrow> do { r' \<leftarrow> eluarpc_read_expect b (ELUARPC_OP_RES_MOD OR ucast x) r; gen_read_loop fmt ids' b r' } | _ \<Rightarrow> None)
      else if f = CHR ''c'' then
        do { (x, r') \<leftarrow> eluarpc_read_u8 b r; (vs, r'') \<leftarrow> gen_read_loop fmt ids b r'; Some (U8_val x # vs, r'') }
      else if f = CHR ''h'' then
        do { (x, r') \<leftarrow> eluarpc_read_u16 b r; (vs, r'') \<leftarrow> gen_read_loop fmt ids b r'; Some (U16_val x # vs, r'') }
      else if f = CHR ''l'' \<or> f = CHR ''L'' \<or> f = CHR ''i'' then
        do { (x, r') \<leftarrow> eluarpc_read_u32 b r; (vs, r'') \<leftarrow> gen_read_loop fmt ids b r'; Some (U32_val x # vs, r'') }
      else if f = CHR ''p'' then
        do { (n, err, p) \<leftarrow> eluarpc_read_ptr b r; (vs, r'') \<leftarrow> gen_read_loop fmt ids b (err, p);
             Some (Ptr_val (out_ptr (snd r) ELUARPC_PTR_HEADER_SIZE p) n # vs, r'') }
      else if f = CHR ''P'' then
        do { (n, err, p) \<leftarrow> eluarpc_read_small_ptr b r; (vs, r'') \<leftarrow> gen_read_loop fmt ids b (err, p);
             Some (Ptr_val (out_ptr (snd r) ELUARPC_SMALL_PTR_HEADER_SIZE p) (ucast n) # vs, r'') }
      else gen_read_loop fmt ids b r)"

definition eluarpc_gen_read :: "packet_buf \<Rightarrow> string \<Rightarrow> u32 list \<Rightarrow> (bool \<times> rpc_val list) option" where
  "eluarpc_gen_read b fmt ids =
     do { r \<leftarrow> eluarpc_match_packet_start b False;
          (vs, r') \<leftarrow> gen_read_loop fmt ids b r;
          (err, p) \<leftarrow> eluarpc_match_packet_end b r';
          Some (err, vs) }"

section \<open>What is on the wire\<close>

lemma low_byte: "(ucast (w AND 0xFF) :: u8) = ucast (w :: 'a::len word)"
proof -
  have "w AND 0xFF = take_bit 8 w" by (simp add: take_bit_eq_mask mask_eq_exp_minus_1)
  then show ?thesis by (simp only:) (rule bit_word_eqI, simp add: bit_simps)
qed

lemma bytes_u16 [byte_simps]:
  "ucast (ucast (x AND 0xFF) :: u8) OR push_bit 8 (ucast (ucast (drop_bit 8 x AND 0xFF) :: u8)) = (x :: u16)"
  unfolding low_byte by (rule bit_word_eqI) (auto simp: bit_simps not_less)

lemma bytes_u32 [byte_simps]:
  "ucast (ucast (x AND 0xFF) :: u8) OR push_bit 8 (ucast (ucast (drop_bit 8 x AND 0xFF) :: u8)) OR
   push_bit 16 (ucast (ucast (drop_bit 16 x AND 0xFF) :: u8)) OR
   push_bit 24 (ucast (ucast (drop_bit 24 x AND 0xFF) :: u8)) = (x :: u32)"
proof (rule bit_word_eqI)
  fix n assume n: "n < LENGTH(32)"
  consider "n < 8" | "8 \<le> n" "n < 16" | "16 \<le> n" "n < 24" | "24 \<le> n" by linarith
  then show "bit (ucast (ucast (x AND 0xFF) :: u8) OR push_bit 8 (ucast (ucast (drop_bit 8 x AND 0xFF) :: u8)) OR
     push_bit 16 (ucast (ucast (drop_bit 16 x AND 0xFF) :: u8)) OR
     push_bit 24 (ucast (ucast (drop_bit 24 x AND 0xFF) :: u8)) :: u32) n = bit x n"
    unfolding low_byte by cases (use n in \<open>auto simp: bit_simps\<close>)
qed

definition enc_u16 :: "u16 \<Rightarrow> u8 list" where
  "enc_u16 x = [TYPE_INT_16, ucast (x AND 0xFF), ucast (drop_bit 8 x AND 0xFF)]"

definition enc_u32 :: "u32 \<Rightarrow> u8 list" where
  "enc_u32 x = [TYPE_INT_32, ucast (x AND 0xFF), ucast (drop_bit 8 x AND 0xFF),
     ucast (drop_bit 16 x AND 0xFF), ucast (drop_bit 24 x AND 0xFF)]"

lemma length_enc [simp]: "length (enc_u16 x) = 3" "length (enc_u32 y) = 5"
  by (simp_all add: enc_u16_def enc_u32_def)

text \<open>The bytes of one field, for arguments that match the specifier and whose pointer has the data
  (a NULL pointer stands for data that is in the packet already), with the arguments that are left;
  the ids a reader has to expect for it, and the value a reader gets when it starts at offset
  \<open>p\<close>.\<close>

fun rpc_field :: "char \<Rightarrow> rpc_arg list \<Rightarrow> (u8 list \<times> rpc_arg list) option" where
  "rpc_field f (Int_arg x # args) =
     (if f = CHR ''o'' then Some ([TYPE_OP_ID, ucast x], args)
      else if f = CHR ''r'' then Some ([ELUARPC_OP_RES_MOD OR ucast x], args)
      else if f = CHR ''c'' then Some ([TYPE_INT_8, ucast x], args)
      else if f = CHR ''h'' then Some (enc_u16 (ucast x), args)
      else if f = CHR ''i'' \<or> f = CHR ''l'' \<or> f = CHR ''L'' then Some (enc_u32 x, args)
      else None)"
| "rpc_field f (Ptr_arg (Some s) # Int_arg n # args) =
     (if f = CHR ''p'' \<and> length s = unat n then Some (TYPE_PTR # enc_u32 n @ s, args)
      else if f = CHR ''P'' \<and> length s = unat (ucast n :: u16) then Some (TYPE_SMALL_PTR # enc_u16 (ucast n) @ s, args)
      else None)"
| "rpc_field f _ = None"

fun rpc_field_ids :: "char \<Rightarrow> rpc_arg list \<Rightarrow> u32 list" where
  "rpc_field_ids f (Int_arg x # args) = (if f = CHR ''o'' \<or> f = CHR ''r'' then [x] else [])"
| "rpc_field_ids f _ = []"

fun rpc_field_val :: "char \<Rightarrow> rpc_arg list \<Rightarrow> nat \<Rightarrow> rpc_val list" where
  "rpc_field_val f (Int_arg x # args) p =
     (if f = CHR ''o'' \<or> f = CHR ''r'' then []
      else if f = CHR ''c'' then [U8_val (ucast x)]
      else if f = CHR ''h'' then [U16_val (ucast x)]
      else [U32_val x])"
| "rpc_field_val f (Ptr_arg (Some s) # Int_arg n # args) p =
     (let h = (if f = CHR ''p'' then 6 else 4)
      in [Ptr_val (if s = [] then None else Some (p + h)) (if f = CHR ''p'' then n else ucast (ucast n :: u16))])"
| "rpc_field_val f _ p = []"

primrec rpc_encode :: "string \<Rightarrow> rpc_arg list \<Rightarrow> u8 list option" where
  "rpc_encode [] args = Some []"
| "rpc_encode (f # fmt) args =
     do { (bs, args') \<leftarrow> rpc_field f args; e \<leftarrow> rpc_encode fmt args'; Some (bs @ e) }"

primrec rpc_values :: "string \<Rightarrow> rpc_arg list \<Rightarrow> nat \<Rightarrow> rpc_val list" where
  "rpc_values [] args p = []"
| "rpc_values (f # fmt) args p =
     (case rpc_field f args of
        None \<Rightarrow> []
      | Some (bs, args') \<Rightarrow> rpc_field_val f args p @ rpc_values fmt args' (p + length bs))"

primrec rpc_ids :: "string \<Rightarrow> rpc_arg list \<Rightarrow> u32 list" where
  "rpc_ids [] args = []"
| "rpc_ids (f # fmt) args =
     (case rpc_field f args of None \<Rightarrow> [] | Some (bs, args') \<Rightarrow> rpc_field_ids f args @ rpc_ids fmt args')"

definition rpc_packet :: "u8 list \<Rightarrow> u8 list" where
  "rpc_packet e = TYPE_PKT_SIZE # enc_u16 (of_nat (length e + 16)) @ TYPE_START # enc_u32 PACKET_SIG @ e
     @ TYPE_END # enc_u32 (NOT PACKET_SIG)"

lemma length_rpc_packet [simp]: "length (rpc_packet e) = length e + 16"
  by (simp add: rpc_packet_def)

lemma store_append:
  "length bs \<le> length old \<Longrightarrow> p = length pre \<Longrightarrow>
   store bs (pre @ old, p) = Some (pre @ bs @ drop (length bs) old, p + length bs)"
  by (simp add: store_def blit_def)

lemma eluarpc_write_enc:
  "eluarpc_write_u16 x = store (enc_u16 x)" "eluarpc_write_u32 y = store (enc_u32 y)"
  by (simp_all add: eluarpc_write_u16_def eluarpc_write_u32_def enc_u16_def enc_u32_def)

lemma store_ptr_append:
  "length s = n \<Longrightarrow> n \<le> length old \<Longrightarrow> p = length pre \<Longrightarrow>
   store_ptr (Some s) n (pre @ old, p) = Some (pre @ s @ drop n old, p + n)"
  by (simp add: store_ptr_def fetch_def blit_def)

lemma write_ptr_append:
  "length s = unat n \<Longrightarrow> 6 + length s \<le> length old \<Longrightarrow> p = length pre \<Longrightarrow>
   eluarpc_write_ptr (Some s) n (pre @ old, p) =
     Some (pre @ (TYPE_PTR # enc_u32 n @ s) @ drop (6 + length s) old, p + (6 + length s))"
  using store_append [of "enc_u32 n" "drop 1 old" _ "pre @ [TYPE_PTR]"]
    store_ptr_append [of s _ "drop 6 old" _ "pre @ TYPE_PTR # enc_u32 n"]
  by (simp add: eluarpc_write_ptr_def eluarpc_write_enc add.commute store_append [of "[TYPE_PTR]"])

lemma write_small_ptr_append:
  "length s = unat n \<Longrightarrow> 4 + length s \<le> length old \<Longrightarrow> p = length pre \<Longrightarrow>
   eluarpc_write_small_ptr (Some s) n (pre @ old, p) =
     Some (pre @ (TYPE_SMALL_PTR # enc_u16 n @ s) @ drop (4 + length s) old, p + (4 + length s))"
  using store_append [of "enc_u16 n" "drop 1 old" _ "pre @ [TYPE_SMALL_PTR]"]
    store_ptr_append [of s _ "drop 4 old" _ "pre @ TYPE_SMALL_PTR # enc_u16 n"]
  by (simp add: eluarpc_write_small_ptr_def eluarpc_write_enc add.commute store_append [of "[TYPE_SMALL_PTR]"])

lemma rpc_field_cases:
  assumes "rpc_field f args = Some (bs, args')"
  obtains (op) x where "f = CHR ''o''" "args = Int_arg x # args'" "bs = [TYPE_OP_ID, ucast x]"
  | (res) x where "f = CHR ''r''" "args = Int_arg x # args'" "bs = [ELUARPC_OP_RES_MOD OR ucast x]"
  | (u8) x where "f = CHR ''c''" "args = Int_arg x # args'" "bs = [TYPE_INT_8, ucast x]"
  | (u16) x where "f = CHR ''h''" "args = Int_arg x # args'" "bs = enc_u16 (ucast x)"
  | (u32) x where "f = CHR ''i'' \<or> f = CHR ''l'' \<or> f = CHR ''L''" "args = Int_arg x # args'" "bs = enc_u32 x"
  | (ptr) s n where "f = CHR ''p''" "args = Ptr_arg (Some s) # Int_arg n # args'" "length s = unat n"
      "bs = TYPE_PTR # enc_u32 n @ s"
  | (sptr) s n where "f = CHR ''P''" "args = Ptr_arg (Some s) # Int_arg n # args'"
      "length s = unat (ucast n :: u16)" "bs = TYPE_SMALL_PTR # enc_u16 (ucast n) @ s"
  using assms by (cases "(f, args)" rule: rpc_field.cases) (auto split: if_splits)

lemma write_field:
  assumes "rpc_field f args = Some (bs, args')" and "length bs \<le> length old" and "p = length pre"
  shows "gen_write_loop (f # fmt) args (pre @ old, p) =
    gen_write_loop fmt args' ((pre @ bs) @ drop (length bs) old, p + length bs)"
  using assms(1)
proof (cases rule: rpc_field_cases)
  case (ptr s n)
  then show ?thesis using assms(2,3) write_ptr_append [of s n old p pre] by simp
next
  case (sptr s n)
  then show ?thesis using assms(2,3) write_small_ptr_append [of s "ucast n" old p pre] by simp
qed (use assms(2,3) in \<open>auto simp: eluarpc_write_op_id_def eluarpc_write_u8_def eluarpc_write_enc store_append\<close>)

lemma gen_write_loop_encode:
  assumes "rpc_encode fmt args = Some e" and "length e \<le> length old"
  shows "gen_write_loop fmt args (pre @ old, length pre) = Some (pre @ e @ drop (length e) old, length pre + length e)"
  using assms
proof (induction fmt arbitrary: args e pre old)
  case Nil
  then show ?case by simp
next
  case (Cons f fmt)
  then obtain bs args' e' where f: "rpc_field f args = Some (bs, args')" and e': "rpc_encode fmt args' = Some e'"
    and e: "e = bs @ e'" by (auto simp: bind_eq_Some_conv)
  have "length bs \<le> length old" "length e' \<le> length (drop (length bs) old)" using Cons.prems(2) e by simp_all
  then show ?case
    using write_field [OF f, of old _ pre fmt] Cons.IH [OF e', of "drop (length bs) old" "pre @ bs"] e
    by (simp add: add.commute)
qed

lemma load_append [simp]:
  "load (pre @ x # suf) (length pre) = Some x"
  "load (pre @ x # y # suf) (Suc (length pre)) = Some y"
  by (simp_all add: load_def nth_append)

lemma read_expect_append [simp]:
  "p = length pre \<Longrightarrow> eluarpc_read_expect (pre @ x # suf) y (err, p) = Some (if x \<noteq> y then True else err, Suc p)"
  by (simp add: eluarpc_read_expect_def)

lemma expect_op_append:
  "p = length pre \<Longrightarrow> eluarpc_expect_op_id (pre @ TYPE_OP_ID # x # suf) y (err, p) =
     Some (if x \<noteq> y then True else err, p + 2)"
  by (simp add: eluarpc_expect_op_id_def)

lemma read_u16_append [simp]:
  "p = length pre \<Longrightarrow> eluarpc_read_u16 (pre @ enc_u16 x @ suf) (err, p) = Some (x, err, p + 3)"
  using bytes_u16 [of x] by (simp add: eluarpc_read_u16_def enc_u16_def load_def nth_append)

lemma read_u32_append [simp]:
  "p = length pre \<Longrightarrow> eluarpc_read_u32 (pre @ enc_u32 x @ suf) (err, p) = Some (x, err, p + 5)"
  using bytes_u32 [of x] by (simp add: eluarpc_read_u32_def enc_u32_def load_def nth_append)

lemma read_ptr_append:
  "p = length pre \<Longrightarrow> eluarpc_read_ptr (pre @ TYPE_PTR # enc_u32 n @ suf) (err, p) = Some (n, err, p + (6 + unat n))"
  using read_u32_append [of "Suc p" "pre @ [TYPE_PTR]" n suf err] by (simp add: eluarpc_read_ptr_def)

lemma read_small_ptr_append:
  "p = length pre \<Longrightarrow> eluarpc_read_small_ptr (pre @ TYPE_SMALL_PTR # enc_u16 n @ suf) (err, p) = Some (n, err, p + (4 + unat n))"
  using read_u16_append [of "Suc p" "pre @ [TYPE_SMALL_PTR]" n suf err] by (simp add: eluarpc_read_small_ptr_def)

lemma read_field:
  assumes "rpc_field f args = Some (bs, args')" and "p = length pre"
  shows "gen_read_loop (f # fmt) (rpc_field_ids f args @ ids) (pre @ bs @ suf) (err, p) =
    map_option (\<lambda>(vs, r). (rpc_field_val f args p @ vs, r))
      (gen_read_loop fmt ids (pre @ bs @ suf) (err, p + length bs))"
  using assms(1)
proof (cases rule: rpc_field_cases)
  case (ptr s n)
  then show ?thesis using read_ptr_append [OF assms(2), of n "s @ suf" err]
    by (cases "gen_read_loop fmt ids (pre @ bs @ suf) (err, p + length bs)")
      (auto simp: out_ptr_def)
next
  case (sptr s n)
  then show ?thesis using read_small_ptr_append [OF assms(2), of "ucast n" "s @ suf" err]
    by (cases "gen_read_loop fmt ids (pre @ bs @ suf) (err, p + length bs)")
      (auto simp: out_ptr_def)
next
  case (op x)
  then show ?thesis
    by (simp add: eluarpc_expect_op_id_def assms(2))
      (cases "gen_read_loop fmt ids (pre @ bs @ suf) (err, p + length bs)"; simp add: assms(2))
next
  case (res x)
  then show ?thesis
    by (cases "gen_read_loop fmt ids (pre @ bs @ suf) (err, p + length bs)") (auto simp: assms(2))
next
  case (u8 x)
  then show ?thesis
    by (cases "gen_read_loop fmt ids (pre @ bs @ suf) (err, p + length bs)")
      (auto simp: assms(2) eluarpc_read_u8_def)
next
  case (u16 x)
  then show ?thesis
    by (cases "gen_read_loop fmt ids (pre @ bs @ suf) (err, p + length bs)") (auto simp: assms(2))
next
  case (u32 x)
  then show ?thesis
    by (cases "gen_read_loop fmt ids (pre @ bs @ suf) (err, p + length bs)") (auto simp: assms(2))
qed

lemma gen_read_loop_encode:
  assumes "rpc_encode fmt args = Some e"
  shows "gen_read_loop fmt (rpc_ids fmt args @ ids) (pre @ e @ suf) (err, length pre) =
    Some (rpc_values fmt args (length pre), err, length pre + length e)"
  using assms
proof (induction fmt arbitrary: args e pre)
  case Nil
  then show ?case by simp
next
  case (Cons f fmt)
  then obtain bs args' e' where f: "rpc_field f args = Some (bs, args')" and e': "rpc_encode fmt args' = Some e'"
    and e: "e = bs @ e'" by (auto simp: bind_eq_Some_conv)
  show ?case
    using read_field [OF f refl, of fmt "rpc_ids fmt args' @ ids" pre "e' @ suf" err]
      Cons.IH [OF e', of "pre @ bs"] f e by simp
qed

lemma start_packet:
  assumes "10 \<le> length b"
  shows "eluarpc_start_packet b = Some (take 4 b @ TYPE_START # enc_u32 PACKET_SIG @ drop 10 b, 10)"
proof -
  define h r1 where "h = take 4 b" and "r1 = drop 4 b"
  have b: "b = h @ r1" and lh: "length h = 4" and lr: "6 \<le> length r1"
    using assms by (simp_all add: h_def r1_def)
  have "store [TYPE_START] (b, 4) = Some (h @ [TYPE_START] @ drop 1 r1, 4 + 1)"
    unfolding b by (subst store_append) (use lr lh in simp_all)
  moreover have "store (enc_u32 PACKET_SIG) ((h @ [TYPE_START]) @ drop 1 r1, 5) =
      Some ((h @ [TYPE_START]) @ enc_u32 PACKET_SIG @ drop 5 (drop 1 r1), 5 + 5)"
    by (subst store_append) (use lr lh in simp_all)
  ultimately show ?thesis
    by (simp add: eluarpc_start_packet_def eluarpc_write_enc h_def r1_def)
qed

lemma gen_write_packet:
  assumes e: "rpc_encode fmt args = Some e" and fits: "length e + 16 \<le> length b"
  shows "eluarpc_gen_write b fmt args = Some (rpc_packet e @ drop (length e + 16) b)"
proof -
  define h r1 where "h = take 4 b" and "r1 = drop 4 b"
  have b: "b = h @ r1" and lh: "length h = 4" and lr: "length e + 12 \<le> length r1"
    using fits by (simp_all add: h_def r1_def)
  define pre where "pre = h @ TYPE_START # enc_u32 PACKET_SIG"
  have lp: "length pre = 10" by (simp add: pre_def lh)
  have start: "eluarpc_start_packet b = Some (pre @ drop 6 r1, 10)"
    using start_packet [of b] fits by (simp add: pre_def h_def r1_def)
  have loop: "gen_write_loop fmt args (pre @ drop 6 r1, 10) = Some (pre @ e @ drop (length e) (drop 6 r1), 10 + length e)"
    using gen_write_loop_encode [OF e, of "drop 6 r1" pre] lr by (simp add: lp)
  define r2 where "r2 = drop (length e) (drop 6 r1)"
  have lr2: "6 \<le> length r2" using lr by (simp add: r2_def)
  have fin1: "store [TYPE_END] ((pre @ e) @ r2, 10 + length e) =
      Some ((pre @ e) @ [TYPE_END] @ drop 1 r2, 10 + length e + 1)"
    by (subst store_append) (use lr2 lp in simp_all)
  have fin2: "store (enc_u32 (NOT PACKET_SIG)) ((pre @ e @ [TYPE_END]) @ drop 1 r2, 11 + length e) =
      Some ((pre @ e @ [TYPE_END]) @ enc_u32 (NOT PACKET_SIG) @ drop 5 (drop 1 r2), 11 + length e + 5)"
    by (subst store_append) (use lr2 lp in simp_all)
  define rest where "rest = TYPE_START # enc_u32 PACKET_SIG @ e @ TYPE_END # enc_u32 (NOT PACKET_SIG) @ drop 6 r2"
  have pr: "(pre @ e @ [TYPE_END]) @ enc_u32 (NOT PACKET_SIG) @ drop 5 (drop 1 r2) = h @ rest"
    by (simp add: pre_def rest_def)
  have fin3: "store [TYPE_PKT_SIZE] ([] @ h @ rest, 0) = Some ([] @ [TYPE_PKT_SIZE] @ drop 1 (h @ rest), 0 + 1)"
    by (subst store_append) (use lh in simp_all)
  have fin4: "store (enc_u16 n) ([TYPE_PKT_SIZE] @ drop 1 (h @ rest), 1) =
      Some ([TYPE_PKT_SIZE] @ enc_u16 n @ drop 3 (drop 1 (h @ rest)), 1 + 3)" for n
    by (subst store_append) (use lh in simp_all)
  have "drop 4 (h @ rest) = rest" using lh by simp
  then have fin: "eluarpc_end_packet ((pre @ e) @ r2, 10 + length e) =
      Some (TYPE_PKT_SIZE # enc_u16 (of_nat (length e + 16)) @ rest)"
    using fin1 fin2 fin3 fin4 unfolding pr
    by (simp add: eluarpc_end_packet_def eluarpc_write_enc add.commute del: drop_append)
  have "drop 6 r2 = drop (length e + 16) b" by (simp add: r2_def r1_def add.commute)
  then show ?thesis
    using start loop [folded r2_def] fin by (simp add: eluarpc_gen_write_def) (simp add: rest_def rpc_packet_def)
qed

lemma match_start:
  "eluarpc_match_packet_start (rpc_packet e @ suf) err = Some (err, 10)"
  using read_expect_append [of 4 "TYPE_PKT_SIZE # enc_u16 (of_nat (length e + 16))" TYPE_START _ TYPE_START]
    read_u32_append [of 5 "TYPE_PKT_SIZE # enc_u16 (of_nat (length e + 16)) @ [TYPE_START]" PACKET_SIG _ err]
  by (simp add: eluarpc_match_packet_start_def rpc_packet_def)

lemma match_end:
  "eluarpc_match_packet_end (rpc_packet e @ suf) (err, 10 + length e) = Some (err, 16 + length e)"
  using read_expect_append [of "10 + length e" "TYPE_PKT_SIZE # enc_u16 (of_nat (length e + 16)) @ TYPE_START # enc_u32 PACKET_SIG @ e" TYPE_END _ TYPE_END]
    read_u32_append [of "11 + length e" "TYPE_PKT_SIZE # enc_u16 (of_nat (length e + 16)) @ TYPE_START # enc_u32 PACKET_SIG @ e @ [TYPE_END]" "NOT PACKET_SIG" _ err]
  by (simp add: eluarpc_match_packet_end_def rpc_packet_def)

lemma gen_read_packet:
  assumes "rpc_encode fmt args = Some e"
  shows "eluarpc_gen_read (rpc_packet e @ suf) fmt (rpc_ids fmt args) = Some (False, rpc_values fmt args 10)"
proof -
  have "gen_read_loop fmt (rpc_ids fmt args) (rpc_packet e @ suf) (False, 10) = Some (rpc_values fmt args 10, False, 10 + length e)"
    using gen_read_loop_encode [OF assms, of "[]" "TYPE_PKT_SIZE # enc_u16 (of_nat (length e + 16)) @ TYPE_START # enc_u32 PACKET_SIG"
        "TYPE_END # enc_u32 (NOT PACKET_SIG) @ suf" False]
    by (simp add: rpc_packet_def)
  then show ?thesis by (simp add: eluarpc_gen_read_def match_start match_end)
qed

lemma packet_size_packet:
  "eluarpc_get_packet_size (rpc_packet e @ suf) = Some (False, of_nat (length e + 16))"
  using read_expect_append [of 0 "[]" TYPE_PKT_SIZE _ TYPE_PKT_SIZE] read_u16_append [of 1 "[TYPE_PKT_SIZE]" "of_nat (length e + 16)" _ False]
  by (simp add: eluarpc_get_packet_size_def rpc_packet_def)

lemma request_id_packet:
  assumes "rpc_encode (CHR ''o'' # fmt) (Int_arg x # args) = Some e"
  shows "eluarpc_get_request_id (rpc_packet e @ suf) = Some (False, ucast x)"
proof -
  from assms obtain e' where "e = TYPE_OP_ID # ucast x # e'" by (auto simp: bind_eq_Some_conv)
  then have "eluarpc_read_op_id (rpc_packet e @ suf) (False, 10) = Some (ucast x, False, 12)"
    using read_expect_append [of 10 "TYPE_PKT_SIZE # enc_u16 (of_nat (length e + 16)) @ TYPE_START # enc_u32 PACKET_SIG" TYPE_OP_ID _ TYPE_OP_ID]
    by (simp add: eluarpc_read_op_id_def rpc_packet_def load_def nth_append)
  then show ?thesis by (simp add: eluarpc_get_request_id_def match_start)
qed

text \<open>Data that is in the packet already is written the same as data copied from that place.\<close>

lemma write_ptr_in_place:
  assumes "p + 6 + unat n \<le> length b"
  shows "eluarpc_write_ptr None n (b, p) = eluarpc_write_ptr (Some (take (unat n) (drop (p + 6) b))) n (b, p)"
proof -
  have "b = take p b @ drop p b" by simp
  define pre old where "pre = take p b" and "old = drop p b"
  have b: "b = pre @ old" and lp: "p = length pre" and lo: "6 + unat n \<le> length old"
    using assms by (simp_all add: pre_def old_def)
  let ?s = "take (unat n) (drop 6 old)"
  have ls: "length ?s = unat n" using lo by simp
  have "store [TYPE_PTR] (pre @ old, length pre) = Some (pre @ [TYPE_PTR] @ drop 1 old, length pre + 1)"
    by (subst store_append) (use lo in simp_all)
  moreover have "store (enc_u32 n) ((pre @ [TYPE_PTR]) @ drop 1 old, Suc (length pre)) =
      Some ((pre @ [TYPE_PTR]) @ enc_u32 n @ drop 5 (drop 1 old), Suc (length pre) + 5)"
    by (subst store_append) (use lo in simp_all)
  ultimately have "eluarpc_write_ptr None n (pre @ old, length pre) =
      Some (pre @ TYPE_PTR # enc_u32 n @ drop 6 old, length pre + (6 + unat n))"
    by (simp add: eluarpc_write_ptr_def eluarpc_write_enc store_ptr_def)
  moreover have "drop 6 old = ?s @ drop (6 + unat n) old"
    by (metis append_take_drop_id drop_drop add.commute)
  moreover have "drop (p + 6) b = drop 6 old" by (simp add: old_def add.commute)
  ultimately show ?thesis
    using write_ptr_append [OF ls, of old p pre] lo ls by (simp add: b lp)
qed

lemma gen_write_in_place:
  assumes fits: "17 + unat n \<le> length b"
  shows "eluarpc_gen_write b (CHR ''r'' # CHR ''p'' # fmt) (Int_arg x # Ptr_arg None # Int_arg n # args) =
    eluarpc_gen_write b (CHR ''r'' # CHR ''p'' # fmt)
      (Int_arg x # Ptr_arg (Some (take (unat n) (drop 17 b))) # Int_arg n # args)"
proof -
  define pre where "pre = take 4 b @ TYPE_START # enc_u32 PACKET_SIG"
  have lp: "length pre = 10" using fits by (simp add: pre_def)
  have st: "eluarpc_start_packet b = Some (pre @ drop 10 b, 10)"
    using start_packet [of b] fits by (simp add: pre_def)
  let ?c = "pre @ [ELUARPC_OP_RES_MOD OR ucast x] @ drop 1 (drop 10 b)"
  have r: "store [ELUARPC_OP_RES_MOD OR ucast x] (pre @ drop 10 b, 10) = Some (?c, 10 + 1)"
    by (subst store_append) (use fits lp in simp_all)
  have d: "drop (11 + 6) ?c = drop 17 b" using lp by simp
  have "eluarpc_write_ptr None n (?c, 11) = eluarpc_write_ptr (Some (take (unat n) (drop (11 + 6) ?c))) n (?c, 11)"
    by (rule write_ptr_in_place) (use fits lp in simp)
  then show ?thesis using st r unfolding d by (simp add: eluarpc_gen_write_def)
qed

section \<open>Properties\<close>

text \<open>C25: Whatever is written into a packet is what a reader with the same format gets out of it: the
  read succeeds and returns the integers and, for each pointer, the place of its data in the packet;
  the header has the size of the packet, and only the packet's bytes of the buffer change.\<close>

theorem rpc_roundtrip:
  assumes "rpc_encode fmt args = Some e" and "length e + 16 \<le> length b"
  shows "\<exists>b'. eluarpc_gen_write b fmt args = Some b' \<and> length b' = length b
    \<and> eluarpc_gen_read b' fmt (rpc_ids fmt args) = Some (False, rpc_values fmt args 10)
    \<and> eluarpc_get_packet_size b' = Some (False, of_nat (length e + 16))
    \<and> drop (length e + 16) b' = drop (length e + 16) b"
  using gen_write_packet [OF assms] gen_read_packet [OF assms(1)] packet_size_packet assms(2) by auto

theorem rpc_roundtrip_witness:
  "\<exists>b'. eluarpc_gen_write (replicate 64 0) ''oip'' [Int_arg 2, Int_arg 7, Ptr_arg (Some [65, 66]), Int_arg 2] = Some b'
    \<and> eluarpc_gen_read b' ''oip'' [2] = Some (False, [U32_val 7, Ptr_val (Some 23) 2])"
  using rpc_roundtrip [of "''oip''" "[Int_arg 2, Int_arg 7, Ptr_arg (Some [65, 66]), Int_arg 2]" _ "replicate 64 0"]
  by auto

text \<open>A reader that expects another operation than the one in the packet reports an error, and
  reads nothing but the packet: requests and responses of different operations are not confused.\<close>

theorem rpc_wrong_op_detected:
  assumes "f = CHR ''o'' \<or> f = CHR ''r''" and "rpc_encode (f # fmt) (Int_arg x # args) = Some e"
    and "f = CHR ''o'' \<longrightarrow> (ucast x :: u8) \<noteq> ucast y"
    and "f = CHR ''r'' \<longrightarrow> ELUARPC_OP_RES_MOD OR (ucast x :: u8) \<noteq> ELUARPC_OP_RES_MOD OR ucast y"
  shows "\<exists>vs. eluarpc_gen_read (rpc_packet e @ suf) (f # fmt) (y # rpc_ids fmt args) = Some (True, vs)"
proof -
  define pre where "pre = TYPE_PKT_SIZE # enc_u16 (of_nat (length e + 16)) @ TYPE_START # enc_u32 PACKET_SIG"
  have lp: "length pre = 10" by (simp add: pre_def)
  have buf: "rpc_packet e @ suf = pre @ e @ TYPE_END # enc_u32 (NOT PACKET_SIG) @ suf"
    by (simp add: pre_def rpc_packet_def)
  from assms(1,2) obtain bs e' where f: "rpc_field f (Int_arg x # args) = Some (bs, args)"
      and e': "rpc_encode fmt args = Some e'" and e: "e = bs @ e'"
    by (auto simp: bind_eq_Some_conv)
  have rest: "gen_read_loop fmt (rpc_ids fmt args) (rpc_packet e @ suf) (True, 10 + length bs) =
      Some (rpc_values fmt args (10 + length bs), True, 10 + length e)"
    using gen_read_loop_encode [OF e', of "[]" "pre @ bs" "TYPE_END # enc_u32 (NOT PACKET_SIG) @ suf" True]
    unfolding buf by (simp add: e lp add.assoc)
  define tl where "tl = e' @ TYPE_END # enc_u32 (NOT PACKET_SIG) @ suf"
  have "gen_read_loop (f # fmt) (y # rpc_ids fmt args) (pre @ bs @ tl) (False, 10) =
      gen_read_loop fmt (rpc_ids fmt args) (pre @ bs @ tl) (True, 10 + length bs)"
    using assms(1)
  proof
    assume "f = CHR ''o''"
    then show ?thesis using f assms(3) expect_op_append [OF lp [symmetric], of "ucast x" tl "ucast y" False] by auto
  next
    assume "f = CHR ''r''"
    then show ?thesis using f assms(4) read_expect_append [OF lp [symmetric], of _ tl _ False] by auto
  qed
  moreover have "rpc_packet e @ suf = pre @ bs @ tl" unfolding buf by (simp add: tl_def e)
  ultimately have "gen_read_loop (f # fmt) (y # rpc_ids fmt args) (rpc_packet e @ suf) (False, 10) =
      gen_read_loop fmt (rpc_ids fmt args) (rpc_packet e @ suf) (True, 10 + length bs)"
    by (simp only:)
  then show ?thesis
    using rest by (simp add: eluarpc_gen_read_def match_start match_end)
qed

theorem rpc_wrong_op_detected_witness:
  "\<exists>vs. eluarpc_gen_read (rpc_packet (0x81 # enc_u32 5)) ''ri'' [4] = Some (True, vs)"
  using rpc_wrong_op_detected [of "CHR ''r''" "''i''" 1 "[Int_arg 5]" "0x81 # enc_u32 5" 4 "[]"] by simp

end
