(* ===== verification/Remotefs.thy ===== *)
theory Remotefs
  imports Eluarpc
begin

text \<open>
  The messages of the remote file system, \<^verbatim>\<open>src/remotefs/remotefs.c\<close>: for each operation a request
  and a response, each with a function that writes it into a packet buffer and one that reads it
  back; and the translation of open flags and seek modes between the two ends
  (\<^verbatim>\<open>src/remotefs/elua_os_io.c\<close> on the board, \<^verbatim>\<open>rfs_server_src/os_io_posix.c\<close> on the PC). A C string
  is the list of its bytes without the terminator. A read function gives the error flag and the
  values; a pointer is an offset into the packet buffer, \<^const>\<open>None\<close> the NULL pointer. The lemmas
  give for each message the bytes that go over the wire and what the reader makes of them.
\<close>

abbreviation "RFS_OP_OPEN \<equiv> (0x01 :: u32)"
abbreviation "RFS_OP_WRITE \<equiv> (0x02 :: u32)"
abbreviation "RFS_OP_READ \<equiv> (0x03 :: u32)"
abbreviation "RFS_OP_CLOSE \<equiv> (0x04 :: u32)"
abbreviation "RFS_OP_LSEEK \<equiv> (0x05 :: u32)"
abbreviation "RFS_OP_OPENDIR \<equiv> (0x06 :: u32)"
abbreviation "RFS_OP_READDIR \<equiv> (0x07 :: u32)"
abbreviation "RFS_OP_CLOSEDIR \<equiv> (0x08 :: u32)"

text \<open>The argument for a C string: the bytes with the terminator, and their number.\<close>

definition cstr_args :: "u8 list \<Rightarrow> rpc_arg list" where
  "cstr_args s = [Ptr_arg (Some (s @ [0])), Int_arg (of_nat (length s + 1))]"

text \<open>The C string that starts at an offset; undefined when there is no terminator in the block.\<close>

definition cstring_at :: "packet_buf \<Rightarrow> nat \<Rightarrow> u8 list option" where
  "cstring_at b p = (if 0 \<in> set (drop p b) then Some (takeWhile (\<lambda>x. x \<noteq> 0) (drop p b)) else None)"

section \<open>open\<close>

definition remotefs_open_write_response :: "packet_buf \<Rightarrow> u32 \<Rightarrow> packet_buf option" where
  "remotefs_open_write_response b result =
     eluarpc_gen_write b ''ri'' ([Int_arg RFS_OP_OPEN, Int_arg result])"

definition remotefs_open_read_response :: "packet_buf \<Rightarrow> (bool \<times> u32) option" where
  "remotefs_open_read_response b =
     (case eluarpc_gen_read b ''ri'' [RFS_OP_OPEN] of
        Some (err, [U32_val result]) \<Rightarrow> Some (err, result) | _ \<Rightarrow> None)"

definition remotefs_open_write_request :: "packet_buf \<Rightarrow> u8 list \<Rightarrow> u32 \<Rightarrow> u32 \<Rightarrow> packet_buf option" where
  "remotefs_open_write_request b pathname flags mode =
     eluarpc_gen_write b ''opii'' (Int_arg RFS_OP_OPEN # cstr_args pathname @ [Int_arg flags, Int_arg mode])"

definition remotefs_open_read_request :: "packet_buf \<Rightarrow> (bool \<times> nat option \<times> u32 \<times> u32) option" where
  "remotefs_open_read_request b =
     (case eluarpc_gen_read b ''opii'' [RFS_OP_OPEN] of
        Some (err, [Ptr_val p n, U32_val flags, U32_val mode]) \<Rightarrow> Some (err, p, flags, mode) | _ \<Rightarrow> None)"

section \<open>write\<close>

definition remotefs_write_write_response :: "packet_buf \<Rightarrow> u32 \<Rightarrow> packet_buf option" where
  "remotefs_write_write_response b result =
     eluarpc_gen_write b ''rl'' ([Int_arg RFS_OP_WRITE, Int_arg result])"

definition remotefs_write_read_response :: "packet_buf \<Rightarrow> (bool \<times> u32) option" where
  "remotefs_write_read_response b =
     (case eluarpc_gen_read b ''rl'' [RFS_OP_WRITE] of
        Some (err, [U32_val result]) \<Rightarrow> Some (err, result) | _ \<Rightarrow> None)"

definition remotefs_write_write_request :: "packet_buf \<Rightarrow> u32 \<Rightarrow> u8 list \<Rightarrow> u32 \<Rightarrow> packet_buf option" where
  "remotefs_write_write_request b fd buf cnt =
     eluarpc_gen_write b ''oip'' ([Int_arg RFS_OP_WRITE, Int_arg fd, Ptr_arg (Some buf), Int_arg cnt])"

definition remotefs_write_read_request :: "packet_buf \<Rightarrow> (bool \<times> u32 \<times> nat option \<times> u32) option" where
  "remotefs_write_read_request b =
     (case eluarpc_gen_read b ''oip'' [RFS_OP_WRITE] of
        Some (err, [U32_val fd, Ptr_val p n]) \<Rightarrow> Some (err, fd, p, n) | _ \<Rightarrow> None)"

section \<open>read\<close>

definition remotefs_read_write_response :: "packet_buf \<Rightarrow> u32 \<Rightarrow> packet_buf option" where
  "remotefs_read_write_response b readbytes =
     eluarpc_gen_write b ''rp'' ([Int_arg RFS_OP_READ, Ptr_arg None, Int_arg readbytes])"

definition remotefs_read_read_response :: "packet_buf \<Rightarrow> (bool \<times> nat option \<times> u32) option" where
  "remotefs_read_read_response b =
     (case eluarpc_gen_read b ''rp'' [RFS_OP_READ] of
        Some (err, [Ptr_val p n]) \<Rightarrow> Some (err, p, n) | _ \<Rightarrow> None)"

definition remotefs_read_write_request :: "packet_buf \<Rightarrow> u32 \<Rightarrow> u32 \<Rightarrow> packet_buf option" where
  "remotefs_read_write_request b fd cnt =
     eluarpc_gen_write b ''oil'' ([Int_arg RFS_OP_READ, Int_arg fd, Int_arg cnt])"

definition remotefs_read_read_request :: "packet_buf \<Rightarrow> (bool \<times> u32 \<times> u32) option" where
  "remotefs_read_read_request b =
     (case eluarpc_gen_read b ''oil'' [RFS_OP_READ] of
        Some (err, [U32_val fd, U32_val cnt]) \<Rightarrow> Some (err, fd, cnt) | _ \<Rightarrow> None)"

section \<open>close\<close>

definition remotefs_close_write_response :: "packet_buf \<Rightarrow> u32 \<Rightarrow> packet_buf option" where
  "remotefs_close_write_response b result =
     eluarpc_gen_write b ''ri'' ([Int_arg RFS_OP_CLOSE, Int_arg result])"

definition remotefs_close_read_response :: "packet_buf \<Rightarrow> (bool \<times> u32) option" where
  "remotefs_close_read_response b =
     (case eluarpc_gen_read b ''ri'' [RFS_OP_CLOSE] of
        Some (err, [U32_val result]) \<Rightarrow> Some (err, result) | _ \<Rightarrow> None)"

definition remotefs_close_write_request :: "packet_buf \<Rightarrow> u32 \<Rightarrow> packet_buf option" where
  "remotefs_close_write_request b fd =
     eluarpc_gen_write b ''oi'' ([Int_arg RFS_OP_CLOSE, Int_arg fd])"

definition remotefs_close_read_request :: "packet_buf \<Rightarrow> (bool \<times> u32) option" where
  "remotefs_close_read_request b =
     (case eluarpc_gen_read b ''oi'' [RFS_OP_CLOSE] of
        Some (err, [U32_val fd]) \<Rightarrow> Some (err, fd) | _ \<Rightarrow> None)"

section \<open>lseek\<close>

definition remotefs_lseek_write_response :: "packet_buf \<Rightarrow> u32 \<Rightarrow> packet_buf option" where
  "remotefs_lseek_write_response b result =
     eluarpc_gen_write b ''rL'' ([Int_arg RFS_OP_LSEEK, Int_arg result])"

definition remotefs_lseek_read_response :: "packet_buf \<Rightarrow> (bool \<times> u32) option" where
  "remotefs_lseek_read_response b =
     (case eluarpc_gen_read b ''rL'' [RFS_OP_LSEEK] of
        Some (err, [U32_val result]) \<Rightarrow> Some (err, result) | _ \<Rightarrow> None)"

definition remotefs_lseek_write_request :: "packet_buf \<Rightarrow> u32 \<Rightarrow> u32 \<Rightarrow> u32 \<Rightarrow> packet_buf option" where
  "remotefs_lseek_write_request b fd offset whence =
     eluarpc_gen_write b ''oiLi'' ([Int_arg RFS_OP_LSEEK, Int_arg fd, Int_arg offset, Int_arg whence])"

definition remotefs_lseek_read_request :: "packet_buf \<Rightarrow> (bool \<times> u32 \<times> u32 \<times> u32) option" where
  "remotefs_lseek_read_request b =
     (case eluarpc_gen_read b ''oiLi'' [RFS_OP_LSEEK] of
        Some (err, [U32_val fd, U32_val offset, U32_val whence]) \<Rightarrow> Some (err, fd, offset, whence) | _ \<Rightarrow> None)"

section \<open>opendir\<close>

definition remotefs_opendir_write_response :: "packet_buf \<Rightarrow> u32 \<Rightarrow> packet_buf option" where
  "remotefs_opendir_write_response b result =
     eluarpc_gen_write b ''rl'' ([Int_arg RFS_OP_OPENDIR, Int_arg result])"

definition remotefs_opendir_read_response :: "packet_buf \<Rightarrow> (bool \<times> u32) option" where
  "remotefs_opendir_read_response b =
     (case eluarpc_gen_read b ''rl'' [RFS_OP_OPENDIR] of
        Some (err, [U32_val result]) \<Rightarrow> Some (err, result) | _ \<Rightarrow> None)"

definition remotefs_opendir_write_request :: "packet_buf \<Rightarrow> u8 list \<Rightarrow> packet_buf option" where
  "remotefs_opendir_write_request b name =
     eluarpc_gen_write b ''op'' (Int_arg RFS_OP_OPENDIR # cstr_args name)"

definition remotefs_opendir_read_request :: "packet_buf \<Rightarrow> (bool \<times> nat option) option" where
  "remotefs_opendir_read_request b =
     (case eluarpc_gen_read b ''op'' [RFS_OP_OPENDIR] of
        Some (err, [Ptr_val p n]) \<Rightarrow> Some (err, p) | _ \<Rightarrow> None)"

section \<open>readdir\<close>

definition remotefs_readdir_write_response :: "packet_buf \<Rightarrow> u8 list option \<Rightarrow> u32 \<Rightarrow> u32 \<Rightarrow> packet_buf option" where
  "remotefs_readdir_write_response b name fsize ftime =
     eluarpc_gen_write b ''rpll'' (Int_arg RFS_OP_READDIR #
        (case name of Some s \<Rightarrow> cstr_args s | None \<Rightarrow> [Ptr_arg None, Int_arg 0]) @ [Int_arg fsize, Int_arg ftime])"

definition remotefs_readdir_read_response :: "packet_buf \<Rightarrow> (bool \<times> nat option \<times> u32 \<times> u32) option" where
  "remotefs_readdir_read_response b =
     (case eluarpc_gen_read b ''rpll'' [RFS_OP_READDIR] of
        Some (err, [Ptr_val p n, U32_val fsize, U32_val ftime]) \<Rightarrow> Some (err, p, fsize, ftime) | _ \<Rightarrow> None)"

definition remotefs_readdir_write_request :: "packet_buf \<Rightarrow> u32 \<Rightarrow> packet_buf option" where
  "remotefs_readdir_write_request b d =
     eluarpc_gen_write b ''ol'' ([Int_arg RFS_OP_READDIR, Int_arg d])"

definition remotefs_readdir_read_request :: "packet_buf \<Rightarrow> (bool \<times> u32) option" where
  "remotefs_readdir_read_request b =
     (case eluarpc_gen_read b ''ol'' [RFS_OP_READDIR] of
        Some (err, [U32_val d]) \<Rightarrow> Some (err, d) | _ \<Rightarrow> None)"

section \<open>closedir\<close>

definition remotefs_closedir_write_response :: "packet_buf \<Rightarrow> u32 \<Rightarrow> packet_buf option" where
  "remotefs_closedir_write_response b result =
     eluarpc_gen_write b ''ri'' ([Int_arg RFS_OP_CLOSEDIR, Int_arg result])"

definition remotefs_closedir_read_response :: "packet_buf \<Rightarrow> (bool \<times> u32) option" where
  "remotefs_closedir_read_response b =
     (case eluarpc_gen_read b ''ri'' [RFS_OP_CLOSEDIR] of
        Some (err, [U32_val result]) \<Rightarrow> Some (err, result) | _ \<Rightarrow> None)"

definition remotefs_closedir_write_request :: "packet_buf \<Rightarrow> u32 \<Rightarrow> packet_buf option" where
  "remotefs_closedir_write_request b d =
     eluarpc_gen_write b ''ol'' ([Int_arg RFS_OP_CLOSEDIR, Int_arg d])"

definition remotefs_closedir_read_request :: "packet_buf \<Rightarrow> (bool \<times> u32) option" where
  "remotefs_closedir_read_request b =
     (case eluarpc_gen_read b ''ol'' [RFS_OP_CLOSEDIR] of
        Some (err, [U32_val d]) \<Rightarrow> Some (err, d) | _ \<Rightarrow> None)"

section \<open>Open flags and seek modes\<close>

text \<open>The values the C library of each end gives to the flags; the functions of both ends are written
  with their own library's values.\<close>

record libc_flags =
  O_APPEND :: u32
  O_CREAT :: u32
  O_EXCL :: u32
  O_TRUNC :: u32
  O_SYNC :: u32
  O_RDONLY :: u32
  O_WRONLY :: u32
  O_RDWR :: u32
  SEEK_SET :: u32
  SEEK_CUR :: u32
  SEEK_END :: u32

definition os_open_sys_flags_to_rfs_flags :: "libc_flags \<Rightarrow> u32 \<Rightarrow> u32" where
  "os_open_sys_flags_to_rfs_flags lib sysflags =
     eluarpc_replace_flag sysflags (O_APPEND lib) 0x01 OR
     eluarpc_replace_flag sysflags (O_CREAT lib) 0x02 OR
     eluarpc_replace_flag sysflags (O_EXCL lib) 0x04 OR
     eluarpc_replace_flag sysflags (O_TRUNC lib) 0x08 OR
     eluarpc_replace_flag sysflags (O_SYNC lib) 0x10 OR
     eluarpc_replace_flag sysflags (O_RDONLY lib) 0x20 OR
     eluarpc_replace_flag sysflags (O_WRONLY lib) 0x40 OR
     eluarpc_replace_flag sysflags (O_RDWR lib) 0x80"

definition os_open_realflags :: "libc_flags \<Rightarrow> u32 \<Rightarrow> u32" where
  "os_open_realflags lib flags =
     eluarpc_replace_flag flags 0x01 (O_APPEND lib) OR
     eluarpc_replace_flag flags 0x02 (O_CREAT lib) OR
     eluarpc_replace_flag flags 0x04 (O_EXCL lib) OR
     eluarpc_replace_flag flags 0x08 (O_TRUNC lib) OR
     eluarpc_replace_flag flags 0x10 (O_SYNC lib) OR
     eluarpc_replace_flag flags 0x20 (O_RDONLY lib) OR
     eluarpc_replace_flag flags 0x40 (O_WRONLY lib) OR
     eluarpc_replace_flag flags 0x80 (O_RDWR lib)"

definition os_lseek_sys_whence_to_rfs_whence :: "libc_flags \<Rightarrow> u32 \<Rightarrow> u32" where
  "os_lseek_sys_whence_to_rfs_whence lib syswhence =
     (if syswhence = SEEK_SET lib then 1 else if syswhence = SEEK_CUR lib then 2
      else if syswhence = SEEK_END lib then 3 else 0)"

definition os_lseek_realwhence :: "libc_flags \<Rightarrow> u32 \<Rightarrow> u32 option" where
  "os_lseek_realwhence lib whence =
     (if whence = 1 then Some (SEEK_SET lib) else if whence = 2 then Some (SEEK_CUR lib)
      else if whence = 3 then Some (SEEK_END lib) else None)"


section \<open>The messages on the wire\<close>

definition wire :: "string \<Rightarrow> rpc_arg list \<Rightarrow> u8 list" where
  "wire fmt args = rpc_packet (the (rpc_encode fmt args))"

lemma gen_write_wire:
  assumes "rpc_encode fmt args \<noteq> None" and "length (wire fmt args) \<le> length b"
  shows "eluarpc_gen_write b fmt args = Some (wire fmt args @ drop (length (wire fmt args)) b)"
  using assms gen_write_packet [of fmt args _ b] by (auto simp: wire_def)

lemma gen_read_wire:
  assumes "rpc_encode fmt args \<noteq> None"
  shows "eluarpc_gen_read (wire fmt args @ suf) fmt (rpc_ids fmt args) = Some (False, rpc_values fmt args 10)"
  using assms gen_read_packet [of fmt args] by (auto simp: wire_def)

lemma packet_size_wire: "eluarpc_get_packet_size (wire fmt args @ suf) = Some (False, of_nat (length (wire fmt args)))"
  by (simp add: wire_def packet_size_packet)

lemma request_id_wire:
  assumes "rpc_encode (CHR ''o'' # fmt) (Int_arg x # args) \<noteq> None"
  shows "eluarpc_get_request_id (wire (CHR ''o'' # fmt) (Int_arg x # args) @ suf) = Some (False, ucast x)"
  using assms request_id_packet [of fmt x args] by (auto simp: wire_def)

text \<open>A string or block that an \<^verbatim>\<open>u32\<close> can measure.\<close>

lemma u32_len: "n < 2 ^ 32 \<Longrightarrow> unat (of_nat n :: u32) = n"
  by (simp add: unat_of_nat take_bit_nat_eq_self)

lemma cstring_at_append:
  assumes "0 \<notin> set s"
  shows "cstring_at (pre @ s @ 0 # suf) (length pre) = Some s"
  using assms by (auto simp: cstring_at_def takeWhile_append)

definition req_open :: "u8 list \<Rightarrow> u32 \<Rightarrow> u32 \<Rightarrow> u8 list" where
  "req_open path flags mode = wire ''opii'' (Int_arg RFS_OP_OPEN # cstr_args path @ [Int_arg flags, Int_arg mode])"

lemma req_open_ok:
  assumes "length path + 1 < 2 ^ 32"
  shows "rpc_encode ''opii'' (Int_arg RFS_OP_OPEN # cstr_args path @ [Int_arg flags, Int_arg mode]) \<noteq> None" "length (req_open path flags mode) = length path + 35"
    "eluarpc_get_packet_size (req_open path flags mode @ suf) = Some (False, of_nat (length path + 35))"
    "remotefs_open_read_request (req_open path flags mode @ suf) = Some (False, (Some 18, flags, mode))"
    "eluarpc_get_request_id (req_open path flags mode @ suf) = Some (False, 1)"
proof -
  show e: "rpc_encode ''opii'' (Int_arg RFS_OP_OPEN # cstr_args path @ [Int_arg flags, Int_arg mode]) \<noteq> None"
    using u32_len [OF assms] by (simp add: cstr_args_def)
  show l: "length (req_open path flags mode) = length path + 35"
    using u32_len [OF assms] by (simp add: req_open_def wire_def cstr_args_def)
  show "eluarpc_get_packet_size (req_open path flags mode @ suf) = Some (False, of_nat (length path + 35))"
    unfolding l [symmetric] req_open_def by (rule packet_size_wire)
  show "remotefs_open_read_request (req_open path flags mode @ suf) = Some (False, (Some 18, flags, mode))"
    using gen_read_wire [OF e, of suf] u32_len [OF assms]
    by (simp add: remotefs_open_read_request_def req_open_def cstr_args_def)
  show "eluarpc_get_request_id (req_open path flags mode @ suf) = Some (False, 1)"
    using request_id_wire [OF e, of suf] by (simp add: req_open_def)
qed

lemma req_open_write:
  assumes "length (req_open path flags mode) \<le> length b" and "length path + 1 < 2 ^ 32"
  shows "remotefs_open_write_request b path flags mode = Some (req_open path flags mode @ drop (length (req_open path flags mode)) b)"
  using gen_write_wire [OF req_open_ok(1) [OF assms(2)], where b = b] assms(1)
  by (simp add: remotefs_open_write_request_def req_open_def)

definition res_open :: "u32 \<Rightarrow> u8 list" where
  "res_open r = wire ''ri'' ([Int_arg RFS_OP_OPEN, Int_arg r])"

lemma res_open_ok:
  shows "rpc_encode ''ri'' ([Int_arg RFS_OP_OPEN, Int_arg r]) \<noteq> None" "length (res_open r) = 22"
    "eluarpc_get_packet_size (res_open r @ suf) = Some (False, of_nat (22))"
    "remotefs_open_read_response (res_open r @ suf) = Some (False, r)"
proof -
  show e: "rpc_encode ''ri'' ([Int_arg RFS_OP_OPEN, Int_arg r]) \<noteq> None"
    by (simp add: cstr_args_def)
  show l: "length (res_open r) = 22"
    by (simp add: res_open_def wire_def cstr_args_def)
  show "eluarpc_get_packet_size (res_open r @ suf) = Some (False, of_nat (22))"
    unfolding l [symmetric] res_open_def by (rule packet_size_wire)
  show "remotefs_open_read_response (res_open r @ suf) = Some (False, r)"
    using gen_read_wire [OF e, of suf]
    by (simp add: remotefs_open_read_response_def res_open_def cstr_args_def)
qed

lemma res_open_write:
  assumes "length (res_open r) \<le> length b"
  shows "remotefs_open_write_response b r = Some (res_open r @ drop (length (res_open r)) b)"
  using gen_write_wire [OF res_open_ok(1), where b = b] assms(1)
  by (simp add: remotefs_open_write_response_def res_open_def)

definition req_write :: "u32 \<Rightarrow> u8 list \<Rightarrow> u8 list" where
  "req_write fd data = wire ''oip'' ([Int_arg RFS_OP_WRITE, Int_arg fd, Ptr_arg (Some data), Int_arg (of_nat (length data))])"

lemma req_write_ok:
  assumes "length data < 2 ^ 32"
  shows "rpc_encode ''oip'' ([Int_arg RFS_OP_WRITE, Int_arg fd, Ptr_arg (Some data), Int_arg (of_nat (length data))]) \<noteq> None" "length (req_write fd data) = length data + 29"
    "eluarpc_get_packet_size (req_write fd data @ suf) = Some (False, of_nat (length data + 29))"
    "remotefs_write_read_request (req_write fd data @ suf) = Some (False, (fd, if data = [] then None else Some 23, of_nat (length data)))"
    "eluarpc_get_request_id (req_write fd data @ suf) = Some (False, 2)"
proof -
  show e: "rpc_encode ''oip'' ([Int_arg RFS_OP_WRITE, Int_arg fd, Ptr_arg (Some data), Int_arg (of_nat (length data))]) \<noteq> None"
    using u32_len [OF assms] by (simp add: cstr_args_def)
  show l: "length (req_write fd data) = length data + 29"
    using u32_len [OF assms] by (simp add: req_write_def wire_def cstr_args_def)
  show "eluarpc_get_packet_size (req_write fd data @ suf) = Some (False, of_nat (length data + 29))"
    unfolding l [symmetric] req_write_def by (rule packet_size_wire)
  show "remotefs_write_read_request (req_write fd data @ suf) = Some (False, (fd, if data = [] then None else Some 23, of_nat (length data)))"
    using gen_read_wire [OF e, of suf] u32_len [OF assms]
    by (simp add: remotefs_write_read_request_def req_write_def cstr_args_def)
  show "eluarpc_get_request_id (req_write fd data @ suf) = Some (False, 2)"
    using request_id_wire [OF e, of suf] by (simp add: req_write_def)
qed

lemma req_write_write:
  assumes "length (req_write fd data) \<le> length b" and "length data < 2 ^ 32"
  shows "remotefs_write_write_request b fd data (of_nat (length data)) = Some (req_write fd data @ drop (length (req_write fd data)) b)"
  using gen_write_wire [OF req_write_ok(1) [OF assms(2)], where b = b] assms(1)
  by (simp add: remotefs_write_write_request_def req_write_def)

definition res_write :: "u32 \<Rightarrow> u8 list" where
  "res_write r = wire ''rl'' ([Int_arg RFS_OP_WRITE, Int_arg r])"

lemma res_write_ok:
  shows "rpc_encode ''rl'' ([Int_arg RFS_OP_WRITE, Int_arg r]) \<noteq> None" "length (res_write r) = 22"
    "eluarpc_get_packet_size (res_write r @ suf) = Some (False, of_nat (22))"
    "remotefs_write_read_response (res_write r @ suf) = Some (False, r)"
proof -
  show e: "rpc_encode ''rl'' ([Int_arg RFS_OP_WRITE, Int_arg r]) \<noteq> None"
    by (simp add: cstr_args_def)
  show l: "length (res_write r) = 22"
    by (simp add: res_write_def wire_def cstr_args_def)
  show "eluarpc_get_packet_size (res_write r @ suf) = Some (False, of_nat (22))"
    unfolding l [symmetric] res_write_def by (rule packet_size_wire)
  show "remotefs_write_read_response (res_write r @ suf) = Some (False, r)"
    using gen_read_wire [OF e, of suf]
    by (simp add: remotefs_write_read_response_def res_write_def cstr_args_def)
qed

lemma res_write_write:
  assumes "length (res_write r) \<le> length b"
  shows "remotefs_write_write_response b r = Some (res_write r @ drop (length (res_write r)) b)"
  using gen_write_wire [OF res_write_ok(1), where b = b] assms(1)
  by (simp add: remotefs_write_write_response_def res_write_def)

definition req_read :: "u32 \<Rightarrow> u32 \<Rightarrow> u8 list" where
  "req_read fd cnt = wire ''oil'' ([Int_arg RFS_OP_READ, Int_arg fd, Int_arg cnt])"

lemma req_read_ok:
  shows "rpc_encode ''oil'' ([Int_arg RFS_OP_READ, Int_arg fd, Int_arg cnt]) \<noteq> None" "length (req_read fd cnt) = 28"
    "eluarpc_get_packet_size (req_read fd cnt @ suf) = Some (False, of_nat (28))"
    "remotefs_read_read_request (req_read fd cnt @ suf) = Some (False, (fd, cnt))"
    "eluarpc_get_request_id (req_read fd cnt @ suf) = Some (False, 3)"
proof -
  show e: "rpc_encode ''oil'' ([Int_arg RFS_OP_READ, Int_arg fd, Int_arg cnt]) \<noteq> None"
    by (simp add: cstr_args_def)
  show l: "length (req_read fd cnt) = 28"
    by (simp add: req_read_def wire_def cstr_args_def)
  show "eluarpc_get_packet_size (req_read fd cnt @ suf) = Some (False, of_nat (28))"
    unfolding l [symmetric] req_read_def by (rule packet_size_wire)
  show "remotefs_read_read_request (req_read fd cnt @ suf) = Some (False, (fd, cnt))"
    using gen_read_wire [OF e, of suf]
    by (simp add: remotefs_read_read_request_def req_read_def cstr_args_def)
  show "eluarpc_get_request_id (req_read fd cnt @ suf) = Some (False, 3)"
    using request_id_wire [OF e, of suf] by (simp add: req_read_def)
qed

lemma req_read_write:
  assumes "length (req_read fd cnt) \<le> length b"
  shows "remotefs_read_write_request b fd cnt = Some (req_read fd cnt @ drop (length (req_read fd cnt)) b)"
  using gen_write_wire [OF req_read_ok(1), where b = b] assms(1)
  by (simp add: remotefs_read_write_request_def req_read_def)

definition res_read :: "u8 list \<Rightarrow> u8 list" where
  "res_read data = wire ''rp'' ([Int_arg RFS_OP_READ, Ptr_arg (Some data), Int_arg (of_nat (length data))])"

lemma res_read_ok:
  assumes "length data < 2 ^ 32"
  shows "rpc_encode ''rp'' ([Int_arg RFS_OP_READ, Ptr_arg (Some data), Int_arg (of_nat (length data))]) \<noteq> None" "length (res_read data) = length data + 23"
    "eluarpc_get_packet_size (res_read data @ suf) = Some (False, of_nat (length data + 23))"
    "remotefs_read_read_response (res_read data @ suf) = Some (False, (if data = [] then None else Some 17, of_nat (length data)))"
proof -
  show e: "rpc_encode ''rp'' ([Int_arg RFS_OP_READ, Ptr_arg (Some data), Int_arg (of_nat (length data))]) \<noteq> None"
    using u32_len [OF assms] by (simp add: cstr_args_def)
  show l: "length (res_read data) = length data + 23"
    using u32_len [OF assms] by (simp add: res_read_def wire_def cstr_args_def)
  show "eluarpc_get_packet_size (res_read data @ suf) = Some (False, of_nat (length data + 23))"
    unfolding l [symmetric] res_read_def by (rule packet_size_wire)
  show "remotefs_read_read_response (res_read data @ suf) = Some (False, (if data = [] then None else Some 17, of_nat (length data)))"
    using gen_read_wire [OF e, of suf] u32_len [OF assms]
    by (simp add: remotefs_read_read_response_def res_read_def cstr_args_def)
qed

definition req_close :: "u32 \<Rightarrow> u8 list" where
  "req_close fd = wire ''oi'' ([Int_arg RFS_OP_CLOSE, Int_arg fd])"

lemma req_close_ok:
  shows "rpc_encode ''oi'' ([Int_arg RFS_OP_CLOSE, Int_arg fd]) \<noteq> None" "length (req_close fd) = 23"
    "eluarpc_get_packet_size (req_close fd @ suf) = Some (False, of_nat (23))"
    "remotefs_close_read_request (req_close fd @ suf) = Some (False, fd)"
    "eluarpc_get_request_id (req_close fd @ suf) = Some (False, 4)"
proof -
  show e: "rpc_encode ''oi'' ([Int_arg RFS_OP_CLOSE, Int_arg fd]) \<noteq> None"
    by (simp add: cstr_args_def)
  show l: "length (req_close fd) = 23"
    by (simp add: req_close_def wire_def cstr_args_def)
  show "eluarpc_get_packet_size (req_close fd @ suf) = Some (False, of_nat (23))"
    unfolding l [symmetric] req_close_def by (rule packet_size_wire)
  show "remotefs_close_read_request (req_close fd @ suf) = Some (False, fd)"
    using gen_read_wire [OF e, of suf]
    by (simp add: remotefs_close_read_request_def req_close_def cstr_args_def)
  show "eluarpc_get_request_id (req_close fd @ suf) = Some (False, 4)"
    using request_id_wire [OF e, of suf] by (simp add: req_close_def)
qed

lemma req_close_write:
  assumes "length (req_close fd) \<le> length b"
  shows "remotefs_close_write_request b fd = Some (req_close fd @ drop (length (req_close fd)) b)"
  using gen_write_wire [OF req_close_ok(1), where b = b] assms(1)
  by (simp add: remotefs_close_write_request_def req_close_def)

definition res_close :: "u32 \<Rightarrow> u8 list" where
  "res_close r = wire ''ri'' ([Int_arg RFS_OP_CLOSE, Int_arg r])"

lemma res_close_ok:
  shows "rpc_encode ''ri'' ([Int_arg RFS_OP_CLOSE, Int_arg r]) \<noteq> None" "length (res_close r) = 22"
    "eluarpc_get_packet_size (res_close r @ suf) = Some (False, of_nat (22))"
    "remotefs_close_read_response (res_close r @ suf) = Some (False, r)"
proof -
  show e: "rpc_encode ''ri'' ([Int_arg RFS_OP_CLOSE, Int_arg r]) \<noteq> None"
    by (simp add: cstr_args_def)
  show l: "length (res_close r) = 22"
    by (simp add: res_close_def wire_def cstr_args_def)
  show "eluarpc_get_packet_size (res_close r @ suf) = Some (False, of_nat (22))"
    unfolding l [symmetric] res_close_def by (rule packet_size_wire)
  show "remotefs_close_read_response (res_close r @ suf) = Some (False, r)"
    using gen_read_wire [OF e, of suf]
    by (simp add: remotefs_close_read_response_def res_close_def cstr_args_def)
qed

lemma res_close_write:
  assumes "length (res_close r) \<le> length b"
  shows "remotefs_close_write_response b r = Some (res_close r @ drop (length (res_close r)) b)"
  using gen_write_wire [OF res_close_ok(1), where b = b] assms(1)
  by (simp add: remotefs_close_write_response_def res_close_def)

definition req_lseek :: "u32 \<Rightarrow> u32 \<Rightarrow> u32 \<Rightarrow> u8 list" where
  "req_lseek fd off whence = wire ''oiLi'' ([Int_arg RFS_OP_LSEEK, Int_arg fd, Int_arg off, Int_arg whence])"

lemma req_lseek_ok:
  shows "rpc_encode ''oiLi'' ([Int_arg RFS_OP_LSEEK, Int_arg fd, Int_arg off, Int_arg whence]) \<noteq> None" "length (req_lseek fd off whence) = 33"
    "eluarpc_get_packet_size (req_lseek fd off whence @ suf) = Some (False, of_nat (33))"
    "remotefs_lseek_read_request (req_lseek fd off whence @ suf) = Some (False, (fd, off, whence))"
    "eluarpc_get_request_id (req_lseek fd off whence @ suf) = Some (False, 5)"
proof -
  show e: "rpc_encode ''oiLi'' ([Int_arg RFS_OP_LSEEK, Int_arg fd, Int_arg off, Int_arg whence]) \<noteq> None"
    by (simp add: cstr_args_def)
  show l: "length (req_lseek fd off whence) = 33"
    by (simp add: req_lseek_def wire_def cstr_args_def)
  show "eluarpc_get_packet_size (req_lseek fd off whence @ suf) = Some (False, of_nat (33))"
    unfolding l [symmetric] req_lseek_def by (rule packet_size_wire)
  show "remotefs_lseek_read_request (req_lseek fd off whence @ suf) = Some (False, (fd, off, whence))"
    using gen_read_wire [OF e, of suf]
    by (simp add: remotefs_lseek_read_request_def req_lseek_def cstr_args_def)
  show "eluarpc_get_request_id (req_lseek fd off whence @ suf) = Some (False, 5)"
    using request_id_wire [OF e, of suf] by (simp add: req_lseek_def)
qed

lemma req_lseek_write:
  assumes "length (req_lseek fd off whence) \<le> length b"
  shows "remotefs_lseek_write_request b fd off whence = Some (req_lseek fd off whence @ drop (length (req_lseek fd off whence)) b)"
  using gen_write_wire [OF req_lseek_ok(1), where b = b] assms(1)
  by (simp add: remotefs_lseek_write_request_def req_lseek_def)

definition res_lseek :: "u32 \<Rightarrow> u8 list" where
  "res_lseek r = wire ''rL'' ([Int_arg RFS_OP_LSEEK, Int_arg r])"

lemma res_lseek_ok:
  shows "rpc_encode ''rL'' ([Int_arg RFS_OP_LSEEK, Int_arg r]) \<noteq> None" "length (res_lseek r) = 22"
    "eluarpc_get_packet_size (res_lseek r @ suf) = Some (False, of_nat (22))"
    "remotefs_lseek_read_response (res_lseek r @ suf) = Some (False, r)"
proof -
  show e: "rpc_encode ''rL'' ([Int_arg RFS_OP_LSEEK, Int_arg r]) \<noteq> None"
    by (simp add: cstr_args_def)
  show l: "length (res_lseek r) = 22"
    by (simp add: res_lseek_def wire_def cstr_args_def)
  show "eluarpc_get_packet_size (res_lseek r @ suf) = Some (False, of_nat (22))"
    unfolding l [symmetric] res_lseek_def by (rule packet_size_wire)
  show "remotefs_lseek_read_response (res_lseek r @ suf) = Some (False, r)"
    using gen_read_wire [OF e, of suf]
    by (simp add: remotefs_lseek_read_response_def res_lseek_def cstr_args_def)
qed

lemma res_lseek_write:
  assumes "length (res_lseek r) \<le> length b"
  shows "remotefs_lseek_write_response b r = Some (res_lseek r @ drop (length (res_lseek r)) b)"
  using gen_write_wire [OF res_lseek_ok(1), where b = b] assms(1)
  by (simp add: remotefs_lseek_write_response_def res_lseek_def)

definition req_opendir :: "u8 list \<Rightarrow> u8 list" where
  "req_opendir path = wire ''op'' (Int_arg RFS_OP_OPENDIR # cstr_args path)"

lemma req_opendir_ok:
  assumes "length path + 1 < 2 ^ 32"
  shows "rpc_encode ''op'' (Int_arg RFS_OP_OPENDIR # cstr_args path) \<noteq> None" "length (req_opendir path) = length path + 25"
    "eluarpc_get_packet_size (req_opendir path @ suf) = Some (False, of_nat (length path + 25))"
    "remotefs_opendir_read_request (req_opendir path @ suf) = Some (False, Some 18)"
    "eluarpc_get_request_id (req_opendir path @ suf) = Some (False, 6)"
proof -
  show e: "rpc_encode ''op'' (Int_arg RFS_OP_OPENDIR # cstr_args path) \<noteq> None"
    using u32_len [OF assms] by (simp add: cstr_args_def)
  show l: "length (req_opendir path) = length path + 25"
    using u32_len [OF assms] by (simp add: req_opendir_def wire_def cstr_args_def)
  show "eluarpc_get_packet_size (req_opendir path @ suf) = Some (False, of_nat (length path + 25))"
    unfolding l [symmetric] req_opendir_def by (rule packet_size_wire)
  show "remotefs_opendir_read_request (req_opendir path @ suf) = Some (False, Some 18)"
    using gen_read_wire [OF e, of suf] u32_len [OF assms]
    by (simp add: remotefs_opendir_read_request_def req_opendir_def cstr_args_def)
  show "eluarpc_get_request_id (req_opendir path @ suf) = Some (False, 6)"
    using request_id_wire [OF e, of suf] by (simp add: req_opendir_def)
qed

lemma req_opendir_write:
  assumes "length (req_opendir path) \<le> length b" and "length path + 1 < 2 ^ 32"
  shows "remotefs_opendir_write_request b path = Some (req_opendir path @ drop (length (req_opendir path)) b)"
  using gen_write_wire [OF req_opendir_ok(1) [OF assms(2)], where b = b] assms(1)
  by (simp add: remotefs_opendir_write_request_def req_opendir_def)

definition res_opendir :: "u32 \<Rightarrow> u8 list" where
  "res_opendir r = wire ''rl'' ([Int_arg RFS_OP_OPENDIR, Int_arg r])"

lemma res_opendir_ok:
  shows "rpc_encode ''rl'' ([Int_arg RFS_OP_OPENDIR, Int_arg r]) \<noteq> None" "length (res_opendir r) = 22"
    "eluarpc_get_packet_size (res_opendir r @ suf) = Some (False, of_nat (22))"
    "remotefs_opendir_read_response (res_opendir r @ suf) = Some (False, r)"
proof -
  show e: "rpc_encode ''rl'' ([Int_arg RFS_OP_OPENDIR, Int_arg r]) \<noteq> None"
    by (simp add: cstr_args_def)
  show l: "length (res_opendir r) = 22"
    by (simp add: res_opendir_def wire_def cstr_args_def)
  show "eluarpc_get_packet_size (res_opendir r @ suf) = Some (False, of_nat (22))"
    unfolding l [symmetric] res_opendir_def by (rule packet_size_wire)
  show "remotefs_opendir_read_response (res_opendir r @ suf) = Some (False, r)"
    using gen_read_wire [OF e, of suf]
    by (simp add: remotefs_opendir_read_response_def res_opendir_def cstr_args_def)
qed

lemma res_opendir_write:
  assumes "length (res_opendir r) \<le> length b"
  shows "remotefs_opendir_write_response b r = Some (res_opendir r @ drop (length (res_opendir r)) b)"
  using gen_write_wire [OF res_opendir_ok(1), where b = b] assms(1)
  by (simp add: remotefs_opendir_write_response_def res_opendir_def)

definition req_readdir :: "u32 \<Rightarrow> u8 list" where
  "req_readdir d = wire ''ol'' ([Int_arg RFS_OP_READDIR, Int_arg d])"

lemma req_readdir_ok:
  shows "rpc_encode ''ol'' ([Int_arg RFS_OP_READDIR, Int_arg d]) \<noteq> None" "length (req_readdir d) = 23"
    "eluarpc_get_packet_size (req_readdir d @ suf) = Some (False, of_nat (23))"
    "remotefs_readdir_read_request (req_readdir d @ suf) = Some (False, d)"
    "eluarpc_get_request_id (req_readdir d @ suf) = Some (False, 7)"
proof -
  show e: "rpc_encode ''ol'' ([Int_arg RFS_OP_READDIR, Int_arg d]) \<noteq> None"
    by (simp add: cstr_args_def)
  show l: "length (req_readdir d) = 23"
    by (simp add: req_readdir_def wire_def cstr_args_def)
  show "eluarpc_get_packet_size (req_readdir d @ suf) = Some (False, of_nat (23))"
    unfolding l [symmetric] req_readdir_def by (rule packet_size_wire)
  show "remotefs_readdir_read_request (req_readdir d @ suf) = Some (False, d)"
    using gen_read_wire [OF e, of suf]
    by (simp add: remotefs_readdir_read_request_def req_readdir_def cstr_args_def)
  show "eluarpc_get_request_id (req_readdir d @ suf) = Some (False, 7)"
    using request_id_wire [OF e, of suf] by (simp add: req_readdir_def)
qed

lemma req_readdir_write:
  assumes "length (req_readdir d) \<le> length b"
  shows "remotefs_readdir_write_request b d = Some (req_readdir d @ drop (length (req_readdir d)) b)"
  using gen_write_wire [OF req_readdir_ok(1), where b = b] assms(1)
  by (simp add: remotefs_readdir_write_request_def req_readdir_def)

definition res_readdir :: "u8 list \<Rightarrow> u32 \<Rightarrow> u32 \<Rightarrow> u8 list" where
  "res_readdir path fsize ftime = wire ''rpll'' (Int_arg RFS_OP_READDIR # cstr_args path @ [Int_arg fsize, Int_arg ftime])"

lemma res_readdir_ok:
  assumes "length path + 1 < 2 ^ 32"
  shows "rpc_encode ''rpll'' (Int_arg RFS_OP_READDIR # cstr_args path @ [Int_arg fsize, Int_arg ftime]) \<noteq> None" "length (res_readdir path fsize ftime) = length path + 34"
    "eluarpc_get_packet_size (res_readdir path fsize ftime @ suf) = Some (False, of_nat (length path + 34))"
    "remotefs_readdir_read_response (res_readdir path fsize ftime @ suf) = Some (False, (Some 17, fsize, ftime))"
proof -
  show e: "rpc_encode ''rpll'' (Int_arg RFS_OP_READDIR # cstr_args path @ [Int_arg fsize, Int_arg ftime]) \<noteq> None"
    using u32_len [OF assms] by (simp add: cstr_args_def)
  show l: "length (res_readdir path fsize ftime) = length path + 34"
    using u32_len [OF assms] by (simp add: res_readdir_def wire_def cstr_args_def)
  show "eluarpc_get_packet_size (res_readdir path fsize ftime @ suf) = Some (False, of_nat (length path + 34))"
    unfolding l [symmetric] res_readdir_def by (rule packet_size_wire)
  show "remotefs_readdir_read_response (res_readdir path fsize ftime @ suf) = Some (False, (Some 17, fsize, ftime))"
    using gen_read_wire [OF e, of suf] u32_len [OF assms]
    by (simp add: remotefs_readdir_read_response_def res_readdir_def cstr_args_def)
qed

lemma res_readdir_write:
  assumes "length (res_readdir path fsize ftime) \<le> length b" and "length path + 1 < 2 ^ 32"
  shows "remotefs_readdir_write_response b (Some path) fsize ftime = Some (res_readdir path fsize ftime @ drop (length (res_readdir path fsize ftime)) b)"
  using gen_write_wire [OF res_readdir_ok(1) [OF assms(2)], where b = b] assms(1)
  by (simp add: remotefs_readdir_write_response_def res_readdir_def)

definition req_closedir :: "u32 \<Rightarrow> u8 list" where
  "req_closedir d = wire ''ol'' ([Int_arg RFS_OP_CLOSEDIR, Int_arg d])"

lemma req_closedir_ok:
  shows "rpc_encode ''ol'' ([Int_arg RFS_OP_CLOSEDIR, Int_arg d]) \<noteq> None" "length (req_closedir d) = 23"
    "eluarpc_get_packet_size (req_closedir d @ suf) = Some (False, of_nat (23))"
    "remotefs_closedir_read_request (req_closedir d @ suf) = Some (False, d)"
    "eluarpc_get_request_id (req_closedir d @ suf) = Some (False, 8)"
proof -
  show e: "rpc_encode ''ol'' ([Int_arg RFS_OP_CLOSEDIR, Int_arg d]) \<noteq> None"
    by (simp add: cstr_args_def)
  show l: "length (req_closedir d) = 23"
    by (simp add: req_closedir_def wire_def cstr_args_def)
  show "eluarpc_get_packet_size (req_closedir d @ suf) = Some (False, of_nat (23))"
    unfolding l [symmetric] req_closedir_def by (rule packet_size_wire)
  show "remotefs_closedir_read_request (req_closedir d @ suf) = Some (False, d)"
    using gen_read_wire [OF e, of suf]
    by (simp add: remotefs_closedir_read_request_def req_closedir_def cstr_args_def)
  show "eluarpc_get_request_id (req_closedir d @ suf) = Some (False, 8)"
    using request_id_wire [OF e, of suf] by (simp add: req_closedir_def)
qed

lemma req_closedir_write:
  assumes "length (req_closedir d) \<le> length b"
  shows "remotefs_closedir_write_request b d = Some (req_closedir d @ drop (length (req_closedir d)) b)"
  using gen_write_wire [OF req_closedir_ok(1), where b = b] assms(1)
  by (simp add: remotefs_closedir_write_request_def req_closedir_def)

definition res_closedir :: "u32 \<Rightarrow> u8 list" where
  "res_closedir r = wire ''ri'' ([Int_arg RFS_OP_CLOSEDIR, Int_arg r])"

lemma res_closedir_ok:
  shows "rpc_encode ''ri'' ([Int_arg RFS_OP_CLOSEDIR, Int_arg r]) \<noteq> None" "length (res_closedir r) = 22"
    "eluarpc_get_packet_size (res_closedir r @ suf) = Some (False, of_nat (22))"
    "remotefs_closedir_read_response (res_closedir r @ suf) = Some (False, r)"
proof -
  show e: "rpc_encode ''ri'' ([Int_arg RFS_OP_CLOSEDIR, Int_arg r]) \<noteq> None"
    by (simp add: cstr_args_def)
  show l: "length (res_closedir r) = 22"
    by (simp add: res_closedir_def wire_def cstr_args_def)
  show "eluarpc_get_packet_size (res_closedir r @ suf) = Some (False, of_nat (22))"
    unfolding l [symmetric] res_closedir_def by (rule packet_size_wire)
  show "remotefs_closedir_read_response (res_closedir r @ suf) = Some (False, r)"
    using gen_read_wire [OF e, of suf]
    by (simp add: remotefs_closedir_read_response_def res_closedir_def cstr_args_def)
qed

lemma res_closedir_write:
  assumes "length (res_closedir r) \<le> length b"
  shows "remotefs_closedir_write_response b r = Some (res_closedir r @ drop (length (res_closedir r)) b)"
  using gen_write_wire [OF res_closedir_ok(1), where b = b] assms(1)
  by (simp add: remotefs_closedir_write_response_def res_closedir_def)

text \<open>The response to a read is built around the data, which is in the packet already; an entry that
  does not exist has a NULL name.\<close>

lemma res_read_write:
  assumes "23 + length data \<le> length b" and "length data < 2 ^ 32" and "take (length data) (drop 17 b) = data"
  shows "remotefs_read_write_response b (of_nat (length data)) = Some (res_read data @ drop (length data + 23) b)"
proof -
  have "remotefs_read_write_response b (of_nat (length data)) =
      eluarpc_gen_write b ''rp'' [Int_arg RFS_OP_READ, Ptr_arg (Some data), Int_arg (of_nat (length data))]"
    using gen_write_in_place [of "of_nat (length data)" b "[]"] assms u32_len [OF assms(2)]
    by (simp add: remotefs_read_write_response_def)
  then show ?thesis
    using gen_write_wire [OF res_read_ok(1) [OF assms(2)], where b = b] res_read_ok(2) [OF assms(2)] assms(1)
    by (simp add: res_read_def)
qed

definition res_readdir_none :: "u32 \<Rightarrow> u32 \<Rightarrow> u8 list" where
  "res_readdir_none fsize ftime =
     wire ''rpll'' [Int_arg RFS_OP_READDIR, Ptr_arg (Some []), Int_arg 0, Int_arg fsize, Int_arg ftime]"

lemma res_readdir_none_ok:
  "length (res_readdir_none fsize ftime) = 33"
  "eluarpc_get_packet_size (res_readdir_none fsize ftime @ suf) = Some (False, 33)"
  "remotefs_readdir_read_response (res_readdir_none fsize ftime @ suf) = Some (False, None, fsize, ftime)"
proof -
  let ?args = "[Int_arg RFS_OP_READDIR, Ptr_arg (Some []), Int_arg 0, Int_arg fsize, Int_arg ftime]"
  have e: "rpc_encode ''rpll'' ?args \<noteq> None" by simp
  show l: "length (res_readdir_none fsize ftime) = 33" by (simp add: res_readdir_none_def wire_def)
  show "eluarpc_get_packet_size (res_readdir_none fsize ftime @ suf) = Some (False, 33)"
    using packet_size_wire [of "''rpll''" ?args suf] l by (simp add: res_readdir_none_def)
  show "remotefs_readdir_read_response (res_readdir_none fsize ftime @ suf) = Some (False, None, fsize, ftime)"
    using gen_read_wire [OF e, of suf] by (simp add: remotefs_readdir_read_response_def res_readdir_none_def)
qed

lemma res_readdir_none_write:
  assumes "33 \<le> length b"
  shows "remotefs_readdir_write_response b None fsize ftime =
    Some (res_readdir_none fsize ftime @ drop 33 b)"
proof -
  let ?args = "[Int_arg RFS_OP_READDIR, Ptr_arg (Some []), Int_arg 0, Int_arg fsize, Int_arg ftime]"
  have e: "rpc_encode ''rpll'' ?args \<noteq> None" by simp
  have "remotefs_readdir_write_response b None fsize ftime = eluarpc_gen_write b ''rpll'' ?args"
    using gen_write_in_place [of 0 b "''ll''"] assms by (simp add: remotefs_readdir_write_response_def)
  then show ?thesis
    using gen_write_wire [OF e, where b = b] res_readdir_none_ok(1) [of fsize ftime] assms
    by (simp add: res_readdir_none_def)
qed

text \<open>A block longer than what is written from it.\<close>

lemma write_request_prefix:
  assumes "unat n \<le> length data"
  shows "remotefs_write_write_request b fd data n = remotefs_write_write_request b fd (take (unat n) data) n"
proof -
  have "store_ptr (Some data) (unat n) c = store_ptr (Some (take (unat n) data)) (unat n) c" for c
    using assms by (cases c) (simp add: store_ptr_def fetch_def min_def)
  then show ?thesis
    by (simp add: remotefs_write_write_request_def eluarpc_gen_write_def eluarpc_write_ptr_def)
qed

text \<open>Where the strings and blocks of the messages are.\<close>

lemma rpc_packet_drop:
  assumes "length pre + 10 = p" and "e = pre @ e'"
  shows "drop p (rpc_packet e @ suf) = e' @ TYPE_END # enc_u32 (NOT PACKET_SIG) @ suf"
proof -
  define h where "h = TYPE_PKT_SIZE # enc_u16 (of_nat (length e + 16)) @ TYPE_START # enc_u32 PACKET_SIG @ pre"
  have "rpc_packet e @ suf = h @ e' @ TYPE_END # enc_u32 (NOT PACKET_SIG) @ suf"
    by (simp add: rpc_packet_def assms(2) h_def)
  moreover have "length h = p" using assms(1) by (simp add: h_def)
  ultimately show ?thesis by simp
qed

lemma takeWhile_cstring: "0 \<notin> set (s :: u8 list) \<Longrightarrow> takeWhile (\<lambda>x. x \<noteq> 0) (s @ 0 # suf) = s"
  by (simp add: takeWhile_append1 takeWhile_append)

lemma req_open_string:
  assumes "length path + 1 < 2 ^ 32" and "0 \<notin> set path"
  shows "cstring_at (req_open path flags mode @ suf) 18 = Some path"
proof -
  have "drop 18 (req_open path flags mode @ suf) = path @ 0 # enc_u32 flags @ enc_u32 mode @ TYPE_END # enc_u32 (NOT PACKET_SIG) @ suf"
    unfolding req_open_def wire_def
    by (subst rpc_packet_drop [where pre = "TYPE_OP_ID # 1 # TYPE_PTR # enc_u32 (of_nat (length path + 1))"])
      (use u32_len [OF assms(1)] in \<open>simp_all add: cstr_args_def\<close>)
  then show ?thesis using assms(2) by (simp add: cstring_at_def takeWhile_cstring)
qed

lemma req_opendir_string:
  assumes "length path + 1 < 2 ^ 32" and "0 \<notin> set path"
  shows "cstring_at (req_opendir path @ suf) 18 = Some path"
proof -
  have "drop 18 (req_opendir path @ suf) = path @ 0 # TYPE_END # enc_u32 (NOT PACKET_SIG) @ suf"
    unfolding req_opendir_def wire_def
    by (subst rpc_packet_drop [where pre = "TYPE_OP_ID # 6 # TYPE_PTR # enc_u32 (of_nat (length path + 1))"])
      (use u32_len [OF assms(1)] in \<open>simp_all add: cstr_args_def\<close>)
  then show ?thesis using assms(2) by (simp add: cstring_at_def takeWhile_cstring)
qed

lemma res_readdir_string:
  assumes "length path + 1 < 2 ^ 32" and "0 \<notin> set path"
  shows "cstring_at (res_readdir path fsize ftime @ suf) 17 = Some path"
proof -
  have "drop 17 (res_readdir path fsize ftime @ suf) = path @ 0 # enc_u32 fsize @ enc_u32 ftime @ TYPE_END # enc_u32 (NOT PACKET_SIG) @ suf"
    unfolding res_readdir_def wire_def
    by (subst rpc_packet_drop [where pre = "0x87 # TYPE_PTR # enc_u32 (of_nat (length path + 1))"])
      (use u32_len [OF assms(1)] in \<open>simp_all add: cstr_args_def\<close>)
  then show ?thesis using assms(2) by (simp add: cstring_at_def takeWhile_cstring)
qed

lemma req_write_data:
  assumes "length data < 2 ^ 32"
  shows "fetch (req_write fd data @ suf) 23 (length data) = Some data"
proof -
  have "drop 23 (req_write fd data @ suf) = data @ TYPE_END # enc_u32 (NOT PACKET_SIG) @ suf"
    unfolding req_write_def wire_def
    by (subst rpc_packet_drop [where pre = "TYPE_OP_ID # 2 # enc_u32 fd @ TYPE_PTR # enc_u32 (of_nat (length data))"])
      (use u32_len [OF assms(1)] in simp_all)
  then show ?thesis using req_write_ok(2) [OF assms, of fd] by (simp add: fetch_def)
qed

lemma res_read_data:
  assumes "length data < 2 ^ 32"
  shows "fetch (res_read data @ suf) 17 (length data) = Some data"
proof -
  have "drop 17 (res_read data @ suf) = data @ TYPE_END # enc_u32 (NOT PACKET_SIG) @ suf"
    unfolding res_read_def wire_def
    by (subst rpc_packet_drop [where pre = "0x83 # TYPE_PTR # enc_u32 (of_nat (length data))"])
      (use u32_len [OF assms(1)] in simp_all)
  then show ?thesis using res_read_ok(2) [OF assms] by (simp add: fetch_def)
qed

section \<open>Properties\<close>

text \<open>The flags of a C library: single bits or groups of bits that do not overlap; opening for reading
  only is the absence of the others.\<close>

fun disjoint_flags :: "u32 list \<Rightarrow> bool" where
  "disjoint_flags [] = True"
| "disjoint_flags (x # xs) \<longleftrightarrow> x \<noteq> 0 \<and> (\<forall>y \<in> set xs. x AND y = 0 \<and> y AND x = 0) \<and> disjoint_flags xs"

definition libc_ok :: "libc_flags \<Rightarrow> bool" where
  "libc_ok lib \<longleftrightarrow> O_RDONLY lib = 0
     \<and> disjoint_flags [O_APPEND lib, O_CREAT lib, O_EXCL lib, O_TRUNC lib, O_SYNC lib, O_WRONLY lib, O_RDWR lib]
     \<and> SEEK_SET lib \<noteq> SEEK_CUR lib \<and> SEEK_SET lib \<noteq> SEEK_END lib \<and> SEEK_CUR lib \<noteq> SEEK_END lib"

lemma replace_flag_bit:
  "bit (eluarpc_replace_flag v a (2 ^ k)) n \<longleftrightarrow> v AND a \<noteq> 0 \<and> n = k \<and> k < 32"
  by (auto simp: eluarpc_replace_flag_def u32_single_bit)

lemma rfs_flag_bits:
  assumes "fl = os_open_sys_flags_to_rfs_flags lib v"
  shows "bit fl 0 \<longleftrightarrow> v AND O_APPEND lib \<noteq> 0" "bit fl 1 \<longleftrightarrow> v AND O_CREAT lib \<noteq> 0"
    "bit fl 2 \<longleftrightarrow> v AND O_EXCL lib \<noteq> 0" "bit fl 3 \<longleftrightarrow> v AND O_TRUNC lib \<noteq> 0"
    "bit fl 4 \<longleftrightarrow> v AND O_SYNC lib \<noteq> 0" "bit fl 5 \<longleftrightarrow> v AND O_RDONLY lib \<noteq> 0"
    "bit fl 6 \<longleftrightarrow> v AND O_WRONLY lib \<noteq> 0" "bit fl 7 \<longleftrightarrow> v AND O_RDWR lib \<noteq> 0"
proof -
  have fl: "fl = eluarpc_replace_flag v (O_APPEND lib) (2 ^ 0) OR eluarpc_replace_flag v (O_CREAT lib) (2 ^ 1) OR
     eluarpc_replace_flag v (O_EXCL lib) (2 ^ 2) OR eluarpc_replace_flag v (O_TRUNC lib) (2 ^ 3) OR
     eluarpc_replace_flag v (O_SYNC lib) (2 ^ 4) OR eluarpc_replace_flag v (O_RDONLY lib) (2 ^ 5) OR
     eluarpc_replace_flag v (O_WRONLY lib) (2 ^ 6) OR eluarpc_replace_flag v (O_RDWR lib) (2 ^ 7)"
    by (simp add: assms os_open_sys_flags_to_rfs_flags_def)
  show "bit fl 0 \<longleftrightarrow> v AND O_APPEND lib \<noteq> 0" "bit fl 1 \<longleftrightarrow> v AND O_CREAT lib \<noteq> 0"
    "bit fl 2 \<longleftrightarrow> v AND O_EXCL lib \<noteq> 0" "bit fl 3 \<longleftrightarrow> v AND O_TRUNC lib \<noteq> 0"
    "bit fl 4 \<longleftrightarrow> v AND O_SYNC lib \<noteq> 0" "bit fl 5 \<longleftrightarrow> v AND O_RDONLY lib \<noteq> 0"
    "bit fl 6 \<longleftrightarrow> v AND O_WRONLY lib \<noteq> 0" "bit fl 7 \<longleftrightarrow> v AND O_RDWR lib \<noteq> 0"
    unfolding fl by (simp_all only: bit_or_iff replace_flag_bit) simp_all
qed

text \<open>Open flags and seek modes survive the translation from the board's C library to the wire and
  from there to the PC's: each flag is set on the PC exactly when it was set on the board,
  whatever the values the two libraries give to them, and a seek mode becomes the same seek mode.\<close>

theorem rfs_flags_translation:
  assumes board: "libc_ok board" and pc: "libc_ok pc"
    and v: "w = os_open_realflags pc (os_open_sys_flags_to_rfs_flags board v)"
  shows "(w AND O_APPEND pc \<noteq> 0 \<longleftrightarrow> v AND O_APPEND board \<noteq> 0) \<and> (w AND O_CREAT pc \<noteq> 0 \<longleftrightarrow> v AND O_CREAT board \<noteq> 0)
    \<and> (w AND O_EXCL pc \<noteq> 0 \<longleftrightarrow> v AND O_EXCL board \<noteq> 0) \<and> (w AND O_TRUNC pc \<noteq> 0 \<longleftrightarrow> v AND O_TRUNC board \<noteq> 0)
    \<and> (w AND O_SYNC pc \<noteq> 0 \<longleftrightarrow> v AND O_SYNC board \<noteq> 0) \<and> (w AND O_WRONLY pc \<noteq> 0 \<longleftrightarrow> v AND O_WRONLY board \<noteq> 0)
    \<and> (w AND O_RDWR pc \<noteq> 0 \<longleftrightarrow> v AND O_RDWR board \<noteq> 0)
    \<and> os_lseek_realwhence pc (os_lseek_sys_whence_to_rfs_whence board (SEEK_SET board)) = Some (SEEK_SET pc)
    \<and> os_lseek_realwhence pc (os_lseek_sys_whence_to_rfs_whence board (SEEK_CUR board)) = Some (SEEK_CUR pc)
    \<and> os_lseek_realwhence pc (os_lseek_sys_whence_to_rfs_whence board (SEEK_END board)) = Some (SEEK_END pc)"
proof -
  define fl where "fl = os_open_sys_flags_to_rfs_flags board v"
  note b = rfs_flag_bits [OF fl_def]
  have m: "(fl AND 1 \<noteq> 0) = bit fl 0" "(fl AND 2 \<noteq> 0) = bit fl 1" "(fl AND 4 \<noteq> 0) = bit fl 2"
    "(fl AND 8 \<noteq> 0) = bit fl 3" "(fl AND 0x10 \<noteq> 0) = bit fl 4" "(fl AND 0x20 \<noteq> 0) = bit fl 5"
    "(fl AND 0x40 \<noteq> 0) = bit fl 6" "(fl AND 0x80 \<noteq> 0) = bit fl 7"
    using and_single_bit [of fl 0] and_single_bit [of fl 1] and_single_bit [of fl 2] and_single_bit [of fl 3]
      and_single_bit [of fl 4] and_single_bit [of fl 5] and_single_bit [of fl 6] and_single_bit [of fl 7]
    by simp_all
  have w: "w = (if v AND O_APPEND board \<noteq> 0 then O_APPEND pc else 0) OR (if v AND O_CREAT board \<noteq> 0 then O_CREAT pc else 0) OR
     (if v AND O_EXCL board \<noteq> 0 then O_EXCL pc else 0) OR (if v AND O_TRUNC board \<noteq> 0 then O_TRUNC pc else 0) OR
     (if v AND O_SYNC board \<noteq> 0 then O_SYNC pc else 0) OR
     (if v AND O_WRONLY board \<noteq> 0 then O_WRONLY pc else 0) OR (if v AND O_RDWR board \<noteq> 0 then O_RDWR pc else 0)"
    using board unfolding v fl_def [symmetric] os_open_realflags_def eluarpc_replace_flag_def m b libc_ok_def by simp
  have dist: "(x OR y) AND z = (x AND z) OR (y AND z)" for x y z :: u32 by (simp add: bit.conj_disj_distrib2)
  have ifd: "(if P then x else 0) AND z = (if P then x AND z else 0)" for P and x z :: u32 by simp
  have d: "disjoint_flags [O_APPEND pc, O_CREAT pc, O_EXCL pc, O_TRUNC pc, O_SYNC pc, O_WRONLY pc, O_RDWR pc]"
    using pc by (simp add: libc_ok_def)
  have "(w AND O_APPEND pc \<noteq> 0 \<longleftrightarrow> v AND O_APPEND board \<noteq> 0) \<and> (w AND O_CREAT pc \<noteq> 0 \<longleftrightarrow> v AND O_CREAT board \<noteq> 0)
    \<and> (w AND O_EXCL pc \<noteq> 0 \<longleftrightarrow> v AND O_EXCL board \<noteq> 0) \<and> (w AND O_TRUNC pc \<noteq> 0 \<longleftrightarrow> v AND O_TRUNC board \<noteq> 0)
    \<and> (w AND O_SYNC pc \<noteq> 0 \<longleftrightarrow> v AND O_SYNC board \<noteq> 0) \<and> (w AND O_WRONLY pc \<noteq> 0 \<longleftrightarrow> v AND O_WRONLY board \<noteq> 0)
    \<and> (w AND O_RDWR pc \<noteq> 0 \<longleftrightarrow> v AND O_RDWR board \<noteq> 0)"
    unfolding w dist ifd using d by simp
  moreover have "SEEK_SET board \<noteq> SEEK_CUR board" "SEEK_CUR board \<noteq> SEEK_SET board"
    "SEEK_END board \<noteq> SEEK_SET board" "SEEK_END board \<noteq> SEEK_CUR board"
    using board unfolding libc_ok_def by auto
  ultimately show ?thesis
    by (simp add: os_lseek_realwhence_def os_lseek_sys_whence_to_rfs_whence_def)
qed

text \<open>The values of the C library of the boards (newlib) and of Linux.\<close>

definition newlib_flags :: libc_flags where
  "newlib_flags = \<lparr>O_APPEND = 0x8, O_CREAT = 0x200, O_EXCL = 0x800, O_TRUNC = 0x400, O_SYNC = 0x2000,
     O_RDONLY = 0, O_WRONLY = 1, O_RDWR = 2, SEEK_SET = 0, SEEK_CUR = 1, SEEK_END = 2\<rparr>"

definition linux_flags :: libc_flags where
  "linux_flags = \<lparr>O_APPEND = 0x400, O_CREAT = 0x40, O_EXCL = 0x80, O_TRUNC = 0x200, O_SYNC = 0x101000,
     O_RDONLY = 0, O_WRONLY = 1, O_RDWR = 2, SEEK_SET = 0, SEEK_CUR = 1, SEEK_END = 2\<rparr>"

lemma libc_flags_ok: "libc_ok newlib_flags" "libc_ok linux_flags"
  by (simp_all add: libc_ok_def newlib_flags_def linux_flags_def)

theorem rfs_flags_translation_witness:
  "os_open_realflags linux_flags (os_open_sys_flags_to_rfs_flags newlib_flags 0x201) AND O_CREAT linux_flags \<noteq> 0"
  using rfs_flags_translation [OF libc_flags_ok refl, of "0x201"] by (simp add: newlib_flags_def)

end
