(* ===== verification/Rfs_Server.thy ===== *)
theory Rfs_Server
  imports Remotefs
begin

text \<open>
  The remote file system server on the PC: the request handlers of \<^verbatim>\<open>rfs_server_src/server.c\<close>, the
  operating system adapter \<^verbatim>\<open>rfs_server_src/os_io_posix.c\<close>, and the memory transport of
  \<^verbatim>\<open>rfs_server_src/rfs_transports.c\<close> through which the multiplexer feeds it. The POSIX calls are
  parameters (a record of functions on a state of the operating system). A handler works on the
  packet buffer: it returns whether it succeeded, the buffer with the response, and the new state
  of the system, or \<^const>\<open>None\<close> when it touches memory outside a block. The lemmas say for each request
  what the server answers.
\<close>

record 'w posix =
  px_open :: "u8 list \<Rightarrow> u32 \<Rightarrow> 'w \<Rightarrow> u32 \<times> 'w"
  px_write :: "u32 \<Rightarrow> u8 list \<Rightarrow> 'w \<Rightarrow> u32 \<times> 'w"
  px_read :: "u32 \<Rightarrow> u32 \<Rightarrow> 'w \<Rightarrow> (u32 \<times> u8 list) \<times> 'w"
  px_close :: "u32 \<Rightarrow> 'w \<Rightarrow> u32 \<times> 'w"
  px_lseek :: "u32 \<Rightarrow> u32 \<Rightarrow> u32 \<Rightarrow> 'w \<Rightarrow> u32 \<times> 'w"
  px_opendir :: "u8 list \<Rightarrow> 'w \<Rightarrow> u32 \<times> 'w"
  px_readdir :: "u32 \<Rightarrow> 'w \<Rightarrow> (u8 list \<times> bool) option \<times> 'w"
  px_closedir :: "u32 \<Rightarrow> 'w \<Rightarrow> u32 \<times> 'w"

text \<open>The result -1 as the 32 bits of an \<^verbatim>\<open>int\<close>.\<close>

abbreviation "MINUS_1 \<equiv> (0xFFFFFFFF :: u32)"

section \<open>The operating system adapter\<close>

definition os_open :: "libc_flags \<Rightarrow> 'w posix \<Rightarrow> u8 list \<Rightarrow> u32 \<Rightarrow> 'w \<Rightarrow> u32 \<times> 'w" where
  "os_open lib px pathname flags w = px_open px pathname (os_open_realflags lib flags) w"

definition os_lseek :: "libc_flags \<Rightarrow> 'w posix \<Rightarrow> u32 \<Rightarrow> u32 \<Rightarrow> u32 \<Rightarrow> 'w \<Rightarrow> u32 \<times> 'w" where
  "os_lseek lib px fd offset whence w =
     (case os_lseek_realwhence lib whence of
        None \<Rightarrow> (MINUS_1, w) | Some realwhence \<Rightarrow> px_lseek px fd offset realwhence w)"

abbreviation "RFS_MAX_FNAME_SIZE \<equiv> (31 :: nat)"

text \<open>The loop that skips what is not a regular file ends when the directory does; the name is cut
  to the size of the static buffer.\<close>

partial_function (option) os_readdir :: "'w posix \<Rightarrow> u32 \<Rightarrow> 'w \<Rightarrow> (u8 list option \<times> 'w) option" where
  "os_readdir px d w =
     (case px_readdir px d w of
        (None, w') \<Rightarrow> Some (None, w')
      | (Some (name, reg), w') \<Rightarrow>
          if reg then Some (Some (take RFS_MAX_FNAME_SIZE name), w') else os_readdir px d w')"

section \<open>Request handlers\<close>

abbreviation "PLATFORM_MAX_FNAME_LEN \<equiv> (2048 :: nat)"
abbreviation "PATH_SEPARATOR \<equiv> (0x2F :: u8)"

text \<open>The full name, in an array of \<^verbatim>\<open>PLATFORM_MAX_FNAME_LEN + 1\<close> bytes: \<^verbatim>\<open>strncat\<close> bounds what it
  appends and not the result.\<close>

definition server_path :: "u8 list \<Rightarrow> u8 list \<Rightarrow> u8 list option" where
  "server_path basedir name =
     (let s0 = take PLATFORM_MAX_FNAME_LEN basedir
      in if name = [] then Some s0
         else if s0 = [] then None
         else let s1 = (if last s0 \<noteq> PATH_SEPARATOR then s0 @ [PATH_SEPARATOR] else s0);
                  s2 = s1 @ take PLATFORM_MAX_FNAME_LEN name
              in if length s2 \<le> PLATFORM_MAX_FNAME_LEN then Some s2 else None)"

definition request_string :: "packet_buf \<Rightarrow> nat option \<Rightarrow> u8 list option" where
  "request_string b p = (case p of None \<Rightarrow> Some [] | Some q \<Rightarrow> cstring_at b q)"

type_synonym 'w handler = "packet_buf \<Rightarrow> 'w \<Rightarrow> (bool \<times> packet_buf \<times> 'w) option"

definition server_open :: "libc_flags \<Rightarrow> 'w posix \<Rightarrow> u8 list \<Rightarrow> 'w handler" where
  "server_open lib px basedir b w =
     do { (err, p, flags, mode) \<leftarrow> remotefs_open_read_request b;
          if err then Some (False, b, w)
          else do { filename \<leftarrow> request_string b p;
                    fullname \<leftarrow> server_path basedir filename;
                    let (fd, w') = os_open lib px fullname flags w;
                    b' \<leftarrow> remotefs_open_write_response b fd;
                    Some (True, b', w') } }"

definition server_write :: "'w posix \<Rightarrow> 'w handler" where
  "server_write px b w =
     do { (err, fd, p, cnt) \<leftarrow> remotefs_write_read_request b;
          if err then Some (False, b, w)
          else do { data \<leftarrow> (case p of None \<Rightarrow> Some [] | Some q \<Rightarrow> fetch b q (unat cnt));
                    let (r, w') = px_write px fd data w;
                    b' \<leftarrow> remotefs_write_write_response b r;
                    Some (True, b', w') } }"

definition server_read :: "'w posix \<Rightarrow> 'w handler" where
  "server_read px b w =
     do { (err, fd, cnt) \<leftarrow> remotefs_read_read_request b;
          if err then Some (False, b, w)
          else let ((r, data), w') = px_read px fd cnt w
               in do { b1 \<leftarrow> blit b ELUARPC_READ_BUF_OFFSET data;
                       b' \<leftarrow> remotefs_read_write_response b1 r;
                       Some (True, b', w') } }"

definition server_close :: "'w posix \<Rightarrow> 'w handler" where
  "server_close px b w =
     do { (err, fd) \<leftarrow> remotefs_close_read_request b;
          if err then Some (False, b, w)
          else let (r, w') = px_close px fd w
               in do { b' \<leftarrow> remotefs_close_write_response b r; Some (True, b', w') } }"

definition server_lseek :: "libc_flags \<Rightarrow> 'w posix \<Rightarrow> 'w handler" where
  "server_lseek lib px b w =
     do { (err, fd, offset, whence) \<leftarrow> remotefs_lseek_read_request b;
          if err then Some (False, b, w)
          else let (r, w') = os_lseek lib px fd offset whence w
               in do { b' \<leftarrow> remotefs_lseek_write_response b r; Some (True, b', w') } }"

definition server_opendir :: "'w posix \<Rightarrow> u8 list \<Rightarrow> 'w handler" where
  "server_opendir px basedir b w =
     do { (err, p) \<leftarrow> remotefs_opendir_read_request b;
          if err then Some (False, b, w)
          else do { name \<leftarrow> request_string b p;
                    fullname \<leftarrow> server_path basedir name;
                    let (d, w') = px_opendir px fullname w;
                    b' \<leftarrow> remotefs_opendir_write_response b d;
                    Some (True, b', w') } }"

definition server_readdir :: "libc_flags \<Rightarrow> 'w posix \<Rightarrow> u8 list \<Rightarrow> 'w handler" where
  "server_readdir lib px basedir b w =
     do { (err, d) \<leftarrow> remotefs_readdir_read_request b;
          if err then Some (False, b, w)
          else do { (name, w1) \<leftarrow> os_readdir px d w;
                    (name', fsize, w4) \<leftarrow>
                      (case name of
                         None \<Rightarrow> Some (None, 0, w1)
                       | Some s \<Rightarrow>
                           do { fullname \<leftarrow> server_path basedir s;
                                let (fd, w2) = os_open lib px fullname 0x20 w1;
                                if fd \<noteq> 0
                                then let (fsize, w3) = os_lseek lib px fd 0 3 w2;
                                         (r, w4) = px_close px fd w3
                                     in Some (Some s, fsize, w4)
                                else Some (None, 0, w2) });
                    b' \<leftarrow> remotefs_readdir_write_response b name' fsize 0;
                    Some (True, b', w4) } }"

definition server_closedir :: "'w posix \<Rightarrow> 'w handler" where
  "server_closedir px b w =
     do { (err, d) \<leftarrow> remotefs_closedir_read_request b;
          if err then Some (False, b, w)
          else let (res, w') = px_closedir px d w
               in do { b' \<leftarrow> remotefs_closedir_write_response b d; Some (True, b', w') } }"

definition server_execute_request :: "libc_flags \<Rightarrow> 'w posix \<Rightarrow> u8 list \<Rightarrow> 'w handler" where
  "server_execute_request lib px basedir b w =
     do { (err, req) \<leftarrow> eluarpc_get_request_id b;
          if err then Some (False, b, w)
          else if req = 1 then server_open lib px basedir b w
          else if req = 2 then server_write px b w
          else if req = 3 then server_read px b w
          else if req = 4 then server_close px b w
          else if req = 5 then server_lseek lib px b w
          else if req = 6 then server_opendir px basedir b w
          else if req = 7 then server_readdir lib px basedir b w
          else if req = 8 then server_closedir px b w
          else Some (False, b, w) }"

section \<open>The memory transport\<close>

datatype mem_state = MEM_STATE_READ_LENGTH | MEM_STATE_READ_REQUEST | MEM_STATE_REQUEST_DONE

record rfs_mem =
  mem_read_len :: int
  mem_expected_len :: int
  mem_read_state :: mem_state
  mem_response_flag :: bool
  rfs_buffer :: packet_buf

definition rfs_mem_start_request :: "rfs_mem \<Rightarrow> rfs_mem" where
  "rfs_mem_start_request m =
     m\<lparr>mem_read_state := MEM_STATE_READ_LENGTH, mem_read_len := 0, mem_expected_len := 0,
       mem_response_flag := False\<rparr>"

definition mem_store :: "int \<Rightarrow> int \<Rightarrow> rfs_mem \<Rightarrow> rfs_mem option" where
  "mem_store i c m =
     (if 0 \<le> i then map_option (\<lambda>b. m\<lparr>rfs_buffer := b\<rparr>) (blit (rfs_buffer m) (nat i) [word_of_int c]) else None)"

definition rfs_mem_read_request_packet :: "int \<Rightarrow> rfs_mem \<Rightarrow> (bool \<times> rfs_mem) option" where
  "rfs_mem_read_request_packet c m =
     (if c = -1 then Some (False, rfs_mem_start_request m)
      else case mem_read_state m of
        MEM_STATE_READ_LENGTH \<Rightarrow>
          do { m1 \<leftarrow> mem_store (mem_read_len m) c m;
               let m2 = m1\<lparr>mem_read_len := mem_read_len m1 + 1\<rparr>;
               if mem_read_len m2 = int ELUARPC_START_OFFSET
               then let m3 = m2\<lparr>mem_read_len := 0\<rparr>
                    in do { (err, temp16) \<leftarrow> eluarpc_get_packet_size (rfs_buffer m3);
                            if err then Some (False, m3\<lparr>mem_read_state := MEM_STATE_REQUEST_DONE\<rparr>)
                            else Some (True, m3\<lparr>mem_read_state := MEM_STATE_READ_REQUEST,
                                   mem_expected_len := uint temp16 - int ELUARPC_START_OFFSET\<rparr>) }
               else Some (True, m2) }
      | MEM_STATE_READ_REQUEST \<Rightarrow>
          do { m1 \<leftarrow> mem_store (int ELUARPC_START_OFFSET + mem_read_len m) c m;
               let m2 = m1\<lparr>mem_read_len := mem_read_len m1 + 1\<rparr>;
               if mem_read_len m2 = mem_expected_len m2
               then Some (True, m2\<lparr>mem_read_state := MEM_STATE_REQUEST_DONE, mem_response_flag := True\<rparr>)
               else Some (True, m2) }
      | MEM_STATE_REQUEST_DONE \<Rightarrow> Some (True, m))"

definition rfs_mem_has_response :: "rfs_mem \<Rightarrow> bool" where
  "rfs_mem_has_response m = mem_response_flag m"

text \<open>The response is the first bytes of the buffer.\<close>

definition rfs_mem_write_response ::
  "libc_flags \<Rightarrow> 'w posix \<Rightarrow> u8 list \<Rightarrow> rfs_mem \<Rightarrow> 'w \<Rightarrow> (u8 list \<times> rfs_mem \<times> 'w) option" where
  "rfs_mem_write_response lib px basedir m w =
     do { (ok, b, w') \<leftarrow> server_execute_request lib px basedir (rfs_buffer m) w;
          (err, len) \<leftarrow> eluarpc_get_packet_size b;
          if \<not> err then do { resp \<leftarrow> fetch b 0 (unat len); Some (resp, m\<lparr>rfs_buffer := b\<rparr>, w') }
          else Some ([], m\<lparr>rfs_buffer := b\<rparr>, w') }"

text \<open>What the multiplexer does with a byte for the server (\<^verbatim>\<open>mux_src/main.c\<close>): the bytes of a
  response go to the link.\<close>

definition rfs_feed ::
  "libc_flags \<Rightarrow> 'w posix \<Rightarrow> u8 list \<Rightarrow> u8 \<Rightarrow> rfs_mem \<times> 'w \<Rightarrow> (u8 list \<times> rfs_mem \<times> 'w) option" where
  "rfs_feed lib px basedir c mw = (case mw of (m, w) \<Rightarrow>
     do { (res, m1) \<leftarrow> rfs_mem_read_request_packet (uint c) m;
          if rfs_mem_has_response m1
          then do { (resp, m2, w') \<leftarrow> rfs_mem_write_response lib px basedir m1 w;
                    Some (resp, rfs_mem_start_request m2, w') }
          else Some ([], m1, w) })"

fun rfs_feed_all ::
  "libc_flags \<Rightarrow> 'w posix \<Rightarrow> u8 list \<Rightarrow> u8 list \<Rightarrow> rfs_mem \<times> 'w \<Rightarrow> (u8 list \<times> rfs_mem \<times> 'w) option" where
  "rfs_feed_all lib px basedir [] mw = Some ([], mw)"
| "rfs_feed_all lib px basedir (c # cs) mw =
     do { (r1, mw1) \<leftarrow> rfs_feed lib px basedir c mw;
          (r2, mw2) \<leftarrow> rfs_feed_all lib px basedir cs mw1;
          Some (r1 @ r2, mw2) }"

section \<open>A request through the memory transport\<close>

lemma blit_at: "blit (pre @ x # suf) (length pre) [y] = Some (pre @ y # suf)"
  by (simp add: blit_def)

lemma feed_body:
  assumes "cs \<noteq> []" and "mem_read_state m = MEM_STATE_READ_REQUEST" and "\<not> mem_response_flag m"
    and "mem_read_len m = int n" and "mem_expected_len m = int (n + length cs)"
    and "rfs_buffer m = pre @ old" and "length pre = 4 + n" and "length cs \<le> length old"
  shows "rfs_feed_all lib px basedir cs (m, w) =
    do { (r, m2, w') \<leftarrow> rfs_mem_write_response lib px basedir
           (m\<lparr>rfs_buffer := pre @ cs @ drop (length cs) old, mem_read_len := int (n + length cs),
              mem_read_state := MEM_STATE_REQUEST_DONE, mem_response_flag := True\<rparr>) w;
         Some (r, rfs_mem_start_request m2, w') }"
  using assms
proof (induction cs arbitrary: m n pre old)
  case Nil
  then show ?case by simp
next
  case (Cons c cs)
  obtain x old' where old: "old = x # old'" using Cons.prems(8) by (cases old) auto
  have store: "mem_store (4 + mem_read_len m) (uint c) m = Some (m\<lparr>rfs_buffer := pre @ c # old'\<rparr>)"
    using Cons.prems(4,6,7) blit_at [of pre x old' c] by (simp add: mem_store_def old nat_add_distrib)
  let ?m1 = "m\<lparr>rfs_buffer := pre @ c # old', mem_read_len := int (Suc n)\<rparr>"
  show ?case
  proof (cases "cs = []")
    case True
    then have "rfs_mem_read_request_packet (uint c) m = Some (True, ?m1\<lparr>mem_read_state := MEM_STATE_REQUEST_DONE, mem_response_flag := True\<rparr>)"
      using Cons.prems store by (simp add: rfs_mem_read_request_packet_def)
    then show ?thesis
      using True Cons.prems(4,5) by (simp add: rfs_feed_def rfs_mem_has_response_def old)
  next
    case False
    then have "rfs_mem_read_request_packet (uint c) m = Some (True, ?m1)"
      using Cons.prems store by (simp add: rfs_mem_read_request_packet_def)
    then have "rfs_feed lib px basedir c (m, w) = Some ([], ?m1, w)"
      using Cons.prems(3) by (simp add: rfs_feed_def rfs_mem_has_response_def)
    moreover have "rfs_feed_all lib px basedir cs (?m1, w) =
      do { (r, m2, w') \<leftarrow> rfs_mem_write_response lib px basedir
           (?m1\<lparr>rfs_buffer := (pre @ [c]) @ cs @ drop (length cs) old', mem_read_len := int (Suc n + length cs),
              mem_read_state := MEM_STATE_REQUEST_DONE, mem_response_flag := True\<rparr>) w;
         Some (r, rfs_mem_start_request m2, w') }"
      by (rule Cons.IH) (use False Cons.prems old in simp_all)
    ultimately show ?thesis by (simp add: old)
  qed
qed

text \<open>The server waits for a request.\<close>

definition mem_ready :: "rfs_mem \<Rightarrow> bool" where
  "mem_ready m \<longleftrightarrow> mem_read_state m = MEM_STATE_READ_LENGTH \<and> mem_read_len m = 0 \<and> \<not> mem_response_flag m"

definition mem_done :: "u8 list \<Rightarrow> rfs_mem \<Rightarrow> rfs_mem" where
  "mem_done pkt m = m\<lparr>mem_read_len := int (length pkt) - 4, mem_expected_len := int (length pkt) - 4,
     mem_read_state := MEM_STATE_REQUEST_DONE, mem_response_flag := True,
     rfs_buffer := pkt @ drop (length pkt) (rfs_buffer m)\<rparr>"

lemma packet_size_header: "eluarpc_get_packet_size (TYPE_PKT_SIZE # enc_u16 n @ suf) = Some (False, n)"
  using read_expect_append [of 0 "[]" TYPE_PKT_SIZE "enc_u16 n @ suf" TYPE_PKT_SIZE False]
    read_u16_append [of 1 "[TYPE_PKT_SIZE]" n suf False]
  by (simp add: eluarpc_get_packet_size_def)

lemma feed_header:
  assumes m: "mem_ready m" and h: "h = TYPE_PKT_SIZE # enc_u16 n" and b: "4 \<le> length (rfs_buffer m)"
  shows "rfs_feed_all lib px basedir (h @ cs) (m, w) =
    rfs_feed_all lib px basedir cs (m\<lparr>mem_read_len := 0, mem_read_state := MEM_STATE_READ_REQUEST,
      mem_expected_len := uint n - 4, rfs_buffer := h @ drop 4 (rfs_buffer m)\<rparr>, w)"
proof -
  obtain x0 x1 x2 x3 suf where buf: "rfs_buffer m = x0 # x1 # x2 # x3 # suf"
    using b by (auto simp: numeral_eq_Suc Suc_le_length_iff)
  obtain h0 h1 h2 h3 where hs: "h = [h0, h1, h2, h3]" using h by (simp add: enc_u16_def)
  note st = m [unfolded mem_ready_def] rfs_mem_read_request_packet_def mem_store_def blit_def
    rfs_feed_def rfs_mem_has_response_def
  let ?m1 = "m\<lparr>rfs_buffer := h0 # x1 # x2 # x3 # suf, mem_read_len := 1\<rparr>"
  let ?m2 = "m\<lparr>rfs_buffer := h0 # h1 # x2 # x3 # suf, mem_read_len := 2\<rparr>"
  let ?m3 = "m\<lparr>rfs_buffer := h0 # h1 # h2 # x3 # suf, mem_read_len := 3\<rparr>"
  have "rfs_feed lib px basedir h0 (m, w) = Some ([], ?m1, w)"
    "rfs_feed lib px basedir h1 (?m1, w) = Some ([], ?m2, w)"
    "rfs_feed lib px basedir h2 (?m2, w) = Some ([], ?m3, w)"
    by (simp_all add: st buf)
  moreover have "eluarpc_get_packet_size (h0 # h1 # h2 # h3 # suf) = Some (False, n)"
    using packet_size_header [of n suf] hs h by simp
  then have "rfs_feed lib px basedir h3 (?m3, w) = Some ([], m\<lparr>mem_read_len := 0,
      mem_read_state := MEM_STATE_READ_REQUEST, mem_expected_len := uint n - 4, rfs_buffer := h @ suf\<rparr>, w)"
    by (simp add: st hs)
  ultimately show ?thesis by (simp add: hs buf)
qed

lemma feed_packet:
  assumes m: "mem_ready m" and e: "pkt = rpc_packet e" and b: "length pkt \<le> length (rfs_buffer m)"
    and sz: "length pkt < 2 ^ 16"
  shows "rfs_feed_all lib px basedir pkt (m, w) =
    do { (r, m2, w') \<leftarrow> rfs_mem_write_response lib px basedir (mem_done pkt m) w;
         Some (r, rfs_mem_start_request m2, w') }"
proof -
  define n where "n = (of_nat (length pkt) :: u16)"
  define h body where "h = TYPE_PKT_SIZE # enc_u16 n"
    and "body = TYPE_START # enc_u32 PACKET_SIG @ e @ TYPE_END # enc_u32 (NOT PACKET_SIG)"
  have pkt: "pkt = h @ body" using e by (simp add: h_def body_def rpc_packet_def n_def add.commute)
  have lh: "length h = 4" by (simp add: h_def)
  have lb: "body \<noteq> []" by (simp add: body_def)
  have len: "length pkt = 4 + length body" by (simp add: pkt lh)
  have "uint n = int (length pkt)" using sz by (simp add: n_def uint_nat unat_of_nat take_bit_nat_eq_self)
  then have n: "uint n - 4 = int (length body)" by (simp add: len)
  define old where "old = drop 4 (rfs_buffer m)"
  have lo: "length body \<le> length old" and b4: "4 \<le> length (rfs_buffer m)" using b len by (simp_all add: old_def)
  let ?m = "m\<lparr>mem_read_len := 0, mem_read_state := MEM_STATE_READ_REQUEST,
      mem_expected_len := int (length body), rfs_buffer := h @ old\<rparr>"
  have "rfs_feed_all lib px basedir pkt (m, w) = rfs_feed_all lib px basedir body (?m, w)"
    unfolding pkt using feed_header [OF m h_def b4] by (simp add: n old_def)
  also have "\<dots> = do { (r, m2, w') \<leftarrow> rfs_mem_write_response lib px basedir
           (?m\<lparr>rfs_buffer := h @ body @ drop (length body) old, mem_read_len := int (0 + length body),
              mem_read_state := MEM_STATE_REQUEST_DONE, mem_response_flag := True\<rparr>) w;
         Some (r, rfs_mem_start_request m2, w') }"
    by (rule feed_body [OF lb]) (use m lo lh in \<open>simp_all add: mem_ready_def\<close>)
  also have "?m\<lparr>rfs_buffer := h @ body @ drop (length body) old, mem_read_len := int (0 + length body),
       mem_read_state := MEM_STATE_REQUEST_DONE, mem_response_flag := True\<rparr> = mem_done pkt m"
    using len by (simp add: mem_done_def pkt old_def add.commute)
  finally show ?thesis .
qed

section \<open>What the server answers\<close>

lemma exec_open:
  assumes "length path + 1 < 2 ^ 32" and "0 \<notin> set path" and "server_path basedir path = Some full"
    and "os_open lib px full flags w = (fd, w')"
  shows "server_execute_request lib px basedir (req_open path flags mode @ suf) w =
    Some (True, res_open fd @ drop 22 (req_open path flags mode @ suf), w')"
  using assms req_open_ok [OF assms(1), of flags mode] req_open_string [OF assms(1,2), of flags mode suf]
    res_open_write [of fd "req_open path flags mode @ suf"] res_open_ok(2) [of fd]
  by (simp add: server_execute_request_def server_open_def request_string_def)

lemma exec_write:
  assumes "length data < 2 ^ 32" and "px_write px fd data w = (r, w')"
  shows "server_execute_request lib px basedir (req_write fd data @ suf) w =
    Some (True, res_write r @ drop 22 (req_write fd data @ suf), w')"
  using assms req_write_ok [OF assms(1), of fd] req_write_data [OF assms(1), of fd suf] u32_len [OF assms(1)]
    res_write_write [of r "req_write fd data @ suf"] res_write_ok(2) [of r]
  by (cases "data = []") (simp_all add: server_execute_request_def server_write_def)

text \<open>A read that succeeds, of data that fits the buffer.\<close>

lemma exec_read:
  assumes "px_read px fd cnt w = ((of_nat (length data), data), w')" and "length data < 2 ^ 32"
    and "length data + 23 \<le> length (req_read fd cnt @ suf)"
  shows "\<exists>suf'. server_execute_request lib px basedir (req_read fd cnt @ suf) w =
    Some (True, res_read data @ suf', w') \<and> length (res_read data @ suf') = length (req_read fd cnt @ suf)"
proof -
  let ?b = "req_read fd cnt @ suf"
  let ?b1 = "take 17 ?b @ data @ drop (17 + length data) ?b"
  have "blit ?b 17 data = Some ?b1" using assms(3) by (simp add: blit_def)
  moreover have "remotefs_read_write_response ?b1 (of_nat (length data)) =
      Some (res_read data @ drop (length data + 23) ?b1)"
    by (rule res_read_write) (use assms(2,3) req_read_ok(2) [of fd cnt] in simp_all)
  moreover have "length (res_read data @ drop (length data + 23) ?b1) = length ?b"
    using assms(3) res_read_ok(2) [OF assms(2)] req_read_ok(2) [of fd cnt] by simp
  ultimately show ?thesis
    using assms(1) req_read_ok [of fd cnt]
    by (intro exI [of _ "drop (length data + 23) ?b1"])
      (simp add: server_execute_request_def server_read_def del: length_append)
qed

lemma exec_close:
  assumes "px_close px fd w = (r, w')"
  shows "server_execute_request lib px basedir (req_close fd @ suf) w =
    Some (True, res_close r @ drop 22 (req_close fd @ suf), w')"
  using assms req_close_ok [of fd] res_close_write [of r "req_close fd @ suf"] res_close_ok(2) [of r]
  by (simp add: server_execute_request_def server_close_def)

lemma exec_lseek:
  assumes "os_lseek lib px fd off whence w = (r, w')"
  shows "server_execute_request lib px basedir (req_lseek fd off whence @ suf) w =
    Some (True, res_lseek r @ drop 22 (req_lseek fd off whence @ suf), w')"
  using assms req_lseek_ok [of fd off whence] res_lseek_write [of r "req_lseek fd off whence @ suf"] res_lseek_ok(2) [of r]
  by (simp add: server_execute_request_def server_lseek_def)

lemma exec_opendir:
  assumes "length path + 1 < 2 ^ 32" and "0 \<notin> set path" and "server_path basedir path = Some full"
    and "px_opendir px full w = (d, w')"
  shows "server_execute_request lib px basedir (req_opendir path @ suf) w =
    Some (True, res_opendir d @ drop 22 (req_opendir path @ suf), w')"
  using assms req_opendir_ok [OF assms(1)] req_opendir_string [OF assms(1,2), of suf]
    res_opendir_write [of d "req_opendir path @ suf"] res_opendir_ok(2) [of d]
  by (simp add: server_execute_request_def server_opendir_def request_string_def)

lemma exec_closedir:
  assumes "px_closedir px d w = (r, w')"
  shows "server_execute_request lib px basedir (req_closedir d @ suf) w =
    Some (True, res_closedir d @ drop 22 (req_closedir d @ suf), w')"
  using assms req_closedir_ok [of d] res_closedir_write [of d "req_closedir d @ suf"] res_closedir_ok(2) [of d]
  by (simp add: server_execute_request_def server_closedir_def)

section \<open>Properties\<close>

lemma read_response_overrun:
  assumes "length b < 2 ^ 32"
  shows "remotefs_read_write_response b MINUS_1 = None"
proof (rule ccontr)
  assume "remotefs_read_write_response b MINUS_1 \<noteq> None"
  then obtain c1 c2 c3 c4 where w: "eluarpc_start_packet b = Some c1"
      "store [ELUARPC_OP_RES_MOD OR 3] c1 = Some c2" "eluarpc_write_ptr None MINUS_1 c2 = Some c3"
      "store [TYPE_END] c3 = Some c4"
    by (auto simp: remotefs_read_write_response_def eluarpc_gen_write_def eluarpc_end_packet_def bind_eq_Some_conv)
  have keep: "store bs c = Some c' \<Longrightarrow> length (fst c') = length (fst c)" for bs c c'
    by (cases c) (auto simp: store_def blit_length)
  have "length (fst c1) = length b"
    using w(1) by (auto simp: eluarpc_start_packet_def eluarpc_write_enc bind_eq_Some_conv dest!: keep)
  then have l2: "length (fst c2) = length b" using keep [OF w(2)] by simp
  have "length (fst c3) = length b" "2 ^ 32 - 1 \<le> snd c3"
    using w(3) l2 by (auto simp: eluarpc_write_ptr_def eluarpc_write_enc store_ptr_def bind_eq_Some_conv dest!: keep)
  then show False using w(4) assms by (cases c3) (auto simp: store_def blit_def split: if_splits)
qed

text \<open>When the operating system refuses a read (its result is -1), the server uses the result as
  the length of the data it sends back: the end of the response is written far outside the
  buffer.\<close>

theorem server_read_error_overrun:
  assumes "px_read px fd cnt w = ((MINUS_1, []), w')" and "length suf + 28 < 2 ^ 32"
  shows "server_execute_request lib px basedir (req_read fd cnt @ suf) w = None"
proof -
  let ?b = "req_read fd cnt @ suf"
  have l: "length ?b = length suf + 28" using req_read_ok(2) [of fd cnt] by simp
  have "blit ?b 17 [] = Some ?b" using l by (simp add: blit_def)
  moreover have "remotefs_read_write_response ?b MINUS_1 = None"
    by (rule read_response_overrun) (use assms(2) l in simp)
  ultimately show ?thesis
    using assms(1) req_read_ok [of fd cnt] by (simp add: server_execute_request_def server_read_def)
qed

text \<open>A system in which every call fails.\<close>

definition failing_posix :: "unit posix" where
  "failing_posix = \<lparr>px_open = (\<lambda>_ _ w. (MINUS_1, w)), px_write = (\<lambda>_ _ w. (MINUS_1, w)),
     px_read = (\<lambda>_ _ w. ((MINUS_1, []), w)), px_close = (\<lambda>_ w. (MINUS_1, w)), px_lseek = (\<lambda>_ _ _ w. (MINUS_1, w)),
     px_opendir = (\<lambda>_ w. (0, w)), px_readdir = (\<lambda>_ w. (None, w)), px_closedir = (\<lambda>_ w. (MINUS_1, w))\<rparr>"

theorem server_read_error_overrun_witness:
  "server_execute_request linux_flags failing_posix [0x2F] (req_read 3 10 @ replicate 100 0) () = None"
  by (rule server_read_error_overrun) (simp_all add: failing_posix_def)

text \<open>The server answers a request to close a directory with the directory handle and not with the
  result of the call, so that a failure is not reported.\<close>

theorem server_closedir_hides_result:
  assumes "px_closedir px d w = (r, w')"
  shows "\<exists>b. server_execute_request lib px basedir (req_closedir d @ suf) w = Some (True, b, w')
    \<and> remotefs_closedir_read_response b = Some (False, d)"
  using exec_closedir [OF assms, of lib basedir suf] res_closedir_ok(4) [of d] by auto

theorem server_closedir_hides_result_witness:
  "\<exists>b. server_execute_request linux_flags failing_posix [0x2F] (req_closedir 9 @ []) () = Some (True, b, ())
    \<and> remotefs_closedir_read_response b = Some (False, 9)"
  by (rule server_closedir_hides_result [where r = MINUS_1]) (simp add: failing_posix_def)

text \<open>A length byte that is not the packet type stops the server for good: the transport ends in
  its final state without a response, and every byte that follows leaves it there, since
  only a response makes the multiplexer start a new request.\<close>

theorem rfs_mem_bad_header_stuck:
  assumes m: "mem_ready m" and h: "h \<noteq> TYPE_PKT_SIZE" and b: "4 \<le> length (rfs_buffer m)"
  shows "\<exists>m'. rfs_feed_all lib px basedir ([h, x, y, z] @ cs) (m, w) = Some ([], m', w)
    \<and> mem_read_state m' = MEM_STATE_REQUEST_DONE \<and> \<not> mem_response_flag m'"
proof -
  obtain x0 x1 x2 x3 suf where buf: "rfs_buffer m = x0 # x1 # x2 # x3 # suf"
    using b by (auto simp: numeral_eq_Suc Suc_le_length_iff)
  note st = m [unfolded mem_ready_def] rfs_mem_read_request_packet_def mem_store_def blit_def
    rfs_feed_def rfs_mem_has_response_def
  let ?m1 = "m\<lparr>rfs_buffer := h # x1 # x2 # x3 # suf, mem_read_len := 1\<rparr>"
  let ?m2 = "m\<lparr>rfs_buffer := h # x # x2 # x3 # suf, mem_read_len := 2\<rparr>"
  let ?m3 = "m\<lparr>rfs_buffer := h # x # y # x3 # suf, mem_read_len := 3\<rparr>"
  let ?m4 = "m\<lparr>rfs_buffer := h # x # y # z # suf, mem_read_len := 0, mem_read_state := MEM_STATE_REQUEST_DONE\<rparr>"
  have 3: "rfs_feed lib px basedir h (m, w) = Some ([], ?m1, w)"
    "rfs_feed lib px basedir x (?m1, w) = Some ([], ?m2, w)"
    "rfs_feed lib px basedir y (?m2, w) = Some ([], ?m3, w)"
    by (simp_all add: st buf)
  have "\<exists>n. eluarpc_get_packet_size (h # x # y # z # suf) = Some (True, n)"
    using h by (simp add: eluarpc_get_packet_size_def eluarpc_read_expect_def eluarpc_read_u16_def load_def)
  then have 4: "rfs_feed lib px basedir z (?m3, w) = Some ([], ?m4, w)" by (auto simp: st)
  have "rfs_feed_all lib px basedir cs (?m4, w) = Some ([], ?m4, w)"
    by (induction cs) (simp_all add: st)
  then show ?thesis using 3 4 m by (auto simp: mem_ready_def)
qed

definition example_mem :: rfs_mem where
  "example_mem = \<lparr>mem_read_len = 0, mem_expected_len = 0, mem_read_state = MEM_STATE_READ_LENGTH,
     mem_response_flag = False, rfs_buffer = replicate 256 0\<rparr>"

theorem rfs_mem_bad_header_stuck_witness:
  "\<exists>m'. rfs_feed_all linux_flags failing_posix [0x2F] ([0, 1, 2, 3] @ [0xA5, 2, 23, 0]) (example_mem, ()) = Some ([], m', ())
    \<and> mem_read_state m' = MEM_STATE_REQUEST_DONE \<and> \<not> mem_response_flag m'"
  by (rule rfs_mem_bad_header_stuck) (simp_all add: example_mem_def mem_ready_def)

end
