(* ===== verification/Rfs_Client.thy ===== *)
theory Rfs_Client
  imports Rfs_Server
begin

text \<open>
  The remote file system client on the board: \<^verbatim>\<open>src/remotefs/client.c\<close> and the device functions of
  \<^verbatim>\<open>src/remotefs/elua_rfs.c\<close>, which cut large transfers into packets. The client has one packet
  buffer and a link, given by a send and a receive function on a link state; \<open>server_link\<close> is the
  link that ends in the server of \<open>Rfs_Server\<close>. The lemmas show that over it each
  operation of the client is the operation of the server's operating system.
\<close>

record 'l rfsc_link =
  rfsc_send :: "u8 list \<Rightarrow> 'l \<Rightarrow> (nat \<times> 'l) option"
  rfsc_recv :: "nat \<Rightarrow> nat \<Rightarrow> 'l \<Rightarrow> (u8 list \<times> 'l) option"

type_synonym 'l client = "packet_buf \<times> 'l"

section \<open>Requests and responses\<close>

text \<open>Emptying the receive buffer stores each byte at the start of the packet buffer.\<close>

partial_function (option) rfsc_drain :: "'l rfsc_link \<Rightarrow> packet_buf \<Rightarrow> 'l \<Rightarrow> 'l client option" where
  "rfsc_drain lk b l =
     do { (bs, l') \<leftarrow> rfsc_recv lk 1 0 l;
          if length bs = 1 then do { b' \<leftarrow> blit b 0 bs; rfsc_drain lk b' l' } else Some (b, l') }"

text \<open>The number of bytes after the header, computed in 32 bits.\<close>

definition rest_size :: "u16 \<Rightarrow> nat" where
  "rest_size temp16 = unat (ucast temp16 - of_nat ELUARPC_START_OFFSET :: u32)"

definition rfsch_send_request_read_response ::
  "'l rfsc_link \<Rightarrow> nat \<Rightarrow> 'l client \<Rightarrow> (bool \<times> 'l client) option" where
  "rfsch_send_request_read_response lk timeout cl = (case cl of (b, l) \<Rightarrow>
     do { (b1, l1) \<leftarrow> rfsc_drain lk b l;
          (err, temp16) \<leftarrow> eluarpc_get_packet_size b1;
          if err then Some (False, b1, l1)
          else do { req \<leftarrow> fetch b1 0 (unat temp16);
                    (n, l2) \<leftarrow> rfsc_send lk req l1;
                    if n \<noteq> unat temp16 then Some (False, b1, l2)
                    else do { (bs, l3) \<leftarrow> rfsc_recv lk ELUARPC_START_OFFSET timeout l2;
                              b2 \<leftarrow> blit b1 0 bs;
                              if length bs \<noteq> ELUARPC_START_OFFSET then Some (False, b2, l3)
                              else do { (err2, temp) \<leftarrow> eluarpc_get_packet_size b2;
                                        if err2 then Some (False, b2, l3)
                                        else do { (bs2, l4) \<leftarrow> rfsc_recv lk (rest_size temp) timeout l3;
                                                  b3 \<leftarrow> blit b2 ELUARPC_START_OFFSET bs2;
                                                  Some (length bs2 = rest_size temp, b3, l4) } } } } })"

section \<open>The operations\<close>

definition rfsc_open :: "'l rfsc_link \<Rightarrow> nat \<Rightarrow> libc_flags \<Rightarrow> u8 list \<Rightarrow> u32 \<Rightarrow> u32 \<Rightarrow> 'l client \<Rightarrow> (u32 \<times> 'l client) option" where
  "rfsc_open lk timeout lib pathname flags mode cl =
     do { b \<leftarrow> remotefs_open_write_request (fst cl) pathname (os_open_sys_flags_to_rfs_flags lib flags) mode;
          (ok, cl') \<leftarrow> rfsch_send_request_read_response lk timeout (b, snd cl);
          if \<not> ok then Some (MINUS_1, cl')
          else do { (err, fd) \<leftarrow> remotefs_open_read_response (fst cl');
                    Some (if err then MINUS_1 else fd, cl') } }"

definition rfsc_write :: "'l rfsc_link \<Rightarrow> nat \<Rightarrow> u32 \<Rightarrow> u8 list \<Rightarrow> u32 \<Rightarrow> 'l client \<Rightarrow> (u32 \<times> 'l client) option" where
  "rfsc_write lk timeout fd buf cnt cl =
     do { b \<leftarrow> remotefs_write_write_request (fst cl) fd buf cnt;
          (ok, cl') \<leftarrow> rfsch_send_request_read_response lk timeout (b, snd cl);
          if \<not> ok then Some (MINUS_1, cl')
          else do { (err, r) \<leftarrow> remotefs_write_read_response (fst cl');
                    Some (if err then MINUS_1 else r, cl') } }"

text \<open>A read returns the result and the bytes copied to the caller.\<close>

definition rfsc_read :: "'l rfsc_link \<Rightarrow> nat \<Rightarrow> u32 \<Rightarrow> u32 \<Rightarrow> 'l client \<Rightarrow> (u32 \<times> u8 list \<times> 'l client) option" where
  "rfsc_read lk timeout fd cnt cl =
     do { b \<leftarrow> remotefs_read_write_request (fst cl) fd cnt;
          (ok, cl') \<leftarrow> rfsch_send_request_read_response lk timeout (b, snd cl);
          if \<not> ok then Some (MINUS_1, [], cl')
          else do { (err, p, n) \<leftarrow> remotefs_read_read_response (fst cl');
                    if err then Some (MINUS_1, [], cl')
                    else do { data \<leftarrow> (case p of None \<Rightarrow> Some [] | Some q \<Rightarrow> fetch (fst cl') q (unat n));
                              Some (n, data, cl') } } }"

definition rfsc_lseek :: "'l rfsc_link \<Rightarrow> nat \<Rightarrow> libc_flags \<Rightarrow> u32 \<Rightarrow> u32 \<Rightarrow> u32 \<Rightarrow> 'l client \<Rightarrow> (u32 \<times> 'l client) option" where
  "rfsc_lseek lk timeout lib fd offset whence cl =
     do { b \<leftarrow> remotefs_lseek_write_request (fst cl) fd offset (os_lseek_sys_whence_to_rfs_whence lib whence);
          (ok, cl') \<leftarrow> rfsch_send_request_read_response lk timeout (b, snd cl);
          if \<not> ok then Some (MINUS_1, cl')
          else do { (err, r) \<leftarrow> remotefs_lseek_read_response (fst cl');
                    Some (if err then MINUS_1 else r, cl') } }"

definition rfsc_close :: "'l rfsc_link \<Rightarrow> nat \<Rightarrow> u32 \<Rightarrow> 'l client \<Rightarrow> (u32 \<times> 'l client) option" where
  "rfsc_close lk timeout fd cl =
     do { b \<leftarrow> remotefs_close_write_request (fst cl) fd;
          (ok, cl') \<leftarrow> rfsch_send_request_read_response lk timeout (b, snd cl);
          if \<not> ok then Some (MINUS_1, cl')
          else do { (err, r) \<leftarrow> remotefs_close_read_response (fst cl');
                    Some (if err then MINUS_1 else r, cl') } }"

definition rfsc_opendir :: "'l rfsc_link \<Rightarrow> nat \<Rightarrow> u8 list \<Rightarrow> 'l client \<Rightarrow> (u32 \<times> 'l client) option" where
  "rfsc_opendir lk timeout name cl =
     do { b \<leftarrow> remotefs_opendir_write_request (fst cl) name;
          (ok, cl') \<leftarrow> rfsch_send_request_read_response lk timeout (b, snd cl);
          if \<not> ok then Some (0, cl')
          else do { (err, r) \<leftarrow> remotefs_opendir_read_response (fst cl');
                    Some (if err then 0 else r, cl') } }"

text \<open>A directory entry: the place of the name in the packet buffer, the size and the time.\<close>

definition rfsc_readdir :: "'l rfsc_link \<Rightarrow> nat \<Rightarrow> u32 \<Rightarrow> 'l client \<Rightarrow> ((nat option \<times> u32 \<times> u32) \<times> 'l client) option" where
  "rfsc_readdir lk timeout d cl =
     do { b \<leftarrow> remotefs_readdir_write_request (fst cl) d;
          (ok, cl') \<leftarrow> rfsch_send_request_read_response lk timeout (b, snd cl);
          if \<not> ok then Some ((None, 0, 0), cl')
          else do { (err, p, fsize, ftime) \<leftarrow> remotefs_readdir_read_response (fst cl');
                    Some (if err then (None, fsize, ftime) else (p, fsize, ftime), cl') } }"

definition rfsc_closedir :: "'l rfsc_link \<Rightarrow> nat \<Rightarrow> u32 \<Rightarrow> 'l client \<Rightarrow> (u32 \<times> 'l client) option" where
  "rfsc_closedir lk timeout d cl =
     do { b \<leftarrow> remotefs_closedir_write_request (fst cl) d;
          (ok, cl') \<leftarrow> rfsch_send_request_read_response lk timeout (b, snd cl);
          if \<not> ok then Some (MINUS_1, cl')
          else do { (err, r) \<leftarrow> remotefs_closedir_read_response (fst cl');
                    Some (if err then MINUS_1 else r, cl') } }"

section \<open>The device functions\<close>

text \<open>Transfers are cut into pieces that fit a packet, \<open>real\<close> (\<^verbatim>\<open>RFS_REAL_BUFFER_SIZE\<close>) bytes; the
  total is returned, also when a piece fails.\<close>

partial_function (option) rfs_write_r ::
  "'l rfsc_link \<Rightarrow> nat \<Rightarrow> nat \<Rightarrow> u32 \<Rightarrow> u8 list \<Rightarrow> u32 \<Rightarrow> 'l client \<Rightarrow> (u32 \<times> 'l client) option" where
  "rfs_write_r lk timeout real fd p tot cl =
     (if p = [] then Some (tot, cl)
      else let towrite = (if length p > real then real else length p)
           in do { (res, cl') \<leftarrow> rfsc_write lk timeout fd p (of_nat towrite) cl;
                   if res = MINUS_1 then Some (tot, cl')
                   else if unat res < towrite then Some (tot + res, cl')
                   else rfs_write_r lk timeout real fd (drop towrite p) (tot + res) cl' })"

partial_function (option) rfs_read_r ::
  "'l rfsc_link \<Rightarrow> nat \<Rightarrow> nat \<Rightarrow> u32 \<Rightarrow> nat \<Rightarrow> u32 \<Rightarrow> u8 list \<Rightarrow> 'l client \<Rightarrow> (u32 \<times> u8 list \<times> 'l client) option" where
  "rfs_read_r lk timeout real fd len tot acc cl =
     (if len = 0 then Some (tot, acc, cl)
      else let toread = (if len > real then real else len)
           in do { (res, data, cl') \<leftarrow> rfsc_read lk timeout fd (of_nat toread) cl;
                   if res = MINUS_1 then Some (tot, acc, cl')
                   else if unat res < toread then Some (tot + res, acc @ data, cl')
                   else rfs_read_r lk timeout real fd (len - toread) (tot + res) (acc @ data) cl' })"

text \<open>A directory entry for the device manager: no entry when the name is NULL.\<close>

definition rfs_readdir_r :: "'l rfsc_link \<Rightarrow> nat \<Rightarrow> u32 \<Rightarrow> 'l client \<Rightarrow> ((nat \<times> u32 \<times> u32) option \<times> 'l client) option" where
  "rfs_readdir_r lk timeout d cl =
     do { ((p, fsize, ftime), cl') \<leftarrow> rfsc_readdir lk timeout d cl;
          Some (map_option (\<lambda>q. (q, fsize, ftime)) p, cl') }"

section \<open>The link to the server\<close>

type_synonym 'w server_link_state = "u8 list \<times> rfs_mem \<times> 'w"

definition server_link :: "libc_flags \<Rightarrow> 'w posix \<Rightarrow> u8 list \<Rightarrow> 'w server_link_state rfsc_link" where
  "server_link lib px basedir =
     \<lparr>rfsc_send = (\<lambda>bs (pend, mw). do { (r, mw') \<leftarrow> rfs_feed_all lib px basedir bs mw;
                                        Some (length bs, pend @ r, mw') }),
      rfsc_recv = (\<lambda>n timeout (pend, mw). Some (take n pend, drop n pend, mw))\<rparr>"

section \<open>One exchange\<close>

text \<open>The link is idle: nothing is waiting and the server waits for a request, with a buffer of
  \<open>n\<close> bytes.\<close>

definition link_idle :: "nat \<Rightarrow> 'w server_link_state \<Rightarrow> bool" where
  "link_idle n l \<longleftrightarrow> (case l of (pend, m, w) \<Rightarrow> pend = [] \<and> mem_ready m \<and> length (rfs_buffer m) = n)"

lemma drain_idle:
  assumes "link_idle n l"
  shows "rfsc_drain (server_link lib px basedir) b l = Some (b, l)"
  using assms by (subst rfsc_drain.simps) (auto simp: server_link_def link_idle_def)

lemma rest_size_packet:
  assumes "4 \<le> n" and "n < 2 ^ 16"
  shows "rest_size (of_nat n) = n - 4"
proof -
  have "unat (of_nat n :: u16) = n" using assms(2) by (simp add: unat_of_nat take_bit_nat_eq_self)
  then have "(ucast (of_nat n :: u16) :: u32) = of_nat n" by (simp add: unsigned_ucast_eq word_unat_eq_iff unat_of_nat take_bit_nat_eq_self)
  moreover have "(of_nat n :: u32) - of_nat 4 = of_nat (n - 4)" using assms(1) by (simp add: of_nat_diff)
  ultimately have "rest_size (of_nat n) = unat (of_nat (n - 4) :: u32)" unfolding rest_size_def by (simp only:)
  also have "\<dots> = n - 4" using assms(2) by (intro u32_len) simp
  finally show ?thesis .
qed

lemma packet_prefix:
  "take 4 (rpc_packet e) = TYPE_PKT_SIZE # enc_u16 (of_nat (length e + 16))"
  by (simp add: rpc_packet_def enc_u16_def)

lemma serve_packet:
  assumes m: "mem_ready m" and len: "length (rfs_buffer m) = n" and req: "length e + 16 \<le> n" "length e + 16 < 2 ^ 16"
    and exec: "server_execute_request lib px basedir (rpc_packet e @ drop (length e + 16) (rfs_buffer m)) w =
      Some (ok, rpc_packet e' @ suf, w')"
    and res: "length (rpc_packet e' @ suf) = n" "length e' + 16 < 2 ^ 16"
  shows "\<exists>m'. rfs_feed_all lib px basedir (rpc_packet e) (m, w) = Some (rpc_packet e', m', w')
    \<and> mem_ready m' \<and> length (rfs_buffer m') = n"
proof -
  let ?m = "mem_done (rpc_packet e) m"
  have "eluarpc_get_packet_size (rpc_packet e' @ suf) = Some (False, of_nat (length e' + 16))"
    by (rule packet_size_packet)
  moreover have u: "unat (of_nat (length e' + 16) :: u16) = length e' + 16"
    using res(2) by (simp add: unat_of_nat take_bit_nat_eq_self del: of_nat_add)
  ultimately have "rfs_mem_write_response lib px basedir ?m w = Some (rpc_packet e', ?m\<lparr>rfs_buffer := rpc_packet e' @ suf\<rparr>, w')"
    using exec by (simp add: rfs_mem_write_response_def mem_done_def fetch_def del: of_nat_add)
  then show ?thesis
    using feed_packet [OF m refl, of e lib px basedir w] len req res(1)
    by (simp add: rfs_mem_start_request_def mem_ready_def)
qed

lemma rpc_exchange:
  assumes l: "link_idle n (pend, m, w)" and b: "length b = k"
    and req: "length e + 16 \<le> n" "length e + 16 \<le> k" "length e + 16 < 2 ^ 16"
    and exec: "server_execute_request lib px basedir (rpc_packet e @ drop (length e + 16) (rfs_buffer m)) w =
      Some (ok, rpc_packet e' @ suf, w')"
    and res: "length (rpc_packet e' @ suf) = n" "length e' + 16 < 2 ^ 16" "length e' + 16 \<le> k"
  shows "\<exists>l'. rfsch_send_request_read_response (server_link lib px basedir) timeout
      (rpc_packet e @ drop (length e + 16) b, pend, m, w) =
      Some (True, rpc_packet e' @ drop (length e' + 16) (rpc_packet e @ drop (length e + 16) b), l')
    \<and> link_idle n l' \<and> snd (snd l') = w'"
proof -
  define lk where "lk = server_link lib px basedir"
  define b0 where "b0 = rpc_packet e @ drop (length e + 16) b"
  from l have pend: "pend = []" and m: "mem_ready m" and lm: "length (rfs_buffer m) = n"
    by (simp_all add: link_idle_def)
  obtain m' where m': "rfs_feed_all lib px basedir (rpc_packet e) (m, w) = Some (rpc_packet e', m', w')"
      "mem_ready m'" "length (rfs_buffer m') = n"
    using serve_packet [OF m lm req(1,3) exec res(1,2)] by blast
  have lb: "length b0 = k" using b req(2) by (simp add: b0_def)
  have drain: "rfsc_drain lk b0 ([], m, w) = Some (b0, [], m, w)"
    using drain_idle [OF l] by (simp add: pend lk_def)
  define s16 t16 where "s16 = (of_nat (length e + 16) :: u16)" and "t16 = (of_nat (length e' + 16) :: u16)"
  have sz: "eluarpc_get_packet_size b0 = Some (False, s16)" unfolding b0_def s16_def by (rule packet_size_packet)
  have u: "unat s16 = length e + 16"
    using req(3) by (simp add: s16_def unat_of_nat take_bit_nat_eq_self del: of_nat_add)
  have f: "fetch b0 0 (unat s16) = Some (rpc_packet e)" by (simp add: fetch_def u b0_def)
  have send: "rfsc_send lk (rpc_packet e) ([], m, w) = Some (unat s16, rpc_packet e', m', w')"
    using m'(1) by (simp add: server_link_def lk_def u)
  define h r where "h = take 4 (rpc_packet e')" and "r = drop 4 (rpc_packet e')"
  have hr: "rpc_packet e' = h @ r" "length h = 4" "length r = length e' + 12" by (simp_all add: h_def r_def)
  have recv1: "rfsc_recv lk 4 timeout (rpc_packet e', m', w') = Some (h, r, m', w')"
    by (simp add: server_link_def lk_def h_def r_def)
  have b2: "blit b0 0 h = Some (h @ drop 4 b0)" using lb res(3) hr(2) by (simp add: blit_def)
  have sz2: "eluarpc_get_packet_size (h @ drop 4 b0) = Some (False, t16)"
    unfolding h_def packet_prefix t16_def using packet_size_header by simp
  have rs: "rest_size t16 = length r"
    using rest_size_packet [of "length e' + 16"] res(2) by (simp add: t16_def hr(3) del: of_nat_add)
  have recv2: "rfsc_recv lk (length r) timeout (r, m', w') = Some (r, [], m', w')"
    by (simp add: server_link_def lk_def)
  have b3: "blit (h @ drop 4 b0) 4 r = Some ((h @ r) @ drop (length e' + 16) b0)"
    using lb res(3) hr(2,3) by (simp add: blit_def add.commute)
  have "rfsch_send_request_read_response lk timeout (b0, [], m, w) =
      Some (True, rpc_packet e' @ drop (length e' + 16) b0, [], m', w')"
    unfolding rfsch_send_request_read_response_def
    using drain sz f send recv1 b2 sz2 rs recv2 b3 hr by simp
  then show ?thesis using m' unfolding lk_def b0_def pend by (auto simp: link_idle_def)
qed

definition is_packet :: "u8 list \<Rightarrow> bool" where
  "is_packet p \<longleftrightarrow> (\<exists>e. p = rpc_packet e)"

lemma messages_are_packets [simp]:
  "is_packet (req_open path flags mode)" "is_packet (res_open r)" "is_packet (req_write fd data)" "is_packet (res_write r)"
  "is_packet (req_read fd cnt)" "is_packet (res_read data)" "is_packet (req_close fd)" "is_packet (res_close r)"
  "is_packet (req_lseek fd off whence)" "is_packet (res_lseek r)" "is_packet (req_opendir path)" "is_packet (res_opendir r)"
  by (auto simp: is_packet_def wire_def req_open_def res_open_def req_write_def res_write_def req_read_def res_read_def
      req_close_def res_close_def req_lseek_def res_lseek_def req_opendir_def res_opendir_def)

section \<open>Connections to a server\<close>

text \<open>What a client needs of its link and of what is behind it: in the idle state, with an operating system in state \<open>w\<close> at the
  other end, a request is answered with what the server makes of it, in a buffer of \<open>n\<close> bytes, and the link is idle again. The packet buffer of the client has
  \<open>k\<close> bytes.\<close>

locale rfs_connection =
  fixes lk :: "'l rfsc_link" and idle :: "'w \<Rightarrow> 'l \<Rightarrow> bool" and n k :: nat
    and pc :: libc_flags and px :: "'w posix" and basedir :: "u8 list"
  assumes answers: "idle w l \<Longrightarrow> length b = k \<Longrightarrow> length e + 16 \<le> n \<Longrightarrow> length e + 16 \<le> k \<Longrightarrow> length e + 16 < 2 ^ 16 \<Longrightarrow>
      (\<And>suf. length (rpc_packet e @ suf) = n \<Longrightarrow> \<exists>ok suf'. server_execute_request pc px basedir (rpc_packet e @ suf) w =
         Some (ok, rpc_packet e' @ suf', w') \<and> length (rpc_packet e' @ suf') = n) \<Longrightarrow>
      length e' + 16 < 2 ^ 16 \<Longrightarrow> length e' + 16 \<le> k \<Longrightarrow>
      \<exists>l'. rfsch_send_request_read_response lk timeout (rpc_packet e @ drop (length e + 16) b, l) =
          Some (True, rpc_packet e' @ drop (length e' + 16) (rpc_packet e @ drop (length e + 16) b), l') \<and> idle w' l'"

definition conn_ok :: "('w \<Rightarrow> 'l \<Rightarrow> bool) \<Rightarrow> nat \<Rightarrow> 'w \<Rightarrow> 'l client \<Rightarrow> bool" where
  "conn_ok idle k w cl \<longleftrightarrow> length (fst cl) = k \<and> idle w (snd cl)"

lemma small_result: "m < 2 ^ 16 \<Longrightarrow> (of_nat m :: u32) \<noteq> MINUS_1"
proof
  assume m: "m < 2 ^ 16" and eq: "(of_nat m :: u32) = MINUS_1"
  then have "unat (of_nat m :: u32) = 0xFFFFFFFF" by simp
  then show False using m u32_len [of m] by simp
qed

context rfs_connection
begin

lemma conn_exchange:
  assumes cl: "conn_ok idle k w cl" and pq: "is_packet p" "is_packet q"
    and req: "length p \<le> n" "length p \<le> k" "length p < 2 ^ 16"
    and exec: "\<And>suf. length (p @ suf) = n \<Longrightarrow> \<exists>ok suf'. server_execute_request pc px basedir (p @ suf) w = Some (ok, q @ suf', w')
      \<and> length (q @ suf') = n"
    and res: "length q < 2 ^ 16" "length q \<le> k"
  shows "\<exists>suf l'. rfsch_send_request_read_response lk timeout
      (p @ drop (length p) (fst cl), snd cl) = Some (True, q @ suf, l') \<and> conn_ok idle k w' (q @ suf, l')"
proof -
  obtain e e' where e: "p = rpc_packet e" "q = rpc_packet e'" using pq by (auto simp: is_packet_def)
  have l: "idle w (snd cl)" "length (fst cl) = k" using cl by (simp_all add: conn_ok_def)
  obtain l' where "rfsch_send_request_read_response lk timeout (p @ drop (length p) (fst cl), snd cl) =
      Some (True, q @ drop (length q) (p @ drop (length p) (fst cl)), l')" "idle w' l'"
    using answers [OF l, of e e' w' timeout] req exec res unfolding e by auto
  moreover have "length (q @ drop (length q) (p @ drop (length p) (fst cl))) = k" using l(2) req res by simp
  ultimately show ?thesis by (auto simp: conn_ok_def simp del: length_append)
qed

lemma conn_open:
  assumes cl: "conn_ok idle k w cl" and sz: "length path + 35 \<le> n" "length path + 35 \<le> k" "n < 2 ^ 16"
    and path: "0 \<notin> set path" "server_path basedir path = Some full"
    and px: "px_open px full (os_open_realflags pc (os_open_sys_flags_to_rfs_flags board flags)) w = (fd, w')"
  shows "\<exists>cl'. rfsc_open lk timeout board path flags mode cl = Some (fd, cl') \<and> conn_ok idle k w' cl'"
proof -
  let ?f = "os_open_sys_flags_to_rfs_flags board flags"
  let ?p = "req_open path ?f mode"
  have lp: "length path + 1 < 2 ^ 32" using sz by simp
  have len: "length ?p = length path + 35" by (rule req_open_ok(2) [OF lp])
  have ex: "\<exists>ok suf'. server_execute_request pc px basedir (?p @ suf) w = Some (ok, res_open fd @ suf', w')
      \<and> length (res_open fd @ suf') = n" if "length (?p @ suf) = n" for suf
    using exec_open [OF lp path, of pc px ?f w fd w' mode suf] px that res_open_ok(2) [of fd] len
    by (auto simp: os_open_def)
  obtain suf l' where x: "rfsch_send_request_read_response lk timeout
      (?p @ drop (length ?p) (fst cl), snd cl) = Some (True, res_open fd @ suf, l')" "conn_ok idle k w' (res_open fd @ suf, l')"
    using conn_exchange [OF cl _ _ _ _ _ ex, of timeout] sz len res_open_ok(2) [of fd] by auto
  have "remotefs_open_write_request (fst cl) path ?f mode = Some (?p @ drop (length ?p) (fst cl))"
    by (rule req_open_write) (use cl sz len lp in \<open>simp_all add: conn_ok_def\<close>)
  then show ?thesis using x res_open_ok(4) [of fd suf] by (auto simp: rfsc_open_def)
qed

lemma conn_close:
  assumes cl: "conn_ok idle k w cl" and sz: "23 \<le> n" "23 \<le> k" "n < 2 ^ 16" and px: "px_close px fd w = (r, w')"
  shows "\<exists>cl'. rfsc_close lk timeout fd cl = Some (r, cl') \<and> conn_ok idle k w' cl'"
proof -
  let ?p = "req_close fd"
  have len: "length ?p = 23" by (rule req_close_ok(2))
  have ex: "\<exists>ok suf'. server_execute_request pc px basedir (?p @ suf) w = Some (ok, res_close r @ suf', w')
      \<and> length (res_close r @ suf') = n" if "length (?p @ suf) = n" for suf
    using exec_close [OF px, of pc basedir suf] that res_close_ok(2) [of r] len by auto
  obtain suf l' where x: "rfsch_send_request_read_response lk timeout
      (?p @ drop (length ?p) (fst cl), snd cl) = Some (True, res_close r @ suf, l')" "conn_ok idle k w' (res_close r @ suf, l')"
    using conn_exchange [OF cl _ _ _ _ _ ex, of timeout] sz len res_close_ok(2) [of r] by auto
  have "remotefs_close_write_request (fst cl) fd = Some (?p @ drop (length ?p) (fst cl))"
    by (rule req_close_write) (use cl sz len in \<open>simp_all add: conn_ok_def\<close>)
  then show ?thesis using x res_close_ok(4) [of r suf] by (auto simp: rfsc_close_def)
qed

lemma conn_lseek:
  assumes cl: "conn_ok idle k w cl" and sz: "33 \<le> n" "33 \<le> k" "n < 2 ^ 16"
    and px: "os_lseek pc px fd off (os_lseek_sys_whence_to_rfs_whence board whence) w = (r, w')"
  shows "\<exists>cl'. rfsc_lseek lk timeout board fd off whence cl = Some (r, cl') \<and> conn_ok idle k w' cl'"
proof -
  let ?p = "req_lseek fd off (os_lseek_sys_whence_to_rfs_whence board whence)"
  have len: "length ?p = 33" by (rule req_lseek_ok(2))
  have ex: "\<exists>ok suf'. server_execute_request pc px basedir (?p @ suf) w = Some (ok, res_lseek r @ suf', w')
      \<and> length (res_lseek r @ suf') = n" if "length (?p @ suf) = n" for suf
    using exec_lseek [OF px, of basedir suf] that res_lseek_ok(2) [of r] len by auto
  obtain suf l' where x: "rfsch_send_request_read_response lk timeout
      (?p @ drop (length ?p) (fst cl), snd cl) = Some (True, res_lseek r @ suf, l')" "conn_ok idle k w' (res_lseek r @ suf, l')"
    using conn_exchange [OF cl _ _ _ _ _ ex, of timeout] sz len res_lseek_ok(2) [of r] by auto
  have "remotefs_lseek_write_request (fst cl) fd off (os_lseek_sys_whence_to_rfs_whence board whence) = Some (?p @ drop (length ?p) (fst cl))"
    by (rule req_lseek_write) (use cl sz len in \<open>simp_all add: conn_ok_def\<close>)
  then show ?thesis using x res_lseek_ok(4) [of r suf] by (auto simp: rfsc_lseek_def)
qed

lemma conn_write:
  assumes cl: "conn_ok idle k w cl" and sz: "length data + 29 \<le> n" "length data + 29 \<le> k" "n < 2 ^ 16"
    and px: "px_write px fd data w = (r, w')"
  shows "\<exists>cl'. rfsc_write lk timeout fd (data @ tl_data) (of_nat (length data)) cl = Some (r, cl')
    \<and> conn_ok idle k w' cl'"
proof -
  let ?p = "req_write fd data"
  have ld: "length data < 2 ^ 32" using sz by simp
  have len: "length ?p = length data + 29" by (rule req_write_ok(2) [OF ld])
  have ex: "\<exists>ok suf'. server_execute_request pc px basedir (?p @ suf) w = Some (ok, res_write r @ suf', w')
      \<and> length (res_write r @ suf') = n" if "length (?p @ suf) = n" for suf
    using exec_write [OF ld px, of pc basedir suf] that res_write_ok(2) [of r] len by auto
  obtain suf l' where x: "rfsch_send_request_read_response lk timeout
      (?p @ drop (length ?p) (fst cl), snd cl) = Some (True, res_write r @ suf, l')" "conn_ok idle k w' (res_write r @ suf, l')"
    using conn_exchange [OF cl _ _ _ _ _ ex, of timeout] sz len res_write_ok(2) [of r] by auto
  have "remotefs_write_write_request (fst cl) fd (data @ tl_data) (of_nat (length data)) =
      remotefs_write_write_request (fst cl) fd data (of_nat (length data))"
    using write_request_prefix [of "of_nat (length data)" "data @ tl_data" "fst cl" fd] u32_len [OF ld] by simp
  also have "\<dots> = Some (?p @ drop (length ?p) (fst cl))"
    by (rule req_write_write) (use cl sz len ld in \<open>simp_all add: conn_ok_def\<close>)
  finally show ?thesis using x res_write_ok(4) [of r suf] by (auto simp: rfsc_write_def)
qed

lemma conn_read:
  assumes cl: "conn_ok idle k w cl" and sz: "length data + 23 \<le> n" "length data + 23 \<le> k" "28 \<le> n" "28 \<le> k" "n < 2 ^ 16"
    and px: "px_read px fd cnt w = ((of_nat (length data), data), w')"
  shows "\<exists>cl'. rfsc_read lk timeout fd cnt cl = Some (of_nat (length data), data, cl')
    \<and> conn_ok idle k w' cl'"
proof -
  let ?p = "req_read fd cnt"
  have ld: "length data < 2 ^ 32" using sz by simp
  have len: "length ?p = 28" by (rule req_read_ok(2))
  have ex: "\<exists>ok suf'. server_execute_request pc px basedir (?p @ suf) w = Some (ok, res_read data @ suf', w')
      \<and> length (res_read data @ suf') = n" if "length (?p @ suf) = n" for suf
    using exec_read [OF px ld, of suf pc basedir] that sz by auto
  obtain suf l' where x: "rfsch_send_request_read_response lk timeout
      (?p @ drop (length ?p) (fst cl), snd cl) = Some (True, res_read data @ suf, l')" "conn_ok idle k w' (res_read data @ suf, l')"
    using conn_exchange [OF cl _ _ _ _ _ ex, of timeout] sz len res_read_ok(2) [OF ld] by auto
  have "remotefs_read_write_request (fst cl) fd cnt = Some (?p @ drop (length ?p) (fst cl))"
    by (rule req_read_write) (use cl sz len in \<open>simp_all add: conn_ok_def\<close>)
  then show ?thesis
    using x res_read_ok(4) [OF ld, of suf] res_read_data [OF ld, of suf] u32_len [OF ld]
    by (cases "data = []") (auto simp: rfsc_read_def)
qed

lemma conn_write_r:
  assumes sz: "real + 29 \<le> n" "real + 29 \<le> k" "n < 2 ^ 16" "0 < real"
    and px: "\<And>d w. px_write px fd d w = (of_nat (length d), wr d w)"
    and wr: "\<And>w. wr [] w = w" "\<And>c d w. wr (c @ d) w = wr d (wr c w)"
  shows "conn_ok idle k w cl \<Longrightarrow> \<exists>cl'. rfs_write_r lk timeout real fd data tot cl =
    Some (tot + of_nat (length data), cl') \<and> conn_ok idle k (wr data w) cl'"
proof (induction "length data" arbitrary: data w cl tot rule: less_induct)
  case less
  show ?case
  proof (cases "data = []")
    case True
    then show ?thesis using less.prems wr by (subst rfs_write_r.simps) auto
  next
    case False
    define m where "m = (if length data > real then real else length data)"
    have m: "m \<le> real" "0 < m" "m \<le> length data" using False sz(4) by (auto simp: m_def)
    then have m16: "m < 2 ^ 16" using sz by simp
    let ?c = "take m data"
    have lc: "length ?c = m" using m(3) by simp
    obtain cl1 where c1: "rfsc_write lk timeout fd data (of_nat m) cl = Some (of_nat m, cl1)"
        "conn_ok idle k (wr ?c w) cl1"
      using conn_write [OF less.prems, of ?c fd "of_nat m" "wr ?c w" timeout "drop m data"] px lc m sz by auto
    have "length (drop m data) < length data" using m by simp
    from less.hyps [OF this c1(2), of "tot + of_nat m"] obtain cl2 where
      "rfs_write_r lk timeout real fd (drop m data) (tot + of_nat m) cl1 =
         Some (tot + of_nat m + of_nat (length (drop m data)), cl2)" "conn_ok idle k (wr (drop m data) (wr ?c w)) cl2"
      by blast
    moreover have "wr (drop m data) (wr ?c w) = wr data w" by (metis append_take_drop_id wr(2))
    moreover have "(of_nat m :: u32) + of_nat (length (drop m data)) = of_nat (length data)"
      using m(3) by (metis le_add_diff_inverse length_drop of_nat_add)
    ultimately show ?thesis
      using False c1 small_result [OF m16] u32_len [of m] m16
      by (subst rfs_write_r.simps) (auto simp: m_def [symmetric] add.assoc)
  qed
qed

lemma conn_read_r:
  assumes sz: "real + 29 \<le> n" "real + 29 \<le> k" "n < 2 ^ 16" "0 < real"
    and px: "\<And>c w. px_read px fd c w = ((of_nat (length (take (unat c) (rem w))), take (unat c) (rem w)), adv (unat c) w)"
    and rem: "\<And>c w. rem (adv c w) = drop c (rem w)"
  shows "conn_ok idle k w cl \<Longrightarrow> \<exists>w' cl'. rfs_read_r lk timeout real fd len tot acc cl =
    Some (tot + of_nat (min len (length (rem w))), acc @ take len (rem w), cl') \<and> conn_ok idle k w' cl'"
proof (induction len arbitrary: w cl tot acc rule: less_induct)
  case (less len)
  show ?case
  proof (cases "len = 0")
    case True
    then show ?thesis using less.prems by (subst rfs_read_r.simps) auto
  next
    case False
    define m where "m = (if len > real then real else len)"
    have m: "m \<le> real" "0 < m" "m \<le> len" using False sz(4) by (auto simp: m_def)
    then have m16: "m < 2 ^ 16" using sz by simp
    have um: "unat (of_nat m :: u32) = m" using u32_len [of m] m16 by simp
    let ?d = "take m (rem w)"
    have ld: "length ?d \<le> m" by simp
    have d16: "length ?d < 2 ^ 16" using ld m16 by linarith
    have ud: "unat (of_nat (length ?d) :: u32) = length ?d" by (rule u32_len) (use d16 in simp)
    obtain cl1 where c1: "rfsc_read lk timeout fd (of_nat m) cl = Some (of_nat (length ?d), ?d, cl1)"
        "conn_ok idle k (adv m w) cl1"
    proof -
      have "length ?d + 23 \<le> n" "length ?d + 23 \<le> k" "28 \<le> n" "28 \<le> k" using ld m sz by linarith+
      moreover have "px_read px fd (of_nat m) w = ((of_nat (length ?d), ?d), adv m w)" unfolding px um ..
      ultimately show ?thesis using conn_read [OF less.prems] sz(3) that by blast
    qed
    note step = rfs_read_r.simps [of lk timeout real fd len tot acc cl]
    show ?thesis
    proof (cases "length ?d < m")
      case True
      then have short: "length (rem w) < m" by simp
      then have d: "?d = rem w" "take len (rem w) = rem w" "min len (length (rem w)) = length (rem w)" using m by simp_all
      show ?thesis
        unfolding step using False c1 small_result [OF d16] True ud short
        by (auto simp: m_def [symmetric] d)
    next
      case full: False
      then have lw: "m \<le> length (rem w)" by simp
      have "len - m < len" using m by simp
      from less.IH [OF this c1(2), of "tot + of_nat m" "acc @ ?d"] obtain w' cl2 where
        2: "rfs_read_r lk timeout real fd (len - m) (tot + of_nat m) (acc @ ?d) cl1 =
          Some (tot + of_nat m + of_nat (min (len - m) (length (rem (adv m w)))), (acc @ ?d) @ take (len - m) (rem (adv m w)), cl2)"
        "conn_ok idle k w' cl2" by blast
      have "?d @ take (len - m) (drop m (rem w)) = take len (rem w)"
        using m(3) by (metis le_add_diff_inverse take_add)
      moreover have "(of_nat m :: u32) + of_nat (min (len - m) (length (rem w) - m)) = of_nat (min len (length (rem w)))"
        using m(3) lw by (metis (no_types, lifting) le_add_diff_inverse min_add_distrib_right nat_add_left_cancel_le of_nat_add min_def)
      ultimately have "(acc @ ?d) @ take (len - m) (rem (adv m w)) = acc @ take len (rem w)"
        "tot + of_nat m + of_nat (min (len - m) (length (rem (adv m w)))) = tot + of_nat (min len (length (rem w)))"
        by (simp_all add: rem add.assoc)
      with 2 have 3: "rfs_read_r lk timeout real fd (len - m) (tot + of_nat m) (acc @ ?d) cl1 =
          Some (tot + of_nat (min len (length (rem w))), acc @ take len (rem w), cl2)" by simp
      have "length ?d = m" using lw by simp
      then show ?thesis
        unfolding step using False c1 small_result [OF d16] um 3 2(2)
        by (auto simp: m_def [symmetric])
    qed
  qed
qed

end

section \<open>The server behind the link\<close>

text \<open>A client with a packet buffer of \<open>k\<close> bytes, whose idle link ends in a server with a buffer of \<open>n\<close>
  bytes and an operating system in state \<open>w\<close>.\<close>

definition server_idle :: "nat \<Rightarrow> 'w \<Rightarrow> 'w server_link_state \<Rightarrow> bool" where
  "server_idle n w l \<longleftrightarrow> link_idle n l \<and> snd (snd l) = w"

definition remote_ok :: "nat \<Rightarrow> nat \<Rightarrow> 'w \<Rightarrow> 'w server_link_state client \<Rightarrow> bool" where
  "remote_ok n k w cl \<longleftrightarrow> length (fst cl) = k \<and> link_idle n (snd cl) \<and> snd (snd (snd cl)) = w"

lemma remote_ok_conn: "remote_ok n k w = conn_ok (server_idle n) k w"
  by (auto simp: remote_ok_def conn_ok_def server_idle_def fun_eq_iff)

interpretation server_conn: rfs_connection "server_link pc px basedir" "server_idle n" n k pc px basedir for pc px basedir n k
proof unfold_locales
  fix w :: 'a and l and b e e' :: "u8 list" and w' timeout
  assume l: "server_idle n w l" and b: "length b = k" and req: "length e + 16 \<le> n" "length e + 16 \<le> k" "length e + 16 < 2 ^ 16"
    and exec: "\<And>suf. length (rpc_packet e @ suf) = n \<Longrightarrow> \<exists>ok suf'. server_execute_request pc px basedir (rpc_packet e @ suf) w =
       Some (ok, rpc_packet e' @ suf', w') \<and> length (rpc_packet e' @ suf') = n"
    and res: "length e' + 16 < 2 ^ 16" "length e' + 16 \<le> k"
  obtain pend m where c: "l = (pend, m, w)" using l by (cases l) (auto simp: server_idle_def)
  then have idle: "link_idle n (pend, m, w)" using l by (simp add: server_idle_def)
  have "length (rpc_packet e @ drop (length e + 16) (rfs_buffer m)) = n" using idle req(1) by (simp add: link_idle_def)
  then obtain ok suf' where ex: "server_execute_request pc px basedir (rpc_packet e @ drop (length e + 16) (rfs_buffer m)) w =
      Some (ok, rpc_packet e' @ suf', w')" "length (rpc_packet e' @ suf') = n"
    using exec by blast
  show "\<exists>l'. rfsch_send_request_read_response (server_link pc px basedir) timeout (rpc_packet e @ drop (length e + 16) b, l) =
      Some (True, rpc_packet e' @ drop (length e' + 16) (rpc_packet e @ drop (length e + 16) b), l') \<and> server_idle n w' l'"
    using rpc_exchange [OF idle b req ex res, of timeout] by (auto simp: c server_idle_def)
qed

lemmas remote_open = server_conn.conn_open [folded remote_ok_conn]
lemmas remote_close = server_conn.conn_close [folded remote_ok_conn]
lemmas remote_lseek = server_conn.conn_lseek [folded remote_ok_conn]
lemmas remote_write_r = server_conn.conn_write_r [folded remote_ok_conn]
lemmas remote_read_r = server_conn.conn_read_r [folded remote_ok_conn]

section \<open>Properties\<close>

text \<open>Over an idle link to the server, opening, positioning and closing a remote file return
  what the operating system of the PC returns for the translated arguments, change its state as that
  call does, and leave the link idle again.\<close>

theorem rfs_ops_transparent:
  assumes "remote_ok n k w cl" and "length path + 35 \<le> n" "length path + 35 \<le> k" "n < 2 ^ 16"
    and "0 \<notin> set path" "server_path basedir path = Some full"
    and "px_open px full (os_open_realflags pc (os_open_sys_flags_to_rfs_flags board flags)) w = (fd, w1)"
    and "os_lseek pc px fd off (os_lseek_sys_whence_to_rfs_whence board whence) w1 = (pos, w2)"
    and "px_close px fd w2 = (r, w3)"
  shows "\<exists>cl1 cl2 cl3. rfsc_open (server_link pc px basedir) timeout board path flags mode cl = Some (fd, cl1)
    \<and> rfsc_lseek (server_link pc px basedir) timeout board fd off whence cl1 = Some (pos, cl2)
    \<and> rfsc_close (server_link pc px basedir) timeout fd cl2 = Some (r, cl3) \<and> remote_ok n k w3 cl3"
proof -
  have sz: "33 \<le> n" "33 \<le> k" "23 \<le> n" "23 \<le> k" using assms(2,3) by simp_all
  obtain cl1 where 1: "rfsc_open (server_link pc px basedir) timeout board path flags mode cl = Some (fd, cl1)" "remote_ok n k w1 cl1"
    using remote_open [OF assms(1-7)] by blast
  obtain cl2 where 2: "rfsc_lseek (server_link pc px basedir) timeout board fd off whence cl1 = Some (pos, cl2)" "remote_ok n k w2 cl2"
    using remote_lseek [OF 1(2) sz(1,2) assms(4,8)] by blast
  show ?thesis using remote_close [OF 2(2) sz(3,4) assms(4,9)] 1 2 by blast
qed

text \<open>A system with one file, written at its end and read from a position.\<close>

definition tape_write :: "u8 list \<Rightarrow> u8 list \<times> nat \<Rightarrow> u8 list \<times> nat" where
  "tape_write d w = (fst w @ d, snd w)"

definition tape_rest :: "u8 list \<times> nat \<Rightarrow> u8 list" where
  "tape_rest w = drop (snd w) (fst w)"

definition tape_skip :: "nat \<Rightarrow> u8 list \<times> nat \<Rightarrow> u8 list \<times> nat" where
  "tape_skip c w = (fst w, min (length (fst w)) (c + snd w))"

definition tape_posix :: "(u8 list \<times> nat) posix" where
  "tape_posix = \<lparr>px_open = (\<lambda>_ _ w. (3, w)), px_write = (\<lambda>_ d w. (of_nat (length d), tape_write d w)),
     px_read = (\<lambda>_ c w. ((of_nat (length (take (unat c) (tape_rest w))), take (unat c) (tape_rest w)), tape_skip (unat c) w)),
     px_close = (\<lambda>_ w. (0, w)), px_lseek = (\<lambda>_ off _ w. (off, (fst w, unat off))),
     px_opendir = (\<lambda>_ w. (0, w)), px_readdir = (\<lambda>_ w. (None, w)), px_closedir = (\<lambda>_ w. (0, w))\<rparr>"

definition example_client :: "(u8 list \<times> nat) server_link_state client" where
  "example_client = (replicate 128 0, [], example_mem, [], 0)"

lemma example_client_ok: "remote_ok 256 128 ([], 0) example_client"
  by (simp add: remote_ok_def example_client_def link_idle_def example_mem_def mem_ready_def)

theorem rfs_ops_transparent_witness:
  "\<exists>cl1 cl2 cl3. rfsc_open (server_link linux_flags tape_posix [0x2F]) 1000 newlib_flags [0x61] 0 0 example_client = Some (3, cl1)
    \<and> rfsc_lseek (server_link linux_flags tape_posix [0x2F]) 1000 newlib_flags 3 7 0 cl1 = Some (7, cl2)
    \<and> rfsc_close (server_link linux_flags tape_posix [0x2F]) 1000 3 cl2 = Some (0, cl3) \<and> remote_ok 256 128 ([], 7) cl3"
  by (rule rfs_ops_transparent [OF example_client_ok, where full = "[0x2F, 0x61]" and ?w1.0 = "([], 0)" and ?w2.0 = "([], 7)"])
    (simp_all add: tape_posix_def server_path_def os_lseek_def os_lseek_realwhence_def
      os_lseek_sys_whence_to_rfs_whence_def newlib_flags_def linux_flags_def)

text \<open>Whatever its length, a buffer handed to the write function of the device arrives at the
  file whole, cut into packets that fit the client's and the server's buffer, and a read returns the next bytes of the file up to
  the length asked for or the end of the file. The operating system is assumed to write what it is given and to
  read at its position.\<close>

theorem rfs_transfer_complete:
  assumes "remote_ok n k w cl" and "real + 29 \<le> n" "real + 29 \<le> k" "n < 2 ^ 16" "0 < real"
    and wlaw: "\<And>d w. px_write px fd d w = (of_nat (length d), wr d w)"
      "\<And>w. wr [] w = w" "\<And>c d w. wr (c @ d) w = wr d (wr c w)"
    and rlaw: "\<And>c w. px_read px fd c w = ((of_nat (length (take (unat c) (rem w))), take (unat c) (rem w)), adv (unat c) w)"
      "\<And>c w. rem (adv c w) = drop c (rem w)"
  shows "\<exists>cl1 w2 cl2. rfs_write_r (server_link pc px basedir) timeout real fd data 0 cl = Some (of_nat (length data), cl1)
    \<and> rfs_read_r (server_link pc px basedir) timeout real fd len 0 [] cl1 =
        Some (of_nat (min len (length (rem (wr data w)))), take len (rem (wr data w)), cl2) \<and> remote_ok n k w2 cl2"
proof -
  obtain cl1 where 1: "rfs_write_r (server_link pc px basedir) timeout real fd data 0 cl = Some (of_nat (length data), cl1)"
      "remote_ok n k (wr data w) cl1"
    using remote_write_r [OF assms(2-5) wlaw assms(1), of pc basedir timeout data 0] by auto
  show ?thesis
    using remote_read_r [OF assms(2-5) rlaw 1(2), of pc basedir timeout len 0 "[]"] 1 by auto
qed

theorem rfs_transfer_complete_witness:
  "\<exists>cl1 w2 cl2. rfs_write_r (server_link linux_flags tape_posix [0x2F]) 1000 99 3 (replicate 150 7) 0 example_client =
      Some (of_nat (length (replicate 150 (7 :: u8))), cl1)
    \<and> rfs_read_r (server_link linux_flags tape_posix [0x2F]) 1000 99 3 200 0 [] cl1 =
        Some (of_nat (min 200 (length (tape_rest (tape_write (replicate 150 7) ([], 0))))),
          take 200 (tape_rest (tape_write (replicate 150 7) ([], 0))), cl2) \<and> remote_ok 256 128 w2 cl2"
  by (rule rfs_transfer_complete [OF example_client_ok, where adv = tape_skip])
    (simp_all add: tape_posix_def tape_write_def tape_rest_def tape_skip_def add.commute min_def)

text \<open>Before a request is sent, whatever waits in the receive buffer is read away, into the buffer
  that already holds the request: if the last such byte is not the packet type, the operation
  fails and nothing is sent.\<close>

theorem rfs_stale_byte_breaks_request:
  assumes "bs \<noteq> []" and "last bs \<noteq> TYPE_PKT_SIZE" and "4 \<le> length (fst cl)" and "fst (snd cl) = bs"
  shows "\<exists>b. rfsch_send_request_read_response (server_link pc px basedir) timeout cl = Some (False, b, [], snd (snd cl))"
proof -
  obtain b m w where cl: "cl = (b, bs, m, w)" using assms(4) by (cases cl) auto
  obtain x0 x1 x2 x3 suf where b: "b = x0 # x1 # x2 # x3 # suf"
    using assms(3) by (auto simp: cl numeral_eq_Suc Suc_le_length_iff)
  have "rfsc_drain (server_link pc px basedir) (y # x1 # x2 # x3 # suf) (bs', m, w) =
      Some ((if bs' = [] then y else last bs') # x1 # x2 # x3 # suf, [], m, w)" for y bs'
    by (induction bs' arbitrary: y) (subst rfsc_drain.simps, simp add: server_link_def blit_def)+
  then have "rfsc_drain (server_link pc px basedir) b (bs, m, w) = Some (last bs # x1 # x2 # x3 # suf, [], m, w)"
    using assms(1) b by simp
  moreover obtain n where "eluarpc_get_packet_size (last bs # x1 # x2 # x3 # suf) = Some (True, n)"
    using assms(2) by (auto simp: eluarpc_get_packet_size_def eluarpc_read_expect_def eluarpc_read_u16_def load_def)
  ultimately show ?thesis by (simp add: rfsch_send_request_read_response_def cl)
qed

theorem rfs_stale_byte_breaks_request_witness:
  "\<exists>b. rfsch_send_request_read_response (server_link linux_flags tape_posix [0x2F]) 1000
      (replicate 128 0, [0x58], example_mem, [], 0) = Some (False, b, [], example_mem, [], 0)"
  using rfs_stale_byte_breaks_request [of "[0x58]" "(replicate 128 0, [0x58], example_mem, [], 0)" linux_flags tape_posix "[0x2F]" 1000]
  by simp

end
