(* ===== verification/Mux.thy ===== *)
theory Mux
  imports Uart Rfs_Client
begin

text \<open>
  The service multiplexer on the PC (\<^verbatim>\<open>mux_src/main.c\<close>): it connects the virtual UARTs of
  the board, which share one serial link, with serial ports of the PC, and in the combined mode it
  hands the first service to the remote file system server. The state is that of \<^verbatim>\<open>main\<close>; the
  ports and the link are the bytes written to them. The loop takes the results of
  \<^verbatim>\<open>ser_select_byte\<close> as its input. The interpretations at the end connect the board's UART code with
  the PC's code: the two links of the multiplexer.
\<close>

record 'w mux_state =
  mux_service_id_in :: int
  mux_service_id_out :: int
  mux_prev_sent :: int
  mux_got_esc :: bool
  mux_rfs_service_id :: int
  mux_service_offset :: nat
  mux_ports :: "u8 list list"
  mux_sent :: "u8 list"
  mux_rfs_out :: "u8 list"
  mux_rfs :: "rfs_mem \<times> 'w"

text \<open>The program goes on, has ended with an error, or has accessed memory outside an array.\<close>

datatype 'a mux_run = Running 'a | Exited | Corrupt

definition running :: "'a mux_run \<Rightarrow> 'a option" where
  "running r = (case r of Running s \<Rightarrow> Some s | _ \<Rightarrow> None)"

lemma running_simps [simp]: "running (Running s) = Some s" "running Exited = None" "running Corrupt = None"
  by (simp_all add: running_def)

section \<open>The main loop\<close>

definition transport_send_byte :: "u8 \<Rightarrow> 'w mux_state \<Rightarrow> 'w mux_state" where
  "transport_send_byte data s = s\<lparr>mux_sent := mux_sent s @ [data]\<rparr>"

text \<open>The request to send the service id again.\<close>

definition mux_force_sid :: "'w mux_state \<Rightarrow> 'w mux_state mux_run" where
  "mux_force_sid s =
     (if mux_prev_sent s = -1 then Exited
      else let s = transport_send_byte (word_of_int (mux_service_id_out s)) s;
               s = (if mux_prev_sent s AND SERMUX_ESC_MASK \<noteq> 0 then transport_send_byte SERMUX_ESCAPE_CHAR s else s);
               s = transport_send_byte (word_of_int (mux_prev_sent s AND 0xFF)) s
           in Running (s\<lparr>mux_prev_sent := -1\<rparr>))"

text \<open>A byte for the current service.\<close>

definition mux_deliver ::
  "libc_flags \<Rightarrow> 'w posix \<Rightarrow> u8 list \<Rightarrow> u8 \<Rightarrow> 'w mux_state \<Rightarrow> 'w mux_state mux_run" where
  "mux_deliver lib px basedir c s =
     (if mux_service_id_in s = -1 then Running (transport_send_byte SERMUX_FORCE_SID_CHAR s)
      else if mux_service_id_in s = mux_rfs_service_id s then
        (case rfs_feed lib px basedir c (mux_rfs s) of
           None \<Rightarrow> Corrupt
         | Some (resp, mw) \<Rightarrow> Running (s\<lparr>mux_rfs_out := resp, mux_rfs := mw\<rparr>))
      else let i = mux_service_id_in s - int SERMUX_SERVICE_ID_FIRST - int (mux_service_offset s)
           in if 0 \<le> i \<and> nat i < length (mux_ports s)
              then Running (s\<lparr>mux_ports := (mux_ports s)[nat i := mux_ports s ! nat i @ [c]]\<rparr>)
              else Corrupt)"

definition mux_transport_byte ::
  "libc_flags \<Rightarrow> 'w posix \<Rightarrow> u8 list \<Rightarrow> u8 \<Rightarrow> 'w mux_state \<Rightarrow> 'w mux_state mux_run" where
  "mux_transport_byte lib px basedir c s =
     (if c \<noteq> SERMUX_ESCAPE_CHAR then
        (if SERMUX_SERVICE_ID_FIRST \<le> unat c \<and> unat c \<le> SERMUX_SERVICE_ID_LAST
         then Running (s\<lparr>mux_service_id_in := uint c\<rparr>)
         else if c = SERMUX_FORCE_SID_CHAR then mux_force_sid s
         else if mux_got_esc s then
           (let c = c XOR SERMUX_ESCAPE_XOR_MASK
            in if c \<noteq> SERMUX_ESCAPE_CHAR \<and> c \<noteq> SERMUX_FORCE_SID_CHAR
                  \<and> (unat c < SERMUX_SERVICE_ID_FIRST \<or> unat c > SERMUX_SERVICE_ID_LAST)
               then Exited
               else mux_deliver lib px basedir c (s\<lparr>mux_got_esc := False\<rparr>))
         else mux_deliver lib px basedir c s)
      else Running (s\<lparr>mux_got_esc := True\<rparr>))"

text \<open>A byte to send for the service \<open>temp\<close>.\<close>

definition mux_send :: "nat \<Rightarrow> u8 \<Rightarrow> 'w mux_state \<Rightarrow> 'w mux_state" where
  "mux_send temp c s =
     (let s = s\<lparr>mux_prev_sent := uint c\<rparr>;
          s = (if int temp \<noteq> mux_service_id_out s then transport_send_byte (of_nat temp) s else s);
          s = (if c = SERMUX_ESCAPE_CHAR \<or> c = SERMUX_FORCE_SID_CHAR
                  \<or> SERMUX_SERVICE_ID_FIRST \<le> unat c \<and> unat c \<le> SERMUX_SERVICE_ID_LAST
               then (transport_send_byte (c XOR SERMUX_ESCAPE_XOR_MASK) (transport_send_byte SERMUX_ESCAPE_CHAR s))
                 \<lparr>mux_prev_sent := SERMUX_ESC_MASK OR uint (c XOR SERMUX_ESCAPE_XOR_MASK)\<rparr>
               else transport_send_byte c s)
      in s\<lparr>mux_service_id_out := int temp\<rparr>)"

abbreviation (input) "HND_TRANSPORT_OFFSET \<equiv> (0 :: nat)"
abbreviation (input) "HND_FIRST_VOFFSET \<equiv> (1 :: nat)"

text \<open>The loop, on the results of \<^verbatim>\<open>ser_select_byte\<close>: an index and a byte, or an error. A pending
  response of the remote file system server is sent before the next byte is waited for.\<close>

function mux_loop ::
  "libc_flags \<Rightarrow> 'w posix \<Rightarrow> u8 list \<Rightarrow> (nat \<times> u8) option list \<Rightarrow> 'w mux_state \<Rightarrow> 'w mux_state mux_run" where
  "mux_loop lib px basedir ins s =
     (case mux_rfs_out s of
        c # cs \<Rightarrow> mux_loop lib px basedir ins (mux_send SERMUX_SERVICE_ID_FIRST c (s\<lparr>mux_rfs_out := cs\<rparr>))
      | [] \<Rightarrow>
         (case ins of
            [] \<Rightarrow> Running s
          | None # ins' \<Rightarrow> Exited
          | Some (selidx, c) # ins' \<Rightarrow>
              if selidx = HND_TRANSPORT_OFFSET
              then (case mux_transport_byte lib px basedir c s of
                      Running s' \<Rightarrow> mux_loop lib px basedir ins' s' | Exited \<Rightarrow> Exited | Corrupt \<Rightarrow> Corrupt)
              else mux_loop lib px basedir ins'
                     (mux_send (SERMUX_SERVICE_ID_FIRST + selidx - HND_FIRST_VOFFSET + mux_service_offset s) c s)))"
  by pat_completeness auto

lemma mux_send_rfs_out [simp]: "mux_rfs_out (mux_send i c s) = mux_rfs_out s"
  by (simp add: mux_send_def Let_def transport_send_byte_def)

termination mux_loop
  by (relation "measures [\<lambda>(lib, px, basedir, ins, s). length ins, \<lambda>(lib, px, basedir, ins, s). length (mux_rfs_out s)]")
    auto

declare mux_loop.simps [simp del]

section \<open>The PC as a sender and a receiver\<close>

text \<open>The services of the \<open>n\<close> ports when the first one has number \<open>off\<close>, and with those the service
  of the file system.\<close>

definition host_service :: "nat \<Rightarrow> nat \<Rightarrow> nat \<Rightarrow> bool" where
  "host_service off n i \<longleftrightarrow> SERMUX_SERVICE_ID_FIRST + off \<le> i \<and> i < SERMUX_SERVICE_ID_FIRST + off + n \<and> i \<le> SERMUX_SERVICE_ID_LAST"

definition host_tx_service :: "nat \<Rightarrow> nat \<Rightarrow> nat \<Rightarrow> bool" where
  "host_tx_service off n i \<longleftrightarrow> host_service off n i \<or> off = 1 \<and> i = SERMUX_SERVICE_ID_FIRST"

definition host_rx_inv :: "nat \<Rightarrow> nat \<Rightarrow> 'w mux_state \<Rightarrow> bool" where
  "host_rx_inv off n s \<longleftrightarrow> length (mux_ports s) = n \<and> mux_service_offset s = off
     \<and> (off = 0 \<and> mux_rfs_service_id s = -1 \<or> off = 1 \<and> mux_rfs_service_id s = int SERMUX_SERVICE_ID_FIRST)"

definition host_got :: "nat \<Rightarrow> nat \<Rightarrow> 'w mux_state \<Rightarrow> nat \<Rightarrow> u8 list" where
  "host_got off n s i = (if host_service off n i then mux_ports s ! (i - SERMUX_SERVICE_ID_FIRST - off) else [])"

lemma host_service_range:
  "host_service off n i \<Longrightarrow> SERMUX_SERVICE_ID_FIRST \<le> i \<and> i \<le> SERMUX_SERVICE_ID_LAST"
  "host_tx_service off n i \<Longrightarrow> SERMUX_SERVICE_ID_FIRST \<le> i \<and> i \<le> SERMUX_SERVICE_ID_LAST"
  by (auto simp: host_service_def host_tx_service_def)

lemma mux_send_spec:
  "mux_sent (mux_send i d s) = mux_sent s @ mux_encode (mux_service_id_out s) i d"
  "mux_service_id_out (mux_send i d s) = int i"
  "mux_prev_sent (mux_send i d s) = mux_last d"
  by (simp_all add: mux_send_def Let_def transport_send_byte_def mux_encode_def mux_frame_def mux_reserved_def mux_last_def)

lemma mux_force_sid_spec:
  assumes "mux_prev_sent s \<noteq> -1"
  shows "mux_force_sid s = Running (s\<lparr>mux_sent := mux_sent s @ word_of_int (mux_service_id_out s) # mux_resend (mux_prev_sent s),
    mux_prev_sent := -1\<rparr>)"
  using assms by (simp add: mux_force_sid_def Let_def transport_send_byte_def mux_resend_def)

interpretation host_sender: mux_sender "host_tx_service off n" "\<lambda>_. True" mux_send mux_service_id_out mux_prev_sent
    mux_sent "\<lambda>s. running (mux_transport_byte lib px basedir SERMUX_FORCE_SID_CHAR s)" for off n lib px basedir
  by unfold_locales (auto simp: mux_send_spec mux_transport_byte_def mux_force_sid_spec dest: host_service_range)

text \<open>A data byte, after the escape has been removed.\<close>

lemma mux_transport_data:
  assumes "\<not> mux_reserved b" and "mux_got_esc s \<Longrightarrow> mux_reserved (b XOR SERMUX_ESCAPE_XOR_MASK)"
  shows "mux_transport_byte lib px basedir b s =
    mux_deliver lib px basedir (if mux_got_esc s then b XOR SERMUX_ESCAPE_XOR_MASK else b) (s\<lparr>mux_got_esc := False\<rparr>)"
proof (cases "mux_got_esc s")
  case True
  then show ?thesis using assms by (auto simp: mux_transport_byte_def mux_reserved_def Let_def)
next
  case False
  then have eq: "s\<lparr>mux_got_esc := False\<rparr> = s" by (cases s) simp
  show ?thesis unfolding eq using False assms by (auto simp: mux_transport_byte_def mux_reserved_def)
qed

lemma mux_deliver_port:
  assumes "host_rx_inv off n s" and "host_service off n i" and "mux_service_id_in s = int i"
  shows "\<exists>s'. mux_deliver lib px basedir c s = Running s' \<and> host_rx_inv off n s' \<and> mux_service_id_in s' = int i
    \<and> mux_got_esc s' = mux_got_esc s \<and> host_got off n s' = (host_got off n s)(i := host_got off n s i @ [c])
    \<and> mux_sent s' = mux_sent s"
proof -
  let ?k = "i - SERMUX_SERVICE_ID_FIRST - off"
  have k: "?k < n" "nat (int i - int SERMUX_SERVICE_ID_FIRST - int off) = ?k"
      "0 \<le> int i - int SERMUX_SERVICE_ID_FIRST - int off"
    using assms(2) by (auto simp: host_service_def)
  have inj: "host_service off n j \<Longrightarrow> (j - SERMUX_SERVICE_ID_FIRST - off = ?k) = (j = i)" for j
    using assms(2) by (auto simp: host_service_def)
  have inv: "length (mux_ports s) = n" "mux_service_offset s = off" using assms(1) by (simp_all add: host_rx_inv_def)
  have ids: "int i \<noteq> -1" "mux_rfs_service_id s \<noteq> int i"
    using assms(1,2) by (auto simp: host_rx_inv_def host_service_def)
  let ?s = "s\<lparr>mux_ports := (mux_ports s)[?k := mux_ports s ! ?k @ [c]]\<rparr>"
  have "mux_deliver lib px basedir c s = Running ?s"
    using inv ids k assms(3) by (simp add: mux_deliver_def)
  moreover have "host_rx_inv off n ?s" using assms(1) by (simp add: host_rx_inv_def)
  moreover have "host_got off n ?s = (host_got off n s)(i := host_got off n s i @ [c])"
  proof
    fix j show "host_got off n ?s j = ((host_got off n s)(i := host_got off n s i @ [c])) j"
      using inv(1) k(1) inj [of j] assms(2) by (cases "j = i") (auto simp: host_got_def)
  qed
  ultimately show ?thesis using assms(3) by simp
qed

interpretation host_receiver: mux_receiver "host_service off n" "host_rx_inv off n"
    "\<lambda>c s. running (mux_transport_byte lib px basedir c s)" mux_service_id_in mux_got_esc "host_got off n"
    "\<lambda>_ _. True" mux_sent for off n lib px basedir
proof unfold_locales
  fix s :: "'a mux_state" and i
  assume "host_rx_inv off n s" "host_service off n i"
  then show "\<exists>s'. running (mux_transport_byte lib px basedir (of_nat i) s) = Some s' \<and> host_rx_inv off n s'
      \<and> mux_service_id_in s' = int i \<and> mux_got_esc s' = mux_got_esc s \<and> host_got off n s' = host_got off n s
      \<and> mux_sent s' = mux_sent s"
    by (auto simp: mux_transport_byte_def host_rx_inv_def host_got_def host_service_def fun_eq_iff unat_of_nat
        uint_nat take_bit_nat_eq_self word_unat_eq_iff)
next
  fix s :: "'a mux_state" and b i d
  assume s: "host_rx_inv off n s" "\<not> mux_reserved b" "d = (if mux_got_esc s then b XOR SERMUX_ESCAPE_XOR_MASK else b)"
      "mux_got_esc s \<Longrightarrow> mux_reserved d" "mux_service_id_in s = int i" "host_service off n i"
  have "host_rx_inv off n (s\<lparr>mux_got_esc := False\<rparr>)" "host_got off n (s\<lparr>mux_got_esc := False\<rparr>) = host_got off n s"
    using s(1) by (simp_all add: host_rx_inv_def host_got_def fun_eq_iff)
  then show "\<exists>s'. running (mux_transport_byte lib px basedir b s) = Some s' \<and> host_rx_inv off n s'
      \<and> mux_service_id_in s' = mux_service_id_in s \<and> \<not> mux_got_esc s'
      \<and> host_got off n s' = (host_got off n s)(i := host_got off n s i @ [d]) \<and> mux_sent s' = mux_sent s"
    using mux_deliver_port [of off n "s\<lparr>mux_got_esc := False\<rparr>" i lib px basedir d] s
      mux_transport_data [of b s lib px basedir] by auto
next
  fix s :: "'a mux_state" and b
  assume "host_rx_inv off n s" "\<not> mux_reserved b" "mux_got_esc s \<Longrightarrow> mux_reserved (b XOR SERMUX_ESCAPE_XOR_MASK)"
    "mux_service_id_in s = -1"
  then show "\<exists>s'. running (mux_transport_byte lib px basedir b s) = Some s' \<and> host_rx_inv off n s'
      \<and> mux_service_id_in s' = -1 \<and> \<not> mux_got_esc s' \<and> host_got off n s' = host_got off n s
      \<and> mux_sent s' = mux_sent s @ [SERMUX_FORCE_SID_CHAR]"
    using mux_transport_data [of b s lib px basedir]
    by (auto simp: mux_deliver_def transport_send_byte_def host_rx_inv_def host_got_def fun_eq_iff)
qed (auto simp: mux_transport_byte_def host_rx_inv_def host_got_def fun_eq_iff dest: host_service_range)

section \<open>The two links\<close>

interpretation board_to_host: mux_link "\<lambda>i. board_service cfg i \<and> host_service off n i" "\<lambda>_. config_ok cfg"
    "platform_uart_send cfg" uart_service_id_out uart_last_sent "board_link_out cfg"
    "cmn_rx_handler cfg (SERMUX_PHYS_ID cfg) SERMUX_FORCE_SID_CHAR"
    "host_service off n" "host_rx_inv off n" "\<lambda>c s. running (mux_transport_byte lib px basedir c s)"
    mux_service_id_in mux_got_esc "host_got off n" "\<lambda>_ _. True" mux_sent
  for cfg off n lib px basedir
  by unfold_locales
    (auto dest: board_sender.send_out board_sender.send_sid board_sender.send_prev board_sender.force_resend board_serviceD(1,2))

interpretation host_to_board: mux_link "\<lambda>i. host_tx_service off n i \<and> board_service cfg i" "\<lambda>_. True"
    mux_send mux_service_id_out mux_prev_sent mux_sent "\<lambda>s. running (mux_transport_byte lib px basedir SERMUX_FORCE_SID_CHAR s)"
    "board_service cfg" "board_rx_inv cfg sizes" "cmn_rx_handler cfg (SERMUX_PHYS_ID cfg)"
    uart_service_id_in uart_got_esc "board_got cfg" "\<lambda>i n. n \<le> sizes i" "board_link_out cfg"
  for off n cfg sizes lib px basedir
  by unfold_locales
    (auto simp: mux_send_spec mux_transport_byte_def mux_force_sid_spec dest: board_serviceD(1,2))

section \<open>Requests to the file system server over the multiplexer\<close>

lemma mux_loop_steps:
  "mux_rfs_out s = c # cs \<Longrightarrow> mux_loop lib px basedir ins s =
     mux_loop lib px basedir ins (mux_send SERMUX_SERVICE_ID_FIRST c (s\<lparr>mux_rfs_out := cs\<rparr>))"
  "mux_rfs_out s = [] \<Longrightarrow> mux_loop lib px basedir [] s = Running s"
  "mux_rfs_out s = [] \<Longrightarrow> mux_loop lib px basedir (None # ins) s = Exited"
  "mux_rfs_out s = [] \<Longrightarrow> mux_loop lib px basedir (Some (0, b) # ins) s =
     (case mux_transport_byte lib px basedir b s of
        Running s' \<Rightarrow> mux_loop lib px basedir ins s' | Exited \<Rightarrow> Exited | Corrupt \<Rightarrow> Corrupt)"
  "mux_rfs_out s = [] \<Longrightarrow> mux_loop lib px basedir (Some (Suc i, b) # ins) s =
     mux_loop lib px basedir ins (mux_send (SERMUX_SERVICE_ID_FIRST + i + mux_service_offset s) b s)"
  by (subst mux_loop.simps, simp)+

text \<open>Sending depends on the link part of the state only, and changes nothing else.\<close>

lemma mux_send_frame [simp]:
  "mux_service_id_in (mux_send i d s) = mux_service_id_in s" "mux_got_esc (mux_send i d s) = mux_got_esc s"
  "mux_rfs (mux_send i d s) = mux_rfs s" "mux_rfs_service_id (mux_send i d s) = mux_rfs_service_id s"
  "mux_ports (mux_send i d s) = mux_ports s" "mux_service_offset (mux_send i d s) = mux_service_offset s"
  by (simp_all add: mux_send_def Let_def transport_send_byte_def)

lemma send_all_same_link:
  "mux_sent s = mux_sent t \<Longrightarrow> mux_service_id_out s = mux_service_id_out t \<Longrightarrow>
    mux_sent (send_all mux_send ms s) = mux_sent (send_all mux_send ms t)
    \<and> mux_service_id_out (send_all mux_send ms s) = mux_service_id_out (send_all mux_send ms t)"
  by (induction ms arbitrary: s t) (auto simp: mux_send_spec)

lemma send_all_append: "send_all send (as @ bs) s = send_all send bs (send_all send as s)"
  by (induction send as s rule: send_all.induct) simp_all

abbreviation rfs_data :: "u8 list \<Rightarrow> (nat \<times> u8) list" where
  "rfs_data bs \<equiv> map (Pair SERMUX_SERVICE_ID_FIRST) bs"

abbreviation from_transport :: "u8 list \<Rightarrow> (nat \<times> u8) option list" where
  "from_transport bs \<equiv> map (\<lambda>b. Some (HND_TRANSPORT_OFFSET, b)) bs"

text \<open>A pending response is sent whole before the next byte is taken.\<close>

lemma mux_loop_response:
  assumes "mux_rfs_out s = r"
  shows "\<exists>s'. (\<forall>ins. mux_loop lib px basedir ins s = mux_loop lib px basedir ins s') \<and> mux_rfs_out s' = []
    \<and> mux_sent s' = mux_sent (send_all mux_send (rfs_data r) s)
    \<and> mux_service_id_out s' = mux_service_id_out (send_all mux_send (rfs_data r) s)
    \<and> mux_service_id_in s' = mux_service_id_in s \<and> mux_got_esc s' = mux_got_esc s \<and> mux_rfs s' = mux_rfs s
    \<and> mux_ports s' = mux_ports s \<and> mux_service_offset s' = mux_service_offset s \<and> mux_rfs_service_id s' = mux_rfs_service_id s"
  using assms
proof (induction r arbitrary: s)
  case (Cons c cs)
  let ?t = "mux_send SERMUX_SERVICE_ID_FIRST c (s\<lparr>mux_rfs_out := cs\<rparr>)"
  have "mux_sent ?t = mux_sent (mux_send SERMUX_SERVICE_ID_FIRST c s)"
      "mux_service_id_out ?t = mux_service_id_out (mux_send SERMUX_SERVICE_ID_FIRST c s)"
    by (simp_all add: mux_send_spec)
  from send_all_same_link [OF this, of "rfs_data cs"] Cons.IH [of ?t] show ?case
    by (auto simp: mux_loop_steps(1) [OF Cons.prems])
qed auto

lemma mux_deliver_rfs:
  assumes "host_rx_inv 1 n h" and "mux_service_id_in h = int SERMUX_SERVICE_ID_FIRST"
    and "rfs_feed lib px basedir d (mux_rfs h) = Some (r, mw)"
  shows "mux_deliver lib px basedir d h = Running (h\<lparr>mux_rfs_out := r, mux_rfs := mw\<rparr>)"
  using assms by (simp add: mux_deliver_def host_rx_inv_def)

lemma mux_loop_rfs_frame:
  assumes h: "host_rx_inv 1 n h" "\<not> mux_got_esc h" "mux_rfs_out h = []"
    and sid: "mux_service_id_in h = int SERMUX_SERVICE_ID_FIRST"
    and feed: "rfs_feed lib px basedir d (mux_rfs h) = Some (r, mw)"
  shows "mux_loop lib px basedir (from_transport (mux_frame d) @ ins) h =
    mux_loop lib px basedir ins (h\<lparr>mux_got_esc := False, mux_rfs_out := r, mux_rfs := mw\<rparr>)"
proof -
  have del: "mux_deliver lib px basedir d (h\<lparr>mux_got_esc := False\<rparr>) =
      Running (h\<lparr>mux_got_esc := False, mux_rfs_out := r, mux_rfs := mw\<rparr>)"
    using mux_deliver_rfs [of n "h\<lparr>mux_got_esc := False\<rparr>" lib px basedir d r mw] h sid feed
    by (simp add: host_rx_inv_def)
  show ?thesis
  proof (cases "mux_reserved d")
    case True
    have "mux_transport_byte lib px basedir SERMUX_ESCAPE_CHAR h = Running (h\<lparr>mux_got_esc := True\<rparr>)"
      by (simp add: mux_transport_byte_def)
    moreover have "mux_transport_byte lib px basedir (d XOR SERMUX_ESCAPE_XOR_MASK) (h\<lparr>mux_got_esc := True\<rparr>) =
        Running (h\<lparr>mux_got_esc := False, mux_rfs_out := r, mux_rfs := mw\<rparr>)"
      using mux_transport_data [OF mux_reserved_xor [OF True], of "h\<lparr>mux_got_esc := True\<rparr>" lib px basedir] True del by simp
    ultimately show ?thesis using True h(3) by (simp add: mux_frame_def mux_loop_steps)
  next
    case False
    then show ?thesis
      using mux_transport_data [OF False, of h lib px basedir] h(2,3) del by (simp add: mux_frame_def mux_loop_steps)
  qed
qed

lemma mux_loop_rfs_byte:
  assumes h: "host_rx_inv 1 n h" "\<not> mux_got_esc h" "mux_rfs_out h = []" "out \<noteq> -1 \<longrightarrow> mux_service_id_in h = out"
    and feed: "rfs_feed lib px basedir d (mux_rfs h) = Some (r, mw)"
  shows "mux_loop lib px basedir (from_transport (mux_encode out SERMUX_SERVICE_ID_FIRST d) @ ins) h =
    mux_loop lib px basedir ins
      (h\<lparr>mux_service_id_in := int SERMUX_SERVICE_ID_FIRST, mux_got_esc := False, mux_rfs_out := r, mux_rfs := mw\<rparr>)"
proof -
  let ?h = "h\<lparr>mux_service_id_in := int SERMUX_SERVICE_ID_FIRST\<rparr>"
  have frame: "mux_loop lib px basedir (from_transport (mux_frame d) @ ins) ?h =
      mux_loop lib px basedir ins (?h\<lparr>mux_got_esc := False, mux_rfs_out := r, mux_rfs := mw\<rparr>)"
    by (rule mux_loop_rfs_frame [of n]) (use h feed in \<open>simp_all add: host_rx_inv_def\<close>)
  show ?thesis
  proof (cases "out = int SERMUX_SERVICE_ID_FIRST")
    case True
    then have "?h = h" using h(4) by (cases h) auto
    then show ?thesis using frame True by (simp add: mux_encode_def)
  next
    case False
    then show ?thesis
      using frame h(3) by (simp add: mux_encode_def mux_loop_steps mux_transport_byte_def)
  qed
qed

text \<open>What the board sends on the first service reaches the file system server, and what the
  server answers is sent on the first service.\<close>

lemma rfs_stream:
  assumes "board_service cfg SERMUX_SERVICE_ID_FIRST"
    and "host_rx_inv 1 n h" "\<not> mux_got_esc h" "mux_rfs_out h = []"
    and "uart_service_id_out b \<noteq> -1 \<longrightarrow> mux_service_id_in h = uart_service_id_out b"
    and "rfs_feed_all lib px basedir cs (mux_rfs h) = Some (r, mw)"
  shows "\<exists>bs h'. board_link_out cfg (send_all (platform_uart_send cfg) (rfs_data cs) b) = board_link_out cfg b @ bs
    \<and> mux_loop lib px basedir (from_transport bs) h = Running h' \<and> mux_rfs h' = mw
    \<and> host_rx_inv 1 n h' \<and> \<not> mux_got_esc h' \<and> mux_rfs_out h' = []
    \<and> mux_sent h' = mux_sent (send_all mux_send (rfs_data r) h)
    \<and> mux_service_id_out h' = mux_service_id_out (send_all mux_send (rfs_data r) h)
    \<and> (uart_service_id_out (send_all (platform_uart_send cfg) (rfs_data cs) b) \<noteq> -1 \<longrightarrow>
        mux_service_id_in h' = uart_service_id_out (send_all (platform_uart_send cfg) (rfs_data cs) b))"
  using assms(2-)
proof (induction cs arbitrary: b h r)
  case Nil
  then show ?case by (intro exI [of _ "[]"] exI [of _ h]) (auto simp: mux_loop_steps)
next
  case (Cons c cs)
  obtain r1 mw1 r2 where feed: "rfs_feed lib px basedir c (mux_rfs h) = Some (r1, mw1)"
      "rfs_feed_all lib px basedir cs mw1 = Some (r2, mw)" "r = r1 @ r2"
    using Cons.prems(5) by (auto simp: bind_eq_Some_conv)
  let ?e = "mux_encode (uart_service_id_out b) SERMUX_SERVICE_ID_FIRST c"
  let ?h = "h\<lparr>mux_service_id_in := int SERMUX_SERVICE_ID_FIRST, mux_got_esc := False, mux_rfs_out := r1, mux_rfs := mw1\<rparr>"
  have same: "mux_sent (send_all mux_send (rfs_data r1) ?h) = mux_sent (send_all mux_send (rfs_data r1) h)"
      "mux_service_id_out (send_all mux_send (rfs_data r1) ?h) = mux_service_id_out (send_all mux_send (rfs_data r1) h)"
    using send_all_same_link [of ?h h "rfs_data r1"] by simp_all
  obtain h1 where h1: "\<And>ins. mux_loop lib px basedir ins ?h = mux_loop lib px basedir ins h1" "mux_rfs_out h1 = []"
      "mux_sent h1 = mux_sent (send_all mux_send (rfs_data r1) h)"
      "mux_service_id_out h1 = mux_service_id_out (send_all mux_send (rfs_data r1) h)"
      "mux_service_id_in h1 = int SERMUX_SERVICE_ID_FIRST" "\<not> mux_got_esc h1" "mux_rfs h1 = mw1" "host_rx_inv 1 n h1"
    using mux_loop_response [of ?h r1 lib px basedir] same Cons.prems(1) by (auto simp: host_rx_inv_def)
  let ?b = "platform_uart_send cfg SERMUX_SERVICE_ID_FIRST c b"
  note b = board_send [OF assms(1), of c b]
  have "mux_loop lib px basedir (from_transport ?e @ ins) h = mux_loop lib px basedir ins h1" for ins
    using mux_loop_rfs_byte [OF Cons.prems(1-4) feed(1), of ins] h1(1) by simp
  moreover obtain bs h' where "board_link_out cfg (send_all (platform_uart_send cfg) (rfs_data cs) ?b) = board_link_out cfg ?b @ bs"
      "mux_loop lib px basedir (from_transport bs) h1 = Running h'" "mux_rfs h' = mw"
      "host_rx_inv 1 n h'" "\<not> mux_got_esc h'" "mux_rfs_out h' = []"
      "mux_sent h' = mux_sent (send_all mux_send (rfs_data r2) h1)"
      "mux_service_id_out h' = mux_service_id_out (send_all mux_send (rfs_data r2) h1)"
      "uart_service_id_out (send_all (platform_uart_send cfg) (rfs_data cs) ?b) \<noteq> -1 \<longrightarrow>
        mux_service_id_in h' = uart_service_id_out (send_all (platform_uart_send cfg) (rfs_data cs) ?b)"
    using Cons.IH [of h1 ?b r2] h1 feed(2) b by auto
  ultimately show ?case
    using b send_all_same_link [OF h1(3,4), of "rfs_data r2"]
    by (intro exI [of _ "?e @ bs"] exI [of _ h']) (simp add: feed(3) send_all_append)
qed

section \<open>Properties\<close>

lemma board_got_bound:
  assumes "board_rx_inv cfg sizes s" and "board_service cfg i"
  shows "length (board_got cfg s i) \<le> sizes i"
proof -
  have "buf_inv (vuart_buf cfg s i)" "buf_realsize (vuart_buf cfg s i) = sizes i"
    using assms by (auto simp: board_rx_inv_def)
  then show ?thesis using assms(2) by (auto simp: board_got_def buf_inv_def)
qed

lemma board_send_frame [simp]:
  "uart_bufs (platform_uart_send cfg i d s) = uart_bufs s" "uart_service_id_in (platform_uart_send cfg i d s) = uart_service_id_in s"
  "uart_got_esc (platform_uart_send cfg i d s) = uart_got_esc s"
  by (simp_all add: platform_uart_send_def Let_def platform_s_uart_send_def)

lemma board_send_all_frame [simp]:
  "uart_bufs (send_all (platform_uart_send cfg) ms s) = uart_bufs s"
  "uart_service_id_in (send_all (platform_uart_send cfg) ms s) = uart_service_id_in s"
  "uart_got_esc (send_all (platform_uart_send cfg) ms s) = uart_got_esc s"
  by (induction "platform_uart_send cfg" ms s rule: send_all.induct) simp_all

text \<open>A board with two virtual UARTs and a PC with a port and the file system server, for examples.\<close>

definition example_board :: uart_state where
  "example_board = \<lparr>uart_service_id_in = -1, uart_service_id_out = -1, uart_got_esc = False,
     uart_last_sent = -1, uart_bufs = (\<lambda>_ _. \<lparr>logsize = 5, logdsize = 0, wptr = 0, rptr = 0, count = 0, buf = Some (replicate 32 0)\<rparr>),
     uart_tx = [], uart_hw_rx = (\<lambda>_. []), uart_handlers = [], prev_uart_rx_handler = None, uart_rx_int = (\<lambda>_. False),
     uart_chained = []\<rparr>"

definition example_mux :: "(u8 list \<times> nat) mux_state" where
  "example_mux = \<lparr>mux_service_id_in = -1, mux_service_id_out = -1, mux_prev_sent = -1, mux_got_esc = False,
     mux_rfs_service_id = 0xD0, mux_service_offset = 1, mux_ports = [[]], mux_sent = [], mux_rfs_out = [],
     mux_rfs = (example_mem, [], 0)\<rparr>"

lemma example_mux_inv: "host_rx_inv 1 1 example_mux"
  by (simp add: host_rx_inv_def example_mux_def)

lemma example_services: "board_service example_config 0xD0" "board_service example_config 0xD1" "host_service 1 1 0xD1"
  using example_config_ok by (simp_all add: board_service_def example_config_def host_service_def)

lemma example_board_inv: "board_rx_inv example_config (\<lambda>_. 32) example_board"
proof -
  have "buf_inv (vuart_buf example_config example_board i)" for i
    by (auto simp: vuart_buf_def example_board_def buf_inv_def buf_realsize_def buf_realdsize_def push_bit_eq_mult intro!: exI [of _ "0 :: nat"])
  then show ?thesis
    using example_config_ok by (simp add: board_rx_inv_def) (simp add: vuart_buf_def example_board_def buf_realsize_def push_bit_eq_mult)
qed

lemma example_board_got: "board_got cfg example_board i = []"
  by (simp add: board_got_def vuart_buf_def example_board_def buf_elems_def)

text \<open>C11: The bytes the programs on the board write to the virtual UARTs, in any interleaving, arrive at the
  ports of the PC: each port gets the bytes of its service, in order, whatever their values, and the two
  ends still agree on the current service afterwards.\<close>

theorem mux_board_to_host:
  assumes "config_ok cfg" and "host_rx_inv off n h" and "\<not> mux_got_esc h"
    and "uart_service_id_out b \<noteq> -1 \<longrightarrow> mux_service_id_in h = uart_service_id_out b"
    and "\<forall>(i, d) \<in> set ms. board_service cfg i \<and> host_service off n i"
  shows "\<exists>bs h'. board_link_out cfg (send_all (platform_uart_send cfg) ms b) = board_link_out cfg b @ bs
    \<and> run_bytes (\<lambda>c s. running (mux_transport_byte lib px basedir c s)) bs h = Some h'
    \<and> (\<forall>i. host_got off n h' i = host_got off n h i @ of_service i ms) \<and> mux_sent h' = mux_sent h
    \<and> (uart_service_id_out (send_all (platform_uart_send cfg) ms b) \<noteq> -1 \<longrightarrow>
        mux_service_id_in h' = uart_service_id_out (send_all (platform_uart_send cfg) ms b))"
  using board_to_host.link_delivers [of cfg off n b h ms] assms unfolding board_to_host.in_sync_def by blast

theorem mux_board_to_host_witness:
  "\<exists>bs h'. board_link_out example_config (send_all (platform_uart_send example_config) [(0xD1, 0xC0), (0xD1, 65)] example_board) =
      board_link_out example_config example_board @ bs
    \<and> run_bytes (\<lambda>c s. running (mux_transport_byte linux_flags tape_posix [0x2F] c s)) bs example_mux = Some h'
    \<and> host_got 1 1 h' 0xD1 = [0xC0, 65]"
proof -
  have "host_got 1 1 example_mux 0xD1 = []" by (simp add: host_got_def example_mux_def)
  then show ?thesis
    using mux_board_to_host [OF example_config_ok example_mux_inv, where b = example_board
        and ms = "[(0xD1, 0xC0), (0xD1, 65)]" and lib = linux_flags and px = tape_posix and basedir = "[0x2F]"] example_services
    by (auto simp: example_mux_def example_board_def)
qed

text \<open>C26: The bytes from the ports of the PC and from the file system server arrive in the buffers of the virtual
  UARTs, in order and whatever their values, as long as the buffers have room.\<close>

theorem mux_host_to_board:
  assumes "board_rx_inv cfg sizes b" and "\<not> uart_got_esc b"
    and "mux_service_id_out h \<noteq> -1 \<longrightarrow> uart_service_id_in b = mux_service_id_out h"
    and "\<forall>(i, d) \<in> set ms. host_tx_service off n i \<and> board_service cfg i"
    and "\<forall>i. board_service cfg i \<longrightarrow> length (board_got cfg b i) + length (of_service i ms) \<le> sizes i"
  shows "\<exists>bs b'. mux_sent (send_all mux_send ms h) = mux_sent h @ bs
    \<and> run_bytes (cmn_rx_handler cfg (SERMUX_PHYS_ID cfg)) bs b = Some b' \<and> board_rx_inv cfg sizes b'
    \<and> (\<forall>i. board_got cfg b' i = board_got cfg b i @ of_service i ms) \<and> board_link_out cfg b' = board_link_out cfg b"
  using host_to_board.link_delivers [of cfg sizes h b ms off n] assms unfolding host_to_board.in_sync_def by blast

theorem mux_host_to_board_witness:
  "\<exists>bs b'. mux_sent (send_all mux_send [(0xD0, 1), (0xD1, 0xFF), (0xD0, 2)] example_mux) = mux_sent example_mux @ bs
    \<and> run_bytes (cmn_rx_handler example_config (SERMUX_PHYS_ID example_config)) bs example_board = Some b'
    \<and> board_got example_config b' 0xD0 = [1, 2] \<and> board_got example_config b' 0xD1 = [0xFF]"
proof -
  have "length (of_service i [(0xD0, 1), (0xD1, 0xFF), (0xD0, 2)]) \<le> 32" for i by (simp add: of_service_def)
  moreover have "\<not> uart_got_esc example_board" "mux_service_id_out example_mux = -1"
    by (simp_all add: example_board_def example_mux_def)
  ultimately have "\<exists>bs b'. mux_sent (send_all mux_send [(0xD0, 1), (0xD1, 0xFF), (0xD0, 2)] example_mux) = mux_sent example_mux @ bs
      \<and> run_bytes (cmn_rx_handler example_config (SERMUX_PHYS_ID example_config)) bs example_board = Some b'
      \<and> board_rx_inv example_config (\<lambda>_. 32) b'
      \<and> (\<forall>i. board_got example_config b' i = board_got example_config example_board i @ of_service i [(0xD0, 1), (0xD1, 0xFF), (0xD0, 2)])
      \<and> board_link_out example_config b' = board_link_out example_config example_board"
    by (intro mux_host_to_board [OF example_board_inv, where off = 1 and n = 1])
      (simp_all add: example_services example_services [unfolded One_nat_def] example_board_got host_tx_service_def)
  then obtain bs b' where "mux_sent (send_all mux_send [(0xD0, 1), (0xD1, 0xFF), (0xD0, 2)] example_mux) = mux_sent example_mux @ bs"
      "run_bytes (cmn_rx_handler example_config (SERMUX_PHYS_ID example_config)) bs example_board = Some b'"
      "\<And>i. board_got example_config b' i = of_service i [(0xD0, 1), (0xD1, 0xFF), (0xD0, 2)]"
    unfolding example_board_got by auto
  then show ?thesis by (intro exI [of _ bs] exI [of _ b']) simp
qed

text \<open>After the multiplexer has been restarted, the first byte it cannot place makes it ask for the service;
  the board answers with the service id and the byte again, and the byte reaches its port.\<close>

theorem mux_restart_resync:
  assumes "config_ok cfg" and "host_rx_inv off n h" and "\<not> mux_got_esc h" and "mux_service_id_in h = -1"
    and "board_service cfg i" "host_service off n i" and "uart_service_id_out b = int i"
  shows "\<exists>h1 b2 bs h2. run_bytes (\<lambda>c s. running (mux_transport_byte lib px basedir c s)) (mux_encode (int i) i d) h = Some h1
    \<and> mux_sent h1 = mux_sent h @ [SERMUX_FORCE_SID_CHAR] \<and> host_got off n h1 = host_got off n h
    \<and> cmn_rx_handler cfg (SERMUX_PHYS_ID cfg) SERMUX_FORCE_SID_CHAR (platform_uart_send cfg i d b) = Some b2
    \<and> board_link_out cfg b2 = board_link_out cfg (platform_uart_send cfg i d b) @ bs
    \<and> run_bytes (\<lambda>c s. running (mux_transport_byte lib px basedir c s)) bs h1 = Some h2
    \<and> host_got off n h2 = (host_got off n h)(i := host_got off n h i @ [d]) \<and> mux_service_id_in h2 = int i"
  using board_to_host.link_resync [where cfg = cfg and off = off and n = n and r = h and i = i and s = b and d = d
      and lib = lib and px = px and basedir = basedir] assms unfolding assms(7) by blast

theorem mux_restart_resync_witness:
  "\<exists>h1 b2 bs h2. run_bytes (\<lambda>c s. running (mux_transport_byte linux_flags tape_posix [0x2F] c s)) (mux_encode 0xD1 0xD1 7) example_mux = Some h1
    \<and> cmn_rx_handler example_config (SERMUX_PHYS_ID example_config) SERMUX_FORCE_SID_CHAR
        (platform_uart_send example_config 0xD1 7 (example_board\<lparr>uart_service_id_out := 0xD1\<rparr>)) = Some b2
    \<and> board_link_out example_config b2 =
        board_link_out example_config (platform_uart_send example_config 0xD1 7 (example_board\<lparr>uart_service_id_out := 0xD1\<rparr>)) @ bs
    \<and> run_bytes (\<lambda>c s. running (mux_transport_byte linux_flags tape_posix [0x2F] c s)) bs h1 = Some h2
    \<and> host_got 1 1 h2 0xD1 = [7]"
proof -
  have "host_got 1 1 example_mux 0xD1 = []" "\<not> mux_got_esc example_mux" "mux_service_id_in example_mux = -1"
    by (simp_all add: host_got_def example_mux_def)
  then show ?thesis
    using mux_restart_resync [OF example_config_ok example_mux_inv _ _ example_services(2,3),
        of "example_board\<lparr>uart_service_id_out := 0xD1\<rparr>" linux_flags tape_posix "[0x2F]" 7] by fastforce
qed

text \<open>C4: A request that the board sends to the remote file system over the multiplexer is executed once by the
  server on the PC, and the server's response arrives in the buffer of the virtual UART it came from.\<close>

theorem mux_rfs_round_trip:
  assumes svc: "board_service cfg SERMUX_SERVICE_ID_FIRST"
    and b: "board_rx_inv cfg sizes b" "\<not> uart_got_esc b" "mux_service_id_out h \<noteq> -1 \<longrightarrow> uart_service_id_in b = mux_service_id_out h"
    and h: "host_rx_inv 1 n h" "\<not> mux_got_esc h" "mux_rfs_out h = []"
      "uart_service_id_out b \<noteq> -1 \<longrightarrow> mux_service_id_in h = uart_service_id_out b"
    and m: "mux_rfs h = (m, w)" "mem_ready m" "length (rfs_buffer m) = k" "length e + 16 \<le> k" "k < 2 ^ 16"
    and exec: "server_execute_request lib px basedir (rpc_packet e @ drop (length e + 16) (rfs_buffer m)) w =
      Some (ok, rpc_packet e' @ suf, w')"
    and resp: "length (rpc_packet e' @ suf) = k"
      "length (board_got cfg b SERMUX_SERVICE_ID_FIRST) + length (rpc_packet e') \<le> sizes SERMUX_SERVICE_ID_FIRST"
  shows "\<exists>bs h' rs b'. board_link_out cfg (send_all (platform_uart_send cfg) (rfs_data (rpc_packet e)) b) = board_link_out cfg b @ bs
    \<and> mux_loop lib px basedir (from_transport bs) h = Running h' \<and> snd (mux_rfs h') = w' \<and> mux_sent h' = mux_sent h @ rs
    \<and> run_bytes (cmn_rx_handler cfg (SERMUX_PHYS_ID cfg)) rs (send_all (platform_uart_send cfg) (rfs_data (rpc_packet e)) b) = Some b'
    \<and> board_got cfg b' = (board_got cfg b)(SERMUX_SERVICE_ID_FIRST := board_got cfg b SERMUX_SERVICE_ID_FIRST @ rpc_packet e')"
proof -
  let ?b = "send_all (platform_uart_send cfg) (rfs_data (rpc_packet e)) b"
  have e16: "length e + 16 < 2 ^ 16" "length e' + 16 < 2 ^ 16" using m(4,5) resp(1) by simp_all
  obtain m' where feed: "rfs_feed_all lib px basedir (rpc_packet e) (mux_rfs h) = Some (rpc_packet e', m', w')"
    using serve_packet [OF m(2-4) e16(1) exec resp(1) e16(2)] m(1) by auto
  obtain bs h' where 1: "board_link_out cfg ?b = board_link_out cfg b @ bs" "mux_loop lib px basedir (from_transport bs) h = Running h'"
      "mux_rfs h' = (m', w')" "mux_sent h' = mux_sent (send_all mux_send (rfs_data (rpc_packet e')) h)"
    using rfs_stream [OF svc h feed] by blast
  have svcs: "\<forall>(i, d) \<in> set (rfs_data (rpc_packet e')). host_tx_service 1 n i \<and> board_service cfg i"
    using svc by (auto simp: host_tx_service_def)
  have of_svc: "of_service i (rfs_data xs) = (if i = SERMUX_SERVICE_ID_FIRST then xs else [])" for i xs
    by (induction xs) auto
  have b': "board_rx_inv cfg sizes ?b" "board_got cfg ?b = board_got cfg b" using b(1) board_rx_frame [of ?b b] by simp_all
  then have "\<forall>i. board_service cfg i \<longrightarrow> length (board_got cfg ?b i) + length (of_service i (rfs_data (rpc_packet e'))) \<le> sizes i"
    using resp(2) board_got_bound [OF b(1)] by (auto simp: of_svc)
  then obtain rs b2 where "mux_sent h' = mux_sent h @ rs"
      "run_bytes (cmn_rx_handler cfg (SERMUX_PHYS_ID cfg)) rs ?b = Some b2"
      "\<forall>i. board_got cfg b2 i = board_got cfg b i @ of_service i (rfs_data (rpc_packet e'))"
    using host_to_board.link_delivers [OF _ svcs, of sizes h ?b] b b' 1(4) unfolding host_to_board.in_sync_def by auto
  then show ?thesis using 1 by (intro exI [of _ bs] exI [of _ h'] exI [of _ rs] exI [of _ b2]) (auto simp: of_svc)
qed

theorem mux_rfs_round_trip_witness:
  "\<exists>bs h' rs b' e e'. rpc_packet e = req_close 3 \<and> rpc_packet e' = res_close 0
    \<and> board_link_out example_config (send_all (platform_uart_send example_config) (rfs_data (rpc_packet e)) example_board) =
        board_link_out example_config example_board @ bs
    \<and> mux_loop linux_flags tape_posix [0x2F] (from_transport bs) example_mux = Running h' \<and> mux_sent h' = mux_sent example_mux @ rs
    \<and> run_bytes (cmn_rx_handler example_config (SERMUX_PHYS_ID example_config)) rs
        (send_all (platform_uart_send example_config) (rfs_data (rpc_packet e)) example_board) = Some b'
    \<and> board_got example_config b' 0xD0 = rpc_packet e'"
proof -
  obtain e e' where e: "req_close 3 = rpc_packet e" "res_close 0 = rpc_packet e'"
    using messages_are_packets(7,8) unfolding is_packet_def by blast
  have len: "length e + 16 = 23" "length e' + 16 = 22"
    using req_close_ok(2) [of 3] res_close_ok(2) [of 0] e by simp_all
  define suf where "suf = drop 22 (rpc_packet e @ drop 23 (rfs_buffer example_mem))"
  have exec: "server_execute_request linux_flags tape_posix [0x2F] (rpc_packet e @ drop 23 (rfs_buffer example_mem)) ([], 0) =
      Some (True, rpc_packet e' @ suf, [], 0)"
    using exec_close [of tape_posix 3 "([], 0)" 0 "([], 0)" linux_flags "[0x2F]" "drop 23 (rfs_buffer example_mem)"] e
    by (simp add: tape_posix_def suf_def)
  have mem: "mux_rfs example_mux = (example_mem, [], 0)" "mem_ready example_mem" "length (rfs_buffer example_mem) = 256"
    by (simp_all add: example_mux_def example_mem_def mem_ready_def)
  have st: "\<not> uart_got_esc example_board" "mux_service_id_out example_mux = -1" "\<not> mux_got_esc example_mux"
      "mux_rfs_out example_mux = []" "uart_service_id_out example_board = -1"
    by (simp_all add: example_board_def example_mux_def)
  have "length (rpc_packet e' @ suf) = 256" using mem(3) len by (simp add: suf_def)
  then show ?thesis
    using mux_rfs_round_trip [OF example_services(1) example_board_inv _ _ example_mux_inv _ _ _ mem _ _ exec [folded len(1)]]
      st len example_board_got e by fastforce
qed

text \<open>The multiplexer does not check that a service the board selects has a port: a data byte for a
  service beyond the ports it was started with accesses the array of services out of range.\<close>

theorem mux_missing_port:
  assumes "host_rx_inv off n h" and "mux_service_id_in h = int i"
    and "SERMUX_SERVICE_ID_FIRST + off + n \<le> i" and "\<not> mux_reserved c" and "\<not> mux_got_esc h"
  shows "mux_transport_byte lib px basedir c h = Corrupt"
proof -
  have "mux_service_id_in h \<noteq> mux_rfs_service_id h" "mux_service_id_in h \<noteq> -1"
    using assms(1-3) by (auto simp: host_rx_inv_def)
  then show ?thesis
    using assms mux_transport_data [of c h lib px basedir] by (auto simp: mux_deliver_def host_rx_inv_def Let_def)
qed

theorem mux_missing_port_witness:
  "mux_transport_byte linux_flags tape_posix [0x2F] 65 (example_mux\<lparr>mux_service_id_in := 0xD2\<rparr>) = Corrupt"
  by (rule mux_missing_port [where off = 1 and n = 1 and i = "0xD2"])
    (simp_all add: host_rx_inv_def example_mux_def mux_reserved_cases)

end
