(* ===== verification/Timers.thy ===== *)
theory Timers
  imports Elua_Int "HOL-Library.Monad_Syntax"
begin

text \<open>
  Timers, \<^verbatim>\<open>src/common_tmr.c\<close>: the virtual timers, which one hardware timer interrupt advances, the
  operations that dispatch between virtual timers, the system timer and the timers of the
  platform, and the generic system timer. Loops that wait for an interrupt run the timer callback; a
  wait that never ends is \<^const>\<open>None\<close>. \<open>vtimer\<close> is the abstract timer of which the packed
  arrays of the code are a representation. The lemmas show that the callback is one step of every
  abstract timer, what match interrupts are raised, how long a delay lasts, and what a difference of two
  readings is.
\<close>

abbreviation "VTMR_FIRST_ID \<equiv> (0x200 :: nat)"
abbreviation "PLATFORM_TIMER_SYS_ID \<equiv> (0x100 :: nat)"
abbreviation "PLATFORM_TIMER_SYS_MAX \<equiv> (0xFFFFFFFFFFFFE :: u64)"
abbreviation "VTMR_MAX_PERIOD \<equiv> (0xFFFFFFFF :: u64)"

datatype match_type = PLATFORM_TIMER_INT_ONESHOT | PLATFORM_TIMER_INT_CYCLIC

datatype match_status =
  PLATFORM_TIMER_INT_OK | PLATFORM_TIMER_INT_TOO_SHORT | PLATFORM_TIMER_INT_TOO_LONG | PLATFORM_TIMER_INT_INVALID_ID

section \<open>Flags packed into bytes\<close>

definition tmr_msk :: "nat \<Rightarrow> u8" where
  "tmr_msk i = push_bit (i AND 0x07) 1"

definition flag_on :: "u8 list \<Rightarrow> nat \<Rightarrow> u8 list" where
  "flag_on fs i = fs[drop_bit 3 i := fs ! drop_bit 3 i OR tmr_msk i]"

definition flag_off :: "u8 list \<Rightarrow> nat \<Rightarrow> u8 list" where
  "flag_off fs i = fs[drop_bit 3 i := fs ! drop_bit 3 i AND NOT (tmr_msk i)]"

definition flag_test :: "u8 list \<Rightarrow> nat \<Rightarrow> bool" where
  "flag_test fs i \<longleftrightarrow> fs ! drop_bit 3 i AND tmr_msk i \<noteq> 0"

lemma tmr_msk_bit: "bit (tmr_msk i) n \<longleftrightarrow> n = i mod 8"
proof -
  have "i AND 7 = i mod 8" using take_bit_eq_mask [of 3 i] by (simp add: take_bit_eq_mod mask_eq_exp_minus_1)
  then have "tmr_msk i = 2 ^ (i mod 8)" by (simp add: tmr_msk_def push_bit_eq_mult)
  then show ?thesis by (auto simp: bit_exp_iff)
qed

lemma flag_test_bit: "flag_test fs i \<longleftrightarrow> bit (fs ! (i div 8)) (i mod 8)"
proof (cases "bit (fs ! (i div 8)) (i mod 8)")
  case True
  then have "bit (fs ! (i div 8) AND tmr_msk i) (i mod 8)" by (simp add: bit_and_iff tmr_msk_bit)
  then show ?thesis using True by (auto simp: flag_test_def drop_bit_eq_div)
next
  case False
  then have "fs ! (i div 8) AND tmr_msk i = 0" by (intro bit_word_eqI) (auto simp: bit_and_iff tmr_msk_bit)
  then show ?thesis using False by (simp add: flag_test_def drop_bit_eq_div)
qed

lemma flag_on_test:
  assumes "i < 8 * length fs"
  shows "flag_test (flag_on fs i) j \<longleftrightarrow> j = i \<or> flag_test fs j"
proof -
  have "i div 8 < length fs" using assms by (simp add: less_mult_imp_div_less mult.commute)
  moreover have "i div 8 = j div 8 \<and> i mod 8 = j mod 8 \<longleftrightarrow> i = j" by (metis div_mult_mod_eq)
  ultimately show ?thesis
    by (auto simp: flag_test_bit flag_on_def drop_bit_eq_div nth_list_update bit_or_iff tmr_msk_bit)
qed

lemma flag_off_test:
  assumes "i < 8 * length fs"
  shows "flag_test (flag_off fs i) j \<longleftrightarrow> j \<noteq> i \<and> flag_test fs j"
proof -
  have "i div 8 < length fs" using assms by (simp add: less_mult_imp_div_less mult.commute)
  moreover have "i div 8 = j div 8 \<and> i mod 8 = j mod 8 \<longleftrightarrow> i = j" by (metis div_mult_mod_eq)
  ultimately show ?thesis
    by (auto simp: flag_test_bit flag_off_def drop_bit_eq_div nth_list_update bit_and_iff bit_not_iff tmr_msk_bit
        dest: bit_imp_le_length)
qed

lemma length_flag [simp]: "length (flag_on fs i) = length fs" "length (flag_off fs i) = length fs"
  by (simp_all add: flag_on_def flag_off_def)

section \<open>The timer interrupt\<close>

record vtmr_state =
  vtmr_counters :: "u32 list"
  vtmr_reset_idx :: u8
  vtmr_period_limit :: "u32 list"
  vtmr_int_periodic_flag :: "u8 list"
  vtmr_int_enabled :: "u8 list"
  vtmr_int_flag :: "u8 list"
  global_ints :: bool
  tmr_ints :: int_state
  tmr_raised :: "nat list"

definition vtmr_tick_one :: "build_config \<Rightarrow> nat \<Rightarrow> vtmr_state \<Rightarrow> vtmr_state" where
  "vtmr_tick_one cfg i s =
     (let s = s\<lparr>vtmr_counters := (vtmr_counters s)[i := vtmr_counters s ! i + 1]\<rparr>
      in if vtmr_counters s ! i \<ge> vtmr_period_limit s ! i
         then let s = s\<lparr>vtmr_int_flag := flag_on (vtmr_int_flag s) i\<rparr>;
                  s = (if flag_test (vtmr_int_enabled s) i
                       then s\<lparr>tmr_ints := snd (elua_int_add cfg (of_nat (INT_TMR_MATCH cfg)) (of_nat (i + VTMR_FIRST_ID)) (tmr_ints s)),
                              tmr_raised := tmr_raised s @ [i]\<rparr>
                       else s)
              in if flag_test (vtmr_int_periodic_flag s) i
                 then s\<lparr>vtmr_counters := (vtmr_counters s)[i := 0]\<rparr>
                 else s\<lparr>vtmr_int_enabled := flag_off (vtmr_int_enabled s) i\<rparr>
         else s)"

text \<open>The callback: every timer, then the reset that was asked for. The index of the timer to reset is a signed 8-bit number; a negative one other
  than -1 is an access before the array.\<close>

definition vtmr_tick_timers :: "build_config \<Rightarrow> vtmr_state \<Rightarrow> vtmr_state" where
  "vtmr_tick_timers cfg s = fold (vtmr_tick_one cfg) [0..<VTMR_NUM_TIMERS cfg] s"

definition cmn_virtual_timer_cb :: "build_config \<Rightarrow> vtmr_state \<Rightarrow> vtmr_state option" where
  "cmn_virtual_timer_cb cfg s =
     (let s = vtmr_tick_timers cfg s
      in if vtmr_reset_idx s \<noteq> -1
         then if sint (vtmr_reset_idx s) < 0 \<or> int (length (vtmr_counters s)) \<le> sint (vtmr_reset_idx s) then None
              else Some (s\<lparr>vtmr_counters := (vtmr_counters s)[nat (sint (vtmr_reset_idx s)) := 0], vtmr_reset_idx := -1\<rparr>)
         else Some s)"

fun vtmr_ticks :: "build_config \<Rightarrow> nat \<Rightarrow> vtmr_state \<Rightarrow> vtmr_state option" where
  "vtmr_ticks cfg 0 s = Some s"
| "vtmr_ticks cfg (Suc n) s = do { s' \<leftarrow> vtmr_ticks cfg n s; cmn_virtual_timer_cb cfg s' }"

text \<open>A loop \<^verbatim>\<open>while( !cond );\<close>: the condition changes when the timer interrupt comes, which it does
  only with interrupts enabled.\<close>

partial_function (option) vtmr_spin :: "build_config \<Rightarrow> (vtmr_state \<Rightarrow> bool) \<Rightarrow> vtmr_state \<Rightarrow> vtmr_state option" where
  "vtmr_spin cfg cond s =
     (if cond s then Some s
      else do { s' \<leftarrow> (if global_ints s then cmn_virtual_timer_cb cfg s else Some s); vtmr_spin cfg cond s' })"

section \<open>Operations on virtual timers\<close>

definition vtmr_reset_timer :: "build_config \<Rightarrow> nat \<Rightarrow> vtmr_state \<Rightarrow> vtmr_state option" where
  "vtmr_reset_timer cfg vid s =
     do { s2 \<leftarrow> vtmr_spin cfg (\<lambda>s. vtmr_reset_idx s = -1)
                 (s\<lparr>vtmr_reset_idx := of_nat (vid - VTMR_FIRST_ID), global_ints := True\<rparr>);
          Some (s2\<lparr>global_ints := global_ints s\<rparr>) }"

definition vtmr_final :: "build_config \<Rightarrow> u64 \<Rightarrow> u64" where
  "vtmr_final cfg us = us * of_nat (VTMR_FREQ_HZ cfg) div 1000000"

definition vtmr_delay :: "build_config \<Rightarrow> nat \<Rightarrow> u64 \<Rightarrow> vtmr_state \<Rightarrow> vtmr_state option" where
  "vtmr_delay cfg vid delay_us s =
     (if delay_us > VTMR_MAX_PERIOD then Some s
      else do { s1 \<leftarrow> vtmr_reset_timer cfg vid s;
                s2 \<leftarrow> vtmr_spin cfg (\<lambda>s. \<not> ucast (vtmr_counters s ! (vid - VTMR_FIRST_ID)) < vtmr_final cfg delay_us)
                       (s1\<lparr>global_ints := True\<rparr>);
                Some (s2\<lparr>global_ints := global_ints s1\<rparr>) })"

definition vtmr_set_match_int ::
  "build_config \<Rightarrow> nat \<Rightarrow> u64 \<Rightarrow> match_type \<Rightarrow> vtmr_state \<Rightarrow> (match_status \<times> vtmr_state) option" where
  "vtmr_set_match_int cfg vid period_us type s =
     (let i = vid - VTMR_FIRST_ID; final = vtmr_final cfg period_us
      in if period_us = 0
         then Some (PLATFORM_TIMER_INT_OK,
                s\<lparr>vtmr_int_enabled := flag_off (vtmr_int_enabled s) i, vtmr_int_flag := flag_off (vtmr_int_flag s) i,
                  vtmr_int_periodic_flag := flag_off (vtmr_int_periodic_flag s) i\<rparr>)
         else if final > VTMR_MAX_PERIOD then Some (PLATFORM_TIMER_INT_TOO_LONG, s)
         else if final = 0 then Some (PLATFORM_TIMER_INT_TOO_SHORT, s)
         else do { s2 \<leftarrow> vtmr_reset_timer cfg vid
                      (s\<lparr>vtmr_period_limit := (vtmr_period_limit s)[i := ucast final],
                         vtmr_int_periodic_flag :=
                           (if type = PLATFORM_TIMER_INT_ONESHOT then flag_off (vtmr_int_periodic_flag s) i
                            else flag_on (vtmr_int_periodic_flag s) i),
                         vtmr_int_flag := flag_off (vtmr_int_flag s) i\<rparr>);
                   Some (PLATFORM_TIMER_INT_OK, s2\<lparr>vtmr_int_enabled := flag_on (vtmr_int_enabled s2) i\<rparr>) })"

definition vtmr_int_get_flag :: "nat \<Rightarrow> bool \<Rightarrow> vtmr_state \<Rightarrow> bool \<times> vtmr_state" where
  "vtmr_int_get_flag rn clear s =
     (let i = rn - VTMR_FIRST_ID
      in (flag_test (vtmr_int_flag s) i, if clear then s\<lparr>vtmr_int_flag := flag_off (vtmr_int_flag s) i\<rparr> else s))"

definition vtmr_int_set_status :: "nat \<Rightarrow> bool \<Rightarrow> vtmr_state \<Rightarrow> bool \<times> vtmr_state" where
  "vtmr_int_set_status rn enable s =
     (let i = rn - VTMR_FIRST_ID
      in (flag_test (vtmr_int_enabled s) i,
          s\<lparr>vtmr_int_enabled := (if enable then flag_on (vtmr_int_enabled s) i else flag_off (vtmr_int_enabled s) i)\<rparr>))"

definition vtmr_int_get_status :: "nat \<Rightarrow> vtmr_state \<Rightarrow> bool" where
  "vtmr_int_get_status rn s = flag_test (vtmr_int_enabled s) (rn - VTMR_FIRST_ID)"

section \<open>Abstract timers\<close>

record vtimer =
  vt_count :: u32
  vt_limit :: u32
  vt_periodic :: bool
  vt_enabled :: bool
  vt_flag :: bool

definition vtmr_at :: "vtmr_state \<Rightarrow> nat \<Rightarrow> vtimer" where
  "vtmr_at s i = \<lparr>vt_count = vtmr_counters s ! i, vt_limit = vtmr_period_limit s ! i,
     vt_periodic = flag_test (vtmr_int_periodic_flag s) i, vt_enabled = flag_test (vtmr_int_enabled s) i,
     vt_flag = flag_test (vtmr_int_flag s) i\<rparr>"

definition vtimer_due :: "vtimer \<Rightarrow> bool" where
  "vtimer_due t \<longleftrightarrow> vt_limit t \<le> vt_count t + 1"

definition vtimer_raises :: "vtimer \<Rightarrow> bool" where
  "vtimer_raises t \<longleftrightarrow> vtimer_due t \<and> vt_enabled t"

definition vtimer_tick :: "vtimer \<Rightarrow> vtimer" where
  "vtimer_tick t =
     (if vtimer_due t
      then t\<lparr>vt_count := (if vt_periodic t then 0 else vt_count t + 1),
             vt_enabled := vt_enabled t \<and> vt_periodic t, vt_flag := True\<rparr>
      else t\<lparr>vt_count := vt_count t + 1\<rparr>)"

definition vtmr_inv :: "build_config \<Rightarrow> vtmr_state \<Rightarrow> bool" where
  "vtmr_inv cfg s \<longleftrightarrow> length (vtmr_counters s) = VTMR_NUM_TIMERS cfg \<and> length (vtmr_period_limit s) = VTMR_NUM_TIMERS cfg
     \<and> VTMR_NUM_TIMERS cfg \<le> 8 * length (vtmr_int_periodic_flag s) \<and> VTMR_NUM_TIMERS cfg \<le> 8 * length (vtmr_int_enabled s)
     \<and> VTMR_NUM_TIMERS cfg \<le> 8 * length (vtmr_int_flag s)
     \<and> (vtmr_reset_idx s = -1 \<or> 0 \<le> sint (vtmr_reset_idx s) \<and> sint (vtmr_reset_idx s) < int (VTMR_NUM_TIMERS cfg))"

lemma vtmr_tick_one_frame [simp]:
  "vtmr_reset_idx (vtmr_tick_one cfg i s) = vtmr_reset_idx s" "global_ints (vtmr_tick_one cfg i s) = global_ints s"
  "length (vtmr_counters (vtmr_tick_one cfg i s)) = length (vtmr_counters s)"
  "vtmr_period_limit (vtmr_tick_one cfg i s) = vtmr_period_limit s"
  "vtmr_int_periodic_flag (vtmr_tick_one cfg i s) = vtmr_int_periodic_flag s"
  "length (vtmr_int_enabled (vtmr_tick_one cfg i s)) = length (vtmr_int_enabled s)"
  "length (vtmr_int_flag (vtmr_tick_one cfg i s)) = length (vtmr_int_flag s)"
  by (simp_all add: vtmr_tick_one_def Let_def)

lemma vtmr_tick_one_inv [simp]: "vtmr_inv cfg (vtmr_tick_one cfg i s) = vtmr_inv cfg s"
  by (simp add: vtmr_inv_def)

lemma vtmr_tick_one_at:
  assumes "vtmr_inv cfg s" and "i < VTMR_NUM_TIMERS cfg"
  shows "vtmr_at (vtmr_tick_one cfg i s) j = (if j = i then vtimer_tick (vtmr_at s i) else vtmr_at s j)"
    and "tmr_raised (vtmr_tick_one cfg i s) = tmr_raised s @ (if vtimer_raises (vtmr_at s i) then [i] else [])"
proof -
  have l: "i < length (vtmr_counters s)" "i < 8 * length (vtmr_int_enabled s)" "i < 8 * length (vtmr_int_flag s)"
    using assms by (auto simp: vtmr_inv_def)
  show "vtmr_at (vtmr_tick_one cfg i s) j = (if j = i then vtimer_tick (vtmr_at s i) else vtmr_at s j)"
    using l by (auto simp: vtmr_at_def vtmr_tick_one_def vtimer_tick_def vtimer_due_def Let_def flag_on_test flag_off_test)
  show "tmr_raised (vtmr_tick_one cfg i s) = tmr_raised s @ (if vtimer_raises (vtmr_at s i) then [i] else [])"
    using l by (simp add: vtmr_at_def vtmr_tick_one_def vtimer_raises_def vtimer_due_def Let_def)
qed

lemma vtmr_tick_all:
  assumes "vtmr_inv cfg s" and "n \<le> VTMR_NUM_TIMERS cfg"
  shows "vtmr_inv cfg (fold (vtmr_tick_one cfg) [0..<n] s)
    \<and> (\<forall>j. vtmr_at (fold (vtmr_tick_one cfg) [0..<n] s) j = (if j < n then vtimer_tick (vtmr_at s j) else vtmr_at s j))
    \<and> tmr_raised (fold (vtmr_tick_one cfg) [0..<n] s) = tmr_raised s @ filter (\<lambda>j. vtimer_raises (vtmr_at s j)) [0..<n]
    \<and> vtmr_reset_idx (fold (vtmr_tick_one cfg) [0..<n] s) = vtmr_reset_idx s
    \<and> global_ints (fold (vtmr_tick_one cfg) [0..<n] s) = global_ints s"
  using assms(2)
proof (induction n)
  case 0
  then show ?case using assms(1) by simp
next
  case (Suc n)
  then show ?case using vtmr_tick_one_at [of cfg "fold (vtmr_tick_one cfg) [0..<n] s" n] by auto
qed

text \<open>The callback is one step of every timer, then the pending reset. On a good state it does not leave the array: \<open>vtmr_cb\<close> is the state after it.\<close>

definition vtmr_cb :: "build_config \<Rightarrow> vtmr_state \<Rightarrow> vtmr_state" where
  "vtmr_cb cfg s = the (cmn_virtual_timer_cb cfg s)"

lemma vtmr_tick_timers_at:
  assumes "vtmr_inv cfg s"
  shows "vtmr_inv cfg (vtmr_tick_timers cfg s)"
    "j < VTMR_NUM_TIMERS cfg \<Longrightarrow> vtmr_at (vtmr_tick_timers cfg s) j = vtimer_tick (vtmr_at s j)"
    "tmr_raised (vtmr_tick_timers cfg s) = tmr_raised s @ filter (\<lambda>j. vtimer_raises (vtmr_at s j)) [0..<VTMR_NUM_TIMERS cfg]"
    "vtmr_reset_idx (vtmr_tick_timers cfg s) = vtmr_reset_idx s" "global_ints (vtmr_tick_timers cfg s) = global_ints s"
  using vtmr_tick_all [OF assms order_refl] by (simp_all add: vtmr_tick_timers_def)

lemma vtmr_cb_eq:
  assumes "vtmr_inv cfg s"
  shows "cmn_virtual_timer_cb cfg s = Some (vtmr_cb cfg s)"
    "vtmr_cb cfg s = (let t = vtmr_tick_timers cfg s in if vtmr_reset_idx s \<noteq> -1
      then t\<lparr>vtmr_counters := (vtmr_counters t)[nat (sint (vtmr_reset_idx s)) := 0], vtmr_reset_idx := -1\<rparr> else t)"
proof -
  note t = vtmr_tick_timers_at [OF assms]
  have "vtmr_reset_idx s \<noteq> -1 \<Longrightarrow> \<not> sint (vtmr_reset_idx s) < 0 \<and> \<not> int (length (vtmr_counters (vtmr_tick_timers cfg s))) \<le> sint (vtmr_reset_idx s)"
    using t(1,4) by (auto simp: vtmr_inv_def)
  then show "cmn_virtual_timer_cb cfg s = Some (vtmr_cb cfg s)"
    "vtmr_cb cfg s = (let t = vtmr_tick_timers cfg s in if vtmr_reset_idx s \<noteq> -1
      then t\<lparr>vtmr_counters := (vtmr_counters t)[nat (sint (vtmr_reset_idx s)) := 0], vtmr_reset_idx := -1\<rparr> else t)"
    by (simp_all add: vtmr_cb_def cmn_virtual_timer_cb_def Let_def t(4))
qed

lemma vtmr_cb_at:
  assumes "vtmr_inv cfg s"
  shows "vtmr_inv cfg (vtmr_cb cfg s)"
    and "i < VTMR_NUM_TIMERS cfg \<Longrightarrow> vtmr_at (vtmr_cb cfg s) i =
      (if sint (vtmr_reset_idx s) = int i then (vtimer_tick (vtmr_at s i))\<lparr>vt_count := 0\<rparr> else vtimer_tick (vtmr_at s i))"
    and "tmr_raised (vtmr_cb cfg s) =
      tmr_raised s @ filter (\<lambda>j. vtimer_raises (vtmr_at s j)) [0..<VTMR_NUM_TIMERS cfg]"
    and "vtmr_reset_idx (vtmr_cb cfg s) = -1"
    and "global_ints (vtmr_cb cfg s) = global_ints s"
proof -
  define t where "t = vtmr_tick_timers cfg s"
  note t = vtmr_tick_timers_at [OF assms, folded t_def]
  have cb: "vtmr_cb cfg s = (if vtmr_reset_idx t \<noteq> -1
      then t\<lparr>vtmr_counters := (vtmr_counters t)[nat (sint (vtmr_reset_idx t)) := 0], vtmr_reset_idx := -1\<rparr> else t)"
    using vtmr_cb_eq(2) [OF assms] t(4) by (simp add: Let_def t_def)
  show "vtmr_inv cfg (vtmr_cb cfg s)" using t(1) by (simp add: cb vtmr_inv_def)
  show "tmr_raised (vtmr_cb cfg s) =
      tmr_raised s @ filter (\<lambda>j. vtimer_raises (vtmr_at s j)) [0..<VTMR_NUM_TIMERS cfg]" using t(3) by (simp add: cb)
  show "vtmr_reset_idx (vtmr_cb cfg s) = -1" by (simp add: cb)
  show "global_ints (vtmr_cb cfg s) = global_ints s" using t(5) by (simp add: cb)
  assume i: "i < VTMR_NUM_TIMERS cfg"
  then have len: "i < length (vtmr_counters t)" using t(1) by (simp add: vtmr_inv_def)
  have "vtmr_at (vtmr_cb cfg s) i = (if sint (vtmr_reset_idx t) = int i then (vtmr_at t i)\<lparr>vt_count := 0\<rparr> else vtmr_at t i)"
  proof (cases "vtmr_reset_idx t = -1")
    case True
    then show ?thesis by (simp add: cb)
  next
    case False
    then have "0 \<le> sint (vtmr_reset_idx t)" using t(1) by (simp add: vtmr_inv_def)
    then show ?thesis using len False by (auto simp: cb vtmr_at_def nth_list_update)
  qed
  then show "vtmr_at (vtmr_cb cfg s) i =
      (if sint (vtmr_reset_idx s) = int i then (vtimer_tick (vtmr_at s i))\<lparr>vt_count := 0\<rparr> else vtimer_tick (vtmr_at s i))"
    using t(2) [OF i] t(4) by simp
qed

text \<open>Several interrupts in a row.\<close>

definition vtimer_raise_count :: "nat \<Rightarrow> vtimer \<Rightarrow> nat" where
  "vtimer_raise_count n t = length (filter (\<lambda>k. vtimer_raises ((vtimer_tick ^^ k) t)) [0..<n])"

lemma vtimer_raise_count_Suc [simp]:
  "vtimer_raise_count 0 t = 0"
  "vtimer_raise_count (Suc n) t = vtimer_raise_count n t + (if vtimer_raises ((vtimer_tick ^^ n) t) then 1 else 0)"
  by (simp_all add: vtimer_raise_count_def)

lemma count_list_filter: "distinct xs \<Longrightarrow> count_list (filter P xs) x = (if x \<in> set xs \<and> P x then 1 else 0)"
  by (induction xs) (auto simp: count_list_0_iff)

lemma vtmr_ticks_at:
  assumes "vtmr_inv cfg s" and "vtmr_reset_idx s = -1" and "i < VTMR_NUM_TIMERS cfg"
  shows "vtmr_inv cfg ((vtmr_cb cfg ^^ n) s) \<and> vtmr_reset_idx ((vtmr_cb cfg ^^ n) s) = -1
    \<and> vtmr_at ((vtmr_cb cfg ^^ n) s) i = (vtimer_tick ^^ n) (vtmr_at s i)
    \<and> count_list (tmr_raised ((vtmr_cb cfg ^^ n) s)) i =
        count_list (tmr_raised s) i + vtimer_raise_count n (vtmr_at s i)
    \<and> global_ints ((vtmr_cb cfg ^^ n) s) = global_ints s"
proof (induction n)
  case 0
  then show ?case using assms by simp
next
  case (Suc n)
  then show ?case
    using vtmr_cb_at [of cfg "(vtmr_cb cfg ^^ n) s"] assms(3)
    by (simp add: count_list_filter)
qed

lemma vtmr_ticks_total: "vtmr_inv cfg s \<Longrightarrow> vtmr_ticks cfg n s = Some ((vtmr_cb cfg ^^ n) s) \<and> vtmr_inv cfg ((vtmr_cb cfg ^^ n) s)"
  by (induction n) (simp_all add: vtmr_cb_eq(1) vtmr_cb_at(1))

lemma sint_u8: "i < 128 \<Longrightarrow> sint (of_nat i :: u8) = int i" "i < 128 \<Longrightarrow> (of_nat i :: u8) \<noteq> - 1"
proof -
  assume i: "i < 128"
  show u: "sint (of_nat i :: u8) = int i" by (simp only: signed_of_nat) (use i in \<open>simp add: signed_take_bit_int_eq_self\<close>)
  show "(of_nat i :: u8) \<noteq> - 1"
  proof
    assume "(of_nat i :: u8) = - 1"
    then have "sint (of_nat i :: u8) = - 1" by simp
    then show False using u by simp
  qed
qed

lemma unat_Suc_bounded: "(c :: u32) < m \<Longrightarrow> unat (c + 1) = Suc (unat c)"
proof -
  assume "c < m"
  moreover have "unat m < 2 ^ 32" using unsigned_less [of m] by simp
  ultimately have "Suc (unat c) < 2 ^ 32" by (simp add: word_less_nat_alt)
  then show ?thesis by (simp add: unat_word_ariths)
qed

lemma vtimer_tick_fields:
  "vt_count (vtimer_tick t) = (if vtimer_due t \<and> vt_periodic t then 0 else vt_count t + 1)"
  "vt_limit (vtimer_tick t) = vt_limit t" "vt_periodic (vtimer_tick t) = vt_periodic t"
  "vt_enabled (vtimer_tick t) = (vt_enabled t \<and> (vtimer_due t \<longrightarrow> vt_periodic t))"
  by (simp_all add: vtimer_tick_def)

lemma vtimer_periodic_ticks:
  assumes "vt_periodic t" and "vt_enabled t" and "vt_count t = 0" and "0 < vt_limit t"
  shows "unat (vt_count ((vtimer_tick ^^ n) t)) = n mod unat (vt_limit t)
    \<and> vt_limit ((vtimer_tick ^^ n) t) = vt_limit t \<and> vt_periodic ((vtimer_tick ^^ n) t) \<and> vt_enabled ((vtimer_tick ^^ n) t)
    \<and> vtimer_raise_count n t = n div unat (vt_limit t)"
proof (induction n)
  case 0
  then show ?case using assms by simp
next
  case (Suc n)
  let ?t = "(vtimer_tick ^^ n) t"
  let ?p = "unat (vt_limit t)"
  have p: "0 < ?p" using assms(4) by (simp add: unat_gt_0)
  have "unat (vt_count ?t) < ?p" using Suc p by simp
  then have "vt_count ?t < vt_limit t" by (simp add: word_less_nat_alt)
  then have c: "unat (vt_count ?t + 1) = Suc (n mod ?p)" using Suc unat_Suc_bounded by simp
  have due: "vtimer_due ?t \<longleftrightarrow> Suc (n mod ?p) = ?p"
    using Suc c p mod_less_divisor [OF p, of n] by (auto simp: vtimer_due_def word_le_nat_alt)
  show ?case
    using Suc due c by (auto simp: vtimer_tick_fields vtimer_raises_def mod_Suc div_Suc)
qed

lemma vtimer_oneshot_ticks:
  assumes "\<not> vt_periodic t" and "vt_enabled t" and "vt_count t = 0" and "0 < vt_limit t"
  shows "(n < unat (vt_limit t) \<longrightarrow> unat (vt_count ((vtimer_tick ^^ n) t)) = n)
    \<and> vt_limit ((vtimer_tick ^^ n) t) = vt_limit t \<and> \<not> vt_periodic ((vtimer_tick ^^ n) t)
    \<and> vt_enabled ((vtimer_tick ^^ n) t) = (n < unat (vt_limit t))
    \<and> vtimer_raise_count n t = (if n < unat (vt_limit t) then 0 else 1)"
proof (induction n)
  case 0
  then show ?case using assms by (simp add: unat_gt_0)
next
  case (Suc n)
  let ?t = "(vtimer_tick ^^ n) t"
  let ?p = "unat (vt_limit t)"
  show ?case
  proof (cases "n < ?p")
    case True
    then have "vt_count ?t < vt_limit t" using Suc by (simp add: word_less_nat_alt)
    then have c: "unat (vt_count ?t + 1) = Suc n" using Suc True unat_Suc_bounded by simp
    then have "vtimer_due ?t \<longleftrightarrow> Suc n = ?p" using Suc True by (auto simp: vtimer_due_def word_le_nat_alt)
    then show ?thesis using Suc True c by (auto simp: vtimer_tick_fields vtimer_raises_def)
  next
    case False
    then show ?thesis using Suc by (auto simp: vtimer_tick_fields vtimer_raises_def)
  qed
qed

section \<open>Waiting\<close>

lemma vtmr_spin_ticks:
  assumes "global_ints s" and "vtmr_inv cfg s" and "\<forall>k < n. \<not> cond ((vtmr_cb cfg ^^ k) s)"
    and "cond ((vtmr_cb cfg ^^ n) s)"
  shows "vtmr_spin cfg cond s = Some ((vtmr_cb cfg ^^ n) s)"
  using assms
proof (induction n arbitrary: s)
  case 0
  then show ?case by (subst vtmr_spin.simps) simp
next
  case (Suc n)
  let ?s = "vtmr_cb cfg s"
  have "\<forall>k < n. \<not> cond ((vtmr_cb cfg ^^ k) ?s)"
    using Suc.prems(3) by (metis Suc_less_eq funpow_simps_right(2) o_apply)
  moreover have "\<not> cond s" using Suc.prems(3) by (metis funpow_0 zero_less_Suc)
  ultimately show ?case
    using Suc.IH [of ?s] Suc.prems vtmr_cb_at(1,5) [OF Suc.prems(2)] vtmr_cb_eq(1) [OF Suc.prems(2)]
    by (subst vtmr_spin.simps) (simp add: funpow_Suc_right del: funpow.simps)
qed

text \<open>A reset works for the timers whose number fits into the signed byte.\<close>

lemma vtmr_reset_timer_step:
  assumes "vtmr_inv cfg s" and "i < VTMR_NUM_TIMERS cfg" and "i < 128"
  shows "vtmr_reset_timer cfg (VTMR_FIRST_ID + i) s =
    Some ((vtmr_cb cfg (s\<lparr>vtmr_reset_idx := of_nat i, global_ints := True\<rparr>))\<lparr>global_ints := global_ints s\<rparr>)"
proof -
  let ?s = "s\<lparr>vtmr_reset_idx := of_nat i, global_ints := True\<rparr>"
  have inv: "vtmr_inv cfg ?s" using assms sint_u8 [OF assms(3)] by (simp add: vtmr_inv_def)
  have "vtmr_spin cfg (\<lambda>s. vtmr_reset_idx s = -1) ?s = Some ((vtmr_cb cfg ^^ 1) ?s)"
    by (rule vtmr_spin_ticks) (use inv vtmr_cb_at(4) [OF inv] sint_u8(2) [OF assms(3)] in auto)
  then show ?thesis by (simp add: vtmr_reset_timer_def)
qed

lemma vtmr_frame [simp]:
  "vtmr_inv cfg (s\<lparr>global_ints := b\<rparr>) = vtmr_inv cfg s" "vtmr_at (s\<lparr>global_ints := b\<rparr>) i = vtmr_at s i"
  "vtmr_at (s\<lparr>vtmr_reset_idx := k\<rparr>) i = vtmr_at s i"
  by (simp_all add: vtmr_inv_def vtmr_at_def)

lemma vtmr_reset_timer_at:
  assumes "vtmr_inv cfg s" and "i < VTMR_NUM_TIMERS cfg" and "i < 128"
  obtains s' where "vtmr_reset_timer cfg (VTMR_FIRST_ID + i) s = Some s'" "vtmr_inv cfg s'" "vtmr_reset_idx s' = -1"
    "vtmr_at s' i = (vtimer_tick (vtmr_at s i))\<lparr>vt_count := 0\<rparr>" "global_ints s' = global_ints s"
proof -
  let ?s = "s\<lparr>vtmr_reset_idx := of_nat i, global_ints := True\<rparr>"
  have inv: "vtmr_inv cfg ?s" using assms sint_u8 [OF assms(3)] by (simp add: vtmr_inv_def)
  show thesis
    using that vtmr_reset_timer_step [OF assms] vtmr_cb_at [OF inv] assms(2) sint_u8(1) [OF assms(3)] by simp
qed

text \<open>The other numbers become negative: 255 is \<open>- 1\<close>, so that nothing is reset and the call returns at once; with 128 to 254 the next interrupt
  writes before the array.\<close>

theorem vtmr_reset_index_wraps:
  assumes "vtmr_inv cfg s" and "128 \<le> i" and "i < 256"
  shows "vtmr_reset_timer cfg (VTMR_FIRST_ID + i) s = (if i = 255 then Some (s\<lparr>vtmr_reset_idx := - 1\<rparr>) else None)"
proof -
  let ?s = "s\<lparr>vtmr_reset_idx := of_nat i, global_ints := True\<rparr>"
  have sm: "sint (of_nat i :: u8) = int i - 256"
  proof -
    have "(256 :: u8) = 0" by simp
    then have "(of_nat i :: u8) = word_of_int (int i - 256)" by simp
    then have "sint (of_nat i :: u8) = sint (word_of_int (int i - 256) :: u8)" by (rule arg_cong)
    also have "\<dots> = signed_take_bit 7 (int i - 256)" by (simp only: signed_of_int) simp
    also have "\<dots> = int i - 256" using assms(2,3) by (intro signed_take_bit_int_eq_self) auto
    finally show ?thesis .
  qed
  have m1: "(of_nat i :: u8) = - 1 \<longleftrightarrow> i = 255"
  proof
    assume "(of_nat i :: u8) = - 1"
    then have "int i - 256 = - 1" using sm by simp
    then show "i = 255" by simp
  qed simp
  show ?thesis
  proof (cases "i = 255")
    case True
    then show ?thesis by (simp add: vtmr_reset_timer_def vtmr_spin.simps)
  next
    case False
    define t where "t = vtmr_tick_timers cfg ?s"
    have "vtmr_reset_idx (fold (vtmr_tick_one cfg) xs u) = vtmr_reset_idx u" for xs u by (induction xs arbitrary: u) simp_all
    then have t: "vtmr_reset_idx t = of_nat i" by (simp add: t_def vtmr_tick_timers_def)
    have "cmn_virtual_timer_cb cfg ?s = None"
      unfolding cmn_virtual_timer_cb_def t_def [symmetric] Let_def t using False m1 sm assms(3) by simp
    then have "vtmr_spin cfg (\<lambda>s. vtmr_reset_idx s = -1) ?s = None"
      using False m1 by (subst vtmr_spin.simps) simp
    then show ?thesis using False by (simp add: vtmr_reset_timer_def)
  qed
qed

section \<open>Dispatch between timers\<close>

definition timer_is_virtual :: "build_config \<Rightarrow> nat \<Rightarrow> bool" where
  "timer_is_virtual cfg i \<longleftrightarrow> VTMR_NUM_TIMERS cfg > 0 \<and> i \<ge> VTMR_FIRST_ID \<and> i < VTMR_NUM_TIMERS cfg + VTMR_FIRST_ID"

definition platform_timer_exists :: "build_config \<Rightarrow> bool \<Rightarrow> nat \<Rightarrow> bool" where
  "platform_timer_exists cfg systimer_support i =
     (if VTMR_NUM_TIMERS cfg > 0 \<and> i \<ge> VTMR_FIRST_ID then timer_is_virtual cfg i
      else i < NUM_TIMER cfg \<or> i = PLATFORM_TIMER_SYS_ID \<and> systimer_support)"

datatype timer_op =
  PLATFORM_TIMER_OP_START | PLATFORM_TIMER_OP_READ | PLATFORM_TIMER_OP_SET_CLOCK | PLATFORM_TIMER_OP_GET_CLOCK
  | PLATFORM_TIMER_OP_GET_MAX_DELAY | PLATFORM_TIMER_OP_GET_MIN_DELAY | PLATFORM_TIMER_OP_GET_MAX_CNT

text \<open>The timers of the platform and the reading of the system timer, if there is one.\<close>

record timer_hw =
  platform_s_timer_op :: "nat \<Rightarrow> timer_op \<Rightarrow> u64 \<Rightarrow> u64"
  platform_timer_read_sys :: "u64 option"

text \<open>The operations of \<^verbatim>\<open>platform_timer_op\<close> that \<^verbatim>\<open>platform_timer_get_diff_us\<close> uses, clock and maximum.\<close>

definition timer_const :: "build_config \<Rightarrow> timer_hw \<Rightarrow> nat \<Rightarrow> timer_op \<Rightarrow> u64" where
  "timer_const cfg hw i op =
     (if i = PLATFORM_TIMER_SYS_ID then
        (if platform_timer_read_sys hw = None then 0
         else if op = PLATFORM_TIMER_OP_GET_CLOCK then 1000000 else PLATFORM_TIMER_SYS_MAX)
      else if \<not> timer_is_virtual cfg i then platform_s_timer_op hw i op 0
      else if op = PLATFORM_TIMER_OP_GET_CLOCK then of_nat (VTMR_FREQ_HZ cfg) else VTMR_MAX_PERIOD)"

text \<open>The frequency is kept in 32 bits; dividing by zero is undefined.\<close>

definition platform_timer_get_diff_us :: "build_config \<Rightarrow> timer_hw \<Rightarrow> nat \<Rightarrow> u64 \<Rightarrow> u64 \<Rightarrow> u64 option" where
  "platform_timer_get_diff_us cfg hw i start stop =
     (let freq = ucast (timer_const cfg hw i PLATFORM_TIMER_OP_GET_CLOCK) :: u32;
          tend = (if start > stop then stop + (timer_const cfg hw i PLATFORM_TIMER_OP_GET_MAX_CNT + 1) else stop)
      in if freq = 1000000 then Some (min (tend - start) PLATFORM_TIMER_SYS_MAX)
         else if freq = 0 then None
         else Some (min ((tend - start) * 1000000 div ucast freq) PLATFORM_TIMER_SYS_MAX))"

text \<open>The platform's timers count up (\<^verbatim>\<open>PLATFORM_TMR_COUNTS_DOWN\<close> is not defined).\<close>

definition platform_timer_op ::
  "build_config \<Rightarrow> timer_hw \<Rightarrow> nat \<Rightarrow> timer_op \<Rightarrow> u64 \<Rightarrow> vtmr_state \<Rightarrow> (u64 \<times> vtmr_state) option" where
  "platform_timer_op cfg hw i op data s =
     (if i = PLATFORM_TIMER_SYS_ID then
        (case platform_timer_read_sys hw of
           None \<Rightarrow> Some (0, s)
         | Some now \<Rightarrow>
             Some (case op of
                PLATFORM_TIMER_OP_START \<Rightarrow> now | PLATFORM_TIMER_OP_READ \<Rightarrow> now
              | PLATFORM_TIMER_OP_SET_CLOCK \<Rightarrow> 1000000 | PLATFORM_TIMER_OP_GET_CLOCK \<Rightarrow> 1000000
              | PLATFORM_TIMER_OP_GET_MAX_DELAY \<Rightarrow> PLATFORM_TIMER_SYS_MAX + 1
              | PLATFORM_TIMER_OP_GET_MAX_CNT \<Rightarrow> PLATFORM_TIMER_SYS_MAX
              | PLATFORM_TIMER_OP_GET_MIN_DELAY \<Rightarrow> 1, s))
      else if \<not> timer_is_virtual cfg i then
        (if op = PLATFORM_TIMER_OP_GET_MAX_DELAY
         then map_option (\<lambda>r. (r, s)) (platform_timer_get_diff_us cfg hw i 0 (timer_const cfg hw i PLATFORM_TIMER_OP_GET_MAX_CNT))
         else if op = PLATFORM_TIMER_OP_GET_MIN_DELAY
         then map_option (\<lambda>r. (r, s)) (platform_timer_get_diff_us cfg hw i 0 1)
         else Some (platform_s_timer_op hw i op data, s))
      else (case op of
           PLATFORM_TIMER_OP_START \<Rightarrow> map_option (\<lambda>s'. (0, s')) (vtmr_reset_timer cfg i s)
         | PLATFORM_TIMER_OP_READ \<Rightarrow> Some (ucast (vtmr_counters s ! (i - VTMR_FIRST_ID)), s)
         | PLATFORM_TIMER_OP_GET_MAX_DELAY \<Rightarrow> map_option (\<lambda>r. (r, s)) (platform_timer_get_diff_us cfg hw i 0 0xFFFFFFFF)
         | PLATFORM_TIMER_OP_GET_MIN_DELAY \<Rightarrow> map_option (\<lambda>r. (r, s)) (platform_timer_get_diff_us cfg hw i 0 1)
         | PLATFORM_TIMER_OP_GET_MAX_CNT \<Rightarrow> Some (VTMR_MAX_PERIOD, s)
         | PLATFORM_TIMER_OP_SET_CLOCK \<Rightarrow> Some (of_nat (VTMR_FREQ_HZ cfg), s)
         | PLATFORM_TIMER_OP_GET_CLOCK \<Rightarrow> Some (of_nat (VTMR_FREQ_HZ cfg), s)))"

text \<open>The clock and the maximum that differences are computed with are those of the operation.\<close>

lemma timer_const_op:
  assumes "op = PLATFORM_TIMER_OP_GET_CLOCK \<or> op = PLATFORM_TIMER_OP_GET_MAX_CNT"
  shows "platform_timer_op cfg hw i op 0 s = Some (timer_const cfg hw i op, s)"
  using assms by (auto simp: platform_timer_op_def timer_const_def split: option.split)

text \<open>A delay on the system timer polls it until the time has passed; \<open>reads k\<close> is the \<open>k\<close>th reading.\<close>

partial_function (option) sys_delay_loop :: "(nat \<Rightarrow> u64) \<Rightarrow> u64 \<Rightarrow> u64 \<Rightarrow> nat \<Rightarrow> nat option" where
  "sys_delay_loop reads tstart delay_us k =
     (let t = reads k; tend = (if t < tstart then t + (PLATFORM_TIMER_SYS_MAX + 1) else t)
      in if tend - tstart \<ge> delay_us then Some k else sys_delay_loop reads tstart delay_us (Suc k))"

definition platform_timer_delay ::
  "build_config \<Rightarrow> timer_hw \<Rightarrow> (nat \<Rightarrow> u64) \<Rightarrow> (nat \<Rightarrow> u64 \<Rightarrow> unit option) \<Rightarrow> nat \<Rightarrow> u64 \<Rightarrow> vtmr_state \<Rightarrow> vtmr_state option" where
  "platform_timer_delay cfg hw reads s_delay i delay_us s =
     (if timer_is_virtual cfg i then vtmr_delay cfg i delay_us s
      else if i = PLATFORM_TIMER_SYS_ID then
        (if platform_timer_read_sys hw = None \<or> delay_us = 0 then Some s
         else map_option (\<lambda>_. s) (sys_delay_loop reads (reads 0) delay_us 1))
      else map_option (\<lambda>_. s) (s_delay i delay_us))"

section \<open>Match interrupts of all timers\<close>

datatype 'a int_result = Int_val 'a | PLATFORM_INT_BAD_RESNUM | PLATFORM_INT_NOT_HANDLED | PLATFORM_INT_INVALID

definition platform_timer_set_match_int ::
  "build_config \<Rightarrow> (nat \<Rightarrow> u64 \<Rightarrow> match_type \<Rightarrow> match_status) \<Rightarrow> nat \<Rightarrow> u64 \<Rightarrow> match_type \<Rightarrow> vtmr_state \<Rightarrow>
    (match_status \<times> vtmr_state) option" where
  "platform_timer_set_match_int cfg s_set i period_us type s =
     (if timer_is_virtual cfg i then vtmr_set_match_int cfg i period_us type s
      else if i = PLATFORM_TIMER_SYS_ID then Some (PLATFORM_TIMER_INT_INVALID_ID, s)
      else Some (s_set i period_us type, s))"

text \<open>The functions the platform's interrupt table has for timer matches, NULL or not.\<close>

definition cmn_tmr_int_set_status ::
  "build_config \<Rightarrow> (nat \<Rightarrow> bool \<Rightarrow> bool int_result) option \<Rightarrow> nat \<Rightarrow> bool \<Rightarrow> vtmr_state \<Rightarrow> bool int_result \<times> vtmr_state" where
  "cmn_tmr_int_set_status cfg ps rn enable s =
     (if timer_is_virtual cfg rn then (let (b, s') = vtmr_int_set_status rn enable s in (Int_val b, s'))
      else if rn = PLATFORM_TIMER_SYS_ID then (PLATFORM_INT_BAD_RESNUM, s)
      else (case ps of None \<Rightarrow> (PLATFORM_INT_NOT_HANDLED, s) | Some f \<Rightarrow> (f rn enable, s)))"

definition cmn_tmr_int_get_status ::
  "build_config \<Rightarrow> (nat \<Rightarrow> bool int_result) option \<Rightarrow> nat \<Rightarrow> vtmr_state \<Rightarrow> bool int_result" where
  "cmn_tmr_int_get_status cfg pg rn s =
     (if timer_is_virtual cfg rn then Int_val (vtmr_int_get_status rn s)
      else if rn = PLATFORM_TIMER_SYS_ID then PLATFORM_INT_BAD_RESNUM
      else (case pg of None \<Rightarrow> PLATFORM_INT_NOT_HANDLED | Some f \<Rightarrow> f rn))"

definition cmn_tmr_int_get_flag ::
  "build_config \<Rightarrow> (nat \<Rightarrow> bool \<Rightarrow> bool int_result) option \<Rightarrow> nat \<Rightarrow> bool \<Rightarrow> vtmr_state \<Rightarrow> bool int_result \<times> vtmr_state" where
  "cmn_tmr_int_get_flag cfg pf rn clear s =
     (if timer_is_virtual cfg rn then (let (b, s') = vtmr_int_get_flag rn clear s in (Int_val b, s'))
      else if rn = PLATFORM_TIMER_SYS_ID then (PLATFORM_INT_BAD_RESNUM, s)
      else (case pf of None \<Rightarrow> (PLATFORM_INT_NOT_HANDLED, s) | Some f \<Rightarrow> (f rn clear, s)))"

section \<open>The generic system timer\<close>

record systimer =
  cmn_systimer_ticks_for_us :: u32
  cmn_systimer_counter :: u64
  cmn_systimer_us_per_interrupt :: u32

definition cmn_systimer_set_base_freq :: "u32 \<Rightarrow> systimer \<Rightarrow> systimer" where
  "cmn_systimer_set_base_freq freq_hz t = t\<lparr>cmn_systimer_ticks_for_us := freq_hz div 1000000\<rparr>"

definition cmn_systimer_set_interrupt_freq :: "u32 \<Rightarrow> systimer \<Rightarrow> systimer option" where
  "cmn_systimer_set_interrupt_freq freq_hz t =
     (if freq_hz = 0 then None else Some (t\<lparr>cmn_systimer_us_per_interrupt := 1000000 div freq_hz\<rparr>))"

definition cmn_systimer_set_interrupt_period_us :: "u32 \<Rightarrow> systimer \<Rightarrow> systimer" where
  "cmn_systimer_set_interrupt_period_us period t = t\<lparr>cmn_systimer_us_per_interrupt := period\<rparr>"

definition cmn_systimer_periodic :: "systimer \<Rightarrow> systimer" where
  "cmn_systimer_periodic t = t\<lparr>cmn_systimer_counter := cmn_systimer_counter t + ucast (cmn_systimer_us_per_interrupt t)\<rparr>"

text \<open>Reading: the raw counter is read again until no interrupt came between the two readings of the
  counter. Each element of the list is a raw reading and the number of interrupts since.\<close>

fun systimer_read :: "(u64 \<times> nat) list \<Rightarrow> systimer \<Rightarrow> (u64 \<times> systimer) option" where
  "systimer_read [] t = None"
| "systimer_read ((raw, n) # rs) t =
     (let t' = (cmn_systimer_periodic ^^ n) t
      in if cmn_systimer_counter t' = cmn_systimer_counter t then Some (raw, t') else systimer_read rs t')"

definition cmn_systimer_get :: "(u64 \<times> nat) list \<Rightarrow> systimer \<Rightarrow> (u64 \<times> systimer) option" where
  "cmn_systimer_get reads t =
     do { (tempcnt, t1) \<leftarrow> systimer_read reads t;
          if cmn_systimer_ticks_for_us t1 = 0 then None
          else let crtsys = cmn_systimer_counter t1 + tempcnt div ucast (cmn_systimer_ticks_for_us t1)
               in if crtsys > PLATFORM_TIMER_SYS_MAX
                  then Some (crtsys - PLATFORM_TIMER_SYS_MAX,
                         if cmn_systimer_counter t1 > PLATFORM_TIMER_SYS_MAX
                         then t1\<lparr>cmn_systimer_counter := cmn_systimer_counter t1 - PLATFORM_TIMER_SYS_MAX\<rparr> else t1)
                  else Some (crtsys, t1) }"

section \<open>Properties\<close>

lemma ucast_final: "f \<le> VTMR_MAX_PERIOD \<Longrightarrow> unat (ucast f :: u32) = unat f"
  by (simp add: unsigned_ucast_eq word_le_nat_alt take_bit_nat_eq_self)

text \<open>C28: A match interrupt that is set on one of the first 128 virtual timers is raised once every period, counted in interrupts of the
  hardware timer, if it is cyclic; if it is a one-shot it is raised once, when the period has passed,
  and never again. The callback never leaves its arrays. (For the timers from 128 on see \<open>vtmr_reset_index_wraps\<close>.)\<close>

theorem vtmr_match_rate:
  assumes "vtmr_inv cfg s" and "i < VTMR_NUM_TIMERS cfg" and "i < 128" and "period \<noteq> 0"
    and "vtmr_final cfg period \<le> VTMR_MAX_PERIOD" and "vtmr_final cfg period \<noteq> 0"
  shows "\<exists>s'. vtmr_set_match_int cfg (VTMR_FIRST_ID + i) period type s = Some (PLATFORM_TIMER_INT_OK, s')
    \<and> (\<forall>n. \<exists>t. vtmr_ticks cfg n s' = Some t \<and> count_list (tmr_raised t) i = count_list (tmr_raised s') i +
        (if type = PLATFORM_TIMER_INT_CYCLIC then n div unat (vtmr_final cfg period)
         else if n < unat (vtmr_final cfg period) then 0 else 1))"
proof -
  define f where "f = vtmr_final cfg period"
  define s1 where "s1 = s\<lparr>vtmr_period_limit := (vtmr_period_limit s)[i := ucast f],
     vtmr_int_periodic_flag := (if type = PLATFORM_TIMER_INT_ONESHOT then flag_off (vtmr_int_periodic_flag s) i
       else flag_on (vtmr_int_periodic_flag s) i), vtmr_int_flag := flag_off (vtmr_int_flag s) i\<rparr>"
  have f: "f \<le> VTMR_MAX_PERIOD" "f \<noteq> 0" using assms(5,6) by (simp_all add: f_def)
  have s1: "vtmr_inv cfg s1" "vt_limit (vtmr_at s1 i) = ucast f" "vt_periodic (vtmr_at s1 i) = (type = PLATFORM_TIMER_INT_CYCLIC)"
    using assms(1,2) by (cases type; auto simp: s1_def vtmr_inv_def vtmr_at_def flag_off_test flag_on_test)+
  obtain s2 where s2: "vtmr_reset_timer cfg (VTMR_FIRST_ID + i) s1 = Some s2" "vtmr_inv cfg s2" "vtmr_reset_idx s2 = -1"
      "vtmr_at s2 i = (vtimer_tick (vtmr_at s1 i))\<lparr>vt_count := 0\<rparr>"
    using vtmr_reset_timer_at [OF s1(1) assms(2,3)] by blast
  define s3 where "s3 = s2\<lparr>vtmr_int_enabled := flag_on (vtmr_int_enabled s2) i\<rparr>"
  have "i < 8 * length (vtmr_int_enabled s2)" using s2(2) assms(2) by (simp add: vtmr_inv_def)
  then have s3: "vtmr_inv cfg s3" "vtmr_reset_idx s3 = -1" "vtmr_at s3 i = (vtmr_at s2 i)\<lparr>vt_enabled := True\<rparr>"
    using s2(2,3) by (simp_all add: s3_def vtmr_inv_def vtmr_at_def flag_on_test)
  have u: "unat (ucast f :: u32) = unat f" by (rule ucast_final [OF f(1)])
  have lim: "0 < (ucast f :: u32)" using u f(2) by (simp add: word_less_nat_alt unat_gt_0)
  have set: "vtmr_set_match_int cfg (VTMR_FIRST_ID + i) period type s = Some (PLATFORM_TIMER_INT_OK, s3)"
    using assms(4) f s2(1) by (simp add: vtmr_set_match_int_def Let_def s3_def f_def [symmetric] s1_def not_less)
  have t: "vt_enabled (vtmr_at s3 i)" "vt_count (vtmr_at s3 i) = 0" "vt_limit (vtmr_at s3 i) = ucast f"
      "vt_periodic (vtmr_at s3 i) = (type = PLATFORM_TIMER_INT_CYCLIC)"
    using s3(3) s2(4) s1(2,3) by (simp_all add: vtimer_tick_fields)
  have "count_list (tmr_raised ((vtmr_cb cfg ^^ n) s3)) i =
      count_list (tmr_raised s3) i + vtimer_raise_count n (vtmr_at s3 i)" for n
    using vtmr_ticks_at [OF s3(1,2) assms(2), of n] by simp
  moreover have "vtmr_ticks cfg n s3 = Some ((vtmr_cb cfg ^^ n) s3)" for n using vtmr_ticks_total [OF s3(1)] by blast
  ultimately show ?thesis
    using set t lim u vtimer_periodic_ticks [of "vtmr_at s3 i"] vtimer_oneshot_ticks [of "vtmr_at s3 i"]
    by (intro exI [of _ s3]) (cases type; simp add: f_def)
qed

definition example_vtmr :: vtmr_state where
  "example_vtmr = \<lparr>vtmr_counters = [0, 0, 0, 0], vtmr_reset_idx = -1, vtmr_period_limit = [0, 0, 0, 0],
     vtmr_int_periodic_flag = [0], vtmr_int_enabled = [0], vtmr_int_flag = [0], global_ints = False,
     tmr_ints = int_boot example_config, tmr_raised = []\<rparr>"

lemma example_vtmr_inv: "vtmr_inv example_config example_vtmr"
  by (simp add: vtmr_inv_def example_vtmr_def example_config_def)

lemma example_final: "vtmr_final example_config 300000 = 3"
  by (simp add: vtmr_final_def example_config_def)

theorem vtmr_match_rate_witness:
  "\<exists>s'. vtmr_set_match_int example_config 0x201 300000 PLATFORM_TIMER_INT_CYCLIC example_vtmr = Some (PLATFORM_TIMER_INT_OK, s')
    \<and> (\<exists>t. vtmr_ticks example_config 10 s' = Some t \<and> count_list (tmr_raised t) 1 = count_list (tmr_raised s') 1 + 3)"
proof -
  have "1 < VTMR_NUM_TIMERS example_config" by (simp add: example_config_def)
  then obtain s' where "vtmr_set_match_int example_config (VTMR_FIRST_ID + 1) 300000 PLATFORM_TIMER_INT_CYCLIC example_vtmr =
        Some (PLATFORM_TIMER_INT_OK, s')"
      "\<And>n. \<exists>t. vtmr_ticks example_config n s' = Some t \<and> count_list (tmr_raised t) 1 = count_list (tmr_raised s') 1 + n div 3"
    using vtmr_match_rate [OF example_vtmr_inv, of 1 300000 PLATFORM_TIMER_INT_CYCLIC] by (auto simp: example_final)
  from this(1) this(2) [of 10] show ?thesis by (intro exI [of _ s']) simp
qed

text \<open>Ticks from zero, as long as a periodic limit is not reached.\<close>

lemma vtimer_count_ticks:
  assumes "vt_count t = 0" and "vt_periodic t \<longrightarrow> n < unat (vt_limit t)" and "n < 2 ^ 32"
  shows "unat (vt_count ((vtimer_tick ^^ n) t)) = n \<and> vt_limit ((vtimer_tick ^^ n) t) = vt_limit t
    \<and> vt_periodic ((vtimer_tick ^^ n) t) = vt_periodic t"
  using assms(2,3)
proof (induction n)
  case 0
  then show ?case using assms(1) by simp
next
  case (Suc n)
  let ?t = "(vtimer_tick ^^ n) t"
  have IH: "unat (vt_count ?t) = n" "vt_limit ?t = vt_limit t" "vt_periodic ?t = vt_periodic t"
    using Suc.IH Suc.prems by force+
  have "unat (vt_count ?t + 1) = Suc n" using IH(1) Suc.prems(2) by (simp add: unat_word_ariths)
  moreover have "vt_periodic t \<Longrightarrow> \<not> vtimer_due ?t"
    using IH calculation Suc.prems(1) by (simp add: vtimer_due_def word_le_nat_alt)
  ultimately show ?case using IH by (auto simp: vtimer_tick_fields)
qed

lemma vtmr_at_count: "vtmr_counters s ! i = vt_count (vtmr_at s i)"
  by (simp add: vtmr_at_def)

lemma u32_final_less: "ucast (c :: u32) < (f :: u64) \<longleftrightarrow> unat c < unat f"
proof -
  have "unat c < 2 ^ 32" using unsigned_less [of c] by simp
  then have "unat (ucast c :: u64) = unat c" by (simp add: unsigned_ucast_eq take_bit_nat_eq_self)
  then show ?thesis by (simp add: word_less_nat_alt)
qed

text \<open>A delay on a virtual timer returns, after one interrupt of the hardware timer to reset it and as many as
  the delay has periods, and leaves the interrupts enabled or disabled as they were.\<close>

theorem vtmr_delay_exact:
  assumes "vtmr_inv cfg s" and "i < VTMR_NUM_TIMERS cfg" and "i < 128" and "us \<le> VTMR_MAX_PERIOD"
    and "unat (vtmr_final cfg us) < 2 ^ 32"
    and "vt_periodic (vtmr_at s i) \<longrightarrow> unat (vtmr_final cfg us) < unat (vt_limit (vtmr_at s i))"
  shows "vtmr_delay cfg (VTMR_FIRST_ID + i) us s =
    map_option (\<lambda>t. t\<lparr>global_ints := global_ints s\<rparr>) (vtmr_ticks cfg (Suc (unat (vtmr_final cfg us))) (s\<lparr>vtmr_reset_idx := of_nat i, global_ints := True\<rparr>))
    \<and> vtmr_delay cfg (VTMR_FIRST_ID + i) us s \<noteq> None"
proof -
  let ?f = "unat (vtmr_final cfg us)" and ?cb = "vtmr_cb cfg"
  let ?s = "s\<lparr>vtmr_reset_idx := of_nat i, global_ints := True\<rparr>"
  have inv: "vtmr_inv cfg ?s" using assms(1,2) sint_u8 [OF assms(3)] by (simp add: vtmr_inv_def)
  define s1 where "s1 = ?cb ?s"
  have s1: "vtmr_inv cfg s1" "vtmr_reset_idx s1 = -1" "global_ints s1" "vt_count (vtmr_at s1 i) = 0"
      "vt_limit (vtmr_at s1 i) = vt_limit (vtmr_at s i)" "vt_periodic (vtmr_at s1 i) = vt_periodic (vtmr_at s i)"
    using vtmr_cb_at [OF inv] assms(2) sint_u8(1) [OF assms(3)] by (simp_all add: s1_def vtimer_tick_fields)
  have cnt: "unat (vtmr_counters ((?cb ^^ k) s1) ! i) = k" if "k \<le> ?f" for k
    using vtimer_count_ticks [of "vtmr_at s1 i" k] vtmr_ticks_at [OF s1(1,2) assms(2), of k] s1 that assms(5,6)
    by (auto simp: vtmr_at_count)
  have "vtmr_spin cfg (\<lambda>s. \<not> ucast (vtmr_counters s ! i) < vtmr_final cfg us) s1 = Some ((?cb ^^ ?f) s1)"
    by (rule vtmr_spin_ticks) (use s1 cnt in \<open>auto simp: u32_final_less\<close>)
  moreover have "s1\<lparr>global_ints := global_ints s, global_ints := True\<rparr> = s1" using s1(3) by (cases s1) simp
  ultimately show ?thesis
    using assms(4) vtmr_reset_timer_step [OF assms(1,2,3)] vtmr_ticks_total [OF inv, of "Suc ?f"]
    by (simp add: vtmr_delay_def s1_def not_less [symmetric] funpow_Suc_right del: funpow.simps)
qed

theorem vtmr_delay_exact_witness:
  "vtmr_delay example_config (0x200 + 1) 300000 example_vtmr =
    map_option (\<lambda>t. t\<lparr>global_ints := False\<rparr>) (vtmr_ticks example_config 4 (example_vtmr\<lparr>vtmr_reset_idx := 1, global_ints := True\<rparr>))"
proof -
  have "1 < VTMR_NUM_TIMERS example_config" "\<not> vt_periodic (vtmr_at example_vtmr 1)" "Suc 3 = 4" "\<not> global_ints example_vtmr"
    by (simp_all add: example_config_def example_vtmr_def vtmr_at_def flag_test_def)
  then show ?thesis
    using vtmr_delay_exact [OF example_vtmr_inv, of 1 300000] unfolding example_final by simp
qed

theorem vtmr_reset_index_wraps_witness: "vtmr_reset_timer example_config (0x200 + 200) example_vtmr = None"
  using vtmr_reset_index_wraps [OF example_vtmr_inv, of 200] by simp

lemma vtmr_spin_returns:
  assumes "vtmr_spin cfg cond s = Some y" and "global_ints s" and "vtmr_inv cfg s"
  shows "\<exists>k. cond ((vtmr_cb cfg ^^ k) s)"
proof -
  have "global_ints s \<longrightarrow> vtmr_inv cfg s \<longrightarrow> (\<exists>k. cond ((vtmr_cb cfg ^^ k) s))"
  proof (rule vtmr_spin.raw_induct
      [where P = "\<lambda>cfg cond s y. global_ints s \<longrightarrow> vtmr_inv cfg s \<longrightarrow> (\<exists>k. cond ((vtmr_cb cfg ^^ k) s))", OF _ assms(1)], intro impI)
    fix spin cfg cond s y
    assume IH: "\<And>cfg cond s y. spin cfg cond s = Some y \<Longrightarrow>
        global_ints s \<longrightarrow> vtmr_inv cfg s \<longrightarrow> (\<exists>k. cond ((vtmr_cb cfg ^^ k) s))"
      and step: "(if cond s then Some s else do { s' \<leftarrow> (if global_ints s then cmn_virtual_timer_cb cfg s else Some s); spin cfg cond s' }) = Some y"
      and s: "global_ints s" "vtmr_inv cfg s"
    show "\<exists>k. cond ((vtmr_cb cfg ^^ k) s)"
    proof (cases "cond s")
      case True
      then show ?thesis by (intro exI [of _ 0]) simp
    next
      case False
      then obtain k where "cond ((vtmr_cb cfg ^^ k) (vtmr_cb cfg s))"
        using IH step s vtmr_cb_at(1,5) [OF s(2)] vtmr_cb_eq(1) [OF s(2)] by fastforce
      then show ?thesis by (metis funpow_Suc_right o_apply)
    qed
  qed
  then show ?thesis using assms(2,3) by simp
qed

text \<open>A delay on a virtual timer that has a cyclic match interrupt with a period not longer than the delay never
  returns: the match resets the counter before it reaches the end of the delay.\<close>

theorem vtmr_delay_hangs:
  assumes "vtmr_inv cfg s" and "i < VTMR_NUM_TIMERS cfg" and "i < 128" and "us \<le> VTMR_MAX_PERIOD"
    and "vt_periodic (vtmr_at s i)" and "0 < vt_limit (vtmr_at s i)"
    and "unat (vt_limit (vtmr_at s i)) \<le> unat (vtmr_final cfg us)"
  shows "vtmr_delay cfg (VTMR_FIRST_ID + i) us s = None"
proof (rule ccontr)
  let ?f = "vtmr_final cfg us" and ?t = "vtmr_at s i"
  obtain s1 where s1: "vtmr_reset_timer cfg (VTMR_FIRST_ID + i) s = Some s1" "vtmr_inv cfg s1" "vtmr_reset_idx s1 = -1"
      "vtmr_at s1 i = (vtimer_tick ?t)\<lparr>vt_count := 0\<rparr>"
    using vtmr_reset_timer_at [OF assms(1,2,3)] by blast
  let ?s = "s1\<lparr>global_ints := True\<rparr>"
  assume "vtmr_delay cfg (VTMR_FIRST_ID + i) us s \<noteq> None"
  then obtain y where "vtmr_spin cfg (\<lambda>s. \<not> ucast (vtmr_counters s ! i) < ?f) ?s = Some y"
    using s1(1) assms(4) by (auto simp: vtmr_delay_def bind_eq_Some_conv split: if_splits)
  from vtmr_spin_returns [OF this] obtain k where k: "\<not> ucast (vtmr_counters ((vtmr_cb cfg ^^ k) ?s) ! i) < ?f"
    using s1(2) by auto
  have lim: "vt_limit (vtmr_at ?s i) = vt_limit ?t" "vt_periodic (vtmr_at ?s i)" "vt_count (vtmr_at ?s i) = 0"
    using s1(4) assms(5) by (simp_all add: vtimer_tick_fields)
  have count: "unat (vt_count ((vtimer_tick ^^ n) t)) < unat (vt_limit t)
      \<and> vt_limit ((vtimer_tick ^^ n) t) = vt_limit t \<and> vt_periodic ((vtimer_tick ^^ n) t)"
    if "vt_count t = 0" "vt_periodic t" "0 < vt_limit t" for n t
  proof (induction n)
    case 0
    then show ?case using that by (simp add: unat_gt_0)
  next
    case (Suc n)
    then have "unat (vt_count ((vtimer_tick ^^ n) t) + 1) = Suc (unat (vt_count ((vtimer_tick ^^ n) t)))"
      by (intro unat_Suc_bounded [of _ "vt_limit t"]) (simp add: word_less_nat_alt)
    then show ?case using Suc that(3) by (auto simp: vtimer_tick_fields vtimer_due_def word_le_nat_alt unat_gt_0)
  qed
  have "unat (vtmr_counters ((vtmr_cb cfg ^^ k) ?s) ! i) < unat (vt_limit ?t)"
    using count [of "vtmr_at ?s i" k] vtmr_ticks_at [of cfg ?s i k] s1(2,3) assms(2,6) lim
    by (auto simp: vtmr_at_count)
  then show False using k assms(7) by (simp add: u32_final_less)
qed

definition example_vtmr_cyclic :: vtmr_state where
  "example_vtmr_cyclic = example_vtmr\<lparr>vtmr_period_limit := [0, 2, 0, 0], vtmr_int_periodic_flag := [2]\<rparr>"

theorem vtmr_delay_hangs_witness: "vtmr_delay example_config (0x200 + 1) 300000 example_vtmr_cyclic = None"
proof -
  have "vtmr_inv example_config example_vtmr_cyclic"
    using example_vtmr_inv by (simp add: vtmr_inv_def example_vtmr_cyclic_def example_config_def)
  moreover have "vt_limit (vtmr_at example_vtmr_cyclic 1) = 2" "vt_periodic (vtmr_at example_vtmr_cyclic 1)"
    by (simp_all add: vtmr_at_def example_vtmr_cyclic_def flag_test_def tmr_msk_def)
  ultimately show ?thesis
    using vtmr_delay_hangs [of example_config example_vtmr_cyclic 1 300000] by (simp add: example_final) (simp add: example_config_def)
qed

lemma u64_len: "n < 2 ^ 64 \<Longrightarrow> unat (of_nat n :: u64) = n"
  by (simp add: unat_of_nat take_bit_nat_eq_self)

lemma min_of_nat_u64:
  assumes "x < 2 ^ 64" and "y < 2 ^ 64"
  shows "min (of_nat x :: u64) (of_nat y) = of_nat (min x y)"
  using u64_len [OF assms(1)] u64_len [OF assms(2)] by (auto simp: min_def word_le_nat_alt)

lemma elapsed_mod:
  fixes a b m :: nat
  assumes "a \<le> m" and "b \<le> m"
  shows "(b + (m + 1) - a) mod (m + 1) = (if a > b then b + (m + 1) - a else b - a)"
proof (cases "a > b")
  case True
  then have "b + (m + 1) - a < m + 1" by linarith
  then show ?thesis using True by simp
next
  case False
  then have "b + (m + 1) - a = b - a + (m + 1)" by linarith
  then show ?thesis using False assms by (simp only: mod_add_self2) simp
qed

text \<open>Two readings of a counter that starts again after \<open>m\<close>.\<close>

lemma timer_diff_readings:
  assumes "timer_const cfg hw i PLATFORM_TIMER_OP_GET_CLOCK = of_nat f" and "0 < f" and "f < 2 ^ 32"
    and "timer_const cfg hw i PLATFORM_TIMER_OP_GET_MAX_CNT = of_nat m" and "m < 2 ^ 44 \<or> f = 1000000 \<and> m < 2 ^ 62"
    and "a \<le> m" and "b \<le> m"
  shows "platform_timer_get_diff_us cfg hw i (of_nat a) (of_nat b) =
    Some (of_nat (min ((b + (m + 1) - a) mod (m + 1) * 1000000 div f) (2 ^ 52 - 2)))"
proof -
  define d where "d = (if a > b then b + (m + 1) - a else b - a)"
  have m62: "m < 2 ^ 62" using assms(5) by auto
  have d: "(b + (m + 1) - a) mod (m + 1) = d" using elapsed_mod [OF assms(6,7)] by (simp add: d_def)
  have dm: "d \<le> m" using assms(6,7) by (auto simp: d_def)
  have u: "unat (of_nat a :: u64) = a" "unat (of_nat b :: u64) = b" using assms(6,7) m62 by (simp_all add: u64_len)
  have tend: "(if (of_nat a :: u64) > of_nat b then of_nat b + (of_nat m + 1) else of_nat b) - of_nat a = (of_nat d :: u64)"
    using u assms(6) by (auto simp: d_def word_less_nat_alt of_nat_diff add.commute)
  have uf: "unat (of_nat f :: u64) = f" using assms(3) by (simp add: u64_len)
  then have fr: "unat (ucast (of_nat f :: u64) :: u32) = f"
    using assms(3) by (simp add: unsigned_ucast_eq take_bit_nat_eq_self)
  define freq where "freq = (ucast (of_nat f :: u64) :: u32)"
  have freq: "unat freq = f" using fr by (simp add: freq_def)
  then have f64: "(ucast freq :: u64) = of_nat f"
    using assms(3) uf by (simp add: word_unat_eq_iff unsigned_ucast_eq take_bit_nat_eq_self)
  have fm: "freq = 1000000 \<longleftrightarrow> f = 1000000" using freq by (auto simp: word_unat_eq_iff)
  have sysmax: "PLATFORM_TIMER_SYS_MAX = of_nat (2 ^ 52 - 2)" by simp
  have diff: "platform_timer_get_diff_us cfg hw i (of_nat a) (of_nat b) =
      (if freq = 1000000 then Some (min (of_nat d) PLATFORM_TIMER_SYS_MAX) else if freq = 0 then None
       else Some (min (of_nat d * 1000000 div ucast freq) PLATFORM_TIMER_SYS_MAX))"
    by (simp only: platform_timer_get_diff_us_def Let_def assms(1,4) tend freq_def)
  show ?thesis
  proof (cases "f = 1000000")
    case True
    have "min (of_nat d) PLATFORM_TIMER_SYS_MAX = of_nat (min d (2 ^ 52 - 2))"
      unfolding sysmax by (rule min_of_nat_u64) (use dm m62 in simp_all)
    then show ?thesis
      using True fm unfolding diff d by simp
  next
    case False
    have lt: "d * 1000000 < 2 ^ 64" using False dm assms(5) by simp
    have "(of_nat d :: u64) * 1000000 = of_nat (d * 1000000)" by simp
    also have "of_nat (d * 1000000) div (ucast freq :: u64) = of_nat (d * 1000000 div f)"
      using u64_len [OF lt] u64_len [OF le_less_trans [OF div_le_dividend lt], of f] uf unfolding f64
      by (simp add: word_unat_eq_iff unat_div del: of_nat_mult)
    finally have q: "(of_nat d :: u64) * 1000000 div ucast freq = of_nat (d * 1000000 div f)" .
    have "min (of_nat (d * 1000000 div f)) PLATFORM_TIMER_SYS_MAX = of_nat (min (d * 1000000 div f) (2 ^ 52 - 2))"
      unfolding sysmax by (rule min_of_nat_u64) (use le_less_trans [OF div_le_dividend lt] in simp_all)
    moreover have "freq \<noteq> 0" using freq assms(2) by auto
    ultimately show ?thesis
      using False fm q unfolding diff d by simp
  qed
qed

definition example_hw :: timer_hw where
  "example_hw = \<lparr>platform_s_timer_op = (\<lambda>_ op _. if op = PLATFORM_TIMER_OP_GET_CLOCK then 1000 else 0xFFFF), platform_timer_read_sys = Some 5\<rparr>"

text \<open>The same with the counts that went by.\<close>

lemma timer_diff_known:
  assumes "timer_const cfg hw i PLATFORM_TIMER_OP_GET_CLOCK = of_nat f" and "0 < f" and "f < 2 ^ 32"
    and "timer_const cfg hw i PLATFORM_TIMER_OP_GET_MAX_CNT = of_nat m" and "m < 2 ^ 44 \<or> f = 1000000 \<and> m < 2 ^ 62"
    and reads: "if i = PLATFORM_TIMER_SYS_ID then t1 \<le> m \<and> a = t0 \<and> b = t1 else a = t0 mod (m + 1) \<and> b = t1 mod (m + 1)"
    and time: "t0 \<le> t1" "t1 - t0 \<le> m"
  shows "platform_timer_get_diff_us cfg hw i (of_nat a) (of_nat b) = Some (of_nat (min ((t1 - t0) * 1000000 div f) (2 ^ 52 - 2)))"
proof -
  have ab: "a = t0 mod (m + 1)" "b = t1 mod (m + 1)" using reads time(1) by (auto split: if_splits)
  have le: "a \<le> m" "b \<le> m" unfolding ab using mod_less_divisor [of "m + 1"] by (simp_all add: less_Suc_eq_le)
  define d r where "d = t1 - t0" and "r = t0 mod (m + 1)"
  have "t1 = t0 + d" using time(1) by (simp add: d_def)
  then have b: "b = (r + d) mod (m + 1)" unfolding ab(2) r_def by (metis mod_add_left_eq)
  have r: "r < m + 1" "d < m + 1" using time(2) by (simp_all add: r_def d_def)
  have "b = (if r + d < m + 1 then r + d else r + d - (m + 1))"
    unfolding b using r mod_less [of "r + d" "m + 1"] by (simp add: le_mod_geq)
  then have "(b + (m + 1) - r) mod (m + 1) = d" using elapsed_mod [of r m b] le(2) r by (auto split: if_splits)
  then have "(b + (m + 1) - a) mod (m + 1) = t1 - t0" by (simp add: ab(1) r_def d_def)
  then show ?thesis using timer_diff_readings [OF assms(1-5) le] by simp
qed

text \<open>C37: The difference of two readings is the time between them in microseconds, up to the maximum of the system timer: for the virtual timers and the
  timers of the platform, whose counters start again after their maximum, if less than one turn lies between the readings; for the system
  timer if it did not start again in between (it does so one count earlier, see \<open>systimer_wrap_off_by_one\<close>). \<open>t0\<close> and \<open>t1\<close> are
  the counts that went by until the two readings.\<close>

theorem timer_diff_correct:
  assumes "timer_const cfg hw i PLATFORM_TIMER_OP_GET_CLOCK = of_nat f" and "0 < f" and "f < 2 ^ 32"
    and "timer_const cfg hw i PLATFORM_TIMER_OP_GET_MAX_CNT = of_nat m" and "m < 2 ^ 44 \<or> f = 1000000 \<and> m < 2 ^ 62"
    and reads: "if i = PLATFORM_TIMER_SYS_ID then t1 \<le> m \<and> a = t0 \<and> b = t1 else a = t0 mod (m + 1) \<and> b = t1 mod (m + 1)"
    and time: "t0 \<le> t1" "t1 - t0 \<le> m"
  shows "platform_timer_get_diff_us cfg hw i (of_nat a) (of_nat b) = Some (of_nat (min ((t1 - t0) * 1000000 div f) (2 ^ 52 - 2)))"
  by (rule timer_diff_known [OF assms])

theorem timer_diff_correct_witness:
  "platform_timer_get_diff_us example_config example_hw 1 (of_nat 0xFFF0) (of_nat 0x10) = Some (of_nat 32000)"
proof -
  have "timer_const example_config example_hw 1 PLATFORM_TIMER_OP_GET_CLOCK = of_nat 1000"
      "timer_const example_config example_hw 1 PLATFORM_TIMER_OP_GET_MAX_CNT = of_nat 0xFFFF"
    by (simp_all add: timer_const_def timer_is_virtual_def example_hw_def)
  moreover have "if 1 = PLATFORM_TIMER_SYS_ID then 0x30010 \<le> (0xFFFF :: nat) \<and> 0xFFF0 = (0x2FFF0 :: nat) \<and> 0x10 = (0x30010 :: nat)
      else 0xFFF0 = (0x2FFF0 :: nat) mod (0xFFFF + 1) \<and> 0x10 = (0x30010 :: nat) mod (0xFFFF + 1)" by simp
  ultimately show ?thesis using timer_diff_correct [of example_config example_hw 1 1000 "0xFFFF" "0x30010" "0xFFF0" "0x2FFF0" "0x10"] by simp
qed

text \<open>For a virtual timer from end to end: a reading, \<open>n\<close> interrupts of the hardware timer, another reading.\<close>

lemma vtimer_free_ticks: "\<not> vt_periodic t \<Longrightarrow> vt_count ((vtimer_tick ^^ n) t) = vt_count t + of_nat n \<and> \<not> vt_periodic ((vtimer_tick ^^ n) t)"
  by (induction n) (simp_all add: vtimer_tick_fields)

theorem vtmr_elapsed:
  assumes inv: "vtmr_inv cfg s" "vtmr_reset_idx s = -1" and i: "i < VTMR_NUM_TIMERS cfg" and free: "\<not> vt_periodic (vtmr_at s i)"
    and n: "n < 2 ^ 32" and f: "0 < VTMR_FREQ_HZ cfg" "VTMR_FREQ_HZ cfg < 2 ^ 32"
    and before: "platform_timer_op cfg hw (VTMR_FIRST_ID + i) PLATFORM_TIMER_OP_READ 0 s = Some (a, s)"
    and run: "vtmr_ticks cfg n s = Some s'" and later: "platform_timer_op cfg hw (VTMR_FIRST_ID + i) PLATFORM_TIMER_OP_READ 0 s' = Some (b, s')"
  shows "platform_timer_get_diff_us cfg hw (VTMR_FIRST_ID + i) a b = Some (of_nat (min (n * 1000000 div VTMR_FREQ_HZ cfg) (2 ^ 52 - 2)))"
proof -
  have v: "timer_is_virtual cfg (VTMR_FIRST_ID + i)" "VTMR_FIRST_ID + i \<noteq> PLATFORM_TIMER_SYS_ID" using i by (simp_all add: timer_is_virtual_def)
  define c where "c = vtmr_counters s ! i"
  have u: "unat (ucast x :: u64) = unat x" for x :: u32
    using unsigned_less [of x, where 'a = nat] by (simp add: unsigned_ucast_eq take_bit_nat_eq_self)
  have lt: "unat c < 2 ^ 32" using unsigned_less [of c, where 'a = nat] by simp
  have "s' = (vtmr_cb cfg ^^ n) s" using run vtmr_ticks_total [OF inv(1)] by simp
  then have "vtmr_counters s' ! i = c + of_nat n"
    using vtmr_ticks_at [OF inv i, of n] vtimer_free_ticks [OF free, of n] by (simp add: c_def vtmr_at_count)
  then have ab: "a = ucast c" "b = ucast (c + of_nat n)" using before later v by (simp_all add: platform_timer_op_def c_def)
  have rt: "x = of_nat (unat x)" for x :: u64 by simp
  have a: "a = of_nat (unat c mod (2 ^ 32 - 1 + 1))" using u [of c] ab(1) rt [of a] lt by simp
  have "unat (c + of_nat n) = (unat c + n) mod (2 ^ 32 - 1 + 1)" by (simp add: unat_word_ariths unat_of_nat take_bit_eq_mod mod_simps)
  then have b: "b = of_nat ((unat c + n) mod (2 ^ 32 - 1 + 1))" using u [of "c + of_nat n"] ab(2) rt [of b] by simp
  have k: "timer_const cfg hw (VTMR_FIRST_ID + i) PLATFORM_TIMER_OP_GET_CLOCK = of_nat (VTMR_FREQ_HZ cfg)"
      "timer_const cfg hw (VTMR_FIRST_ID + i) PLATFORM_TIMER_OP_GET_MAX_CNT = of_nat (2 ^ 32 - 1)"
    using v by (simp_all add: timer_const_def)
  have "if VTMR_FIRST_ID + i = PLATFORM_TIMER_SYS_ID then x else unat c mod (2 ^ 32 - 1 + 1) = unat c mod (2 ^ 32 - 1 + 1)
      \<and> (unat c + n) mod (2 ^ 32 - 1 + 1) = (unat c + n) mod (2 ^ 32 - 1 + 1 :: nat)" for x using v(2) by simp
  from timer_diff_known [OF k(1) f k(2) _ this] n show ?thesis unfolding a b by simp
qed

theorem vtmr_elapsed_witness:
  "\<exists>s' b. vtmr_ticks example_config 3 example_vtmr = Some s' \<and> platform_timer_op example_config example_hw 0x201 PLATFORM_TIMER_OP_READ 0 s' = Some (b, s')
    \<and> platform_timer_get_diff_us example_config example_hw 0x201 0 b = Some 300000"
proof -
  have i: "1 < VTMR_NUM_TIMERS example_config" "timer_is_virtual example_config 0x201" "vtmr_reset_idx example_vtmr = - 1" "\<not> vt_periodic (vtmr_at example_vtmr 1)"
    "VTMR_FREQ_HZ example_config = 10"
    by (simp_all add: example_config_def timer_is_virtual_def example_vtmr_def vtmr_at_def flag_test_def)
  obtain s' where s': "vtmr_ticks example_config 3 example_vtmr = Some s'" using vtmr_ticks_total [OF example_vtmr_inv] by blast
  have "platform_timer_op example_config example_hw (VTMR_FIRST_ID + 1) PLATFORM_TIMER_OP_READ 0 example_vtmr = Some (0, example_vtmr)"
    using i by (simp add: platform_timer_op_def) (simp add: example_vtmr_def)
  moreover have "\<exists>b. platform_timer_op example_config example_hw (VTMR_FIRST_ID + 1) PLATFORM_TIMER_OP_READ 0 s' = Some (b, s')"
    using i by (simp add: platform_timer_op_def)
  ultimately show ?thesis
    using vtmr_elapsed [OF example_vtmr_inv i(3,1,4) _ _ _ _ s'] s' i(5) by fastforce
qed

text \<open>The system timer wraps at its maximum, but a difference assumes one value more: a time span across the
  wrap is reported one microsecond longer than it was.\<close>

theorem systimer_wrap_off_by_one:
  assumes "cmn_systimer_ticks_for_us t = 1" and "cmn_systimer_counter t = of_nat c" and "c + raw = now"
    and "2 ^ 52 - 2 < now" and "before \<le> 2 ^ 52 - 2" and "now - (2 ^ 52 - 2) < before" and "platform_timer_read_sys hw \<noteq> None"
  shows "\<exists>t' r. cmn_systimer_get [(of_nat raw, 0)] t = Some (r, t') \<and> r = of_nat (now - (2 ^ 52 - 2))
    \<and> platform_timer_get_diff_us cfg hw PLATFORM_TIMER_SYS_ID (of_nat before) r = Some (of_nat (now - before + 1))"
proof -
  have now: "now < 2 ^ 53" using assms(5,6) by simp
  have "c < 2 ^ 64" "raw < 2 ^ 64" using assms(3) now by simp_all
  have val: "(of_nat c :: u64) + of_nat raw = of_nat now" using assms(3) by (simp flip: of_nat_add)
  have gt: "(of_nat now :: u64) > PLATFORM_TIMER_SYS_MAX"
    using assms(4) now u64_len [of now] by (simp add: word_less_nat_alt)
  have r: "(of_nat now :: u64) - PLATFORM_TIMER_SYS_MAX = of_nat (now - (2 ^ 52 - 2))"
    using assms(4) by (simp add: of_nat_diff)
  obtain t' where g: "cmn_systimer_get [(of_nat raw, 0)] t = Some (of_nat (now - (2 ^ 52 - 2)), t')"
    using assms(1,2) val gt r by (auto simp: cmn_systimer_get_def)
  have "timer_const cfg hw PLATFORM_TIMER_SYS_ID PLATFORM_TIMER_OP_GET_CLOCK = of_nat 1000000"
      "timer_const cfg hw PLATFORM_TIMER_SYS_ID PLATFORM_TIMER_OP_GET_MAX_CNT = of_nat (2 ^ 52 - 2)"
    using assms(7) by (simp_all add: timer_const_def)
  note cst = this
  have "(now - (2 ^ 52 - 2) + (2 ^ 52 - 2 + 1) - before) mod (2 ^ 52 - 2 + 1) = now - before + 1"
    by (subst elapsed_mod) (use assms(4-6) in auto)
  moreover have "now - before + 1 \<le> 2 ^ 52 - 2" using assms(4-6) by simp
  ultimately have "platform_timer_get_diff_us cfg hw PLATFORM_TIMER_SYS_ID (of_nat before) (of_nat (now - (2 ^ 52 - 2))) =
      Some (of_nat (now - before + 1))"
    using timer_diff_readings [OF cst(1) _ _ cst(2), of before "now - (2 ^ 52 - 2)"] assms(5,6) by simp
  then show ?thesis using g by blast
qed


theorem systimer_wrap_off_by_one_witness:
  "\<exists>t' r. cmn_systimer_get [(of_nat 20, 0)]
      \<lparr>cmn_systimer_ticks_for_us = 1, cmn_systimer_counter = of_nat (2 ^ 52 - 10), cmn_systimer_us_per_interrupt = 1000\<rparr> = Some (r, t')
    \<and> platform_timer_get_diff_us example_config example_hw PLATFORM_TIMER_SYS_ID (of_nat (2 ^ 52 - 5)) r = Some (of_nat 16)"
  using systimer_wrap_off_by_one [of "\<lparr>cmn_systimer_ticks_for_us = 1, cmn_systimer_counter = of_nat (2 ^ 52 - 10), cmn_systimer_us_per_interrupt = 1000\<rparr>"
      "2 ^ 52 - 10" 20 "2 ^ 52 + 10" "2 ^ 52 - 5" example_hw example_config]
  by (simp add: example_hw_def) auto

end
