(* ===== verification/Sbrk.thy ===== *)
theory Sbrk
  imports Elua_Prelude
begin

text \<open>
  Where the allocator gets its memory: the memory spaces of the board (\<^verbatim>\<open>platform_get_first_free_ram\<close> and
  \<^verbatim>\<open>platform_get_last_free_ram\<close> of \<^verbatim>\<open>src/common.c\<close>) and \<^verbatim>\<open>elua_sbrk\<close> of \<^verbatim>\<open>src/newlib/stubs.c\<close>, which hands out blocks of the
  current space and moves to the next one when a request does not fit. The arrays \<^verbatim>\<open>MEM_START_ADDRESS\<close> and
  \<^verbatim>\<open>MEM_END_ADDRESS\<close> of the build are lists of 32-bit addresses, and so are pointers: comparing a sum
  wraps around. A failed call, \<^verbatim>\<open>( void* )-1\<close>, is \<^const>\<open>None\<close>.
\<close>

section \<open>The memory spaces\<close>

abbreviation "MIN_ALIGN \<equiv> (8 :: u32)"
abbreviation "MIN_ALIGN_SHIFT \<equiv> (3 :: nat)"

definition platform_get_first_free_ram :: "u32 list \<Rightarrow> nat \<Rightarrow> u32" where
  "platform_get_first_free_ram mstart i =
     (if i \<ge> length mstart then 0
      else let p = mstart ! i
           in if p AND (MIN_ALIGN - 1) \<noteq> 0 then push_bit MIN_ALIGN_SHIFT (drop_bit MIN_ALIGN_SHIFT p + 1) else p)"

definition platform_get_last_free_ram :: "u32 list \<Rightarrow> nat \<Rightarrow> u32" where
  "platform_get_last_free_ram mend i =
     (if i \<ge> length mend then 0
      else let p = mend ! i
           in if p AND (MIN_ALIGN - 1) \<noteq> 0 then push_bit MIN_ALIGN_SHIFT (drop_bit MIN_ALIGN_SHIFT p - 1) else p)"

record ram =
  mem_start :: "u32 list"
  mem_end :: "u32 list"

abbreviation first_free :: "ram \<Rightarrow> nat \<Rightarrow> u32" where
  "first_free m i \<equiv> platform_get_first_free_ram (mem_start m) i"

abbreviation last_free :: "ram \<Rightarrow> nat \<Rightarrow> u32" where
  "last_free m i \<equiv> platform_get_last_free_ram (mem_end m) i"

section \<open>The break\<close>

record heap =
  heap_ptr :: u32
  mem_index :: nat

definition heap_boot :: heap where
  "heap_boot = \<lparr>heap_ptr = 0, mem_index = 0\<rparr>"

function sbrk_loop :: "ram \<Rightarrow> u32 \<Rightarrow> u32 \<Rightarrow> nat \<Rightarrow> u32 option \<times> heap" where
  "sbrk_loop m incr hp i =
     (let hp' = (if hp = 0 then first_free m i else hp)
      in if hp' = 0 then (None, \<lparr>heap_ptr = 0, mem_index = i\<rparr>)
         else if hp' + incr > last_free m i then sbrk_loop m incr 0 (i + 1)
         else (Some hp', \<lparr>heap_ptr = hp' + incr, mem_index = i\<rparr>))"
  by pat_completeness auto
termination
  by (relation "measure (\<lambda>(m, incr, hp, i). 2 * (length (mem_start m) - i) + (if hp = 0 then 0 else 1))")
    (auto simp: platform_get_first_free_ram_def split: if_splits)

declare sbrk_loop.simps [simp del]

definition elua_sbrk :: "ram \<Rightarrow> int \<Rightarrow> heap \<Rightarrow> u32 option \<times> heap" where
  "elua_sbrk m incr h = (if incr < 0 then (None, h) else sbrk_loop m (word_of_int incr) (heap_ptr h) (mem_index h))"

section \<open>Lemmas\<close>

text \<open>A board's memory map: as many ends as starts, spaces that are not empty after alignment, below the last
  \<open>slack\<close> bytes of the address space, where \<open>slack\<close> bounds a request.\<close>

definition ram_ok :: "nat \<Rightarrow> ram \<Rightarrow> bool" where
  "ram_ok slack m \<longleftrightarrow> length (mem_end m) = length (mem_start m)
     \<and> (\<forall>i < length (mem_start m). first_free m i \<noteq> 0 \<and> first_free m i \<le> last_free m i \<and> unat (last_free m i) + slack < 2 ^ 32)"

definition heap_inv :: "ram \<Rightarrow> heap \<Rightarrow> bool" where
  "heap_inv m h \<longleftrightarrow> heap_ptr h = 0 \<or>
     mem_index h < length (mem_start m) \<and> first_free m (mem_index h) \<le> heap_ptr h \<and> heap_ptr h \<le> last_free m (mem_index h)"

lemma heap_inv_parts [simp]: "heap_inv m \<lparr>heap_ptr = heap_ptr h, mem_index = mem_index h\<rparr> = heap_inv m h"
  by (simp add: heap_inv_def)

lemma heap_inv_boot: "heap_inv m heap_boot"
  by (simp add: heap_inv_def heap_boot_def)

text \<open>The block a successful call returns: in one memory space, not before the break, in the current space or a later one.\<close>

lemma no_wrap:
  assumes "unat (l :: u32) + slack < 2 ^ 32" "p \<le> l" "unat n \<le> slack"
  shows "unat (p + n) = unat p + unat n"
proof -
  have "unat p \<le> unat l" using assms(2) by (simp add: word_le_nat_alt)
  then have "unat p + unat n < 2 ^ LENGTH(32)" using assms(1,3) by simp
  then show ?thesis by (simp add: unat_word_ariths)
qed

lemma sbrk_loop_block:
  assumes "ram_ok slack m" "unat n \<le> slack" "heap_inv m \<lparr>heap_ptr = hp, mem_index = i\<rparr>" "sbrk_loop m n hp i = (Some p, h')"
  shows "mem_index h' < length (mem_start m) \<and> i \<le> mem_index h' \<and> (mem_index h' = i \<longrightarrow> hp \<noteq> 0 \<longrightarrow> p = hp)
    \<and> first_free m (mem_index h') \<le> p \<and> unat p + unat n \<le> unat (last_free m (mem_index h'))
    \<and> p \<noteq> 0 \<and> heap_ptr h' = p + n \<and> heap_inv m h'"
  using assms
proof (induction m n hp i rule: sbrk_loop.induct)
  case (1 m n hp i)
  define hp' where "hp' = (if hp = 0 then first_free m i else hp)"
  have eq: "sbrk_loop m n hp i = (if hp' = 0 then (None, \<lparr>heap_ptr = 0, mem_index = i\<rparr>)
      else if hp' + n > last_free m i then sbrk_loop m n 0 (i + 1) else (Some hp', \<lparr>heap_ptr = hp' + n, mem_index = i\<rparr>))"
    by (subst sbrk_loop.simps) (simp add: hp'_def Let_def)
  have ne: "hp' \<noteq> 0" using 1(5) eq by (auto split: if_splits)
  have i: "i < length (mem_start m)"
    using 1(4) ne by (auto simp: hp'_def heap_inv_def platform_get_first_free_ram_def split: if_splits)
  have sp: "first_free m i \<le> hp'" "hp' \<le> last_free m i" "unat (last_free m i) + slack < 2 ^ 32"
    using 1(2,4) i by (auto simp: hp'_def heap_inv_def ram_ok_def split: if_splits)
  show ?case
  proof (cases "hp' + n > last_free m i")
    case True
    then have r: "sbrk_loop m n 0 (i + 1) = (Some p, h')" using 1(5) eq ne by simp
    have "heap_inv m \<lparr>heap_ptr = 0, mem_index = i + 1\<rparr>" by (simp add: heap_inv_def)
    then show ?thesis using 1(1) [OF hp'_def ne True 1(2,3) _ r] by auto
  next
    case False
    then have h: "p = hp'" "h' = \<lparr>heap_ptr = hp' + n, mem_index = i\<rparr>" using 1(5) eq ne by auto
    have w: "unat (hp' + n) = unat hp' + unat n" using no_wrap [OF sp(3,2) 1(3)] .
    then have "unat hp' + unat n \<le> unat (last_free m i)" "hp' \<le> hp' + n" using False by (simp_all add: word_le_nat_alt not_less)
    then show ?thesis using h i ne sp w False by (auto simp: heap_inv_def hp'_def intro: order_trans split: if_splits)
  qed
qed

lemma sbrk_loop_none:
  assumes "sbrk_loop m n hp i = (None, h')"
  shows "heap_ptr h' = 0 \<and> i \<le> mem_index h' \<and> (mem_index h' = i \<longrightarrow> hp = 0) \<and> first_free m (mem_index h') = 0"
  using assms
proof (induction m n hp i rule: sbrk_loop.induct)
  case (1 m n hp i)
  define hp' where "hp' = (if hp = 0 then first_free m i else hp)"
  have eq: "sbrk_loop m n hp i = (if hp' = 0 then (None, \<lparr>heap_ptr = 0, mem_index = i\<rparr>)
      else if hp' + n > last_free m i then sbrk_loop m n 0 (i + 1) else (Some hp', \<lparr>heap_ptr = hp' + n, mem_index = i\<rparr>))"
    by (subst sbrk_loop.simps) (simp add: hp'_def Let_def)
  show ?case
  proof (cases "hp' = 0")
    case True
    then show ?thesis using 1(2) eq by (auto simp: hp'_def split: if_splits)
  next
    case False
    then have "last_free m i < hp' + n" "sbrk_loop m n 0 (i + 1) = (None, h')" using 1(2) eq by (auto split: if_splits)
    then show ?thesis using 1(1) [OF hp'_def False] by auto
  qed
qed

lemma sbrk_loop_too_large:
  assumes "ram_ok slack m" "unat n \<le> slack" "heap_inv m \<lparr>heap_ptr = hp, mem_index = i\<rparr>"
    and "\<forall>i < length (mem_start m). unat (last_free m i) < unat (first_free m i) + unat n"
  shows "fst (sbrk_loop m n hp i) = None"
proof (rule ccontr)
  assume "fst (sbrk_loop m n hp i) \<noteq> None"
  then obtain p h' where "sbrk_loop m n hp i = (Some p, h')" by (cases "sbrk_loop m n hp i") auto
  from sbrk_loop_block [OF assms(1-3) this] assms(4) show False by (auto simp: word_le_nat_alt)
qed

text \<open>A sequence of requests: the blocks handed out, with the memory space each is in.\<close>

fun sbrk_run :: "ram \<Rightarrow> int list \<Rightarrow> heap \<Rightarrow> (nat \<times> u32 \<times> int) list" where
  "sbrk_run m [] h = []"
| "sbrk_run m (n # ns) h =
     (case elua_sbrk m n h of
        (None, h') \<Rightarrow> sbrk_run m ns h'
      | (Some p, h') \<Rightarrow> (mem_index h', p, n) # sbrk_run m ns h')"

definition block_before :: "nat \<times> u32 \<times> int \<Rightarrow> nat \<times> u32 \<times> int \<Rightarrow> bool" where
  "block_before = (\<lambda>(i, p, n) (j, q, k). i < j \<or> i = j \<and> unat p + nat n \<le> unat q)"

definition block_inside :: "ram \<Rightarrow> nat \<times> u32 \<times> int \<Rightarrow> bool" where
  "block_inside m = (\<lambda>(i, p, n). i < length (mem_start m) \<and> first_free m i \<le> p \<and> unat p + nat n \<le> unat (last_free m i))"

definition block_after :: "heap \<Rightarrow> nat \<times> u32 \<times> int \<Rightarrow> bool" where
  "block_after h = (\<lambda>(i, p, n). mem_index h < i \<or> mem_index h = i \<and> heap_ptr h \<le> p)"

lemma elua_sbrk_block:
  assumes "ram_ok slack m" "n \<le> int slack" "heap_inv m h" "elua_sbrk m n h = (Some p, h')" "slack < 2 ^ 32"
  shows "heap_inv m h'" "block_inside m (mem_index h', p, n)" "block_after h (mem_index h', p, n)"
    "block_after h' b \<Longrightarrow> block_before (mem_index h', p, n) b" "block_after h' b \<Longrightarrow> block_after h b"
proof -
  have r: "0 \<le> n" "sbrk_loop m (word_of_int n) (heap_ptr h) (mem_index h) = (Some p, h')"
    using assms(4) by (auto simp: elua_sbrk_def split: if_splits)
  have u: "unat (word_of_int n :: u32) = nat n"
    using r(1) assms(2,5) by (simp add: unat_eq_nat_uint uint_word_of_int_eq take_bit_int_eq_self)
  have b: "mem_index h' < length (mem_start m)" "mem_index h \<le> mem_index h'" "mem_index h' = mem_index h \<Longrightarrow> heap_ptr h \<noteq> 0 \<Longrightarrow> p = heap_ptr h"
    "first_free m (mem_index h') \<le> p" "unat p + nat n \<le> unat (last_free m (mem_index h'))" "heap_ptr h' = p + word_of_int n" "heap_inv m h'"
    using sbrk_loop_block [OF assms(1) _ _ r(2)] assms(2,3) r(1) by (auto simp: u nat_le_iff)
  show "heap_inv m h'" "block_inside m (mem_index h', p, n)" using b by (simp_all add: block_inside_def)
  show a: "block_after h (mem_index h', p, n)" using b(2,3) by (cases "heap_ptr h = 0") (auto simp: block_after_def)
  have w: "unat (heap_ptr h') = unat p + nat n" using b(5) unsigned_less [of "last_free m (mem_index h')", where 'a = nat] by (simp add: b(6) unat_word_ariths u)
  then show "block_before (mem_index h', p, n) b" if "block_after h' b" for b
    using that by (auto simp: block_after_def block_before_def word_le_nat_alt)
  have "p \<le> heap_ptr h'" using w by (simp add: word_le_nat_alt)
  then show "block_after h b" if "block_after h' b" for b
    using that a by (auto simp: block_after_def intro: order_trans)
qed

lemma sbrk_run_blocks:
  assumes "ram_ok slack m" "slack < 2 ^ 32" "\<forall>n \<in> set ns. n \<le> int slack" "heap_inv m h"
  shows "sorted_wrt block_before (sbrk_run m ns h) \<and> (\<forall>b \<in> set (sbrk_run m ns h). block_inside m b \<and> block_after h b)"
  using assms(3,4)
proof (induction ns arbitrary: h)
  case Nil
  then show ?case by simp
next
  case (Cons n ns)
  obtain q h' where q: "elua_sbrk m n h = (q, h')" by fastforce
  show ?case
  proof (cases q)
    case None
    have h': "heap_inv m h'" "block_after h' b \<Longrightarrow> block_after h b" for b
      using Cons.prems(2) q None sbrk_loop_none [of m "word_of_int n" "heap_ptr h" "mem_index h" h']
      by (auto simp: elua_sbrk_def heap_inv_def block_after_def split: if_splits)
    then show ?thesis using Cons.IH [OF _ h'(1)] Cons.prems(1) q None by auto
  next
    case (Some p)
    note e = elua_sbrk_block [OF assms(1) _ Cons.prems(2) q [unfolded Some] assms(2)]
    have n: "n \<le> int slack" using Cons.prems(1) by simp
    then show ?thesis using Cons.IH [OF _ e(1) [OF n]] Cons.prems(1) q Some e(2-5) [OF n] by auto
  qed
qed

section \<open>Properties\<close>

text \<open>C18: The blocks that a sequence of requests gets from sbrk lie inside the memory spaces of the board and do not overlap: each
  is in a later space than the one before it, or after its end.\<close>

theorem sbrk_blocks_disjoint:
  assumes "ram_ok slack m" "slack < 2 ^ 32" "\<forall>n \<in> set ns. n \<le> int slack"
  shows "sorted_wrt block_before (sbrk_run m ns heap_boot) \<and> (\<forall>b \<in> set (sbrk_run m ns heap_boot). block_inside m b)"
  using sbrk_run_blocks [OF assms heap_inv_boot] by blast

text \<open>A request that no memory space can hold makes the allocator give up the spaces it walks over: it fails, and so
  does every later request, however small.\<close>

theorem sbrk_large_request_exhausts:
  assumes "ram_ok slack m" "heap_inv m h" "0 \<le> n" "n \<le> int slack" "slack < 2 ^ 32"
    and large: "\<forall>i < length (mem_start m). int (unat (last_free m i)) < int (unat (first_free m i)) + n"
  shows "\<exists>h'. elua_sbrk m n h = (None, h') \<and> (\<forall>k. elua_sbrk m k h' = (None, h'))"
proof -
  have u: "unat (word_of_int n :: u32) = nat n"
    using assms(3-5) by (simp add: unat_eq_nat_uint uint_word_of_int_eq take_bit_int_eq_self)
  have "unat (last_free m i) < unat (first_free m i) + nat n" if "i < length (mem_start m)" for i
    using large [rule_format, OF that] assms(3) by linarith
  then have "fst (sbrk_loop m (word_of_int n) (heap_ptr h) (mem_index h)) = None"
    by (intro sbrk_loop_too_large [OF assms(1)]) (use assms(2,4) in \<open>simp_all add: u nat_le_iff\<close>)
  then obtain h' where h': "elua_sbrk m n h = (None, h')"
    using assms(3) by (cases "elua_sbrk m n h") (simp add: elua_sbrk_def)
  then have "heap_ptr h' = 0" "first_free m (mem_index h') = 0"
    using assms(3) sbrk_loop_none [of m "word_of_int n" "heap_ptr h" "mem_index h" h'] by (auto simp: elua_sbrk_def)
  then have "elua_sbrk m k h' = (None, h')" for k by (simp add: elua_sbrk_def sbrk_loop.simps [of m _ 0])
  then show ?thesis using h' by blast
qed

text \<open>A board with internal and external memory.\<close>

definition example_ram :: ram where
  "example_ram = \<lparr>mem_start = [0x20001004, 0x60000000], mem_end = [0x20008000, 0x60100000]\<rparr>"

lemma example_ram_ok: "ram_ok 0x40000000 example_ram"
  by (auto simp: ram_ok_def example_ram_def platform_get_first_free_ram_def platform_get_last_free_ram_def less_Suc_eq)

theorem sbrk_blocks_disjoint_witness:
  "sorted_wrt block_before (sbrk_run example_ram [0x1000, 0x6800, 0x100] heap_boot)"
  using sbrk_blocks_disjoint [OF example_ram_ok, of "[0x1000, 0x6800, 0x100]"] by simp

theorem sbrk_large_request_exhausts_witness:
  "\<exists>h'. elua_sbrk example_ram 0x200000 heap_boot = (None, h') \<and> elua_sbrk example_ram 8 h' = (None, h')"
proof -
  have "\<forall>i < length (mem_start example_ram). int (unat (last_free example_ram i)) < int (unat (first_free example_ram i)) + 0x200000"
    by (auto simp: example_ram_def platform_get_first_free_ram_def platform_get_last_free_ram_def less_Suc_eq)
  then show ?thesis using sbrk_large_request_exhausts [OF example_ram_ok heap_inv_boot, of "0x200000"] by auto
qed

end
