(* ===== verification/Salloc.thy ===== *)
theory Salloc
  imports Sbrk "HOL-Library.Monad_Syntax"
begin

text \<open>
  The simple allocator, \<^verbatim>\<open>src/salloc.c\<close>: each memory space is a doubly linked list of blocks between two guards. The header of a block is
  two 32-bit words, the addresses of the next and of the previous block divided by eight; the highest bit of the first
  word tells whether the block is taken. The model has the memory itself, a function from addresses to bytes, in which headers and the data of the
  program live side by side; \<open>seg\<close> is the abstraction, the list of the blocks with their states. Searching and walking along the list
  are partial functions, which do not return on a list without an end. Sizes and addresses are natural numbers with
  the wrap-around of 32 bits written out.
\<close>

type_synonym mem = "nat \<Rightarrow> u8"

definition load32 :: "mem \<Rightarrow> nat \<Rightarrow> u32" where
  "load32 m a = ucast (m a) OR push_bit 8 (ucast (m (a + 1))) OR push_bit 16 (ucast (m (a + 2))) OR push_bit 24 (ucast (m (a + 3)))"

definition store32 :: "nat \<Rightarrow> u32 \<Rightarrow> mem \<Rightarrow> mem" where
  "store32 a v m = m(a := ucast v, a + 1 := ucast (drop_bit 8 v), a + 2 := ucast (drop_bit 16 v), a + 3 := ucast (drop_bit 24 v))"

abbreviation "DYN_SIZE_MULT \<equiv> (8 :: nat)"
abbreviation "DYN_SIZE_MULT_SHIFT \<equiv> (3 :: nat)"
abbreviation "DYN_HEADER_SIZE \<equiv> (8 :: nat)"
abbreviation "DYN_MIN_SPLIT_SIZE \<equiv> (16 :: nat)"

section \<open>Headers\<close>

definition s_act_size :: "nat \<Rightarrow> nat" where
  "s_act_size sz = (if sz AND (DYN_SIZE_MULT - 1) \<noteq> 0 then push_bit DYN_SIZE_MULT_SHIFT (drop_bit DYN_SIZE_MULT_SHIFT sz + 1) mod 2 ^ 32 else sz)"

definition s_get_next_block :: "mem \<Rightarrow> nat \<Rightarrow> nat" where
  "s_get_next_block m p = unat (push_bit DYN_SIZE_MULT_SHIFT (load32 m p AND 0x7FFFFFFF))"

definition s_set_next_block :: "nat \<Rightarrow> nat \<Rightarrow> mem \<Rightarrow> mem" where
  "s_set_next_block p q m = store32 p ((load32 m p AND 0x80000000) OR drop_bit DYN_SIZE_MULT_SHIFT (of_nat q)) m"

definition s_get_prev_block :: "mem \<Rightarrow> nat \<Rightarrow> nat" where
  "s_get_prev_block m p = unat (push_bit DYN_SIZE_MULT_SHIFT (load32 m (p + 4) AND 0x7FFFFFFF))"

definition s_set_prev_block :: "nat \<Rightarrow> nat \<Rightarrow> mem \<Rightarrow> mem" where
  "s_set_prev_block p q m = store32 (p + 4) ((load32 m (p + 4) AND 0x80000000) OR drop_bit DYN_SIZE_MULT_SHIFT (of_nat q)) m"

definition s_get_block_size :: "mem \<Rightarrow> nat \<Rightarrow> nat" where
  "s_get_block_size m p = (let n = s_get_next_block m p in if n \<noteq> 0 then (n + 2 ^ 32 - p) mod 2 ^ 32 else 0)"

definition s_mark_block_taken :: "nat \<Rightarrow> mem \<Rightarrow> mem" where
  "s_mark_block_taken p m = store32 p (load32 m p OR 0x80000000) m"

definition s_mark_block_free :: "nat \<Rightarrow> mem \<Rightarrow> mem" where
  "s_mark_block_free p m = store32 p (load32 m p AND 0x7FFFFFFF) m"

definition s_is_block_free :: "mem \<Rightarrow> nat \<Rightarrow> bool" where
  "s_is_block_free m p \<longleftrightarrow> load32 m p AND 0x80000000 = 0"

definition s_create_new_block :: "nat \<Rightarrow> nat \<Rightarrow> nat \<Rightarrow> mem \<Rightarrow> mem" where
  "s_create_new_block p nxt prv m =
     store32 (p + 4) (drop_bit DYN_SIZE_MULT_SHIFT (of_nat prv)) (store32 p (drop_bit DYN_SIZE_MULT_SHIFT (of_nat nxt)) m)"

section \<open>Blocks\<close>

partial_function (option) s_walk_back :: "mem \<Rightarrow> nat \<Rightarrow> nat option" where
  "s_walk_back m p = (if s_is_block_free m p then s_walk_back m (s_get_prev_block m p) else Some p)"

partial_function (option) s_walk_on :: "mem \<Rightarrow> nat \<Rightarrow> nat option" where
  "s_walk_on m p = (if s_is_block_free m p then s_walk_on m (s_get_next_block m p) else Some p)"

definition s_compact_free :: "nat \<Rightarrow> mem \<Rightarrow> mem option" where
  "s_compact_free p m =
     (let m1 = s_mark_block_free p m
      in do { t \<leftarrow> s_walk_back m1 p;
              let temp1 = s_get_next_block m1 t;
              temp2 \<leftarrow> s_walk_on m1 p;
              Some (if temp1 \<noteq> p \<or> s_get_prev_block m1 temp2 \<noteq> p
                    then s_set_prev_block temp2 temp1 (s_set_next_block temp1 temp2 m1) else m1) })"

text \<open>The smallest free block that is large enough; 0 is NULL.\<close>

partial_function (option) s_best_fit :: "mem \<Rightarrow> nat \<Rightarrow> nat \<Rightarrow> nat \<Rightarrow> nat \<Rightarrow> (nat \<times> nat) option" where
  "s_best_fit m sz temp pblock minsize =
     (if temp = 0 then Some (pblock, minsize)
      else let bsize = s_get_block_size m temp
           in if s_is_block_free m temp \<and> sz \<le> bsize \<and> bsize < minsize then s_best_fit m sz (s_get_next_block m temp) temp bsize
              else s_best_fit m sz (s_get_next_block m temp) pblock minsize)"

text \<open>The first \<open>sz\<close> bytes of a block become a block of their own; the rest is freed.\<close>

definition s_split :: "nat \<Rightarrow> nat \<Rightarrow> mem \<Rightarrow> mem option" where
  "s_split pblock sz m =
     (let temp = pblock + sz; nxt = s_get_next_block m pblock
      in s_compact_free temp (s_set_next_block pblock temp (s_set_prev_block nxt temp (s_set_next_block temp nxt (s_set_prev_block temp pblock m)))))"

definition s_get_free_block :: "nat \<Rightarrow> nat \<Rightarrow> mem \<Rightarrow> (nat \<times> mem) option" where
  "s_get_free_block sz pstart m =
     (if sz = 0 then Some (0, m)
      else let sz = s_act_size ((sz + DYN_HEADER_SIZE) mod 2 ^ 32)
           in do { (pblock, minsize) \<leftarrow> s_best_fit m sz (s_get_next_block m pstart) 0 (2 ^ 32 - 1);
                   if pblock = 0 then Some (0, m)
                   else let m1 = s_mark_block_taken pblock m
                        in if minsize > sz \<and> minsize - sz \<ge> DYN_MIN_SPLIT_SIZE
                           then map_option (\<lambda>m2. (pblock + DYN_HEADER_SIZE, m2)) (s_split pblock sz m1)
                           else Some (pblock + DYN_HEADER_SIZE, m1) })"

definition s_free_block :: "nat \<Rightarrow> mem \<Rightarrow> mem option" where
  "s_free_block p m = s_compact_free (p - DYN_HEADER_SIZE) m"

definition s_get_actual_block_size :: "mem \<Rightarrow> nat \<Rightarrow> nat" where
  "s_get_actual_block_size m p = (s_get_block_size m (p - DYN_HEADER_SIZE) + 2 ^ 32 - DYN_HEADER_SIZE) mod 2 ^ 32"

definition s_shrink_block :: "nat \<Rightarrow> nat \<Rightarrow> mem \<Rightarrow> mem option" where
  "s_shrink_block pblock sz m =
     (let pblock = pblock - DYN_HEADER_SIZE; sz = s_act_size ((sz + DYN_HEADER_SIZE) mod 2 ^ 32)
      in if sz \<ge> s_get_block_size m pblock \<or> s_get_block_size m pblock - sz < DYN_MIN_SPLIT_SIZE then Some m
         else s_split pblock sz m)"

section \<open>The interface\<close>

record salloc =
  s_initialized :: bool
  s_mem :: mem

definition s_init_space :: "nat \<Rightarrow> nat \<Rightarrow> mem \<Rightarrow> mem" where
  "s_init_space pstart memspace m =
     (let g1 = pstart; crt = g1 + DYN_SIZE_MULT; g2 = g1 + memspace - DYN_SIZE_MULT
      in s_mark_block_free crt (s_mark_block_taken g2 (s_mark_block_taken g1
           (s_create_new_block g2 0 crt (s_create_new_block crt g2 g1 (s_create_new_block g1 crt 0 m))))))"

function s_init_from :: "ram \<Rightarrow> nat \<Rightarrow> mem \<Rightarrow> mem" where
  "s_init_from rm i m =
     (if first_free rm i = 0 then m
      else s_init_from rm (i + 1) (s_init_space (unat (first_free rm i)) (unat (last_free rm i - first_free rm i)) m))"
  by pat_completeness auto
termination
  by (relation "measure (\<lambda>(rm, i, m). length (mem_start rm) - i)") (auto simp: platform_get_first_free_ram_def split: if_splits)

declare s_init_from.simps [simp del]

definition s_init :: "ram \<Rightarrow> salloc \<Rightarrow> salloc" where
  "s_init rm s = s\<lparr>s_mem := s_init_from rm 0 (s_mem s), s_initialized := True\<rparr>"

function smalloc_from :: "ram \<Rightarrow> nat \<Rightarrow> nat \<Rightarrow> mem \<Rightarrow> (nat \<times> mem) option" where
  "smalloc_from rm sz i m =
     (if first_free rm i = 0 then Some (0, m)
      else do { (ptr, m') \<leftarrow> s_get_free_block sz (unat (first_free rm i)) m;
                if ptr \<noteq> 0 then Some (ptr, m') else smalloc_from rm sz (i + 1) m' })"
  by pat_completeness auto
termination
  by (relation "measure (\<lambda>(rm, sz, i, m). length (mem_start rm) - i)") (auto simp: platform_get_first_free_ram_def split: if_splits)

declare smalloc_from.simps [simp del]

definition smalloc :: "ram \<Rightarrow> nat \<Rightarrow> salloc \<Rightarrow> (nat \<times> salloc) option" where
  "smalloc rm sz s =
     (let s1 = (if s_initialized s then s else s_init rm s)
      in map_option (\<lambda>(p, m). (p, s1\<lparr>s_mem := m\<rparr>)) (smalloc_from rm sz 0 (s_mem s1)))"

definition sfree :: "nat \<Rightarrow> salloc \<Rightarrow> salloc option" where
  "sfree p s = (if p = 0 \<or> \<not> s_initialized s then Some s else map_option (\<lambda>m. s\<lparr>s_mem := m\<rparr>) (s_free_block p (s_mem s)))"

definition scalloc :: "ram \<Rightarrow> nat \<Rightarrow> nat \<Rightarrow> salloc \<Rightarrow> (nat \<times> salloc) option" where
  "scalloc rm nmemb sz s =
     do { (p, s1) \<leftarrow> smalloc rm ((nmemb * sz) mod 2 ^ 32) s;
          Some (p, if p \<noteq> 0 then s1\<lparr>s_mem := (\<lambda>a. if p \<le> a \<and> a < p + (nmemb * sz) mod 2 ^ 32 then 0 else s_mem s1 a)\<rparr> else s1) }"

definition srealloc :: "ram \<Rightarrow> nat \<Rightarrow> nat \<Rightarrow> salloc \<Rightarrow> (nat \<times> salloc) option" where
  "srealloc rm p sz s =
     (let s = (if s_initialized s then s else s_init rm s)
      in if p = 0 then smalloc rm sz s
         else if sz = 0 then map_option (\<lambda>s'. (0, s')) (sfree p s)
         else if s_get_actual_block_size (s_mem s) p = sz then Some (p, s)
         else if sz < s_get_actual_block_size (s_mem s) p then map_option (\<lambda>m. (p, s\<lparr>s_mem := m\<rparr>)) (s_shrink_block p sz (s_mem s))
         else do { (q, s1) \<leftarrow> smalloc rm sz s;
                   if q = 0 then Some (0, s1)
                   else let n = s_get_actual_block_size (s_mem s1) p;
                            s2 = s1\<lparr>s_mem := (\<lambda>a. if q \<le> a \<and> a < q + n then s_mem s1 (p + (a - q)) else s_mem s1 a)\<rparr>
                        in map_option (\<lambda>s3. (q, s3)) (sfree p s2) })"

section \<open>Words in memory\<close>

lemma load_store: "load32 (store32 a v m) a = v"
proof (rule bit_word_eqI)
  fix n assume "n < LENGTH(32)"
  then consider "n < 8" | "8 \<le> n" "n < 16" | "16 \<le> n" "n < 24" | "24 \<le> n" "n < 32" by force
  then show "bit (load32 (store32 a v m) a) n \<longleftrightarrow> bit v n"
    by cases (auto simp: load32_def store32_def bit_simps)
qed

lemma load_store_other: "a + 4 \<le> b \<or> b + 4 \<le> a \<Longrightarrow> load32 (store32 a v m) b = load32 m b"
  by (auto simp: load32_def store32_def)

lemma store_byte: "x < a \<or> a + 4 \<le> x \<Longrightarrow> store32 a v m x = m x"
  by (auto simp: store32_def)

lemma next_bits:
  fixes w :: u32
  shows "drop_bit 3 w AND 0x7FFFFFFF = drop_bit 3 w" "drop_bit 3 w AND 0x80000000 = 0"
proof -
  have m: "(0x7FFFFFFF :: u32) = mask 31" by (simp add: mask_eq_exp_minus_1)
  show l: "drop_bit 3 w AND 0x7FFFFFFF = drop_bit 3 w"
    unfolding m by (rule bit_word_eqI) (auto simp: bit_simps dest: bit_imp_le_length)
  have "drop_bit 3 w AND 0x80000000 = (drop_bit 3 w AND 0x7FFFFFFF) AND 0x80000000" by (simp only: l)
  also have "\<dots> = 0" by (simp add: and.assoc)
  finally show "drop_bit 3 w AND 0x80000000 = 0" .
qed

lemma top_bits:
  fixes x :: u32
  shows "x AND 0x80000000 AND 0x7FFFFFFF = 0" "x AND 0x7FFFFFFF AND 0x80000000 = 0"
    "(x OR 0x80000000) AND 0x7FFFFFFF = x AND 0x7FFFFFFF" "(x OR 0x80000000) AND 0x80000000 \<noteq> 0"
  by (simp_all add: and.assoc bit.conj_disj_distrib2)

lemma block_address:
  assumes "8 dvd q" "q < 2 ^ 32"
  shows "unat (push_bit 3 (drop_bit 3 (of_nat q :: u32))) = q"
proof -
  have "q mod 2 ^ 32 = q" using assms(2) by simp
  then have "unat (push_bit 3 (drop_bit 3 (of_nat q :: u32))) = (q div 8 * 8) mod 2 ^ 32"
    by (simp only: unsigned_push_bit_eq unsigned_drop_bit_eq unat_of_nat) (simp add: take_bit_eq_mod push_bit_eq_mult drop_bit_eq_div)
  then show ?thesis using assms by simp
qed

section \<open>Headers of blocks\<close>

text \<open>What a header says, and that the setters change only their own field of their own block.\<close>

definition header :: "mem \<Rightarrow> nat \<Rightarrow> nat \<times> nat \<times> bool" where
  "header m p = (s_get_prev_block m p, s_get_next_block m p, s_is_block_free m p)"

definition addr_ok :: "nat \<Rightarrow> bool" where
  "addr_ok q \<longleftrightarrow> 8 dvd q \<and> q < 2 ^ 32"

lemmas header_defs = header_def s_get_prev_block_def s_get_next_block_def s_is_block_free_def

lemma header_set_next [simp]:
  "addr_ok q \<Longrightarrow> header (s_set_next_block p q m) p = (fst (header m p), q, snd (snd (header m p)))"
  by (simp add: header_defs s_set_next_block_def addr_ok_def load_store load_store_other bit.conj_disj_distrib2 next_bits top_bits
      block_address and.assoc)

lemma header_set_prev [simp]:
  "addr_ok q \<Longrightarrow> header (s_set_prev_block p q m) p = (q, snd (header m p))"
  by (simp add: header_defs s_set_prev_block_def addr_ok_def load_store load_store_other bit.conj_disj_distrib2 next_bits top_bits
      block_address and.assoc)

lemma header_mark_taken [simp]:
  "header (s_mark_block_taken p m) p = (fst (header m p), fst (snd (header m p)), False)"
  by (simp add: header_defs s_mark_block_taken_def load_store load_store_other top_bits)

lemma header_mark_free [simp]:
  "header (s_mark_block_free p m) p = (fst (header m p), fst (snd (header m p)), True)"
  by (simp add: header_defs s_mark_block_free_def load_store load_store_other top_bits and.assoc)

lemma header_create [simp]:
  "addr_ok nx \<Longrightarrow> addr_ok pv \<Longrightarrow> header (s_create_new_block p nx pv m) p = (pv, nx, True)"
  by (simp add: header_defs s_create_new_block_def addr_ok_def load_store load_store_other next_bits block_address)

lemma headerD:
  assumes "header m p = (a, b, c)"
  shows "s_get_prev_block m p = a" "s_get_next_block m p = b" "s_is_block_free m p = c"
  using assms by (auto simp: header_def)

lemma header_cong: "(\<And>x. p \<le> x \<Longrightarrow> x < p + 8 \<Longrightarrow> m' x = m x) \<Longrightarrow> header m' p = header m p"
  by (simp add: header_defs load32_def)

lemma header_bytes [simp]:
  assumes "x < p \<or> p + 8 \<le> x"
  shows "s_set_next_block p q m x = m x" "s_set_prev_block p q m x = m x" "s_mark_block_taken p m x = m x"
    "s_mark_block_free p m x = m x" "s_create_new_block p nx pv m x = m x"
  using assms
  by (auto simp: s_set_next_block_def s_set_prev_block_def s_mark_block_taken_def s_mark_block_free_def s_create_new_block_def store_byte)

lemma header_other [simp]:
  assumes "b + 8 \<le> p \<or> p + 8 \<le> b"
  shows "header (s_set_next_block p q m) b = header m b" "header (s_set_prev_block p q m) b = header m b"
    "header (s_mark_block_taken p m) b = header m b" "header (s_mark_block_free p m) b = header m b"
    "header (s_create_new_block p nx pv m) b = header m b"
  using assms by (auto intro!: header_cong)

section \<open>The list of blocks\<close>

type_synonym blocks = "(nat \<times> bool) list"

fun first :: "blocks \<Rightarrow> nat \<Rightarrow> nat" where
  "first [] r = r"
| "first ((p, t) # bs) r = p"

fun final :: "nat \<Rightarrow> blocks \<Rightarrow> nat" where
  "final q [] = q"
| "final q ((p, t) # bs) = final p bs"

fun seg :: "mem \<Rightarrow> nat \<Rightarrow> blocks \<Rightarrow> nat \<Rightarrow> bool" where
  "seg m q [] r \<longleftrightarrow> True"
| "seg m q ((p, t) # bs) r \<longleftrightarrow> header m p = (q, first bs r, \<not> t) \<and> seg m p bs r"

definition layout :: "blocks \<Rightarrow> bool" where
  "layout bs \<longleftrightarrow> sorted_wrt (\<lambda>b c. fst b + 8 \<le> fst c) bs \<and> (\<forall>b \<in> set bs. addr_ok (fst b) \<and> fst b \<noteq> 0)"

lemma first_append [simp]: "first (xs @ ys) r = first xs (first ys r)"
  by (cases "(xs, r)" rule: first.cases) auto

lemma final_append [simp]: "final q (xs @ ys) = final (final q xs) ys"
  by (induction q xs rule: final.induct) auto

lemma seg_append [simp]: "seg m q (xs @ ys) r \<longleftrightarrow> seg m q xs (first ys r) \<and> seg m (final q xs) ys r"
  by (induction q xs rule: final.induct) auto

lemma seg_cong:
  assumes "seg m q bs r" and "\<And>p t x. (p, t) \<in> set bs \<Longrightarrow> p \<le> x \<Longrightarrow> x < p + 8 \<Longrightarrow> m' x = m x"
  shows "seg m' q bs r"
  using assms
proof (induction m q bs r rule: seg.induct)
  case (2 m q p t bs r)
  have "header m' p = header m p" by (rule header_cong) (simp add: 2(3)[of p t])
  then show ?case using 2 by (auto intro: 2)
qed simp

lemma layout_append: "layout (xs @ ys) \<longleftrightarrow> layout xs \<and> layout ys \<and> (\<forall>b \<in> set xs. \<forall>c \<in> set ys. fst b + 8 \<le> fst c)"
  by (auto simp: layout_def sorted_wrt_append)

lemma layout_Cons: "layout ((p, t) # bs) \<longleftrightarrow> layout bs \<and> addr_ok p \<and> p \<noteq> 0 \<and> (\<forall>c \<in> set bs. p + 8 \<le> fst c)"
  by (auto simp: layout_def)

lemma layout_Nil [simp]: "layout []"
  by (simp add: layout_def)

lemmas layout_simps = layout_append layout_Cons

text \<open>A change to the header of one block leaves the segments before and after it as they are.\<close>

lemma seg_header:
  assumes "seg m q (xs @ (p, t) # ys) r" and "layout (xs @ (p, t) # ys)"
    and "header m' p = (final q xs, first ys r, \<not> t')" and "\<And>x. x < p \<or> p + 8 \<le> x \<Longrightarrow> m' x = m x"
  shows "seg m' q (xs @ (p, t') # ys) r"
proof -
  have "seg m' q xs p" by (rule seg_cong[of m]) (use assms in \<open>auto simp: layout_simps intro!: assms(4)\<close>)
  moreover have "seg m' p ys r" by (rule seg_cong[of m]) (use assms in \<open>auto simp: layout_simps intro!: assms(4)\<close>)
  ultimately show ?thesis using assms(3) by simp
qed

section \<open>Freeing\<close>

abbreviation all_free :: "blocks \<Rightarrow> bool" where
  "all_free bs \<equiv> \<forall>b \<in> set bs. \<not> snd b"

lemma walk_on_seg:
  "seg m q (gs @ (r, True) # ys) z \<Longrightarrow> all_free gs \<Longrightarrow> s_walk_on m (first gs r) = Some r"
proof (induction gs arbitrary: q)
  case Nil then show ?case by (subst s_walk_on.simps) (auto dest: headerD)
next
  case (Cons b gs)
  then obtain p where b: "b = (p, False)" by (cases b) auto
  have "s_walk_on m (first gs r) = Some r" by (rule Cons.IH[of p]) (use Cons.prems b in auto)
  then show ?case using Cons.prems b by (subst s_walk_on.simps) (auto dest: headerD)
qed

lemma walk_back_seg:
  "seg m z ((q, True) # fs) r \<Longrightarrow> all_free fs \<Longrightarrow> s_walk_back m (final q fs) = Some q"
proof (induction fs arbitrary: r rule: rev_induct)
  case Nil then show ?case by (subst s_walk_back.simps) (auto dest: headerD)
next
  case (snoc b fs)
  then obtain p where b: "b = (p, False)" by (cases b) auto
  have "s_walk_back m (final q fs) = Some q" by (rule snoc.IH[of p]) (use snoc.prems b in auto)
  then show ?case using snoc.prems b by (subst s_walk_back.simps) (auto dest: headerD)
qed

text \<open>Linking a free block to the end of the run it starts takes the blocks between out of the list.\<close>

lemma seg_link:
  assumes s: "seg m a (xs @ (h, t) # ms @ (r, u) # ys) z" and l: "layout (xs @ (h, t) # ms @ (r, u) # ys)"
  shows "seg (s_set_prev_block r h (s_set_next_block h r m)) a (xs @ (h, t) # (r, u) # ys) z"
proof -
  let ?m = "s_set_prev_block r h (s_set_next_block h r m)"
  have hr: "addr_ok h" "addr_ok r" "h + 8 \<le> r" using l by (auto simp: layout_simps)
  have h: "header ?m h = (final a xs, r, \<not> t)" and r: "header ?m r = (h, first ys z, \<not> u)" using s hr by simp_all
  have "seg ?m a xs h" by (rule seg_cong[of m]) (use s l hr in \<open>auto simp: layout_simps\<close>)
  moreover have "seg ?m r ys z" by (rule seg_cong[of m]) (use s l hr in \<open>auto simp: layout_simps\<close>)
  ultimately show ?thesis using h r by simp
qed

lemma layout_mark: "layout (xs @ (p, t) # ys) \<Longrightarrow> layout (xs @ (p, t') # ys)"
  by (auto simp: layout_simps)

lemma layout_link: "layout (xs @ (h, t) # ms @ (r, u) # ys) \<Longrightarrow> layout (xs @ (h, t') # (r, u') # ys)"
  by (auto simp: layout_simps)

lemma final_neq: "layout ((p, t) # gs) \<Longrightarrow> final p gs = p \<Longrightarrow> gs = []"
  by (cases gs rule: rev_cases) (force simp: layout_simps)+

lemma first_neq: "layout (fs @ (p, t) # gs) \<Longrightarrow> first fs p = p \<Longrightarrow> fs = []"
  by (cases fs) (force simp: layout_simps)+

theorem compact_free_spec:
  assumes s: "seg m a (xs @ (q, True) # fs @ (p, t) # gs @ (r, True) # ys) z"
    and l: "layout (xs @ (q, True) # fs @ (p, t) # gs @ (r, True) # ys)" and f: "all_free fs" "all_free gs"
  shows "\<exists>m'. s_compact_free p m = Some m' \<and> seg m' a (xs @ (q, True) # (first fs p, False) # (r, True) # ys) z
    \<and> (\<forall>x. x \<notin> {p..<p + 8} \<union> {first fs p..<first fs p + 8} \<union> {r..<r + 8} \<longrightarrow> m' x = m x)"
proof -
  define m1 where "m1 = s_mark_block_free p m"
  let ?h = "first fs p"
  have s1: "seg m1 a ((xs @ (q, True) # fs) @ (p, False) # gs @ (r, True) # ys) z"
    by (rule seg_header[of m _ _ _ t]) (use s l in \<open>auto simp: m1_def\<close>)
  have wb: "s_walk_back m1 p = Some q"
    using walk_back_seg[of m1 "final a xs" q "fs @ [(p, False)]" "first gs r"] s1 f by simp
  have wo: "s_walk_on m1 p = Some r"
    using walk_on_seg[of m1 "final q fs" "(p, False) # gs" r ys z] s1 f by simp
  have n: "s_get_next_block m1 q = ?h" "s_get_prev_block m1 r = final p gs" using s1 by (auto dest: headerD)
  obtain ms where ms: "fs @ (p, False) # gs = (?h, False) # ms"
    using f by (cases fs) auto
  have s2: "seg m1 a ((xs @ [(q, True)]) @ (?h, False) # ms @ (r, True) # ys) z"
    using s1 ms by (metis append.assoc append_Cons append_Nil)
  have l2: "layout ((xs @ [(q, True)]) @ (?h, False) # ms @ (r, True) # ys)"
    using layout_mark[of "xs @ (q, True) # fs" p t "gs @ (r, True) # ys" False] l ms by (metis append.assoc append_Cons append_Nil)
  show ?thesis
  proof (cases "?h \<noteq> p \<or> final p gs \<noteq> p")
    case True
    then have "s_compact_free p m = Some (s_set_prev_block r ?h (s_set_next_block ?h r m1))"
      using wb wo n by (auto simp: s_compact_free_def m1_def[symmetric] Let_def)
    then show ?thesis using seg_link[OF s2 l2] by (auto simp: m1_def)
  next
    case False
    then have e: "fs = []" "gs = []" using first_neq[of fs p t "gs @ (r, True) # ys"] final_neq[of p t gs] l by (auto simp: layout_simps)
    then have "s_compact_free p m = Some m1" using False wb wo n by (auto simp: s_compact_free_def m1_def[symmetric] Let_def)
    then show ?thesis using s1 e by (auto simp: m1_def)
  qed
qed

section \<open>A memory space\<close>

text \<open>
  The invariant of a memory space: the headers form the list \<open>bs\<close>, the addresses are in order, the first and the last block
  are the guards, and no two neighbours are free. \<open>data\<close> are the addresses the program owns and
  \<open>frees\<close> the free blocks with their sizes. \<open>coalesce\<close> and \<open>take_block\<close> are freeing and allocating on the list.
\<close>

abbreviation tidy :: "blocks \<Rightarrow> bool" where
  "tidy \<equiv> successively (\<lambda>b c. snd b \<or> snd c)"

definition space :: "mem \<Rightarrow> blocks \<Rightarrow> bool" where
  "space m bs \<longleftrightarrow> seg m 0 bs 0 \<and> layout bs \<and> tidy bs \<and> 2 \<le> length bs \<and> snd (hd bs) \<and> snd (last bs)"

fun data :: "blocks \<Rightarrow> nat set" where
  "data [] = {}"
| "data ((p, t) # bs) = (if t then {p + 8..<first bs 0} else {}) \<union> data bs"

definition outside :: "blocks \<Rightarrow> nat set" where
  "outside bs = {x. x < fst (hd bs) \<or> fst (last bs) + 8 \<le> x}"

fun frees :: "blocks \<Rightarrow> (nat \<times> nat) list" where
  "frees ((p, t) # (r, u) # bs) = (if t then [] else [(p, r - p)]) @ frees ((r, u) # bs)"
| "frees bs = []"

fun coalesce :: "blocks \<Rightarrow> blocks" where
  "coalesce ((p, False) # (q, False) # bs) = coalesce ((p, False) # bs)"
| "coalesce (b # bs) = b # coalesce bs"
| "coalesce [] = []"

definition release :: "nat \<Rightarrow> blocks \<Rightarrow> blocks" where
  "release p bs = coalesce (map (\<lambda>(q, t). (q, t \<and> q \<noteq> p)) bs)"

fun take_block :: "nat \<Rightarrow> nat \<Rightarrow> blocks \<Rightarrow> blocks" where
  "take_block p n [] = []"
| "take_block p n ((q, t) # bs) =
     (if q = p then (q, True) # (if p + n + 16 \<le> first bs 0 then (p + n, False) # bs else bs) else (q, t) # take_block p n bs)"

lemma coalesce_tidy: "tidy bs \<Longrightarrow> coalesce bs = bs"
  by (induction bs rule: coalesce.induct) (auto simp: successively_Cons)

lemma coalesce_append_taken: "coalesce (xs @ (q, True) # ys) = coalesce xs @ (q, True) # coalesce ys"
  by (induction xs rule: coalesce.induct) auto

lemma coalesce_all_free: "all_free bs \<Longrightarrow> bs \<noteq> [] \<Longrightarrow> coalesce bs = [(first bs 0, False)]"
  by (induction bs rule: coalesce.induct) auto

lemma data_append: "ys \<noteq> [] \<Longrightarrow> data (xs @ ys) = data (xs @ [(first ys 0, False)]) \<union> data ys"
  by (induction xs) (auto simp: neq_Nil_conv)

lemma first_le: "layout bs \<Longrightarrow> c \<in> set bs \<Longrightarrow> first bs 0 \<le> fst c"
  by (cases bs) (force simp: layout_simps)+

lemma data_after_first: "layout bs \<Longrightarrow> x \<in> data bs \<Longrightarrow> first bs 0 + 8 \<le> x"
proof (induction bs)
  case (Cons b bs)
  then show ?case by (cases b; cases bs) (force simp: layout_simps split: if_splits)+
qed simp

lemma le_last: "layout bs \<Longrightarrow> c \<in> set bs \<Longrightarrow> fst c \<le> fst (last bs)"
  by (cases bs rule: rev_cases) (force simp: layout_simps)+

lemma outside_bounds: "layout bs \<Longrightarrow> (p, t) \<in> set bs \<Longrightarrow> (r, u) \<in> set bs \<Longrightarrow> x \<in> outside bs \<Longrightarrow> x < p \<or> r + 8 \<le> x"
  using first_le[of bs "(p, t)"] le_last[of bs "(r, u)"] by (cases bs) (auto simp: outside_def)

lemma data_no_header:
  "layout bs \<Longrightarrow> (p, t) \<in> set bs \<Longrightarrow> x \<in> data bs \<Longrightarrow> x < p \<or> p + 8 \<le> x"
proof (induction bs)
  case (Cons b bs)
  obtain q u where b: "b = (q, u)" by (cases b)
  have l: "layout bs" and q: "\<And>c. c \<in> set bs \<Longrightarrow> q + 8 \<le> fst c" using Cons.prems(1) b by (auto simp: layout_simps)
  have "q + 8 \<le> x" if "x \<in> data bs" using that data_after_first[OF l that] q[of "hd bs"] by (cases bs) auto
  moreover have "x < p \<or> p + 8 \<le> x" if "(p, t) \<in> set bs" "u" "x < first bs 0" using that first_le[OF l that(1)] by simp
  ultimately show ?case using Cons b l by (auto split: if_splits)
qed simp

lemma split_taken:
  assumes "snd (hd bs)" "snd (last bs)" "(p, t) \<in> set bs" "p \<noteq> fst (hd bs)" "p \<noteq> fst (last bs)"
  obtains xs q fs gs r ys where "bs = xs @ (q, True) # fs @ (p, t) # gs @ (r, True) # ys" "all_free fs" "all_free gs"
proof -
  obtain us vs where bs: "bs = us @ (p, t) # vs" using assms(3) by (auto dest: split_list)
  have "\<exists>b \<in> set us. snd b" using assms bs by (cases us) auto
  then obtain xs b fs where us: "us = xs @ b # fs" "snd b" "all_free fs" using split_list_last_prop[of us snd] by blast
  have "\<exists>b \<in> set vs. snd b" using assms bs by (cases vs rule: rev_cases) auto
  then obtain gs c ys where vs: "vs = gs @ c # ys" "snd c" "all_free gs" using split_list_first_prop[of vs snd] by blast
  show thesis by (rule that[of xs "fst b" fs gs "fst c" ys]) (use bs us vs in \<open>auto simp: prod_eq_iff\<close>)
qed

lemma coalesce_run:
  assumes "tidy xs" "tidy ys" "all_free ms" "ms \<noteq> []"
  shows "coalesce (xs @ (q, True) # ms @ (r, True) # ys) = xs @ (q, True) # (first ms 0, False) # (r, True) # ys"
  using assms by (simp add: coalesce_append_taken coalesce_append_taken[of ms] coalesce_all_free coalesce_tidy)

lemma release_split:
  assumes "layout (xs @ (q, True) # fs @ (p, t) # gs @ (r, True) # ys)" "tidy (xs @ (q, True) # fs @ (p, t) # gs @ (r, True) # ys)"
    and "all_free fs" "all_free gs"
  shows "release p (xs @ (q, True) # fs @ (p, t) # gs @ (r, True) # ys) = xs @ (q, True) # (first fs p, False) # (r, True) # ys"
proof -
  have id: "map (\<lambda>(q, t). (q, t \<and> q \<noteq> p)) zs = zs" if "\<And>b. b \<in> set zs \<Longrightarrow> fst b \<noteq> p" for zs :: blocks
    by (rule map_idI) (use that in force)
  have qr: "q + 8 \<le> p" "p + 8 \<le> r" and b: "\<forall>b \<in> set xs \<union> set fs. fst b + 8 \<le> p" and a: "\<forall>b \<in> set gs \<union> set ys. p + 8 \<le> fst b"
    using assms(1) by (simp_all add: layout_simps ball_Un)
  have ne: "fst c \<noteq> p" if "c \<in> set xs \<union> set fs \<union> set gs \<union> set ys" for c
    using that bspec[OF b, of c] bspec[OF a, of c] by auto
  have "tidy xs" "tidy ys" using assms(2) by (auto simp: successively_append_iff successively_Cons)
  then show ?thesis using qr ne coalesce_run[of xs ys "fs @ (p, False) # gs" q r] assms(3,4) by (simp add: release_def id ball_Un)
qed

lemma tidy_link: "tidy (xs @ (q, True) # ms @ (r, True) # ys) \<Longrightarrow> tidy (xs @ (q, True) # (h, False) # (r, True) # ys)"
  by (cases ys) (auto simp: successively_append_iff successively_Cons)

lemma first_default: "bs \<noteq> [] \<Longrightarrow> first bs a = first bs b"
  by (cases bs) auto

lemma data_link: "x \<in> data (xs @ (q, True) # (first ms 0, False) # (r, True) # ys) \<Longrightarrow> ms \<noteq> [] \<Longrightarrow> x \<in> data (xs @ (q, True) # ms @ (r, True) # ys)"
  using data_append[of "(q, True) # (first ms 0, False) # (r, True) # ys" xs] data_append[of "(q, True) # ms @ (r, True) # ys" xs]
    data_append[of "(r, True) # ys" ms] first_default[of ms r 0]
  by auto

theorem free_block_spec:
  assumes sp: "space m bs" and p: "(p, True) \<in> set bs" "p \<noteq> fst (hd bs)" "p \<noteq> fst (last bs)"
  shows "\<exists>m'. s_free_block (p + 8) m = Some m' \<and> space m' (release p bs) \<and> (\<forall>x \<in> data (release p bs) \<union> outside bs. m' x = m x)"
proof -
  have s: "seg m 0 bs 0" and l: "layout bs" and t: "tidy bs" and g: "snd (hd bs)" "snd (last bs)" using sp by (auto simp: space_def)
  obtain xs q fs gs r ys where bs: "bs = xs @ (q, True) # fs @ (p, True) # gs @ (r, True) # ys" and f: "all_free fs" "all_free gs"
    using split_taken[OF g p(1,2,3)] .
  let ?bs = "xs @ (q, True) # (first fs p, False) # (r, True) # ys"
  have rel: "release p bs = ?bs" using release_split[of xs q fs p True gs r ys] l t f by (simp add: bs)
  obtain m' where m': "s_compact_free p m = Some m'" "seg m' 0 ?bs 0"
    "\<And>x. x \<notin> {p..<p + 8} \<union> {first fs p..<first fs p + 8} \<union> {r..<r + 8} \<Longrightarrow> m' x = m x"
    using compact_free_spec[OF s[unfolded bs] l[unfolded bs] f] by auto
  have "\<exists>u. (first fs p, u) \<in> set bs" by (cases fs) (auto simp: bs)
  then obtain u where h: "(first fs p, u) \<in> set bs" ..
  have "layout ?bs" using l h by (cases fs) (force simp: bs layout_simps)+
  moreover have "tidy ?bs" using t tidy_link[of xs q "fs @ (p, True) # gs" r ys] by (simp add: bs)
  ultimately have "space m' ?bs" using m'(2) g by (cases xs) (auto simp: space_def bs)
  moreover have "m' x = m x" if "x \<in> data ?bs \<union> outside bs" for x
  proof -
    have "x \<in> data bs \<union> outside bs" using that data_link[of x xs q "fs @ (p, True) # gs" r ys] by (auto simp: bs)
    then have "x < a \<or> a + 8 \<le> x" if "(a, t) \<in> set bs" for a t using that data_no_header[OF l that] outside_bounds[OF l that that] by blast
    from this[OF p(1)] this[OF h] this[of r True] show ?thesis by (intro m'(3)) (auto simp: bs)
  qed
  ultimately show ?thesis using m'(1) rel by (simp add: s_free_block_def)
qed

section \<open>Allocating\<close>

fun pick :: "nat \<Rightarrow> (nat \<times> nat) list \<Rightarrow> nat \<Rightarrow> nat \<Rightarrow> nat \<times> nat" where
  "pick n [] pb mn = (pb, mn)"
| "pick n ((p, k) # fs) pb mn = (if n \<le> k \<and> k < mn then pick n fs p k else pick n fs pb mn)"

lemma block_size_seg:
  assumes "header m p = (q, r, t)" "r < 2 ^ 32" "p < r"
  shows "s_get_block_size m p = r - p"
proof -
  have "r + 2 ^ 32 - p = (r - p) + 2 ^ 32" using assms(3) by simp
  then have "(r + 2 ^ 32 - p) mod 2 ^ 32 = (r - p) mod 2 ^ 32" by (simp only: mod_add_self2)
  also have "\<dots> = r - p" using assms(2) by simp
  finally show ?thesis using assms(3) headerD(2)[OF assms(1)] by (simp add: s_get_block_size_def Let_def)
qed

lemma best_fit_seg:
  "seg m q bs 0 \<Longrightarrow> layout bs \<Longrightarrow> (bs \<noteq> [] \<Longrightarrow> snd (last bs)) \<Longrightarrow> s_best_fit m n (first bs 0) pb mn = Some (pick n (frees bs) pb mn)"
proof (induction bs arbitrary: q pb mn)
  case Nil then show ?case by (subst s_best_fit.simps) simp
next
  case (Cons b bs)
  obtain p t where b: "b = (p, t)" by (cases b)
  have h: "header m p = (q, first bs 0, \<not> t)" and s: "seg m p bs 0" and l: "layout bs" and p: "p \<noteq> 0" using Cons.prems b by (auto simp: layout_simps)
  note IH = Cons.IH[OF s l]
  show ?case
  proof (cases bs)
    case Nil
    then have "t" using Cons.prems(3) b by simp
    then show ?thesis using IH h p Nil b by (subst s_best_fit.simps) (simp add: Let_def headerD[OF h])
  next
    case (Cons c cs)
    obtain r u where c: "c = (r, u)" by (cases c)
    have "s_get_block_size m p = r - p"
      by (rule block_size_seg[of _ _ q r "\<not> t"]) (use h Cons.prems(2) b c Cons in \<open>auto simp: layout_simps addr_ok_def\<close>)
    then show ?thesis using IH Cons.prems(3) h p Cons b c by (subst s_best_fit.simps) (auto simp: Let_def headerD[OF h])
  qed
qed

lemma pick_spec:
  assumes "pick n fs pb mn = (p, k)"
  shows "(p, k) = (pb, mn) \<and> (\<forall>(p', k') \<in> set fs. n \<le> k' \<longrightarrow> mn \<le> k')
    \<or> (p, k) \<in> set fs \<and> n \<le> k \<and> k < mn \<and> (\<forall>(p', k') \<in> set fs. n \<le> k' \<longrightarrow> k \<le> k')"
  using assms
proof (induction n fs pb mn rule: pick.induct)
  case (2 n q j fs pb mn)
  show ?case
  proof (cases "n \<le> j \<and> j < mn")
    case True
    then have "pick n fs q j = (p, k)" using 2(3) by simp
    from 2(1)[OF True this] True show ?thesis by auto
  next
    case False
    then have "pick n fs pb mn = (p, k)" using 2(3) by (simp only: pick.simps if_False)
    from 2(2)[OF False this] False show ?thesis by auto
  qed
qed simp

lemma frees_split:
  "(p, k) \<in> set (frees bs) \<Longrightarrow> \<exists>xs r u ys. bs = xs @ (p, False) # (r, u) # ys \<and> k = r - p"
proof (induction bs rule: frees.induct)
  case (1 q t r u bs)
  show ?case
  proof (cases "(p, k) \<in> set (frees ((r, u) # bs))")
    case True
    then obtain xs r' u' ys where "(r, u) # bs = xs @ (p, False) # (r', u') # ys \<and> k = r' - p" using 1 by blast
    then show ?thesis by (intro exI[of _ "(q, t) # xs"]) auto
  next
    case False
    then show ?thesis using 1(2) by (intro exI[of _ "[]"]) (auto split: if_splits)
  qed
qed auto

text \<open>A new block between a block and its successor, whatever the memory at its address held.\<close>

lemma seg_insert:
  assumes s: "seg m a (xs @ (p, t) # (r, u) # ys) z" and l: "layout (xs @ (p, t) # (r, u) # ys)"
    and v: "addr_ok v" "p + 8 \<le> v" "v + 8 \<le> r"
  shows "\<exists>w. seg (s_set_next_block p v (s_set_prev_block r v (s_set_next_block v r (s_set_prev_block v p m)))) a (xs @ (p, t) # (v, w) # (r, u) # ys) z"
proof -
  let ?m = "s_set_next_block p v (s_set_prev_block r v (s_set_next_block v r (s_set_prev_block v p m)))"
  have ok: "addr_ok p" "addr_ok r" using l by (auto simp: layout_simps)
  have p: "header ?m p = (final a xs, v, \<not> t)" and r: "header ?m r = (v, first ys z, \<not> u)" using s v by simp_all
  have h: "header ?m v = (p, r, snd (snd (header m v)))" using ok v by simp
  have "seg ?m a xs p" by (rule seg_cong[of m]) (use s l v in \<open>auto simp: layout_simps\<close>)
  moreover have "seg ?m r ys z" by (rule seg_cong[of m]) (use s l v in \<open>auto simp: layout_simps\<close>)
  ultimately show ?thesis using p r h by (intro exI[of _ "\<not> snd (snd (header m v))"]) simp
qed

lemma layout_insert:
  assumes "layout (xs @ (p, t) # gs @ (r, u) # ys)" "addr_ok v" "p + 8 \<le> v" "v + 8 \<le> first gs r"
  shows "layout (xs @ (p, t) # (v, w) # gs @ (r, u) # ys)"
proof -
  have rest: "layout (gs @ (r, u) # ys)" using assms(1) by (simp add: layout_simps)
  have "v + 8 \<le> fst c" if "c \<in> set (gs @ (r, u) # ys)" for c
    using first_le[OF rest that] assms(4) by simp
  moreover have "fst b + 8 \<le> p" if "b \<in> set xs" for b using assms(1) that by (simp add: layout_simps)
  then have "fst b + 8 \<le> v" if "b \<in> set xs" for b using that assms(3) by fastforce
  ultimately show ?thesis using assms by (auto simp: layout_simps)
qed

lemma split_spec:
  assumes s: "seg m a (xs @ (p, True) # gs @ (r, True) # ys) z" and l: "layout (xs @ (p, True) # gs @ (r, True) # ys)"
    and f: "all_free gs" and n: "addr_ok (p + n)" "8 \<le> n" "p + n + 8 \<le> first gs r"
  shows "\<exists>m'. s_split p n m = Some m' \<and> seg m' a (xs @ (p, True) # (p + n, False) # (r, True) # ys) z
    \<and> (\<forall>x. x \<notin> {p..<p + 8} \<union> {p + n..<p + n + 8} \<union> {first gs r..<first gs r + 8} \<union> {r..<r + 8} \<longrightarrow> m' x = m x)"
proof -
  obtain u rest where rest: "gs @ (r, True) # ys = (first gs r, u) # rest" by (cases gs) auto
  let ?m = "s_set_next_block p (p + n) (s_set_prev_block (first gs r) (p + n) (s_set_next_block (p + n) (first gs r) (s_set_prev_block (p + n) p m)))"
  obtain w where s1: "seg ?m a (xs @ (p, True) # [] @ (p + n, w) # gs @ (r, True) # ys) z"
    using seg_insert[OF s[unfolded rest] l[unfolded rest] n(1) _ n(3)] n(2) unfolding rest by auto
  have l1: "layout (xs @ (p, True) # [] @ (p + n, w) # gs @ (r, True) # ys)"
    using layout_insert[OF l n(1) _ n(3)] n(2) by simp
  have e: "all_free []" by simp
  obtain m' where c: "s_compact_free (p + n) ?m = Some m'" and s': "seg m' a (xs @ (p, True) # (p + n, False) # (r, True) # ys) z"
    and fr: "\<forall>x. x \<notin> {p + n..<p + n + 8} \<union> {p + n..<p + n + 8} \<union> {r..<r + 8} \<longrightarrow> m' x = ?m x"
    using compact_free_spec[OF s1 l1 e f] by (simp only: first.simps) blast
  have "s_get_next_block m p = first gs r" using s by (auto dest: headerD)
  then have "s_split p n m = Some m'" using c by (simp add: s_split_def Let_def)
  moreover have "m' x = m x" if "x \<notin> {p..<p + 8} \<union> {p + n..<p + n + 8} \<union> {first gs r..<first gs r + 8} \<union> {r..<r + 8}" for x
  proof -
    have "x < p \<or> p + 8 \<le> x" "x < p + n \<or> p + n + 8 \<le> x" "x < first gs r \<or> first gs r + 8 \<le> x" using that by auto
    then show ?thesis using fr[rule_format, of x] that by simp
  qed
  ultimately show ?thesis using s' by blast
qed

lemma act_size_spec:
  assumes "sz + 7 < 2 ^ 32"
  shows "8 dvd s_act_size sz" "sz \<le> s_act_size sz" "s_act_size sz < sz + 8"
proof -
  have "sz AND 7 = sz mod 8"
    using take_bit_eq_mask[of 3 sz] by (simp add: take_bit_eq_mod mask_eq_exp_minus_1)
  then have e: "s_act_size sz = (if sz mod 8 \<noteq> 0 then ((sz div 8 + 1) * 8) mod 2 ^ 32 else sz)"
    by (simp add: s_act_size_def push_bit_eq_mult drop_bit_eq_div)
  have q: "sz div 8 * 8 + sz mod 8 = sz" "sz mod 8 < 8" by simp_all
  have b: "sz \<le> (d + 1) * 8 \<and> (d + 1) * 8 < sz + 8" if "d * 8 + c = sz" "c < 8" "c \<noteq> 0" for c d :: nat using that by simp
  then have b: "sz \<le> (sz div 8 + 1) * 8 \<and> (sz div 8 + 1) * 8 < sz + 8" if "sz mod 8 \<noteq> 0" using that q by blast
  then have "((sz div 8 + 1) * 8) mod 2 ^ 32 = (sz div 8 + 1) * 8" if "sz mod 8 \<noteq> 0"
    using that assms by (intro mod_less) fastforce
  then have a: "s_act_size sz = (if sz mod 8 \<noteq> 0 then (sz div 8 + 1) * 8 else sz)" using e by simp
  then show "8 dvd s_act_size sz" by auto
  show "sz \<le> s_act_size sz" "s_act_size sz < sz + 8" using a b by (cases "sz mod 8 = 0"; fastforce)+
qed

lemma data_before_last: "layout (xs @ [(p, t)]) \<Longrightarrow> x \<in> data (xs @ [(p, False)]) \<Longrightarrow> x < p"
proof (induction xs)
  case (Cons b xs)
  then show ?case by (cases b; cases xs) (auto simp: layout_simps split: if_splits)
qed simp

lemma data_no_free:
  assumes "layout (xs @ (p, False) # (r, u) # ys)" "x \<in> data (xs @ (p, False) # (r, u) # ys)"
  shows "x < p \<or> r \<le> x"
proof -
  have "layout (xs @ [(p, False)])" "layout ((r, u) # ys)" using assms(1) by (auto simp: layout_simps)
  then show ?thesis
    using assms(2) data_append[of "(p, False) # (r, u) # ys" xs] data_before_last[of xs p False x] data_after_first[of "(r, u) # ys" x]
    by (auto split: if_splits)
qed

lemma take_block_append:
  "p \<notin> fst ` set xs \<Longrightarrow> take_block p n (xs @ (p, t) # ys) = xs @ (p, True) # (if p + n + 16 \<le> first ys 0 then (p + n, False) # ys else ys)"
  by (induction xs) (auto simp: image_iff)

lemma layout_notin: "layout (xs @ (p, t) # ys) \<Longrightarrow> p \<notin> fst ` set xs"
  by (force simp: layout_simps)

lemma frees_bounds: "layout bs \<Longrightarrow> (p, k) \<in> set (frees bs) \<Longrightarrow> p \<noteq> 0 \<and> k < 2 ^ 32 - 1"
  using frees_split[of p k bs] by (auto simp: layout_simps addr_ok_def)

lemma space_guard: "space m bs \<Longrightarrow> \<exists>g tl. bs = (g, True) # tl \<and> tl \<noteq> []"
  by (cases bs; cases "tl bs") (auto simp: space_def)

lemma best_fit_space:
  assumes "space m bs"
  shows "s_best_fit m n (s_get_next_block m (fst (hd bs))) 0 (2 ^ 32 - 1) = Some (pick n (frees bs) 0 (2 ^ 32 - 1))"
proof -
  obtain g tl where bs: "bs = (g, True) # tl" "tl \<noteq> []" using space_guard[OF assms] by blast
  have s: "seg m g tl 0" "layout tl" "snd (last tl)" "s_get_next_block m g = first tl 0"
    using assms bs by (auto simp: space_def layout_simps dest: headerD)
  have "frees bs = frees tl" using bs by (cases tl) (auto split: prod.splits)
  then show ?thesis using best_fit_seg[OF s(1,2)] s bs by simp
qed

lemma take_space:
  assumes sp: "space m (xs @ (p, False) # (r, u) # ys)" and n: "8 dvd n" "8 \<le> n"
  shows "\<exists>m'. (if r - p > n \<and> r - p - n \<ge> DYN_MIN_SPLIT_SIZE
      then s_split p n (s_mark_block_taken p m) else Some (s_mark_block_taken p m)) = Some m'
    \<and> space m' (take_block p n (xs @ (p, False) # (r, u) # ys)) \<and> (\<forall>x. (x < p \<or> r + 8 \<le> x) \<longrightarrow> m' x = m x)"
proof -
  let ?m = "s_mark_block_taken p m"
  have s: "seg m 0 (xs @ (p, False) # (r, u) # ys) 0" and l: "layout (xs @ (p, False) # (r, u) # ys)"
    and t: "tidy (xs @ (p, False) # (r, u) # ys)" and g: "snd (hd (xs @ (p, False) # (r, u) # ys))" "snd (last (xs @ (p, False) # (r, u) # ys))"
    using sp by (auto simp: space_def)
  have u: "u" using t by (auto simp: successively_append_iff successively_Cons)
  have x: "xs \<noteq> []" and pr: "p + 8 \<le> r" using g l by (auto simp: layout_simps)
  have s1: "seg ?m 0 (xs @ (p, True) # [] @ (r, True) # ys) 0"
    using seg_header[OF s l, of ?m True] s u by simp
  have l1: "layout (xs @ (p, True) # [] @ (r, True) # ys)" using l by (auto simp: layout_simps)
  have tk: "take_block p n (xs @ (p, False) # (r, u) # ys) = xs @ (p, True) # (if p + n + 16 \<le> r then (p + n, False) # (r, True) # ys else (r, True) # ys)"
    using take_block_append[OF layout_notin[OF l]] u by simp
  show ?thesis
  proof (cases "p + n + 16 \<le> r")
    case True
    have "addr_ok (p + n)" using l n True by (auto simp: layout_simps addr_ok_def)
    have l2: "layout (xs @ (p, True) # (p + n, False) # (r, True) # ys)"
      using layout_insert[of xs p True "[]" r True ys "p + n" False] l1 n True \<open>addr_ok (p + n)\<close> by simp
    obtain m' where m': "s_split p n ?m = Some m'" "seg m' 0 (xs @ (p, True) # (p + n, False) # (r, True) # ys) 0"
      "\<forall>x. x \<notin> {p..<p + 8} \<union> {p + n..<p + n + 8} \<union> {first [] r..<first [] r + 8} \<union> {r..<r + 8} \<longrightarrow> m' x = ?m x"
      using split_spec[OF s1 l1 _ \<open>addr_ok (p + n)\<close> n(2)] True by auto
    have "space m' (xs @ (p, True) # (p + n, False) # (r, True) # ys)"
      using m'(2) l2 t g x u by (auto simp: space_def successively_append_iff successively_Cons)
    moreover have "m' x = m x" if "x < p \<or> r + 8 \<le> x" for x using m'(3) that True by auto
    ultimately show ?thesis using True m'(1) tk by auto
  next
    case False
    have "space ?m (xs @ (p, True) # (r, True) # ys)"
      using s1 l1 t g x u by (auto simp: space_def successively_append_iff successively_Cons)
    then show ?thesis using False tk pr by auto
  qed
qed

theorem get_free_block_spec:
  assumes sp: "space m bs" and sz: "0 < sz" "sz + 15 < 2 ^ 32"
  shows "(\<exists>p k m'. s_get_free_block sz (fst (hd bs)) m = Some (p + 8, m') \<and> (p, k) \<in> set (frees bs) \<and> s_act_size (sz + 8) \<le> k
      \<and> (\<forall>(p', k') \<in> set (frees bs). s_act_size (sz + 8) \<le> k' \<longrightarrow> k \<le> k')
      \<and> space m' (take_block p (s_act_size (sz + 8)) bs) \<and> (\<forall>x \<in> data bs \<union> outside bs. m' x = m x))
    \<or> s_get_free_block sz (fst (hd bs)) m = Some (0, m) \<and> (\<forall>(p, k) \<in> set (frees bs). k < s_act_size (sz + 8))"
proof -
  define n where "n = s_act_size (sz + 8)"
  have n: "8 dvd n" "8 \<le> n" and sm: "(sz + 8) mod 2 ^ 32 = sz + 8" using act_size_spec[of "sz + 8"] sz by (auto simp: n_def)
  have l: "layout bs" using sp by (simp add: space_def)
  obtain p k where pk: "pick n (frees bs) 0 (2 ^ 32 - 1) = (p, k)" by fastforce
  have bf: "s_best_fit m n (s_get_next_block m (fst (hd bs))) 0 (2 ^ 32 - 1) = Some (p, k)" using best_fit_space[OF sp] pk by simp
  from pick_spec[OF pk] show ?thesis
  proof
    assume "(p, k) = (0, 2 ^ 32 - 1) \<and> (\<forall>(p', k') \<in> set (frees bs). n \<le> k' \<longrightarrow> 2 ^ 32 - 1 \<le> k')"
    then have "p = 0" and "\<forall>(p', k') \<in> set (frees bs). k' < n" using frees_bounds[OF l] by (fastforce simp: not_le)+
    then show ?thesis using bf sm sz(1) by (simp add: s_get_free_block_def n_def[symmetric])
  next
    assume a: "(p, k) \<in> set (frees bs) \<and> n \<le> k \<and> k < 2 ^ 32 - 1 \<and> (\<forall>(p', k') \<in> set (frees bs). n \<le> k' \<longrightarrow> k \<le> k')"
    obtain xs r u ys where bs: "bs = xs @ (p, False) # (r, u) # ys" and k: "k = r - p" using a frees_split by blast
    obtain m' where m': "(if k > n \<and> k - n \<ge> DYN_MIN_SPLIT_SIZE
        then s_split p n (s_mark_block_taken p m) else Some (s_mark_block_taken p m)) = Some m'"
      "space m' (take_block p n bs)" "\<forall>x. (x < p \<or> r + 8 \<le> x) \<longrightarrow> m' x = m x"
      using take_space[OF sp[unfolded bs] n] unfolding bs k by blast
    have "m' x = m x" if "x \<in> data bs \<union> outside bs" for x
    proof -
      have "x < p \<or> r + 8 \<le> x"
        using that data_no_free[of xs p r u ys x] data_no_header[OF l, of r u x] outside_bounds[OF l, of p False r u x] l
        by (auto simp: bs)
      then show ?thesis using m'(3) by blast
    qed
    moreover have "s_get_free_block sz (fst (hd bs)) m = Some (p + 8, m')"
      using bf sm sz(1) m'(1) frees_bounds[OF l, of p k] a by (auto simp: s_get_free_block_def n_def[symmetric] Let_def split: if_splits)
    ultimately show ?thesis using a m'(2) unfolding n_def[symmetric] by blast
  qed
qed

section \<open>The ends of a space\<close>

lemma data_inside:
  assumes "layout bs" "x \<in> data bs"
  shows "fst (hd bs) + 8 \<le> x" "x < fst (last bs)"
proof -
  obtain xs e t where bs: "bs = xs @ [(e, t)]" using assms(2) by (cases bs rule: rev_cases) auto
  then show "x < fst (last bs)" using assms data_append[of "[(e, t)]" xs] data_before_last[of xs e t x] by (auto split: if_splits)
  show "fst (hd bs) + 8 \<le> x" using data_after_first[OF assms] by (cases xs) (auto simp: bs)
qed

lemma space_cong:
  assumes "space m bs" "\<And>x. x \<notin> outside bs \<Longrightarrow> m' x = m x"
  shows "space m' bs"
proof -
  have l: "layout bs" using assms(1) by (simp add: space_def)
  have "seg m' 0 bs 0"
  proof (rule seg_cong[of m])
    fix p t x assume "(p, t) \<in> set bs" "p \<le> x" "x < p + 8"
    then show "m' x = m x" using outside_bounds[OF l, of p t p t x] by (intro assms(2)) auto
  qed (use assms(1) in \<open>simp add: space_def\<close>)
  then show ?thesis using assms(1) by (simp add: space_def)
qed

lemma take_block_ends:
  assumes "layout bs" "(p, k) \<in> set (frees bs)"
  shows "fst (hd (take_block p n bs)) = fst (hd bs)" "fst (last (take_block p n bs)) = fst (last bs)"
proof -
  obtain xs r u ys where bs: "bs = xs @ (p, False) # (r, u) # ys" using frees_split[OF assms(2)] by blast
  have "take_block p n bs = xs @ (p, True) # (if p + n + 16 \<le> r then (p + n, False) # (r, u) # ys else (r, u) # ys)"
    using take_block_append[OF layout_notin[of xs p False "(r, u) # ys"]] assms(1) by (simp add: bs)
  then show "fst (hd (take_block p n bs)) = fst (hd bs)" "fst (last (take_block p n bs)) = fst (last bs)"
    by (cases xs; simp add: bs)+
qed

lemma release_ends:
  assumes "space m bs" "(p, True) \<in> set bs" "p \<noteq> fst (hd bs)" "p \<noteq> fst (last bs)"
  shows "fst (hd (release p bs)) = fst (hd bs)" "fst (last (release p bs)) = fst (last bs)"
proof -
  have l: "layout bs" and t: "tidy bs" and g: "snd (hd bs)" "snd (last bs)" using assms(1) by (auto simp: space_def)
  obtain xs q fs gs r ys where bs: "bs = xs @ (q, True) # fs @ (p, True) # gs @ (r, True) # ys" and f: "all_free fs" "all_free gs"
    using split_taken[OF g assms(2,3,4)] .
  have "release p bs = xs @ (q, True) # (first fs p, False) # (r, True) # ys" using release_split[of xs q fs p True gs r ys] l t f by (simp add: bs)
  then show "fst (hd (release p bs)) = fst (hd bs)" "fst (last (release p bs)) = fst (last bs)" by (cases xs; simp add: bs)+
qed

text \<open>The regions of the program's blocks: \<open>owned\<close> is the data of the block a pointer stands for.\<close>

fun area :: "blocks \<Rightarrow> nat \<Rightarrow> nat set" where
  "area [] a = {}"
| "area ((p, t) # bs) a = (if t \<and> a = p + 8 then {a..<first bs 0} else area bs a)"

definition owned :: "blocks \<Rightarrow> nat \<Rightarrow> nat set" where
  "owned bs a = (if a = fst (hd bs) + 8 then {} else area bs a)"

definition has_block :: "blocks \<Rightarrow> nat \<Rightarrow> bool" where
  "has_block bs a \<longleftrightarrow> (\<exists>p. (p, True) \<in> set bs \<and> a = p + 8)"

lemma has_block_simps [simp]:
  "\<not> has_block [] a" "has_block ((p, t) # bs) a \<longleftrightarrow> t \<and> a = p + 8 \<or> has_block bs a"
  "has_block bs (p + 8) \<longleftrightarrow> (p, True) \<in> set bs"
  by (auto simp: has_block_def)

lemma area_append:
  "ys \<noteq> [] \<Longrightarrow> area (xs @ ys) a = (if has_block xs a then area (xs @ [(first ys 0, False)]) a else area ys a)"
proof (induction xs)
  case (Cons b xs)
  then show ?case by (cases b) (auto simp: first_default[of ys])
qed simp

lemma area_skip: "ys \<noteq> [] \<Longrightarrow> \<not> has_block xs a \<Longrightarrow> area (xs @ ys) a = area ys a"
  by (induction xs) auto

lemma area_empty: "\<not> has_block bs a \<Longrightarrow> area bs a = {}"
  by (induction bs a rule: area.induct) auto

lemma area_data: "x \<in> area bs a \<Longrightarrow> x \<in> data bs"
  by (induction bs a rule: area.induct) (auto split: if_splits)

lemma area_start: "x \<in> area bs a \<Longrightarrow> a \<le> x"
  by (induction bs a rule: area.induct) (auto split: if_splits)

lemma area_disjoint:
  assumes "layout bs" "a < b"
  shows "area bs a \<inter> area bs b = {}"
proof (rule ccontr)
  assume "area bs a \<inter> area bs b \<noteq> {}"
  then obtain x where x: "x \<in> area bs a" "x \<in> area bs b" by blast
  then obtain p q where p: "(p, True) \<in> set bs" "a = p + 8" and q: "(q, True) \<in> set bs" "b = q + 8"
    using area_empty[of bs a] area_empty[of bs b] by (auto simp: has_block_def)
  obtain xs ys where bs: "bs = xs @ (q, True) # ys" using q(1) by (auto dest: split_list)
  have "p < q" using assms(2) p q by simp
  then have "(p, True) \<in> set xs" using p(1) assms(1) by (force simp: bs layout_simps)
  then have "x \<in> area (xs @ [(q, False)]) a" using x(1) area_append[of "(q, True) # ys" xs a] p(2) by (auto simp: bs)
  then have "x < q" using data_before_last[of xs q True x] assms(1) area_data by (auto simp: bs layout_simps)
  then show False using area_start[OF x(2)] q(2) by simp
qed

lemma area_take:
  assumes "layout (xs @ (p, False) # (r, u) # ys)"
  shows "area (take_block p n (xs @ (p, False) # (r, u) # ys)) a =
    (if a = p + 8 then {p + 8..<if p + n + 16 \<le> r then p + n else r} else area (xs @ (p, False) # (r, u) # ys) a)"
    "area (xs @ (p, False) # (r, u) # ys) (p + 8) = {}"
proof -
  have no: "(p, True) \<notin> set xs" "(p, True) \<notin> set ((r, u) # ys)" using assms by (auto simp: layout_simps)
  have tk: "take_block p n (xs @ (p, False) # (r, u) # ys) = xs @ (p, True) # (if p + n + 16 \<le> r then [(p + n, False)] else []) @ (r, u) # ys"
    using take_block_append[OF layout_notin[OF assms]] by simp
  show "area (take_block p n (xs @ (p, False) # (r, u) # ys)) a =
    (if a = p + 8 then {p + 8..<if p + n + 16 \<le> r then p + n else r} else area (xs @ (p, False) # (r, u) # ys) a)"
  proof (cases "has_block xs a")
    case True
    then have "a \<noteq> p + 8" using no(1) by auto
    with True show ?thesis
      using area_append[of "(p, True) # (if p + n + 16 \<le> r then [(p + n, False)] else []) @ (r, u) # ys" xs a]
        area_append[of "(p, False) # (r, u) # ys" xs a] unfolding tk by simp
  next
    case False
    show ?thesis unfolding tk by (subst (1 2) area_skip) (use False in auto)
  qed
  show "area (xs @ (p, False) # (r, u) # ys) (p + 8) = {}" by (rule area_empty) (use no in auto)
qed

lemma area_release:
  assumes sp: "space m bs" and p: "(p, True) \<in> set bs" "p \<noteq> fst (hd bs)" "p \<noteq> fst (last bs)"
  shows "area (release p bs) a = (if a = p + 8 then {} else area bs a)"
proof -
  have l: "layout bs" and t: "tidy bs" and g: "snd (hd bs)" "snd (last bs)" using sp by (auto simp: space_def)
  obtain xs q fs gs r ys where bs: "bs = xs @ (q, True) # fs @ (p, True) # gs @ (r, True) # ys" and f: "all_free fs" "all_free gs"
    using split_taken[OF g p] .
  define X where "X = xs @ [(q, True)]"
  let ?old = "fs @ (p, True) # gs @ (r, True) # ys" and ?new = "(first fs p, False) # (r, True) # ys"
  have rel: "release p bs = X @ ?new" using release_split[of xs q fs p True gs r ys] l t f by (simp add: bs X_def)
  have free: "\<not> has_block zs b" if "all_free zs" for zs :: blocks and b using that by (force simp: has_block_def)
  have no: "(p, True) \<notin> set X" "(p, True) \<notin> set ((r, True) # ys)" using l by (auto simp: bs layout_simps X_def)
  have o: "area ?old a = (if a = p + 8 then {p + 8..<first gs r} else area ((r, True) # ys) a)"
    using area_skip[of "(p, True) # gs @ (r, True) # ys" fs a] area_skip[of "(r, True) # ys" gs a] free[OF f(1), of a] free[OF f(2), of a] by simp
  have "bs = X @ ?old" by (simp add: bs X_def)
  then have "area bs a = (if has_block X a then area (X @ [(first fs p, False)]) a else area ?old a)"
    using area_append[of ?old X a] by simp
  moreover have "area (release p bs) a = (if has_block X a then area (X @ [(first fs p, False)]) a else area ((r, True) # ys) a)"
    using area_append[of ?new X a] rel by simp
  moreover have "area ((r, True) # ys) (p + 8) = {}" by (rule area_empty) (use no in auto)
  ultimately show ?thesis using o no by auto
qed

end
