(* ===== verification/Smalloc.thy ===== *)
theory Smalloc
  imports Salloc
begin

text \<open>
  The interface of the simple allocator on all the memory spaces of a board: initialisation builds the invariant of
  \<open>Salloc\<close> in each space, and \<^verbatim>\<open>smalloc\<close>, \<^verbatim>\<open>sfree\<close> and \<^verbatim>\<open>srealloc\<close> keep it. The locale \<open>allocator\<close> is what a program
  relies on: the regions of live pointers are disjoint, calls return, and they change no byte of a live region. Its client lemma is about a
  program that allocates and frees in any order.
\<close>

section \<open>Boards\<close>

definition spaces_ok :: "ram \<Rightarrow> bool" where
  "spaces_ok rm \<longleftrightarrow> length (mem_end rm) = length (mem_start rm)
     \<and> (\<forall>i < length (mem_start rm). first_free rm i \<noteq> 0 \<and> unat (first_free rm i) + 24 \<le> unat (last_free rm i))
     \<and> (\<forall>i < length (mem_start rm). \<forall>j < length (mem_start rm). i \<noteq> j \<longrightarrow>
          unat (last_free rm i) \<le> unat (first_free rm j) \<or> unat (last_free rm j) \<le> unat (first_free rm i))"

definition in_space :: "ram \<Rightarrow> nat \<Rightarrow> blocks \<Rightarrow> bool" where
  "in_space rm i bs \<longleftrightarrow> fst (hd bs) = unat (first_free rm i) \<and> fst (last bs) + 8 = unat (last_free rm i)"

definition heaps :: "ram \<Rightarrow> mem \<Rightarrow> blocks list \<Rightarrow> bool" where
  "heaps rm m bss \<longleftrightarrow> length bss = length (mem_start rm) \<and> (\<forall>i < length bss. space m (bss ! i) \<and> in_space rm i (bss ! i))"

definition fits :: "nat \<Rightarrow> blocks \<Rightarrow> bool" where
  "fits n bs \<longleftrightarrow> (\<exists>(p, k) \<in> set (frees bs). n \<le> k)"

lemma spaces_outside:
  assumes "spaces_ok rm" "in_space rm i bs" "in_space rm j cs" "i < length (mem_start rm)" "j < length (mem_start rm)" "i \<noteq> j"
  shows "x \<notin> outside bs \<Longrightarrow> x \<in> outside cs"
proof -
  have "unat (last_free rm i) \<le> unat (first_free rm j) \<or> unat (last_free rm j) \<le> unat (first_free rm i)"
    using assms by (auto simp: spaces_ok_def)
  then show "x \<notin> outside bs \<Longrightarrow> x \<in> outside cs" using assms(2,3) by (auto simp: outside_def in_space_def)
qed

lemma heaps_update:
  assumes ok: "spaces_ok rm" and h: "heaps rm m bss" and j: "j < length bss" and s: "space m' bs" "in_space rm j bs"
    and o: "\<And>x. x \<in> outside (bss ! j) \<Longrightarrow> m' x = m x"
  shows "heaps rm m' (bss[j := bs])"
proof -
  have "space m' (bss ! i)" if "i < length bss" "i \<noteq> j" for i
  proof (rule space_cong[of m])
    show "m' x = m x" if "x \<notin> outside (bss ! i)" for x
      using spaces_outside[OF ok, of i "bss ! i" j "bss ! j" x] that \<open>i < length bss\<close> \<open>i \<noteq> j\<close> h j by (intro o) (auto simp: heaps_def)
  qed (use h that in \<open>simp add: heaps_def\<close>)
  then show ?thesis using h j s by (auto simp: heaps_def nth_list_update)
qed

section \<open>Initialisation\<close>

definition fresh_blocks :: "ram \<Rightarrow> nat \<Rightarrow> blocks" where
  "fresh_blocks rm i = [(unat (first_free rm i), True), (unat (first_free rm i) + 8, False), (unat (last_free rm i) - 8, True)]"

lemma aligned_word:
  fixes p :: u32
  shows "p AND 7 = 0 \<Longrightarrow> 8 dvd unat p" "8 dvd unat (push_bit 3 p)"
proof -
  have "unat (p AND 7) = unat p mod 8"
    using take_bit_eq_mask[of 3 "unat p"] by (simp add: unsigned_and_eq take_bit_eq_mod mask_eq_exp_minus_1)
  then show "p AND 7 = 0 \<Longrightarrow> 8 dvd unat p" by (simp add: dvd_eq_mod_eq_0)
  show "8 dvd unat (push_bit 3 p)"
    by (simp only: unsigned_push_bit_eq) (simp add: take_bit_eq_mod push_bit_eq_mult dvd_mod)
qed

lemma free_ram_aligned: "8 dvd unat (first_free rm i)" "8 dvd unat (last_free rm i)"
  by (auto simp: platform_get_first_free_ram_def platform_get_last_free_ram_def Let_def aligned_word)

lemma init_space_spec:
  assumes g: "addr_ok g" "g \<noteq> 0" and ms: "8 dvd ms" "24 \<le> ms" "g + ms < 2 ^ 32"
  shows "space (s_init_space g ms m) [(g, True), (g + 8, False), (g + ms - 8, True)]"
    and "x < g \<or> g + ms \<le> x \<Longrightarrow> s_init_space g ms m x = m x"
proof -
  have ok: "addr_ok (g + 8)" "addr_ok (g + ms - 8)" "addr_ok 0"
    using assms by (auto simp: addr_ok_def intro: dvd_diff_nat)
  have le: "g + 8 + 8 \<le> g + ms - 8" using ms by simp
  have "header (s_init_space g ms m) g = (0, g + 8, False)"
    "header (s_init_space g ms m) (g + 8) = (g, g + ms - 8, True)" 
    "header (s_init_space g ms m) (g + ms - 8) = (g + 8, 0, False)" 
    using ok g le by (simp_all add: s_init_space_def Let_def)
  then show "space (s_init_space g ms m) [(g, True), (g + 8, False), (g + ms - 8, True)]"
    using ok g le by (simp add: space_def layout_simps)
  show "x < g \<or> g + ms \<le> x \<Longrightarrow> s_init_space g ms m x = m x"
    using ms by (auto simp: s_init_space_def Let_def)
qed

lemma fresh_space:
  fixes m :: mem
  assumes "spaces_ok rm" "i < length (mem_start rm)"
  defines "m' \<equiv> s_init_space (unat (first_free rm i)) (unat (last_free rm i - first_free rm i)) m"
  shows "space m' (fresh_blocks rm i)" "in_space rm i (fresh_blocks rm i)" "x \<in> outside (fresh_blocks rm i) \<Longrightarrow> m' x = m x"
proof -
  let ?g = "unat (first_free rm i)" and ?e = "unat (last_free rm i)"
  have le: "?g + 24 \<le> ?e" and nz: "?g \<noteq> 0" using assms(1,2) by (auto simp: spaces_ok_def unat_eq_0)
  have ms: "unat (last_free rm i - first_free rm i) = ?e - ?g" using le by (simp add: unat_sub word_le_nat_alt)
  have ok: "addr_ok ?g" "8 dvd ?e - ?g" "?g + (?e - ?g) < 2 ^ 32"
    using free_ram_aligned[of rm i] le unsigned_less[of "last_free rm i"] unsigned_less[of "first_free rm i"] by (auto simp: addr_ok_def dvd_diff_nat)
  note sp = init_space_spec[OF ok(1) nz ok(2) _ ok(3)]
  show "space m' (fresh_blocks rm i)" "in_space rm i (fresh_blocks rm i)"
    using sp(1) le by (auto simp: m'_def ms fresh_blocks_def in_space_def)
  show "x \<in> outside (fresh_blocks rm i) \<Longrightarrow> m' x = m x"
    using sp(2) le by (auto simp: m'_def ms fresh_blocks_def outside_def)
qed

lemma init_from_spec:
  "spaces_ok rm \<Longrightarrow> i \<le> length (mem_start rm) \<Longrightarrow> (\<And>k. k < i \<Longrightarrow> space m (fresh_blocks rm k)) \<Longrightarrow> j < length (mem_start rm) \<Longrightarrow>
    space (s_init_from rm i m) (fresh_blocks rm j)"
proof (induction rm i m rule: s_init_from.induct)
  case (1 rm i m)
  show ?case
  proof (cases "i < length (mem_start rm)")
    case True
    then have nz: "first_free rm i \<noteq> 0" using 1(2) by (simp add: spaces_ok_def)
    let ?m = "s_init_space (unat (first_free rm i)) (unat (last_free rm i - first_free rm i)) m"
    note fi = fresh_space[OF 1(2) True]
    have "space ?m (fresh_blocks rm k)" if k: "k < i + 1" for k
    proof (cases "k = i")
      case False
      then have "k < i" "k < length (mem_start rm)" using k True by auto
      then show ?thesis
        using spaces_outside[OF 1(2) fresh_space(2)[OF 1(2), of k] fi(2) _ True False]
        by (intro space_cong[OF 1(4)] fi(3)) auto
    qed (simp add: fi(1))
    then show ?thesis using 1(1)[OF nz 1(2) _ _ 1(5)] True nz by (simp add: s_init_from.simps[of rm i])
  next
    case False
    then show ?thesis using 1(4,5) by (simp add: s_init_from.simps[of rm i] platform_get_first_free_ram_def)
  qed
qed

theorem init_spec:
  assumes "spaces_ok rm"
  shows "heaps rm (s_mem (s_init rm s)) (map (fresh_blocks rm) [0..<length (mem_start rm)])"
  using assms init_from_spec[OF assms, of 0] fresh_space(2)[OF assms] by (simp add: heaps_def s_init_def)

section \<open>Allocating and freeing in all spaces\<close>

text \<open>What a call has done: the block is the best fit of the first space with a fit, and no byte of a live block changed.\<close>

definition all_data :: "blocks list \<Rightarrow> nat set" where
  "all_data bss = (\<Union>i < length bss. data (bss ! i))"

definition best_in :: "nat \<Rightarrow> blocks list \<Rightarrow> nat \<Rightarrow> nat \<Rightarrow> bool" where
  "best_in n bss j p \<longleftrightarrow> (\<exists>k. (p, k) \<in> set (frees (bss ! j)) \<and> n \<le> k \<and> (\<forall>(p', k') \<in> set (frees (bss ! j)). n \<le> k' \<longrightarrow> k \<le> k'))"

lemma data_not_outside: "layout bs \<Longrightarrow> x \<in> data bs \<Longrightarrow> x \<notin> outside bs"
  using data_inside[of bs x] by (simp add: outside_def)

lemma heaps_data:
  assumes "spaces_ok rm" "heaps rm m bss" "j < length bss" "x \<in> all_data bss"
  shows "x \<in> data (bss ! j) \<union> outside (bss ! j)"
proof -
  obtain i where i: "i < length bss" "x \<in> data (bss ! i)" using assms(4) by (auto simp: all_data_def)
  then have "x \<notin> outside (bss ! i)" using assms(2) data_not_outside by (auto simp: heaps_def space_def)
  then show ?thesis using spaces_outside[OF assms(1), of i "bss ! i" j "bss ! j" x] assms(2,3) i by (cases "i = j") (auto simp: heaps_def)
qed

lemma in_space_take:
  "in_space rm j bs \<Longrightarrow> layout bs \<Longrightarrow> (p, k) \<in> set (frees bs) \<Longrightarrow> in_space rm j (take_block p n bs)"
  by (simp add: in_space_def take_block_ends)

theorem smalloc_from_spec:
  assumes "spaces_ok rm" "heaps rm m bss" "0 < sz" "sz + 15 < 2 ^ 32"
  defines "n \<equiv> s_act_size (sz + 8)"
  shows "i \<le> length bss \<Longrightarrow>
    (\<exists>j p m'. i \<le> j \<and> j < length bss \<and> smalloc_from rm sz i m = Some (p + 8, m') \<and> (\<forall>h. i \<le> h \<and> h < j \<longrightarrow> \<not> fits n (bss ! h))
      \<and> best_in n bss j p \<and> heaps rm m' (bss[j := take_block p n (bss ! j)]) \<and> (\<forall>x \<in> all_data bss. m' x = m x))
    \<or> smalloc_from rm sz i m = Some (0, m) \<and> (\<forall>h. i \<le> h \<and> h < length bss \<longrightarrow> \<not> fits n (bss ! h))"
proof (induction "length bss - i" arbitrary: i)
  case 0
  then have "first_free rm i = 0" using assms(2) by (simp add: heaps_def platform_get_first_free_ram_def)
  then show ?case using 0 by (auto simp: smalloc_from.simps[of rm sz i])
next
  case (Suc d)
  then have i: "i < length bss" by simp
  then have nz: "first_free rm i \<noteq> 0" and sp: "space m (bss ! i)" and ins: "in_space rm i (bss ! i)"
    using assms(1,2) by (auto simp: heaps_def spaces_ok_def)
  have hd: "fst (hd (bss ! i)) = unat (first_free rm i)" using ins by (simp add: in_space_def)
  have l: "layout (bss ! i)" using sp by (simp add: space_def)
  from get_free_block_spec[OF sp assms(3,4), folded n_def, unfolded hd] show ?case
  proof
    assume "\<exists>p k m'. s_get_free_block sz (unat (first_free rm i)) m = Some (p + 8, m') \<and> (p, k) \<in> set (frees (bss ! i)) \<and> n \<le> k
      \<and> (\<forall>(p', k') \<in> set (frees (bss ! i)). n \<le> k' \<longrightarrow> k \<le> k') \<and> space m' (take_block p n (bss ! i))
      \<and> (\<forall>x \<in> data (bss ! i) \<union> outside (bss ! i). m' x = m x)"
    then obtain p k m' where g: "s_get_free_block sz (unat (first_free rm i)) m = Some (p + 8, m')" and pk: "(p, k) \<in> set (frees (bss ! i))"
      and b: "n \<le> k" "\<forall>(p', k') \<in> set (frees (bss ! i)). n \<le> k' \<longrightarrow> k \<le> k'" and s': "space m' (take_block p n (bss ! i))"
      and fr: "\<forall>x \<in> data (bss ! i) \<union> outside (bss ! i). m' x = m x" by blast
    have "heaps rm m' (bss[i := take_block p n (bss ! i)])"
      by (rule heaps_update[OF assms(1,2) i s' in_space_take[OF ins l pk]]) (use fr in blast)
    moreover have "smalloc_from rm sz i m = Some (p + 8, m')" using g nz by (simp add: smalloc_from.simps[of rm sz i])
    moreover have "\<forall>x \<in> all_data bss. m' x = m x" using fr heaps_data[OF assms(1,2) i] by blast
    moreover have "best_in n bss i p" using pk b by (auto simp: best_in_def)
    ultimately show ?thesis using i by (intro disjI1 exI[of _ i] exI[of _ p] exI[of _ m']) auto
  next
    assume "s_get_free_block sz (unat (first_free rm i)) m = Some (0, m) \<and> (\<forall>(p, k) \<in> set (frees (bss ! i)). k < n)"
    then have g: "smalloc_from rm sz i m = smalloc_from rm sz (i + 1) m" and nf: "\<not> fits n (bss ! i)"
      using nz by (auto simp: smalloc_from.simps[of rm sz i] fits_def not_le)
    have r: "(\<forall>h. i \<le> h \<and> h < j \<longrightarrow> \<not> fits n (bss ! h)) \<longleftrightarrow> (\<forall>h. i + 1 \<le> h \<and> h < j \<longrightarrow> \<not> fits n (bss ! h))" for j
      using nf by (metis Suc_eq_plus1 le_eq_less_or_eq less_eq_Suc_le)
    have "d = length bss - (i + 1)" "i + 1 \<le> length bss" using Suc(2) i by auto
    moreover have "i + 1 \<le> j \<Longrightarrow> i \<le> j" for j by simp
    ultimately show ?thesis using Suc(1)[of "i + 1"] unfolding g r by blast
  qed
qed

definition regions :: "blocks list \<Rightarrow> nat \<Rightarrow> nat set" where
  "regions bss a = (\<Union>i < length bss. owned (bss ! i) a)"

lemma owned_data: "x \<in> owned bs a \<Longrightarrow> x \<in> data bs"
  by (auto simp: owned_def area_data split: if_splits)

lemma owned_block:
  assumes "layout bs" "x \<in> owned bs a"
  obtains p where "a = p + 8" "(p, True) \<in> set bs" "p \<noteq> fst (hd bs)" "p \<noteq> fst (last bs)"
proof -
  have x: "x \<in> area bs a" "a \<noteq> fst (hd bs) + 8" using assms(2) by (auto simp: owned_def split: if_splits)
  then have "has_block bs a" using area_empty by blast
  then obtain p where p: "(p, True) \<in> set bs" "a = p + 8" by (auto simp: has_block_def)
  have "a \<le> x" "x < fst (last bs)" using area_start[OF x(1)] data_inside(2)[OF assms(1) area_data[OF x(1)]] .
  then show thesis using that[OF p(2,1)] x(2) p(2) by simp
qed

lemma owned_disjoint: "layout bs \<Longrightarrow> a \<noteq> b \<Longrightarrow> owned bs a \<inter> owned bs b = {}"
  using area_disjoint[of bs a b] area_disjoint[of bs b a] by (cases "a < b") (auto simp: owned_def)

lemma space_layout: "heaps rm m bss \<Longrightarrow> bs \<in> set bss \<Longrightarrow> layout bs"
  by (auto simp: heaps_def space_def in_set_conv_nth)

lemma heaps_apart:
  assumes "spaces_ok rm" "heaps rm m bss" "i < length bss" "j < length bss" "x \<in> data (bss ! i)" "x \<in> data (bss ! j)"
  shows "i = j"
proof (rule ccontr)
  assume n: "i \<noteq> j"
  have "x \<notin> outside (bss ! i)" "x \<notin> outside (bss ! j)"
    using data_not_outside space_layout[OF assms(2)] assms(3-6) by auto
  then show False using spaces_outside[OF assms(1), of i "bss ! i" j "bss ! j" x] n assms(2,3,4) by (auto simp: heaps_def)
qed

lemma regions_disjoint:
  assumes "spaces_ok rm" "heaps rm m bss" "a \<noteq> b"
  shows "regions bss a \<inter> regions bss b = {}"
proof (rule ccontr)
  assume "regions bss a \<inter> regions bss b \<noteq> {}"
  then obtain x i j where x: "i < length bss" "x \<in> owned (bss ! i) a" "j < length bss" "x \<in> owned (bss ! j) b"
    by (auto simp: regions_def)
  then have "i = j" using heaps_apart[OF assms(1,2)] owned_data by blast
  then show False using x owned_disjoint[OF space_layout[OF assms(2)] assms(3), of "bss ! i"] by auto
qed

lemma regions_keep:
  assumes "owned bs a = owned (bss ! j) a"
  shows "regions (bss[j := bs]) a = regions bss a"
proof -
  have "owned (bss[j := bs] ! i) a = owned (bss ! i) a" if "i < length bss" for i using that assms by (cases "i = j") auto
  then show ?thesis by (simp add: regions_def)
qed

lemma regions_data: "x \<in> regions bss a \<Longrightarrow> x \<in> all_data bss"
  using owned_data by (auto simp: regions_def all_data_def)

lemma owned_elsewhere:
  assumes "spaces_ok rm" "heaps rm m bss" "i < length bss" "j < length bss" "i \<noteq> j" "(p, t) \<in> set (bss ! j)"
  shows "owned (bss ! i) (p + 8) = {}"
proof (rule ccontr)
  assume "owned (bss ! i) (p + 8) \<noteq> {}"
  then obtain x where "x \<in> owned (bss ! i) (p + 8)" by blast
  then obtain q where q: "(q, True) \<in> set (bss ! i)" "p + 8 = q + 8" using owned_block[OF space_layout[OF assms(2)]] assms(3) by (metis nth_mem)
  have "p \<notin> outside (bss ! i)" "p \<notin> outside (bss ! j)"
    using q assms(6) outside_bounds[OF space_layout[OF assms(2) nth_mem[OF assms(3)]] q(1) q(1), of p]
      outside_bounds[OF space_layout[OF assms(2) nth_mem[OF assms(4)]] assms(6) assms(6), of p] by auto
  then show False using spaces_outside[OF assms(1), of i "bss ! i" j "bss ! j" p] assms(2-5) by (auto simp: heaps_def)
qed

lemma regions_at:
  assumes "spaces_ok rm" "heaps rm m bss" "j < length bss" "(p, t) \<in> set (bss ! j)"
  shows "regions (bss[j := bs]) (p + 8) = owned bs (p + 8)"
proof -
  have "owned (bss[j := bs] ! i) (p + 8) = (if i = j then owned bs (p + 8) else {})" if "i < length bss" for i
    using owned_elsewhere[OF assms(1,2) that assms(3) _ assms(4)] that by (cases "i = j") auto
  then show ?thesis using assms(3) by (auto simp: regions_def split: if_splits)
qed

theorem free_regions:
  assumes ok: "spaces_ok rm" and h: "heaps rm m bss" and r: "regions bss a \<noteq> {}"
  shows "\<exists>m' bss'. s_free_block a m = Some m' \<and> heaps rm m' bss' \<and> (\<forall>b. regions bss' b = (if b = a then {} else regions bss b))
    \<and> (\<forall>b. \<forall>x \<in> regions bss' b. m' x = m x)"
proof -
  obtain x j where j: "j < length bss" "x \<in> owned (bss ! j) a" using r by (auto simp: regions_def)
  have sp: "space m (bss ! j)" and ins: "in_space rm j (bss ! j)" using h j(1) by (auto simp: heaps_def)
  have l: "layout (bss ! j)" using sp by (simp add: space_def)
  obtain p where a: "a = p + 8" and p: "(p, True) \<in> set (bss ! j)" "p \<noteq> fst (hd (bss ! j))" "p \<noteq> fst (last (bss ! j))"
    using owned_block[OF l j(2)] .
  obtain m' where m': "s_free_block (p + 8) m = Some m'" "space m' (release p (bss ! j))"
    "\<forall>x \<in> data (release p (bss ! j)) \<union> outside (bss ! j). m' x = m x"
    using free_block_spec[OF sp p] by blast
  let ?bss = "bss[j := release p (bss ! j)]"
  have ow: "owned (release p (bss ! j)) b = (if b = a then {} else owned (bss ! j) b)" for b
    using area_release[OF sp p] release_ends[OF sp p] by (simp add: owned_def a)
  have h': "heaps rm m' ?bss"
    by (rule heaps_update[OF ok h j(1) m'(2)]) (use ins release_ends[OF sp p] m'(3) in \<open>auto simp: in_space_def\<close>)
  moreover have rg: "regions ?bss b = (if b = a then {} else regions bss b)" for b
    using regions_keep[of "release p (bss ! j)" b bss j] regions_at[OF ok h j(1) p(1)] ow[of b] by (auto simp: a)
  moreover have "m' x = m x" if "x \<in> regions ?bss b" for x b
  proof -
    have "x \<in> all_data ?bss" using that by (rule regions_data)
    then have "x \<in> data (?bss ! j) \<union> outside (?bss ! j)" using heaps_data[OF ok h', of j x] j(1) by simp
    then show ?thesis using m'(3) j(1) release_ends[OF sp p] by (auto simp: outside_def)
  qed
  ultimately show ?thesis using m'(1) a by blast
qed

lemma take_owned:
  assumes sp: "space m bs" and k: "(p, k) \<in> set (frees bs)" "n \<le> k"
  shows "(p, False) \<in> set bs" "owned bs (p + 8) = {}" "b \<noteq> p + 8 \<Longrightarrow> owned (take_block p n bs) b = owned bs b"
    "sz + 8 \<le> n \<Longrightarrow> {p + 8..<p + 8 + sz} \<subseteq> owned (take_block p n bs) (p + 8)"
proof -
  obtain xs r u ys where bs: "bs = xs @ (p, False) # (r, u) # ys" "k = r - p" using frees_split[OF k(1)] by blast
  have l: "layout bs" and "xs \<noteq> []" using sp bs by (auto simp: space_def)
  then have np: "p \<noteq> fst (hd bs)" using bs by (cases xs) (auto simp: layout_simps)
  note ar = area_take[OF l[unfolded bs(1)], folded bs(1)] and ends = take_block_ends[OF l k(1)]
  show "(p, False) \<in> set bs" by (simp add: bs)
  show "owned bs (p + 8) = {}" using ar(2) by (simp add: owned_def)
  show "b \<noteq> p + 8 \<Longrightarrow> owned (take_block p n bs) b = owned bs b" using ar(1)[of n b] ends by (simp add: owned_def)
  assume "sz + 8 \<le> n"
  then have "{p + 8..<p + 8 + sz} \<subseteq> {p + 8..<if p + n + 16 \<le> r then p + n else r}" using k(2) bs(2) by auto
  then show "{p + 8..<p + 8 + sz} \<subseteq> owned (take_block p n bs) (p + 8)" using ar(1)[of n "p + 8"] np ends by (simp add: owned_def)
qed

theorem malloc_regions:
  assumes ok: "spaces_ok rm" and h: "heaps rm m bss" and sz: "0 < sz" "sz + 15 < 2 ^ 32"
  shows "\<exists>a m' bss'. smalloc_from rm sz 0 m = Some (a, m') \<and> heaps rm m' bss' \<and> (\<forall>b. \<forall>x \<in> regions bss b. m' x = m x)
    \<and> (\<forall>b. b \<noteq> a \<longrightarrow> regions bss' b = regions bss b)
    \<and> (a = 0 \<longrightarrow> (\<forall>bs \<in> set bss. \<not> fits (s_act_size (sz + 8)) bs))
    \<and> (if a = 0 then regions bss' 0 = regions bss 0 else regions bss a = {} \<and> {a..<a + sz} \<subseteq> regions bss' a)"
proof -
  define n where "n = s_act_size (sz + 8)"
  have n: "sz + 8 \<le> n" using act_size_spec(2)[of "sz + 8"] sz by (simp add: n_def)
  from smalloc_from_spec[OF ok h sz, of 0, folded n_def] consider
    (some) j p m' where "j < length bss" "smalloc_from rm sz 0 m = Some (p + 8, m')" "best_in n bss j p"
      "heaps rm m' (bss[j := take_block p n (bss ! j)])" "\<forall>x \<in> all_data bss. m' x = m x"
    | (none) "smalloc_from rm sz 0 m = Some (0, m)" "\<forall>i < length bss. \<not> fits n (bss ! i)" by auto
  then show ?thesis
  proof cases
    case some
    let ?bs = "bss ! j"
    obtain k where k: "(p, k) \<in> set (frees ?bs)" "n \<le> k" using some(3) by (auto simp: best_in_def)
    have sp: "space m ?bs" using h some(1) by (simp add: heaps_def)
    note ow = take_owned[OF sp k]
    have "regions bss (p + 8) = {}" using regions_at[OF ok h some(1) ow(1), of ?bs] ow(2) by simp
    moreover have "{p + 8..<p + 8 + sz} \<subseteq> regions (bss[j := take_block p n ?bs]) (p + 8)"
      using ow(4)[OF n] regions_at[OF ok h some(1) ow(1)] by simp
    moreover have "regions (bss[j := take_block p n ?bs]) b = regions bss b" if "b \<noteq> p + 8" for b
      by (rule regions_keep) (rule ow(3)[OF that])
    moreover have "\<forall>b. \<forall>x \<in> regions bss b. m' x = m x" using some(5) regions_data by blast
    ultimately show ?thesis using some(2,4) by (intro exI[of _ "p + 8"] exI[of _ m'] exI[of _ "bss[j := take_block p n ?bs]"]) auto
  next
    case none
    then show ?thesis using h by (intro exI[of _ 0] exI[of _ m] exI[of _ bss]) (auto simp: n_def in_set_conv_nth)
  qed
qed

section \<open>The contract\<close>

datatype request = Malloc nat | Free nat

text \<open>A program: it keeps the pointers it got with the sizes it asked for, and frees them by their position.\<close>

fun serve :: "(nat \<Rightarrow> 's \<Rightarrow> (nat \<times> 's) option) \<Rightarrow> (nat \<Rightarrow> 's \<Rightarrow> 's option) \<Rightarrow> request \<Rightarrow> 's \<times> (nat \<times> nat) list \<Rightarrow> ('s \<times> (nat \<times> nat) list) option" where
  "serve alloc dealloc (Malloc n) (s, l) = map_option (\<lambda>(a, s'). (s', if a = 0 then l else l @ [(a, n)])) (alloc n s)"
| "serve alloc dealloc (Free i) (s, l) =
     (if i < length l then map_option (\<lambda>s'. (s', take i l @ drop (i + 1) l)) (dealloc (fst (l ! i)) s) else Some (s, l))"

fun run_client :: "(nat \<Rightarrow> 's \<Rightarrow> (nat \<times> 's) option) \<Rightarrow> (nat \<Rightarrow> 's \<Rightarrow> 's option) \<Rightarrow> request list \<Rightarrow> 's \<times> (nat \<times> nat) list \<Rightarrow> ('s \<times> (nat \<times> nat) list) option" where
  "run_client alloc dealloc [] c = Some c"
| "run_client alloc dealloc (r # rs) c = Option.bind (serve alloc dealloc r c) (run_client alloc dealloc rs)"

fun request_ok :: "nat \<Rightarrow> nat \<Rightarrow> request \<Rightarrow> bool" where
  "request_ok limit k (Malloc n) \<longleftrightarrow> 0 < n \<and> n \<le> limit"
| "request_ok limit k (Free i) \<longleftrightarrow> k \<le> i"

definition span :: "nat \<times> nat \<Rightarrow> nat set" where
  "span b = {fst b..<fst b + snd b}"

locale allocator =
  fixes rel :: "'s \<Rightarrow> 'h \<Rightarrow> bool" and own :: "'h \<Rightarrow> nat \<Rightarrow> nat set" and byte :: "'s \<Rightarrow> nat \<Rightarrow> u8"
    and alloc :: "nat \<Rightarrow> 's \<Rightarrow> (nat \<times> 's) option" and dealloc :: "nat \<Rightarrow> 's \<Rightarrow> 's option" and limit :: nat
  assumes own_disjoint: "rel s h \<Longrightarrow> a \<noteq> b \<Longrightarrow> own h a \<inter> own h b = {}"
    and alloc_law: "rel s h \<Longrightarrow> 0 < n \<Longrightarrow> n \<le> limit \<Longrightarrow> \<exists>a s' h'. alloc n s = Some (a, s') \<and> rel s' h'
      \<and> (\<forall>b. \<forall>x \<in> own h b. byte s' x = byte s x) \<and> (\<forall>b. b \<noteq> a \<longrightarrow> own h' b = own h b)
      \<and> (if a = 0 then own h' 0 = own h 0 else own h a = {} \<and> {a..<a + n} \<subseteq> own h' a)"
    and dealloc_law: "rel s h \<Longrightarrow> own h a \<noteq> {} \<Longrightarrow> \<exists>s' h'. dealloc a s = Some s' \<and> rel s' h'
      \<and> (\<forall>b. own h' b = (if b = a then {} else own h b)) \<and> (\<forall>b. \<forall>x \<in> own h' b. byte s' x = byte s x)"
begin

definition client_inv :: "'s \<Rightarrow> 'h \<Rightarrow> (nat \<times> nat) list \<Rightarrow> bool" where
  "client_inv s h l \<longleftrightarrow> rel s h \<and> distinct (map fst l) \<and> (\<forall>b \<in> set l. span b \<noteq> {} \<and> span b \<subseteq> own h (fst b))"

lemma live_disjoint:
  assumes "client_inv s h l" "i < j" "j < length l"
  shows "span (l ! i) \<inter> span (l ! j) = {}"
proof -
  have "fst (l ! i) \<noteq> fst (l ! j)" using assms by (auto simp: client_inv_def distinct_conv_nth)
  then have "own h (fst (l ! i)) \<inter> own h (fst (l ! j)) = {}" using assms(1) own_disjoint[of s h] unfolding client_inv_def by blast
  moreover have "span (l ! i) \<subseteq> own h (fst (l ! i))" "span (l ! j) \<subseteq> own h (fst (l ! j))" using assms by (auto simp: client_inv_def)
  ultimately show ?thesis by blast
qed

lemma malloc_step:
  assumes inv: "client_inv s h l" and n: "0 < n" "n \<le> limit"
  shows "\<exists>s' h' l'. serve alloc dealloc (Malloc n) (s, l) = Some (s', l @ l') \<and> client_inv s' h' (l @ l')
    \<and> (\<forall>b \<in> set l. \<forall>x \<in> span b. byte s' x = byte s x)"
proof -
  obtain a s' h' where a: "alloc n s = Some (a, s')" "rel s' h'" "\<forall>b. \<forall>x \<in> own h b. byte s' x = byte s x"
    "\<forall>b. b \<noteq> a \<longrightarrow> own h' b = own h b" "if a = 0 then own h' 0 = own h 0 else own h a = {} \<and> {a..<a + n} \<subseteq> own h' a"
    using alloc_law[of s h n] inv n by (auto simp: client_inv_def)
  have o: "own h b \<subseteq> own h' b" for b using a(4,5) by (cases "b = a") (auto split: if_splits)
  have old: "span b \<noteq> {} \<and> span b \<subseteq> own h (fst b)" if "b \<in> set l" for b using inv that by (simp add: client_inv_def)
  have new: "a \<notin> fst ` set l" if "a \<noteq> 0" using that a(5) old by force
  have keep: "\<forall>b \<in> set l. \<forall>x \<in> span b. byte s' x = byte s x" using a(3) old by blast
  have old': "span b \<noteq> {} \<and> span b \<subseteq> own h' (fst b)" if "b \<in> set l" for b using old[OF that] o[of "fst b"] by blast
  have "client_inv s' h' (l @ (if a = 0 then [] else [(a, n)]))"
    using a(2,5) inv old' new n by (simp add: client_inv_def span_def[of "(a, n)"])
  then show ?thesis using a(1) keep by (intro exI[of _ s'] exI[of _ h'] exI[of _ "if a = 0 then [] else [(a, n)]"]) auto
qed

lemma free_step:
  assumes inv: "client_inv s h l" and i: "i < length l"
  shows "\<exists>s' h'. serve alloc dealloc (Free i) (s, l) = Some (s', take i l @ drop (i + 1) l) \<and> client_inv s' h' (take i l @ drop (i + 1) l)
    \<and> (\<forall>b \<in> set (take i l @ drop (i + 1) l). \<forall>x \<in> span b. byte s' x = byte s x)"
proof -
  let ?l = "take i l @ drop (i + 1) l"
  have l: "l = take i l @ l ! i # drop (i + 1) l" using id_take_nth_drop[OF i] by simp
  have old: "span b \<noteq> {} \<and> span b \<subseteq> own h (fst b)" if "b \<in> set l" for b using inv that by (simp add: client_inv_def)
  have "own h (fst (l ! i)) \<noteq> {}" using old[OF nth_mem[OF i]] by blast
  then obtain s' h' where f: "dealloc (fst (l ! i)) s = Some s'" "rel s' h'" "\<forall>b. own h' b = (if b = fst (l ! i) then {} else own h b)"
    "\<forall>b. \<forall>x \<in> own h' b. byte s' x = byte s x" using dealloc_law[of s h "fst (l ! i)"] inv unfolding client_inv_def by blast
  have "distinct (map fst (take i l @ l ! i # drop (i + 1) l))" using inv by (simp only: l[symmetric] client_inv_def)
  then have d: "distinct (map fst ?l)" "fst (l ! i) \<notin> fst ` set ?l" by auto
  have sub: "b \<in> set l" if "b \<in> set ?l" for b using that by (auto dest: in_set_takeD in_set_dropD)
  have new: "span b \<noteq> {} \<and> span b \<subseteq> own h' (fst b)" if "b \<in> set ?l" for b
  proof -
    have "fst b \<in> fst ` set ?l" using that by (rule imageI)
    then have "fst b \<noteq> fst (l ! i)" using d(2) by metis
    then show ?thesis using f(3) old[OF sub[OF that]] by simp
  qed
  then have "client_inv s' h' ?l" using f(2) d(1) by (simp add: client_inv_def)
  moreover have "\<forall>b \<in> set ?l. \<forall>x \<in> span b. byte s' x = byte s x" using f(4) new by blast
  ultimately show ?thesis using f(1) i by (intro exI[of _ s'] exI[of _ h']) simp
qed

lemma client_step:
  assumes inv: "client_inv s h l" and r: "request_ok limit k r" and k: "k \<le> length l"
  shows "\<exists>s' h' l'. serve alloc dealloc r (s, l) = Some (s', l') \<and> client_inv s' h' l' \<and> k \<le> length l' \<and> take k l' = take k l
    \<and> (\<forall>b \<in> set (take k l). \<forall>x \<in> span b. byte s' x = byte s x)"
proof (cases r)
  case (Malloc n)
  then obtain s' h' l' where "serve alloc dealloc r (s, l) = Some (s', l @ l')" "client_inv s' h' (l @ l')"
    "\<forall>b \<in> set l. \<forall>x \<in> span b. byte s' x = byte s x"
    using malloc_step[OF inv, of n] r by auto
  then show ?thesis using k by (intro exI[of _ s'] exI[of _ h'] exI[of _ "l @ l'"]) (auto dest: in_set_takeD)
next
  case (Free i)
  show ?thesis
  proof (cases "i < length l")
    case True
    from free_step[OF inv this] obtain s' h' where "serve alloc dealloc r (s, l) = Some (s', take i l @ drop (i + 1) l)"
      "client_inv s' h' (take i l @ drop (i + 1) l)" "\<forall>b \<in> set (take i l @ drop (i + 1) l). \<forall>x \<in> span b. byte s' x = byte s x"
      using Free by auto
    moreover have "k \<le> i" using r Free by simp
    then have "take k (take i l @ drop (i + 1) l) = take k l" "k \<le> length (take i l @ drop (i + 1) l)" using True by (auto simp: min_absorb1)
    moreover have "set (take k l) \<subseteq> set (take i l)" using \<open>k \<le> i\<close> by (rule set_take_subset_set_take)
    ultimately show ?thesis by (intro exI[of _ s'] exI[of _ h'] exI[of _ "take i l @ drop (i + 1) l"]) auto
  next
    case False
    then show ?thesis using inv Free k by (intro exI[of _ s] exI[of _ h] exI[of _ l]) auto
  qed
qed

lemma client_run:
  "client_inv s h l \<Longrightarrow> list_all (request_ok limit k) rs \<Longrightarrow> k \<le> length l \<Longrightarrow>
    \<exists>s' h' l'. run_client alloc dealloc rs (s, l) = Some (s', l') \<and> client_inv s' h' l' \<and> take k l' = take k l
      \<and> (\<forall>b \<in> set (take k l). \<forall>x \<in> span b. byte s' x = byte s x)"
proof (induction rs arbitrary: s h l)
  case Nil then show ?case by auto
next
  case (Cons r rs)
  then obtain s1 h1 l1 where 1: "serve alloc dealloc r (s, l) = Some (s1, l1)" "client_inv s1 h1 l1" "k \<le> length l1" "take k l1 = take k l"
    "\<forall>b \<in> set (take k l). \<forall>x \<in> span b. byte s1 x = byte s x" using client_step[of s h l k r] by auto
  from Cons.IH[OF 1(2) _ 1(3)] Cons.prems(2) obtain s' h' l' where
    "run_client alloc dealloc rs (s1, l1) = Some (s', l')" "client_inv s' h' l'" "take k l' = take k l1"
    "\<forall>b \<in> set (take k l1). \<forall>x \<in> span b. byte s' x = byte s1 x" by auto
  then show ?case using 1 by (intro exI[of _ s'] exI[of _ h'] exI[of _ l']) auto
qed

end

text \<open>The allocator of \<^verbatim>\<open>src/salloc.c\<close>, before its first call too: then it owns nothing.\<close>

definition salloc_rel :: "ram \<Rightarrow> salloc \<Rightarrow> blocks list \<Rightarrow> bool" where
  "salloc_rel rm s bss \<longleftrightarrow> spaces_ok rm \<and> (if s_initialized s then heaps rm (s_mem s) bss else bss = [])"

lemma fresh_regions: "regions (map (fresh_blocks rm) [0..<k]) a = {}"
  by (auto simp: regions_def owned_def fresh_blocks_def split: if_splits)

lemma regions_Nil [simp]: "regions [] a = {}"
  by (simp add: regions_def)

lemma smalloc_regions:
  assumes r: "salloc_rel rm s bss" and sz: "0 < sz" "sz + 15 < 2 ^ 32"
  shows "\<exists>a s' bss'. smalloc rm sz s = Some (a, s') \<and> salloc_rel rm s' bss' \<and> (\<forall>b. \<forall>x \<in> regions bss b. s_mem s' x = s_mem s x)
    \<and> (\<forall>b. b \<noteq> a \<longrightarrow> regions bss' b = regions bss b)
    \<and> (if a = 0 then regions bss' 0 = regions bss 0 else regions bss a = {} \<and> {a..<a + sz} \<subseteq> regions bss' a)"
proof -
  define s1 where "s1 = (if s_initialized s then s else s_init rm s)"
  define bss1 where "bss1 = (if s_initialized s then bss else map (fresh_blocks rm) [0..<length (mem_start rm)])"
  have ok: "spaces_ok rm" and h: "heaps rm (s_mem s1) bss1" and i: "s_initialized s1"
    using r init_spec[of rm s] by (auto simp: salloc_rel_def s1_def bss1_def s_init_def split: if_splits)
  have rg: "regions bss1 b = regions bss b" for b using r fresh_regions[of rm] by (simp add: bss1_def salloc_rel_def)
  have same: "s_mem s1 x = s_mem s x" if "x \<in> regions bss b" for x b using r that by (cases "s_initialized s") (auto simp: salloc_rel_def s1_def)
  from malloc_regions[OF ok h sz] obtain a m' bss' where m: "smalloc_from rm sz 0 (s_mem s1) = Some (a, m')" "heaps rm m' bss'"
    "\<forall>b. \<forall>x \<in> regions bss b. m' x = s_mem s1 x" "\<forall>b. b \<noteq> a \<longrightarrow> regions bss' b = regions bss b"
    "if a = 0 then regions bss' 0 = regions bss 0 else regions bss a = {} \<and> {a..<a + sz} \<subseteq> regions bss' a"
    unfolding rg by blast
  have "smalloc rm sz s = Some (a, s1\<lparr>s_mem := m'\<rparr>)" using m(1) by (simp add: smalloc_def s1_def[symmetric])
  moreover have "salloc_rel rm (s1\<lparr>s_mem := m'\<rparr>) bss'" using ok m(2) i by (simp add: salloc_rel_def)
  ultimately show ?thesis using m(3-5) same by (intro exI[of _ a] exI[of _ "s1\<lparr>s_mem := m'\<rparr>"] exI[of _ bss']) auto
qed

lemma region_nonzero:
  assumes "heaps rm m bss" "regions bss a \<noteq> {}"
  shows "a \<noteq> 0"
proof -
  obtain x j where j: "j < length bss" and x: "x \<in> owned (bss ! j) a" using assms(2) by (auto simp: regions_def)
  show ?thesis by (rule owned_block[OF space_layout[OF assms(1) nth_mem[OF j]] x]) simp
qed

lemma sfree_regions:
  assumes r: "salloc_rel rm s bss" and a: "regions bss a \<noteq> {}"
  shows "\<exists>s' bss'. sfree a s = Some s' \<and> salloc_rel rm s' bss' \<and> (\<forall>b. regions bss' b = (if b = a then {} else regions bss b))
    \<and> (\<forall>b. \<forall>x \<in> regions bss' b. s_mem s' x = s_mem s x)"
proof -
  have i: "s_initialized s" and ok: "spaces_ok rm" and h: "heaps rm (s_mem s) bss" using r a by (auto simp: salloc_rel_def split: if_splits)
  have "a \<noteq> 0" using region_nonzero[OF h a] .
  moreover obtain m' bss' where "s_free_block a (s_mem s) = Some m'" "heaps rm m' bss'" "\<forall>b. regions bss' b = (if b = a then {} else regions bss b)"
    "\<forall>b. \<forall>x \<in> regions bss' b. m' x = s_mem s x" using free_regions[OF ok h a] by blast
  ultimately show ?thesis using i ok by (intro exI[of _ "s\<lparr>s_mem := m'\<rparr>"] exI[of _ bss']) (simp add: sfree_def salloc_rel_def)
qed

interpretation sa: allocator "salloc_rel rm" regions s_mem "smalloc rm" sfree "2 ^ 32 - 16" for rm
proof unfold_locales
  fix s h a b assume "salloc_rel rm s h" "(a :: nat) \<noteq> b"
  then show "regions h a \<inter> regions h b = {}" using regions_disjoint[of rm "s_mem s" h a b] by (cases "s_initialized s") (auto simp: salloc_rel_def)
next
  fix s h and n :: nat assume "salloc_rel rm s h" "0 < n" "n \<le> 2 ^ 32 - 16"
  then show "\<exists>a s' h'. smalloc rm n s = Some (a, s') \<and> salloc_rel rm s' h' \<and> (\<forall>b. \<forall>x \<in> regions h b. s_mem s' x = s_mem s x)
    \<and> (\<forall>b. b \<noteq> a \<longrightarrow> regions h' b = regions h b)
    \<and> (if a = 0 then regions h' 0 = regions h 0 else regions h a = {} \<and> {a..<a + n} \<subseteq> regions h' a)"
    using smalloc_regions[of rm s h n] by simp
next
  fix s h a assume "salloc_rel rm s h" "regions h a \<noteq> {}"
  then show "\<exists>s' h'. sfree a s = Some s' \<and> salloc_rel rm s' h' \<and> (\<forall>b. regions h' b = (if b = a then {} else regions h b))
    \<and> (\<forall>b. \<forall>x \<in> regions h' b. s_mem s' x = s_mem s x)" by (rule sfree_regions)
qed

section \<open>Reallocating\<close>

lemma owned_interval:
  assumes sp: "space m bs" and o: "owned bs a \<noteq> {}"
  shows "owned bs a = {a..<a + s_get_actual_block_size m a}" "0 < s_get_actual_block_size m a" "a + s_get_actual_block_size m a < 2 ^ 32"
proof -
  have l: "layout bs" and s: "seg m 0 bs 0" using sp by (auto simp: space_def)
  obtain x where x: "x \<in> owned bs a" using o by blast
  obtain p where p: "a = p + 8" "(p, True) \<in> set bs" "p \<noteq> fst (hd bs)" "p \<noteq> fst (last bs)" using owned_block[OF l x] .
  obtain xs ys where bs: "bs = xs @ (p, True) # ys" using p(2) by (auto dest: split_list)
  then obtain r u zs where ys: "ys = (r, u) # zs" using p(4) by (cases ys) auto
  have h: "header m p = (final 0 xs, r, False)" using s by (simp add: bs ys)
  have "(p, True) \<notin> set xs" using l by (auto simp: bs layout_simps)
  then have ow: "owned bs a = {a..<r}" using area_skip[of "(p, True) # ys" xs a] p(1,3) by (simp add: owned_def bs ys)
  have r: "r < 2 ^ 32" "p + 8 \<le> r" using l by (auto simp: bs ys layout_simps addr_ok_def)
  then have "s_get_block_size m p = r - p" using block_size_seg[OF h] by simp
  then have "s_get_actual_block_size m a = (r - p + 2 ^ 32 - 8) mod 2 ^ 32" by (simp add: s_get_actual_block_size_def p(1))
  also have "r - p + 2 ^ 32 - 8 = (r - a) + 2 ^ 32" using r(2) p(1) by simp
  also have "\<dots> mod 2 ^ 32 = (r - a) mod 2 ^ 32" by (simp only: mod_add_self2)
  also have "\<dots> = r - a" using r(1) by simp
  finally have sz: "s_get_actual_block_size m a = r - a" .
  have "a < r" using x ow by auto
  then show "owned bs a = {a..<a + s_get_actual_block_size m a}" "0 < s_get_actual_block_size m a" "a + s_get_actual_block_size m a < 2 ^ 32"
    using sz ow r(1) by auto
qed

lemma region_interval:
  assumes ok: "spaces_ok rm" and h: "heaps rm m bss" and r: "regions bss a \<noteq> {}"
  shows "regions bss a = {a..<a + s_get_actual_block_size m a}" "0 < s_get_actual_block_size m a" "a + s_get_actual_block_size m a < 2 ^ 32"
proof -
  obtain x j where j: "j < length bss" "x \<in> owned (bss ! j) a" using r by (auto simp: regions_def)
  have sp: "space m (bss ! j)" using h j(1) by (simp add: heaps_def)
  have l: "layout (bss ! j)" using sp by (simp add: space_def)
  obtain p where p: "a = p + 8" "(p, True) \<in> set (bss ! j)" using owned_block[OF l j(2)] .
  have "regions bss a = owned (bss ! j) a" using regions_at[OF ok h j(1) p(2), of "bss ! j"] p(1) by simp
  moreover have "owned (bss ! j) a \<noteq> {}" using j(2) by blast
  ultimately show "regions bss a = {a..<a + s_get_actual_block_size m a}" "0 < s_get_actual_block_size m a" "a + s_get_actual_block_size m a < 2 ^ 32"
    using owned_interval[OF sp, of a] by auto
qed

text \<open>Writing inside the data of live blocks keeps the headers.\<close>

lemma heaps_write:
  assumes ok: "spaces_ok rm" and h: "heaps rm m bss" and w: "\<And>x. x \<notin> all_data bss \<Longrightarrow> m' x = m x"
  shows "heaps rm m' bss"
proof -
  have "space m' (bss ! j)" if j: "j < length bss" for j
  proof -
    have sp: "space m (bss ! j)" and l: "layout (bss ! j)" using h j by (auto simp: heaps_def space_def)
    have "seg m' 0 (bss ! j) 0"
    proof (rule seg_cong[of m])
      fix p t x assume p: "(p, t) \<in> set (bss ! j)" "p \<le> x" "x < p + 8"
      then have "x \<notin> data (bss ! j) \<union> outside (bss ! j)" using data_no_header[OF l p(1), of x] outside_bounds[OF l p(1) p(1), of x] by auto
      then show "m' x = m x" using heaps_data[OF ok h j, of x] by (intro w) blast
    qed (use sp in \<open>simp add: space_def\<close>)
    then show ?thesis using sp by (simp add: space_def)
  qed
  then show ?thesis using h by (simp add: heaps_def)
qed

lemma salloc_rel_write:
  assumes "salloc_rel rm s bss" "\<And>x. x \<notin> regions bss a \<Longrightarrow> m' x = s_mem s x"
  shows "salloc_rel rm (s\<lparr>s_mem := m'\<rparr>) bss"
proof (cases "s_initialized s")
  case True
  then have "spaces_ok rm" "heaps rm (s_mem s) bss" using assms(1) by (auto simp: salloc_rel_def)
  then have "heaps rm m' bss" using heaps_write[of rm "s_mem s" bss m'] assms(2) regions_data by blast
  then show ?thesis using True assms(1) by (simp add: salloc_rel_def)
qed (use assms(1) in \<open>auto simp: salloc_rel_def\<close>)

text \<open>The last part of \<^verbatim>\<open>srealloc\<close>: the data is copied to the new block and the old one is freed.\<close>

lemma copy_and_free:
  assumes r: "salloc_rel rm s bss" and p: "regions bss p = {p..<p + n}" "0 < n" and q: "q \<noteq> p" "{q..<q + n} \<subseteq> regions bss q"
  defines "m2 \<equiv> (\<lambda>a. if q \<le> a \<and> a < q + n then s_mem s (p + (a - q)) else s_mem s a)"
  shows "\<exists>s' bss'. sfree p (s\<lparr>s_mem := m2\<rparr>) = Some s' \<and> salloc_rel rm s' bss' \<and> regions bss' p = {} \<and> regions bss' q = regions bss q
    \<and> (\<forall>j < n. s_mem s' (q + j) = s_mem s (p + j))
    \<and> (\<forall>b. b \<noteq> p \<and> b \<noteq> q \<longrightarrow> regions bss' b = regions bss b \<and> (\<forall>x \<in> regions bss b. s_mem s' x = s_mem s x))"
proof -
  have r2: "salloc_rel rm (s\<lparr>s_mem := m2\<rparr>) bss" by (rule salloc_rel_write[OF r, of q]) (use q(2) in \<open>auto simp: m2_def\<close>)
  have "regions bss p \<noteq> {}" using p by simp
  from sfree_regions[OF r2 this] obtain s' bss' where f: "sfree p (s\<lparr>s_mem := m2\<rparr>) = Some s'" "salloc_rel rm s' bss'"
    "\<forall>b. regions bss' b = (if b = p then {} else regions bss b)" "\<forall>b. \<forall>x \<in> regions bss' b. s_mem s' x = m2 x" by auto
  have "s_mem s' (q + j) = s_mem s (p + j)" if "j < n" for j
  proof -
    have "q + j \<in> regions bss' q" using f(3) q that by auto
    then have "s_mem s' (q + j) = m2 (q + j)" using f(4) by blast
    then show ?thesis using that by (simp add: m2_def)
  qed
  moreover have "s_mem s' x = s_mem s x" if "b \<noteq> p" "b \<noteq> q" "x \<in> regions bss b" for b x
  proof -
    have "x \<notin> regions bss q" using sa.own_disjoint[OF r that(2)] that(3) by blast
    then have "m2 x = s_mem s x" using q(2) by (auto simp: m2_def)
    then show ?thesis using f(3,4) that by (metis (full_types))
  qed
  ultimately show ?thesis using f(1-3) q(1) by (intro exI[of _ s'] exI[of _ bss']) auto
qed

lemma srealloc_grow:
  assumes r: "salloc_rel rm s bss" and p: "regions bss p \<noteq> {}" and sz: "s_get_actual_block_size (s_mem s) p < sz" "sz + 15 < 2 ^ 32"
  shows "\<exists>q s' bss'. srealloc rm p sz s = Some (q, s') \<and> salloc_rel rm s' bss'
    \<and> (\<forall>b. b \<noteq> p \<and> b \<noteq> q \<longrightarrow> regions bss' b = regions bss b \<and> (\<forall>x \<in> regions bss b. s_mem s' x = s_mem s x))
    \<and> (if q = 0 then regions bss' p = regions bss p \<and> (\<forall>x \<in> regions bss p. s_mem s' x = s_mem s x)
       else regions bss' p = {} \<and> {q..<q + sz} \<subseteq> regions bss' q \<and> (\<forall>i < s_get_actual_block_size (s_mem s) p. s_mem s' (q + i) = s_mem s (p + i)))"
proof -
  let ?n = "s_get_actual_block_size (s_mem s) p"
  have i: "s_initialized s" and ok: "spaces_ok rm" and h: "heaps rm (s_mem s) bss" using r p by (auto simp: salloc_rel_def split: if_splits)
  have rp: "regions bss p = {p..<p + ?n}" and n: "0 < ?n" and p0: "p \<noteq> 0" using region_interval[OF ok h p] region_nonzero[OF h p] by auto
  obtain q s1 bss1 where m: "smalloc rm sz s = Some (q, s1)" "salloc_rel rm s1 bss1" "\<forall>b. \<forall>x \<in> regions bss b. s_mem s1 x = s_mem s x"
    "\<forall>b. b \<noteq> q \<longrightarrow> regions bss1 b = regions bss b"
    "if q = 0 then regions bss1 0 = regions bss 0 else regions bss q = {} \<and> {q..<q + sz} \<subseteq> regions bss1 q"
    using smalloc_regions[OF r _ sz(2)] sz(1) by blast
  have sr: "srealloc rm p sz s = (if q = 0 then Some (0, s1) else
     (let s2 = s1\<lparr>s_mem := (\<lambda>a. if q \<le> a \<and> a < q + s_get_actual_block_size (s_mem s1) p then s_mem s1 (p + (a - q)) else s_mem s1 a)\<rparr>
      in map_option (\<lambda>s3. (q, s3)) (sfree p s2)))"
    using i p0 sz m(1) n by (simp add: srealloc_def Let_def)
  show ?thesis
  proof (cases "q = 0")
    case True
    then show ?thesis using sr m p0 by (intro exI[of _ 0] exI[of _ s1] exI[of _ bss1]) auto
  next
    case False
    then have q: "q \<noteq> p" "regions bss q = {}" "{q..<q + sz} \<subseteq> regions bss1 q" using m(5) p by auto
    have h1: "heaps rm (s_mem s1) bss1" using m(2) False q(3) sz n by (auto simp: salloc_rel_def split: if_splits)
    have rp1: "regions bss1 p = {p..<p + ?n}" using m(4) q(1) rp by auto
    then have "card (regions bss1 p) = ?n" "regions bss1 p \<noteq> {}" using n by auto
    then have n1: "s_get_actual_block_size (s_mem s1) p = ?n" using arg_cong[OF region_interval(1)[OF ok h1, of p], of card] by simp
    have "{q..<q + ?n} \<subseteq> regions bss1 q" using q(3) sz(1) by auto
    from copy_and_free[OF m(2) rp1 n q(1) this] obtain s' bss' where f: "srealloc rm p sz s = Some (q, s')" "salloc_rel rm s' bss'"
      "regions bss' p = {}" "regions bss' q = regions bss1 q" "\<forall>j < ?n. s_mem s' (q + j) = s_mem s1 (p + j)"
      "\<forall>b. b \<noteq> p \<and> b \<noteq> q \<longrightarrow> regions bss' b = regions bss1 b \<and> (\<forall>x \<in> regions bss1 b. s_mem s' x = s_mem s1 x)"
      using sr False n1 by auto
    have "s_mem s' (q + j) = s_mem s (p + j)" if "j < ?n" for j
      using f(5)[rule_format, OF that] m(3)[rule_format, of "p + j" p] rp that by simp
    then show ?thesis using False f q m(3,4) by (intro exI[of _ q] exI[of _ s'] exI[of _ bss']) auto
  qed
qed

section \<open>A request that never returns\<close>

text \<open>A walk from a free block that is its own predecessor does not end.\<close>

lemma walk_back_loop:
  assumes "s_is_block_free m p" "s_get_prev_block m p = p"
  shows "s_walk_back m p = None"
proof (cases "s_walk_back m p")
  case (Some r)
  then have "\<not> (m = m \<and> p = p)"
    by (rule s_walk_back.raw_induct[where P = "\<lambda>n q r. \<not> (n = m \<and> q = p)", rotated]) (use assms in \<open>auto split: if_splits\<close>)
  then show ?thesis by simp
qed simp

text \<open>Splitting a block at its own address, which is what a size of zero asks for.\<close>

lemma split_nothing:
  assumes "addr_ok p" "addr_ok r" "p + 8 \<le> r" "s_get_next_block m p = r"
  shows "s_split p 0 m = None"
proof -
  let ?m = "s_mark_block_free p (s_set_next_block p p (s_set_prev_block r p (s_set_next_block p r (s_set_prev_block p p m))))"
  have h: "header ?m p = (p, p, True)" using assms by simp
  have "s_walk_back ?m p = None" by (rule walk_back_loop) (simp_all only: headerD[OF h])
  then show ?thesis using assms(4) by (simp add: s_split_def s_compact_free_def Let_def)
qed

lemma get_free_block_hangs:
  assumes sp: "space m bs" and f: "frees bs \<noteq> []" "\<forall>(p, k) \<in> set (frees bs). 16 \<le> k"
  shows "s_get_free_block (2 ^ 32 - 8) (fst (hd bs)) m = None"
proof -
  have l: "layout bs" and s: "seg m 0 bs 0" using sp by (auto simp: space_def)
  obtain p k where pk: "pick 0 (frees bs) 0 (2 ^ 32 - 1) = (p, k)" by fastforce
  have a: "(p, k) \<in> set (frees bs)" using pick_spec[OF pk] f frees_bounds[OF l] by (cases "frees bs") fastforce+
  then obtain xs r u ys where bs: "bs = xs @ (p, False) # (r, u) # ys" "k = r - p" using frees_split by blast
  have ok: "addr_ok p" "addr_ok r" "p + 8 \<le> r" "p \<noteq> 0" using l by (auto simp: bs layout_simps)
  have "header m p = (final 0 xs, r, True)" using s by (simp add: bs)
  then have "header (s_mark_block_taken p m) p = (final 0 xs, r, False)" by simp
  then have "s_get_next_block (s_mark_block_taken p m) p = r" by (rule headerD)
  then have "s_split p 0 (s_mark_block_taken p m) = None" by (rule split_nothing[OF ok(1,2,3)])
  moreover have "s_act_size 0 = 0" by (simp add: s_act_size_def)
  moreover have "16 \<le> k" using f(2) a by blast
  ultimately show ?thesis using best_fit_space[OF sp, of 0] pk ok(4) by (simp add: s_get_free_block_def)
qed

section \<open>Properties\<close>

text \<open>A board with one space of four kilobytes, after initialisation and with its only block handed out.\<close>

definition board4k :: ram where
  "board4k = \<lparr>mem_start = [0x10000], mem_end = [0x11000]\<rparr>"

definition boot_heap :: salloc where
  "boot_heap = \<lparr>s_initialized = False, s_mem = (\<lambda>_. 0)\<rparr>"

definition full_heap :: salloc where
  "full_heap = \<lparr>s_initialized = True, s_mem = s_mark_block_taken 0x10008 (s_init_space 0x10000 0x1000 (\<lambda>_. 0))\<rparr>"

lemma board4k_ends: "first_free board4k 0 = 0x10000" "last_free board4k 0 = 0x11000" "length (mem_start board4k) = 1" "length (mem_end board4k) = 1"
  by (simp_all add: board4k_def platform_get_first_free_ram_def platform_get_last_free_ram_def)

lemma board4k_ok: "spaces_ok board4k"
  by (simp add: spaces_ok_def board4k_ends)

lemma board4k_init: "heaps board4k (s_mem (s_init board4k boot_heap)) [[(0x10000, True), (0x10008, False), (0x10FF8, True)]]"
  using init_spec[OF board4k_ok, of boot_heap] by (simp add: board4k_ends fresh_blocks_def)

lemma full_heap_ok: "heaps board4k (s_mem full_heap) [[(0x10000, True), (0x10008, True), (0x10FF8, True)]]"
proof -
  let ?m = "s_init_space 0x10000 0x1000 (\<lambda>_. 0)"
  have sp: "space ?m [(0x10000, True), (0x10008, False), (0x10FF8, True)]"
    using init_space_spec(1)[of "0x10000" "0x1000"] by (simp add: addr_ok_def)
  have "seg (s_mark_block_taken 0x10008 ?m) 0 ([(0x10000, True)] @ (0x10008, True) # [(0x10FF8, True)]) 0"
    by (rule seg_header[of ?m _ _ _ False]) (use sp in \<open>auto simp: space_def\<close>)
  then have "space (s_mark_block_taken 0x10008 ?m) [(0x10000, True), (0x10008, True), (0x10FF8, True)]"
    using sp by (simp add: space_def layout_simps)
  then show ?thesis by (simp add: full_heap_def heaps_def in_space_def board4k_ends)
qed

text \<open>C3: A program that only ever frees what it was given can allocate and free in any order: every call returns, the
  blocks it holds never overlap, and the bytes of the blocks it does not free stay as they are whatever it does with the others.\<close>

theorem smalloc_client_safe:
  assumes "spaces_ok rm" "\<not> s_initialized s" "list_all (request_ok (2 ^ 32 - 16) 0) rs"
  shows "\<exists>s1 l1. run_client (smalloc rm) sfree rs (s, []) = Some (s1, l1) \<and> (\<forall>j < length l1. \<forall>i < j. span (l1 ! i) \<inter> span (l1 ! j) = {})
    \<and> (\<forall>k rs'. k \<le> length l1 \<and> list_all (request_ok (2 ^ 32 - 16) k) rs' \<longrightarrow>
        (\<exists>s2 l2. run_client (smalloc rm) sfree rs' (s1, l1) = Some (s2, l2) \<and> take k l2 = take k l1
          \<and> (\<forall>b \<in> set (take k l1). \<forall>x \<in> span b. s_mem s2 x = s_mem s1 x)))"
proof -
  have "sa.client_inv rm s [] []" using assms(1,2) by (simp add: sa.client_inv_def salloc_rel_def)
  from sa.client_run[OF this assms(3)] obtain s1 h1 l1 where 1: "run_client (smalloc rm) sfree rs (s, []) = Some (s1, l1)" "sa.client_inv rm s1 h1 l1" by auto
  show ?thesis using 1 sa.live_disjoint[OF 1(2)] sa.client_run[OF 1(2)] by (intro exI[of _ s1] exI[of _ l1]) blast
qed

theorem smalloc_client_safe_witness:
  "\<exists>s1 l1. run_client (smalloc board4k) sfree [Malloc 100, Malloc 20, Free 0] (boot_heap, []) = Some (s1, l1)
    \<and> (\<forall>j < length l1. \<forall>i < j. span (l1 ! i) \<inter> span (l1 ! j) = {})"
  using smalloc_client_safe[OF board4k_ok, of boot_heap "[Malloc 100, Malloc 20, Free 0]"] by (auto simp: boot_heap_def)

text \<open>C19: \<^verbatim>\<open>smalloc\<close> hands out the smallest free block that is large enough, in the first memory space that has one; it splits it
  when sixteen bytes or more are left, keeps the list of blocks well formed and changes no byte a program owns. It returns NULL, with nothing changed, only
  when no free block of any space is large enough.\<close>

theorem smalloc_best_fit:
  assumes "spaces_ok rm" "s_initialized s" "heaps rm (s_mem s) bss" "0 < sz" "sz + 15 < 2 ^ 32"
  shows "(\<exists>j p s'. j < length bss \<and> smalloc rm sz s = Some (p + 8, s') \<and> (\<forall>h < j. \<not> fits (s_act_size (sz + 8)) (bss ! h))
      \<and> best_in (s_act_size (sz + 8)) bss j p \<and> heaps rm (s_mem s') (bss[j := take_block p (s_act_size (sz + 8)) (bss ! j)])
      \<and> (\<forall>x \<in> all_data bss. s_mem s' x = s_mem s x))
    \<or> smalloc rm sz s = Some (0, s) \<and> (\<forall>h < length bss. \<not> fits (s_act_size (sz + 8)) (bss ! h))"
  using smalloc_from_spec[OF assms(1,3,4,5) le0]
proof (elim disjE exE conjE)
  fix j p m' assume "j < length bss" "smalloc_from rm sz 0 (s_mem s) = Some (p + 8, m')" "best_in (s_act_size (sz + 8)) bss j p"
    "\<forall>h. 0 \<le> h \<and> h < j \<longrightarrow> \<not> fits (s_act_size (sz + 8)) (bss ! h)" "\<forall>x \<in> all_data bss. m' x = s_mem s x"
    "heaps rm m' (bss[j := take_block p (s_act_size (sz + 8)) (bss ! j)])"
  then show ?thesis using assms(2) by (intro disjI1 exI[of _ j] exI[of _ p] exI[of _ "s\<lparr>s_mem := m'\<rparr>"]) (simp add: smalloc_def Let_def)
qed (use assms(2) in \<open>simp_all add: smalloc_def Let_def\<close>)

theorem smalloc_best_fit_witness:
  "\<exists>s'. smalloc board4k 100 (s_init board4k boot_heap) = Some (0x10010, s')
    \<and> heaps board4k (s_mem s') [[(0x10000, True), (0x10008, True), (0x10078, False), (0x10FF8, True)]]"
proof -
  let ?bs = "[(0x10000, True), (0x10008, False), (0x10FF8, True)] :: blocks"
  have a: "s_act_size (100 + 8) = 112" by (simp add: s_act_size_def)
  have fr: "frees ?bs = [(0x10008, 0xFF0)]" "take_block 0x10008 112 ?bs = [(0x10000, True), (0x10008, True), (0x10078, False), (0x10FF8, True)]"
    by simp_all
  have "fits 112 ([?bs] ! 0)" by (simp add: fits_def)
  then obtain p s' where s': "smalloc board4k 100 (s_init board4k boot_heap) = Some (p + 8, s')" "best_in 112 [?bs] 0 p"
    "heaps board4k (s_mem s') [take_block p 112 ?bs]"
    using smalloc_best_fit[OF board4k_ok _ board4k_init, of 100, unfolded a] by (auto simp: s_init_def simp del: frees.simps take_block.simps)
  have "p = 0x10008" using s'(2) by (simp add: best_in_def fr(1) del: frees.simps)
  then show ?thesis using s'(1,3) by (simp only: fr(2)) simp
qed

text \<open>C20: \<^verbatim>\<open>sfree\<close> marks the block free and joins it with the free blocks before and after it, so that no two neighbours are free
  afterwards; the list stays well formed and no byte of another block changes.\<close>

theorem sfree_coalesces:
  assumes ok: "spaces_ok rm" and i: "s_initialized s" and h: "heaps rm (s_mem s) bss" and j: "j < length bss"
    and p: "(p, True) \<in> set (bss ! j)" "p \<noteq> fst (hd (bss ! j))" "p \<noteq> fst (last (bss ! j))"
  shows "\<exists>s'. sfree (p + 8) s = Some s' \<and> heaps rm (s_mem s') (bss[j := release p (bss ! j)])
    \<and> (\<forall>x \<in> all_data (bss[j := release p (bss ! j)]). s_mem s' x = s_mem s x)"
proof -
  have sp: "space (s_mem s) (bss ! j)" "in_space rm j (bss ! j)" using h j by (auto simp: heaps_def)
  note ends = release_ends[OF sp(1) p]
  obtain m' where m': "s_free_block (p + 8) (s_mem s) = Some m'" "space m' (release p (bss ! j))"
    "\<forall>x \<in> data (release p (bss ! j)) \<union> outside (bss ! j). m' x = s_mem s x"
    using free_block_spec[OF sp(1) p] by blast
  have h': "heaps rm m' (bss[j := release p (bss ! j)])"
    by (rule heaps_update[OF ok h j m'(2)]) (use sp(2) ends m'(3) in \<open>auto simp: in_space_def\<close>)
  have "m' x = s_mem s x" if "x \<in> all_data (bss[j := release p (bss ! j)])" for x
    using heaps_data[OF ok h' _ that, of j] j m'(3) ends by (auto simp: outside_def)
  then show ?thesis using m'(1) h' i by (intro exI[of _ "s\<lparr>s_mem := m'\<rparr>"]) (simp add: sfree_def)
qed

theorem sfree_coalesces_witness:
  "\<exists>s'. sfree 0x10010 full_heap = Some s' \<and> heaps board4k (s_mem s') [[(0x10000, True), (0x10008, False), (0x10FF8, True)]]"
  using sfree_coalesces[OF board4k_ok _ full_heap_ok, of 0 "0x10008"] by (auto simp: full_heap_def release_def)

text \<open>C21: Growing a block with \<^verbatim>\<open>srealloc\<close> returns a block of the new size that begins with all the bytes of the old
  one, which is freed; when there is no room it returns NULL and the old block is still there with its bytes. Other blocks
  are as they were in both cases.\<close>

theorem srealloc_keeps_data:
  assumes "salloc_rel rm s bss" "regions bss p \<noteq> {}" "s_get_actual_block_size (s_mem s) p < sz" "sz + 15 < 2 ^ 32"
  shows "\<exists>q s' bss'. srealloc rm p sz s = Some (q, s') \<and> salloc_rel rm s' bss'
    \<and> (\<forall>b. b \<noteq> p \<and> b \<noteq> q \<longrightarrow> regions bss' b = regions bss b \<and> (\<forall>x \<in> regions bss b. s_mem s' x = s_mem s x))
    \<and> (if q = 0 then regions bss' p = regions bss p \<and> (\<forall>x \<in> regions bss p. s_mem s' x = s_mem s x)
       else regions bss' p = {} \<and> {q..<q + sz} \<subseteq> regions bss' q \<and> (\<forall>i < s_get_actual_block_size (s_mem s) p. s_mem s' (q + i) = s_mem s (p + i)))"
  using assms by (rule srealloc_grow)

lemma full_heap_regions: "regions [[(0x10000, True), (0x10008, True), (0x10FF8, True)]] 0x10010 = {0x10010..<0x10FF8}"
  by (simp add: regions_def owned_def lessThan_Suc)

theorem srealloc_keeps_data_witness:
  "\<exists>q s'. srealloc board4k 0x10010 5000 full_heap = Some (q, s')"
proof -
  let ?bss = "[[(0x10000, True), (0x10008, True), (0x10FF8, True)]] :: blocks list"
  have r: "salloc_rel board4k full_heap ?bss" using board4k_ok full_heap_ok by (simp add: salloc_rel_def full_heap_def)
  have ne: "regions ?bss 0x10010 \<noteq> {}" by (simp only: full_heap_regions) simp
  have "{0x10010..<0x10010 + s_get_actual_block_size (s_mem full_heap) 0x10010} = {0x10010..<(0x10FF8 :: nat)}"
    using region_interval(1)[OF board4k_ok full_heap_ok ne] by (simp only: full_heap_regions)
  then have "card {0x10010..<0x10010 + s_get_actual_block_size (s_mem full_heap) 0x10010} = card {0x10010..<(0x10FF8 :: nat)}" by (rule arg_cong)
  then have "s_get_actual_block_size (s_mem full_heap) 0x10010 < 5000" by simp
  from srealloc_keeps_data[OF r ne this] show ?thesis by auto
qed

text \<open>\<^verbatim>\<open>scalloc\<close> returns a block whose \<^verbatim>\<open>nmemb * size\<close> bytes are all zero, or NULL, and leaves the other
  blocks as they are, when the product does not wrap.\<close>

theorem scalloc_zeroes:
  assumes r: "salloc_rel rm s bss" and n: "0 < nmemb * sz" "nmemb * sz + 15 < 2 ^ 32"
  shows "\<exists>a s' bss'. scalloc rm nmemb sz s = Some (a, s') \<and> salloc_rel rm s' bss'
    \<and> (a \<noteq> 0 \<longrightarrow> regions bss a = {} \<and> {a..<a + nmemb * sz} \<subseteq> regions bss' a \<and> (\<forall>x \<in> {a..<a + nmemb * sz}. s_mem s' x = 0))
    \<and> (\<forall>b. b \<noteq> a \<longrightarrow> regions bss' b = regions bss b \<and> (\<forall>x \<in> regions bss b. s_mem s' x = s_mem s x))"
proof -
  obtain a s1 bss' where m: "smalloc rm (nmemb * sz) s = Some (a, s1)" "salloc_rel rm s1 bss'" "\<forall>b. \<forall>x \<in> regions bss b. s_mem s1 x = s_mem s x"
    "\<forall>b. b \<noteq> a \<longrightarrow> regions bss' b = regions bss b"
    "if a = 0 then regions bss' 0 = regions bss 0 else regions bss a = {} \<and> {a..<a + nmemb * sz} \<subseteq> regions bss' a"
    using smalloc_regions[OF r n] by blast
  define s' where "s' = (if a \<noteq> 0 then s1\<lparr>s_mem := (\<lambda>x. if a \<le> x \<and> x < a + nmemb * sz then 0 else s_mem s1 x)\<rparr> else s1)"
  have "(nmemb * sz) mod 2 ^ 32 = nmemb * sz" using n(2) by (intro mod_less) simp
  then have sc: "scalloc rm nmemb sz s = Some (a, s')" using m(1) by (simp only: scalloc_def s'_def) simp
  have r': "salloc_rel rm s' bss'"
    unfolding s'_def by (cases "a = 0") (use m(2,5) in \<open>auto intro!: salloc_rel_write[of rm s1 bss' a]\<close>)
  have "s_mem s' x = s_mem s x" if "b \<noteq> a" "x \<in> regions bss b" for b x
  proof -
    have "x \<in> regions bss' b" using m(4) that by simp
    then have "x \<notin> regions bss' a" using sa.own_disjoint[OF m(2) that(1)] by blast
    then show ?thesis using m(3,5) that(2) by (auto simp: s'_def split: if_splits)
  qed
  then show ?thesis using sc r' m(4,5) by (intro exI[of _ a] exI[of _ s'] exI[of _ bss']) (auto simp: s'_def)
qed

theorem scalloc_zeroes_witness:
  "\<exists>a s'. scalloc board4k 10 12 boot_heap = Some (a, s') \<and> (a \<noteq> 0 \<longrightarrow> (\<forall>x \<in> {a..<a + 120}. s_mem s' x = 0))"
  using scalloc_zeroes[of board4k boot_heap "[]" 10 12] board4k_ok by (auto simp: salloc_rel_def boot_heap_def)

text \<open>A request of 2^32 - 8 bytes does not fail: adding the header wraps to a size of zero, the block found is split at its own
  address, becomes its own predecessor, and the walk over its free neighbours never ends.\<close>

theorem smalloc_wraparound_hangs:
  assumes ok: "spaces_ok rm" and i: "s_initialized s" and h: "heaps rm (s_mem s) (bs # bss)"
    and f: "frees bs \<noteq> []" "\<forall>(p, k) \<in> set (frees bs). 16 \<le> k"
  shows "smalloc rm (2 ^ 32 - 8) s = None"
proof -
  have "0 < length (mem_start rm)" and sp: "space (s_mem s) bs" "fst (hd bs) = unat (first_free rm 0)"
    using h by (auto simp: heaps_def in_space_def)
  then have "first_free rm 0 \<noteq> 0" using ok by (simp add: spaces_ok_def)
  then show ?thesis using get_free_block_hangs[OF sp(1) f] sp(2) i by (simp add: smalloc_def smalloc_from.simps[of rm _ 0])
qed

theorem smalloc_wraparound_hangs_witness: "smalloc board4k (2 ^ 32 - 8) (s_init board4k boot_heap) = None"
  by (rule smalloc_wraparound_hangs[OF board4k_ok _ board4k_init]) (simp_all add: s_init_def)

end
