(* ===== verification/Devman.thy ===== *)
theory Devman
  imports Elua_Prelude "HOL-Library.Monad_Syntax"
begin

text \<open>
  The device manager, \<^verbatim>\<open>src/newlib/devman.c\<close> and \<^verbatim>\<open>inc/newlib/devman.h\<close>: a table of at most
  \<^verbatim>\<open>DM_MAX_DEVICES\<close> named devices, each a structure of function pointers, in an array of which the first
  \<^verbatim>\<open>dm_num_devs\<close> slots are in use. A function pointer that may be NULL is an option. A device
  function acts on the reentrancy structure, that is the error code and the world the devices live in; its
  result is \<^const>\<open>None\<close> when the call does not return or is undefined, and so is a read through a NULL
  pointer. \<open>dm_entries\<close> is the list the array stands for; the locale \<open>device_table\<close> states what registering and
  unregistering promise of such a list.
\<close>

section \<open>Data\<close>

record 'w reent =
  reent_errno :: "errno option"
  world :: 'w

type_synonym ('w, 'a) devop = "'w reent \<Rightarrow> ('a \<times> 'w reent) option"

record dm_dirent =
  dirent_fsize :: u32
  dirent_fname :: "u8 list"
  dirent_ftime :: u32
  dirent_flags :: u8

record ('w, 'p, 'd) DM_DEVICE =
  p_open_r :: "(u8 list \<Rightarrow> u32 \<Rightarrow> int \<Rightarrow> 'p \<Rightarrow> ('w, int) devop) option"
  p_close_r :: "(int \<Rightarrow> 'p \<Rightarrow> ('w, int) devop) option"
  p_write_r :: "(int \<Rightarrow> u8 list \<Rightarrow> 'p \<Rightarrow> ('w, int) devop) option"
  p_read_r :: "(int \<Rightarrow> nat \<Rightarrow> 'p \<Rightarrow> ('w, int \<times> u8 list) devop) option"
  p_lseek_r :: "(int \<Rightarrow> int \<Rightarrow> u32 \<Rightarrow> 'p \<Rightarrow> ('w, int) devop) option"
  p_opendir_r :: "(u8 list \<Rightarrow> 'p \<Rightarrow> ('w, 'd option) devop) option"
  p_readdir_r :: "('d \<Rightarrow> 'p \<Rightarrow> ('w, dm_dirent option) devop) option"
  p_closedir_r :: "('d \<Rightarrow> 'p \<Rightarrow> ('w, int) devop) option"
  p_getaddr_r :: "(int \<Rightarrow> 'p \<Rightarrow> ('w, nat option) devop) option"
  p_mkdir_r :: "(u8 list \<Rightarrow> int \<Rightarrow> 'p \<Rightarrow> ('w, int) devop) option"
  p_unlink_r :: "(u8 list \<Rightarrow> 'p \<Rightarrow> ('w, int) devop) option"
  p_rmdir_r :: "(u8 list \<Rightarrow> 'p \<Rightarrow> ('w, int) devop) option"
  p_rename_r :: "(u8 list \<Rightarrow> u8 list \<Rightarrow> 'p \<Rightarrow> ('w, int) devop) option"

record ('w, 'p, 'd) DM_INSTANCE_DATA =
  dm_name :: "u8 list"
  dm_pdata :: 'p
  dm_pdev :: "('w, 'p, 'd) DM_DEVICE"

record 'd DM_DIR =
  dir_devid :: nat
  dir_userdata :: 'd

text \<open>The array is zero before a slot is written, which is \<^const>\<open>None\<close>.\<close>

record ('w, 'p, 'd) devman =
  dm_list :: "('w, 'p, 'd) DM_INSTANCE_DATA option list"
  dm_num_devs :: nat

datatype dm_error = DM_ERR_ALREADY_REGISTERED | DM_ERR_NOT_REGISTERED | DM_ERR_NO_SPACE
  | DM_ERR_INVALID_NAME | DM_ERR_NO_DEVICE | DM_ERR_INVALID_OPS

abbreviation "DM_MAX_DEVICES \<equiv> (16 :: nat)"
abbreviation "DM_MAX_DEV_NAME \<equiv> (12 :: nat)"
abbreviation "SLASH \<equiv> (0x2F :: u8)"

definition dm_empty :: "('w, 'p, 'd) devman" where
  "dm_empty = \<lparr>dm_list = replicate DM_MAX_DEVICES None, dm_num_devs = 0\<rparr>"

text \<open>A descriptor holds the number of the device above the 11 bits of the device's own descriptor.\<close>

definition DM_MAKE_DESC :: "int \<Rightarrow> int \<Rightarrow> int" where
  "DM_MAKE_DESC devid fd = push_bit 11 devid OR fd"

definition DM_GET_DEVID :: "int \<Rightarrow> int" where
  "DM_GET_DEVID desc = drop_bit 11 desc"

definition DM_GET_FD :: "int \<Rightarrow> int" where
  "DM_GET_FD desc = desc AND 0x7FF"

section \<open>The device table\<close>

text \<open>The first slot in use whose name equals the given one, up to case.\<close>

definition dm_slot_named :: "u8 list \<Rightarrow> ('w, 'p, 'd) DM_INSTANCE_DATA option \<Rightarrow> bool" where
  "dm_slot_named name e = (case e of None \<Rightarrow> False | Some d \<Rightarrow> strcasecmp_eq name (dm_name d))"

definition dm_index_of :: "u8 list \<Rightarrow> ('w, 'p, 'd) devman \<Rightarrow> nat option" where
  "dm_index_of name dm = find (\<lambda>i. dm_slot_named name (dm_list dm ! i)) [0..<dm_num_devs dm]"

definition dm_name_valid :: "u8 list \<Rightarrow> bool" where
  "dm_name_valid name \<longleftrightarrow> name \<noteq> [] \<and> hd name = SLASH \<and> length name \<le> DM_MAX_DEV_NAME"

definition dm_register ::
  "u8 list option \<Rightarrow> 'p \<Rightarrow> ('w, 'p, 'd) DM_DEVICE option \<Rightarrow> ('w, 'p, 'd) devman \<Rightarrow> (dm_error + nat) \<times> ('w, 'p, 'd) devman" where
  "dm_register name pdata pdev dm =
     (case pdev of
        None \<Rightarrow> (Inl DM_ERR_INVALID_OPS, dm)
      | Some dev \<Rightarrow>
          (case name of
             None \<Rightarrow> (Inl DM_ERR_INVALID_NAME, dm)
           | Some n \<Rightarrow>
               if \<not> dm_name_valid n then (Inl DM_ERR_INVALID_NAME, dm)
               else if dm_index_of n dm \<noteq> None then (Inl DM_ERR_ALREADY_REGISTERED, dm)
               else if dm_num_devs dm = DM_MAX_DEVICES then (Inl DM_ERR_NO_SPACE, dm)
               else (Inr (dm_num_devs dm),
                 dm\<lparr>dm_list := (dm_list dm)[dm_num_devs dm := Some \<lparr>dm_name = n, dm_pdata = pdata, dm_pdev = dev\<rparr>],
                    dm_num_devs := dm_num_devs dm + 1\<rparr>)))"

text \<open>The slots after the removed one move down by one (\<^verbatim>\<open>memmove\<close>).\<close>

definition dm_unregister :: "u8 list option \<Rightarrow> ('w, 'p, 'd) devman \<Rightarrow> (dm_error option \<times> ('w, 'p, 'd) devman) option" where
  "dm_unregister name dm =
     (case name of
        None \<Rightarrow> Some (Some DM_ERR_INVALID_NAME, dm)
      | Some n \<Rightarrow>
          if \<not> dm_name_valid n then Some (Some DM_ERR_INVALID_NAME, dm)
          else (case dm_index_of n dm of
                  None \<Rightarrow> Some (Some DM_ERR_NOT_REGISTERED, dm)
                | Some i \<Rightarrow>
                    do { l \<leftarrow> (if i \<noteq> dm_num_devs dm - 1
                           then do { s \<leftarrow> fetch (dm_list dm) (i + 1) (dm_num_devs dm - i - 1); blit (dm_list dm) i s }
                           else Some (dm_list dm));
                         Some (None, dm\<lparr>dm_list := l, dm_num_devs := dm_num_devs dm - 1\<rparr>) }))"

definition dm_get_instance_at :: "int \<Rightarrow> ('w, 'p, 'd) devman \<Rightarrow> ('w, 'p, 'd) DM_INSTANCE_DATA option" where
  "dm_get_instance_at idx dm = (if idx < 0 \<or> idx \<ge> int (dm_num_devs dm) then None else dm_list dm ! nat idx)"

definition dm_get_device_at :: "int \<Rightarrow> ('w, 'p, 'd) devman \<Rightarrow> ('w, 'p, 'd) DM_DEVICE option" where
  "dm_get_device_at idx dm = (if idx < 0 \<or> idx \<ge> int (dm_num_devs dm) then None else map_option dm_pdev (dm_list dm ! nat idx))"

definition dm_get_num_devices :: "('w, 'p, 'd) devman \<Rightarrow> nat" where
  "dm_get_num_devices dm = dm_num_devs dm"

text \<open>The longest name that starts the path: the loop keeps the position and the length of the best match.\<close>

definition dm_match_step :: "u8 list \<Rightarrow> ('w, 'p, 'd) devman \<Rightarrow> nat \<Rightarrow> nat \<times> nat \<Rightarrow> nat \<times> nat" where
  "dm_match_step name dm i = (\<lambda>(pos, matchlen).
     case dm_list dm ! i of
       None \<Rightarrow> (pos, matchlen)
     | Some d \<Rightarrow> if strncasecmp_eq name (dm_name d) (length (dm_name d)) \<and> length (dm_name d) > matchlen
                then (i, length (dm_name d)) else (pos, matchlen))"

definition dm_device_id_from_name :: "u8 list \<Rightarrow> ('w, 'p, 'd) devman \<Rightarrow> dm_error + nat \<times> u8 list" where
  "dm_device_id_from_name name dm =
     (let (pos, matchlen) = fold (dm_match_step name dm) [0..<dm_num_devs dm] (0, 0)
      in if matchlen = 0 then Inl DM_ERR_NO_DEVICE else Inr (pos, drop matchlen name))"

section \<open>Directories and addresses\<close>

text \<open>\<open>mem\<close> tells whether \<^verbatim>\<open>malloc\<close> finds memory for the descriptor.\<close>

definition set_errno :: "errno \<Rightarrow> 'w reent \<Rightarrow> 'w reent" where
  "set_errno e r = r\<lparr>reent_errno := Some e\<rparr>"

definition dm_opendir :: "bool \<Rightarrow> u8 list \<Rightarrow> ('w, 'p, 'd) devman \<Rightarrow> ('w, 'd DM_DIR option) devop" where
  "dm_opendir mem dirname dm r =
     (case dm_device_id_from_name dirname dm of
        Inl _ \<Rightarrow> Some (None, set_errno ENOSYS r)
      | Inr (pos, rest) \<Rightarrow>
          do { d \<leftarrow> dm_list dm ! pos;
               case p_opendir_r (dm_pdev d) of
                 None \<Rightarrow> Some (None, set_errno ENOSYS r)
               | Some f \<Rightarrow>
                   do { (data, r1) \<leftarrow> f rest (dm_pdata d) r;
                        Some (case data of
                            None \<Rightarrow> (None, r1)
                          | Some u \<Rightarrow> if \<not> mem then (None, set_errno ENOMEM r1)
                                      else (Some \<lparr>dir_devid = pos, dir_userdata = u\<rparr>, r1)) } })"

definition dm_readdir :: "'d DM_DIR \<Rightarrow> ('w, 'p, 'd) devman \<Rightarrow> ('w, dm_dirent option) devop" where
  "dm_readdir d dm r =
     (if dir_devid d \<ge> dm_num_devs dm then Some (None, set_errno EBADF r)
      else do { e \<leftarrow> dm_list dm ! dir_devid d;
                case p_readdir_r (dm_pdev e) of
                  None \<Rightarrow> Some (None, set_errno EBADF r)
                | Some f \<Rightarrow> f (dir_userdata d) (dm_pdata e) r })"

definition dm_closedir :: "'d DM_DIR \<Rightarrow> ('w, 'p, 'd) devman \<Rightarrow> ('w, int) devop" where
  "dm_closedir d dm r =
     (if dir_devid d \<ge> dm_num_devs dm then Some (-1, set_errno EBADF r)
      else do { e \<leftarrow> dm_list dm ! dir_devid d;
                case p_closedir_r (dm_pdev e) of
                  None \<Rightarrow> Some (-1, set_errno EBADF r)
                | Some f \<Rightarrow> f (dir_userdata d) (dm_pdata e) r })"

definition dm_getaddr :: "int \<Rightarrow> ('w, 'p, 'd) devman \<Rightarrow> ('w, nat option) devop" where
  "dm_getaddr fd dm r =
     (case dm_get_instance_at (DM_GET_DEVID fd) dm of
        None \<Rightarrow> Some (None, set_errno ENOSYS r)
      | Some pinst \<Rightarrow>
          (case p_getaddr_r (dm_pdev pinst) of
             None \<Rightarrow> Some (None, set_errno ENOSYS r)
           | Some f \<Rightarrow> f (DM_GET_FD fd) (dm_pdata pinst) r))"

section \<open>The table as a list\<close>

definition dm_entries :: "('w, 'p, 'd) devman \<Rightarrow> ('w, 'p, 'd) DM_INSTANCE_DATA list" where
  "dm_entries dm = map the (take (dm_num_devs dm) (dm_list dm))"

definition names_distinct :: "u8 list list \<Rightarrow> bool" where
  "names_distinct ns \<longleftrightarrow> distinct (map (map to_lower) ns)"

definition dm_inv :: "('w, 'p, 'd) devman \<Rightarrow> bool" where
  "dm_inv dm \<longleftrightarrow> length (dm_list dm) = DM_MAX_DEVICES \<and> dm_num_devs dm \<le> DM_MAX_DEVICES
     \<and> (\<forall>i < dm_num_devs dm. dm_list dm ! i \<noteq> None)
     \<and> (\<forall>e \<in> set (dm_entries dm). dm_name_valid (dm_name e))
     \<and> names_distinct (map dm_name (dm_entries dm))"

lemma names_distinct_nth:
  assumes "names_distinct ns" "i < length ns" "j < length ns" "strcasecmp_eq (ns ! i) (ns ! j)"
  shows "i = j"
  using assms nth_eq_iff_index_eq [of "map (map to_lower) ns" i j] by (simp add: names_distinct_def strcasecmp_eq_def)

lemma names_distinct_snoc:
  "names_distinct (ns @ [n]) \<longleftrightarrow> names_distinct ns \<and> (\<forall>m \<in> set ns. \<not> strcasecmp_eq n m)"
  by (auto simp: names_distinct_def strcasecmp_eq_def)

lemma names_distinct_remove:
  assumes "names_distinct ns"
  shows "names_distinct (take i ns @ drop (Suc i) ns)"
proof -
  have "distinct (take i xs @ drop (Suc i) xs)" if d: "distinct xs" for xs :: "u8 list list"
    using d set_take_disj_set_drop_if_distinct [OF d, of i "Suc i"] by auto
  from this [of "map (map to_lower) ns"] assms show ?thesis
    by (simp add: names_distinct_def take_map drop_map)
qed

lemma find_unique:
  assumes "\<And>j. j < n \<Longrightarrow> P j \<Longrightarrow> j = i" "i < n" "P i"
  shows "find P [0..<n] = Some i"
proof -
  have "find P [0..<n] \<noteq> None" using assms(2,3) by (auto simp: find_None_iff)
  then obtain j where "find P [0..<n] = Some j" by auto
  moreover from this have "j < n" "P j" by (auto simp: find_Some_iff)
  ultimately show ?thesis using assms(1) by simp
qed

text \<open>What a table of named devices promises: lookups find the entry with the name, a new device is added at
  the end, a removed one leaves the others in their order.\<close>

locale device_table =
  fixes entries :: "'t \<Rightarrow> 'e list" and ename :: "'e \<Rightarrow> u8 list" and inv :: "'t \<Rightarrow> bool" and cap :: nat
    and valid :: "u8 list \<Rightarrow> bool" and index_of :: "u8 list \<Rightarrow> 't \<Rightarrow> nat option"
    and put :: "'e \<Rightarrow> 't \<Rightarrow> 't option" and remove :: "u8 list \<Rightarrow> 't \<Rightarrow> 't option"
  assumes distinct_names: "inv t \<Longrightarrow> names_distinct (map ename (entries t))"
    and index_none: "inv t \<Longrightarrow> index_of n t = None \<longleftrightarrow> (\<forall>e \<in> set (entries t). \<not> strcasecmp_eq n (ename e))"
    and index_some: "inv t \<Longrightarrow> index_of n t = Some i \<longleftrightarrow> i < length (entries t) \<and> strcasecmp_eq n (ename (entries t ! i))"
    and put_ok: "inv t \<Longrightarrow> valid (ename e) \<Longrightarrow> index_of (ename e) t = None \<Longrightarrow> length (entries t) < cap \<Longrightarrow>
      \<exists>t'. put e t = Some t' \<and> inv t' \<and> entries t' = entries t @ [e]"
    and put_fails: "inv t \<Longrightarrow> \<not> valid (ename e) \<or> index_of (ename e) t \<noteq> None \<or> length (entries t) = cap \<Longrightarrow> put e t = None"
    and remove_ok: "inv t \<Longrightarrow> valid n \<Longrightarrow> index_of n t = Some i \<Longrightarrow>
      \<exists>t'. remove n t = Some t' \<and> inv t' \<and> entries t' = take i (entries t) @ drop (Suc i) (entries t)"
begin

lemma put_found:
  assumes t: "inv t" "valid (ename e)" "index_of (ename e) t = None" "length (entries t) < cap" and p: "put e t = Some t'"
  shows "inv t'" "entries t' = entries t @ [e]"
    "index_of n t' = (if strcasecmp_eq n (ename e) then Some (length (entries t)) else index_of n t)"
proof -
  show i: "inv t'" and e: "entries t' = entries t @ [e]" using put_ok [OF t] p by auto
  show "index_of n t' = (if strcasecmp_eq n (ename e) then Some (length (entries t)) else index_of n t)"
  proof (cases "strcasecmp_eq n (ename e)")
    case True
    then show ?thesis using index_some [OF i, of n "length (entries t)"] e by simp
  next
    case False
    show ?thesis
    proof (cases "index_of n t")
      case None
      then have "index_of n t' = None" using index_none [OF i, of n] index_none [OF t(1), of n] e False by auto
      then show ?thesis using None False by simp
    next
      case (Some k)
      then have "k < length (entries t)" "strcasecmp_eq n (ename (entries t ! k))" using index_some [OF t(1)] by auto
      then have "index_of n t' = Some k" using index_some [OF i, of n k] e by (simp add: nth_append)
      then show ?thesis using Some False by simp
    qed
  qed
qed

lemma remove_found:
  assumes t: "inv t" "valid n" "index_of n t = Some i" and r: "remove n t = Some t'"
  shows "inv t'" "index_of n t' = None"
    "\<not> strcasecmp_eq m n \<Longrightarrow> index_of m t = Some k \<Longrightarrow> index_of m t' = Some (if k < i then k else k - 1)"
proof -
  show i: "inv t'" using remove_ok [OF t] r by auto
  have e: "entries t' = take i (entries t) @ drop (Suc i) (entries t)" using remove_ok [OF t] r by auto
  have at: "i < length (entries t)" "strcasecmp_eq n (ename (entries t ! i))" using index_some [OF t(1)] t(3) by auto
  have nth: "entries t' ! j = entries t ! (if j < i then j else Suc j)" if "j < length (entries t) - 1" for j
    using that at(1) by (auto simp: e nth_append)
  show "index_of n t' = None"
  proof -
    have "\<not> strcasecmp_eq n (ename (entries t' ! j))" if j: "j < length (entries t')" for j
    proof
      assume "strcasecmp_eq n (ename (entries t' ! j))"
      moreover have "j < length (entries t) - 1" using j at(1) by (simp add: e)
      ultimately have "(if j < i then j else Suc j) < length (entries t) \<and>
          strcasecmp_eq n (ename (entries t ! (if j < i then j else Suc j)))" using nth by auto
      then have "index_of n t = Some (if j < i then j else Suc j)" by (rule index_some [OF t(1), THEN iffD2])
      then show False using t(3) by (simp split: if_splits)
    qed
    then show ?thesis using index_none [OF i] by (metis in_set_conv_nth)
  qed
  show "index_of m t' = Some (if k < i then k else k - 1)" if m: "\<not> strcasecmp_eq m n" "index_of m t = Some k"
  proof -
    have k: "k < length (entries t)" "strcasecmp_eq m (ename (entries t ! k))" using index_some [OF t(1)] m(2) by auto
    then have "k \<noteq> i" using m(1) at(2) strcasecmp_eq_trans strcasecmp_eq_sym by blast
    define q where "q = (if k < i then k else k - 1)"
    have q: "q < length (entries t) - 1" "(if q < i then q else Suc q) = k" using k(1) at(1) \<open>k \<noteq> i\<close> by (auto simp: q_def)
    have "length (entries t') = length (entries t) - 1" using at(1) by (simp add: e)
    then have "q < length (entries t') \<and> strcasecmp_eq m (ename (entries t' ! q))" using k(2) nth [OF q(1)] q by simp
    then show ?thesis unfolding q_def [symmetric] by (rule index_some [OF i, THEN iffD2])
  qed
qed

end

section \<open>The device manager is a device table\<close>

lemma dm_invD:
  assumes "dm_inv dm"
  shows "length (dm_list dm) = DM_MAX_DEVICES" "dm_num_devs dm \<le> DM_MAX_DEVICES" "length (dm_entries dm) = dm_num_devs dm"
    "i < dm_num_devs dm \<Longrightarrow> dm_list dm ! i = Some (dm_entries dm ! i)"
proof -
  show l: "length (dm_list dm) = DM_MAX_DEVICES" "dm_num_devs dm \<le> DM_MAX_DEVICES"
    using assms by (simp_all add: dm_inv_def)
  then show "length (dm_entries dm) = dm_num_devs dm" by (simp add: dm_entries_def)
  show "dm_list dm ! i = Some (dm_entries dm ! i)" if "i < dm_num_devs dm"
    using that l assms by (simp add: dm_entries_def dm_inv_def)
qed

lemma dm_index_some:
  assumes "dm_inv dm"
  shows "dm_index_of n dm = Some i \<longleftrightarrow> i < length (dm_entries dm) \<and> strcasecmp_eq n (dm_name (dm_entries dm ! i))"
proof -
  note d = dm_invD [OF assms]
  have P: "dm_slot_named n (dm_list dm ! j) \<longleftrightarrow> strcasecmp_eq n (dm_name (dm_entries dm ! j))" if "j < dm_num_devs dm" for j
    using that d(4) by (simp add: dm_slot_named_def)
  show ?thesis
  proof
    assume "dm_index_of n dm = Some i"
    then have "i < dm_num_devs dm" "dm_slot_named n (dm_list dm ! i)" by (auto simp: dm_index_of_def find_Some_iff)
    then show "i < length (dm_entries dm) \<and> strcasecmp_eq n (dm_name (dm_entries dm ! i))" using P d(3) by simp
  next
    assume r: "i < length (dm_entries dm) \<and> strcasecmp_eq n (dm_name (dm_entries dm ! i))"
    have "j = i" if j: "j < dm_num_devs dm" "dm_slot_named n (dm_list dm ! j)" for j
    proof -
      have "strcasecmp_eq (dm_name (dm_entries dm ! j)) (dm_name (dm_entries dm ! i))"
        using P [OF j(1)] j(2) r strcasecmp_eq_sym strcasecmp_eq_trans by blast
      then show ?thesis
        using names_distinct_nth [of "map dm_name (dm_entries dm)" j i] assms r j(1) d(3) by (simp add: dm_inv_def)
    qed
    then show "dm_index_of n dm = Some i"
      unfolding dm_index_of_def by (rule find_unique) (use P r d(3) in auto)
  qed
qed

lemma dm_index_none:
  assumes "dm_inv dm"
  shows "dm_index_of n dm = None \<longleftrightarrow> (\<forall>e \<in> set (dm_entries dm). \<not> strcasecmp_eq n (dm_name e))"
proof (cases "dm_index_of n dm")
  case None
  then show ?thesis using dm_index_some [OF assms, of n] by (auto simp: in_set_conv_nth)
next
  case (Some i)
  then show ?thesis using dm_index_some [OF assms, of n i] nth_mem [of i "dm_entries dm"] by auto
qed

definition dm_put :: "('w, 'p, 'd) DM_INSTANCE_DATA \<Rightarrow> ('w, 'p, 'd) devman \<Rightarrow> ('w, 'p, 'd) devman option" where
  "dm_put e dm = (case dm_register (Some (dm_name e)) (dm_pdata e) (Some (dm_pdev e)) dm of
     (Inl _, _) \<Rightarrow> None | (Inr _, dm') \<Rightarrow> Some dm')"

definition dm_remove :: "u8 list \<Rightarrow> ('w, 'p, 'd) devman \<Rightarrow> ('w, 'p, 'd) devman option" where
  "dm_remove n dm = (case dm_unregister (Some n) dm of Some (None, dm') \<Rightarrow> Some dm' | _ \<Rightarrow> None)"

lemma dm_entries_snoc:
  assumes "dm_inv dm" "dm_num_devs dm < DM_MAX_DEVICES"
  shows "dm_entries (dm\<lparr>dm_list := (dm_list dm)[dm_num_devs dm := Some e], dm_num_devs := dm_num_devs dm + 1\<rparr>) = dm_entries dm @ [e]"
  using assms dm_invD(1) [OF assms(1)] by (simp add: dm_entries_def take_Suc_conv_app_nth)

lemma dm_put_ok:
  assumes inv: "dm_inv dm" and v: "dm_name_valid (dm_name e)" and n: "dm_index_of (dm_name e) dm = None"
    and room: "length (dm_entries dm) < DM_MAX_DEVICES"
  shows "\<exists>dm'. dm_put e dm = Some dm' \<and> dm_inv dm' \<and> dm_entries dm' = dm_entries dm @ [e]"
proof -
  define dm' where "dm' = dm\<lparr>dm_list := (dm_list dm)[dm_num_devs dm := Some e], dm_num_devs := dm_num_devs dm + 1\<rparr>"
  note d = dm_invD [OF inv]
  have "dm_num_devs dm < DM_MAX_DEVICES" using room d(3) by simp
  then have e: "dm_entries dm' = dm_entries dm @ [e]" unfolding dm'_def by (rule dm_entries_snoc [OF inv])
  have "dm_list dm' ! i \<noteq> None" if "i < dm_num_devs dm'" for i
    using that d(1,4) room d(3) by (cases "i = dm_num_devs dm") (auto simp: dm'_def nth_list_update)
  moreover have "names_distinct (map dm_name (dm_entries dm'))"
    using inv n dm_index_none [OF inv, of "dm_name e"] by (simp add: e names_distinct_snoc dm_inv_def)
  ultimately have "dm_inv dm'" using inv v d room unfolding dm_inv_def e by (auto simp: dm'_def)
  moreover have "dm_put e dm = Some dm'"
    using v n room d(3) by (cases e) (simp add: dm_put_def dm_register_def dm'_def)
  ultimately show ?thesis using e by blast
qed

lemma dm_remove_ok:
  assumes inv: "dm_inv dm" and v: "dm_name_valid n" and n: "dm_index_of n dm = Some i"
  shows "\<exists>dm'. dm_remove n dm = Some dm' \<and> dm_inv dm' \<and> dm_entries dm' = take i (dm_entries dm) @ drop (Suc i) (dm_entries dm)"
proof -
  note d = dm_invD [OF inv]
  have i: "i < dm_num_devs dm" using n dm_index_some [OF inv] d(3) by simp
  define k where "k = dm_num_devs dm"
  define l where "l = take i (dm_list dm) @ take (k - i - 1) (drop (i + 1) (dm_list dm)) @ drop (k - 1) (dm_list dm)"
  have len: "length l = DM_MAX_DEVICES" using i d(1,2) by (simp add: l_def k_def)
  have pre: "take (k - 1) l = take i (dm_list dm) @ drop (Suc i) (take k (dm_list dm))"
    using i d(1,2) by (simp add: l_def k_def drop_take)
  define dm' where "dm' = dm\<lparr>dm_list := l, dm_num_devs := k - 1\<rparr>"
  have "dm_remove n dm = Some dm'"
  proof (cases "i = k - 1")
    case True
    then have "l = dm_list dm" by (simp add: l_def)
    then have eq: "dm' = dm\<lparr>dm_num_devs := k - 1\<rparr>" by (simp add: dm'_def)
    show ?thesis unfolding eq using True v n by (simp add: dm_remove_def dm_unregister_def k_def)
  next
    case False
    then have "blit (dm_list dm) i (take (k - i - 1) (drop (i + 1) (dm_list dm))) = Some l"
      using i d(1,2) by (simp add: blit_def l_def k_def)
    moreover have "fetch (dm_list dm) (i + 1) (k - i - 1) = Some (take (k - i - 1) (drop (i + 1) (dm_list dm)))"
      using i d(1,2) by (simp add: fetch_def k_def)
    ultimately show ?thesis using False v n by (simp add: dm_remove_def dm_unregister_def dm'_def k_def)
  qed
  moreover have e: "dm_entries dm' = take i (dm_entries dm) @ drop (Suc i) (dm_entries dm)"
    using i pre by (simp add: dm_entries_def dm'_def take_map drop_map k_def min_def)
  moreover have "dm_inv dm'"
  proof -
    have "dm_list dm' ! j \<noteq> None" if "j < dm_num_devs dm'" for j
    proof -
      have "dm_list dm' ! j = take (k - 1) l ! j" using that by (simp add: dm'_def)
      also have "\<dots> = dm_list dm ! (if j < i then j else Suc j)"
        using that i d(1,2) unfolding pre by (auto simp: nth_append dm'_def k_def)
      finally show ?thesis using that i d(4) by (simp add: dm'_def k_def)
    qed
    moreover have "set (dm_entries dm') \<subseteq> set (dm_entries dm)"
      unfolding e using set_take_subset [of i "dm_entries dm"] set_drop_subset [of "Suc i" "dm_entries dm"] by auto
    moreover have "names_distinct (map dm_name (dm_entries dm'))"
      using names_distinct_remove [of "map dm_name (dm_entries dm)" i] inv by (simp add: e take_map drop_map dm_inv_def)
    ultimately show ?thesis using inv len i d(2) unfolding dm_inv_def by (auto simp: dm'_def k_def)
  qed
  ultimately show ?thesis by blast
qed

interpretation dmt: device_table dm_entries dm_name dm_inv DM_MAX_DEVICES dm_name_valid dm_index_of dm_put dm_remove
proof
  show "dm_inv t \<Longrightarrow> names_distinct (map dm_name (dm_entries t))" for t :: "('a, 'b, 'c) devman" by (simp add: dm_inv_def)
  show "dm_inv t \<Longrightarrow> \<not> dm_name_valid (dm_name e) \<or> dm_index_of (dm_name e) t \<noteq> None \<or> length (dm_entries t) = DM_MAX_DEVICES \<Longrightarrow>
      dm_put e t = None" for t :: "('a, 'b, 'c) devman" and e
    using dm_invD(3) [of t] by (auto simp: dm_put_def dm_register_def)
qed (fact dm_index_none dm_index_some dm_put_ok dm_remove_ok)+

lemma dm_register_ok:
  assumes inv: "dm_inv dm" and n: "dm_name_valid n" "\<forall>e \<in> set (dm_entries dm). \<not> strcasecmp_eq n (dm_name e)"
    and room: "length (dm_entries dm) < DM_MAX_DEVICES"
  shows "\<exists>dm'. dm_register (Some n) p (Some dev) dm = (Inr (length (dm_entries dm)), dm') \<and> dm_inv dm'
    \<and> dm_entries dm' = dm_entries dm @ [\<lparr>dm_name = n, dm_pdata = p, dm_pdev = dev\<rparr>]
    \<and> dm_index_of n dm' = Some (length (dm_entries dm))"
proof -
  define e where "e = \<lparr>dm_name = n, dm_pdata = p, dm_pdev = dev\<rparr>"
  have ok: "dm_name_valid (dm_name e)" "dm_index_of (dm_name e) dm = None" "length (dm_entries dm) < DM_MAX_DEVICES"
    using n room dm_index_none [OF inv] by (simp_all add: e_def)
  obtain dm' where 1: "dm_put e dm = Some dm'" "dm_inv dm'" "dm_entries dm' = dm_entries dm @ [e]"
    using dm_put_ok [OF inv ok] by blast
  moreover have "dm_index_of (dm_name e) dm' = Some (length (dm_entries dm))"
    using dmt.put_found(3) [OF inv ok 1(1), of "dm_name e"] by simp
  moreover have "dm_register (Some n) p (Some dev) dm = (Inr (length (dm_entries dm)), dm')"
    using 1(1) ok dm_invD(3) [OF inv] by (auto simp: dm_put_def dm_register_def e_def split: if_splits)
  ultimately show ?thesis by (auto simp: e_def)
qed

lemma dm_empty_inv: "dm_inv dm_empty" "dm_entries dm_empty = []"
  by (simp_all add: dm_inv_def dm_empty_def dm_entries_def names_distinct_def)

section \<open>Descriptors\<close>

lemma desc_parts:
  assumes "0 \<le> fd" "fd < 2048"
  shows "DM_GET_DEVID (DM_MAKE_DESC devid fd) = devid" "DM_GET_FD (DM_MAKE_DESC devid fd) = fd"
    "DM_MAKE_DESC devid fd = 2048 * devid + fd"
proof -
  have t: "take_bit 11 fd = fd" using assms by (simp add: take_bit_int_eq_self)
  have eq: "DM_MAKE_DESC devid fd = concat_bit 11 fd devid" by (simp add: DM_MAKE_DESC_def concat_bit_def t or.commute)
  show v: "DM_MAKE_DESC devid fd = 2048 * devid + fd" by (simp add: eq concat_bit_eq t push_bit_eq_mult)
  show "DM_GET_DEVID (DM_MAKE_DESC devid fd) = devid" using assms by (simp add: DM_GET_DEVID_def v drop_bit_eq_div)
  have "x AND 0x7FF = take_bit 11 x" for x :: int by (simp add: take_bit_eq_mask mask_eq_exp_minus_1)
  then show "DM_GET_FD (DM_MAKE_DESC devid fd) = fd" by (simp add: DM_GET_FD_def eq t take_bit_concat_bit_eq)
qed

section \<open>The search for a path\<close>

definition dm_matches :: "u8 list \<Rightarrow> ('w, 'p, 'd) DM_INSTANCE_DATA \<Rightarrow> bool" where
  "dm_matches path e \<longleftrightarrow> length (dm_name e) \<le> length path \<and> strcasecmp_eq (take (length (dm_name e)) path) (dm_name e)"

lemma dm_matches_same_length:
  assumes "dm_matches path e" "dm_matches path e'" "length (dm_name e) = length (dm_name e')"
  shows "strcasecmp_eq (dm_name e) (dm_name e')"
  using assms by (simp add: dm_matches_def strcasecmp_eq_def)

lemma dm_match_fold:
  assumes inv: "dm_inv dm" and k: "k \<le> dm_num_devs dm"
  shows "case fold (dm_match_step path dm) [0..<k] (0, 0) of (pos, m) \<Rightarrow>
     if m = 0 then \<forall>j < k. \<not> dm_matches path (dm_entries dm ! j)
     else pos < k \<and> dm_matches path (dm_entries dm ! pos) \<and> m = length (dm_name (dm_entries dm ! pos))
       \<and> (\<forall>j < k. j \<noteq> pos \<longrightarrow> dm_matches path (dm_entries dm ! j) \<longrightarrow> length (dm_name (dm_entries dm ! j)) < m)"
  using k
proof (induction k)
  case 0
  then show ?case by simp
next
  case (Suc k)
  define e where "e = dm_entries dm"
  obtain pos m where f: "fold (dm_match_step path dm) [0..<k] (0, 0) = (pos, m)" by fastforce
  have slot: "dm_list dm ! k = Some (e ! k)" unfolding e_def using dm_invD(4) [OF inv] Suc.prems by simp
  have "e ! k \<in> set e" unfolding e_def using dm_invD(3) [OF inv] Suc.prems by simp
  then have pos0: "0 < length (dm_name (e ! k))" using inv by (auto simp: dm_inv_def dm_name_valid_def e_def)
  have step: "fold (dm_match_step path dm) [0..<Suc k] (0, 0) =
      (if dm_matches path (e ! k) \<and> length (dm_name (e ! k)) > m then (k, length (dm_name (e ! k))) else (pos, m))"
    by (simp add: f dm_match_step_def slot strncasecmp_prefix dm_matches_def)
  have distinct: "length (dm_name (e ! k)) \<noteq> length (dm_name (e ! pos))"
    if "dm_matches path (e ! k)" "dm_matches path (e ! pos)" "pos < k"
  proof
    assume "length (dm_name (e ! k)) = length (dm_name (e ! pos))"
    then have "strcasecmp_eq (dm_name (e ! k)) (dm_name (e ! pos))" by (rule dm_matches_same_length [OF that(1,2)])
    then show False using names_distinct_nth [of "map dm_name e" k pos] inv that(3) Suc.prems dm_invD(3) [OF inv]
      by (simp add: e_def dm_inv_def)
  qed
  have IH: "if m = 0 then \<forall>j < k. \<not> dm_matches path (e ! j)
     else pos < k \<and> dm_matches path (e ! pos) \<and> m = length (dm_name (e ! pos))
       \<and> (\<forall>j < k. j \<noteq> pos \<longrightarrow> dm_matches path (e ! j) \<longrightarrow> length (dm_name (e ! j)) < m)"
    using Suc by (simp add: f e_def)
  show ?case unfolding step e_def [symmetric] using IH distinct pos0 by (auto simp: less_Suc_eq split: if_splits)
qed

section \<open>Examples\<close>

text \<open>A device that holds one file, and a table with two instances of it.\<close>

definition example_dev :: "(u8 list, nat, nat) DM_DEVICE" where
  "example_dev = \<lparr>p_open_r = Some (\<lambda>_ _ _ p r. Some (int p, r)), p_close_r = Some (\<lambda>_ _ r. Some (0, r)),
     p_write_r = Some (\<lambda>_ d _ r. Some (int (length d), r\<lparr>world := world r @ d\<rparr>)), p_read_r = Some (\<lambda>_ n _ r. Some ((int n, take n (world r)), r)),
     p_lseek_r = None, p_opendir_r = None, p_readdir_r = None, p_closedir_r = None, p_getaddr_r = None, p_mkdir_r = None,
     p_unlink_r = None, p_rmdir_r = None, p_rename_r = None\<rparr>"

definition example_inst :: "u8 list \<Rightarrow> nat \<Rightarrow> (u8 list, nat, nat) DM_INSTANCE_DATA" where
  "example_inst n p = \<lparr>dm_name = n, dm_pdata = p, dm_pdev = example_dev\<rparr>"

definition example_dm :: "(u8 list, nat, nat) devman" where
  "example_dm = \<lparr>dm_list = [Some (example_inst [0x2F, 0x61] 1), Some (example_inst [0x2F, 0x62] 2)] @ replicate 14 None, dm_num_devs = 2\<rparr>"

lemma example_dm_entries: "dm_entries example_dm = [example_inst [0x2F, 0x61] 1, example_inst [0x2F, 0x62] 2]"
  by (simp add: dm_entries_def example_dm_def)

lemma example_dm_inv: "dm_inv example_dm"
proof -
  have "\<forall>i < 2. dm_list example_dm ! i \<noteq> None" by (simp add: example_dm_def less_2_cases_iff)
  then show ?thesis unfolding dm_inv_def example_dm_entries
    by (simp add: example_dm_def example_inst_def dm_name_valid_def names_distinct_def to_lower_def)
qed

definition example_reent :: "u8 list reent" where
  "example_reent = \<lparr>reent_errno = None, world = [7, 8, 9]\<rparr>"

section \<open>Properties\<close>

text \<open>The array of the device manager implements an ordered table of devices with distinct names. Registering a device
  under a valid name that no device has (up to case) puts it at the end of a table that is not full and returns its
  index, and unregistering it restores the table; in every other case registering changes nothing and reports an error.\<close>

theorem dm_register_unregister:
  assumes inv: "dm_inv dm"
  shows "if dm_name_valid n \<and> (\<forall>e \<in> set (dm_entries dm). \<not> strcasecmp_eq n (dm_name e)) \<and> length (dm_entries dm) < DM_MAX_DEVICES
     then \<exists>dm' dm''. dm_register (Some n) p (Some dev) dm = (Inr (length (dm_entries dm)), dm') \<and> dm_inv dm'
       \<and> dm_entries dm' = dm_entries dm @ [\<lparr>dm_name = n, dm_pdata = p, dm_pdev = dev\<rparr>]
       \<and> dm_unregister (Some n) dm' = Some (None, dm'') \<and> dm_inv dm'' \<and> dm_entries dm'' = dm_entries dm
     else \<exists>err. dm_register (Some n) p (Some dev) dm = (Inl err, dm)"
proof (cases "dm_name_valid n \<and> (\<forall>e \<in> set (dm_entries dm). \<not> strcasecmp_eq n (dm_name e)) \<and> length (dm_entries dm) < DM_MAX_DEVICES")
  case True
  define e where "e = \<lparr>dm_name = n, dm_pdata = p, dm_pdev = dev\<rparr>"
  obtain dm' where 1: "dm_register (Some n) p (Some dev) dm = (Inr (length (dm_entries dm)), dm')" "dm_inv dm'"
      "dm_entries dm' = dm_entries dm @ [e]" "dm_index_of n dm' = Some (length (dm_entries dm))"
    using dm_register_ok [OF inv, of n p dev] True unfolding e_def by blast
  then obtain dm'' where "dm_remove n dm' = Some dm''" "dm_inv dm''" "dm_entries dm'' = dm_entries dm"
    using dm_remove_ok [OF 1(2) _ 1(4)] True by auto
  moreover from this have "dm_unregister (Some n) dm' = Some (None, dm'')"
    by (auto simp: dm_remove_def split: option.splits prod.splits)
  ultimately show ?thesis using True 1 by (auto simp: e_def)
next
  case False
  then have "\<not> dm_name_valid n \<or> dm_index_of n dm \<noteq> None \<or> dm_num_devs dm = DM_MAX_DEVICES"
    using dm_index_none [OF inv] dm_invD(2,3) [OF inv] by auto
  then have "\<exists>err. dm_register (Some n) p (Some dev) dm = (Inl err, dm)" by (auto simp: dm_register_def)
  then show ?thesis by (simp only: False if_False)
qed

text \<open>A directory path is resolved to the registered device with the longest name that starts the path, up to case, and to the rest
  of the path; it is unknown exactly if no name starts it.\<close>

theorem dm_longest_match:
  assumes inv: "dm_inv dm"
  shows "(dm_device_id_from_name path dm = Inr (pos, rest) \<longleftrightarrow> pos < length (dm_entries dm) \<and> dm_matches path (dm_entries dm ! pos)
       \<and> rest = drop (length (dm_name (dm_entries dm ! pos))) path
       \<and> (\<forall>j < length (dm_entries dm). j \<noteq> pos \<longrightarrow> dm_matches path (dm_entries dm ! j) \<longrightarrow>
            length (dm_name (dm_entries dm ! j)) < length (dm_name (dm_entries dm ! pos))))
    \<and> (dm_device_id_from_name path dm = Inl DM_ERR_NO_DEVICE \<longleftrightarrow> (\<forall>e \<in> set (dm_entries dm). \<not> dm_matches path e))"
proof -
  obtain p m where f: "fold (dm_match_step path dm) [0..<dm_num_devs dm] (0, 0) = (p, m)" by fastforce
  have F: "if m = 0 then \<forall>j < dm_num_devs dm. \<not> dm_matches path (dm_entries dm ! j)
     else p < dm_num_devs dm \<and> dm_matches path (dm_entries dm ! p) \<and> m = length (dm_name (dm_entries dm ! p))
       \<and> (\<forall>j < dm_num_devs dm. j \<noteq> p \<longrightarrow> dm_matches path (dm_entries dm ! j) \<longrightarrow> length (dm_name (dm_entries dm ! j)) < m)"
    using dm_match_fold [OF inv order_refl, of path] by (simp add: f)
  have res: "dm_device_id_from_name path dm = (if m = 0 then Inl DM_ERR_NO_DEVICE else Inr (p, drop m path))"
    by (simp add: dm_device_id_from_name_def f)
  have len: "length (dm_entries dm) = dm_num_devs dm" by (rule dm_invD(3) [OF inv])
  show ?thesis
  proof (cases "m = 0")
    case True
    then have "\<forall>j < dm_num_devs dm. \<not> dm_matches path (dm_entries dm ! j)" using F by simp
    then show ?thesis using True len by (auto simp: res in_set_conv_nth)
  next
    case False
    then have G: "p < dm_num_devs dm" "dm_matches path (dm_entries dm ! p)" "m = length (dm_name (dm_entries dm ! p))"
      "\<And>j. j < dm_num_devs dm \<Longrightarrow> j \<noteq> p \<Longrightarrow> dm_matches path (dm_entries dm ! j) \<Longrightarrow> length (dm_name (dm_entries dm ! j)) < m"
      using F by auto
    then have "dm_entries dm ! p \<in> set (dm_entries dm)" using len by simp
    moreover have "q = p" if q: "q < dm_num_devs dm" "dm_matches path (dm_entries dm ! q)"
      "\<forall>j < dm_num_devs dm. j \<noteq> q \<longrightarrow> dm_matches path (dm_entries dm ! j) \<longrightarrow> length (dm_name (dm_entries dm ! j)) < length (dm_name (dm_entries dm ! q))" for q
    proof (rule ccontr)
      assume "q \<noteq> p"
      then have "length (dm_name (dm_entries dm ! q)) < m" "m < length (dm_name (dm_entries dm ! q))"
        using G(4) [OF q(1) _ q(2)] q(3) G(1-3) by auto
      then show False by simp
    qed
    ultimately have uniq: "pos < dm_num_devs dm \<and> dm_matches path (dm_entries dm ! pos) \<and> rest = drop (length (dm_name (dm_entries dm ! pos))) path
       \<and> (\<forall>j < dm_num_devs dm. j \<noteq> pos \<longrightarrow> dm_matches path (dm_entries dm ! j) \<longrightarrow>
            length (dm_name (dm_entries dm ! j)) < length (dm_name (dm_entries dm ! pos))) \<longleftrightarrow> pos = p \<and> rest = drop m path"
      and some: "\<not> (\<forall>e \<in> set (dm_entries dm). \<not> dm_matches path e)"
      using G by (blast, blast)
    show ?thesis unfolding res len uniq using False some by auto
  qed
qed

theorem dm_register_unregister_witness:
  "\<exists>dm' dm''. dm_register (Some [0x2F, 0x63]) 3 (Some example_dev) example_dm = (Inr 2, dm')
    \<and> dm_unregister (Some [0x2F, 0x63]) dm' = Some (None, dm'') \<and> dm_entries dm'' = dm_entries example_dm"
  using dm_register_unregister [OF example_dm_inv, of "[0x2F, 0x63]" 3 example_dev]
  by (auto simp: example_dm_entries example_inst_def dm_name_valid_def strcasecmp_eq_def to_lower_def)

theorem dm_longest_match_witness:
  "dm_device_id_from_name [0x2F, 0x42, 0x2F] example_dm = Inr (1, [0x2F])"
proof -
  have "\<not> dm_matches [0x2F, 0x42, 0x2F] (example_inst [0x2F, 0x61] 1)" "dm_matches [0x2F, 0x42, 0x2F] (example_inst [0x2F, 0x62] 2)"
    by (simp_all add: dm_matches_def example_inst_def strcasecmp_eq_def to_lower_def)
  then show ?thesis
    using dm_longest_match [OF example_dm_inv, of "[0x2F, 0x42, 0x2F]" 1 "[0x2F]"]
    by (auto simp: example_dm_entries less_Suc_eq example_inst_def)
qed

end
