(* ===== verification/Stubs.thy ===== *)
theory Stubs
  imports Devman
begin

text \<open>
  The system calls of the C library, \<^verbatim>\<open>src/newlib/stubs.c\<close>: a path names a device and a file on it, a descriptor
  holds the number of the device and the device's own descriptor, and every call is passed on to the
  device's function. The functions on descriptors share one definition, \<open>dm_call\<close>, for the lines they
  share; a NULL instance is read without a test, which is \<^const>\<open>None\<close>. The locale \<open>dm_device\<close> is what the stubs
  need of a device: that its descriptors fit. The replacements of
  \<^verbatim>\<open>memcpy\<close> and \<^verbatim>\<open>strcmp\<close> for AVR32 are here too.
\<close>

section \<open>Paths\<close>

definition find_dm_entry :: "u8 list option \<Rightarrow> ('w, 'p, 'd) devman \<Rightarrow> (nat \<times> u8 list) option" where
  "find_dm_entry name dm =
     (case name of
        None \<Rightarrow> None
      | Some n \<Rightarrow>
          if n = [] \<or> hd n \<noteq> SLASH then None
          else let dev = takeWhile (\<lambda>c. c \<noteq> SLASH) (tl n);
                   preal = dropWhile (\<lambda>c. c \<noteq> SLASH) (tl n)
               in do { (tempname, preal) \<leftarrow>
                         (if preal = [] then Some ([SLASH], n)
                          else if length dev + 1 > DM_MAX_DEV_NAME \<or> length dev + 1 = 1 then None
                          else Some (SLASH # dev, preal));
                       i \<leftarrow> dm_index_of tempname dm;
                       if tl preal = [] then None else Some (i, tl preal) })"

definition open_r :: "u8 list option \<Rightarrow> u32 \<Rightarrow> int \<Rightarrow> ('w, 'p, 'd) devman \<Rightarrow> ('w, int) devop" where
  "open_r name flags mode dm r =
     (case find_dm_entry name dm of
        None \<Rightarrow> Some (-1, set_errno ENODEV r)
      | Some (devid, actname) \<Rightarrow>
          do { pinst \<leftarrow> dm_get_instance_at (int devid) dm;
               case p_open_r (dm_pdev pinst) of
                 None \<Rightarrow> Some (-1, set_errno ENOSYS r)
               | Some f \<Rightarrow>
                   do { (res, r1) \<leftarrow> f actname flags mode (dm_pdata pinst) r;
                        Some (if res < 0 then res else DM_MAKE_DESC (int devid) res, r1) } })"

definition open_file :: "u8 list option \<Rightarrow> u32 \<Rightarrow> int \<Rightarrow> ('w, 'p, 'd) devman \<Rightarrow> ('w, int) devop" where
  "open_file name flags mode dm r = open_r name flags 0 dm r"

text \<open>The functions that take a path and hand the rest of it to the device.\<close>

definition mkdir_r :: "u8 list option \<Rightarrow> int \<Rightarrow> ('w, 'p, 'd) devman \<Rightarrow> ('w, int) devop" where
  "mkdir_r path mode dm r =
     (case find_dm_entry path dm of
        None \<Rightarrow> Some (-1, set_errno ENODEV r)
      | Some (devid, actname) \<Rightarrow>
          do { pinst \<leftarrow> dm_get_instance_at (int devid) dm;
               case p_mkdir_r (dm_pdev pinst) of
                 None \<Rightarrow> Some (-1, set_errno EPERM r)
               | Some f \<Rightarrow> f (SLASH # actname) mode (dm_pdata pinst) r })"

definition unlink_r :: "u8 list option \<Rightarrow> ('w, 'p, 'd) devman \<Rightarrow> ('w, int) devop" where
  "unlink_r fname dm r =
     (case find_dm_entry fname dm of
        None \<Rightarrow> Some (-1, set_errno ENODEV r)
      | Some (devid, actname) \<Rightarrow>
          do { pinst \<leftarrow> dm_get_instance_at (int devid) dm;
               case p_unlink_r (dm_pdev pinst) of
                 None \<Rightarrow> Some (-1, set_errno ENOSYS r)
               | Some f \<Rightarrow> f actname (dm_pdata pinst) r })"

definition rmdir :: "u8 list option \<Rightarrow> ('w, 'p, 'd) devman \<Rightarrow> ('w, int) devop" where
  "rmdir path dm r =
     (case find_dm_entry path dm of
        None \<Rightarrow> Some (-1, set_errno ENODEV r)
      | Some (devid, actname) \<Rightarrow>
          do { pinst \<leftarrow> dm_get_instance_at (int devid) dm;
               case p_rmdir_r (dm_pdev pinst) of
                 None \<Rightarrow> Some (-1, set_errno ENOSYS r)
               | Some f \<Rightarrow> f actname (dm_pdata pinst) r })"

definition rename_r :: "u8 list option \<Rightarrow> u8 list option \<Rightarrow> ('w, 'p, 'd) devman \<Rightarrow> ('w, int) devop" where
  "rename_r oldname newname dm r =
     (case find_dm_entry oldname dm of
        None \<Rightarrow> Some (-1, set_errno ENODEV r)
      | Some (devid_old, actname_old) \<Rightarrow>
          (case find_dm_entry newname dm of
             None \<Rightarrow> Some (-1, set_errno ENODEV r)
           | Some (devid_new, actname_new) \<Rightarrow>
               if devid_old = devid_new
               then do { pinst \<leftarrow> dm_get_instance_at (int devid_old) dm;
                         case p_rename_r (dm_pdev pinst) of
                           None \<Rightarrow> Some (-1, set_errno EPERM r)
                         | Some f \<Rightarrow> f actname_old actname_new (dm_pdata pinst) r }
               else Some (-1, set_errno EXDEV r)))"

section \<open>Descriptors\<close>

text \<open>The instance of a descriptor's device, its function \<open>op\<close> if there is one, and the call with the
  device's descriptor; \<open>err\<close> is the result with \<^verbatim>\<open>ENOSYS\<close>.\<close>

definition dm_call ::
  "(('w, 'p, 'd) DM_DEVICE \<Rightarrow> 'f option) \<Rightarrow> ('f \<Rightarrow> int \<Rightarrow> 'p \<Rightarrow> ('w, 'a) devop) \<Rightarrow> 'a \<Rightarrow> int \<Rightarrow> ('w, 'p, 'd) devman \<Rightarrow> ('w, 'a) devop" where
  "dm_call op run err file dm r =
     do { pinst \<leftarrow> dm_get_instance_at (DM_GET_DEVID file) dm;
          case op (dm_pdev pinst) of
            None \<Rightarrow> Some (err, set_errno ENOSYS r)
          | Some f \<Rightarrow> run f (DM_GET_FD file) (dm_pdata pinst) r }"

definition close_r :: "int \<Rightarrow> ('w, 'p, 'd) devman \<Rightarrow> ('w, int) devop" where
  "close_r file = dm_call p_close_r (\<lambda>f. f) (-1) file"

definition lseek_r :: "int \<Rightarrow> int \<Rightarrow> u32 \<Rightarrow> ('w, 'p, 'd) devman \<Rightarrow> ('w, int) devop" where
  "lseek_r file off whence = dm_call p_lseek_r (\<lambda>f fd. f fd off whence) (-1) file"

definition read_r :: "int \<Rightarrow> nat \<Rightarrow> ('w, 'p, 'd) devman \<Rightarrow> ('w, int \<times> u8 list) devop" where
  "read_r file len = dm_call p_read_r (\<lambda>f fd. f fd len) (-1, []) file"

definition write_r :: "int \<Rightarrow> u8 list \<Rightarrow> ('w, 'p, 'd) devman \<Rightarrow> ('w, int) devop" where
  "write_r file data = dm_call p_write_r (\<lambda>f fd. f fd data) (-1) file"

text \<open>Only the three standard streams have a status: they are character devices (\<open>True\<close>).\<close>

definition fstat_r :: "int \<Rightarrow> 'w reent \<Rightarrow> (int \<times> bool) \<times> 'w reent" where
  "fstat_r file r = (if 0 \<le> file \<and> file \<le> 2 then ((0, True), r) else ((-1, False), set_errno ENOSYS r))"

section \<open>Replacements of the string functions\<close>

text \<open>Byte by byte; \<open>len\<close> counts down. Strings are read up to and including their terminator; reading past it is
  undefined.\<close>

fun avr32_memcpy :: "u8 list \<Rightarrow> nat \<Rightarrow> u8 list \<Rightarrow> nat \<Rightarrow> nat \<Rightarrow> u8 list option" where
  "avr32_memcpy dst d src s 0 = Some dst"
| "avr32_memcpy dst d src s (Suc len) =
     (if d < length dst \<and> s < length src then avr32_memcpy (dst[d := src ! s]) (d + 1) src (s + 1) len else None)"

fun avr32_strcmp :: "u8 list \<Rightarrow> u8 list \<Rightarrow> int option" where
  "avr32_strcmp (a # s1) (b # s2) =
     (if a = b then (if a = 0 then Some 0 else avr32_strcmp s1 s2)
      else if a = 0 then Some (-1)
      else if b = 0 then Some 1
      else Some (uint a - uint b))"
| "avr32_strcmp _ _ = None"

section \<open>Lemmas\<close>

lemma find_dm_entry_path:
  assumes "SLASH \<notin> set dev" "dev \<noteq> []" "length dev < DM_MAX_DEV_NAME" "fname \<noteq> []"
  shows "find_dm_entry (Some (SLASH # dev @ SLASH # fname)) dm = map_option (\<lambda>i. (i, fname)) (dm_index_of (SLASH # dev) dm)"
proof -
  have "takeWhile (\<lambda>c. c \<noteq> SLASH) (dev @ SLASH # fname) = dev" "dropWhile (\<lambda>c. c \<noteq> SLASH) (dev @ SLASH # fname) = SLASH # fname"
    using assms(1) by (induction dev) auto
  then show ?thesis using assms by (cases "dm_index_of (SLASH # dev) dm") (simp_all add: find_dm_entry_def)
qed

lemma find_dm_entry_root:
  assumes "SLASH \<notin> set fname" "fname \<noteq> []"
  shows "find_dm_entry (Some (SLASH # fname)) dm = map_option (\<lambda>i. (i, fname)) (dm_index_of [SLASH] dm)"
proof -
  have "dropWhile (\<lambda>c. c \<noteq> SLASH) fname = []" using assms(1) by auto
  then show ?thesis using assms(2) by (cases "dm_index_of [SLASH] dm") (simp_all add: find_dm_entry_def)
qed

lemma find_dm_entry_index:
  assumes "dm_inv dm" "find_dm_entry name dm = Some (i, act)"
  shows "i < length (dm_entries dm)" "dm_get_instance_at (int i) dm = Some (dm_entries dm ! i)" "act \<noteq> []"
proof -
  obtain t where "dm_index_of t dm = Some i" and a: "act \<noteq> []"
    using assms(2) by (auto simp: find_dm_entry_def Let_def split: option.splits if_splits bind_splits)
  then show i: "i < length (dm_entries dm)" using dm_index_some [OF assms(1)] by simp
  show "dm_get_instance_at (int i) dm = Some (dm_entries dm ! i)"
    using i dm_invD(3,4) [OF assms(1)] by (simp add: dm_get_instance_at_def)
  show "act \<noteq> []" by (rule a)
qed

lemma dm_call_desc:
  assumes "dm_inv dm" "i < length (dm_entries dm)" "0 \<le> fd" "fd < 2048"
  shows "dm_call op run err (DM_MAKE_DESC (int i) fd) dm r =
    (case op (dm_pdev (dm_entries dm ! i)) of
       None \<Rightarrow> Some (err, set_errno ENOSYS r)
     | Some f \<Rightarrow> run f fd (dm_pdata (dm_entries dm ! i)) r)"
  using assms(2) dm_invD(3,4) [OF assms(1)]
  by (simp add: dm_call_def desc_parts(1,2) [OF assms(3,4)] dm_get_instance_at_def cong: option.case_cong)

lemma dm_call_no_instance:
  assumes "dm_get_instance_at (DM_GET_DEVID file) dm = None"
  shows "dm_call op run err file dm r = None"
  by (simp add: dm_call_def assms)

lemmas stub_defs = close_r_def lseek_r_def read_r_def write_r_def

text \<open>What the stubs need of a device: a descriptor it returns fits into the 11 bits.\<close>

locale dm_device =
  fixes dev :: "('w, 'p, 'd) DM_DEVICE"
  assumes open_range: "p_open_r dev = Some f \<Longrightarrow> f path flags mode p r = Some (fd, r') \<Longrightarrow> fd < 2048"
begin

lemma open_call:
  assumes dm: "dm_inv dm" "find_dm_entry name dm = Some (i, act)" "dm_pdev (dm_entries dm ! i) = dev"
    and o: "open_r name flags mode dm r = Some (desc, r')" and desc: "0 \<le> desc"
    and op: "p_open_r dev = Some f"
  shows "\<exists>fd. 0 \<le> fd \<and> fd < 2048 \<and> desc = DM_MAKE_DESC (int i) fd \<and> f act flags mode (dm_pdata (dm_entries dm ! i)) r = Some (fd, r')"
proof -
  obtain res where 1: "f act flags mode (dm_pdata (dm_entries dm ! i)) r = Some (res, r')"
      "desc = (if res < 0 then res else DM_MAKE_DESC (int i) res)"
    using o find_dm_entry_index [OF dm(1,2)] by (auto simp: open_r_def dm op split: bind_splits)
  have "res < 2048" by (rule open_range [OF op 1(1)])
  then show ?thesis using 1 desc by (auto split: if_splits)
qed

end

lemma open_r_call:
  assumes "dm_inv dm" "find_dm_entry name dm = Some (i, act)" "p_open_r (dm_pdev (dm_entries dm ! i)) = Some f"
    "f act flags mode (dm_pdata (dm_entries dm ! i)) r = Some (fd, r')" "0 \<le> fd"
  shows "open_r name flags mode dm r = Some (DM_MAKE_DESC (int i) fd, r')"
  using find_dm_entry_index [OF assms(1,2)] assms by (simp add: open_r_def)

lemma strcmp_terminated:
  assumes "0 \<notin> set a" "0 \<notin> set b"
  shows "\<exists>k. avr32_strcmp (a @ [0]) (b @ [0]) = Some k
    \<and> (k = 0 \<longleftrightarrow> a = b) \<and> (k < 0 \<longleftrightarrow> (a, b) \<in> lexord {(x, y). x < y})"
  using assms
proof (induction a arbitrary: b)
  case Nil
  then show ?case by (cases b) auto
next
  case (Cons x a)
  then show ?case
  proof (cases b)
    case Nil
    then show ?thesis using Cons.prems by auto
  next
    case b: (Cons y c)
    show ?thesis
    proof (cases "x = y")
      case True
      then show ?thesis using Cons.IH [of c] Cons.prems b by auto
    next
      case False
      then have "uint x \<noteq> uint y" by (simp add: word_uint_eq_iff)
      then show ?thesis using False Cons.prems b by (auto simp: word_less_def)
    qed
  qed
qed

lemma memcpy_exact:
  assumes "d + len \<le> length dst" "s + len \<le> length src"
  shows "avr32_memcpy dst d src s len = blit dst d (take len (drop s src))"
  using assms
proof (induction len arbitrary: dst d s)
  case 0
  then show ?case by (simp add: blit_def)
next
  case (Suc len)
  have "avr32_memcpy dst d src s (Suc len) = avr32_memcpy (dst[d := src ! s]) (d + 1) src (s + 1) len" using Suc.prems by simp
  also have "\<dots> = blit (dst[d := src ! s]) (d + 1) (take len (drop (s + 1) src))" using Suc.prems by (intro Suc.IH) simp_all
  also have "\<dots> = blit dst d (take (Suc len) (drop s src))"
  proof -
    have "length (take len (drop (s + 1) src)) = len" "take (Suc len) (drop s src) = src ! s # take len (drop (s + 1) src)"
      using Suc.prems Cons_nth_drop_Suc [of s src] by (auto simp: take_Suc_Cons dest: sym)
    moreover have "take (d + 1) (dst[d := src ! s]) = take d dst @ [src ! s]" "drop (d + 1 + len) (dst[d := src ! s]) = drop (d + 1 + len) dst"
      using Suc.prems by (simp_all add: take_Suc_conv_app_nth)
    ultimately show ?thesis using Suc.prems by (simp add: blit_def)
  qed
  finally show ?case .
qed

section \<open>Properties\<close>


text \<open>C15: The descriptor that opening a path returns addresses the file on the device that opened it: as long as the
  table is unchanged, closing, reading, writing and seeking call that device's function with its data and its own
  descriptor, or report \<^verbatim>\<open>ENOSYS\<close> if it has none. The descriptor fits into the 15 bits newlib keeps.\<close>

theorem stubs_dispatch:
  assumes inv: "dm_inv dm" and path: "SLASH \<notin> set name" "name \<noteq> []" "length name < DM_MAX_DEV_NAME" "fname \<noteq> []"
    and e: "e \<in> set (dm_entries dm)" "strcasecmp_eq (SLASH # name) (dm_name e)" "p_open_r (dm_pdev e) = Some f"
    and f: "f fname flags mode (dm_pdata e) r = Some (fd, r')" "0 \<le> fd" "fd < 2048"
  shows "\<exists>desc. open_r (Some (SLASH # name @ SLASH # fname)) flags mode dm r = Some (desc, r') \<and> 0 \<le> desc \<and> desc < 2 ^ 15
    \<and> (\<forall>s. close_r desc dm s = (case p_close_r (dm_pdev e) of
          None \<Rightarrow> Some (-1, set_errno ENOSYS s) | Some g \<Rightarrow> g fd (dm_pdata e) s))
    \<and> (\<forall>s len. read_r desc len dm s = (case p_read_r (dm_pdev e) of
          None \<Rightarrow> Some ((-1, []), set_errno ENOSYS s) | Some g \<Rightarrow> g fd len (dm_pdata e) s))
    \<and> (\<forall>s data. write_r desc data dm s = (case p_write_r (dm_pdev e) of
          None \<Rightarrow> Some (-1, set_errno ENOSYS s) | Some g \<Rightarrow> g fd data (dm_pdata e) s))
    \<and> (\<forall>s off whence. lseek_r desc off whence dm s = (case p_lseek_r (dm_pdev e) of
          None \<Rightarrow> Some (-1, set_errno ENOSYS s) | Some g \<Rightarrow> g fd off whence (dm_pdata e) s))"
proof -
  obtain i where i: "i < length (dm_entries dm)" "dm_entries dm ! i = e" using e(1) by (auto simp: in_set_conv_nth)
  then have "dm_index_of (SLASH # name) dm = Some i" using dm_index_some [OF inv] e(2) by simp
  then have fe: "find_dm_entry (Some (SLASH # name @ SLASH # fname)) dm = Some (i, fname)"
    using find_dm_entry_path [OF path, of dm] by simp
  have "open_r (Some (SLASH # name @ SLASH # fname)) flags mode dm r = Some (DM_MAKE_DESC (int i) fd, r')"
    using open_r_call [OF inv fe] i(2) e(3) f(1,2) by simp
  moreover have "0 \<le> DM_MAKE_DESC (int i) fd" "DM_MAKE_DESC (int i) fd < 2 ^ 15"
    using i(1) dm_invD(2,3) [OF inv] f(2,3) by (simp_all add: desc_parts(3) [OF f(2,3)])
  ultimately show ?thesis
    by (intro exI [of _ "DM_MAKE_DESC (int i) fd"]) (simp add: stub_defs dm_call_desc [OF inv i(1) f(2,3), unfolded i(2)])
qed

text \<open>A descriptor that names no registered device (a negative one, as a failed open returns, or one of a device that is gone) makes
  close, read, write and lseek read through a NULL pointer; asking for the address of such a file reports \<^verbatim>\<open>ENOSYS\<close>.\<close>

theorem stubs_unchecked_descriptor:
  assumes "desc < 0 \<or> 2048 * int (dm_num_devs dm) \<le> desc"
  shows "close_r desc dm r = None \<and> read_r desc len dm r = None \<and> write_r desc data dm r = None \<and> lseek_r desc off whence dm r = None
    \<and> dm_getaddr desc dm r = Some (None, set_errno ENOSYS r)"
proof -
  have "DM_GET_DEVID desc = desc div 2048" by (simp add: DM_GET_DEVID_def drop_bit_eq_div)
  then have "dm_get_instance_at (DM_GET_DEVID desc) dm = None" using assms by (auto simp: dm_get_instance_at_def)
  then show ?thesis by (simp add: stub_defs dm_call_no_instance dm_getaddr_def)
qed

text \<open>Unregistering a device moves the devices after it to smaller numbers: a descriptor that was open on one of them then reaches
  the device after it, and for the last device no device at all.\<close>

theorem stubs_stale_descriptor:
  assumes inv: "dm_inv dm" and n: "dm_name_valid n" "strcasecmp_eq n (dm_name (dm_entries dm ! i))" "i < j" "j < length (dm_entries dm)"
    and u: "dm_unregister (Some n) dm = Some (None, dm')" and fd: "0 \<le> fd" "fd < 2048"
  shows "write_r (DM_MAKE_DESC (int j) fd) data dm' r =
    (if Suc j < length (dm_entries dm) then write_r (DM_MAKE_DESC (int (Suc j)) fd) data dm r else None)"
proof -
  have "dm_index_of n dm = Some i" using dm_index_some [OF inv] n by simp
  moreover have "dm_remove n dm = Some dm'" using u by (simp add: dm_remove_def)
  ultimately have d: "dm_inv dm'" "dm_entries dm' = take i (dm_entries dm) @ drop (Suc i) (dm_entries dm)"
    using dm_remove_ok [OF inv n(1)] by auto
  show ?thesis
  proof (cases "Suc j < length (dm_entries dm)")
    case True
    then have "dm_entries dm' ! j = dm_entries dm ! Suc j" "j < length (dm_entries dm')" using n(3) by (auto simp: d(2) nth_append)
    then show ?thesis unfolding write_r_def by (simp only: dm_call_desc [OF d(1) _ fd] dm_call_desc [OF inv True fd] True if_True)
  next
    case False
    then have "dm_num_devs dm' = j" using n(3,4) dm_invD(3) [OF d(1)] d(2) by simp
    then have "dm_get_instance_at (DM_GET_DEVID (DM_MAKE_DESC (int j) fd)) dm' = None"
      by (simp add: desc_parts(1) [OF fd] dm_get_instance_at_def)
    then show ?thesis using False by (simp add: stub_defs dm_call_no_instance)
  qed
qed

text \<open>The replacement of strcmp orders strings as the library function does (zero exactly for equal strings, negative exactly
  for a smaller first one, comparing unsigned bytes), and that of memcpy copies exactly the block.\<close>

theorem avr32_string_functions:
  assumes "0 \<notin> set a" "0 \<notin> set b" and "d + len \<le> length dst" "s + len \<le> length src"
  shows "(\<exists>k. avr32_strcmp (a @ [0]) (b @ [0]) = Some k \<and> (k = 0 \<longleftrightarrow> a = b) \<and> (k < 0 \<longleftrightarrow> (a, b) \<in> lexord {(x, y). x < y}))
    \<and> avr32_memcpy dst d src s len = Some (take d dst @ take len (drop s src) @ drop (d + len) dst)"
proof -
  have "length (take len (drop s src)) = len" using assms(4) by simp
  then show ?thesis using strcmp_terminated [OF assms(1,2)] memcpy_exact [OF assms(3,4)] assms(3) by (simp only: blit_def if_True conj_assoc)
qed

theorem stubs_dispatch_witness:
  "\<exists>desc. open_r (Some [0x2F, 0x42, 0x2F, 0x78]) 0 0 example_dm example_reent = Some (desc, example_reent) \<and> 0 \<le> desc
    \<and> read_r desc 2 example_dm example_reent = Some ((2, [7, 8]), example_reent)"
  using stubs_dispatch [OF example_dm_inv, where name = "[0x42]" and fname = "[0x78]" and e = "example_inst [0x2F, 0x62] 2"
      and r = example_reent and fd = 2 and flags = 0 and mode = 0]
  by (simp add: example_dm_entries example_inst_def example_dev_def example_reent_def strcasecmp_eq_def to_lower_def) force

theorem stubs_unchecked_descriptor_witness:
  "close_r (-1) example_dm example_reent = None"
  using stubs_unchecked_descriptor [of "-1" example_dm example_reent] by simp

theorem stubs_stale_descriptor_witness:
  "\<exists>dm'. dm_unregister (Some [0x2F, 0x61]) example_dm = Some (None, dm') \<and> write_r (DM_MAKE_DESC 1 2) [5] dm' example_reent = None"
proof -
  have n: "dm_name_valid [0x2F, 0x61]" "strcasecmp_eq [0x2F, 0x61] (dm_name (dm_entries example_dm ! 0))"
    by (simp_all add: dm_name_valid_def example_dm_entries example_inst_def)
  then have "dm_index_of [0x2F, 0x61] example_dm = Some 0" using dm_index_some [OF example_dm_inv] by (simp add: example_dm_entries)
  then obtain dm' where "dm_unregister (Some [0x2F, 0x61]) example_dm = Some (None, dm')"
    using dm_remove_ok [OF example_dm_inv n(1)] by (auto simp: dm_remove_def split: option.splits prod.splits)
  then show ?thesis
    using stubs_stale_descriptor [OF example_dm_inv n, of 1 dm' 2 "[5]" example_reent] by (simp add: example_dm_entries)
qed

theorem avr32_string_functions_witness:
  "(\<exists>k. avr32_strcmp ([0x61, 0x80] @ [0]) ([0x61, 0x7F] @ [0]) = Some k \<and> \<not> k < 0 \<and> k \<noteq> 0)
    \<and> avr32_memcpy [1, 2, 3] 1 [4, 5] 0 2 = Some [1, 4, 5]"
  using avr32_string_functions [of "[0x61, 0x80]" "[0x61, 0x7F]" 1 2 "[1, 2, 3]" 0 "[4, 5]"] by auto

end
