(* ===== verification/Genstd.thy ===== *)
theory Genstd
  imports Devman
begin

text \<open>
  The console device, \<^verbatim>\<open>src/newlib/genstd.c\<close>: standard input with line editing and echo, standard output and error
  with a carriage return before each newline. The functions that send and get a character
  (\<^verbatim>\<open>std_send_char_func\<close>, \<^verbatim>\<open>std_get_char_func\<close>) are parameters, NULL before they are set; getting a character returns a negative
  number when none arrives. The buffer holds the characters up to the current position. \<open>line_edit\<close> is
  the reference: what a line becomes after editing.
\<close>

datatype std_timeout = STD_INFINITE_TIMEOUT | STD_INTER_CHAR_TIMEOUT

type_synonym 'w std_send = "int \<Rightarrow> u8 \<Rightarrow> 'w \<Rightarrow> 'w"
type_synonym 'w std_get = "std_timeout \<Rightarrow> 'w \<Rightarrow> int \<times> 'w"

record 'w std =
  std_prev_char :: int
  console :: 'w

abbreviation "STD_CTRLZ_CODE \<equiv> (26 :: int)"

definition isprint :: "int \<Rightarrow> bool" where
  "isprint c \<longleftrightarrow> 0x20 \<le> c \<and> c \<le> 0x7E"

section \<open>Reading and writing\<close>

definition std_erase :: "'w std_send \<Rightarrow> 'w \<Rightarrow> 'w" where
  "std_erase send w = send 1 8 (send 1 0x20 (send 1 8 w))"

partial_function (option) std_read_loop ::
  "'w std_send \<Rightarrow> 'w std_get \<Rightarrow> nat \<Rightarrow> u8 list \<Rightarrow> int \<Rightarrow> 'w \<Rightarrow> ((int \<times> u8 list) \<times> int \<times> 'w) option" where
  "std_read_loop send get len buf prev w =
     (if length buf \<ge> len then Some ((int (length buf), buf), prev, w)
      else let (c, w1) = (if prev \<noteq> -1 then (prev, w) else get STD_INFINITE_TIMEOUT w)
           in if prev = -1 \<and> c = -1 then Some ((int (length buf), buf), -1, w1)
              else if c = 8 \<or> c = 0x7F
              then std_read_loop send get len (butlast buf) (-1) (if length buf > 0 then std_erase send w1 else w1)
              else if \<not> isprint c \<and> c \<noteq> 10 \<and> c \<noteq> 13 \<and> c \<noteq> STD_CTRLZ_CODE then std_read_loop send get len buf (-1) w1
              else if c = STD_CTRLZ_CODE then Some ((0, []), -1, w1)
              else let w2 = send 1 (word_of_int c) w1
                   in if c = 13 \<or> c = 10
                      then let (p, w3) = get STD_INTER_CHAR_TIMEOUT w2
                           in Some ((int (length buf) + 1, buf @ [10]), (if p + c = 13 + 10 then -1 else p),
                                    send 1 (word_of_int (13 + 10 - c)) w3)
                      else std_read_loop send get len (buf @ [word_of_int c]) (-1) w2)"

definition std_read ::
  "'w std_send option \<Rightarrow> 'w std_get option \<Rightarrow> int \<Rightarrow> nat \<Rightarrow> 'p \<Rightarrow> ('w std, int \<times> u8 list) devop" where
  "std_read sendf getf fd len pdata r =
     (case (sendf, getf) of
        (Some send, Some get) \<Rightarrow>
          if fd < 0 \<or> fd > 2 then Some ((-1, []), set_errno EBADF r)
          else if fd \<noteq> 0 then Some ((-1, []), set_errno EINVAL r)
          else do { (res, prev, w) \<leftarrow> std_read_loop send get len [] (std_prev_char (world r)) (console (world r));
                    Some (res, r\<lparr>world := \<lparr>std_prev_char = prev, console = w\<rparr>\<rparr>) }
      | _ \<Rightarrow> Some ((-1, []), set_errno EBADF r))"

definition std_put :: "'w std_send \<Rightarrow> int \<Rightarrow> u8 \<Rightarrow> 'w \<Rightarrow> 'w" where
  "std_put send fd c w = send fd c (if c = 10 then send fd 13 w else w)"

definition std_write ::
  "'w std_send option \<Rightarrow> 'w std_get option \<Rightarrow> int \<Rightarrow> u8 list \<Rightarrow> 'p \<Rightarrow> ('w std, int) devop" where
  "std_write sendf getf fd data pdata r =
     (case (sendf, getf) of
        (Some send, Some get) \<Rightarrow>
          if fd < 0 \<or> fd > 2 then Some (-1, set_errno EBADF r)
          else if fd \<noteq> 1 \<and> fd \<noteq> 2 then Some (-1, set_errno EINVAL r)
          else Some (int (length data), r\<lparr>world := (world r)\<lparr>console := fold (std_put send fd) data (console (world r))\<rparr>\<rparr>)
      | _ \<Rightarrow> Some (-1, set_errno EBADF r))"

definition std_device :: "'w std_send option \<Rightarrow> 'w std_get option \<Rightarrow> ('w std, 'p, 'd) DM_DEVICE" where
  "std_device sendf getf = \<lparr>p_open_r = None, p_close_r = None, p_write_r = Some (std_write sendf getf),
     p_read_r = Some (std_read sendf getf), p_lseek_r = None, p_opendir_r = None, p_readdir_r = None, p_closedir_r = None,
     p_getaddr_r = None, p_mkdir_r = None, p_unlink_r = None, p_rmdir_r = None, p_rename_r = None\<rparr>"

section \<open>A terminal\<close>

text \<open>A console whose input is a list of received characters, -1 standing for a time without one, and whose output is the list of what was
  sent to each stream.\<close>

type_synonym terminal = "int list \<times> (int \<times> u8) list"

definition term_get :: "terminal std_get" where
  "term_get t w = (case fst w of [] \<Rightarrow> (-1, w) | c # cs \<Rightarrow> (c, cs, snd w))"

definition term_send :: "terminal std_send" where
  "term_send fd c w = (fst w, snd w @ [(fd, c)])"

text \<open>What has been received and not yet read: the lookahead character comes first.\<close>

definition unread :: "int \<Rightarrow> terminal \<Rightarrow> int list" where
  "unread prev w = (if prev = -1 then fst w else prev # fst w)"

fun line_edit :: "u8 list \<Rightarrow> int list \<Rightarrow> u8 list" where
  "line_edit buf [] = buf"
| "line_edit buf (c # cs) =
     (if c = 8 \<or> c = 0x7F then line_edit (butlast buf) cs
      else if isprint c then line_edit (buf @ [word_of_int c]) cs else line_edit buf cs)"

text \<open>After the end of a line the other end-of-line character is dropped, and so is a time without a character.\<close>

fun after_eol :: "int \<Rightarrow> int list \<Rightarrow> int list" where
  "after_eol e [] = []"
| "after_eol e (y # ys) = (if y = -1 \<or> y + e = 13 + 10 then ys else y # ys)"

lemma term_simps [simp]: "fst (term_send fd c w) = fst w" "fst (std_erase term_send w) = fst w"
  by (simp_all add: term_send_def std_erase_def)

lemma unread_next:
  assumes "unread prev w = c # cs" "c \<noteq> -1"
  shows "\<exists>w1. (if prev \<noteq> -1 then (prev, w) else term_get STD_INFINITE_TIMEOUT w) = (c, w1) \<and> fst w1 = cs"
  using assms by (cases w) (auto simp: unread_def term_get_def split: if_splits)

lemma read_loop_line:
  assumes "unread prev w = cs @ e # rest" "e = 13 \<or> e = 10" "\<forall>c \<in> set cs. 0 \<le> c \<and> c \<notin> {10, 13, 26}"
    and "\<forall>k \<le> length cs. length (line_edit buf (take k cs)) < len"
  shows "\<exists>prev' w'. std_read_loop term_send term_get len buf prev w =
      Some ((int (length (line_edit buf cs)) + 1, line_edit buf cs @ [10]), prev', w') \<and> unread prev' w' = after_eol e rest"
  using assms
proof (induction cs arbitrary: buf prev w)
  case Nil
  have e: "e \<noteq> -1" "e = 13 \<or> e = 10" and room: "length buf < len" using Nil by auto
  obtain w1 where w1: "(if prev \<noteq> -1 then (prev, w) else term_get STD_INFINITE_TIMEOUT w) = (e, w1)" "fst w1 = rest"
    using unread_next [of prev w e rest] Nil(1) e(1) by auto
  obtain p w3 where g: "term_get STD_INTER_CHAR_TIMEOUT (term_send 1 (word_of_int e) w1) = (p, w3)"
    by (cases "term_get STD_INTER_CHAR_TIMEOUT (term_send 1 (word_of_int e) w1)")
  have "unread (if p + e = 13 + 10 then -1 else p) (term_send 1 (word_of_int (13 + 10 - e)) w3) = after_eol e rest"
    using g w1(2) e(2) by (cases rest) (auto simp: term_get_def unread_def split: list.splits)
  moreover have "std_read_loop term_send term_get len buf prev w = Some ((int (length buf) + 1, buf @ [10]),
      (if p + e = 13 + 10 then -1 else p), term_send 1 (word_of_int (13 + 10 - e)) w3)"
    using room e g by (subst std_read_loop.simps) (auto simp: w1(1) isprint_def)
  ultimately show ?case by simp
next
  case (Cons c cs)
  have c: "0 \<le> c" "c \<noteq> 10" "c \<noteq> 13" "c \<noteq> 26" and room: "length buf < len" using Cons.prems(3,4) by force+
  obtain w1 where w1: "(if prev \<noteq> -1 then (prev, w) else term_get STD_INFINITE_TIMEOUT w) = (c, w1)" "fst w1 = cs @ e # rest"
    using unread_next [of prev w c "cs @ e # rest"] Cons.prems(1) c(1) by auto
  define buf' where "buf' = line_edit buf [c]"
  define w2 where "w2 = (if c = 8 \<or> c = 0x7F then (if length buf > 0 then std_erase term_send w1 else w1)
     else if isprint c then term_send 1 (word_of_int c) w1 else w1)"
  have step: "std_read_loop term_send term_get len buf prev w = std_read_loop term_send term_get len buf' (-1) w2"
    using room c by (subst std_read_loop.simps) (auto simp: w1(1) buf'_def w2_def)
  have "line_edit buf (take (Suc k) (c # cs)) = line_edit buf' (take k cs)" for k by (simp add: buf'_def)
  then have len: "\<forall>k \<le> length cs. length (line_edit buf' (take k cs)) < len"
    using Cons.prems(4) by (metis Suc_le_mono length_Cons)
  have "unread (-1) w2 = cs @ e # rest" using w1(2) by (simp add: unread_def w2_def)
  then have "\<exists>prev' w'. std_read_loop term_send term_get len buf' (-1) w2 =
      Some ((int (length (line_edit buf' cs)) + 1, line_edit buf' cs @ [10]), prev', w') \<and> unread prev' w' = after_eol e rest"
    using Cons.IH [OF _ Cons.prems(2) _ len] Cons.prems(3) by simp
  moreover have "line_edit buf (c # cs) = line_edit buf' cs" by (simp add: buf'_def)
  ultimately show ?case unfolding step by (simp only:)
qed

lemma std_put_terminal:
  "fold (std_put term_send fd) data w = (fst w, snd w @ concat (map (\<lambda>c. if c = 10 then [(fd, 13), (fd, 10)] else [(fd, c)]) data))"
  by (induction data arbitrary: w) (auto simp: std_put_def term_send_def)

section \<open>Properties\<close>

text \<open>Reading from the console returns the line that was typed: the characters up to the end of the line, with every backspace removing the
  character before it and unprintable characters ignored, and a newline. Lines may end in a carriage return, a
  newline or both in either order, and what was typed after the line is left for the next read.\<close>

theorem std_read_line:
  assumes "unread (std_prev_char (world r)) (console (world r)) = cs @ e # rest" "e = 13 \<or> e = 10"
    and "\<forall>c \<in> set cs. 0 \<le> c \<and> c \<notin> {10, 13, 26}" "\<forall>k \<le> length cs. length (line_edit [] (take k cs)) < len"
  shows "\<exists>r'. std_read (Some term_send) (Some term_get) 0 len pdata r =
      Some ((int (length (line_edit [] cs)) + 1, line_edit [] cs @ [10]), r')
    \<and> unread (std_prev_char (world r')) (console (world r')) = after_eol e rest \<and> reent_errno r' = reent_errno r"
  using read_loop_line [OF assms] by (auto simp: std_read_def)

theorem std_read_line_witness:
  "\<exists>r'. std_read (Some term_send) (Some term_get) 0 80 () \<lparr>reent_errno = None, world = \<lparr>std_prev_char = 0x61, console = ([0x62, 8, 0x63, 13, 10, 0x64], [])\<rparr>\<rparr> =
      Some ((3, [0x61, 0x63, 10]), r') \<and> unread (std_prev_char (world r')) (console (world r')) = [0x64]"
proof -
  have "\<forall>k \<le> length [0x61, 0x62, 8, 0x63 :: int]. length (line_edit [] (take k [0x61, 0x62, 8, 0x63])) < 80"
    by (auto simp: le_Suc_eq isprint_def)
  then show ?thesis
    using std_read_line [of "\<lparr>reent_errno = None, world = \<lparr>std_prev_char = 0x61, console = ([0x62, 8, 0x63, 13, 10, 0x64], [])\<rparr>\<rparr>"
        "[0x61, 0x62, 8, 0x63]" 13 "[10, 0x64]" 80 "()"] by (auto simp: unread_def isprint_def)
qed

end
