(* ===== verification/Flash.thy ===== *)
theory Flash
  imports Elua_Prelude "HOL-Library.Monad_Syntax"
begin

text \<open>
  Internal flash, \<^verbatim>\<open>src/common.c\<close>: finding sectors, the first free block after the image, and writes of any
  size and alignment on top of the platform's write of whole units. The memory is a list of bytes indexed by
  address. What programming a byte does to it is a parameter \<open>prog\<close>, applied to the old and the new value: on
  a NOR flash bits can only be cleared, in a file they are replaced. The lemmas show that a write touches
  the bytes of the buffer only, however they lie in the write units.
\<close>

section \<open>Sectors\<close>

datatype flash_sectors = INTERNAL_FLASH_SECTOR_SIZE u32 | INTERNAL_FLASH_SECTOR_ARRAY "u32 list"

fun flash_sector_walk :: "u32 list \<Rightarrow> u32 \<Rightarrow> u32 \<Rightarrow> nat \<Rightarrow> u32 \<times> nat" where
  "flash_sector_walk [] address tot i = (tot, i)"
| "flash_sector_walk (z # zs) address tot i =
     (if tot \<le> address then flash_sector_walk zs address (tot + z) (Suc i) else (tot, i))"

text \<open>The sector, its first and its last address. The array has at least one sector.\<close>

definition flashh_find_sector :: "u32 \<Rightarrow> flash_sectors \<Rightarrow> u32 \<Rightarrow> nat \<times> u32 \<times> u32" where
  "flashh_find_sector start sects addr =
     (let address = addr - start
      in case sects of
           INTERNAL_FLASH_SECTOR_SIZE z \<Rightarrow>
             let sect_id = address div z
             in (unat sect_id, sect_id * z + start, (sect_id + 1) * z + start - 1)
         | INTERNAL_FLASH_SECTOR_ARRAY zs \<Rightarrow>
             let (tot, i) = flash_sector_walk zs address 0 0
             in (i - 1, tot - zs ! (i - 1) + start, tot + start - 1))"

definition platform_flash_get_sector_of_address :: "u32 \<Rightarrow> flash_sectors \<Rightarrow> u32 \<Rightarrow> nat" where
  "platform_flash_get_sector_of_address start sects addr = fst (flashh_find_sector start sects addr)"

definition platform_flash_get_num_sectors :: "u32 \<Rightarrow> flash_sectors \<Rightarrow> nat" where
  "platform_flash_get_num_sectors flash_size sects =
     (case sects of INTERNAL_FLASH_SECTOR_SIZE z \<Rightarrow> unat (flash_size div z) | INTERNAL_FLASH_SECTOR_ARRAY zs \<Rightarrow> length zs)"

text \<open>The sector after the image and its address.\<close>

definition platform_flash_get_first_free_block_address :: "u32 \<Rightarrow> flash_sectors \<Rightarrow> u32 \<Rightarrow> nat \<times> u32" where
  "platform_flash_get_first_free_block_address start sects used =
     (let (sect, _, temp) = flashh_find_sector start sects (used + start - 1) in (sect + 1, temp + 1))"

section \<open>Programming\<close>

definition program :: "(u8 \<Rightarrow> u8 \<Rightarrow> u8) \<Rightarrow> u8 list \<Rightarrow> nat \<Rightarrow> u8 list \<Rightarrow> u8 list option" where
  "program prog data addr mem =
     (if addr + length data \<le> length mem
      then Some (take addr mem @ map2 prog (take (length data) (drop addr mem)) data @ drop (addr + length data) mem)
      else None)"

text \<open>The part of a write that starts at a unit: the whole units, then the rest in a unit of its own.\<close>

definition flash_write_aligned ::
  "nat \<Rightarrow> (u8 list \<Rightarrow> nat \<Rightarrow> u8 list \<Rightarrow> u8 list option) \<Rightarrow> u8 list \<Rightarrow> nat \<Rightarrow> u8 list \<Rightarrow> u8 list option" where
  "flash_write_aligned blksize s_write from toaddr mem =
     (let rest = length from AND (blksize - 1); temp = length from - rest
      in do { mem1 \<leftarrow> (if temp \<noteq> 0 then s_write (take temp from) toaddr mem else Some mem);
              if rest \<noteq> 0
              then do { tmpdata \<leftarrow> fetch mem1 (toaddr + temp) blksize;
                        s_write (take rest (drop temp from) @ drop rest tmpdata) (toaddr + temp) mem1 }
              else Some mem1 })"

definition platform_flash_write ::
  "nat \<Rightarrow> (u8 list \<Rightarrow> nat \<Rightarrow> u8 list \<Rightarrow> u8 list option) \<Rightarrow> u8 list \<Rightarrow> nat \<Rightarrow> u8 list \<Rightarrow> u8 list option" where
  "platform_flash_write blksize s_write from toaddr mem =
     (let rest = toaddr AND (blksize - 1); temp = toaddr - rest
      in if rest \<noteq> 0
         then do { tmpdata \<leftarrow> fetch mem temp blksize;
                   let n = min (length from) (blksize - rest);
                   mem1 \<leftarrow> s_write (take rest tmpdata @ take n from @ drop (rest + n) tmpdata) temp mem;
                   if n = length from then Some mem1
                   else flash_write_aligned blksize s_write (drop n from) (temp + blksize) mem1 }
         else flash_write_aligned blksize s_write from toaddr mem)"

section \<open>Lemmas\<close>

lemma nat_and_unit [mask_simps]: "(n :: nat) AND (2 ^ k - 1) = n mod 2 ^ k"
  using take_bit_eq_mask [of k n] by (simp add: take_bit_eq_mod mask_eq_exp_minus_1)

lemma length_program: "program prog d a m = Some m' \<Longrightarrow> length m' = length m"
  by (auto simp: program_def split: if_splits)

lemma program_nth:
  assumes "program prog d a m = Some m'" and "i < length m"
  shows "m' ! i = (if a \<le> i \<and> i < a + length d then prog (m ! i) (d ! (i - a)) else m ! i)"
  using assms by (auto simp: program_def nth_append min_def split: if_splits)

lemma program_eqI:
  assumes "program prog d a m = Some m'" and "length x = length m"
    and "\<And>i. i < length m \<Longrightarrow> x ! i = (if a \<le> i \<and> i < a + length d then prog (m ! i) (d ! (i - a)) else m ! i)"
  shows "x = m'"
  using assms length_program [OF assms(1)] program_nth [OF assms(1)] by (auto intro: nth_equalityI)

lemma program_Nil [simp]: "a \<le> length m \<Longrightarrow> program prog [] a m = Some m"
  by (simp add: program_def)

text \<open>Programming in two steps is programming at once.\<close>

lemma program_append:
  assumes "a + length d1 + length d2 \<le> length m"
  shows "program prog d1 a m \<bind> program prog d2 (a + length d1) = program prog (d1 @ d2) a m"
proof -
  obtain m1 where m1: "program prog d1 a m = Some m1" using assms by (auto simp: program_def)
  have l1: "length m1 = length m" by (rule length_program [OF m1])
  obtain m2 where m2: "program prog d2 (a + length d1) m1 = Some m2" using assms l1 by (auto simp: program_def)
  obtain m3 where m3: "program prog (d1 @ d2) a m = Some m3" using assms by (auto simp: program_def)
  have "m2 = m3"
    by (rule program_eqI [OF m3])
      (use length_program [OF m2] l1 program_nth [OF m2] program_nth [OF m1] in \<open>auto simp: nth_append\<close>)
  then show ?thesis using m1 m2 m3 by simp
qed

text \<open>Bytes that are programmed with the value they have do not change.\<close>

lemma program_padded:
  assumes same: "\<And>x. prog x x = x" and t: "fetch m a n = Some t" and r: "r + length d \<le> n"
  shows "program prog (take r t @ d @ drop (r + length d) t) a m = program prog d (a + r) m"
proof -
  from t have t': "a + n \<le> length m" "t = take n (drop a m)" by (auto simp: fetch_def split: if_splits)
  then have lt: "length t = n" "\<And>i. i < n \<Longrightarrow> t ! i = m ! (a + i)" by simp_all
  let ?d = "take r t @ d @ drop (r + length d) t"
  have ld: "length ?d = n" using lt r by simp
  obtain m1 where m1: "program prog ?d a m = Some m1" using t'(1) ld by (simp add: program_def)
  obtain m2 where m2: "program prog d (a + r) m = Some m2" using t'(1) r by (simp add: program_def)
  have "?d ! (i - a) = (if a + r \<le> i \<and> i < a + r + length d then d ! (i - (a + r)) else m ! i)" if "a \<le> i" "i < a + n" for i
    using that lt r by (auto simp: nth_append min_def)
  then have "m1 = m2"
    by (intro program_eqI [OF m2] length_program [OF m1])
      (use program_nth [OF m1] ld same r in auto)
  then show ?thesis using m1 m2 by simp
qed

lemma unit_room:
  fixes a n b :: nat
  assumes "a mod b = 0" and "n mod b = 0" and "a < n"
  shows "a + b \<le> n"
proof -
  obtain k j where "a = k * b" "n = j * b" using assms(1,2) by (metis mod_0_imp_dvd dvd_div_mult_self)
  moreover then have "Suc k \<le> j" using assms(3) by (simp add: Suc_le_eq)
  ultimately show ?thesis by (metis add.commute mult_Suc mult_le_mono1)
qed

lemma flash_write_aligned_exact:
  assumes law: "\<And>d a m. a mod 2 ^ k = 0 \<Longrightarrow> length d mod 2 ^ k = 0 \<Longrightarrow> s_write d a m = program prog d a m"
    and same: "\<And>x. prog x x = x"
    and a: "a mod 2 ^ k = 0" "length mem mod 2 ^ k = 0" "a + length from \<le> length mem"
  shows "flash_write_aligned (2 ^ k) s_write from a mem = program prog from a mem"
proof -
  define rest temp where "rest = length from mod 2 ^ k" and "temp = length from - rest"
  have lt: "temp + rest = length from" by (simp add: temp_def rest_def)
  have t0: "temp mod 2 ^ k = 0" by (simp add: temp_def rest_def minus_mod_eq_mult_div)
  have rb: "rest < 2 ^ k" by (simp add: rest_def)
  have take: "length (take temp from) = temp" using lt by simp
  obtain mem1 where m1: "program prog (take temp from) a mem = Some mem1"
    using a(3) lt by (simp add: program_def)
  have l1: "length mem1 = length mem" by (rule length_program [OF m1])
  have step1: "(if temp \<noteq> 0 then s_write (take temp from) a mem else Some mem) = Some mem1"
    using m1 law [OF a(1), of "take temp from" mem] t0 take a(3) by auto
  have eq: "flash_write_aligned (2 ^ k) s_write from a mem =
      (if rest \<noteq> 0 then do { tmpdata \<leftarrow> fetch mem1 (a + temp) (2 ^ k);
         s_write (take rest (drop temp from) @ drop rest tmpdata) (a + temp) mem1 } else Some mem1)"
    unfolding flash_write_aligned_def Let_def nat_and_unit rest_def [symmetric] temp_def [symmetric] step1 by simp
  show ?thesis
  proof (cases "rest = 0")
    case True
    then have "take temp from = from" using lt by simp
    then show ?thesis using True m1 unfolding eq by simp
  next
    case False
    have at0: "(a + temp) mod 2 ^ k = 0" using a(1) t0 by (simp add: mod_add_eq [symmetric])
    have room: "a + temp + 2 ^ k \<le> length mem1"
      using unit_room [OF at0, of "length mem1"] a lt False l1 by simp
    then obtain tmp where tmp: "fetch mem1 (a + temp) (2 ^ k) = Some tmp" "length tmp = 2 ^ k" by (simp add: fetch_def)
    let ?d = "drop temp from"
    have ld: "length ?d = rest" "take rest ?d = ?d" using lt by (simp_all add: temp_def)
    have "s_write (?d @ drop rest tmp) (a + temp) mem1 = program prog (?d @ drop rest tmp) (a + temp) mem1"
      by (rule law) (use at0 ld tmp rb in simp_all)
    also have "\<dots> = program prog ?d (a + temp) mem1"
      using program_padded [where prog = prog, OF same tmp(1), where r = 0 and d = ?d] ld rb by simp
    finally have "flash_write_aligned (2 ^ k) s_write from a mem =
        program prog (take temp from) a mem \<bind> program prog ?d (a + length (take temp from))"
      using False tmp(1) ld m1 take unfolding eq by simp
    also have "\<dots> = program prog (take temp from @ ?d) a mem"
      by (rule program_append) (use a(3) lt take ld in simp)
    finally show ?thesis by simp
  qed
qed

section \<open>Properties\<close>

text \<open>C31: A write to flash of any size, at any address, programs exactly the bytes of the buffer, although the flash
  itself is only written in whole aligned units. It is assumed that the platform's write programs the bytes
  it is given when address and size are multiples of the unit, and that programming a byte with its own value
  does not change it.\<close>

theorem flash_write_exact:
  assumes law: "\<And>d a m. a mod 2 ^ k = 0 \<Longrightarrow> length d mod 2 ^ k = 0 \<Longrightarrow> s_write d a m = program prog d a m"
    and same: "\<And>x. prog x x = x"
    and a: "length mem mod 2 ^ k = 0" "a + length from \<le> length mem" "from \<noteq> []"
  shows "platform_flash_write (2 ^ k) s_write from a mem = program prog from a mem"
proof (cases "a mod 2 ^ k = 0")
  case True
  have "flash_write_aligned (2 ^ k) s_write from a mem = program prog from a mem"
    by (rule flash_write_aligned_exact [where prog = prog]) (simp_all add: law same True a)
  then show ?thesis
    using True unfolding platform_flash_write_def Let_def nat_and_unit by simp
next
  case False
  define rest temp n where "rest = a mod 2 ^ k" and "temp = a - rest" and "n = min (length from) (2 ^ k - rest)"
  have rb: "rest < 2 ^ k" "rest \<noteq> 0" "temp + rest = a" "temp mod 2 ^ k = 0"
    using False by (simp_all add: rest_def temp_def minus_mod_eq_mult_div)
  have "temp < length mem" using a rb by (cases "from") auto
  then have room: "temp + 2 ^ k \<le> length mem" using unit_room [OF rb(4) a(1)] by simp
  then obtain tmp where tmp: "fetch mem temp (2 ^ k) = Some tmp" "length tmp = 2 ^ k" by (simp add: fetch_def)
  have ln: "length (take n from) = n" "rest + n \<le> 2 ^ k" using rb(1) by (simp_all add: n_def)
  have "a + n \<le> length mem" using a(2) by (simp add: n_def)
  then obtain mem1 where m1: "program prog (take n from) a mem = Some mem1" using ln(1) by (simp add: program_def)
  have "s_write (take rest tmp @ take n from @ drop (rest + n) tmp) temp mem =
      program prog (take rest tmp @ take n from @ drop (rest + n) tmp) temp mem"
    by (rule law) (use rb ln tmp in simp_all)
  also have "\<dots> = program prog (take n from) (temp + rest) mem"
    using program_padded [where prog = prog, OF same tmp(1), where r = rest and d = "take n from"] ln by simp
  finally have w: "s_write (take rest tmp @ take n from @ drop (rest + n) tmp) temp mem = Some mem1" using m1 rb(3) by simp
  have pw: "platform_flash_write (2 ^ k) s_write from a mem =
      (if n = length from then Some mem1 else flash_write_aligned (2 ^ k) s_write (drop n from) (temp + 2 ^ k) mem1)"
    using rb(2) tmp(1) w
    unfolding platform_flash_write_def Let_def nat_and_unit rest_def [symmetric] temp_def [symmetric] n_def [symmetric] by simp
  show ?thesis
  proof (cases "n = length from")
    case True
    then show ?thesis using pw m1 by simp
  next
    case False
    then have "n = 2 ^ k - rest" by (auto simp: n_def min_def split: if_splits)
    then have an: "temp + 2 ^ k = a + n" using rb by simp
    have "(temp + 2 ^ k) mod 2 ^ k = 0" using rb(4) by simp
    then have "flash_write_aligned (2 ^ k) s_write (drop n from) (a + n) mem1 = program prog (drop n from) (a + n) mem1"
      by (intro flash_write_aligned_exact [where prog = prog])
        (use an a ln length_program [OF m1] in \<open>simp_all add: law same\<close>)
    then have "platform_flash_write (2 ^ k) s_write from a mem =
        program prog (take n from) a mem \<bind> program prog (drop n from) (a + length (take n from))"
      using pw False an m1 ln by simp
    also have "\<dots> = program prog (take n from @ drop n from) a mem"
      by (rule program_append) (use a(2) ln in simp)
    finally show ?thesis by simp
  qed
qed

theorem flash_write_exact_witness:
  "platform_flash_write (2 ^ 2) (program (AND)) [1, 2, 3, 4, 5, 6, 7] 3 (replicate 12 0xFF) =
    program (AND) [1, 2, 3, 4, 5, 6, 7] 3 (replicate 12 (0xFF :: u8))"
  by (rule flash_write_exact) simp_all

lemma sum_unat_take: "i < length zs \<Longrightarrow> sum_list (map unat (take (Suc i) zs)) = sum_list (map unat (take i zs)) + unat (zs ! i :: u32)"
  by (simp add: take_Suc_conv_app_nth)

lemma flash_sector_walk_spec:
  assumes "unat t \<le> unat a" and "unat a < unat t + sum_list (map unat zs)" and "unat t + sum_list (map unat zs) < 2 ^ 32"
  shows "\<exists>n. n < length zs \<and> snd (flash_sector_walk zs a t i) = i + Suc n
    \<and> unat (fst (flash_sector_walk zs a t i)) = unat t + sum_list (map unat (take (Suc n) zs))
    \<and> unat t + sum_list (map unat (take n zs)) \<le> unat a \<and> unat a < unat t + sum_list (map unat (take (Suc n) zs))"
  using assms
proof (induction zs arbitrary: t i)
  case Nil
  then show ?case by simp
next
  case (Cons z zs)
  have u: "unat (t + z) = unat t + unat z" using Cons.prems(3) by (simp add: unat_word_ariths)
  have le: "t \<le> a" using Cons.prems(1) by (simp add: word_le_nat_alt)
  show ?case
  proof (cases "unat a < unat t + unat z")
    case True
    then have "\<not> t + z \<le> a" using u by (simp add: word_le_nat_alt)
    then have "flash_sector_walk zs a (t + z) (Suc i) = (t + z, Suc i)" by (cases zs) simp_all
    then show ?thesis using le u True Cons.prems(1) by (intro exI [of _ 0]) simp
  next
    case False
    obtain n where "n < length zs" "snd (flash_sector_walk zs a (t + z) (Suc i)) = Suc i + Suc n"
        "unat (fst (flash_sector_walk zs a (t + z) (Suc i))) = unat (t + z) + sum_list (map unat (take (Suc n) zs))"
        "unat (t + z) + sum_list (map unat (take n zs)) \<le> unat a" "unat a < unat (t + z) + sum_list (map unat (take (Suc n) zs))"
      using Cons.IH [of "t + z" "Suc i"] Cons.prems(2,3) False u by auto
    then show ?thesis using le u by (intro exI [of _ "Suc n"]) simp
  qed
qed

text \<open>On a flash with sectors of different sizes, the sector found for an address in it contains the
  address, and its bounds are the sums of the sizes.\<close>

theorem flash_find_sector_contains:
  assumes "unat start + sum_list (map unat zs) < 2 ^ 32" and "unat start \<le> unat addr"
    and "unat addr < unat start + sum_list (map unat zs)"
  shows "\<exists>n first last. flashh_find_sector start (INTERNAL_FLASH_SECTOR_ARRAY zs) addr = (n, first, last) \<and> n < length zs
    \<and> unat first = unat start + sum_list (map unat (take n zs)) \<and> unat first \<le> unat addr \<and> unat addr \<le> unat last
    \<and> unat last + 1 = unat start + sum_list (map unat (take (Suc n) zs))"
proof -
  have a: "unat (addr - start) = unat addr - unat start"
    using assms(2) by (simp add: unat_sub word_le_nat_alt)
  have inside: "unat addr - unat start < sum_list (map unat zs)" using assms(2,3) by linarith
  obtain n where n: "n < length zs" "snd (flash_sector_walk zs (addr - start) 0 0) = Suc n"
      "unat (fst (flash_sector_walk zs (addr - start) 0 0)) = sum_list (map unat (take (Suc n) zs))"
      "sum_list (map unat (take n zs)) \<le> unat (addr - start)" "unat (addr - start) < sum_list (map unat (take (Suc n) zs))"
    using flash_sector_walk_spec [of 0 "addr - start" zs 0] assms a inside by auto
  define t where "t = fst (flash_sector_walk zs (addr - start) 0 0)"
  have w: "flash_sector_walk zs (addr - start) 0 0 = (t, Suc n)" using n(2) by (simp add: t_def prod_eq_iff)
  note sum = sum_unat_take [OF n(1)]
  have bound: "sum_list (map unat (take (Suc n) zs)) \<le> sum_list (map unat zs)"
    by (metis append_take_drop_id le_add1 map_append sum_list_append)
  have t: "unat t = sum_list (map unat (take n zs)) + unat (zs ! n)" using n(3) sum by (simp add: t_def)
  have first: "unat (t - zs ! n + start) = unat start + sum_list (map unat (take n zs))"
    using t bound sum assms(1) by (simp add: unat_word_ariths unat_sub word_le_nat_alt)
  have pos: "0 < unat t" using n(5) n(3) by (simp add: t_def)
  have ts: "unat (t + start) = unat t + unat start" using t bound sum assms(1) by (simp add: unat_word_ariths)
  then have last: "unat (t + start - 1) = unat t + unat start - 1" using pos by (simp add: unat_sub word_le_nat_alt)
  show ?thesis
    using w n a first last t sum pos assms(2) by (simp add: flashh_find_sector_def Let_def t_def [symmetric]) linarith
qed

theorem flash_find_sector_contains_witness:
  "flashh_find_sector 0x8000000 (INTERNAL_FLASH_SECTOR_ARRAY [0x4000, 0x4000, 0x10000]) 0x8005000 = (1, 0x8004000, 0x8007FFF)
    \<and> (\<exists>n first last. flashh_find_sector 0x8000000 (INTERNAL_FLASH_SECTOR_ARRAY [0x4000, 0x4000, 0x10000]) 0x8005000 = (n, first, last)
      \<and> unat first \<le> 0x8005000 \<and> 0x8005000 \<le> unat last)"
  using flash_find_sector_contains [of "0x8000000" "[0x4000, 0x4000, 0x10000]" "0x8005000"]
  by (auto simp: flashh_find_sector_def)

end
