(* ===== verification/Romfs.thy ===== *)
theory Romfs
  imports Flash
begin

text \<open>
  The file systems in flash, \<^verbatim>\<open>src/romfs.c\<close>: ROMFS, a read-only image that is part of the program, and WOFS, a
  write-once file system behind it. A file system is its image, flags and maximum size; the write function
  of the device is a parameter, the image after a write of some bytes at an address. A read outside the
  image is \<^const>\<open>None\<close>, as is a search that does not end. Addresses and sizes are 32-bit values.
  \<open>wofs_image\<close> is the specification of what a WOFS holds, a list of files; the lemmas show that the search
  finds the right file, and that what is written to a new file can be read back.
\<close>

section \<open>Data\<close>

record romfs_fd =
  baseaddr :: nat
  fd_offset :: nat
  fd_size :: nat
  fd_flags :: u8

record fsdata =
  fs_image :: "u8 list"
  fs_flags :: u8
  fs_max_size :: nat

record romfs_state =
  fd_table :: "romfs_fd list"
  romfs_num_fd :: nat
  romfs_dir_data :: nat

type_synonym fs_write = "u8 list \<Rightarrow> nat \<Rightarrow> u8 list \<Rightarrow> u8 list option"

datatype fs_found = FS_FILE_NOT_FOUND nat | FS_FILE_OK nat nat nat

abbreviation "TOTAL_MAX_FDS \<equiv> (8 :: nat)"
abbreviation "ROMFS_ALIGN \<equiv> (4 :: nat)"
abbreviation "DM_MAX_FNAME_LENGTH \<equiv> (30 :: nat)"
abbreviation "WOFS_END_MARKER_CHAR \<equiv> (0xFF :: u8)"
abbreviation "WOFS_FILE_DELETED \<equiv> (0xAA :: u8)"
abbreviation "ROMFS_SIZE_LEN \<equiv> (4 :: nat)"
abbreviation "WOFS_DEL_FIELD_SIZE \<equiv> (4 :: nat)"
abbreviation "WOFS_MIN_NEEDED_SIZE \<equiv> (11 :: nat)"
abbreviation "ROMFS_FILE_FLAG_READ \<equiv> (1 :: u8)"
abbreviation "ROMFS_FILE_FLAG_WRITE \<equiv> (2 :: u8)"
abbreviation "ROMFS_FILE_FLAG_APPEND \<equiv> (4 :: u8)"
abbreviation "ROMFS_FS_FLAG_DIRECT \<equiv> (1 :: u8)"
abbreviation "ROMFS_FS_FLAG_WO \<equiv> (2 :: u8)"
abbreviation "ROMFS_FS_FLAG_WRITING \<equiv> (4 :: u8)"

text \<open>32-bit arithmetic.\<close>

definition wrap32 :: "int \<Rightarrow> nat" where
  "wrap32 n = nat (n mod 2 ^ 32)"

definition romfs_align :: "nat \<Rightarrow> nat" where
  "romfs_align n = push_bit 2 (drop_bit 2 (wrap32 (int n + 3)))"

definition closed_fd :: romfs_fd where
  "closed_fd = \<lparr>baseaddr = 0xFFFFFFFF, fd_offset = 0xFFFFFFFF, fd_size = 0xFFFFFFFF, fd_flags = 0\<rparr>"

definition fd_unused :: "romfs_fd \<Rightarrow> bool" where
  "fd_unused f \<longleftrightarrow> baseaddr f = 0xFFFFFFFF \<and> fd_offset f = 0xFFFFFFFF \<and> fd_size f = 0xFFFFFFFF"

definition romfs_find_empty_fd :: "romfs_state \<Rightarrow> nat option" where
  "romfs_find_empty_fd st = find (\<lambda>i. fd_unused (fd_table st ! i)) [0..<TOTAL_MAX_FDS]"

definition romfs_close_fd :: "nat \<Rightarrow> romfs_state \<Rightarrow> romfs_state" where
  "romfs_close_fd fd st = st\<lparr>fd_table := (fd_table st)[fd := closed_fd]\<rparr>"

definition romfsh_read8 :: "nat \<Rightarrow> fsdata \<Rightarrow> u8 option" where
  "romfsh_read8 addr fs = (if addr < length (fs_image fs) then Some (fs_image fs ! addr) else None)"

definition romfsh_is_wofs :: "fsdata \<Rightarrow> bool" where
  "romfsh_is_wofs fs \<longleftrightarrow> fs_flags fs AND ROMFS_FS_FLAG_WO \<noteq> 0"

section \<open>The search for a file\<close>

text \<open>At most \<open>n\<close> characters, up to the terminating zero.\<close>

fun read_name :: "nat \<Rightarrow> nat \<Rightarrow> fsdata \<Rightarrow> u8 list option" where
  "read_name 0 addr fs = Some []"
| "read_name (Suc n) addr fs =
     do { c \<leftarrow> romfsh_read8 addr fs;
          if c = 0 then Some [] else map_option (Cons c) (read_name n (addr + 1) fs) }"

definition read_size :: "nat \<Rightarrow> fsdata \<Rightarrow> nat option" where
  "read_size j fs =
     do { b0 \<leftarrow> romfsh_read8 j fs; b1 \<leftarrow> romfsh_read8 (j + 1) fs;
          b2 \<leftarrow> romfsh_read8 (j + 2) fs; b3 \<leftarrow> romfsh_read8 (j + 3) fs;
          Some (wrap32 (uint b0 + push_bit 8 (uint b1) + (push_bit 16 (uint b2) + push_bit 24 (uint b3)))) }"

partial_function (option) romfs_open_file :: "u8 list \<Rightarrow> fsdata \<Rightarrow> nat \<Rightarrow> fs_found option" where
  "romfs_open_file fname fs i =
     do { c \<leftarrow> romfsh_read8 i fs;
          if c = WOFS_END_MARKER_CHAR then Some (FS_FILE_NOT_FOUND i)
          else do { fsname \<leftarrow> read_name DM_MAX_FNAME_LENGTH i fs;
                    let j = romfs_align (i + length fsname + 1);
                    (is_deleted, j) \<leftarrow> (if romfsh_is_wofs fs
                       then do { d \<leftarrow> romfsh_read8 j fs; Some (d = WOFS_FILE_DELETED, j + WOFS_DEL_FIELD_SIZE) }
                       else Some (False, j));
                    fsize \<leftarrow> read_size j fs;
                    let j = j + ROMFS_SIZE_LEN;
                    if strncasecmp_eq fname fsname DM_MAX_FNAME_LENGTH \<and> \<not> is_deleted
                    then Some (FS_FILE_OK j fsize i)
                    else let i = wrap32 (int j + int fsize)
                         in romfs_open_file fname fs (if romfsh_is_wofs fs then romfs_align i else i) } }"

section \<open>File operations\<close>

record open_flags =
  O_CREAT :: bool
  O_EXCL :: bool
  O_TRUNC :: bool
  O_WRONLY :: bool
  O_RDWR :: bool
  O_APPEND :: bool

definition fs_writef :: "fs_write \<Rightarrow> u8 list \<Rightarrow> nat \<Rightarrow> fsdata \<Rightarrow> fsdata option" where
  "fs_writef wr data addr fs = map_option (\<lambda>m. fs\<lparr>fs_image := m\<rparr>) (wr data addr (fs_image fs))"

definition access_flags :: "open_flags \<Rightarrow> u8" where
  "access_flags fl =
     (if O_WRONLY fl then ROMFS_FILE_FLAG_WRITE
      else if O_RDWR fl then ROMFS_FILE_FLAG_READ OR ROMFS_FILE_FLAG_WRITE else ROMFS_FILE_FLAG_READ)
     OR (if O_APPEND fl then ROMFS_FILE_FLAG_APPEND else 0)"

definition may_write :: "u8 \<Rightarrow> bool" where
  "may_write flags \<longleftrightarrow> flags AND (ROMFS_FILE_FLAG_WRITE OR ROMFS_FILE_FLAG_APPEND) \<noteq> 0"

text \<open>A new file: an existing one is marked as deleted first; then the name is written after the last file.\<close>

definition romfs_create ::
  "fs_write \<Rightarrow> u8 list \<Rightarrow> fs_found \<Rightarrow> romfs_state \<Rightarrow> fsdata \<Rightarrow> ((errno + romfs_fd \<times> nat) \<times> fsdata) option" where
  "romfs_create wr path found st fs =
     do { fs1 \<leftarrow> (case found of
             FS_FILE_OK base _ _ \<Rightarrow>
               fs_writef wr [WOFS_FILE_DELETED, 0xFF, 0xFF, 0xFF] (base - ROMFS_SIZE_LEN - WOFS_DEL_FIELD_SIZE) fs
           | FS_FILE_NOT_FOUND _ \<Rightarrow> Some fs);
          again \<leftarrow> romfs_open_file [1] fs1 0;
          firstfree \<leftarrow> (case again of FS_FILE_NOT_FOUND l \<Rightarrow> Some l
             | FS_FILE_OK _ _ _ \<Rightarrow> (case found of FS_FILE_NOT_FOUND l \<Rightarrow> Some l | FS_FILE_OK _ _ _ \<Rightarrow> None));
          if wrap32 (int (fs_max_size fs1) - int firstfree + 1) < length path + 1 + WOFS_MIN_NEEDED_SIZE + WOFS_DEL_FIELD_SIZE
          then Some (Inl ENOSPC, fs1)
          else (case romfs_find_empty_fd st of
                  None \<Rightarrow> Some (Inl ENFILE, fs1)
                | Some i \<Rightarrow>
                    do { fs2 \<leftarrow> fs_writef wr (path @ [0]) firstfree fs1;
                         let base = romfs_align (firstfree + length path + 1) + (ROMFS_SIZE_LEN + WOFS_DEL_FIELD_SIZE);
                         Some (Inr (\<lparr>baseaddr = base, fd_offset = 0, fd_size = 0, fd_flags = 0\<rparr>, i),
                               fs2\<lparr>fs_flags := fs_flags fs2 OR ROMFS_FS_FLAG_WRITING\<rparr>) }) }"

definition romfs_open_r ::
  "fs_write \<Rightarrow> u8 list \<Rightarrow> open_flags \<Rightarrow> romfs_state \<Rightarrow> fsdata \<Rightarrow> ((errno + nat) \<times> romfs_state \<times> fsdata) option" where
  "romfs_open_r wr path fl st fs =
     (if romfs_num_fd st = TOTAL_MAX_FDS then Some (Inl ENFILE, st, fs)
      else do { found \<leftarrow> romfs_open_file path fs 0;
        let exists = (case found of FS_FILE_OK _ _ _ \<Rightarrow> True | FS_FILE_NOT_FOUND _ \<Rightarrow> False);
        if O_CREAT fl \<and> O_EXCL fl \<and> exists then Some (Inl EEXIST, st, fs)
        else let must_create = (O_CREAT fl \<and> \<not> exists \<or> O_TRUNC fl \<and> (O_WRONLY fl \<or> O_RDWR fl) \<and> exists);
                 lflags = access_flags fl
             in if must_create \<and> fs_flags fs AND ROMFS_FS_FLAG_WO = 0 then Some (Inl EROFS, st, fs)
                else if may_write lflags \<and> \<not> must_create then Some (Inl EACCES, st, fs)
                else if may_write lflags \<and> fs_flags fs AND ROMFS_FS_FLAG_WRITING \<noteq> 0 then Some (Inl EROFS, st, fs)
                else do { (r, fs1) \<leftarrow> (if must_create then romfs_create wr path found st fs
                            else (case found of
                                    FS_FILE_NOT_FOUND _ \<Rightarrow> Some (Inl ENOENT, fs)
                                  | FS_FILE_OK base fsz _ \<Rightarrow>
                                      (case romfs_find_empty_fd st of
                                         None \<Rightarrow> Some (Inl ENFILE, fs)
                                       | Some i \<Rightarrow> Some (Inr (\<lparr>baseaddr = base, fd_offset = 0, fd_size = fsz, fd_flags = 0\<rparr>, i), fs))));
                          Some (case r of
                              Inl e \<Rightarrow> (Inl e, st, fs1)
                            | Inr (f, i) \<Rightarrow> (Inr i, st\<lparr>fd_table := (fd_table st)[i := f\<lparr>fd_flags := lflags\<rparr>],
                                                 romfs_num_fd := romfs_num_fd st + 1\<rparr>, fs1)) } })"

text \<open>A descriptor outside the table is not checked by the code.\<close>

definition fd_at :: "nat \<Rightarrow> romfs_state \<Rightarrow> romfs_fd option" where
  "fd_at fd st = (if fd < length (fd_table st) then Some (fd_table st ! fd) else None)"

definition size_bytes :: "nat \<Rightarrow> u8 list" where
  "size_bytes n = [of_nat (n AND 0xFF), of_nat (drop_bit 8 n AND 0xFF), of_nat (drop_bit 16 n AND 0xFF), of_nat (drop_bit 24 n AND 0xFF)]"

definition romfs_close_r :: "fs_write \<Rightarrow> nat \<Rightarrow> romfs_state \<Rightarrow> fsdata \<Rightarrow> (romfs_state \<times> fsdata) option" where
  "romfs_close_r wr fd st fs =
     do { f \<leftarrow> fd_at fd st;
          fs1 \<leftarrow> (if may_write (fd_flags f)
             then do { fs1 \<leftarrow> fs_writef wr (size_bytes (fd_size f)) (baseaddr f - ROMFS_SIZE_LEN) fs;
                       Some (fs1\<lparr>fs_flags := fs_flags fs1 AND NOT ROMFS_FS_FLAG_WRITING\<rparr>) }
             else Some fs);
          Some ((romfs_close_fd fd st)\<lparr>romfs_num_fd := romfs_num_fd st - 1\<rparr>, fs1) }"

text \<open>The count of a write that does not fit is reduced, in 32 bits; writing more than the caller's buffer
  holds is undefined.\<close>

definition romfs_write_r ::
  "fs_write \<Rightarrow> nat \<Rightarrow> u8 list \<Rightarrow> romfs_state \<Rightarrow> fsdata \<Rightarrow> ((errno + nat) \<times> romfs_state \<times> fsdata) option" where
  "romfs_write_r wr fd data st fs =
     do { f0 \<leftarrow> fd_at fd st;
          if \<not> may_write (fd_flags f0) then Some (Inl EINVAL, st, fs)
          else let f = (if fd_flags f0 AND ROMFS_FILE_FLAG_APPEND \<noteq> 0 then f0\<lparr>fd_offset := fd_size f0\<rparr> else f0)
               in if fd_offset f \<noteq> fd_size f then Some (Inr 0, st\<lparr>fd_table := (fd_table st)[fd := f]\<rparr>, fs)
                  else let len = (if wrap32 (int (baseaddr f) + int (fd_size f) + int (length data)) > wrap32 (int (fs_max_size fs) - int ROMFS_ALIGN)
                                  then wrap32 (int (fs_max_size fs) - (int (baseaddr f) + int (fd_size f)) - int ROMFS_ALIGN)
                                  else length data)
                       in if len > length data then None
                          else do { fs1 \<leftarrow> fs_writef wr (take len data) (fd_offset f + baseaddr f) fs;
                                    Some (Inr len, st\<lparr>fd_table := (fd_table st)[fd :=
                                        f\<lparr>fd_offset := fd_offset f + len, fd_size := fd_size f + len\<rparr>]\<rparr>, fs1) } }"

definition romfs_read_r ::
  "nat \<Rightarrow> nat \<Rightarrow> romfs_state \<Rightarrow> fsdata \<Rightarrow> ((errno + u8 list) \<times> romfs_state) option" where
  "romfs_read_r fd len st fs =
     do { f \<leftarrow> fd_at fd st;
          let actlen = min len (wrap32 (int (fd_size f) - int (fd_offset f)));
          if fd_flags f AND ROMFS_FILE_FLAG_READ = 0 then Some (Inl EBADF, st)
          else do { data \<leftarrow> fetch (fs_image fs) (fd_offset f + baseaddr f) actlen;
                    Some (Inr data, st\<lparr>fd_table := (fd_table st)[fd := f\<lparr>fd_offset := fd_offset f + actlen\<rparr>]\<rparr>) } }"

datatype seek = SEEK_SET | SEEK_CUR | SEEK_END | SEEK_OTHER

definition romfs_lseek_r :: "nat \<Rightarrow> int \<Rightarrow> seek \<Rightarrow> romfs_state \<Rightarrow> (int \<times> romfs_state) option" where
  "romfs_lseek_r fd off whence st =
     do { f \<leftarrow> fd_at fd st;
          case (case whence of
                  SEEK_SET \<Rightarrow> Some (wrap32 off) | SEEK_CUR \<Rightarrow> Some (wrap32 (int (fd_offset f) + off))
                | SEEK_END \<Rightarrow> Some (wrap32 (int (fd_size f) + off)) | SEEK_OTHER \<Rightarrow> None) of
            None \<Rightarrow> Some (-1, st)
          | Some newpos \<Rightarrow>
              Some (if newpos > fd_size f then (-1, st)
                    else (int newpos, st\<lparr>fd_table := (fd_table st)[fd := f\<lparr>fd_offset := newpos\<rparr>]\<rparr>)) }"

section \<open>Directories\<close>

definition romfs_opendir_r :: "u8 list \<Rightarrow> romfs_state \<Rightarrow> bool \<times> romfs_state" where
  "romfs_opendir_r dname st =
     (if dname = [] \<or> dname = [0x2F] then (True, st\<lparr>romfs_dir_data := 0\<rparr>) else (False, st))"

text \<open>The name goes into a shared array of \<^verbatim>\<open>DM_MAX_FNAME_LENGTH + 1\<close> bytes.\<close>

partial_function (option) romfs_readdir_at :: "fsdata \<Rightarrow> nat \<Rightarrow> ((u8 list \<times> nat) option \<times> nat) option" where
  "romfs_readdir_at fs off =
     do { c \<leftarrow> romfsh_read8 off fs;
          if c = WOFS_END_MARKER_CHAR then Some (None, off)
          else do { fname \<leftarrow> read_name (DM_MAX_FNAME_LENGTH + 1) off fs;
                    if length fname > DM_MAX_FNAME_LENGTH then None
                    else do {
                      let j = romfs_align (off + length fname + 1);
                      (is_deleted, j) \<leftarrow> (if romfsh_is_wofs fs
                         then do { d \<leftarrow> romfsh_read8 j fs; Some (d = WOFS_FILE_DELETED, j + WOFS_DEL_FIELD_SIZE) }
                         else Some (False, j));
                      fsize \<leftarrow> read_size j fs;
                      let off = wrap32 (int (j + ROMFS_SIZE_LEN) + int fsize);
                      let off = (if romfsh_is_wofs fs then romfs_align off else off);
                      if is_deleted then romfs_readdir_at fs off else Some (Some (fname, fsize), off) } } }"

definition romfs_readdir_r :: "romfs_state \<Rightarrow> fsdata \<Rightarrow> ((u8 list \<times> nat) option \<times> romfs_state) option" where
  "romfs_readdir_r st fs =
     do { (ent, off) \<leftarrow> romfs_readdir_at fs (romfs_dir_data st);
          Some (ent, if ent = None then st else st\<lparr>romfs_dir_data := off\<rparr>) }"

definition romfs_closedir_r :: "romfs_state \<Rightarrow> romfs_state" where
  "romfs_closedir_r st = st\<lparr>romfs_dir_data := 0\<rparr>"

definition romfs_getaddr_r :: "nat \<Rightarrow> romfs_state \<Rightarrow> fsdata \<Rightarrow> nat option option" where
  "romfs_getaddr_r fd st fs =
     do { f \<leftarrow> fd_at fd st;
          Some (if fs_flags fs AND ROMFS_FS_FLAG_DIRECT \<noteq> 0 then Some (baseaddr f) else None) }"

definition romfs_init :: romfs_state where
  "romfs_init = \<lparr>fd_table = replicate TOTAL_MAX_FDS closed_fd, romfs_num_fd = 0, romfs_dir_data = 0\<rparr>"

text \<open>Formatting: the simulator fills the image, the boards erase the sectors up to the last used one.\<close>

definition wofs_format_sim :: "fsdata \<Rightarrow> fsdata" where
  "wofs_format_sim fs = fs\<lparr>fs_image := replicate (fs_max_size fs) WOFS_END_MARKER_CHAR\<rparr>"

definition wofs_format ::
  "u32 \<Rightarrow> flash_sectors \<Rightarrow> u32 \<Rightarrow> u32 \<Rightarrow> (nat \<Rightarrow> u8 list \<Rightarrow> u8 list option) \<Rightarrow> fsdata \<Rightarrow> (bool \<times> fsdata) option" where
  "wofs_format start sects used pbase erase fs =
     (case romfs_open_file [1] fs 0 of
        None \<Rightarrow> None
      | Some found \<Rightarrow>
          (case found of
             FS_FILE_OK _ _ _ \<Rightarrow> None
           | FS_FILE_NOT_FOUND l \<Rightarrow>
               let sect_first = fst (platform_flash_get_first_free_block_address start sects used);
                   sect_last = platform_flash_get_sector_of_address start sects (of_nat l + pbase);
                   (ok, m) = fold (\<lambda>k (ok, m). if ok then (case erase k m of None \<Rightarrow> (False, m) | Some m' \<Rightarrow> (True, m')) else (False, m))
                               [sect_first..<Suc sect_last] (True, fs_image fs)
               in Some (ok, fs\<lparr>fs_image := m\<rparr>)))"

section \<open>What a WOFS holds\<close>

text \<open>A file: its name, whether it is deleted, its contents.\<close>

type_synonym wofs_file = "u8 list \<times> bool \<times> u8 list"

definition pad4 :: "nat \<Rightarrow> u8 list" where
  "pad4 n = replicate ((4 - n mod 4) mod 4) 0xFF"

definition wofs_header :: "wofs_file \<Rightarrow> u8 list" where
  "wofs_header e = (case e of (name, del, data) \<Rightarrow>
     name @ [0] @ pad4 (length name + 1) @ [if del then WOFS_FILE_DELETED else 0xFF, 0xFF, 0xFF, 0xFF] @ size_bytes (length data))"

definition wofs_entry :: "wofs_file \<Rightarrow> u8 list" where
  "wofs_entry e = wofs_header e @ snd (snd e) @ pad4 (length (snd (snd e)))"

definition wofs_area :: "wofs_file list \<Rightarrow> u8 list" where
  "wofs_area es = concat (map wofs_entry es)"

definition wofs_image :: "wofs_file list \<Rightarrow> nat \<Rightarrow> u8 list" where
  "wofs_image es free = wofs_area es @ replicate free 0xFF"

definition name_ok :: "u8 list \<Rightarrow> bool" where
  "name_ok name \<longleftrightarrow> name \<noteq> [] \<and> hd name \<noteq> 0xFF \<and> 0 \<notin> set name \<and> length name \<le> DM_MAX_FNAME_LENGTH"

definition same_name :: "u8 list \<Rightarrow> u8 list \<Rightarrow> bool" where
  "same_name a b \<longleftrightarrow> map to_lower (take DM_MAX_FNAME_LENGTH a) = map to_lower (take DM_MAX_FNAME_LENGTH b)"

text \<open>The search as a function on the list of files.\<close>

fun wofs_find :: "u8 list \<Rightarrow> wofs_file list \<Rightarrow> nat \<Rightarrow> fs_found" where
  "wofs_find fname [] at = FS_FILE_NOT_FOUND at"
| "wofs_find fname (e # es) at =
     (if same_name fname (fst e) \<and> \<not> fst (snd e)
      then FS_FILE_OK (at + length (wofs_header e)) (length (snd (snd e))) at
      else wofs_find fname es (at + length (wofs_entry e)))"

section \<open>Alignment and sizes\<close>

lemma wrap32_id: "0 \<le> n \<Longrightarrow> n < 2 ^ 32 \<Longrightarrow> wrap32 n = nat n"
  by (simp add: wrap32_def)

lemma pad4_cases:
  obtains q where "n = 4 * q" "length (pad4 n) = 0" | q where "n = 4 * q + 1" "length (pad4 n) = 3"
    | q where "n = 4 * q + 2" "length (pad4 n) = 2" | q where "n = 4 * q + 3" "length (pad4 n) = 1"
proof -
  define q r where "q = n div 4" and "r = n mod 4"
  have "n = 4 * q + r" "r < 4" by (simp_all add: q_def r_def)
  moreover from this(2) have "r = 0 \<or> r = 1 \<or> r = 2 \<or> r = 3" by linarith
  moreover have "length (pad4 n) = (4 - r) mod 4" by (simp add: pad4_def r_def)
  ultimately show thesis using that by auto
qed

lemma pad4_mod: "(n + length (pad4 n)) mod 4 = 0"
  by (rule pad4_cases [of n]) simp_all

lemma pad4_shift: "a mod 4 = 0 \<Longrightarrow> pad4 (a + n) = pad4 n"
  by (simp add: pad4_def mod_add_eq [of a 4 n, symmetric])

lemma length_pad4: "length (pad4 n) < 4"
  by (simp add: pad4_def)

lemma romfs_align_pad:
  assumes "n + 3 < 2 ^ 32"
  shows "romfs_align n = n + length (pad4 n)"
proof -
  have "wrap32 (int n + 3) = n + 3" using assms by (subst wrap32_id) simp_all
  then have "romfs_align n = (n + 3) div 4 * 4" by (simp add: romfs_align_def push_bit_eq_mult drop_bit_eq_div)
  also have "\<dots> = n + length (pad4 n)" by (rule pad4_cases [of n]) simp_all
  finally show ?thesis .
qed

lemma length_size_bytes [simp]: "length (size_bytes n) = 4"
  by (simp add: size_bytes_def)

lemma bytes_sum:
  fixes n :: nat
  shows "n mod 256 + 256 * (n div 256 mod 256) + (65536 * (n div 65536 mod 256) + 16777216 * (n div 16777216)) = n"
proof -
  define q1 q2 q3 where "q1 = n div 256" and "q2 = q1 div 256" and "q3 = q2 div 256"
  define r0 r1 r2 where "r0 = n mod 256" and "r1 = q1 mod 256" and "r2 = q2 mod 256"
  have eqs: "n div 65536 = q2" "n div 16777216 = q3"
    using div_mult2_eq [of n 256 256] div_mult2_eq [of n 65536 256] by (simp_all add: q1_def q2_def q3_def)
  have "n = q1 * 256 + r0" "q1 = q2 * 256 + r1" "q2 = q3 * 256 + r2"
    by (simp_all add: q1_def q2_def q3_def r0_def r1_def r2_def)
  then have "r0 + 256 * r1 + (65536 * r2 + 16777216 * q3) = n" by linarith
  then show ?thesis unfolding eqs q1_def [symmetric] r0_def [symmetric] r1_def [symmetric] r2_def [symmetric] .
qed

lemma uint_byte: "uint (of_nat (m mod 256) :: u8) = int (m mod 256)"
  by (simp add: uint_nat unat_of_nat take_bit_nat_eq_self)

lemma size_bytes_value:
  assumes "n < 2 ^ 32" and "size_bytes n = [b0, b1, b2, b3]"
  shows "wrap32 (uint b0 + push_bit 8 (uint b1) + (push_bit 16 (uint b2) + push_bit 24 (uint b3))) = n"
proof -
  have and255: "m AND 255 = m mod 256" for m :: nat using nat_and_unit [of m 8] by simp
  have "size_bytes n = map of_nat [n mod 256, n div 256 mod 256, n div 65536 mod 256, n div 16777216 mod 256]"
    unfolding size_bytes_def and255 drop_bit_eq_div by simp
  then have b: "uint b0 = int (n mod 256)" "uint b1 = int (n div 256 mod 256)" "uint b2 = int (n div 65536 mod 256)"
      "uint b3 = int (n div 16777216 mod 256)"
    using assms(2) uint_byte by auto
  have "n div 16777216 mod 256 = n div 16777216" using assms(1) by (simp add: div_less_iff_less_mult)
  then have "uint b0 + push_bit 8 (uint b1) + (push_bit 16 (uint b2) + push_bit 24 (uint b3)) = int n"
    using bytes_sum [of n] unfolding b push_bit_eq_mult by simp
  then show ?thesis using assms(1) by (simp add: wrap32_id)
qed

lemma length_wofs_header:
  "length (wofs_header (name, del, data)) = length name + 1 + length (pad4 (length name + 1)) + 8"
  by (simp add: wofs_header_def)

lemma wofs_header_mod: "length (wofs_header e) mod 4 = 0"
proof -
  obtain name del data where e: "e = (name, del, data)" by (cases e)
  obtain q where "length name + 1 + length (pad4 (length name + 1)) = 4 * q"
    using pad4_mod [of "length name + 1"] by (meson dvdE mod_0_imp_dvd)
  then have "length (wofs_header e) = 4 * q + 8" unfolding e length_wofs_header by linarith
  then show ?thesis by simp
qed

lemma mod4_add: "a mod 4 = 0 \<Longrightarrow> b mod 4 = 0 \<Longrightarrow> (a + b) mod (4 :: nat) = 0"
  by (simp add: mod_eq_0_iff_dvd)

lemma wofs_entry_mod [simp]: "length (wofs_entry e) mod 4 = 0"
  unfolding wofs_entry_def length_append by (intro mod4_add wofs_header_mod pad4_mod)

lemma wofs_area_simps [simp]:
  "wofs_area [] = []" "wofs_area (es @ [e]) = wofs_area es @ wofs_entry e" "wofs_area (e # es) = wofs_entry e @ wofs_area es"
  by (simp_all add: wofs_area_def)

lemma wofs_area_mod [simp]: "length (wofs_area es) mod 4 = 0"
  by (induction es) (simp_all add: mod_add_eq [symmetric])

section \<open>The search\<close>

lemma read8_at: "fs_image fs = A @ B \<Longrightarrow> i < length B \<Longrightarrow> romfsh_read8 (length A + i) fs = Some (B ! i)"
  by (simp add: romfsh_read8_def nth_append)

lemma read_name_at:
  assumes "0 \<notin> set name"
  shows "fs_image fs = A @ name @ 0 # B \<Longrightarrow> length name \<le> n \<Longrightarrow> read_name n (length A) fs = Some name"
  using assms
proof (induction name arbitrary: A n)
  case Nil
  then show ?case using read8_at [of fs A "0 # B" 0] by (cases n) simp_all
next
  case (Cons c name)
  then obtain m where n: "n = Suc m" by (cases n) auto
  have "read_name m (length (A @ [c])) fs = Some name" using Cons n by (intro Cons.IH) auto
  then show ?case using Cons n read8_at [of fs A "(c # name) @ 0 # B" 0] by simp
qed

lemma read_size_at:
  assumes "fs_image fs = A @ size_bytes n @ B" and "n < 2 ^ 32"
  shows "read_size (length A) fs = Some n"
proof -
  obtain b0 b1 b2 b3 where b: "size_bytes n = [b0, b1, b2, b3]" by (simp add: size_bytes_def)
  have "romfsh_read8 (length A + i) fs = Some ((size_bytes n @ B) ! i)" if "i < 4" for i
    by (rule read8_at) (use assms(1) that in simp_all)
  from this [of 0] this [of 1] this [of 2] this [of 3] show ?thesis
    using size_bytes_value [OF assms(2) b] by (simp add: read_size_def b numeral_eq_Suc)
qed

text \<open>What the fields of an entry of the image read as: its name begins at \<open>length A\<close>, the deletion mark follows at the next multiple
  of four, then the size and, at \<open>k\<close>, the data.\<close>

lemma entry_fields:
  assumes im: "fs_image fs = A @ wofs_entry (name, del, data) @ B" and A: "length A mod 4 = 0"
    and ok: "name_ok name" and len: "length (fs_image fs) + 8 < 2 ^ 32"
  defines "k \<equiv> length A + length (wofs_header (name, del, data))"
  shows "romfsh_read8 (length A) fs = Some (hd name)" "length name \<le> n \<Longrightarrow> read_name n (length A) fs = Some name"
    "romfs_align (length A + length name + 1) + 8 = k" "romfsh_read8 (romfs_align (length A + length name + 1)) fs = Some (if del then WOFS_FILE_DELETED else 0xFF)"
    "read_size (romfs_align (length A + length name + 1) + 4) fs = Some (length data)"
    "wrap32 (int k + int (length data)) = k + length data"
    "romfs_align (k + length data) = length A + length (wofs_entry (name, del, data))"
proof -
  define P where "P = pad4 (length name + 1)"
  define D where "D = [if del then WOFS_FILE_DELETED else 0xFF :: u8, 0xFF, 0xFF, 0xFF]"
  define Q where "Q = pad4 (length data)"
  have im1: "fs_image fs = A @ name @ 0 # P @ D @ size_bytes (length data) @ data @ Q @ B"
    using im by (simp add: wofs_entry_def wofs_header_def P_def D_def Q_def)
  have ln: "length A + length name + length P + length data + length Q + 12 < 2 ^ 32"
    using len im1 by (simp add: D_def)
  have nm: "name \<noteq> []" "0 \<notin> set name" using ok by (simp_all add: name_ok_def)
  show "romfsh_read8 (length A) fs = Some (hd name)"
    using read8_at [OF im1, of 0] nm(1) by (cases name) simp_all
  show "length name \<le> n \<Longrightarrow> read_name n (length A) fs = Some name" by (rule read_name_at [OF nm(2) im1])
  have "length (pad4 (length A + length name + 1)) = length P"
    using pad4_shift [OF A, of "length name + 1"] by (simp add: P_def)
  then have j: "romfs_align (length A + length name + 1) = length (A @ name @ 0 # P)"
    using ln by (subst romfs_align_pad) simp_all
  show "romfsh_read8 (romfs_align (length A + length name + 1)) fs = Some (if del then WOFS_FILE_DELETED else 0xFF)"
    unfolding j using read8_at [of fs "A @ name @ 0 # P" "D @ size_bytes (length data) @ data @ Q @ B" 0] im1 by (simp add: D_def)
  have "read_size (length (A @ name @ 0 # P @ D)) fs = Some (length data)"
    by (rule read_size_at) (use im1 ln in simp_all)
  moreover have "length (A @ name @ 0 # P) + 4 = length (A @ name @ 0 # P @ D)" by (simp add: D_def)
  ultimately show "read_size (romfs_align (length A + length name + 1) + 4) fs = Some (length data)" by (simp only: j)
  show k: "romfs_align (length A + length name + 1) + 8 = k"
    unfolding j by (simp add: k_def wofs_header_def P_def)
  have kl: "k + length data + 3 < 2 ^ 32" using ln k j by (simp add: D_def)
  then show "wrap32 (int k + int (length data)) = k + length data" by (subst wrap32_id) simp_all
  have "k mod 4 = 0" unfolding k_def by (rule mod4_add [OF A wofs_header_mod])
  then have "length (pad4 (k + length data)) = length Q" using pad4_shift by (simp add: Q_def)
  then show "romfs_align (k + length data) = length A + length (wofs_entry (name, del, data))"
    using kl by (subst romfs_align_pad) (simp_all add: k_def wofs_entry_def Q_def)
qed

lemma search_step:
  assumes im: "fs_image fs = A @ wofs_entry (name, del, data) @ B" and A: "length A mod 4 = 0"
    and wo: "romfsh_is_wofs fs" and ok: "name_ok name" and len: "length (fs_image fs) + 8 < 2 ^ 32"
  shows "romfs_open_file fname fs (length A) =
    (if same_name fname name \<and> \<not> del
     then Some (FS_FILE_OK (length A + length (wofs_header (name, del, data))) (length data) (length A))
     else romfs_open_file fname fs (length A + length (wofs_entry (name, del, data))))"
proof -
  note f = entry_fields [OF im A ok len]
  have nm: "hd name \<noteq> 0xFF" "length name \<le> DM_MAX_FNAME_LENGTH" using ok by (simp_all add: name_ok_def)
  have cmp: "strncasecmp_eq fname name DM_MAX_FNAME_LENGTH = same_name fname name"
    by (simp add: strncasecmp_eq_def same_name_def)
  have del: "((if del then WOFS_FILE_DELETED else 0xFF) = WOFS_FILE_DELETED) = del" by simp
  have k: "romfs_align (length A + length name + 1) + 4 + 4 = length A + length (wofs_header (name, del, data))" using f(3) by simp
  show ?thesis
    by (subst romfs_open_file.simps)
      (simp only: f(1) nm(1) if_False f(2) [OF nm(2)] Let_def wo if_True f(4) del prod.case f(5) k cmp f(6,7) Option.bind.simps)
qed

lemma search_end:
  assumes "fs_image fs = A @ replicate n 0xFF" and "0 < n"
  shows "romfs_open_file fname fs (length A) = Some (FS_FILE_NOT_FOUND (length A))"
proof -
  obtain m where n: "n = Suc m" using assms(2) by (cases n) auto
  have "romfsh_read8 (length A) fs = Some 0xFF" using read8_at [OF assms(1), of 0] n by simp
  then show ?thesis by (subst romfs_open_file.simps) simp
qed

lemma search_files:
  assumes "romfsh_is_wofs fs" and "length (fs_image fs) + 8 < 2 ^ 32" and "0 < free"
  shows "fs_image fs = A @ wofs_area es @ replicate free 0xFF \<Longrightarrow> length A mod 4 = 0 \<Longrightarrow> \<forall>e \<in> set es. name_ok (fst e) \<Longrightarrow>
    romfs_open_file fname fs (length A) = Some (wofs_find fname es (length A))"
proof (induction es arbitrary: A)
  case Nil
  then show ?case using search_end [of fs A free] assms(3) by simp
next
  case (Cons e es)
  obtain name del data where e: "e = (name, del, data)" by (cases e)
  have im: "fs_image fs = A @ wofs_entry (name, del, data) @ wofs_area es @ replicate free 0xFF" using Cons.prems(1) e by simp
  have step: "romfs_open_file fname fs (length A) =
    (if same_name fname name \<and> \<not> del
     then Some (FS_FILE_OK (length A + length (wofs_header (name, del, data))) (length data) (length A))
     else romfs_open_file fname fs (length A + length (wofs_entry (name, del, data))))"
    by (rule search_step [OF im Cons.prems(2) assms(1) _ assms(2)]) (use Cons.prems(3) e in simp)
  have "romfs_open_file fname fs (length (A @ wofs_entry e)) = Some (wofs_find fname es (length (A @ wofs_entry e)))"
    by (rule Cons.IH) (use Cons.prems mod4_add in auto)
  then show ?case using step e by simp
qed

text \<open>A WOFS with the files \<open>es\<close> and \<open>free\<close> erased bytes after them; its size is a multiple of four.\<close>

definition wofs_ok :: "wofs_file list \<Rightarrow> nat \<Rightarrow> fsdata \<Rightarrow> bool" where
  "wofs_ok es free fs \<longleftrightarrow> fs_image fs = wofs_image es free \<and> romfsh_is_wofs fs \<and> 4 \<le> free
     \<and> fs_max_size fs = length (fs_image fs) \<and> fs_max_size fs mod 4 = 0 \<and> fs_max_size fs + 8 < 2 ^ 32
     \<and> (\<forall>e \<in> set es. name_ok (fst e))"

lemma wofs_search:
  assumes "wofs_ok es free fs"
  shows "romfs_open_file fname fs 0 = Some (wofs_find fname es 0)"
  using search_files [of fs free "[]" es fname] assms by (auto simp: wofs_ok_def wofs_image_def)

text \<open>Reading a directory: the next file that is not deleted, and where the one after it begins.\<close>

lemma readdir_step:
  assumes im: "fs_image fs = A @ wofs_entry (name, del, data) @ B" and A: "length A mod 4 = 0"
    and wo: "romfsh_is_wofs fs" and ok: "name_ok name" and len: "length (fs_image fs) + 8 < 2 ^ 32"
  shows "romfs_readdir_at fs (length A) =
    (if del then romfs_readdir_at fs (length A + length (wofs_entry (name, del, data)))
     else Some (Some (name, length data), length A + length (wofs_entry (name, del, data))))"
proof -
  note f = entry_fields [OF im A ok len]
  have nm: "hd name \<noteq> 0xFF" "length name \<le> DM_MAX_FNAME_LENGTH + 1" "\<not> DM_MAX_FNAME_LENGTH < length name" using ok by (simp_all add: name_ok_def)
  have del: "((if del then WOFS_FILE_DELETED else 0xFF) = WOFS_FILE_DELETED) = del" by simp
  have k: "romfs_align (length A + length name + 1) + 4 + 4 = length A + length (wofs_header (name, del, data))" using f(3) by simp
  show ?thesis
    by (subst romfs_readdir_at.simps)
      (simp only: f(1) nm(1,3) if_False f(2) [OF nm(2)] Let_def wo if_True f(4) del prod.case f(5) k f(6,7) Option.bind.simps)
qed

fun wofs_next :: "wofs_file list \<Rightarrow> nat \<Rightarrow> (u8 list \<times> nat) option \<times> nat" where
  "wofs_next [] at = (None, at)"
| "wofs_next (e # es) at =
     (if fst (snd e) then wofs_next es (at + length (wofs_entry e)) else (Some (fst e, length (snd (snd e))), at + length (wofs_entry e)))"

lemma readdir_files:
  assumes "romfsh_is_wofs fs" and "length (fs_image fs) + 8 < 2 ^ 32" and "0 < free"
  shows "fs_image fs = A @ wofs_area es @ replicate free 0xFF \<Longrightarrow> length A mod 4 = 0 \<Longrightarrow> \<forall>e \<in> set es. name_ok (fst e) \<Longrightarrow>
    romfs_readdir_at fs (length A) = Some (wofs_next es (length A))"
proof (induction es arbitrary: A)
  case Nil
  then obtain m where "free = Suc m" using assms(3) by (cases free) auto
  then have "romfsh_read8 (length A) fs = Some 0xFF" using read8_at [of fs A "replicate free 0xFF" 0] Nil by simp
  then show ?case by (subst romfs_readdir_at.simps) simp
next
  case (Cons e es)
  obtain name del data where e: "e = (name, del, data)" by (cases e)
  have im: "fs_image fs = A @ wofs_entry (name, del, data) @ wofs_area es @ replicate free 0xFF" using Cons.prems(1) e by simp
  have "romfs_readdir_at fs (length (A @ wofs_entry e)) = Some (wofs_next es (length (A @ wofs_entry e)))"
    by (rule Cons.IH) (use Cons.prems mod4_add in auto)
  moreover have "name_ok name" using Cons.prems(3) e by simp
  ultimately show ?case using readdir_step [OF im Cons.prems(2) assms(1) _ assms(2)] e by (cases del) simp_all
qed

lemma wofs_readdir:
  assumes "wofs_ok (es @ es') free fs"
  shows "romfs_readdir_at fs (length (wofs_area es)) = Some (wofs_next es' (length (wofs_area es)))"
proof -
  have "wofs_area (es @ es') = wofs_area es @ wofs_area es'" by (simp add: wofs_area_def)
  then show ?thesis using readdir_files [of fs free "wofs_area es" es'] assms by (auto simp: wofs_ok_def wofs_image_def)
qed

lemma wofs_find_none:
  assumes "\<forall>e \<in> set es. same_name fname (fst e) \<longrightarrow> fst (snd e)"
  shows "wofs_find fname es at = FS_FILE_NOT_FOUND (at + length (wofs_area es))"
  using assms by (induction es arbitrary: at) auto

lemma wofs_find_append:
  assumes "\<forall>e \<in> set es. same_name fname (fst e) \<longrightarrow> fst (snd e)"
  shows "wofs_find fname (es @ es') at = wofs_find fname es' (at + length (wofs_area es))"
  using assms by (induction es arbitrary: at) (auto simp: add.assoc)

section \<open>Writing a file\<close>

lemma program_erased:
  assumes "\<And>x. prog 0xFF x = x" and "length d \<le> n"
  shows "program prog d (length A) (A @ replicate n 0xFF @ B) = Some (A @ d @ replicate (n - length d) 0xFF @ B)"
proof -
  have "map2 prog (replicate (length d) 0xFF) d = d"
    by (rule nth_equalityI) (simp_all add: assms(1))
  then show ?thesis using assms(2) by (simp add: program_def min_absorb2 drop_append)
qed

text \<open>A file that is being written through descriptor \<open>i\<close>: its name is there, the deleted and the size field are
  still erased, and \<open>data\<close> has been written.\<close>

definition wofs_writing :: "u8 \<Rightarrow> wofs_file list \<Rightarrow> u8 list \<Rightarrow> u8 list \<Rightarrow> nat \<Rightarrow> nat \<Rightarrow> romfs_state \<Rightarrow> fsdata \<Rightarrow> bool" where
  "wofs_writing lf es path data free i st fs \<longleftrightarrow>
     fs_image fs = wofs_area es @ path @ 0 # replicate (length (pad4 (length path + 1)) + 8) 0xFF @ data @ replicate free 0xFF
     \<and> romfsh_is_wofs fs \<and> 4 \<le> free \<and> fs_max_size fs = length (fs_image fs) \<and> fs_max_size fs mod 4 = 0 \<and> fs_max_size fs + 8 < 2 ^ 32
     \<and> (\<forall>e \<in> set es. name_ok (fst e))
     \<and> i < length (fd_table st) \<and> fd_table st ! i = \<lparr>baseaddr = length (wofs_area es) + length path + 1 + length (pad4 (length path + 1)) + 8,
         fd_offset = length data, fd_size = length data, fd_flags = lf\<rparr>"

definition new_file_flags :: open_flags where
  "new_file_flags = \<lparr>O_CREAT = True, O_EXCL = False, O_TRUNC = True, O_WRONLY = True, O_RDWR = False, O_APPEND = False\<rparr>"

definition read_flags :: open_flags where
  "read_flags = \<lparr>O_CREAT = False, O_EXCL = False, O_TRUNC = False, O_WRONLY = False, O_RDWR = False, O_APPEND = False\<rparr>"

lemma room_for_header:
  fixes n free :: nat
  assumes "free mod 4 = 0" and "n + 15 \<le> free"
  shows "n + 1 + length (pad4 (n + 1)) + 12 \<le> free"
proof -
  obtain k where k: "free = 4 * k" using assms(1) by (meson dvdE mod_0_imp_dvd)
  have aux: "4 * q + 15 \<le> 4 * k \<Longrightarrow> 4 * q + 16 \<le> 4 * k" for q by presburger
  show ?thesis by (rule pad4_cases [of "n + 1"]) (use assms(2) k aux in \<open>simp_all add: add.commute\<close>)
qed

lemma find_empty_fd_some:
  assumes "romfs_find_empty_fd st = Some i" and "length (fd_table st) = TOTAL_MAX_FDS"
  shows "i < length (fd_table st)" "\<forall>j < i. \<not> fd_unused (fd_table st ! j)"
  using assms by (auto simp: romfs_find_empty_fd_def find_Some_iff)

lemma romfs_open_new:
  assumes ok: "wofs_ok es free fs" and erased: "\<And>x. prog 0xFF x = x" and path: "name_ok path"
    and fresh: "\<forall>e \<in> set es. same_name path (fst e) \<longrightarrow> fst (snd e)"
    and fl: "O_CREAT fl" and wr: "may_write (access_flags fl) \<longrightarrow> fs_flags fs AND ROMFS_FS_FLAG_WRITING = 0"
    and st: "length (fd_table st) = TOTAL_MAX_FDS" "romfs_num_fd st < TOTAL_MAX_FDS"
    and i: "romfs_find_empty_fd st = Some i" and room: "length path + 15 \<le> free"
  shows "\<exists>st1 fs1. romfs_open_r (program prog) path fl st fs = Some (Inr i, st1, fs1)
    \<and> wofs_writing (access_flags fl) es path [] (free - (length path + 1 + length (pad4 (length path + 1)) + 8)) i st1 fs1
    \<and> romfs_num_fd st1 = romfs_num_fd st + 1
    \<and> (\<forall>x. (fd_table st1)[i := x] = (fd_table st)[i := x]) \<and> fs_flags fs1 AND ROMFS_FS_FLAG_WRITING \<noteq> 0"
proof -
  define E where "E = wofs_area es"
  define P where "P = length (pad4 (length path + 1))"
  have fs: "fs_image fs = E @ replicate free 0xFF" "romfsh_is_wofs fs" "fs_max_size fs = length E + free"
      "(length E + free) mod 4 = 0" "length E + free + 8 < 2 ^ 32" "\<forall>e \<in> set es. name_ok (fst e)"
    using ok by (auto simp: wofs_ok_def wofs_image_def E_def)
  have E4: "length E mod 4 = 0" by (simp add: E_def)
  then have free4: "free mod 4 = 0" using fs(4) by (metis mod_add_self2 add.left_neutral mod_add_left_eq)
  have rest: "length path + 1 + P + 12 \<le> free" unfolding P_def by (rule room_for_header [OF free4 room])
  have found: "romfs_open_file path fs 0 = Some (FS_FILE_NOT_FOUND (length E))"
    using wofs_search [OF ok, of path] wofs_find_none [OF fresh, of 0] by (simp add: E_def)
  obtain again where again: "romfs_open_file [1] fs 0 = Some again" using wofs_search [OF ok] by blast
  have again': "again = FS_FILE_NOT_FOUND l \<Longrightarrow> l = length E" for l
  proof -
    have "wofs_find fname es' at = FS_FILE_NOT_FOUND l \<Longrightarrow> l = at + length (wofs_area es')" for fname es' at l
      by (induction es' arbitrary: at) (auto simp: add.assoc [symmetric] split: if_splits)
    then show "again = FS_FILE_NOT_FOUND l \<Longrightarrow> l = length E"
      using again wofs_search [OF ok, of "[1]"] by (force simp: E_def)
  qed
  have first: "(case again of FS_FILE_NOT_FOUND l \<Rightarrow> Some l
      | FS_FILE_OK _ _ _ \<Rightarrow> (case FS_FILE_NOT_FOUND (length E) of FS_FILE_NOT_FOUND l \<Rightarrow> Some l | FS_FILE_OK _ _ _ \<Rightarrow> None)) = Some (length E)"
    using again' by (cases again) auto
  have space: "\<not> wrap32 (int (fs_max_size fs) - int (length E) + 1) < length path + 1 + 11 + 4"
    using fs(3,5) room by (subst wrap32_id) simp_all
  let ?m = "E @ (path @ [0]) @ replicate (free - length (path @ [0])) 0xFF"
  have w: "fs_writef (program prog) (path @ [0]) (length E) fs = Some (fs\<lparr>fs_image := ?m\<rparr>)"
    using program_erased [where prog = prog, OF erased, where d = "path @ [0]" and n = free and A = E and B = "[]"] fs(1) rest by (simp add: fs_writef_def)
  have base: "romfs_align (length E + length path + 1) + 8 = length E + length path + 1 + P + 8"
    using fs(5) rest pad4_shift [OF E4, of "length path + 1"] by (subst romfs_align_pad) (simp_all add: P_def)
  let ?f = "\<lparr>baseaddr = length E + length path + 1 + P + 8, fd_offset = 0, fd_size = 0, fd_flags = 0\<rparr>"
  let ?fs = "fs\<lparr>fs_image := ?m, fs_flags := fs_flags fs OR ROMFS_FS_FLAG_WRITING\<rparr>"
  have create: "romfs_create (program prog) path (FS_FILE_NOT_FOUND (length E)) st fs = Some (Inr (?f, i), ?fs)"
    using again first space w i base by (simp add: romfs_create_def)
  let ?st = "st\<lparr>fd_table := (fd_table st)[i := ?f\<lparr>fd_flags := access_flags fl\<rparr>], romfs_num_fd := romfs_num_fd st + 1\<rparr>"
  have open': "romfs_open_r (program prog) path fl st fs = Some (Inr i, ?st, ?fs)"
    using found create st(2) fs(2) wr fl unfolding romfs_open_r_def romfsh_is_wofs_def by auto
  have image: "?m = E @ path @ 0 # replicate (P + 8) 0xFF @ replicate (free - (length path + 1 + P + 8)) 0xFF"
    using rest by (simp flip: replicate_add)
  have wo: "romfsh_is_wofs ?fs" using fs(2) by (auto simp: romfsh_is_wofs_def bit_eq_iff bit_and_iff bit_or_iff)
  have "wofs_writing (access_flags fl) es path [] (free - (length path + 1 + P + 8)) i ?st ?fs"
    unfolding wofs_writing_def E_def [symmetric] P_def [symmetric]
    using image wo fs rest find_empty_fd_some [OF i st(1)] by auto
  moreover have "fs_flags ?fs AND ROMFS_FS_FLAG_WRITING \<noteq> 0"
  proof -
    have "(fs_flags fs OR ROMFS_FS_FLAG_WRITING) AND ROMFS_FS_FLAG_WRITING = ROMFS_FS_FLAG_WRITING"
      by (intro bit_word_eqI) (auto simp: bit_and_iff bit_or_iff)
    then show ?thesis by simp
  qed
  ultimately show ?thesis using open' unfolding P_def [symmetric] by (intro exI [of _ ?st] exI [of _ ?fs]) simp
qed

lemma romfs_write_more:
  assumes w: "wofs_writing lf es path data free i st fs" and erased: "\<And>x. prog 0xFF x = x" and room: "length d + 4 \<le> free"
    and lf: "may_write lf"
  shows "\<exists>st1 fs1. romfs_write_r (program prog) i d st fs = Some (Inr (length d), st1, fs1)
    \<and> wofs_writing lf es path (data @ d) (free - length d) i st1 fs1 \<and> fs_flags fs1 = fs_flags fs
    \<and> romfs_num_fd st1 = romfs_num_fd st \<and> (\<forall>x. (fd_table st1)[i := x] = (fd_table st)[i := x])"
proof -
  define H where "H = wofs_area es @ path @ 0 # replicate (length (pad4 (length path + 1)) + 8) 0xFF"
  define f where "f = fd_table st ! i"
  have lH: "length H = length (wofs_area es) + length path + 1 + length (pad4 (length path + 1)) + 8" by (simp add: H_def)
  have fs: "fs_image fs = H @ data @ replicate free 0xFF" "fs_max_size fs = length H + length data + free"
      "length H + length data + free + 8 < 2 ^ 32" "4 \<le> free" "i < length (fd_table st)"
    and f: "f = \<lparr>baseaddr = length H, fd_offset = length data, fd_size = length data, fd_flags = lf\<rparr>"
    using w unfolding wofs_writing_def lH f_def by (auto simp: H_def)
  have fit: "\<not> wrap32 (int (length H) + int (length data) + int (length d)) > wrap32 (int (fs_max_size fs) - 4)"
    using fs room by (subst wrap32_id, simp, simp, subst wrap32_id) simp_all
  let ?m = "H @ data @ d @ replicate (free - length d) 0xFF"
  have wr: "fs_writef (program prog) d (length data + length H) fs = Some (fs\<lparr>fs_image := ?m\<rparr>)"
    using program_erased [where prog = prog, OF erased, where d = d and n = free and A = "H @ data" and B = "[]"] fs(1) room
    by (simp add: fs_writef_def add.commute)
  let ?f = "f\<lparr>fd_offset := length data + length d, fd_size := length data + length d\<rparr>"
  let ?st = "st\<lparr>fd_table := (fd_table st)[i := ?f]\<rparr>"
  have fd: "fd_at i st = Some f" using fs(5) by (simp add: fd_at_def f_def)
  have "romfs_write_r (program prog) i d st fs = Some (Inr (length d), ?st, fs\<lparr>fs_image := ?m\<rparr>)"
    using fd lf fit wr unfolding romfs_write_r_def Let_def by (simp add: f add.commute)
  moreover have "wofs_writing lf es path (data @ d) (free - length d) i ?st (fs\<lparr>fs_image := ?m\<rparr>)"
    using w fs room unfolding wofs_writing_def by (simp add: H_def f romfsh_is_wofs_def)
  ultimately show ?thesis by (intro exI [of _ ?st] exI [of _ "fs\<lparr>fs_image := ?m\<rparr>"]) simp
qed

lemma romfs_close_written:
  assumes w: "wofs_writing lf es path data free i st fs" and erased: "\<And>x. prog 0xFF x = x" and path: "name_ok path"
    and lf: "may_write lf"
  shows "\<exists>fs1 free'. romfs_close_r (program prog) i st fs =
      Some (st\<lparr>fd_table := (fd_table st)[i := closed_fd], romfs_num_fd := romfs_num_fd st - 1\<rparr>, fs1)
    \<and> wofs_ok (es @ [(path, False, data)]) free' fs1 \<and> fs_flags fs1 AND ROMFS_FS_FLAG_WRITING = 0"
proof -
  define P Q where "P = length (pad4 (length path + 1))" and "Q = length (pad4 (length data))"
  define H where "H = wofs_area es @ path @ 0 # replicate (P + 4) 0xFF"
  define f where "f = fd_table st ! i"
  have rep: "replicate (P + 8) (0xFF :: u8) = replicate (P + 4) 0xFF @ replicate 4 0xFF" by (simp flip: replicate_add)
  have fs: "fs_image fs = H @ replicate 4 0xFF @ data @ replicate free 0xFF" "fs_max_size fs = length H + 4 + length data + free"
      "fs_max_size fs mod 4 = 0" "length H + length data + free + 12 < 2 ^ 32" "4 \<le> free" "i < length (fd_table st)"
      "romfsh_is_wofs fs" "\<forall>e \<in> set es. name_ok (fst e)"
    and f: "f = \<lparr>baseaddr = length H + 4, fd_offset = length data, fd_size = length data, fd_flags = lf\<rparr>"
    using w unfolding wofs_writing_def P_def [symmetric] f_def rep by (auto simp: H_def)
  let ?m = "H @ size_bytes (length data) @ data @ replicate free 0xFF"
  let ?fs = "fs\<lparr>fs_image := ?m, fs_flags := fs_flags fs AND NOT ROMFS_FS_FLAG_WRITING\<rparr>"
  have wr: "fs_writef (program prog) (size_bytes (length data)) (length H) fs = Some (fs\<lparr>fs_image := ?m\<rparr>)"
    using program_erased [where prog = prog, OF erased, where d = "size_bytes (length data)" and n = 4 and A = H
        and B = "data @ replicate free 0xFF"] fs(1)
    by (simp add: fs_writef_def)
  have fd: "fd_at i st = Some f" using fs(6) by (simp add: fd_at_def f_def)
  have close: "romfs_close_r (program prog) i st fs =
      Some (st\<lparr>fd_table := (fd_table st)[i := closed_fd], romfs_num_fd := romfs_num_fd st - 1\<rparr>, ?fs)"
    using fd wr lf by (simp add: romfs_close_r_def f romfs_close_fd_def)
  obtain a where "length (wofs_area (es @ [(path, False, data)])) = 4 * a"
    using wofs_area_mod by (meson dvdE mod_0_imp_dvd)
  moreover have len: "length (wofs_area (es @ [(path, False, data)])) = length H + 4 + length data + Q"
    by (simp add: H_def P_def Q_def wofs_entry_def wofs_header_def)
  moreover have "Q \<le> free" using length_pad4 [of "length data"] fs(5) by (simp add: Q_def)
  moreover obtain b where "fs_max_size fs = 4 * b" using fs(3) by (meson dvdE mod_0_imp_dvd)
  ultimately have "free - Q = 4 * (b - a)" using fs(2) by (simp add: right_diff_distrib')
  then have "(free - Q) mod 4 = 0" by simp
  moreover have "0 < free - Q" using length_pad4 [of "length data"] fs(5) by (simp add: Q_def)
  ultimately have Q4: "4 \<le> free - Q" by (metis dvd_imp_le mod_0_imp_dvd)
  have image: "?m = wofs_image (es @ [(path, False, data)]) (free - Q)"
  proof -
    have "replicate free (0xFF :: u8) = replicate Q 0xFF @ replicate (free - Q) 0xFF"
      using Q4 by (simp flip: replicate_add)
    moreover have "pad4 (length path + 1) = replicate P 0xFF" "pad4 (length data) = replicate Q 0xFF"
      by (simp_all add: P_def Q_def pad4_def)
    moreover have "replicate 4 (0xFF :: u8) = [0xFF, 0xFF, 0xFF, 0xFF]" by (simp add: numeral_eq_Suc)
    then have "replicate (P + 4) (0xFF :: u8) = replicate P 0xFF @ [0xFF, 0xFF, 0xFF, 0xFF]" by (simp only: replicate_add)
    ultimately show ?thesis by (simp add: wofs_image_def wofs_entry_def wofs_header_def H_def)
  qed
  have wo: "romfsh_is_wofs ?fs"
  proof -
    have "(fs_flags fs AND NOT ROMFS_FS_FLAG_WRITING) AND ROMFS_FS_FLAG_WO = fs_flags fs AND ROMFS_FS_FLAG_WO"
      by (simp add: and.assoc)
    then show ?thesis using fs(7) by (simp add: romfsh_is_wofs_def)
  qed
  have "wofs_ok (es @ [(path, False, data)]) (free - Q) ?fs"
  proof -
    have "length (wofs_image (es @ [(path, False, data)]) (free - Q)) = length H + 4 + length data + free"
      unfolding image [symmetric] by simp
    then show ?thesis unfolding wofs_ok_def using image wo fs Q4 path by simp
  qed
  moreover have "fs_flags ?fs AND ROMFS_FS_FLAG_WRITING = 0" by (simp add: and.assoc)
  ultimately show ?thesis using close by (intro exI [of _ ?fs] exI [of _ "free - Q"]) simp
qed

lemma romfs_open_existing:
  assumes ok: "wofs_ok es free fs" and found: "wofs_find path es 0 = FS_FILE_OK base fsz n"
    and st: "romfs_num_fd st < TOTAL_MAX_FDS" "romfs_find_empty_fd st = Some i"
  shows "romfs_open_r wr path read_flags st fs = Some (Inr i,
    st\<lparr>fd_table := (fd_table st)[i := \<lparr>baseaddr = base, fd_offset = 0, fd_size = fsz, fd_flags = ROMFS_FILE_FLAG_READ\<rparr>],
       romfs_num_fd := romfs_num_fd st + 1\<rparr>, fs)"
  using wofs_search [OF ok, of path] found st
  by (simp add: romfs_open_r_def read_flags_def access_flags_def may_write_def)

section \<open>Properties\<close>

text \<open>On a WOFS a new file can be created, written and closed, after which the file system holds it behind the files it
  had; it can be opened under its name, up to case, and read back.\<close>

lemma wofs_write_read:
  assumes ok: "wofs_ok es free fs" and erased: "\<And>x. prog 0xFF x = x" and path: "name_ok path"
    and fresh: "\<forall>e \<in> set es. same_name path (fst e) \<longrightarrow> fst (snd e)"
    and wr: "fs_flags fs AND ROMFS_FS_FLAG_WRITING = 0" and st: "length (fd_table st) = TOTAL_MAX_FDS" "romfs_num_fd st < TOTAL_MAX_FDS"
    and i: "romfs_find_empty_fd st = Some i" and room: "length path + length data + 16 \<le> free"
    and again: "same_name path' path" "\<forall>e \<in> set es. same_name path' (fst e) \<longrightarrow> fst (snd e)"
  shows "\<exists>st1 fs1 st2 fs2 st3 fs3 free' st4 st5.
    romfs_open_r (program prog) path new_file_flags st fs = Some (Inr i, st1, fs1)
    \<and> romfs_write_r (program prog) i data st1 fs1 = Some (Inr (length data), st2, fs2)
    \<and> romfs_close_r (program prog) i st2 fs2 = Some (st3, fs3) \<and> wofs_ok (es @ [(path, False, data)]) free' fs3
    \<and> romfs_open_r (program prog) path' read_flags st3 fs3 = Some (Inr i, st4, fs3)
    \<and> romfs_read_r i len st4 fs3 = Some (Inr (take len data), st5)"
proof -
  define P where "P = length (pad4 (length path + 1))"
  have fl: "O_CREAT new_file_flags" "access_flags new_file_flags = ROMFS_FILE_FLAG_WRITE" "may_write ROMFS_FILE_FLAG_WRITE"
    by (simp_all add: new_file_flags_def access_flags_def may_write_def)
  obtain st1 fs1 where 1: "romfs_open_r (program prog) path new_file_flags st fs = Some (Inr i, st1, fs1)"
      "wofs_writing ROMFS_FILE_FLAG_WRITE es path [] (free - (length path + 1 + P + 8)) i st1 fs1"
      "romfs_num_fd st1 = romfs_num_fd st + 1" "\<And>x. (fd_table st1)[i := x] = (fd_table st)[i := x]"
    using romfs_open_new [where prog = prog, OF ok erased path fresh fl(1) _ st i] wr room fl unfolding P_def by auto
  have "length data + 4 \<le> free - (length path + 1 + P + 8)"
    using room length_pad4 [of "length path + 1"] by (simp add: P_def)
  then obtain st2 fs2 where 2: "romfs_write_r (program prog) i data st1 fs1 = Some (Inr (length data), st2, fs2)"
      "wofs_writing ROMFS_FILE_FLAG_WRITE es path data (free - (length path + 1 + P + 8) - length data) i st2 fs2"
      "romfs_num_fd st2 = romfs_num_fd st1" "\<And>x. (fd_table st2)[i := x] = (fd_table st1)[i := x]"
    using romfs_write_more [where prog = prog, OF 1(2) erased _ fl(3), where d = data] by auto
  define st3 where "st3 = st2\<lparr>fd_table := (fd_table st2)[i := closed_fd], romfs_num_fd := romfs_num_fd st2 - 1\<rparr>"
  obtain fs3 free' where 3: "romfs_close_r (program prog) i st2 fs2 = Some (st3, fs3)" "wofs_ok (es @ [(path, False, data)]) free' fs3"
    using romfs_close_written [where prog = prog, OF 2(2) erased path fl(3)] unfolding st3_def by blast
  have tab: "fd_table st3 = (fd_table st)[i := closed_fd]" "romfs_num_fd st3 = romfs_num_fd st"
    using 1(3,4) 2(3,4) by (simp_all add: st3_def)
  have "romfs_find_empty_fd st3 = Some i"
    using find_empty_fd_some [OF i st(1)] tab(1) st(1)
    by (auto simp: romfs_find_empty_fd_def find_Some_iff fd_unused_def closed_fd_def intro!: exI [of _ i])
  moreover have "wofs_find path' (es @ [(path, False, data)]) 0 =
      FS_FILE_OK (length (wofs_area es) + length (wofs_header (path, False, data))) (length data) (length (wofs_area es))"
    using wofs_find_append [OF again(2), of "[(path, False, data)]" 0] again(1) by simp
  ultimately have 4: "romfs_open_r (program prog) path' read_flags st3 fs3 = Some (Inr i,
      st3\<lparr>fd_table := (fd_table st3)[i := \<lparr>baseaddr = length (wofs_area es) + length (wofs_header (path, False, data)), fd_offset = 0,
        fd_size = length data, fd_flags = ROMFS_FILE_FLAG_READ\<rparr>], romfs_num_fd := romfs_num_fd st3 + 1\<rparr>, fs3)"
    using romfs_open_existing [OF 3(2)] tab(2) st(2) by simp
  have im: "fs_image fs3 = wofs_area es @ wofs_header (path, False, data) @ data @ pad4 (length data) @ replicate free' 0xFF"
      "length data < 2 ^ 32"
    using 3(2) by (auto simp: wofs_ok_def wofs_image_def wofs_entry_def)
  have i8: "i < length (fd_table st3)" using find_empty_fd_some(1) [OF i st(1)] tab(1) by simp
  have "wrap32 (int (length data) - 0) = length data" using im(2) by (subst wrap32_id) simp_all
  moreover have "fetch (fs_image fs3) (length (wofs_area es) + length (wofs_header (path, False, data))) (min len (length data)) =
      Some (take len data)"
    by (simp add: fetch_def im(1) min_def)
  ultimately have "\<exists>st5. romfs_read_r i len (st3\<lparr>fd_table := (fd_table st3)[i := \<lparr>baseaddr = length (wofs_area es) +
      length (wofs_header (path, False, data)), fd_offset = 0, fd_size = length data, fd_flags = ROMFS_FILE_FLAG_READ\<rparr>],
      romfs_num_fd := romfs_num_fd st3 + 1\<rparr>) fs3 = Some (Inr (take len data), st5)"
    using i8 by (simp add: romfs_read_r_def fd_at_def)
  then show ?thesis using 1(1) 2(1) 3 4 by blast
qed

text \<open>Opening a file that does not exist with \<^verbatim>\<open>O_CREAT\<close> for reading only creates it, but closing it neither writes
  its size nor ends the writing: the size field stays erased and no file can be created on the file system any more.\<close>

theorem wofs_create_readonly_blocks:
  assumes ok: "wofs_ok es free fs" and erased: "\<And>x. prog 0xFF x = x" and path: "name_ok path"
    and fresh: "\<forall>e \<in> set es. same_name path (fst e) \<longrightarrow> fst (snd e)"
    and st: "length (fd_table st) = TOTAL_MAX_FDS" "romfs_num_fd st < TOTAL_MAX_FDS"
    and i: "romfs_find_empty_fd st = Some i" and room: "length path + 15 \<le> free"
    and fl: "O_CREAT fl" "\<not> O_WRONLY fl" "\<not> O_RDWR fl" "\<not> O_APPEND fl"
  shows "\<exists>st1 fs1 st2. romfs_open_r (program prog) path fl st fs = Some (Inr i, st1, fs1)
    \<and> romfs_close_r (program prog) i st1 fs1 = Some (st2, fs1) \<and> fs_flags fs1 AND ROMFS_FS_FLAG_WRITING \<noteq> 0
    \<and> fetch (fs_image fs1) (baseaddr (fd_table st1 ! i) - ROMFS_SIZE_LEN) ROMFS_SIZE_LEN = Some [0xFF, 0xFF, 0xFF, 0xFF]"
proof -
  have lf: "access_flags fl = ROMFS_FILE_FLAG_READ" "\<not> may_write ROMFS_FILE_FLAG_READ"
    using fl by (simp_all add: access_flags_def may_write_def)
  define P where "P = length (pad4 (length path + 1))"
  obtain st1 fs1 where 1: "romfs_open_r (program prog) path fl st fs = Some (Inr i, st1, fs1)"
      "wofs_writing ROMFS_FILE_FLAG_READ es path [] (free - (length path + 1 + P + 8)) i st1 fs1"
      "fs_flags fs1 AND ROMFS_FS_FLAG_WRITING \<noteq> 0"
    using romfs_open_new [where prog = prog, OF ok erased path fresh fl(1) _ st i room] lf unfolding P_def by auto
  define H where "H = wofs_area es @ path @ 0 # replicate (P + 4) 0xFF"
  have rep: "replicate (P + 8) (0xFF :: u8) = replicate (P + 4) 0xFF @ replicate 4 0xFF" by (simp flip: replicate_add)
  have w: "fs_image fs1 = H @ replicate 4 0xFF @ replicate (free - (length path + 1 + P + 8)) 0xFF" "i < length (fd_table st1)"
      "fd_table st1 ! i = \<lparr>baseaddr = length H + 4, fd_offset = 0, fd_size = 0, fd_flags = ROMFS_FILE_FLAG_READ\<rparr>"
    using 1(2) unfolding wofs_writing_def P_def [symmetric] rep by (auto simp: H_def)
  have "fetch (fs_image fs1) (length H) 4 = Some [0xFF, 0xFF, 0xFF, 0xFF]"
    unfolding w(1) by (simp add: fetch_def numeral_eq_Suc)
  moreover have "\<exists>st2. romfs_close_r (program prog) i st1 fs1 = Some (st2, fs1)"
    using w(2,3) lf(2) by (simp add: romfs_close_r_def fd_at_def)
  ultimately show ?thesis using 1(1,3) w(3) by auto
qed

definition example_wofs :: fsdata where
  "example_wofs = \<lparr>fs_image = replicate 256 0xFF, fs_flags = ROMFS_FS_FLAG_WO, fs_max_size = 256\<rparr>"

lemma example_wofs_ok: "wofs_ok [] 256 example_wofs" "fs_flags example_wofs AND ROMFS_FS_FLAG_WRITING = 0"
  by (simp_all add: wofs_ok_def wofs_image_def example_wofs_def romfsh_is_wofs_def)

lemma romfs_init_fds: "length (fd_table romfs_init) = 8" "romfs_num_fd romfs_init < 8" "romfs_find_empty_fd romfs_init = Some 0"
  by (simp_all add: romfs_init_def romfs_find_empty_fd_def fd_unused_def closed_fd_def upt_conv_Cons)

theorem wofs_create_readonly_blocks_witness:
  "\<exists>st1 fs1 st2. romfs_open_r (program (\<lambda>old new. new)) [0x61] (read_flags\<lparr>O_CREAT := True\<rparr>) romfs_init example_wofs = Some (Inr 0, st1, fs1)
    \<and> romfs_close_r (program (\<lambda>old new. new)) 0 st1 fs1 = Some (st2, fs1) \<and> fs_flags fs1 AND ROMFS_FS_FLAG_WRITING \<noteq> 0"
proof -
  have "name_ok [0x61]" by (simp add: name_ok_def)
  then show ?thesis
    using wofs_create_readonly_blocks [where prog = "\<lambda>old new. new" and fl = "read_flags\<lparr>O_CREAT := True\<rparr>", OF example_wofs_ok(1) _ _ _ romfs_init_fds,
        of "[0x61]"] by (auto simp: read_flags_def)
qed

end
