(* ===== verification/Vfs.thy ===== *)
theory Vfs
  imports Stubs Genstd Romfs Rfs_Client
begin

text \<open>
  The file systems of a board behind the system calls: the device structures of \<^verbatim>\<open>romfs.c\<close>, \<^verbatim>\<open>elua_rfs.c\<close> and \<^verbatim>\<open>genstd.c\<close>,
  and the registrations that \<^verbatim>\<open>main\<close> makes through \<^verbatim>\<open>dm_init\<close>, \<^verbatim>\<open>romfs_init\<close> and \<^verbatim>\<open>remotefs_init\<close> on a board with a
  serial console, WOFS, ROMFS and the remote file system (initialising a file system that is not
  built registers nothing). The world of the devices is the console, the descriptor table and images of
  the flash file systems and the remote client. The properties follow a program's calls from the path it opens down to
  the flash or to the file on the PC.
\<close>

section \<open>The world of the devices\<close>

record ('c, 'l) board =
  bd_console :: "'c std"
  bd_romfs :: romfs_state
  bd_wofs :: fsdata
  bd_rom :: fsdata
  bd_rfs :: "'l client"

record ('c, 'l) board_env =
  env_send :: "'c std_send"
  env_get :: "'c std_get"
  env_flash :: fs_write
  env_lib :: libc_flags
  env_link :: "'l rfsc_link"
  env_timeout :: nat
  env_real :: nat

text \<open>The private data of an instance and the handle of an open directory.\<close>

datatype dev_pdata = NO_PDATA | WOFS_FSDATA | ROMFS_FSDATA

datatype dir_handle = ROMFS_DIR_DATA | RFS_DIR u32

type_synonym ('c, 'l) dev = "(('c, 'l) board, dev_pdata, dir_handle) DM_DEVICE"

text \<open>A device function acts on its own part of the world.\<close>

definition lift_op :: "('w \<Rightarrow> 's) \<Rightarrow> ('s \<Rightarrow> 'w \<Rightarrow> 'w) \<Rightarrow> ('s, 'a) devop \<Rightarrow> ('w, 'a) devop" where
  "lift_op get put opr r =
     do { (a, r') \<leftarrow> opr \<lparr>reent_errno = reent_errno r, world = get (world r)\<rparr>;
          Some (a, \<lparr>reent_errno = reent_errno r', world = put (world r') (world r)\<rparr>) }"

definition lift_console :: "('c std, 'a) devop \<Rightarrow> (('c, 'l) board, 'a) devop" where
  "lift_console = lift_op bd_console (\<lambda>c w. w\<lparr>bd_console := c\<rparr>)"

definition console_device :: "('c, 'l) board_env \<Rightarrow> ('c, 'l) dev" where
  "console_device env = \<lparr>p_open_r = None, p_close_r = None,
     p_write_r = Some (\<lambda>fd d p. lift_console (std_write (Some (env_send env)) (Some (env_get env)) fd d p)),
     p_read_r = Some (\<lambda>fd n p. lift_console (std_read (Some (env_send env)) (Some (env_get env)) fd n p)),
     p_lseek_r = None, p_opendir_r = None, p_readdir_r = None, p_closedir_r = None, p_getaddr_r = None,
     p_mkdir_r = None, p_unlink_r = None, p_rmdir_r = None, p_rename_r = None\<rparr>"

section \<open>ROMFS and WOFS\<close>

definition fs_of :: "dev_pdata \<Rightarrow> ('c, 'l) board \<Rightarrow> fsdata" where
  "fs_of p w = (if p = WOFS_FSDATA then bd_wofs w else bd_rom w)"

definition put_fs :: "dev_pdata \<Rightarrow> romfs_state \<Rightarrow> fsdata \<Rightarrow> ('c, 'l) board reent \<Rightarrow> ('c, 'l) board reent" where
  "put_fs p s fs r = r\<lparr>world := (if p = WOFS_FSDATA then (world r)\<lparr>bd_romfs := s, bd_wofs := fs\<rparr>
     else (world r)\<lparr>bd_romfs := s, bd_rom := fs\<rparr>)\<rparr>"

text \<open>The bits of the flags and the seek mode that the code of ROMFS tests.\<close>

definition flags_of :: "libc_flags \<Rightarrow> u32 \<Rightarrow> open_flags" where
  "flags_of lib v = \<lparr>open_flags.O_CREAT = v AND libc_flags.O_CREAT lib \<noteq> 0, open_flags.O_EXCL = v AND libc_flags.O_EXCL lib \<noteq> 0,
     open_flags.O_TRUNC = v AND libc_flags.O_TRUNC lib \<noteq> 0, open_flags.O_WRONLY = v AND libc_flags.O_WRONLY lib \<noteq> 0,
     open_flags.O_RDWR = v AND libc_flags.O_RDWR lib \<noteq> 0, open_flags.O_APPEND = v AND libc_flags.O_APPEND lib \<noteq> 0\<rparr>"

definition seek_of :: "libc_flags \<Rightarrow> u32 \<Rightarrow> seek" where
  "seek_of lib v = (if v = libc_flags.SEEK_SET lib then seek.SEEK_SET else if v = libc_flags.SEEK_CUR lib then seek.SEEK_CUR
     else if v = libc_flags.SEEK_END lib then seek.SEEK_END else SEEK_OTHER)"

text \<open>An error is \<^verbatim>\<open>-1\<close> with the error code set.\<close>

definition int_result :: "errno + nat \<Rightarrow> ('c, 'l) board reent \<Rightarrow> int \<times> ('c, 'l) board reent" where
  "int_result res r = (case res of Inl e \<Rightarrow> (-1, set_errno e r) | Inr n \<Rightarrow> (int n, r))"

definition romfs_device :: "('c, 'l) board_env \<Rightarrow> ('c, 'l) dev" where
  "romfs_device env = \<lparr>
     p_open_r = Some (\<lambda>path flags mode p r.
       do { (res, s, fs) \<leftarrow> romfs_open_r (env_flash env) path (flags_of (env_lib env) flags) (bd_romfs (world r)) (fs_of p (world r));
            Some (int_result res (put_fs p s fs r)) }),
     p_close_r = Some (\<lambda>fd p r.
       do { (s, fs) \<leftarrow> romfs_close_r (env_flash env) (nat fd) (bd_romfs (world r)) (fs_of p (world r));
            Some (0, put_fs p s fs r) }),
     p_write_r = Some (\<lambda>fd d p r.
       do { (res, s, fs) \<leftarrow> romfs_write_r (env_flash env) (nat fd) d (bd_romfs (world r)) (fs_of p (world r));
            Some (int_result res (put_fs p s fs r)) }),
     p_read_r = Some (\<lambda>fd n p r.
       do { (res, s) \<leftarrow> romfs_read_r (nat fd) n (bd_romfs (world r)) (fs_of p (world r));
            Some (case res of Inl e \<Rightarrow> ((-1, []), set_errno e (put_fs p s (fs_of p (world r)) r))
                    | Inr d \<Rightarrow> ((int (length d), d), put_fs p s (fs_of p (world r)) r)) }),
     p_lseek_r = Some (\<lambda>fd off whence p r.
       do { (res, s) \<leftarrow> romfs_lseek_r (nat fd) off (seek_of (env_lib env) whence) (bd_romfs (world r));
            Some (res, put_fs p s (fs_of p (world r)) r) }),
     p_opendir_r = Some (\<lambda>name p r.
       (case romfs_opendir_r name (bd_romfs (world r)) of
          (ok, s) \<Rightarrow> Some (if ok then Some ROMFS_DIR_DATA else None, put_fs p s (fs_of p (world r)) r))),
     p_readdir_r = Some (\<lambda>d p r.
       do { (ent, s) \<leftarrow> romfs_readdir_r (bd_romfs (world r)) (fs_of p (world r));
            Some (map_option (\<lambda>(name, sz). \<lparr>dirent_fsize = of_nat sz, dirent_fname = name, dirent_ftime = 0, dirent_flags = 0\<rparr>) ent,
                  put_fs p s (fs_of p (world r)) r) }),
     p_closedir_r = Some (\<lambda>d p r. Some (0, put_fs p (romfs_closedir_r (bd_romfs (world r))) (fs_of p (world r)) r)),
     p_getaddr_r = Some (\<lambda>fd p r. map_option (\<lambda>a. (a, r)) (romfs_getaddr_r (nat fd) (bd_romfs (world r)) (fs_of p (world r)))),
     p_mkdir_r = None, p_unlink_r = None, p_rmdir_r = None, p_rename_r = None\<rparr>"

section \<open>The remote file system\<close>

definition put_rfs :: "'l client \<Rightarrow> ('c, 'l) board reent \<Rightarrow> ('c, 'l) board reent" where
  "put_rfs cl r = r\<lparr>world := (world r)\<lparr>bd_rfs := cl\<rparr>\<rparr>"

text \<open>Numbers of the protocol are 32-bit values that the C functions return as signed numbers.\<close>

definition rfs_device :: "('c, 'l) board_env \<Rightarrow> ('c, 'l) dev" where
  "rfs_device env = \<lparr>
     p_open_r = Some (\<lambda>path flags mode p r.
       do { (fd, cl) \<leftarrow> rfsc_open (env_link env) (env_timeout env) (env_lib env) path flags (word_of_int mode) (bd_rfs (world r));
            Some (sint fd, put_rfs cl r) }),
     p_close_r = Some (\<lambda>fd p r.
       do { (res, cl) \<leftarrow> rfsc_close (env_link env) (env_timeout env) (word_of_int fd) (bd_rfs (world r)); Some (sint res, put_rfs cl r) }),
     p_write_r = Some (\<lambda>fd d p r.
       do { (res, cl) \<leftarrow> rfs_write_r (env_link env) (env_timeout env) (env_real env) (word_of_int fd) d 0 (bd_rfs (world r));
            Some (sint res, put_rfs cl r) }),
     p_read_r = Some (\<lambda>fd n p r.
       do { (res, d, cl) \<leftarrow> rfs_read_r (env_link env) (env_timeout env) (env_real env) (word_of_int fd) n 0 [] (bd_rfs (world r));
            Some ((sint res, d), put_rfs cl r) }),
     p_lseek_r = Some (\<lambda>fd off whence p r.
       do { (res, cl) \<leftarrow> rfsc_lseek (env_link env) (env_timeout env) (env_lib env) (word_of_int fd) (word_of_int off) whence (bd_rfs (world r));
            Some (sint res, put_rfs cl r) }),
     p_opendir_r = Some (\<lambda>name p r.
       do { (d, cl) \<leftarrow> rfsc_opendir (env_link env) (env_timeout env) name (bd_rfs (world r));
            Some (if d = 0 then None else Some (RFS_DIR d), put_rfs cl r) }),
     p_readdir_r = Some (\<lambda>d p r. case d of ROMFS_DIR_DATA \<Rightarrow> None | RFS_DIR h \<Rightarrow>
       do { (ent, cl) \<leftarrow> rfs_readdir_r (env_link env) (env_timeout env) h (bd_rfs (world r));
            case ent of
              None \<Rightarrow> Some (None, put_rfs cl r)
            | Some (q, fsize, ftime) \<Rightarrow>
                do { name \<leftarrow> cstring_at (fst cl) q;
                     Some (Some \<lparr>dirent_fsize = fsize, dirent_fname = name, dirent_ftime = ftime, dirent_flags = 0\<rparr>, put_rfs cl r) } }),
     p_closedir_r = Some (\<lambda>d p r. case d of ROMFS_DIR_DATA \<Rightarrow> None | RFS_DIR h \<Rightarrow>
       do { (res, cl) \<leftarrow> rfsc_closedir (env_link env) (env_timeout env) h (bd_rfs (world r)); Some (sint res, put_rfs cl r) }),
     p_getaddr_r = None, p_mkdir_r = None, p_unlink_r = None, p_rmdir_r = None, p_rename_r = None\<rparr>"

section \<open>Start-up\<close>

definition "STD_DEV_NAME = [SLASH, 0x73, 0x74, 0x64]"
definition "WOFS_DEV_NAME = [SLASH, 0x77, 0x6F]"
definition "ROMFS_DEV_NAME = [SLASH, 0x72, 0x6F, 0x6D]"
definition "RFS_DEV_NAME = [SLASH, 0x72, 0x66, 0x73]"

definition std_register :: "('c, 'l) board_env \<Rightarrow> (('c, 'l) board, dev_pdata, dir_handle) devman \<Rightarrow> (('c, 'l) board, dev_pdata, dir_handle) devman" where
  "std_register env dm = snd (dm_register (Some STD_DEV_NAME) NO_PDATA (Some (console_device env)) dm)"

definition romfs_register :: "('c, 'l) board_env \<Rightarrow> (('c, 'l) board, dev_pdata, dir_handle) devman \<Rightarrow> (('c, 'l) board, dev_pdata, dir_handle) devman" where
  "romfs_register env dm =
     snd (dm_register (Some ROMFS_DEV_NAME) ROMFS_FSDATA (Some (romfs_device env))
       (snd (dm_register (Some WOFS_DEV_NAME) WOFS_FSDATA (Some (romfs_device env)) dm)))"

definition remotefs_init :: "('c, 'l) board_env \<Rightarrow> (('c, 'l) board, dev_pdata, dir_handle) devman \<Rightarrow> (('c, 'l) board, dev_pdata, dir_handle) devman" where
  "remotefs_init env dm = snd (dm_register (Some RFS_DEV_NAME) NO_PDATA (Some (rfs_device env)) dm)"

definition boot_devices :: "('c, 'l) board_env \<Rightarrow> (('c, 'l) board, dev_pdata, dir_handle) devman" where
  "boot_devices env = remotefs_init env (romfs_register env (std_register env dm_empty))"

section \<open>Lemmas\<close>

lemmas dev_names = STD_DEV_NAME_def WOFS_DEV_NAME_def ROMFS_DEV_NAME_def RFS_DEV_NAME_def

lemma dev_names_differ:
  "\<not> strcasecmp_eq WOFS_DEV_NAME STD_DEV_NAME" "\<not> strcasecmp_eq ROMFS_DEV_NAME STD_DEV_NAME" "\<not> strcasecmp_eq ROMFS_DEV_NAME WOFS_DEV_NAME"
  "\<not> strcasecmp_eq RFS_DEV_NAME STD_DEV_NAME" "\<not> strcasecmp_eq RFS_DEV_NAME WOFS_DEV_NAME" "\<not> strcasecmp_eq RFS_DEV_NAME ROMFS_DEV_NAME"
  by (simp_all add: dev_names strcasecmp_eq_def to_lower_def)

lemma dev_names_valid: "dm_name_valid STD_DEV_NAME" "dm_name_valid WOFS_DEV_NAME" "dm_name_valid ROMFS_DEV_NAME" "dm_name_valid RFS_DEV_NAME"
  by (simp_all add: dev_names dm_name_valid_def)

lemma boot_table:
  "dm_inv (boot_devices env)"
  "dm_entries (boot_devices env) = [\<lparr>dm_name = STD_DEV_NAME, dm_pdata = NO_PDATA, dm_pdev = console_device env\<rparr>,
     \<lparr>dm_name = WOFS_DEV_NAME, dm_pdata = WOFS_FSDATA, dm_pdev = romfs_device env\<rparr>,
     \<lparr>dm_name = ROMFS_DEV_NAME, dm_pdata = ROMFS_FSDATA, dm_pdev = romfs_device env\<rparr>,
     \<lparr>dm_name = RFS_DEV_NAME, dm_pdata = NO_PDATA, dm_pdev = rfs_device env\<rparr>]"
proof -
  define d1 where "d1 = std_register env dm_empty"
  define d2 where "d2 = snd (dm_register (Some WOFS_DEV_NAME) WOFS_FSDATA (Some (romfs_device env)) d1)"
  define d3 where "d3 = snd (dm_register (Some ROMFS_DEV_NAME) ROMFS_FSDATA (Some (romfs_device env)) d2)"
  have b: "boot_devices env = remotefs_init env d3"
    by (simp add: boot_devices_def romfs_register_def d1_def d2_def d3_def)
  have 1: "dm_inv d1" "dm_entries d1 = [\<lparr>dm_name = STD_DEV_NAME, dm_pdata = NO_PDATA, dm_pdev = console_device env\<rparr>]"
    using dm_register_ok [OF dm_empty_inv(1) dev_names_valid(1), of NO_PDATA "console_device env"]
    by (auto simp: d1_def std_register_def dm_empty_inv(2))
  have 2: "dm_inv d2" "dm_entries d2 = dm_entries d1 @ [\<lparr>dm_name = WOFS_DEV_NAME, dm_pdata = WOFS_FSDATA, dm_pdev = romfs_device env\<rparr>]"
    using dm_register_ok [OF 1(1) dev_names_valid(2), of WOFS_FSDATA "romfs_device env"] by (auto simp: d2_def 1(2) dev_names_differ)
  have 3: "dm_inv d3" "dm_entries d3 = dm_entries d2 @ [\<lparr>dm_name = ROMFS_DEV_NAME, dm_pdata = ROMFS_FSDATA, dm_pdev = romfs_device env\<rparr>]"
    using dm_register_ok [OF 2(1) dev_names_valid(3), of ROMFS_FSDATA "romfs_device env"] by (auto simp: d3_def 1(2) 2(2) dev_names_differ)
  show "dm_inv (boot_devices env)"
    "dm_entries (boot_devices env) = [\<lparr>dm_name = STD_DEV_NAME, dm_pdata = NO_PDATA, dm_pdev = console_device env\<rparr>,
     \<lparr>dm_name = WOFS_DEV_NAME, dm_pdata = WOFS_FSDATA, dm_pdev = romfs_device env\<rparr>,
     \<lparr>dm_name = ROMFS_DEV_NAME, dm_pdata = ROMFS_FSDATA, dm_pdev = romfs_device env\<rparr>,
     \<lparr>dm_name = RFS_DEV_NAME, dm_pdata = NO_PDATA, dm_pdev = rfs_device env\<rparr>]"
    using dm_register_ok [OF 3(1) dev_names_valid(4), of NO_PDATA "rfs_device env"]
    by (auto simp: b remotefs_init_def 1(2) 2(2) 3(2) dev_names_differ)
qed

lemma boot_paths:
  assumes "fname \<noteq> []"
  shows "find_dm_entry (Some (WOFS_DEV_NAME @ SLASH # fname)) (boot_devices env) = Some (1, fname)"
    "find_dm_entry (Some (ROMFS_DEV_NAME @ SLASH # fname)) (boot_devices env) = Some (2, fname)"
    "find_dm_entry (Some (RFS_DEV_NAME @ SLASH # fname)) (boot_devices env) = Some (3, fname)"
  using find_dm_entry_path [of "tl WOFS_DEV_NAME" fname "boot_devices env"] find_dm_entry_path [of "tl ROMFS_DEV_NAME" fname "boot_devices env"]
    find_dm_entry_path [of "tl RFS_DEV_NAME" fname "boot_devices env"] assms
    dm_index_some [OF boot_table(1), of WOFS_DEV_NAME env 1] dm_index_some [OF boot_table(1), of ROMFS_DEV_NAME env 2]
    dm_index_some [OF boot_table(1), of RFS_DEV_NAME env 3]
  by (simp_all add: boot_table(2) dev_names)

text \<open>A call on a descriptor of a device of the board.\<close>

lemma boot_call:
  assumes "0 \<le> fd" "fd < 2048"
  shows "dm_call opr run err (DM_MAKE_DESC 0 fd) (boot_devices env) r =
      (case opr (console_device env) of None \<Rightarrow> Some (err, set_errno ENOSYS r) | Some f \<Rightarrow> run f fd NO_PDATA r)"
    "dm_call opr run err (DM_MAKE_DESC 1 fd) (boot_devices env) r =
      (case opr (romfs_device env) of None \<Rightarrow> Some (err, set_errno ENOSYS r) | Some f \<Rightarrow> run f fd WOFS_FSDATA r)"
    "dm_call opr run err (DM_MAKE_DESC 3 fd) (boot_devices env) r =
      (case opr (rfs_device env) of None \<Rightarrow> Some (err, set_errno ENOSYS r) | Some f \<Rightarrow> run f fd NO_PDATA r)"
  using dm_call_desc [OF boot_table(1) _ assms, of 0 env opr run err r] dm_call_desc [OF boot_table(1) _ assms, of 1 env opr run err r]
    dm_call_desc [OF boot_table(1) _ assms, of 3 env opr run err r]
  by (simp_all add: boot_table(2) cong: option.case_cong)

lemma romfs_open_fd:
  assumes "romfs_open_r wr path fl s fs = Some (Inr i, s', fs')"
  shows "i < TOTAL_MAX_FDS"
proof -
  have "romfs_find_empty_fd s = Some i"
    using assms by (auto simp: romfs_open_r_def romfs_create_def Let_def
        split: if_splits option.splits fs_found.splits sum.splits prod.splits bind_splits)
  then show ?thesis by (auto simp: romfs_find_empty_fd_def find_Some_iff)
qed

interpretation romfs_dev: dm_device "romfs_device env" for env
proof
  fix f path flags mode p r fd r'
  assume "p_open_r (romfs_device env) = Some f" "f path flags mode p r = Some (fd, r')"
  then obtain res s fs where "romfs_open_r (env_flash env) path (flags_of (env_lib env) flags) (bd_romfs (world r)) (fs_of p (world r)) = Some (res, s, fs)"
      "(fd, r') = int_result res (put_fs p s fs r)"
    by (auto simp: romfs_device_def split: bind_splits)
  then show "fd < 2048" using romfs_open_fd by (cases res) (fastforce simp: int_result_def)+
qed

interpretation console_dev: dm_device "console_device env" for env
  by unfold_locales (simp add: console_device_def)

lemma put_fs_simps [simp]:
  "fs_of p (world (put_fs p s fs r)) = fs" "bd_romfs (world (put_fs p s fs r)) = s"
  by (simp_all add: fs_of_def put_fs_def)

text \<open>The flags of \<^verbatim>\<open>fopen( name, "w" )\<close> and \<^verbatim>\<open>fopen( name, "r" )\<close>.\<close>

abbreviation create_flags :: "libc_flags \<Rightarrow> u32" where
  "create_flags lib \<equiv> libc_flags.O_CREAT lib OR libc_flags.O_TRUNC lib OR libc_flags.O_WRONLY lib"

lemma flags_of_create:
  assumes "libc_ok lib"
  shows "flags_of lib (create_flags lib) = new_file_flags" "flags_of lib (libc_flags.O_RDONLY lib) = read_flags"
proof -
  have dist: "(x OR y) AND z = (x AND z) OR (y AND z)" for x y z :: u32 by (simp add: bit.conj_disj_distrib2)
  show "flags_of lib (create_flags lib) = new_file_flags"
    unfolding flags_of_def new_file_flags_def dist using assms by (simp add: libc_ok_def)
  show "flags_of lib (libc_flags.O_RDONLY lib) = read_flags"
    using assms by (simp add: flags_of_def read_flags_def libc_ok_def)
qed

text \<open>The calls on a WOFS file in terms of the functions of \<^verbatim>\<open>romfs.c\<close>.\<close>

lemma wofs_open_call:
  assumes "romfs_open_r (env_flash env) path (flags_of (env_lib env) flags) (bd_romfs (world r)) (bd_wofs (world r)) = Some (Inr i, s, fs)"
    and "path \<noteq> []"
  shows "open_file (Some (WOFS_DEV_NAME @ SLASH # path)) flags mode (boot_devices env) r = Some (DM_MAKE_DESC 1 (int i), put_fs WOFS_FSDATA s fs r)"
  using open_r_call [OF boot_table(1) boot_paths(1) [OF assms(2)], of env _ flags 0 r "int i" "put_fs WOFS_FSDATA s fs r"] assms(1)
  by (simp add: open_file_def boot_table(2) romfs_device_def fs_of_def int_result_def)

lemma wofs_write_call:
  assumes "romfs_write_r (env_flash env) i d (bd_romfs (world r)) (fs_of WOFS_FSDATA (world r)) = Some (Inr n, s, fs)" "i < 2048"
  shows "write_r (DM_MAKE_DESC 1 (int i)) d (boot_devices env) r = Some (int n, put_fs WOFS_FSDATA s fs r)"
  using assms by (simp add: write_r_def boot_call romfs_device_def int_result_def)

lemma wofs_close_call:
  assumes "romfs_close_r (env_flash env) i (bd_romfs (world r)) (fs_of WOFS_FSDATA (world r)) = Some (s, fs)" "i < 2048"
  shows "close_r (DM_MAKE_DESC 1 (int i)) (boot_devices env) r = Some (0, put_fs WOFS_FSDATA s fs r)"
  using assms by (simp add: close_r_def boot_call romfs_device_def)

lemma wofs_read_call:
  assumes "romfs_read_r i n (bd_romfs (world r)) (fs_of WOFS_FSDATA (world r)) = Some (Inr d, s)" "i < 2048"
  shows "read_r (DM_MAKE_DESC 1 (int i)) n (boot_devices env) r = Some ((int (length d), d), put_fs WOFS_FSDATA s (fs_of WOFS_FSDATA (world r)) r)"
  using assms by (simp add: read_r_def boot_call romfs_device_def)

lemma sint_small:
  fixes x :: u32
  assumes "uint x < 2 ^ 31"
  shows "sint x = uint x"
proof -
  have "- (2 ^ 31) \<le> uint x" by (rule order_trans [OF _ uint_ge_0]) simp
  then have "signed_take_bit 31 (uint x) = uint x" using assms by (rule signed_take_bit_int_eq_self)
  then show ?thesis by (simp add: sint_uint)
qed

section \<open>Properties\<close>

text \<open>C1: Through the system calls of a board that has started, a file created under \<^verbatim>\<open>/wo\<close>, written and closed can be opened
  again under its name, in any case of letters, and read: the program gets its data back from flash.
  Programming an erased byte is assumed to store the value.\<close>

theorem vfs_wofs_round_trip:
  assumes lib: "libc_ok (env_lib env)" and flash: "env_flash env = program prog" "\<And>x. prog 0xFF x = x"
    and fs: "wofs_ok es free (bd_wofs (world r))" "fs_flags (bd_wofs (world r)) AND ROMFS_FS_FLAG_WRITING = 0"
    and fds: "length (fd_table (bd_romfs (world r))) = TOTAL_MAX_FDS" "romfs_num_fd (bd_romfs (world r)) < TOTAL_MAX_FDS"
      "romfs_find_empty_fd (bd_romfs (world r)) = Some i"
    and path: "name_ok path" "same_name path' path" "path' \<noteq> []" "length path + length data + 16 \<le> free"
    and fresh: "\<forall>e \<in> set es. same_name path (fst e) \<or> same_name path' (fst e) \<longrightarrow> fst (snd e)"
  shows "\<exists>desc r1 r2 r3 r4 r5. open_file (Some (WOFS_DEV_NAME @ SLASH # path)) (create_flags (env_lib env)) mode (boot_devices env) r = Some (desc, r1)
    \<and> 0 \<le> desc \<and> write_r desc data (boot_devices env) r1 = Some (int (length data), r2)
    \<and> close_r desc (boot_devices env) r2 = Some (0, r3)
    \<and> open_file (Some (WOFS_DEV_NAME @ SLASH # path')) (libc_flags.O_RDONLY (env_lib env)) mode (boot_devices env) r3 = Some (desc, r4)
    \<and> read_r desc len (boot_devices env) r4 = Some ((int (length (take len data)), take len data), r5)"
proof -
  have fresh': "\<forall>e \<in> set es. same_name path (fst e) \<longrightarrow> fst (snd e)" "\<forall>e \<in> set es. same_name path' (fst e) \<longrightarrow> fst (snd e)"
    using fresh by auto
  obtain st1 fs1 st2 fs2 st3 fs3 st4 st5 where w:
    "romfs_open_r (program prog) path new_file_flags (bd_romfs (world r)) (bd_wofs (world r)) = Some (Inr i, st1, fs1)"
    "romfs_write_r (program prog) i data st1 fs1 = Some (Inr (length data), st2, fs2)"
    "romfs_close_r (program prog) i st2 fs2 = Some (st3, fs3)"
    "romfs_open_r (program prog) path' read_flags st3 fs3 = Some (Inr i, st4, fs3)"
    "romfs_read_r i len st4 fs3 = Some (Inr (take len data), st5)"
    using wofs_write_read [where prog = prog and data = data, OF fs(1) flash(2) path(1) fresh'(1) fs(2) fds path(4,2) fresh'(2)] by blast
  have i: "i < 2048" using fds(3) by (auto simp: romfs_find_empty_fd_def find_Some_iff)
  have ne: "path \<noteq> []" using path(1) by (auto simp: name_ok_def)
  define r1 where "r1 = put_fs WOFS_FSDATA st1 fs1 r"
  define r2 where "r2 = put_fs WOFS_FSDATA st2 fs2 r1"
  define r3 where "r3 = put_fs WOFS_FSDATA st3 fs3 r2"
  define r4 where "r4 = put_fs WOFS_FSDATA st4 fs3 r3"
  have b: "bd_wofs (world r3) = fs3" by (simp add: r3_def put_fs_def)
  have "open_file (Some (WOFS_DEV_NAME @ SLASH # path)) (create_flags (env_lib env)) mode (boot_devices env) r = Some (DM_MAKE_DESC 1 (int i), r1)"
    unfolding r1_def by (rule wofs_open_call [OF _ ne]) (simp add: flags_of_create [OF lib] flash(1) w(1))
  moreover have "write_r (DM_MAKE_DESC 1 (int i)) data (boot_devices env) r1 = Some (int (length data), r2)"
    unfolding r2_def by (rule wofs_write_call [OF _ i]) (simp add: r1_def flash(1) w(2))
  moreover have "close_r (DM_MAKE_DESC 1 (int i)) (boot_devices env) r2 = Some (0, r3)"
    unfolding r3_def by (rule wofs_close_call [OF _ i]) (simp add: r2_def flash(1) w(3))
  moreover have "open_file (Some (WOFS_DEV_NAME @ SLASH # path')) (libc_flags.O_RDONLY (env_lib env)) mode (boot_devices env) r3 =
      Some (DM_MAKE_DESC 1 (int i), r4)"
    unfolding r4_def by (rule wofs_open_call [OF _ path(3)]) (simp add: flags_of_create [OF lib] flash(1) b w(4), simp add: r3_def w(4))
  moreover have "read_r (DM_MAKE_DESC 1 (int i)) len (boot_devices env) r4 =
      Some ((int (length (take len data)), take len data), put_fs WOFS_FSDATA st5 (fs_of WOFS_FSDATA (world r4)) r4)"
    by (rule wofs_read_call [OF _ i]) (simp add: r4_def w(5))
  moreover have "0 \<le> DM_MAKE_DESC 1 (int i)" using i desc_parts(3) [of "int i" 1] by simp
  ultimately show ?thesis by blast
qed

text \<open>C2: Writing to a file under \<^verbatim>\<open>/rfs\<close> writes the whole buffer to the file of the PC, whatever its length: the path and the
  flags reach the operating system of the PC translated, the data arrive in order, and the results of the calls are
  those of a local file. The PC is assumed to give descriptors below 2048, to write what it is given.\<close>

theorem vfs_rfs_write:
  assumes link: "env_link env = server_link pc px basedir" "env_lib env = lib" "env_real env = real"
    and cl: "remote_ok n k w (bd_rfs (world r))" and sz: "length path + 35 \<le> n" "length path + 35 \<le> k" "real + 29 \<le> n" "real + 29 \<le> k"
      "n < 2 ^ 16" "0 < real"
    and path: "path \<noteq> []" "0 \<notin> set path" "server_path basedir path = Some full"
    and po: "px_open px full (os_open_realflags pc (os_open_sys_flags_to_rfs_flags lib flags)) w = (fd, w1)" and fd: "uint fd < 2048"
    and pw: "\<And>d w. px_write px fd d w = (of_nat (length d), wr d w)" "\<And>w. wr [] w = w" "\<And>c d w. wr (c @ d) w = wr d (wr c w)"
    and pc: "px_close px fd (wr data w1) = (0, w2)" and len: "length data < 2 ^ 31"
  shows "\<exists>desc r1 r2 r3. open_file (Some (RFS_DEV_NAME @ SLASH # path)) flags mode (boot_devices env) r = Some (desc, r1) \<and> 0 \<le> desc
    \<and> write_r desc data (boot_devices env) r1 = Some (int (length data), r2)
    \<and> close_r desc (boot_devices env) r2 = Some (0, r3) \<and> remote_ok n k w2 (bd_rfs (world r3))"
proof -
  define desc where "desc = DM_MAKE_DESC 3 (uint fd)"
  have s: "sint fd = uint fd" using fd by (simp add: sint_small)
  have total: "sint (0 + of_nat (length data) :: u32) = int (length data)"
    using len sint_small [of "of_nat (length data)"] by (simp add: uint_nat unat_of_nat)
  obtain cl1 where 1: "rfsc_open (server_link pc px basedir) (env_timeout env) lib path flags 0 (bd_rfs (world r)) = Some (fd, cl1)" "remote_ok n k w1 cl1"
    using remote_open [OF cl sz(1,2,5) path(2,3) po] by blast
  obtain cl2 where 2: "rfs_write_r (server_link pc px basedir) (env_timeout env) real fd data 0 cl1 = Some (0 + of_nat (length data), cl2)"
      "remote_ok n k (wr data w1) cl2"
    using remote_write_r [OF sz(3,4,5,6) pw 1(2)] by blast
  obtain cl3 where 3: "rfsc_close (server_link pc px basedir) (env_timeout env) fd cl2 = Some (0, cl3)" "remote_ok n k w2 cl3"
    using remote_close [OF 2(2) _ _ sz(5) pc] sz by fastforce
  have "open_file (Some (RFS_DEV_NAME @ SLASH # path)) flags mode (boot_devices env) r = Some (desc, put_rfs cl1 r)"
    using open_r_call [OF boot_table(1) boot_paths(3) [OF path(1)], of env _ flags 0 r "uint fd" "put_rfs cl1 r"] 1(1)
    by (simp add: open_file_def desc_def boot_table(2) rfs_device_def link s)
  moreover have "write_r desc data (boot_devices env) (put_rfs cl1 r) = Some (int (length data), put_rfs cl2 (put_rfs cl1 r))"
    using fd 2(1) total by (simp add: write_r_def desc_def boot_call rfs_device_def link s put_rfs_def)
  moreover have "close_r desc (boot_devices env) (put_rfs cl2 (put_rfs cl1 r)) = Some (0, put_rfs cl3 (put_rfs cl2 (put_rfs cl1 r)))"
    using fd 3(1) by (simp add: close_r_def desc_def boot_call rfs_device_def link s put_rfs_def)
  moreover have "0 \<le> desc" using fd desc_parts(3) [of "uint fd" 3] by (simp add: desc_def)
  ultimately show ?thesis using 3(2) by (auto simp: put_rfs_def)
qed

text \<open>After the start the three standard descriptors are the console's: what a program writes to standard output or standard error
  appears on it with a carriage return before every newline, and reading standard input returns the line
  that was typed and leaves the rest for the next read.\<close>

theorem vfs_console:
  assumes env: "env_send env = term_send" "env_get env = term_get" and fd: "fd = 1 \<or> fd = 2"
    and input: "unread (std_prev_char (bd_console (world r))) (console (bd_console (world r))) = cs @ e # rest" "e = 13 \<or> e = 10"
      "\<forall>c \<in> set cs. 0 \<le> c \<and> c \<notin> {10, 13, 26}" "\<forall>k \<le> length cs. length (line_edit [] (take k cs)) < len"
  shows "(\<exists>r'. write_r fd data (boot_devices env) r = Some (int (length data), r') \<and> fst (console (bd_console (world r'))) = fst (console (bd_console (world r)))
      \<and> snd (console (bd_console (world r'))) = snd (console (bd_console (world r)))
          @ concat (map (\<lambda>c. if c = 10 then [(fd, 13), (fd, 10)] else [(fd, c)]) data))
    \<and> (\<exists>r'. read_r 0 len (boot_devices env) r = Some ((int (length (line_edit [] cs)) + 1, line_edit [] cs @ [10]), r')
      \<and> unread (std_prev_char (bd_console (world r'))) (console (bd_console (world r'))) = after_eol e rest)"
proof -
  have d: "fd = DM_MAKE_DESC 0 fd" "0 = DM_MAKE_DESC 0 0" using fd by (auto simp: DM_MAKE_DESC_def)
  obtain prev' w' where rl: "std_read_loop term_send term_get len [] (std_prev_char (bd_console (world r))) (console (bd_console (world r))) =
      Some ((int (length (line_edit [] cs)) + 1, line_edit [] cs @ [10]), prev', w')" "unread prev' w' = after_eol e rest"
    using read_loop_line [OF input] by blast
  have "\<exists>r'. read_r (DM_MAKE_DESC 0 0) len (boot_devices env) r = Some ((int (length (line_edit [] cs)) + 1, line_edit [] cs @ [10]), r')
      \<and> unread (std_prev_char (bd_console (world r'))) (console (bd_console (world r'))) = after_eol e rest"
    using rl by (simp add: read_r_def boot_call console_device_def env lift_console_def lift_op_def std_read_def)
  moreover have "\<exists>r'. write_r (DM_MAKE_DESC 0 fd) data (boot_devices env) r = Some (int (length data), r')
      \<and> fst (console (bd_console (world r'))) = fst (console (bd_console (world r)))
      \<and> snd (console (bd_console (world r'))) = snd (console (bd_console (world r)))
          @ concat (map (\<lambda>c. if c = 10 then [(fd, 13), (fd, 10)] else [(fd, c)]) data)"
    using fd by (auto simp: write_r_def boot_call console_device_def env lift_console_def lift_op_def std_write_def std_put_terminal)
  ultimately show ?thesis using d by simp
qed

text \<open>C38: Every descriptor that opening a file under \<^verbatim>\<open>/wo\<close> or \<^verbatim>\<open>/rom\<close> returns names that device and one of the eight entries of the
  descriptor table of the flash file systems.\<close>

theorem vfs_flash_descriptors:
  assumes path: "path \<noteq> []" and dev: "dev = WOFS_DEV_NAME \<and> i = 1 \<or> dev = ROMFS_DEV_NAME \<and> i = 2"
    and o: "open_file (Some (dev @ SLASH # path)) flags mode (boot_devices env) r = Some (desc, r')" and ok: "0 \<le> desc"
  shows "DM_GET_DEVID desc = i \<and> 0 \<le> DM_GET_FD desc \<and> DM_GET_FD desc < int TOTAL_MAX_FDS"
proof -
  define j where "j = nat i"
  have j: "i = int j" "find_dm_entry (Some (dev @ SLASH # path)) (boot_devices env) = Some (j, path)"
      "dm_pdev (dm_entries (boot_devices env) ! j) = romfs_device env"
    using dev boot_paths(1,2) [OF path, of env] by (auto simp: j_def boot_table(2))
  obtain f where f: "p_open_r (romfs_device env) = Some f" by (simp add: romfs_device_def)
  obtain fd where fd: "0 \<le> fd" "fd < 2048" "desc = DM_MAKE_DESC (int j) fd"
      "f path flags 0 (dm_pdata (dm_entries (boot_devices env) ! j)) r = Some (fd, r')"
    using romfs_dev.open_call [OF boot_table(1) j(2,3) _ ok f] o unfolding open_file_def by blast
  have "fd < int TOTAL_MAX_FDS"
    using fd(1,4) f romfs_open_fd by (fastforce simp: romfs_device_def int_result_def split: bind_splits sum.splits)
  then show ?thesis using fd(1-3) desc_parts(1,2) [OF fd(1,2)] j(1) by simp
qed

section \<open>A board\<close>

definition example_env :: "(terminal, (u8 list \<times> nat) server_link_state) board_env" where
  "example_env = \<lparr>env_send = term_send, env_get = term_get, env_flash = program (AND), env_lib = newlib_flags,
     env_link = server_link linux_flags tape_posix [SLASH], env_timeout = 1000, env_real = 99\<rparr>"

definition example_board :: "(terminal, (u8 list \<times> nat) server_link_state) board reent" where
  "example_board = \<lparr>reent_errno = None, world = \<lparr>bd_console = \<lparr>std_prev_char = -1, console = ([0x68, 0x69, 13, 10], [])\<rparr>,
     bd_romfs = romfs_init, bd_wofs = example_wofs, bd_rom = example_wofs, bd_rfs = example_client\<rparr>\<rparr>"

lemma and_erased: "(0xFF :: u8) AND x = x"
proof -
  have eq: "(0xFF :: u8) = -1" by simp
  show ?thesis unfolding eq by (rule and.left_neutral)
qed

theorem vfs_wofs_round_trip_witness:
  "\<exists>desc r1 r2 r3 r4 r5. open_file (Some (WOFS_DEV_NAME @ SLASH # [0x61])) (create_flags newlib_flags) 0 (boot_devices example_env) example_board = Some (desc, r1)
    \<and> write_r desc [1, 2, 3] (boot_devices example_env) r1 = Some (3, r2) \<and> close_r desc (boot_devices example_env) r2 = Some (0, r3)
    \<and> open_file (Some (WOFS_DEV_NAME @ SLASH # [0x41])) 0 0 (boot_devices example_env) r3 = Some (desc, r4)
    \<and> read_r desc 10 (boot_devices example_env) r4 = Some ((3, [1, 2, 3]), r5)"
proof -
  have "name_ok [0x61]" "same_name [0x41] [0x61]" by (simp_all add: name_ok_def same_name_def to_lower_def)
  moreover have b: "bd_wofs (world example_board) = example_wofs" "bd_romfs (world example_board) = romfs_init" "env_lib example_env = newlib_flags"
    "env_flash example_env = program (AND)" "libc_flags.O_RDONLY newlib_flags = 0"
    by (simp_all add: example_board_def example_env_def newlib_flags_def)
  ultimately show ?thesis
    using vfs_wofs_round_trip [where env = example_env and r = example_board and prog = "(AND)" and es = "[]" and free = 256 and i = 0 and path = "[0x61]"
        and path' = "[0x41]" and data = "[1, 2, 3]" and len = 10 and mode = 0] libc_flags_ok(1) example_wofs_ok romfs_init_fds and_erased
    by (simp add: b) blast
qed

theorem vfs_rfs_write_witness:
  "\<exists>desc r1 r2 r3. open_file (Some (RFS_DEV_NAME @ SLASH # [0x61])) 1 0 (boot_devices example_env) example_board = Some (desc, r1)
    \<and> write_r desc (replicate 150 7) (boot_devices example_env) r1 = Some (150, r2)
    \<and> close_r desc (boot_devices example_env) r2 = Some (0, r3) \<and> remote_ok 256 128 (replicate 150 7, 0) (bd_rfs (world r3))"
proof -
  have e: "env_link example_env = server_link linux_flags tape_posix [SLASH]" "env_lib example_env = newlib_flags" "env_real example_env = 99"
    "bd_rfs (world example_board) = example_client"
    by (simp_all add: example_env_def example_board_def)
  from vfs_rfs_write [OF e(1-3), of 256 128 "([], 0)" example_board "[0x61]" "[SLASH, 0x61]" 1 3 "([], 0)" tape_write "replicate 150 7" "(replicate 150 7, 0)" 0]
  show ?thesis using example_client_ok e(4) by (simp add: tape_posix_def tape_write_def server_path_def) blast
qed

theorem vfs_console_witness:
  "\<exists>r'. read_r 0 80 (boot_devices example_env) example_board = Some ((3, [0x68, 0x69, 10]), r')"
proof -
  have "\<forall>k \<le> length [0x68, 0x69 :: int]. length (line_edit [] (take k [0x68, 0x69])) < 80" by (auto simp: le_Suc_eq isprint_def)
  then show ?thesis
    using vfs_console [of example_env 1 example_board "[0x68, 0x69]" 13 "[10]" 80 "[]"]
    by (auto simp: example_env_def example_board_def unread_def isprint_def)
qed

theorem vfs_flash_descriptors_witness:
  "\<exists>desc r'. open_file (Some (WOFS_DEV_NAME @ SLASH # [0x61])) (create_flags newlib_flags) 0 (boot_devices example_env) example_board = Some (desc, r')
    \<and> DM_GET_DEVID desc = 1 \<and> DM_GET_FD desc < 8"
proof -
  have "\<exists>s fs. romfs_open_r (program (AND)) [0x61] new_file_flags romfs_init example_wofs = Some (Inr 0, s, fs)"
    using wofs_write_read [where prog = "(AND)" and data = "[]" and path = "[0x61]" and path' = "[0x61]" and len = 0, OF example_wofs_ok(1) and_erased _ _ example_wofs_ok(2) romfs_init_fds]
    by (auto simp: name_ok_def same_name_def)
  then obtain s fs where 1: "romfs_open_r (program (AND)) [0x61] new_file_flags romfs_init example_wofs = Some (Inr 0, s, fs)" by blast
  have o: "open_file (Some (WOFS_DEV_NAME @ SLASH # [0x61])) (create_flags newlib_flags) 0 (boot_devices example_env) example_board =
      Some (DM_MAKE_DESC 1 0, put_fs WOFS_FSDATA s fs example_board)"
    using wofs_open_call [of example_env "[0x61]" "create_flags newlib_flags" example_board 0 s fs] 1 flags_of_create(1) [OF libc_flags_ok(1)]
    by (simp add: example_env_def example_board_def)
  then show ?thesis using vfs_flash_descriptors [OF _ _ o, of 1] desc_parts(3) [of 0 1] by auto
qed

end
