(* ===== verification/Common_Fs.thy ===== *)
theory Common_Fs
  imports Vfs
begin

text \<open>
  Paths and directory walks for the commands of the shell, \<^verbatim>\<open>src/common_fs.c\<close>: matching names with wild cards, taking paths
  apart and joining them, and the walk that calls a function for each entry. Directories are those of the device manager;
  the walk over a directory of the WOFS is followed down to the image in flash. Whether \<^verbatim>\<open>malloc\<close> finds memory and whether \<^verbatim>\<open>fopen\<close> can open
  a file are parameters; so is the value of the local variable \<^verbatim>\<open>hasdirs\<close>, which the code does not initialise.
\<close>

section \<open>Patterns\<close>

abbreviation "STAR \<equiv> (0x2A :: u8)"
abbreviation "QMARK \<equiv> (0x3F :: u8)"

lemma dropWhile_Cons_length: "dropWhile P xs = y # ys \<Longrightarrow> length ys < length xs"
  using length_dropWhile_le[of P xs] by simp

function cmn_pattern_matches :: "u8 list \<Rightarrow> u8 list \<Rightarrow> bool" where
  "cmn_pattern_matches str [] = (str = [])"
| "cmn_pattern_matches str (c # ps) =
     (if c = STAR then
        (case dropWhile (\<lambda>x. x = QMARK) ps of
           [] \<Rightarrow> True
         | q # qs \<Rightarrow> (case dropWhile (\<lambda>x. x \<noteq> q) str of [] \<Rightarrow> False | _ # rest \<Rightarrow> cmn_pattern_matches rest qs))
      else if c = QMARK then (case str of [] \<Rightarrow> False | _ # rest \<Rightarrow> cmn_pattern_matches rest ps)
      else (case str of [] \<Rightarrow> False | x # rest \<Rightarrow> c = x \<and> cmn_pattern_matches rest ps))"
  by pat_completeness auto
termination
  by (relation "measure (\<lambda>(str, ps). length ps)") (auto dest!: dropWhile_Cons_length)

section \<open>Paths\<close>

text \<open>The part after the last slash.\<close>

definition base_name :: "u8 list \<Rightarrow> u8 list" where
  "base_name path = rev (takeWhile (\<lambda>c. c \<noteq> SLASH) (rev path))"

definition cmn_fs_split_path :: "bool \<Rightarrow> (u8 list \<Rightarrow> ('w, bool) devop) \<Rightarrow> u8 list option \<Rightarrow> ('w, (u8 list \<times> u8 list) option) devop" where
  "cmn_fs_split_path mem fopen path r =
     (let result = (\<lambda>dir mask r. Some (if mem then Some (dir, mask) else None, r))
      in case path of
           None \<Rightarrow> Some (None, r)
         | Some p \<Rightarrow>
             if length p < 2 \<or> hd p \<noteq> SLASH then Some (None, r)
             else if SLASH \<notin> set (tl p) then result p [STAR] r
             else if last p = SLASH then result (butlast p) [STAR] r
             else let dir = take (length p - length (base_name p) - 1) p
                  in if STAR \<in> set p \<or> QMARK \<in> set p then result dir (base_name p) r
                     else do { (opened, r1) \<leftarrow> fopen p r;
                               if opened then result dir (base_name p) r1 else result p [STAR] r1 })"

datatype fs_type = CMN_FS_TYPE_DIR | CMN_FS_TYPE_FILE | CMN_FS_TYPE_PATTERN | CMN_FS_TYPE_ERROR
  | CMN_FS_TYPE_FILE_NOT_FOUND | CMN_FS_TYPE_DIR_NOT_FOUND | CMN_FS_TYPE_UNKNOWN_NOT_FOUND

definition cmn_fs_get_type ::
  "bool \<Rightarrow> (u8 list \<Rightarrow> ('w, bool) devop) \<Rightarrow> u8 list option \<Rightarrow> ('w, 'p, 'd) devman \<Rightarrow> ('w, fs_type) devop" where
  "cmn_fs_get_type mem fopen path dm r =
     (case path of
        None \<Rightarrow> Some (CMN_FS_TYPE_ERROR, r)
      | Some p \<Rightarrow>
          if length p < 2 \<or> hd p \<noteq> SLASH then Some (CMN_FS_TYPE_ERROR, r)
          else if SLASH \<notin> set (tl p) then Some (CMN_FS_TYPE_DIR, r)
          else if last p = SLASH then
            do { (d, r1) \<leftarrow> dm_opendir mem p dm r;
                 case d of None \<Rightarrow> Some (CMN_FS_TYPE_DIR_NOT_FOUND, r1)
                 | Some d \<Rightarrow> do { (_, r2) \<leftarrow> dm_closedir d dm r1; Some (CMN_FS_TYPE_DIR, r2) } }
          else if STAR \<in> set p \<or> QMARK \<in> set p then Some (CMN_FS_TYPE_PATTERN, r)
          else do { (opened, r1) \<leftarrow> fopen p r;
                    if opened then Some (CMN_FS_TYPE_FILE, r1)
                    else do { (d, r2) \<leftarrow> dm_opendir mem p dm r1;
                              case d of None \<Rightarrow> Some (CMN_FS_TYPE_UNKNOWN_NOT_FOUND, r2)
                              | Some d \<Rightarrow> do { (_, r3) \<leftarrow> dm_closedir d dm r2; Some (CMN_FS_TYPE_DIR, r3) } } })"

text \<open>The arguments up to the terminating NULL are a list. \<open>strcat_in\<close> appends inside an array of \<open>cap\<close> bytes.\<close>

definition lastchar :: "u8 list \<Rightarrow> u8" where
  "lastchar s = (if s = [] then 0 else last s)"

definition firstchar :: "u8 list \<Rightarrow> u8" where
  "firstchar s = (if s = [] then 0 else hd s)"

definition strcat_in :: "nat \<Rightarrow> u8 list \<Rightarrow> u8 list \<Rightarrow> u8 list option" where
  "strcat_in cap res s = (if length res + length s + 1 \<le> cap then Some (res @ s) else None)"

definition join_size :: "u8 list \<Rightarrow> nat" where
  "join_size tmp = (if tmp = [] then 0
     else length tmp + (if lastchar tmp = SLASH then 0 else 1) - (if firstchar tmp = SLASH then 1 else 0))"

fun join_loop :: "nat \<Rightarrow> u8 list list \<Rightarrow> u8 list \<Rightarrow> u8 list option" where
  "join_loop cap [] res = Some res"
| "join_loop cap (tmp # parts) res =
     (if tmp = [] then join_loop cap parts res
      else do { res1 \<leftarrow> strcat_in cap res (if firstchar tmp = SLASH then tl tmp else tmp);
                res2 \<leftarrow> (if lastchar res1 \<noteq> SLASH then strcat_in cap res1 [SLASH] else Some res1);
                join_loop cap parts res2 })"

definition cmn_fs_path_join :: "bool \<Rightarrow> u8 list list \<Rightarrow> u8 list option option" where
  "cmn_fs_path_join mem parts =
     (let total = sum_list (map join_size parts)
      in if total = 0 \<or> \<not> mem then Some None
         else do { res \<leftarrow> join_loop (total + 2) parts [SLASH]; Some (Some (butlast res)) })"

definition cmn_fs_is_root_dir :: "u8 list option \<Rightarrow> bool" where
  "cmn_fs_is_root_dir path =
     (case path of
        None \<Rightarrow> False
      | Some p \<Rightarrow> p \<noteq> [] \<and> hd p = SLASH \<and>
          (case dropWhile (\<lambda>c. c \<noteq> SLASH) (tl p) of [] \<Rightarrow> True | _ # rest \<Rightarrow> rest = []))"

definition cmn_fs_check_directory :: "bool \<Rightarrow> u8 list \<Rightarrow> ('w, 'p, 'd) devman \<Rightarrow> ('w, bool) devop" where
  "cmn_fs_check_directory mem path dm r =
     do { (d, r1) \<leftarrow> dm_opendir mem path dm r;
          case d of None \<Rightarrow> Some (False, r1) | Some d \<Rightarrow> do { (_, r2) \<leftarrow> dm_closedir d dm r1; Some (True, r2) } }"

section \<open>Walking\<close>

datatype fs_info = CMN_FS_INFO_BEFORE_READDIR | CMN_FS_INFO_INSIDE_READDIR | CMN_FS_INFO_AFTER_CLOSEDIR | CMN_FS_INFO_MEMORY_ERROR
  | CMN_FS_INFO_OPENDIR_FAILED | CMN_FS_INFO_READDIR_FAILED | CMN_FS_INFO_DIRECTORY_DONE

text \<open>The callback may use the devices itself; \<^verbatim>\<open>pdata\<close> is its state.\<close>

type_synonym ('w, 's) walker_cb = "u8 list \<Rightarrow> dm_dirent option \<Rightarrow> fs_info \<Rightarrow> 'w reent \<Rightarrow> 's \<Rightarrow> (bool \<times> 'w reent \<times> 's) option"

definition is_dir :: "dm_dirent \<Rightarrow> bool" where
  "is_dir e \<longleftrightarrow> dirent_flags e AND 1 \<noteq> 0"

text \<open>What stays the same during a walk.\<close>

record ('w, 'p, 'd, 's) walk =
  wk_mem :: "u8 list \<Rightarrow> bool"
  wk_hasdirs :: "u8 list \<Rightarrow> bool"
  wk_dm :: "('w, 'p, 'd) devman"
  wk_pattern :: "u8 list"
  wk_cb :: "('w, 's) walker_cb"

text \<open>The first loop: \<^const>\<open>None\<close> in the result is the jump to \<^verbatim>\<open>abort\<close>, otherwise it is the value of \<^verbatim>\<open>hasdirs\<close>.\<close>

partial_function (option) walk_entries ::
  "('w, 'p, 'd, 's) walk \<Rightarrow> u8 list \<Rightarrow> 'd DM_DIR \<Rightarrow> bool \<Rightarrow> 'w reent \<Rightarrow> 's \<Rightarrow> (bool option \<times> 'w reent \<times> 's) option" where
  "walk_entries w path d hasdirs r s =
     do { (ent, r1) \<leftarrow> dm_readdir d (wk_dm w) r;
          case ent of
            None \<Rightarrow> Some (Some hasdirs, r1, s)
          | Some e \<Rightarrow>
              if \<not> cmn_pattern_matches (dirent_fname e) (wk_pattern w) then walk_entries w path d hasdirs r1 s
              else do { (go, r2, s1) \<leftarrow> wk_cb w path (Some e) CMN_FS_INFO_INSIDE_READDIR r1 s;
                        if \<not> go then Some (None, r2, s1) else walk_entries w path d (hasdirs \<or> is_dir e) r2 s1 } }"

text \<open>A call of the callback whose result is the result of the walk.\<close>

definition walk_report :: "('w, 'p, 'd, 's) walk \<Rightarrow> u8 list \<Rightarrow> fs_info \<Rightarrow> 'w reent \<Rightarrow> 's \<Rightarrow> (bool \<times> 'w reent \<times> 's) option" where
  "walk_report w path info r s = wk_cb w path None info r s"

text \<open>Up to the call after the directory is closed: \<^term>\<open>Inl go\<close> is the result of the walk, \<^term>\<open>Inr has\<close> goes on with the value of \<^verbatim>\<open>hasdirs\<close>.\<close>

definition walk_first :: "('w, 'p, 'd, 's) walk \<Rightarrow> u8 list \<Rightarrow> 'w reent \<Rightarrow> 's \<Rightarrow> ((bool + bool) \<times> 'w reent \<times> 's) option" where
  "walk_first w path r s =
     do { (dir, r1) \<leftarrow> dm_opendir (wk_mem w path) path (wk_dm w) r;
          case dir of
            None \<Rightarrow> do { (go, r2, s1) \<leftarrow> walk_report w path CMN_FS_INFO_OPENDIR_FAILED r1 s; Some (Inl go, r2, s1) }
          | Some d \<Rightarrow>
              do { (go, r1, s1) \<leftarrow> walk_report w path CMN_FS_INFO_BEFORE_READDIR r1 s;
                   (hasdirs, r2, s2) \<leftarrow> (if go then walk_entries w path d (wk_hasdirs w path) r1 s1 else Some (None, r1, s1));
                   (_, r3) \<leftarrow> dm_closedir d (wk_dm w) r2;
                   case hasdirs of
                     None \<Rightarrow> Some (Inl False, r3, s2)
                   | Some has \<Rightarrow>
                       do { (go, r3, s3) \<leftarrow> walk_report w path CMN_FS_INFO_AFTER_CLOSEDIR r3 s2;
                            Some (if go then Inr has else Inl False, r3, s3) } } }"

text \<open>The whole walk of a path (\<^const>\<open>Inl\<close>) and its second loop, which descends into the directories (\<^const>\<open>Inr\<close>).\<close>

partial_function (option) walkdir_at ::
  "('w, 'p, 'd, 's) walk \<Rightarrow> u8 list \<times> bool + u8 list \<times> 'd DM_DIR \<Rightarrow> 'w reent \<Rightarrow> 's \<Rightarrow> (bool \<times> 'w reent \<times> 's) option" where
  "walkdir_at w at r s =
     (case at of
        Inl (path, recursive) \<Rightarrow>
          do { (first, r1, s1) \<leftarrow> walk_first w path r s;
               case first of
                 Inl go \<Rightarrow> Some (go, r1, s1)
               | Inr has \<Rightarrow>
                   do { (go, r2, s2) \<leftarrow>
                          (if recursive \<and> has then
                             do { (dir, r2) \<leftarrow> dm_opendir (wk_mem w path) path (wk_dm w) r1;
                                  case dir of
                                    None \<Rightarrow> walk_report w path CMN_FS_INFO_OPENDIR_FAILED r2 s1
                                  | Some d \<Rightarrow>
                                      do { (go, r3, s3) \<leftarrow> walkdir_at w (Inr (path, d)) r2 s1;
                                           (_, r4) \<leftarrow> dm_closedir d (wk_dm w) r3;
                                           Some (go, r4, s3) } }
                           else Some (True, r1, s1));
                        if go then walk_report w path CMN_FS_INFO_DIRECTORY_DONE r2 s2 else Some (False, r2, s2) } }
      | Inr (path, d) \<Rightarrow>
          do { (ent, r1) \<leftarrow> dm_readdir d (wk_dm w) r;
               case ent of
                 None \<Rightarrow> Some (True, r1, s)
               | Some e \<Rightarrow>
                   if \<not> is_dir e then walkdir_at w (Inr (path, d)) r1 s
                   else do { fullname \<leftarrow> cmn_fs_path_join (wk_mem w path) [path, dirent_fname e];
                             (go, r2, s2) \<leftarrow> (case fullname of
                                Some name \<Rightarrow> walkdir_at w (Inl (name, True)) r1 s
                              | None \<Rightarrow> walk_report w path CMN_FS_INFO_MEMORY_ERROR r1 s);
                             if go then walkdir_at w (Inr (path, d)) r2 s2 else Some (False, r2, s2) } })"

definition cmn_fs_actual_walkdir :: "('w, 'p, 'd, 's) walk \<Rightarrow> u8 list \<Rightarrow> bool \<Rightarrow> 'w reent \<Rightarrow> 's \<Rightarrow> (bool \<times> 'w reent \<times> 's) option" where
  "cmn_fs_actual_walkdir w path recursive r s = walkdir_at w (Inl (path, recursive)) r s"

definition cmn_fs_walkdir ::
  "bool \<Rightarrow> (u8 list \<Rightarrow> ('w, bool) devop) \<Rightarrow> ('w, 'p, 'd, 's) walk \<Rightarrow> u8 list option \<Rightarrow> bool \<Rightarrow> 'w reent \<Rightarrow> 's \<Rightarrow> (bool \<times> 'w reent \<times> 's) option" where
  "cmn_fs_walkdir mem fopen w path recursive r s =
     do { (split, r1) \<leftarrow> cmn_fs_split_path mem fopen path r;
          case split of
            None \<Rightarrow> Some (False, r1, s)
          | Some (actpath, pattern) \<Rightarrow>
              do { (_, r2, s2) \<leftarrow> cmn_fs_actual_walkdir (w\<lparr>wk_pattern := pattern\<rparr>) actpath recursive r1 s; Some (True, r2, s2) } }"

section \<open>What a pattern means\<close>

text \<open>A question mark stands for one character, a star for any number of them. The code drops the question marks that follow a star.\<close>

inductive glob :: "u8 list \<Rightarrow> u8 list \<Rightarrow> bool" where
  nil: "glob [] []"
| lit: "glob ps s \<Longrightarrow> c \<noteq> STAR \<Longrightarrow> c \<noteq> QMARK \<Longrightarrow> glob (c # ps) (c # s)"
| any: "glob ps s \<Longrightarrow> glob (QMARK # ps) (x # s)"
| star: "glob ps s \<Longrightarrow> glob (STAR # ps) (t @ s)"

inductive_cases glob_nilE [elim!]: "glob [] s"
inductive_cases glob_ConsE: "glob (c # ps) s"

function squeeze :: "u8 list \<Rightarrow> u8 list" where
  "squeeze [] = []"
| "squeeze (c # ps) = (if c = STAR then STAR # squeeze (dropWhile (\<lambda>x. x = QMARK) ps) else c # squeeze ps)"
  by pat_completeness auto
termination
  by (relation "measure length") (auto simp: length_dropWhile_le le_imp_less_Suc)

lemma glob_star_end: "glob [STAR] s"
  using star[OF nil, of s] by simp

lemma glob_drop_marks: "glob (squeeze ps) s \<Longrightarrow> glob (STAR # squeeze (dropWhile (\<lambda>x. x = QMARK) ps)) s"
proof (induction ps arbitrary: s)
  case Nil then show ?case using star[OF nil, of "[]"] by auto
next
  case (Cons c ps)
  show ?case
  proof (cases "c = QMARK")
    case True
    then obtain x t where s: "s = x # t" "glob (squeeze ps) t" using Cons.prems by (auto elim: glob_ConsE)
    from Cons.IH[OF s(2)] have "glob (STAR # squeeze (dropWhile (\<lambda>x. x = QMARK) ps)) t" .
    then obtain u v where "t = u @ v" "glob (squeeze (dropWhile (\<lambda>x. x = QMARK) ps)) v" by (auto elim: glob_ConsE)
    then show ?thesis using star[of "squeeze (dropWhile (\<lambda>x. x = QMARK) ps)" v "x # u"] True s(1) by simp
  next
    case False
    then show ?thesis using star[OF Cons.prems, of "[]"] by simp
  qed
qed

lemma pattern_glob: "cmn_pattern_matches str pat \<Longrightarrow> glob (squeeze pat) str"
proof (induction str pat rule: cmn_pattern_matches.induct)
  case (1 str) then show ?case using nil by simp
next
  case (2 str c ps)
  consider (star) "c = STAR" | (mark) "c = QMARK" | (lit) "c \<noteq> STAR" "c \<noteq> QMARK" by blast
  then show ?case
  proof cases
    case star
    show ?thesis
    proof (cases "dropWhile (\<lambda>x. x = QMARK) ps")
      case Nil then show ?thesis using star glob_star_end by (simp only: squeeze.simps refl if_True)
    next
      case (Cons q qs)
      then obtain x rest where d: "dropWhile (\<lambda>x. x \<noteq> q) str = x # rest" and m: "cmn_pattern_matches rest qs"
        using 2(4) star by (auto split: list.splits)
      have q: "q \<noteq> QMARK" using Cons by (auto simp: dropWhile_eq_Cons_conv)
      have x: "x = q" "str = takeWhile (\<lambda>x. x \<noteq> q) str @ q # rest" using d by (auto simp: dropWhile_eq_Cons_conv)
      have g: "glob (squeeze qs) rest" using 2(1)[OF star Cons d m] .
      have "glob (squeeze (q # qs)) (q # rest)"
      proof (cases "q = STAR")
        case True
        from glob_drop_marks[OF g] obtain u v where "rest = u @ v" "glob (squeeze (dropWhile (\<lambda>x. x = QMARK) qs)) v" by (auto elim: glob_ConsE)
        then show ?thesis using glob.star[of "squeeze (dropWhile (\<lambda>x. x = QMARK) qs)" v "STAR # u"] True by simp
      next
        case False
        then show ?thesis using glob.lit[OF g] q by simp
      qed
      then show ?thesis using glob.star[of "squeeze (q # qs)" "q # rest"] x(2) star Cons by (metis squeeze.simps(2))
    qed
  next
    case mark
    then show ?thesis using 2(2,4) glob.any by (auto split: list.splits)
  next
    case lit
    then show ?thesis using 2(3,4) glob.lit by (auto split: list.splits)
  qed
qed

text \<open>The code finds every match when the only star is the last character.\<close>

lemma pattern_no_star:
  "STAR \<notin> set pat \<Longrightarrow> cmn_pattern_matches str pat \<longleftrightarrow> glob pat str"
proof (induction pat arbitrary: str)
  case Nil then show ?case by (auto intro: glob.nil)
next
  case (Cons c ps)
  then show ?case by (cases str) (auto elim: glob_ConsE intro: glob.intros)
qed

lemma pattern_prefix:
  "STAR \<notin> set pre \<Longrightarrow> cmn_pattern_matches str (pre @ [STAR]) \<longleftrightarrow> glob (pre @ [STAR]) str"
proof (induction pre arbitrary: str)
  case Nil then show ?case using glob_star_end by simp
next
  case (Cons c ps)
  then show ?case by (cases str) (auto elim: glob_ConsE intro: glob.intros)
qed

section \<open>Joined paths\<close>

text \<open>What one argument adds to the path: without its leading slash, with one at the end.\<close>

definition join_part :: "u8 list \<Rightarrow> u8 list" where
  "join_part tmp = (if tmp = [] \<or> tmp = [SLASH] then []
     else (if hd tmp = SLASH then tl tmp else tmp) @ (if last tmp = SLASH then [] else [SLASH]))"

lemma length_join_part: "length (join_part tmp) = join_size tmp"
  by (cases tmp) (auto simp: join_part_def join_size_def lastchar_def firstchar_def)

lemma join_loop_parts:
  "res \<noteq> [] \<Longrightarrow> last res = SLASH \<Longrightarrow> length res + sum_list (map join_size parts) + 1 \<le> cap \<Longrightarrow>
    join_loop cap parts res = Some (res @ concat (map join_part parts))"
proof (induction parts arbitrary: res)
  case (Cons tmp parts)
  consider "tmp = []" | "tmp = [SLASH]" | "tmp \<noteq> []" "tmp \<noteq> [SLASH]" by blast
  then show ?case
  proof cases
    case 3
    define t where "t = (if hd tmp = SLASH then tl tmp else tmp)"
    have t: "t \<noteq> []" "last t = last tmp" using 3 by (cases tmp; auto simp: t_def)+
    have len: "length res + length (join_part tmp) + sum_list (map join_size parts) + 1 \<le> cap"
      using Cons.prems(3) length_join_part[of tmp] by simp
    have jp: "join_part tmp = t @ (if last tmp = SLASH then [] else [SLASH])" using 3 by (simp add: join_part_def t_def)
    have ft: "(if firstchar tmp = SLASH then tl tmp else tmp) = t" using 3 by (simp add: firstchar_def t_def)
    have "join_loop cap (tmp # parts) res = join_loop cap parts (res @ join_part tmp)"
      unfolding join_loop.simps ft using 3 t len by (cases "last tmp = SLASH") (simp_all add: jp strcat_in_def lastchar_def)
    moreover have "join_loop cap parts (res @ join_part tmp) = Some ((res @ join_part tmp) @ concat (map join_part parts))"
      by (rule Cons.IH) (use len t in \<open>auto simp: jp\<close>)
    ultimately show ?thesis by simp
  qed (use Cons in \<open>auto simp: join_part_def join_size_def strcat_in_def lastchar_def firstchar_def\<close>)
qed simp

lemma path_join_value:
  assumes "sum_list (map join_size parts) \<noteq> 0"
  shows "cmn_fs_path_join True parts = Some (Some (butlast (SLASH # concat (map join_part parts))))"
  using assms join_loop_parts[of "[SLASH]" parts] by (simp add: cmn_fs_path_join_def Let_def)

section \<open>A directory of the WOFS\<close>

text \<open>The state of the board with the position of the directory changed.\<close>

definition at_pos :: "nat \<Rightarrow> ('c, 'l) board reent \<Rightarrow> ('c, 'l) board reent" where
  "at_pos off r = r\<lparr>world := (world r)\<lparr>bd_romfs := (bd_romfs (world r))\<lparr>romfs_dir_data := off\<rparr>\<rparr>\<rparr>"

definition "wofs_dir = \<lparr>dir_devid = 1, dir_userdata = ROMFS_DIR_DATA\<rparr>"

abbreviation live :: "wofs_file \<Rightarrow> bool" where
  "live e \<equiv> \<not> fst (snd e)"

definition file_dirent :: "wofs_file \<Rightarrow> dm_dirent" where
  "file_dirent e = \<lparr>dirent_fsize = of_nat (length (snd (snd e))), dirent_fname = fst e, dirent_ftime = 0, dirent_flags = 0\<rparr>"

lemma at_pos_simps [simp]:
  "at_pos a (at_pos b r) = at_pos a r" "bd_wofs (world (at_pos a r)) = bd_wofs (world r)"
  "romfs_dir_data (bd_romfs (world (at_pos a r))) = a"
  by (simp_all add: at_pos_def)

lemma at_pos_put: "put_fs WOFS_FSDATA ((bd_romfs (world r))\<lparr>romfs_dir_data := a\<rparr>) (bd_wofs (world r)) r = at_pos a r"
  by (simp add: put_fs_def at_pos_def)

lemma boot_num: "dm_num_devs (boot_devices env) = 4"
  using dm_invD(3)[OF boot_table(1), of env] by (simp add: boot_table(2))

lemma boot_slot: "i < 4 \<Longrightarrow> dm_list (boot_devices env) ! i = Some (dm_entries (boot_devices env) ! i)"
  by (rule dm_invD(4)[OF boot_table(1)]) (simp add: boot_num)

lemma wofs_path: "dm_device_id_from_name WOFS_DEV_NAME (boot_devices env) = Inr (1, [])"
proof -
  have l: "[0..<4] = [0, 1, 2, 3 :: nat]" by (simp add: upt_rec)
  have "fold (dm_match_step WOFS_DEV_NAME (boot_devices env)) [0..<4] (0, 0) = (1, length WOFS_DEV_NAME)"
    by (simp add: l dm_match_step_def boot_slot boot_table(2) dev_names strncasecmp_eq_def to_lower_def)
  then show ?thesis by (simp add: dm_device_id_from_name_def boot_num dev_names)
qed

lemma wofs_opendir: "dm_opendir True WOFS_DEV_NAME (boot_devices env) r = Some (Some wofs_dir, at_pos 0 r)"
  using boot_slot[of 1 env] boot_num[of env]
  by (simp add: dm_opendir_def wofs_path boot_table(2) romfs_device_def romfs_opendir_r_def fs_of_def at_pos_put wofs_dir_def)

lemma wofs_closedir: "dm_closedir wofs_dir (boot_devices env) r = Some (0, at_pos 0 r)"
  using boot_slot[of 1 env] boot_num[of env]
  by (simp add: dm_closedir_def wofs_dir_def boot_table(2) romfs_device_def romfs_closedir_r_def fs_of_def at_pos_put)

lemma wofs_next_split:
  "wofs_next es at = (case dropWhile (\<lambda>e. \<not> live e) es of
     [] \<Rightarrow> (None, at + length (wofs_area es))
   | e # _ \<Rightarrow> (Some (fst e, length (snd (snd e))), at + length (wofs_area (takeWhile (\<lambda>e. \<not> live e) es @ [e]))))"
  by (induction es arbitrary: at) (auto split: list.split simp del: dropWhile_eq_Nil_conv)

lemma wofs_readdir_call:
  assumes "wofs_ok (es @ es') free (bd_wofs (world r))"
  shows "dm_readdir wofs_dir (boot_devices env) (at_pos (length (wofs_area es)) r) =
    (case dropWhile (\<lambda>e. \<not> live e) es' of
       [] \<Rightarrow> Some (None, at_pos (length (wofs_area es)) r)
     | e # _ \<Rightarrow> Some (Some (file_dirent e), at_pos (length (wofs_area (es @ takeWhile (\<lambda>e. \<not> live e) es' @ [e]))) r))"
proof -
  let ?r = "at_pos (length (wofs_area es)) r"
  have a: "length (wofs_area (es @ xs)) = length (wofs_area es) + length (wofs_area xs)" for xs by (simp add: wofs_area_def)
  have self: "put_fs WOFS_FSDATA (bd_romfs (world ?r)) (bd_wofs (world ?r)) ?r = ?r" by (simp add: put_fs_def at_pos_def)
  have "romfs_readdir_at (bd_wofs (world ?r)) (length (wofs_area es)) = Some (wofs_next es' (length (wofs_area es)))"
    using wofs_readdir[OF assms] by simp
  then show ?thesis
    using boot_slot[of 1 env] boot_num[of env] self at_pos_put[where r = ?r]
    by (auto simp: dm_readdir_def wofs_dir_def boot_table(2) romfs_device_def romfs_readdir_r_def fs_of_def wofs_next_split file_dirent_def a
        simp del: dropWhile_eq_Nil_conv split: list.split)
qed

text \<open>The calls of a callback that only looks on: it never stops the walk and leaves the devices alone, \<open>f\<close> is what it does to its state.\<close>

type_synonym 's watcher = "u8 list \<Rightarrow> dm_dirent option \<Rightarrow> fs_info \<Rightarrow> 's \<Rightarrow> 's"

definition looks_on :: "'s watcher \<Rightarrow> ('w, 's) walker_cb \<Rightarrow> bool" where
  "looks_on f cb \<longleftrightarrow> (\<forall>path ent info r s. cb path ent info r s = Some (True, r, f path ent info s))"

definition calls :: "'s watcher \<Rightarrow> u8 list \<Rightarrow> (dm_dirent option \<times> fs_info) list \<Rightarrow> 's \<Rightarrow> 's" where
  "calls f path evs s = fold (\<lambda>(ent, info) s. f path ent info s) evs s"

definition wofs_matches :: "u8 list \<Rightarrow> wofs_file list \<Rightarrow> (dm_dirent option \<times> fs_info) list" where
  "wofs_matches pattern es = map (\<lambda>e. (Some (file_dirent e), CMN_FS_INFO_INSIDE_READDIR)) (filter (\<lambda>e. live e \<and> cmn_pattern_matches (fst e) pattern) es)"

lemma looks_onD: "looks_on f cb \<Longrightarrow> cb path ent info r s = Some (True, r, calls f path [(ent, info)] s)"
  by (simp add: looks_on_def calls_def)

lemma calls_append: "calls f path (xs @ ys) s = calls f path ys (calls f path xs s)"
  by (simp add: calls_def)

lemma live_split:
  assumes "dropWhile (\<lambda>e. \<not> live e) es = e # rest"
  shows "es = takeWhile (\<lambda>e. \<not> live e) es @ e # rest" "live e" "wofs_matches pattern es = wofs_matches pattern (e # rest)"
proof -
  let ?dead = "takeWhile (\<lambda>e. \<not> live e) es"
  show es: "es = ?dead @ e # rest" and e: "live e" using assms by (auto simp: dropWhile_eq_Cons_conv)
  have "wofs_matches pattern ?dead = []" by (auto simp: wofs_matches_def filter_empty_conv dest: set_takeWhileD)
  then have "wofs_matches pattern (?dead @ e # rest) = wofs_matches pattern (e # rest)" by (simp add: wofs_matches_def)
  then show "wofs_matches pattern es = wofs_matches pattern (e # rest)" using arg_cong[OF es, of "wofs_matches pattern"] by simp
qed

lemma no_dirs [simp]: "\<not> is_dir (file_dirent e)"
  by (simp add: is_dir_def file_dirent_def)

lemma walk_entries_wofs:
  assumes w: "wk_dm w = boot_devices env" "looks_on f (wk_cb w)"
  shows "wofs_ok (es @ es') free (bd_wofs (world r)) \<Longrightarrow> \<exists>a. walk_entries w path wofs_dir has (at_pos (length (wofs_area es)) r) s =
    Some (Some has, at_pos a r, calls f path (wofs_matches (wk_pattern w) es') s)"
proof (induction "length es'" arbitrary: es es' s rule: less_induct)
  case less
  note rd = wofs_readdir_call[OF less(2), of env]
  show ?case
  proof (cases "dropWhile (\<lambda>e. \<not> live e) es'")
    case Nil
    then have "wofs_matches (wk_pattern w) es' = []" by (auto simp: wofs_matches_def filter_empty_conv)
    moreover have "walk_entries w path wofs_dir has (at_pos (length (wofs_area es)) r) s = Some (Some has, at_pos (length (wofs_area es)) r, s)"
      by (subst walk_entries.simps) (simp add: w rd[unfolded Nil list.case])
    ultimately show ?thesis by (auto simp: calls_def)
  next
    case (Cons e rest)
    note sp = live_split(1,2)[OF Cons] live_split(3)[OF Cons, of "wk_pattern w"]
    let ?es = "es @ takeWhile (\<lambda>e. \<not> live e) es' @ [e]" and ?m = "cmn_pattern_matches (fst e) (wk_pattern w)"
    let ?s = "if ?m then calls f path [(Some (file_dirent e), CMN_FS_INFO_INSIDE_READDIR)] s else s"
    have ok: "wofs_ok (?es @ rest) free (bd_wofs (world r))" using less(2) sp(1) by simp
    have "length rest < length es'" using dropWhile_Cons_length[OF Cons] .
    from less(1)[OF this ok, of ?s] obtain a where
      a: "walk_entries w path wofs_dir has (at_pos (length (wofs_area ?es)) r) ?s = Some (Some has, at_pos a r, calls f path (wofs_matches (wk_pattern w) rest) ?s)"
      by blast
    have st: "walk_entries w path wofs_dir has (at_pos (length (wofs_area es)) r) s = walk_entries w path wofs_dir has (at_pos (length (wofs_area ?es)) r) ?s"
      by (subst walk_entries.simps) (simp add: w(1) rd[unfolded Cons list.case] looks_onD[OF w(2)] file_dirent_def[of e] is_dir_def)
    have "calls f path (wofs_matches (wk_pattern w) es') s = calls f path (wofs_matches (wk_pattern w) rest) ?s"
      unfolding sp(3) using sp(2) by (simp add: wofs_matches_def calls_def)
    then show ?thesis using a st by auto
  qed
qed

lemma descend_wofs:
  assumes w: "wk_dm w = boot_devices env"
  shows "wofs_ok (es @ es') free (bd_wofs (world r)) \<Longrightarrow> \<exists>a. walkdir_at w (Inr (path, wofs_dir)) (at_pos (length (wofs_area es)) r) s = Some (True, at_pos a r, s)"
proof (induction "length es'" arbitrary: es es' rule: less_induct)
  case less
  note rd = wofs_readdir_call[OF less(2), of env]
  show ?case
  proof (cases "dropWhile (\<lambda>e. \<not> live e) es'")
    case Nil
    then show ?thesis by (intro exI[of _ "length (wofs_area es)"]) (subst walkdir_at.simps, simp add: w rd[unfolded Nil list.case])
  next
    case (Cons e rest)
    let ?es = "es @ takeWhile (\<lambda>e. \<not> live e) es' @ [e]"
    have ok: "wofs_ok (?es @ rest) free (bd_wofs (world r))" using less(2) live_split(1)[OF Cons] by simp
    have "walkdir_at w (Inr (path, wofs_dir)) (at_pos (length (wofs_area es)) r) s = walkdir_at w (Inr (path, wofs_dir)) (at_pos (length (wofs_area ?es)) r) s"
      by (subst walkdir_at.simps) (simp add: w rd[unfolded Cons list.case])
    then show ?thesis using less(1)[OF dropWhile_Cons_length[OF Cons] ok] by simp
  qed
qed

lemma walk_wofs:
  assumes w: "wk_dm w = boot_devices env" "looks_on f (wk_cb w)" "wk_mem w WOFS_DEV_NAME" and fs: "wofs_ok es free (bd_wofs (world r))"
  shows "cmn_fs_actual_walkdir w WOFS_DEV_NAME recursive r s = Some (True, at_pos 0 r,
    calls f WOFS_DEV_NAME ((None, CMN_FS_INFO_BEFORE_READDIR) # wofs_matches (wk_pattern w) es
      @ [(None, CMN_FS_INFO_AFTER_CLOSEDIR), (None, CMN_FS_INFO_DIRECTORY_DONE)]) s)"
proof -
  let ?p = WOFS_DEV_NAME
  define s1 where "s1 = calls f ?p [(None, CMN_FS_INFO_BEFORE_READDIR)] s"
  define s2 where "s2 = calls f ?p (wofs_matches (wk_pattern w) es) s1"
  define s3 where "s3 = calls f ?p [(None, CMN_FS_INFO_AFTER_CLOSEDIR)] s2"
  have ok: "wofs_ok ([] @ es) free (bd_wofs (world r))" using fs by simp
  obtain a where a: "walk_entries w ?p wofs_dir (wk_hasdirs w ?p) (at_pos 0 r) s1 = Some (Some (wk_hasdirs w ?p), at_pos a r, s2)"
    using walk_entries_wofs[OF w(1,2) ok, of ?p "wk_hasdirs w ?p" s1] by (auto simp: s2_def)
  obtain b where b: "walkdir_at w (Inr (?p, wofs_dir)) (at_pos 0 r) s3 = Some (True, at_pos b r, s3)"
    using descend_wofs[OF w(1) ok, of ?p s3] by auto
  have rep: "walk_report w path info r' s' = Some (True, r', calls f path [(None, info)] s')" for path info r' s'
    by (simp add: walk_report_def looks_onD[OF w(2)])
  have f: "walk_first w ?p r s = Some (Inr (wk_hasdirs w ?p), at_pos 0 r, s3)"
    using w(3) by (simp add: walk_first_def w(1) wofs_opendir wofs_closedir rep a s1_def[symmetric] s3_def)
  have "walkdir_at w (Inl (?p, recursive)) r s = walk_report w ?p CMN_FS_INFO_DIRECTORY_DONE (at_pos 0 r) s3"
    using w(3) by (subst walkdir_at.simps) (simp add: f w(1) wofs_opendir wofs_closedir b rep)
  then show ?thesis by (simp add: cmn_fs_actual_walkdir_def rep s1_def s2_def s3_def calls_def)
qed

text \<open>A path with a mask in its last part.\<close>

lemma split_mask:
  assumes "SLASH \<notin> set pat" "STAR \<in> set pat \<or> QMARK \<in> set pat"
  shows "cmn_fs_split_path True fopen (Some (WOFS_DEV_NAME @ SLASH # pat)) r = Some (Some (WOFS_DEV_NAME, pat), r)"
proof -
  have ne: "pat \<noteq> []" using assms(2) by auto
  have m: "last pat \<noteq> SLASH" using last_in_set[OF ne] assms(1) by metis
  have "takeWhile (\<lambda>c. c \<noteq> SLASH) (rev pat @ SLASH # xs) = rev pat" for xs
    using assms(1) by (subst takeWhile_append2) auto
  then have "base_name (WOFS_DEV_NAME @ SLASH # pat) = pat" by (simp add: base_name_def)
  then show ?thesis using assms ne m by (auto simp: cmn_fs_split_path_def WOFS_DEV_NAME_def Let_def)
qed

section \<open>Properties\<close>

text \<open>C32: Listing a mask under \<^verbatim>\<open>/wo\<close> on a board that has started calls the callback for the files in flash that are not
  deleted and whose names the mask matches, in the order of the image, between the calls that open and close the directory; then
  the directory is closed. Neither a recursive walk nor the value of the uninitialised variable makes a difference.\<close>

theorem vfs_walk_wofs:
  assumes w: "wk_dm w = boot_devices env" "looks_on f (wk_cb w)" "wk_mem w WOFS_DEV_NAME" and fs: "wofs_ok es free (bd_wofs (world r))"
    and pat: "SLASH \<notin> set pat" "STAR \<in> set pat \<or> QMARK \<in> set pat"
  shows "cmn_fs_walkdir True fopen w (Some (WOFS_DEV_NAME @ SLASH # pat)) recursive r s = Some (True, at_pos 0 r,
    calls f WOFS_DEV_NAME ((None, CMN_FS_INFO_BEFORE_READDIR) # wofs_matches pat es
      @ [(None, CMN_FS_INFO_AFTER_CLOSEDIR), (None, CMN_FS_INFO_DIRECTORY_DONE)]) s)"
  using walk_wofs[of "w\<lparr>wk_pattern := pat\<rparr>" env f es free r recursive s] assms by (simp add: cmn_fs_walkdir_def split_mask)

text \<open>A WOFS with a file, a deleted one and another file; a callback that notes the names.\<close>

definition two_files :: "wofs_file list" where
  "two_files = [([0x61, 0x2E, 0x6C], False, [1]), ([0x62], True, []), ([0x63], False, [2, 3])]"

definition two_files_fs :: fsdata where
  "two_files_fs = \<lparr>fs_image = wofs_image two_files 64, fs_flags = ROMFS_FS_FLAG_WO, fs_max_size = length (wofs_image two_files 64)\<rparr>"

definition note_name :: "u8 list list watcher" where
  "note_name path ent info s = (case ent of None \<Rightarrow> s | Some e \<Rightarrow> s @ [dirent_fname e])"

lemma two_files_ok: "wofs_ok two_files 64 two_files_fs"
  by (simp add: wofs_ok_def two_files_fs_def two_files_def romfsh_is_wofs_def name_ok_def wofs_image_def wofs_area_def wofs_entry_def
      wofs_header_def pad4_def size_bytes_def)

theorem vfs_walk_wofs_witness:
  "map_option (snd \<circ> snd) (cmn_fs_walkdir True (\<lambda>_ r. None)
     \<lparr>wk_mem = (\<lambda>_. True), wk_hasdirs = (\<lambda>_. True), wk_dm = boot_devices example_env, wk_pattern = [], wk_cb = (\<lambda>path ent info r s. Some (True, r, note_name path ent info s))\<rparr>
     (Some (WOFS_DEV_NAME @ SLASH # [STAR])) True (example_board\<lparr>world := (world example_board)\<lparr>bd_wofs := two_files_fs\<rparr>\<rparr>) []) = Some [[0x61, 0x2E, 0x6C], [0x63]]"
proof -
  let ?w = "\<lparr>wk_mem = (\<lambda>_. True), wk_hasdirs = (\<lambda>_. True), wk_dm = boot_devices example_env, wk_pattern = [], wk_cb = (\<lambda>path ent info r s. Some (True, r, note_name path ent info s))\<rparr>"
  let ?r = "example_board\<lparr>world := (world example_board)\<lparr>bd_wofs := two_files_fs\<rparr>\<rparr>"
  have "cmn_fs_walkdir True (\<lambda>_ r. None) ?w (Some (WOFS_DEV_NAME @ SLASH # [STAR])) True ?r [] = Some (True, at_pos 0 ?r,
    calls note_name WOFS_DEV_NAME ((None, CMN_FS_INFO_BEFORE_READDIR) # wofs_matches [STAR] two_files
      @ [(None, CMN_FS_INFO_AFTER_CLOSEDIR), (None, CMN_FS_INFO_DIRECTORY_DONE)]) [])"
    by (rule vfs_walk_wofs[where env = example_env and free = 64]) (simp_all add: two_files_ok looks_on_def note_name_def)
  then show ?thesis by (simp add: calls_def wofs_matches_def two_files_def note_name_def file_dirent_def)
qed

text \<open>A name that the code accepts for a pattern matches it in the usual sense, question marks after a star not counted. When the
  only star is the last character, the code accepts exactly the names that match.\<close>

theorem pattern_sound:
  shows "(cmn_pattern_matches str pat \<longrightarrow> glob (squeeze pat) str)
    \<and> (STAR \<notin> set pat \<longrightarrow> cmn_pattern_matches str pat = glob pat str \<and> cmn_pattern_matches str (pat @ [STAR]) = glob (pat @ [STAR]) str)"
  using pattern_glob pattern_no_star pattern_prefix by blast

theorem pattern_sound_witness:
  "cmn_pattern_matches [0x61, 0x62, 0x63] [STAR, 0x62, QMARK] \<and> glob [STAR, 0x62, QMARK] [0x61, 0x62, 0x63]
    \<and> glob [0x61, STAR] [0x61, 0x62]"
  using pattern_sound[of "[0x61, 0x62, 0x63]" "[STAR, 0x62, QMARK]"] pattern_sound[of "[0x61, 0x62]" "[0x61]"] by simp

text \<open>The search does not try a later place for the text after a star: \<^verbatim>\<open>*.lua\<close> does not match \<^verbatim>\<open>a.b.lua\<close>, since the
  first dot is not followed by \<^verbatim>\<open>lua\<close>. More generally, a name \<open>x c y\<close> in which the character \<open>c\<close> after the star occurs early is refused when
  the rest does not match from there.\<close>

theorem pattern_misses:
  "\<not> cmn_pattern_matches [0x61, 0x2E, 0x62, 0x2E, 0x6C, 0x75, 0x61] [STAR, 0x2E, 0x6C, 0x75, 0x61]
    \<and> glob [STAR, 0x2E, 0x6C, 0x75, 0x61] [0x61, 0x2E, 0x62, 0x2E, 0x6C, 0x75, 0x61]
    \<and> (c \<notin> set x \<and> c \<noteq> QMARK \<longrightarrow> cmn_pattern_matches (x @ c # y) (STAR # c # rest) = cmn_pattern_matches y rest)"
proof -
  have "glob [0x2E, 0x6C, 0x75, 0x61] [0x2E, 0x6C, 0x75, 0x61]" by (intro glob.intros) simp_all
  from glob.star[OF this, of "[0x61, 0x2E, 0x62]"] have "glob [STAR, 0x2E, 0x6C, 0x75, 0x61] [0x61, 0x2E, 0x62, 0x2E, 0x6C, 0x75, 0x61]" by simp
  moreover have "dropWhile (\<lambda>z. z \<noteq> c) (x @ c # y) = c # y" if "c \<notin> set x" using that by (subst dropWhile_append2) auto
  ultimately show ?thesis by simp
qed

theorem pattern_misses_witness: "cmn_pattern_matches [0x61, 0x2E, 0x6C] [STAR, 0x2E, 0x6C]"
  using pattern_misses[of "0x2E" "[0x61]" "[0x6C]" "[0x6C]"] by simp

text \<open>\<^verbatim>\<open>cmn_fs_path_join\<close> never writes outside the memory it allocates, and the result is the parts with one slash before each; a
  directory and a name give the path of the name in the directory.\<close>

theorem path_join_fits:
  "(sum_list (map join_size parts) \<noteq> 0 \<longrightarrow> cmn_fs_path_join True parts = Some (Some (butlast (SLASH # concat (map join_part parts)))))
    \<and> cmn_fs_path_join mem parts \<noteq> None
    \<and> (hd dir = SLASH \<and> 2 \<le> length dir \<and> last dir \<noteq> SLASH \<and> name \<noteq> [] \<and> SLASH \<notin> set name \<longrightarrow>
        cmn_fs_path_join True [dir, name] = Some (Some (dir @ SLASH # name)))"
proof -
  have "cmn_fs_path_join True [dir, name] = Some (Some (dir @ SLASH # name))"
    if d: "hd dir = SLASH" "2 \<le> length dir" "last dir \<noteq> SLASH" and n: "name \<noteq> []" "SLASH \<notin> set name"
  proof -
    obtain d' where dir: "dir = SLASH # d'" "d' \<noteq> []" using d(1,2) by (cases dir; cases "tl dir") auto
    have h: "hd name \<noteq> SLASH" "last name \<noteq> SLASH" using n hd_in_set[of name] last_in_set[of name] by metis+
    have "join_part dir = d' @ [SLASH]" "join_part name = name @ [SLASH]" using dir d(3) n(1) h by (auto simp: join_part_def)
    moreover have "sum_list (map join_size [dir, name]) \<noteq> 0" using n(1) h by (simp add: join_size_def firstchar_def)
    ultimately show ?thesis using path_join_value[of "[dir, name]"] dir(1) by (simp add: butlast_append)
  qed
  moreover have "cmn_fs_path_join mem parts \<noteq> None"
  proof (cases "mem \<and> sum_list (map join_size parts) \<noteq> 0")
    case True
    then have m: "mem = True" and t: "sum_list (map join_size parts) \<noteq> 0" by auto
    show ?thesis unfolding m path_join_value[OF t] by simp
  next
    case False
    then have "sum_list (map join_size parts) = 0 \<or> \<not> mem" by blast
    then have "cmn_fs_path_join mem parts = Some None" unfolding cmn_fs_path_join_def Let_def by (rule if_P)
    then show ?thesis by simp
  qed
  ultimately show ?thesis using path_join_value[of parts] by blast
qed

theorem path_join_fits_witness: "cmn_fs_path_join True [[SLASH, 0x61], [0x62]] = Some (Some [SLASH, 0x61, SLASH, 0x62])"
  using path_join_fits[of "[]" False "[SLASH, 0x61]" "[0x62]"] by simp

end
