(* ===== verification/Shell.thy ===== *)
theory Shell
  imports Common_Fs
begin

text \<open>
  The command line of the shell, \<^verbatim>\<open>src/shell/shell.c\<close>: taking a line apart into arguments, quoted strings included, finding
  the command and calling its handler, and \<^verbatim>\<open>elua.shell\<close> of \<^verbatim>\<open>src/modules/elua.c\<close>, which runs a line for a Lua program. The line is
  the text up to its terminator in an array of \<open>cap\<close> bytes; writing outside the array and reading through NULL is \<^const>\<open>None\<close>. The state
  of the shell is the world of the devices, the keys the user will press and the messages printed so far (a format string,
  without the line end, and its arguments). The table of commands is generated by the build and is a parameter.
\<close>

section \<open>State\<close>

datatype msg_arg = TXT "u8 list" | LIT string | NUM nat

type_synonym shell_msg = "string \<times> msg_arg list"

record 'w shell =
  sh_reent :: "'w reent"
  sh_keys :: "int list"
  sh_out :: "shell_msg list"

type_synonym ('w, 'a) shop = "'w shell \<Rightarrow> ('a \<times> 'w shell) option"

definition printf :: "string \<Rightarrow> msg_arg list \<Rightarrow> 'w shell \<Rightarrow> 'w shell" where
  "printf fmt args s = s\<lparr>sh_out := sh_out s @ [(fmt, args)]\<rparr>"

text \<open>A system call.\<close>

definition sys :: "('w, 'a) devop \<Rightarrow> ('w, 'a) shop" where
  "sys call s = do { (a, r) \<leftarrow> call (sh_reent s); Some (a, s\<lparr>sh_reent := r\<rparr>) }"

text \<open>The help of a command; a text is a list of lines.\<close>

definition text_lines :: "string list \<Rightarrow> string" where
  "text_lines ls = concat (map (\<lambda>l. l @ [CHR 0x0A]) ls)"

definition shellh_show_help :: "string \<Rightarrow> string \<Rightarrow> 'w shell \<Rightarrow> 'w shell" where
  "shellh_show_help cmd helptext s = printf ''Usage: %s %s'' [LIT cmd, LIT helptext] s"

section \<open>Arguments\<close>

abbreviation "SPACE \<equiv> (0x20 :: u8)"
abbreviation "SHELL_ALT_SPACE \<equiv> (0x07 :: u8)"
abbreviation "SHELL_MAX_ARGS \<equiv> (10 :: nat)"
abbreviation "SQUOTE \<equiv> (0x27 :: u8)"
abbreviation "DQUOTE \<equiv> (0x22 :: u8)"

definition is_quote :: "u8 \<Rightarrow> bool" where
  "is_quote c \<longleftrightarrow> c = SQUOTE \<or> c = DQUOTE"

definition is_blank :: "u8 \<Rightarrow> bool" where
  "is_blank c \<longleftrightarrow> c = 0x0D \<or> c = 0x0A \<or> c = 0x09"

definition blanks_to_spaces :: "u8 list \<Rightarrow> u8 list" where
  "blanks_to_spaces = map (\<lambda>c. if is_blank c then SPACE else c)"

text \<open>The loop over the quotes: \<^term>\<open>Some q\<close> is \<^verbatim>\<open>inside_quotes\<close> with \<^verbatim>\<open>quote_char\<close> \<open>q\<close>.\<close>

fun hide_spaces :: "u8 option \<Rightarrow> u8 list \<Rightarrow> u8 option \<times> u8 list" where
  "hide_spaces inside [] = (inside, [])"
| "hide_spaces inside (c # cs) =
     (let (inside', c') =
        (if is_quote c then
           (case inside of None \<Rightarrow> (Some c, c) | Some q \<Rightarrow> (if c = q then None else Some q, c))
         else if c = SPACE \<and> inside \<noteq> None then (inside, SHELL_ALT_SPACE)
         else (inside, c));
          (e, out) = hide_spaces inside' cs
      in (e, c' # out))"

text \<open>Deleting the spaces after a space.\<close>

function squash :: "u8 list \<Rightarrow> u8 list" where
  "squash [] = []"
| "squash (c # cs) = (if c = SPACE then SPACE # squash (dropWhile (\<lambda>x. x = SPACE) cs) else c # squash cs)"
  by pat_completeness auto
termination
  by (relation "measure length") (auto simp: length_dropWhile_le le_imp_less_Suc)

text \<open>Cutting the line at its spaces; \<^const>\<open>None\<close> when there are too many arguments.\<close>

function split_args :: "u8 list list \<Rightarrow> u8 list \<Rightarrow> u8 list list option" where
  "split_args argv p =
     (case dropWhile (\<lambda>c. c \<noteq> SPACE) p of
        [] \<Rightarrow> Some argv
      | _ # rest \<Rightarrow> if length argv = SHELL_MAX_ARGS then None
                    else split_args (argv @ [takeWhile (\<lambda>c. c \<noteq> SPACE) p]) rest)"
  by pat_completeness auto
termination
  by (relation "measure (\<lambda>(argv, p). length p)") (auto dest: dropWhile_Cons_length)

declare split_args.simps [simp del]

definition unquote :: "u8 list \<Rightarrow> u8 list" where
  "unquote p =
     (let p' = map (\<lambda>c. if c = SHELL_ALT_SPACE then SPACE else c) p
      in if p' \<noteq> [] \<and> is_quote (hd p') \<and> hd p' = last p' then butlast (tl p') else p')"

text \<open>From the line to the arguments: \<^const>\<open>Inl\<close> is the return with NULL, with the message if one is printed.\<close>

definition shell_parse :: "nat \<Rightarrow> u8 list \<Rightarrow> (string option + u8 list list) option" where
  "shell_parse cap cmd =
     (if cmd = [] then Some (Inl None)
      else do { cmd1 \<leftarrow> (if last cmd \<noteq> 0x0A then strcat_in cap cmd [0x0A] else Some cmd);
                case hide_spaces None (blanks_to_spaces cmd1) of
                  (Some _, _) \<Rightarrow> Some (Inl (Some ''Invalid quoted string''))
                | (None, cmd2) \<Rightarrow>
                    let cmd3 = squash cmd2 in
                    if cmd3 = [SPACE] then Some (Inl None)
                    else let skip = (if hd cmd3 = SPACE then 1 else 0); p = drop skip cmd3 in
                      do { p1 \<leftarrow> (if last p \<noteq> SPACE then strcat_in (cap - skip) p [SPACE] else Some p);
                           Some (case split_args [] p1 of
                                   None \<Rightarrow> Inl (Some ''Error: too many arguments'')
                                 | Some argv \<Rightarrow> Inr (map unquote argv)) } })"

section \<open>Commands\<close>

record 'w SHELL_COMMAND =
  sc_cmd :: "u8 list option"
  sc_handler :: "(u8 list list \<Rightarrow> 'w shell \<Rightarrow> 'w shell option) option"

definition "LUA_CMD = [0x6C, 0x75, 0x61 :: u8]"
definition "EXIT_CMD = [0x65, 0x78, 0x69, 0x74 :: u8]"

definition SHELL_ERRMSG :: string where
  "SHELL_ERRMSG = ''Invalid command, type 'help' for help''"

text \<open>The entry of the command or the one with a NULL name that ends the table.\<close>

fun shell_lookup :: "'w SHELL_COMMAND list \<Rightarrow> u8 list \<Rightarrow> 'w SHELL_COMMAND option" where
  "shell_lookup [] arg = None"
| "shell_lookup (pcmd # rest) arg =
     (case sc_cmd pcmd of
        None \<Rightarrow> Some pcmd
      | Some name \<Rightarrow> if strcasecmp_eq name arg then Some pcmd else shell_lookup rest arg)"

definition shellh_execute_command :: "nat \<Rightarrow> 'w SHELL_COMMAND list \<Rightarrow> u8 list \<Rightarrow> bool \<Rightarrow> ('w, 'w SHELL_COMMAND option) shop" where
  "shellh_execute_command cap shell_commands cmd interactive_mode s =
     do { parsed \<leftarrow> shell_parse cap cmd;
          case parsed of
            Inl None \<Rightarrow> Some (None, s)
          | Inl (Some msg) \<Rightarrow> Some (None, printf msg [] s)
          | Inr argv \<Rightarrow>
              if argv = [] then None
              else do { pcmd \<leftarrow> shell_lookup shell_commands (hd argv);
                        s1 \<leftarrow> (case sc_cmd pcmd of
                                 None \<Rightarrow> Some (printf SHELL_ERRMSG [] s)
                               | Some name \<Rightarrow>
                                   (case sc_handler pcmd of
                                      Some handler \<Rightarrow> if interactive_mode \<or> \<not> strcasecmp_eq name LUA_CMD then handler argv s else Some s
                                    | None \<Rightarrow> Some s));
                        if interactive_mode then Some (Some pcmd, s1)
                        else (case sc_cmd pcmd of
                                None \<Rightarrow> None
                              | Some name \<Rightarrow> Some (if strcasecmp_eq name EXIT_CMD then None else Some pcmd, s1)) } }"

text \<open>\<^verbatim>\<open>elua.shell\<close>; \<open>mem\<close> is whether \<^verbatim>\<open>malloc\<close> finds the memory, the error is \<^verbatim>\<open>False\<close>.\<close>

definition elua_shell :: "bool \<Rightarrow> 'w SHELL_COMMAND list \<Rightarrow> u8 list \<Rightarrow> ('w, bool) shop" where
  "elua_shell mem shell_commands pcmd s =
     (if \<not> mem then Some (False, s)
      else do { (_, s1) \<leftarrow> shellh_execute_command (length pcmd + 2) shell_commands pcmd False s; Some (True, s1) })"

text \<open>The interactive loop on the lines that \<^verbatim>\<open>linenoise_getline\<close> returns (\<^const>\<open>None\<close> is its error): \<open>True\<close> when the shell was left with
  \<^verbatim>\<open>exit\<close>, \<open>False\<close> while it waits for another line.\<close>

fun shell_loop :: "nat \<Rightarrow> 'w SHELL_COMMAND list \<Rightarrow> u8 list option list \<Rightarrow> ('w, bool) shop" where
  "shell_loop cap cmds [] s = Some (False, s)"
| "shell_loop cap cmds (None # lines) s = shell_loop cap cmds lines (printf [CHR 0x0A] [] s)"
| "shell_loop cap cmds (Some cmd # lines) s =
     (if cmd = [] then shell_loop cap cmds lines s
      else do { (pcmd, s1) \<leftarrow> shellh_execute_command cap cmds cmd True s;
                case pcmd of
                  Some c \<Rightarrow> if sc_cmd c \<noteq> None \<and> sc_handler c = None then Some (True, s1) else shell_loop cap cmds lines s1
                | None \<Rightarrow> shell_loop cap cmds lines s1 })"

definition shell_start :: "nat \<Rightarrow> u8 list \<Rightarrow> 'w SHELL_COMMAND list \<Rightarrow> u8 list option list \<Rightarrow> ('w, bool) shop" where
  "shell_start shell_maxsize version cmds lines s =
     shell_loop (shell_maxsize + 1) cmds lines (printf ''eLua %s  Copyright (C) 2007-2013 www.eluaproject.net'' [TXT version] s)"

section \<open>Quoting\<close>

text \<open>An argument is written as it is or inside quotes \<open>q\<close>; between arguments there are gaps of spaces, tabs and line ends.\<close>

type_synonym shell_arg = "u8 option \<times> u8 list"

definition render_arg :: "shell_arg \<Rightarrow> u8 list" where
  "render_arg a = (case fst a of None \<Rightarrow> snd a | Some q \<Rightarrow> q # snd a @ [q])"

definition arg_ok :: "shell_arg \<Rightarrow> bool" where
  "arg_ok a \<longleftrightarrow> (\<forall>c \<in> set (snd a). \<not> is_blank c \<and> c \<noteq> SHELL_ALT_SPACE) \<and>
     (case fst a of
        None \<Rightarrow> snd a \<noteq> [] \<and> (\<forall>c \<in> set (snd a). c \<noteq> SPACE \<and> \<not> is_quote c)
      | Some q \<Rightarrow> is_quote q \<and> q \<notin> set (snd a))"

definition gap_ok :: "u8 list \<Rightarrow> bool" where
  "gap_ok g \<longleftrightarrow> (\<forall>c \<in> set g. is_blank c \<or> c = SPACE)"

definition cmd_line :: "(u8 list \<times> shell_arg) list \<Rightarrow> u8 list \<Rightarrow> u8 list" where
  "cmd_line args trail = concat (map (\<lambda>(gap, a). gap @ render_arg a) args) @ trail"

definition hidden_arg :: "shell_arg \<Rightarrow> u8 list" where
  "hidden_arg a = render_arg (fst a, map (\<lambda>c. if c = SPACE then SHELL_ALT_SPACE else c) (snd a))"

lemma hide_spaces_append:
  "hide_spaces i (xs @ ys) = (case hide_spaces i xs of (j, a) \<Rightarrow> (case hide_spaces j ys of (k, b) \<Rightarrow> (k, a @ b)))"
  by (induction xs arbitrary: i) (auto simp: Let_def split: prod.split)

lemma hide_spaces_plain: "\<forall>c \<in> set xs. \<not> is_quote c \<Longrightarrow> hide_spaces None xs = (None, xs)"
  by (induction xs) (auto simp: Let_def)

lemma hide_spaces_inside:
  "is_quote q \<Longrightarrow> q \<notin> set w \<Longrightarrow> hide_spaces (Some q) w = (Some q, map (\<lambda>c. if c = SPACE then SHELL_ALT_SPACE else c) w)"
  by (induction w) (auto simp: Let_def is_quote_def)

lemma hide_spaces_arg: "arg_ok a \<Longrightarrow> hide_spaces None (render_arg a) = (None, hidden_arg a)"
proof (cases "fst a")
  case None
  assume "arg_ok a"
  then have w: "\<forall>c \<in> set (snd a). \<not> is_quote c" "\<forall>c \<in> set (snd a). c \<noteq> SPACE" using None by (auto simp: arg_ok_def)
  have "map (\<lambda>c. if c = SPACE then SHELL_ALT_SPACE else c) (snd a) = snd a" using w(2) by (auto intro: map_idI)
  then show ?thesis using None hide_spaces_plain[OF w(1)] by (simp add: render_arg_def hidden_arg_def)
next
  case (Some q)
  assume "arg_ok a"
  then have "is_quote q" "q \<notin> set (snd a)" using Some by (auto simp: arg_ok_def)
  then show ?thesis using Some by (simp add: render_arg_def hidden_arg_def hide_spaces_append hide_spaces_inside Let_def)
qed

lemma hidden_arg_ok:
  assumes "arg_ok a"
  shows "hidden_arg a \<noteq> []" "SPACE \<notin> set (hidden_arg a)" "blanks_to_spaces (render_arg a) = render_arg a" "unquote (hidden_arg a) = snd a"
proof -
  have q: "\<not> is_blank q" "q \<noteq> SPACE" "q \<noteq> SHELL_ALT_SPACE" if "is_quote q" for q using that by (auto simp: is_quote_def is_blank_def)
  show "hidden_arg a \<noteq> []" using assms by (auto simp: hidden_arg_def render_arg_def arg_ok_def split: option.splits)
  show "SPACE \<notin> set (hidden_arg a)"
    using assms q(2) by (auto simp: hidden_arg_def render_arg_def arg_ok_def split: option.splits)
  show "blanks_to_spaces (render_arg a) = render_arg a"
    unfolding blanks_to_spaces_def using assms q(1) by (intro map_idI) (auto simp: render_arg_def arg_ok_def split: option.splits)
  have bk: "map (\<lambda>c. if c = SHELL_ALT_SPACE then SPACE else c) (hidden_arg a) = render_arg a"
    using assms q(3) by (auto simp: hidden_arg_def render_arg_def arg_ok_def split: option.splits intro: map_idI)
  show "unquote (hidden_arg a) = snd a"
    using assms hd_in_set[of "snd a"] by (auto simp: unquote_def bk render_arg_def arg_ok_def Let_def split: option.splits)
qed

lemma squash_no_space: "SPACE \<notin> set r \<Longrightarrow> squash (r @ rest) = r @ squash rest"
  by (induction r) auto

lemma squash_gap:
  assumes "\<forall>c \<in> set gap. c = SPACE" "gap \<noteq> []" "r \<noteq> []" "hd r \<noteq> SPACE"
  shows "squash (gap @ r) = SPACE # squash r"
proof -
  obtain x gap' where g: "gap = x # gap'" "x = SPACE" using assms(1,2) by (cases gap) auto
  have "dropWhile (\<lambda>x. x = SPACE) (gap' @ r) = dropWhile (\<lambda>x. x = SPACE) r" using assms(1) g by (subst dropWhile_append2) auto
  also have "\<dots> = r" using assms(3,4) by (cases r) auto
  finally show ?thesis by (simp add: g)
qed

lemma squash_end:
  assumes "\<forall>c \<in> set gap. c = SPACE" "gap \<noteq> []"
  shows "squash gap = [SPACE]"
proof -
  obtain x gap' where g: "gap = x # gap'" "x = SPACE" using assms by (cases gap) auto
  have "dropWhile (\<lambda>x. x = SPACE) gap' = []" using assms(1) g by simp
  then show ?thesis by (simp only: g squash.simps if_True simp_thms)
qed

lemma gap_spaces: "gap_ok g \<Longrightarrow> blanks_to_spaces g = replicate (length g) SPACE"
  unfolding blanks_to_spaces_def gap_ok_def by (induction g) auto

lemma hide_line:
  assumes "\<forall>(gap, a) \<in> set args. gap_ok gap \<and> arg_ok a" "gap_ok trail"
  shows "hide_spaces None (blanks_to_spaces (cmd_line args trail)) =
    (None, concat (map (\<lambda>(gap, a). replicate (length gap) SPACE @ hidden_arg a) args) @ replicate (length trail) SPACE)"
  using assms
proof (induction args)
  case Nil
  then show ?case using hide_spaces_plain[of "replicate (length trail) SPACE"] by (auto simp: cmd_line_def gap_spaces is_quote_def)
next
  case (Cons ga args)
  obtain gap a where ga: "ga = (gap, a)" by (cases ga)
  have ok: "gap_ok gap" "arg_ok a" using Cons.prems(1) ga by auto
  have g: "hide_spaces None (replicate (length gap) SPACE) = (None, replicate (length gap) SPACE)"
    using hide_spaces_plain[of "replicate (length gap) SPACE"] by (auto simp: is_quote_def)
  have b: "blanks_to_spaces (cmd_line (ga # args) trail) = replicate (length gap) SPACE @ render_arg a @ blanks_to_spaces (cmd_line args trail)"
    using gap_spaces[OF ok(1)] hidden_arg_ok(3)[OF ok(2)] by (simp add: ga cmd_line_def blanks_to_spaces_def)
  show ?case using Cons unfolding b by (simp add: ga hide_spaces_append g hide_spaces_arg[OF ok(2)])
qed

lemma squash_args:
  assumes "\<forall>(n, r) \<in> set rs. (0 :: nat) < n \<and> r \<noteq> [] \<and> SPACE \<notin> set r" "0 < k"
  shows "squash (concat (map (\<lambda>(n, r). replicate n SPACE @ r) rs) @ replicate k SPACE) = concat (map (\<lambda>(n, r). SPACE # r) rs) @ [SPACE]"
  using assms(1)
proof (induction rs)
  case Nil
  then show ?case using squash_end[of "replicate k SPACE"] assms(2) by simp
next
  case (Cons nr rs)
  obtain n r where nr: "nr = (n, r)" by (cases nr)
  have ok: "0 < n" "r \<noteq> []" "SPACE \<notin> set r" using Cons.prems nr by auto
  have "hd r \<noteq> SPACE" using ok hd_in_set[of r] by metis
  then show ?case using Cons squash_gap[of "replicate n SPACE" "r @ rest" for rest] ok by (simp add: nr squash_no_space)
qed

lemma shift_spaces: "concat (map (\<lambda>r. SPACE # r) rs) @ [SPACE] = SPACE # concat (map (\<lambda>r. r @ [SPACE]) rs)"
  by (induction rs) auto

lemma split_args_words:
  assumes "\<forall>r \<in> set rs. SPACE \<notin> set r" "length argv \<le> SHELL_MAX_ARGS"
  shows "split_args argv (concat (map (\<lambda>r. r @ [SPACE]) rs)) = (if length argv + length rs \<le> SHELL_MAX_ARGS then Some (argv @ rs) else None)"
  using assms
proof (induction rs arbitrary: argv)
  case Nil
  then show ?case by (subst split_args.simps) simp
next
  case (Cons r rs)
  have "takeWhile (\<lambda>c. c \<noteq> SPACE) (r @ SPACE # rest) = r" "dropWhile (\<lambda>c. c \<noteq> SPACE) (r @ SPACE # rest) = SPACE # rest" for rest
    using Cons.prems(1) by (subst takeWhile_append2 dropWhile_append2; auto)+
  then have s: "split_args argv (concat (map (\<lambda>r. r @ [SPACE]) (r # rs))) =
      (if length argv = SHELL_MAX_ARGS then None else split_args (argv @ [r]) (concat (map (\<lambda>r. r @ [SPACE]) rs)))"
    by (subst split_args.simps) simp
  show ?case unfolding s using Cons.IH[of "argv @ [r]"] Cons.prems by (cases "length argv = SHELL_MAX_ARGS") auto
qed

lemma line_end:
  assumes "cmd \<noteq> []" "length cmd + 2 \<le> cap"
  shows "\<exists>rest. (if last cmd \<noteq> 0x0A then strcat_in cap cmd [0x0A] else Some cmd) = Some (rest @ [0x0A])"
proof (cases "last cmd = 0x0A")
  case True
  then show ?thesis using append_butlast_last_id[OF assms(1)] by (metis (mono_tags))
qed (use assms(2) in \<open>simp add: strcat_in_def\<close>)

lemma line_last:
  assumes "args \<noteq> []" "\<forall>(gap, a) \<in> set args. gap_ok gap \<and> arg_ok a" "last (cmd_line args trail) = 0x0A"
  shows "trail \<noteq> []"
proof
  assume t: "trail = []"
  obtain init gap a where as: "args = init @ [(gap, a)]" using assms(1) by (metis rev_exhaust surj_pair)
  have a: "arg_ok a" using assms(2) by (auto simp: as)
  then have r: "render_arg a \<noteq> []" by (auto simp: render_arg_def arg_ok_def split: option.splits)
  have "is_blank 0x0A" "\<not> is_quote 0x0A" by (simp_all add: is_blank_def is_quote_def)
  then have "0x0A \<notin> set (render_arg a)" using a by (cases "fst a") (auto simp: render_arg_def arg_ok_def)
  moreover have "last (cmd_line args trail) = last (render_arg a)" using r by (simp add: cmd_line_def as t)
  ultimately show False using assms(3) last_in_set[OF r] by simp
qed

lemma last_concat_space: "last (concat (map (\<lambda>r. r @ [SPACE]) (r # rs))) = SPACE"
  by (induction rs arbitrary: r) auto

lemma hide_last: "hide_spaces i (xs @ [SPACE]) = (None, out) \<Longrightarrow> out \<noteq> [] \<and> last out = SPACE"
  by (auto simp: hide_spaces_append Let_def is_quote_def split: prod.splits if_splits)

lemma squash_last: "xs \<noteq> [] \<Longrightarrow> last xs = SPACE \<Longrightarrow> squash xs \<noteq> [] \<and> last (squash xs) = SPACE"
proof (induction xs rule: squash.induct)
  case (2 c cs)
  show ?case
  proof (cases "c = SPACE")
    case True
    let ?r = "dropWhile (\<lambda>x. x = SPACE) cs"
    have "last cs = SPACE" if "?r \<noteq> []" using that 2(4) by (cases "cs = []") auto
    moreover have "last ?r = last cs" if "?r \<noteq> []" using that takeWhile_dropWhile_id[of "\<lambda>x. x = SPACE" cs] last_appendR[of ?r] by metis
    ultimately have "last ?r = SPACE" if "?r \<noteq> []" using that by metis
    then show ?thesis using 2(1)[OF True] True by (cases "?r = []") (simp_all del: dropWhile_eq_Nil_conv)
  next
    case False
    then show ?thesis using 2(2)[OF False] 2(4) by (cases "cs = []") auto
  qed
qed simp

lemma squash_head: "squash xs = SPACE # r \<Longrightarrow> r = [] \<or> hd r \<noteq> SPACE"
proof (cases xs)
  case (Cons c cs)
  assume s: "squash xs = SPACE # r"
  then have r: "r = squash (dropWhile (\<lambda>x. x = SPACE) cs)" using Cons by (auto split: if_splits)
  show ?thesis
  proof (cases "dropWhile (\<lambda>x. x = SPACE) cs")
    case c: (Cons d ds)
    then have "d \<noteq> SPACE" by (auto simp: dropWhile_eq_Cons_conv)
    then show ?thesis unfolding r c by simp
  qed (simp add: r del: dropWhile_eq_Nil_conv)
qed simp

lemma split_args_count:
  "split_args argv p = Some res \<Longrightarrow> length argv \<le> SHELL_MAX_ARGS \<Longrightarrow>
    length argv \<le> length res \<and> length res \<le> SHELL_MAX_ARGS \<and> (SPACE \<in> set p \<longrightarrow> length argv < length res)"
proof (induction argv p rule: split_args.induct)
  case (1 argv p)
  show ?case
  proof (cases "dropWhile (\<lambda>c. c \<noteq> SPACE) p")
    case Nil
    then have "SPACE \<notin> set p" by auto
    moreover have "res = argv" using 1(2) Nil by (subst (asm) split_args.simps) simp
    ultimately show ?thesis using 1(3) by simp
  next
    case (Cons c rest)
    then have "length argv < SHELL_MAX_ARGS" "split_args (argv @ [takeWhile (\<lambda>c. c \<noteq> SPACE) p]) rest = Some res"
      using 1(2,3) by (subst (asm) split_args.simps, auto split: if_splits)+
    then show ?thesis using 1(1)[OF Cons] by auto
  qed
qed

section \<open>Properties\<close>

text \<open>C16: A command line is read as it was written: arguments separated by any mix of spaces, tabs and line ends, each plain or
  inside single or double quotes, come out as they are, spaces and the other kind of quotes inside quotes included. With more than ten
  arguments the line is refused.\<close>

theorem shell_quoting:
  assumes args: "args \<noteq> []" "\<forall>(gap, a) \<in> set args. gap_ok gap \<and> arg_ok a" "\<forall>(gap, a) \<in> set (tl args). gap \<noteq> []" and trail: "gap_ok trail"
    and cap: "length (cmd_line args trail) + 2 \<le> cap"
  shows "shell_parse cap (cmd_line args trail) =
    Some (if length args \<le> SHELL_MAX_ARGS then Inr (map (\<lambda>(gap, a). snd a) args) else Inl (Some ''Error: too many arguments''))"
proof -
  obtain gap a rest where as: "args = (gap, a) # rest" using args(1) by (cases args) auto
  have ok: "gap_ok gap" "arg_ok a" "\<forall>(g, b) \<in> set rest. gap_ok g \<and> arg_ok b \<and> g \<noteq> []" using args(2,3) by (auto simp: as)
  have r1: "render_arg a \<noteq> []" using hidden_arg_ok(1)[OF ok(2)] by (auto simp: hidden_arg_def render_arg_def split: option.splits)
  let ?line = "cmd_line args trail" and ?rs = "map (\<lambda>(g, b). (length g, hidden_arg b)) rest"
  have ne: "?line \<noteq> []" using r1 by (simp add: cmd_line_def as)
  define trail' where "trail' = (if last ?line = 0x0A then trail else trail @ [0x0A])"
  have trail': "gap_ok trail'" "trail' \<noteq> []" using trail line_last[OF args(1,2), of trail] by (auto simp: trail'_def gap_ok_def is_blank_def)
  have 1: "(if last ?line \<noteq> 0x0A then strcat_in cap ?line [0x0A] else Some ?line) = Some (cmd_line args trail')"
    using cap by (simp add: trail'_def cmd_line_def strcat_in_def)
  define hs where "hs = hidden_arg a # map snd ?rs"
  define p where "p = concat (map (\<lambda>r. r @ [SPACE]) hs)"
  have rs: "\<forall>(n, r) \<in> set ?rs. 0 < n \<and> r \<noteq> [] \<and> SPACE \<notin> set r" using ok(3) by (auto simp: hidden_arg_ok)
  have "squash (hidden_arg a @ concat (map (\<lambda>(n, r). replicate n SPACE @ r) ?rs) @ replicate (length trail') SPACE) = p"
    using squash_args[OF rs, of "length trail'"] trail'(2) shift_spaces[of "map snd ?rs"]
    by (simp add: squash_no_space[OF hidden_arg_ok(2)[OF ok(2)]] case_prod_unfold comp_def p_def hs_def)
  moreover have h: "hidden_arg a \<noteq> []" "hd (hidden_arg a) \<noteq> SPACE" "SPACE \<notin> set (hidden_arg a)" using hidden_arg_ok(1,2)[OF ok(2)] hd_in_set[of "hidden_arg a"] by metis+
  ultimately have 2: "squash (concat (map (\<lambda>(gap, a). replicate (length gap) SPACE @ hidden_arg a) args) @ replicate (length trail') SPACE) =
      (if gap = [] then p else SPACE # p)"
    using squash_gap[of "replicate (length gap) SPACE" "hidden_arg a @ rest'" for rest'] by (simp add: as case_prod_unfold comp_def)
  have p: "hd p \<noteq> SPACE" "p \<noteq> []" using h(1,2) by (simp_all add: p_def hs_def)
  have pl: "last p = SPACE" unfolding p_def hs_def by (rule last_concat_space)
  have 3: "split_args [] p = (if length args \<le> SHELL_MAX_ARGS then Some hs else None)"
  proof -
    have "\<forall>r \<in> set hs. SPACE \<notin> set r" using h(3) rs by (fastforce simp: hs_def)
    from split_args_words[OF this, of "[]"] show ?thesis by (simp add: as p_def hs_def)
  qed
  have 4: "map unquote hs = map (\<lambda>(gap, a). snd a) args"
    using ok by (auto simp: as hs_def hidden_arg_ok(4))
  show ?thesis
    unfolding shell_parse_def 1 using ne p pl by (auto simp: hide_line[OF args(2) trail'(1)] 2 3 4[symmetric] Let_def)
qed

lemma parse_safe:
  assumes "length cmd + 2 \<le> cap"
  shows "\<exists>res. shell_parse cap cmd = Some res \<and> (\<forall>argv. res = Inr argv \<longrightarrow> argv \<noteq> [] \<and> length argv \<le> SHELL_MAX_ARGS)"
proof (cases "cmd = []")
  case False
  obtain rest where r: "(if last cmd \<noteq> 0x0A then strcat_in cap cmd [0x0A] else Some cmd) = Some (rest @ [0x0A])"
    using line_end[OF False assms] by blast
  have b: "blanks_to_spaces (rest @ [0x0A]) = blanks_to_spaces rest @ [SPACE]" by (simp add: blanks_to_spaces_def is_blank_def)
  obtain e cmd2 where h: "hide_spaces None (blanks_to_spaces rest @ [SPACE]) = (e, cmd2)" by fastforce
  show ?thesis
  proof (cases "e = None \<and> squash cmd2 \<noteq> [SPACE]")
    case False
    then show ?thesis using \<open>cmd \<noteq> []\<close> unfolding shell_parse_def r by (cases e) (auto simp: b h Let_def)
  next
    case True
    have l: "squash cmd2 \<noteq> []" "last (squash cmd2) = SPACE" using hide_last[of None "blanks_to_spaces rest" cmd2] h True squash_last by auto
    define p where "p = drop (if hd (squash cmd2) = SPACE then 1 else 0) (squash cmd2)"
    have p: "last p = SPACE" "SPACE \<in> set p"
    proof -
      have "p \<noteq> []" using l(1) True by (cases "squash cmd2") (auto simp: p_def split: if_splits)
      then show "last p = SPACE" using l(2) by (simp add: p_def last_drop)
      then show "SPACE \<in> set p" using last_in_set[OF \<open>p \<noteq> []\<close>] by simp
    qed
    have "shell_parse cap cmd = Some (case split_args [] p of None \<Rightarrow> Inl (Some ''Error: too many arguments'') | Some argv \<Rightarrow> Inr (map unquote argv))"
      using \<open>cmd \<noteq> []\<close> True p(1) unfolding shell_parse_def r by (simp add: b h Let_def p_def)
    moreover have "length argv \<le> SHELL_MAX_ARGS \<and> argv \<noteq> []" if "split_args [] p = Some argv" for argv
      using split_args_count[OF that] p(2) by auto
    ultimately show ?thesis by (cases "split_args [] p") auto
  qed
qed (simp add: shell_parse_def)

lemma lookup_found:
  "\<exists>c \<in> set cmds. sc_cmd c = None \<Longrightarrow> \<exists>pcmd \<in> set cmds. shell_lookup cmds arg = Some pcmd \<and> (\<forall>n. sc_cmd pcmd = Some n \<longrightarrow> strcasecmp_eq n arg)"
  by (induction cmds) (auto split: option.split)

definition runs_unknown :: "'w SHELL_COMMAND list \<Rightarrow> u8 list \<Rightarrow> bool" where
  "runs_unknown cmds cmd = (case shell_parse (length cmd + 2) cmd of
     Some (Inr argv) \<Rightarrow> (case shell_lookup cmds (hd argv) of Some pcmd \<Rightarrow> sc_cmd pcmd = None | None \<Rightarrow> False)
   | _ \<Rightarrow> False)"

text \<open>C24: A line in an array with two bytes to spare, as both callers provide, is handled without writing outside the array, whatever it
  holds, and a handler is called with one to ten arguments: with handlers that return, the interactive shell always
  returns from a line. \<^verbatim>\<open>elua.shell\<close>, whose memory has just this size, does so too except for a command that is not in the
  table: it then compares the NULL name that ends the table with \<^verbatim>\<open>exit\<close>.\<close>

theorem shell_execute_safe:
  assumes cap: "length cmd + 2 \<le> cap" and table: "\<exists>c \<in> set cmds. sc_cmd c = None"
    and handlers: "\<forall>c \<in> set cmds. \<forall>h argv s. sc_handler c = Some h \<and> argv \<noteq> [] \<and> length argv \<le> SHELL_MAX_ARGS \<longrightarrow> h argv s \<noteq> None"
  shows "(\<exists>res s'. shellh_execute_command cap cmds cmd True s = Some (res, s'))
    \<and> (elua_shell True cmds cmd s = None \<longleftrightarrow> runs_unknown cmds cmd)"
proof -
  have run: "(case parsed of Inr argv \<Rightarrow> (\<exists>pcmd. shell_lookup cmds (hd argv) = Some pcmd \<and> argv \<noteq> [] \<and>
      (\<forall>h. sc_handler pcmd = Some h \<longrightarrow> (\<exists>s'. h argv s = Some s'))) | Inl _ \<Rightarrow> True)"
    if "shell_parse n cmd = Some parsed" "length cmd + 2 \<le> n" for n parsed
  proof (cases parsed)
    case (Inr argv)
    then have a: "argv \<noteq> []" "length argv \<le> SHELL_MAX_ARGS" using parse_safe[OF that(2)] that(1) by auto
    obtain pcmd where "pcmd \<in> set cmds" "shell_lookup cmds (hd argv) = Some pcmd" using lookup_found[OF table] by blast
    then show ?thesis using handlers a Inr by auto
  qed simp
  define n where "n = length cmd + 2"
  have n: "length cmd + 2 \<le> n" by (simp add: n_def)
  obtain p1 p2 where p: "shell_parse cap cmd = Some p1" "shell_parse n cmd = Some p2"
    using parse_safe[OF cap] parse_safe[OF n] by auto
  have "\<exists>res s'. shellh_execute_command cap cmds cmd True s = Some (res, s')"
    using run[OF p(1) cap] by (auto simp: shellh_execute_command_def p(1) split: sum.splits option.splits)
  moreover have "elua_shell True cmds cmd s = None \<longleftrightarrow> runs_unknown cmds cmd"
    using run[OF p(2) n] unfolding elua_shell_def runs_unknown_def n_def[symmetric]
    by (auto simp: shellh_execute_command_def p(2) ex_bool_eq split: sum.splits option.splits)
  ultimately show ?thesis by blast
qed

text \<open>A table with a command that prints how many arguments it was called with.\<close>

definition example_commands :: "'w SHELL_COMMAND list" where
  "example_commands = [\<lparr>sc_cmd = Some [0x6C, 0x73], sc_handler = Some (\<lambda>argv s. Some (printf ''%u'' [NUM (length argv)] s))\<rparr>,
     \<lparr>sc_cmd = Some EXIT_CMD, sc_handler = None\<rparr>, \<lparr>sc_cmd = None, sc_handler = None\<rparr>]"

definition example_shell :: "unit shell" where
  "example_shell = \<lparr>sh_reent = \<lparr>reent_errno = None, world = ()\<rparr>, sh_keys = [], sh_out = []\<rparr>"

text \<open>\<^verbatim>\<open>cp 'a "b' ""\<close> with a tab and a line end.\<close>

theorem shell_quoting_witness:
  "shell_parse 50 [0x63, 0x70, 0x09, SQUOTE, 0x61, SPACE, DQUOTE, 0x62, SQUOTE, SPACE, SPACE, DQUOTE, DQUOTE, 0x0A] =
    Some (Inr [[0x63, 0x70], [0x61, SPACE, DQUOTE, 0x62], []])"
  using shell_quoting[of "[([], None, [0x63, 0x70]), ([0x09], Some SQUOTE, [0x61, SPACE, DQUOTE, 0x62]), ([SPACE, SPACE], Some DQUOTE, [])]" "[0x0A]" 50]
  by (simp add: cmd_line_def render_arg_def arg_ok_def gap_ok_def is_blank_def is_quote_def)

theorem shell_execute_safe_witness:
  "elua_shell True example_commands [0x66, 0x6F, 0x6F] example_shell = None \<and> elua_shell True example_commands [0x6C, 0x73] example_shell \<noteq> None
    \<and> (\<exists>res s'. shellh_execute_command 51 example_commands [0x66, 0x6F, 0x6F] True example_shell = Some (res, s'))"
proof -
  have p: "shell_parse (length [0x66, 0x6F, 0x6F :: u8] + 2) [0x66, 0x6F, 0x6F] = Some (Inr [[0x66, 0x6F, 0x6F]])" "shell_parse (length [0x6C, 0x73 :: u8] + 2) [0x6C, 0x73] = Some (Inr [[0x6C, 0x73]])"
    by (simp_all add: shell_parse_def strcat_in_def blanks_to_spaces_def is_blank_def is_quote_def split_args.simps unquote_def)
  then have "runs_unknown example_commands [0x66, 0x6F, 0x6F]" "\<not> runs_unknown example_commands [0x6C, 0x73]"
    by (simp_all add: runs_unknown_def example_commands_def strcasecmp_eq_def to_lower_def EXIT_CMD_def)
  then show ?thesis
    using shell_execute_safe[of "[0x66, 0x6F, 0x6F]" 51 example_commands example_shell] shell_execute_safe[of "[0x6C, 0x73]" 51 example_commands example_shell]
    by (simp add: example_commands_def)
qed

end
