(* ===== verification/Shell_Files.thy ===== *)
theory Shell_Files
  imports Shell
begin

text \<open>
  The commands of the shell on files: \<^verbatim>\<open>cp\<close> and \<^verbatim>\<open>mv\<close> (\<^verbatim>\<open>shellh_cp_file\<close> of \<^verbatim>\<open>shell.c\<close>, \<^verbatim>\<open>shell_adv_cp_mv.c\<close>), \<^verbatim>\<open>rm\<close>
  (\<^verbatim>\<open>shell_adv_rm.c\<close>), \<^verbatim>\<open>ls\<close> (\<^verbatim>\<open>shell_ls.c\<close>), \<^verbatim>\<open>mkdir\<close>, \<^verbatim>\<open>wofmt\<close>, \<^verbatim>\<open>cat\<close>, \<^verbatim>\<open>help\<close> and \<^verbatim>\<open>ver\<close>, in a build with the advanced shell. They reach the files through the system
  calls and the directory walk; \<^verbatim>\<open>fopen\<close> (used to find out whether a path names a file) and \<^verbatim>\<open>malloc\<close> are parameters.
\<close>

section \<open>Environment\<close>

record ('w, 'p, 'd) shell_env =
  se_dm :: "('w, 'p, 'd) devman"
  se_lib :: libc_flags
  se_mem :: "u8 list \<Rightarrow> bool"
  se_fopen :: "u8 list \<Rightarrow> ('w, bool) devop"
  se_hasdirs :: "u8 list \<Rightarrow> bool"
  SHELL_COPY_BUFSIZE :: nat

abbreviation "SHELL_F_RECURSIVE \<equiv> (1 :: u32)"
abbreviation "SHELL_F_FORCE_DESTINATION \<equiv> (2 :: u32)"
abbreviation "SHELL_F_ASK_CONFIRMATION \<equiv> (4 :: u32)"
abbreviation "SHELL_F_SIMULATE_ONLY \<equiv> (8 :: u32)"
abbreviation "SHELL_F_SILENT \<equiv> (16 :: u32)"
abbreviation "SHELL_F_MOVE \<equiv> (32 :: u32)"

section \<open>Questions\<close>

text \<open>Waiting for one of the keys y and n; without another key it waits for ever.\<close>

fun yes_no_key :: "int list \<Rightarrow> (bool \<times> int list) option" where
  "yes_no_key [] = None"
| "yes_no_key (c # keys) =
     (if c = 0x79 \<or> c = 0x59 then Some (True, keys) else if c = 0x6E \<or> c = 0x4E then Some (False, keys) else yes_no_key keys)"

definition shellh_ask_yes_no :: "u8 list option \<Rightarrow> ('w, bool) shop" where
  "shellh_ask_yes_no prompt s =
     (let s1 = (case prompt of None \<Rightarrow> s | Some p \<Rightarrow> printf ''%s '' [TXT p] s)
      in do { (yes, keys) \<leftarrow> yes_no_key (sh_keys s1);
              Some (yes, printf (if yes then ''y'' else ''n'') [] (s1\<lparr>sh_keys := keys\<rparr>)) })"

section \<open>Copying a file\<close>

definition plog :: "u32 \<Rightarrow> string \<Rightarrow> msg_arg list \<Rightarrow> 'w shell \<Rightarrow> 'w shell" where
  "plog flags fmt args s = (if flags AND SHELL_F_SILENT \<noteq> 0 then s else printf fmt args s)"

text \<open>The copy loop: the number of bytes, or \<^const>\<open>None\<close> for the jump to \<^verbatim>\<open>done\<close> after an error.\<close>

partial_function (option) cp_loop ::
  "('w, 'p, 'd) shell_env \<Rightarrow> u32 \<Rightarrow> u8 list \<Rightarrow> u8 list \<Rightarrow> int \<Rightarrow> int \<Rightarrow> u32 \<Rightarrow> ('w, u32 option) shop" where
  "cp_loop env flags psrcname pdestname fds fdd tot s =
     do { ((datalen, buf), s1) \<leftarrow> sys (read_r fds (SHELL_COPY_BUFSIZE env) (se_dm env)) s;
          if datalen = -1 then Some (None, plog flags ''Error reading source file '%s'.'' [TXT psrcname] s1)
          else do { (datawrote, s2) \<leftarrow> sys (write_r fdd (take (nat datalen) buf) (se_dm env)) s1;
                    if datawrote = -1 then Some (None, plog flags ''Error writing destination file '%s'.'' [TXT pdestname] s2)
                    else if datawrote < datalen then Some (None, plog flags ''Copy error (no space left on target?)'' [] s2)
                    else if datalen < int (SHELL_COPY_BUFSIZE env) then Some (Some (tot + word_of_int datalen), s2)
                    else cp_loop env flags psrcname pdestname fds fdd (tot + word_of_int datalen) s2 } }"

text \<open>From the question about an existing destination to the end of the copy; the result has the descriptor of the destination.\<close>

definition cp_overwrite :: "('w, 'p, 'd) shell_env \<Rightarrow> u8 list \<Rightarrow> u32 \<Rightarrow> ('w, bool) shop" where
  "cp_overwrite env pdestname flags s =
     (if flags AND SHELL_F_FORCE_DESTINATION \<noteq> 0 then Some (True, s)
      else do { (fdd, s1) \<leftarrow> sys (open_file (Some pdestname) (libc_flags.O_RDONLY (se_lib env)) 0 (se_dm env)) s;
                if fdd = -1 then Some (True, s1)
                else do { (_, s2) \<leftarrow> sys (close_r fdd (se_dm env)) s1;
                          shellh_ask_yes_no None (printf ''Destination '%s' already exists, are you sure you want to overwrite it ? [y/n] '' [TXT pdestname] s2) } })"

definition cp_data :: "('w, 'p, 'd) shell_env \<Rightarrow> u8 list \<Rightarrow> u8 list \<Rightarrow> u32 \<Rightarrow> int \<Rightarrow> ('w, bool \<times> int) shop" where
  "cp_data env psrcname pdestname flags fds s =
     (if \<not> se_mem env psrcname then Some ((False, -1), plog flags ''ERROR: unable to allocate buffer for copy operation.'' [] s)
      else let s1 = plog flags ''Copying '%s' to '%s' ... '' [TXT psrcname, TXT pdestname] s in
        if flags AND SHELL_F_SIMULATE_ONLY \<noteq> 0 then Some ((True, -1), plog flags ''done (%u bytes).'' [NUM 0] s1)
        else do { (fdd, s2) \<leftarrow> sys (open_file (Some pdestname) (libc_flags.O_WRONLY (se_lib env) OR libc_flags.O_CREAT (se_lib env)
                                      OR libc_flags.O_TRUNC (se_lib env)) 0 (se_dm env)) s1;
                  if fdd = -1 then Some ((False, -1), plog flags ''ERROR: unable to open '%s' for writing.'' [TXT pdestname] s2)
                  else do { (res, s3) \<leftarrow> cp_loop env flags psrcname pdestname fds fdd 0 s2;
                            case res of
                              None \<Rightarrow> Some ((False, fdd), s3)
                            | Some tot \<Rightarrow> Some ((True, fdd), plog flags ''done (%u bytes).'' [NUM (unat tot)] s3) } })"

definition shellh_cp_file :: "('w, 'p, 'd) shell_env \<Rightarrow> u8 list \<Rightarrow> u8 list \<Rightarrow> u32 \<Rightarrow> ('w, bool) shop" where
  "shellh_cp_file env psrcname pdestname flags s =
     (if strcasecmp_eq psrcname pdestname then Some (False, plog flags ''Cannot copy '%s' into itself.'' [TXT psrcname] s)
      else do { (go, s1) \<leftarrow> (if flags AND SHELL_F_ASK_CONFIRMATION \<noteq> 0
                             then shellh_ask_yes_no None (printf ''Copy '%s' to '%s' ? [y/n] '' [TXT psrcname, TXT pdestname] s)
                             else Some (True, s));
                if \<not> go then Some (False, s1)
                else do { (fds, s2) \<leftarrow> sys (open_file (Some psrcname) (libc_flags.O_RDONLY (se_lib env)) 0 (se_dm env)) s1;
                          if fds = -1 then Some (False, plog flags (''Error: unable to open source file '%s'' @ [CHR 0x27]) [TXT psrcname] s2)
                          else do { (go, s3) \<leftarrow> cp_overwrite env pdestname flags s2;
                                    ((res, fdd), s4) \<leftarrow> (if go then cp_data env psrcname pdestname flags fds s3 else Some ((False, -1), s3));
                                    (_, s5) \<leftarrow> sys (close_r fds (se_dm env)) s4;
                                    if fdd = -1 then Some (res, s5)
                                    else do { (_, s6) \<leftarrow> sys (close_r fdd (se_dm env)) s5; Some (res, s6) } } } })"

definition shellh_cp_or_mv_file :: "('w, 'p, 'd) shell_env \<Rightarrow> u8 list \<Rightarrow> u8 list \<Rightarrow> u32 \<Rightarrow> ('w, bool) shop" where
  "shellh_cp_or_mv_file env psrc pdest flags s =
     do { (finished, s1) \<leftarrow>
            (if flags AND SHELL_F_MOVE \<noteq> 0
             then do { (res, s1) \<leftarrow> sys (rename_r (Some psrc) (Some pdest) (se_dm env)) s;
                       if res = -1
                       then Some (if reent_errno (sh_reent s1) \<noteq> Some EXDEV then (Some False, printf ''Unable to rename '%s'.'' [TXT psrc] s1) else (None, s1))
                       else Some (Some True, printf ''Moved '%s' to '%s'.'' [TXT psrc, TXT pdest] s1) }
             else Some (None, s));
          case finished of
            Some res \<Rightarrow> Some (res, s1)
          | None \<Rightarrow>
              do { (ok, s2) \<leftarrow> shellh_cp_file env psrc pdest flags s1;
                   if \<not> ok then Some (False, s2)
                   else if flags AND SHELL_F_MOVE \<noteq> 0
                   then do { (res, s3) \<leftarrow> sys (unlink_r (Some psrc) (se_dm env)) s2;
                             Some (if res = -1 then (False, printf ''Unable to remove original file '%s'.'' [TXT psrc] s3) else (True, s3)) }
                   else Some (True, s2) } }"

section \<open>Walks\<close>

text \<open>A callback works on the state of the shell; the walk hands it the world of the devices.\<close>

type_synonym 'w shell_cb = "u8 list \<Rightarrow> dm_dirent option \<Rightarrow> fs_info \<Rightarrow> ('w, bool) shop"

definition in_walk :: "'w shell_cb \<Rightarrow> ('w, 'w shell) walker_cb" where
  "in_walk cb path ent info r s = do { (go, s1) \<leftarrow> cb path ent info (s\<lparr>sh_reent := r\<rparr>); Some (go, sh_reent s1, s1) }"

definition shell_walk :: "('w, 'p, 'd) shell_env \<Rightarrow> u8 list \<Rightarrow> 'w shell_cb \<Rightarrow> bool \<Rightarrow> 'w shell \<Rightarrow> 'w shell option" where
  "shell_walk env path cb recursive s =
     do { (_, r, s1) \<leftarrow> cmn_fs_walkdir (se_mem env path) (se_fopen env)
            \<lparr>wk_mem = se_mem env, wk_hasdirs = se_hasdirs env, wk_dm = se_dm env, wk_pattern = [], wk_cb = in_walk cb\<rparr> (Some path) recursive (sh_reent s) s;
          Some (s1\<lparr>sh_reent := r\<rparr>) }"

definition path_type :: "('w, 'p, 'd) shell_env \<Rightarrow> u8 list \<Rightarrow> ('w, fs_type) shop" where
  "path_type env path = sys (cmn_fs_get_type (se_mem env path) (se_fopen env) (Some path) (se_dm env))"

definition join_paths :: "('w, 'p, 'd) shell_env \<Rightarrow> u8 list option \<Rightarrow> u8 list list \<Rightarrow> u8 list option option" where
  "join_paths env dir parts =
     (case dir of
        None \<Rightarrow> cmn_fs_path_join True []
      | Some d \<Rightarrow> cmn_fs_path_join (se_mem env d) (d # parts))"

section \<open>cp and mv\<close>

record SHELL_CP_STATE =
  pdestdir :: "u8 list option"
  psrcdir :: "u8 list"
  dloc :: "u8 list"
  cp_flags :: u8

definition starts_with :: "u8 list \<Rightarrow> u8 list \<Rightarrow> bool" where
  "starts_with path dir \<longleftrightarrow> take (length dir) path = dir"

definition cp_make_dir :: "('w, 'p, 'd) shell_env \<Rightarrow> u32 \<Rightarrow> u8 list \<Rightarrow> ('w, bool) shop" where
  "cp_make_dir env flags tmp s =
     do { (d, s1) \<leftarrow> sys (dm_opendir (se_mem env tmp) tmp (se_dm env)) s;
          case d of
            Some d \<Rightarrow> do { (_, s2) \<leftarrow> sys (dm_closedir d (se_dm env)) s1; Some (True, s2) }
          | None \<Rightarrow>
              let s2 = printf ''Creating directory %s ... '' [TXT tmp] s1 in
              if flags AND SHELL_F_SIMULATE_ONLY = 0
              then do { (res, s3) \<leftarrow> sys (mkdir_r (Some tmp) 0 (se_dm env)) s2;
                        Some (if res = -1 then (False, printf ''ERROR! (aborting).'' [] s3) else (True, printf ''done.'' [] s3)) }
              else Some (True, printf ''done.'' [] s2) }"

definition shellh_cp_walkdir_cb :: "('w, 'p, 'd) shell_env \<Rightarrow> SHELL_CP_STATE \<Rightarrow> 'w shell_cb" where
  "shellh_cp_walkdir_cb env ps path pent info s =
     (let flags = ucast (cp_flags ps); below = drop (length (psrcdir ps) - length (dloc ps)) path;
          no_mem = (False, printf ''Not enough memory.'' [] s);
          bad_dir = (False, printf ''ERROR: unable to handle directory '%s' (internal error?), aborting.'' [TXT path] s)
      in case info of
           CMN_FS_INFO_BEFORE_READDIR \<Rightarrow>
             if \<not> starts_with path (psrcdir ps) then Some bad_dir
             else do { tmp \<leftarrow> join_paths env (pdestdir ps) [below];
                       case tmp of None \<Rightarrow> Some no_mem | Some t \<Rightarrow> cp_make_dir env flags t s }
         | CMN_FS_INFO_INSIDE_READDIR \<Rightarrow>
             do { e \<leftarrow> pent;
                  if is_dir e then Some (True, s)
                  else if \<not> starts_with path (psrcdir ps) then Some bad_dir
                  else do { tmp \<leftarrow> join_paths env (Some path) [dirent_fname e];
                            case tmp of
                              None \<Rightarrow> Some no_mem
                            | Some from \<Rightarrow>
                                do { tmp2 \<leftarrow> join_paths env (pdestdir ps) [below, dirent_fname e];
                                     case tmp2 of
                                       None \<Rightarrow> Some no_mem
                                     | Some to \<Rightarrow> do { (_, s1) \<leftarrow> shellh_cp_or_mv_file env from to flags s; Some (True, s1) } } } }
         | CMN_FS_INFO_OPENDIR_FAILED \<Rightarrow> Some (False, printf ''ERROR: unable to read directory '%s', aborting.'' [TXT path] s)
         | _ \<Rightarrow> Some (True, s))"

definition "OPT_R = [0x2D, 0x52 :: u8]"
definition "OPT_F = [0x2D, 0x66 :: u8]"
definition "OPT_C = [0x2D, 0x63 :: u8]"
definition "OPT_S = [0x2D, 0x73 :: u8]"

fun cp_args :: "u8 list list \<Rightarrow> u32 \<Rightarrow> u8 list option \<Rightarrow> u8 list option \<Rightarrow> 'w shell \<Rightarrow> (u32 \<times> u8 list option \<times> u8 list option) \<times> 'w shell" where
  "cp_args [] flags srcpath dstpath s = ((flags, srcpath, dstpath), s)"
| "cp_args (arg # args) flags srcpath dstpath s =
     (if arg = OPT_R then cp_args args (flags OR SHELL_F_RECURSIVE) srcpath dstpath s
      else if arg = OPT_F then cp_args args (flags OR SHELL_F_FORCE_DESTINATION) srcpath dstpath s
      else if arg = OPT_C then cp_args args (flags OR SHELL_F_ASK_CONFIRMATION) srcpath dstpath s
      else if arg = OPT_S then cp_args args (flags OR SHELL_F_SIMULATE_ONLY) srcpath dstpath s
      else if firstchar arg = SLASH \<and> srcpath = None then cp_args args flags (Some arg) dstpath s
      else if firstchar arg = SLASH \<and> dstpath = None then cp_args args flags srcpath (Some arg) s
      else cp_args args flags srcpath dstpath (printf (''WARNING: ignoring argument '%s'' @ [CHR 0x27]) [TXT arg] s))"

definition shell_help_cp :: string where
  "shell_help_cp = text_lines [''<source> <destination> [-R] [-f] [-c] [-s]'', ''  <source>: source file/directory/file mask.'',
     ''  <destination>: destination file/directory.'', ''  [-R]: recursive'', ''  [-f]: force destination override (default is to ask confirmation).'',
     ''  [-c]: confirm each operation.'', ''  [-s]: simulate only (no actual operation).'']"

text \<open>Which types of source and destination are refused, and the numbers printed for them.\<close>

definition type_number :: "fs_type \<Rightarrow> nat" where
  "type_number t = (case t of CMN_FS_TYPE_DIR \<Rightarrow> 0 | CMN_FS_TYPE_FILE \<Rightarrow> 1 | CMN_FS_TYPE_PATTERN \<Rightarrow> 2 | CMN_FS_TYPE_ERROR \<Rightarrow> 3
     | CMN_FS_TYPE_FILE_NOT_FOUND \<Rightarrow> 4 | CMN_FS_TYPE_DIR_NOT_FOUND \<Rightarrow> 5 | CMN_FS_TYPE_UNKNOWN_NOT_FOUND \<Rightarrow> 6)"

definition not_there :: "fs_type \<Rightarrow> bool" where
  "not_there t \<longleftrightarrow> t \<in> {CMN_FS_TYPE_ERROR, CMN_FS_TYPE_FILE_NOT_FOUND, CMN_FS_TYPE_DIR_NOT_FOUND, CMN_FS_TYPE_UNKNOWN_NOT_FOUND}"

definition cp_one :: "('w, 'p, 'd) shell_env \<Rightarrow> u32 \<Rightarrow> u8 list \<Rightarrow> u8 list \<Rightarrow> fs_type \<Rightarrow> (u8 list \<times> u8 list) option \<Rightarrow> u8 list option \<Rightarrow> 'w shell \<Rightarrow> 'w shell option" where
  "cp_one env flags srcpath dstpath dsttype srcsplit dstdir s =
     (if dsttype = CMN_FS_TYPE_FILE \<or> dsttype = CMN_FS_TYPE_FILE_NOT_FOUND \<or> dsttype = CMN_FS_TYPE_UNKNOWN_NOT_FOUND
      then map_option snd (shellh_cp_or_mv_file env srcpath dstpath flags s)
      else if dsttype = CMN_FS_TYPE_DIR
      then do { (_, srcfile) \<leftarrow> srcsplit;
                tmp \<leftarrow> join_paths env dstdir [srcfile];
                case tmp of
                  None \<Rightarrow> Some (printf ''Not enough memory.'' [] s)
                | Some t \<Rightarrow> map_option snd (shellh_cp_or_mv_file env srcpath t flags s) }
      else Some (printf ''Invalid destination.'' [] s))"

text \<open>Without memory for the directory of the source the walk finds none either; its last slash is looked for without a test.\<close>

definition cp_many :: "('w, 'p, 'd) shell_env \<Rightarrow> u32 \<Rightarrow> u8 list \<Rightarrow> u8 list \<Rightarrow> fs_type \<Rightarrow> (u8 list \<times> u8 list) option \<Rightarrow> u8 list option \<Rightarrow> 'w shell \<Rightarrow> 'w shell option" where
  "cp_many env flags srcpath dstpath dsttype srcsplit dstdir s =
     (let recursive = flags AND SHELL_F_RECURSIVE \<noteq> 0 in
      if dsttype = CMN_FS_TYPE_FILE \<or> dsttype = CMN_FS_TYPE_FILE_NOT_FOUND then Some (printf ''Invalid destination '%s'.'' [TXT dstpath] s)
      else (case srcsplit of
              None \<Rightarrow> if recursive then None else shell_walk env srcpath (\<lambda>_ _ _ _. None) recursive s
            | Some (srcdir, _) \<Rightarrow>
                shell_walk env srcpath (shellh_cp_walkdir_cb env \<lparr>pdestdir = dstdir, psrcdir = srcdir,
                  dloc = (if recursive then SLASH # base_name srcdir else []), cp_flags = ucast flags\<rparr>) recursive s))"

definition shellh_adv_cp_mv_common :: "('w, 'p, 'd) shell_env \<Rightarrow> u8 list list \<Rightarrow> bool \<Rightarrow> 'w shell \<Rightarrow> 'w shell option" where
  "shellh_adv_cp_mv_common env argv is_move s =
     (if length argv < 3 then Some (shellh_show_help (if is_move then ''mv'' else ''cp'') shell_help_cp s)
      else case cp_args (tl argv) (if is_move then SHELL_F_MOVE else 0) None None s of
        ((flags, Some srcpath, Some dstpath), s1) \<Rightarrow>
          do { (srctype, s2) \<leftarrow> path_type env srcpath s1;
               (dsttype, s3) \<leftarrow> path_type env dstpath s2;
               if dsttype = CMN_FS_TYPE_PATTERN then Some (printf ''Invalid destination '%s'.'' [TXT dstpath] s3)
               else if not_there srctype \<or> dsttype = CMN_FS_TYPE_ERROR \<or> dsttype = CMN_FS_TYPE_DIR_NOT_FOUND
               then Some (printf ''Invalid source and/or destination.'' [] (printf ''%d %d'' [NUM (type_number srctype), NUM (type_number dsttype)] s3))
               else do { (srcsplit, s4) \<leftarrow> sys (cmn_fs_split_path (se_mem env srcpath) (se_fopen env) (Some srcpath)) s3;
                         (dstsplit, s5) \<leftarrow> sys (cmn_fs_split_path (se_mem env dstpath) (se_fopen env) (Some dstpath)) s4;
                         (if srctype = CMN_FS_TYPE_FILE then cp_one else cp_many) env flags srcpath dstpath dsttype srcsplit (map_option fst dstsplit) s5 } }
      | (_, s1) \<Rightarrow> Some (printf ''Source and/or destination not specified.'' [] s1))"

definition shell_cp :: "('w, 'p, 'd) shell_env \<Rightarrow> u8 list list \<Rightarrow> 'w shell \<Rightarrow> 'w shell option" where
  "shell_cp env argv s = shellh_adv_cp_mv_common env argv False s"

definition shell_adv_mv :: "('w, 'p, 'd) shell_env \<Rightarrow> u8 list list \<Rightarrow> 'w shell \<Rightarrow> 'w shell option" where
  "shell_adv_mv env argv s = shellh_adv_cp_mv_common env argv True s"

section \<open>rm\<close>

definition shellh_rm_one :: "('w, 'p, 'd) shell_env \<Rightarrow> u8 list \<Rightarrow> u32 \<Rightarrow> 'w shell \<Rightarrow> 'w shell option" where
  "shellh_rm_one env path flags s =
     do { (ftype, s1) \<leftarrow> path_type env path s;
          (go, s2) \<leftarrow> (if flags AND SHELL_F_ASK_CONFIRMATION \<noteq> 0
                       then shellh_ask_yes_no None (printf ''Are you sure you want to remove %s ? [y/n] '' [TXT path] s1) else Some (True, s1));
          if \<not> go then Some s2
          else do { (res, s3) \<leftarrow>
                      (if flags AND SHELL_F_SIMULATE_ONLY \<noteq> 0 then Some (Some 0, s2)
                       else if ftype = CMN_FS_TYPE_FILE then do { (res, s3) \<leftarrow> sys (unlink_r (Some path) (se_dm env)) s2; Some (Some res, s3) }
                       else if ftype = CMN_FS_TYPE_DIR then do { (res, s3) \<leftarrow> sys (rmdir (Some path) (se_dm env)) s2; Some (Some res, s3) }
                       else Some (None, printf (''WARNING: invalid argument '%s'' @ [CHR 0x27]) [TXT path] s2));
                    Some (case res of
                            None \<Rightarrow> s3
                          | Some res \<Rightarrow>
                              if res = 0 then printf ''Removed %s'' [TXT path] s3
                              else if flags AND SHELL_F_SILENT = 0 then printf ''WARNING: unable to remove %s'' [TXT path] s3 else s3) } }"

text \<open>The callback reads the flags, an \<^verbatim>\<open>unsigned\<close>, through a pointer to a byte: it gets the byte with the lowest address.\<close>

definition first_byte :: "bool \<Rightarrow> u32 \<Rightarrow> u8" where
  "first_byte big_endian flags = (if big_endian then ucast (drop_bit 24 flags) else ucast flags)"

definition shellh_rm_walkdir_cb :: "('w, 'p, 'd) shell_env \<Rightarrow> bool \<Rightarrow> u32 \<Rightarrow> 'w shell_cb" where
  "shellh_rm_walkdir_cb env big_endian fl path pent info s =
     (let flags = ucast (first_byte big_endian fl) :: u32 in
      case info of
        CMN_FS_INFO_INSIDE_READDIR \<Rightarrow>
          do { e \<leftarrow> pent;
               tmp \<leftarrow> join_paths env (Some path) [dirent_fname e];
               case tmp of
                 None \<Rightarrow> Some (False, printf ''Not enough memory.'' [] s)
               | Some t \<Rightarrow>
                   do { (ftype, s1) \<leftarrow> path_type env t s;
                        if ftype = CMN_FS_TYPE_FILE then do { s2 \<leftarrow> shellh_rm_one env t flags s1; Some (True, s2) } else Some (True, s1) } }
      | CMN_FS_INFO_OPENDIR_FAILED \<Rightarrow> Some (False, printf ''ERROR: unable to read directory '%s', aborting.'' [TXT path] s)
      | CMN_FS_INFO_DIRECTORY_DONE \<Rightarrow>
          if flags AND SHELL_F_RECURSIVE \<noteq> 0 \<and> \<not> cmn_fs_is_root_dir (Some path)
          then do { s1 \<leftarrow> shellh_rm_one env path (flags OR SHELL_F_SILENT) s; Some (True, s1) }
          else Some (True, s)
      | _ \<Rightarrow> Some (True, s))"

fun rm_args :: "u8 list list \<Rightarrow> u32 \<Rightarrow> u8 list option \<Rightarrow> 'w shell \<Rightarrow> (u32 \<times> u8 list option) \<times> 'w shell" where
  "rm_args [] flags fmask s = ((flags, fmask), s)"
| "rm_args (arg # args) flags fmask s =
     (if firstchar arg = SLASH \<and> fmask = None then rm_args args flags (Some arg) s
      else if firstchar arg \<noteq> SLASH \<and> arg = OPT_R then rm_args args (flags OR SHELL_F_RECURSIVE) fmask s
      else if firstchar arg \<noteq> SLASH \<and> arg = OPT_C then rm_args args (flags OR SHELL_F_ASK_CONFIRMATION) fmask s
      else if firstchar arg \<noteq> SLASH \<and> arg = OPT_S then rm_args args (flags OR SHELL_F_SIMULATE_ONLY) fmask s
      else rm_args args flags fmask (printf (''Warning: ignoring argument '%s'' @ [CHR 0x27]) [TXT arg] s))"

definition shell_help_rm :: string where
  "shell_help_rm = text_lines [''<filemask> [-R] [-c] [-s]'', ''  <filemask>: file, directory or file mask to remove.'', ''  -R: remove recursively.'',
     ''  -c: confirm each remove.'', ''  -s: simulate only (no actual operation).'']"

definition shell_adv_rm :: "('w, 'p, 'd) shell_env \<Rightarrow> bool \<Rightarrow> u8 list list \<Rightarrow> 'w shell \<Rightarrow> 'w shell option" where
  "shell_adv_rm env big_endian argv s =
     (if length argv < 2 then Some (shellh_show_help ''rm'' shell_help_rm s)
      else case rm_args (tl argv) 0 None s of
        ((flags, None), s1) \<Rightarrow> Some (printf ''rm target not specified.'' [] s1)
      | ((flags, Some fmask), s1) \<Rightarrow>
          do { (masktype, s2) \<leftarrow> path_type env fmask s1;
               if masktype = CMN_FS_TYPE_FILE then shellh_rm_one env fmask flags s2
               else if not_there masktype then Some (printf ''Invalid argument '%s'.'' [TXT fmask] s2)
               else if masktype = CMN_FS_TYPE_DIR \<and> flags AND SHELL_F_RECURSIVE = 0
               then Some (printf (CHR 0x27 # ''%s': unable to remove directory (use '-R').'') [TXT fmask] s2)
               else shell_walk env fmask (shellh_rm_walkdir_cb env big_endian flags) (flags AND SHELL_F_RECURSIVE \<noteq> 0) s2 })"

section \<open>ls\<close>

record SHELL_LS_STATE =
  dir_total :: u32
  ls_total :: u32
  ndirs :: u8

type_synonym 'w ls_state = "SHELL_LS_STATE \<times> 'w shell"

definition shellh_ls_walkdir_cb :: "u8 list \<Rightarrow> dm_dirent option \<Rightarrow> fs_info \<Rightarrow> 'w ls_state \<Rightarrow> 'w ls_state" where
  "shellh_ls_walkdir_cb path pent info ls =
     (case ls of (ps, s) \<Rightarrow>
        case info of
          CMN_FS_INFO_BEFORE_READDIR \<Rightarrow> (ps\<lparr>dir_total := 0, ndirs := (if ndirs ps \<noteq> 0xFF then ndirs ps + 1 else ndirs ps)\<rparr>, printf ''%s'' [TXT path] s)
        | CMN_FS_INFO_INSIDE_READDIR \<Rightarrow>
            (case pent of
               None \<Rightarrow> (ps, s)
             | Some e \<Rightarrow>
                 let s1 = printf ''  %-30s'' [TXT (dirent_fname e)] s in
                 if is_dir e then (ps, printf ''<DIR>'' [] s1)
                 else (ps\<lparr>dir_total := dir_total ps + dirent_fsize e\<rparr>, printf ''%u bytes'' [NUM (unat (dirent_fsize e))] s1))
        | CMN_FS_INFO_AFTER_CLOSEDIR \<Rightarrow>
            (ps\<lparr>ls_total := ls_total ps + dir_total ps\<rparr>, printf ''Total on %s: %u bytes'' [TXT path, NUM (unat (dir_total ps))] s)
        | CMN_FS_INFO_OPENDIR_FAILED \<Rightarrow> (ps, printf ''WARNING: unable to open %s'' [TXT path] s)
        | _ \<Rightarrow> (ps, s))"

fun ls_args :: "u8 list list \<Rightarrow> bool \<Rightarrow> u8 list option \<Rightarrow> 'w shell \<Rightarrow> (bool \<times> u8 list option) \<times> 'w shell" where
  "ls_args [] recursive pname s = ((recursive, pname), s)"
| "ls_args (arg # args) recursive pname s =
     (if arg = OPT_R then ls_args args True pname s
      else if firstchar arg = SLASH \<and> pname = None then ls_args args recursive (Some arg) s
      else ls_args args recursive pname (printf ''Warning: ignoring argument '%s' of ls'' [TXT arg] s))"

definition ls_device :: "('w, 'p, 'd) shell_env \<Rightarrow> bool \<Rightarrow> u8 list option \<Rightarrow> ('w, 'p, 'd) DM_INSTANCE_DATA \<Rightarrow> 'w shell \<Rightarrow> 'w shell option" where
  "ls_device env recursive pname pinst s =
     (let dev = dm_pdev pinst in
      if p_opendir_r dev = None \<or> p_readdir_r dev = None \<or> p_closedir_r dev = None then Some s
      else if pname \<noteq> None \<and> \<not> starts_with (the pname) (dm_name pinst) then Some s
      else let crtname = (case pname of Some p \<Rightarrow> p | None \<Rightarrow> dm_name pinst) in
        do { (_, r, st, s1) \<leftarrow> cmn_fs_walkdir (se_mem env crtname) (se_fopen env)
               \<lparr>wk_mem = se_mem env, wk_hasdirs = se_hasdirs env, wk_dm = se_dm env, wk_pattern = [],
                 wk_cb = (\<lambda>path ent info r ls. Some (True, r, shellh_ls_walkdir_cb path ent info ls))\<rparr>
               (Some crtname) recursive (sh_reent s) (\<lparr>dir_total = 0, ls_total = 0, ndirs = 0\<rparr>, s);
             let s2 = s1\<lparr>sh_reent := r\<rparr> in
             Some (if recursive \<and> ndirs st > 1
                   then printf ''Total on %s with all subdirectories: %u bytes'' [TXT crtname, NUM (unat (ls_total st))] s2 else s2) })"

fun ls_devices :: "('w, 'p, 'd) shell_env \<Rightarrow> bool \<Rightarrow> u8 list option \<Rightarrow> nat list \<Rightarrow> 'w shell \<Rightarrow> 'w shell option" where
  "ls_devices env recursive pname [] s = Some s"
| "ls_devices env recursive pname (i # is) s =
     do { pinst \<leftarrow> dm_get_instance_at (int i) (se_dm env);
          s1 \<leftarrow> ls_device env recursive pname pinst s;
          ls_devices env recursive pname is s1 }"

definition shell_ls :: "('w, 'p, 'd) shell_env \<Rightarrow> u8 list list \<Rightarrow> 'w shell \<Rightarrow> 'w shell option" where
  "shell_ls env argv s =
     (case ls_args (tl argv) False None s of
        ((recursive, pname), s1) \<Rightarrow> ls_devices env recursive pname [0..<dm_get_num_devices (se_dm env)] s1)"

section \<open>mkdir\<close>

definition shell_help_mkdir :: string where
  "shell_help_mkdir = text_lines [''<path>'', ''  <path>: the directory to create.'']"

definition shell_mkdir :: "('w, 'p, 'd) shell_env \<Rightarrow> u8 list list \<Rightarrow> 'w shell \<Rightarrow> 'w shell option" where
  "shell_mkdir env argv s =
     (if length argv \<noteq> 2 then Some (shellh_show_help ''mkdir'' shell_help_mkdir s)
      else do { (res, s1) \<leftarrow> sys (mkdir_r (Some (argv ! 1)) 0 (se_dm env)) s;
                let s2 = (if res \<noteq> 0 then printf (''Error creating directory '%s'' @ [CHR 0x27]) [TXT (argv ! 1)] s1 else s1);
                Some (printf ''Created directory '%s'.'' [TXT (argv ! 1)] s2) })"

section \<open>wofmt, cat, help and ver\<close>

definition format_wofs :: "u32 \<Rightarrow> flash_sectors \<Rightarrow> u32 \<Rightarrow> u32 \<Rightarrow> (nat \<Rightarrow> u8 list \<Rightarrow> u8 list option) \<Rightarrow> (('c, 'l) board, bool) devop" where
  "format_wofs start sects used pbase erase r =
     do { (ok, fs) \<leftarrow> wofs_format start sects used pbase erase (bd_wofs (world r)); Some (ok, put_fs WOFS_FSDATA (bd_romfs (world r)) fs r) }"

definition shell_help_wofmt :: string where
  "shell_help_wofmt = text_lines [[], ''Formats the WOFS, initializing it to a blank state.'']"

text \<open>The bytes of \<^verbatim>\<open>"Are you sure you want to continue? [y/n] "\<close>.\<close>

definition ascii :: "string \<Rightarrow> u8 list" where
  "ascii cs = map (\<lambda>c. of_nat (of_char c)) cs"

definition shell_wofmt :: "('w, bool) devop \<Rightarrow> u8 list list \<Rightarrow> 'w shell \<Rightarrow> 'w shell option" where
  "shell_wofmt format argv s =
     (if length argv \<noteq> 1 then Some (shellh_show_help ''wofmt'' shell_help_wofmt s)
      else do { (yes, s1) \<leftarrow> shellh_ask_yes_no (Some (ascii ''Are you sure you want to continue? [y/n] ''))
                  (printf ''Formatting the internal WOFS will DESTROY ALL THE FILES FROM WOFS.'' [] s);
                if \<not> yes then Some s1
                else do { (ok, s2) \<leftarrow> sys format (printf ''Formatting ...'' [] s1);
                          Some (if ok then printf '' done.'' [] s2
                                else printf ''It is advised to re-flash the eLua image.'' []
                                  (printf ''i*** ERROR ***: unable to erase the internal flash. WOFS might be compromised.'' [] s2)) } })"

text \<open>\<open>contents\<close> is what \<^verbatim>\<open>fopen\<close>, \<^verbatim>\<open>fgetc\<close> up to the end and \<^verbatim>\<open>fclose\<close> give; without the file it is \<^const>\<open>None\<close>.\<close>

fun cat_files :: "(u8 list \<Rightarrow> ('w, u8 list option) devop) \<Rightarrow> u8 list list \<Rightarrow> 'w shell \<Rightarrow> 'w shell option" where
  "cat_files contents [] s = Some s"
| "cat_files contents (arg # args) s =
     do { (res, s1) \<leftarrow> sys (contents arg) s;
          cat_files contents args
            (case res of
               Some cs \<Rightarrow> fold (\<lambda>c. printf ''%c'' [NUM (unat c)]) cs s1
             | None \<Rightarrow> printf (''Unable to open '%s'' @ [CHR 0x27]) [TXT arg] s1) }"

definition shell_help_cat :: string where
  "shell_help_cat = ''<file> [<file2>] ... [<filen>]'' @ text_lines [''  <file>: the file to list.'', ''  [<file2>] ... [<filen>]: other files to list.'']"

definition shell_cat :: "(u8 list \<Rightarrow> ('w, u8 list option) devop) \<Rightarrow> u8 list list \<Rightarrow> 'w shell \<Rightarrow> 'w shell option" where
  "shell_cat contents argv s =
     (if length argv < 2 then Some (printf ''Usage: %s %s'' [TXT (hd argv), LIT shell_help_cat] s)
      else cat_files contents (tl argv) s)"

record SHELL_HELP_DATA =
  help_cmd :: string
  help_summary :: string
  help_full :: string

text \<open>The table up to its NULL entry is a list; a command with an empty summary is not there in this build.\<close>

definition shell_help :: "SHELL_HELP_DATA list \<Rightarrow> string \<Rightarrow> u8 list list \<Rightarrow> 'w shell \<Rightarrow> 'w shell option" where
  "shell_help shell_help_data shell_help_help argv s =
     (if length argv > 2 then Some (shellh_show_help ''help'' shell_help_help s)
      else if length argv = 1
      then Some (printf ''For more information use 'help <command>'.'' []
        (fold (\<lambda>ph. if help_summary ph = [] then id else printf ''  %-6s - %s'' [LIT (help_cmd ph), LIT (help_summary ph)]) shell_help_data
          (printf ''Shell commands:'' [] s)))
      else do { arg \<leftarrow> (if argv = [] then None else Some (argv ! 1));
                Some (case find (\<lambda>ph. ascii (help_cmd ph) = arg \<and> help_summary ph \<noteq> []) shell_help_data of
                        Some ph \<Rightarrow> printf (''%s - %s'' @ [CHR 0x0A] @ ''Usage: %s %s'') [LIT (help_cmd ph), LIT (help_summary ph), LIT (help_cmd ph), LIT (help_full ph)] s
                      | None \<Rightarrow> printf ''Unknown command '%s'.'' [TXT arg] s) })"

definition shell_ver :: "string \<Rightarrow> u8 list \<Rightarrow> u8 list list \<Rightarrow> 'w shell \<Rightarrow> 'w shell option" where
  "shell_ver shell_help_ver version argv s =
     Some (if length argv \<noteq> 1 then shellh_show_help ''ver'' shell_help_ver s
           else printf ''For more information visit www.eluaproject.net and wiki.eluaproject.net'' [] (printf ''eLua version %s'' [TXT version] s))"

section \<open>Listing the WOFS\<close>

definition ls_lines :: "wofs_file \<Rightarrow> shell_msg list" where
  "ls_lines e = [(''  %-30s'', [TXT (fst e)]), (''%u bytes'', [NUM (unat (of_nat (length (snd (snd e))) :: u32))])]"

definition ls_size :: "wofs_file list \<Rightarrow> u32" where
  "ls_size es = of_nat (sum_list (map (\<lambda>e. length (snd (snd e))) es))"

lemma ls_files:
  "calls shellh_ls_walkdir_cb path (map (\<lambda>e. (Some (file_dirent e), CMN_FS_INFO_INSIDE_READDIR)) es) (ps, s) =
    (ps\<lparr>dir_total := dir_total ps + ls_size es\<rparr>, s\<lparr>sh_out := sh_out s @ concat (map ls_lines es)\<rparr>)"
  by (induction es arbitrary: ps s)
    (simp_all add: calls_def ls_size_def shellh_ls_walkdir_cb_def is_dir_def file_dirent_def printf_def ls_lines_def Let_def add.assoc)

lemma star_matches: "filter (\<lambda>e. live e \<and> cmn_pattern_matches (fst e) [STAR]) es = filter live es"
  by (rule filter_cong) simp_all

section \<open>Properties\<close>

lemma sys_step: "call (sh_reent s) = Some (a, r) \<Longrightarrow> sys call s = Some (a, s\<lparr>sh_reent := r\<rparr>)"
  by (simp add: sys_def)

text \<open>Simulating a move with \<^verbatim>\<open>mv -s\<close> between two devices deletes the file: the copy is only simulated and reports success, then the
  original is removed, so that its contents are gone.\<close>

theorem mv_simulate_removes:
  assumes devs: "find_dm_entry (Some src) (se_dm env) = Some (i, asrc)" "find_dm_entry (Some dst) (se_dm env) = Some (j, adst)" "i \<noteq> j"
    and flags: "flags AND SHELL_F_MOVE \<noteq> 0" "flags AND SHELL_F_SIMULATE_ONLY \<noteq> 0" "flags AND SHELL_F_FORCE_DESTINATION \<noteq> 0" "flags AND SHELL_F_ASK_CONFIRMATION = 0"
    and names: "\<not> strcasecmp_eq src dst" and mem: "se_mem env src"
    and src: "open_file (Some src) (libc_flags.O_RDONLY (se_lib env)) 0 (se_dm env) (set_errno EXDEV (sh_reent s)) = Some (fds, r1)" "fds \<noteq> -1"
      "close_r fds (se_dm env) r1 = Some (c, r2)" "unlink_r (Some src) (se_dm env) r2 = Some (0, r3)"
  shows "\<exists>s'. shellh_cp_or_mv_file env src dst flags s = Some (True, s') \<and> sh_reent s' = r3"
proof -
  let ?s1 = "s\<lparr>sh_reent := set_errno EXDEV (sh_reent s)\<rparr>"
  have mv: "sys (rename_r (Some src) (Some dst) (se_dm env)) s = Some (-1, ?s1)"
    by (rule sys_step) (simp add: rename_r_def devs)
  have errno: "reent_errno (sh_reent ?s1) = Some EXDEV" by (simp add: set_errno_def)
  define out where "out = plog flags ''done (%u bytes).'' [NUM 0] (plog flags ''Copying '%s' to '%s' ... '' [TXT src, TXT dst] s)"
  have upd: "plog f fmt args (t\<lparr>sh_reent := r\<rparr>) = (plog f fmt args t)\<lparr>sh_reent := r\<rparr>" "sh_reent (plog f fmt args t) = sh_reent t" for f fmt args t r
    by (simp_all add: plog_def printf_def)
  have cd: "cp_data env src dst flags fds (s\<lparr>sh_reent := r1\<rparr>) = Some ((True, -1), out\<lparr>sh_reent := r1\<rparr>)"
    using flags(2) mem by (simp add: cp_data_def out_def upd(1) Let_def)
  have "shellh_cp_file env src dst flags ?s1 = Some (True, out\<lparr>sh_reent := r2\<rparr>)"
    using flags(3,4) names src(1,2,3) cd by (simp add: shellh_cp_file_def sys_def cp_overwrite_def)
  then have "shellh_cp_or_mv_file env src dst flags s = Some (True, out\<lparr>sh_reent := r3\<rparr>)"
    using flags(1) src(4) errno unfolding shellh_cp_or_mv_file_def mv by (simp add: sys_def)
  then show ?thesis by simp
qed

text \<open>Two devices whose world is the contents of a file; removing the file empties it.\<close>

definition mv_env :: "(u8 list, nat, nat) shell_env" where
  "mv_env = \<lparr>se_dm = \<lparr>dm_list = [Some \<lparr>dm_name = [SLASH, 0x61], dm_pdata = 1, dm_pdev = example_dev\<lparr>p_unlink_r := Some (\<lambda>_ _ r. Some (0, r\<lparr>world := []\<rparr>))\<rparr>\<rparr>,
       Some \<lparr>dm_name = [SLASH, 0x62], dm_pdata = 2, dm_pdev = example_dev\<rparr>] @ replicate 14 None, dm_num_devs = 2\<rparr>,
     se_lib = newlib_flags, se_mem = (\<lambda>_. True), se_fopen = (\<lambda>_ _. None), se_hasdirs = (\<lambda>_. False), SHELL_COPY_BUFSIZE = 256\<rparr>"

theorem mv_simulate_removes_witness:
  "\<exists>s'. shellh_cp_or_mv_file mv_env [SLASH, 0x61, SLASH, 0x78] [SLASH, 0x62, SLASH, 0x78] 42
     \<lparr>sh_reent = \<lparr>reent_errno = None, world = [1, 2, 3]\<rparr>, sh_keys = [], sh_out = []\<rparr> = Some (True, s') \<and> world (sh_reent s') = []"
proof -
  let ?r = "\<lparr>reent_errno = Some EXDEV, world = [1, 2, 3 :: u8]\<rparr>" and ?dm = "se_dm mv_env" and ?src = "[SLASH, 0x61, SLASH, 0x78 :: u8]"
  have f: "find_dm_entry (Some ?src) ?dm = Some (0, [0x78])" "find_dm_entry (Some [SLASH, 0x62, SLASH, 0x78]) ?dm = Some (1, [0x78])"
    by (simp_all add: find_dm_entry_def dm_index_of_def mv_env_def dm_slot_named_def strcasecmp_eq_def to_lower_def upt_rec)
  have d: "DM_MAKE_DESC 0 1 = 1" by (simp add: DM_MAKE_DESC_def)
  have o: "open_file (Some ?src) (libc_flags.O_RDONLY (se_lib mv_env)) 0 ?dm ?r = Some (1, ?r)"
    using d by (simp add: open_file_def open_r_def f(1)) (simp add: mv_env_def dm_get_instance_at_def example_dev_def)
  have c: "close_r 1 ?dm ?r = Some (0, ?r)"
    by (simp add: close_r_def dm_call_def DM_GET_DEVID_def mv_env_def dm_get_instance_at_def example_dev_def)
  have u: "unlink_r (Some ?src) ?dm ?r = Some (0, ?r\<lparr>world := []\<rparr>)"
    by (simp add: unlink_r_def f(1)) (simp add: mv_env_def dm_get_instance_at_def example_dev_def)
  show ?thesis
    using mv_simulate_removes[OF f, of 42 "\<lparr>sh_reent = \<lparr>reent_errno = None, world = [1, 2, 3]\<rparr>, sh_keys = [], sh_out = []\<rparr>" 1 ?r 0 ?r "?r\<lparr>world := []\<rparr>"] o c u
    by (auto simp: mv_env_def set_errno_def strcasecmp_eq_def to_lower_def)
qed

text \<open>On a board that has started, \<^verbatim>\<open>ls /wo\<close> prints the directory, then for every file in flash that is not deleted, in the order of
  the image, its name and size, then the total, which is the sum of the sizes in 32 bits; the other devices are passed over.\<close>

theorem shell_ls_wofs:
  assumes env: "se_dm env = boot_devices brd" "se_mem env WOFS_DEV_NAME" and fs: "wofs_ok es free (bd_wofs (world (sh_reent s)))"
  shows "shell_ls env [cmd, WOFS_DEV_NAME] s = Some (s\<lparr>sh_reent := at_pos 0 (sh_reent s),
    sh_out := sh_out s @ (''%s'', [TXT WOFS_DEV_NAME]) # concat (map ls_lines (filter live es))
      @ [(''Total on %s: %u bytes'', [TXT WOFS_DEV_NAME, NUM (unat (ls_size (filter live es)))])]\<rparr>)"
proof -
  let ?p = WOFS_DEV_NAME and ?st = "\<lparr>dir_total = 0, ls_total = 0, ndirs = 0\<rparr>"
  let ?w = "\<lparr>wk_mem = se_mem env, wk_hasdirs = se_hasdirs env, wk_dm = se_dm env, wk_pattern = [],
    wk_cb = (\<lambda>path ent info r ls. Some (True, r, shellh_ls_walkdir_cb path ent info ls))\<rparr>"
  let ?out = "sh_out s @ (''%s'', [TXT ?p]) # concat (map ls_lines (filter live es)) @ [(''Total on %s: %u bytes'', [TXT ?p, NUM (unat (ls_size (filter live es)))])]"
  have split: "cmn_fs_split_path True (se_fopen env) (Some ?p) r = Some (Some (?p, [STAR]), r)" for r
    by (simp add: cmn_fs_split_path_def WOFS_DEV_NAME_def)
  have calls: "\<exists>st. calls shellh_ls_walkdir_cb ?p ((None, CMN_FS_INFO_BEFORE_READDIR) # wofs_matches [STAR] es
      @ [(None, CMN_FS_INFO_AFTER_CLOSEDIR), (None, CMN_FS_INFO_DIRECTORY_DONE)]) (?st, s) = (st, s\<lparr>sh_out := ?out\<rparr>)"
  proof -
    have c: "calls f ?p (x # xs) t = calls f ?p xs (f ?p (fst x) (snd x) t)" for f :: "'w ls_state watcher" and x xs t
      by (simp add: calls_def case_prod_unfold)
    show ?thesis unfolding wofs_matches_def star_matches
      by (simp add: c calls_append shellh_ls_walkdir_cb_def ls_files printf_def) (simp add: calls_def shellh_ls_walkdir_cb_def printf_def)
  qed
  then obtain st where st: "cmn_fs_walkdir (se_mem env ?p) (se_fopen env) ?w (Some ?p) False (sh_reent s) (?st, s) = Some (True, at_pos 0 (sh_reent s), st, s\<lparr>sh_out := ?out\<rparr>)"
    using walk_wofs[of "?w\<lparr>wk_pattern := [STAR]\<rparr>" brd shellh_ls_walkdir_cb es free "sh_reent s" False "(?st, s)"] env fs
    by (auto simp: cmn_fs_walkdir_def split looks_on_def)
  have wo: "ls_device env False (Some ?p) (dm_entries (boot_devices brd) ! 1) s = Some (s\<lparr>sh_reent := at_pos 0 (sh_reent s), sh_out := ?out\<rparr>)"
    using st by (simp add: ls_device_def boot_table(2) romfs_device_def starts_with_def Let_def)
  have others: "ls_device env False (Some ?p) (dm_entries (boot_devices brd) ! i) t = Some t" if "i \<in> {0, 2, 3}" for i t
    using that by (auto simp: ls_device_def boot_table(2) console_device_def romfs_device_def rfs_device_def starts_with_def dev_names)
  have inst: "dm_get_instance_at (int i) (se_dm env) = Some (dm_entries (boot_devices brd) ! i)" if "i < 4" for i
    using that boot_slot[of i brd] by (simp add: dm_get_instance_at_def env boot_num)
  have n: "dm_get_num_devices (se_dm env) = 4" by (simp add: env boot_num dm_get_num_devices_def)
  have args: "ls_args [?p] False None s = ((False, Some ?p), s)" by (simp add: OPT_R_def WOFS_DEV_NAME_def firstchar_def)
  have four: "[0..<4] = [0, 1, 2, 3 :: nat]" by (simp add: upt_rec)
  have step: "ls_devices env False (Some ?p) (i # is) t = ls_device env False (Some ?p) (dm_entries (boot_devices brd) ! i) t \<bind> ls_devices env False (Some ?p) is"
    if "i < 4" for i "is" t using inst[OF that] by simp
  show ?thesis unfolding shell_ls_def list.sel args prod.case n four
    by (simp add: step[of 0] step[of "Suc 0"] step[of 2] step[of 3] others[of 0] others[of 2] others[of 3] wo[simplified] del: ls_devices.simps(2))
qed

text \<open>The board of the walk, with a file, a deleted one and another file.\<close>

theorem shell_ls_wofs_witness:
  "map_option (last \<circ> sh_out) (shell_ls \<lparr>se_dm = boot_devices example_env, se_lib = newlib_flags, se_mem = (\<lambda>_. True), se_fopen = (\<lambda>_ _. None),
       se_hasdirs = (\<lambda>_. True), SHELL_COPY_BUFSIZE = 256\<rparr> [[0x6C, 0x73], WOFS_DEV_NAME]
     \<lparr>sh_reent = example_board\<lparr>world := (world example_board)\<lparr>bd_wofs := two_files_fs\<rparr>\<rparr>, sh_keys = [], sh_out = []\<rparr>) =
   Some (''Total on %s: %u bytes'', [TXT WOFS_DEV_NAME, NUM 3])"
  using shell_ls_wofs[of "\<lparr>se_dm = boot_devices example_env, se_lib = newlib_flags, se_mem = (\<lambda>_. True), se_fopen = (\<lambda>_ _. None),
       se_hasdirs = (\<lambda>_. True), SHELL_COPY_BUFSIZE = 256\<rparr>" example_env two_files 64
     "\<lparr>sh_reent = example_board\<lparr>world := (world example_board)\<lparr>bd_wofs := two_files_fs\<rparr>\<rparr>, sh_keys = [], sh_out = []\<rparr>" "[0x6C, 0x73]"] two_files_ok
  by (simp add: ls_size_def two_files_def)

end
