(* ===== verification/Shell_Copy.thy ===== *)
theory Shell_Copy
  imports Shell_Files
begin

text \<open>
  Copying through the shell, followed down to the flash and to the PC. The locale \<open>file_copy\<close> states what the loop of
  \<^verbatim>\<open>shellh_cp_file\<close> needs of its two descriptors; it is interpreted for a copy from one file of the WOFS to another, where the
  file that is read and the one that is written share the descriptor table and the image, and for a copy from the WOFS to
  the remote file system.
\<close>

section \<open>The loop\<close>

text \<open>\<open>st i j r\<close>: \<open>i\<close> bytes of the source have been read and \<open>j\<close> written.\<close>

locale file_copy =
  fixes dm :: "('w, 'p, 'd) devman" and fds fdd :: int and data :: "u8 list" and st :: "nat \<Rightarrow> nat \<Rightarrow> 'w reent \<Rightarrow> bool"
  assumes read_part: "st i j r \<Longrightarrow> i \<le> length data \<Longrightarrow> \<exists>r'. read_r fds n dm r = Some ((int (length (take n (drop i data))), take n (drop i data)), r')
      \<and> st (i + length (take n (drop i data))) j r'"
    and write_part: "st i j r \<Longrightarrow> j + length d \<le> length data \<Longrightarrow> d = take (length d) (drop j data) \<Longrightarrow>
      \<exists>r'. write_r fdd d dm r = Some (int (length d), r') \<and> st i (j + length d) r'"
begin

lemma loop_copies:
  assumes env: "0 < SHELL_COPY_BUFSIZE env" "se_dm env = dm"
  shows "st k k (sh_reent s) \<Longrightarrow> k \<le> length data \<Longrightarrow> \<exists>r'. cp_loop env flags a b fds fdd tot s =
    Some (Some (tot + of_nat (length data - k)), s\<lparr>sh_reent := r'\<rparr>) \<and> st (length data) (length data) r'"
proof (induction "length data - k" arbitrary: k s tot rule: less_induct)
  case less
  let ?n = "SHELL_COPY_BUFSIZE env"
  define d where "d = take ?n (drop k data)"
  have d: "k + length d \<le> length data" "d = take (length d) (drop k data)" using less.prems(2) by (auto simp: d_def min_def)
  obtain r1 where r1: "read_r fds ?n dm (sh_reent s) = Some ((int (length d), d), r1)" "st (k + length d) k r1"
    using read_part[OF less.prems, of ?n] by (auto simp: d_def)
  obtain r2 where r2: "write_r fdd d dm r1 = Some (int (length d), r2)" "st (k + length d) (k + length d) r2"
    using write_part[OF r1(2) d] by blast
  have step: "cp_loop env flags a b fds fdd tot s = (if length d < ?n then Some (Some (tot + of_nat (length d)), s\<lparr>sh_reent := r2\<rparr>)
      else cp_loop env flags a b fds fdd (tot + of_nat (length d)) (s\<lparr>sh_reent := r2\<rparr>))"
    by (subst cp_loop.simps) (simp add: sys_def env(2) r1(1) r2(1))
  show ?case
  proof (cases "length d < ?n")
    case True
    then have "k + length d = length data" using less.prems(2) by (auto simp: d_def min_def split: if_splits)
    then have "length d = length data - k" "st (length data) (length data) r2" using r2(2) by simp_all
    then show ?thesis using step True by auto
  next
    case False
    then have l: "length d = ?n" by (simp add: d_def)
    have tot: "tot + of_nat (length d) + of_nat (length data - (k + length d)) = tot + (of_nat (length data - k) :: u32)"
    proof -
      have "length data - k = length d + (length data - (k + length d))" using d(1) by simp
      then show ?thesis by (metis add.assoc of_nat_add)
    qed
    have "length data - (k + length d) < length data - k" using d(1) l env(1) by simp
    from less.hyps[OF this, of "s\<lparr>sh_reent := r2\<rparr>" "tot + of_nat (length d)"] r2(2) d(1) obtain r' where
      "cp_loop env flags a b fds fdd (tot + of_nat (length d)) (s\<lparr>sh_reent := r2\<rparr>) =
        Some (Some (tot + of_nat (length d) + of_nat (length data - (k + length d))), s\<lparr>sh_reent := r'\<rparr>)" "st (length data) (length data) r'"
      by auto
    then show ?thesis unfolding step tot using False by auto
  qed
qed

end

section \<open>Reading a file of the WOFS\<close>

text \<open>Descriptor \<open>a\<close> is open on the file with the contents \<open>data\<close> behind \<open>pre\<close> in the image, at position \<open>i\<close>.\<close>

definition wofs_reading :: "u8 list \<Rightarrow> u8 list \<Rightarrow> nat \<Rightarrow> nat \<Rightarrow> ('c, 'l) board reent \<Rightarrow> bool" where
  "wofs_reading pre data a i r \<longleftrightarrow> a < 2048 \<and> length data < 2 ^ 32 \<and> (\<exists>suf. fs_image (bd_wofs (world r)) = pre @ data @ suf)
     \<and> a < length (fd_table (bd_romfs (world r)))
     \<and> fd_table (bd_romfs (world r)) ! a = \<lparr>baseaddr = length pre, fd_offset = i, fd_size = length data, fd_flags = ROMFS_FILE_FLAG_READ\<rparr>"

definition seek_fd :: "nat \<Rightarrow> nat \<Rightarrow> ('c, 'l) board reent \<Rightarrow> ('c, 'l) board reent" where
  "seek_fd a i r = r\<lparr>world := (world r)\<lparr>bd_romfs := (bd_romfs (world r))\<lparr>fd_table := (fd_table (bd_romfs (world r)))
     [a := (fd_table (bd_romfs (world r)) ! a)\<lparr>fd_offset := i\<rparr>]\<rparr>\<rparr>\<rparr>"

lemma wofs_reading_read:
  assumes rd: "wofs_reading pre data a i r" and i: "i \<le> length data"
  shows "read_r (DM_MAKE_DESC 1 (int a)) n (boot_devices env) r =
      Some ((int (length (take n (drop i data))), take n (drop i data)), seek_fd a (i + length (take n (drop i data))) r)"
    "wofs_reading pre data a (i + length (take n (drop i data))) (seek_fd a (i + length (take n (drop i data))) r)"
proof -
  obtain suf where im: "fs_image (bd_wofs (world r)) = pre @ data @ suf" using rd by (auto simp: wofs_reading_def)
  have w: "wrap32 (int (length data) - int i) = length data - i" using rd i by (subst wrap32_id) (auto simp: wofs_reading_def)
  define m where "m = min n (length data - i)"
  have f: "fetch (fs_image (bd_wofs (world r))) (i + length pre) m = Some (take n (drop i data))"
    using i by (auto simp: fetch_def im m_def min_def)
  have l: "length (take n (drop i data)) = m" by (simp add: m_def)
  have "romfs_read_r a n (bd_romfs (world r)) (fs_of WOFS_FSDATA (world r)) =
      Some (Inr (take n (drop i data)), bd_romfs (world (seek_fd a (i + m) r)))"
    using rd f by (simp add: romfs_read_r_def wofs_reading_def fd_at_def w fs_of_def m_def[symmetric] seek_fd_def)
  from wofs_read_call[OF this] show "read_r (DM_MAKE_DESC 1 (int a)) n (boot_devices env) r =
      Some ((int (length (take n (drop i data))), take n (drop i data)), seek_fd a (i + length (take n (drop i data))) r)"
    using rd unfolding l by (simp add: wofs_reading_def put_fs_def fs_of_def seek_fd_def)
  show "wofs_reading pre data a (i + length (take n (drop i data))) (seek_fd a (i + length (take n (drop i data))) r)"
    using rd im by (auto simp: wofs_reading_def seek_fd_def)
qed

section \<open>From the WOFS to the WOFS\<close>

definition wofs_copy ::
  "('c, 'l) board_env \<Rightarrow> (u8 \<Rightarrow> u8 \<Rightarrow> u8) \<Rightarrow> wofs_file list \<Rightarrow> u8 list \<Rightarrow> nat \<Rightarrow> nat \<Rightarrow> nat \<Rightarrow> u8 list \<Rightarrow> u8 list \<Rightarrow> romfs_fd list \<times> nat \<Rightarrow>
     nat \<Rightarrow> nat \<Rightarrow> ('c, 'l) board reent \<Rightarrow> bool" where
  "wofs_copy env prog es dst free a b pre data tab i j r \<longleftrightarrow>
     env_flash env = program prog \<and> (\<forall>x. prog 0xFF x = x) \<and> a \<noteq> b \<and> b < 2048 \<and> wofs_reading pre data a i r \<and> (\<exists>suf. wofs_area es = pre @ data @ suf)
     \<and> length data + 4 \<le> free \<and> j \<le> length data
     \<and> wofs_writing ROMFS_FILE_FLAG_WRITE es dst (take j data) (free - j) b (bd_romfs (world r)) (bd_wofs (world r))
     \<and> romfs_num_fd (bd_romfs (world r)) = snd tab \<and> (\<forall>x y. (fd_table (bd_romfs (world r)))[a := x, b := y] = (fst tab)[a := x, b := y])"

lemma writes_allowed: "may_write ROMFS_FILE_FLAG_WRITE" "\<not> may_write ROMFS_FILE_FLAG_READ"
  by (simp_all add: may_write_def)

lemma wofs_writing_other:
  assumes "wofs_writing lf es path d free b st fs" "a \<noteq> b" "fd_table st' = (fd_table st)[a := x]"
  shows "wofs_writing lf es path d free b st' fs"
  unfolding wofs_writing_def assms(3) length_list_update nth_list_update_neq[OF assms(2)] by (rule assms(1)[unfolded wofs_writing_def])

lemma wofs_copy_write:
  assumes c: "wofs_copy env prog es dst free a b pre data tab i j r" and d: "j + length d \<le> length data" "d = take (length d) (drop j data)"
  shows "\<exists>r'. write_r (DM_MAKE_DESC 1 (int b)) d (boot_devices env) r = Some (int (length d), r') \<and> wofs_copy env prog es dst free a b pre data tab i (j + length d) r'"
proof -
  let ?st = "bd_romfs (world r)" and ?fs = "bd_wofs (world r)"
  have fl: "env_flash env = program prog" "\<And>x. prog 0xFF x = x" "a \<noteq> b" "b < 2048" and rd: "wofs_reading pre data a i r"
    and free: "length data + 4 \<le> free" using c by (auto simp: wofs_copy_def)
  obtain suf where area: "wofs_area es = pre @ data @ suf" using c by (auto simp: wofs_copy_def)
  have room: "length d + 4 \<le> free - j" using d(1) free by simp
  have w0: "wofs_writing ROMFS_FILE_FLAG_WRITE es dst (take j data) (free - j) b ?st ?fs" using c by (simp add: wofs_copy_def)
  obtain st1 fs1 where w: "romfs_write_r (program prog) b d ?st ?fs = Some (Inr (length d), st1, fs1)"
      "wofs_writing ROMFS_FILE_FLAG_WRITE es dst (take j data @ d) (free - j - length d) b st1 fs1"
      "romfs_num_fd st1 = romfs_num_fd ?st" "\<And>x. (fd_table st1)[b := x] = (fd_table ?st)[b := x]"
    using romfs_write_more[where prog = prog, OF w0 fl(2) room writes_allowed(1)] by blast
  have td: "take j data @ d = take (j + length d) data" using d(2) by (metis take_add)
  have call: "write_r (DM_MAKE_DESC 1 (int b)) d (boot_devices env) r = Some (int (length d), put_fs WOFS_FSDATA st1 fs1 r)"
    by (rule wofs_write_call) (simp_all add: fl w(1) fs_of_def)
  have "fd_table st1 ! a = fd_table ?st ! a" "length (fd_table st1) = length (fd_table ?st)"
    using arg_cong[OF w(4)[of undefined], of "\<lambda>t. t ! a"] arg_cong[OF w(4)[of undefined], of length] fl(3) by simp_all
  moreover have "\<exists>suf. fs_image fs1 = pre @ data @ suf" using w(2) area by (simp add: wofs_writing_def)
  ultimately have "wofs_reading pre data a i (put_fs WOFS_FSDATA st1 fs1 r)" using rd by (simp add: wofs_reading_def put_fs_def)
  moreover have "(fd_table st1)[a := x, b := y] = (fst tab)[a := x, b := y]" for x y
  proof -
    have "(fd_table st1)[a := x, b := y] = (fd_table st1)[b := y, a := x]" using fl(3) by (rule list_update_swap)
    also have "\<dots> = (fd_table ?st)[b := y, a := x]" by (simp only: w(4))
    also have "\<dots> = (fd_table ?st)[a := x, b := y]" using fl(3) by (metis list_update_swap)
    also have "\<dots> = (fst tab)[a := x, b := y]" using c by (simp add: wofs_copy_def)
    finally show ?thesis .
  qed
  ultimately have "wofs_copy env prog es dst free a b pre data tab i (j + length d) (put_fs WOFS_FSDATA st1 fs1 r)"
    using c w(2,3) d(1) unfolding wofs_copy_def td by (auto simp: put_fs_def)
  then show ?thesis using call by blast
qed

lemma wofs_copy_read:
  assumes c: "wofs_copy env prog es dst free a b pre data tab i j r" and i: "i \<le> length data"
  shows "\<exists>r'. read_r (DM_MAKE_DESC 1 (int a)) n (boot_devices env) r = Some ((int (length (take n (drop i data))), take n (drop i data)), r')
    \<and> wofs_copy env prog es dst free a b pre data tab (i + length (take n (drop i data))) j r'"
proof -
  let ?k = "i + length (take n (drop i data))"
  have rd: "wofs_reading pre data a i r" and ab: "a \<noteq> b" using c by (auto simp: wofs_copy_def)
  have tab: "(fd_table (bd_romfs (world (seek_fd a ?k r))))[a := x, b := y] = (fd_table (bd_romfs (world r)))[a := x, b := y]" for x y
    by (simp add: seek_fd_def)
  have w0: "wofs_writing ROMFS_FILE_FLAG_WRITE es dst (take j data) (free - j) b (bd_romfs (world r)) (bd_wofs (world r))"
    using c by (simp add: wofs_copy_def)
  have same: "bd_wofs (world (seek_fd a ?k r)) = bd_wofs (world r)" "romfs_num_fd (bd_romfs (world (seek_fd a ?k r))) = romfs_num_fd (bd_romfs (world r))"
    "fd_table (bd_romfs (world (seek_fd a ?k r))) = (fd_table (bd_romfs (world r)))[a := (fd_table (bd_romfs (world r)) ! a)\<lparr>fd_offset := ?k\<rparr>]"
    by (simp_all add: seek_fd_def)
  note w1 = wofs_writing_other[OF w0 ab same(3)]
  have "wofs_copy env prog es dst free a b pre data tab ?k j (seek_fd a ?k r)"
    using c wofs_reading_read(2)[OF rd i, of n] w1 unfolding wofs_copy_def tab same(1,2) by blast
  then show ?thesis using wofs_reading_read(1)[OF rd i] by blast
qed

interpretation wofs_cp: file_copy "boot_devices env" "DM_MAKE_DESC 1 (int a)" "DM_MAKE_DESC 1 (int b)" data "wofs_copy env prog es dst free a b pre data tab"
  for env prog es dst free a b pre data tab
  by unfold_locales (fact wofs_copy_read, fact wofs_copy_write)

text \<open>No file of the flash file systems is open.\<close>

definition flash_idle :: "('c, 'l) board reent \<Rightarrow> bool" where
  "flash_idle r \<longleftrightarrow> fd_table (bd_romfs (world r)) = replicate TOTAL_MAX_FDS closed_fd \<and> romfs_num_fd (bd_romfs (world r)) = 0"

lemma replicate_same: "(replicate n x)[i := x] = replicate n x"
  by (cases "i < n") (auto simp: list_eq_iff_nth_eq nth_list_update)

lemma idle_fds:
  assumes "\<not> fd_unused f"
  shows "romfs_find_empty_fd \<lparr>fd_table = replicate TOTAL_MAX_FDS closed_fd, romfs_num_fd = n, romfs_dir_data = d\<rparr> = Some 0"
    "romfs_find_empty_fd \<lparr>fd_table = (replicate TOTAL_MAX_FDS closed_fd)[0 := f], romfs_num_fd = n, romfs_dir_data = d\<rparr> = Some 1"
proof -
  have "fd_unused closed_fd" by (simp add: fd_unused_def closed_fd_def)
  moreover have "[0..<TOTAL_MAX_FDS] = [0, 1, 2, 3, 4, 5, 6, 7]" "replicate TOTAL_MAX_FDS closed_fd = closed_fd # closed_fd # replicate 6 closed_fd"
    by (simp_all add: upt_rec numeral_eq_Suc)
  ultimately show "romfs_find_empty_fd \<lparr>fd_table = replicate TOTAL_MAX_FDS closed_fd, romfs_num_fd = n, romfs_dir_data = d\<rparr> = Some 0"
    "romfs_find_empty_fd \<lparr>fd_table = (replicate TOTAL_MAX_FDS closed_fd)[0 := f], romfs_num_fd = n, romfs_dir_data = d\<rparr> = Some 1"
    using assms by (simp_all add: romfs_find_empty_fd_def)
qed

lemma wofs_open_fail:
  assumes "romfs_open_r (env_flash env) path (flags_of (env_lib env) flags) (bd_romfs (world r)) (bd_wofs (world r)) = Some (Inl e, s, fs)"
    and "path \<noteq> []"
  shows "open_file (Some (WOFS_DEV_NAME @ SLASH # path)) flags mode (boot_devices env) r = Some (-1, set_errno e (put_fs WOFS_FSDATA s fs r))"
  using find_dm_entry_index[OF boot_table(1) boot_paths(1)[OF assms(2), of env]] boot_paths(1)[OF assms(2), of env] assms(1)
  by (simp add: open_file_def open_r_def boot_table(2) romfs_device_def fs_of_def int_result_def)

lemma romfs_open_missing:
  assumes "wofs_ok es free fs" "\<forall>e \<in> set es. same_name path (fst e) \<longrightarrow> fst (snd e)" "romfs_num_fd st < TOTAL_MAX_FDS"
  shows "romfs_open_r wr path read_flags st fs = Some (Inl ENOENT, st, fs)"
  using wofs_search[OF assms(1), of path] wofs_find_none[OF assms(2), of 0] assms(3)
  by (simp add: romfs_open_r_def read_flags_def access_flags_def may_write_def)

text \<open>Opening the source, and its contents in the image.\<close>

lemma wofs_open_source:
  assumes lib: "libc_ok (env_lib brd)" and fs: "wofs_ok (xs @ (name, False, data) # ys) free (bd_wofs (world r))" and idle: "flash_idle r"
    and src: "src \<noteq> []" "same_name src name" "\<forall>e \<in> set xs. same_name src (fst e) \<longrightarrow> fst (snd e)"
  defines "pre \<equiv> wofs_area xs @ wofs_header (name, False, data)"
  defines "f \<equiv> \<lparr>baseaddr = length pre, fd_offset = 0, fd_size = length data, fd_flags = ROMFS_FILE_FLAG_READ\<rparr>"
  defines "r1 \<equiv> put_fs WOFS_FSDATA \<lparr>fd_table = (replicate TOTAL_MAX_FDS closed_fd)[0 := f], romfs_num_fd = 1,
      romfs_dir_data = romfs_dir_data (bd_romfs (world r))\<rparr> (bd_wofs (world r)) r"
  shows "open_file (Some (WOFS_DEV_NAME @ SLASH # src)) (libc_flags.O_RDONLY (env_lib brd)) mode (boot_devices brd) r = Some (DM_MAKE_DESC 1 0, r1)"
    "wofs_reading pre data 0 0 r1" "\<not> fd_unused f" "wofs_area (xs @ (name, False, data) # ys) = pre @ data @ pad4 (length data) @ wofs_area ys"
proof -
  let ?st = "bd_romfs (world r)" and ?fs = "bd_wofs (world r)"
  show area: "wofs_area (xs @ (name, False, data) # ys) = pre @ data @ pad4 (length data) @ wofs_area ys"
    by (simp add: pre_def wofs_area_def wofs_entry_def)
  have im: "fs_image ?fs = pre @ data @ (pad4 (length data) @ wofs_area ys @ replicate free 0xFF)" "fs_max_size ?fs = length (fs_image ?fs)" "fs_max_size ?fs + 8 < 2 ^ 32"
    using fs area by (auto simp: wofs_ok_def wofs_image_def)
  have len: "length pre + length data + 8 < 2 ^ 32"
  proof -
    have "length pre + length data \<le> length (fs_image ?fs)" by (simp add: im(1))
    then show ?thesis using im(2,3) by linarith
  qed
  then show nu: "\<not> fd_unused f" by (simp add: f_def fd_unused_def)
  have st: "?st = \<lparr>fd_table = replicate TOTAL_MAX_FDS closed_fd, romfs_num_fd = 0, romfs_dir_data = romfs_dir_data ?st\<rparr>" using idle by (simp add: flash_idle_def)
  have empty: "romfs_find_empty_fd ?st = Some 0" "romfs_num_fd ?st < TOTAL_MAX_FDS"
    using idle_fds(1)[OF nu, of 0 "romfs_dir_data ?st"] st by (metis, simp add: idle[unfolded flash_idle_def])
  have "wofs_find src (xs @ (name, False, data) # ys) 0 = FS_FILE_OK (length pre) (length data) (length (wofs_area xs))"
    using wofs_find_append[OF src(3), of "(name, False, data) # ys" 0] src(2) by (simp add: pre_def)
  from romfs_open_existing[OF fs this empty(2,1)]
  have o: "romfs_open_r wr src read_flags ?st ?fs = Some (Inr 0, bd_romfs (world r1), ?fs)" for wr
    using idle by (simp add: f_def r1_def put_fs_def flash_idle_def)
  have "bd_romfs (world r1) = \<lparr>fd_table = (replicate TOTAL_MAX_FDS closed_fd)[0 := f], romfs_num_fd = 1, romfs_dir_data = romfs_dir_data ?st\<rparr>" by (simp add: r1_def)
  then show "open_file (Some (WOFS_DEV_NAME @ SLASH # src)) (libc_flags.O_RDONLY (env_lib brd)) mode (boot_devices brd) r = Some (DM_MAKE_DESC 1 0, r1)"
    using wofs_open_call[of brd src "libc_flags.O_RDONLY (env_lib brd)" r 0 "bd_romfs (world r1)" ?fs mode] o src(1)
    by (simp add: flags_of_create(2)[OF lib] r1_def)
  show "wofs_reading pre data 0 0 r1" using len im(1) by (auto simp: wofs_reading_def r1_def put_fs_def f_def)
qed

text \<open>Closing a descriptor that was open for reading.\<close>

definition closed_reader :: "nat \<Rightarrow> ('c, 'l) board reent \<Rightarrow> ('c, 'l) board reent" where
  "closed_reader a r = r\<lparr>world := (world r)\<lparr>bd_romfs := (bd_romfs (world r))\<lparr>fd_table := (fd_table (bd_romfs (world r)))[a := closed_fd],
     romfs_num_fd := romfs_num_fd (bd_romfs (world r)) - 1\<rparr>\<rparr>\<rparr>"

lemma wofs_reading_close:
  assumes rd: "wofs_reading pre data a i r"
  shows "close_r (DM_MAKE_DESC 1 (int a)) (boot_devices env) r = Some (0, closed_reader a r)"
proof -
  have "romfs_close_r (env_flash env) a (bd_romfs (world r)) (fs_of WOFS_FSDATA (world r)) = Some (bd_romfs (world (closed_reader a r)), bd_wofs (world r))"
    using rd writes_allowed(2) by (simp add: romfs_close_r_def wofs_reading_def fd_at_def fs_of_def romfs_close_fd_def closed_reader_def)
  from wofs_close_call[OF this] show ?thesis using rd by (simp add: wofs_reading_def put_fs_def closed_reader_def)
qed

lemma wofs_copy_close:
  assumes c: "wofs_copy env prog es dst free a b pre data tab (length data) (length data) r" and dst: "name_ok dst"
  shows "\<exists>r1 r2 free'. close_r (DM_MAKE_DESC 1 (int a)) (boot_devices env) r = Some (0, r1) \<and> close_r (DM_MAKE_DESC 1 (int b)) (boot_devices env) r1 = Some (0, r2)
    \<and> wofs_ok (es @ [(dst, False, data)]) free' (bd_wofs (world r2)) \<and> fs_flags (bd_wofs (world r2)) AND ROMFS_FS_FLAG_WRITING = 0
    \<and> fd_table (bd_romfs (world r2)) = (fst tab)[a := closed_fd, b := closed_fd] \<and> romfs_num_fd (bd_romfs (world r2)) = snd tab - 2"
proof -
  let ?r1 = "closed_reader a r"
  have rd: "wofs_reading pre data a (length data) r" and fl: "env_flash env = program prog" "\<And>x. prog 0xFF x = x" "a \<noteq> b" "b < 2048"
    and tab: "romfs_num_fd (bd_romfs (world r)) = snd tab" "\<And>x y. (fd_table (bd_romfs (world r)))[a := x, b := y] = (fst tab)[a := x, b := y]"
    and w: "wofs_writing ROMFS_FILE_FLAG_WRITE es dst data (free - length data) b (bd_romfs (world r)) (bd_wofs (world r))"
    using c by (simp_all add: wofs_copy_def)
  have r1: "bd_wofs (world ?r1) = bd_wofs (world r)" "fd_table (bd_romfs (world ?r1)) = (fd_table (bd_romfs (world r)))[a := closed_fd]"
    "romfs_num_fd (bd_romfs (world ?r1)) = romfs_num_fd (bd_romfs (world r)) - 1"
    by (simp_all add: closed_reader_def)
  note w1 = wofs_writing_other[OF w fl(3) r1(2)]
  let ?st = "(bd_romfs (world ?r1))\<lparr>fd_table := (fd_table (bd_romfs (world ?r1)))[b := closed_fd], romfs_num_fd := romfs_num_fd (bd_romfs (world ?r1)) - 1\<rparr>"
  obtain fs2 free' where 2: "romfs_close_r (program prog) b (bd_romfs (world ?r1)) (bd_wofs (world r)) = Some (?st, fs2)"
      "wofs_ok (es @ [(dst, False, data)]) free' fs2" "fs_flags fs2 AND ROMFS_FS_FLAG_WRITING = 0"
    using romfs_close_written[where prog = prog, OF w1 fl(2) dst writes_allowed(1)] by blast
  have "close_r (DM_MAKE_DESC 1 (int b)) (boot_devices env) ?r1 = Some (0, put_fs WOFS_FSDATA ?st fs2 ?r1)"
    by (rule wofs_close_call) (simp_all add: fl r1(1) fs_of_def 2(1))
  moreover have "fd_table ?st = (fst tab)[a := closed_fd, b := closed_fd]" "romfs_num_fd ?st = snd tab - 2" by (simp_all add: r1(2,3) tab)
  ultimately show ?thesis using wofs_reading_close[OF rd, of env] 2(2,3)
    by (intro exI[of _ ?r1] exI[of _ "put_fs WOFS_FSDATA ?st fs2 ?r1"] exI[of _ free']) (simp add: put_fs_def)
qed

lemma dest_flags: "x OR y OR z = y OR z OR (x :: u32)"
  by (simp add: or.commute or.left_commute)

text \<open>Opening the destination while the source is open.\<close>

lemma wofs_open_dest:
  assumes lib: "libc_ok (env_lib brd)" and flash: "env_flash brd = program prog" "\<And>x. prog 0xFF x = x"
    and fs: "wofs_ok es free (bd_wofs (world r))" "fs_flags (bd_wofs (world r)) AND ROMFS_FS_FLAG_WRITING = 0"
    and rd: "wofs_reading pre data 0 0 r" "wofs_area es = pre @ data @ suf"
    and st: "bd_romfs (world r) = \<lparr>fd_table = (replicate TOTAL_MAX_FDS closed_fd)[0 := f], romfs_num_fd = 1, romfs_dir_data = d\<rparr>" "\<not> fd_unused f"
    and dst: "name_ok dst" "\<forall>e \<in> set es. same_name dst (fst e) \<longrightarrow> fst (snd e)" "length dst + length data + 16 \<le> free"
  shows "\<exists>r' free'. open_file (Some (WOFS_DEV_NAME @ SLASH # dst)) (libc_flags.O_WRONLY (env_lib brd) OR libc_flags.O_CREAT (env_lib brd)
      OR libc_flags.O_TRUNC (env_lib brd)) mode (boot_devices brd) r = Some (DM_MAKE_DESC 1 1, r')
    \<and> wofs_copy brd prog es dst free' 0 1 pre data (replicate TOTAL_MAX_FDS closed_fd, 2) 0 0 r'"
proof -
  let ?P = "length (pad4 (length dst + 1))" and ?st = "bd_romfs (world r)" and ?fs = "bd_wofs (world r)"
  let ?free = "free - (length dst + 1 + ?P + 8)"
  have fl: "access_flags new_file_flags = ROMFS_FILE_FLAG_WRITE" "open_flags.O_CREAT new_file_flags" by (simp_all add: new_file_flags_def access_flags_def)
  have tab: "length (fd_table ?st) = TOTAL_MAX_FDS" "romfs_num_fd ?st < TOTAL_MAX_FDS" "romfs_find_empty_fd ?st = Some 1"
    using idle_fds(2)[OF st(2), of 1 d] by (simp_all add: st(1))
  obtain st1 fs1 where o: "romfs_open_r (program prog) dst new_file_flags ?st ?fs = Some (Inr 1, st1, fs1)"
      "wofs_writing ROMFS_FILE_FLAG_WRITE es dst [] ?free 1 st1 fs1" "romfs_num_fd st1 = romfs_num_fd ?st + 1"
      "\<And>x. (fd_table st1)[1 := x] = (fd_table ?st)[1 := x]"
    using romfs_open_new[where prog = prog, OF fs(1) flash(2) dst(1,2) fl(2) _ tab] fs(2) dst(3) unfolding fl(1) by auto
  let ?r = "put_fs WOFS_FSDATA st1 fs1 r"
  have "fd_table st1 ! 0 = fd_table ?st ! 0" "length (fd_table st1) = length (fd_table ?st)"
    using arg_cong[OF o(4)[of undefined], of "\<lambda>t. t ! 0"] arg_cong[OF o(4)[of undefined], of length] by simp_all
  moreover have "\<exists>suf. fs_image fs1 = pre @ data @ suf" using o(2) rd(2) by (simp add: wofs_writing_def)
  ultimately have rd': "wofs_reading pre data 0 0 ?r" using rd(1) by (simp add: wofs_reading_def put_fs_def)
  have "length data + 4 \<le> ?free" using dst(3) length_pad4[of "length dst + 1"] by simp
  moreover have "(fd_table st1)[0 := x, 1 := y] = (replicate TOTAL_MAX_FDS closed_fd)[0 := x, 1 := y]" for x y
  proof -
    have "(fd_table st1)[0 := x, 1 := y] = (fd_table st1)[1 := y, 0 := x]" by (rule list_update_swap) simp
    also have "\<dots> = (replicate TOTAL_MAX_FDS closed_fd)[0 := f, 1 := y, 0 := x]" by (simp only: o(4) st(1) romfs_state.select_convs)
    also have "\<dots> = (replicate TOTAL_MAX_FDS closed_fd)[0 := x, 1 := y]" by (metis list_update_swap list_update_overwrite zero_neq_one)
    finally show ?thesis .
  qed
  ultimately have "wofs_copy brd prog es dst ?free 0 1 pre data (replicate TOTAL_MAX_FDS closed_fd, 2) 0 0 ?r"
    unfolding wofs_copy_def using flash rd' rd(2) o(2,3) by (auto simp: put_fs_def st(1))
  moreover have "open_file (Some (WOFS_DEV_NAME @ SLASH # dst)) (create_flags (env_lib brd)) mode (boot_devices brd) r = Some (DM_MAKE_DESC 1 (int 1), ?r)"
    by (rule wofs_open_call) (use o(1) dst(1) in \<open>simp_all add: flags_of_create(1)[OF lib] flash(1) name_ok_def\<close>)
  ultimately show ?thesis unfolding dest_flags[of "libc_flags.O_WRONLY (env_lib brd)"] by auto
qed

lemma cp_names_differ:
  assumes "same_name src name" "\<not> same_name dst name"
  shows "\<not> strcasecmp_eq (pre @ src) (pre @ dst)"
proof
  assume "strcasecmp_eq (pre @ src) (pre @ dst)"
  then have "map to_lower src = map to_lower dst" by (simp add: strcasecmp_eq_def)
  then have "take DM_MAX_FNAME_LENGTH (map to_lower src) = take DM_MAX_FNAME_LENGTH (map to_lower dst)" by simp
  then show False using assms by (simp add: same_name_def take_map)
qed

lemma plog_parts [simp]: "sh_reent (plog fl fmt args s) = sh_reent s" "sh_keys (plog fl fmt args s) = sh_keys s"
  by (simp_all add: plog_def printf_def)

lemma plog_update: "(plog fl fmt args s)\<lparr>sh_reent := r\<rparr> = plog fl fmt args (s\<lparr>sh_reent := r\<rparr>)"
  by (simp add: plog_def printf_def)

section \<open>Properties\<close>

text \<open>Copying a file of the WOFS to a new name on the WOFS, in any case of letters: the copy is the last file of
  the file system with the contents of the source, no question is asked, both descriptors are closed and another file can be written. The
  loop ends for files of any length, also when the length is a multiple of the buffer.\<close>

theorem shell_cp_wofs:
  assumes env: "se_dm env = boot_devices brd" "se_lib env = env_lib brd" "libc_ok (env_lib brd)" "0 < SHELL_COPY_BUFSIZE env" "se_mem env (WOFS_DEV_NAME @ SLASH # src)"
    and flash: "env_flash brd = program prog" "\<And>x. prog 0xFF x = x"
    and fs: "es = xs @ (name, False, data) # ys" "wofs_ok es free (bd_wofs (world (sh_reent s)))" "fs_flags (bd_wofs (world (sh_reent s))) AND ROMFS_FS_FLAG_WRITING = 0"
      "flash_idle (sh_reent s)"
    and src: "src \<noteq> []" "same_name src name" "\<forall>e \<in> set xs. same_name src (fst e) \<longrightarrow> fst (snd e)"
    and dst: "name_ok dst" "\<forall>e \<in> set es. same_name dst (fst e) \<longrightarrow> fst (snd e)" "length dst + length data + 16 \<le> free"
    and flags: "flags AND SHELL_F_ASK_CONFIRMATION = 0" "flags AND SHELL_F_SIMULATE_ONLY = 0"
  shows "\<exists>s' free'. shellh_cp_file env (WOFS_DEV_NAME @ SLASH # src) (WOFS_DEV_NAME @ SLASH # dst) flags s = Some (True, s')
    \<and> wofs_ok (es @ [(dst, False, data)]) free' (bd_wofs (world (sh_reent s'))) \<and> fs_flags (bd_wofs (world (sh_reent s'))) AND ROMFS_FS_FLAG_WRITING = 0
    \<and> flash_idle (sh_reent s') \<and> sh_keys s' = sh_keys s"
proof -
  let ?src = "WOFS_DEV_NAME @ SLASH # src" and ?dst = "WOFS_DEV_NAME @ SLASH # dst" and ?dm = "boot_devices brd"
  define pre where "pre = wofs_area xs @ wofs_header (name, False, data)"
  define f where "f = \<lparr>baseaddr = length pre, fd_offset = 0, fd_size = length data, fd_flags = ROMFS_FILE_FLAG_READ\<rparr>"
  define st1 where "st1 = \<lparr>fd_table = (replicate TOTAL_MAX_FDS closed_fd)[0 := f], romfs_num_fd = 1, romfs_dir_data = romfs_dir_data (bd_romfs (world (sh_reent s)))\<rparr>"
  define r1 where "r1 = put_fs WOFS_FSDATA st1 (bd_wofs (world (sh_reent s))) (sh_reent s)"
  have o1: "open_file (Some ?src) (libc_flags.O_RDONLY (env_lib brd)) 0 ?dm (sh_reent s) = Some (DM_MAKE_DESC 1 0, r1)"
    and rd1: "wofs_reading pre data 0 0 r1" and nu: "\<not> fd_unused f" and area: "wofs_area es = pre @ data @ (pad4 (length data) @ wofs_area ys)"
    using wofs_open_source[OF env(3) fs(2)[unfolded fs(1)] fs(4) src] unfolding r1_def st1_def f_def pre_def fs(1) by simp_all
  have w1: "bd_romfs (world r1) = st1" "bd_wofs (world r1) = bd_wofs (world (sh_reent s))" by (simp_all add: r1_def put_fs_def)
  define r2 where "r2 = (if flags AND SHELL_F_FORCE_DESTINATION \<noteq> 0 then r1 else set_errno ENOENT r1)"
  have w2: "world r2 = world r1" by (simp add: r2_def set_errno_def)
  have ov: "cp_overwrite env ?dst flags (s\<lparr>sh_reent := r1\<rparr>) = Some (True, s\<lparr>sh_reent := r2\<rparr>)"
  proof -
    have "romfs_open_r (env_flash brd) dst (flags_of (env_lib brd) (libc_flags.O_RDONLY (env_lib brd))) (bd_romfs (world r1)) (bd_wofs (world r1)) =
        Some (Inl ENOENT, bd_romfs (world r1), bd_wofs (world r1))"
      unfolding flags_of_create(2)[OF env(3)] by (rule romfs_open_missing[OF _ dst(2)]) (use fs(2) in \<open>simp_all add: w1 st1_def\<close>)
    from wofs_open_fail[OF this, of 0] have "open_file (Some ?dst) (libc_flags.O_RDONLY (env_lib brd)) 0 ?dm r1 = Some (-1, set_errno ENOENT r1)"
      using dst(1) by (simp add: name_ok_def put_fs_def)
    then show ?thesis by (simp add: cp_overwrite_def env sys_def r2_def)
  qed
  have "wofs_reading pre data 0 0 r2" using rd1 by (simp add: wofs_reading_def w2)
  then obtain r3 free' where o3: "open_file (Some ?dst) (libc_flags.O_WRONLY (env_lib brd) OR libc_flags.O_CREAT (env_lib brd) OR libc_flags.O_TRUNC (env_lib brd)) 0 ?dm r2 =
      Some (DM_MAKE_DESC 1 1, r3)" "wofs_copy brd prog es dst free' 0 1 pre data (replicate TOTAL_MAX_FDS closed_fd, 2) 0 0 r3"
    using wofs_open_dest[where r = r2 and free = free and dst = dst and mode = 0, OF env(3) flash _ _ _ area _ nu dst] fs(2,3) by (auto simp: w2 w1 st1_def)
  let ?s2 = "plog flags ''Copying '%s' to '%s' ... '' [TXT ?src, TXT ?dst] s"
  have c3: "wofs_copy brd prog es dst free' 0 1 pre data (replicate TOTAL_MAX_FDS closed_fd, 2) 0 0 (sh_reent (?s2\<lparr>sh_reent := r3\<rparr>))" using o3(2) by simp
  obtain r4 where l: "cp_loop env flags ?src ?dst (DM_MAKE_DESC 1 0) (DM_MAKE_DESC 1 1) 0 (?s2\<lparr>sh_reent := r3\<rparr>) = Some (Some (of_nat (length data)), ?s2\<lparr>sh_reent := r4\<rparr>)"
      "wofs_copy brd prog es dst free' 0 1 pre data (replicate TOTAL_MAX_FDS closed_fd, 2) (length data) (length data) r4"
    using wofs_cp.loop_copies[OF env(4,1) c3, of flags ?src ?dst 0] by auto
  obtain r5 r6 free'' where c: "close_r (DM_MAKE_DESC 1 0) ?dm r4 = Some (0, r5)" "close_r (DM_MAKE_DESC 1 1) ?dm r5 = Some (0, r6)"
      "wofs_ok (es @ [(dst, False, data)]) free'' (bd_wofs (world r6))" "fs_flags (bd_wofs (world r6)) AND ROMFS_FS_FLAG_WRITING = 0"
      "fd_table (bd_romfs (world r6)) = (replicate TOTAL_MAX_FDS closed_fd)[0 := closed_fd, 1 := closed_fd]" "romfs_num_fd (bd_romfs (world r6)) = 0"
    using wofs_copy_close[OF l(2) dst(1)] by auto
  have idle: "flash_idle r6" using c(5,6) by (simp add: flash_idle_def replicate_same)
  have d: "DM_MAKE_DESC 1 0 \<noteq> -1" "DM_MAKE_DESC 1 1 \<noteq> -1" by (simp_all add: DM_MAKE_DESC_def)
  let ?done = "plog flags ''done (%u bytes).'' [NUM (unat (of_nat (length data) :: u32))] ?s2"
  have cd: "cp_data env ?src ?dst flags (DM_MAKE_DESC 1 0) (s\<lparr>sh_reent := r2\<rparr>) = Some ((True, DM_MAKE_DESC 1 1), ?done\<lparr>sh_reent := r4\<rparr>)"
    using env(5) flags(2) d(2) by (simp add: cp_data_def env(1,2) sys_def o3(1) l(1) plog_update[symmetric] Let_def)
  have "\<not> same_name dst name" using dst(2) fs(1) by auto
  then have "\<not> strcasecmp_eq ?src ?dst" using cp_names_differ[OF src(2), of dst "WOFS_DEV_NAME @ [SLASH]"] by simp
  then have "shellh_cp_file env ?src ?dst flags s = Some (True, ?done\<lparr>sh_reent := r6\<rparr>)"
    using flags(1) d by (simp add: shellh_cp_file_def env(1,2) sys_def o1 ov cd c(1,2))
  then show ?thesis using c(3,4) idle by auto
qed

section \<open>From the WOFS to the PC\<close>

text \<open>What is known of the PC: it takes what it is given for the descriptor, \<open>wr\<close> is the effect.\<close>

definition pc_writes :: "'w posix \<Rightarrow> u32 \<Rightarrow> (u8 list \<Rightarrow> 'w \<Rightarrow> 'w) \<Rightarrow> bool" where
  "pc_writes px fd wr \<longleftrightarrow> (\<forall>d w. px_write px fd d w = (of_nat (length d), wr d w)) \<and> (\<forall>w. wr [] w = w) \<and> (\<forall>c d w. wr (c @ d) w = wr d (wr c w))"

definition pc_copy :: "('c, 'w server_link_state) board_env \<Rightarrow> libc_flags \<times> 'w posix \<times> u8 list \<Rightarrow> nat \<times> nat \<Rightarrow> u32 \<Rightarrow> (u8 list \<Rightarrow> 'w \<Rightarrow> 'w) \<Rightarrow> 'w \<Rightarrow>
    nat \<Rightarrow> u8 list \<Rightarrow> u8 list \<Rightarrow> ('c, 'w server_link_state) board reent \<Rightarrow> nat \<Rightarrow> nat \<Rightarrow> ('c, 'w server_link_state) board reent \<Rightarrow> bool" where
  "pc_copy brd host bufs fd wr w1 a pre data r0 i j r \<longleftrightarrow>
     (case (host, bufs) of ((pc, px, basedir), n, k) \<Rightarrow>
        env_link brd = server_link pc px basedir \<and> env_real brd + 29 \<le> n \<and> env_real brd + 29 \<le> k \<and> n < 2 ^ 16 \<and> 0 < env_real brd
        \<and> uint fd < 2048 \<and> pc_writes px fd wr \<and> length data < 2 ^ 31 \<and> wofs_reading pre data a i r
        \<and> remote_ok n k (wr (take j data) w1) (bd_rfs (world r)) \<and> bd_wofs (world r) = bd_wofs (world r0)
        \<and> romfs_num_fd (bd_romfs (world r)) = romfs_num_fd (bd_romfs (world r0))
        \<and> (\<forall>x. (fd_table (bd_romfs (world r)))[a := x] = (fd_table (bd_romfs (world r0)))[a := x]))"

lemma pc_copy_read:
  assumes c: "pc_copy brd host bufs fd wr w1 a pre data r0 i j r" and i: "i \<le> length data"
  shows "\<exists>r'. read_r (DM_MAKE_DESC 1 (int a)) n (boot_devices brd) r = Some ((int (length (take n (drop i data))), take n (drop i data)), r')
    \<and> pc_copy brd host bufs fd wr w1 a pre data r0 (i + length (take n (drop i data))) j r'"
proof -
  have rd: "wofs_reading pre data a i r" using c by (simp add: pc_copy_def split: prod.splits)
  have "pc_copy brd host bufs fd wr w1 a pre data r0 (i + length (take n (drop i data))) j (seek_fd a (i + length (take n (drop i data))) r)"
    using c wofs_reading_read(2)[OF rd i, of n] by (simp add: pc_copy_def seek_fd_def split: prod.splits)
  then show ?thesis using wofs_reading_read(1)[OF rd i] by blast
qed

lemma pc_copy_write:
  assumes c: "pc_copy brd host bufs fd wr w1 a pre data r0 i j r" and d: "j + length d \<le> length data" "d = take (length d) (drop j data)"
  shows "\<exists>r'. write_r (DM_MAKE_DESC 3 (uint fd)) d (boot_devices brd) r = Some (int (length d), r') \<and> pc_copy brd host bufs fd wr w1 a pre data r0 i (j + length d) r'"
proof -
  obtain pc px basedir n k where hs: "host = (pc, px, basedir)" "bufs = (n, k)" by (cases host, cases bufs) auto
  have l: "env_link brd = server_link pc px basedir" "env_real brd + 29 \<le> n" "env_real brd + 29 \<le> k" "n < 2 ^ 16" "0 < env_real brd" "uint fd < 2048"
    and w: "\<And>d w. px_write px fd d w = (of_nat (length d), wr d w)" "\<And>w. wr [] w = w" "\<And>c d w. wr (c @ d) w = wr d (wr c w)"
    and rem: "remote_ok n k (wr (take j data) w1) (bd_rfs (world r))" and len: "length data < 2 ^ 31"
    using c by (auto simp: pc_copy_def hs pc_writes_def)
  obtain cl where cl: "rfs_write_r (server_link pc px basedir) (env_timeout brd) (env_real brd) fd d 0 (bd_rfs (world r)) = Some (0 + of_nat (length d), cl)"
      "remote_ok n k (wr d (wr (take j data) w1)) cl"
    using remote_write_r[OF l(2-5) w rem] by blast
  have td: "wr d (wr (take j data) w1) = wr (take (j + length d) data) w1" using d(2) by (metis take_add w(3))
  have total: "sint (of_nat (length d) :: u32) = int (length d)"
    using len d(1) sint_small[of "of_nat (length d)"] by (simp add: uint_nat unat_of_nat)
  have "write_r (DM_MAKE_DESC 3 (uint fd)) d (boot_devices brd) r = Some (int (length d), put_rfs cl r)"
    using l(6) cl(1) total by (simp add: write_r_def boot_call rfs_device_def l(1))
  moreover have "wofs_reading pre data a i (put_rfs cl r) = wofs_reading pre data a i r" by (simp add: wofs_reading_def put_rfs_def)
  then have "pc_copy brd host bufs fd wr w1 a pre data r0 i (j + length d) (put_rfs cl r)"
    using c cl(2) by (simp add: pc_copy_def hs td) (simp add: put_rfs_def)
  ultimately show ?thesis by blast
qed

interpretation pc_cp: file_copy "boot_devices brd" "DM_MAKE_DESC 1 (int a)" "DM_MAKE_DESC 3 (uint fd)" data "pc_copy brd host bufs fd wr w1 a pre data r0"
  for brd host bufs fd wr w1 a pre data r0
  by unfold_locales (fact pc_copy_read, fact pc_copy_write)

lemma rfs_open_call:
  assumes "env_link brd = link" "path \<noteq> []" "rfsc_open link (env_timeout brd) (env_lib brd) path fl 0 (bd_rfs (world r)) = Some (h, cl)"
  shows "open_file (Some (RFS_DEV_NAME @ SLASH # path)) fl mode (boot_devices brd) r = Some (if sint h < 0 then sint h else DM_MAKE_DESC 3 (sint h), put_rfs cl r)"
  using find_dm_entry_index[OF boot_table(1) boot_paths(3)[OF assms(2), of brd]] boot_paths(3)[OF assms(2), of brd] assms(1,3)
  by (simp add: open_file_def open_r_def boot_table(2) rfs_device_def)

text \<open>C13: Copying a file of the WOFS to the PC: \<^verbatim>\<open>cp\<close> opens the file in flash, creates the file under \<^verbatim>\<open>/rfs\<close> and sends the
  contents through the remote file system, in pieces of the copy buffer and of the packets; the file of the PC gets exactly the
  contents and is closed, the flash is unchanged and no file stays open. The PC is assumed to have no file of
  that name (unless the overwriting is forced), to give a descriptor below 2048 and to write what it is given.\<close>

theorem shell_cp_to_pc:
  assumes env: "se_dm env = boot_devices brd" "se_lib env = env_lib brd" "libc_ok (env_lib brd)" "0 < SHELL_COPY_BUFSIZE env" "se_mem env (WOFS_DEV_NAME @ SLASH # src)"
    and fs: "wofs_ok (xs @ (name, False, data) # ys) free (bd_wofs (world (sh_reent s)))" "flash_idle (sh_reent s)"
    and src: "src \<noteq> []" "same_name src name" "\<forall>e \<in> set xs. same_name src (fst e) \<longrightarrow> fst (snd e)"
    and flags: "flags AND SHELL_F_ASK_CONFIRMATION = 0" "flags AND SHELL_F_SIMULATE_ONLY = 0"
    and link: "env_link brd = server_link pc px basedir" "remote_ok n k w (bd_rfs (world (sh_reent s)))"
    and sz: "length dst + 35 \<le> n" "length dst + 35 \<le> k" "env_real brd + 29 \<le> n" "env_real brd + 29 \<le> k" "n < 2 ^ 16" "0 < env_real brd"
    and dst: "dst \<noteq> []" "0 \<notin> set dst" "server_path basedir dst = Some full"
    and new: "flags AND SHELL_F_FORCE_DESTINATION = 0 \<longrightarrow>
      px_open px full (os_open_realflags pc (os_open_sys_flags_to_rfs_flags (env_lib brd) (libc_flags.O_RDONLY (env_lib brd)))) w = (-1, w)"
    and po: "px_open px full (os_open_realflags pc (os_open_sys_flags_to_rfs_flags (env_lib brd) (libc_flags.O_WRONLY (env_lib brd) OR libc_flags.O_CREAT (env_lib brd)
      OR libc_flags.O_TRUNC (env_lib brd)))) w = (fd, w1)" "uint fd < 2048"
    and pw: "pc_writes px fd wr" "px_close px fd (wr data w1) = (0, w2)" "length data < 2 ^ 31"
  shows "\<exists>s'. shellh_cp_file env (WOFS_DEV_NAME @ SLASH # src) (RFS_DEV_NAME @ SLASH # dst) flags s = Some (True, s')
    \<and> remote_ok n k w2 (bd_rfs (world (sh_reent s'))) \<and> bd_wofs (world (sh_reent s')) = bd_wofs (world (sh_reent s))
    \<and> flash_idle (sh_reent s') \<and> sh_keys s' = sh_keys s"
proof -
  let ?src = "WOFS_DEV_NAME @ SLASH # src" and ?dst = "RFS_DEV_NAME @ SLASH # dst" and ?dm = "boot_devices brd" and ?lib = "env_lib brd"
  let ?link = "server_link pc px basedir"
  define pre where "pre = wofs_area xs @ wofs_header (name, False, data)"
  define f where "f = \<lparr>baseaddr = length pre, fd_offset = 0, fd_size = length data, fd_flags = ROMFS_FILE_FLAG_READ\<rparr>"
  define st1 where "st1 = \<lparr>fd_table = (replicate TOTAL_MAX_FDS closed_fd)[0 := f], romfs_num_fd = 1, romfs_dir_data = romfs_dir_data (bd_romfs (world (sh_reent s)))\<rparr>"
  define r1 where "r1 = put_fs WOFS_FSDATA st1 (bd_wofs (world (sh_reent s))) (sh_reent s)"
  have o1: "open_file (Some ?src) (libc_flags.O_RDONLY ?lib) 0 ?dm (sh_reent s) = Some (DM_MAKE_DESC 1 0, r1)"
    and rd1: "wofs_reading pre data 0 0 r1"
    using wofs_open_source[OF env(3) fs src] unfolding r1_def st1_def f_def pre_def by simp_all
  have w1: "bd_romfs (world r1) = st1" "bd_wofs (world r1) = bd_wofs (world (sh_reent s))" "bd_rfs (world r1) = bd_rfs (world (sh_reent s))"
    by (simp_all add: r1_def put_fs_def)
  obtain cl2 where o2: "cp_overwrite env ?dst flags (s\<lparr>sh_reent := r1\<rparr>) = Some (True, s\<lparr>sh_reent := put_rfs cl2 r1\<rparr>)" "remote_ok n k w cl2"
  proof (cases "flags AND SHELL_F_FORCE_DESTINATION = 0")
    case True
    then obtain cl2 where "rfsc_open ?link (env_timeout brd) ?lib dst (libc_flags.O_RDONLY ?lib) 0 (bd_rfs (world r1)) = Some (-1, cl2)" "remote_ok n k w cl2"
      using remote_open[OF link(2) sz(1,2,5) dst(2,3), of px pc ?lib _ "-1" w] new w1(3) by fastforce
    then show ?thesis using that[of cl2] rfs_open_call[OF link(1) dst(1), of "libc_flags.O_RDONLY ?lib" r1] True by (simp add: cp_overwrite_def env sys_def)
  next
    case False
    have "put_rfs (bd_rfs (world r1)) r1 = r1" by (simp add: put_rfs_def)
    then show ?thesis using that[of "bd_rfs (world r1)"] False link(2) by (simp add: cp_overwrite_def w1(3))
  qed
  let ?fl = "libc_flags.O_WRONLY ?lib OR libc_flags.O_CREAT ?lib OR libc_flags.O_TRUNC ?lib"
  obtain cl3 where o3: "rfsc_open ?link (env_timeout brd) ?lib dst ?fl 0 cl2 = Some (fd, cl3)" "remote_ok n k w1 cl3"
    using remote_open[OF o2(2) sz(1,2,5) dst(2,3) po(1)] by blast
  define r3 where "r3 = put_rfs cl3 (put_rfs cl2 r1)"
  have fd: "sint fd = uint fd" "DM_MAKE_DESC 3 (uint fd) \<noteq> -1" 
    using po(2) sint_small[of fd] desc_parts(3)[of "uint fd" 3] uint_ge_0[of fd] by (simp, linarith)
  have d3: "open_file (Some ?dst) ?fl 0 ?dm (put_rfs cl2 r1) = Some (DM_MAKE_DESC 3 (uint fd), r3)"
    using rfs_open_call[OF link(1) dst(1), of ?fl "put_rfs cl2 r1" fd cl3] o3(1) fd(1) by (simp add: r3_def put_rfs_def)
  have w3: "bd_romfs (world r3) = st1" "bd_wofs (world r3) = bd_wofs (world (sh_reent s))" "bd_rfs (world r3) = cl3" by (simp_all add: r3_def put_rfs_def w1)
  have "wofs_reading pre data 0 0 r3" using rd1 by (simp add: wofs_reading_def w1 w3)
  then have c0: "pc_copy brd (pc, px, basedir) (n, k) fd wr w1 0 pre data r3 0 0 r3"
    using link(1) sz po(2) pw(1,3) o3(2) by (simp add: pc_copy_def w3(3)) (simp add: pc_writes_def)
  let ?s2 = "plog flags ''Copying '%s' to '%s' ... '' [TXT ?src, TXT ?dst] s"
  have c3: "pc_copy brd (pc, px, basedir) (n, k) fd wr w1 0 pre data r3 0 0 (sh_reent (?s2\<lparr>sh_reent := r3\<rparr>))" using c0 by simp
  obtain r4 where l: "cp_loop env flags ?src ?dst (DM_MAKE_DESC 1 0) (DM_MAKE_DESC 3 (uint fd)) 0 (?s2\<lparr>sh_reent := r3\<rparr>) =
      Some (Some (of_nat (length data)), ?s2\<lparr>sh_reent := r4\<rparr>)" "pc_copy brd (pc, px, basedir) (n, k) fd wr w1 0 pre data r3 (length data) (length data) r4"
    using pc_cp.loop_copies[OF env(4,1) c3, of flags ?src ?dst 0] by auto
  have rd4: "wofs_reading pre data 0 (length data) r4" "remote_ok n k (wr data w1) (bd_rfs (world r4))" "bd_wofs (world r4) = bd_wofs (world r3)"
      "romfs_num_fd (bd_romfs (world r4)) = romfs_num_fd st1" "\<And>x. (fd_table (bd_romfs (world r4)))[0 := x] = (fd_table st1)[0 := x]"
    using l(2) unfolding pc_copy_def prod.case w3(1) take_all[OF order_refl] by blast+
  have c5: "close_r (DM_MAKE_DESC 1 0) ?dm r4 = Some (0, closed_reader 0 r4)" using wofs_reading_close[OF rd4(1), of brd] by simp
  have w5: "bd_rfs (world (closed_reader 0 r4)) = bd_rfs (world r4)" "bd_wofs (world (closed_reader 0 r4)) = bd_wofs (world r4)"
    by (simp_all add: closed_reader_def)
  have idle: "flash_idle (closed_reader 0 r4)"
    using rd4(4) by (simp add: closed_reader_def flash_idle_def rd4(5)) (simp add: st1_def replicate_same)
  obtain cl6 where c6: "rfsc_close ?link (env_timeout brd) fd (bd_rfs (world r4)) = Some (0, cl6)" "remote_ok n k w2 cl6"
    using remote_close[OF rd4(2) _ _ sz(5) pw(2)] sz by fastforce
  have d6: "close_r (DM_MAKE_DESC 3 (uint fd)) ?dm (closed_reader 0 r4) = Some (0, put_rfs cl6 (closed_reader 0 r4))"
    using po(2) c6(1) by (simp add: close_r_def boot_call rfs_device_def link(1) w5(1))
  have d: "DM_MAKE_DESC 1 0 \<noteq> -1" by (simp add: DM_MAKE_DESC_def)
  let ?done = "plog flags ''done (%u bytes).'' [NUM (unat (of_nat (length data) :: u32))] ?s2"
  have cd: "cp_data env ?src ?dst flags (DM_MAKE_DESC 1 0) (s\<lparr>sh_reent := put_rfs cl2 r1\<rparr>) = Some ((True, DM_MAKE_DESC 3 (uint fd)), ?done\<lparr>sh_reent := r4\<rparr>)"
    using env(5) flags(2) fd(2) by (simp add: cp_data_def env(1,2) sys_def d3 l(1) plog_update[symmetric] Let_def)
  have "\<not> strcasecmp_eq ?src ?dst" by (simp add: dev_names strcasecmp_eq_def to_lower_def)
  then have "shellh_cp_file env ?src ?dst flags s = Some (True, ?done\<lparr>sh_reent := put_rfs cl6 (closed_reader 0 r4)\<rparr>)"
    using flags(1) d fd(2) by (simp add: shellh_cp_file_def env(1,2) sys_def o1 o2(1) cd c5 d6)
  moreover have "flash_idle (put_rfs cl6 (closed_reader 0 r4))" using idle by (simp add: flash_idle_def put_rfs_def)
  ultimately show ?thesis using c6(2) rd4(3) w3(2) w5(2) by (simp add: put_rfs_def)
qed

section \<open>A board with two files\<close>

definition copy_env :: "((terminal, (u8 list \<times> nat) server_link_state) board, dev_pdata, dir_handle) shell_env" where
  "copy_env = \<lparr>se_dm = boot_devices example_env, se_lib = newlib_flags, se_mem = (\<lambda>_. True), se_fopen = (\<lambda>_ _. None), se_hasdirs = (\<lambda>_. False),
     SHELL_COPY_BUFSIZE = 2\<rparr>"

definition copy_shell :: "(terminal, (u8 list \<times> nat) server_link_state) board shell" where
  "copy_shell = \<lparr>sh_reent = example_board\<lparr>world := (world example_board)\<lparr>bd_wofs := two_files_fs\<rparr>\<rparr>, sh_keys = [], sh_out = []\<rparr>"

lemma copy_board:
  "se_dm copy_env = boot_devices example_env" "se_lib copy_env = env_lib example_env" "libc_ok (env_lib example_env)" "0 < SHELL_COPY_BUFSIZE copy_env"
  "se_mem copy_env x" "env_flash example_env = program (AND)" "env_lib example_env = newlib_flags" "env_real example_env = 99"
  "env_link example_env = server_link linux_flags tape_posix [SLASH]"
  "bd_wofs (world (sh_reent copy_shell)) = two_files_fs" "flash_idle (sh_reent copy_shell)" "fs_flags two_files_fs AND ROMFS_FS_FLAG_WRITING = 0"
  "bd_rfs (world (sh_reent copy_shell)) = example_client"
  using libc_flags_ok(1)
  by (simp_all add: copy_env_def copy_shell_def example_env_def example_board_def flash_idle_def romfs_init_def two_files_fs_def)

theorem shell_cp_wofs_witness:
  "\<exists>s' free'. shellh_cp_file copy_env (WOFS_DEV_NAME @ SLASH # [0x43]) (WOFS_DEV_NAME @ SLASH # [0x64]) 0 copy_shell = Some (True, s')
    \<and> wofs_ok (two_files @ [([0x64], False, [2, 3])]) free' (bd_wofs (world (sh_reent s')))"
  using shell_cp_wofs[of copy_env example_env "[0x43]" "(AND)" two_files "take 2 two_files" "[0x63]" "[2, 3]" "[]" 64 copy_shell "[0x64]" 0]
    copy_board and_erased two_files_ok
  by (auto simp: two_files_def same_name_def name_ok_def to_lower_def)

theorem shell_cp_to_pc_witness:
  "\<exists>s'. shellh_cp_file copy_env (WOFS_DEV_NAME @ SLASH # [0x63]) (RFS_DEV_NAME @ SLASH # [0x61]) 2 copy_shell = Some (True, s')
    \<and> remote_ok 256 128 ([2, 3], 0) (bd_rfs (world (sh_reent s')))"
proof -
  have t: "two_files = take 2 two_files @ ([0x63], False, [2, 3]) # []" by (simp add: two_files_def)
  have "pc_writes tape_posix 3 tape_write" by (simp add: pc_writes_def tape_posix_def tape_write_def)
  moreover have "wofs_ok (take 2 two_files @ ([0x63], False, [2, 3]) # []) 64 (bd_wofs (world (sh_reent copy_shell)))"
    using two_files_ok copy_board(10) t by metis
  moreover have "\<forall>e \<in> set (take 2 two_files). same_name [0x63] (fst e) \<longrightarrow> fst (snd e)" by (auto simp: two_files_def same_name_def to_lower_def)
  ultimately show ?thesis
    using shell_cp_to_pc[of copy_env example_env "[0x63]" "take 2 two_files" "[0x63]" "[2, 3]" "[]" 64 copy_shell 2 linux_flags tape_posix "[SLASH]" 256 128
        "([], 0)" "[0x61]" "[SLASH, 0x61]" 3 "([], 0)" tape_write "([2, 3], 0)"] copy_board example_client_ok
    by (auto simp: tape_posix_def tape_write_def server_path_def same_name_def)
qed

end
