(* ===== verification/Xmodem.thy ===== *)
theory Xmodem
  imports Elua_Prelude "HOL-Library.Monad_Syntax"
begin

text \<open>
  The XMODEM receiver of the shell, \<^verbatim>\<open>src/xmodem.c\<close>: blocks of 128 or 1024 bytes with a block number, its complement and a CRC, acknowledged one
  by one and collected in a block of memory that grows. The functions that send and receive a character are
  parameters; receiving returns a negative number after the timeout. \<^verbatim>\<open>realloc\<close> is a parameter too. Flushing the line and the main loop read as long as characters come, so they are partial functions;
  \<open>crc16\<close> is the reference for the checksum.
\<close>

abbreviation "XM_SOH \<equiv> (0x01 :: int)"
abbreviation "XM_STX \<equiv> (0x02 :: int)"
abbreviation "XM_EOT \<equiv> (0x04 :: int)"
abbreviation "XM_CAN \<equiv> (0x18 :: int)"
abbreviation "XM_ACK \<equiv> (0x06 :: u8)"
abbreviation "XM_NAK \<equiv> (0x15 :: u8)"
abbreviation "XMODEM_INITIAL_BUFFER_SIZE \<equiv> (4096 :: nat)"
abbreviation "XMODEM_INCREMENT_AMMOUNT \<equiv> (4096 :: nat)"
abbreviation "XMODEM_TIMEOUT \<equiv> (1000000 :: nat)"
abbreviation "XMODEM_PXM_ACKET_DELAY \<equiv> (10000 :: nat)"
abbreviation "XMODEM_RETRY_LIMIT \<equiv> (20 :: nat)"

datatype xmodem_error = XMODEM_ERROR_REMOTECANCEL | XMODEM_ERROR_RETRYEXCEED | XMODEM_ERROR_OUTOFMEM

record 'w xm_line =
  xmodem_out_func :: "u8 \<Rightarrow> 'w \<Rightarrow> 'w"
  xmodem_in_func :: "nat \<Rightarrow> 'w \<Rightarrow> int \<times> 'w"

section \<open>Records\<close>

partial_function (option) xm_drain :: "'w xm_line \<Rightarrow> 'w \<Rightarrow> 'w option" where
  "xm_drain ln w = (case xmodem_in_func ln XMODEM_PXM_ACKET_DELAY w of (ch, w') \<Rightarrow> if ch \<noteq> -1 then xm_drain ln w' else Some w')"

definition xmodem_flush :: "bool \<Rightarrow> 'w xm_line \<Rightarrow> 'w \<Rightarrow> 'w option" where
  "xmodem_flush cancel ln w =
     do { w1 \<leftarrow> xm_drain ln w;
          Some (if cancel then xmodem_out_func ln (word_of_int XM_CAN) (xmodem_out_func ln (word_of_int XM_CAN) (xmodem_out_func ln (word_of_int XM_CAN) w1))
                else w1) }"

text \<open>A character that is there is taken at once; otherwise the receiver waits for one.\<close>

fun xm_read :: "'w xm_line \<Rightarrow> nat \<Rightarrow> 'w \<Rightarrow> u8 list option \<times> 'w" where
  "xm_read ln 0 w = (Some [], w)"
| "xm_read ln (Suc n) w =
     (let (ch, w1) = xmodem_in_func ln 0 w;
          (ch, w1) = (if ch = -1 then xmodem_in_func ln XMODEM_TIMEOUT w1 else (ch, w1))
      in if ch = -1 then (None, w1)
         else (case xm_read ln n w1 of (bs, w2) \<Rightarrow> (map_option (Cons (word_of_int ch)) bs, w2)))"

text \<open>The checksum in an unsigned number of 32 bits, cut to 16 at the end.\<close>

definition xm_crc_bit :: "u32 \<Rightarrow> u32" where
  "xm_crc_bit chk = (if chk AND 0x8000 \<noteq> 0 then push_bit 1 chk XOR 0x1021 else push_bit 1 chk)"

definition xm_crc_byte :: "u8 \<Rightarrow> u32 \<Rightarrow> u32" where
  "xm_crc_byte b chk = (xm_crc_bit ^^ 8) (chk XOR push_bit 8 (ucast b))"

definition xm_crc :: "u8 list \<Rightarrow> u32" where
  "xm_crc data = fold xm_crc_byte data 0 AND 0xFFFF"

definition xmodem_get_record :: "'w xm_line \<Rightarrow> u8 \<Rightarrow> nat \<Rightarrow> 'w \<Rightarrow> u8 list option \<times> 'w" where
  "xmodem_get_record ln blocknum pack_sz w =
     (case xm_read ln (pack_sz + 4) w of
        (None, w1) \<Rightarrow> (None, xmodem_out_func ln XM_NAK w1)
      | (Some pbuf, w1) \<Rightarrow>
          let data = take pack_sz (drop 2 pbuf); chk = xm_crc data
          in if pbuf ! 0 \<noteq> blocknum \<or> pbuf ! 1 \<noteq> NOT blocknum
               \<or> (ucast (pbuf ! (pack_sz + 2)) :: u32) \<noteq> drop_bit 8 chk AND 0xFF \<or> (ucast (pbuf ! (pack_sz + 3)) :: u32) \<noteq> chk AND 0xFF
             then (None, xmodem_out_func ln XM_NAK w1) else (Some data, w1))"

section \<open>The transfer\<close>

partial_function (option) xmodem_loop ::
  "'w xm_line \<Rightarrow> (u8 list \<Rightarrow> nat \<Rightarrow> u8 list option) \<Rightarrow> bool \<Rightarrow> u8 \<Rightarrow> nat \<Rightarrow> nat \<Rightarrow> u8 list \<Rightarrow> nat \<Rightarrow> 'w
     \<Rightarrow> ((xmodem_error + nat) \<times> u8 list \<times> 'w) option" where
  "xmodem_loop ln realloc starting packnum retries limit dest size' w =
     (if retries = 0 then do { w1 \<leftarrow> xmodem_flush True ln w; Some (Inl XMODEM_ERROR_RETRYEXCEED, dest, w1) }
      else let w1 = (if starting then xmodem_out_func ln 0x43 w else w); (ch, w2) = xmodem_in_func ln XMODEM_TIMEOUT w1
           in if ch = -1 \<or> ch \<noteq> XM_SOH \<and> ch \<noteq> XM_STX \<and> ch \<noteq> XM_EOT \<and> ch \<noteq> XM_CAN
              then xmodem_loop ln realloc starting packnum (retries - 1) limit dest size' w2
              else if ch = XM_EOT
              then do { w3 \<leftarrow> xmodem_flush False ln (xmodem_out_func ln XM_ACK w2); Some (Inr size', dest, w3) }
              else if ch = XM_CAN
              then do { w3 \<leftarrow> xmodem_flush False ln (xmodem_out_func ln XM_ACK w2); Some (Inl XMODEM_ERROR_REMOTECANCEL, dest, w3) }
              else let pack_sz = (if ch = XM_SOH then 128 else 1024)
                   in (case xmodem_get_record ln packnum pack_sz w2 of
                         (None, w3) \<Rightarrow> xmodem_loop ln realloc False packnum (retries - 1) limit dest size' w3
                       | (Some data, w3) \<Rightarrow>
                           do { w4 \<leftarrow> xmodem_flush False ln w3;
                                let limit' = (if size' + pack_sz > limit then limit + XMODEM_INCREMENT_AMMOUNT else limit);
                                case (if size' + pack_sz > limit then realloc dest limit' else Some dest) of
                                  None \<Rightarrow> do { w5 \<leftarrow> xmodem_flush True ln w4; Some (Inl XMODEM_ERROR_OUTOFMEM, dest, w5) }
                                | Some p \<Rightarrow>
                                    do { dest' \<leftarrow> blit p size' data;
                                         xmodem_loop ln realloc False (packnum + 1) XMODEM_RETRY_LIMIT limit' dest' (size' + pack_sz)
                                           (xmodem_out_func ln XM_ACK w4) } }))"

definition xmodem_receive ::
  "'w xm_line \<Rightarrow> (u8 list \<Rightarrow> nat \<Rightarrow> u8 list option) \<Rightarrow> u8 list \<Rightarrow> 'w \<Rightarrow> ((xmodem_error + nat) \<times> u8 list \<times> 'w) option" where
  "xmodem_receive ln realloc dest w = xmodem_loop ln realloc True 1 XMODEM_RETRY_LIMIT XMODEM_INITIAL_BUFFER_SIZE dest 0 w"

section \<open>The checksum\<close>

definition crc16_bit :: "u16 \<Rightarrow> u16" where
  "crc16_bit c = (if bit c 15 then push_bit 1 c XOR 0x1021 else push_bit 1 c)"

definition crc16_byte :: "u8 \<Rightarrow> u16 \<Rightarrow> u16" where
  "crc16_byte b c = (crc16_bit ^^ 8) (c XOR push_bit 8 (ucast b))"

definition crc16 :: "u8 list \<Rightarrow> u16" where
  "crc16 data = fold crc16_byte data 0"

lemma ucast_push: "ucast (push_bit k c :: u32) = push_bit k (ucast c :: u16)"
  by (rule bit_word_eqI) (auto simp: bit_simps)

lemma crc_bit_low: "ucast (xm_crc_bit c) = crc16_bit (ucast c)"
proof -
  have "c AND 0x8000 \<noteq> 0 \<longleftrightarrow> bit c 15" using and_single_bit [of c 15] by simp
  moreover have "ucast (x XOR 0x1021) = (ucast x XOR 0x1021 :: u16)" for x :: u32
    by (rule bit_word_eqI) (auto simp: bit_simps)
  moreover have "ucast (c * 2) = (ucast c * 2 :: u16)" using ucast_push [of 1 c] by simp
  ultimately show ?thesis by (simp add: xm_crc_bit_def crc16_bit_def bit_ucast_iff)
qed

lemma crc_byte_low: "ucast (xm_crc_byte b c) = crc16_byte b (ucast c)"
proof -
  have "ucast ((xm_crc_bit ^^ n) c) = (crc16_bit ^^ n) (ucast c)" for n c
    by (induction n) (simp_all add: crc_bit_low)
  moreover have "ucast (c XOR push_bit 8 (ucast b) :: u32) = (ucast c XOR push_bit 8 (ucast b) :: u16)"
    by (rule bit_word_eqI) (auto simp: bit_simps)
  ultimately show ?thesis by (simp add: xm_crc_byte_def crc16_byte_def)
qed

lemma crc_low: "xm_crc data = ucast (crc16 data)"
proof -
  have f: "ucast (fold xm_crc_byte data c) = fold crc16_byte data (ucast c)" for c
    by (induction data arbitrary: c) (simp_all add: crc_byte_low)
  have m: "(0xFFFF :: u32) = mask 16" by (simp add: mask_eq_exp_minus_1)
  have "ucast (ucast c :: u16) = c AND 0xFFFF" for c :: u32
    unfolding m by (rule bit_word_eqI) (auto simp: bit_simps)
  from this [of "fold xm_crc_byte data 0"] show ?thesis by (simp add: xm_crc_def crc16_def f)
qed

lemma xor_cancel: "x XOR z = y XOR z \<longleftrightarrow> x = y" "z XOR x = z XOR y \<longleftrightarrow> x = y" for x y z :: u16
  by (auto simp: bit_eq_iff bit_xor_iff)

text \<open>A step of the checksum loses nothing: the lowest bit of the result tells whether the polynomial was added.\<close>

lemma crc16_bit_inj: "crc16_bit x = crc16_bit y \<longleftrightarrow> x = y"
proof
  assume eq: "crc16_bit x = crc16_bit y"
  have low: "bit (crc16_bit z) 0 \<longleftrightarrow> bit z 15" for z
    by (simp add: crc16_bit_def bit_0 even_xor_iff)
  have top: "bit x 15 \<longleftrightarrow> bit y 15" using eq low by metis
  then have "push_bit 1 x = push_bit 1 y"
    using eq unfolding crc16_bit_def by (auto simp: xor_cancel split: if_splits simp del: push_bit_Suc)
  then have sh: "bit (push_bit 1 x) (Suc n) \<longleftrightarrow> bit (push_bit 1 y) (Suc n)" for n by (simp only:)
  show "x = y"
  proof (rule bit_word_eqI)
    fix n assume n: "n < LENGTH(16)"
    show "bit x n \<longleftrightarrow> bit y n"
    proof (cases "n = 15")
      case True
      then show ?thesis using top by simp
    next
      case False
      then show ?thesis using n sh [of n] by (simp only: bit_push_bit_iff) (simp add: possible_bit_def)
    qed
  qed
qed simp

lemma crc16_steps_inj: "(crc16_bit ^^ n) u = (crc16_bit ^^ n) v \<longleftrightarrow> u = v"
  by (induction n) (simp_all add: crc16_bit_inj)

lemma crc16_byte_inj: "crc16_byte b x = crc16_byte b y \<longleftrightarrow> x = y"
  by (simp add: crc16_byte_def crc16_steps_inj xor_cancel)

lemma crc16_byte_differ: "crc16_byte a x = crc16_byte b x \<longleftrightarrow> a = b"
proof -
  have "push_bit 8 (ucast a :: u16) = push_bit 8 (ucast b) \<Longrightarrow> a = b"
  proof (rule bit_word_eqI)
    fix n
    assume eq: "push_bit 8 (ucast a :: u16) = push_bit 8 (ucast b)" and n: "n < LENGTH(8)"
    then have "bit (push_bit 8 (ucast a :: u16)) (n + 8) \<longleftrightarrow> bit (push_bit 8 (ucast b :: u16)) (n + 8)" by (simp only:)
    then show "bit a n \<longleftrightarrow> bit b n" using n by (simp add: bit_simps)
  qed
  then show ?thesis by (auto simp: crc16_byte_def crc16_steps_inj xor_cancel)
qed

lemma crc16_single_byte:
  assumes "i < length data" "data ! i \<noteq> b"
  shows "crc16 (data[i := b]) \<noteq> crc16 data"
proof -
  have split: "data = take i data @ data ! i # drop (Suc i) data" "data[i := b] = take i data @ b # drop (Suc i) data"
    using assms(1) by (simp_all add: id_take_nth_drop upd_conv_take_nth_drop)
  have inj: "fold crc16_byte xs x = fold crc16_byte xs y \<longleftrightarrow> x = y" for xs x y
    by (induction xs arbitrary: x y) (simp_all add: crc16_byte_inj)
  have "crc16 (take i data @ c # drop (Suc i) data) = fold crc16_byte (drop (Suc i) data) (crc16_byte c (fold crc16_byte (take i data) 0))" for c
    by (simp add: crc16_def)
  then show ?thesis using split inj crc16_byte_differ assms(2) by metis
qed

section \<open>A line with a sender\<close>

text \<open>What the receiver reads, -1 for a time without a character, and what it has sent.\<close>

definition xm_queue :: "(int list \<times> u8 list) xm_line" where
  "xm_queue = \<lparr>xmodem_out_func = (\<lambda>b w. (fst w, snd w @ [b])),
     xmodem_in_func = (\<lambda>t w. case fst w of [] \<Rightarrow> (-1, w) | c # cs \<Rightarrow> (c, cs, snd w))\<rparr>"

lemma xm_queue_simps [simp]:
  "xmodem_out_func xm_queue b (inp, out) = (inp, out @ [b])"
  "xmodem_in_func xm_queue t ([], out) = (-1, [], out)" "xmodem_in_func xm_queue t (c # cs, out) = (c, cs, out)"
  by (simp_all add: xm_queue_def)

definition xm_packet :: "u8 \<Rightarrow> u8 list \<Rightarrow> u8 list" where
  "xm_packet num data = [num, NOT num] @ data @ [ucast (drop_bit 8 (crc16 data)), ucast (crc16 data)]"

text \<open>A sender that waits for each acknowledgement: a silence follows every block.\<close>

fun xm_session :: "u8 \<Rightarrow> u8 list list \<Rightarrow> int list" where
  "xm_session num [] = [XM_EOT]"
| "xm_session num (b # bs) = (if length b = 128 then XM_SOH else XM_STX) # map uint (xm_packet num b) @ -1 # xm_session (num + 1) bs"

lemma uint_not_neg [simp]: "uint (b :: u8) \<noteq> -1"
  using uint_ge_0 [of b] by linarith

lemma xm_read_queue: "xm_read xm_queue (length bs) (map uint bs @ rest, out) = (Some bs, rest, out)"
  by (induction bs) simp_all

lemma ucast_u8_inj: "(ucast a :: u32) = ucast b \<longleftrightarrow> a = b" for a b :: u8
proof
  assume eq: "(ucast a :: u32) = ucast b"
  show "a = b"
  proof (rule bit_word_eqI)
    fix n assume "n < LENGTH(8)"
    moreover have "bit (ucast a :: u32) n \<longleftrightarrow> bit (ucast b :: u32) n" by (simp only: eq)
    ultimately show "bit a n \<longleftrightarrow> bit b n" by (simp add: bit_simps)
  qed
qed simp

lemma crc_bytes:
  fixes b :: u8 and c :: u16
  shows "(ucast b :: u32) = drop_bit 8 (ucast c) AND 0xFF \<longleftrightarrow> b = ucast (drop_bit 8 c)"
    and "(ucast b :: u32) = ucast c AND 0xFF \<longleftrightarrow> b = ucast c"
proof -
  have m: "(0xFF :: u32) = mask 8" by (simp add: mask_eq_exp_minus_1)
  have "drop_bit 8 (ucast c) AND 0xFF = (ucast (ucast (drop_bit 8 c) :: u8) :: u32)" "ucast c AND 0xFF = (ucast (ucast c :: u8) :: u32)"
    unfolding m by (rule bit_word_eqI; auto simp: bit_simps)+
  then show "(ucast b :: u32) = drop_bit 8 (ucast c) AND 0xFF \<longleftrightarrow> b = ucast (drop_bit 8 c)" "(ucast b :: u32) = ucast c AND 0xFF \<longleftrightarrow> b = ucast c"
    by (simp_all add: ucast_u8_inj)
qed

lemma crc_bytes_inj:
  fixes c d :: u16
  assumes "(ucast c :: u8) = ucast d" "(ucast (drop_bit 8 c) :: u8) = ucast (drop_bit 8 d)"
  shows "c = d"
proof (rule bit_word_eqI)
  fix n assume n: "n < LENGTH(16)"
  have "bit (ucast c :: u8) n \<longleftrightarrow> bit (ucast d :: u8) n" "bit (ucast (drop_bit 8 c) :: u8) (n - 8) \<longleftrightarrow> bit (ucast (drop_bit 8 d) :: u8) (n - 8)"
    by (simp_all only: assms)
  then show "bit c n \<longleftrightarrow> bit d n" using n by (cases "n < 8") (auto simp: bit_simps)
qed

lemma record_parts:
  assumes "length bs = n + 4"
  shows "bs = [bs ! 0, bs ! 1] @ take n (drop 2 bs) @ [bs ! (n + 2), bs ! (n + 3)]"
proof -
  obtain x y ds where bs: "bs = x # y # ds" "length ds = n + 2" using assms by (auto simp: numeral_eq_Suc length_Suc_conv)
  then have "drop n ds = [ds ! n, ds ! (n + 1)]" by (simp add: Cons_nth_drop_Suc [symmetric])
  then show ?thesis using bs append_take_drop_id [of n ds] by simp
qed

lemma get_record_queue:
  assumes "length bs = n + 4"
  shows "xmodem_get_record xm_queue num n (map uint bs @ rest, out) =
    (if bs = xm_packet num (take n (drop 2 bs)) then (Some (take n (drop 2 bs)), rest, out) else (None, rest, out @ [XM_NAK]))"
proof -
  define d where "d = take n (drop 2 bs)"
  have "bs = xm_packet num d \<longleftrightarrow> bs ! 0 = num \<and> bs ! 1 = NOT num \<and> bs ! (n + 2) = ucast (drop_bit 8 (crc16 d)) \<and> bs ! (n + 3) = ucast (crc16 d)"
    unfolding xm_packet_def by (subst record_parts [OF assms]) (simp add: d_def)
  then show ?thesis
    unfolding xmodem_get_record_def using xm_read_queue [of bs rest out] assms
    by (simp add: Let_def crc_low crc_bytes d_def [symmetric])
qed

lemma flush_silence: "xmodem_flush False xm_queue (-1 # rest, out) = Some (rest, out)" "xmodem_flush False xm_queue ([], out) = Some ([], out)"
  by (simp_all add: xmodem_flush_def xm_drain.simps [of xm_queue])

text \<open>The memory the receiver collects the data in: as long as its limit, starting with what has arrived.\<close>

definition xm_store :: "u8 list \<Rightarrow> nat \<Rightarrow> u8 list \<Rightarrow> bool" where
  "xm_store got limit dest \<longleftrightarrow> length dest = limit \<and> length got \<le> limit \<and> take (length got) dest = got"

definition realloc_ok :: "(u8 list \<Rightarrow> nat \<Rightarrow> u8 list option) \<Rightarrow> bool" where
  "realloc_ok realloc \<longleftrightarrow> (\<forall>b n. length b \<le> n \<longrightarrow> (\<exists>b'. realloc b n = Some b' \<and> length b' = n \<and> take (length b) b' = b))"

lemma xm_store_add:
  assumes st: "xm_store got limit dest" and re: "realloc_ok realloc" and d: "length data \<le> 1024"
    and lim: "limit' = (if length got + length data > limit then limit + XMODEM_INCREMENT_AMMOUNT else limit)"
  shows "\<exists>p dest'. (if length got + length data > limit then realloc dest limit' else Some dest) = Some p
    \<and> blit p (length got) data = Some dest' \<and> xm_store (got @ data) limit' dest'"
proof -
  obtain p where p: "(if length got + length data > limit then realloc dest limit' else Some dest) = Some p" "length p = limit'"
      "take (length got) p = got"
  proof (cases "length got + length data > limit")
    case True
    then have "length dest \<le> limit'" using st lim by (simp add: xm_store_def)
    then obtain p where p: "realloc dest limit' = Some p" "length p = limit'" "take (length dest) p = dest"
      using re unfolding realloc_ok_def by blast
    have "take (length got) p = take (length got) (take (length dest) p)" using st by (simp add: xm_store_def min_absorb1)
    also have "\<dots> = got" unfolding p(3) using st by (simp add: xm_store_def)
    finally show ?thesis using True p that by simp
  next
    case False
    then show ?thesis using st lim that by (simp add: xm_store_def)
  qed
  have "length got + length data \<le> limit'" using lim d st by (auto simp: xm_store_def)
  then have "blit p (length got) data = Some (got @ data @ drop (length got + length data) p)" using p by (simp add: blit_def)
  moreover have "xm_store (got @ data) limit' (got @ data @ drop (length got + length data) p)"
    using p(2) \<open>length got + length data \<le> limit'\<close> by (simp add: xm_store_def)
  ultimately show ?thesis using p(1) by blast
qed

lemma xmodem_loop_block:
  assumes "retries \<noteq> 0" "xmodem_in_func ln XMODEM_TIMEOUT (if starting then xmodem_out_func ln 0x43 w else w) = (ch, w2)"
    and "ch = XM_SOH \<and> pack = 128 \<or> ch = XM_STX \<and> pack = 1024" "xmodem_get_record ln num pack w2 = (Some data, w3)"
    and "xmodem_flush False ln w3 = Some w4" "limit' = (if n + pack > limit then limit + XMODEM_INCREMENT_AMMOUNT else limit)"
    and "(if n + pack > limit then realloc dest limit' else Some dest) = Some p" "blit p n data = Some dest'"
  shows "xmodem_loop ln realloc starting num retries limit dest n w =
    xmodem_loop ln realloc False (num + 1) XMODEM_RETRY_LIMIT limit' dest' (n + pack) (xmodem_out_func ln XM_ACK w4)"
proof (cases "n + pack > limit")
  case True
  then show ?thesis using assms by (subst xmodem_loop.simps) (elim disjE conjE; simp add: Let_def)
next
  case False
  then show ?thesis using assms by (subst xmodem_loop.simps) (elim disjE conjE; simp add: Let_def)
qed

lemma xmodem_loop_session:
  assumes re: "realloc_ok realloc" and bl: "\<forall>b \<in> set blocks. length b = 128 \<or> length b = 1024"
    and st: "xm_store got limit dest" and r: "retries \<noteq> 0"
  shows "\<exists>dest' limit'. xmodem_loop xm_queue realloc starting num retries limit dest (length got) (xm_session num blocks, out) =
      Some (Inr (length (got @ concat blocks)), dest', [], (if starting then out @ [0x43] else out) @ replicate (length blocks + 1) XM_ACK)
    \<and> xm_store (got @ concat blocks) limit' dest'"
  using bl st r
proof (induction blocks arbitrary: starting num retries limit dest got out)
  case Nil
  then show ?case by (subst xmodem_loop.simps) (auto simp: flush_silence)
next
  case (Cons b bs)
  define out1 where "out1 = (if starting then out @ [0x43] else out)"
  define limit' where "limit' = (if length got + length b > limit then limit + XMODEM_INCREMENT_AMMOUNT else limit)"
  have lb: "length b = 128 \<or> length b = 1024" "length b \<le> 1024" using Cons.prems(1) by auto
  obtain p dest1 where p: "(if length got + length b > limit then realloc dest limit' else Some dest) = Some p"
      "blit p (length got) b = Some dest1" "xm_store (got @ b) limit' dest1"
    using xm_store_add [OF Cons.prems(2) re lb(2) limit'_def] by blast
  have rec: "xmodem_get_record xm_queue num (length b) (map uint (xm_packet num b) @ -1 # xm_session (num + 1) bs, out1) =
      (Some b, -1 # xm_session (num + 1) bs, out1)"
    using get_record_queue [of "xm_packet num b" "length b"] by (simp add: xm_packet_def)
  define hdr where "hdr = (if length b = 128 then XM_SOH else XM_STX)"
  have hdr: "hdr = XM_SOH \<and> length b = 128 \<or> hdr = XM_STX \<and> length b = 1024" using lb(1) by (auto simp: hdr_def)
  have inq: "xmodem_in_func xm_queue XMODEM_TIMEOUT (if starting then xmodem_out_func xm_queue 0x43 (xm_session num (b # bs), out) else (xm_session num (b # bs), out)) =
      (hdr, map uint (xm_packet num b) @ -1 # xm_session (num + 1) bs, out1)"
    by (simp add: out1_def hdr_def)
  have step: "xmodem_loop xm_queue realloc starting num retries limit dest (length got) (xm_session num (b # bs), out) =
      xmodem_loop xm_queue realloc False (num + 1) XMODEM_RETRY_LIMIT limit' dest1 (length (got @ b)) (xm_session (num + 1) bs, out1 @ [XM_ACK])"
    using xmodem_loop_block [where realloc = realloc, OF Cons.prems(3) inq hdr rec flush_silence(1) limit'_def p(1,2)] by simp
  show ?case
    unfolding step using Cons.IH [OF _ p(3), of XMODEM_RETRY_LIMIT False "num + 1" "out1 @ [XM_ACK]"] Cons.prems(1)
    by (simp add: out1_def)
qed

section \<open>Properties\<close>

text \<open>C17: A transfer whose blocks, of 128 or 1024 bytes each and any number of them, arrive undamaged from a sender that waits for the acknowledgements
  ends with all the data in memory, in order, and one acknowledgement for each block and the end. The memory grows in time:
  nothing is written outside it. Reallocation is assumed to succeed and to keep the contents.\<close>

theorem xmodem_transfer:
  assumes "realloc_ok realloc" "\<forall>b \<in> set blocks. length b = 128 \<or> length b = 1024" "length dest = XMODEM_INITIAL_BUFFER_SIZE"
  shows "\<exists>dest'. xmodem_receive xm_queue realloc dest (xm_session 1 blocks, []) =
      Some (Inr (length (concat blocks)), dest', [], 0x43 # replicate (length blocks + 1) XM_ACK)
    \<and> take (length (concat blocks)) dest' = concat blocks"
  using xmodem_loop_session [OF assms(1,2), of "[]" XMODEM_INITIAL_BUFFER_SIZE dest XMODEM_RETRY_LIMIT True 1 "[]"] assms(3)
  by (auto simp: xmodem_receive_def xm_store_def)

text \<open>A record in which one byte of the data is damaged, or that has another block number, as a block that is repeated
  because its acknowledgement was lost, is refused: the receiver answers NAK and keeps nothing of it.\<close>

theorem xmodem_damage_detected:
  assumes "i < length data \<and> b \<noteq> data ! i \<and> bs = [num, NOT num] @ data[i := b] @ drop (length data + 2) (xm_packet num data)
    \<or> num' \<noteq> num \<and> bs = xm_packet num' data"
  shows "xmodem_get_record xm_queue num (length data) (map uint bs @ rest, out) = (None, rest, out @ [XM_NAK])"
proof -
  have len: "length bs = length data + 4" using assms by (auto simp: xm_packet_def)
  have "bs \<noteq> xm_packet num (take (length data) (drop 2 bs))"
  proof
    assume eq: "bs = xm_packet num (take (length data) (drop 2 bs))"
    show False using assms
    proof (elim disjE conjE)
      assume d: "i < length data" "b \<noteq> data ! i" "bs = [num, NOT num] @ data[i := b] @ drop (length data + 2) (xm_packet num data)"
      then have "take (length data) (drop 2 bs) = data[i := b]" by simp
      then have "ucast (crc16 (data[i := b])) = (ucast (crc16 data) :: u8)" "ucast (drop_bit 8 (crc16 (data[i := b]))) = (ucast (drop_bit 8 (crc16 data)) :: u8)"
        using eq d(3) by (simp_all add: xm_packet_def)
      then show False using crc_bytes_inj crc16_single_byte [OF d(1)] d(2) by metis
    next
      assume d: "num' \<noteq> num" "bs = xm_packet num' data"
      then show False using eq by (simp add: xm_packet_def)
    qed
  qed
  then show ?thesis using get_record_queue [OF len] by simp
qed

theorem xmodem_transfer_witness:
  "\<exists>dest'. xmodem_receive xm_queue (\<lambda>b n. Some (take n (b @ replicate n 0))) (replicate 4096 0) (xm_session 1 [replicate 1024 7, replicate 128 9], []) =
      Some (Inr (length (concat [replicate 1024 7, replicate 128 (9 :: u8)])), dest', [], 0x43 # replicate 3 XM_ACK)"
proof -
  have "realloc_ok (\<lambda>b n. Some (take n (b @ replicate n 0)))" by (simp add: realloc_ok_def min_def)
  from xmodem_transfer [OF this, of "[replicate 1024 7, replicate 128 9]" "replicate 4096 0"]
  show ?thesis by (auto simp: numeral_3_eq_3)
qed

theorem xmodem_damage_detected_witness:
  "xmodem_get_record xm_queue 5 3 (map uint (xm_packet 4 [1, 2, 3]), []) = (None, [], [XM_NAK])"
  using xmodem_damage_detected [of 0 "[1, 2, 3]" 1 "xm_packet 4 [1, 2, 3]" 5 4 "[]" "[]"] by (simp add: numeral_3_eq_3)

end
