(* ===== verification/Shell_Recv.thy ===== *)
theory Shell_Recv
  imports Shell Xmodem
begin

text \<open>
  The command \<^verbatim>\<open>recv\<close> of the shell, \<^verbatim>\<open>src/shell/shell_recv.c\<close>: a program is received with XMODEM, the padding of its last block is
  cut off, and the program is saved or run. The serial line is that of the XMODEM receiver; saving with the functions of the C library
  (the number of bytes written, or that the file cannot be opened) and running a program are parameters.
\<close>

section \<open>Receiving\<close>

text \<open>Going back from the last byte; before the first byte the code reads outside the block. The list is the block from its end.\<close>

fun skip_padding :: "u8 list \<Rightarrow> nat option" where
  "skip_padding [] = None"
| "skip_padding (b # bs) = (if b = 0x1A then skip_padding bs else Some (Suc (length bs)))"

definition shell_help_recv :: string where
  "shell_help_recv = text_lines [''[<path>]'', ''  [<path>] - the data received via XMODEM will be saved to this file.'',
     ''Without arguments it runs Lua to execute the data it receives.'']"

record ('x, 'w) recv_env =
  rv_line :: "'x xm_line"
  rv_malloc :: "nat \<Rightarrow> u8 list option"
  rv_realloc :: "u8 list \<Rightarrow> nat \<Rightarrow> u8 list option"
  rv_save :: "u8 list \<Rightarrow> u8 list \<Rightarrow> ('w, nat option) devop"
  rv_run :: "u8 list \<Rightarrow> 'w shell \<Rightarrow> 'w shell option"

definition recv_save :: "('x, 'w) recv_env \<Rightarrow> u8 list \<Rightarrow> u8 list \<Rightarrow> 'w shell \<Rightarrow> 'w shell option" where
  "recv_save env fname prog s =
     do { (res, s1) \<leftarrow> sys (rv_save env fname prog) s;
          Some (case res of
                  None \<Rightarrow> printf ''unable to open file %s'' [TXT fname] s1
                | Some n \<Rightarrow> if n = length prog then printf ''received and saved as %s'' [TXT fname] s1
                            else printf ''unable to save file %s (no space left on target?)'' [TXT fname] s1) }"

definition shell_recv :: "('x, 'w) recv_env \<Rightarrow> u8 list list \<Rightarrow> 'x \<Rightarrow> 'w shell \<Rightarrow> ('x \<times> 'w shell) option" where
  "shell_recv env argv w s =
     (if length argv > 2 then Some (w, shellh_show_help ''recv'' shell_help_recv s)
      else case rv_malloc env XMODEM_INITIAL_BUFFER_SIZE of
        None \<Rightarrow> Some (w, printf ''Unable to allocate memory'' [] s)
      | Some block \<Rightarrow>
          let s1 = printf ''Waiting for file ... '' [] s in
          do { (res, prog, w1) \<leftarrow> xmodem_receive (rv_line env) (rv_realloc env) block w;
               case res of
                 Inl e \<Rightarrow> Some (w1, printf (if e = XMODEM_ERROR_OUTOFMEM then ''file too big'' else ''XMODEM error'') [] s1)
               | Inr actsize \<Rightarrow>
                   do { n \<leftarrow> skip_padding (rev (take actsize prog));
                        let s2 = printf ''done, got %u bytes'' [NUM n] s1;
                        s3 \<leftarrow> (if length argv = 2 then recv_save env (argv ! 1) (take n prog) s2 else rv_run env (take n prog) s2);
                        Some (w1, s3) } })"

section \<open>Properties\<close>

lemma skip_padding_data: "data \<noteq> [] \<Longrightarrow> last data \<noteq> 0x1A \<Longrightarrow> skip_padding (rev (data @ replicate p 0x1A)) = Some (length data)"
proof (induction p)
  case 0
  then show ?case by (cases data rule: rev_cases) auto
next
  case (Suc p)
  have "rev (data @ replicate (Suc p) 0x1A) = 0x1A # rev (data @ replicate p 0x1A)" by (simp flip: replicate_append_same)
  then show ?case using Suc by simp
qed

lemma skip_padding_only: "skip_padding (replicate p 0x1A) = None"
  by (induction p) auto

text \<open>A program that the sender pads with 0x1A to full blocks, as XMODEM does, is saved by \<^verbatim>\<open>recv\<close> without the padding,
  byte for byte, when its last byte is not 0x1A itself, and the line is acknowledged. For an empty file, which is only padding or no
  block at all, the search for the padding runs past the beginning of the memory.\<close>

theorem shell_recv_restores:
  assumes env: "rv_line env = xm_queue" "rv_malloc env XMODEM_INITIAL_BUFFER_SIZE = Some block" "length block = XMODEM_INITIAL_BUFFER_SIZE" "realloc_ok (rv_realloc env)"
    and blocks: "\<forall>b \<in> set blocks. length b = 128 \<or> length b = 1024" "concat blocks = data @ replicate p 0x1A"
    and save: "\<And>r. rv_save env fname data r = Some (Some (length data), saved r)"
  shows "(data \<noteq> [] \<and> last data \<noteq> 0x1A \<longrightarrow> (\<exists>s'. shell_recv env [cmd, fname] (xm_session 1 blocks, []) s = Some (([], 0x43 # replicate (length blocks + 1) XM_ACK), s')
      \<and> sh_reent s' = saved (sh_reent s) \<and> last (sh_out s') = (''received and saved as %s'', [TXT fname])))
    \<and> (data = [] \<longrightarrow> shell_recv env [cmd, fname] (xm_session 1 blocks, []) s = None)"
proof -
  obtain prog where x: "xmodem_receive xm_queue (rv_realloc env) block (xm_session 1 blocks, []) =
      Some (Inr (length (concat blocks)), prog, [], 0x43 # replicate (length blocks + 1) XM_ACK)" "take (length (concat blocks)) prog = concat blocks"
    using xmodem_loop_session[OF env(4) blocks(1), of "[]" XMODEM_INITIAL_BUFFER_SIZE block XMODEM_RETRY_LIMIT True 1 "[]"] env(3)
    by (auto simp: xmodem_receive_def xm_store_def)
  have prog: "take (length data) prog = data" using arg_cong[OF x(2), of "take (length data)"] by (simp add: blocks(2))
  show ?thesis
    using skip_padding_data[of data p] skip_padding_only[of p] prog x env(1,2) save
    by (auto simp: shell_recv_def Let_def blocks(2) recv_save_def sys_def printf_def)
qed

theorem shell_recv_restores_witness:
  "\<exists>s'. shell_recv \<lparr>rv_line = xm_queue, rv_malloc = (\<lambda>n. Some (replicate n 0)), rv_realloc = (\<lambda>b n. Some (take n (b @ replicate n 0))),
       rv_save = (\<lambda>f d r. Some (Some (length d), r\<lparr>world := (f, d)\<rparr>)), rv_run = (\<lambda>_ _. None)\<rparr> [[0x72], [0x66]]
     (xm_session 1 [[1, 2, 3] @ replicate 125 0x1A], []) \<lparr>sh_reent = \<lparr>reent_errno = None, world = ([], [])\<rparr>, sh_keys = [], sh_out = []\<rparr> =
       Some (([], [0x43, XM_ACK, XM_ACK]), s') \<and> world (sh_reent s') = ([0x66], [1, 2, 3])"
proof -
  let ?env = "\<lparr>rv_line = xm_queue, rv_malloc = (\<lambda>n. Some (replicate n 0)), rv_realloc = (\<lambda>b n. Some (take n (b @ replicate n 0))),
    rv_save = (\<lambda>f d r. Some (Some (length d), r\<lparr>world := (f, d)\<rparr>)), rv_run = (\<lambda>_ _. None)\<rparr>"
  let ?s = "\<lparr>sh_reent = \<lparr>reent_errno = None, world = ([], [])\<rparr>, sh_keys = [], sh_out = []\<rparr> :: (u8 list \<times> u8 list) shell"
  have r: "realloc_ok (rv_realloc ?env)" by (simp add: realloc_ok_def min_def)
  show ?thesis
    using shell_recv_restores[of ?env, OF _ _ _ r, of "replicate 4096 0" "[[1, 2, 3] @ replicate 125 0x1A]" "[1, 2, 3]" 125 "[0x66]" "\<lambda>r. r\<lparr>world := ([0x66], [1, 2, 3])\<rparr>" "[0x72]" ?s]
    by auto
qed

end
