(* ===== verification/Elua_Adc.thy ===== *)
theory Elua_Adc
  imports Buf "HOL-Library.Monad_Syntax"
begin

text \<open>
  The common part of the A/D converter support, \<^verbatim>\<open>src/elua_adc.c\<close> and \<^verbatim>\<open>inc/elua_adc.h\<close>, in a build with buffers for the
  channels: the sequence of active channels, requesting samples, and the smoothing filter, which returns the
  average of the last samples. A channel state is addressed by its number, \<^verbatim>\<open>d->ch_state\<close> holds numbers or NULL, and \<^verbatim>\<open>value_ptr\<close> is
  the number of an element of \<^verbatim>\<open>sample_buf\<close>. The driver functions and \<^verbatim>\<open>realloc\<close> are parameters, as is what the CPU reads through NULL.
  Disabling and restoring the interrupts has no effect inside one function. The
  functions that wait are given what the interrupt handler does between two tests.
\<close>

section \<open>State\<close>

record elua_adc_ch_state =
  op_pending :: bool
  blocking :: bool
  freerunning :: bool
  smooth_ready :: bool
  value_fresh :: bool
  ch_id :: nat
  logsmoothlen :: u8
  smoothidx :: u16
  smoothsum :: u32
  smoothbuf :: "u16 list option"
  reqsamples :: u16
  value_ptr :: "nat option"

record elua_adc_dev_state =
  ch_state :: "nat option list"
  sample_buf :: "u16 list"
  force_reseq :: bool
  skip_cycle :: bool
  running :: bool
  ch_active :: u32
  last_ch_active :: u32
  seq_id :: nat
  seq_ctr :: u8
  seq_len :: u8

record adc =
  adc_ch_state :: "elua_adc_ch_state list"
  adc_dev_state :: elua_adc_dev_state
  adc_bufs :: bufs

text \<open>The build and the driver.\<close>

record adc_env =
  ad_cfg :: build_config
  NUM_ADC :: nat
  ADC_BUF_SIZE :: u8
  big_endian :: bool
  ad_realloc :: realloc_fun
  ad_smooth_realloc :: "u16 list option \<Rightarrow> nat \<Rightarrow> u16 list option"
  ad_null_id :: "nat option"
  platform_adc_update_sequence :: "adc \<Rightarrow> adc"
  platform_adc_set_clock :: "nat \<Rightarrow> adc \<Rightarrow> adc"
  platform_adc_stop :: "nat \<Rightarrow> adc \<Rightarrow> adc"

definition adc_get_ch_state :: "nat \<Rightarrow> adc \<Rightarrow> elua_adc_ch_state option" where
  "adc_get_ch_state n a = (if n < length (adc_ch_state a) then Some (adc_ch_state a ! n) else None)"

definition put_ch :: "nat \<Rightarrow> elua_adc_ch_state \<Rightarrow> adc \<Rightarrow> adc" where
  "put_ch n s a = a\<lparr>adc_ch_state := (adc_ch_state a)[n := s]\<rparr>"

text \<open>A sample in memory.\<close>

definition load_u16 :: "bool \<Rightarrow> u8 list \<Rightarrow> u16" where
  "load_u16 big bs = (if big then push_bit 8 (ucast (bs ! 0)) OR ucast (bs ! 1) else push_bit 8 (ucast (bs ! 1)) OR ucast (bs ! 0))"

definition store_u16 :: "bool \<Rightarrow> u16 \<Rightarrow> u8 list" where
  "store_u16 big x = (if big then [ucast (drop_bit 8 x), ucast x] else [ucast x, ucast (drop_bit 8 x)])"

section \<open>Channels and the sequence\<close>

definition ACTIVATE_CHANNEL :: "nat \<Rightarrow> elua_adc_dev_state \<Rightarrow> elua_adc_dev_state" where
  "ACTIVATE_CHANNEL n d = d\<lparr>ch_active := ch_active d OR push_bit n 1\<rparr>"

definition INACTIVATE_CHANNEL :: "nat \<Rightarrow> elua_adc_dev_state \<Rightarrow> elua_adc_dev_state" where
  "INACTIVATE_CHANNEL n d = d\<lparr>ch_active := ch_active d AND NOT (push_bit n 1)\<rparr>"

text \<open>One channel of the loop that rewrites the sequence; the other result is \<^verbatim>\<open>tmp_seq_ctr\<close>.\<close>

definition reseq_channel :: "nat \<Rightarrow> nat \<Rightarrow> u8 \<times> adc \<Rightarrow> (u8 \<times> adc) option" where
  "reseq_channel previd n = (\<lambda>(tmp, a).
     let d = adc_dev_state a in
     if ch_active d AND push_bit n 1 > 0
     then do { s \<leftarrow> adc_get_ch_state n a;
               if unat (seq_ctr d) < length (ch_state d) \<and> ch_id s < length (sample_buf d)
               then Some (if ch_id s = previd then seq_ctr d else tmp,
                 (put_ch n (s\<lparr>value_ptr := Some (ch_id s), value_fresh := False\<rparr>) a)
                   \<lparr>adc_dev_state := d\<lparr>ch_state := (ch_state d)[unat (seq_ctr d) := Some n], seq_ctr := seq_ctr d + 1\<rparr>\<rparr>)
               else None }
     else Some (tmp, a))"

fun reseq_channels :: "nat \<Rightarrow> nat list \<Rightarrow> u8 \<times> adc \<Rightarrow> (u8 \<times> adc) option" where
  "reseq_channels previd [] st = Some st"
| "reseq_channels previd (n # ns) st = do { st1 \<leftarrow> reseq_channel previd n st; reseq_channels previd ns st1 }"

definition adc_update_dev_sequence :: "adc_env \<Rightarrow> adc \<Rightarrow> adc option" where
  "adc_update_dev_sequence env a =
     (let d = adc_dev_state a in
      do { cur \<leftarrow> (if unat (seq_ctr d) < length (ch_state d) then Some (ch_state d ! unat (seq_ctr d)) else None);
           previd \<leftarrow> (case cur of Some n \<Rightarrow> map_option ch_id (adc_get_ch_state n a) | None \<Rightarrow> ad_null_id env);
           if ch_active d \<noteq> last_ch_active d \<or> force_reseq d
           then do { (tmp, a1) \<leftarrow> reseq_channels previd [0..<NUM_ADC env] (0, a\<lparr>adc_dev_state := d\<lparr>seq_ctr := 0\<rparr>\<rparr>);
                     let d1 = adc_dev_state a1;
                     let a2 = platform_adc_update_sequence env (a1\<lparr>adc_dev_state := d1\<lparr>seq_len := seq_ctr d1, seq_ctr := 0,
                           ch_state := take (unat (seq_ctr d1)) (ch_state d1) @ replicate (NUM_ADC env - unat (seq_ctr d1)) None
                             @ drop (max (unat (seq_ctr d1)) (NUM_ADC env)) (ch_state d1)\<rparr>\<rparr>);
                     let d2 = adc_dev_state a2;
                     Some (a2\<lparr>adc_dev_state := d2\<lparr>last_ch_active := ch_active d2, seq_ctr := tmp, force_reseq := False\<rparr>\<rparr>) }
           else Some a })"

definition adc_setup_channel :: "adc_env \<Rightarrow> nat \<Rightarrow> u8 \<Rightarrow> adc \<Rightarrow> (platform_status \<times> adc) option" where
  "adc_setup_channel env n logcount a =
     do { s \<leftarrow> adc_get_ch_state n a;
          let cfg = ad_cfg env;
          let req = push_bit (unat logcount) 1;
          let (res, bs) = (if unat (req :: u32) \<noteq> buf_get_size cfg BUF_ID_ADC n (adc_bufs a)
                           then (case buf_set cfg (ad_realloc env) BUF_ID_ADC n logcount BUF_DSIZE_U16 (adc_bufs a) of
                                   (st, bs) \<Rightarrow> (st, if st = PLATFORM_OK then buf_flush cfg BUF_ID_ADC n bs else bs))
                           else (PLATFORM_OK, adc_bufs a));
          Some (if res \<noteq> PLATFORM_OK then (res, a\<lparr>adc_bufs := bs\<rparr>)
                else (PLATFORM_OK, (put_ch n (s\<lparr>reqsamples := ucast req, op_pending := True\<rparr>) a)
                  \<lparr>adc_bufs := bs, adc_dev_state := ACTIVATE_CHANNEL n (adc_dev_state a)\<rparr>)) }"

definition adc_init_ch_state :: "adc_env \<Rightarrow> nat \<Rightarrow> adc \<Rightarrow> adc option" where
  "adc_init_ch_state env n a =
     do { s \<leftarrow> adc_get_ch_state n a;
          Some (platform_adc_set_clock env n
            ((put_ch n (s\<lparr>op_pending := False, blocking := True, smooth_ready := False, reqsamples := 0, freerunning := False, ch_id := n,
                logsmoothlen := 0, smoothidx := 0, smoothsum := 0\<rparr>) a)
              \<lparr>adc_dev_state := INACTIVATE_CHANNEL n (adc_dev_state a),
                adc_bufs := snd (buf_set (ad_cfg env) (ad_realloc env) BUF_ID_ADC n (ADC_BUF_SIZE env) BUF_DSIZE_U16 (adc_bufs a))\<rparr>)) }"

definition adc_init_dev_state :: "adc \<Rightarrow> adc" where
  "adc_init_dev_state a = a\<lparr>adc_dev_state := (adc_dev_state a)\<lparr>seq_id := 0, running := False, ch_active := 0, last_ch_active := 0,
     force_reseq := False, skip_cycle := False\<rparr>\<rparr>"

section \<open>Smoothing\<close>

definition SMOOTH_REALSIZE :: "elua_adc_ch_state \<Rightarrow> nat" where
  "SMOOTH_REALSIZE s = push_bit (unat (logsmoothlen s)) 1"

text \<open>The zeros are written through the pointer without a test.\<close>

definition flush_smoothing :: "elua_adc_ch_state \<Rightarrow> elua_adc_ch_state option" where
  "flush_smoothing s =
     (let s1 = s\<lparr>smoothidx := 0, smoothsum := 0, smooth_ready := False\<rparr> in
      if logsmoothlen s > 0
      then do { b \<leftarrow> smoothbuf s; b1 \<leftarrow> blit b 0 (replicate (duff_device_8 (SMOOTH_REALSIZE s)) 0); Some (s1\<lparr>smoothbuf := Some b1\<rparr>) }
      else Some s1)"

definition adc_flush_smoothing :: "nat \<Rightarrow> adc \<Rightarrow> adc option" where
  "adc_flush_smoothing n a = do { s \<leftarrow> adc_get_ch_state n a; s1 \<leftarrow> flush_smoothing s; Some (put_ch n s1 a) }"

definition adc_update_smoothing :: "adc_env \<Rightarrow> nat \<Rightarrow> u8 \<Rightarrow> adc \<Rightarrow> (platform_status \<times> adc) option" where
  "adc_update_smoothing env n loglen a =
     do { s0 \<leftarrow> adc_get_ch_state n a;
          let a1 = (if op_pending s0 then platform_adc_stop env n a else a);
          s \<leftarrow> adc_get_ch_state n a1;
          let (ok, s1) = (if loglen \<noteq> logsmoothlen s
                          then let s1 = s\<lparr>logsmoothlen := loglen\<rparr> in
                            (case ad_smooth_realloc env (smoothbuf s1) (SMOOTH_REALSIZE s1) of
                               None \<Rightarrow> (loglen = 0, s1\<lparr>smoothbuf := None, logsmoothlen := 0, smoothidx := 0, smooth_ready := False, smoothsum := 0\<rparr>)
                             | Some b \<Rightarrow> (True, s1\<lparr>smoothbuf := Some b\<rparr>))
                          else (True, s));
          if \<not> ok then Some (PLATFORM_ERR, put_ch n s1 a1)
          else do { a2 \<leftarrow> adc_flush_smoothing n (put_ch n s1 a1);
                    Some (PLATFORM_OK, a2\<lparr>adc_bufs := buf_flush (ad_cfg env) BUF_ID_ADC n (adc_bufs a2)\<rparr>) } }"

text \<open>The next sample: the fresh value or the oldest one of the buffer. \<open>none\<close> is the value of the variable when the buffer is empty.\<close>

definition take_sample :: "adc_env \<Rightarrow> nat \<Rightarrow> u16 option \<Rightarrow> elua_adc_ch_state \<Rightarrow> adc \<Rightarrow> (u16 \<times> elua_adc_ch_state \<times> adc) option" where
  "take_sample env n none s a =
     (if value_fresh s
      then do { p \<leftarrow> value_ptr s;
                if p < length (sample_buf (adc_dev_state a)) then Some (sample_buf (adc_dev_state a) ! p, s\<lparr>value_fresh := False\<rparr>, a) else None }
      else do { (st, bs, bufs) \<leftarrow> buf_read (ad_cfg env) BUF_ID_ADC n (adc_bufs a);
                x \<leftarrow> (if st = PLATFORM_OK then Some (load_u16 (big_endian env) bs) else none);
                Some (x, s, a\<lparr>adc_bufs := bufs\<rparr>) })"

definition adc_smooth_data :: "adc_env \<Rightarrow> nat \<Rightarrow> adc \<Rightarrow> adc option" where
  "adc_smooth_data env n a =
     do { s \<leftarrow> adc_get_ch_state n a;
          let s1 = (if unat (smoothidx s) = SMOOTH_REALSIZE s then s\<lparr>smoothidx := 0, smooth_ready := True\<rparr> else s);
          b \<leftarrow> smoothbuf s1;
          if unat (smoothidx s1) < length b
          then do { (x, s2, a2) \<leftarrow> take_sample env n None (s1\<lparr>smoothsum := smoothsum s1 - ucast (b ! unat (smoothidx s1))\<rparr>) a;
                    Some (put_ch n (s2\<lparr>smoothbuf := Some (b[unat (smoothidx s1) := x]), smoothsum := smoothsum s2 + ucast x,
                      smoothidx := smoothidx s1 + 1\<rparr>) a2) }
          else None }"

section \<open>Samples\<close>

definition adc_samples_requested :: "nat \<Rightarrow> adc \<Rightarrow> u16 option" where
  "adc_samples_requested n a = map_option reqsamples (adc_get_ch_state n a)"

definition adc_samples_available :: "adc_env \<Rightarrow> nat \<Rightarrow> adc \<Rightarrow> u16 option" where
  "adc_samples_available env n a =
     do { s \<leftarrow> adc_get_ch_state n a;
          let buffer_count = buf_get_count (ad_cfg env) BUF_ID_ADC n (adc_bufs a);
          Some (if buffer_count = 0 then (if value_fresh s then 1 else 0) else buffer_count) }"

definition one_sample_less :: "elua_adc_ch_state \<Rightarrow> elua_adc_ch_state" where
  "one_sample_less s = (if reqsamples s > 0 then s\<lparr>reqsamples := reqsamples s - 1\<rparr> else s)"

definition adc_get_processed_sample :: "adc_env \<Rightarrow> nat \<Rightarrow> adc \<Rightarrow> (u16 \<times> adc) option" where
  "adc_get_processed_sample env n a =
     do { s \<leftarrow> adc_get_ch_state n a;
          avail \<leftarrow> adc_samples_available env n a;
          if avail > 0 \<and> logsmoothlen s > 0 \<and> smooth_ready s
          then do { a1 \<leftarrow> adc_smooth_data env n a;
                    s1 \<leftarrow> adc_get_ch_state n a1;
                    let s2 = one_sample_less s1;
                    Some (ucast (drop_bit (unat (logsmoothlen s2)) (smoothsum s2)), put_ch n s2 a1) }
          else if avail > 0 \<and> logsmoothlen s = 0
          then do { (x, s1, a1) \<leftarrow> take_sample env n (Some 0) s a; Some (x, put_ch n (one_sample_less s1) a1) }
          else Some (0, a) }"

text \<open>Waiting: the interrupt handlers that run between two tests of the loop; without another interrupt it waits for ever.\<close>

fun wait_loop :: "adc_env \<Rightarrow> nat \<Rightarrow> nat \<Rightarrow> (adc \<Rightarrow> adc) list \<Rightarrow> adc \<Rightarrow> adc option" where
  "wait_loop env n samples isrs a =
     do { s \<leftarrow> adc_get_ch_state n a;
          avail \<leftarrow> adc_samples_available env n a;
          if op_pending s \<and> unat avail < samples
          then (case isrs of [] \<Rightarrow> None | isr # rest \<Rightarrow> wait_loop env n samples rest (isr a))
          else Some a }"

definition adc_wait_samples :: "adc_env \<Rightarrow> nat \<Rightarrow> nat \<Rightarrow> (adc \<Rightarrow> adc) list \<Rightarrow> adc \<Rightarrow> (u16 \<times> adc) option" where
  "adc_wait_samples env n samples isrs a =
     do { s \<leftarrow> adc_get_ch_state n a;
          avail \<leftarrow> adc_samples_available env n a;
          a1 \<leftarrow> (if unat avail < samples \<and> blocking s then wait_loop env n samples isrs a else Some a);
          res \<leftarrow> adc_samples_available env n a1;
          Some (res, a1) }"

section \<open>The smoothing filter\<close>

text \<open>The last \<open>n\<close> samples, with zeros before the first one.\<close>

definition window :: "nat \<Rightarrow> u16 list \<Rightarrow> u16 list" where
  "window n xs = drop (length xs) (replicate n 0 @ xs)"

definition window_sum :: "nat \<Rightarrow> u16 list \<Rightarrow> nat" where
  "window_sum n xs = sum_list (map unat (window n xs))"

text \<open>\<open>xs\<close> are the samples since the filter was flushed.\<close>

definition smooth_inv :: "u16 list \<Rightarrow> elua_adc_ch_state \<Rightarrow> bool" where
  "smooth_inv xs s \<longleftrightarrow> 0 < unat (logsmoothlen s) \<and> unat (logsmoothlen s) \<le> 15 \<and> unat (smoothidx s) \<le> SMOOTH_REALSIZE s
     \<and> (\<exists>b. smoothbuf s = Some b \<and> length b = SMOOTH_REALSIZE s \<and> smoothsum s = of_nat (sum_list (map unat b))
          \<and> drop (unat (smoothidx s)) b @ take (unat (smoothidx s)) b = window (SMOOTH_REALSIZE s) xs)
     \<and> (if smooth_ready s then SMOOTH_REALSIZE s \<le> length xs else unat (smoothidx s) = length xs)"

lemma length_window [simp]: "length (window n xs) = n"
  by (simp add: window_def)

lemma window_snoc: "0 < n \<Longrightarrow> window n (xs @ [x]) = tl (window n xs) @ [x]"
proof -
  assume "0 < n"
  have "drop (Suc (length xs)) (replicate n 0 @ xs) = tl (drop (length xs) (replicate n 0 @ xs))" by (simp only: drop_Suc tl_drop)
  moreover have "drop (Suc (length xs)) ((replicate n 0 @ xs) @ [x]) = drop (Suc (length xs)) (replicate n 0 @ xs) @ [x]" using \<open>0 < n\<close> by simp
  ultimately show ?thesis unfolding window_def by simp
qed

lemma smooth_size: "SMOOTH_REALSIZE s = 2 ^ unat (logsmoothlen s)"
  by (simp add: SMOOTH_REALSIZE_def)

lemma smooth_size_bound: "unat (logsmoothlen s) \<le> 15 \<Longrightarrow> SMOOTH_REALSIZE s \<le> 32768"
proof -
  assume "unat (logsmoothlen s) \<le> 15"
  then have "(2 :: nat) ^ unat (logsmoothlen s) \<le> 2 ^ 15" by (rule power_increasing) simp
  then show ?thesis by (simp add: smooth_size)
qed

lemma sample_sum_bound: "sum_list (map unat (b :: u16 list)) \<le> length b * 65535"
proof (induction b)
  case (Cons x b)
  have "unat x < 2 ^ LENGTH(16)" by (rule unsigned_less)
  then show ?case using Cons by simp
qed simp

lemma window_sum_split: "drop i b @ take i b = window n xs \<Longrightarrow> sum_list (map unat b) = window_sum n xs"
proof -
  assume "drop i b @ take i b = window n xs"
  then have "window_sum n xs = sum_list (map unat (take i b)) + sum_list (map unat (drop i b))" by (simp add: window_sum_def flip: \<open>_ = window n xs\<close>)
  also have "\<dots> = sum_list (map unat (take i b @ drop i b))" by (simp only: map_append sum_list_append)
  finally show ?thesis by simp
qed

lemma ucast_sample: "(ucast (x :: u16) :: u32) = of_nat (unat x)"
  by simp

lemma sum_replaced:
  assumes "i < length b"
  shows "of_nat (sum_list (map unat (b :: u16 list))) - ucast (b ! i) + ucast x = (of_nat (sum_list (map unat (b[i := x]))) :: u32)"
proof -
  have "sum_list (map unat (b[i := x])) + unat (b ! i) = sum_list (map unat b) + unat x"
    using assms member_le_sum_list[of "unat (b ! i)" "map unat b"] by (simp add: map_update sum_list_update)
  then have "(of_nat (sum_list (map unat (b[i := x]))) :: u32) + of_nat (unat (b ! i)) = of_nat (sum_list (map unat b)) + of_nat (unat x)"
    by (metis of_nat_add)
  then show ?thesis unfolding ucast_sample by (simp add: algebra_simps)
qed

text \<open>One call of the filter with the sample \<open>x\<close>.\<close>

lemma smooth_step:
  assumes inv: "smooth_inv xs s" and ch: "adc_get_ch_state n a = Some s"
    and take: "\<And>t. value_fresh t = value_fresh s \<Longrightarrow> value_ptr t = value_ptr s \<Longrightarrow> take_sample env n None t a = Some (x, t\<lparr>value_fresh := False\<rparr>, a')"
    and same: "adc_ch_state a' = adc_ch_state a"
  shows "\<exists>s'. adc_smooth_data env n a = Some (put_ch n s' a') \<and> smooth_inv (xs @ [x]) s' \<and> (smooth_ready s' \<longleftrightarrow> smooth_ready s \<or> unat (smoothidx s) = SMOOTH_REALSIZE s)
    \<and> logsmoothlen s' = logsmoothlen s \<and> value_fresh s' = False \<and> value_ptr s' = value_ptr s \<and> reqsamples s' = reqsamples s"
proof -
  let ?N = "SMOOTH_REALSIZE s"
  have N: "0 < ?N" "?N \<le> 32768" using inv smooth_size_bound[of s] by (simp_all add: smooth_inv_def smooth_size)
  obtain b where b: "smoothbuf s = Some b" "length b = ?N" "smoothsum s = of_nat (sum_list (map unat b))"
      "drop (unat (smoothidx s)) b @ take (unat (smoothidx s)) b = window ?N xs"
    using inv by (auto simp: smooth_inv_def)
  define wrapped where "wrapped \<longleftrightarrow> unat (smoothidx s) = ?N"
  define s1 where "s1 = (if wrapped then s\<lparr>smoothidx := 0, smooth_ready := True\<rparr> else s)"
  define i where "i = unat (smoothidx s1)"
  have i: "i < ?N" using inv N(1) by (auto simp: i_def s1_def wrapped_def smooth_inv_def)
  have rot: "drop i b @ take i b = window ?N xs" using b(2,4) by (auto simp: i_def s1_def wrapped_def)
  have s1: "smoothbuf s1 = Some b" "smoothsum s1 = smoothsum s" "SMOOTH_REALSIZE s1 = ?N" "value_fresh s1 = value_fresh s" "value_ptr s1 = value_ptr s"
      "logsmoothlen s1 = logsmoothlen s" "reqsamples s1 = reqsamples s"
    using b(1) by (simp_all add: s1_def SMOOTH_REALSIZE_def)
  define s2 where "s2 = s1\<lparr>smoothsum := smoothsum s1 - ucast (b ! i), value_fresh := False\<rparr>"
  define s' where "s' = s2\<lparr>smoothbuf := Some (b[i := x]), smoothsum := smoothsum s2 + ucast x, smoothidx := smoothidx s1 + 1\<rparr>"
  have tk: "take_sample env n None (s1\<lparr>smoothsum := smoothsum s1 - ucast (b ! i)\<rparr>) a = Some (x, s2, a')"
    using take[of "s1\<lparr>smoothsum := smoothsum s1 - ucast (b ! i)\<rparr>"] s1(4,5) by (simp add: s2_def)
  have r: "adc_smooth_data env n a = Some (put_ch n s' a')"
    using ch b(1,2) i tk by (simp add: adc_smooth_data_def wrapped_def[symmetric] s1_def[symmetric] s1(1) i_def[symmetric] s'_def)
  have idx: "unat (smoothidx s1 + 1) = Suc i"
    using i N(2) u16_suc[of "smoothidx s1"] by (simp add: i_def)
  have rot': "drop (Suc i) (b[i := x]) @ take (Suc i) (b[i := x]) = window ?N (xs @ [x])"
  proof -
    have "take (Suc i) (b[i := x]) = take i b @ [x]" using i b(2) by (simp add: take_Suc_conv_app_nth)
    moreover have "drop (Suc i) b @ take i b = tl (drop i b @ take i b)" using i b(2) by (simp add: tl_append drop_Suc tl_drop split: list.split) (metis list.sel(3) tl_drop drop_Suc)
    ultimately show ?thesis using window_snoc[OF N(1)] rot by simp
  qed
  have s': "SMOOTH_REALSIZE s' = ?N" "logsmoothlen s' = logsmoothlen s" "unat (smoothidx s') = Suc i" "smoothbuf s' = Some (b[i := x])"
      "smooth_ready s' = smooth_ready s1" "smoothsum s' = of_nat (sum_list (map unat (b[i := x])))"
    using s1 idx sum_replaced[of i b x] i b(2,3) by (simp_all add: s'_def s2_def SMOOTH_REALSIZE_def)
  have ready: "if smooth_ready s1 then ?N \<le> Suc (length xs) else Suc i = Suc (length xs)"
    using inv by (auto simp: s1_def i_def wrapped_def smooth_inv_def split: if_splits)
  have "smooth_inv (xs @ [x]) s'"
    using inv i b(2) rot' ready unfolding smooth_inv_def s' by auto
  moreover have "smooth_ready s' \<longleftrightarrow> smooth_ready s \<or> unat (smoothidx s) = ?N" by (auto simp: s'_def s2_def s1_def wrapped_def)
  ultimately show ?thesis using r s1 by (auto simp: s'_def s2_def)
qed

section \<open>Reading samples\<close>

definition adc_buf :: "nat \<Rightarrow> adc \<Rightarrow> buf_desc" where
  "adc_buf n a = adc_bufs a BUF_ID_ADC n"

definition put_buf :: "nat \<Rightarrow> buf_desc \<Rightarrow> adc \<Rightarrow> adc" where
  "put_buf n d a = a\<lparr>adc_bufs := (adc_bufs a)(BUF_ID_ADC := (adc_bufs a BUF_ID_ADC)(n := d))\<rparr>"

text \<open>The buffer of a channel holds the samples \<open>ys\<close>.\<close>

definition holds_samples :: "adc_env \<Rightarrow> nat \<Rightarrow> u16 list \<Rightarrow> adc \<Rightarrow> bool" where
  "holds_samples env n ys a \<longleftrightarrow> buf_inv (adc_buf n a) \<and> logdsize (adc_buf n a) = BUF_DSIZE_U16
     \<and> buf_elems (adc_buf n a) = map (store_u16 (big_endian env)) ys"

lemma load_store_u16: "load_u16 big (store_u16 big x) = x"
  by (rule bit_word_eqI) (auto simp: load_u16_def store_u16_def bit_simps)

lemma take_buffered:
  assumes h: "holds_samples env n (y # ys) a"
  shows "\<exists>d. (\<forall>t none. value_fresh t = False \<longrightarrow> take_sample env n none t a = Some (y, t\<lparr>value_fresh := False\<rparr>, put_buf n d a)) \<and> holds_samples env n ys (put_buf n d a)"
proof -
  have inv: "buf_inv (adc_buf n a)" and "buf_elems (adc_buf n a) = store_u16 (big_endian env) y # map (store_u16 (big_endian env)) ys"
    and ds: "logdsize (adc_buf n a) = BUF_DSIZE_U16" using h by (simp_all add: holds_samples_def)
  then have "count (adc_buf n a) \<noteq> 0" using length_buf_elems[of "adc_buf n a"] by auto
  from buf_read_step[OF inv this] obtain x d where
    d: "buf_read_desc (adc_buf n a) = Some (PLATFORM_OK, x, d)" "buf_inv d" "buf_elems (adc_buf n a) = x # buf_elems d" "logdsize d = logdsize (adc_buf n a)"
    by metis
  have x: "x = store_u16 (big_endian env) y" "buf_elems d = map (store_u16 (big_endian env)) ys" using d(3) h by (simp_all add: holds_samples_def)
  have "take_sample env n none t a = Some (y, t\<lparr>value_fresh := False\<rparr>, put_buf n d a)" if "value_fresh t = False" for t none
  proof -
    have "t\<lparr>value_fresh := False\<rparr> = t" using that by (cases t) simp
    then show ?thesis
      using that d(1) by (simp add: take_sample_def buf_read_def bufh_check_resnum_def adc_buf_def[symmetric] put_buf_def x(1) load_store_u16)
  qed
  moreover have "holds_samples env n ys (put_buf n d a)"
    using d(2,4) ds x(2) by (simp add: holds_samples_def put_buf_def adc_buf_def)
  ultimately show ?thesis by blast
qed

lemma samples_there:
  assumes "holds_samples env n (y # ys) a" "adc_get_ch_state n a = Some s"
  shows "\<exists>k. adc_samples_available env n a = Some k \<and> 0 < k"
proof -
  have "length (buf_elems (adc_buf n a)) = Suc (length ys)" using assms(1) by (simp add: holds_samples_def del: length_buf_elems)
  then have "count (adc_buf n a) \<noteq> 0" by auto
  then show ?thesis using assms(2) by (simp add: adc_samples_available_def buf_get_count_def bufh_check_resnum_def adc_buf_def word_gt_0)
qed

lemma average_value:
  assumes "smooth_inv xs s"
  shows "unat (ucast (drop_bit (unat (logsmoothlen s)) (smoothsum s)) :: u16) = window_sum (SMOOTH_REALSIZE s) xs div SMOOTH_REALSIZE s"
proof -
  let ?N = "SMOOTH_REALSIZE s"
  obtain b where b: "length b = ?N" "smoothsum s = of_nat (sum_list (map unat b))" "drop (unat (smoothidx s)) b @ take (unat (smoothidx s)) b = window ?N xs"
    and n: "unat (logsmoothlen s) \<le> 15" using assms by (auto simp: smooth_inv_def)
  have N: "?N \<le> 32768" "0 < ?N" using smooth_size_bound[OF n] by (simp_all add: smooth_size)
  have S: "sum_list (map unat b) = window_sum ?N xs" using window_sum_split[OF b(3)] .
  have le: "window_sum ?N xs \<le> ?N * 65535" using sample_sum_bound[of b] S b(1) by simp
  then have "window_sum ?N xs < 2 ^ 32" using N(1) by simp
  then have u: "unat (smoothsum s) = window_sum ?N xs" using b(2) S by (simp add: unat_of_nat)
  have q: "window_sum ?N xs div ?N \<le> 65535" using le N(2) by (metis div_le_mono nonzero_mult_div_cancel_left not_less_zero)
  have "unat (drop_bit (unat (logsmoothlen s)) (smoothsum s)) = window_sum ?N xs div ?N" 
    unfolding unat_drop_bit_eq u smooth_size by (rule drop_bit_eq_div)
  then show ?thesis using q by (simp add: unsigned_ucast_eq take_bit_nat_eq_self)
qed

text \<open>One sample after the filter has warmed up.\<close>

lemma processed_sample:
  assumes ch: "adc_get_ch_state n a = Some s" "smooth_inv xs s" "smooth_ready s" "\<not> value_fresh s" and h: "holds_samples env n (y # ys) a"
  shows "\<exists>v a' s'. adc_get_processed_sample env n a = Some (v, a') \<and> unat v = window_sum (SMOOTH_REALSIZE s) (xs @ [y]) div SMOOTH_REALSIZE s
    \<and> adc_get_ch_state n a' = Some s' \<and> smooth_inv (xs @ [y]) s' \<and> smooth_ready s' \<and> \<not> value_fresh s' \<and> logsmoothlen s' = logsmoothlen s
    \<and> reqsamples s' = (if reqsamples s > 0 then reqsamples s - 1 else 0) \<and> holds_samples env n ys a'"
proof -
  obtain k where k: "adc_samples_available env n a = Some k" "0 < k" using samples_there[OF h ch(1)] by blast
  obtain d where d: "\<And>t. value_fresh t = False \<Longrightarrow> take_sample env n None t a = Some (y, t\<lparr>value_fresh := False\<rparr>, put_buf n d a)" "holds_samples env n ys (put_buf n d a)"
    using take_buffered[OF h] by blast
  obtain s1 where s1: "adc_smooth_data env n a = Some (put_ch n s1 (put_buf n d a))" "smooth_inv (xs @ [y]) s1" "smooth_ready s1" "logsmoothlen s1 = logsmoothlen s"
      "value_fresh s1 = False" "reqsamples s1 = reqsamples s"
    using smooth_step[OF ch(2,1), of env y "put_buf n d a"] d(1) ch(3,4) by (auto simp: put_buf_def)
  define s2 where "s2 = one_sample_less s1"
  have n: "n < length (adc_ch_state a)" using ch(1) by (auto simp: adc_get_ch_state_def split: if_splits)
  have g: "adc_get_ch_state n (put_ch n t (put_buf n d a)) = Some t" for t using n by (simp add: adc_get_ch_state_def put_ch_def put_buf_def)
  have s2: "smooth_inv (xs @ [y]) s2" "smooth_ready s2" "logsmoothlen s2 = logsmoothlen s" "\<not> value_fresh s2" "SMOOTH_REALSIZE s2 = SMOOTH_REALSIZE s"
      "reqsamples s2 = (if reqsamples s > 0 then reqsamples s - 1 else 0)"
    using s1 by (simp_all add: s2_def one_sample_less_def smooth_inv_def SMOOTH_REALSIZE_def word_gt_0)
  have gs: "logsmoothlen s > 0" using ch(2) by (auto simp: smooth_inv_def word_gt_0 unat_gt_0)
  have "adc_get_processed_sample env n a = Some (ucast (drop_bit (unat (logsmoothlen s2)) (smoothsum s2)), put_ch n s2 (put_ch n s1 (put_buf n d a)))"
    using ch(1,3) k gs s1(1) g by (simp add: adc_get_processed_sample_def s2_def[symmetric])
  moreover have "put_ch n s2 (put_ch n s1 (put_buf n d a)) = put_ch n s2 (put_buf n d a)" by (simp add: put_ch_def)
  moreover have "holds_samples env n ys (put_ch n s2 (put_buf n d a))" using d(2) by (simp add: holds_samples_def adc_buf_def put_ch_def)
  ultimately show ?thesis using average_value[OF s2(1)] s2 g[of s2] by auto
qed

text \<open>Reading several samples one after the other.\<close>

fun read_samples :: "adc_env \<Rightarrow> nat \<Rightarrow> nat \<Rightarrow> adc \<Rightarrow> (u16 list \<times> adc) option" where
  "read_samples env n 0 a = Some ([], a)"
| "read_samples env n (Suc k) a = do { (v, a1) \<leftarrow> adc_get_processed_sample env n a; (vs, a2) \<leftarrow> read_samples env n k a1; Some (v # vs, a2) }"

fun moving_averages :: "nat \<Rightarrow> u16 list \<Rightarrow> u16 list \<Rightarrow> nat list" where
  "moving_averages n xs [] = []"
| "moving_averages n xs (y # ys) = window_sum n (xs @ [y]) div n # moving_averages n (xs @ [y]) ys"

section \<open>Properties\<close>

text \<open>C23: Once the smoothing filter has warmed up, reading the samples that wait in the buffer of a channel returns their moving
  averages: each value is the sum of the last \<open>2^n\<close> samples, the new one included, divided by \<open>2^n\<close> and rounded down, although the
  filter only keeps a ring and adjusts its sum; nothing overflows. Every sample is used once, in the order of arrival.\<close>

theorem adc_moving_average:
  assumes "adc_get_ch_state n a = Some s" "smooth_inv xs s" "smooth_ready s" "\<not> value_fresh s" "holds_samples env n (ys @ zs) a"
  shows "\<exists>vs a' s'. read_samples env n (length ys) a = Some (vs, a') \<and> map unat vs = moving_averages (2 ^ unat (logsmoothlen s)) xs ys
    \<and> adc_get_ch_state n a' = Some s' \<and> smooth_inv (xs @ ys) s' \<and> smooth_ready s' \<and> holds_samples env n zs a'"
  using assms
proof (induction ys arbitrary: xs a s)
  case Nil
  then show ?case by auto
next
  case (Cons y ys)
  obtain v a1 s1 where 1: "adc_get_processed_sample env n a = Some (v, a1)" "unat v = window_sum (SMOOTH_REALSIZE s) (xs @ [y]) div SMOOTH_REALSIZE s"
      "adc_get_ch_state n a1 = Some s1" "smooth_inv (xs @ [y]) s1" "smooth_ready s1" "\<not> value_fresh s1" "logsmoothlen s1 = logsmoothlen s" "holds_samples env n (ys @ zs) a1"
    using processed_sample[OF Cons.prems(1-4), of env y "ys @ zs"] Cons.prems(5) by auto
  from Cons.IH[OF 1(3-6,8)] show ?case using 1 by (auto simp: smooth_size)
qed

section \<open>The sequence of channels\<close>

text \<open>The channel numbers are those of their states and have an element in the sample buffer.\<close>

definition channels_ok :: "nat \<Rightarrow> adc \<Rightarrow> bool" where
  "channels_ok num a \<longleftrightarrow> length (adc_ch_state a) = num \<and> length (sample_buf (adc_dev_state a)) = num \<and> (\<forall>n < num. ch_id (adc_ch_state a ! n) = n)"

lemma active_bit: "(0 < x AND 2 ^ n) = bit x n" for x :: u32
  using and_exp_eq_0_iff_not_bit[of x n] by (simp add: word_gt_0)

definition put_seq :: "nat option list \<Rightarrow> nat \<Rightarrow> elua_adc_dev_state \<Rightarrow> elua_adc_dev_state" where
  "put_seq cs c d = d\<lparr>ch_state := cs, seq_ctr := of_nat c\<rparr>"

text \<open>Where the current channel \<open>p\<close> is found in the part of the sequence that starts at \<open>c\<close>.\<close>

definition seq_pos :: "nat \<Rightarrow> nat list \<Rightarrow> nat \<Rightarrow> u8 \<Rightarrow> u8 \<Rightarrow> bool" where
  "seq_pos p act c tmp tmp' = (if p \<in> set act then \<exists>i < length act. act ! i = p \<and> tmp' = of_nat (c + i) else tmp' = tmp)"

lemma reseq_active:
  assumes ok: "channels_ok num a" "n < num" and d: "adc_dev_state a = put_seq cs c d" "c < length cs" "c < 256" and act: "bit (ch_active d) n"
  shows "\<exists>a'. reseq_channel previd n (tmp, a) = Some (if n = previd then of_nat c else tmp, a') \<and> adc_dev_state a' = put_seq (cs[c := Some n]) (Suc c) d \<and> channels_ok num a'"
proof -
  define s where "s = adc_ch_state a ! n"
  have s: "adc_get_ch_state n a = Some s" "ch_id s = n" "n < length (sample_buf d)"
    using ok d(1) by (simp_all add: channels_ok_def adc_get_ch_state_def s_def put_seq_def)
  have c: "unat (of_nat c :: u8) = c" using d(3) by (simp add: unat_of_nat)
  let ?a = "(put_ch n (s\<lparr>value_ptr := Some n, value_fresh := False\<rparr>) a)\<lparr>adc_dev_state := put_seq (cs[c := Some n]) (Suc c) d\<rparr>"
  have "reseq_channel previd n (tmp, a) = Some (if n = previd then of_nat c else tmp, ?a)"
    using act s d(2) c by (simp add: reseq_channel_def d(1) Let_def active_bit) (auto simp: put_seq_def add.commute)
  moreover have "channels_ok num ?a"
    using ok d(1) s(2) by (auto simp: channels_ok_def put_ch_def put_seq_def nth_list_update)
  ultimately show ?thesis by auto
qed

lemma reseq_all:
  assumes "channels_ok num a" "\<forall>n \<in> set ns. n < num" "adc_dev_state a = put_seq cs c d"
    "c + length (filter (bit (ch_active d)) ns) \<le> length cs" "length cs < 256" "distinct ns"
  defines "act \<equiv> filter (bit (ch_active d)) ns"
  shows "\<exists>tmp' a'. reseq_channels previd ns (tmp, a) = Some (tmp', a') \<and> adc_dev_state a' = put_seq (take c cs @ map Some act @ drop (c + length act) cs) (c + length act) d
    \<and> channels_ok num a' \<and> seq_pos previd act c tmp tmp'"
  using assms(1-6) unfolding act_def
proof (induction ns arbitrary: tmp a cs c)
  case Nil
  then show ?case by (simp add: seq_pos_def)
next
  case (Cons n ns)
  let ?act = "filter (bit (ch_active d))"
  show ?case
  proof (cases "bit (ch_active d) n")
    case False
    then have "reseq_channel previd n (tmp, a) = Some (tmp, a)" using Cons.prems(3) by (simp add: reseq_channel_def active_bit put_seq_def Let_def)
    then show ?thesis using Cons.IH[of a cs c tmp] Cons.prems False by auto
  next
    case True
    let ?tmp = "if n = previd then of_nat c else tmp"
    have c: "c < length cs" "c < 256" using Cons.prems(4,5) True by simp_all
    obtain a1 where a1: "reseq_channel previd n (tmp, a) = Some (?tmp, a1)" "adc_dev_state a1 = put_seq (cs[c := Some n]) (Suc c) d" "channels_ok num a1"
      using reseq_active[OF Cons.prems(1) _ Cons.prems(3) c True, of previd tmp] Cons.prems(2) by auto
    obtain tmp' a' where a': "reseq_channels previd ns (?tmp, a1) = Some (tmp', a')"
        "adc_dev_state a' = put_seq (take (Suc c) (cs[c := Some n]) @ map Some (?act ns) @ drop (Suc c + length (?act ns)) (cs[c := Some n])) (Suc c + length (?act ns)) d"
        "channels_ok num a'" "seq_pos previd (?act ns) (Suc c) ?tmp tmp'"
      using Cons.IH[OF a1(3) _ a1(2), of ?tmp] Cons.prems(2,4,5,6) True by auto
    have seq: "take (Suc c) (cs[c := Some n]) @ map Some (?act ns) @ drop (Suc c + length (?act ns)) (cs[c := Some n]) =
        take c cs @ map Some (n # ?act ns) @ drop (c + length (n # ?act ns)) cs"
      using c(1) by (simp add: take_Suc_conv_app_nth)
    have "seq_pos previd (n # ?act ns) c tmp tmp'"
    proof (cases "previd \<in> set (?act ns)")
      case True
      then obtain i where "i < length (?act ns)" "?act ns ! i = previd" "tmp' = of_nat (Suc c + i)" using a'(4) by (auto simp: seq_pos_def)
      then show ?thesis using True by (auto simp: seq_pos_def intro!: exI[of _ "Suc i"])
    next
      case False
      then show ?thesis using a'(4) by (auto simp: seq_pos_def intro!: exI[of _ 0])
    qed
    then show ?thesis using a1(1) a'(1-3) True unfolding seq by simp
  qed
qed

text \<open>After the set of active channels has changed, the sequence lists exactly the active channels in increasing order, followed by
  NULL, the length is their number and the converter goes on with the channel it had come to, or with the first one if that is not active any
  more. The driver's synchronisation is assumed to leave this state alone, and a current channel to be there.\<close>

theorem adc_sequence_rewritten:
  assumes ok: "channels_ok (NUM_ADC env) a" "length (ch_state (adc_dev_state a)) = NUM_ADC env" "NUM_ADC env \<le> 32"
    and cur: "ch_state (adc_dev_state a) ! unat (seq_ctr (adc_dev_state a)) = Some p" "unat (seq_ctr (adc_dev_state a)) < NUM_ADC env" "p < NUM_ADC env"
    and new: "ch_active (adc_dev_state a) \<noteq> last_ch_active (adc_dev_state a) \<or> force_reseq (adc_dev_state a)"
    and hw: "\<And>x. platform_adc_update_sequence env x = x"
  defines "act \<equiv> filter (bit (ch_active (adc_dev_state a))) [0..<NUM_ADC env]"
  shows "\<exists>a' d'. adc_update_dev_sequence env a = Some a' \<and> d' = adc_dev_state a' \<and> ch_state d' = map Some act @ replicate (NUM_ADC env - length act) None
    \<and> unat (seq_len d') = length act \<and> ch_active d' = ch_active (adc_dev_state a) \<and> last_ch_active d' = ch_active d' \<and> \<not> force_reseq d' \<and> channels_ok (NUM_ADC env) a'
    \<and> (if p \<in> set act then ch_state d' ! unat (seq_ctr d') = Some p else seq_ctr d' = 0)"
proof -
  let ?d = "adc_dev_state a" and ?N = "NUM_ADC env"
  have len: "length act \<le> ?N" using length_filter_le[of _ "[0..<?N]"] by (simp add: act_def)
  define a0 where "a0 = a\<lparr>adc_dev_state := ?d\<lparr>seq_ctr := 0\<rparr>\<rparr>"
  have a0: "adc_dev_state a0 = put_seq (ch_state ?d) 0 ?d" "channels_ok ?N a0" using ok(1) by (simp_all add: a0_def put_seq_def channels_ok_def)
  obtain tmp a1 where r: "reseq_channels p [0..<?N] (0, a0) = Some (tmp, a1)"
      "adc_dev_state a1 = put_seq (map Some act @ drop (length act) (ch_state ?d)) (length act) ?d" "channels_ok ?N a1"
      "seq_pos p act 0 0 tmp"
    using reseq_all[OF a0(2) _ a0(1), of "[0..<?N]" p 0] ok(2,3) len unfolding act_def[symmetric] by (simp only: add_0 take_0 append_Nil) auto
  have prev: "map_option ch_id (adc_get_ch_state p a) = Some p" using ok(1) cur(3) by (simp add: channels_ok_def adc_get_ch_state_def)
  have u: "unat (of_nat k :: u8) = k" if "k \<le> ?N" for k using that ok(3) by (simp add: unat_of_nat)
  define a2 where "a2 = a1\<lparr>adc_dev_state := ?d\<lparr>seq_len := of_nat (length act), ch_state := map Some act @ replicate (?N - length act) None,
    last_ch_active := ch_active ?d, seq_ctr := tmp, force_reseq := False\<rparr>\<rparr>"
  have cur': "unat (seq_ctr ?d) < length (ch_state ?d)" using cur(2) ok(2) by simp
  have "adc_update_dev_sequence env a = Some a2"
    using new len ok(2) cur(2) by (simp add: adc_update_dev_sequence_def cur' cur(1) prev a0_def[symmetric] r(1,2) hw Let_def) (simp add: put_seq_def u a2_def)
  moreover have "channels_ok ?N a2" using r(2,3) by (simp add: channels_ok_def a2_def put_seq_def)
  moreover have "if p \<in> set act then (map Some act @ replicate (?N - length act) None) ! unat tmp = Some p else tmp = 0"
  proof (cases "p \<in> set act")
    case True
    then obtain i where "i < length act" "act ! i = p" "tmp = of_nat i" using r(4) by (auto simp: seq_pos_def)
    then show ?thesis using True u[of i] len by (simp add: nth_append)
  qed (use r(4) in \<open>simp add: seq_pos_def\<close>)
  ultimately show ?thesis using u[OF len] by (intro exI[of _ a2] exI[of _ "adc_dev_state a2"]) (simp add: a2_def)
qed

section \<open>Warming up\<close>

lemma flush_starts:
  assumes "0 < unat (logsmoothlen s)" "unat (logsmoothlen s) \<le> 15" "smoothbuf s = Some b" "length b = SMOOTH_REALSIZE s"
  shows "\<exists>s'. flush_smoothing s = Some s' \<and> smooth_inv [] s' \<and> \<not> smooth_ready s' \<and> value_ptr s' = value_ptr s \<and> logsmoothlen s' = logsmoothlen s"
proof -
  have p: "logsmoothlen s > 0" using assms(1) by (simp add: word_gt_0 unat_gt_0)
  have N: "0 < SMOOTH_REALSIZE s" by (simp add: smooth_size)
  have bl: "blit b 0 (replicate (duff_device_8 (SMOOTH_REALSIZE s)) 0) = Some (replicate (SMOOTH_REALSIZE s) 0)"
    using assms(4) N by (simp add: blit_def)
  show ?thesis using assms p bl by (simp add: flush_smoothing_def Let_def smooth_inv_def window_def SMOOTH_REALSIZE_def sum_list_replicate)
qed

text \<open>What the drivers do with a conversion while the filter is not ready: the value is marked as fresh and put through the filter.\<close>

definition sample_arrives :: "adc_env \<Rightarrow> nat \<Rightarrow> u16 \<Rightarrow> adc \<Rightarrow> adc option" where
  "sample_arrives env n y a =
     do { s \<leftarrow> adc_get_ch_state n a;
          p \<leftarrow> value_ptr s;
          adc_smooth_data env n ((put_ch n (s\<lparr>value_fresh := True\<rparr>) a)
            \<lparr>adc_dev_state := (adc_dev_state a)\<lparr>sample_buf := (sample_buf (adc_dev_state a))[p := y]\<rparr>\<rparr>) }"

fun samples_arrive :: "adc_env \<Rightarrow> nat \<Rightarrow> u16 list \<Rightarrow> adc \<Rightarrow> adc option" where
  "samples_arrive env n [] a = Some a"
| "samples_arrive env n (y # ys) a = do { a1 \<leftarrow> sample_arrives env n y a; samples_arrive env n ys a1 }"

definition filtering :: "nat \<Rightarrow> nat \<Rightarrow> u8 \<Rightarrow> u16 list \<Rightarrow> adc \<Rightarrow> bool" where
  "filtering n p lg xs a \<longleftrightarrow> (\<exists>s. adc_get_ch_state n a = Some s \<and> smooth_inv xs s \<and> value_ptr s = Some p \<and> p < length (sample_buf (adc_dev_state a))
     \<and> logsmoothlen s = lg \<and> (smooth_ready s \<longleftrightarrow> 2 ^ unat lg < length xs))"

lemma smooth_inv_fresh: "smooth_inv xs (s\<lparr>value_fresh := v\<rparr>) = smooth_inv xs s"
  by (simp add: smooth_inv_def SMOOTH_REALSIZE_def)

lemma arrive_step:
  assumes f: "filtering n p lg xs a"
  shows "\<exists>a'. sample_arrives env n y a = Some a' \<and> filtering n p lg (xs @ [y]) a'"
proof -
  obtain s where s: "adc_get_ch_state n a = Some s" "smooth_inv xs s" "value_ptr s = Some p" "p < length (sample_buf (adc_dev_state a))" "logsmoothlen s = lg"
      "smooth_ready s \<longleftrightarrow> 2 ^ unat lg < length xs" using f by (auto simp: filtering_def)
  define t where "t = s\<lparr>value_fresh := True\<rparr>"
  define a1 where "a1 = (put_ch n t a)\<lparr>adc_dev_state := (adc_dev_state a)\<lparr>sample_buf := (sample_buf (adc_dev_state a))[p := y]\<rparr>\<rparr>"
  have n: "n < length (adc_ch_state a)" using s(1) by (auto simp: adc_get_ch_state_def split: if_splits)
  have t: "adc_get_ch_state n a1 = Some t" "smooth_inv xs t" using n s(2) smooth_inv_fresh by (simp_all add: a1_def put_ch_def adc_get_ch_state_def t_def)
  have tk: "take_sample env n None u a1 = Some (y, u\<lparr>value_fresh := False\<rparr>, a1)" if "value_fresh u = value_fresh t" "value_ptr u = value_ptr t" for u
    using that s(3,4) by (simp add: take_sample_def t_def a1_def)
  obtain s' where s': "adc_smooth_data env n a1 = Some (put_ch n s' a1)" "smooth_inv (xs @ [y]) s'" "smooth_ready s' \<longleftrightarrow> smooth_ready t \<or> unat (smoothidx t) = SMOOTH_REALSIZE t"
      "logsmoothlen s' = lg" "value_ptr s' = Some p"
    using smooth_step[OF t(2,1) tk] s(3,5) by (auto simp: t_def)
  have extra: "smooth_ready s' = (smooth_ready s \<or> unat (smoothidx s) = SMOOTH_REALSIZE s)" using s'(3) by (simp add: t_def SMOOTH_REALSIZE_def)
  have N: "SMOOTH_REALSIZE s = 2 ^ unat lg" using s(5) by (simp add: smooth_size)
  have "smooth_ready s' \<longleftrightarrow> 2 ^ unat lg < length (xs @ [y])"
    using extra s(2,6) unfolding N[symmetric] by (auto simp: smooth_inv_def split: if_splits)
  then have "filtering n p lg (xs @ [y]) (put_ch n s' a1)"
    using s'(2,4,5) n s(4) by (simp add: filtering_def put_ch_def adc_get_ch_state_def a1_def)
  then show ?thesis using s'(1) s(1,3) by (simp add: sample_arrives_def t_def[symmetric] a1_def[symmetric])
qed

text \<open>Setting a smoothing length of \<open>2^n\<close> clears the filter and the buffer of the channel; from then on every conversion that the driver puts through
  the filter enters its window, and the filter is ready after \<open>2^n + 1\<close> of them, one more than the window holds.\<close>

theorem adc_warm_up:
  assumes ch: "adc_get_ch_state n a = Some s" "\<not> op_pending s" "value_ptr s = Some p" "p < length (sample_buf (adc_dev_state a))"
    and lg: "0 < unat lg" "unat lg \<le> 15" and mem: "\<And>q. \<exists>b. ad_smooth_realloc env q (2 ^ unat lg) = Some b \<and> length b = 2 ^ unat lg"
    and old: "logsmoothlen s = lg \<longrightarrow> (\<exists>b. smoothbuf s = Some b \<and> length b = 2 ^ unat lg)"
  shows "\<exists>a1 a'. adc_update_smoothing env n lg a = Some (PLATFORM_OK, a1) \<and> count (adc_buf n a1) = 0
    \<and> samples_arrive env n ys a1 = Some a' \<and> filtering n p lg ys a'"
proof -
  have arr: "\<exists>a'. samples_arrive env n ys b = Some a' \<and> filtering n p lg (xs @ ys) a'" if "filtering n p lg xs b" for b xs
    using that
  proof (induction ys arbitrary: b xs)
    case (Cons y ys)
    obtain b1 where "sample_arrives env n y b = Some b1" "filtering n p lg (xs @ [y]) b1" using arrive_step[OF Cons.prems] by blast
    then show ?case using Cons.IH[of "xs @ [y]" b1] by auto
  qed simp
  obtain b where b: "ad_smooth_realloc env (smoothbuf s) (2 ^ unat lg) = Some b" "length b = 2 ^ unat lg" using mem by blast
  define s1 where "s1 = (if lg = logsmoothlen s then s else s\<lparr>logsmoothlen := lg, smoothbuf := Some b\<rparr>)"
  have s1: "logsmoothlen s1 = lg" "value_ptr s1 = Some p" "\<exists>b. smoothbuf s1 = Some b \<and> length b = SMOOTH_REALSIZE s1"
    using old b(2) ch(3) by (auto simp: s1_def smooth_size)
  obtain s2 where s2: "flush_smoothing s1 = Some s2" "smooth_inv [] s2" "\<not> smooth_ready s2" "value_ptr s2 = Some p" "logsmoothlen s2 = lg"
    using flush_starts[of s1] lg s1 by auto
  have n: "n < length (adc_ch_state a)" using ch(1) by (auto simp: adc_get_ch_state_def split: if_splits)
  define a1 where "a1 = (put_ch n s2 a)\<lparr>adc_bufs := buf_flush (ad_cfg env) BUF_ID_ADC n (adc_bufs a)\<rparr>"
  have "adc_flush_smoothing n (put_ch n s1 a) = Some (put_ch n s2 a)"
    using n s2(1) by (simp add: adc_flush_smoothing_def adc_get_ch_state_def put_ch_def)
  then have u: "adc_update_smoothing env n lg a = Some (PLATFORM_OK, a1)"
    using ch(1,2) b(1) by (auto simp: adc_update_smoothing_def s1_def smooth_size Let_def a1_def put_ch_def)
  have "filtering n p lg [] a1"
    using s2 n ch(4) by (simp add: filtering_def a1_def put_ch_def adc_get_ch_state_def)
  moreover have "count (adc_buf n a1) = 0" by (simp add: a1_def adc_buf_def buf_flush_def bufh_check_resnum_def)
  ultimately show ?thesis using u arr[of "[]" a1] by auto
qed

section \<open>A converter with two channels\<close>

definition example_ch :: "nat \<Rightarrow> elua_adc_ch_state" where
  "example_ch n = \<lparr>op_pending = False, blocking = True, freerunning = False, smooth_ready = True, value_fresh = False, ch_id = n, logsmoothlen = 1,
     smoothidx = 2, smoothsum = 30, smoothbuf = Some [10, 20], reqsamples = 2, value_ptr = Some n\<rparr>"

definition example_adc :: adc where
  "example_adc = \<lparr>adc_ch_state = [example_ch 0, example_ch 1],
     adc_dev_state = \<lparr>ch_state = [Some 0, None], sample_buf = [0, 0], force_reseq = False, skip_cycle = False, running = False, ch_active = 2, last_ch_active = 1,
       seq_id = 0, seq_ctr = 0, seq_len = 1\<rparr>,
     adc_bufs = (\<lambda>_ _. \<lparr>logsize = 2, logdsize = 1, wptr = 0, rptr = 0, count = 2, buf = Some [30, 0, 50, 0]\<rparr>)\<rparr>"

definition example_adc_env :: adc_env where
  "example_adc_env = \<lparr>ad_cfg = \<lparr>NUM_UART = 1, SERMUX_NUM_VUART = 0, NUM_CDC_UART = 0, SERMUX_PHYS_ID = 0, NUM_TIMER = 1, VTMR_NUM_TIMERS = 0, VTMR_FREQ_HZ = 1,
       PLATFORM_INT_QUEUE_LOG_SIZE = 1, INT_ELUA_LAST = 1, INT_TMR_MATCH = 1, INT_UART_RX = 1\<rparr>, NUM_ADC = 2, ADC_BUF_SIZE = 1, big_endian = False,
     ad_realloc = (\<lambda>_ n. Some (replicate n 0)), ad_smooth_realloc = (\<lambda>_ n. Some (replicate n 0)), ad_null_id = None,
     platform_adc_update_sequence = (\<lambda>a. a), platform_adc_set_clock = (\<lambda>_ a. a), platform_adc_stop = (\<lambda>_ a. a)\<rparr>"

lemma example_adc_ok:
  "adc_get_ch_state 0 example_adc = Some (example_ch 0)" "smooth_inv [10, 20] (example_ch 0)" "holds_samples example_adc_env 0 [30, 50] example_adc"
proof -
  show "adc_get_ch_state 0 example_adc = Some (example_ch 0)" by (simp add: adc_get_ch_state_def example_adc_def)
  have N: "SMOOTH_REALSIZE (example_ch 0) = 2" by (simp add: SMOOTH_REALSIZE_def example_ch_def push_bit_eq_mult)
  have "replicate 2 0 = [0, 0 :: u16]" by (simp add: numeral_2_eq_2)
  then have "window 2 [10, 20] = [10, 20]" by (simp add: window_def)
  then show "smooth_inv [10, 20] (example_ch 0)" unfolding smooth_inv_def N by (simp add: example_ch_def)
  let ?d = "\<lparr>logsize = 2, logdsize = 1, wptr = 0, rptr = 0, count = 2, buf = Some [30, 0, 50, 0]\<rparr> :: buf_desc"
  have sz: "buf_realsize ?d = 2" "buf_realdsize ?d = 2" by (simp_all add: buf_realsize_def buf_realdsize_def push_bit_eq_mult)
  have inv: "buf_inv ?d" 
    unfolding buf_inv_def sz by (intro conjI exI[of _ "[30, 0, 50, 0]"] exI[of _ "0 :: nat"]) simp_all
  have two: "[0..<2] = [0, 1 :: nat]" by (simp add: upt_rec)
  have "buf_elems ?d = [[30, 0], [50, 0]]" unfolding buf_elems_def sz ring_list_def by (simp add: two chunk_def)
  moreover have "adc_buf 0 example_adc = ?d" "big_endian example_adc_env = False" by (simp_all add: adc_buf_def example_adc_def example_adc_env_def)
  moreover have "map (store_u16 False) [30, 50] = [[30, 0], [50, 0]]" by (simp add: store_u16_def drop_bit_eq_div)
  ultimately show "holds_samples example_adc_env 0 [30, 50] example_adc" using inv unfolding holds_samples_def by simp
qed

theorem adc_moving_average_witness:
  "\<exists>vs a'. read_samples example_adc_env 0 2 example_adc = Some (vs, a') \<and> map unat vs = [25, 40]"
proof -
  have two: "replicate 2 0 = [0, 0 :: u16]" by (simp add: numeral_2_eq_2)
  have l: "length [30, 50 :: u16] = 2" "2 ^ unat (logsmoothlen (example_ch 0)) = (2 :: nat)" by (simp_all add: example_ch_def)
  have m: "moving_averages 2 [10, 20] [30, 50] = [25, 40]" by (simp add: window_sum_def window_def two)
  have "smooth_ready (example_ch 0)" "\<not> value_fresh (example_ch 0)" by (simp_all add: example_ch_def)
  from adc_moving_average[OF example_adc_ok(1,2) this, of example_adc_env "[30, 50]" "[]", unfolded l m append_Nil2, OF example_adc_ok(3)]
  show ?thesis by metis
qed

theorem adc_sequence_rewritten_witness:
  "\<exists>a'. adc_update_dev_sequence example_adc_env example_adc = Some a' \<and> ch_state (adc_dev_state a') = [Some 1, None]"
proof -
  have "channels_ok 2 example_adc" by (simp add: channels_ok_def example_adc_def example_ch_def less_2_cases_iff)
  moreover have "filter (bit (2 :: u32)) [0..<2] = [1]" by (simp add: upt_rec bit_simps)
  ultimately show ?thesis
    using adc_sequence_rewritten[of example_adc_env example_adc 0] by (auto simp: example_adc_env_def example_adc_def)
qed

theorem adc_warm_up_witness:
  "\<exists>a1 a'. adc_update_smoothing example_adc_env 0 1 example_adc = Some (PLATFORM_OK, a1) \<and> samples_arrive example_adc_env 0 [5, 6, 7] a1 = Some a'
    \<and> filtering 0 0 1 [5, 6, 7] a'"
  using adc_warm_up[OF example_adc_ok(1), of 0 1 example_adc_env "[5, 6, 7]"] by (auto simp: example_ch_def example_adc_def example_adc_env_def)

end
