(* ===== verification/Term.thy ===== *)
theory Term
  imports Uart Genstd
begin

text \<open>
  The terminal: \<^verbatim>\<open>src/term.c\<close> with the functions of \<^verbatim>\<open>src/common.c\<close> that connect it to the console UART and turn the codes a terminal sends into
  keys, and the Lua bindings' table of key names in \<^verbatim>\<open>src/modules/term.c\<close>. The three functions that \<^verbatim>\<open>term_init\<close> installs are fields of the state. On the console's side the
  state holds the UART and, for each later call that may wait, what interrupts do during it. Two references are
  given: \<open>vt_run\<close>, a terminal that executes the control sequences, and \<open>key_codes\<close>, what a terminal sends for a key. The interface between the
  console and its reader is the locale \<open>key_source\<close>.
\<close>

section \<open>State\<close>

record 'w term_state =
  p_term_out :: "u8 \<Rightarrow> 'w \<Rightarrow> 'w"
  p_term_in :: "int \<Rightarrow> 'w \<Rightarrow> (int \<times> 'w) option"
  p_term_translate :: "int \<Rightarrow> 'w \<Rightarrow> (int \<times> 'w) option"
  term_num_lines :: u32
  term_num_cols :: u32
  term_cx :: u32
  term_cy :: u32
  term_io :: 'w

abbreviation "TERM_INPUT_DONT_WAIT \<equiv> (0 :: int)"
abbreviation "TERM_INPUT_WAIT \<equiv> (1 :: int)"
abbreviation "TERM_MAX_ANSI_SIZE \<equiv> (14 :: nat)"

text \<open>The key codes follow 255 in this order.\<close>

abbreviation "KC_UP \<equiv> (256 :: int)"
abbreviation "KC_DOWN \<equiv> (257 :: int)"
abbreviation "KC_LEFT \<equiv> (258 :: int)"
abbreviation "KC_RIGHT \<equiv> (259 :: int)"
abbreviation "KC_HOME \<equiv> (260 :: int)"
abbreviation "KC_END \<equiv> (261 :: int)"
abbreviation "KC_PAGEUP \<equiv> (262 :: int)"
abbreviation "KC_PAGEDOWN \<equiv> (263 :: int)"
abbreviation "KC_ENTER \<equiv> (264 :: int)"
abbreviation "KC_TAB \<equiv> (265 :: int)"
abbreviation "KC_BACKSPACE \<equiv> (266 :: int)"
abbreviation "KC_ESC \<equiv> (267 :: int)"
abbreviation "KC_CTRL_Z \<equiv> (268 :: int)"
abbreviation "KC_CTRL_A \<equiv> (269 :: int)"
abbreviation "KC_CTRL_E \<equiv> (270 :: int)"
abbreviation "KC_CTRL_C \<equiv> (271 :: int)"
abbreviation "KC_CTRL_T \<equiv> (272 :: int)"
abbreviation "KC_CTRL_U \<equiv> (273 :: int)"
abbreviation "KC_CTRL_K \<equiv> (274 :: int)"
abbreviation "KC_DEL \<equiv> (275 :: int)"
abbreviation "KC_UNKNOWN \<equiv> (276 :: int)"

definition TERM_KEYCODES :: "string list" where
  "TERM_KEYCODES = [''KC_UP'', ''KC_DOWN'', ''KC_LEFT'', ''KC_RIGHT'', ''KC_HOME'', ''KC_END'', ''KC_PAGEUP'', ''KC_PAGEDOWN'', ''KC_ENTER'', ''KC_TAB'',
     ''KC_BACKSPACE'', ''KC_ESC'', ''KC_CTRL_Z'', ''KC_CTRL_A'', ''KC_CTRL_E'', ''KC_CTRL_C'', ''KC_CTRL_T'', ''KC_CTRL_U'', ''KC_CTRL_K'', ''KC_DEL'',
     ''KC_UNKNOWN'']"

section \<open>Output\<close>

text \<open>A number as \<^verbatim>\<open>%u\<close> prints it.\<close>

fun dec :: "nat \<Rightarrow> u8 list" where
  "dec n = (if n < 10 then [of_nat (48 + n)] else dec (n div 10) @ [of_nat (48 + n mod 10)])"

declare dec.simps [simp del]

definition term_putstr :: "u8 list \<Rightarrow> 'w term_state \<Rightarrow> 'w term_state" where
  "term_putstr str t = t\<lparr>term_io := fold (p_term_out t) str (term_io t)\<rparr>"

text \<open>\<^verbatim>\<open>vsnprintf\<close> with a size of 13 keeps 12 characters of the formatted text.\<close>

definition term_ansi :: "u8 list \<Rightarrow> 'w term_state \<Rightarrow> 'w term_state" where
  "term_ansi text t = term_putstr (0x1B # take (TERM_MAX_ANSI_SIZE - 2) text) t"

definition term_clrscr :: "'w term_state \<Rightarrow> 'w term_state" where
  "term_clrscr t = (term_ansi [0x5B, 0x32, 0x4A] t)\<lparr>term_cx := 0, term_cy := 0\<rparr>"

definition term_savepos :: "'w term_state \<Rightarrow> 'w term_state" where
  "term_savepos t = term_ansi [0x37] t"

definition term_restorepos :: "'w term_state \<Rightarrow> 'w term_state" where
  "term_restorepos t = term_ansi [0x38] t"

definition term_setscroll :: "u32 \<Rightarrow> u32 \<Rightarrow> 'w term_state \<Rightarrow> 'w term_state" where
  "term_setscroll start stop t =
     (if start > 0 \<and> stop > 0 then term_ansi (0x5B # dec (unat start) @ 0x3B # dec (unat stop) @ [0x72]) t else term_ansi [0x5B, 0x72] t)"

definition term_clreol :: "'w term_state \<Rightarrow> 'w term_state" where
  "term_clreol t = term_ansi [0x5B, 0x4B] t"

definition term_gotoxy :: "u32 \<Rightarrow> u32 \<Rightarrow> 'w term_state \<Rightarrow> 'w term_state" where
  "term_gotoxy x y t = (term_ansi (0x5B # dec (unat y) @ 0x3B # dec (unat x) @ [0x48]) t)\<lparr>term_cx := x, term_cy := y\<rparr>"

definition term_up :: "u32 \<Rightarrow> 'w term_state \<Rightarrow> 'w term_state" where
  "term_up delta t = (let t1 = term_ansi (0x5B # dec (unat delta) @ [0x41]) t in t1\<lparr>term_cy := term_cy t1 - delta\<rparr>)"

definition term_down :: "u32 \<Rightarrow> 'w term_state \<Rightarrow> 'w term_state" where
  "term_down delta t = (let t1 = term_ansi (0x5B # dec (unat delta) @ [0x42]) t in t1\<lparr>term_cy := term_cy t1 + delta\<rparr>)"

definition term_right :: "u32 \<Rightarrow> 'w term_state \<Rightarrow> 'w term_state" where
  "term_right delta t = (let t1 = term_ansi (0x5B # dec (unat delta) @ [0x43]) t in t1\<lparr>term_cx := term_cx t1 - delta\<rparr>)"

definition term_left :: "u32 \<Rightarrow> 'w term_state \<Rightarrow> 'w term_state" where
  "term_left delta t = (let t1 = term_ansi (0x5B # dec (unat delta) @ [0x44]) t in t1\<lparr>term_cx := term_cx t1 + delta\<rparr>)"

definition term_putch :: "u8 \<Rightarrow> 'w term_state \<Rightarrow> 'w term_state" where
  "term_putch ch t =
     (let t1 = (if ch = 10 then (if term_cy t < term_num_lines t then t\<lparr>term_cy := term_cy t + 1\<rparr> else t)\<lparr>term_cx := 0\<rparr> else t)
      in t1\<lparr>term_io := p_term_out t1 ch (term_io t1)\<rparr>)"

section \<open>Input\<close>

definition term_getch :: "int \<Rightarrow> 'w term_state \<Rightarrow> (int \<times> 'w term_state) option" where
  "term_getch mode t =
     do { (ch, w) \<leftarrow> p_term_in t mode (term_io t);
          if ch = -1 then Some (-1, t\<lparr>term_io := w\<rparr>)
          else do { (k, w1) \<leftarrow> p_term_translate t ch w; Some (k, t\<lparr>term_io := w1\<rparr>) } }"

definition term_init ::
  "u32 \<Rightarrow> u32 \<Rightarrow> (u8 \<Rightarrow> 'w \<Rightarrow> 'w) \<Rightarrow> (int \<Rightarrow> 'w \<Rightarrow> (int \<times> 'w) option) \<Rightarrow> (int \<Rightarrow> 'w \<Rightarrow> (int \<times> 'w) option) \<Rightarrow> 'w \<Rightarrow> 'w term_state" where
  "term_init lines cols outf inpf translatef w =
     \<lparr>p_term_out = outf, p_term_in = inpf, p_term_translate = translatef, term_num_lines = lines, term_num_cols = cols, term_cx = 0, term_cy = 0, term_io = w\<rparr>"

text \<open>The number of a key name in Lua, \<^verbatim>\<open>term.KC_UP\<close>; a key that does not start with K is not looked up.\<close>

fun key_index :: "string \<Rightarrow> string list \<Rightarrow> nat \<Rightarrow> nat" where
  "key_index key [] i = i"
| "key_index key (k # ks) i = (if key = k then i else key_index key ks (i + 1))"

definition term_mt_index :: "string \<Rightarrow> int option" where
  "term_mt_index key =
     (if key = [] \<or> hd key \<noteq> CHR ''K'' then None
      else let i = key_index key TERM_KEYCODES 0 in if i = length TERM_KEYCODES then None else Some (int i + KC_UP))"

section \<open>The console\<close>

record con_env =
  con_cfg :: build_config
  CON_UART_ID :: nat

record con =
  con_uart :: uart_state
  con_later :: "(nat \<times> (uart_state \<Rightarrow> uart_state)) list list"
  skip_0A :: bool

abbreviation "TERM_TIMEOUT \<equiv> (100000 :: nat)"

definition con_recv :: "con_env \<Rightarrow> nat \<Rightarrow> con \<Rightarrow> (int \<times> con) option" where
  "con_recv env timeout c =
     (case platform_uart_recv (con_cfg env) (CON_UART_ID env) timeout (case con_later c of [] \<Rightarrow> [] | l # ls \<Rightarrow> l) (con_uart c) of
        Returned (x, u) \<Rightarrow> Some (x, c\<lparr>con_uart := u, con_later := tl (con_later c)\<rparr>)
      | _ \<Rightarrow> None)"

definition term_out :: "con_env \<Rightarrow> u8 \<Rightarrow> con \<Rightarrow> con" where
  "term_out env data c = c\<lparr>con_uart := platform_uart_send (con_cfg env) (CON_UART_ID env) data (con_uart c)\<rparr>"

text \<open>The loop reads again at most once: it clears the flag that made it skip a line feed.\<close>

definition term_in :: "con_env \<Rightarrow> int \<Rightarrow> con \<Rightarrow> (int \<times> con) option" where
  "term_in env mode c =
     (let timeout = (if mode = TERM_INPUT_DONT_WAIT then 0 else PLATFORM_TIMER_INF_TIMEOUT) in
      do { (x, c1) \<leftarrow> con_recv env timeout c;
           if skip_0A c1
           then if x = 0x0A then con_recv env timeout (c1\<lparr>skip_0A := False\<rparr>) else Some (x, c1\<lparr>skip_0A := False\<rparr>)
           else Some (x, c1) })"

text \<open>What follows an escape.\<close>

definition translate_escape :: "con_env \<Rightarrow> con \<Rightarrow> (int \<times> con) option" where
  "translate_escape env c =
     do { (x, c1) \<leftarrow> con_recv env TERM_TIMEOUT c;
          if x = -1 then Some (KC_ESC, c1)
          else do { (y, c2) \<leftarrow> con_recv env TERM_TIMEOUT c1;
                    if y = -1 then Some (KC_UNKNOWN, c2)
                    else if y \<ge> 0x41 \<and> y \<le> 0x44
                    then Some (if y = 0x41 then KC_UP else if y = 0x42 then KC_DOWN else if y = 0x43 then KC_RIGHT else KC_LEFT, c2)
                    else if y > 48 \<and> y < 55
                    then do { (z, c3) \<leftarrow> con_recv env TERM_TIMEOUT c2;
                              Some (if z \<noteq> 126 then KC_UNKNOWN
                                    else if y = 49 then KC_HOME else if y = 52 then KC_END else if y = 53 then KC_PAGEUP
                                    else if y = 54 then KC_PAGEDOWN else KC_UNKNOWN, c3) }
                    else Some (KC_UNKNOWN, c2) } }"

definition translate_control :: "int \<Rightarrow> int" where
  "translate_control data =
     (if data = 0x09 then KC_TAB else if data = 0x7F \<or> data = 0x08 then KC_BACKSPACE else if data = 26 then KC_CTRL_Z else if data = 1 then KC_CTRL_A
      else if data = 5 then KC_CTRL_E else if data = 3 then KC_CTRL_C else if data = 20 then KC_CTRL_T else if data = 21 then KC_CTRL_U
      else if data = 11 then KC_CTRL_K else KC_UNKNOWN)"

definition term_translate :: "con_env \<Rightarrow> int \<Rightarrow> con \<Rightarrow> (int \<times> con) option" where
  "term_translate env data c =
     (if isprint data then Some (data, c)
      else if data = 0x1B then translate_escape env c
      else if data = 0x0D then Some (KC_ENTER, c\<lparr>skip_0A := True\<rparr>)
      else if data = 0x0A then Some (KC_ENTER, c)
      else Some (translate_control data, c))"

text \<open>The terminal as \<^verbatim>\<open>cmn_platform_init\<close> installs it.\<close>

definition console_term :: "con_env \<Rightarrow> u32 \<Rightarrow> u32 \<Rightarrow> con \<Rightarrow> con term_state" where
  "console_term env lines cols c = term_init lines cols (term_out env) (term_in env) (term_translate env) c"

section \<open>Keys\<close>

text \<open>What terminals send for a key, on its own the escape key apart. A line end is a carriage return, a line feed or both.\<close>

definition key_codes :: "(int \<times> u8 list) list" where
  "key_codes = [(KC_UP, [0x1B, 0x5B, 0x41]), (KC_DOWN, [0x1B, 0x5B, 0x42]), (KC_RIGHT, [0x1B, 0x5B, 0x43]), (KC_LEFT, [0x1B, 0x5B, 0x44]),
     (KC_HOME, [0x1B, 0x5B, 49, 126]), (KC_END, [0x1B, 0x5B, 52, 126]), (KC_PAGEUP, [0x1B, 0x5B, 53, 126]), (KC_PAGEDOWN, [0x1B, 0x5B, 54, 126]),
     (KC_ENTER, [13]), (KC_ENTER, [10]), (KC_ENTER, [13, 10]), (KC_TAB, [9]), (KC_BACKSPACE, [8]), (KC_BACKSPACE, [0x7F]),
     (KC_CTRL_Z, [26]), (KC_CTRL_A, [1]), (KC_CTRL_E, [5]), (KC_CTRL_C, [3]), (KC_CTRL_T, [20]), (KC_CTRL_U, [21]), (KC_CTRL_K, [11])]"

definition key_sends :: "int \<Rightarrow> u8 list \<Rightarrow> bool" where
  "key_sends k bs \<longleftrightarrow> (\<exists>b. bs = [b] \<and> k = uint b \<and> isprint k) \<or> (k, bs) \<in> set key_codes"

text \<open>The bytes that have arrived and will be looked at: the line feed after a carriage return will not.\<close>

definition con_pending :: "con_env \<Rightarrow> con \<Rightarrow> u8 list" where
  "con_pending env c = map hd (buf_elems (vuart_buf (con_cfg env) (con_uart c) (CON_UART_ID env)))"

definition con_unread :: "con_env \<Rightarrow> con \<Rightarrow> u8 list" where
  "con_unread env c = (let p = con_pending env c in if skip_0A c \<and> p \<noteq> [] \<and> hd p = 10 then tl p else p)"

definition con_ok :: "con_env \<Rightarrow> con \<Rightarrow> bool" where
  "con_ok env c \<longleftrightarrow> buf_inv (vuart_buf (con_cfg env) (con_uart c) (CON_UART_ID env))
     \<and> logdsize (vuart_buf (con_cfg env) (con_uart c) (CON_UART_ID env)) = BUF_DSIZE_U8"

lemma uint_eq_u8: "0 \<le> k \<Longrightarrow> k < 256 \<Longrightarrow> uint (b :: u8) = k \<longleftrightarrow> b = word_of_int k"
  by (auto simp: uint_word_of_int)

lemma con_recv_pending:
  assumes "con_ok env c" and "con_pending env c = b # bs"
  shows "\<exists>c'. con_recv env timeout c = Some (uint b, c') \<and> con_ok env c' \<and> con_pending env c' = bs \<and> skip_0A c' = skip_0A c"
proof -
  let ?cfg = "con_cfg env" and ?i = "CON_UART_ID env" and ?l = "case con_later c of [] \<Rightarrow> [] | l # ls \<Rightarrow> l"
  obtain x xs where e: "buf_elems (vuart_buf ?cfg (con_uart c) ?i) = x # xs" "hd x = b" "map hd xs = bs"
    using assms(2) by (auto simp: con_pending_def)
  from platform_uart_recv_buffered [OF _ _ e(1), of timeout ?l] assms(1) obtain u where
    "platform_uart_recv ?cfg ?i timeout ?l (con_uart c) = Returned (uint b, u)" "buf_inv (vuart_buf ?cfg u ?i)"
    "logdsize (vuart_buf ?cfg u ?i) = BUF_DSIZE_U8" "buf_elems (vuart_buf ?cfg u ?i) = xs"
    using e(2) by (auto simp: con_ok_def)
  then show ?thesis using e(3) by (simp add: con_recv_def con_ok_def con_pending_def)
qed

lemma term_in_unread:
  assumes ok: "con_ok env c" and u: "con_unread env c = b # bs"
  shows "\<exists>c'. term_in env mode c = Some (uint b, c') \<and> con_ok env c' \<and> con_pending env c' = bs \<and> \<not> skip_0A c'"
proof -
  define t where "t = (if mode = TERM_INPUT_DONT_WAIT then 0 else PLATFORM_TIMER_INF_TIMEOUT)"
  obtain p ps where p: "con_pending env c = p # ps" using u by (cases "con_pending env c") (auto simp: con_unread_def Let_def)
  from con_recv_pending [OF ok p] obtain c1 where c1: "con_recv env t c = Some (uint p, c1)" "con_ok env c1" "con_pending env c1 = ps" "skip_0A c1 = skip_0A c"
    by blast
  have p10: "uint p = 10 \<longleftrightarrow> p = 10" by (simp add: uint_eq_u8)
  show ?thesis
  proof (cases "skip_0A c \<and> p = 10")
    case True
    then have "ps = b # bs" using u p by (simp add: con_unread_def)
    then have "con_ok env (c1\<lparr>skip_0A := False\<rparr>)" "con_pending env (c1\<lparr>skip_0A := False\<rparr>) = b # bs"
      using c1 by (simp_all add: con_ok_def con_pending_def)
    from con_recv_pending [OF this, of t] show ?thesis using c1 True by (auto simp: term_in_def t_def)
  next
    case False
    then have "p = b" "ps = bs" using u p by (auto simp: con_unread_def Let_def split: if_splits)
    then show ?thesis using c1 False p10 by (auto simp: term_in_def t_def con_ok_def con_pending_def)
  qed
qed

lemma con_simps [simp]:
  "con_ok env (c\<lparr>skip_0A := f\<rparr>) = con_ok env c" "con_pending env (c\<lparr>skip_0A := f\<rparr>) = con_pending env c"
  by (simp_all add: con_ok_def con_pending_def)

text \<open>The functions of the console, as the terminal's state holds them.\<close>

definition is_console :: "con_env \<Rightarrow> con term_state \<Rightarrow> bool" where
  "is_console env t \<longleftrightarrow> p_term_out t = term_out env \<and> p_term_in t = term_in env \<and> p_term_translate t = term_translate env \<and> con_ok env (term_io t)"

lemma translate_one:
  assumes "con_ok env c" "con_pending env c = rest" "\<not> skip_0A c" "data \<noteq> 0x1B" "data \<noteq> 0x0D"
    "k = (if isprint data then data else if data = 0x0A then KC_ENTER else translate_control data)"
  shows "term_translate env data c = Some (k, c) \<and> con_unread env c = rest"
  using assms by (simp add: term_translate_def con_unread_def isprint_def)

lemma translate_csi:
  assumes ok: "con_ok env c" "con_pending env c = 0x5B # bs @ rest" "\<not> skip_0A c"
    and k: "(k, bs) \<in> {(KC_UP, [0x41]), (KC_DOWN, [0x42]), (KC_RIGHT, [0x43]), (KC_LEFT, [0x44]), (KC_HOME, [49, 126]), (KC_END, [52, 126]),
      (KC_PAGEUP, [53, 126]), (KC_PAGEDOWN, [54, 126])}"
  shows "\<exists>c'. term_translate env 0x1B c = Some (k, c') \<and> con_ok env c' \<and> con_unread env c' = rest"
proof -
  from con_recv_pending [OF ok(1,2)] ok(3) obtain c1 where c1: "con_recv env TERM_TIMEOUT c = Some (0x5B, c1)" "con_ok env c1"
      "con_pending env c1 = bs @ rest" "\<not> skip_0A c1" by fastforce
  obtain b bs' where b: "bs = b # bs'" using k by auto
  from con_recv_pending [OF c1(2)] c1(3,4) b obtain c2 where c2: "con_recv env TERM_TIMEOUT c1 = Some (uint b, c2)" "con_ok env c2"
      "con_pending env c2 = bs' @ rest" "\<not> skip_0A c2" by fastforce
  show ?thesis
  proof (cases "bs' = []")
    case True
    with k b have "(k, b) \<in> {(KC_UP, 0x41), (KC_DOWN, 0x42), (KC_RIGHT, 0x43), (KC_LEFT, 0x44)}" by auto
    then have "term_translate env 0x1B c = Some (k, c2)"
      by (elim insertE emptyE) (use c1(1) c2(1) in \<open>simp_all add: term_translate_def translate_escape_def isprint_def\<close>)
    with c2(2-4) True show ?thesis by (simp add: con_unread_def)
  next
    case False
    with k b have bs': "bs' = [126]" by auto
    with con_recv_pending [OF c2(2)] c2(3,4) obtain c3 where "con_recv env TERM_TIMEOUT c2 = Some (126, c3)" "con_ok env c3"
        "con_pending env c3 = rest" "\<not> skip_0A c3" by fastforce
    note c3 = this
    from k b bs' have "(k, b) \<in> {(KC_HOME, 49), (KC_END, 52), (KC_PAGEUP, 53), (KC_PAGEDOWN, 54)}" by auto
    then have "term_translate env 0x1B c = Some (k, c3)"
      by (elim insertE emptyE) (use c1(1) c2(1) c3(1) in \<open>simp_all add: term_translate_def translate_escape_def isprint_def\<close>)
    with c3(2-4) show ?thesis by (auto simp: con_unread_def)
  qed
qed

text \<open>One key. Where a carriage return alone ended the line, the next byte must not be a line feed.\<close>

lemma term_getch_key:
  assumes con: "is_console env t" and u: "con_unread env (term_io t) = bs @ rest" and k: "key_sends k bs"
    and cr: "bs = [13] \<Longrightarrow> rest \<noteq> [] \<Longrightarrow> hd rest \<noteq> 10"
  shows "\<exists>c'. term_getch mode t = Some (k, t\<lparr>term_io := c'\<rparr>) \<and> con_ok env c' \<and> con_unread env c' = rest"
proof -
  have ok: "con_ok env (term_io t)" and f: "p_term_in t = term_in env" "p_term_translate t = term_translate env"
    using con by (simp_all add: is_console_def)
  obtain b bs' where b: "bs = b # bs'" using k by (auto simp: key_sends_def key_codes_def)
  with term_in_unread [OF ok] u obtain c where c: "term_in env mode (term_io t) = Some (uint b, c)" "con_ok env c"
      "con_pending env c = bs' @ rest" "\<not> skip_0A c" by fastforce
  have get: "term_getch mode t = Some (k', t\<lparr>term_io := c'\<rparr>)" if "term_translate env (uint b) c = Some (k', c')" for k' c'
    using that c(1) by (simp add: term_getch_def f)
  show ?thesis
  proof (cases "(\<exists>x. bs = [x] \<and> k = uint x \<and> isprint k) \<or> bs' = [] \<and> b \<noteq> 13 \<and> (k, bs) \<in> set key_codes")
    case True
    then have "bs' = []" "uint b \<noteq> 0x1B" "uint b \<noteq> 0x0D" "k = (if isprint (uint b) then uint b else if uint b = 0x0A then KC_ENTER else translate_control (uint b))"
      using b by (auto simp: key_codes_def isprint_def translate_control_def uint_eq_u8)
    with translate_one [OF c(2) _ c(4)] c(2,3) get show ?thesis by fastforce
  next
    case False
    with k have kc: "(k, bs) \<in> set key_codes" "bs' \<noteq> [] \<or> b = 13" by (auto simp: key_sends_def)
    show ?thesis
    proof (cases "b = 13")
      case True
      then have "k = KC_ENTER" "bs' = [] \<or> bs' = [10]" using kc b by (auto simp: key_codes_def)
      moreover have "term_translate env (uint b) c = Some (KC_ENTER, c\<lparr>skip_0A := True\<rparr>)"
        using True by (simp add: term_translate_def isprint_def)
      moreover have "con_unread env (c\<lparr>skip_0A := True\<rparr>) = rest"
        using c(3) cr b True \<open>bs' = [] \<or> bs' = [10]\<close> by (auto simp: con_unread_def Let_def)
      ultimately show ?thesis using get c(2) by auto
    next
      case False
      with kc b obtain bs2 where e: "b = 0x1B" "bs' = 0x5B # bs2" "(k, bs2) \<in> {(KC_UP, [0x41]), (KC_DOWN, [0x42]), (KC_RIGHT, [0x43]), (KC_LEFT, [0x44]),
          (KC_HOME, [49, 126]), (KC_END, [52, 126]), (KC_PAGEUP, [53, 126]), (KC_PAGEDOWN, [54, 126])}"
        by (auto simp: key_codes_def)
      then have "con_pending env c = 0x5B # bs2 @ rest" using c(3) by simp
      from translate_csi [OF c(2) this c(4) e(3)] obtain c' where "term_translate env 0x1B c = Some (k, c')" "con_ok env c'"
        "con_unread env c' = rest" by blast
      with get [of k c'] e(1) show ?thesis by auto
    qed
  qed
qed

fun read_keys :: "int \<Rightarrow> nat \<Rightarrow> 'w term_state \<Rightarrow> (int list \<times> 'w term_state) option" where
  "read_keys mode 0 t = Some ([], t)"
| "read_keys mode (Suc n) t = do { (k, t1) \<leftarrow> term_getch mode t; (ks, t2) \<leftarrow> read_keys mode n t1; Some (k # ks, t2) }"

text \<open>Keys with what is sent for them. A carriage return followed by a line feed is one line end, not two.\<close>

fun strokes_ok :: "(int \<times> u8 list) list \<Rightarrow> bool" where
  "strokes_ok [] \<longleftrightarrow> True"
| "strokes_ok (s # ss) \<longleftrightarrow> key_sends (fst s) (snd s) \<and> (snd s = [13] \<longrightarrow> ss = [] \<or> hd (snd (hd ss)) \<noteq> 10) \<and> strokes_ok ss"

lemma key_sends_nonempty: "key_sends k bs \<Longrightarrow> bs \<noteq> []"
  by (auto simp: key_sends_def key_codes_def)

lemma term_getch_stroke:
  assumes con: "is_console env t" and ss: "strokes_ok (s # ss)" and u: "con_unread env (term_io t) = concat (map snd (s # ss))"
  shows "\<exists>c'. term_getch mode t = Some (fst s, t\<lparr>term_io := c'\<rparr>) \<and> is_console env (t\<lparr>term_io := c'\<rparr>) \<and> con_unread env c' = concat (map snd ss)"
proof -
  have "hd (concat (map snd ss)) \<noteq> 10" if "snd s = [13]" "concat (map snd ss) \<noteq> []"
  proof (cases ss)
    case (Cons s' ss')
    with ss key_sends_nonempty have "snd s' \<noteq> []" by auto
    with Cons ss that(1) show ?thesis by (simp add: hd_append)
  qed (use that in simp)
  with term_getch_key [OF con, of "snd s" "concat (map snd ss)" "fst s" mode] u ss obtain c'
    where "term_getch mode t = Some (fst s, t\<lparr>term_io := c'\<rparr>)" "con_ok env c'" "con_unread env c' = concat (map snd ss)" by auto
  with con show ?thesis by (auto simp: is_console_def)
qed

text \<open>Keys are decoded: when the bytes that a terminal sends for some keys wait in the buffer of the console UART, reading returns
  these keys in order and uses up all the bytes, whatever the line ends look like and whether or not the reader waits.\<close>

theorem term_keys_decoded:
  assumes "is_console env t" "strokes_ok ss" "con_unread env (term_io t) = concat (map snd ss)"
  shows "\<exists>t'. read_keys mode (length ss) t = Some (map fst ss, t') \<and> is_console env t' \<and> con_unread env (term_io t') = []"
  using assms
proof (induction ss arbitrary: t)
  case (Cons s ss)
  from term_getch_stroke [OF Cons.prems] obtain c' where "term_getch mode t = Some (fst s, t\<lparr>term_io := c'\<rparr>)"
    "is_console env (t\<lparr>term_io := c'\<rparr>)" "con_unread env c' = concat (map snd ss)" by blast
  with Cons.IH [of "t\<lparr>term_io := c'\<rparr>"] Cons.prems(2) show ?case by auto
qed simp

section \<open>The cursor\<close>

text \<open>A terminal without edges that executes the sequences for moving the cursor; a number 0 counts as 1.\<close>

datatype vt_mode = Ground | Escape | Csi "nat list"

record vt =
  vt_mode :: vt_mode
  vt_col :: u32
  vt_row :: u32

definition vt_move :: "u8 \<Rightarrow> nat list \<Rightarrow> vt \<Rightarrow> vt" where
  "vt_move b args v =
     (let n = of_nat (max 1 (hd args)) in
      if b = 0x41 then v\<lparr>vt_row := vt_row v - n\<rparr> else if b = 0x42 then v\<lparr>vt_row := vt_row v + n\<rparr>
      else if b = 0x43 then v\<lparr>vt_col := vt_col v + n\<rparr> else if b = 0x44 then v\<lparr>vt_col := vt_col v - n\<rparr>
      else if b = 0x48 then (case args of [x, y] \<Rightarrow> v\<lparr>vt_col := n, vt_row := of_nat (max 1 y)\<rparr> | _ \<Rightarrow> v) else v)"

definition vt_byte :: "u8 \<Rightarrow> vt \<Rightarrow> vt" where
  "vt_byte b v =
     (case vt_mode v of
        Ground \<Rightarrow> if b = 0x1B then v\<lparr>vt_mode := Escape\<rparr> else v
      | Escape \<Rightarrow> v\<lparr>vt_mode := if b = 0x5B then Csi [0] else Ground\<rparr>
      | Csi args \<Rightarrow> if 48 \<le> b \<and> b \<le> 57 then v\<lparr>vt_mode := Csi ((10 * hd args + (unat b - 48)) # tl args)\<rparr>
                    else if b = 0x3B then v\<lparr>vt_mode := Csi (0 # args)\<rparr>
                    else (vt_move b args v)\<lparr>vt_mode := Ground\<rparr>)"

datatype move = Goto u32 u32 | Up u32 | Down u32 | Right u32 | Left u32

fun do_move :: "move \<Rightarrow> 'w term_state \<Rightarrow> 'w term_state" where
  "do_move (Goto x y) = term_gotoxy x y"
| "do_move (Up n) = term_up n"
| "do_move (Down n) = term_down n"
| "do_move (Right n) = term_right n"
| "do_move (Left n) = term_left n"

fun mirror :: "move \<Rightarrow> move" where
  "mirror (Right n) = Left n"
| "mirror (Left n) = Right n"
| "mirror m = m"

fun move_ok :: "move \<Rightarrow> bool" where
  "move_ok (Goto x y) \<longleftrightarrow> 0 < x \<and> x < 10000 \<and> 0 < y \<and> y < 10000"
| "move_ok (Up n) \<longleftrightarrow> 0 < n \<and> n < 10000"
| "move_ok (Down n) \<longleftrightarrow> 0 < n \<and> n < 10000"
| "move_ok (Right n) \<longleftrightarrow> 0 < n \<and> n < 10000"
| "move_ok (Left n) \<longleftrightarrow> 0 < n \<and> n < 10000"

text \<open>A line that records what it is sent.\<close>

definition on_line :: "u8 list term_state \<Rightarrow> bool" where
  "on_line t \<longleftrightarrow> p_term_out t = (\<lambda>b w. w @ [b])"

definition cursor_at :: "'w term_state \<Rightarrow> vt \<Rightarrow> bool" where
  "cursor_at t v \<longleftrightarrow> vt_mode v = Ground \<and> vt_col v = term_cx t \<and> vt_row v = term_cy t"

lemma dec_length: "n < 10 ^ k \<Longrightarrow> 0 < k \<Longrightarrow> length (dec n) \<le> k"
proof (induction k arbitrary: n)
  case (Suc k)
  show ?case
  proof (cases "n < 10")
    case False
    with Suc.prems have "k \<noteq> 0" by (cases k) auto
    moreover have "n div 10 < 10 ^ k" using Suc.prems(1) by (simp add: less_mult_imp_div_less mult.commute)
    ultimately have "length (dec (n div 10)) \<le> k" by (intro Suc.IH) auto
    then show ?thesis using False by (simp add: dec.simps [of n])
  qed (simp add: dec.simps [of n])
qed simp

lemma digit_byte: "d < 10 \<Longrightarrow> 48 \<le> (of_nat (48 + d) :: u8) \<and> (of_nat (48 + d) :: u8) \<le> 57 \<and> unat (of_nat (48 + d) :: u8) = 48 + d"
proof -
  assume "d < 10"
  then have "unat (of_nat (48 + d) :: u8) = 48 + d" by (simp add: unat_of_nat take_bit_nat_eq_self del: of_nat_add)
  with \<open>d < 10\<close> show ?thesis by (simp add: word_le_nat_alt del: of_nat_add)
qed

lemma vt_dec: "vt_mode v = Csi (0 # as) \<Longrightarrow> fold vt_byte (dec n) v = v\<lparr>vt_mode := Csi (n # as)\<rparr>"
proof (induction n arbitrary: v rule: dec.induct)
  case (1 n)
  show ?case
  proof (cases "n < 10")
    case True
    with digit_byte [of n] 1(2) show ?thesis by (simp add: dec.simps [of n] vt_byte_def)
  next
    case False
    with digit_byte [of "n mod 10"] 1 show ?thesis by (simp add: dec.simps [of n] vt_byte_def)
  qed
qed

lemma on_line_putstr: "on_line t \<Longrightarrow> term_putstr s t = t\<lparr>term_io := term_io t @ s\<rparr>"
proof -
  have "fold (\<lambda>b w. w @ [b]) s w = w @ s" for w :: "u8 list" by (induction s arbitrary: w) auto
  then show "on_line t \<Longrightarrow> ?thesis" by (simp add: term_putstr_def on_line_def)
qed

text \<open>The bytes of a move and what they do.\<close>

fun move_text :: "move \<Rightarrow> u8 list" where
  "move_text (Goto x y) = 0x5B # dec (unat y) @ 0x3B # dec (unat x) @ [0x48]"
| "move_text (Up n) = 0x5B # dec (unat n) @ [0x41]"
| "move_text (Down n) = 0x5B # dec (unat n) @ [0x42]"
| "move_text (Right n) = 0x5B # dec (unat n) @ [0x43]"
| "move_text (Left n) = 0x5B # dec (unat n) @ [0x44]"

lemma small_number: "n < 10000 \<Longrightarrow> 0 < n \<Longrightarrow> length (dec (unat n)) \<le> 4 \<and> max 1 (unat n) = unat n" for n :: u32
proof -
  assume n: "n < 10000" "0 < n"
  then have "0 < unat n" by (simp add: word_less_nat_alt)
  moreover from n(1) have "unat n < 10 ^ 4" by (simp add: word_less_nat_alt)
  ultimately show ?thesis using dec_length [of "unat n" 4] by simp
qed

lemma do_move_sends:
  assumes "on_line t" "move_ok m"
  shows "term_io (do_move m t) = term_io t @ 0x1B # move_text m" "on_line (do_move m t)"
  using assms small_number
  by (cases m; fastforce simp: term_gotoxy_def term_up_def term_down_def term_right_def term_left_def Let_def term_ansi_def on_line_putstr on_line_def)+

lemma vt_move_text:
  assumes "move_ok m" "cursor_at t v"
  shows "cursor_at (do_move (mirror m) t) (fold vt_byte (0x1B # move_text m) v)"
  using assms small_number
  by (cases m) (simp_all add: cursor_at_def vt_byte_def vt_dec vt_move_def Let_def term_gotoxy_def term_up_def term_down_def term_right_def term_left_def
      term_ansi_def term_putstr_def)

text \<open>The cursor position that the terminal functions keep is that of a terminal which executes their output if the cursor is only positioned and moved
  up and down; moving it right is recorded as moving it left and the other way round. The numbers have at most four digits.\<close>

theorem term_cursor_tracking:
  assumes "on_line t" "cursor_at t v" "list_all move_ok ms"
  shows "\<exists>sent. term_io (fold do_move ms t) = term_io t @ sent \<and> cursor_at (fold do_move (map mirror ms) t) (fold vt_byte sent v)"
  using assms
proof (induction ms rule: rev_induct)
  case (snoc m ms)
  have io: "on_line (fold do_move ns t)" if "list_all move_ok ns" for ns
    using that \<open>on_line t\<close> do_move_sends(2) by (induction ns arbitrary: t) auto
  from snoc obtain sent where s: "term_io (fold do_move ms t) = term_io t @ sent" "cursor_at (fold do_move (map mirror ms) t) (fold vt_byte sent v)"
    by auto
  have "term_io (fold do_move (ms @ [m]) t) = term_io t @ sent @ 0x1B # move_text m"
    using do_move_sends(1) [OF io] snoc.prems(3) s(1) by simp
  moreover have "cursor_at (fold do_move (map mirror (ms @ [m])) t) (fold vt_byte (sent @ 0x1B # move_text m) v)"
    using vt_move_text [OF _ s(2)] snoc.prems(3) by simp
  ultimately show ?case by blast
qed simp

section \<open>Instances\<close>

definition example_con_env :: con_env where
  "example_con_env = \<lparr>con_cfg = example_config, CON_UART_ID = 1\<rparr>"

definition buf_holding :: "u8 list \<Rightarrow> buf_desc" where
  "buf_holding bs = \<lparr>logsize = 4, logdsize = 0, wptr = of_nat (length bs), rptr = 0, count = of_nat (length bs),
     buf = Some (bs @ replicate (16 - length bs) 0)\<rparr>"

definition example_con :: "u8 list \<Rightarrow> con" where
  "example_con bs = \<lparr>con_uart = example_uart\<lparr>uart_bufs := \<lambda>_ _. buf_holding bs\<rparr>, con_later = [], skip_0A = False\<rparr>"

lemma buf_holding:
  assumes "length bs < 16"
  shows "buf_inv (buf_holding bs)" "map hd (buf_elems (buf_holding bs)) = bs"
proof -
  have u: "unat (of_nat (length bs) :: u16) = length bs" using assms by (simp add: unat_of_nat take_bit_nat_eq_self)
  have z: "buf_realsize (buf_holding bs) = 16" "buf_realdsize (buf_holding bs) = 1" by (simp_all add: buf_sizes buf_holding_def)
  show "buf_inv (buf_holding bs)"
    unfolding buf_inv_def z using assms u by (auto simp: buf_holding_def intro!: exI [of _ "0 :: nat"])
  have "map (\<lambda>i. hd (chunk 1 (bs @ zs) (i mod 16))) [0..<length bs] = map ((!) bs) [0..<length bs]" for zs
    using assms by (intro map_cong) (auto simp: chunk_def Cons_nth_drop_Suc [symmetric])
  then have "map (\<lambda>i. hd (chunk 1 (bs @ zs) (i mod 16))) [0..<length bs] = bs" for zs by (simp add: map_nth)
  then show "map hd (buf_elems (buf_holding bs)) = bs"
    unfolding buf_elems_def z using assms u by (simp add: buf_holding_def ring_list_def o_def)
qed

lemma example_console:
  assumes "length bs < 16"
  shows "is_console example_con_env (console_term example_con_env lines cols (example_con bs))"
    "con_unread example_con_env (example_con bs) = bs"
proof -
  have b: "vuart_buf cfg (con_uart (example_con bs)) i = buf_holding bs" for cfg i by (simp add: vuart_buf_def example_con_def)
  show "is_console example_con_env (console_term example_con_env lines cols (example_con bs))"
    using buf_holding(1) [OF assms] b by (simp add: is_console_def console_term_def term_init_def con_ok_def buf_holding_def)
  have "con_pending example_con_env (example_con bs) = bs" using buf_holding(2) [OF assms] b by (simp add: con_pending_def)
  then show "con_unread example_con_env (example_con bs) = bs" by (simp add: con_unread_def) (simp add: example_con_def)
qed

lemma console_term_io [simp]: "term_io (console_term env lines cols c) = c"
  by (simp add: console_term_def term_init_def)

theorem term_keys_decoded_witness:
  "\<exists>t'. read_keys TERM_INPUT_WAIT 4 (console_term example_con_env 24 80 (example_con [65, 27, 91, 68, 13, 10, 127])) =
      Some ([65, KC_LEFT, KC_ENTER, KC_BACKSPACE], t')"
proof -
  let ?bs = "[65, 27, 91, 68, 13, 10, 127]" and ?ss = "[(65, [65 :: u8]), (KC_LEFT, [27, 91, 68]), (KC_ENTER, [13, 10]), (KC_BACKSPACE, [127])]"
  have "strokes_ok ?ss" by (simp add: key_sends_def key_codes_def isprint_def)
  moreover have "con_unread example_con_env (term_io (console_term example_con_env 24 80 (example_con ?bs))) = concat (map snd ?ss)"
    using example_console(2) [of ?bs] by simp
  ultimately have "\<exists>t'. read_keys TERM_INPUT_WAIT (length ?ss) (console_term example_con_env 24 80 (example_con ?bs)) = Some (map fst ?ss, t')"
    using term_keys_decoded [OF example_console(1) [of ?bs], of ?ss 24 80 TERM_INPUT_WAIT] by auto
  moreover have "length ?ss = 4" "map fst ?ss = [65, KC_LEFT, KC_ENTER, KC_BACKSPACE]" by simp_all
  ultimately show ?thesis by (simp only:)
qed

definition example_line :: "u8 list term_state" where
  "example_line = (term_init 24 80 (\<lambda>b w. w @ [b]) (\<lambda>_ _. None) (\<lambda>_ _. None) [])\<lparr>term_cx := 1, term_cy := 1\<rparr>"

theorem term_cursor_tracking_witness:
  "\<exists>sent. term_io (fold do_move [Goto 5 7, Right 2, Up 3] example_line) = sent
    \<and> cursor_at (fold do_move [Goto 5 7, Left 2, Up 3] example_line) (fold vt_byte sent \<lparr>vt_mode = Ground, vt_col = 1, vt_row = 1\<rparr>)"
  using term_cursor_tracking [of example_line "\<lparr>vt_mode = Ground, vt_col = 1, vt_row = 1\<rparr>" "[Goto 5 7, Right 2, Up 3]"]
  by (simp add: on_line_def cursor_at_def example_line_def term_init_def)

end
