(* ===== verification/Linenoise.thy ===== *)
theory Linenoise
  imports Term
begin

text \<open>
  Line editing, \<^verbatim>\<open>src/linenoise.c\<close>: the editor that reads keys from the terminal into an array, redraws the line in the width of the screen and keeps a
  history for the Lua prompt and one for the shell. Strings in the history are byte lists; \<^const>\<open>None\<close> is NULL or a string that was
  freed. The line is an array of bytes, and an access outside it has no result. The C library's files and streams, the success
  of \<^verbatim>\<open>malloc\<close>, and what \<^verbatim>\<open>isprint\<close> answers outside its table are parameters. The reference is \<open>ed_key\<close>, an editor
  of two strings, before and after the cursor, and a list of lines. The locale \<open>key_reader\<close> is what the editor needs of its terminal.
\<close>

section \<open>State\<close>

record 'w linenoise =
  histories :: "nat \<Rightarrow> u8 list option list option"
  history_lengths :: "nat \<Rightarrow> int"
  ln_term :: "'w term_state"
  ln_files :: "(u8 list \<times> u8 list) list"

record 'w ln_env =
  history_max_lengths :: "nat \<Rightarrow> nat"
  TERM_COLS :: u32
  ln_malloc :: "nat \<Rightarrow> bool"
  ln_fopen :: "u8 list \<Rightarrow> bool"
  ln_fgets :: "nat \<Rightarrow> 'w \<Rightarrow> u8 list option \<times> 'w"
  ln_print :: "u8 list \<Rightarrow> 'w \<Rightarrow> 'w"
  LINENOISE_AUTOSAVE_FNAME :: "u8 list option"
  ctype_beyond :: "int \<Rightarrow> bool"

abbreviation "LINENOISE_ID_LUA \<equiv> (0 :: nat)"
abbreviation "LINENOISE_ID_SHELL \<equiv> (1 :: nat)"
abbreviation "LINENOISE_CTRL_C \<equiv> (-2 :: int)"
abbreviation "LINENOISE_HISTORY_NOT_ENABLED \<equiv> (-2 :: int)"
abbreviation "LINENOISE_HISTORY_EMPTY \<equiv> (-3 :: int)"

definition print_text :: "'w ln_env \<Rightarrow> u8 list \<Rightarrow> 'w linenoise \<Rightarrow> 'w linenoise" where
  "print_text env s l = l\<lparr>ln_term := (ln_term l)\<lparr>term_io := ln_print env s (term_io (ln_term l))\<rparr>\<rparr>"

definition term_text :: "u8 list \<Rightarrow> 'w linenoise \<Rightarrow> 'w linenoise" where
  "term_text s l = l\<lparr>ln_term := term_putstr s (ln_term l)\<rparr>"

text \<open>The string in an array, \<^verbatim>\<open>memmove\<close> inside an array, an entry of a history.\<close>

definition c_string :: "u8 list \<Rightarrow> u8 list option" where
  "c_string b = (if 0 \<in> set b then Some (takeWhile (\<lambda>x. x \<noteq> 0) b) else None)"

definition memmove :: "u8 list \<Rightarrow> nat \<Rightarrow> nat \<Rightarrow> nat \<Rightarrow> u8 list option" where
  "memmove b to from n = do { xs \<leftarrow> fetch b from n; blit b to xs }"

definition hist_put :: "nat \<Rightarrow> int \<Rightarrow> u8 list option \<Rightarrow> 'w linenoise \<Rightarrow> 'w linenoise option" where
  "hist_put i j x l =
     do { h \<leftarrow> histories l i;
          if 0 \<le> j \<and> nat j < length h then Some (l\<lparr>histories := (histories l)(i := Some (h[nat j := x]))\<rparr>) else None }"

definition hist_get :: "nat \<Rightarrow> int \<Rightarrow> 'w linenoise \<Rightarrow> u8 list option" where
  "hist_get i j l = do { h \<leftarrow> histories l i; if 0 \<le> j \<and> nat j < length h then h ! nat j else None }"

section \<open>History\<close>

text \<open>Storing a line; the oldest one is dropped when the history is full.\<close>

definition push_history :: "nat \<Rightarrow> nat \<Rightarrow> u8 list \<Rightarrow> 'w linenoise \<Rightarrow> 'w linenoise option" where
  "push_history max_len i line l =
     do { h \<leftarrow> histories l i;
          let full = (history_lengths l i = int max_len);
          let l1 = (if full then l\<lparr>histories := (histories l)(i := Some (tl h @ [last h])), history_lengths := (history_lengths l)(i := history_lengths l i - 1)\<rparr>
                    else l);
          l2 \<leftarrow> hist_put i (history_lengths l1 i) (Some line) l1;
          Some (l2\<lparr>history_lengths := (history_lengths l2)(i := history_lengths l2 i + 1)\<rparr>) }"

function add_lines :: "'w ln_env \<Rightarrow> nat \<Rightarrow> u8 list \<Rightarrow> bool \<Rightarrow> 'w linenoise \<Rightarrow> (int \<times> 'w linenoise) option" where
  "add_lines env i line force_empty l =
     (let piece = takeWhile (\<lambda>c. c \<noteq> 10) line; p = dropWhile (\<lambda>c. c \<noteq> 10) line in
      if (piece \<noteq> [] \<or> force_empty) \<and> \<not> ln_malloc env (length piece + 1)
      then Some (0, print_text env (map of_char ''out of memory in linenoise while trying to add a line to history.'' @ [10]) l)
      else do { l1 \<leftarrow> (if piece \<noteq> [] \<or> force_empty then push_history (history_max_lengths env i) i piece l else Some l);
                if p = [] \<or> tl p = [] then Some (1, l1) else add_lines env i (tl p) force_empty l1 })"
  by pat_completeness auto
termination
proof (relation "measure (\<lambda>(env, i, line, f, l). length line)")
  fix line x xa
  assume "xa = dropWhile (\<lambda>c. c \<noteq> (10 :: u8)) line" "\<not> (xa = [] \<or> tl xa = [])"
  then have "length (tl xa) < length xa" "length xa \<le> length line" by (auto simp: length_dropWhile_le)
  then show "((env, i, tl xa, f, l1), (env, i, line, f, l)) \<in> measure (\<lambda>(env, i, line, f, l). length line)" for env i f l1 l
    by simp
qed simp

declare add_lines.simps [simp del]

definition linenoise_internal_addhistory :: "'w ln_env \<Rightarrow> nat \<Rightarrow> u8 list \<Rightarrow> bool \<Rightarrow> 'w linenoise \<Rightarrow> (int \<times> 'w linenoise) option" where
  "linenoise_internal_addhistory env i line force_empty l =
     (let max_len = history_max_lengths env i in
      if max_len = 0 then Some (0, l)
      else if histories l i = None \<and> \<not> ln_malloc env (4 * max_len)
      then Some (0, print_text env (map of_char ''out of memory in linenoise while trying to allocate history buffer.'' @ [10]) l)
      else add_lines env i line force_empty
             (if histories l i = None then l\<lparr>histories := (histories l)(i := Some (replicate max_len None))\<rparr> else l))"

definition linenoise_addhistory :: "'w ln_env \<Rightarrow> nat \<Rightarrow> u8 list \<Rightarrow> 'w linenoise \<Rightarrow> (int \<times> 'w linenoise) option" where
  "linenoise_addhistory env i line l = linenoise_internal_addhistory env i line False l"

fun history_text :: "u8 list option list \<Rightarrow> u8 list option" where
  "history_text [] = Some []"
| "history_text (x # xs) = do { s \<leftarrow> x; r \<leftarrow> history_text xs; Some (s @ 10 # r) }"

definition linenoise_savehistory :: "'w ln_env \<Rightarrow> nat \<Rightarrow> u8 list \<Rightarrow> 'w linenoise \<Rightarrow> (int \<times> 'w linenoise) option" where
  "linenoise_savehistory env i filename l =
     (if history_max_lengths env i = 0 then Some (LINENOISE_HISTORY_NOT_ENABLED, l)
      else (case histories l i of
              None \<Rightarrow> Some (LINENOISE_HISTORY_EMPTY, l)
            | Some h \<Rightarrow>
                if history_lengths l i = 0 then Some (LINENOISE_HISTORY_EMPTY, l)
                else if \<not> ln_fopen env filename then Some (-1, l)
                else do { h1 \<leftarrow> fetch h 0 (nat (history_lengths l i));
                          s \<leftarrow> history_text h1;
                          Some (0, l\<lparr>ln_files := ln_files l @ [(filename, s)]\<rparr>) }))"

definition linenoise_cleanup :: "'w ln_env \<Rightarrow> nat \<Rightarrow> 'w linenoise \<Rightarrow> 'w linenoise option" where
  "linenoise_cleanup env i l =
     do { l1 \<leftarrow> (case LINENOISE_AUTOSAVE_FNAME env of
                   Some name \<Rightarrow>
                     if i = LINENOISE_ID_LUA
                     then do { (r, l1) \<leftarrow> linenoise_savehistory env i name l;
                               Some (if r = 0 then print_text env (map of_char ''History saved to '' @ name @ map of_char ''.'' @ [10]) l1
                                     else print_text env (map of_char ''Unable to save history to '' @ name @ map of_char ''.'' @ [10]) l1) }
                     else Some l
                 | None \<Rightarrow> Some l);
          Some (l1\<lparr>histories := (histories l1)(i := None), history_lengths := (history_lengths l1)(i := 0)\<rparr>) }"

section \<open>Drawing the line\<close>

text \<open>The line scrolls: characters are dropped on the left until the cursor is on the screen, then on the right until the rest is. \<open>off\<close> is
  how far \<^verbatim>\<open>buf\<close> has been advanced.\<close>

partial_function (option) scroll_left :: "u32 \<Rightarrow> u32 \<Rightarrow> nat \<Rightarrow> u32 \<Rightarrow> u32 \<Rightarrow> (nat \<times> u32 \<times> u32) option" where
  "scroll_left cols plen off len pos =
     (if plen + pos \<ge> cols then scroll_left cols plen (off + 1) (len - 1) (pos - 1) else Some (off, len, pos))"

partial_function (option) cut_right :: "u32 \<Rightarrow> u32 \<Rightarrow> u32 \<Rightarrow> u32 option" where
  "cut_right cols plen len = (if plen + len > cols then cut_right cols plen (len - 1) else Some len)"

definition dec_int :: "int \<Rightarrow> u8 list" where
  "dec_int i = (if i < 0 then 0x2D # dec (nat (- i)) else dec (nat i))"

definition refreshLine :: "u8 list \<Rightarrow> u8 list \<Rightarrow> nat \<Rightarrow> nat \<Rightarrow> u32 \<Rightarrow> 'w linenoise \<Rightarrow> 'w linenoise option" where
  "refreshLine prompt b len pos cols l =
     (let plen = of_nat (length prompt) in
      do { (off, len1, pos1) \<leftarrow> scroll_left cols plen 0 (of_nat len) (of_nat pos);
           len2 \<leftarrow> cut_right cols plen len1;
           s \<leftarrow> fetch b off (unat len2);
           Some (term_text (take 15 (0x0D # 0x1B # 0x5B # dec_int (sint (pos1 + plen)) @ [0x43]))
                  (term_text [0x1B, 0x5B, 0x30, 0x4B] (term_text s (term_text prompt (term_text [0x0D] l))))) })"
section \<open>Editing\<close>

text \<open>The variables of \<^verbatim>\<open>linenoisePrompt\<close>; \<open>buflen\<close> below is after the subtraction that leaves space for the terminator.\<close>

record edit =
  e_buf :: "u8 list"
  e_len :: nat
  e_pos :: nat
  history_index :: int

definition ln_isprint :: "'w ln_env \<Rightarrow> int \<Rightarrow> bool" where
  "ln_isprint env c = (if c \<le> 255 then isprint c else ctype_beyond env c)"

definition redraw :: "'w ln_env \<Rightarrow> u8 list \<Rightarrow> edit \<times> 'w linenoise \<Rightarrow> (edit \<times> 'w linenoise) option" where
  "redraw env prompt = (\<lambda>(e, l). do { l1 \<leftarrow> refreshLine prompt (e_buf e) (e_len e) (e_pos e) (TERM_COLS env) l; Some (e, l1) })"

text \<open>The up and down arrows; \<open>recall_line\<close> copies an entry of the history to the line.\<close>

definition recall_line :: "'w ln_env \<Rightarrow> nat \<Rightarrow> u8 list \<Rightarrow> nat \<Rightarrow> int \<Rightarrow> edit \<Rightarrow> 'w linenoise \<Rightarrow> (edit \<times> 'w linenoise) option" where
  "recall_line env i prompt buflen k e l =
     do { h \<leftarrow> hist_get i (history_lengths l i - 1 - k) l;
          b \<leftarrow> blit (e_buf e) 0 (take buflen (h @ replicate buflen 0));
          b1 \<leftarrow> blit b buflen [0];
          s1 \<leftarrow> c_string b1;
          redraw env prompt (e\<lparr>e_buf := b1, e_len := length s1, e_pos := length s1, history_index := k\<rparr>, l) }"

definition history_key :: "'w ln_env \<Rightarrow> nat \<Rightarrow> u8 list \<Rightarrow> nat \<Rightarrow> int \<Rightarrow> edit \<Rightarrow> 'w linenoise \<Rightarrow> (edit \<times> 'w linenoise) option" where
  "history_key env i prompt buflen c e l =
     (let n = history_lengths l i in
      if n > 1
      then do { s \<leftarrow> c_string (e_buf e);
                l1 \<leftarrow> hist_put i (n - 1 - history_index e) (if ln_malloc env (length s + 1) then Some s else None) l;
                let k = history_index e + (if c = KC_UP then 1 else -1);
                if k < 0 then Some (e\<lparr>history_index := 0\<rparr>, l1)
                else if k \<ge> n then Some (e\<lparr>history_index := n - 1\<rparr>, l1)
                else recall_line env i prompt buflen k e l1 }
      else Some (e, l))"

definition insert_key :: "'w ln_env \<Rightarrow> u8 list \<Rightarrow> nat \<Rightarrow> int \<Rightarrow> edit \<Rightarrow> 'w linenoise \<Rightarrow> (edit \<times> 'w linenoise) option" where
  "insert_key env prompt buflen c e l =
     (if ln_isprint env c \<and> e_len e < buflen
      then if e_len e = e_pos e
           then do { b \<leftarrow> blit (e_buf e) (e_pos e) [word_of_int c];
                     b1 \<leftarrow> blit b (e_len e + 1) [0];
                     let e1 = e\<lparr>e_buf := b1, e_len := e_len e + 1, e_pos := e_pos e + 1\<rparr>;
                     if of_nat (length prompt) + of_nat (e_len e1) < TERM_COLS env
                     then Some (e1, l\<lparr>ln_term := term_putch (word_of_int c) (ln_term l)\<rparr>)
                     else redraw env prompt (e1, l) }
           else do { b \<leftarrow> memmove (e_buf e) (e_pos e + 1) (e_pos e) (e_len e - e_pos e);
                     b1 \<leftarrow> blit b (e_pos e) [word_of_int c];
                     b2 \<leftarrow> blit b1 (e_len e + 1) [0];
                     redraw env prompt (e\<lparr>e_buf := b2, e_len := e_len e + 1, e_pos := e_pos e + 1\<rparr>, l) }
      else Some (e, l))"

text \<open>A key that does not end the line.\<close>

definition edit_key :: "'w ln_env \<Rightarrow> nat \<Rightarrow> u8 list \<Rightarrow> nat \<Rightarrow> int \<Rightarrow> edit \<Rightarrow> 'w linenoise \<Rightarrow> (edit \<times> 'w linenoise) option" where
  "edit_key env i prompt buflen c e l =
     (if c = KC_BACKSPACE
      then if e_pos e > 0 \<and> e_len e > 0
           then do { b \<leftarrow> memmove (e_buf e) (e_pos e - 1) (e_pos e) (e_len e - e_pos e);
                     b1 \<leftarrow> blit b (e_len e - 1) [0];
                     redraw env prompt (e\<lparr>e_buf := b1, e_len := e_len e - 1, e_pos := e_pos e - 1\<rparr>, l) }
           else Some (e, l)
      else if c = KC_CTRL_T then Some (e, l)
      else if c = KC_LEFT then if e_pos e > 0 then redraw env prompt (e\<lparr>e_pos := e_pos e - 1\<rparr>, l) else Some (e, l)
      else if c = KC_RIGHT then if e_pos e \<noteq> e_len e then redraw env prompt (e\<lparr>e_pos := e_pos e + 1\<rparr>, l) else Some (e, l)
      else if c = KC_UP \<or> c = KC_DOWN then history_key env i prompt buflen c e l
      else if c = KC_DEL
      then if e_len e > 0 \<and> e_pos e < e_len e
           then do { b \<leftarrow> memmove (e_buf e) (e_pos e) (e_pos e + 1) (e_len e - e_pos e - 1);
                     b1 \<leftarrow> blit b (e_len e - 1) [0];
                     redraw env prompt (e\<lparr>e_buf := b1, e_len := e_len e - 1\<rparr>, l) }
           else Some (e, l)
      else if c = KC_HOME then redraw env prompt (e\<lparr>e_pos := 0\<rparr>, l)
      else if c = KC_END then redraw env prompt (e\<lparr>e_pos := e_len e\<rparr>, l)
      else if c = KC_CTRL_U then do { b \<leftarrow> blit (e_buf e) 0 [0]; redraw env prompt (e\<lparr>e_buf := b, e_len := 0, e_pos := 0\<rparr>, l) }
      else if c = KC_CTRL_K then do { b \<leftarrow> blit (e_buf e) (e_pos e) [0]; redraw env prompt (e\<lparr>e_buf := b, e_len := e_pos e\<rparr>, l) }
      else insert_key env prompt buflen c e l)"

definition ends_line :: "int \<Rightarrow> bool" where
  "ends_line c \<longleftrightarrow> c = KC_ENTER \<or> c = KC_CTRL_C \<or> c = KC_CTRL_Z"

partial_function (option) prompt_loop ::
  "'w ln_env \<Rightarrow> nat \<Rightarrow> u8 list \<Rightarrow> nat \<Rightarrow> edit \<Rightarrow> 'w linenoise \<Rightarrow> (int \<times> u8 list \<times> 'w linenoise) option" where
  "prompt_loop env i prompt buflen e l =
     do { (c, t) \<leftarrow> term_getch TERM_INPUT_WAIT (ln_term l);
          let l1 = l\<lparr>ln_term := t\<rparr>;
          if ends_line c
          then do { let n = history_lengths l1 i - 1;
                    l2 \<leftarrow> hist_put i n None (l1\<lparr>history_lengths := (history_lengths l1)(i := n)\<rparr>);
                    Some (if c = KC_CTRL_C then LINENOISE_CTRL_C else if c = KC_CTRL_Z then -1 else int (e_len e), e_buf e, l2) }
          else do { (e1, l2) \<leftarrow> edit_key env i prompt buflen c e l1; prompt_loop env i prompt buflen e1 l2 } }"

definition linenoisePrompt :: "'w ln_env \<Rightarrow> nat \<Rightarrow> u8 list \<Rightarrow> nat \<Rightarrow> u8 list \<Rightarrow> 'w linenoise \<Rightarrow> (int \<times> u8 list \<times> 'w linenoise) option" where
  "linenoisePrompt env i b buflen prompt l =
     do { b1 \<leftarrow> blit b 0 [0];
          (r, l1) \<leftarrow> linenoise_internal_addhistory env i [] True l;
          prompt_loop env i prompt (buflen - 1) \<lparr>e_buf = b1, e_len = 0, e_pos = 0, history_index = 0\<rparr> (term_text prompt l1) }"

partial_function (option) getline_loop ::
  "'w ln_env \<Rightarrow> nat \<Rightarrow> u8 list \<Rightarrow> nat \<Rightarrow> u8 list \<Rightarrow> 'w linenoise \<Rightarrow> (int \<times> u8 list \<times> 'w linenoise) option" where
  "getline_loop env i b maxinput prompt l =
     do { (count, b1, l1) \<leftarrow> linenoisePrompt env i b maxinput prompt l;
          let l2 = (if count \<noteq> -1 then print_text env [10] l1 else l1);
          if count \<noteq> LINENOISE_CTRL_C
          then do { b2 \<leftarrow> (if count > 0 then blit b1 (nat count) [0] else Some b1); Some (count, b2, l2) }
          else getline_loop env i b1 maxinput prompt l2 }"

text \<open>Without a history the C library reads the line; it is stored with its terminator.\<close>

definition linenoise_getline :: "'w ln_env \<Rightarrow> nat \<Rightarrow> u8 list \<Rightarrow> nat \<Rightarrow> u8 list \<Rightarrow> 'w linenoise \<Rightarrow> (int \<times> u8 list \<times> 'w linenoise) option" where
  "linenoise_getline env i b maxinput prompt l =
     (if history_max_lengths env i = 0
      then let l1 = print_text env prompt l; (line, w) = ln_fgets env maxinput (term_io (ln_term l1));
               l2 = l1\<lparr>ln_term := (ln_term l1)\<lparr>term_io := w\<rparr>\<rparr>
           in (case line of None \<Rightarrow> Some (-1, b, l2) | Some s \<Rightarrow> do { b1 \<leftarrow> blit b 0 (s @ [0]); Some (0, b1, l2) })
      else getline_loop env i b maxinput prompt l)"

section \<open>The reference editor\<close>

text \<open>The line before and after the cursor, the lines of the history with the edited one at the end, and how far back in it the editor is.\<close>

record ed =
  ed_before :: "u8 list"
  ed_after :: "u8 list"
  ed_lines :: "u8 list list"
  ed_at :: nat

definition ed_line :: "ed \<Rightarrow> u8 list" where
  "ed_line d = ed_before d @ ed_after d"

definition ed_store :: "ed \<Rightarrow> ed" where
  "ed_store d = d\<lparr>ed_lines := (ed_lines d)[length (ed_lines d) - 1 - ed_at d := ed_line d]\<rparr>"

definition ed_recall :: "nat \<Rightarrow> nat \<Rightarrow> ed \<Rightarrow> ed" where
  "ed_recall lim k d = d\<lparr>ed_at := k, ed_before := take lim (ed_lines d ! (length (ed_lines d) - 1 - k)), ed_after := []\<rparr>"

definition ed_key :: "nat \<Rightarrow> int \<Rightarrow> ed \<Rightarrow> ed" where
  "ed_key lim c d =
     (if c = KC_BACKSPACE then d\<lparr>ed_before := butlast (ed_before d)\<rparr>
      else if c = KC_DEL then d\<lparr>ed_after := tl (ed_after d)\<rparr>
      else if c = KC_LEFT then (if ed_before d = [] then d else d\<lparr>ed_before := butlast (ed_before d), ed_after := last (ed_before d) # ed_after d\<rparr>)
      else if c = KC_RIGHT then (if ed_after d = [] then d else d\<lparr>ed_before := ed_before d @ [hd (ed_after d)], ed_after := tl (ed_after d)\<rparr>)
      else if c = KC_HOME then d\<lparr>ed_before := [], ed_after := ed_line d\<rparr>
      else if c = KC_END then d\<lparr>ed_before := ed_line d, ed_after := []\<rparr>
      else if c = KC_CTRL_U then d\<lparr>ed_before := [], ed_after := []\<rparr>
      else if c = KC_CTRL_K then d\<lparr>ed_after := []\<rparr>
      else if c = KC_UP then (if length (ed_lines d) \<le> 1 then d
        else if ed_at d + 1 < length (ed_lines d) then ed_recall lim (ed_at d + 1) (ed_store d) else ed_store d)
      else if c = KC_DOWN then (if length (ed_lines d) \<le> 1 then d
        else if 0 < ed_at d then ed_recall lim (ed_at d - 1) (ed_store d) else ed_store d)
      else if c \<le> 255 \<and> isprint c \<and> length (ed_line d) < lim then d\<lparr>ed_before := ed_before d @ [word_of_int c]\<rparr> else d)"

section \<open>What is drawn\<close>

text \<open>How far a line is scrolled, and the part of it on the screen: \<open>p\<close> is the width of the prompt, \<open>c\<close> that of the screen.\<close>

definition scrolled :: "nat \<Rightarrow> nat \<Rightarrow> nat \<Rightarrow> nat" where
  "scrolled p c pos = p + pos + 1 - c"

definition shown :: "nat \<Rightarrow> nat \<Rightarrow> u8 list \<Rightarrow> nat \<Rightarrow> u8 list" where
  "shown p c line pos = take (c - p) (drop (scrolled p c pos) line)"

definition line_text :: "u8 list \<Rightarrow> nat \<Rightarrow> u8 list \<Rightarrow> nat \<Rightarrow> u8 list" where
  "line_text prompt c line pos =
     0x0D # prompt @ shown (length prompt) c line pos @ [0x1B, 0x5B, 0x30, 0x4B]
       @ 0x0D # 0x1B # 0x5B # dec (length prompt + pos - scrolled (length prompt) c pos) @ [0x43]"

lemma u32_of_nat: "n < 2 ^ 32 \<Longrightarrow> unat (of_nat n :: u32) = n"
  by (simp add: unat_of_nat take_bit_nat_eq_self)

lemma u32_sum: "m + n < 2 ^ 32 \<Longrightarrow> unat (of_nat m + of_nat n :: u32) = m + n"
  using u32_of_nat [of "m + n"] by simp

lemma u32_pred: "0 < n \<Longrightarrow> (of_nat n :: u32) - 1 = of_nat (n - 1)"
  by (cases n) simp_all

lemma sint_of_nat: "n < 2 ^ 31 \<Longrightarrow> sint (of_nat n :: u32) = int n"
  by (simp only: signed_of_nat) (simp add: signed_take_bit_int_eq_self)

lemma scroll_left_closed:
  assumes "pos \<le> len" "p + len < 2 ^ 32" "p < unat cols"
  shows "scroll_left cols (of_nat p) off (of_nat len) (of_nat pos) =
    Some (off + scrolled p (unat cols) pos, of_nat (len - scrolled p (unat cols) pos), of_nat (pos - scrolled p (unat cols) pos))"
  using assms
proof (induction pos arbitrary: off len)
  case 0
  then have "\<not> cols \<le> of_nat p" by (simp add: word_le_nat_alt u32_of_nat)
  with 0 show ?case by (subst scroll_left.simps) (simp add: scrolled_def)
next
  case (Suc pos)
  have u: "unat (of_nat p + of_nat (Suc pos) :: u32) = p + Suc pos" using Suc.prems by (intro u32_sum) simp
  show ?case
  proof (cases "cols \<le> of_nat p + of_nat (Suc pos)")
    case True
    then have "unat cols \<le> p + Suc pos" using u by (simp add: word_le_nat_alt)
    then have "scrolled p (unat cols) (Suc pos) = Suc (scrolled p (unat cols) pos)" by (simp add: scrolled_def)
    moreover have "(of_nat len :: u32) - 1 = of_nat (len - 1)" "(of_nat (Suc pos) :: u32) - 1 = of_nat pos"
      using Suc.prems u32_pred [of len] u32_pred [of "Suc pos"] by simp_all
    then have "scroll_left cols (of_nat p) off (of_nat len) (of_nat (Suc pos)) = scroll_left cols (of_nat p) (off + 1) (of_nat (len - 1)) (of_nat pos)"
      using True by (subst scroll_left.simps) (simp only: if_True)
    moreover have "p + (len - 1) < 2 ^ 32" "pos \<le> len - 1" using Suc.prems by simp_all
    ultimately show ?thesis using Suc.IH [of "len - 1" "off + 1"] Suc.prems(3) by (simp only: add_Suc_right add_Suc diff_Suc_Suc Suc_eq_plus1 diff_diff_left)
        (simp add: add.commute)
  next
    case False
    then have "scrolled p (unat cols) (Suc pos) = 0" using u by (simp add: word_le_nat_alt scrolled_def)
    with False show ?thesis by (subst scroll_left.simps) simp
  qed
qed

lemma cut_right_closed:
  assumes "p + len < 2 ^ 32" "p < unat cols"
  shows "cut_right cols (of_nat p) (of_nat len) = Some (of_nat (min len (unat cols - p)))"
  using assms(1)
proof (induction len)
  case 0
  then have "\<not> cols < of_nat p" using assms(2) by (simp add: word_less_nat_alt u32_of_nat)
  then show ?case by (subst cut_right.simps) simp
next
  case (Suc len)
  have u: "unat (of_nat p + of_nat (Suc len) :: u32) = p + Suc len" using Suc.prems by (intro u32_sum) simp
  show ?case
  proof (cases "cols < of_nat p + of_nat (Suc len)")
    case True
    then have "unat cols < p + Suc len" using u by (simp add: word_less_nat_alt)
    then have "min (Suc len) (unat cols - p) = min len (unat cols - p)" by simp
    with Suc True u32_pred [of "Suc len"] show ?thesis by (subst cut_right.simps) simp
  next
    case False
    then have "min (Suc len) (unat cols - p) = Suc len" using u by (simp add: word_less_nat_alt)
    with False show ?thesis by (subst cut_right.simps) simp
  qed
qed

lemma term_text_append: "term_text s (term_text r l) = term_text (r @ s) l"
  by (simp add: term_text_def term_putstr_def)

lemma refreshLine_text:
  assumes w: "length prompt + len < 2 ^ 31" "length prompt < unat cols" and e: "pos \<le> len" "len \<le> length b"
  shows "refreshLine prompt b len pos cols l = Some (term_text (line_text prompt (unat cols) (take len b) pos) l)"
proof -
  let ?p = "length prompt" and ?c = "unat cols"
  define d where "d = scrolled ?p ?c pos"
  have dp: "d \<le> pos" "?p + (pos - d) < ?c" "?p \<le> ?c" using w(2) by (simp_all add: d_def scrolled_def)
  define n where "n = min (len - d) (?c - ?p)"
  have s: "scroll_left cols (of_nat ?p) 0 (of_nat len) (of_nat pos) = Some (d, of_nat (len - d), of_nat (pos - d))"
    using scroll_left_closed [of pos len ?p cols 0] w e by (simp add: d_def)
  have c: "cut_right cols (of_nat ?p) (of_nat (len - d)) = Some (of_nat n)"
    using cut_right_closed [of ?p "len - d" cols] w by (simp add: n_def)
  have n: "unat (of_nat n :: u32) = n" "d + n \<le> len" using w e dp by (auto simp: n_def intro!: u32_of_nat)
  have f: "fetch b d n = Some (shown ?p ?c (take len b) pos)"
    using n e by (simp add: fetch_def shown_def drop_take min.commute n_def flip: d_def)
  have "?p + (pos - d) < 2 ^ 31" using w(1) e(1) by simp
  then have "sint (of_nat (?p + pos - d) :: u32) = int (?p + pos - d)"
    using dp(1) by (intro sint_of_nat) simp
  moreover have "of_nat (pos - d) + of_nat ?p = (of_nat (?p + pos - d) :: u32)" using dp(1) by simp
  ultimately have i: "sint (of_nat (pos - d) + of_nat ?p :: u32) = int (?p + pos - d)" by simp
  have "length (dec (?p + pos - d)) \<le> 10" using \<open>?p + (pos - d) < 2 ^ 31\<close> dp(1) by (intro dec_length) auto
  then have t: "take 15 (0x0D # 0x1B # 0x5B # dec (?p + pos - d) @ [0x43]) = 0x0D # 0x1B # 0x5B # dec (?p + pos - d) @ [0x43 :: u8]" by simp
  show ?thesis
    by (simp only: refreshLine_def Let_def s c n f i t dec_int_def bind.bind_lunit prod.case of_nat_less_0_iff if_False nat_int term_text_append line_text_def
        append_assoc append_Cons append_Nil d_def [symmetric])
qed

section \<open>The editor is the reference editor\<close>

text \<open>The build and the line: the prompt fits on the screen, the copies of lines can be allocated, no key code is a printable character.\<close>

definition ln_ok :: "'w ln_env \<Rightarrow> nat \<Rightarrow> u8 list \<Rightarrow> nat \<Rightarrow> bool" where
  "ln_ok env i prompt lim \<longleftrightarrow> length prompt + lim < 2 ^ 31 \<and> length prompt < unat (TERM_COLS env) \<and> (\<forall>n \<le> lim + 1. ln_malloc env n)
     \<and> ln_malloc env (4 * history_max_lengths env i)     \<and> (\<forall>c. \<not> ctype_beyond env c) \<and> 0 < history_max_lengths env i"

definition buf_rel :: "nat \<Rightarrow> ed \<Rightarrow> edit \<Rightarrow> bool" where
  "buf_rel lim d e \<longleftrightarrow> lim < length (e_buf e) \<and> e_len e = length (ed_line d) \<and> e_pos e = length (ed_before d) \<and> length (ed_line d) \<le> lim
     \<and> 0 \<notin> set (ed_line d) \<and> (\<exists>r. e_buf e = ed_before d @ ed_after d @ 0 # r)"

definition hist_rel :: "nat \<Rightarrow> nat \<Rightarrow> ed \<Rightarrow> 'w linenoise \<Rightarrow> bool" where
  "hist_rel m i d l \<longleftrightarrow> ed_at d < length (ed_lines d) \<and> history_lengths l i = int (length (ed_lines d)) \<and> (\<forall>s \<in> set (ed_lines d). 0 \<notin> set s)
     \<and> (\<exists>h. histories l i = Some h \<and> length h = m \<and> length (ed_lines d) \<le> m \<and> take (length (ed_lines d)) h = map Some (ed_lines d))"

definition ed_rel :: "nat \<Rightarrow> nat \<Rightarrow> nat \<Rightarrow> ed \<Rightarrow> edit \<Rightarrow> 'w linenoise \<Rightarrow> bool" where
  "ed_rel m i lim d e l \<longleftrightarrow> buf_rel lim d e \<and> hist_rel m i d l \<and> history_index e = int (ed_at d)"

text \<open>Only the terminal is written to.\<close>

definition drew :: "'w term_state \<Rightarrow> 'w term_state \<Rightarrow> bool" where
  "drew t t' \<longleftrightarrow> t' = t \<or> (\<exists>s. t' = term_putstr s t) \<or> (\<exists>c. t' = term_putch c t)"

lemma move_left: "memmove (b @ x # a @ r) (length b) (length b + 1) (length a) = Some (b @ a @ drop (length a) (x # a @ r))"
  by (simp add: memmove_def fetch_def blit_def)

lemma move_right: "memmove (b @ a @ x # r) (length b + 1) (length b) (length a) = Some (b @ hd (a @ [x]) # a @ r)"
  by (cases a) (simp_all add: memmove_def fetch_def blit_def)

lemma put_at: "s \<noteq> [] \<Longrightarrow> blit (b @ s) (length b) [x] = Some (b @ x # tl s)"
  by (cases s) (simp_all add: blit_def)

lemma put_at': "s \<noteq> [] \<Longrightarrow> n = length b + length a \<Longrightarrow> blit (b @ a @ s) n [x] = Some (b @ a @ x # tl s)"
  using put_at [of s "b @ a" x] by simp

lemma hist_rel_text [simp]: "hist_rel m i d (term_text s l) = hist_rel m i d l" "hist_rel m i d (l\<lparr>ln_term := t\<rparr>) = hist_rel m i d l"
  by (simp_all add: hist_rel_def term_text_def)

lemma hist_rel_frame:
  "hist_rel m i (d\<lparr>ed_before := x\<rparr>) l = hist_rel m i d l" "hist_rel m i (d\<lparr>ed_after := y\<rparr>) l = hist_rel m i d l"
  by (simp_all add: hist_rel_def)

text \<open>Keys that move in the line or change it: the array then holds the new line, and it is drawn.\<close>

lemma redraw_rel:
  assumes ok: "ln_ok env i prompt lim" and b: "buf_rel lim d e"
  shows "\<exists>s. redraw env prompt (e, l) = Some (e, term_text s l)"
proof -
  have "e_len e \<le> lim" "e_pos e \<le> e_len e" "e_len e \<le> length (e_buf e)" "length prompt + lim < 2 ^ 31"
    using ok b by (auto simp: ln_ok_def buf_rel_def ed_line_def)
  then have "length prompt + e_len e < 2 ^ 31" by simp
  from refreshLine_text [OF this, of "TERM_COLS env" "e_pos e" "e_buf e" l] \<open>e_pos e \<le> e_len e\<close> \<open>e_len e \<le> length (e_buf e)\<close> ok
  show ?thesis by (auto simp: redraw_def ln_ok_def)
qed

definition key_done :: "nat \<Rightarrow> nat \<Rightarrow> nat \<Rightarrow> ed \<Rightarrow> 'w term_state \<Rightarrow> (edit \<times> 'w linenoise) option \<Rightarrow> bool" where
  "key_done m i lim d t r \<longleftrightarrow> (\<exists>e l. r = Some (e, l) \<and> ed_rel m i lim d e l \<and> drew t (ln_term l))"

lemma redraw_done:
  assumes "ln_ok env i prompt lim" "ed_rel m i lim d e l"
  shows "key_done m i lim d (ln_term l) (redraw env prompt (e, l))"
  using redraw_rel [of env i prompt lim d e l] assms by (auto simp: key_done_def ed_rel_def drew_def term_text_def)

lemma unchanged_done: "ed_rel m i lim d e l \<Longrightarrow> key_done m i lim d (ln_term l) (Some (e, l))"
  by (simp add: key_done_def drew_def)

lemma backspace_done:
  assumes ok: "ln_ok env i prompt lim" and r: "ed_rel m i lim d e l"
  shows "key_done m i lim (ed_key lim KC_BACKSPACE d) (ln_term l) (edit_key env i prompt lim KC_BACKSPACE e l)"
proof (cases "ed_before d" rule: rev_cases)
  case Nil
  then have "ed_key lim KC_BACKSPACE d = d" "edit_key env i prompt lim KC_BACKSPACE e l = Some (e, l)"
    using r by (simp_all add: ed_key_def edit_key_def ed_rel_def buf_rel_def)
  then show ?thesis using r unchanged_done by metis
next
  case (snoc b x)
  obtain rest where e: "e_buf e = b @ x # ed_after d @ 0 # rest" "e_pos e = length b + 1" "e_len e = length b + length (ed_after d) + 1"
    using r snoc by (auto simp: ed_rel_def buf_rel_def ed_line_def)
  let ?e = "e\<lparr>e_buf := b @ ed_after d @ 0 # tl (drop (length (ed_after d)) (x # ed_after d @ 0 # rest)), e_len := e_len e - 1, e_pos := e_pos e - 1\<rparr>"
  have "edit_key env i prompt lim KC_BACKSPACE e l = redraw env prompt (?e, l)"
    using e move_left [of b x "ed_after d" "0 # rest"]
      put_at' [of "drop (length (ed_after d)) (x # ed_after d @ 0 # rest)" "e_len e - 1" b "ed_after d" 0] by (simp add: edit_key_def)
  moreover have "ed_rel m i lim (ed_key lim KC_BACKSPACE d) ?e l"
    using r snoc e by (auto simp: ed_rel_def buf_rel_def ed_line_def ed_key_def hist_rel_frame)
  ultimately show ?thesis using redraw_done [OF ok] by metis
qed

lemma del_done:
  assumes ok: "ln_ok env i prompt lim" and r: "ed_rel m i lim d e l"
  shows "key_done m i lim (ed_key lim KC_DEL d) (ln_term l) (edit_key env i prompt lim KC_DEL e l)"
proof (cases "ed_after d")
  case Nil
  then have "ed_key lim KC_DEL d = d" "edit_key env i prompt lim KC_DEL e l = Some (e, l)"
    using r by (simp_all add: ed_key_def edit_key_def ed_rel_def buf_rel_def ed_line_def)
  then show ?thesis using r unchanged_done by metis
next
  case (Cons x a)
  let ?b = "ed_before d"
  obtain rest where e: "e_buf e = ?b @ x # a @ 0 # rest" "e_pos e = length ?b" "e_len e = length ?b + length a + 1"
    using r Cons by (auto simp: ed_rel_def buf_rel_def ed_line_def)
  let ?e = "e\<lparr>e_buf := ?b @ a @ 0 # tl (drop (length a) (x # a @ 0 # rest)), e_len := e_len e - 1\<rparr>"
  have "edit_key env i prompt lim KC_DEL e l = redraw env prompt (?e, l)"
    using e move_left [of ?b x a "0 # rest"] put_at' [of "drop (length a) (x # a @ 0 # rest)" "e_len e - 1" ?b a 0] by (simp add: edit_key_def)
  moreover have "ed_rel m i lim (ed_key lim KC_DEL d) ?e l"
    using r Cons e by (auto simp: ed_rel_def buf_rel_def ed_line_def ed_key_def hist_rel_frame)
  ultimately show ?thesis using redraw_done [OF ok] by metis
qed

lemma move_done:
  assumes ok: "ln_ok env i prompt lim" and r: "ed_rel m i lim d e l" and c: "c \<in> {KC_LEFT, KC_RIGHT, KC_HOME, KC_END}"
  shows "key_done m i lim (ed_key lim c d) (ln_term l) (edit_key env i prompt lim c e l)"
proof -
  have step: "key_done m i lim d' (ln_term l) (edit_key env i prompt lim c e l)"
    if "edit_key env i prompt lim c e l = redraw env prompt (e\<lparr>e_pos := p\<rparr>, l)" "ed_line d' = ed_line d" "p = length (ed_before d')"
      "ed_lines d' = ed_lines d" "ed_at d' = ed_at d" for d' p
  proof -
    have "ed_rel m i lim d' (e\<lparr>e_pos := p\<rparr>) l"
      using r that(2-5) by (auto simp: ed_rel_def buf_rel_def hist_rel_def ed_line_def) (metis append_assoc)
    then show ?thesis using redraw_done [OF ok] that(1) by metis
  qed
  have still: "key_done m i lim d (ln_term l) (edit_key env i prompt lim c e l)" if "edit_key env i prompt lim c e l = Some (e, l)"
    using that unchanged_done [OF r] by simp
  have e: "e_pos e = length (ed_before d)" "e_len e = length (ed_before d) + length (ed_after d)"
    using r by (simp_all add: ed_rel_def buf_rel_def ed_line_def)
  from c consider "c = KC_LEFT" | "c = KC_RIGHT" | "c = KC_HOME" | "c = KC_END" by auto
  then show ?thesis
  proof cases
    case 1
    show ?thesis
    proof (cases "ed_before d = []")
      case True
      with 1 e still show ?thesis by (simp add: ed_key_def edit_key_def)
    next
      case False
      with 1 e show ?thesis by (intro step [of "e_pos e - 1"]) (simp_all add: ed_key_def edit_key_def ed_line_def)
    qed
  next
    case 2
    show ?thesis
    proof (cases "ed_after d = []")
      case True
      with 2 e still show ?thesis by (simp add: ed_key_def edit_key_def)
    next
      case False
      with 2 e show ?thesis by (intro step [of "e_pos e + 1"]) (simp_all add: ed_key_def edit_key_def ed_line_def)
    qed
  next
    case 3
    with e show ?thesis by (intro step [of 0]) (simp_all add: ed_key_def edit_key_def ed_line_def)
  next
    case 4
    with e show ?thesis by (intro step [of "e_len e"]) (simp_all add: ed_key_def edit_key_def ed_line_def)
  qed
qed

lemma kill_done:
  assumes ok: "ln_ok env i prompt lim" and r: "ed_rel m i lim d e l" and c: "c = KC_CTRL_U \<or> c = KC_CTRL_K"
  shows "key_done m i lim (ed_key lim c d) (ln_term l) (edit_key env i prompt lim c e l)"
proof -
  obtain rest where e: "e_buf e = ed_before d @ ed_after d @ 0 # rest" "e_pos e = length (ed_before d)" "lim < length (e_buf e)"
    using r by (auto simp: ed_rel_def buf_rel_def)
  from c show ?thesis
  proof
    assume c: "c = KC_CTRL_U"
    let ?e = "e\<lparr>e_buf := 0 # tl (e_buf e), e_len := 0, e_pos := 0\<rparr>"
    have "edit_key env i prompt lim c e l = redraw env prompt (?e, l)"
      using c e(3) put_at [of "e_buf e" "[]" 0] by (cases "e_buf e") (simp_all add: edit_key_def)
    moreover have "ed_rel m i lim (ed_key lim c d) ?e l"
      using r c e(3) by (cases "e_buf e") (auto simp: ed_rel_def buf_rel_def ed_line_def ed_key_def hist_rel_frame)
    ultimately show ?thesis using redraw_done [OF ok] by metis
  next
    assume c: "c = KC_CTRL_K"
    let ?s = "ed_after d @ 0 # rest"
    let ?e = "e\<lparr>e_buf := ed_before d @ 0 # tl ?s, e_len := e_pos e\<rparr>"
    have "edit_key env i prompt lim c e l = redraw env prompt (?e, l)"
      using c e(1,2) put_at [of ?s "ed_before d" 0] by (simp add: edit_key_def)
    moreover have "ed_rel m i lim (ed_key lim c d) ?e l"
      using r c e by (auto simp: ed_rel_def buf_rel_def ed_line_def ed_key_def hist_rel_frame)
    ultimately show ?thesis using redraw_done [OF ok] by metis
  qed
qed

lemma insert_done:
  assumes ok: "ln_ok env i prompt lim" and r: "ed_rel m i lim d e l" and c: "isprint c" "c \<le> 255" "length (ed_line d) < lim"
  shows "key_done m i lim (d\<lparr>ed_before := ed_before d @ [word_of_int c]\<rparr>) (ln_term l) (insert_key env prompt lim c e l)"
proof -
  let ?b = "ed_before d" and ?a = "ed_after d" and ?x = "word_of_int c :: u8"
  let ?d = "d\<lparr>ed_before := ?b @ [?x]\<rparr>"
  obtain rest where e: "e_buf e = ?b @ ?a @ 0 # rest" "e_pos e = length ?b" "e_len e = length ?b + length ?a" "lim < length (e_buf e)"
    using r by (auto simp: ed_rel_def buf_rel_def ed_line_def)
  have rest: "rest \<noteq> []" using e(1,4) c(3) by (auto simp: ed_line_def)
  have lim: "e_len e < lim" using e(3) c(3) by (simp add: ed_line_def)
  have x: "?x \<noteq> 0" using c(1,2) by (auto simp: isprint_def word_of_int_eq_0_iff dest: zdvd_imp_le)
  have p: "ln_isprint env c" using c by (simp add: ln_isprint_def)
  let ?e = "e\<lparr>e_buf := ?b @ ?x # ?a @ 0 # tl rest, e_len := e_len e + 1, e_pos := e_pos e + 1\<rparr>"
  have rel: "ed_rel m i lim ?d ?e l" using r e x lim by (auto simp: ed_rel_def buf_rel_def ed_line_def hist_rel_frame)
  show ?thesis
  proof (cases "?a = []")
    case True
    have "blit (e_buf e) (e_pos e) [?x] = Some (?b @ ?x # rest)" using e True put_at [of "0 # rest" ?b ?x] by simp
    moreover have "blit (?b @ ?x # rest) (e_len e + 1) [0] = Some (?b @ ?x # 0 # tl rest)"
      using put_at [OF rest, of "?b @ [?x]" 0] e True by simp
    ultimately have "insert_key env prompt lim c e l =
        (if of_nat (length prompt) + of_nat (e_len ?e) < TERM_COLS env then Some (?e, l\<lparr>ln_term := term_putch ?x (ln_term l)\<rparr>) else redraw env prompt (?e, l))"
      using e True lim p by (simp add: insert_key_def Let_def)
    moreover have "key_done m i lim ?d (ln_term l) (Some (?e, l\<lparr>ln_term := term_putch ?x (ln_term l)\<rparr>))"
      using rel by (auto simp: key_done_def drew_def ed_rel_def)
    ultimately show ?thesis using redraw_done [OF ok rel] by simp
  next
    case False
    have "memmove (e_buf e) (e_pos e + 1) (e_pos e) (e_len e - e_pos e) = Some (?b @ hd (?a @ [0]) # ?a @ rest)"
      using move_right [of ?b ?a 0 rest] e by simp
    moreover have "blit (?b @ hd (?a @ [0]) # ?a @ rest) (e_pos e) [?x] = Some (?b @ ?x # ?a @ rest)"
      using put_at [of "hd (?a @ [0]) # ?a @ rest" ?b ?x] e by simp
    moreover have "blit (?b @ ?x # ?a @ rest) (e_len e + 1) [0] = Some (?b @ ?x # ?a @ 0 # tl rest)"
      using put_at' [OF rest, of "e_len e + 1" "?b @ [?x]" ?a 0] e by simp
    ultimately have "insert_key env prompt lim c e l = redraw env prompt (?e, l)"
      using e False lim p by (simp add: insert_key_def)
    then show ?thesis using redraw_done [OF ok rel] by simp
  qed
qed

lemma c_string_line: "0 \<notin> set s \<Longrightarrow> c_string (s @ 0 # r) = Some s"
proof -
  assume "0 \<notin> set s"
  then have "takeWhile (\<lambda>x. x \<noteq> 0) (s @ 0 # r) = s" by (subst takeWhile_append2) auto
  then show ?thesis by (simp add: c_string_def)
qed

lemma hist_slot:
  assumes "hist_rel m i d l"
  shows "history_lengths l i - 1 - int (ed_at d) = int (length (ed_lines d) - 1 - ed_at d)" "length (ed_lines d) - 1 - ed_at d < length (ed_lines d)"
  using assms by (auto simp: hist_rel_def)

lemma hist_put_store:
  assumes h: "hist_rel m i d l" and z: "0 \<notin> set (ed_line d)"
  shows "\<exists>l1. hist_put i (int (length (ed_lines d) - 1 - ed_at d)) (Some (ed_line d)) l = Some l1 \<and> hist_rel m i (ed_store d) l1 \<and> ln_term l1 = ln_term l"
proof -
  let ?n = "length (ed_lines d)" and ?j = "length (ed_lines d) - 1 - ed_at d"
  obtain hs where hs: "histories l i = Some hs" "length hs = m" "?n \<le> m" "take ?n hs = map Some (ed_lines d)" using h by (auto simp: hist_rel_def)
  have j: "?j < ?n" using hist_slot(2) [OF h] .
  then have "\<forall>s \<in> set ((ed_lines d)[?j := ed_line d]). 0 \<notin> set s"
    using h z set_update_subset_insert [of "ed_lines d" ?j "ed_line d"] by (auto simp: hist_rel_def)
  moreover have "take ?n (hs[?j := Some (ed_line d)]) = map Some ((ed_lines d)[?j := ed_line d])"
    using hs(4) by (simp add: take_update_swap map_update)
  ultimately have "hist_rel m i (ed_store d) (l\<lparr>histories := (histories l)(i := Some (hs[?j := Some (ed_line d)]))\<rparr>)"
    using h hs(2,3) by (simp add: hist_rel_def ed_store_def)
  then show ?thesis using hs(1-3) j by (auto simp: hist_put_def)
qed

lemma hist_get_line:
  assumes "hist_rel m i d l" "j < length (ed_lines d)"
  shows "hist_get i (int j) l = Some (ed_lines d ! j)"
proof -
  obtain hs where "histories l i = Some hs" "length (ed_lines d) \<le> length hs" "take (length (ed_lines d)) hs = map Some (ed_lines d)"
    using assms(1) by (auto simp: hist_rel_def)
  moreover from this(3) assms(2) have "hs ! j = Some (ed_lines d ! j)" by (metis nth_map nth_take)
  ultimately show ?thesis using assms(2) by (simp add: hist_get_def)
qed

lemma recall_buffer:
  fixes s :: "u8 list"
  assumes "lim < length b" "0 \<notin> set s"
  shows "\<exists>b1 r. blit b 0 (take lim (s @ replicate lim 0)) = Some b1 \<and> blit b1 lim [0] = Some (take lim s @ 0 # r) \<and> lim < length (take lim s @ 0 # r)"
proof -
  let ?z = "replicate (lim - length s) (0 :: u8)"
  have t: "take lim (s @ replicate lim 0) = take lim s @ ?z" by simp
  have n: "length (take lim s @ ?z) = lim" by simp
  have "blit b 0 (take lim s @ ?z) = Some ((take lim s @ ?z) @ drop lim b)" using assms(1) n by (simp add: blit_def)
  moreover have "blit ((take lim s @ ?z) @ drop lim b) lim [0] = Some ((take lim s @ ?z) @ 0 # tl (drop lim b))"
    using put_at [of "drop lim b" "take lim s @ ?z" 0] assms(1) n by simp
  moreover obtain r where "?z @ 0 # tl (drop lim b) = 0 # r" by (cases "lim - length s") auto
  moreover have "length ((take lim s @ ?z) @ 0 # tl (drop lim b)) > lim" using n by simp
  ultimately show ?thesis unfolding t by (metis append_assoc)
qed

lemma recall_done:
  assumes ok: "ln_ok env i prompt lim" and h: "hist_rel m i d l" and b: "lim < length (e_buf e)" and k: "k < length (ed_lines d)"
  shows "key_done m i lim (ed_recall lim k d) (ln_term l)
    (recall_line env i prompt lim (int k) e l)"
proof -
  let ?j = "length (ed_lines d) - 1 - k"
  let ?s = "ed_lines d ! ?j"
  have j: "?j < length (ed_lines d)" "history_lengths l i - 1 - int k = int ?j" using k h by (auto simp: hist_rel_def)
  have z: "0 \<notin> set ?s" using h j(1) by (auto simp: hist_rel_def)
  then have z1: "0 \<notin> set (take lim ?s)" by (meson in_set_takeD)
  obtain b1 r where r: "blit (e_buf e) 0 (take lim (?s @ replicate lim 0)) = Some b1" "blit b1 lim [0] = Some (take lim ?s @ 0 # r)"
    "lim < length (take lim ?s @ 0 # r)" using recall_buffer [OF b z] by blast
  let ?e = "e\<lparr>e_buf := take lim ?s @ 0 # r, e_len := length (take lim ?s), e_pos := length (take lim ?s), history_index := int k\<rparr>"
  have "ed_rel m i lim (ed_recall lim k d) ?e l"
    using h r(3) z1 k by (auto simp: ed_rel_def buf_rel_def hist_rel_def ed_recall_def ed_line_def)
  from redraw_done [OF ok this] show ?thesis
    by (simp only: recall_line_def j(2) hist_get_line [OF h j(1)] r(1,2) c_string_line [OF z1] bind.bind_lunit)
qed

lemma history_done:
  assumes ok: "ln_ok env i prompt lim" and r: "ed_rel m i lim d e l" and c: "c = KC_UP \<or> c = KC_DOWN"
  shows "key_done m i lim (ed_key lim c d) (ln_term l) (edit_key env i prompt lim c e l)"
proof -
  let ?n = "length (ed_lines d)"
  have h: "hist_rel m i d l" and b: "lim < length (e_buf e)" and x: "history_index e = int (ed_at d)" and z: "0 \<notin> set (ed_line d)"
    and len: "history_lengths l i = int ?n" using r by (simp_all add: ed_rel_def buf_rel_def hist_rel_def)
  have key: "edit_key env i prompt lim c e l = history_key env i prompt lim c e l" using c by (auto simp: edit_key_def)
  show ?thesis
  proof (cases "?n \<le> 1")
    case True
    then have "history_key env i prompt lim c e l = Some (e, l)" "ed_key lim c d = d" using len c by (auto simp: history_key_def ed_key_def)
    then show ?thesis using unchanged_done [OF r] key by simp
  next
    case False
    obtain l1 where l1: "hist_put i (int (?n - 1 - ed_at d)) (Some (ed_line d)) l = Some l1" "hist_rel m i (ed_store d) l1" "ln_term l1 = ln_term l"
      using hist_put_store [OF h z] by blast
    have n1: "length (ed_lines (ed_store d)) = ?n" "ed_at (ed_store d) = ed_at d" "history_lengths l1 i = int ?n"
      using l1(2) by (simp_all add: ed_store_def hist_rel_def)
    obtain rs where "e_buf e = ed_line d @ 0 # rs" using r by (auto simp: ed_rel_def buf_rel_def ed_line_def)
    then have "c_string (e_buf e) = Some (ed_line d)" using c_string_line [OF z] by simp
    moreover have "length (ed_line d) \<le> lim" using r by (simp add: ed_rel_def buf_rel_def)
    then have "ln_malloc env (length (ed_line d) + 1)" using ok by (simp add: ln_ok_def)
    ultimately have run: "history_key env i prompt lim c e l =
       (let k = int (ed_at d) + (if c = KC_UP then 1 else -1) in
        if k < 0 then Some (e\<lparr>history_index := 0\<rparr>, l1)
        else if k \<ge> int ?n then Some (e\<lparr>history_index := int ?n - 1\<rparr>, l1)
        else recall_line env i prompt lim k e l1)"
      using False len x hist_slot(1) [OF h] l1(1) by (simp add: history_key_def Let_def)
    have store: "key_done m i lim (ed_store d) (ln_term l) (Some (e\<lparr>history_index := int (ed_at d)\<rparr>, l1))"
      using r l1(2,3) by (auto simp: key_done_def drew_def ed_rel_def buf_rel_def ed_store_def ed_line_def)
    have recall: "key_done m i lim (ed_recall lim k (ed_store d)) (ln_term l) (recall_line env i prompt lim (int k) e l1)" if "k < ?n" for k
      using recall_done [OF ok l1(2) b, of k] that n1 l1(3) by simp
    have at: "ed_at d < ?n" using h by (simp add: hist_rel_def)
    consider "c = KC_UP" "ed_at d + 1 < ?n" | "c = KC_UP" "\<not> ed_at d + 1 < ?n" | "c = KC_DOWN" "0 < ed_at d" | "c = KC_DOWN" "ed_at d = 0"
      using c by auto
    then show ?thesis
    proof cases
      case 1
      then have "history_key env i prompt lim c e l = recall_line env i prompt lim (int (ed_at d + 1)) e l1" using run by (simp add: add.commute)
      then show ?thesis using recall [of "ed_at d + 1"] 1 False key by (simp add: ed_key_def)
    next
      case 2
      then have "history_key env i prompt lim c e l = Some (e\<lparr>history_index := int (ed_at d)\<rparr>, l1)" using run at by simp
      then show ?thesis using store 2 False key by (simp add: ed_key_def)
    next
      case 3
      then have "history_key env i prompt lim c e l = recall_line env i prompt lim (int (ed_at d - 1)) e l1" using run at by (simp add: of_nat_diff)
      then show ?thesis using recall [of "ed_at d - 1"] 3 at False key by (simp add: ed_key_def)
    next
      case 4
      then have "history_key env i prompt lim c e l = Some (e\<lparr>history_index := int (ed_at d)\<rparr>, l1)" using run by simp
      then show ?thesis using store 4 False key by (simp add: ed_key_def)
    qed
  qed
qed

lemma edit_key_done:
  assumes ok: "ln_ok env i prompt lim" and r: "ed_rel m i lim d e l" and c: "\<not> ends_line c"
  shows "key_done m i lim (ed_key lim c d) (ln_term l) (edit_key env i prompt lim c e l)"
proof (cases "c \<in> {KC_BACKSPACE, KC_DEL, KC_LEFT, KC_RIGHT, KC_HOME, KC_END, KC_CTRL_U, KC_CTRL_K, KC_UP, KC_DOWN}")
  case True
  then show ?thesis
    using backspace_done [OF ok r] del_done [OF ok r] move_done [OF ok r, of c] kill_done [OF ok r, of c] history_done [OF ok r, of c] by auto
next
  case False
  have len: "e_len e = length (ed_line d)" using r by (simp add: ed_rel_def buf_rel_def)
  have pr: "ln_isprint env c \<longleftrightarrow> c \<le> 255 \<and> isprint c" using ok by (simp add: ln_ok_def ln_isprint_def)
  have key: "edit_key env i prompt lim c e l = (if c = KC_CTRL_T then Some (e, l) else insert_key env prompt lim c e l)"
    using False by (simp add: edit_key_def)
  show ?thesis
  proof (cases "c \<le> 255 \<and> isprint c \<and> length (ed_line d) < lim")
    case True
    then have "ed_key lim c d = d\<lparr>ed_before := ed_before d @ [word_of_int c]\<rparr>" by (simp add: ed_key_def)
    moreover have "c \<noteq> KC_CTRL_T" using True by auto
    ultimately show ?thesis using insert_done [OF ok r] True key by simp
  next
    case no: False
    then have "ed_key lim c d = d" using False by (auto simp: ed_key_def)
    moreover have "insert_key env prompt lim c e l = Some (e, l)" using no pr len by (auto simp: insert_key_def)
    ultimately show ?thesis using unchanged_done [OF r] key by simp
  qed
qed

text \<open>A history that holds \<open>ls\<close>, and what one more line makes of it.\<close>

definition hist_is :: "nat \<Rightarrow> nat \<Rightarrow> u8 list list \<Rightarrow> 'w linenoise \<Rightarrow> bool" where
  "hist_is m i ls l \<longleftrightarrow> length ls \<le> m \<and> history_lengths l i = int (length ls) \<and> (\<forall>s \<in> set ls. 0 \<notin> set s)
     \<and> (case histories l i of None \<Rightarrow> ls = [] | Some h \<Rightarrow> length h = m \<and> take (length ls) h = map Some ls)"

definition hist_add :: "nat \<Rightarrow> u8 list \<Rightarrow> u8 list list \<Rightarrow> u8 list list" where
  "hist_add m s ls = (if length ls = m then tl ls else ls) @ [s]"

lemma push_history_is:
  assumes h: "hist_is m i ls l" "histories l i \<noteq> None" and m: "0 < m" and s: "0 \<notin> set s"
  shows "\<exists>l1. push_history m i s l = Some l1 \<and> hist_is m i (hist_add m s ls) l1 \<and> histories l1 i \<noteq> None \<and> ln_term l1 = ln_term l"
proof -
  obtain hs where hs: "histories l i = Some hs" "length hs = m" "take (length ls) hs = map Some ls" "length ls \<le> m"
    "history_lengths l i = int (length ls)" "\<forall>s \<in> set ls. 0 \<notin> set s"
    using h by (auto simp: hist_is_def)
  define ls1 hs1 where "ls1 = (if length ls = m then tl ls else ls)" and "hs1 = (if length ls = m then tl hs @ [last hs] else hs)"
  have n: "length ls1 < m" "length hs1 = m" using hs(2,4) m by (auto simp: ls1_def hs1_def)
  have t: "take (length ls1) hs1 = map Some ls1"
  proof (cases "length ls = m")
    case True
    then have "hs = map Some ls" using hs(2,3) by simp
    then show ?thesis using True by (simp add: ls1_def hs1_def map_tl)
  next
    case False
    then show ?thesis using hs(3) by (simp add: ls1_def hs1_def)
  qed
  have z: "\<forall>s \<in> set ls1. 0 \<notin> set s" using hs(6) by (cases ls) (auto simp: ls1_def)
  have "take (Suc (length ls1)) (hs1[length ls1 := Some s]) = map Some (ls1 @ [s])"
    using t n by (simp add: take_Suc_conv_app_nth)
  then have "take (length (hist_add m s ls)) (hs1[length ls1 := Some s]) = map Some (hist_add m s ls)"
    by (simp add: hist_add_def ls1_def)
  moreover have "\<forall>r \<in> set (hist_add m s ls). 0 \<notin> set r" "length (hist_add m s ls) \<le> m"
    using z s n by (auto simp: hist_add_def ls1_def)
  moreover have "push_history m i s l = Some (l\<lparr>histories := (histories l)(i := Some (hs1[length ls1 := Some s])),
      history_lengths := (history_lengths l)(i := int (length ls1) + 1)\<rparr>)"
  proof (cases "length ls = m")
    case True
    have "nat (int m - 1) = m - 1" by simp
    then show ?thesis using True hs(1,2,5) m by (simp add: push_history_def hist_put_def Let_def ls1_def hs1_def)
  next
    case False
    then show ?thesis using hs(1,2,4,5) by (simp add: push_history_def hist_put_def Let_def ls1_def hs1_def)
  qed
  moreover have "length (hist_add m s ls) = length ls1 + 1" by (simp add: hist_add_def ls1_def)
  ultimately show ?thesis using n by (simp add: hist_is_def)
qed

lemma addhistory_is:
  assumes h: "hist_is m i ls l" and m: "m = history_max_lengths env i" "0 < m" and s: "0 \<notin> set s" "10 \<notin> set s" "s \<noteq> [] \<or> force"
    and mem: "ln_malloc env (length s + 1)" "ln_malloc env (4 * m)"
  shows "\<exists>l1. linenoise_internal_addhistory env i s force l = Some (1, l1) \<and> hist_is m i (hist_add m s ls) l1 \<and> histories l1 i \<noteq> None \<and> ln_term l1 = ln_term l"
proof -
  define l0 where "l0 = (if histories l i = None then l\<lparr>histories := (histories l)(i := Some (replicate m None))\<rparr> else l)"
  have l0: "hist_is m i ls l0" "histories l0 i \<noteq> None" "ln_term l0 = ln_term l" using h by (auto simp: l0_def hist_is_def split: option.splits)
  obtain l1 where l1: "push_history m i s l0 = Some l1" "hist_is m i (hist_add m s ls) l1" "histories l1 i \<noteq> None" "ln_term l1 = ln_term l0"
    using push_history_is [OF l0(1,2) m(2) s(1)] by blast
  have p: "takeWhile (\<lambda>c. c \<noteq> 10) s = s" "dropWhile (\<lambda>c. c \<noteq> 10) s = []" using s(2) by (auto simp: takeWhile_eq_all_conv dropWhile_eq_Nil_conv)
  have "add_lines env i s force l0 = Some (1, l1)"
    using l1(1) s(3) mem(1) by (subst add_lines.simps) (simp add: p m(1) [symmetric])
  then have "linenoise_internal_addhistory env i s force l = Some (1, l1)"
    using m mem(2) by (auto simp: linenoise_internal_addhistory_def l0_def)
  with l1 l0(3) show ?thesis by simp
qed

text \<open>The editor on a new line; the history after a line has been edited.\<close>

definition ed_new :: "nat \<Rightarrow> u8 list list \<Rightarrow> ed" where
  "ed_new m ls = \<lparr>ed_before = [], ed_after = [], ed_lines = hist_add m [] ls, ed_at = 0\<rparr>"

definition edited :: "nat \<Rightarrow> nat \<Rightarrow> int list \<Rightarrow> u8 list list \<Rightarrow> ed" where
  "edited lim m ks ls = fold (ed_key lim) ks (ed_new m ls)"

definition hist_after :: "nat \<Rightarrow> nat \<Rightarrow> int list \<Rightarrow> u8 list list \<Rightarrow> u8 list list" where
  "hist_after lim m ks ls = butlast (ed_lines (edited lim m ks ls))"

definition line_result :: "int \<Rightarrow> u8 list \<Rightarrow> int" where
  "line_result k line = (if k = KC_CTRL_C then LINENOISE_CTRL_C else if k = KC_CTRL_Z then -1 else int (length line))"

section \<open>Reading lines from a terminal\<close>

text \<open>\<open>ready t ks\<close>: the next keys are \<open>ks\<close>. Writing does not change what will be read.\<close>

locale key_reader =
  fixes env :: "'w ln_env" and ready :: "'w term_state \<Rightarrow> int list \<Rightarrow> bool"
  assumes ready_key: "ready t (k # ks) \<Longrightarrow> \<exists>t'. term_getch TERM_INPUT_WAIT t = Some (k, t') \<and> ready t' ks"
    and ready_putstr: "ready t ks \<Longrightarrow> ready (term_putstr s t) ks"
    and ready_putch: "ready t ks \<Longrightarrow> ready (term_putch c t) ks"
    and ready_print: "ready t ks \<Longrightarrow> ready (t\<lparr>term_io := ln_print env s (term_io t)\<rparr>) ks"
begin

lemma ready_drew: "drew t t' \<Longrightarrow> ready t ks \<Longrightarrow> ready t' ks"
  by (auto simp: drew_def ready_putstr ready_putch)

lemma end_of_line:
  assumes r: "ed_rel m i lim d e l" and m: "0 < m"
  shows "\<exists>l2. hist_put i (history_lengths l i - 1) None (l\<lparr>history_lengths := (history_lengths l)(i := history_lengths l i - 1)\<rparr>) = Some l2
    \<and> hist_is m i (butlast (ed_lines d)) l2 \<and> ln_term l2 = ln_term l"
proof -
  let ?n = "length (ed_lines d)"
  obtain hs where h: "histories l i = Some hs" "length hs = m" "?n \<le> m" "take ?n hs = map Some (ed_lines d)" "0 < ?n"
    "history_lengths l i = int ?n" "\<forall>s \<in> set (ed_lines d). 0 \<notin> set s"
    using r by (fastforce simp: ed_rel_def hist_rel_def)
  obtain n where n: "?n = Suc n" using h(5) by (cases ?n) auto
  have "take n hs = butlast (take ?n hs)" using h(2,3) n by (simp add: butlast_take)
  then have "take n hs = map Some (butlast (ed_lines d))" using h(4) by (simp add: map_butlast)
  moreover have "history_lengths l i - 1 = int n" using h(6) n by simp
  ultimately show ?thesis using h n by (auto simp: hist_put_def hist_is_def dest: in_set_butlastD)
qed

lemma prompt_loop_edits:
  assumes "ln_ok env i prompt lim" "0 < m" "ed_rel m i lim d e l" "ready (ln_term l) (ks @ k # rest)" "\<forall>c \<in> set ks. \<not> ends_line c" "ends_line k"
    and "D = fold (ed_key lim) ks d"
  shows "\<exists>b l'. prompt_loop env i prompt lim e l = Some (line_result k (ed_line D), b, l') \<and> lim < length b
    \<and> 0 \<notin> set (ed_line D) \<and> (\<exists>r. b = ed_line D @ 0 # r) \<and> hist_is m i (butlast (ed_lines D)) l' \<and> ready (ln_term l') rest"
  using assms
proof (induction ks arbitrary: d e l)
  case Nil
  from ready_key [of "ln_term l" k rest] Nil obtain t where t: "term_getch TERM_INPUT_WAIT (ln_term l) = Some (k, t)" "ready t rest" by auto
  have "ed_rel m i lim d e (l\<lparr>ln_term := t\<rparr>)" using Nil by (simp add: ed_rel_def)
  from end_of_line [OF this] Nil(2) obtain l2 where l2: "hist_put i (history_lengths l i - 1) None
      (l\<lparr>ln_term := t, history_lengths := (history_lengths l)(i := history_lengths l i - 1)\<rparr>) = Some l2"
    "hist_is m i (butlast (ed_lines d)) l2" "ln_term l2 = t" by auto
  have e: "e_len e = length (ed_line d)" "lim < length (e_buf e)" "0 \<notin> set (ed_line d)" "\<exists>r. e_buf e = ed_line d @ 0 # r"
    using Nil(3) by (auto simp: ed_rel_def buf_rel_def ed_line_def)
  have "prompt_loop env i prompt lim e l = Some (line_result k (ed_line d), e_buf e, l2)"
    using t(1) l2(1) e(1) Nil by (subst prompt_loop.simps) (simp add: Let_def line_result_def)
  then show ?case using Nil(7) l2 t(2) e by auto
next
  case (Cons c ks)
  from ready_key [of "ln_term l" c "ks @ k # rest"] Cons.prems obtain t where t: "term_getch TERM_INPUT_WAIT (ln_term l) = Some (c, t)" "ready t (ks @ k # rest)"
    by auto
  have "ed_rel m i lim d e (l\<lparr>ln_term := t\<rparr>)" "\<not> ends_line c" using Cons.prems by (simp_all add: ed_rel_def)
  from edit_key_done [OF Cons.prems(1) this] obtain e1 l1 where l1: "edit_key env i prompt lim c e (l\<lparr>ln_term := t\<rparr>) = Some (e1, l1)"
    "ed_rel m i lim (ed_key lim c d) e1 l1" "drew t (ln_term l1)" by (auto simp: key_done_def)
  have "prompt_loop env i prompt lim e l = prompt_loop env i prompt lim e1 l1"
    using t(1) l1(1) \<open>\<not> ends_line c\<close> by (subst prompt_loop.simps) simp
  then show ?case using Cons.IH [OF Cons.prems(1,2) l1(2) ready_drew [OF l1(3) t(2)]] Cons.prems by simp
qed

lemma linenoisePrompt_edits:
  assumes ok: "ln_ok env i prompt lim" and m: "m = history_max_lengths env i" and h: "hist_is m i ls l" and b: "lim < length b"
    and ks: "ready (ln_term l) (ks @ k # rest)" "\<forall>c \<in> set ks. \<not> ends_line c" "ends_line k"
  defines "line \<equiv> ed_line (edited lim m ks ls)"
  shows "\<exists>b' l'. linenoisePrompt env i b (lim + 1) prompt l = Some (line_result k line, b', l') \<and> lim < length b'
    \<and> 0 \<notin> set line \<and> (\<exists>r. b' = line @ 0 # r) \<and> hist_is m i (hist_after lim m ks ls) l' \<and> ready (ln_term l') rest"
proof -
  have m0: "0 < m" using ok m by (simp add: ln_ok_def)
  have mem: "ln_malloc env (length ([] :: u8 list) + 1)" "ln_malloc env (4 * m)" using ok m by (simp_all add: ln_ok_def)
  obtain l1 where l1: "linenoise_internal_addhistory env i [] True l = Some (1, l1)" "hist_is m i (hist_add m [] ls) l1" "histories l1 i \<noteq> None"
    "ln_term l1 = ln_term l" using addhistory_is [OF h m m0 _ _ _ mem, of True] by auto
  let ?e = "\<lparr>e_buf = 0 # tl b, e_len = 0, e_pos = 0, history_index = 0\<rparr>"
  have b0: "blit b 0 [0] = Some (0 # tl b)" using put_at [of b "[]" 0] b by (cases b) auto
  have "ed_rel m i lim (ed_new m ls) ?e (term_text prompt l1)"
    using l1(2,3) b by (cases b) (auto simp: ed_rel_def buf_rel_def hist_rel_def hist_is_def ed_new_def ed_line_def term_text_def hist_add_def)
  moreover have "ready (ln_term (term_text prompt l1)) (ks @ k # rest)" using ks(1) l1(4) by (simp add: term_text_def ready_putstr)
  ultimately show ?thesis
    using prompt_loop_edits [OF ok m0 _ _ ks(2,3) refl] b0 l1(1) by (simp add: linenoisePrompt_def line_def edited_def hist_after_def)
qed

end

text \<open>Lines that are broken off with Ctrl-C start the editor again.\<close>

definition typed :: "int list list \<Rightarrow> int list \<Rightarrow> int \<Rightarrow> int list" where
  "typed broken ks k = concat (map (\<lambda>b. b @ [KC_CTRL_C]) broken) @ ks @ [k]"

definition after_broken :: "nat \<Rightarrow> nat \<Rightarrow> int list list \<Rightarrow> u8 list list \<Rightarrow> u8 list list" where
  "after_broken lim m broken ls = fold (hist_after lim m) broken ls"

context key_reader
begin

lemma print_text_keeps:
  "hist_is m i ls (print_text env s l) = hist_is m i ls l" "ready (ln_term l) ks \<Longrightarrow> ready (ln_term (print_text env s l)) ks"
  by (simp_all add: print_text_def hist_is_def ready_print)

lemma linenoise_getline_edits:
  assumes ok: "ln_ok env i prompt lim" and m: "m = history_max_lengths env i"
    and k: "k = KC_ENTER \<or> k = KC_CTRL_Z" "\<forall>c \<in> set ks. \<not> ends_line c"
    and "hist_is m i ls l" "lim < length b" "ready (ln_term l) (typed broken ks k @ rest)" "\<forall>b \<in> set broken. \<forall>c \<in> set b. \<not> ends_line c"
    and "H = after_broken lim m broken ls" "line = ed_line (edited lim m ks H)"
  shows "\<exists>b' l'. linenoise_getline env i b (lim + 1) prompt l = Some (if k = KC_ENTER then int (length line) else -1, b', l')
    \<and> c_string b' = Some line \<and> hist_is m i (hist_after lim m ks H) l' \<and> ready (ln_term l') rest"
proof -
  have "\<exists>b' l'. getline_loop env i b (lim + 1) prompt l = Some (if k = KC_ENTER then int (length line) else -1, b', l')
      \<and> c_string b' = Some line \<and> hist_is m i (hist_after lim m ks H) l' \<and> ready (ln_term l') rest"
    using assms(5-)
  proof (induction broken arbitrary: b l ls)
    case Nil
    have e: "ends_line k" using k(1) by (auto simp: ends_line_def)
    have H: "H = ls" using Nil by (simp add: after_broken_def)
    from linenoisePrompt_edits [OF ok m Nil(1,2) _ k(2) e, of rest] Nil(3) obtain b' l' r where
      p: "linenoisePrompt env i b (lim + 1) prompt l = Some (line_result k line, b', l')" "0 \<notin> set line" "b' = line @ 0 # r"
        "hist_is m i (hist_after lim m ks ls) l'" "ready (ln_term l') rest"
      unfolding Nil(6) H by (auto simp: typed_def)
    have r: "line_result k line = (if k = KC_ENTER then int (length line) else -1)" using k(1) by (auto simp: line_result_def)
    have b: "(if line_result k line > 0 then blit b' (nat (line_result k line)) [0] else Some b') = Some b'"
      using put_at [of "0 # r" line 0] p(3) r by simp
    have "line_result k line \<noteq> LINENOISE_CTRL_C" using r by simp
    then have "getline_loop env i b (lim + 1) prompt l =
        Some (line_result k line, b', if line_result k line \<noteq> -1 then print_text env [10] l' else l')"
      using p(1) b by (subst getline_loop.simps) (simp add: Let_def)
    then show ?case using p r H c_string_line [OF p(2), of r] print_text_keeps by auto
  next
    case (Cons ks1 broken)
    have e: "ends_line KC_CTRL_C" "\<forall>c \<in> set ks1. \<not> ends_line c" using Cons.prems by (auto simp: ends_line_def)
    have rd: "ready (ln_term l) (ks1 @ KC_CTRL_C # (typed broken ks k @ rest))" using Cons.prems(3) by (simp add: typed_def)
    from linenoisePrompt_edits [OF ok m Cons.prems(1,2) rd e(2,1)] obtain b' l' where
      p: "linenoisePrompt env i b (lim + 1) prompt l = Some (LINENOISE_CTRL_C, b', l')" "lim < length b'" "hist_is m i (hist_after lim m ks1 ls) l'"
        "ready (ln_term l') (typed broken ks k @ rest)" by (auto simp: line_result_def)
    have "getline_loop env i b (lim + 1) prompt l = getline_loop env i b' (lim + 1) prompt (print_text env [10] l')"
      using p(1) by (subst getline_loop.simps) simp
    moreover have "H = after_broken lim m broken (hist_after lim m ks1 ls)" using Cons.prems(5) by (simp add: after_broken_def)
    ultimately show ?case
      using Cons.IH [of "hist_after lim m ks1 ls" "print_text env [10] l'" b'] p(2-4) print_text_keeps Cons.prems(4,6) by auto
  qed
  moreover have "history_max_lengths env i \<noteq> 0" using ok by (simp add: ln_ok_def)
  ultimately show ?thesis by (simp add: linenoise_getline_def)
qed

end

section \<open>The console provides the keys\<close>

text \<open>Standard output goes to the console as \<^verbatim>\<open>std_write\<close> sends it.\<close>

definition con_print :: "con_env \<Rightarrow> u8 list \<Rightarrow> con \<Rightarrow> con" where
  "con_print ce s c = fold (std_put (\<lambda>fd. term_out ce) 1) s c"

definition con_ready :: "con_env \<Rightarrow> con term_state \<Rightarrow> int list \<Rightarrow> bool" where
  "con_ready ce t ks \<longleftrightarrow> is_console ce t \<and> (\<exists>ss. strokes_ok ss \<and> map fst ss = ks \<and> con_unread ce (term_io t) = concat (map snd ss))"

lemma platform_uart_send_bufs [simp]: "uart_bufs (platform_uart_send cfg i d s) = uart_bufs s"
  by (simp add: platform_uart_send_def Let_def)

lemma term_out_keeps: "con_ok ce (term_out ce b c) = con_ok ce c" "con_unread ce (term_out ce b c) = con_unread ce c"
  by (simp_all add: con_ok_def con_unread_def con_pending_def term_out_def vuart_buf_def)

lemma fold_out_keeps:
  assumes "\<And>b c. con_ok ce (f b c) = con_ok ce c" "\<And>b c. con_unread ce (f b c) = con_unread ce c"
  shows "con_ok ce (fold f s c) = con_ok ce c" "con_unread ce (fold f s c) = con_unread ce c"
  using assms by (induction s arbitrary: c) simp_all

lemma con_ready_out:
  assumes "con_ready ce t ks" "p_term_out t' = p_term_out t" "p_term_in t' = p_term_in t" "p_term_translate t' = p_term_translate t"
    and "con_ok ce (term_io t') = con_ok ce (term_io t)" "con_unread ce (term_io t') = con_unread ce (term_io t)"
  shows "con_ready ce t' ks"
  using assms by (simp add: con_ready_def is_console_def)

interpretation con_reader: key_reader "le\<lparr>ln_print := con_print ce\<rparr>" "con_ready ce" for le ce
proof unfold_locales
  fix t :: "con term_state" and k ks
  assume "con_ready ce t (k # ks)"
  then obtain s ss where s: "is_console ce t" "strokes_ok (s # ss)" "k = fst s" "ks = map fst ss" "con_unread ce (term_io t) = concat (map snd (s # ss))"
    by (auto simp: con_ready_def)
  from term_getch_stroke [OF s(1,2,5)] s(2-4) show "\<exists>t'. term_getch TERM_INPUT_WAIT t = Some (k, t') \<and> con_ready ce t' ks"
    by (fastforce simp: con_ready_def)
next
  fix t :: "con term_state" and ks s
  assume r: "con_ready ce t ks"
  then have f: "p_term_out t = term_out ce" by (simp add: con_ready_def is_console_def)
  show "con_ready ce (term_putstr s t) ks"
    by (rule con_ready_out [OF r]) (simp_all add: term_putstr_def f fold_out_keeps term_out_keeps)
next
  fix t :: "con term_state" and ks c
  assume r: "con_ready ce t ks"
  then have f: "p_term_out t = term_out ce" by (simp add: con_ready_def is_console_def)
  show "con_ready ce (term_putch c t) ks"
    by (rule con_ready_out [OF r]) (simp_all add: term_putch_def Let_def f term_out_keeps)
next
  fix t :: "con term_state" and ks s
  assume r: "con_ready ce t ks"
  have "con_ok ce (std_put (\<lambda>fd. term_out ce) 1 b c) = con_ok ce c" "con_unread ce (std_put (\<lambda>fd. term_out ce) 1 b c) = con_unread ce c" for b c
    by (simp_all add: std_put_def term_out_keeps)
  then show "con_ready ce (t\<lparr>term_io := ln_print (le\<lparr>ln_print := con_print ce\<rparr>) s (term_io t)\<rparr>) ks"
    by (intro con_ready_out [OF r]) (simp_all add: con_print_def fold_out_keeps)
qed

text \<open>C14: The bytes that a terminal sends over the console UART, whatever the order of editing keys, history keys and broken off lines in
  them, make \<^verbatim>\<open>linenoise_getline\<close> return the line that the reference editor makes of the keys, terminated inside its array, and
  leave the history as the reference editor has it. Every key is read, and the call returns. The prompt fits on the screen and memory can be allocated.\<close>

theorem line_edit_console:
  assumes "ln_ok le i prompt lim" "ln_print le = con_print ce" "hist_is (history_max_lengths le i) i ls l" "lim < length b"
    and "is_console ce (ln_term l)" "strokes_ok ss" "con_unread ce (term_io (ln_term l)) = concat (map snd ss)" "map fst ss = typed broken ks k"
    and "k = KC_ENTER \<or> k = KC_CTRL_Z" "\<forall>c \<in> set ks. \<not> ends_line c" "\<forall>b \<in> set broken. \<forall>c \<in> set b. \<not> ends_line c"
    and "H = after_broken lim (history_max_lengths le i) broken ls" "line = ed_line (edited lim (history_max_lengths le i) ks H)"
  shows "\<exists>b' l'. linenoise_getline le i b (lim + 1) prompt l = Some (if k = KC_ENTER then int (length line) else -1, b', l')
    \<and> c_string b' = Some line \<and> hist_is (history_max_lengths le i) i (hist_after lim (history_max_lengths le i) ks H) l'
    \<and> con_unread ce (term_io (ln_term l')) = []"
proof -
  have le: "le\<lparr>ln_print := con_print ce\<rparr> = le" using assms(2) by (metis ln_env.surjective ln_env.update_convs(6) ln_env.select_convs(6))
  have "con_ready ce (ln_term l) (typed broken ks k @ [])" using assms(5-8) by (auto simp: con_ready_def)
  from con_reader.linenoise_getline_edits [where le = le and ce = ce, unfolded le, OF assms(1) refl assms(9,10,3,4) this assms(11-13)]
  show ?thesis by (auto simp: con_ready_def)
qed

text \<open>Drawing the line reads only the line in the array, writes a part of it that contains the cursor and fits beside the prompt in the width
  of the screen, all of it if it leaves a free column, and puts the cursor at the column of its character.\<close>

theorem refresh_shows_cursor:
  assumes "length prompt + len < 2 ^ 31" "length prompt < unat cols" "pos \<le> len" "len \<le> length b" "on_line (ln_term l)"
  shows "\<exists>l' win off. refreshLine prompt b len pos cols l = Some l'
    \<and> term_io (ln_term l') = term_io (ln_term l) @ 0x0D # prompt @ win @ [0x1B, 0x5B, 0x30, 0x4B] @ 0x0D # 0x1B # 0x5B # dec (length prompt + (pos - off)) @ [0x43]
    \<and> win = take (length win) (drop off (take len b)) \<and> off \<le> pos \<and> pos \<le> off + length win
    \<and> length prompt + length win \<le> unat cols \<and> length prompt + (pos - off) < unat cols \<and> (length prompt + len < unat cols \<longrightarrow> win = take len b)"
proof -
  let ?p = "length prompt" and ?c = "unat cols" and ?line = "take len b"
  let ?off = "scrolled ?p ?c pos"
  let ?win = "shown ?p ?c ?line pos"
  have off: "?off \<le> pos" "?p + (pos - ?off) < ?c" "?p + pos - ?off = ?p + (pos - ?off)" using assms(2) by (simp_all add: scrolled_def)
  have win: "length ?win = min (len - ?off) (?c - ?p)" using assms(4) by (simp add: shown_def min.commute)
  have "take n xs = take (length (take n xs)) xs" for n and xs :: "u8 list" by (simp add: min_def)
  then have "?win = take (length ?win) (drop ?off ?line)" unfolding shown_def by blast
  moreover have "pos \<le> ?off + length ?win" using win off(1,2) assms(3) by simp
  moreover have "?win = ?line" if "?p + len < ?c" using that assms(3,4) by (simp add: shown_def scrolled_def)
  moreover have "?p + length ?win \<le> ?c" using win assms(2) by simp
  moreover have "term_io (ln_term (term_text (line_text prompt ?c ?line pos) l)) = term_io (ln_term l) @ 0x0D # prompt @ ?win
      @ [0x1B, 0x5B, 0x30, 0x4B] @ 0x0D # 0x1B # 0x5B # dec (?p + (pos - ?off)) @ [0x43]"
    unfolding term_text_def line_text_def off(3) using on_line_putstr [OF assms(5)] by simp
  ultimately show ?thesis using refreshLine_text [OF assms(1-4), of l] off(1,2) by blast
qed

section \<open>Instances\<close>

definition example_ln_env :: "con ln_env" where
  "example_ln_env = \<lparr>history_max_lengths = \<lambda>_. 3, TERM_COLS = 80, ln_malloc = \<lambda>_. True, ln_fopen = \<lambda>_. True, ln_fgets = \<lambda>n w. (None, w),
     ln_print = con_print example_con_env, LINENOISE_AUTOSAVE_FNAME = None, ctype_beyond = \<lambda>_. False\<rparr>"

definition example_ln :: "u8 list \<Rightarrow> con linenoise" where
  "example_ln bs = \<lparr>histories = \<lambda>_. None, history_lengths = \<lambda>_. 0, ln_term = console_term example_con_env 24 80 (example_con bs), ln_files = []\<rparr>"

text \<open>The keys x, Ctrl-C, a, b, left, backspace, c, enter: the line is cb.\<close>

theorem line_edit_console_witness:
  "\<exists>b' l'. linenoise_getline example_ln_env 0 (replicate 11 7) 11 [62] (example_ln [120, 3, 97, 98, 27, 91, 68, 127, 99, 13]) = Some (2, b', l')
    \<and> c_string b' = Some [99, 98]"
proof -
  let ?bs = "[120, 3, 97, 98, 27, 91, 68, 127, 99, 13]"
  let ?ss = "[(120, [120]), (KC_CTRL_C, [3]), (97, [97]), (98, [98]), (KC_LEFT, [27, 91, 68]), (KC_BACKSPACE, [127]), (99, [99]), (KC_ENTER, [13 :: u8])]"
  have ok: "ln_ok example_ln_env 0 [62] 10" by (simp add: ln_ok_def example_ln_env_def)
  have h: "hist_is (history_max_lengths example_ln_env 0) 0 [] (example_ln ?bs)" by (simp add: hist_is_def example_ln_def)
  have s: "strokes_ok ?ss" by (simp add: key_sends_def key_codes_def isprint_def)
  have con: "is_console example_con_env (ln_term (example_ln ?bs))"
    "con_unread example_con_env (term_io (ln_term (example_ln ?bs))) = concat (map snd ?ss)"
    using example_console [of ?bs] by (simp_all add: example_ln_def)
  have keys: "map fst ?ss = typed [[120]] [97, 98, KC_LEFT, KC_BACKSPACE, 99] KC_ENTER" by (simp add: typed_def)
  have line: "ed_line (edited 10 (history_max_lengths example_ln_env 0) [97, 98, KC_LEFT, KC_BACKSPACE, 99]
      (after_broken 10 (history_max_lengths example_ln_env 0) [[120]] [])) = [99, 98]"
    by (simp add: edited_def ed_new_def ed_key_def ed_line_def isprint_def)
  have p: "ln_print example_ln_env = con_print example_con_env" "(10 :: nat) < length (replicate 11 (7 :: u8))" "(10 :: nat) + 1 = 11"
    by (simp_all add: example_ln_env_def)
  from line_edit_console [OF ok p(1) h p(2) con(1) s con(2) keys _ _ _ refl refl, unfolded line p(3)]
  show ?thesis by (fastforce simp: ends_line_def)
qed

definition example_line_ln :: "u8 list linenoise" where
  "example_line_ln = \<lparr>histories = \<lambda>_. None, history_lengths = \<lambda>_. 0, ln_term = example_line, ln_files = []\<rparr>"

theorem refresh_shows_cursor_witness:
  "\<exists>l' win off. refreshLine [62] [97, 98, 99, 100, 0] 4 4 4 example_line_ln = Some l'
    \<and> term_io (ln_term l') = 0x0D # [62] @ win @ [0x1B, 0x5B, 0x30, 0x4B] @ 0x0D # 0x1B # 0x5B # dec (1 + (4 - off)) @ [0x43] \<and> length win \<le> 3"
proof -
  have "on_line (ln_term example_line_ln)" "term_io (ln_term example_line_ln) = []"
    by (simp_all add: example_line_ln_def on_line_def example_line_def term_init_def)
  with refresh_shows_cursor [of "[62]" 4 4 4 "[97, 98, 99, 100, 0]" example_line_ln] show ?thesis by fastforce
qed

end
