(* ===== verification/Bitarray.thy ===== *)
theory Bitarray
  imports Elua_Prelude "HOL-Library.Monad_Syntax"
begin

text \<open>
  The bit arrays of Lua, \<^verbatim>\<open>src/modules/bitarray.c\<close>: arrays of elements of 1, 2, 4, 8, 16 or 32 bits in a block of bytes. The functions take their
  Lua arguments as values and return a value or the message of the Lua error; an access outside the block of the
  array has no result. The order of bytes of the CPU is a parameter. The specification is the list of the elements.
\<close>

section \<open>Arrays and arguments\<close>

record bitarray =
  capacity :: u32
  elsize :: u8
  ba_values :: "u8 list"

text \<open>A number, a string with the number it converts to, if it does, a table with integers from 1, or nothing of these.\<close>

datatype lua_arg = LNumber int | LString "u8 list" "int option" | LTable "int list" | LOther

datatype 'a lua_result = Result 'a | Lua_error string

fun lua_isnumber :: "lua_arg \<Rightarrow> int option" where
  "lua_isnumber (LNumber n) = Some n"
| "lua_isnumber (LString s n) = n"
| "lua_isnumber a = None"

definition ROUND_SIZE :: "u32 \<Rightarrow> u32" where
  "ROUND_SIZE s = drop_bit 3 s + (if s AND 7 \<noteq> 0 then 1 else 0)"

definition bitarray_index_shift :: "nat list" where
  "bitarray_index_shift = [0, 3, 2, 0, 1]"

definition bitarray_index_mask :: "u32 list" where
  "bitarray_index_mask = [0, 0x01, 0x03, 0, 0x0F]"

text \<open>An unsigned number in memory, the bytes in the order of their weight and as the CPU has them.\<close>

fun of_bytes :: "u8 list \<Rightarrow> u32" where
  "of_bytes [] = 0"
| "of_bytes (b # bs) = ucast b OR push_bit 8 (of_bytes bs)"

fun to_bytes :: "nat \<Rightarrow> u32 \<Rightarrow> u8 list" where
  "to_bytes 0 v = []"
| "to_bytes (Suc n) v = ucast v # to_bytes n (drop_bit 8 v)"

definition mem_order :: "bool \<Rightarrow> u8 list \<Rightarrow> u8 list" where
  "mem_order big bs = (if big then rev bs else bs)"

section \<open>Creation\<close>

text \<open>The element size of \<^verbatim>\<open>bitarray.new\<close>: the second argument or 8.\<close>

definition size_arg :: "lua_arg \<Rightarrow> u8" where
  "size_arg a = (case lua_isnumber a of Some n \<Rightarrow> word_of_int n | None \<Rightarrow> 8)"

text \<open>The loop that stores the elements of a table.\<close>

fun store_all :: "u8 list \<Rightarrow> nat \<Rightarrow> int list \<Rightarrow> u8 list option" where
  "store_all b i [] = Some b"
| "store_all b i (x # xs) = do { b1 \<leftarrow> blit b i [word_of_int x]; store_all b1 (i + 1) xs }"

datatype contents = FILL u8 | COPY "u8 list" | ELEMS "int list"

definition make_array :: "u32 \<Rightarrow> u8 \<Rightarrow> contents \<Rightarrow> bitarray lua_result option" where
  "make_array cap es cont =
     (if es \<le> 0 \<or> es > 32 \<or> es AND (es - 1) \<noteq> 0 then Some (Lua_error ''invalid element size.'')
      else let total = ROUND_SIZE (cap * ucast es) in
        if total \<le> 0 then Some (Lua_error ''invalid arguments.'')
        else let b = replicate (unat total) 0 in
          do { vs \<leftarrow> (case cont of FILL f \<Rightarrow> Some (replicate (unat total) f) | COPY s \<Rightarrow> blit b 0 s | ELEMS xs \<Rightarrow> store_all b 0 xs);
               Some (Result \<lparr>capacity = cap, elsize = es, ba_values = vs\<rparr>) })"

definition bitarray_new :: "lua_arg \<Rightarrow> lua_arg \<Rightarrow> lua_arg \<Rightarrow> bitarray lua_result option" where
  "bitarray_new a1 a2 a3 =
     (case lua_isnumber a1 of
        Some n \<Rightarrow> make_array (word_of_int n) (size_arg a2) (FILL (case lua_isnumber a3 of Some f \<Rightarrow> word_of_int f | None \<Rightarrow> 0))
      | None \<Rightarrow>
        (case (case a1 of LString s n \<Rightarrow> Some (COPY s, length s) | LTable xs \<Rightarrow> Some (ELEMS xs, length xs) | _ \<Rightarrow> None) of
           None \<Rightarrow> Some (Lua_error ''invalid arguments.'')
         | Some (cont, temp) \<Rightarrow>
             let es = size_arg a2; bits = push_bit 3 (of_nat temp) in
             if es = 0 then Some (Lua_error ''length is zero.'')
             else if bits mod ucast es \<noteq> (0 :: u32) then Some (Lua_error ''length is not a multiple of element size.'')
             else make_array (bits div ucast es) es cont))"

section \<open>Elements\<close>

text \<open>The byte of an element smaller than a byte, and the position of its last bit in it; \<open>idx\<close> counts from 0.\<close>

definition sub_index :: "u8 \<Rightarrow> u32 \<Rightarrow> nat" where
  "sub_index es idx = unat (drop_bit (bitarray_index_shift ! unat es) idx)"

definition sub_shift :: "u8 \<Rightarrow> u32 \<Rightarrow> nat" where
  "sub_shift es idx =
     (let mask = push_bit (bitarray_index_shift ! unat es) 1 :: nat; rest = idx AND (of_nat mask - 1)
      in (mask - 1 - unat rest) * unat es)"

definition bitarray_getval :: "bool \<Rightarrow> bitarray \<Rightarrow> u32 \<Rightarrow> u32 option" where
  "bitarray_getval big pa idx1 =
     (let idx = idx1 - 1 in
      if elsize pa < 8
      then do { b \<leftarrow> fetch (ba_values pa) (sub_index (elsize pa) idx) 1;
                Some (drop_bit (sub_shift (elsize pa) idx) (ucast (hd b)) AND bitarray_index_mask ! unat (elsize pa)) }
      else if elsize pa = 8 then do { b \<leftarrow> fetch (ba_values pa) (unat idx) 1; Some (ucast (hd b)) }
      else if elsize pa = 16 then do { b \<leftarrow> fetch (ba_values pa) (2 * unat idx) 2; Some (of_bytes (mem_order big b)) }
      else if elsize pa = 32 then do { b \<leftarrow> fetch (ba_values pa) (4 * unat idx) 4; Some (of_bytes (mem_order big b)) }
      else Some 0)"

definition bitarray_get :: "bool \<Rightarrow> bitarray \<Rightarrow> int \<Rightarrow> int lua_result option" where
  "bitarray_get big pa i =
     (let idx = word_of_int i in
      if idx \<le> 0 \<or> idx > capacity pa then Some (Lua_error ''invalid index.'')
      else do { v \<leftarrow> bitarray_getval big pa idx; Some (Result (sint v)) })"

definition setval :: "bool \<Rightarrow> bitarray \<Rightarrow> u32 \<Rightarrow> u32 \<Rightarrow> bitarray option" where
  "setval big pa idx newval =
     (let store = (\<lambda>off bs. map_option (\<lambda>vs. pa\<lparr>ba_values := vs\<rparr>) (blit (ba_values pa) off bs)) in
      if elsize pa < 8
      then do { b \<leftarrow> fetch (ba_values pa) (sub_index (elsize pa) idx) 1;
                let sh = sub_shift (elsize pa) idx;
                let val = ucast (hd b) AND NOT (push_bit sh (bitarray_index_mask ! unat (elsize pa)));
                let val = val OR push_bit sh newval;
                store (sub_index (elsize pa) idx) [ucast val] }
      else if elsize pa = 8 then store (unat idx) [ucast newval]
      else if elsize pa = 16 then store (2 * unat idx) (mem_order big (to_bytes 2 newval))
      else if elsize pa = 32 then store (4 * unat idx) (mem_order big (to_bytes 4 newval))
      else Some pa)"

definition bitarray_set :: "bool \<Rightarrow> bitarray \<Rightarrow> int \<Rightarrow> int \<Rightarrow> bitarray lua_result option" where
  "bitarray_set big pa i v =
     (let idx = word_of_int i in
      if idx \<le> 0 \<or> idx > capacity pa then Some (Lua_error ''invalid index.'')
      else map_option Result (setval big pa (idx - 1) (word_of_int v)))"

definition bitarray_len :: "bitarray \<Rightarrow> int" where
  "bitarray_len pa = sint (capacity pa)"

text \<open>One step of the iterator: the next index and its value, or nothing.\<close>

definition bitarray_iter :: "bool \<Rightarrow> bitarray \<Rightarrow> int \<Rightarrow> (int \<times> int) option option" where
  "bitarray_iter big pa i =
     (let idx = word_of_int i + 1 in
      if idx \<le> capacity pa then do { v \<leftarrow> bitarray_getval big pa idx; Some (Some (sint idx, sint v)) } else Some None)"

text \<open>A loop of Lua over what \<^verbatim>\<open>bitarray.pairs\<close> returns: the iterator, the array and 0. Each step passes the last index on; the loop ends with the
  first step without a value. \<open>n\<close> bounds the steps.\<close>

fun bitarray_pairs :: "bool \<Rightarrow> bitarray \<Rightarrow> nat \<Rightarrow> int \<Rightarrow> (int \<times> int) list option" where
  "bitarray_pairs big pa 0 i = None"
| "bitarray_pairs big pa (Suc n) i = do {
     r \<leftarrow> bitarray_iter big pa i;
     (case r of None \<Rightarrow> Some [] | Some (k, v) \<Rightarrow> map_option (Cons (k, v)) (bitarray_pairs big pa n k))
   }"

section \<open>Conversion\<close>

datatype unpack_mode = BITARRAY_UNPACK_RAW | BITARRAY_UNPACK_SEQ

definition unpack_arg :: "u8 list option \<Rightarrow> unpack_mode option" where
  "unpack_arg text =
     (case text of None \<Rightarrow> Some BITARRAY_UNPACK_SEQ
      | Some s \<Rightarrow> if s = map of_char ''raw'' then Some BITARRAY_UNPACK_RAW else if s = map of_char ''seq'' then Some BITARRAY_UNPACK_SEQ else None)"

text \<open>The loops over all elements; \<open>n\<close> are left.\<close>

fun get_all :: "bool \<Rightarrow> bitarray \<Rightarrow> u32 \<Rightarrow> nat \<Rightarrow> u32 list option" where
  "get_all big pa idx 0 = Some []"
| "get_all big pa idx (Suc n) = do { v \<leftarrow> bitarray_getval big pa idx; vs \<leftarrow> get_all big pa (idx + 1) n; Some (v # vs) }"

definition bitarray_tostring :: "bool \<Rightarrow> bitarray \<Rightarrow> u8 list option \<Rightarrow> u8 list lua_result option" where
  "bitarray_tostring big pa text =
     (case unpack_arg text of
        None \<Rightarrow> Some (Lua_error ''invalid mode string.'')
      | Some mode \<Rightarrow>
          if mode = BITARRAY_UNPACK_SEQ \<and> elsize pa > 8 then Some (Lua_error ''element size too large.'')
          else if mode = BITARRAY_UNPACK_SEQ then do { vs \<leftarrow> get_all big pa 1 (unat (capacity pa)); Some (Result (map ucast vs)) }
          else do { s \<leftarrow> fetch (ba_values pa) 0 (unat (ROUND_SIZE (capacity pa * ucast (elsize pa)))); Some (Result s) })"

definition bitarray_totable :: "bool \<Rightarrow> bitarray \<Rightarrow> u8 list option \<Rightarrow> int list lua_result option" where
  "bitarray_totable big pa text =
     (case unpack_arg text of
        None \<Rightarrow> Some (Lua_error ''invalid mode string.'')
      | Some mode \<Rightarrow>
          if mode = BITARRAY_UNPACK_SEQ \<and> elsize pa > 8 then Some (Lua_error ''element size too large.'')
          else if mode = BITARRAY_UNPACK_SEQ then do { vs \<leftarrow> get_all big pa 1 (unat (capacity pa)); Some (Result (map sint vs)) }
          else do { s \<leftarrow> fetch (ba_values pa) 0 (unat (ROUND_SIZE (capacity pa * ucast (elsize pa)))); Some (Result (map uint s)) })"

section \<open>Fields of a byte\<close>

definition get_field :: "nat \<Rightarrow> nat \<Rightarrow> u8 \<Rightarrow> u32" where
  "get_field e p b = drop_bit p (ucast b) AND mask e"

definition put_field :: "nat \<Rightarrow> nat \<Rightarrow> u32 \<Rightarrow> u8 \<Rightarrow> u8" where
  "put_field e p v b = ucast (ucast b AND NOT (push_bit p (mask e)) OR push_bit p v :: u32)"

lemma u8_bit: "bit (b :: u8) n \<Longrightarrow> n < 8"
  by (auto dest: bit_imp_le_length)

lemma bit_get_field: "bit (get_field e p b) n \<longleftrightarrow> n < e \<and> n < 32 \<and> bit b (p + n)"
  by (auto simp: get_field_def bit_simps dest: u8_bit)

lemma small_bit: "take_bit e v = v \<Longrightarrow> bit v n \<Longrightarrow> n < e" for v :: u32
  by (metis bit_take_bit_iff)

lemma bit_put_field:
  assumes "p + e \<le> 8" "take_bit e v = v"
  shows "bit (put_field e p v b) n \<longleftrightarrow> n < 8 \<and> (if p \<le> n \<and> n < p + e then bit v (n - p) else bit b n)"
proof -
  have "bit v (n - p) \<Longrightarrow> n - p < e" using small_bit [OF assms(2)] .
  then show ?thesis using assms(1) by (auto simp: put_field_def bit_simps dest: u8_bit)
qed

lemma get_put_same: "p + e \<le> 8 \<Longrightarrow> take_bit e v = v \<Longrightarrow> get_field e p (put_field e p v b) = v"
  by (rule bit_word_eqI) (auto simp: bit_get_field bit_put_field dest: small_bit)

lemma get_put_other: "p + e \<le> 8 \<Longrightarrow> take_bit e v = v \<Longrightarrow> q + e \<le> p \<or> p + e \<le> q \<Longrightarrow> get_field e q (put_field e p v b) = get_field e q b"
  by (rule bit_word_eqI) (auto simp: bit_get_field bit_put_field dest: u8_bit)

section \<open>An array is a list of numbers\<close>

definition ba_inv :: "bitarray \<Rightarrow> bool" where
  "ba_inv pa \<longleftrightarrow> unat (elsize pa) \<in> {1, 2, 4, 8, 16, 32} \<and> 0 < unat (capacity pa) * unat (elsize pa) \<and> unat (capacity pa) * unat (elsize pa) < 2 ^ 32
     \<and> length (ba_values pa) = (unat (capacity pa) * unat (elsize pa) + 7) div 8"

definition elements :: "bool \<Rightarrow> bitarray \<Rightarrow> u32 list" where
  "elements big pa = map (\<lambda>i. the (bitarray_getval big pa (of_nat i + 1))) [0..<unat (capacity pa)]"

text \<open>Where an element of \<open>e\<close> bits starts in its byte.\<close>

definition fpos :: "nat \<Rightarrow> nat \<Rightarrow> nat" where
  "fpos e i = (8 div e - 1 - i mod (8 div e)) * e"

lemma fpos_range: "e \<in> {1, 2, 4} \<Longrightarrow> fpos e i + e \<le> 8"
proof -
  assume e: "e \<in> {1, 2, 4}"
  have "(m - 1 - i mod m) * k + k \<le> m * k" if "0 < m" for m k :: nat
  proof -
    have "m - 1 - i mod m + 1 \<le> m" using that by simp
    then have "(m - 1 - i mod m + 1) * k \<le> m * k" by (rule mult_le_mono1)
    then show ?thesis by (simp only: distrib_right mult_1)
  qed
  from this [of "8 div e" e] e show ?thesis by (auto simp: fpos_def)
qed

lemma fpos_other:
  assumes "e \<in> {1, 2, 4}" "i div (8 div e) = j div (8 div e)" "i \<noteq> j"
  shows "fpos e i + e \<le> fpos e j \<or> fpos e j + e \<le> fpos e i"
proof -
  let ?m = "8 div e"
  have m: "0 < ?m" using assms(1) by auto
  have "i mod ?m \<noteq> j mod ?m" using assms(2,3) by (metis div_mult_mod_eq)
  moreover have "i mod ?m < ?m" "j mod ?m < ?m" using m by simp_all
  ultimately have "Suc (?m - 1 - i mod ?m) \<le> ?m - 1 - j mod ?m \<or> Suc (?m - 1 - j mod ?m) \<le> ?m - 1 - i mod ?m" by linarith
  then have "Suc (?m - 1 - i mod ?m) * e \<le> (?m - 1 - j mod ?m) * e \<or> Suc (?m - 1 - j mod ?m) * e \<le> (?m - 1 - i mod ?m) * e"
    by (metis mult_le_mono1)
  then show ?thesis by (simp add: fpos_def add.commute)
qed

lemma of_nat_small: "n < 2 ^ 32 \<Longrightarrow> unat (of_nat n :: u32) = n"
  by (simp add: unat_of_nat take_bit_nat_eq_self)

lemma sub_place:
  assumes "unat es \<in> {1, 2, 4}" "i < 2 ^ 32"
  shows "sub_index es (of_nat i) = i div (8 div unat es)" "sub_shift es (of_nat i) = fpos (unat es) i" "bitarray_index_mask ! unat es = mask (unat es)"
proof -
  have w: "(of_nat i :: u32) AND (2 ^ k - 1) = of_nat (i mod 2 ^ k)" for k
  proof -
    have "(of_nat i :: u32) AND mask k = of_nat (take_bit k i)" by (rule bit_word_eqI) (auto simp: bit_simps)
    then show ?thesis by (simp add: mask_eq_exp_minus_1 take_bit_eq_mod)
  qed
  have s: "i mod 2 ^ k < 2 ^ 32" for k using assms(2) by (meson le_less_trans mod_less_eq_dividend)
  have dr: "unat (drop_bit k (of_nat i :: u32)) = i div 2 ^ k" for k
    unfolding unat_drop_bit_eq of_nat_small [OF assms(2)] by (rule drop_bit_eq_div)
  from assms(1) show "sub_index es (of_nat i) = i div (8 div unat es)"
    using dr [of 1] dr [of 2] dr [of 3] by (auto simp: sub_index_def bitarray_index_shift_def)
  from assms(1) show "sub_shift es (of_nat i) = fpos (unat es) i"
    using w [of 1] w [of 2] w [of 3] of_nat_small [OF s [of 1]] of_nat_small [OF s [of 2]] of_nat_small [OF s [of 3]]
    by (auto simp: sub_shift_def bitarray_index_shift_def fpos_def Let_def push_bit_eq_mult)
  from assms(1) show "bitarray_index_mask ! unat es = mask (unat es)"
    by (auto simp: bitarray_index_mask_def mask_eq_exp_minus_1)
qed

lemma fetch_1: "i < length xs \<Longrightarrow> fetch xs i 1 = Some [xs ! i]"
  by (simp add: fetch_def take_Suc_conv_app_nth Cons_nth_drop_Suc [symmetric])

lemmas fetch_Suc0 = fetch_1 [unfolded One_nat_def]

lemma blit_1: "i < length xs \<Longrightarrow> blit xs i [x] = Some (xs[i := x])"
  by (simp add: blit_def upd_conv_take_nth_drop)

lemma sub_in_block:
  assumes "ba_inv pa" "unat (elsize pa) \<in> {1, 2, 4}" "i < unat (capacity pa)"
  shows "i div (8 div unat (elsize pa)) < length (ba_values pa)" "i < 2 ^ 32" "elsize pa < 8"
proof -
  from assms show "i div (8 div unat (elsize pa)) < length (ba_values pa)" by (auto simp: ba_inv_def)
  have "unat (capacity pa) < 2 ^ LENGTH(32)" by (rule unsigned_less)
  then show "i < 2 ^ 32" using assms(3) by simp
  show "elsize pa < 8" using assms(2) by (auto simp: word_less_nat_alt)
qed

lemma getval_sub:
  assumes "ba_inv pa" "unat (elsize pa) \<in> {1, 2, 4}" "i < unat (capacity pa)"
  shows "bitarray_getval big pa (of_nat i + 1) =
    Some (get_field (unat (elsize pa)) (fpos (unat (elsize pa)) i) (ba_values pa ! (i div (8 div unat (elsize pa)))))"
  using sub_in_block [OF assms] sub_place [OF assms(2) sub_in_block(2) [OF assms]]
  by (simp add: bitarray_getval_def get_field_def fetch_Suc0)

lemma setval_sub:
  assumes "ba_inv pa" "unat (elsize pa) \<in> {1, 2, 4}" "i < unat (capacity pa)"
  defines "k \<equiv> i div (8 div unat (elsize pa))"
  shows "setval big pa (of_nat i) v = Some (pa\<lparr>ba_values := (ba_values pa)[k := put_field (unat (elsize pa)) (fpos (unat (elsize pa)) i) v (ba_values pa ! k)]\<rparr>)"
  using sub_in_block [OF assms(1-3)] sub_place [OF assms(2) sub_in_block(2) [OF assms(1-3)]]
  by (simp add: setval_def put_field_def k_def fetch_Suc0 blit_1 Let_def)

text \<open>Elements of whole bytes.\<close>

lemma mem_order_simps [simp]: "mem_order big (mem_order big bs) = bs" "length (mem_order big bs) = length bs"
  by (simp_all add: mem_order_def)

lemma length_to_bytes [simp]: "length (to_bytes n v) = n"
  by (induction n arbitrary: v) auto

lemma bit_of_to_bytes: "bit (of_bytes (to_bytes n v)) k \<longleftrightarrow> k < 8 * n \<and> bit v k"
proof (induction n arbitrary: v k)
  case (Suc n)
  show ?case using Suc.IH [of "drop_bit 8 v" "k - 8"]
    by (auto simp: bit_simps dest: bit_imp_le_length)
qed simp

lemma of_to_bytes: "take_bit (8 * n) v = v \<Longrightarrow> of_bytes (to_bytes n v) = v"
  by (rule bit_word_eqI) (metis bit_of_to_bytes bit_take_bit_iff)

lemma bytes_place:
  assumes "ba_inv pa" "unat (elsize pa) \<in> {8, 16, 32}" "i < unat (capacity pa)"
  defines "n \<equiv> unat (elsize pa) div 8"
  shows "n * i + n \<le> length (ba_values pa)" "unat (of_nat i :: u32) = i" "0 < n" "elsize pa = 8 \<or> elsize pa = 16 \<or> elsize pa = 32"
proof -
  have "Suc i * n \<le> unat (capacity pa) * n" using assms(3) by (intro mult_le_mono1) simp
  moreover have "length (ba_values pa) = unat (capacity pa) * n" using assms(1,2) by (auto simp: ba_inv_def n_def)
  ultimately show "n * i + n \<le> length (ba_values pa)" by (simp add: mult.commute)
  have "unat (capacity pa) < 2 ^ LENGTH(32)" by (rule unsigned_less)
  then show "unat (of_nat i :: u32) = i" using assms(3) by (intro of_nat_small) simp
  show "0 < n" using assms(2) by (auto simp: n_def)
  show "elsize pa = 8 \<or> elsize pa = 16 \<or> elsize pa = 32" using assms(2) by (auto simp: word_unat_eq_iff)
qed

lemma getval_bytes:
  assumes "ba_inv pa" "unat (elsize pa) \<in> {8, 16, 32}" "i < unat (capacity pa)"
  defines "n \<equiv> unat (elsize pa) div 8"
  shows "bitarray_getval big pa (of_nat i + 1) = Some (of_bytes (mem_order big (chunk n (ba_values pa) i)))"
proof -
  note p = bytes_place [OF assms(1-3), folded n_def]
  have f: "fetch (ba_values pa) (n * i) n = Some (chunk n (ba_values pa) i)" using p(1) by (simp add: fetch_def chunk_def)
  have h: "mem_order big [b] = [b]" for b by (simp add: mem_order_def)
  from p(4) show ?thesis
  proof (elim disjE)
    assume e: "elsize pa = 8"
    then have n: "n = 1" by (simp add: n_def)
    have "i < length (ba_values pa)" using p(1) n by simp
    then have c: "chunk n (ba_values pa) i = [ba_values pa ! i]" using f n fetch_1 [of i "ba_values pa"] by simp
    then show ?thesis using f p(2) e n by (simp add: bitarray_getval_def h)
  next
    assume e: "elsize pa = 16"
    then have "n = 2" by (simp add: n_def)
    then show ?thesis using f p(2) e by (simp add: bitarray_getval_def)
  next
    assume e: "elsize pa = 32"
    then have "n = 4" by (simp add: n_def)
    then show ?thesis using f p(2) e by (simp add: bitarray_getval_def)
  qed
qed

lemma setval_bytes:
  assumes "ba_inv pa" "unat (elsize pa) \<in> {8, 16, 32}" "i < unat (capacity pa)"
  defines "n \<equiv> unat (elsize pa) div 8"
  shows "\<exists>vs. setval big pa (of_nat i) v = Some (pa\<lparr>ba_values := vs\<rparr>) \<and> blit (ba_values pa) (n * i) (mem_order big (to_bytes n v)) = Some vs"
proof -
  note p = bytes_place [OF assms(1-3), folded n_def]
  obtain vs where vs: "blit (ba_values pa) (n * i) (mem_order big (to_bytes n v)) = Some vs"
    using p(1) by (simp add: blit_def)
  have one: "mem_order big (to_bytes (Suc 0) v) = [ucast v]" by (simp add: mem_order_def)
  from p(4) have "setval big pa (of_nat i) v = map_option (\<lambda>vs. pa\<lparr>ba_values := vs\<rparr>) (blit (ba_values pa) (n * i) (mem_order big (to_bytes n v)))"
    by (elim disjE) (use p(2) one in \<open>simp_all add: setval_def n_def\<close>)
  then show ?thesis using vs by simp
qed

text \<open>Reading and writing one element.\<close>

lemma take_bit_field: "take_bit e (get_field e p b) = get_field e p b"
  by (simp add: get_field_def take_bit_eq_mask)

lemma getval_small:
  assumes "ba_inv pa" "i < unat (capacity pa)"
  shows "\<exists>x. bitarray_getval big pa (of_nat i + 1) = Some x \<and> take_bit (unat (elsize pa)) x = x"
proof (cases "unat (elsize pa) \<in> {1, 2, 4}")
  case True
  then show ?thesis using getval_sub [OF assms(1) _ assms(2)] take_bit_field by auto
next
  case False
  then have e: "unat (elsize pa) \<in> {8, 16, 32}" using assms(1) by (auto simp: ba_inv_def)
  have "bit (of_bytes bs) k \<Longrightarrow> k < 8 * length bs" for bs k
  proof (induction bs arbitrary: k)
    case (Cons b bs)
    then have "bit b k \<or> 8 \<le> k \<and> bit (of_bytes bs) (k - 8)" by (auto simp: bit_simps)
    then show ?case using u8_bit [of b k] Cons.IH [of "k - 8"] by auto
  qed simp
  then have "take_bit (8 * length bs) (of_bytes bs) = of_bytes bs" for bs
    by (intro bit_word_eqI) (auto simp: bit_take_bit_iff)
  moreover have "length (chunk (unat (elsize pa) div 8) (ba_values pa) i) = unat (elsize pa) div 8"
    using bytes_place(1) [OF assms(1) e assms(2)] by (simp add: chunk_def)
  moreover have "8 * (unat (elsize pa) div 8) = unat (elsize pa)" using e by auto
  ultimately show ?thesis using getval_bytes [OF assms(1) e assms(2)] by (metis mem_order_simps(2))
qed

lemma setval_element:
  assumes "ba_inv pa" "i < unat (capacity pa)" "take_bit (unat (elsize pa)) v = v"
  shows "\<exists>pa'. setval big pa (of_nat i) v = Some pa' \<and> ba_inv pa' \<and> capacity pa' = capacity pa \<and> elsize pa' = elsize pa
    \<and> (\<forall>j < unat (capacity pa). bitarray_getval big pa' (of_nat j + 1) = (if j = i then Some v else bitarray_getval big pa (of_nat j + 1)))"
proof (cases "unat (elsize pa) \<in> {1, 2, 4}")
  case True
  let ?e = "unat (elsize pa)" and ?m = "8 div unat (elsize pa)"
  let ?b = "put_field ?e (fpos ?e i) v (ba_values pa ! (i div ?m))"
  let ?pa = "pa\<lparr>ba_values := (ba_values pa)[i div ?m := ?b]\<rparr>"
  have inv: "ba_inv ?pa" using assms(1) by (simp add: ba_inv_def)
  have "bitarray_getval big ?pa (of_nat j + 1) = (if j = i then Some v else bitarray_getval big pa (of_nat j + 1))" if j: "j < unat (capacity pa)" for j
  proof -
    have g: "bitarray_getval big ?pa (of_nat j + 1) = Some (get_field ?e (fpos ?e j) ((ba_values pa)[i div ?m := ?b] ! (j div ?m)))"
      using getval_sub [OF inv, of j] True j by simp
    show ?thesis
    proof (cases "j div ?m = i div ?m")
      case same: True
      then have at: "(ba_values pa)[i div ?m := ?b] ! (j div ?m) = ?b" using sub_in_block(1) [OF assms(1) True assms(2)] by simp
      show ?thesis
      proof (cases "j = i")
        case True
        with g at get_put_same [OF fpos_range assms(3)] \<open>?e \<in> {1, 2, 4}\<close> show ?thesis by simp
      next
        case False
        from fpos_other [OF True same False] have "get_field ?e (fpos ?e j) ?b = get_field ?e (fpos ?e j) (ba_values pa ! (i div ?m))"
          by (intro get_put_other [OF fpos_range [OF True] assms(3)]) auto
        with g at same False getval_sub [OF assms(1) True j] show ?thesis by simp
      qed
    next
      case False
      with g getval_sub [OF assms(1) True j] show ?thesis by auto
    qed
  qed
  then show ?thesis using setval_sub [OF assms(1) True assms(2)] inv by auto
next
  case False
  let ?n = "unat (elsize pa) div 8"
  have e: "unat (elsize pa) \<in> {8, 16, 32}" using False assms(1) by (auto simp: ba_inv_def)
  obtain vs where vs: "setval big pa (of_nat i) v = Some (pa\<lparr>ba_values := vs\<rparr>)" "blit (ba_values pa) (?n * i) (mem_order big (to_bytes ?n v)) = Some vs"
    using setval_bytes [OF assms(1) e assms(2)] by blast
  let ?pa = "pa\<lparr>ba_values := vs\<rparr>"
  have inv: "ba_inv ?pa" using assms(1) blit_length [OF vs(2)] by (simp add: ba_inv_def)
  have "8 * ?n = unat (elsize pa)" using e by auto
  then have v: "of_bytes (to_bytes ?n v) = v" using of_to_bytes [of ?n v] assms(3) by simp
  have "bitarray_getval big ?pa (of_nat j + 1) = (if j = i then Some v else bitarray_getval big pa (of_nat j + 1))" if j: "j < unat (capacity pa)" for j
  proof -
    have g: "bitarray_getval big ?pa (of_nat j + 1) = Some (of_bytes (mem_order big (chunk ?n vs j)))"
      using getval_bytes [OF inv, of j] e j by simp
    show ?thesis
    proof (cases "j = i")
      case True
      then show ?thesis using g blit_chunk_same [OF vs(2)] v by simp
    next
      case False
      then show ?thesis using g blit_chunk_other [OF vs(2) _ False] getval_bytes [OF assms(1) e j] by simp
    qed
  qed
  then show ?thesis using vs(1) inv by auto
qed

section \<open>The contract\<close>

lemma length_elements [simp]: "length (elements big pa) = unat (capacity pa)"
  by (simp add: elements_def)

lemma nth_elements: "i < unat (capacity pa) \<Longrightarrow> elements big pa ! i = the (bitarray_getval big pa (of_nat i + 1))"
  by (simp add: elements_def)

lemma getval_elements:
  assumes "ba_inv pa" "0 < idx" "idx \<le> capacity pa"
  shows "bitarray_getval big pa idx = Some (elements big pa ! (unat idx - 1))" "unat idx - 1 < unat (capacity pa)" "idx - 1 = of_nat (unat idx - 1)"
proof -
  have u: "0 < unat idx" "unat idx \<le> unat (capacity pa)" using assms(2,3) by (simp_all add: word_less_nat_alt word_le_nat_alt)
  then show i: "unat idx - 1 < unat (capacity pa)" by simp
  have "(of_nat (unat idx - 1) :: u32) = of_nat (unat idx) - 1" using u(1) by (simp add: of_nat_diff)
  then show e: "idx - 1 = of_nat (unat idx - 1)" by simp
  then have "idx = of_nat (unat idx - 1) + 1" by (metis diff_add_cancel)
  then show "bitarray_getval big pa idx = Some (elements big pa ! (unat idx - 1))"
    using getval_small [OF assms(1) i, of big] nth_elements [OF i, of big] by auto
qed

lemma iter_next:
  assumes inv: "ba_inv pa" and idx: "idx = word_of_int i" "idx < capacity pa"
  shows "bitarray_iter big pa i = Some (Some (sint (idx + 1), sint (elements big pa ! unat idx)))"
proof -
  have "idx \<noteq> - 1" using idx(2) word_order.extremum [of "capacity pa"] by auto
  then have "1 + idx \<noteq> 0" by (metis add.commute add_eq_0_iff minus_minus)
  then have u: "unat (idx + 1) = Suc (unat idx)" by (metis unatSuc add.commute)
  have r: "0 < idx + 1" "idx + 1 \<le> capacity pa" using idx(2) u by (simp_all add: word_less_nat_alt word_le_nat_alt)
  show ?thesis using getval_elements(1) [OF inv r, of big] r(2) u by (simp add: bitarray_iter_def Let_def flip: idx(1))
qed

lemma iter_end:
  assumes "idx = word_of_int i" "capacity pa \<le> idx" "idx \<noteq> - 1"
  shows "bitarray_iter big pa i = Some None"
proof -
  have "idx + 1 \<noteq> 0" using assms(3) by (metis add_eq_0_iff minus_minus)
  then have "unat (idx + 1) = Suc (unat idx)" by (metis unatSuc add.commute)
  then have "\<not> idx + 1 \<le> capacity pa" using assms(2) by (simp add: word_le_nat_alt)
  then show ?thesis by (simp add: bitarray_iter_def Let_def flip: assms(1))
qed

lemma pairs_from:
  assumes inv: "ba_inv pa" and c: "capacity pa \<noteq> - 1" "k \<le> unat (capacity pa)" and i: "word_of_int i = (of_nat k :: u32)"
  shows "bitarray_pairs big pa (Suc (unat (capacity pa) - k)) i
    = Some (map (\<lambda>j. (sint (of_nat j + 1 :: u32), sint (elements big pa ! j))) [k..<unat (capacity pa)])"
  using c(2) i
proof (induction "unat (capacity pa) - k" arbitrary: k i)
  case 0
  then have "k = unat (capacity pa)" by simp
  then show ?case using iter_end [of "capacity pa" i pa] 0 c(1) by simp
next
  case (Suc n)
  let ?c = "unat (capacity pa)"
  have k: "k < ?c" "?c - Suc k = n" "?c - k = Suc n" using Suc.hyps(2) by simp_all
  have u: "unat (of_nat k :: u32) = k" using k(1) unsigned_less [of "capacity pa", where 'a = nat] by (simp add: of_nat_small)
  have lt: "(of_nat k :: u32) < capacity pa" using k(1) u by (simp add: word_less_nat_alt)
  have "word_of_int (sint (of_nat k + 1 :: u32)) = (of_nat (Suc k) :: u32)" by (simp add: add.commute)
  from Suc.hyps(1) [OF _ _ this] have rest: "bitarray_pairs big pa (Suc n) (sint (of_nat k + 1 :: u32))
      = Some (map (\<lambda>j. (sint (of_nat j + 1 :: u32), sint (elements big pa ! j))) [Suc k..<?c])" using k by simp
  show ?case
    unfolding k(3) bitarray_pairs.simps(2) [of big pa "Suc n" i] iter_next [OF inv Suc.prems(2) [symmetric] lt, of big] u
    using rest k(1) by (simp add: upt_conv_Cons)
qed

text \<open>C29: An array is a list of numbers of its element size: an index from 1 to the length returns the element, and assigning a number that fits replaces
  that element and no other, also where several elements share a byte and for both byte orders; every other index is an
  error that changes nothing. The iterator goes from an index to the next one with its element and ends after the last, and a loop over
  \<^verbatim>\<open>pairs\<close> gets every element once, in order, if there are less than \<open>2^32 - 1\<close> of them. No access leaves the block of the array.\<close>

theorem bitarray_refines_list:
  assumes inv: "ba_inv pa" and idx: "idx = word_of_int i" and v: "take_bit (unat (elsize pa)) (word_of_int v :: u32) = word_of_int v"
  shows "bitarray_len pa = sint (capacity pa) \<and> length (elements big pa) = unat (capacity pa)
    \<and> (\<forall>x \<in> set (elements big pa). take_bit (unat (elsize pa)) x = x)
    \<and> (idx = 0 \<or> capacity pa < idx \<longrightarrow> bitarray_get big pa i = Some (Lua_error ''invalid index.'') \<and> bitarray_set big pa i v = Some (Lua_error ''invalid index.''))
    \<and> (0 < idx \<and> idx \<le> capacity pa \<longrightarrow> bitarray_get big pa i = Some (Result (sint (elements big pa ! (unat idx - 1))))
        \<and> (\<exists>pa'. bitarray_set big pa i v = Some (Result pa') \<and> ba_inv pa' \<and> capacity pa' = capacity pa \<and> elsize pa' = elsize pa
          \<and> elements big pa' = (elements big pa)[unat idx - 1 := word_of_int v]))
    \<and> (idx < capacity pa \<longrightarrow> bitarray_iter big pa i = Some (Some (sint (idx + 1), sint (elements big pa ! unat idx))))
    \<and> (capacity pa \<le> idx \<and> idx \<noteq> - 1 \<longrightarrow> bitarray_iter big pa i = Some None)
    \<and> (capacity pa \<noteq> - 1 \<longrightarrow> bitarray_pairs big pa (Suc (unat (capacity pa))) 0
        = Some (map (\<lambda>j. (sint (of_nat j + 1 :: u32), sint (elements big pa ! j))) [0..<unat (capacity pa)]))"
proof (intro conjI impI)
  show "idx < capacity pa \<Longrightarrow> bitarray_iter big pa i = Some (Some (sint (idx + 1), sint (elements big pa ! unat idx)))"
    by (rule iter_next [OF inv idx])
  show "capacity pa \<le> idx \<and> idx \<noteq> - 1 \<Longrightarrow> bitarray_iter big pa i = Some None"
    using iter_end [OF idx] by blast
  show "capacity pa \<noteq> - 1 \<Longrightarrow> bitarray_pairs big pa (Suc (unat (capacity pa))) 0
      = Some (map (\<lambda>j. (sint (of_nat j + 1 :: u32), sint (elements big pa ! j))) [0..<unat (capacity pa)])"
    using pairs_from [OF inv, of 0 0 big] by simp
  show "\<forall>x \<in> set (elements big pa). take_bit (unat (elsize pa)) x = x"
  proof
    fix x assume "x \<in> set (elements big pa)"
    then obtain j where "j < unat (capacity pa)" "x = the (bitarray_getval big pa (of_nat j + 1))" by (auto simp: elements_def)
    then show "take_bit (unat (elsize pa)) x = x" using getval_small [OF inv, of j big] by auto
  qed
  assume r: "0 < idx \<and> idx \<le> capacity pa"
  then have pos: "0 < idx" "idx \<le> capacity pa" by simp_all
  have ok: "idx \<noteq> 0" "\<not> capacity pa < idx" using pos by auto
  note g = getval_elements [OF inv pos]
  show "bitarray_get big pa i = Some (Result (sint (elements big pa ! (unat idx - 1))))"
    using g(1) [of big] ok by (simp add: bitarray_get_def Let_def idx)
  from setval_element [OF inv g(2) v, of big] obtain pa' where s: "setval big pa (idx - 1) (word_of_int v) = Some pa'" "ba_inv pa'"
    "capacity pa' = capacity pa" "elsize pa' = elsize pa"
    "\<forall>j < unat (capacity pa). bitarray_getval big pa' (of_nat j + 1) = (if j = unat idx - 1 then Some (word_of_int v) else bitarray_getval big pa (of_nat j + 1))"
    unfolding g(3) [symmetric] by blast
  have "elements big pa' = (elements big pa)[unat idx - 1 := word_of_int v]"
    using s(3,5) g(2) by (intro nth_equalityI) (simp_all add: nth_elements nth_list_update)
  then show "\<exists>pa'. bitarray_set big pa i v = Some (Result pa') \<and> ba_inv pa' \<and> capacity pa' = capacity pa \<and> elsize pa' = elsize pa
      \<and> elements big pa' = (elements big pa)[unat idx - 1 := word_of_int v]"
    using s ok by (simp add: bitarray_set_def idx)
qed (use idx in \<open>auto simp: bitarray_len_def bitarray_get_def bitarray_set_def\<close>)

lemma size_ok:
  fixes es :: u8
  assumes "unat es \<in> {1, 2, 4, 8, 16, 32}"
  shows "es \<noteq> 0" "\<not> es > 32" "es AND (es - 1) = 0"
proof -
  have "es \<in> {1, 2, 4, 8, 16, 32}" using assms by (auto simp: word_unat_eq_iff)
  then show "es \<noteq> 0" "\<not> es > 32" "es AND (es - 1) = 0" by (elim insertE emptyE; simp)+
qed

lemma ROUND_SIZE_unat: "unat (ROUND_SIZE s) = (unat s + 7) div 8"
proof -
  have "s AND 7 = take_bit 3 s" by (simp add: take_bit_eq_mask mask_eq_exp_minus_1)
  moreover have "unat (take_bit 3 s) = unat s mod 8" unfolding unsigned_take_bit_eq by (simp add: take_bit_eq_mod)
  ultimately have z: "s AND 7 = 0 \<longleftrightarrow> unat s mod 8 = 0" by (metis unat_eq_0)
  have d: "unat (drop_bit 3 s) = unat s div 8" unfolding unat_drop_bit_eq by (simp add: drop_bit_eq_div)
  have "unat s < 2 ^ LENGTH(32)" by (rule unsigned_less)
  then have "unat (drop_bit 3 s) + 1 < 2 ^ 32" unfolding d by simp
  then have "unat (drop_bit 3 s + 1) = unat s div 8 + 1" unfolding d [symmetric] by (simp add: unat_add_lem [THEN iffD1])
  moreover have "(m + 7) div 8 = m div 8 + (if m mod 8 = 0 then 0 else 1)" for m :: nat by presburger
  ultimately show ?thesis using z d by (simp add: ROUND_SIZE_def)
qed

lemma array_bits: "unat (cap * ucast es :: u32) = unat cap * unat (es :: u8) mod 2 ^ 32"
proof -
  have "unat es < 2 ^ LENGTH(8)" by (rule unsigned_less)
  then have "unat (ucast es :: u32) = unat es" by (simp add: unsigned_ucast_eq take_bit_nat_eq_self)
  then show ?thesis by (simp add: unat_word_ariths)
qed

text \<open>A new array satisfies the invariant when its size does not overflow.\<close>

lemma make_array_fill:
  assumes "unat es \<in> {1, 2, 4, 8, 16, 32}" "0 < unat cap * unat es mod 2 ^ 32"
  shows "make_array cap es (FILL f) =
    Some (Result \<lparr>capacity = cap, elsize = es, ba_values = replicate ((unat cap * unat es mod 2 ^ 32 + 7) div 8) f\<rparr>)"
proof -
  have t: "unat (ROUND_SIZE (cap * ucast es)) = (unat cap * unat es mod 2 ^ 32 + 7) div 8" by (simp add: ROUND_SIZE_unat array_bits)
  moreover have "0 < (m + 7) div 8" if "0 < m" for m :: nat using that by (simp add: div_greater_zero_iff)
  ultimately have "0 < unat (ROUND_SIZE (cap * ucast es))" using assms(2) by simp
  then have "ROUND_SIZE (cap * ucast es) \<noteq> 0" by (metis less_irrefl unat_0)
  then show ?thesis using size_ok [OF assms(1)] t by (simp add: make_array_def Let_def)
qed

text \<open>The raw string of an array that fills whole bytes, given back to \<^verbatim>\<open>bitarray.new\<close> with the same element size, makes the same array. The string must
  not be one that Lua reads as a number.\<close>

theorem bitarray_raw_roundtrip:
  assumes inv: "ba_inv pa" and whole: "unat (capacity pa) * unat (elsize pa) mod 8 = 0"
  shows "\<exists>s. bitarray_tostring big pa (Some (map of_char ''raw'')) = Some (Result s)
    \<and> bitarray_new (LString s None) (LNumber (uint (elsize pa))) a3 = Some (Result pa)"
proof -
  let ?e = "unat (elsize pa)" and ?c = "unat (capacity pa)" and ?s = "ba_values pa"
  have i: "?e \<in> {1, 2, 4, 8, 16, 32}" "0 < ?c * ?e" "?c * ?e < 2 ^ 32" "length ?s = (?c * ?e + 7) div 8" using inv by (auto simp: ba_inv_def)
  have bits: "8 * length ?s = ?c * ?e" using i(4) whole by presburger
  have r: "unat (ROUND_SIZE (capacity pa * ucast (elsize pa))) = length ?s" using i(3,4) by (simp add: ROUND_SIZE_unat array_bits)
  then have "bitarray_tostring big pa (Some (map of_char ''raw'')) = Some (Result ?s)"
    by (simp add: bitarray_tostring_def unpack_arg_def fetch_def)
  moreover have "bitarray_new (LString ?s None) (LNumber (uint (elsize pa))) a3 = Some (Result pa)"
  proof -
    have p8: "push_bit 3 x = 8 * x" for x :: u32 by (simp add: push_bit_eq_mult mult.commute)
    have u: "(push_bit 3 (of_nat (length ?s)) :: u32) = of_nat (?c * ?e)"
      unfolding p8 bits [symmetric] of_nat_mult of_nat_numeral by (rule refl)
    have m: "unat (of_nat (?c * ?e) :: u32) = ?c * ?e" by (rule of_nat_small) (rule i(3))
    have eu: "unat (ucast (elsize pa) :: u32) = ?e" using array_bits [of 1 "elsize pa"] unsigned_less [of "elsize pa", where 'a = nat] by simp
    have d: "of_nat (?c * ?e) mod ucast (elsize pa) = (0 :: u32)"
      by (rule word_unat_eq_iff [THEN iffD2]) (simp only: unat_mod m eu unat_0 mod_mult_self2_is_0)
    have q: "of_nat (?c * ?e) div ucast (elsize pa) = capacity pa"
      by (rule word_unat_eq_iff [THEN iffD2]) (use i(1) in \<open>auto simp only: unat_div m eu nonzero_mult_div_cancel_right\<close>)
    have z: "ROUND_SIZE (capacity pa * ucast (elsize pa)) \<noteq> 0" using r i(2) bits by (metis mult_is_0 neq0_conv unat_0)
    have "blit (replicate (length ?s) 0) 0 ?s = Some ?s" by (simp add: blit_def)
    then show ?thesis using size_ok [OF i(1)] z r by (simp add: bitarray_new_def size_arg_def Let_def u d q make_array_def del: of_nat_mult)
  qed
  ultimately show ?thesis by blast
qed

text \<open>A value one too large: what is stored at \<open>p\<close> and in the field before it.\<close>

lemma get_put_over:
  assumes "p + e + e \<le> 8" "0 < e"
  shows "get_field e p (put_field e p (2 ^ e) b) = 0" "get_field e (p + e) (put_field e p (2 ^ e) b) = get_field e (p + e) b OR 1"
    "q + e \<le> p \<or> p + e + e \<le> q \<Longrightarrow> get_field e q (put_field e p (2 ^ e) b) = get_field e q b"
proof -
  have put: "bit (put_field e p (2 ^ e) b) n \<longleftrightarrow> n < 8 \<and> (n = p + e \<or> bit b n \<and> \<not> (p \<le> n \<and> n < p + e))" for n
    using assms by (auto simp: put_field_def bit_simps dest: u8_bit)
  show "get_field e p (put_field e p (2 ^ e) b) = 0"
    by (rule bit_word_eqI) (auto simp: bit_get_field put)
  show "get_field e (p + e) (put_field e p (2 ^ e) b) = get_field e (p + e) b OR 1"
    by (rule bit_word_eqI) (use assms in \<open>auto simp: bit_get_field put bit_or_iff bit_1_iff dest: u8_bit\<close>)
  assume q: "q + e \<le> p \<or> p + e + e \<le> q"
  show "get_field e q (put_field e p (2 ^ e) b) = get_field e q b"
    by (rule bit_word_eqI) (use q assms in \<open>auto simp: bit_get_field put dest: u8_bit\<close>)
qed

text \<open>Assigning to an element smaller than a byte a value one too large for it sets the element to 0 and changes the element before it, if that
  is in the same byte: the value is not cut to the size of the element.\<close>

theorem bitarray_set_spills:
  assumes inv: "ba_inv pa" and e: "unat (elsize pa) \<in> {1, 2, 4}" and idx: "idx = word_of_int i" "1 < idx" "idx \<le> capacity pa"
    and k: "k = unat idx - 1" "k mod (8 div unat (elsize pa)) \<noteq> 0"
  shows "\<exists>pa'. bitarray_set big pa i (2 ^ unat (elsize pa)) = Some (Result pa')
    \<and> elements big pa' = (elements big pa)[k := 0, k - 1 := elements big pa ! (k - 1) OR 1]"
proof -
  let ?e = "unat (elsize pa)"
  let ?m = "8 div ?e"
  have m: "1 < ?m" "?m * ?e = 8" using e k(2) by auto
  have pos: "0 < idx" "idx \<noteq> 0" "\<not> capacity pa < idx" using idx(2,3) by (auto simp: word_less_nat_alt word_le_nat_alt)
  note g = getval_elements [OF inv pos(1) idx(3), folded k(1)]
  define q r where "q = k div ?m" and "r = k mod ?m"
  have qr: "k = ?m * q + r" "0 < r" "r < ?m" using k(2) m(1) by (simp_all add: q_def r_def)
  then have "k - 1 = ?m * q + (r - 1)" "r - 1 < ?m" by simp_all
  then have "(k - 1) div ?m = q" "(k - 1) mod ?m = r - 1" by simp_all
  moreover have "k \<noteq> 0" using qr(1,2) by auto
  ultimately have k1: "k - 1 < unat (capacity pa)" "k \<noteq> 0" "(k - 1) div ?m = k div ?m" "(k - 1) mod ?m = k mod ?m - 1"
    using g(2) k(2) by (auto simp: q_def r_def)
  let ?p = "fpos ?e k" and ?b = "ba_values pa ! (k div ?m)"
  let ?pa = "pa\<lparr>ba_values := (ba_values pa)[k div ?m := put_field ?e ?p (2 ^ ?e) ?b]\<rparr>"
  have "fpos ?e (k - 1) = (?m - 1 - (k mod ?m - 1)) * ?e" unfolding fpos_def k1(4) by (rule refl)
  also have "?m - 1 - (k mod ?m - 1) = (?m - 1 - k mod ?m) + 1" using qr(2,3) by (simp add: r_def)
  finally have p1: "fpos ?e (k - 1) = ?p + ?e" by (simp add: fpos_def)
  then have room: "?p + ?e + ?e \<le> 8" "0 < ?e" using fpos_range [OF e, of "k - 1"] e by auto
  have "word_of_int (2 ^ ?e) = (2 ^ ?e :: u32)" by simp
  then have set: "bitarray_set big pa i (2 ^ ?e) = Some (Result ?pa)"
    using setval_sub [OF inv e g(2), of big "2 ^ ?e"] pos idx(1) g(3) by (simp add: bitarray_set_def)
  have inv': "ba_inv ?pa" using inv by (simp add: ba_inv_def)
  have "elements big ?pa ! j = (elements big pa)[k := 0, k - 1 := elements big pa ! (k - 1) OR 1] ! j" if j: "j < unat (capacity pa)" for j
  proof -
    have at: "elements big pa ! j' = get_field ?e (fpos ?e j') (ba_values pa ! (j' div ?m))" if "j' < unat (capacity pa)" for j'
      using getval_sub [OF inv e that] nth_elements [OF that] by simp
    have at': "elements big ?pa ! j = get_field ?e (fpos ?e j) ((ba_values pa)[k div ?m := put_field ?e ?p (2 ^ ?e) ?b] ! (j div ?m))"
      using getval_sub [OF inv', of j big] e j nth_elements [of j ?pa big] by simp
    have blk: "k div ?m < length (ba_values pa)" using sub_in_block(1) [OF inv e g(2)] .
    consider "j = k" | "j = k - 1" | "j div ?m \<noteq> k div ?m" | "j div ?m = k div ?m" "j \<noteq> k" "j \<noteq> k - 1" by blast
    then show ?thesis
    proof cases
      case 1
      then show ?thesis using at' blk get_put_over(1) [OF room] k1(2) j by (simp add: nth_list_update)
    next
      case 2
      then show ?thesis using at' blk get_put_over(2) [OF room] k1(3) p1 at [OF k1(1)] j by (simp add: nth_list_update)
    next
      case 3
      then have "j \<noteq> k" "j \<noteq> k - 1" using k1(3) by auto
      then show ?thesis using at' 3 at [OF j] by simp
    next
      case 4
      have "fpos ?e j + ?e \<le> ?p \<or> ?p + ?e \<le> fpos ?e j" "fpos ?e j + ?e \<le> ?p + ?e \<or> ?p + ?e + ?e \<le> fpos ?e j"
        using fpos_other [OF e 4(1,2)] fpos_other [OF e, of j "k - 1"] 4 k1(3) p1 by auto
      then have "fpos ?e j + ?e \<le> ?p \<or> ?p + ?e + ?e \<le> fpos ?e j" using room(2) by linarith
      then show ?thesis using at' blk 4 get_put_over(3) [OF room] at [OF j] by (simp add: nth_list_update)
    qed
  qed
  then have "elements big ?pa = (elements big pa)[k := 0, k - 1 := elements big pa ! (k - 1) OR 1]" by (intro nth_equalityI) simp_all
  then show ?thesis using set by blast
qed

text \<open>The size of a new array is computed modulo \<open>2^32\<close> bits and the product is not tested: when it wraps around, \<^verbatim>\<open>bitarray.new\<close> succeeds with a block that
  is too small, and the last element of the array lies outside it.\<close>

theorem bitarray_new_wraps:
  assumes e: "es \<in> {2, 4, 8, 16, 32 :: nat}" and cap: "0 < n" "n < 2 ^ 32" and over: "2 ^ 32 \<le> n * es" "n * es mod 2 ^ 32 \<noteq> 0"
  shows "\<exists>pa. bitarray_new (LNumber (int n)) (LNumber (int es)) LOther = Some (Result pa) \<and> unat (capacity pa) = n
    \<and> length (ba_values pa) = (n * es mod 2 ^ 32 + 7) div 8 \<and> bitarray_get big pa (int n) = None"
proof -
  let ?len = "(n * es mod 2 ^ 32 + 7) div 8" and ?es = "of_nat es :: u8" and ?cap = "of_nat n :: u32"
  let ?pa = "\<lparr>capacity = ?cap, elsize = ?es, ba_values = replicate ?len 0\<rparr>"
  have u: "unat ?es = es" "unat ?cap = n" using e cap(2) by (auto intro: of_nat_small)
  have new: "bitarray_new (LNumber (int n)) (LNumber (int es)) LOther = Some (Result ?pa)"
    using make_array_fill [of ?es ?cap 0] e over(2) by (simp add: bitarray_new_def size_arg_def u)
  have "n * es div 2 ^ 32 * 2 ^ 32 + n * es mod 2 ^ 32 = n * es" by simp
  moreover have "0 < n * es div 2 ^ 32" using over(1) by (simp add: div_greater_zero_iff)
  ultimately have big: "n * es mod 2 ^ 32 + 2 ^ 32 \<le> n * es" by (metis One_nat_def Suc_leI add.commute add_le_mono1 mult_1 mult_le_mono1)
  have i: "unat (of_nat n - 1 :: u32) = n - 1"
    using of_nat_small [of "n - 1"] cap by (simp add: of_nat_diff)
  have "?cap \<noteq> 0" using u(2) cap(1) by (metis less_irrefl unat_0)
  moreover have "bitarray_getval big ?pa ?cap = None"
  proof (cases "es < 8")
    case True
    with e have e3: "es \<in> {2, 4}" by auto
    have "of_nat n - 1 = (of_nat (n - 1) :: u32)" using cap(1) by (simp add: of_nat_diff)
    moreover have "sub_index ?es (of_nat (n - 1)) = (n - 1) div (8 div es)" using sub_place(1) [of ?es "n - 1"] e3 cap u(1) by auto
    moreover have "?len \<le> (n - 1) div (8 div es)" using e3 big by auto
    moreover have "?es < 8" using True u(1) by (simp add: word_less_nat_alt)
    ultimately show ?thesis by (simp add: bitarray_getval_def fetch_def)
  next
    case False
    with e have "es \<in> {8, 16, 32}" by auto
    then have "?len \<le> es div 8 * (n - 1)" "\<not> ?es < 8" using big by (auto simp: u(1) word_less_nat_alt)
    then show ?thesis using \<open>es \<in> {8, 16, 32}\<close> i by (auto simp: bitarray_getval_def fetch_def)
  qed
  ultimately have "bitarray_get big ?pa (int n) = None" by (simp add: bitarray_get_def)
  with new u(2) show ?thesis by auto
qed

section \<open>Instances\<close>

definition example_array :: bitarray where
  "example_array = \<lparr>capacity = 4, elsize = 4, ba_values = [0x21, 0x43]\<rparr>"

lemma example_array_inv: "ba_inv example_array"
  by (simp add: ba_inv_def example_array_def)

theorem bitarray_refines_list_witness:
  "bitarray_get True example_array 9 = Some (Lua_error ''invalid index.'')
    \<and> (\<exists>pa'. bitarray_set True example_array 3 5 = Some (Result pa') \<and> elements True pa' = (elements True example_array)[Suc (Suc 0) := 5])
    \<and> bitarray_iter True example_array 9 = Some None"
  using bitarray_refines_list [OF example_array_inv refl, where i = 9 and v = 5 and big = True] bitarray_refines_list [OF example_array_inv refl, where i = 3 and v = 5 and big = True]
  by (auto simp: example_array_def take_bit_eq_mask mask_eq_exp_minus_1)

theorem bitarray_raw_roundtrip_witness:
  "\<exists>s. bitarray_tostring True example_array (Some (map of_char ''raw'')) = Some (Result s)
    \<and> bitarray_new (LString s None) (LNumber 4) LOther = Some (Result example_array)"
  using bitarray_raw_roundtrip [OF example_array_inv, of True LOther] by (simp add: example_array_def)

theorem bitarray_set_spills_witness:
  "\<exists>pa'. bitarray_set True example_array 2 16 = Some (Result pa') \<and> elements True pa' = (elements True example_array)[1 := 0, 0 := elements True example_array ! 0 OR 1]"
  using bitarray_set_spills [OF example_array_inv _ refl _ _ refl, where i = 2 and big = True] by (simp add: example_array_def)

theorem bitarray_new_wraps_witness:
  "\<exists>pa. bitarray_new (LNumber 0x20000001) (LNumber 8) LOther = Some (Result pa) \<and> length (ba_values pa) = 1 \<and> bitarray_get True pa 0x20000001 = None"
  using bitarray_new_wraps [of 8 "0x20000001" True] by auto

end
