(* ===== verification/Lrotable.thy ===== *)
theory Lrotable
  imports Elua_Prelude "HOL-Library.Monad_Syntax"
begin

text \<open>
  The read-only tables that eLua adds to Lua, \<^verbatim>\<open>src/lua/lrotable.c\<close>, with the functions of \<^verbatim>\<open>ltable.c\<close> and \<^verbatim>\<open>lbaselib.c\<close> that use them: constant arrays of
  keys and values in flash, ended by a nil key, in which a lookup is a search and \<^verbatim>\<open>next\<close> searches for the previous key. Reading past the end of an array
  and using a variable that was not set have no result. A build fixes whether Lua numbers are integers or floating
  point: the conversions are parameters. The specification of a table is a map.
\<close>

section \<open>Tables\<close>

datatype luaR_key = STRKEY "u8 list" | NUMKEY int | NILKEY

datatype 'v TValue = NIL | LIGHTFUNCTION 'v | ROTABLE nat | VALUE 'v

type_synonym 'v luaR_entry = "luaR_key \<times> 'v TValue"

text \<open>Tables have names, NULL at the end of the list of all tables; \<open>ro_tables\<close> is the memory that the addresses of tables refer to, NULL is 0.\<close>

record 'v rotables =
  lua_rotable :: "(u8 list option \<times> nat) list"
  ro_tables :: "nat \<Rightarrow> 'v luaR_entry list"
  stext :: nat
  etext :: nat

record 'n lua_numbers =
  lua_number2int :: "'n \<Rightarrow> int"
  cast_num :: "int \<Rightarrow> 'n"

datatype ('n, 'v) lua_key = KNIL | KSTRING "u8 list" | KNUMBER 'n | KOTHER 'v

abbreviation "LUA_MAX_ROTABLE_NAME \<equiv> (32 :: nat)"

section \<open>Searching\<close>

text \<open>The loop over \<^verbatim>\<open>lua_rotable\<close>; \<open>len\<close> bytes of \<open>name\<close> are compared.\<close>

fun findglobal_loop :: "(u8 list option \<times> nat) list \<Rightarrow> u8 list \<Rightarrow> nat \<Rightarrow> nat option" where
  "findglobal_loop [] name len = None"
| "findglobal_loop ((None, p) # ts) name len = Some 0"
| "findglobal_loop ((Some n, p) # ts) name len =
     (if n \<noteq> [] \<and> length n = len \<and> take len n = take len name then Some p else findglobal_loop ts name len)"

definition luaR_findglobal :: "'v rotables \<Rightarrow> u8 list \<Rightarrow> nat \<Rightarrow> nat option" where
  "luaR_findglobal ro name len = (if length name > LUA_MAX_ROTABLE_NAME then Some 0 else findglobal_loop (lua_rotable ro) name len)"

text \<open>The value found and its position.\<close>

fun auxfind_loop :: "'v luaR_entry list \<Rightarrow> u8 list option \<Rightarrow> int \<Rightarrow> nat \<Rightarrow> (('v TValue \<times> nat) option) option" where
  "auxfind_loop [] strkey numkey i = None"
| "auxfind_loop ((k, v) # es) strkey numkey i =
     (if k = NILKEY then Some None
      else if (case strkey of Some s \<Rightarrow> k = STRKEY s | None \<Rightarrow> k = NUMKEY numkey) then Some (Some (v, i))
      else auxfind_loop es strkey numkey (i + 1))"

definition luaR_auxfind :: "'v rotables \<Rightarrow> nat \<Rightarrow> u8 list option \<Rightarrow> int \<Rightarrow> (('v TValue \<times> nat) option) option" where
  "luaR_auxfind ro pentry strkey numkey = (if pentry = 0 then Some None else auxfind_loop (ro_tables ro pentry) strkey numkey 0)"

definition luaR_findentry :: "'v rotables \<Rightarrow> nat \<Rightarrow> u8 list option \<Rightarrow> int \<Rightarrow> (('v TValue \<times> nat) option) option" where
  "luaR_findentry ro data strkey numkey = luaR_auxfind ro data strkey numkey"

definition luaR_findfunction :: "'v rotables \<Rightarrow> nat \<Rightarrow> u8 list \<Rightarrow> 'v TValue option option" where
  "luaR_findfunction ro ptable key =
     do { r \<leftarrow> luaR_auxfind ro ptable (Some key) 0;
          Some (case r of Some (LIGHTFUNCTION f, i) \<Rightarrow> Some (LIGHTFUNCTION f) | _ \<Rightarrow> None) }"

definition luaR_getmeta :: "'v rotables \<Rightarrow> nat \<Rightarrow> nat option" where
  "luaR_getmeta ro data =
     do { r \<leftarrow> luaR_auxfind ro data (Some (map of_char ''__metatable'')) 0;
          Some (case r of Some (ROTABLE t, i) \<Rightarrow> t | _ \<Rightarrow> 0) }"

definition luaR_isrotable :: "'v rotables \<Rightarrow> nat \<Rightarrow> bool" where
  "luaR_isrotable ro p \<longleftrightarrow> stext ro \<le> p \<and> p \<le> etext ro"

text \<open>A Lua string as a C string: it may contain zeros, and a long one becomes the empty string.\<close>

definition luaR_getcstr :: "u8 list \<Rightarrow> nat \<Rightarrow> u8 list" where
  "luaR_getcstr src maxsize = (if length src + 1 > maxsize then [] else takeWhile (\<lambda>c. c \<noteq> 0) src)"

section \<open>Iteration\<close>

definition luaR_next_helper :: "'n lua_numbers \<Rightarrow> 'v luaR_entry list \<Rightarrow> nat \<Rightarrow> (('n, 'v) lua_key \<times> 'v TValue) option" where
  "luaR_next_helper nums pentries pos =
     (if pos < length pentries
      then Some (case pentries ! pos of
                   (NILKEY, v) \<Rightarrow> (KNIL, NIL)
                 | (STRKEY s, v) \<Rightarrow> (KSTRING s, v)
                 | (NUMKEY n, v) \<Rightarrow> (KNUMBER (cast_num nums n), v))
      else None)"

definition luaR_next :: "'n lua_numbers \<Rightarrow> 'v rotables \<Rightarrow> nat \<Rightarrow> ('n, 'v) lua_key \<Rightarrow> 'v TValue \<Rightarrow> (('n, 'v) lua_key \<times> 'v TValue) option" where
  "luaR_next nums ro data key val =
     (let search = (\<lambda>strkey numkey. do { r \<leftarrow> luaR_findentry ro data strkey numkey;
                                         (v, keypos) \<leftarrow> r;
                                         luaR_next_helper nums (ro_tables ro data) (keypos + 1) })
      in case key of
           KNIL \<Rightarrow> luaR_next_helper nums (ro_tables ro data) 0
         | KSTRING s \<Rightarrow> search (Some (luaR_getcstr s LUA_MAX_ROTABLE_NAME)) 0
         | KNUMBER n \<Rightarrow> search None (lua_number2int nums n)
         | KOTHER v \<Rightarrow> Some (key, val))"

section \<open>Use by the virtual machine\<close>

definition found :: "('v TValue \<times> nat) option \<Rightarrow> 'v TValue" where
  "found r = (case r of Some (v, i) \<Rightarrow> v | None \<Rightarrow> NIL)"

definition luaH_getnum_ro :: "'v rotables \<Rightarrow> nat \<Rightarrow> int \<Rightarrow> 'v TValue option" where
  "luaH_getnum_ro ro t key = map_option found (luaR_findentry ro t None key)"

definition luaH_getstr_ro :: "'v rotables \<Rightarrow> nat \<Rightarrow> u8 list \<Rightarrow> 'v TValue option" where
  "luaH_getstr_ro ro t key =
     (if t = 0 then Some NIL else map_option found (luaR_findentry ro t (Some (luaR_getcstr key LUA_MAX_ROTABLE_NAME)) 0))"

definition luaH_get_ro :: "'n lua_numbers \<Rightarrow> 'v rotables \<Rightarrow> nat \<Rightarrow> ('n, 'v) lua_key \<Rightarrow> 'v TValue option" where
  "luaH_get_ro nums ro t key =
     (case key of
        KSTRING s \<Rightarrow> luaH_getstr_ro ro t s
      | KNUMBER n \<Rightarrow> if cast_num nums (lua_number2int nums n) = n then luaH_getnum_ro ro t (lua_number2int nums n) else Some NIL
      | _ \<Rightarrow> Some NIL)"

text \<open>The length of a table counts the numbers from 1 on that it has; no more than its entries.\<close>

fun getn_loop :: "'v rotables \<Rightarrow> nat \<Rightarrow> int \<Rightarrow> nat \<Rightarrow> nat option" where
  "getn_loop ro t i 0 = None"
| "getn_loop ro t i (Suc n) =
     do { r \<leftarrow> luaR_findentry ro t None i;
          case r of None \<Rightarrow> Some 0 | Some e \<Rightarrow> do { len \<leftarrow> getn_loop ro t (i + 1) n; Some (len + 1) } }"

definition luaH_getn_ro :: "'v rotables \<Rightarrow> nat \<Rightarrow> nat option" where
  "luaH_getn_ro ro t = getn_loop ro t 1 (length (ro_tables ro t) + 1)"

text \<open>The other result of \<^verbatim>\<open>luaH_next_ro\<close>: whether there was an element.\<close>

definition luaH_next_ro :: "'n lua_numbers \<Rightarrow> 'v rotables \<Rightarrow> nat \<Rightarrow> ('n, 'v) lua_key \<Rightarrow> (bool \<times> ('n, 'v) lua_key \<times> 'v TValue) option" where
  "luaH_next_ro nums ro t key = do { (k, v) \<leftarrow> luaR_next nums ro t key NIL; Some (k \<noteq> KNIL, k, v) }"

text \<open>A global variable that Lua does not find: a function of the base library, the version or a table.\<close>

datatype 'v global = Base "'v TValue" | Version | Rotable nat | Absent

definition luaB_index :: "'v rotables \<Rightarrow> nat \<Rightarrow> u8 list \<Rightarrow> 'v global option" where
  "luaB_index ro base_funcs_list keyname =
     do { fres \<leftarrow> luaR_findfunction ro base_funcs_list keyname;
          case fres of
            Some f \<Rightarrow> Some (Base f)
          | None \<Rightarrow> if keyname = map of_char ''_VERSION'' then Some Version
                   else do { res \<leftarrow> luaR_findglobal ro keyname (length keyname); Some (if res = 0 then Absent else Rotable res) } }"

section \<open>A table is a map\<close>

text \<open>The entries of a table, and a table that is ended and has no key twice, no key too long to be looked up and no number that is not an \<^verbatim>\<open>int\<close>.\<close>

definition entries :: "'v luaR_entry list \<Rightarrow> 'v luaR_entry list" where
  "entries es = takeWhile (\<lambda>e. fst e \<noteq> NILKEY) es"

definition key_ok :: "luaR_key \<Rightarrow> bool" where
  "key_ok k \<longleftrightarrow> (case k of STRKEY s \<Rightarrow> length s < LUA_MAX_ROTABLE_NAME \<and> 0 \<notin> set s | NUMKEY n \<Rightarrow> - (2 ^ 31) \<le> n \<and> n < 2 ^ 31 | NILKEY \<Rightarrow> True)"

definition table_ok :: "'v rotables \<Rightarrow> nat \<Rightarrow> bool" where
  "table_ok ro t \<longleftrightarrow> t \<noteq> 0 \<and> NILKEY \<in> fst ` set (ro_tables ro t) \<and> distinct (map fst (entries (ro_tables ro t)))
     \<and> (\<forall>e \<in> set (entries (ro_tables ro t)). key_ok (fst e))"

definition numbers_ok :: "'n lua_numbers \<Rightarrow> bool" where
  "numbers_ok nums \<longleftrightarrow> (\<forall>i. - (2 ^ 31) \<le> i \<and> i < 2 ^ 31 \<longrightarrow> lua_number2int nums (cast_num nums i) = i)"

text \<open>The key of a table that a Lua value stands for.\<close>

definition ro_key :: "'n lua_numbers \<Rightarrow> ('n, 'v) lua_key \<Rightarrow> luaR_key option" where
  "ro_key nums key =
     (case key of
        KSTRING s \<Rightarrow> Some (STRKEY s)
      | KNUMBER n \<Rightarrow> if cast_num nums (lua_number2int nums n) = n then Some (NUMKEY (lua_number2int nums n)) else None
      | _ \<Rightarrow> None)"

definition lua_key_of :: "'n lua_numbers \<Rightarrow> luaR_key \<Rightarrow> ('n, 'v) lua_key" where
  "lua_key_of nums k = (case k of STRKEY s \<Rightarrow> KSTRING s | NUMKEY n \<Rightarrow> KNUMBER (cast_num nums n) | NILKEY \<Rightarrow> KNIL)"

definition search_key :: "u8 list option \<Rightarrow> int \<Rightarrow> luaR_key" where
  "search_key strkey numkey = (case strkey of Some s \<Rightarrow> STRKEY s | None \<Rightarrow> NUMKEY numkey)"

lemma auxfind_loop_map:
  assumes "NILKEY \<in> fst ` set es"
  shows "\<exists>r. auxfind_loop es s n i = Some r \<and> map_option fst r = map_of (entries es) (search_key s n)
    \<and> (\<forall>v j. r = Some (v, j) \<longrightarrow> i \<le> j \<and> j - i < length (entries es) \<and> entries es ! (j - i) = (search_key s n, v))"
  using assms
proof (induction es arbitrary: i)
  case (Cons e es)
  obtain k v where e: "e = (k, v)" by force
  have hit: "(case s of Some s \<Rightarrow> k = STRKEY s | None \<Rightarrow> k = NUMKEY n) \<longleftrightarrow> k = search_key s n"
    by (auto simp: search_key_def split: option.splits)
  have notnil: "search_key s n \<noteq> NILKEY" by (simp add: search_key_def split: option.splits)
  consider "k = NILKEY" | "k \<noteq> NILKEY" "k = search_key s n" | "k \<noteq> NILKEY" "k \<noteq> search_key s n" by blast
  then show ?case
  proof cases
    case 3
    then have "NILKEY \<in> fst ` set es" using Cons.prems e by auto
    from Cons.IH [OF this, of "i + 1"] obtain r where r: "auxfind_loop es s n (i + 1) = Some r"
      "map_option fst r = map_of (entries es) (search_key s n)"
      "\<forall>v j. r = Some (v, j) \<longrightarrow> i + 1 \<le> j \<and> j - (i + 1) < length (entries es) \<and> entries es ! (j - (i + 1)) = (search_key s n, v)" by blast
    have "i \<le> j \<and> j - i < length (entries (e # es)) \<and> entries (e # es) ! (j - i) = (search_key s n, w)" if "r = Some (w, j)" for w j
    proof -
      from r(3) that have j: "i + 1 \<le> j" "j - (i + 1) < length (entries es)" "entries es ! (j - (i + 1)) = (search_key s n, w)" by auto
      then have "j - i = Suc (j - (i + 1))" by simp
      then show ?thesis using j 3 e by (simp add: entries_def)
    qed
    then show ?thesis using r(1,2) 3 e hit by (auto simp: entries_def)
  qed (use e hit in \<open>auto simp: entries_def\<close>)
qed simp
lemma entries_notnil: "e \<in> set (entries es) \<Longrightarrow> fst e \<noteq> NILKEY"
  by (auto simp: entries_def dest: set_takeWhileD)

lemma takeWhile_less: "e \<in> set es \<Longrightarrow> \<not> P e \<Longrightarrow> length (takeWhile P es) < length es"
  by (induction es) auto

lemma entries_nth:
  assumes "NILKEY \<in> fst ` set es"
  shows "i < length (entries es) \<Longrightarrow> es ! i = entries es ! i"
    and "fst (es ! length (entries es)) = NILKEY" and "length (entries es) < length es"
proof -
  show "i < length (entries es) \<Longrightarrow> es ! i = entries es ! i" by (simp add: entries_def takeWhile_nth)
  obtain e where "e \<in> set es" "\<not> fst e \<noteq> NILKEY" using assms by auto
  then show "length (entries es) < length es" unfolding entries_def by (rule takeWhile_less)
  then show "fst (es ! length (entries es)) = NILKEY" unfolding entries_def
    using nth_length_takeWhile by fastforce
qed

lemma findentry_map:
  assumes "table_ok ro t"
  obtains r where "luaR_findentry ro t s n = Some r" "map_option fst r = map_of (entries (ro_tables ro t)) (search_key s n)"
    "\<And>v j. r = Some (v, j) \<Longrightarrow> j < length (entries (ro_tables ro t)) \<and> entries (ro_tables ro t) ! j = (search_key s n, v)"
  using auxfind_loop_map [of "ro_tables ro t" s n 0] assms
  by (auto simp: table_ok_def luaR_findentry_def luaR_auxfind_def)

lemma luaR_getcstr_ok: "key_ok (STRKEY s) \<Longrightarrow> luaR_getcstr s LUA_MAX_ROTABLE_NAME = s"
  by (auto simp: key_ok_def luaR_getcstr_def takeWhile_eq_all_conv)

lemma found_map: "map_option fst r = m \<Longrightarrow> found r = (case m of Some v \<Rightarrow> v | None \<Rightarrow> NIL)"
  by (auto simp: found_def split: option.splits)

section \<open>Lengths\<close>

lemma getn_loop_counts:
  assumes ok: "table_ok ro t" and "\<exists>j < n. map_of (entries (ro_tables ro t)) (NUMKEY (i + int j)) = None"
  shows "\<exists>len < n. getn_loop ro t i n = Some len \<and> map_of (entries (ro_tables ro t)) (NUMKEY (i + int len)) = None
    \<and> (\<forall>j < len. map_of (entries (ro_tables ro t)) (NUMKEY (i + int j)) \<noteq> None)"
  using assms(2)
proof (induction n arbitrary: i)
  case (Suc n)
  obtain r where r: "luaR_findentry ro t None i = Some r" "map_option fst r = map_of (entries (ro_tables ro t)) (NUMKEY i)"
    using findentry_map [OF ok, of None i] unfolding search_key_def option.case by metis
  show ?case
  proof (cases r)
    case None
    then show ?thesis using r by (intro exI [of _ 0]) auto
  next
    case (Some e)
    then have here: "map_of (entries (ro_tables ro t)) (NUMKEY i) \<noteq> None" using r(2) by (metis option.distinct(1) option.map(2))
    from Suc.prems obtain j where j: "j < Suc n" "map_of (entries (ro_tables ro t)) (NUMKEY (i + int j)) = None" by blast
    have shift: "i + 1 + int m = i + int (Suc m)" for m by simp
    have "j \<noteq> 0" by (rule notI) (use here j(2) in simp)
    then obtain k where k: "j = Suc k" by (cases j) auto
    then have "\<exists>j < n. map_of (entries (ro_tables ro t)) (NUMKEY (i + 1 + int j)) = None"
      unfolding shift using j by (intro exI [of _ k]) (simp only: Suc_less_eq simp_thms)
    from Suc.IH [OF this] obtain len where len: "len < n" "getn_loop ro t (i + 1) n = Some len"
      "map_of (entries (ro_tables ro t)) (NUMKEY (i + 1 + int len)) = None"
      "\<forall>j < len. map_of (entries (ro_tables ro t)) (NUMKEY (i + 1 + int j)) \<noteq> None" by blast
    have "map_of (entries (ro_tables ro t)) (NUMKEY (i + int j)) \<noteq> None" if "j < Suc len" for j
    proof (cases j)
      case (Suc m)
      then show ?thesis using that len(4) unfolding shift by blast
    qed (use here in simp)
    moreover have "getn_loop ro t i (Suc n) = Some (Suc len)" using r len Some by simp
    moreover have "map_of (entries (ro_tables ro t)) (NUMKEY (i + int (Suc len))) = None" using len(3) unfolding shift .
    ultimately show ?thesis using len(1) by (intro exI [of _ "Suc len"]) blast
  qed
qed simp

text \<open>The table has fewer numbers than the loop may count, so that the loop ends.\<close>

lemma numbers_end: "\<exists>j < length es + 1. map_of es (NUMKEY (1 + int j)) = None"
proof (rule ccontr)
  assume "\<not> ?thesis"
  then have "\<forall>j < length es + 1. NUMKEY (1 + int j) \<in> fst ` set es" by (auto simp: map_of_eq_None_iff)
  then have "(\<lambda>j. NUMKEY (1 + int j)) ` {..< length es + 1} \<subseteq> fst ` set es" by auto
  then have "card ((\<lambda>j. NUMKEY (1 + int j)) ` {..< length es + 1}) \<le> card (fst ` set es)" by (rule card_mono [rotated]) simp
  also have "card (fst ` set es) \<le> length es" by (metis card_image_le card_length finite_set le_trans)
  finally show False by (subst (asm) card_image) (auto intro: inj_onI)
qed

lemma luaH_getn_ro_counts:
  assumes "table_ok ro t"
  shows "\<exists>len. luaH_getn_ro ro t = Some len \<and> map_of (entries (ro_tables ro t)) (NUMKEY (1 + int len)) = None
    \<and> (\<forall>j < len. map_of (entries (ro_tables ro t)) (NUMKEY (1 + int j)) \<noteq> None)"
proof -
  have "length (entries (ro_tables ro t)) < length (ro_tables ro t)" using assms by (intro entries_nth(3)) (simp add: table_ok_def)
  then have "\<exists>j < length (ro_tables ro t) + 1. map_of (entries (ro_tables ro t)) (NUMKEY (1 + int j)) = None"
    using numbers_end [of "entries (ro_tables ro t)"] by (meson add_less_mono1 less_trans)
  from getn_loop_counts [OF assms this] show ?thesis unfolding luaH_getn_ro_def by blast
qed

section \<open>Walks\<close>

text \<open>What \<^verbatim>\<open>pairs\<close> does: from a key, the elements that follow it.\<close>

fun ro_walk :: "'n lua_numbers \<Rightarrow> 'v rotables \<Rightarrow> nat \<Rightarrow> ('n, 'v) lua_key \<Rightarrow> nat \<Rightarrow> (('n, 'v) lua_key \<times> 'v TValue) list option" where
  "ro_walk nums ro t key 0 = None"
| "ro_walk nums ro t key (Suc n) =
     do { (more, k, v) \<leftarrow> luaH_next_ro nums ro t key;
          if more then do { kvs \<leftarrow> ro_walk nums ro t k n; Some ((k, v) # kvs) } else Some [] }"

abbreviation lua_entry :: "'n lua_numbers \<Rightarrow> 'v luaR_entry \<Rightarrow> ('n, 'v) lua_key \<times> 'v TValue" where
  "lua_entry nums e \<equiv> (lua_key_of nums (fst e), snd e)"

lemma luaR_next_helper_entries:
  assumes "NILKEY \<in> fst ` set es" and "i \<le> length (entries es)"
  shows "luaR_next_helper nums es i = Some (if i < length (entries es) then lua_entry nums (entries es ! i) else (KNIL, NIL))"
proof (cases "i < length (entries es)")
  case True
  moreover from this have "fst (entries es ! i) \<noteq> NILKEY" using entries_notnil nth_mem by blast
  ultimately show ?thesis using entries_nth [OF assms(1)]
    by (auto simp: luaR_next_helper_def lua_key_of_def split: prod.splits luaR_key.splits)
next
  case False
  then have "i = length (entries es)" using assms(2) by simp
  then show ?thesis using entries_nth(2,3) [OF assms(1)] by (auto simp: luaR_next_helper_def split: prod.splits luaR_key.splits)
qed

lemma luaR_next_entry:
  assumes ok: "table_ok ro t" and nums: "numbers_ok nums" and i: "i < length (entries (ro_tables ro t))"
  shows "luaR_next nums ro t (lua_key_of nums (fst (entries (ro_tables ro t) ! i))) v = luaR_next_helper nums (ro_tables ro t) (i + 1)"
proof -
  define es where "es = entries (ro_tables ro t)"
  have mem: "es ! i \<in> set es" using i es_def by simp
  then have key: "fst (es ! i) \<noteq> NILKEY" "key_ok (fst (es ! i))" using entries_notnil [of _ "ro_tables ro t"] ok unfolding es_def table_ok_def by blast+
  have dist: "distinct (map fst es)" using ok es_def by (simp add: table_ok_def)
  have at: "\<exists>w. luaR_findentry ro t s n = Some (Some (w, i))" if sk: "search_key s n = fst (es ! i)" for s n
  proof -
    obtain r where r: "luaR_findentry ro t s n = Some r" "map_option fst r = map_of es (search_key s n)"
      "\<And>v j. r = Some (v, j) \<Longrightarrow> j < length es \<and> es ! j = (search_key s n, v)" using findentry_map [OF ok] es_def by metis
    have "map_of es (search_key s n) = Some (snd (es ! i))" using dist mem sk by simp
    then obtain w j where wj: "r = Some (w, j)" using r(2) by (cases r) auto
    then have "j < length es" "fst (es ! j) = fst (es ! i)" using r(3) sk by auto
    then have "j = i" using dist i es_def by (metis distinct_conv_nth length_map nth_map)
    then show ?thesis using r(1) wj by blast
  qed
  show ?thesis
  proof (cases "fst (es ! i)")
    case (STRKEY s)
    then show ?thesis using at [of "Some s" 0] key luaR_getcstr_ok [of s]
      by (auto simp: luaR_next_def lua_key_of_def search_key_def es_def)
  next
    case (NUMKEY n)
    then have "lua_number2int nums (cast_num nums n) = n" using nums key by (simp add: numbers_ok_def key_ok_def)
    then show ?thesis using NUMKEY at [of None n] by (auto simp: luaR_next_def lua_key_of_def search_key_def es_def)
  next
    case NILKEY
    then show ?thesis using key by simp
  qed
qed

lemma luaH_next_ro_helper:
  assumes "luaR_next nums ro t key NIL = luaR_next_helper nums (ro_tables ro t) i"
    and "NILKEY \<in> fst ` set (ro_tables ro t)" and "i \<le> length (entries (ro_tables ro t))"
  shows "luaH_next_ro nums ro t key =
    (if i < length (entries (ro_tables ro t)) then Some (True, lua_entry nums (entries (ro_tables ro t) ! i)) else Some (False, KNIL, NIL))"
proof -
  have "lua_key_of nums (fst (entries (ro_tables ro t) ! i)) \<noteq> KNIL" if "i < length (entries (ro_tables ro t))"
    using entries_notnil [OF nth_mem [OF that]] by (cases "fst (entries (ro_tables ro t) ! i)") (auto simp: lua_key_of_def)
  then show ?thesis unfolding luaH_next_ro_def assms(1) luaR_next_helper_entries [OF assms(2,3)] by auto
qed

lemma ro_walk_from:
  assumes ok: "table_ok ro t" and nums: "numbers_ok nums"
  shows "luaR_next nums ro t key NIL = luaR_next_helper nums (ro_tables ro t) i \<Longrightarrow> i \<le> length (entries (ro_tables ro t))
    \<Longrightarrow> length (entries (ro_tables ro t)) - i < n
    \<Longrightarrow> ro_walk nums ro t key n = Some (map (lua_entry nums) (drop i (entries (ro_tables ro t))))"
proof (induction n arbitrary: key i)
  case (Suc n)
  have nil: "NILKEY \<in> fst ` set (ro_tables ro t)" using ok by (simp add: table_ok_def)
  show ?case
  proof (cases "i < length (entries (ro_tables ro t))")
    case True
    have "ro_walk nums ro t (lua_key_of nums (fst (entries (ro_tables ro t) ! i))) n
      = Some (map (lua_entry nums) (drop (i + 1) (entries (ro_tables ro t))))"
      using True Suc.prems(3) by (intro Suc.IH luaR_next_entry [OF ok nums]) auto
    then show ?thesis using luaH_next_ro_helper [OF Suc.prems(1) nil Suc.prems(2)] True
      by (simp add: Cons_nth_drop_Suc [symmetric])
  qed (use luaH_next_ro_helper [OF Suc.prems(1) nil Suc.prems(2)] in simp)
qed simp

section \<open>Properties\<close>

text \<open>C30: A read-only table behaves as the map of its entries: looking up a string of at most 31 bytes without zeros, or a number that is an integer,
  gives the value of that key or nil, every other key gives nil, and the length counts the keys 1, 2, ... up to the first that is missing.
\<close>

theorem rotable_lookup_is_map:
  assumes "table_ok ro t" and "\<And>s. key = KSTRING s \<Longrightarrow> length s < LUA_MAX_ROTABLE_NAME \<and> 0 \<notin> set s"
  shows "luaH_get_ro nums ro t key = Some (case Option.bind (ro_key nums key) (map_of (entries (ro_tables ro t))) of Some v \<Rightarrow> v | None \<Rightarrow> NIL)
    \<and> (\<exists>len. luaH_getn_ro ro t = Some len \<and> map_of (entries (ro_tables ro t)) (NUMKEY (1 + int len)) = None
         \<and> (\<forall>j < len. map_of (entries (ro_tables ro t)) (NUMKEY (1 + int j)) \<noteq> None))"
proof -
  have look: "map_option found (luaR_findentry ro t s n)
    = Some (case map_of (entries (ro_tables ro t)) (search_key s n) of Some v \<Rightarrow> v | None \<Rightarrow> NIL)" for s n
    using findentry_map [OF assms(1), of s n] found_map by (metis option.simps(9))
  have t: "t \<noteq> 0" using assms(1) by (simp add: table_ok_def)
  have "luaH_get_ro nums ro t key = Some (case Option.bind (ro_key nums key) (map_of (entries (ro_tables ro t))) of Some v \<Rightarrow> v | None \<Rightarrow> NIL)"
  proof (cases key)
    case (KSTRING s)
    then have "luaR_getcstr s LUA_MAX_ROTABLE_NAME = s" using assms(2) by (intro luaR_getcstr_ok) (simp add: key_ok_def)
    then show ?thesis using KSTRING t by (simp add: luaH_get_ro_def luaH_getstr_ro_def ro_key_def look search_key_def)
  qed (simp_all add: luaH_get_ro_def luaH_getnum_ro_def ro_key_def look search_key_def)
  then show ?thesis using luaH_getn_ro_counts [OF assms(1)] by blast
qed

text \<open>A walk over a read-only table with \<^verbatim>\<open>next\<close>, which searches for the key that it was given, starts at the first entry, visits every entry
  once in the order of the table and ends.
\<close>

theorem rotable_next_visits_all:
  assumes "table_ok ro t" and "numbers_ok nums"
  shows "ro_walk nums ro t KNIL (length (ro_tables ro t)) = Some (map (\<lambda>e. (lua_key_of nums (fst e), snd e)) (entries (ro_tables ro t)))"
proof -
  have "length (entries (ro_tables ro t)) < length (ro_tables ro t)" using assms(1) by (intro entries_nth(3)) (simp add: table_ok_def)
  then show ?thesis using ro_walk_from [OF assms, of KNIL 0] by (simp add: luaR_next_def)
qed

section \<open>Instances\<close>

definition example_rotables :: "nat rotables" where
  "example_rotables = \<lparr>lua_rotable = [(Some (map of_char ''pio''), 1), (None, 0)],
     ro_tables = (\<lambda>p. if p = 1 then [(STRKEY (map of_char ''pin''), LIGHTFUNCTION 7), (NUMKEY 1, VALUE 5), (NUMKEY 2, VALUE 6), (NILKEY, NIL)] else []),
     stext = 1, etext = 9\<rparr>"

definition integer_numbers :: "int lua_numbers" where
  "integer_numbers = \<lparr>lua_number2int = (\<lambda>n. n), cast_num = (\<lambda>n. n)\<rparr>"

lemma example_rotables_ok: "table_ok example_rotables 1" "numbers_ok integer_numbers"
  by (simp_all add: table_ok_def example_rotables_def entries_def key_ok_def numbers_ok_def integer_numbers_def)

theorem rotable_lookup_is_map_witness:
  "luaH_get_ro integer_numbers example_rotables 1 (KSTRING (map of_char ''pin'')) = Some (LIGHTFUNCTION 7)
    \<and> luaH_get_ro integer_numbers example_rotables 1 (KNUMBER 3) = Some NIL"
  using rotable_lookup_is_map [OF example_rotables_ok(1), of "KSTRING (map of_char ''pin'')" integer_numbers]
    rotable_lookup_is_map [OF example_rotables_ok(1), of "KNUMBER 3" integer_numbers]
  by (auto simp: example_rotables_def integer_numbers_def entries_def ro_key_def)

theorem rotable_next_visits_all_witness:
  "ro_walk integer_numbers example_rotables 1 KNIL 4
    = Some [(KSTRING (map of_char ''pin''), LIGHTFUNCTION 7), (KNUMBER 1, VALUE 5), (KNUMBER 2, VALUE 6)]"
  using rotable_next_visits_all [OF example_rotables_ok]
  by (simp add: example_rotables_def integer_numbers_def entries_def lua_key_of_def numeral_eq_Suc)

end
