(* ===== verification/Rfs_Mux.thy ===== *)
theory Rfs_Mux
  imports Mux
begin

text \<open>
  The remote file system over the multiplexer: the serial transport of \<^verbatim>\<open>src/remotefs/elua_rfs.c\<close> on the UARTs of the board, connected to the multiplexer on
  the PC with the file system server behind it. The link \<open>mux_rfs_link\<close> goes through the code of both ends; it is an interpretation of
  \<open>rfs_connection\<close>, so that everything proved about the client holds over it.
\<close>

section \<open>The transport of the board\<close>

definition rfs_send :: "build_config \<Rightarrow> nat \<Rightarrow> u8 list \<Rightarrow> uart_state \<Rightarrow> nat \<times> uart_state" where
  "rfs_send cfg RFS_UART_ID p s = (length p, fold (platform_uart_send cfg RFS_UART_ID) p s)"

text \<open>The receive loop; \<open>env\<close> is what happens while each of the bytes is waited for.\<close>

fun rfs_recv :: "build_config \<Rightarrow> nat \<Rightarrow> nat \<Rightarrow> (nat \<times> (uart_state \<Rightarrow> uart_state)) list list \<Rightarrow> nat \<Rightarrow> uart_state \<Rightarrow> (u8 list \<times> uart_state) run" where
  "rfs_recv cfg RFS_UART_ID timeout env 0 s = Returned ([], s)"
| "rfs_recv cfg RFS_UART_ID timeout env (Suc n) s =
     (case platform_uart_recv cfg RFS_UART_ID timeout (case env of [] \<Rightarrow> [] | e # es \<Rightarrow> e) s of
        Returned (data, s1) \<Rightarrow>
          if data = -1 then Returned ([], s1)
          else (case rfs_recv cfg RFS_UART_ID timeout (tl env) n s1 of
                  Returned (p, s2) \<Rightarrow> Returned (word_of_int data # p, s2) | Waiting \<Rightarrow> Waiting | Undefined \<Rightarrow> Undefined)
      | Waiting \<Rightarrow> Waiting
      | Undefined \<Rightarrow> Undefined)"

section \<open>Both ends\<close>

type_synonym 'w mux_link_state = "uart_state \<times> 'w mux_state"

text \<open>What the board puts on the line goes to the loop of the multiplexer, and what that sends to the receive handler of the
  board, before the board goes on.\<close>

definition mux_turn :: "build_config \<Rightarrow> libc_flags \<Rightarrow> 'w posix \<Rightarrow> u8 list \<Rightarrow> uart_state \<Rightarrow> 'w mux_link_state \<Rightarrow> 'w mux_link_state option" where
  "mux_turn cfg lib px basedir u0 uh = (case uh of (u1, h) \<Rightarrow>
     (case mux_loop lib px basedir (from_transport (drop (length (board_link_out cfg u0)) (board_link_out cfg u1))) h of
        Running h1 \<Rightarrow>
          (case run_bytes (cmn_rx_handler cfg (SERMUX_PHYS_ID cfg)) (drop (length (mux_sent h)) (mux_sent h1)) u1 of
             None \<Rightarrow> None | Some u2 \<Rightarrow> Some (u2, h1))
      | _ \<Rightarrow> None))"

definition mux_rfs_link :: "build_config \<Rightarrow> libc_flags \<Rightarrow> 'w posix \<Rightarrow> u8 list \<Rightarrow> 'w mux_link_state rfsc_link" where
  "mux_rfs_link cfg lib px basedir =
     \<lparr>rfsc_send = (\<lambda>bs (u, h). case rfs_send cfg SERMUX_SERVICE_ID_FIRST bs u of (n, u1) \<Rightarrow>
        (case mux_turn cfg lib px basedir u (u1, h) of None \<Rightarrow> None | Some uh \<Rightarrow> Some (n, uh))),
      rfsc_recv = (\<lambda>n timeout (u, h). case rfs_recv cfg SERMUX_SERVICE_ID_FIRST timeout [] n u of
        Returned (bs, u1) \<Rightarrow> Some (bs, u1, h) | _ \<Rightarrow> None)\<rparr>"

text \<open>Both ends are in step, nothing is on the way, and the server behind the multiplexer, with a buffer of \<open>n\<close> bytes, waits for a request. The buffer of the virtual UART
  holds a packet of \<open>k\<close> bytes.\<close>

definition mux_idle :: "build_config \<Rightarrow> (nat \<Rightarrow> nat) \<Rightarrow> nat \<Rightarrow> nat \<Rightarrow> nat \<Rightarrow> 'w \<Rightarrow> 'w mux_link_state \<Rightarrow> bool" where
  "mux_idle cfg sizes ports n k w uh \<longleftrightarrow> (case uh of (u, h) \<Rightarrow>
     board_service cfg SERMUX_SERVICE_ID_FIRST \<and> k \<le> sizes SERMUX_SERVICE_ID_FIRST
   \<and> board_rx_inv cfg sizes u \<and> \<not> uart_got_esc u \<and> board_got cfg u SERMUX_SERVICE_ID_FIRST = []
   \<and> (mux_service_id_out h \<noteq> -1 \<longrightarrow> uart_service_id_in u = mux_service_id_out h)
   \<and> host_rx_inv 1 ports h \<and> \<not> mux_got_esc h \<and> mux_rfs_out h = []
   \<and> (uart_service_id_out u \<noteq> -1 \<longrightarrow> mux_service_id_in h = uart_service_id_out u)
   \<and> snd (mux_rfs h) = w \<and> mem_ready (fst (mux_rfs h)) \<and> length (rfs_buffer (fst (mux_rfs h))) = n)"

section \<open>Sending and receiving on the board\<close>

lemma rfs_send_all: "rfs_send cfg SERMUX_SERVICE_ID_FIRST p s = (length p, send_all (platform_uart_send cfg) (rfs_data p) s)"
proof -
  have "fold (platform_uart_send cfg SERMUX_SERVICE_ID_FIRST) p s = send_all (platform_uart_send cfg) (rfs_data p) s"
    by (induction p arbitrary: s) simp_all
  then show ?thesis by (simp add: rfs_send_def)
qed

lemma uart_poll_frame:
  assumes "uart_buf_poll cfg i s = Some (x, s')"
  obtains d where "s' = s\<lparr>uart_bufs := (uart_bufs s)(BUF_ID_UART := (uart_bufs s BUF_ID_UART)(bufh_check_resnum cfg BUF_ID_UART i := d))\<rparr>"
  using assms by (auto simp: uart_buf_poll_def buf_read_def Let_def split: option.splits prod.splits platform_status.splits list.splits)

lemma recv_byte:
  assumes inv: "board_rx_inv cfg sizes s" and svc: "board_service cfg i" and got: "board_got cfg s i = x # xs"
  shows "\<exists>s'. platform_uart_recv cfg i timeout env s = Returned (uint x, s') \<and> board_rx_inv cfg sizes s' \<and> board_got cfg s' i = xs
    \<and> uart_got_esc s' = uart_got_esc s \<and> uart_service_id_in s' = uart_service_id_in s \<and> uart_service_id_out s' = uart_service_id_out s"
proof -
  have b: "buf_inv (vuart_buf cfg s i)" "logdsize (vuart_buf cfg s i) = BUF_DSIZE_U8" using inv svc by (simp_all add: board_rx_inv_def)
  obtain y ys where y: "buf_elems (vuart_buf cfg s i) = y # ys" "x = hd y" "xs = map hd ys"
    using got svc by (auto simp: board_got_def)
  let ?d = "vuart_buf cfg s i"
  from y(1) have "count ?d \<noteq> 0" by (auto simp: buf_elems_def)
  then obtain z d' where z: "buf_read_desc ?d = Some (PLATFORM_OK, z, d')" "buf_elems ?d = z # buf_elems d'"
      "length z = buf_realdsize ?d" "buf_inv d'" "logdsize d' = logdsize ?d" "logsize d' = logsize ?d"
    by (rule buf_read_step [OF b(1)])
  from z(3) b(2) obtain c where c: "z = [c]" by (auto simp: buf_sizes length_Suc_conv)
  define s' where "s' = s\<lparr>uart_bufs := (uart_bufs s)(BUF_ID_UART := (uart_bufs s BUF_ID_UART)(bufh_check_resnum cfg BUF_ID_UART i := d'))\<rparr>"
  have poll: "uart_buf_poll cfg i s = Some (Some c, s')"
    using z(1) c by (simp add: uart_buf_poll_def buf_read_def Let_def vuart_buf_def s'_def)
  have en: "buf_is_enabled cfg BUF_ID_UART i (uart_bufs s)"
    using b(1) by (simp add: buf_is_enabled_def buf_inv_def vuart_buf_def)
  have "cmn_recv_helper cfg i t es s = Returned (uint c, s')" for t es
    using en poll by (simp add: cmn_recv_helper_def)
  then have recv: "platform_uart_recv cfg i timeout env s = Returned (uint c, s')"
    by (cases env) (auto simp: platform_uart_recv_def)
  have vb: "vuart_buf cfg s' j = (if j = i then d' else vuart_buf cfg s j)" if "board_service cfg j" for j
    unfolding s'_def using vuart_buf_upd [OF svc that] by simp
  have "buf_realsize d' = buf_realsize ?d" using z(5,6) by (simp add: buf_realsize_def)
  then have "board_rx_inv cfg sizes s'" using inv svc z(4,5) b by (auto simp: board_rx_inv_def vb)
  moreover have "y = [c]" using y(1) z(2) c by simp
  then have "board_got cfg s' i = xs" "c = x" using svc y z(2) c by (simp_all add: board_got_def vb)
  ultimately show ?thesis using recv by (auto simp: s'_def)
qed

lemma recv_none:
  assumes inv: "board_rx_inv cfg sizes s" and svc: "board_service cfg i" and got: "board_got cfg s i = []"
  shows "platform_uart_recv cfg i 0 env s = Returned (-1, s)"
  using cmn_recv_helper_buffered(1) [of cfg s i "[]"] inv svc got
  by (simp add: platform_uart_recv_def board_rx_inv_def board_got_def)

lemma rfs_recv_bytes:
  "board_rx_inv cfg sizes s \<Longrightarrow> board_service cfg i \<Longrightarrow> board_got cfg s i = xs @ ys \<Longrightarrow>
    \<exists>s'. rfs_recv cfg i timeout env (length xs) s = Returned (xs, s') \<and> board_rx_inv cfg sizes s' \<and> board_got cfg s' i = ys
    \<and> uart_got_esc s' = uart_got_esc s \<and> uart_service_id_in s' = uart_service_id_in s \<and> uart_service_id_out s' = uart_service_id_out s"
proof (induction xs arbitrary: s env)
  case (Cons x xs)
  from recv_byte [OF Cons.prems(1,2), of x "xs @ ys" timeout "case env of [] \<Rightarrow> [] | e # es \<Rightarrow> e"] Cons.prems(3)
  obtain s1 where s1: "platform_uart_recv cfg i timeout (case env of [] \<Rightarrow> [] | e # es \<Rightarrow> e) s = Returned (uint x, s1)" "board_rx_inv cfg sizes s1" "board_got cfg s1 i = xs @ ys"
    "uart_got_esc s1 = uart_got_esc s" "uart_service_id_in s1 = uart_service_id_in s" "uart_service_id_out s1 = uart_service_id_out s" by auto
  from Cons.IH [OF s1(2) Cons.prems(2) s1(3), of "tl env"] show ?case using s1 by auto
qed auto

lemma cmn_rx_out_frame: "cmn_rx_handler cfg p d s = Some s' \<Longrightarrow> uart_service_id_out s' = uart_service_id_out s"
  by (auto simp: cmn_rx_handler_def uart_buf_write_def Let_def split: if_splits option.splits)

lemma run_rx_out_frame: "run_bytes (cmn_rx_handler cfg p) bs s = Some s' \<Longrightarrow> uart_service_id_out s' = uart_service_id_out s"
  by (induction bs arbitrary: s) (auto split: option.splits dest: cmn_rx_out_frame)

section \<open>One turn\<close>

lemma mux_turn_serves:
  assumes idle: "mux_idle cfg sizes ports n k w (u, h)"
    and feed: "rfs_feed_all lib px basedir (rpc_packet e) (mux_rfs h) = Some (rpc_packet e', m', w')"
    and m': "mem_ready m'" "length (rfs_buffer m') = n" and fits: "length e' + 16 \<le> k"
  shows "\<exists>u2 h1. rfsc_send (mux_rfs_link cfg lib px basedir) (rpc_packet e) (u, h) = Some (length e + 16, u2, h1)
    \<and> board_got cfg u2 SERMUX_SERVICE_ID_FIRST = rpc_packet e'
    \<and> (\<forall>u3. board_rx_inv cfg sizes u3 \<and> uart_got_esc u3 = uart_got_esc u2 \<and> board_got cfg u3 SERMUX_SERVICE_ID_FIRST = []
         \<and> uart_service_id_in u3 = uart_service_id_in u2 \<and> uart_service_id_out u3 = uart_service_id_out u2 \<longrightarrow> mux_idle cfg sizes ports n k w' (u3, h1))
    \<and> board_rx_inv cfg sizes u2"
proof -
  have svc: "board_service cfg SERMUX_SERVICE_ID_FIRST" and k: "k \<le> sizes SERMUX_SERVICE_ID_FIRST"
    and u: "board_rx_inv cfg sizes u" "\<not> uart_got_esc u" "board_got cfg u SERMUX_SERVICE_ID_FIRST = []"
      "mux_service_id_out h \<noteq> -1 \<longrightarrow> uart_service_id_in u = mux_service_id_out h"
    and h: "host_rx_inv 1 ports h" "\<not> mux_got_esc h" "mux_rfs_out h = []" "uart_service_id_out u \<noteq> -1 \<longrightarrow> mux_service_id_in h = uart_service_id_out u"
    using idle by (simp_all add: mux_idle_def)
  let ?u = "send_all (platform_uart_send cfg) (rfs_data (rpc_packet e)) u"
  obtain bs h1 where 1: "board_link_out cfg ?u = board_link_out cfg u @ bs" "mux_loop lib px basedir (from_transport bs) h = Running h1"
      "mux_rfs h1 = (m', w')" "host_rx_inv 1 ports h1" "\<not> mux_got_esc h1" "mux_rfs_out h1 = []"
      "mux_sent h1 = mux_sent (send_all mux_send (rfs_data (rpc_packet e')) h)"
      "mux_service_id_out h1 = mux_service_id_out (send_all mux_send (rfs_data (rpc_packet e')) h)"
      "uart_service_id_out ?u \<noteq> -1 \<longrightarrow> mux_service_id_in h1 = uart_service_id_out ?u"
    using rfs_stream [OF svc h feed] by blast
  have svcs: "\<forall>(i, d) \<in> set (rfs_data (rpc_packet e')). host_tx_service 1 ports i \<and> board_service cfg i"
    using svc by (auto simp: host_tx_service_def)
  have of_svc: "of_service i (rfs_data xs) = (if i = SERMUX_SERVICE_ID_FIRST then xs else [])" for i xs
    by (induction xs) auto
  have b': "board_rx_inv cfg sizes ?u" "board_got cfg ?u = board_got cfg u" using u(1) board_rx_frame [of ?u u] by simp_all
  then have "\<forall>i. board_service cfg i \<longrightarrow> length (board_got cfg ?u i) + length (of_service i (rfs_data (rpc_packet e'))) \<le> sizes i"
    using k fits u(3) board_got_bound [OF u(1)] by (auto simp: of_svc)
  then obtain rs u2 where 2: "mux_sent (send_all mux_send (rfs_data (rpc_packet e')) h) = mux_sent h @ rs"
      "run_bytes (cmn_rx_handler cfg (SERMUX_PHYS_ID cfg)) rs ?u = Some u2"
      "host_to_board.in_sync cfg sizes (send_all mux_send (rfs_data (rpc_packet e')) h) u2"
      "\<forall>i. board_got cfg u2 i = board_got cfg ?u i @ of_service i (rfs_data (rpc_packet e'))"
    using host_to_board.link_delivers [OF _ svcs, of sizes h ?u] u b' unfolding host_to_board.in_sync_def by auto
  have turn: "mux_turn cfg lib px basedir u (?u, h) = Some (u2, h1)" using 1(1,2,7) 2(1,2) by (simp add: mux_turn_def)
  have send: "rfsc_send (mux_rfs_link cfg lib px basedir) (rpc_packet e) (u, h) = Some (length e + 16, u2, h1)"
    using turn by (simp add: mux_rfs_link_def rfs_send_all)
  have sync: "board_rx_inv cfg sizes u2" "\<not> uart_got_esc u2" "mux_service_id_out h1 \<noteq> -1 \<longrightarrow> uart_service_id_in u2 = mux_service_id_out h1"
    using 2(3) 1(8) unfolding host_to_board.in_sync_def by auto
  have out: "uart_service_id_out u2 = uart_service_id_out ?u" by (rule run_rx_out_frame [OF 2(2)])
  have "board_got cfg u2 SERMUX_SERVICE_ID_FIRST = rpc_packet e'" using 2(4) b'(2) u(3) by (simp add: of_svc)
  moreover have "mux_idle cfg sizes ports n k w' (u3, h1)"
    if "board_rx_inv cfg sizes u3" "uart_got_esc u3 = uart_got_esc u2" "board_got cfg u3 SERMUX_SERVICE_ID_FIRST = []"
      "uart_service_id_in u3 = uart_service_id_in u2" "uart_service_id_out u3 = uart_service_id_out u2" for u3
    using that svc k sync out 1 m' by (simp add: mux_idle_def)
  ultimately show ?thesis using send sync(1) by blast
qed

section \<open>The connection\<close>

lemma mux_answers:
  assumes idle: "mux_idle cfg sizes ports n k w l" and b: "length b = k" and req: "length e + 16 \<le> n" "length e + 16 \<le> k" "length e + 16 < 2 ^ 16"
    and exec: "\<And>suf. length (rpc_packet e @ suf) = n \<Longrightarrow> \<exists>ok suf'. server_execute_request pc px basedir (rpc_packet e @ suf) w =
       Some (ok, rpc_packet e' @ suf', w') \<and> length (rpc_packet e' @ suf') = n"
    and res: "length e' + 16 < 2 ^ 16" "length e' + 16 \<le> k"
  shows "\<exists>l'. rfsch_send_request_read_response (mux_rfs_link cfg pc px basedir) timeout (rpc_packet e @ drop (length e + 16) b, l) =
      Some (True, rpc_packet e' @ drop (length e' + 16) (rpc_packet e @ drop (length e + 16) b), l') \<and> mux_idle cfg sizes ports n k w' l'"
proof -
  obtain u h where l: "l = (u, h)" by (cases l)
  obtain m w0 where mw: "mux_rfs h = (m, w0)" by (cases "mux_rfs h")
  then have m: "mux_rfs h = (m, w)" "mem_ready m" "length (rfs_buffer m) = n" using idle by (simp_all add: l mux_idle_def)
  have u: "board_rx_inv cfg sizes u" "board_service cfg SERMUX_SERVICE_ID_FIRST" "board_got cfg u SERMUX_SERVICE_ID_FIRST = []"
    using idle by (simp_all add: l mux_idle_def)
  have "length (rpc_packet e @ drop (length e + 16) (rfs_buffer m)) = n" using m(3) req(1) by simp
  from exec [OF this] obtain ok suf' where ex: "server_execute_request pc px basedir (rpc_packet e @ drop (length e + 16) (rfs_buffer m)) w =
      Some (ok, rpc_packet e' @ suf', w')" "length (rpc_packet e' @ suf') = n" by blast
  obtain m' where m': "rfs_feed_all pc px basedir (rpc_packet e) (mux_rfs h) = Some (rpc_packet e', m', w')" "mem_ready m'" "length (rfs_buffer m') = n"
    using serve_packet [OF m(2,3) req(1,3) ex(1,2) res(1)] m(1) by auto
  define lk where "lk = mux_rfs_link cfg pc px basedir"
  define b0 where "b0 = rpc_packet e @ drop (length e + 16) b"
  have lb: "length b0 = k" using b req(2) by (simp add: b0_def)
  obtain u2 h1 where 2: "rfsc_send lk (rpc_packet e) (u, h) = Some (length e + 16, u2, h1)" "board_got cfg u2 SERMUX_SERVICE_ID_FIRST = rpc_packet e'"
    "\<And>u3. board_rx_inv cfg sizes u3 \<Longrightarrow> uart_got_esc u3 = uart_got_esc u2 \<Longrightarrow> board_got cfg u3 SERMUX_SERVICE_ID_FIRST = [] \<Longrightarrow>
       uart_service_id_in u3 = uart_service_id_in u2 \<Longrightarrow> uart_service_id_out u3 = uart_service_id_out u2 \<Longrightarrow> mux_idle cfg sizes ports n k w' (u3, h1)"
    "board_rx_inv cfg sizes u2"
    using mux_turn_serves [OF idle [unfolded l] m' res(2)] unfolding lk_def by blast
  have drain: "rfsc_drain lk b0 (u, h) = Some (b0, u, h)"
    using recv_none [OF u] by (subst rfsc_drain.simps) (simp add: lk_def mux_rfs_link_def)
  define s16 t16 where "s16 = (of_nat (length e + 16) :: u16)" and "t16 = (of_nat (length e' + 16) :: u16)"
  have sz: "eluarpc_get_packet_size b0 = Some (False, s16)" unfolding b0_def s16_def by (rule packet_size_packet)
  have us: "unat s16 = length e + 16"
    using req(3) by (simp add: s16_def unat_of_nat take_bit_nat_eq_self del: of_nat_add)
  have f: "fetch b0 0 (unat s16) = Some (rpc_packet e)" by (simp add: fetch_def us b0_def)
  define hd4 r where "hd4 = take 4 (rpc_packet e')" and "r = drop 4 (rpc_packet e')"
  have hr: "rpc_packet e' = hd4 @ r" "length hd4 = 4" "length r = length e' + 12" by (simp_all add: hd4_def r_def)
  obtain u3 where 3: "rfs_recv cfg SERMUX_SERVICE_ID_FIRST timeout [] 4 u2 = Returned (hd4, u3)" "board_rx_inv cfg sizes u3"
    "board_got cfg u3 SERMUX_SERVICE_ID_FIRST = r" "uart_got_esc u3 = uart_got_esc u2" "uart_service_id_in u3 = uart_service_id_in u2"
    "uart_service_id_out u3 = uart_service_id_out u2"
    using rfs_recv_bytes [OF 2(4) u(2), of hd4 r timeout "[]"] 2(2) hr by auto
  obtain u4 where 4: "rfs_recv cfg SERMUX_SERVICE_ID_FIRST timeout [] (length r) u3 = Returned (r, u4)" "board_rx_inv cfg sizes u4"
    "board_got cfg u4 SERMUX_SERVICE_ID_FIRST = []" "uart_got_esc u4 = uart_got_esc u3" "uart_service_id_in u4 = uart_service_id_in u3"
    "uart_service_id_out u4 = uart_service_id_out u3"
    using rfs_recv_bytes [OF 3(2) u(2), of r "[]" timeout "[]"] 3(3) by auto
  have recv1: "rfsc_recv lk 4 timeout (u2, h1) = Some (hd4, u3, h1)" using 3(1) by (simp add: lk_def mux_rfs_link_def)
  have recv2: "rfsc_recv lk (length r) timeout (u3, h1) = Some (r, u4, h1)" using 4(1) by (simp add: lk_def mux_rfs_link_def)
  have b2: "blit b0 0 hd4 = Some (hd4 @ drop 4 b0)" using lb res(2) hr(2) by (simp add: blit_def)
  have sz2: "eluarpc_get_packet_size (hd4 @ drop 4 b0) = Some (False, t16)"
    unfolding hd4_def packet_prefix t16_def using packet_size_header by simp
  have rs: "rest_size t16 = length r"
    using rest_size_packet [of "length e' + 16"] res(1) by (simp add: t16_def hr(3) del: of_nat_add)
  have b3: "blit (hd4 @ drop 4 b0) 4 r = Some ((hd4 @ r) @ drop (length e' + 16) b0)"
    using lb res(2) hr(2,3) by (simp add: blit_def add.commute)
  have "rfsch_send_request_read_response lk timeout (b0, u, h) = Some (True, rpc_packet e' @ drop (length e' + 16) b0, u4, h1)"
    unfolding rfsch_send_request_read_response_def
    using drain sz f 2(1) us recv1 b2 sz2 rs recv2 b3 hr by simp
  moreover have "mux_idle cfg sizes ports n k w' (u4, h1)" using 2(3) 3 4 by simp
  ultimately show ?thesis unfolding lk_def b0_def l by blast
qed

interpretation mux_conn: rfs_connection "mux_rfs_link cfg pc px basedir" "mux_idle cfg sizes ports n k" n k pc px basedir
  for cfg sizes ports n k pc px basedir
  by unfold_locales (rule mux_answers)


section \<open>Properties\<close>

text \<open>C6: A file on the PC is used over the serial line: through the client, the UARTs of the board, the multiplexer with its escapes and
  service ids, and the file system server, opening a file, writing a buffer of any length, positioning, reading back and closing
  return what the operating system of the PC returns, change its state as these calls do, and leave both ends of the line in step.\<close>

theorem rfs_over_mux:
  assumes "conn_ok (mux_idle cfg sizes ports n k) k w cl"
    and "real + 29 \<le> n" "real + 29 \<le> k" "length path + 35 \<le> n" "length path + 35 \<le> k" "n < 2 ^ 16" "0 < real"
    and "0 \<notin> set path" "server_path basedir path = Some full"
    and "px_open px full (os_open_realflags pc (os_open_sys_flags_to_rfs_flags board flags)) w = (fd, w1)"
    and "os_lseek pc px fd off (os_lseek_sys_whence_to_rfs_whence board whence) (wr data w1) = (pos, w2)"
    and wlaw: "\<And>d w. px_write px fd d w = (of_nat (length d), wr d w)"
      "\<And>w. wr [] w = w" "\<And>c d w. wr (c @ d) w = wr d (wr c w)"
    and rlaw: "\<And>c w. px_read px fd c w = ((of_nat (length (take (unat c) (rem w))), take (unat c) (rem w)), adv (unat c) w)"
      "\<And>c w. rem (adv c w) = drop c (rem w)"
    and "\<And>w. px_close px fd w = (r, cls w)"
  shows "\<exists>cl1 cl2 cl3 cl4 cl5 w3. rfsc_open (mux_rfs_link cfg pc px basedir) timeout board path flags mode cl = Some (fd, cl1)
    \<and> rfs_write_r (mux_rfs_link cfg pc px basedir) timeout real fd data 0 cl1 = Some (of_nat (length data), cl2)
    \<and> rfsc_lseek (mux_rfs_link cfg pc px basedir) timeout board fd off whence cl2 = Some (pos, cl3)
    \<and> rfs_read_r (mux_rfs_link cfg pc px basedir) timeout real fd len 0 [] cl3 = Some (of_nat (min len (length (rem w2))), take len (rem w2), cl4)
    \<and> rfsc_close (mux_rfs_link cfg pc px basedir) timeout fd cl4 = Some (r, cl5)
    \<and> conn_ok (mux_idle cfg sizes ports n k) k (cls w3) cl5"
proof -
  have sz: "33 \<le> n" "33 \<le> k" "23 \<le> n" "23 \<le> k" using assms(4,5) by simp_all
  obtain cl1 where 1: "rfsc_open (mux_rfs_link cfg pc px basedir) timeout board path flags mode cl = Some (fd, cl1)"
    "conn_ok (mux_idle cfg sizes ports n k) k w1 cl1" using mux_conn.conn_open [OF assms(1,4-6,8-10)] by blast
  obtain cl2 where 2: "rfs_write_r (mux_rfs_link cfg pc px basedir) timeout real fd data 0 cl1 = Some (of_nat (length data), cl2)"
    "conn_ok (mux_idle cfg sizes ports n k) k (wr data w1) cl2"
    using mux_conn.conn_write_r [OF assms(2,3,6,7) wlaw 1(2), of pc basedir timeout data 0, unfolded add_0_left] by blast
  obtain cl3 where 3: "rfsc_lseek (mux_rfs_link cfg pc px basedir) timeout board fd off whence cl2 = Some (pos, cl3)"
    "conn_ok (mux_idle cfg sizes ports n k) k w2 cl3" using mux_conn.conn_lseek [OF 2(2) sz(1,2) assms(6,11)] by blast
  obtain w3 cl4 where 4: "rfs_read_r (mux_rfs_link cfg pc px basedir) timeout real fd len 0 [] cl3
      = Some (of_nat (min len (length (rem w2))), take len (rem w2), cl4)" "conn_ok (mux_idle cfg sizes ports n k) k w3 cl4"
    using mux_conn.conn_read_r [OF assms(2,3,6,7) rlaw 3(2), of pc basedir timeout len 0 "[]", unfolded add_0_left append_Nil] by blast
  obtain cl5 where 5: "rfsc_close (mux_rfs_link cfg pc px basedir) timeout fd cl4 = Some (r, cl5)" "conn_ok (mux_idle cfg sizes ports n k) k (cls w3) cl5"
    using mux_conn.conn_close [OF 4(2) sz(3,4) assms(6) assms(17)] by blast
  show ?thesis using 1(1) 2(1) 3(1) 4(1) 5 by blast
qed

section \<open>Instances\<close>

text \<open>A board whose virtual UARTs have buffers of 128 bytes.\<close>

definition mux_board :: uart_state where
  "mux_board = example_board\<lparr>uart_bufs := (\<lambda>_ _. \<lparr>logsize = 7, logdsize = 0, wptr = 0, rptr = 0, count = 0, buf = Some (replicate 128 0)\<rparr>)\<rparr>"

definition mux_client :: "(u8 list \<times> nat) mux_link_state client" where
  "mux_client = (replicate 128 0, mux_board, example_mux)"

lemma mux_client_ok: "conn_ok (mux_idle example_config (\<lambda>_. 128) 1 256 128) 128 ([], 0) mux_client"
proof -
  have "buf_inv (vuart_buf example_config mux_board i)" for i
    by (auto simp: vuart_buf_def mux_board_def buf_inv_def buf_realsize_def buf_realdsize_def push_bit_eq_mult intro!: exI [of _ "0 :: nat"])
  then have inv: "board_rx_inv example_config (\<lambda>_. 128) mux_board"
    using example_config_ok by (simp add: board_rx_inv_def) (simp add: vuart_buf_def mux_board_def buf_realsize_def push_bit_eq_mult)
  have got: "board_got example_config mux_board i = []" for i
    by (simp add: board_got_def vuart_buf_def mux_board_def buf_elems_def)
  have st: "\<not> uart_got_esc mux_board" "uart_service_id_out mux_board = -1" "mux_service_id_out example_mux = -1" "\<not> mux_got_esc example_mux"
      "mux_rfs_out example_mux = []" "mux_rfs example_mux = (example_mem, [], 0)"
    by (simp_all add: mux_board_def example_board_def example_mux_def)
  have m: "mem_ready example_mem" "length (rfs_buffer example_mem) = 256" by (simp_all add: example_mem_def mem_ready_def)
  show ?thesis using inv got st m example_mux_inv example_services(1) by (simp add: conn_ok_def mux_client_def mux_idle_def)
qed

theorem rfs_over_mux_witness:
  "\<exists>cl1 cl2 cl3 cl4 cl5 w3. rfsc_open (mux_rfs_link example_config linux_flags tape_posix [0x2F]) 1000 newlib_flags [0x61] 0 0 mux_client = Some (3, cl1)
    \<and> rfs_write_r (mux_rfs_link example_config linux_flags tape_posix [0x2F]) 1000 99 3 (replicate 150 0xD0) 0 cl1 =
        Some (of_nat (length (replicate 150 (0xD0 :: u8))), cl2)
    \<and> rfsc_lseek (mux_rfs_link example_config linux_flags tape_posix [0x2F]) 1000 newlib_flags 3 7 0 cl2 = Some (7, cl3)
    \<and> rfs_read_r (mux_rfs_link example_config linux_flags tape_posix [0x2F]) 1000 99 3 200 0 [] cl3 =
        Some (of_nat (min 200 (length (tape_rest (replicate 150 (0xD0 :: u8), 7)))), take 200 (tape_rest (replicate 150 0xD0, 7)), cl4)
    \<and> rfsc_close (mux_rfs_link example_config linux_flags tape_posix [0x2F]) 1000 3 cl4 = Some (0, cl5)
    \<and> conn_ok (mux_idle example_config (\<lambda>_. 128) 1 256 128) 128 w3 cl5"
  by (rule rfs_over_mux [OF mux_client_ok, where full = "[0x2F, 0x61]" and wr = tape_write and adv = tape_skip and cls = "\<lambda>w. w" and ?w1.0 = "([], 0)" and ?w2.0 = "(replicate 150 0xD0, 7)"])
    ((simp add: tape_posix_def server_path_def os_lseek_def os_lseek_realwhence_def tape_write_def os_lseek_sys_whence_to_rfs_whence_def newlib_flags_def linux_flags_def; fail)
      | simp add: tape_posix_def tape_rest_def tape_skip_def add.commute min_def)+

end
