(* ===== verification/Serial_Posix.thy ===== *)
theory Serial_Posix
  imports Elua_Prelude "HOL-Library.Monad_Syntax"
begin

text \<open>
  Serial ports and sockets of the PC: \<^verbatim>\<open>rfs_server_src/serial_posix.c\<close> and \<^verbatim>\<open>net_posix.c\<close>, the layer under the file system
  server and the multiplexer. The calls of the operating system are records of functions on its state, the constants of \<^verbatim>\<open>termios.h\<close> a record of numbers.
  \<^const>\<open>None\<close> is an access outside a block or a loop that does not end. The contracts \<open>tty_ok\<close> and \<open>net_ok\<close> say what
  POSIX promises of a port in raw mode and of datagrams; the lemmas say what the layer then delivers.
\<close>

section \<open>The operating system\<close>

record termios =
  c_iflag :: u32
  c_oflag :: u32
  c_cflag :: u32
  c_lflag :: u32
  c_ispeed :: u32
  c_ospeed :: u32
  c_vmin :: u8
  c_vtime :: u8

record termios_consts =
  CSTOPB :: u32
  PARENB :: u32
  PARODD :: u32
  CLOCAL :: u32
  CREAD :: u32
  CSIZE :: u32
  CRTSCTS :: u32
  IXON :: u32
  IXOFF :: u32
  IXANY :: u32
  IGNBRK :: u32
  INLCR :: u32
  ICRNL :: u32
  IGNCR :: u32
  ICANON :: u32
  ECHO :: u32
  ECHOE :: u32
  ISIG :: u32
  OPOST :: u32
  INPCK :: u32
  ISTRIP :: u32
  CSn :: "nat \<Rightarrow> u32"
  Bn :: "nat \<Rightarrow> u32"

text \<open>\<^verbatim>\<open>select\<close> gets the descriptors to read from and the time, in seconds and microseconds, NULL for no limit; it returns its result and the descriptors that
  are ready. Opening uses \<^verbatim>\<open>O_RDWR | O_NOCTTY | O_NDELAY\<close>.\<close>

record 'w tty =
  tty_open :: "u8 list \<Rightarrow> 'w \<Rightarrow> int \<times> 'w"
  tty_close :: "int \<Rightarrow> 'w \<Rightarrow> 'w"
  tty_select :: "int list \<Rightarrow> (nat \<times> nat) option \<Rightarrow> 'w \<Rightarrow> (int \<times> int list) \<times> 'w"
  tty_read :: "int \<Rightarrow> nat \<Rightarrow> 'w \<Rightarrow> (int \<times> u8 list) \<times> 'w"
  tty_write :: "int \<Rightarrow> u8 list \<Rightarrow> 'w \<Rightarrow> int \<times> 'w"
  tty_nonblock :: "int \<Rightarrow> bool \<Rightarrow> 'w \<Rightarrow> 'w"
  tty_sleep :: "nat \<Rightarrow> 'w \<Rightarrow> 'w"
  tty_drain :: "int \<Rightarrow> 'w \<Rightarrow> 'w"
  tty_flush :: "int \<Rightarrow> 'w \<Rightarrow> 'w"
  tty_getattr :: "int \<Rightarrow> 'w \<Rightarrow> termios \<times> 'w"
  tty_setattr :: "int \<Rightarrow> termios \<Rightarrow> 'w \<Rightarrow> 'w"

record 'w net =
  sk_socket :: "'w \<Rightarrow> int \<times> 'w"
  sk_bind :: "int \<Rightarrow> u16 \<Rightarrow> 'w \<Rightarrow> int \<times> 'w"
  sk_select :: "int \<Rightarrow> (int \<times> int) option \<Rightarrow> 'w \<Rightarrow> int \<times> 'w"
  sk_recvfrom :: "int \<Rightarrow> nat \<Rightarrow> 'w \<Rightarrow> (int \<times> u8 list) \<times> 'w"
  sk_sendto :: "int \<Rightarrow> u8 list \<Rightarrow> 'w \<Rightarrow> int \<times> 'w"

abbreviation "SER_INF_TIMEOUT \<equiv> (0xFFFFFFFF :: u32)"
abbreviation "SER_NO_TIMEOUT \<equiv> (0 :: u32)"
abbreviation "SER_HANDLER_INVALID \<equiv> (-1 :: int)"
abbreviation "NET_INF_TIMEOUT \<equiv> (-1 :: int)"

datatype ser_parity = SER_PARITY_NONE | SER_PARITY_EVEN | SER_PARITY_ODD
datatype ser_stopbits = SER_STOPBITS_1 | SER_STOPBITS_1_5 | SER_STOPBITS_2
datatype ser_flow = SER_FLOW_NONE | SER_FLOW_RTSCTS

section \<open>Opening and configuring\<close>

definition ser_open :: "'w tty \<Rightarrow> u8 list \<Rightarrow> 'w \<Rightarrow> int \<times> 'w" where
  "ser_open t sername w =
     (case tty_open t sername w of (fd, w1) \<Rightarrow> if fd = -1 then (SER_HANDLER_INVALID, w1) else (fd, tty_nonblock t fd False w1))"

definition ser_close :: "'w tty \<Rightarrow> int \<Rightarrow> 'w \<Rightarrow> 'w" where
  "ser_close t fd w = tty_close t fd w"

definition ser_baud_to_id :: "termios_consts \<Rightarrow> u32 \<Rightarrow> u32" where
  "ser_baud_to_id k baud =
     (if unat baud \<in> {1200, 1800, 2400, 4800, 9600, 19200, 38400, 57600, 115200, 230400} then Bn k (unat baud) else 0)"

definition ser_number_of_bits_to_id :: "termios_consts \<Rightarrow> nat \<Rightarrow> u32" where
  "ser_number_of_bits_to_id k nb = (if nb \<in> {5, 6, 7, 8} then CSn k nb else 0)"

definition set_cflag :: "termios_consts \<Rightarrow> nat \<Rightarrow> ser_parity \<Rightarrow> ser_stopbits \<Rightarrow> ser_flow \<Rightarrow> u32 \<Rightarrow> u32" where
  "set_cflag k databits parity stopbits flow c0 =
     (let c1 = (if stopbits = SER_STOPBITS_2 then c0 OR CSTOPB k else c0 AND NOT (CSTOPB k));
          c2 = (case parity of SER_PARITY_NONE \<Rightarrow> c1 AND NOT (PARENB k)
                | SER_PARITY_EVEN \<Rightarrow> (c1 OR PARENB k) AND NOT (PARODD k)
                | SER_PARITY_ODD \<Rightarrow> c1 OR PARENB k OR PARODD k);
          c3 = (c2 OR (CLOCAL k OR CREAD k)) AND NOT (CSIZE k);
          c4 = c3 OR ser_number_of_bits_to_id k databits
      in if flow = SER_FLOW_NONE then c4 AND NOT (CRTSCTS k) else c4 OR CRTSCTS k)"

definition set_iflag :: "termios_consts \<Rightarrow> ser_parity \<Rightarrow> u32 \<Rightarrow> u32" where
  "set_iflag k parity i0 =
     (let i1 = i0 AND NOT (IXON k OR IXOFF k OR IXANY k);
          i2 = i1 OR IGNBRK k;
          i3 = i2 AND NOT (INLCR k OR ICRNL k OR IGNCR k)
      in if parity = SER_PARITY_NONE then i3 AND NOT (INPCK k OR ISTRIP k) else i3 OR (INPCK k OR ISTRIP k))"

definition ser_attributes :: "termios_consts \<Rightarrow> u32 \<Rightarrow> nat \<Rightarrow> ser_parity \<Rightarrow> ser_stopbits \<Rightarrow> ser_flow \<Rightarrow> termios \<Rightarrow> termios" where
  "ser_attributes k baud databits parity stopbits flow d =
     d\<lparr>c_ispeed := ser_baud_to_id k baud, c_ospeed := ser_baud_to_id k baud,
       c_cflag := set_cflag k databits parity stopbits flow (c_cflag d), c_iflag := set_iflag k parity (c_iflag d),
       c_lflag := c_lflag d AND NOT (ICANON k OR ECHO k OR ECHOE k OR ISIG k), c_oflag := c_oflag d AND NOT (OPOST k),
       c_vmin := 0, c_vtime := 0\<rparr>"

text \<open>It always succeeds.\<close>

definition ser_setup :: "termios_consts \<Rightarrow> 'w tty \<Rightarrow> int \<Rightarrow> u32 \<Rightarrow> nat \<Rightarrow> ser_parity \<Rightarrow> ser_stopbits \<Rightarrow> ser_flow \<Rightarrow> 'w \<Rightarrow> 'w" where
  "ser_setup k t hnd baud databits parity stopbits flow w =
     (let w1 = tty_sleep t 200000 w in
      case tty_getattr t hnd w1 of (termdata, w2) \<Rightarrow>
        let w3 = tty_drain t hnd w2;
            w4 = tty_flush t hnd w3;
            w5 = tty_setattr t hnd (ser_attributes k baud databits parity stopbits flow termdata) w4
        in tty_nonblock t hnd True w5)"

section \<open>Reading and writing\<close>

text \<open>Milliseconds as \<^verbatim>\<open>select\<close> wants them.\<close>

definition ser_timeval :: "u32 \<Rightarrow> (nat \<times> nat) option" where
  "ser_timeval timeout = (if timeout = SER_INF_TIMEOUT then None else Some (unat timeout div 1000, unat timeout mod 1000 * 1000))"

text \<open>The destination is the block \<open>b\<close> from \<open>off\<close> on. The result of \<^verbatim>\<open>read\<close> is added to the count as it is.\<close>

partial_function (option) ser_read_loop :: "'w tty \<Rightarrow> int \<Rightarrow> nat \<Rightarrow> u32 \<Rightarrow> u32 \<Rightarrow> u32 \<Rightarrow> u8 list \<Rightarrow> 'w \<Rightarrow> (u32 \<times> u8 list \<times> 'w) option" where
  "ser_read_loop t fd off maxsize timeout readbytes b w =
     (if readbytes < maxsize
      then (case tty_select t [fd] (ser_timeval timeout) w of ((retval, ready), w1) \<Rightarrow>
              if retval = -1 \<or> retval = 0 then Some (readbytes, b, w1)
              else (case tty_read t fd (unat (maxsize - readbytes)) w1 of ((n, bs), w2) \<Rightarrow>
                      do { b1 \<leftarrow> blit b (off + unat readbytes) bs;
                           ser_read_loop t fd off maxsize timeout (readbytes + word_of_int n) b1 w2 }))
      else Some (readbytes, b, w))"

definition ser_read :: "'w tty \<Rightarrow> int \<Rightarrow> nat \<Rightarrow> u32 \<Rightarrow> u32 \<Rightarrow> u8 list \<Rightarrow> 'w \<Rightarrow> (u32 \<times> u8 list \<times> 'w) option" where
  "ser_read t fd off maxsize timeout b w = ser_read_loop t fd off maxsize timeout 0 b w"

definition ser_read_byte :: "'w tty \<Rightarrow> int \<Rightarrow> u32 \<Rightarrow> 'w \<Rightarrow> (int \<times> 'w) option" where
  "ser_read_byte t fd timeout w =
     do { (res, data, w1) \<leftarrow> ser_read t fd 0 1 timeout [0] w; Some (if res = 1 then uint (hd data) else -1, w1) }"

definition ser_write :: "'w tty \<Rightarrow> int \<Rightarrow> u8 list \<Rightarrow> 'w \<Rightarrow> u32 \<times> 'w" where
  "ser_write t fd src w = (case tty_write t fd src w of (n, w1) \<Rightarrow> (word_of_int n, tty_drain t fd w1))"

definition ser_write_byte :: "'w tty \<Rightarrow> int \<Rightarrow> u8 \<Rightarrow> 'w \<Rightarrow> u32 \<times> 'w" where
  "ser_write_byte t fd data w = (case tty_write t fd [data] w of (n, w1) \<Rightarrow> (word_of_int n, w1))"

text \<open>The first descriptor that is ready, with its index.\<close>

fun first_ready :: "int list \<Rightarrow> int list \<Rightarrow> nat \<Rightarrow> (nat \<times> int) option" where
  "first_ready ready [] i = None"
| "first_ready ready (fd # fds) i = (if fd \<in> set ready then Some (i, fd) else first_ready ready fds (i + 1))"

definition ser_select_byte :: "'w tty \<Rightarrow> int list \<Rightarrow> u32 \<Rightarrow> 'w \<Rightarrow> (nat \<times> u8) option \<times> 'w" where
  "ser_select_byte t fds timeout w =
     (case tty_select t fds (ser_timeval timeout) w of ((res, ready), w1) \<Rightarrow>
        if res \<le> 0 then (None, w1)
        else (case first_ready ready fds 0 of
                None \<Rightarrow> (None, w1)
              | Some (i, fd) \<Rightarrow> (case tty_read t fd 1 w1 of ((n, bs), w2) \<Rightarrow> if n \<noteq> 1 then (None, w2) else (Some (i, hd bs), w2))))"

section \<open>Datagrams\<close>

definition net_timeval :: "int \<Rightarrow> (int \<times> int) option" where
  "net_timeval timeout = (if timeout = NET_INF_TIMEOUT then None else Some (timeout div 1000000, timeout mod 1000000 * 1000))"

definition net_recvfrom :: "'w net \<Rightarrow> int \<Rightarrow> nat \<Rightarrow> int \<Rightarrow> 'w \<Rightarrow> (int \<times> u8 list) \<times> 'w" where
  "net_recvfrom n s len timeout w =
     (case sk_select n s (net_timeval timeout) w of (r, w1) \<Rightarrow> if r \<le> 0 then ((0, []), w1) else sk_recvfrom n s len w1)"

section \<open>What POSIX promises\<close>

text \<open>The bytes that a port has received and those that it will receive, in the bursts in which they arrive.\<close>

definition tty_ok :: "'w tty \<Rightarrow> int \<Rightarrow> ('w \<Rightarrow> u8 list) \<Rightarrow> ('w \<Rightarrow> u8 list list) \<Rightarrow> ('w \<Rightarrow> u8 list) \<Rightarrow> bool" where
  "tty_ok t fd present later sent \<longleftrightarrow>
     (\<forall>w tv. present w \<noteq> [] \<longrightarrow> tty_select t [fd] tv w = ((1, [fd]), w))
   \<and> (\<forall>w. present w = [] \<longrightarrow> tty_select t [fd] (Some (0, 0)) w = ((0, []), w))
   \<and> (\<forall>w b bs. present w = [] \<and> later w = b # bs \<and> b \<noteq> [] \<longrightarrow>
        (\<exists>w'. tty_select t [fd] None w = ((1, [fd]), w') \<and> present w' = b \<and> later w' = bs \<and> sent w' = sent w))
   \<and> (\<forall>w n. 0 < n \<and> present w \<noteq> [] \<longrightarrow>
        (\<exists>k w'. 0 < k \<and> k \<le> n \<and> k \<le> length (present w) \<and> tty_read t fd n w = ((int k, take k (present w)), w')
           \<and> present w' = drop k (present w) \<and> later w' = later w \<and> sent w' = sent w))
   \<and> (\<forall>w bs. \<exists>r k w'. tty_write t fd bs w = (r, w') \<and> k \<le> length bs \<and> (r = int k \<or> r = - 1 \<and> k = 0)
           \<and> present w' = present w \<and> later w' = later w \<and> sent w' = sent w @ take k bs)
   \<and> (\<forall>w. present (tty_drain t fd w) = present w \<and> later (tty_drain t fd w) = later w \<and> sent (tty_drain t fd w) = sent w)"

text \<open>The ports are set to non-blocking, so that a write may take only the first bytes, or none. This one takes all.\<close>

definition tty_writes_whole :: "'w tty \<Rightarrow> int \<Rightarrow> bool" where
  "tty_writes_whole t fd \<longleftrightarrow> (\<forall>w bs. fst (tty_write t fd bs w) = int (length bs))"

text \<open>A datagram that is longer than the buffer is cut: the rest of it is lost.\<close>

definition net_ok :: "'w net \<Rightarrow> int \<Rightarrow> ('w \<Rightarrow> u8 list list) \<Rightarrow> ('w \<Rightarrow> u8 list list) \<Rightarrow> bool" where
  "net_ok n s grams sent \<longleftrightarrow>
     (\<forall>w. grams w \<noteq> [] \<longrightarrow> sk_select n s None w = (1, w))
   \<and> (\<forall>w g gs len. grams w = g # gs \<longrightarrow>
        (\<exists>w'. sk_recvfrom n s len w = ((int (length (take len g)), take len g), w') \<and> grams w' = gs \<and> sent w' = sent w))
   \<and> (\<forall>w bs. \<exists>w'. sk_sendto n s bs w = (int (length bs), w') \<and> grams w' = grams w \<and> sent w' = sent w @ [bs])"

section \<open>What is delivered\<close>

lemma tty_okD:
  assumes "tty_ok t fd present later sent"
  shows tty_ready: "present w \<noteq> [] \<Longrightarrow> tty_select t [fd] tv w = ((1, [fd]), w)"
    and tty_empty: "present w = [] \<Longrightarrow> tty_select t [fd] (Some (0, 0)) w = ((0, []), w)"
    and tty_arrives: "present w = [] \<Longrightarrow> later w = b # bs \<Longrightarrow> b \<noteq> [] \<Longrightarrow>
        \<exists>w'. tty_select t [fd] None w = ((1, [fd]), w') \<and> present w' = b \<and> later w' = bs \<and> sent w' = sent w"
    and tty_reads: "0 < n \<Longrightarrow> present w \<noteq> [] \<Longrightarrow> \<exists>k w'. 0 < k \<and> k \<le> n \<and> k \<le> length (present w)
        \<and> tty_read t fd n w = ((int k, take k (present w)), w') \<and> present w' = drop k (present w) \<and> later w' = later w \<and> sent w' = sent w"
    and tty_writes: "\<exists>r k w'. tty_write t fd src w = (r, w') \<and> k \<le> length src \<and> (r = int k \<or> r = - 1 \<and> k = 0)
        \<and> present w' = present w \<and> later w' = later w \<and> sent w' = sent w @ take k src"
    and tty_drains: "present (tty_drain t fd w) = present w" "later (tty_drain t fd w) = later w" "sent (tty_drain t fd w) = sent w"
  using assms unfolding tty_ok_def by blast+

lemma net_okD:
  assumes "net_ok n s grams sent"
  shows net_ready: "grams w \<noteq> [] \<Longrightarrow> sk_select n s None w = (1, w)"
    and net_reads: "grams w = g # gs \<Longrightarrow> \<exists>w'. sk_recvfrom n s len w = ((int (length (take len g)), take len g), w') \<and> grams w' = gs \<and> sent w' = sent w"
    and net_sends: "\<exists>w'. sk_sendto n s src w = (int (length src), w') \<and> grams w' = grams w \<and> sent w' = sent w @ [src]"
  using assms unfolding net_ok_def by blast+

text \<open>Bursts are not empty.\<close>

definition line_bytes :: "('w \<Rightarrow> u8 list) \<Rightarrow> ('w \<Rightarrow> u8 list list) \<Rightarrow> 'w \<Rightarrow> u8 list" where
  "line_bytes present later w = present w @ concat (later w)"

definition bursts_ok :: "('w \<Rightarrow> u8 list list) \<Rightarrow> 'w \<Rightarrow> bool" where
  "bursts_ok later w \<longleftrightarrow> (\<forall>b \<in> set (later w). b \<noteq> [])"

lemma tty_waits:
  assumes t: "tty_ok t fd present later sent" and b: "bursts_ok later w" and l: "line_bytes present later w \<noteq> []"
  shows "\<exists>w'. tty_select t [fd] None w = ((1, [fd]), w') \<and> present w' \<noteq> [] \<and> bursts_ok later w'
    \<and> line_bytes present later w' = line_bytes present later w \<and> sent w' = sent w \<and> (present w \<noteq> [] \<longrightarrow> w' = w)
    \<and> (present w = [] \<longrightarrow> later w = present w' # later w')"
proof (cases "present w = []")
  case True
  then obtain c cs where c: "later w = c # cs" using l by (cases "later w") (auto simp: line_bytes_def)
  then have ne: "c \<noteq> []" using b by (simp add: bursts_ok_def)
  from tty_arrives [OF t True c this] show ?thesis using c ne b True by (auto simp: line_bytes_def bursts_ok_def)
next
  case False
  from tty_ready [OF t False] show ?thesis using False b by auto
qed

lemma blit_append: "blit (take off b @ xs @ drop (off + length xs) b) (off + length xs) ys
    = (if off + length xs + length ys \<le> length b then Some (take off b @ (xs @ ys) @ drop (off + length (xs @ ys)) b) else None)"
  if "off + length xs \<le> length b"
proof -
  have "min (length b) off = off" using that by simp
  then show ?thesis using that by (simp add: blit_def ac_simps)
qed

text \<open>A read without a time limit collects its bytes over as many bursts as they need.\<close>

lemma ser_read_loop_exact:
  assumes t: "tty_ok t fd present later sent" and size: "unat maxsize = length got + n"
  shows "bursts_ok later w \<Longrightarrow> n \<le> length (line_bytes present later w) \<Longrightarrow> off + length got + n \<le> length b0 \<Longrightarrow>
    \<exists>w'. ser_read_loop t fd off maxsize SER_INF_TIMEOUT (of_nat (length got)) (take off b0 @ got @ drop (off + length got) b0) w
        = Some (maxsize, take off b0 @ (got @ take n (line_bytes present later w)) @ drop (off + length got + n) b0, w')
      \<and> bursts_ok later w' \<and> line_bytes present later w' = drop n (line_bytes present later w) \<and> sent w' = sent w
      \<and> (n \<le> length (present w) \<longrightarrow> later w' = later w)
      \<and> (\<forall>c cs. length (present w) < n \<and> later w = c # cs \<and> n \<le> length (present w) + length c \<longrightarrow> later w' = cs)"
  using size
proof (induction n arbitrary: got w rule: less_induct)
  case (less n)
  have lt: "length got + n < 2 ^ 32"
  proof -
    have "unat maxsize < 2 ^ LENGTH(32)" by (rule unsigned_less)
    then show ?thesis using less.prems(4) by simp
  qed
  then have ug: "unat (of_nat (length got) :: u32) = length got" by (simp add: unat_of_nat take_bit_nat_eq_self)
  show ?case
  proof (cases "n = 0")
    case True
    then have "maxsize = of_nat (length got)" using less.prems(4) by (simp add: word_unat_eq_iff ug)
    then show ?thesis using True less.prems(1) by (subst ser_read_loop.simps) simp
  next
    case False
    then have go: "(of_nat (length got) :: u32) < maxsize" using less.prems(4) by (simp add: word_less_nat_alt ug)
    then have left: "unat (maxsize - of_nat (length got)) = n" using less.prems(4) by (simp add: unat_sub_if' ug word_less_nat_alt)
    have "line_bytes present later w \<noteq> []" using False less.prems(2) by auto
    from tty_waits [OF t less.prems(1) this] obtain w1 where w1: "tty_select t [fd] None w = ((1, [fd]), w1)" "present w1 \<noteq> []"
      "bursts_ok later w1" "line_bytes present later w1 = line_bytes present later w" "sent w1 = sent w" "present w \<noteq> [] \<longrightarrow> w1 = w" "present w = [] \<longrightarrow> later w = present w1 # later w1" by blast
    obtain k w2 where k: "0 < k" "k \<le> n" "k \<le> length (present w1)" "tty_read t fd n w1 = ((int k, take k (present w1)), w2)"
      "present w2 = drop k (present w1)" "later w2 = later w1" "sent w2 = sent w1"
      using tty_reads [OF t _ w1(2), of n] False by blast
    define xs where "xs = take k (present w1)"
    have xs: "length xs = k" "xs = take k (line_bytes present later w)"
      using k(3) w1(4) by (simp_all add: xs_def line_bytes_def [of present later w1, symmetric] flip: w1(4)) (simp add: line_bytes_def)
    have lb2: "line_bytes present later w2 = drop k (line_bytes present later w)"
      using k(3,5,6) by (simp flip: w1(4)) (simp add: line_bytes_def)
    have b2: "bursts_ok later w2" using w1(3) k(6) by (simp add: bursts_ok_def)
    have blit: "blit (take off b0 @ got @ drop (off + length got) b0) (off + length got) xs
      = Some (take off b0 @ (got @ xs) @ drop (off + length (got @ xs)) b0)"
      using blit_append [of off got b0 xs] less.prems(3) k(2) xs(1) by simp
    have sum: "(of_nat (length got) + word_of_int (int k) :: u32) = of_nat (length (got @ xs))" using xs(1) by simp
    have "\<exists>w'. ser_read_loop t fd off maxsize SER_INF_TIMEOUT (of_nat (length (got @ xs))) (take off b0 @ (got @ xs) @ drop (off + length (got @ xs)) b0) w2
        = Some (maxsize, take off b0 @ ((got @ xs) @ take (n - k) (line_bytes present later w2)) @ drop (off + length (got @ xs) + (n - k)) b0, w')
      \<and> bursts_ok later w' \<and> line_bytes present later w' = drop (n - k) (line_bytes present later w2) \<and> sent w' = sent w2
      \<and> (n - k \<le> length (present w2) \<longrightarrow> later w' = later w2)
      \<and> (\<forall>c cs. length (present w2) < n - k \<and> later w2 = c # cs \<and> n - k \<le> length (present w2) + length c \<longrightarrow> later w' = cs)"
      by (rule less.IH) (use k(1,2) less.prems b2 lb2 xs(1) in simp_all)
    moreover have "xs @ take (n - k) (line_bytes present later w2) = take n (line_bytes present later w)"
      using k(2) xs(2) lb2 by (simp add: take_add [symmetric])
    ultimately obtain w' where w': "ser_read_loop t fd off maxsize SER_INF_TIMEOUT (of_nat (length (got @ xs))) (take off b0 @ (got @ xs) @ drop (off + length (got @ xs)) b0) w2
        = Some (maxsize, take off b0 @ (got @ take n (line_bytes present later w)) @ drop (off + length got + n) b0, w')"
      "bursts_ok later w'" "line_bytes present later w' = drop n (line_bytes present later w)" "sent w' = sent w"
      "n - k \<le> length (present w2) \<longrightarrow> later w' = later w2"
      "\<forall>c cs. length (present w2) < n - k \<and> later w2 = c # cs \<and> n - k \<le> length (present w2) + length c \<longrightarrow> later w' = cs"
      using k(2) xs(1) lb2 k(7) w1(5) by (auto simp: add.assoc)
    have "n \<le> length (present w) \<longrightarrow> later w' = later w" using w'(5) w1(6) k(5,6) False by auto
    moreover have "later w' = cs" if c: "length (present w) < n" "later w = c # cs" "n \<le> length (present w) + length c" for c cs
    proof (cases "present w = []")
      case True
      then have "present w1 = c" "later w1 = cs" using w1(7) c(2) by simp_all
      then show ?thesis using w'(5) k(2,5,6) c(3) True by auto
    next
      case False
      then have "w1 = w" using w1(6) by simp
      then show ?thesis using w'(6) k(1-3,5,6) c by (auto simp: less_diff_conv)
    qed
    moreover have "ser_read_loop t fd off maxsize SER_INF_TIMEOUT (of_nat (length got)) (take off b0 @ got @ drop (off + length got) b0) w
      = ser_read_loop t fd off maxsize SER_INF_TIMEOUT (of_nat (length (got @ xs))) (take off b0 @ (got @ xs) @ drop (off + length (got @ xs)) b0) w2"
      by (subst ser_read_loop.simps) (use go left w1(1) k(4) blit sum in \<open>simp add: ser_timeval_def ug xs_def [symmetric]\<close>)
    ultimately show ?thesis using w' by auto
  qed
qed

lemma ser_read_exact:
  assumes t: "tty_ok t fd present later sent" and b: "bursts_ok later w" and n: "unat maxsize \<le> length (line_bytes present later w)"
    "off + unat maxsize \<le> length b"
  shows "\<exists>w'. ser_read t fd off maxsize SER_INF_TIMEOUT b w
      = Some (maxsize, take off b @ take (unat maxsize) (line_bytes present later w) @ drop (off + unat maxsize) b, w')
    \<and> bursts_ok later w' \<and> line_bytes present later w' = drop (unat maxsize) (line_bytes present later w) \<and> sent w' = sent w
    \<and> (unat maxsize \<le> length (present w) \<longrightarrow> later w' = later w \<and> present w' = drop (unat maxsize) (present w))
    \<and> (\<forall>c cs. length (present w) < unat maxsize \<and> later w = c # cs \<and> unat maxsize \<le> length (present w) + length c \<longrightarrow> later w' = cs)"
proof -
  have "present w' = drop m (present w)" if "line_bytes present later w' = drop m (line_bytes present later w)" "later w' = later w" "m \<le> length (present w)"
    for w' m using that by (simp add: line_bytes_def)
  then show ?thesis using ser_read_loop_exact [OF t _ b, of maxsize "[]" "unat maxsize" off b] n by (auto simp: ser_read_def)
qed

text \<open>Without waiting, one byte of what has arrived, or none.\<close>

lemma ser_read_byte_present:
  assumes t: "tty_ok t fd present later sent" and p: "present w = c # cs"
  shows "\<exists>w'. ser_read_byte t fd SER_NO_TIMEOUT w = Some (uint c, w') \<and> present w' = cs \<and> later w' = later w \<and> sent w' = sent w"
proof -
  have ne: "present w \<noteq> []" using p by simp
  obtain w' where w': "tty_read t fd 1 w = ((1, [c]), w')" "present w' = cs" "later w' = later w" "sent w' = sent w"
    using tty_reads [OF t _ ne, of 1] p by (auto simp: take_Suc_conv_app_nth le_Suc_eq)
  have "ser_read_loop t fd 0 1 0 0 [0] w = Some (1, [c], w')"
    using tty_ready [OF t ne] w'(1) by (subst ser_read_loop.simps) (simp add: blit_def ser_read_loop.simps)
  then show ?thesis using w' by (simp add: ser_read_byte_def ser_read_def)
qed

lemma ser_read_byte_empty:
  assumes t: "tty_ok t fd present later sent" and p: "present w = []"
  shows "ser_read_byte t fd SER_NO_TIMEOUT w = Some (-1, w)"
  using tty_empty [OF t p] by (simp add: ser_read_byte_def ser_read_def ser_read_loop.simps ser_timeval_def)

lemma ser_write_sent:
  assumes t: "tty_ok t fd present later sent" and whole: "tty_writes_whole t fd"
  shows "\<exists>w'. ser_write t fd src w = (of_nat (length src), w') \<and> present w' = present w \<and> later w' = later w \<and> sent w' = sent w @ src"
proof -
  obtain r k w' where w': "tty_write t fd src w = (r, w')" "k \<le> length src" "r = int k \<or> r = - 1 \<and> k = 0"
    "present w' = present w" "later w' = later w" "sent w' = sent w @ take k src"
    using tty_writes [OF t, of src w] by blast
  have "r = int (length src)" using whole w'(1) unfolding tty_writes_whole_def by (metis fst_conv)
  then show ?thesis using w' tty_drains [OF t] by (auto simp: ser_write_def)
qed

text \<open>What a port that is full does not take is not sent again.\<close>

lemma ser_write_cut:
  assumes t: "tty_ok t fd present later sent" and full: "tty_write t fd src w = (int k, w1)"
  shows "\<exists>w'. ser_write t fd src w = (of_nat k, w') \<and> sent w' = sent w @ take k src"
proof -
  obtain r k' w' where w': "tty_write t fd src w = (r, w')" "r = int k' \<or> r = - 1 \<and> k' = 0" "sent w' = sent w @ take k' src"
    using tty_writes [OF t, of src w] by blast
  then show ?thesis using full tty_drains [OF t] by (auto simp: ser_write_def)
qed

text \<open>A failing \<^verbatim>\<open>read\<close> on an empty destination counts as \<open>2^32 - 1\<close> bytes read.\<close>

lemma ser_read_failed:
  assumes "tty_select t [fd] (ser_timeval timeout) w = ((1, [fd]), w1)" and "tty_read t fd (unat maxsize) w1 = ((-1, []), w2)"
    and "0 < maxsize" and "off \<le> length b"
  shows "ser_read t fd off maxsize timeout b w = Some (0xFFFFFFFF, b, w2)"
  unfolding ser_read_def using assms
  by (subst ser_read_loop.simps) (simp add: blit_def ser_read_loop.simps word_order.extremum_strict)


section \<open>The settings of a port\<close>

text \<open>The constants of \<^verbatim>\<open>termios.h\<close> that both programs use name different bits.\<close>

definition termios_ok :: "termios_consts \<Rightarrow> bool" where
  "termios_ok k \<longleftrightarrow> (\<forall>a \<in> {CSTOPB k, PARENB k, CSIZE k, CRTSCTS k}. a AND (CLOCAL k OR CREAD k) = 0)
     \<and> CSTOPB k AND CSIZE k = 0 \<and> PARENB k AND CSIZE k = 0 \<and> CRTSCTS k AND (CSTOPB k OR PARENB k OR CSIZE k) = 0
     \<and> CSn k 8 AND NOT (CSIZE k) = 0"

lemma disjoint_bits: "a AND b = 0 \<Longrightarrow> bit a n \<Longrightarrow> \<not> bit b n" for a b :: "'a::len word"
  by (metis bit_0_eq bit_and_iff bot_apply bot_bool_def)

lemma set_cflag_8n1:
  assumes "termios_ok k"
  shows "set_cflag k 8 SER_PARITY_NONE SER_STOPBITS_1 flow c AND CSIZE k = CSn k 8"
    and "set_cflag k 8 SER_PARITY_NONE SER_STOPBITS_1 flow c AND (CSTOPB k OR PARENB k) = 0"
    and "set_cflag k 8 SER_PARITY_NONE SER_STOPBITS_1 flow c AND (CLOCAL k OR CREAD k) = CLOCAL k OR CREAD k"
    and "set_cflag k 8 SER_PARITY_NONE SER_STOPBITS_1 flow c AND CRTSCTS k = (if flow = SER_FLOW_NONE then 0 else CRTSCTS k)"
proof -
  have 8: "ser_number_of_bits_to_id k 8 = CSn k 8" by (simp add: ser_number_of_bits_to_id_def)
  note d = assms [unfolded termios_ok_def]
  have b: "bit (CSTOPB k) n \<Longrightarrow> \<not> bit (CLOCAL k) n \<and> \<not> bit (CREAD k) n \<and> \<not> bit (CSIZE k) n \<and> \<not> bit (CRTSCTS k) n"
    "bit (PARENB k) n \<Longrightarrow> \<not> bit (CLOCAL k) n \<and> \<not> bit (CREAD k) n \<and> \<not> bit (CSIZE k) n \<and> \<not> bit (CRTSCTS k) n"
    "bit (CSIZE k) n \<Longrightarrow> \<not> bit (CLOCAL k) n \<and> \<not> bit (CREAD k) n \<and> \<not> bit (CRTSCTS k) n"
    "bit (CRTSCTS k) n \<Longrightarrow> \<not> bit (CLOCAL k) n \<and> \<not> bit (CREAD k) n"
    "bit (CSn k 8) n \<Longrightarrow> bit (CSIZE k) n" for n
    using d disjoint_bits [of "CSTOPB k" "CLOCAL k OR CREAD k" n] disjoint_bits [of "PARENB k" "CLOCAL k OR CREAD k" n]
      disjoint_bits [of "CSIZE k" "CLOCAL k OR CREAD k" n] disjoint_bits [of "CRTSCTS k" "CLOCAL k OR CREAD k" n]
      disjoint_bits [of "CSTOPB k" "CSIZE k" n] disjoint_bits [of "PARENB k" "CSIZE k" n]
      disjoint_bits [of "CRTSCTS k" "CSTOPB k OR PARENB k OR CSIZE k" n] disjoint_bits [of "CSn k 8" "NOT (CSIZE k)" n]
    by (auto simp: bit_or_iff bit_not_iff dest: bit_imp_le_length)
  show "set_cflag k 8 SER_PARITY_NONE SER_STOPBITS_1 flow c AND CSIZE k = CSn k 8"
    by (intro bit_word_eqI) (auto simp: set_cflag_def 8 Let_def bit_and_iff bit_or_iff bit_not_iff dest: b)
  show "set_cflag k 8 SER_PARITY_NONE SER_STOPBITS_1 flow c AND (CSTOPB k OR PARENB k) = 0"
    by (intro bit_word_eqI) (auto simp: set_cflag_def 8 Let_def bit_and_iff bit_or_iff bit_not_iff dest: b)
  show "set_cflag k 8 SER_PARITY_NONE SER_STOPBITS_1 flow c AND (CLOCAL k OR CREAD k) = CLOCAL k OR CREAD k"
    by (intro bit_word_eqI) (auto simp: set_cflag_def 8 Let_def bit_and_iff bit_or_iff bit_not_iff dest: b)
  show "set_cflag k 8 SER_PARITY_NONE SER_STOPBITS_1 flow c AND CRTSCTS k = (if flow = SER_FLOW_NONE then 0 else CRTSCTS k)"
    by (intro bit_word_eqI) (auto simp: set_cflag_def 8 Let_def bit_and_iff bit_or_iff bit_not_iff dest: b)
qed

end
