(* ===== verification/Rfs_Transports.thy ===== *)
theory Rfs_Transports
  imports Rfs_Client Serial_Posix
begin

text \<open>
  The standalone file system server: the serial and the UDP transport of \<^verbatim>\<open>rfs_server_src/rfs_transports.c\<close> and the loop of
  \<^verbatim>\<open>rfs_server_src/main.c\<close>. What the loop needs of a transport is the locale \<open>rfs_transport\<close>, interpreted for both; the
  theorem about them says that a client gets the same answers as from the memory transport of \<open>Rfs_Server\<close>.
\<close>

section \<open>The serial transport\<close>

partial_function (option) flush_serial :: "'w tty \<Rightarrow> int \<Rightarrow> 'w \<Rightarrow> 'w option" where
  "flush_serial t ser w = do { (c, w1) \<leftarrow> ser_read_byte t ser SER_NO_TIMEOUT w; if c \<noteq> -1 then flush_serial t ser w1 else Some w1 }"

partial_function (option) ser_read_request_packet :: "'w tty \<Rightarrow> int \<Rightarrow> packet_buf \<Rightarrow> 'w \<Rightarrow> (packet_buf \<times> 'w) option" where
  "ser_read_request_packet t ser b w =
     do { (readbytes, b1, w1) \<leftarrow> ser_read t ser 0 (of_nat ELUARPC_START_OFFSET) SER_INF_TIMEOUT b w;
          if readbytes \<noteq> of_nat ELUARPC_START_OFFSET
          then do { w2 \<leftarrow> flush_serial t ser w1; ser_read_request_packet t ser b1 w2 }
          else do { (err, temp16) \<leftarrow> eluarpc_get_packet_size b1;
                    if err then do { w2 \<leftarrow> flush_serial t ser w1; ser_read_request_packet t ser b1 w2 }
                    else do { (readbytes2, b2, w2) \<leftarrow> ser_read t ser ELUARPC_START_OFFSET (ucast temp16 - of_nat ELUARPC_START_OFFSET) SER_INF_TIMEOUT b1 w1;
                              if readbytes2 \<noteq> ucast temp16 - of_nat ELUARPC_START_OFFSET
                              then do { w3 \<leftarrow> flush_serial t ser w2; ser_read_request_packet t ser b2 w3 }
                              else Some (b2, w2) } } }"

definition ser_send_response_packet :: "'w tty \<Rightarrow> int \<Rightarrow> packet_buf \<Rightarrow> 'w \<Rightarrow> 'w option" where
  "ser_send_response_packet t ser b w =
     do { (err, temp16) \<leftarrow> eluarpc_get_packet_size b;
          if \<not> err then do { resp \<leftarrow> fetch b 0 (unat temp16); Some (snd (ser_write t ser resp w)) } else Some w }"

section \<open>The UDP transport\<close>

text \<open>The result of a read is subtracted from the size as it is; a failure moves the destination back.\<close>

partial_function (option) udp_read_helper :: "'w net \<Rightarrow> int \<Rightarrow> int \<Rightarrow> u32 \<Rightarrow> packet_buf \<Rightarrow> 'w \<Rightarrow> (packet_buf \<times> 'w) option" where
  "udp_read_helper n trans_socket dest left b w =
     (if left \<noteq> 0
      then (case net_recvfrom n trans_socket (unat left) NET_INF_TIMEOUT w of ((readbytes, bs), w1) \<Rightarrow>
              do { b1 \<leftarrow> (if bs = [] then Some b else if 0 \<le> dest then blit b (nat dest) bs else None);
                   let left1 = left - word_of_int readbytes;
                   if left1 = 0 then Some (b1, w1) else udp_read_helper n trans_socket (dest + readbytes) left1 b1 w1 })
      else Some (b, w))"

partial_function (option) udp_read_request_packet :: "'w net \<Rightarrow> int \<Rightarrow> packet_buf \<Rightarrow> 'w \<Rightarrow> (packet_buf \<times> 'w) option" where
  "udp_read_request_packet n trans_socket b w =
     do { (b1, w1) \<leftarrow> udp_read_helper n trans_socket 0 (of_nat ELUARPC_START_OFFSET) b w;
          (err, temp16) \<leftarrow> eluarpc_get_packet_size b1;
          if err then udp_read_request_packet n trans_socket b1 w1
          else udp_read_helper n trans_socket (int ELUARPC_START_OFFSET) (ucast temp16 - of_nat ELUARPC_START_OFFSET) b1 w1 }"

definition udp_send_response_packet :: "'w net \<Rightarrow> int \<Rightarrow> packet_buf \<Rightarrow> 'w \<Rightarrow> 'w option" where
  "udp_send_response_packet n trans_socket b w =
     do { (err, temp16) \<leftarrow> eluarpc_get_packet_size b;
          if \<not> err then do { resp \<leftarrow> fetch b 0 (unat temp16); Some (snd (sk_sendto n trans_socket resp w)) } else Some w }"

section \<open>The server\<close>

record 's transport =
  f_read_request :: "packet_buf \<Rightarrow> 's \<Rightarrow> (packet_buf \<times> 's) option"
  f_send_response :: "packet_buf \<Rightarrow> 's \<Rightarrow> 's option"

definition ser_transport_data :: "'s tty \<Rightarrow> int \<Rightarrow> 's transport" where
  "ser_transport_data t ser = \<lparr>f_read_request = ser_read_request_packet t ser, f_send_response = ser_send_response_packet t ser\<rparr>"

definition udp_transport_data :: "'s net \<Rightarrow> int \<Rightarrow> 's transport" where
  "udp_transport_data n trans_socket = \<lparr>f_read_request = udp_read_request_packet n trans_socket, f_send_response = udp_send_response_packet n trans_socket\<rparr>"

text \<open>The first rounds of the endless loop: the buffer, the state of the transport and that of the files.\<close>

fun rfs_server_rounds :: "libc_flags \<Rightarrow> 'w posix \<Rightarrow> u8 list \<Rightarrow> 's transport \<Rightarrow> nat \<Rightarrow> packet_buf \<times> 's \<times> 'w \<Rightarrow> (packet_buf \<times> 's \<times> 'w) option" where
  "rfs_server_rounds lib px basedir tr 0 st = Some st"
| "rfs_server_rounds lib px basedir tr (Suc n) (b, s, w) =
     do { (b1, s1) \<leftarrow> f_read_request tr b s;
          (ok, b2, w1) \<leftarrow> server_execute_request lib px basedir b1 w;
          s2 \<leftarrow> f_send_response tr b2 s1;
          rfs_server_rounds lib px basedir tr n (b2, s2, w1) }"

section \<open>The contract of a transport\<close>

text \<open>The response in the buffer; nothing is sent when its size cannot be read.\<close>

definition response :: "packet_buf \<Rightarrow> u8 list option" where
  "response b = do { (err, temp16) \<leftarrow> eluarpc_get_packet_size b; if \<not> err then fetch b 0 (unat temp16) else Some [] }"

text \<open>The requests that will come, and the bytes sent; \<open>ready ps\<close> says that the requests \<open>ps\<close> come next.\<close>

locale rfs_transport =
  fixes tr :: "'s transport" and ready :: "u8 list list \<Rightarrow> 's \<Rightarrow> bool" and sent :: "'s \<Rightarrow> u8 list"
  assumes reads_request: "ready (rpc_packet e # ps) s \<Longrightarrow> length e + 16 \<le> length b \<Longrightarrow> length e + 16 < 2 ^ 16 \<Longrightarrow>
      \<exists>s'. f_read_request tr b s = Some (rpc_packet e @ drop (length e + 16) b, s') \<and> ready ps s' \<and> sent s' = sent s"
    and sends_response: "ready ps s \<Longrightarrow> response b = Some r \<Longrightarrow>
      \<exists>s'. f_send_response tr b s = Some s' \<and> ready ps s' \<and> sent s' = sent s @ r"

text \<open>What a server has to answer to requests, given as the contents of their packets: the bytes of all responses. A request
  that does not fit into the buffer is left open.\<close>

fun serve_all :: "libc_flags \<Rightarrow> 'w posix \<Rightarrow> u8 list \<Rightarrow> u8 list list \<Rightarrow> packet_buf \<times> 'w \<Rightarrow> (u8 list \<times> packet_buf \<times> 'w) option" where
  "serve_all lib px basedir [] (b, w) = Some ([], b, w)"
| "serve_all lib px basedir (e # es) (b, w) =
     (if length e + 16 \<le> length b \<and> length e + 16 < 2 ^ 16
      then do { (ok, b1, w1) \<leftarrow> server_execute_request lib px basedir (rpc_packet e @ drop (length e + 16) b) w;
                r \<leftarrow> response b1;
                (rs, bw) \<leftarrow> serve_all lib px basedir es (b1, w1);
                Some (r @ rs, bw) }
      else None)"

lemma serve_all_Cons:
  assumes "serve_all lib px basedir (e # es) (b, w) = Some (rs, bw)"
  obtains ok b1 w1 r rs1 where "length e + 16 \<le> length b" "length e + 16 < 2 ^ 16"
    "server_execute_request lib px basedir (rpc_packet e @ drop (length e + 16) b) w = Some (ok, b1, w1)" "response b1 = Some r"
    "serve_all lib px basedir es (b1, w1) = Some (rs1, bw)" "rs = r @ rs1"
  using assms by (auto split: if_splits bind_splits)

context rfs_transport
begin

lemma rounds:
  "serve_all lib px basedir es (b, w) = Some (rs, b', w') \<Longrightarrow> ready (map rpc_packet es) s \<Longrightarrow>
    \<exists>s'. rfs_server_rounds lib px basedir tr (length es) (b, s, w) = Some (b', s', w') \<and> ready [] s' \<and> sent s' = sent s @ rs"
proof (induction es arbitrary: rs b w s)
  case (Cons e es)
  from Cons.prems(1) obtain ok b1 w1 r rs1 where ex: "length e + 16 \<le> length b" "length e + 16 < 2 ^ 16"
    "server_execute_request lib px basedir (rpc_packet e @ drop (length e + 16) b) w = Some (ok, b1, w1)" "response b1 = Some r"
    "serve_all lib px basedir es (b1, w1) = Some (rs1, b', w')" "rs = r @ rs1" by (rule serve_all_Cons)
  obtain s1 where s1: "f_read_request tr b s = Some (rpc_packet e @ drop (length e + 16) b, s1)" "ready (map rpc_packet es) s1" "sent s1 = sent s"
    using reads_request [of e "map rpc_packet es" s b] Cons.prems(2) ex(1,2) by auto
  obtain s2 where s2: "f_send_response tr b1 s1 = Some s2" "ready (map rpc_packet es) s2" "sent s2 = sent s1 @ r"
    using sends_response [OF s1(2) ex(4)] by blast
  from Cons.IH [OF ex(5) s2(2)] show ?case using s1 s2 ex(3,6) by auto
qed auto

end

section \<open>The serial transport keeps the contract\<close>

lemma packet_size_value:
  "length e + 16 < 2 ^ 16 \<Longrightarrow> unat (of_nat (length e + 16) :: u16) = length e + 16"
  by (simp add: unat_of_nat take_bit_nat_eq_self del: of_nat_add)

lemma rest_of_packet: "length e + 16 < 2 ^ 16 \<Longrightarrow> unat (ucast (of_nat (length e + 16) :: u16) - of_nat 4 :: u32) = length e + 12"
  using rest_size_packet [of "length e + 16"] by (simp add: rest_size_def del: of_nat_add)

lemma packet_split: "rpc_packet e = take 4 (rpc_packet e) @ drop 4 (rpc_packet e)" "length (rpc_packet e) = length e + 16"
  by simp_all

lemma packet_header_size: "eluarpc_get_packet_size (take 4 (rpc_packet e) @ suf) = Some (False, of_nat (length e + 16))"
  unfolding packet_prefix using packet_size_header by simp

text \<open>The port brings the requests, cut into bursts in any way.\<close>

definition ser_ready :: "'w tty \<Rightarrow> int \<Rightarrow> ('w \<Rightarrow> u8 list) \<Rightarrow> ('w \<Rightarrow> u8 list list) \<Rightarrow> ('w \<Rightarrow> u8 list) \<Rightarrow> u8 list list \<Rightarrow> 'w \<Rightarrow> bool" where
  "ser_ready t ser present later sent ps w \<longleftrightarrow>
     tty_ok t ser present later sent \<and> bursts_ok later w \<and> line_bytes present later w = concat ps"

lemma ser_reads_request:
  assumes t: "tty_ok t ser present later sent" and bo: "bursts_ok later w" and l: "line_bytes present later w = rpc_packet e @ rest"
    and len: "length e + 16 \<le> length b" "length e + 16 < 2 ^ 16"
  shows "\<exists>w'. ser_read_request_packet t ser b w = Some (rpc_packet e @ drop (length e + 16) b, w')
    \<and> bursts_ok later w' \<and> line_bytes present later w' = rest \<and> sent w' = sent w"
proof -
  obtain w1 where w1: "ser_read t ser 0 4 SER_INF_TIMEOUT b w = Some (4, take 4 (rpc_packet e) @ drop 4 b, w1)"
    "bursts_ok later w1" "line_bytes present later w1 = drop 4 (rpc_packet e) @ rest" "sent w1 = sent w"
    using ser_read_exact [OF t bo, of 4 0 b] l len(1) by auto
  define m where "m = (ucast (of_nat (length e + 16) :: u16) - of_nat 4 :: u32)"
  have m: "unat m = length e + 12" unfolding m_def by (rule rest_of_packet [OF len(2)])
  define b1 where "b1 = take 4 (rpc_packet e) @ drop 4 b"
  have lb: "length (take 4 (rpc_packet e)) = 4" "length b1 = length b" using len(1) by (simp_all add: b1_def)
  obtain w2 where w2: "ser_read t ser 4 m SER_INF_TIMEOUT b1 w1
      = Some (m, take 4 b1 @ take (unat m) (drop 4 (rpc_packet e) @ rest) @ drop (4 + unat m) b1, w2)"
    "bursts_ok later w2" "line_bytes present later w2 = drop (unat m) (drop 4 (rpc_packet e) @ rest)" "sent w2 = sent w1"
    using ser_read_exact [OF t w1(2), of m 4 b1] w1(3) m lb(2) len(1) by auto
  have body: "take (unat m) (drop 4 (rpc_packet e) @ rest) = drop 4 (rpc_packet e)" "drop (unat m) (drop 4 (rpc_packet e) @ rest) = rest"
    by (simp_all add: m)
  have buf: "take 4 b1 @ drop 4 (rpc_packet e) @ drop (4 + unat m) b1 = rpc_packet e @ drop (length e + 16) b"
    using lb(1) by (simp add: m b1_def add.commute flip: append_assoc)
  have size: "eluarpc_get_packet_size b1 = Some (False, of_nat (length e + 16))" unfolding b1_def by (rule packet_header_size)
  have "ser_read_request_packet t ser b w = Some (rpc_packet e @ drop (length e + 16) b, w2)"
    using w1(1) size w2(1) unfolding body(1) buf
    by (subst ser_read_request_packet.simps) (simp add: b1_def m_def del: of_nat_add)
  then show ?thesis using w2(2-4) w1(4) body(2) by auto
qed

interpretation serial_server: rfs_transport "ser_transport_data t ser" "\<lambda>ps w. tty_writes_whole t ser \<and> ser_ready t ser present later sent ps w" sent for t ser present later sent
proof unfold_locales
  fix e ps s and b :: packet_buf
  assume "tty_writes_whole t ser \<and> ser_ready t ser present later sent (rpc_packet e # ps) s" "length e + 16 \<le> length b" "length e + 16 < 2 ^ 16"
  then show "\<exists>s'. f_read_request (ser_transport_data t ser) b s = Some (rpc_packet e @ drop (length e + 16) b, s')
      \<and> (tty_writes_whole t ser \<and> ser_ready t ser present later sent ps s') \<and> sent s' = sent s"
    using ser_reads_request [of t ser present later sent s e "concat ps" b] by (auto simp: ser_ready_def ser_transport_data_def)
next
  fix ps s and b r :: "u8 list"
  assume ready: "tty_writes_whole t ser \<and> ser_ready t ser present later sent ps s" and r: "response b = Some r"
  obtain s' where s': "ser_write t ser r s = (of_nat (length r), s')" "present s' = present s" "later s' = later s" "sent s' = sent s @ r"
    using ser_write_sent [of t ser present later sent r s] ready by (auto simp: ser_ready_def)
  then have "ser_ready t ser present later sent ps s'" using ready by (auto simp: ser_ready_def line_bytes_def bursts_ok_def)
  then show "\<exists>s'. f_send_response (ser_transport_data t ser) b s = Some s' \<and> (tty_writes_whole t ser \<and> ser_ready t ser present later sent ps s') \<and> sent s' = sent s @ r"
    using r s' ready by (auto simp: response_def ser_transport_data_def ser_send_response_packet_def split: bind_splits if_splits)
qed

section \<open>The UDP transport keeps the contract\<close>

text \<open>Each request comes in datagrams that are not empty, and none of which goes over the end of the header, the first four bytes.\<close>

definition udp_cut :: "u8 list \<Rightarrow> u8 list list \<Rightarrow> bool" where
  "udp_cut p gs \<longleftrightarrow> [] \<notin> set gs \<and> (\<exists>hs bs. gs = hs @ bs \<and> concat hs = take ELUARPC_START_OFFSET p \<and> concat bs = drop ELUARPC_START_OFFSET p)"

definition udp_ready :: "'w net \<Rightarrow> int \<Rightarrow> ('w \<Rightarrow> u8 list list) \<Rightarrow> ('w \<Rightarrow> u8 list list) \<Rightarrow> u8 list list \<Rightarrow> 'w \<Rightarrow> bool" where
  "udp_ready n s grams sent ps w \<longleftrightarrow> net_ok n s grams sent \<and> (\<exists>dss. list_all2 udp_cut ps dss \<and> grams w = concat dss)"

lemma udp_read_gram:
  assumes n: "net_ok n s grams sent" and g: "grams w = g # gs" and sz: "length g = unat left" "left \<noteq> 0" and fits: "dest + length g \<le> length b"
  shows "\<exists>w'. udp_read_helper n s (int dest) left b w = Some (take dest b @ g @ drop (dest + length g) b, w') \<and> grams w' = gs \<and> sent w' = sent w"
proof -
  obtain w' where w': "sk_recvfrom n s (unat left) w = ((int (length g), g), w')" "grams w' = gs" "sent w' = sent w"
    using net_reads [OF n g, of "unat left"] sz(1) by auto
  have "sk_select n s None w = (1, w)" using net_ready [OF n] g by simp
  then have recv: "net_recvfrom n s (unat left) NET_INF_TIMEOUT w = ((int (length g), g), w')"
    using w'(1) by (simp add: net_recvfrom_def net_timeval_def)
  have "g \<noteq> []" using sz by (auto simp: unat_eq_0)
  then have "udp_read_helper n s (int dest) left b w = Some (take dest b @ g @ drop (dest + length g) b, w')"
    using recv sz fits by (subst udp_read_helper.simps) (simp add: blit_def)
  then show ?thesis using w' by blast
qed

text \<open>Several datagrams, up to the number of bytes asked for.\<close>

lemma udp_read_grams:
  assumes n: "net_ok n s grams sent"
  shows "grams w = hs @ gs \<Longrightarrow> [] \<notin> set hs \<Longrightarrow> hs \<noteq> [] \<Longrightarrow> length (concat hs) = unat left \<Longrightarrow> dest + length (concat hs) \<le> length b \<Longrightarrow>
    \<exists>w'. udp_read_helper n s (int dest) left b w = Some (take dest b @ concat hs @ drop (dest + length (concat hs)) b, w') \<and> grams w' = gs \<and> sent w' = sent w"
proof (induction hs arbitrary: left dest b w)
  case (Cons g hs)
  have ne: "g \<noteq> []" and left: "left \<noteq> 0" using Cons.prems(2,4) by auto
  show ?case
  proof (cases "hs = []")
    case True
    then show ?thesis using udp_read_gram [OF n, of w g gs left dest b] Cons.prems left by simp
  next
    case False
    have g: "grams w = g # (hs @ gs)" "length g \<le> unat left" using Cons.prems(1,4) by auto
    obtain w1 where w1: "sk_recvfrom n s (unat left) w = ((int (length g), g), w1)" "grams w1 = hs @ gs" "sent w1 = sent w"
      using net_reads [OF n g(1), of "unat left"] g(2) by auto
    have "sk_select n s None w = (1, w)" using net_ready [OF n] g(1) by simp
    then have recv: "net_recvfrom n s (unat left) NET_INF_TIMEOUT w = ((int (length g), g), w1)"
      using w1(1) by (simp add: net_recvfrom_def net_timeval_def)
    define b1 where "b1 = take dest b @ g @ drop (dest + length g) b"
    have blit: "blit b dest g = Some b1" using Cons.prems(5) by (simp add: blit_def b1_def)
    have lg: "unat (of_nat (length g) :: u32) = length g"
      using g(2) unsigned_less [of left, where 'a = nat] by (simp add: unat_of_nat take_bit_nat_eq_self)
    have l1: "unat (left - of_nat (length g)) = length (concat hs)" using Cons.prems(4) g(2) lg by (simp add: unat_sub_if' word_le_nat_alt)
    have "0 < length (concat hs)" using False Cons.prems(2) by (cases hs) auto
    then have more: "left - of_nat (length g) \<noteq> 0" using l1 by auto
    have lb: "length b1 = length b" using blit_length [OF blit] .
    have "\<exists>w'. udp_read_helper n s (int (dest + length g)) (left - of_nat (length g)) b1 w1
        = Some (take (dest + length g) b1 @ concat hs @ drop (dest + length g + length (concat hs)) b1, w') \<and> grams w' = gs \<and> sent w' = sent w1"
      by (rule Cons.IH) (use w1(2) Cons.prems False l1 lb in auto)
    moreover have "take (dest + length g) b1 = take dest b @ g" "drop (dest + length g + length (concat hs)) b1 = drop (dest + length (concat (g # hs))) b"
      using Cons.prems(5) by (simp_all add: b1_def ac_simps)
    ultimately obtain w2 where w2: "udp_read_helper n s (int (dest + length g)) (left - of_nat (length g)) b1 w1
        = Some (take dest b @ concat (g # hs) @ drop (dest + length (concat (g # hs))) b, w2)" "grams w2 = gs" "sent w2 = sent w" using w1(3) by auto
    have "udp_read_helper n s (int dest) left b w = udp_read_helper n s (int (dest + length g)) (left - of_nat (length g)) b1 w1"
      using recv ne left blit more by (subst udp_read_helper.simps) simp
    then show ?thesis using w2 by simp
  qed
qed simp

text \<open>The part after the header.\<close>

lemma udp_reads_rest:
  assumes n: "net_ok n s grams sent" and first: "udp_read_helper n s 0 4 b w = Some (take 4 (rpc_packet e) @ drop 4 b, w1)"
    and g: "grams w1 = bs @ gs" "[] \<notin> set bs" and body: "body = concat bs" "length body = length e + 12" and len: "length e + 16 \<le> length b" "length e + 16 < 2 ^ 16"
  shows "\<exists>w'. udp_read_request_packet n s b w = Some (take 4 (rpc_packet e) @ body @ drop (length e + 16) b, w') \<and> grams w' = gs \<and> sent w' = sent w1"
proof -
  define b1 where "b1 = take 4 (rpc_packet e) @ drop 4 b"
  have lb: "length (take 4 (rpc_packet e)) = 4" "length b1 = length b" using len(1) by (simp_all add: b1_def)
  define m where "m = (ucast (of_nat (length e + 16) :: u16) - of_nat 4 :: u32)"
  have m: "unat m = length e + 12" unfolding m_def by (rule rest_of_packet [OF len(2)])
  then have m0: "m \<noteq> 0" by (auto simp: unat_eq_0 [symmetric])
  obtain w2 where w2: "udp_read_helper n s 4 m b1 w1 = Some (take 4 b1 @ body @ drop (4 + length body) b1, w2)" "grams w2 = gs" "sent w2 = sent w1"
    using udp_read_grams [OF n g, of m 4 b1] m body lb(2) len(1) by fastforce
  have buf: "take 4 b1 @ body @ drop (4 + length body) b1 = take 4 (rpc_packet e) @ body @ drop (length e + 16) b"
    using lb(1) by (simp add: body(2) b1_def add.commute)
  have size: "eluarpc_get_packet_size b1 = Some (False, of_nat (length e + 16))" unfolding b1_def by (rule packet_header_size)
  have "udp_read_request_packet n s b w = Some (take 4 (rpc_packet e) @ body @ drop (length e + 16) b, w2)"
    using first [folded b1_def] size w2(1) unfolding buf by (subst udp_read_request_packet.simps) (simp add: m_def del: of_nat_add)
  then show ?thesis using w2 by auto
qed

lemma udp_reads:
  assumes n: "net_ok n s grams sent" and g: "grams w = ds @ gs" "udp_cut (rpc_packet e) ds"
    and len: "length e + 16 \<le> length b" "length e + 16 < 2 ^ 16"
  shows "\<exists>w'. udp_read_request_packet n s b w = Some (rpc_packet e @ drop (length e + 16) b, w') \<and> grams w' = gs \<and> sent w' = sent w"
proof -
  obtain hs bs where ds: "ds = hs @ bs" "[] \<notin> set hs" "[] \<notin> set bs" "concat hs = take 4 (rpc_packet e)" "concat bs = drop 4 (rpc_packet e)"
    using g(2) by (auto simp: udp_cut_def)
  have l4: "length (concat hs) = 4" "length (concat bs) = length e + 12" using ds(4,5) by simp_all
  have w: "grams w = hs @ (bs @ gs)" "hs \<noteq> []" using g(1) ds(1) l4(1) by auto
  obtain w1 where w1: "udp_read_helper n s 0 4 b w = Some (take 4 (rpc_packet e) @ drop 4 b, w1)" "grams w1 = bs @ gs" "sent w1 = sent w"
    using udp_read_grams [OF n w(1) ds(2) w(2), of 4 0 b] l4(1) ds(4) len(1) by auto
  show ?thesis using udp_reads_rest [OF n w1(1,2) ds(3) refl l4(2) len] w1(3) ds(5) by (simp flip: append_assoc)
qed

interpretation udp_server: rfs_transport "udp_transport_data n s" "udp_ready n s grams sent" "\<lambda>w. concat (sent w)" for n s grams sent
proof unfold_locales
  fix e ps w and b :: packet_buf
  assume r: "udp_ready n s grams sent (rpc_packet e # ps) w" and len: "length e + 16 \<le> length b" "length e + 16 < 2 ^ 16"
  then obtain ds dss where n: "net_ok n s grams sent" and ds: "udp_cut (rpc_packet e) ds" "list_all2 udp_cut ps dss" "grams w = ds @ concat dss"
    by (auto simp: udp_ready_def list_all2_Cons1)
  from udp_reads [OF n ds(3,1) len] n ds(2)
  show "\<exists>s'. f_read_request (udp_transport_data n s) b w = Some (rpc_packet e @ drop (length e + 16) b, s')
      \<and> udp_ready n s grams sent ps s' \<and> concat (sent s') = concat (sent w)"
    unfolding udp_ready_def udp_transport_data_def transport.select_convs by metis
next
  fix ps w and b r :: "u8 list"
  assume ready: "udp_ready n s grams sent ps w" and r: "response b = Some r"
  then have "net_ok n s grams sent" by (simp add: udp_ready_def)
  from net_sends [OF this, of r w] obtain w' where w': "sk_sendto n s r w = (int (length r), w')" "grams w' = grams w" "sent w' = sent w @ [r]"
    by blast
  then have "udp_ready n s grams sent ps w'" using ready by (simp add: udp_ready_def)
  then show "\<exists>s'. f_send_response (udp_transport_data n s) b w = Some s' \<and> udp_ready n s grams sent ps s' \<and> concat (sent s') = concat (sent w) @ r"
    using r w' ready by (auto simp: response_def udp_transport_data_def udp_send_response_packet_def split: bind_splits if_splits)
qed

section \<open>The memory transport\<close>

lemma rfs_feed_all_append:
  "rfs_feed_all lib px basedir (xs @ ys) mw =
    do { (r1, mw1) \<leftarrow> rfs_feed_all lib px basedir xs mw; (r2, mw2) \<leftarrow> rfs_feed_all lib px basedir ys mw1; Some (r1 @ r2, mw2) }"
  by (induction xs arbitrary: mw) (auto split: bind_splits)

lemma mem_server_rounds:
  "serve_all lib px basedir es (b, w) = Some (rs, b', w') \<Longrightarrow> mem_ready m \<Longrightarrow> rfs_buffer m = b \<Longrightarrow>
    \<exists>m'. rfs_feed_all lib px basedir (concat (map rpc_packet es)) (m, w) = Some (rs, m', w') \<and> rfs_buffer m' = b'"
proof (induction es arbitrary: rs b w m)
  case (Cons e es)
  from Cons.prems(1) obtain ok b1 w1 r rs1 where ex: "length e + 16 \<le> length b" "length e + 16 < 2 ^ 16"
    "server_execute_request lib px basedir (rpc_packet e @ drop (length e + 16) b) w = Some (ok, b1, w1)" "response b1 = Some r"
    "serve_all lib px basedir es (b1, w1) = Some (rs1, b', w')" "rs = r @ rs1" by (rule serve_all_Cons)
  let ?m = "mem_done (rpc_packet e) m"
  have "rfs_buffer ?m = rpc_packet e @ drop (length e + 16) b" using Cons.prems(3) by (simp add: mem_done_def)
  then have "rfs_mem_write_response lib px basedir ?m w = Some (r, ?m\<lparr>rfs_buffer := b1\<rparr>, w1)"
    using ex(3,4) by (auto simp: rfs_mem_write_response_def response_def split: bind_splits if_splits)
  then have first: "rfs_feed_all lib px basedir (rpc_packet e) (m, w) = Some (r, rfs_mem_start_request (?m\<lparr>rfs_buffer := b1\<rparr>), w1)"
    using feed_packet [OF Cons.prems(2) refl, of e lib px basedir w] ex(1,2) Cons.prems(3) by simp
  have "mem_ready (rfs_mem_start_request (?m\<lparr>rfs_buffer := b1\<rparr>))" "rfs_buffer (rfs_mem_start_request (?m\<lparr>rfs_buffer := b1\<rparr>)) = b1"
    by (simp_all add: rfs_mem_start_request_def mem_ready_def)
  from Cons.IH [OF ex(5) this] show ?case using first ex(6) by (auto simp: rfs_feed_all_append)
qed auto

section \<open>Damaged requests\<close>

lemma flush_serial_empties:
  assumes t: "tty_ok t ser present later sent"
  shows "present w = cs \<Longrightarrow> \<exists>w'. flush_serial t ser w = Some w' \<and> present w' = [] \<and> later w' = later w \<and> sent w' = sent w"
proof (induction cs arbitrary: w)
  case Nil
  then show ?case using ser_read_byte_empty [OF t Nil] by (subst flush_serial.simps) simp
next
  case (Cons c cs)
  obtain w1 where w1: "ser_read_byte t ser 0 w = Some (uint c, w1)" "present w1 = cs" "later w1 = later w" "sent w1 = sent w"
    using ser_read_byte_present [OF t Cons.prems] by blast
  from Cons.IH [OF w1(2)] show ?case using w1 by (subst flush_serial.simps) auto
qed

lemma bad_header: "h \<noteq> TYPE_PKT_SIZE \<or> x \<noteq> TYPE_INT_16 \<Longrightarrow> \<exists>n. eluarpc_get_packet_size (h # x # y # z # suf) = Some (True, n)"
  by (auto simp: eluarpc_get_packet_size_def eluarpc_read_expect_def eluarpc_read_u16_def load_def)

section \<open>Properties\<close>


text \<open>C35: When the serial port brings something that is not the start of a request, the server recovers: it discards what is in the burst and takes the next burst as
  a request. When less than four bytes have arrived, the header is completed from the next burst, which is then discarded with them, and
  the server goes on with the burst after it. (The memory transport does not recover, see \<open>rfs_mem_bad_header_stuck\<close>.)\<close>

theorem rfs_serial_resync:
  assumes t: "tty_ok t ser present later sent" and b: "bursts_ok later s"
    and bad: "take 4 (present s @ lost) = [h, x, y, z]" "h \<noteq> TYPE_PKT_SIZE \<or> x \<noteq> TYPE_INT_16"
    and cut: "later s = (if 4 \<le> length (present s) then ls else lost # ls)"
    and nxt: "concat ls = rpc_packet e @ rest" and len: "length e + 16 \<le> length buf" "length e + 16 < 2 ^ 16"
  shows "\<exists>s'. ser_read_request_packet t ser buf s = Some (rpc_packet e @ drop (length e + 16) buf, s')
    \<and> line_bytes present later s' = rest \<and> sent s' = sent s"
proof -
  define b1 where "b1 = [h, x, y, z] @ drop 4 buf"
  have four: "4 \<le> length (line_bytes present later s)" "take 4 (line_bytes present later s) = [h, x, y, z]"
  proof -
    have "length (take 4 (present s @ lost)) = 4" unfolding bad(1) by simp
    then have l: "4 \<le> length (present s @ lost)" by simp
    have "line_bytes present later s = present s @ lost @ concat ls \<or> 4 \<le> length (present s) \<and> line_bytes present later s = present s @ concat ls"
      using cut by (auto simp: line_bytes_def)
    then show "4 \<le> length (line_bytes present later s)" "take 4 (line_bytes present later s) = [h, x, y, z]"
      using l bad(1) by (auto simp flip: append_assoc)
  qed
  obtain s1 where s1: "ser_read t ser 0 4 SER_INF_TIMEOUT buf s = Some (4, b1, s1)" "bursts_ok later s1"
    "line_bytes present later s1 = drop 4 (line_bytes present later s)" "sent s1 = sent s" "later s1 = ls"
  proof -
    obtain s1 where s1: "ser_read t ser 0 4 SER_INF_TIMEOUT buf s = Some (4, take 0 buf @ take 4 (line_bytes present later s) @ drop 4 buf, s1)" "bursts_ok later s1"
      "line_bytes present later s1 = drop 4 (line_bytes present later s)" "sent s1 = sent s"
      "4 \<le> length (present s) \<longrightarrow> later s1 = later s"
      "\<forall>c cs. length (present s) < 4 \<and> later s = c # cs \<and> 4 \<le> length (present s) + length c \<longrightarrow> later s1 = cs"
      using ser_read_exact [OF t b, of 4 0 buf] four(1) len(1) by auto
    have "length (take 4 (present s @ lost)) = 4" unfolding bad(1) by simp
    then have "4 \<le> length (present s) + length lost" by simp
    then have "later s1 = ls" using s1(5,6) cut by (cases "4 \<le> length (present s)") auto
    then show thesis using that [of s1] s1 four(2) by (simp add: b1_def)
  qed
  obtain s2 where s2: "flush_serial t ser s1 = Some s2" "present s2 = []" "later s2 = later s1" "sent s2 = sent s1"
    using flush_serial_empties [OF t refl] by blast
  obtain k where k: "eluarpc_get_packet_size b1 = Some (True, k)" using bad_header [OF bad(2), of y z "drop 4 buf"] by (auto simp: b1_def)
  have "ser_read_request_packet t ser buf s = ser_read_request_packet t ser b1 s2"
    using s1(1) k s2(1) by (subst ser_read_request_packet.simps) simp
  moreover have "bursts_ok later s2" "line_bytes present later s2 = rpc_packet e @ rest"
    using s1 s2 nxt by (simp_all add: bursts_ok_def line_bytes_def)
  from ser_reads_request [OF t this, of b1] len have "\<exists>s'. ser_read_request_packet t ser b1 s2 = Some (rpc_packet e @ drop (length e + 16) b1, s')
    \<and> bursts_ok later s' \<and> line_bytes present later s' = rest \<and> sent s' = sent s2" by (simp add: b1_def)
  moreover have "drop (length e + 16) b1 = drop (length e + 16) buf" by (simp add: b1_def numeral_eq_Suc)
  ultimately show ?thesis using s1(4) s2(4) by auto
qed

text \<open>A request that comes in one UDP datagram is not read: its rest is lost with the first read, and the
  next datagram is taken for it.\<close>

theorem udp_whole_request_cut:
  assumes n: "net_ok n sock grams sent" and g: "grams u = rpc_packet e # body # gs" and body: "length body = length e + 12"
    and len: "length e + 16 \<le> length b" "length e + 16 < 2 ^ 16"
  shows "\<exists>u'. udp_read_request_packet n sock b u = Some (take ELUARPC_START_OFFSET (rpc_packet e) @ body @ drop (length e + 16) b, u') \<and> grams u' = gs"
proof -
  obtain u1 where u1: "sk_recvfrom n sock 4 u = ((4, take 4 (rpc_packet e)), u1)" "grams u1 = body # gs"
    using net_reads [OF n g, of 4] by auto
  have "sk_select n sock None u = (1, u)" using net_ready [OF n] g by simp
  then have recv: "net_recvfrom n sock 4 NET_INF_TIMEOUT u = ((4, take 4 (rpc_packet e)), u1)" using u1(1) by (simp add: net_recvfrom_def net_timeval_def)
  have ne: "take 4 (rpc_packet e) \<noteq> []" by (simp add: rpc_packet_def)
  define b1 where "b1 = take 4 (rpc_packet e) @ drop 4 b"
  have lb: "length (take 4 (rpc_packet e)) = 4" "length b1 = length b" using len(1) by (simp_all add: b1_def)
  have first: "udp_read_helper n sock 0 4 b u = Some (b1, u1)"
    using recv ne lb(1) len(1) by (subst udp_read_helper.simps) (simp add: blit_def b1_def)
  show ?thesis using udp_reads_rest [OF n first [unfolded b1_def], of "[body]" gs body] u1(2) body len by fastforce
qed


section \<open>Instances\<close>

text \<open>A port and a socket made of what they will bring and what was sent.\<close>

type_synonym example_line = "u8 list \<times> u8 list list \<times> u8 list"

definition example_tty :: "example_line tty" where
  "example_tty = \<lparr>tty_open = (\<lambda>_ w. (3, w)), tty_close = (\<lambda>_ w. w),
     tty_select = (\<lambda>fds tv (p, l, s). if p \<noteq> [] then ((1, fds), p, l, s)
       else case (tv, l) of (None, b # bs) \<Rightarrow> ((1, fds), b, bs, s) | _ \<Rightarrow> ((0, []), p, l, s)),
     tty_read = (\<lambda>_ n (p, l, s). ((int (min n (length p)), take n p), drop n p, l, s)),
     tty_write = (\<lambda>_ bs (p, l, s). (int (length bs), p, l, s @ bs)),
     tty_nonblock = (\<lambda>_ _ w. w), tty_sleep = (\<lambda>_ w. w), tty_drain = (\<lambda>_ w. w), tty_flush = (\<lambda>_ w. w),
     tty_getattr = (\<lambda>_ w. (\<lparr>c_iflag = 0, c_oflag = 0, c_cflag = 0, c_lflag = 0, c_ispeed = 0, c_ospeed = 0, c_vmin = 0, c_vtime = 0\<rparr>, w)),
     tty_setattr = (\<lambda>_ _ w. w)\<rparr>"

lemma example_tty_ok: "tty_ok example_tty 3 fst (\<lambda>w. fst (snd w)) (\<lambda>w. snd (snd w))"
  unfolding tty_ok_def
proof (intro conjI allI impI)
  fix w :: example_line and n :: nat
  assume n: "0 < n \<and> fst w \<noteq> []"
  then show "\<exists>k w'. 0 < k \<and> k \<le> n \<and> k \<le> length (fst w) \<and> tty_read example_tty 3 n w = ((int k, take k (fst w)), w')
      \<and> fst w' = drop k (fst w) \<and> fst (snd w') = fst (snd w) \<and> snd (snd w') = snd (snd w)"
    by (intro exI [of _ "min n (length (fst w))"] exI [of _ "(drop n (fst w), snd w)"]) (auto simp: example_tty_def min_def split: prod.splits)
qed (auto simp: example_tty_def split: prod.splits)

definition example_net :: "(u8 list list \<times> u8 list list) net" where
  "example_net = \<lparr>sk_socket = (\<lambda>w. (4, w)), sk_bind = (\<lambda>_ _ w. (0, w)),
     sk_select = (\<lambda>_ tv (g, s). (if g \<noteq> [] then 1 else 0, g, s)),
     sk_recvfrom = (\<lambda>_ n (g, s). case g of [] \<Rightarrow> ((-1, []), g, s) | d # ds \<Rightarrow> ((int (length (take n d)), take n d), ds, s)),
     sk_sendto = (\<lambda>_ bs (g, s). (int (length bs), g, s @ [bs]))\<rparr>"

lemma example_net_ok: "net_ok example_net 4 fst snd"
  by (auto simp: net_ok_def example_net_def split: prod.splits)

definition example_request :: "u8 list" where
  "example_request = the (rpc_encode ''oi'' [Int_arg RFS_OP_CLOSE, Int_arg 3])"

lemma example_request_packet: "rpc_packet example_request = req_close 3" "length example_request = 7"
proof -
  show p: "rpc_packet example_request = req_close 3" by (simp add: example_request_def req_close_def wire_def)
  have "length (rpc_packet example_request) = 23" unfolding p by (rule req_close_ok)
  then show "length example_request = 7" by simp
qed

lemma example_served:
  "\<exists>b'. serve_all linux_flags tape_posix [0x2F] [example_request] (replicate 256 0, ([], 0)) = Some (res_close 0, b', ([], 0))"
proof -
  have "server_execute_request linux_flags tape_posix [0x2F] (req_close 3 @ suf) ([], 0)
      = Some (True, res_close 0 @ drop 22 (req_close 3 @ suf), ([], 0))" for suf
    by (rule exec_close) (simp add: tape_posix_def)
  moreover have "response (res_close 0 @ suf) = Some (res_close 0)" for suf
    using res_close_ok(2,3) [of 0] by (simp add: response_def fetch_def)
  ultimately show ?thesis by (simp add: example_request_packet)
qed


lemma req_close_not_empty: "req_close 3 \<noteq> []"
  using req_close_ok(2) [of 3] by auto

theorem rfs_serial_resync_witness:
  "(\<exists>s'. ser_read_request_packet example_tty 3 (replicate 256 0) ([1, 2, 3, 4, 0xA5], [req_close 3], []) = Some (req_close 3 @ replicate 233 0, s'))
    \<and> (\<exists>s'. ser_read_request_packet example_tty 3 (replicate 256 0) ([1], [[2, 3, 4, 5], req_close 3], []) = Some (req_close 3 @ replicate 233 0, s'))"
  using rfs_serial_resync [OF example_tty_ok, of "([1, 2, 3, 4, 0xA5], [req_close 3], [])" "[]" 1 2 3 4 "[req_close 3]" example_request "[]" "replicate 256 0"]
    rfs_serial_resync [OF example_tty_ok, of "([1], [[2, 3, 4, 5], req_close 3], [])" "[2, 3, 4, 5]" 1 2 3 4 "[req_close 3]" example_request "[]" "replicate 256 0"]
    req_close_not_empty
  by (fastforce simp: bursts_ok_def example_request_packet)

theorem udp_whole_request_cut_witness:
  "\<exists>u'. udp_read_request_packet example_net 4 (replicate 256 0) ([req_close 3, replicate 19 7], [])
      = Some (take 4 (req_close 3) @ replicate 19 7 @ replicate 233 0, u')"
  using udp_whole_request_cut [OF example_net_ok, of "([req_close 3, replicate 19 7], [])" example_request "replicate 19 7" "[]" "replicate 256 0"]
  by (auto simp: example_request_packet)

end
