(* ===== verification/Mux_Start.thy ===== *)
theory Mux_Start
  imports Mux Rfs_Transports
begin

text \<open>
  How the programs of the PC start: \<^verbatim>\<open>rfs_server_src/deskutils.c\<close>, the command line of the file system server
  (\<^verbatim>\<open>rfs_transports.c\<close>, \<^verbatim>\<open>main.c\<close>) and the part of \<^verbatim>\<open>mux_src/main.c\<close> before its loop. The log output is left out. The theorems say which command lines are taken and
  that the state in which the multiplexer enters its loop is the one that the theorems of \<open>Mux\<close> start from.
\<close>

section \<open>Numbers and strings\<close>

abbreviation "LONG_MAX \<equiv> (2 ^ 63 - 1 :: int)"
abbreviation "LONG_MIN \<equiv> (- (2 ^ 63) :: int)"
abbreviation "INT_MAX \<equiv> (2 ^ 31 - 1 :: int)"
abbreviation "INT_MIN \<equiv> (- (2 ^ 31) :: int)"

definition is_space :: "u8 \<Rightarrow> bool" where
  "is_space c \<longleftrightarrow> c = 0x20 \<or> 9 \<le> c \<and> c \<le> 13"

definition is_digit :: "u8 \<Rightarrow> bool" where
  "is_digit c \<longleftrightarrow> 0x30 \<le> c \<and> c \<le> 0x39"

fun digits_value :: "u8 list \<Rightarrow> int \<Rightarrow> int" where
  "digits_value [] v = v"
| "digits_value (c # cs) v = digits_value cs (10 * v + (uint c - 48))"

text \<open>\<^verbatim>\<open>strtol\<close> of the C library, base 10: the value, whether \<^verbatim>\<open>errno\<close> was set, the position of the first character that was not used.\<close>

definition strtol :: "u8 list \<Rightarrow> int \<times> bool \<times> nat" where
  "strtol s =
     (let s1 = dropWhile is_space s;
          s2 = (if s1 \<noteq> [] \<and> (hd s1 = 0x2D \<or> hd s1 = 0x2B) then tl s1 else s1);
          ds = takeWhile is_digit s2;
          v = (if s1 \<noteq> [] \<and> hd s1 = 0x2D then - digits_value ds 0 else digits_value ds 0);
          pos = length s - length s2 + length ds
      in if ds = [] then (0, False, 0)
         else if v > LONG_MAX then (LONG_MAX, True, pos)
         else if v < LONG_MIN then (LONG_MIN, True, pos)
         else (v, False, pos))"

definition secure_atoi :: "u8 list \<Rightarrow> int option" where
  "secure_atoi str =
     (case strtol str of (s1, errno, end_ptr) \<Rightarrow>
        if (s1 = LONG_MIN \<or> s1 = LONG_MAX) \<and> errno then None
        else if end_ptr = 0 then None
        else if s1 > INT_MAX \<or> s1 < INT_MIN then None
        else if end_ptr \<noteq> length str then None
        else Some s1)"

text \<open>The first position of a character, and the copy of the first \<open>n\<close> characters, NULL when there is no memory.\<close>

definition strchr :: "u8 list \<Rightarrow> u8 \<Rightarrow> nat option" where
  "strchr s c = (let n = length (takeWhile (\<lambda>x. x \<noteq> c) s) in if n < length s then Some n else None)"

definition l_strndup :: "(nat \<Rightarrow> bool) \<Rightarrow> u8 list \<Rightarrow> nat \<Rightarrow> u8 list option" where
  "l_strndup malloc s n = (if malloc (n + 1) then Some (take n s) else None)"

section \<open>The parameters of a serial transport\<close>

record serial_params =
  sp_name :: "u8 list option"
  sp_speed :: int
  sp_flow :: ser_flow

text \<open>The part of the parsers that both programs have, of \<^verbatim>\<open>name,speed,flow\<close>; an error is \<open>Some None\<close>.\<close>

definition parse_serial :: "(nat \<Rightarrow> bool) \<Rightarrow> u8 list \<Rightarrow> serial_params option option" where
  "parse_serial malloc s =
     (case strchr s 0x2C of
        None \<Rightarrow> Some None
      | Some c \<Rightarrow>
          let temps = l_strndup malloc s c; s1 = drop (c + 1) s in
          case strchr s1 0x2C of
            None \<Rightarrow> Some None
          | Some c2 \<Rightarrow>
              do { tempb \<leftarrow> l_strndup malloc s1 c2;
                   let f = drop (c2 + 1) s1;
                   Some (case secure_atoi tempb of
                           None \<Rightarrow> None
                         | Some speed \<Rightarrow>
                             if f = map of_char ''none'' then Some \<lparr>sp_name = temps, sp_speed = speed, sp_flow = SER_FLOW_NONE\<rparr>
                             else if f = map of_char ''rtscts'' then Some \<lparr>sp_name = temps, sp_speed = speed, sp_flow = SER_FLOW_RTSCTS\<rparr>
                             else None) })"

section \<open>The file system server\<close>

text \<open>The PC: its ports, sockets and directories, and whether \<^verbatim>\<open>malloc\<close> succeeds.\<close>

record 's pc =
  pc_tty :: "'s tty"
  pc_net :: "'s net"
  pc_termios :: termios_consts
  pc_isdir :: "u8 list \<Rightarrow> 's \<Rightarrow> bool"
  pc_malloc :: "nat \<Rightarrow> bool"

definition ser_server_init :: "'s pc \<Rightarrow> u8 list \<Rightarrow> int \<Rightarrow> ser_flow \<Rightarrow> 's \<Rightarrow> (int option \<times> 's) option" where
  "ser_server_init pc portname serspeed flow w =
     (case ser_open (pc_tty pc) portname w of (ser, w1) \<Rightarrow>
        if ser = SER_HANDLER_INVALID then Some (None, w1)
        else do { w2 \<leftarrow> flush_serial (pc_tty pc) ser (ser_setup (pc_termios pc) (pc_tty pc) ser (word_of_int serspeed) 8 SER_PARITY_NONE SER_STOPBITS_1 flow w1);
                  Some (Some ser, w2) })"

text \<open>Without a socket it reports success and the socket stays invalid.\<close>

definition udp_server_init :: "'s net \<Rightarrow> int \<Rightarrow> 's \<Rightarrow> int option \<times> 's" where
  "udp_server_init n server_port w =
     (case sk_socket n w of (s, w1) \<Rightarrow>
        if s = -1 then (Some (-1), w1)
        else (case sk_bind n s (word_of_int server_port) w1 of (r, w2) \<Rightarrow> if r < 0 then (None, w2) else (Some s, w2)))"

datatype rfs_choice = SER_TRANSPORT int | UDP_TRANSPORT int | MEM_TRANSPORT

definition parse_transport_and_init :: "'s pc \<Rightarrow> u8 list \<Rightarrow> 's \<Rightarrow> (rfs_choice option \<times> 's) option" where
  "parse_transport_and_init pc s w =
     (if take 4 s = map of_char ''ser:'' then
        do { p \<leftarrow> parse_serial (pc_malloc pc) (drop 4 s);
             case p of
               None \<Rightarrow> Some (None, w)
             | Some sp \<Rightarrow> do { temps \<leftarrow> sp_name sp;
                              (r, w1) \<leftarrow> ser_server_init pc temps (sp_speed sp) (sp_flow sp) w;
                              Some (map_option SER_TRANSPORT r, w1) } }
      else if take 4 s = map of_char ''udp:'' then
        (case secure_atoi (drop 4 s) of
           None \<Rightarrow> Some (None, w)
         | Some port \<Rightarrow> (case udp_server_init (pc_net pc) port w of (r, w1) \<Rightarrow> Some (map_option UDP_TRANSPORT r, w1)))
      else if s = map of_char ''mem'' then Some (Some MEM_TRANSPORT, w)
      else Some (None, w))"

text \<open>The result is the transport and the directory, or an error.\<close>

definition rfs_init :: "'s pc \<Rightarrow> u8 list list \<Rightarrow> 's \<Rightarrow> ((rfs_choice \<times> u8 list) option \<times> 's) option" where
  "rfs_init pc argv w =
     (if length argv < 3 then Some (None, w)
      else if \<not> pc_isdir pc (argv ! 2) w then Some (None, w)
      else do { (tr, w1) \<leftarrow> parse_transport_and_init pc (argv ! 1) w;
                Some (map_option (\<lambda>tr. (tr, argv ! 2)) tr, w1) })"

abbreviation "MAX_PACKET_SIZE \<equiv> (4096 :: nat)"
abbreviation "ELUARPC_WRITE_REQUEST_EXTRA \<equiv> (29 :: nat)"

text \<open>The program up to the end of a round: it ends with 1 or goes on.\<close>

definition rfs_main :: "libc_flags \<Rightarrow> 'w posix \<Rightarrow> 's pc \<Rightarrow> u8 list list \<Rightarrow> nat \<Rightarrow> 's \<times> 'w \<Rightarrow> (packet_buf \<times> 's \<times> 'w) option option" where
  "rfs_main lib px pc argv n sw =
     (let b = replicate (MAX_PACKET_SIZE + ELUARPC_WRITE_REQUEST_EXTRA) 0 in
      do { (r, s1) \<leftarrow> rfs_init pc argv (fst sw);
           case r of
             None \<Rightarrow> Some None
           | Some (MEM_TRANSPORT, dir) \<Rightarrow> Some None
           | Some (SER_TRANSPORT ser, dir) \<Rightarrow> map_option Some (rfs_server_rounds lib px dir (ser_transport_data (pc_tty pc) ser) n (b, s1, snd sw))
           | Some (UDP_TRANSPORT s, dir) \<Rightarrow> map_option Some (rfs_server_rounds lib px dir (udp_transport_data (pc_net pc) s) n (b, s1, snd sw)) })"

section \<open>The multiplexer\<close>

definition parse_transport :: "(nat \<Rightarrow> bool) \<Rightarrow> u8 list \<Rightarrow> serial_params option option" where
  "parse_transport malloc s = parse_serial malloc s"

definition transport_ser_init :: "'s pc \<Rightarrow> serial_params \<Rightarrow> 's \<Rightarrow> (int option \<times> 's) option" where
  "transport_ser_init pc pser w =
     do { pname \<leftarrow> sp_name pser;
          (case ser_open (pc_tty pc) pname w of (fd, w1) \<Rightarrow>
             if fd = -1 then Some (None, w1)
             else do { w2 \<leftarrow> flush_serial (pc_tty pc) fd (ser_setup (pc_termios pc) (pc_tty pc) fd (word_of_int (sp_speed pser)) 8 SER_PARITY_NONE SER_STOPBITS_1 (sp_flow pser) w1);
                       Some (Some fd, w2) }) }"

fun open_services :: "'s pc \<Rightarrow> u32 \<Rightarrow> u8 list list \<Rightarrow> 's \<Rightarrow> int list option \<times> 's" where
  "open_services pc speed [] w = (Some [], w)"
| "open_services pc speed (name # names) w =
     (case ser_open (pc_tty pc) name w of (fd, w1) \<Rightarrow>
        if fd = SER_HANDLER_INVALID then (None, w1)
        else let w2 = ser_setup (pc_termios pc) (pc_tty pc) fd speed 8 SER_PARITY_NONE SER_STOPBITS_1 SER_FLOW_NONE w1 in
          case open_services pc speed names w2 of (fds, w3) \<Rightarrow> (map_option (Cons fd) fds, w3))"

text \<open>The directory of the combined mode, NULL in the other one.\<close>

definition mux_mode :: "u8 list \<Rightarrow> u8 list option option" where
  "mux_mode arg =
     (if arg = map of_char ''mux'' then Some None
      else if take 7 arg = map of_char ''rfsmux:'' then Some (Some (drop 7 arg))
      else None)"

text \<open>The number of the last port argument.\<close>

definition mux_last_arg :: "u8 list list \<Rightarrow> nat" where
  "mux_last_arg argv = (let i = length argv - 1 in if strcasecmp_eq (argv ! i) (map of_char ''-v'') then i - 1 else i)"

abbreviation "FIRST_SERVICE_IDX \<equiv> (3 :: nat)"
abbreviation "SERMUX_SERVICE_MAX \<equiv> (8 :: nat)"

definition mux_ready :: "u8 list option \<Rightarrow> nat \<Rightarrow> 'w \<Rightarrow> 'w mux_state" where
  "mux_ready dir vport_num w =
     \<lparr>mux_service_id_in = -1, mux_service_id_out = -1, mux_prev_sent = -1, mux_got_esc = False,
      mux_rfs_service_id = (if dir = None then -1 else int SERMUX_SERVICE_ID_FIRST), mux_service_offset = (if dir = None then 0 else 1),
      mux_ports = replicate vport_num [], mux_sent = [], mux_rfs_out = [],
      mux_rfs = (rfs_mem_start_request \<lparr>mem_read_len = 0, mem_expected_len = 0, mem_read_state = MEM_STATE_READ_LENGTH, mem_response_flag = False,
                   rfs_buffer = replicate (MAX_PACKET_SIZE + ELUARPC_WRITE_REQUEST_EXTRA) 0\<rparr>, w)\<rparr>"

text \<open>The program up to its loop: the handles of the ports, that of the transport first, the directory of the file system and the state.\<close>

definition mux_start :: "'s pc \<Rightarrow> u8 list list \<Rightarrow> 's \<times> 'w \<Rightarrow> (int list \<times> u8 list option \<times> 'w mux_state) mux_run" where
  "mux_start pc argv sw =
     (if length argv < 4 then Exited
      else case mux_mode (argv ! 1) of None \<Rightarrow> Exited | Some dir \<Rightarrow>
        let n = mux_last_arg argv + 1 - FIRST_SERVICE_IDX in
        if n > SERMUX_SERVICE_MAX then Exited
        else case parse_transport (pc_malloc pc) (argv ! 2) of
          None \<Rightarrow> Corrupt
        | Some None \<Rightarrow> Exited
        | Some (Some pser) \<Rightarrow>
            (case transport_ser_init pc pser (fst sw) of
               None \<Rightarrow> Corrupt
             | Some (None, s1) \<Rightarrow> Exited
             | Some (Some hnd, s1) \<Rightarrow>
                 if \<not> pc_malloc pc (16 * n) \<or> \<not> pc_malloc pc (4 * (n + 1)) then Exited
                 else case open_services pc (word_of_int (sp_speed pser)) (take n (drop FIRST_SERVICE_IDX argv)) s1 of
                   (None, s2) \<Rightarrow> Exited
                 | (Some fds, s2) \<Rightarrow>
                     (case dir of
                        None \<Rightarrow> Running (hnd # fds, dir, mux_ready dir n (snd sw))
                      | Some d \<Rightarrow>
                          (case rfs_init pc [map of_char ''dummy'', map of_char ''mem'', d] s2 of
                             None \<Rightarrow> Corrupt
                           | Some (None, s3) \<Rightarrow> Exited
                           | Some (Some (tr, basedir), s3) \<Rightarrow> Running (hnd # fds, Some basedir, mux_ready dir n (snd sw))))))"


section \<open>Command lines\<close>

fun decimal_nat :: "nat \<Rightarrow> u8 list" where
  "decimal_nat n = (if n < 10 then [] else decimal_nat (n div 10)) @ [of_nat (48 + n mod 10)]"

declare decimal_nat.simps [simp del]

definition decimal :: "int \<Rightarrow> u8 list" where
  "decimal v = (if v < 0 then 0x2D # decimal_nat (nat (- v)) else decimal_nat (nat v))"

lemma digits_value_append: "digits_value (xs @ ys) v = digits_value ys (digits_value xs v)"
  by (induction xs arbitrary: v) simp_all

lemma digit_bounds: "n < 10 \<Longrightarrow> uint (of_nat (48 + n) :: u8) = 48 + int n"
  by (simp add: uint_nat unat_of_nat take_bit_nat_eq_self del: of_nat_add)

lemma is_digit_of_nat: "n < 10 \<Longrightarrow> is_digit (of_nat (48 + n))"
  using digit_bounds [of n] by (simp add: is_digit_def word_le_def)

lemma decimal_nat_digits: "\<forall>c \<in> set (decimal_nat n). is_digit c"
proof (induction n rule: decimal_nat.induct)
  case (1 n)
  then show ?case by (subst decimal_nat.simps) (auto simp: is_digit_of_nat simp del: of_nat_add)
qed

lemma decimal_nat_not_empty: "decimal_nat n \<noteq> []"
  by (subst decimal_nat.simps) simp

lemma decimal_nat_value: "digits_value (decimal_nat n) 0 = int n"
proof (induction n rule: decimal_nat.induct)
  case (1 n)
  have d: "uint (of_nat (48 + n mod 10) :: u8) = 48 + int (n mod 10)" by (rule digit_bounds) simp
  show ?case
  proof (cases "n < 10")
    case True
    then show ?thesis using d by (subst decimal_nat.simps) (simp del: of_nat_add)
  next
    case False
    then show ?thesis using d 1 by (subst decimal_nat.simps) (simp add: digits_value_append zdiv_int zmod_int del: of_nat_add)
  qed
qed

lemma decimal_strtol:
  assumes "LONG_MIN \<le> v" "v \<le> LONG_MAX"
  shows "strtol (decimal v) = (v, False, length (decimal v))"
proof -
  obtain d ds where d: "decimal_nat (nat \<bar>v\<bar>) = d # ds" by (meson decimal_nat_not_empty list.exhaust)
  have dig: "is_digit d" "\<forall>c \<in> set (d # ds). is_digit c" using decimal_nat_digits [of "nat \<bar>v\<bar>"] by (simp_all add: d)
  then have not: "\<not> is_space d" "d \<noteq> 0x2D" "d \<noteq> 0x2B" "\<not> is_space 0x2D" by (auto simp: is_digit_def is_space_def word_le_nat_alt)
  have all: "takeWhile is_digit (d # ds) = d # ds" using dig(2) by (simp add: takeWhile_eq_all_conv)
  have val: "digits_value (d # ds) 0 = \<bar>v\<bar>" using decimal_nat_value [of "nat \<bar>v\<bar>"] by (simp add: d)
  show ?thesis
  proof (cases "v < 0")
    case True
    then have dec: "decimal v = 0x2D # d # ds" using d by (simp add: decimal_def)
    show ?thesis unfolding strtol_def dec using not True assms by (simp add: Let_def all val del: takeWhile.simps(2) digits_value.simps)
  next
    case False
    then have dec: "decimal v = d # ds" using d by (simp add: decimal_def)
    show ?thesis unfolding strtol_def dec using not False assms by (simp add: Let_def all val del: takeWhile.simps(2) digits_value.simps)
  qed
qed

lemma secure_atoi_decimal: "INT_MIN \<le> v \<Longrightarrow> v \<le> INT_MAX \<Longrightarrow> secure_atoi (decimal v) = Some v"
  using decimal_nat_not_empty by (simp add: secure_atoi_def decimal_strtol) (simp add: decimal_def)

lemma strchr_here: "c \<notin> set xs \<Longrightarrow> strchr (xs @ c # ys) c = Some (length xs)"
proof -
  assume "c \<notin> set xs"
  then have "takeWhile (\<lambda>x. x \<noteq> c) xs = xs" by (auto simp: takeWhile_eq_all_conv)
  then show ?thesis by (simp add: strchr_def takeWhile_tail)
qed

lemma decimal_no_comma: "0x2C \<notin> set (decimal v)"
proof -
  have "\<not> is_digit 0x2C" by (simp add: is_digit_def)
  then show ?thesis using decimal_nat_digits by (auto simp: decimal_def)
qed

text \<open>The text that stands for a flow control.\<close>

definition flow_text :: "ser_flow \<Rightarrow> u8 list" where
  "flow_text f = (case f of SER_FLOW_NONE \<Rightarrow> map of_char ''none'' | SER_FLOW_RTSCTS \<Rightarrow> map of_char ''rtscts'')"

lemma flow_text_inj: "flow_text f = map of_char ''none'' \<longleftrightarrow> f = SER_FLOW_NONE" "flow_text f = map of_char ''rtscts'' \<longleftrightarrow> f = SER_FLOW_RTSCTS"
  by (simp_all add: flow_text_def split: ser_flow.splits)

section \<open>The state at the start of the loop\<close>

lemma open_services_valid:
  "open_services pc speed names w = (Some fds, w') \<Longrightarrow> length fds = length names \<and> -1 \<notin> set fds"
  by (induction names arbitrary: w fds w') (auto split: prod.splits if_splits simp: Let_def)

lemma mux_ready_inv:
  "length (mux_ports (mux_ready dir n w)) = n" "host_rx_inv (if dir = None then 0 else 1) n (mux_ready dir n w)"
  "mem_ready (fst (mux_rfs (mux_ready dir n w)))"
  by (simp_all add: mux_ready_def host_rx_inv_def mem_ready_def rfs_mem_start_request_def)


lemma mux_last_arg_le: "4 \<le> length argv \<Longrightarrow> mux_last_arg argv + 1 \<le> length argv"
  by (auto simp: mux_last_arg_def Let_def)

lemma mux_start_Running:
  assumes "mux_start pc argv sw = Running (handlers, dir, s)"
  obtains hnd fds dir0 names speed s1 s2 where "handlers = hnd # fds" "s = mux_ready dir0 (length names) (snd sw)" "dir0 = None \<longleftrightarrow> dir = None"
    "hnd \<noteq> -1" "open_services pc speed names s1 = (Some fds, s2)" "length names = mux_last_arg argv - 2" "length names \<le> 8"
proof -
  define n where "n = mux_last_arg argv + 1 - FIRST_SERVICE_IDX"
  note start = assms [unfolded mux_start_def Let_def, folded n_def]
  from start have 4: "4 \<le> length argv" by (auto split: if_splits)
  from mux_last_arg_le [OF this] have len: "length (take n (drop FIRST_SERVICE_IDX argv)) = n" by (simp add: n_def)
  have valid: "hnd \<noteq> -1" if "transport_ser_init pc pser w = Some (Some hnd, w')" for pser w hnd w'
    using that by (auto simp: transport_ser_init_def split: bind_splits if_splits prod.splits)
  from start obtain hnd fds dir0 speed s1 s2 where "handlers = hnd # fds" "s = mux_ready dir0 n (snd sw)" "dir0 = None \<longleftrightarrow> dir = None"
    "hnd \<noteq> -1" "open_services pc speed (take n (drop FIRST_SERVICE_IDX argv)) s1 = (Some fds, s2)" "n \<le> 8"
    by (auto split: if_splits option.splits prod.splits mux_run.splits dest: valid)
  then show thesis using that [of hnd fds dir0 "take n (drop FIRST_SERVICE_IDX argv)" speed s1 s2] len by (simp add: n_def)
qed

section \<open>Properties\<close>

text \<open>The transport parameter of both programs: a name, a speed and a flow control, written with commas between them, are read back as
  they are, for every name without a comma, every 32-bit speed and both kinds of flow control.\<close>

theorem serial_syntax_roundtrip:
  assumes "0x2C \<notin> set name" and "INT_MIN \<le> speed" "speed \<le> INT_MAX" and "\<And>n. malloc n"
  shows "parse_serial malloc (name @ 0x2C # decimal speed @ 0x2C # flow_text f) = Some (Some \<lparr>sp_name = Some name, sp_speed = speed, sp_flow = f\<rparr>)"
proof -
  have "strchr (name @ 0x2C # decimal speed @ 0x2C # flow_text f) 0x2C = Some (length name)" using assms(1) by (rule strchr_here)
  moreover have "strchr (decimal speed @ 0x2C # flow_text f) 0x2C = Some (length (decimal speed))" by (rule strchr_here [OF decimal_no_comma])
  ultimately show ?thesis using assms secure_atoi_decimal [OF assms(2,3)]
    by (cases f) (simp_all add: parse_serial_def l_strndup_def Let_def flow_text_def)
qed

text \<open>C27: When the multiplexer enters its loop, it has opened the transport and at most eight ports, all with valid handles, the receiver is in
  the state that the theorems about the links need, with the ports in the order of the arguments, and the file system server waits for a request.\<close>

theorem mux_start_ready:
  assumes "mux_start pc argv sw = Running (handlers, dir, s)"
  shows "length handlers = length (mux_ports s) + 1 \<and> -1 \<notin> set handlers \<and> length (mux_ports s) = mux_last_arg argv - 2 \<and> length (mux_ports s) \<le> 8
    \<and> host_rx_inv (if dir = None then 0 else 1) (length (mux_ports s)) s
    \<and> mux_service_id_in s = -1 \<and> mux_service_id_out s = -1 \<and> \<not> mux_got_esc s \<and> mux_rfs_out s = [] \<and> mux_sent s = []
    \<and> mem_ready (fst (mux_rfs s)) \<and> length (rfs_buffer (fst (mux_rfs s))) = MAX_PACKET_SIZE + ELUARPC_WRITE_REQUEST_EXTRA
    \<and> snd (mux_rfs s) = snd sw"
proof -
  obtain hnd fds dir0 names speed s1 s2 where st: "handlers = hnd # fds" "s = mux_ready dir0 (length names) (snd sw)" "dir0 = None \<longleftrightarrow> dir = None"
    "hnd \<noteq> -1" "open_services pc speed names s1 = (Some fds, s2)" "length names = mux_last_arg argv - 2" "length names \<le> 8"
    using assms by (rule mux_start_Running)
  have "length fds = length names" "-1 \<notin> set fds" using open_services_valid [OF st(5)] by simp_all
  then show ?thesis using st mux_ready_inv [of dir0 "length names" "snd sw"]
    by (simp add: mux_ready_def rfs_mem_start_request_def)
qed

text \<open>The number of ports is tested without the service that the file system takes: an eighth port gets the id after the last one, which
  is not a service id, so the receiver takes it for data.\<close>

lemma mux_eighth_port:
  assumes "\<not> mux_reserved c"
  shows "\<exists>s. mux_loop lib px basedir [Some (8, c)] (mux_ready (Some d) 8 w) = Running s \<and> mux_sent s = [0xD8, c] \<and> \<not> mux_reserved 0xD8"
proof -
  have out: "mux_rfs_out (mux_ready (Some d) 8 w) = []" by (simp add: mux_ready_def)
  let ?s = "mux_send (SERMUX_SERVICE_ID_FIRST + 7 + 1) c (mux_ready (Some d) 8 w)"
  have "mux_loop lib px basedir [Some (Suc 7, c)] (mux_ready (Some d) 8 w) = Running ?s"
    unfolding mux_loop_steps(5) [OF out] using out by (subst mux_loop_steps(2)) (simp_all add: mux_ready_def)
  moreover have "mux_sent ?s = [0xD8, c]"
    using assms by (simp add: mux_send_spec(1) mux_encode_def mux_frame_def mux_ready_def)
  ultimately show ?thesis by (intro exI [of _ ?s]) (simp add: mux_reserved_cases)
qed

section \<open>Instances\<close>

definition example_pc :: "example_line pc" where
  "example_pc = \<lparr>pc_tty = example_tty, pc_net = \<lparr>sk_socket = (\<lambda>w. (4, w)), sk_bind = (\<lambda>_ _ w. (0, w)), sk_select = (\<lambda>_ _ w. (0, w)),
       sk_recvfrom = (\<lambda>_ _ w. ((0, []), w)), sk_sendto = (\<lambda>_ _ w. (0, w))\<rparr>,
     pc_termios = \<lparr>CSTOPB = 64, PARENB = 256, PARODD = 512, CLOCAL = 2048, CREAD = 128, CSIZE = 48, CRTSCTS = 0x80000000, IXON = 1024,
       IXOFF = 4096, IXANY = 2048, IGNBRK = 1, INLCR = 64, ICRNL = 256, IGNCR = 128, ICANON = 2, ECHO = 8, ECHOE = 16, ISIG = 1, OPOST = 1,
       INPCK = 16, ISTRIP = 32, CSn = (\<lambda>n. of_nat (16 * (n - 5))), Bn = of_nat\<rparr>,
     pc_isdir = (\<lambda>_ _. True), pc_malloc = (\<lambda>_. True)\<rparr>"

definition example_argv :: "u8 list list" where
  "example_argv = [map of_char ''mux'', map of_char ''rfsmux:d'', map of_char ''t,9600,none'', map of_char ''p'']"

theorem serial_syntax_roundtrip_witness:
  "parse_serial (\<lambda>_. True) (map of_char ''t'' @ 0x2C # decimal 9600 @ 0x2C # flow_text SER_FLOW_RTSCTS)
    = Some (Some \<lparr>sp_name = Some (map of_char ''t''), sp_speed = 9600, sp_flow = SER_FLOW_RTSCTS\<rparr>)"
  by (rule serial_syntax_roundtrip) simp_all

lemma example_start: "\<exists>s. mux_start example_pc example_argv (([], [], []), ()) = Running ([3, 3], Some (map of_char ''d''), s)"
proof -
  have args: "parse_transport (\<lambda>_. True) (example_argv ! 2) = Some (Some \<lparr>sp_name = Some (map of_char ''t''), sp_speed = 9600, sp_flow = SER_FLOW_NONE\<rparr>)"
    by (simp add: example_argv_def parse_transport_def parse_serial_def strchr_def l_strndup_def secure_atoi_def strtol_def is_space_def is_digit_def Let_def)
  have flush: "flush_serial example_tty 3 ([], [], []) = Some ([], [], [])"
    using ser_read_byte_empty [OF example_tty_ok, of "([], [], [])"] by (subst flush_serial.simps) simp
  have init: "transport_ser_init example_pc \<lparr>sp_name = Some (map of_char ''t''), sp_speed = 9600, sp_flow = SER_FLOW_NONE\<rparr> ([], [], []) = Some (Some 3, [], [], [])"
    using flush by (simp add: transport_ser_init_def example_pc_def ser_open_def ser_setup_def example_tty_def)
  have port: "open_services example_pc speed [name] ([], [], []) = (Some [3], [], [], [])" for speed name
    by (simp add: example_pc_def ser_open_def ser_setup_def example_tty_def Let_def)
  have last: "mux_last_arg example_argv = 3" "length example_argv = 4" "drop 3 example_argv = [map of_char ''p'']"
    by (simp_all add: mux_last_arg_def example_argv_def strcasecmp_eq_def Let_def)
  have mode: "mux_mode (example_argv ! 1) = Some (Some (map of_char ''d''))" by (simp add: mux_mode_def example_argv_def)
  have rfs: "rfs_init example_pc [map of_char ''dummy'', map of_char ''mem'', map of_char ''d''] s = Some (Some (MEM_TRANSPORT, map of_char ''d''), s)" for s
    by (simp add: rfs_init_def parse_transport_and_init_def example_pc_def)
  have malloc: "pc_malloc example_pc = (\<lambda>_. True)" by (simp add: example_pc_def)
  show ?thesis unfolding mux_start_def Let_def last mode malloc args by (simp add: init [simplified] port rfs [simplified] del: open_services.simps)
qed

theorem mux_start_ready_witness:
  "\<exists>s. mux_start example_pc example_argv (([], [], []), ()) = Running ([3, 3], Some (map of_char ''d''), s) \<and> host_rx_inv 1 1 s"
proof -
  obtain s where s: "mux_start example_pc example_argv (([], [], []), ()) = Running ([3, 3], Some (map of_char ''d''), s)"
    using example_start by blast
  then show ?thesis using mux_start_ready [OF s] by auto
qed

end
