(* ===== verification/Uip_Tcp.thy ===== *)
theory Uip_Tcp
  imports Elua_Prelude "HOL-Library.Monad_Syntax"
begin

text \<open>
  The TCP side of uIP as eLua ships it (\<^verbatim>\<open>src/uip/uip.c\<close>, with the reserved connections and the forced poll that eLua added): what
  \<^verbatim>\<open>uip_process\<close> does with the periodic timer and with a TCP segment, connection by connection, and the tables of connections and of
  listening ports. The application (\<^verbatim>\<open>UIP_APPCALL\<close>) is an argument of the definitions. A segment is a record of the fields that the code
  reads; the checks of the IP header and of the check sums, urgent data and the counters of statistics are left out. \<^const>\<open>None\<close> is an
  access outside the packet buffer, or a loop that does not end.
\<close>

section \<open>Connections, segments and the state the application sees\<close>

datatype tcp_state = UIP_CLOSED | UIP_SYN_RCVD | UIP_SYN_SENT | UIP_ESTABLISHED | UIP_FIN_WAIT_1 | UIP_FIN_WAIT_2
  | UIP_CLOSING | UIP_TIME_WAIT | UIP_LAST_ACK | UIP_RESERVED

datatype uip_flag = UIP_ACKDATA | UIP_NEWDATA | UIP_REXMIT | UIP_POLL | UIP_CLOSE | UIP_ABORT | UIP_CONNECTED | UIP_TIMEDOUT

datatype tcp_flag = TCP_FIN | TCP_SYN | TCP_RST | TCP_PSH | TCP_ACK

type_synonym uip_ipaddr = "u16 \<times> u16"

record uip_conf =
  UIP_CONNS :: nat
  UIP_LISTENPORTS :: nat
  UIP_TCP_MSS :: u16
  UIP_RECEIVE_WINDOW :: u16
  UIP_LITTLE_ENDIAN :: bool
  BUILD_CON_TCP :: bool
  CHAR_SIGNED :: bool

abbreviation "UIP_RTO \<equiv> (3 :: u8)"
abbreviation "UIP_MAXRTX \<equiv> (8 :: u8)"
abbreviation "UIP_MAXSYNRTX \<equiv> (5 :: u8)"
abbreviation "UIP_TIME_WAIT_TIMEOUT \<equiv> (120 :: u8)"

text \<open>\<^verbatim>\<open>struct uip_conn\<close>: \<^verbatim>\<open>tcpstateflags\<close> is a state and the bit \<^verbatim>\<open>UIP_STOPPED\<close>. The state of the application, which C keeps inside the
  structure, is that of the argument \<open>app\<close>.\<close>

record uip_conn =
  ripaddr :: uip_ipaddr
  lport :: u16
  rport :: u16
  rcv_nxt :: u32
  snd_nxt :: u32
  conn_len :: u16
  mss :: u16
  initialmss :: u16
  sa :: u8
  sv :: u8
  rto :: u8
  tcpstate :: tcp_state
  stopped :: bool
  rtimer :: u8
  nrtx :: u8

definition set_state :: "tcp_state \<Rightarrow> uip_conn \<Rightarrow> uip_conn" where
  "set_state st c = c\<lparr>tcpstate := st, stopped := False\<rparr>"

definition is_flags :: "uip_conn \<Rightarrow> tcp_state \<Rightarrow> bool" where
  "is_flags c st \<longleftrightarrow> tcpstate c = st \<and> \<not> stopped c"

definition uip_outstanding :: "uip_conn \<Rightarrow> bool" where
  "uip_outstanding c \<longleftrightarrow> conn_len c \<noteq> 0"

definition uip_conn_active :: "uip_conn \<Rightarrow> bool" where
  "uip_conn_active c \<longleftrightarrow> \<not> is_flags c UIP_CLOSED \<and> \<not> is_flags c UIP_RESERVED"

text \<open>A segment; the address is that of the other side. Its data follow its options in the packet.\<close>

record tcp_seg =
  seg_ip :: uip_ipaddr
  sport :: u16
  dport :: u16
  seqno :: u32
  ackno :: u32
  seg_flags :: "tcp_flag set"
  wnd :: u16
  seg_opts :: "u8 list"
  seg_data :: "u8 list"

text \<open>What one run of \<^verbatim>\<open>uip_process\<close> works on: the current connection (\<^verbatim>\<open>uip_conn\<close>), its place in the table, \<^verbatim>\<open>uip_flags\<close>, \<^verbatim>\<open>uip_len\<close> (the length
  of the data, \<^verbatim>\<open>uip_datalen\<close>), \<^verbatim>\<open>uip_slen\<close>, the packet buffer from \<^verbatim>\<open>uip_appdata\<close> on, and the state of the application.\<close>

record 'a uip_work =
  uc :: uip_conn
  sock :: nat
  uflags :: "uip_flag set"
  ulen :: u16
  uslen :: u16
  appbuf :: "u8 list"
  app :: 'a

type_synonym 'a uip_app = "'a uip_work \<Rightarrow> 'a uip_work option"

section \<open>The calls of the application\<close>

definition uip_stop :: "'a uip_work \<Rightarrow> 'a uip_work" where
  "uip_stop w = w\<lparr>uc := (uc w)\<lparr>stopped := True\<rparr>\<rparr>"

definition uip_restart :: "'a uip_work \<Rightarrow> 'a uip_work" where
  "uip_restart w = w\<lparr>uflags := insert UIP_NEWDATA (uflags w), uc := (uc w)\<lparr>stopped := False\<rparr>\<rparr>"

definition uip_close :: "'a uip_work \<Rightarrow> 'a uip_work" where
  "uip_close w = w\<lparr>uflags := {UIP_CLOSE}\<rparr>"

definition uip_send :: "u8 list \<Rightarrow> 'a uip_work \<Rightarrow> 'a uip_work option" where
  "uip_send data w =
     (if data = [] then Some w
      else do {
        b \<leftarrow> blit (appbuf w) 0 data;
        Some (w\<lparr>uslen := of_nat (length data), appbuf := b\<rparr>)
      })"

definition htons :: "uip_conf \<Rightarrow> u16 \<Rightarrow> u16" where
  "htons cfg x = (if UIP_LITTLE_ENDIAN cfg then push_bit 8 x OR drop_bit 8 x else x)"

section \<open>Sending\<close>

type_synonym 'a uip_result = "('a uip_work \<times> tcp_seg option) option"

definition tcp_send :: "uip_conf \<Rightarrow> uip_conn \<Rightarrow> tcp_flag set \<Rightarrow> u8 list \<Rightarrow> u8 list \<Rightarrow> tcp_seg" where
  "tcp_send cfg c fl opts data =
     \<lparr>seg_ip = ripaddr c, sport = lport c, dport = rport c, seqno = snd_nxt c, ackno = rcv_nxt c, seg_flags = fl,
      wnd = (if stopped c then 0 else UIP_RECEIVE_WINDOW cfg), seg_opts = opts, seg_data = data\<rparr>"

definition send_nodata :: "uip_conf \<Rightarrow> tcp_flag set \<Rightarrow> 'a uip_work \<Rightarrow> 'a uip_result" where
  "send_nodata cfg fl w = Some (w\<lparr>uflags := {}\<rparr>, Some (tcp_send cfg (uc w) fl [] []))"

definition mss_option :: "uip_conf \<Rightarrow> u8 list" where
  "mss_option cfg = [2, 4, ucast (drop_bit 8 (UIP_TCP_MSS cfg)), ucast (UIP_TCP_MSS cfg)]"

definition send_syn :: "uip_conf \<Rightarrow> tcp_flag set \<Rightarrow> 'a uip_work \<Rightarrow> 'a uip_result" where
  "send_syn cfg fl w = Some (w\<lparr>uflags := {}\<rparr>, Some (tcp_send cfg (uc w) (insert TCP_SYN fl) (mss_option cfg) []))"

definition uip_drop :: "'a uip_work \<Rightarrow> 'a uip_result" where
  "uip_drop w = Some (w\<lparr>uflags := {}, ulen := 0\<rparr>, None)"

text \<open>A reset answers a segment without a connection: the numbers of the segment are exchanged.\<close>

definition reset_seg :: "tcp_seg \<Rightarrow> tcp_seg option" where
  "reset_seg g =
     (if TCP_RST \<in> seg_flags g then None
      else Some (g\<lparr>sport := dport g, dport := sport g, seqno := ackno g, ackno := seqno g + 1,
                   seg_flags := {TCP_RST, TCP_ACK}, seg_opts := [], seg_data := []\<rparr>))"

text \<open>The labels \<^verbatim>\<open>apprexmit\<close> and \<^verbatim>\<open>appsend\<close>: what is sent after the application ran.\<close>

definition apprexmit :: "uip_conf \<Rightarrow> 'a uip_work \<Rightarrow> 'a uip_result" where
  "apprexmit cfg w =
     (if uslen w > 0 \<and> conn_len (uc w) > 0 then do {
        data \<leftarrow> fetch (appbuf w) 0 (unat (conn_len (uc w)));
        Some (w\<lparr>uflags := {}\<rparr>, Some (tcp_send cfg (uc w) {TCP_ACK, TCP_PSH} [] data))
      }
      else if UIP_NEWDATA \<in> uflags w then send_nodata cfg {TCP_ACK} w
      else uip_drop w)"

definition take_slen :: "'a uip_work \<Rightarrow> 'a uip_work" where
  "take_slen w =
     (if uslen w > 0 then
        let l = (if UIP_ACKDATA \<in> uflags w then 0 else conn_len (uc w)) in
        if l = 0 then
          let n = (if uslen w > mss (uc w) then mss (uc w) else uslen w) in
          w\<lparr>uslen := n, uc := (uc w)\<lparr>conn_len := n\<rparr>\<rparr>
        else w\<lparr>uslen := l\<rparr>
      else w)"

definition appsend :: "uip_conf \<Rightarrow> 'a uip_work \<Rightarrow> 'a uip_result" where
  "appsend cfg w =
     (if UIP_ABORT \<in> uflags w then
        send_nodata cfg {TCP_RST, TCP_ACK} (w\<lparr>uslen := 0, uc := set_state UIP_CLOSED (uc w)\<rparr>)
      else if UIP_CLOSE \<in> uflags w then
        send_nodata cfg {TCP_FIN, TCP_ACK} (w\<lparr>uslen := 0, uc := (set_state UIP_FIN_WAIT_1 (uc w))\<lparr>conn_len := 1, nrtx := 0\<rparr>\<rparr>)
      else
        let w' = take_slen w in
        apprexmit cfg (w'\<lparr>uc := (uc w')\<lparr>nrtx := 0\<rparr>\<rparr>))"

section \<open>The periodic timer\<close>

definition uip_timeout :: "uip_conf \<Rightarrow> 'a uip_app \<Rightarrow> 'a uip_work \<Rightarrow> 'a uip_result" where
  "uip_timeout cfg appcall w =
     (let c = uc w in
      if nrtx c = UIP_MAXRTX \<or> (is_flags c UIP_SYN_SENT \<or> is_flags c UIP_SYN_RCVD) \<and> nrtx c = UIP_MAXSYNRTX then do {
        w \<leftarrow> appcall (w\<lparr>uc := set_state UIP_CLOSED c, uflags := {UIP_TIMEDOUT}\<rparr>);
        send_nodata cfg {TCP_RST, TCP_ACK} w
      }
      else
        let c = c\<lparr>rtimer := push_bit (if nrtx c > 4 then 4 else unat (nrtx c)) UIP_RTO, nrtx := nrtx c + 1\<rparr>; w = w\<lparr>uc := c\<rparr> in
        case tcpstate c of
          UIP_SYN_RCVD \<Rightarrow> send_syn cfg {TCP_ACK} w
        | UIP_SYN_SENT \<Rightarrow> send_syn cfg {} w
        | UIP_ESTABLISHED \<Rightarrow> do {
            w \<leftarrow> appcall (w\<lparr>uflags := {UIP_REXMIT}\<rparr>);
            apprexmit cfg w
          }
        | UIP_FIN_WAIT_1 \<Rightarrow> send_nodata cfg {TCP_FIN, TCP_ACK} w
        | UIP_CLOSING \<Rightarrow> send_nodata cfg {TCP_FIN, TCP_ACK} w
        | UIP_LAST_ACK \<Rightarrow> send_nodata cfg {TCP_FIN, TCP_ACK} w
        | _ \<Rightarrow> uip_drop w)"

text \<open>\<^verbatim>\<open>uip_process( UIP_TIMER )\<close> on the current connection; a forced poll leaves the timers alone.\<close>

definition uip_timer :: "uip_conf \<Rightarrow> 'a uip_app \<Rightarrow> bool \<Rightarrow> 'a uip_work \<Rightarrow> 'a uip_result" where
  "uip_timer cfg appcall forced w0 =
     (let w = w0\<lparr>ulen := 0, uslen := 0\<rparr>; c = uc w in
      if \<not> forced \<and> (is_flags c UIP_TIME_WAIT \<or> is_flags c UIP_FIN_WAIT_2) then
        let c = c\<lparr>rtimer := rtimer c + 1\<rparr> in
        uip_drop (w\<lparr>uc := (if rtimer c = UIP_TIME_WAIT_TIMEOUT then set_state UIP_CLOSED c else c)\<rparr>)
      else if uip_conn_active c then
        if uip_outstanding c \<and> \<not> forced then
          let w = w\<lparr>uc := c\<lparr>rtimer := rtimer c - 1\<rparr>\<rparr> in
          if rtimer c = 0 then uip_timeout cfg appcall w else uip_drop w
        else if tcpstate c = UIP_ESTABLISHED then do {
          w \<leftarrow> appcall (w\<lparr>uflags := {UIP_POLL}\<rparr>);
          appsend cfg w
        }
        else uip_drop w
      else uip_drop w)"

section \<open>A segment for a connection\<close>

text \<open>The search for the MSS option: \<open>b\<close> is the packet from its options on, of which \<open>n\<close> bytes are options. The counter of the loop has
  eight bits, so the loop need not end.\<close>

definition byte_at :: "u8 list \<Rightarrow> nat \<Rightarrow> u8 option" where
  "byte_at b i = (if i < length b then Some (b ! i) else None)"

partial_function (option) find_mss :: "u8 list \<Rightarrow> nat \<Rightarrow> u8 \<Rightarrow> u16 option option" where
  "find_mss b n c =
     (if unat c < n then do {
        opt \<leftarrow> byte_at b (unat c);
        (if opt = 0 then Some None
         else if opt = 1 then find_mss b n (c + 1)
         else do {
           l \<leftarrow> byte_at b (unat c + 1);
           (if opt = 2 \<and> l = 4 then do {
              hi \<leftarrow> byte_at b (unat c + 2);
              lo \<leftarrow> byte_at b (unat c + 3);
              Some (Some (push_bit 8 (ucast hi) OR ucast lo))
            }
            else if l = 0 then Some None
            else find_mss b n (c + l))
         })
      }
      else Some None)"

definition set_mss :: "uip_conf \<Rightarrow> u8 list \<Rightarrow> nat \<Rightarrow> uip_conn \<Rightarrow> uip_conn option" where
  "set_mss cfg b n c = do {
     r \<leftarrow> find_mss b n 0;
     Some (case r of
       None \<Rightarrow> c
     | Some v \<Rightarrow> (let m = (if v > UIP_TCP_MSS cfg then UIP_TCP_MSS cfg else v) in c\<lparr>initialmss := m, mss := m\<rparr>))
   }"

text \<open>Van Jacobson's estimate of the round trip, in 8-bit arithmetic.\<close>

definition rtt_estimate :: "uip_conn \<Rightarrow> uip_conn" where
  "rtt_estimate c =
     (if nrtx c = 0 then
        let m = rto c - rtimer c;
            m = m - drop_bit 3 (sa c);
            a = sa c + m;
            m = (if m <s 0 then - m else m);
            m = m - drop_bit 2 (sv c);
            v = sv c + m in
        c\<lparr>sa := a, sv := v, rto := drop_bit 3 a + v\<rparr>
      else c)"

definition ack_outstanding :: "tcp_seg \<Rightarrow> 'a uip_work \<Rightarrow> 'a uip_work" where
  "ack_outstanding g w =
     (let c = uc w; next = snd_nxt c + ucast (conn_len c) in
      if TCP_ACK \<in> seg_flags g \<and> uip_outstanding c \<and> ackno g = next then
        let c = rtt_estimate (c\<lparr>snd_nxt := next\<rparr>) in
        w\<lparr>uc := c\<lparr>rtimer := rto c, conn_len := 0\<rparr>, uflags := {UIP_ACKDATA}\<rparr>
      else w)"

definition uip_add_rcv_nxt :: "u16 \<Rightarrow> uip_conn \<Rightarrow> uip_conn" where
  "uip_add_rcv_nxt n c = c\<lparr>rcv_nxt := rcv_nxt c + ucast n\<rparr>"

definition syn_rcvd_input :: "uip_conf \<Rightarrow> 'a uip_app \<Rightarrow> tcp_seg \<Rightarrow> 'a uip_work \<Rightarrow> 'a uip_result" where
  "syn_rcvd_input cfg appcall g w =
     (if UIP_ACKDATA \<in> uflags w then
        let c = (set_state UIP_ESTABLISHED (uc w))\<lparr>conn_len := 0\<rparr> in do {
        w \<leftarrow> appcall (if ulen w > 0
               then w\<lparr>uflags := {UIP_CONNECTED, UIP_NEWDATA}, uslen := 0, uc := uip_add_rcv_nxt (ulen w) c\<rparr>
               else w\<lparr>uflags := {UIP_CONNECTED}, uslen := 0, uc := c\<rparr>);
        appsend cfg w
      }
      else if seg_flags g = {TCP_SYN} then send_syn cfg {TCP_ACK} w
      else uip_drop w)"

definition syn_sent_input :: "uip_conf \<Rightarrow> 'a uip_app \<Rightarrow> tcp_seg \<Rightarrow> 'a uip_work \<Rightarrow> 'a uip_result" where
  "syn_sent_input cfg appcall g w =
     (if UIP_ACKDATA \<in> uflags w \<and> seg_flags g = {TCP_SYN, TCP_ACK} then do {
        c \<leftarrow> set_mss cfg (appbuf w) (length (seg_opts g)) (uc w);
        let c = (set_state UIP_ESTABLISHED c)\<lparr>rcv_nxt := seqno g + 1, conn_len := 0\<rparr>;
        w \<leftarrow> appcall (w\<lparr>uflags := {UIP_CONNECTED, UIP_NEWDATA}, ulen := 0, uslen := 0, uc := c\<rparr>);
        appsend cfg w
      }
      else do {
        w \<leftarrow> appcall (w\<lparr>uflags := {UIP_ABORT}\<rparr>);
        Some (w\<lparr>uc := set_state UIP_CLOSED (uc w), uflags := {}\<rparr>, reset_seg g)
      })"

definition established_input :: "uip_conf \<Rightarrow> 'a uip_app \<Rightarrow> tcp_seg \<Rightarrow> 'a uip_work \<Rightarrow> 'a uip_result" where
  "established_input cfg appcall g w =
     (if TCP_FIN \<in> seg_flags g \<and> \<not> stopped (uc w) then
        if uip_outstanding (uc w) then uip_drop w
        else do {
          w \<leftarrow> appcall (w\<lparr>uc := uip_add_rcv_nxt (1 + ulen w) (uc w),
                       uflags := uflags w \<union> {UIP_CLOSE} \<union> (if ulen w > 0 then {UIP_NEWDATA} else {})\<rparr>);
          send_nodata cfg {TCP_FIN, TCP_ACK} (w\<lparr>uc := (set_state UIP_LAST_ACK (uc w))\<lparr>conn_len := 1, nrtx := 0\<rparr>\<rparr>)
        }
      else
        let w = (if ulen w > 0 \<and> \<not> stopped (uc w)
                 then w\<lparr>uflags := insert UIP_NEWDATA (uflags w), uc := uip_add_rcv_nxt (ulen w) (uc w)\<rparr> else w);
            m = (if wnd g > initialmss (uc w) \<or> wnd g = 0 then initialmss (uc w) else wnd g);
            w = w\<lparr>uc := (uc w)\<lparr>mss := m\<rparr>\<rparr> in
        if UIP_NEWDATA \<in> uflags w \<or> UIP_ACKDATA \<in> uflags w then do {
          w \<leftarrow> appcall (w\<lparr>uslen := 0\<rparr>);
          appsend cfg w
        }
        else uip_drop w)"

definition closing_input :: "uip_conf \<Rightarrow> 'a uip_app \<Rightarrow> tcp_seg \<Rightarrow> 'a uip_work \<Rightarrow> 'a uip_result" where
  "closing_input cfg appcall g w =
     (let acked = UIP_ACKDATA \<in> uflags w; fin = TCP_FIN \<in> seg_flags g;
          c = (if ulen w > 0 then uip_add_rcv_nxt (ulen w) (uc w) else uc w) in
      case tcpstate (uc w) of
        UIP_LAST_ACK \<Rightarrow>
          if acked then do {
            w \<leftarrow> appcall (w\<lparr>uc := set_state UIP_CLOSED (uc w), uflags := {UIP_CLOSE}\<rparr>);
            uip_drop w
          }
          else uip_drop w
      | UIP_FIN_WAIT_1 \<Rightarrow>
          if fin then do {
            w \<leftarrow> appcall (w\<lparr>uc := uip_add_rcv_nxt 1 (if acked then (set_state UIP_TIME_WAIT c)\<lparr>rtimer := 0, conn_len := 0\<rparr> else set_state UIP_CLOSING c),
                         uflags := {UIP_CLOSE}\<rparr>);
            send_nodata cfg {TCP_ACK} w
          }
          else if acked then uip_drop (w\<lparr>uc := (set_state UIP_FIN_WAIT_2 c)\<lparr>conn_len := 0\<rparr>\<rparr>)
          else if ulen w > 0 then send_nodata cfg {TCP_ACK} (w\<lparr>uc := c\<rparr>)
          else uip_drop w
      | UIP_FIN_WAIT_2 \<Rightarrow>
          if fin then do {
            w \<leftarrow> appcall (w\<lparr>uc := uip_add_rcv_nxt 1 ((set_state UIP_TIME_WAIT c)\<lparr>rtimer := 0\<rparr>), uflags := {UIP_CLOSE}\<rparr>);
            send_nodata cfg {TCP_ACK} w
          }
          else if ulen w > 0 then send_nodata cfg {TCP_ACK} (w\<lparr>uc := c\<rparr>)
          else uip_drop w
      | UIP_TIME_WAIT \<Rightarrow> send_nodata cfg {TCP_ACK} w
      | UIP_CLOSING \<Rightarrow>
          if acked then uip_drop (w\<lparr>uc := (set_state UIP_TIME_WAIT (uc w))\<lparr>rtimer := 0\<rparr>\<rparr>) else uip_drop w
      | _ \<Rightarrow> uip_drop w)"

text \<open>The label \<^verbatim>\<open>found\<close>: a segment of the current connection, its options and data at \<^verbatim>\<open>uip_appdata\<close>.\<close>

definition expected_seg :: "tcp_seg \<Rightarrow> 'a uip_work \<Rightarrow> bool" where
  "expected_seg g w \<longleftrightarrow>
     tcpstate (uc w) = UIP_SYN_SENT \<and> seg_flags g = {TCP_SYN, TCP_ACK} \<or> tcpstate (uc w) = UIP_SYN_RCVD \<and> seg_flags g = {TCP_SYN}
     \<or> \<not> (ulen w > 0 \<or> TCP_SYN \<in> seg_flags g \<or> TCP_FIN \<in> seg_flags g) \<or> seqno g = rcv_nxt (uc w)"

definition uip_found :: "uip_conf \<Rightarrow> 'a uip_app \<Rightarrow> tcp_seg \<Rightarrow> 'a uip_work \<Rightarrow> 'a uip_result" where
  "uip_found cfg appcall g w0 =
     (if TCP_RST \<in> seg_flags g then do {
        w \<leftarrow> appcall (w0\<lparr>uc := set_state UIP_CLOSED (uc w0), uflags := {UIP_ABORT}\<rparr>);
        uip_drop w
      }
      else
        let w0 = w0\<lparr>uflags := {}, ulen := of_nat (length (seg_data g))\<rparr> in
        if \<not> expected_seg g w0 then send_nodata cfg {TCP_ACK} w0
        else
          let w = ack_outstanding g w0 in
          case tcpstate (uc w) of
            UIP_SYN_RCVD \<Rightarrow> syn_rcvd_input cfg appcall g w
          | UIP_SYN_SENT \<Rightarrow> syn_sent_input cfg appcall g w
          | UIP_ESTABLISHED \<Rightarrow> established_input cfg appcall g w
          | _ \<Rightarrow> closing_input cfg appcall g w)"

section \<open>The tables of uIP\<close>

record 'a uip =
  conns :: "uip_conn list"
  listenports :: "u16 list"
  lastport :: u16
  iss :: u32
  forced_poll :: bool
  ubuf :: "u8 list"
  uapp :: 'a

definition unused_conn :: uip_conn where
  "unused_conn = \<lparr>ripaddr = (0, 0), lport = 0, rport = 0, rcv_nxt = 0, snd_nxt = 0, conn_len = 0, mss = 0, initialmss = 0,
     sa = 0, sv = 0, rto = 0, tcpstate = UIP_CLOSED, stopped = False, rtimer = 0, nrtx = 0\<rparr>"

definition uip_init :: "uip_conf \<Rightarrow> 'a uip \<Rightarrow> 'a uip" where
  "uip_init cfg u = u\<lparr>listenports := replicate (UIP_LISTENPORTS cfg) 0, conns := map (set_state UIP_CLOSED) (conns u), lastport := 1024\<rparr>"

fun replace_first :: "'a \<Rightarrow> 'a \<Rightarrow> 'a list \<Rightarrow> 'a list" where
  "replace_first a b [] = []"
| "replace_first a b (x # xs) = (if x = a then b # xs else x # replace_first a b xs)"

definition uip_unlisten :: "u16 \<Rightarrow> 'a uip \<Rightarrow> 'a uip" where
  "uip_unlisten port u = u\<lparr>listenports := replace_first port 0 (listenports u)\<rparr>"

definition uip_listen :: "u16 \<Rightarrow> 'a uip \<Rightarrow> 'a uip" where
  "uip_listen port u = u\<lparr>listenports := replace_first 0 port (listenports u)\<rparr>"

definition next_port :: "u16 \<Rightarrow> u16" where
  "next_port p = (if p + 1 \<ge> 32000 then 4096 else p + 1)"

definition port_used :: "uip_conf \<Rightarrow> uip_conn list \<Rightarrow> u16 \<Rightarrow> bool" where
  "port_used cfg cs p \<longleftrightarrow> (\<exists>c \<in> set cs. uip_conn_active c \<and> lport c = htons cfg p)"

partial_function (option) uip_find_unused_port :: "uip_conf \<Rightarrow> uip_conn list \<Rightarrow> u16 \<Rightarrow> u16 option" where
  "uip_find_unused_port cfg cs p =
     (let p = next_port p in if port_used cfg cs p then uip_find_unused_port cfg cs p else Some p)"

definition uip_prepare_conn :: "uip_conf \<Rightarrow> u32 \<Rightarrow> u16 \<Rightarrow> uip_ipaddr \<Rightarrow> u16 \<Rightarrow> uip_conn \<Rightarrow> uip_conn" where
  "uip_prepare_conn cfg seq port ip rp c =
     (set_state UIP_SYN_SENT c)\<lparr>snd_nxt := seq, initialmss := UIP_TCP_MSS cfg, mss := UIP_TCP_MSS cfg, conn_len := 1, nrtx := 0,
        rtimer := 1, rto := UIP_RTO, sa := 0, sv := 16, lport := htons cfg port, rport := rp, ripaddr := ip\<rparr>"

text \<open>\<^verbatim>\<open>uip_connect_socket\<close>: the result is the connection, by its number, or NULL.\<close>

definition uip_connect_socket :: "uip_conf \<Rightarrow> nat \<Rightarrow> uip_ipaddr \<Rightarrow> u16 \<Rightarrow> 'a uip \<Rightarrow> (nat option \<times> 'a uip) option" where
  "uip_connect_socket cfg k ip port u =
     (if \<not> is_flags (conns u ! k) UIP_RESERVED then Some (None, u)
      else do {
        p \<leftarrow> uip_find_unused_port cfg (conns u) (lastport u);
        Some (Some k, u\<lparr>lastport := p, conns := (conns u)[k := uip_prepare_conn cfg (iss u) p ip port (conns u ! k)]\<rparr>)
      })"

text \<open>One run of \<^verbatim>\<open>uip_process\<close> on connection \<open>k\<close>.\<close>

definition on_conn :: "nat \<Rightarrow> ('a uip_work \<Rightarrow> 'a uip_result) \<Rightarrow> 'a uip \<Rightarrow> ('a uip \<times> tcp_seg option) option" where
  "on_conn k f u = do {
     (w, out) \<leftarrow> f \<lparr>uc = conns u ! k, sock = k, uflags = {}, ulen = 0, uslen = 0, appbuf = ubuf u, app = uapp u\<rparr>;
     Some (u\<lparr>conns := (conns u)[k := uc w], ubuf := appbuf w, uapp := app w\<rparr>, out)
   }"

definition uip_periodic :: "uip_conf \<Rightarrow> 'a uip_app \<Rightarrow> nat \<Rightarrow> 'a uip \<Rightarrow> ('a uip \<times> tcp_seg option) option" where
  "uip_periodic cfg appcall k u = on_conn k (uip_timer cfg appcall (forced_poll u)) (u\<lparr>iss := iss u + 1\<rparr>)"

definition seg_of_conn :: "tcp_seg \<Rightarrow> uip_conn \<Rightarrow> bool" where
  "seg_of_conn g c \<longleftrightarrow> uip_conn_active c \<and> dport g = lport c \<and> sport g = rport c \<and> seg_ip g = ripaddr c"

fun find_conn :: "(uip_conn \<Rightarrow> bool) \<Rightarrow> uip_conn list \<Rightarrow> nat option" where
  "find_conn P [] = None"
| "find_conn P (c # cs) = (if P c then Some 0 else map_option Suc (find_conn P cs))"

text \<open>The connection for a SYN: the first closed one, otherwise the one that has been in \<^verbatim>\<open>TIME_WAIT\<close> for longest.\<close>

fun free_conn :: "uip_conn list \<Rightarrow> nat \<Rightarrow> (nat \<times> u8) option \<Rightarrow> nat option" where
  "free_conn [] k best = map_option fst best"
| "free_conn (c # cs) k best =
     (if is_flags c UIP_CLOSED then Some k
      else free_conn cs (k + 1)
        (if is_flags c UIP_TIME_WAIT \<and> (case best of None \<Rightarrow> True | Some (_, t) \<Rightarrow> rtimer c > t) then Some (k, rtimer c) else best))"

definition new_conn :: "tcp_seg \<Rightarrow> u32 \<Rightarrow> uip_conn \<Rightarrow> uip_conn" where
  "new_conn g seq c =
     uip_add_rcv_nxt 1 ((set_state UIP_SYN_RCVD c)\<lparr>rto := UIP_RTO, rtimer := UIP_RTO, sa := 0, sv := 4, nrtx := 0, lport := dport g,
        rport := sport g, ripaddr := seg_ip g, snd_nxt := seq, conn_len := 1, rcv_nxt := seqno g\<rparr>)"

definition uip_found_listen :: "uip_conf \<Rightarrow> tcp_seg \<Rightarrow> 'a uip \<Rightarrow> ('a uip \<times> tcp_seg option) option" where
  "uip_found_listen cfg g u =
     (case free_conn (conns u) 0 None of
        None \<Rightarrow> Some (u, None)
      | Some k \<Rightarrow> on_conn k (\<lambda>w. do {
          c \<leftarrow> set_mss cfg (appbuf w) (length (seg_opts g)) (new_conn g (iss u) (uc w));
          send_syn cfg {TCP_ACK} (w\<lparr>uc := c\<rparr>)
        }) u)"

definition uip_input :: "uip_conf \<Rightarrow> 'a uip_app \<Rightarrow> tcp_seg \<Rightarrow> 'a uip \<Rightarrow> ('a uip \<times> tcp_seg option) option" where
  "uip_input cfg appcall g u0 = do {
     b \<leftarrow> blit (ubuf u0) 0 (seg_opts g @ seg_data g);
     let u = u0\<lparr>ubuf := b\<rparr>;
     (case find_conn (seg_of_conn g) (conns u) of
        Some k \<Rightarrow>
          if \<not> is_flags (conns u ! k) UIP_SYN_RCVD \<and> seg_flags g = {TCP_SYN} then Some (u, reset_seg g)
          else on_conn k (uip_found cfg appcall g) u
      | None \<Rightarrow>
          if seg_flags g \<noteq> {TCP_SYN} then Some (u, reset_seg g)
          else if dport g \<in> set (listenports u) then uip_found_listen cfg g u
          else Some (u, reset_seg g))
   }"

section \<open>What holds for every application\<close>

text \<open>An application may use the calls above and change its own state: of the connection only the stop bit. \<open>tcp_edge\<close> is the diagram of the
  states of TCP, without the states that uIP leaves out; a reset or an overlong retransmission closes.\<close>

definition app_frame :: "'a uip_work \<Rightarrow> 'a uip_work \<Rightarrow> bool" where
  "app_frame w w' \<longleftrightarrow> ulen w' = ulen w \<and> sock w' = sock w \<and> length (appbuf w') = length (appbuf w) \<and> (uc w')\<lparr>stopped := stopped (uc w)\<rparr> = uc w"

fun tcp_edge :: "tcp_state \<Rightarrow> tcp_state \<Rightarrow> bool" where
  "tcp_edge UIP_SYN_RCVD st = (st \<in> {UIP_ESTABLISHED, UIP_FIN_WAIT_1})"
| "tcp_edge UIP_SYN_SENT st = (st \<in> {UIP_ESTABLISHED, UIP_FIN_WAIT_1})"
| "tcp_edge UIP_ESTABLISHED st = (st \<in> {UIP_FIN_WAIT_1, UIP_LAST_ACK})"
| "tcp_edge UIP_FIN_WAIT_1 st = (st \<in> {UIP_FIN_WAIT_2, UIP_CLOSING, UIP_TIME_WAIT})"
| "tcp_edge UIP_FIN_WAIT_2 st = (st = UIP_TIME_WAIT)"
| "tcp_edge UIP_CLOSING st = (st = UIP_TIME_WAIT)"
| "tcp_edge _ st = False"

definition tcp_step :: "tcp_state \<Rightarrow> tcp_state \<Rightarrow> bool" where
  "tcp_step st st' \<longleftrightarrow> st' = st \<or> st' = UIP_CLOSED \<or> tcp_edge st st'"

lemma app_frame_conn:
  assumes "app_frame w w'"
  shows "tcpstate (uc w') = tcpstate (uc w)" "snd_nxt (uc w') = snd_nxt (uc w)" "rcv_nxt (uc w') = rcv_nxt (uc w)" "conn_len (uc w') = conn_len (uc w)"
    "mss (uc w') = mss (uc w)" "initialmss (uc w') = initialmss (uc w)" "rtimer (uc w') = rtimer (uc w)" "nrtx (uc w') = nrtx (uc w)"
    "lport (uc w') = lport (uc w)" "rport (uc w') = rport (uc w)" "ripaddr (uc w') = ripaddr (uc w)"
  using assms by (cases "uc w'"; cases "uc w"; simp add: app_frame_def)+

lemma set_state_simps [simp]:
  "tcpstate (set_state st c) = st" "stopped (set_state st c) = False" "snd_nxt (set_state st c) = snd_nxt c" "rcv_nxt (set_state st c) = rcv_nxt c"
  "conn_len (set_state st c) = conn_len c" "mss (set_state st c) = mss c" "initialmss (set_state st c) = initialmss c"
  by (simp_all add: set_state_def)

lemma add_rcv_nxt_simps [simp]:
  "tcpstate (uip_add_rcv_nxt n c) = tcpstate c" "stopped (uip_add_rcv_nxt n c) = stopped c" "snd_nxt (uip_add_rcv_nxt n c) = snd_nxt c"
  "rcv_nxt (uip_add_rcv_nxt n c) = rcv_nxt c + ucast n" "conn_len (uip_add_rcv_nxt n c) = conn_len c"
  "mss (uip_add_rcv_nxt n c) = mss c" "initialmss (uip_add_rcv_nxt n c) = initialmss c"
  by (simp_all add: uip_add_rcv_nxt_def)

lemma rtt_estimate_simps [simp]:
  "tcpstate (rtt_estimate c) = tcpstate c" "stopped (rtt_estimate c) = stopped c" "snd_nxt (rtt_estimate c) = snd_nxt c"
  "rcv_nxt (rtt_estimate c) = rcv_nxt c" "conn_len (rtt_estimate c) = conn_len c" "mss (rtt_estimate c) = mss c" "initialmss (rtt_estimate c) = initialmss c"
  by (simp_all add: rtt_estimate_def Let_def)

lemma ack_outstanding_simps [simp]:
  "tcpstate (uc (ack_outstanding g w)) = tcpstate (uc w)" "stopped (uc (ack_outstanding g w)) = stopped (uc w)"
  "rcv_nxt (uc (ack_outstanding g w)) = rcv_nxt (uc w)" "initialmss (uc (ack_outstanding g w)) = initialmss (uc w)" "mss (uc (ack_outstanding g w)) = mss (uc w)"
  "ulen (ack_outstanding g w) = ulen w" "sock (ack_outstanding g w) = sock w" "appbuf (ack_outstanding g w) = appbuf w" "app (ack_outstanding g w) = app w"
  by (simp_all add: ack_outstanding_def Let_def)

text \<open>The results of the labels that send.\<close>

lemma send_nodata_SomeD: "send_nodata cfg fl w = Some (w', out) \<Longrightarrow> uc w' = uc w"
  and uip_drop_SomeD: "uip_drop w = Some (w', out) \<Longrightarrow> uc w' = uc w"
  and send_syn_SomeD: "send_syn cfg fl w = Some (w', out) \<Longrightarrow> uc w' = uc w"
  by (auto simp: send_nodata_def uip_drop_def send_syn_def)

lemma apprexmit_SomeD: "apprexmit cfg w = Some (w', out) \<Longrightarrow> uc w' = uc w"
  by (auto simp: apprexmit_def send_nodata_def uip_drop_def split: if_splits bind_splits)

lemma take_slen_state [simp]: "tcpstate (uc (take_slen w)) = tcpstate (uc w)" "snd_nxt (uc (take_slen w)) = snd_nxt (uc w)" "rcv_nxt (uc (take_slen w)) = rcv_nxt (uc w)"
  by (simp_all add: take_slen_def Let_def)

lemma appsend_state:
  assumes "appsend cfg w = Some (w', out)"
  shows "tcpstate (uc w') \<in> {tcpstate (uc w), UIP_CLOSED, UIP_FIN_WAIT_1}" "snd_nxt (uc w') = snd_nxt (uc w)" "rcv_nxt (uc w') = rcv_nxt (uc w)"
  using assms by (auto simp: appsend_def Let_def dest!: send_nodata_SomeD apprexmit_SomeD split: if_splits)

lemma set_mss_simps:
  assumes "set_mss cfg b n c = Some c'"
  shows "tcpstate c' = tcpstate c" "snd_nxt c' = snd_nxt c" "conn_len c' = conn_len c"
  using assms by (auto simp: set_mss_def Let_def split: option.splits bind_splits)

locale uip_application =
  fixes cfg :: uip_conf and appcall :: "'a uip_app"
  assumes frame: "appcall w = Some w' \<Longrightarrow> app_frame w w'"
begin

lemma app_conn:
  assumes "appcall w = Some w'"
  shows "tcpstate (uc w') = tcpstate (uc w)" "snd_nxt (uc w') = snd_nxt (uc w)" "rcv_nxt (uc w') = rcv_nxt (uc w)"
  using app_frame_conn [OF frame [OF assms]] by simp_all

lemma call_send:
  assumes "appcall w \<bind> appsend cfg = Some (w', out)"
  shows "tcpstate (uc w') \<in> {tcpstate (uc w), UIP_CLOSED, UIP_FIN_WAIT_1}" "snd_nxt (uc w') = snd_nxt (uc w)" "rcv_nxt (uc w') = rcv_nxt (uc w)"
proof -
  from assms obtain w1 where w1: "appcall w = Some w1" and s: "appsend cfg w1 = Some (w', out)" by (auto split: bind_splits)
  then show "tcpstate (uc w') \<in> {tcpstate (uc w), UIP_CLOSED, UIP_FIN_WAIT_1}" "snd_nxt (uc w') = snd_nxt (uc w)" "rcv_nxt (uc w') = rcv_nxt (uc w)"
    using app_conn [OF w1] appsend_state [OF s] by simp_all
qed

lemma timeout_step: "uip_timeout cfg appcall w = Some (w', out) \<Longrightarrow> tcp_step (tcpstate (uc w)) (tcpstate (uc w'))"
  by (auto simp: uip_timeout_def Let_def tcp_step_def dest!: app_conn(1) send_nodata_SomeD uip_drop_SomeD send_syn_SomeD apprexmit_SomeD
      split: if_splits bind_splits tcp_state.splits)

lemma timer_step:
  assumes "uip_timer cfg appcall forced w = Some (w', out)"
  shows "tcp_step (tcpstate (uc w)) (tcpstate (uc w'))"
proof -
  let ?c = "uc w"
  consider (waiting) "tcpstate (uc w') \<in> {tcpstate ?c, UIP_CLOSED}"
    | (timeout) v where "tcpstate (uc v) = tcpstate ?c" "uip_timeout cfg appcall v = Some (w', out)"
    | (poll) v where "tcpstate ?c = UIP_ESTABLISHED" "uc v = ?c" "appcall v \<bind> appsend cfg = Some (w', out)"
    using assms unfolding uip_timer_def Let_def
    by (fastforce dest: uip_drop_SomeD split: if_splits)
  then show ?thesis
    by cases (auto simp: tcp_step_def dest!: timeout_step call_send(1))
qed

lemma syn_rcvd_step:
  assumes "syn_rcvd_input cfg appcall g w = Some (w', out)" and st: "tcpstate (uc w) = UIP_SYN_RCVD"
  shows "tcp_step UIP_SYN_RCVD (tcpstate (uc w'))"
proof (cases "UIP_ACKDATA \<in> uflags w")
  case True
  define v where "v = (let c = (set_state UIP_ESTABLISHED (uc w))\<lparr>conn_len := 0\<rparr> in
     if ulen w > 0 then w\<lparr>uflags := {UIP_CONNECTED, UIP_NEWDATA}, uslen := 0, uc := uip_add_rcv_nxt (ulen w) c\<rparr>
     else w\<lparr>uflags := {UIP_CONNECTED}, uslen := 0, uc := c\<rparr>)"
  have "appcall v \<bind> appsend cfg = Some (w', out)" using assms(1) True by (simp only: syn_rcvd_input_def Let_def v_def if_True)
  moreover have "tcpstate (uc v) = UIP_ESTABLISHED" by (simp add: v_def Let_def)
  ultimately show ?thesis by (auto simp: tcp_step_def dest!: call_send(1))
next
  case False
  then have "uc w' = uc w" using assms(1) by (auto simp: syn_rcvd_input_def dest: uip_drop_SomeD send_syn_SomeD split: if_splits)
  then show ?thesis by (simp add: tcp_step_def st)
qed

lemma syn_sent_step:
  assumes "syn_sent_input cfg appcall g w = Some (w', out)"
  shows "tcp_step UIP_SYN_SENT (tcpstate (uc w'))"
proof (cases "UIP_ACKDATA \<in> uflags w \<and> seg_flags g = {TCP_SYN, TCP_ACK}")
  case True
  then obtain c where c: "set_mss cfg (appbuf w) (length (seg_opts g)) (uc w) = Some c"
    using assms by (auto simp: syn_sent_input_def split: bind_splits)
  define v where "v = w\<lparr>uflags := {UIP_CONNECTED, UIP_NEWDATA}, ulen := 0, uslen := 0,
     uc := (set_state UIP_ESTABLISHED c)\<lparr>rcv_nxt := seqno g + 1, conn_len := 0\<rparr>\<rparr>"
  have "appcall v \<bind> appsend cfg = Some (w', out)" using assms True c by (simp add: syn_sent_input_def v_def)
  moreover have "tcpstate (uc v) = UIP_ESTABLISHED" by (simp add: v_def)
  ultimately show ?thesis by (auto simp: tcp_step_def dest!: call_send(1))
next
  case False
  then show ?thesis using assms by (auto simp: syn_sent_input_def tcp_step_def split: if_splits bind_splits)
qed

lemma established_step:
  assumes "established_input cfg appcall g w = Some (w', out)" and "tcpstate (uc w) = UIP_ESTABLISHED"
  shows "tcp_step UIP_ESTABLISHED (tcpstate (uc w'))"
proof (cases "TCP_FIN \<in> seg_flags g \<and> \<not> stopped (uc w)")
  case True
  then show ?thesis using assms
    by (auto simp: established_input_def tcp_step_def dest!: uip_drop_SomeD send_nodata_SomeD split: if_splits bind_splits)
next
  case False
  then show ?thesis using assms unfolding established_input_def Let_def
    by (auto simp: tcp_step_def dest!: uip_drop_SomeD call_send(1) split: if_splits)
qed

lemma closing_step: "closing_input cfg appcall g w = Some (w', out) \<Longrightarrow> tcp_step (tcpstate (uc w)) (tcpstate (uc w'))"
  by (auto simp: closing_input_def Let_def tcp_step_def dest!: app_conn(1) uip_drop_SomeD send_nodata_SomeD
      split: if_splits bind_splits tcp_state.splits)

lemma found_split:
  assumes "uip_found cfg appcall g w = Some (w', out)"
  obtains (rst) w1 where "appcall (w\<lparr>uc := set_state UIP_CLOSED (uc w), uflags := {UIP_ABORT}\<rparr>) = Some w1" "uip_drop w1 = Some (w', out)"
      "TCP_RST \<in> seg_flags g"
  | (dup) "send_nodata cfg {TCP_ACK} (w\<lparr>uflags := {}, ulen := of_nat (length (seg_data g))\<rparr>) = Some (w', out)"
  | (input) v where "v = ack_outstanding g (w\<lparr>uflags := {}, ulen := of_nat (length (seg_data g))\<rparr>)" "TCP_RST \<notin> seg_flags g"
      "expected_seg g (w\<lparr>uflags := {}, ulen := of_nat (length (seg_data g))\<rparr>)"
      "(case tcpstate (uc w) of UIP_SYN_RCVD \<Rightarrow> syn_rcvd_input cfg appcall g v | UIP_SYN_SENT \<Rightarrow> syn_sent_input cfg appcall g v
        | UIP_ESTABLISHED \<Rightarrow> established_input cfg appcall g v | _ \<Rightarrow> closing_input cfg appcall g v) = Some (w', out)"
proof (cases "TCP_RST \<in> seg_flags g")
  case True
  then show thesis using assms rst by (auto simp: uip_found_def split: bind_splits)
next
  case False
  then show thesis using assms dup input unfolding uip_found_def Let_def
    by (cases "expected_seg g (w\<lparr>uflags := {}, ulen := of_nat (length (seg_data g))\<rparr>)") simp_all
qed

theorem found_step:
  assumes f: "uip_found cfg appcall g w = Some (w', out)"
  shows "tcp_step (tcpstate (uc w)) (tcpstate (uc w'))"
  using f
proof (cases rule: found_split)
  case rst
  then show ?thesis by (auto simp: tcp_step_def dest!: app_conn(1) uip_drop_SomeD)
next
  case dup
  then show ?thesis by (auto simp: tcp_step_def dest!: send_nodata_SomeD)
next
  case (input v)
  then have st: "tcpstate (uc v) = tcpstate (uc w)" by simp
  then show ?thesis
    using input(4) syn_rcvd_step [of g v w' out] syn_sent_step [of g v w' out] established_step [of g v w' out] closing_step [of g v w' out]
    by (cases "tcpstate (uc w)") simp_all
qed

end

section \<open>Ports\<close>

lemma htons_htons: "htons cfg (htons cfg x) = x"
proof (rule bit_eqI)
  fix n assume "possible_bit TYPE(16 word) n"
  then have n: "n < 16" by simp
  show "bit (htons cfg (htons cfg x)) n = bit x n"
    using n by (auto simp: htons_def bit_simps)
qed

lemma htons_inj: "inj (htons cfg)"
  by (metis htons_htons injI)

lemma port_free:
  assumes "length cs < 27904"
  shows "\<exists>q. 4096 \<le> q \<and> q < 32000 \<and> \<not> port_used cfg cs (of_nat q)"
proof (rule ccontr)
  assume "\<not> ?thesis"
  then have used: "port_used cfg cs (of_nat q)" if "q \<in> {4096..<32000}" for q using that by auto
  let ?f = "\<lambda>q :: nat. htons cfg (of_nat q)"
  have "inj_on ?f {4096..<32000}"
  proof (rule inj_onI)
    fix a b :: nat assume ab: "a \<in> {4096..<32000}" "b \<in> {4096..<32000}" "?f a = ?f b"
    then have "(of_nat a :: u16) = of_nat b" using htons_inj [THEN injD] by blast
    moreover have "a < 2 ^ LENGTH(16)" "b < 2 ^ LENGTH(16)" using ab by simp_all
    ultimately show "a = b" unfolding word_of_nat_eq_iff by (metis take_bit_nat_eq_self)
  qed
  then have "card (?f ` {4096..<32000}) = 27904" by (simp add: card_image)
  moreover have "?f ` {4096..<32000} \<subseteq> lport ` set cs" using used by (auto simp: port_used_def) (metis imageI)
  then have "card (?f ` {4096..<32000}) \<le> card (lport ` set cs)" by (intro card_mono) simp_all
  moreover have "card (lport ` set cs) \<le> length cs" using card_image_le [of "set cs" lport] card_length [of cs] by simp
  ultimately show False using assms by linarith
qed

definition port_distance :: "nat \<Rightarrow> nat \<Rightarrow> nat" where
  "port_distance q p = (if p < q then q - p else (32000 - p) + (q - 4096))"

lemma next_port_nat:
  assumes "p < 32000"
  shows "next_port (of_nat p) = of_nat (if p + 1 < 32000 then p + 1 else 4096)"
proof -
  have s: "(of_nat p :: u16) + 1 = of_nat (p + 1)" by simp
  have "unat (of_nat (p + 1) :: u16) = p + 1" using assms by (simp only: unat_of_nat) (simp add: take_bit_nat_eq_self)
  then have le: "(32000 \<le> (of_nat (p + 1) :: u16)) = (32000 \<le> p + 1)" unfolding word_le_nat_alt by simp
  have "next_port (of_nat p) = (if 32000 \<le> p + 1 then 4096 else of_nat (p + 1))" unfolding next_port_def s le ..
  also have "\<dots> = of_nat (if p + 1 < 32000 then p + 1 else 4096)"
  proof (cases "p + 1 < 32000")
    case True
    then have "\<not> 32000 \<le> p + 1" by linarith
    with True show ?thesis by presburger
  next
    case False
    then have "32000 \<le> p + 1" by linarith
    then show ?thesis unfolding if_P [OF \<open>32000 \<le> p + 1\<close>] if_not_P [OF False] by simp
  qed
  finally show ?thesis .
qed

lemma find_port_reaches:
  assumes q: "4096 \<le> q" "q < 32000" "\<not> port_used cfg cs (of_nat q)" and p: "p < 32000"
  shows "\<exists>r. uip_find_unused_port cfg cs (of_nat p) = Some r \<and> \<not> port_used cfg cs r \<and> r < 32000"
  using p
proof (induction "port_distance q p" arbitrary: p rule: less_induct)
  case less
  define p' where "p' = (if p + 1 < 32000 then p + 1 else 4096)"
  have step: "uip_find_unused_port cfg cs (of_nat p) =
      (if port_used cfg cs (of_nat p') then uip_find_unused_port cfg cs (of_nat p') else Some (of_nat p'))"
    by (subst uip_find_unused_port.simps) (simp only: Let_def next_port_nat [OF less.prems] p'_def)
  have lt: "p' < 32000" by (simp add: p'_def)
  show ?case
  proof (cases "port_used cfg cs (of_nat p')")
    case True
    then have ne: "p' \<noteq> q" using q(3) by blast
    have "port_distance q p' < port_distance q p" using ne q(1,2) less.prems unfolding port_distance_def p'_def by (auto split: if_splits)
    from less.hyps [OF this lt] True show ?thesis unfolding step by simp
  next
    case False
    have "unat (of_nat p' :: u16) = p'" using lt by (simp only: unat_of_nat) (simp add: take_bit_nat_eq_self)
    then have "(of_nat p' :: u16) < 32000" using lt by (simp only: word_less_nat_alt) simp
    then show ?thesis unfolding step using False by auto
  qed
qed

text \<open>C34: The search for a local port ends with a port that no connection uses, whatever the table of connections holds: it has fewer
  entries than there are ports to choose from, and the last port handed out was in the range.\<close>

theorem find_unused_port_ends:
  assumes "length cs < 27904" and "lp < 32000"
  shows "\<exists>p. uip_find_unused_port cfg cs lp = Some p \<and> \<not> port_used cfg cs p \<and> p < 32000"
proof -
  have p: "unat lp < 32000" using assms(2) by (simp add: word_less_nat_alt)
  from port_free [OF assms(1), of cfg] obtain q where q: "4096 \<le> q" "q < 32000" "\<not> port_used cfg cs (of_nat q)" by blast
  show ?thesis using find_port_reaches [OF q p] by simp
qed

section \<open>Options\<close>

text \<open>The options of a segment can stop uIP: two options whose lengths sum to 256 make the eight-bit counter of the loop return to its start, so
  that the search for the segment size never ends, for a segment of any sender.\<close>

theorem find_mss_hangs:
  assumes x: "x \<notin> {0, 1, 2}" and z: "z \<notin> {0, 1}" and n: "4 < n" and b: "b = x # 4 # y # y' # z # 252 # rest"
  shows "find_mss b n 0 = None"
proof (rule ccontr)
  assume "find_mss b n 0 \<noteq> None"
  then obtain r where r: "find_mss b n 0 = Some r" by auto
  have "\<not> (b' = b \<and> n' = n \<and> (c = 0 \<or> c = 4))" if "find_mss b' n' c = Some r" for b' n' c r
  proof (rule find_mss.raw_induct [of "\<lambda>b' n' c r. \<not> (b' = b \<and> n' = n \<and> (c = 0 \<or> c = 4))"])
    fix find b' n' c r
    assume IH: "\<And>b' n' c r. find b' n' c = Some r \<Longrightarrow> \<not> (b' = b \<and> n' = n \<and> (c = 0 \<or> c = 4))"
      and step: "(if unat c < n' then do {
          opt \<leftarrow> byte_at b' (unat c);
          (if opt = 0 then Some None
           else if opt = 1 then find b' n' (c + 1)
           else do {
             l \<leftarrow> byte_at b' (unat c + 1);
             (if opt = 2 \<and> l = 4 then do {
                hi \<leftarrow> byte_at b' (unat c + 2);
                lo \<leftarrow> byte_at b' (unat c + 3);
                Some (Some (push_bit 8 (ucast hi) OR ucast lo))
              }
              else if l = 0 then Some None
              else find b' n' (c + l))
           })
        }
        else Some None) = Some r"
    show "\<not> (b' = b \<and> n' = n \<and> (c = 0 \<or> c = 4))"
    proof
      assume a: "b' = b \<and> n' = n \<and> (c = 0 \<or> c = 4)"
      have wrap: "(256 :: u8) = 0" by simp
      from a have "find b n 4 = Some r \<or> find b n 0 = Some r" using step n x z by (auto simp: byte_at_def b wrap split: if_splits)
      with IH show False by blast
    qed
  qed (rule that)
  with r show False by blast
qed

section \<open>Examples\<close>

definition example_uip_conf :: uip_conf where
  "example_uip_conf = \<lparr>UIP_CONNS = 4, UIP_LISTENPORTS = 4, UIP_TCP_MSS = 970, UIP_RECEIVE_WINDOW = 970, UIP_LITTLE_ENDIAN = True,
     BUILD_CON_TCP = True, CHAR_SIGNED = False\<rparr>"

definition example_conn :: uip_conn where
  "example_conn = unused_conn\<lparr>tcpstate := UIP_ESTABLISHED, stopped := True, lport := 0x5000, rport := 7, snd_nxt := 1000, rcv_nxt := 500,
     mss := 970, initialmss := 970, rto := 3\<rparr>"

theorem find_unused_port_ends_witness:
  "\<exists>p. uip_find_unused_port example_uip_conf [example_conn, example_conn\<lparr>lport := 0x0210\<rparr>] 4097 = Some p
    \<and> \<not> port_used example_uip_conf [example_conn, example_conn\<lparr>lport := 0x0210\<rparr>] p \<and> p < 32000"
  by (rule find_unused_port_ends) simp_all

theorem find_mss_hangs_witness: "find_mss [3, 4, 0, 0, 3, 252] 6 0 = None"
  by (rule find_mss_hangs [of 3 3]) simp_all

end
