(* ===== verification/Elua_Net.thy ===== *)
theory Elua_Net
  imports Uip_Tcp
begin

text \<open>
  eLua's application of uIP and its network calls: \<^verbatim>\<open>src/elua_uip.c\<close> and the console over TCP of \<^verbatim>\<open>src/newlib/stdtcp.c\<close>. The handler
  \<^verbatim>\<open>elua_uip_appcall\<close> is the application of \<open>Uip_Tcp\<close>; a call (send, receive, close, connect) writes the state of its socket
  (\<^verbatim>\<open>elua_uip_state\<close>) and waits until the handler, which runs in the interrupt of the network card, has made it idle. The buffer of the
  caller is part of the pointer to it; \<^const>\<open>None\<close> is an access outside it, or a pointer used as what it is not.
\<close>

section \<open>The state of a socket\<close>

datatype elua_uip_st = ELUA_UIP_STATE_IDLE | ELUA_UIP_STATE_SEND | ELUA_UIP_STATE_RECV | ELUA_UIP_STATE_RECV_2
  | ELUA_UIP_STATE_CONNECT | ELUA_UIP_STATE_CLOSE

abbreviation "ELUA_NET_ERR_OK \<equiv> (0 :: u8)"
abbreviation "ELUA_NET_ERR_TIMEDOUT \<equiv> (1 :: u8)"
abbreviation "ELUA_NET_ERR_CLOSED \<equiv> (2 :: u8)"
abbreviation "ELUA_NET_ERR_ABORTED \<equiv> (3 :: u8)"
abbreviation "ELUA_NET_ERR_OVERFLOW \<equiv> (4 :: u8)"
abbreviation "ELUA_NET_TELNET_PORT \<equiv> (23 :: u16)"
abbreviation "ELUA_NET_NO_LASTCHAR \<equiv> (- 1 :: u16)"

text \<open>What \<^verbatim>\<open>ptr\<close> points to: nothing, a place in an array of bytes, or a buffer of Lua. \<^verbatim>\<open>elua_net_size\<close> is a signed 16-bit number.\<close>

datatype net_ptr = NULL_PTR | CHARS "u8 list" nat | LUA_BUFFER "u8 list"

record elua_uip_state =
  ua_state :: elua_uip_st
  ua_res :: u8
  ua_ptr :: net_ptr
  ua_len :: u16
  ua_readto :: u16

record elua_uip_accept_pending =
  accept_request :: bool
  acc_sock :: nat
  acc_remote :: uip_ipaddr
  acc_port :: u16

record elua_net =
  elua_uip_configured :: bool
  elua_uip_telnet_socket :: "nat option"
  elua_uip_accept_pending :: "elua_uip_accept_pending list"
  elua_net_connecting :: "nat option"
  appstates :: "elua_uip_state list"

definition appstate :: "elua_net uip_work \<Rightarrow> elua_uip_state" where
  "appstate w = appstates (app w) ! sock w"

definition set_appstate :: "elua_uip_state \<Rightarrow> elua_net uip_work \<Rightarrow> elua_net uip_work" where
  "set_appstate s w = w\<lparr>app := (app w)\<lparr>appstates := (appstates (app w))[sock w := s]\<rparr>\<rparr>"

definition char_val :: "uip_conf \<Rightarrow> u8 \<Rightarrow> int" where
  "char_val cfg c = (if CHAR_SIGNED cfg then sint c else uint c)"

text \<open>Bytes at a pointer: reading them, moving it and writing through it.\<close>

fun read_at :: "net_ptr \<Rightarrow> nat \<Rightarrow> u8 list option" where
  "read_at (CHARS b i) n = fetch b i n"
| "read_at _ n = None"

fun advance :: "nat \<Rightarrow> net_ptr \<Rightarrow> net_ptr" where
  "advance n (CHARS b i) = CHARS b (i + n)"
| "advance n p = p"

fun write_at :: "nat \<Rightarrow> u8 list \<Rightarrow> net_ptr \<Rightarrow> net_ptr option" where
  "write_at d bs (CHARS b i) = do { b' \<leftarrow> blit b (i + d) bs; Some (CHARS b' i) }"
| "write_at d bs _ = None"

fun add_to_buffer :: "u8 list \<Rightarrow> net_ptr \<Rightarrow> net_ptr option" where
  "add_to_buffer bs (LUA_BUFFER l) = Some (LUA_BUFFER (l @ bs))"
| "add_to_buffer bs _ = None"

section \<open>Telnet\<close>

text \<open>\<^verbatim>\<open>elua_uip_telnet_handle_input\<close>: the bytes of the packet without the control sequences, at most \<open>m\<close>. The byte after an IAC at the end of
  the packet is read from what the packet buffer holds there.\<close>

function telnet_scan :: "u8 list \<Rightarrow> nat \<Rightarrow> int \<Rightarrow> nat \<Rightarrow> u8 list \<Rightarrow> u8 list option" where
  "telnet_scan b n m i acc =
     (if i < n \<and> int (length acc) < m then
        case byte_at b i of
          None \<Rightarrow> None
        | Some c \<Rightarrow>
            if c \<noteq> 255 then telnet_scan b n m (i + 1) (acc @ [c])
            else
              case byte_at b (i + 1) of
                None \<Rightarrow> None
              | Some d \<Rightarrow>
                  if 251 \<le> d \<and> d \<le> 254 then telnet_scan b n m (i + 3) acc
                  else telnet_scan b n m (i + 2) (if d = 236 then acc @ [26] else acc)
      else Some acc)"
  by pat_completeness auto
termination by (relation "measure (\<lambda>(b, n, m, i, acc). n - i)") auto

declare telnet_scan.simps [simp del]

definition elua_uip_telnet_handle_input :: "elua_net uip_work \<Rightarrow> elua_net uip_work option" where
  "elua_uip_telnet_handle_input w =
     (let s = appstate w in do {
      bs \<leftarrow> telnet_scan (appbuf w) (unat (ulen w)) (sint (ua_len s)) 0 [];
      (if bs = [] then Some w
       else do {
         p \<leftarrow> write_at 0 bs (ua_ptr s);
         Some (uip_stop (set_appstate (s\<lparr>ua_ptr := advance (length bs) p, ua_res := ELUA_NET_ERR_OK,
           ua_len := ua_len s - of_nat (length bs), ua_state := ELUA_UIP_STATE_IDLE\<rparr>) w))
       })
    })"

text \<open>\<^verbatim>\<open>elua_uip_telnet_prep_send\<close>: the bytes written to the packet buffer and their number.\<close>

fun elua_uip_telnet_prep_send :: "u8 list \<Rightarrow> u16 \<Rightarrow> u8 list \<times> u16" where
  "elua_uip_telnet_prep_send [] actsize = ([], actsize)"
| "elua_uip_telnet_prep_send (c # src) actsize =
     (if c = 10 then let (dest, n) = elua_uip_telnet_prep_send src (actsize + 1) in (13 # c # dest, n)
      else let (dest, n) = elua_uip_telnet_prep_send src actsize in (c # dest, n))"

section \<open>The handler\<close>

definition telnet_conn :: "uip_conf \<Rightarrow> elua_net uip_work \<Rightarrow> bool" where
  "telnet_conn cfg w \<longleftrightarrow> BUILD_CON_TCP cfg \<and> elua_uip_telnet_socket (app w) = Some (sock w)"

fun add_pending :: "elua_uip_accept_pending \<Rightarrow> elua_uip_accept_pending list \<Rightarrow> elua_uip_accept_pending list option" where
  "add_pending a [] = None"
| "add_pending a (p # ps) = (if \<not> accept_request p then Some (a # ps) else map_option (Cons p) (add_pending a ps))"

definition appcall_connected :: "uip_conf \<Rightarrow> elua_net uip_work \<Rightarrow> elua_net uip_work option" where
  "appcall_connected cfg w =
     (let s = appstate w; a = app w in
      if ua_state s = ELUA_UIP_STATE_CONNECT \<and> elua_net_connecting a = Some (sock w) then
        Some (uip_stop (set_appstate (s\<lparr>ua_state := ELUA_UIP_STATE_IDLE\<rparr>) w))
      else if BUILD_CON_TCP cfg \<and> lport (uc w) = htons cfg ELUA_NET_TELNET_PORT then
        if elua_uip_telnet_socket a \<noteq> None then Some (uip_close w)
        else Some (uip_stop (w\<lparr>app := a\<lparr>elua_uip_telnet_socket := Some (sock w)\<rparr>\<rparr>))
      else
        case add_pending \<lparr>accept_request = True, acc_sock = sock w, acc_remote = ripaddr (uc w), acc_port = htons cfg (lport (uc w))\<rparr>
               (elua_uip_accept_pending a) of
          None \<Rightarrow> Some (uip_close w)
        | Some ps \<Rightarrow> Some (uip_stop (w\<lparr>app := a\<lparr>elua_uip_accept_pending := ps\<rparr>\<rparr>)))"

definition appcall_error :: "uip_conf \<Rightarrow> elua_net uip_work \<Rightarrow> elua_net uip_work" where
  "appcall_error cfg w =
     (let s = appstate w;
          r = (if UIP_ABORT \<in> uflags w then ELUA_NET_ERR_ABORTED
               else if UIP_TIMEDOUT \<in> uflags w then ELUA_NET_ERR_TIMEDOUT else ELUA_NET_ERR_CLOSED);
          w' = (if telnet_conn cfg w then w\<lparr>app := (app w)\<lparr>elua_uip_telnet_socket := None\<rparr>\<rparr> else w) in
      set_appstate (s\<lparr>ua_res := r, ua_state := ELUA_UIP_STATE_IDLE\<rparr>) w')"

definition UMIN :: "u16 \<Rightarrow> u16 \<Rightarrow> u16" where
  "UMIN n m = (if sint n < uint m then n else m)"

definition ack_len :: "elua_net uip_work \<Rightarrow> elua_uip_state" where
  "ack_len w =
     (let s = appstate w in
      if UIP_ACKDATA \<in> uflags w then
        let n = UMIN (ua_len s) (mss (uc w)); l = ua_len s - n in
        s\<lparr>ua_len := l, ua_ptr := advance (unat n) (ua_ptr s), ua_state := (if l = 0 then ELUA_UIP_STATE_IDLE else ua_state s)\<rparr>
      else s)"

definition appcall_send :: "uip_conf \<Rightarrow> elua_net uip_work \<Rightarrow> elua_net uip_work option" where
  "appcall_send cfg w =
     (let s = ack_len w; w' = set_appstate s w in
      if 0 <s ua_len s then
        if telnet_conn cfg w then do {
          src \<leftarrow> read_at (ua_ptr s) (unat (ua_len s));
          let (dest, temp) = elua_uip_telnet_prep_send src (ua_len s);
          b \<leftarrow> blit (appbuf w') 0 dest;
          Some (if 0 <s temp then w'\<lparr>appbuf := b, uslen := temp\<rparr> else w'\<lparr>appbuf := b\<rparr>)
        }
        else do {
          data \<leftarrow> read_at (ua_ptr s) (unat (UMIN (ua_len s) (mss (uc w))));
          uip_send data w'
        }
      else Some w')"

text \<open>The loop that looks for the last character; \<open>d\<close> is \<^verbatim>\<open>dest - s->ptr\<close>.\<close>

fun recv_chars :: "uip_conf \<Rightarrow> u8 list \<Rightarrow> nat \<Rightarrow> elua_uip_state \<Rightarrow> (elua_uip_state \<times> bool) option" where
  "recv_chars cfg [] d s = Some (s, False)"
| "recv_chars cfg (c # cs) d s =
     (if char_val cfg c = sint (ua_readto s) then Some (s, True)
      else if c \<noteq> 13 then do {
        p \<leftarrow> (if ua_res s \<noteq> 0 then add_to_buffer [c] (ua_ptr s) else write_at d [c] (ua_ptr s));
        recv_chars cfg cs (d + 1) (s\<lparr>ua_ptr := p, ua_len := ua_len s - 1\<rparr>)
      }
      else recv_chars cfg cs d s)"

definition recv_data :: "u8 list \<Rightarrow> elua_uip_state \<Rightarrow> elua_uip_state option" where
  "recv_data bs s = do {
     p \<leftarrow> (if ua_res s \<noteq> 0 then add_to_buffer bs (ua_ptr s) else write_at 0 bs (ua_ptr s));
     Some (s\<lparr>ua_ptr := p, ua_len := ua_len s - of_nat (length bs)\<rparr>)
   }"

text \<open>A negative length makes \<^verbatim>\<open>memcpy\<close> and \<^verbatim>\<open>luaL_addlstring\<close> copy far too much; the loop over the characters then does nothing.\<close>

definition appcall_recv :: "uip_conf \<Rightarrow> elua_net uip_work \<Rightarrow> elua_net uip_work option" where
  "appcall_recv cfg w =
     (let s = appstate w; overflow = sint (ua_len s) < uint (ulen w);
          temp = (if overflow then ua_len s else ulen w);
          s = (if overflow then s\<lparr>ua_res := ELUA_NET_ERR_OVERFLOW\<rparr> else s) in do {
      (s, lastfound) \<leftarrow>
        (if ua_readto s \<noteq> ELUA_NET_NO_LASTCHAR then do {
           cs \<leftarrow> fetch (appbuf w) 0 (nat (sint temp));
           recv_chars cfg cs 0 s
         }
         else if temp <s 0 then None
         else do {
           bs \<leftarrow> fetch (appbuf w) 0 (nat (sint temp));
           s \<leftarrow> recv_data bs s;
           Some (s, False)
         });
      Some (if ua_len s = 0 \<or> lastfound \<or> ulen w < UIP_RECEIVE_WINDOW cfg
            then uip_stop (set_appstate (s\<lparr>ua_res := ELUA_NET_ERR_OK, ua_state := ELUA_UIP_STATE_IDLE\<rparr>) w)
            else set_appstate s w)
    })"

definition elua_uip_appcall :: "uip_conf \<Rightarrow> elua_net uip_app" where
  "elua_uip_appcall cfg w =
     (let s = appstate w in
      if \<not> elua_uip_configured (app w) then Some w
      else if UIP_CONNECTED \<in> uflags w then appcall_connected cfg w
      else if ua_state s = ELUA_UIP_STATE_IDLE then Some w
      else if ua_state s = ELUA_UIP_STATE_RECV then Some (uip_restart (set_appstate (s\<lparr>ua_state := ELUA_UIP_STATE_RECV_2\<rparr>) w))
      else if UIP_ABORT \<in> uflags w \<or> UIP_TIMEDOUT \<in> uflags w \<or> UIP_CLOSE \<in> uflags w then Some (appcall_error cfg w)
      else if (UIP_ACKDATA \<in> uflags w \<or> UIP_REXMIT \<in> uflags w \<or> UIP_POLL \<in> uflags w) \<and> ua_state s = ELUA_UIP_STATE_SEND then
        appcall_send cfg w
      else if ua_state s = ELUA_UIP_STATE_CLOSE then
        Some (set_appstate (s\<lparr>ua_state := ELUA_UIP_STATE_IDLE\<rparr>) (uip_close w))
      else if UIP_NEWDATA \<in> uflags w then
        if ua_state s = ELUA_UIP_STATE_RECV_2 then
          if telnet_conn cfg w then elua_uip_telnet_handle_input w else appcall_recv cfg w
        else Some (uip_stop w)
      else Some w)"

section \<open>The main loop\<close>

text \<open>
  What the network card delivered since the last interrupt: TCP segments, and frames of other kinds (ARP, UDP), which \<^verbatim>\<open>elua_uip_mainloop\<close>
  hands to other parts of uIP. The counters of time are those of the loop; the second one drives the ARP table, which is not modelled.
\<close>

datatype frame = TCP_FRAME tcp_seg | OTHER_FRAME

type_synonym elua_uip = "elua_net uip"

fun input_frames :: "uip_conf \<Rightarrow> frame list \<Rightarrow> elua_uip \<Rightarrow> (elua_uip \<times> tcp_seg list) option" where
  "input_frames cfg [] u = Some (u, [])"
| "input_frames cfg (TCP_FRAME g # fs) u = do {
     (u, out) \<leftarrow> uip_input cfg (elua_uip_appcall cfg) g u;
     (u, outs) \<leftarrow> input_frames cfg fs u;
     Some (u, (case out of None \<Rightarrow> [] | Some o1 \<Rightarrow> [o1]) @ outs)
   }"
| "input_frames cfg (OTHER_FRAME # fs) u = input_frames cfg fs u"

fun periodic_conns :: "uip_conf \<Rightarrow> nat list \<Rightarrow> elua_uip \<Rightarrow> (elua_uip \<times> tcp_seg list) option" where
  "periodic_conns cfg [] u = Some (u, [])"
| "periodic_conns cfg (k # ks) u = do {
     (u, out) \<leftarrow> uip_periodic cfg (elua_uip_appcall cfg) k u;
     (u, outs) \<leftarrow> periodic_conns cfg ks u;
     Some (u, (case out of None \<Rightarrow> [] | Some o1 \<Rightarrow> [o1]) @ outs)
   }"

record elua_board =
  periodic_timer :: u32
  arp_timer :: u32
  stack :: elua_uip

definition elua_uip_mainloop :: "uip_conf \<Rightarrow> u32 \<Rightarrow> frame list \<Rightarrow> elua_board \<Rightarrow> (elua_board \<times> tcp_seg list) option" where
  "elua_uip_mainloop cfg elapsed frames b =
     (let pt = periodic_timer b + elapsed; at = arp_timer b + elapsed in do {
      (u, outs) \<leftarrow> input_frames cfg frames (stack b);
      let u = u\<lparr>forced_poll := \<not> pt \<ge> 500\<rparr>;
      (u, outs') \<leftarrow> periodic_conns cfg [0..<UIP_CONNS cfg] u;
      Some (\<lparr>periodic_timer = (if pt \<ge> 500 then 0 else pt), arp_timer = (if at \<ge> 10000 then 0 else at), stack = u\<rparr>, outs @ outs')
    })"

section \<open>Configuration\<close>

text \<open>Without DHCP the addresses of the build are used; the answer of a DHCP server starting with 0 is no answer. The calls that store the
  addresses in uIP are left out.\<close>

definition elua_uip_conf_static :: "elua_net \<Rightarrow> elua_net" where
  "elua_uip_conf_static a = a\<lparr>elua_uip_configured := True\<rparr>"

definition dhcpc_configured :: "u8 list \<Rightarrow> elua_net \<Rightarrow> elua_net" where
  "dhcpc_configured ip a = (if ip ! 0 \<noteq> 0 then a\<lparr>elua_uip_configured := True\<rparr> else elua_uip_conf_static a)"

definition elua_uip_init :: "uip_conf \<Rightarrow> bool \<Rightarrow> elua_uip \<Rightarrow> elua_uip" where
  "elua_uip_init cfg dhcp u0 =
     (let u = uip_init cfg u0; a = uapp u;
          a = a\<lparr>elua_uip_accept_pending := map (\<lambda>p. p\<lparr>accept_request := False\<rparr>) (elua_uip_accept_pending a)\<rparr>;
          u = u\<lparr>uapp := (if dhcp then a else elua_uip_conf_static a)\<rparr> in
      if BUILD_CON_TCP cfg then uip_listen (htons cfg ELUA_NET_TELNET_PORT) u else u)"

section \<open>The network calls\<close>

text \<open>
  A call that waits is cut in two: what it does before its loop, which may already return, and the value it returns once the socket is idle.
  The numbers of sockets are C's \<^verbatim>\<open>int\<close>.
\<close>

definition ELUA_UIP_IS_SOCK_OK :: "uip_conf \<Rightarrow> int \<Rightarrow> elua_uip \<Rightarrow> bool" where
  "ELUA_UIP_IS_SOCK_OK cfg s u \<longleftrightarrow> elua_uip_configured (uapp u) \<and> 0 \<le> s \<and> s < int (UIP_CONNS cfg)"

definition pstate :: "int \<Rightarrow> elua_uip \<Rightarrow> elua_uip_state" where
  "pstate s u = appstates (uapp u) ! nat s"

definition set_pstate :: "int \<Rightarrow> elua_uip_state \<Rightarrow> elua_uip \<Rightarrow> elua_uip" where
  "set_pstate s p u = u\<lparr>uapp := (uapp u)\<lparr>appstates := (appstates (uapp u))[nat s := p]\<rparr>\<rparr>"

definition elua_prep_socket_state :: "net_ptr \<Rightarrow> u16 \<Rightarrow> u16 \<Rightarrow> u8 \<Rightarrow> elua_uip_st \<Rightarrow> elua_uip_state" where
  "elua_prep_socket_state buf len readto res st =
     \<lparr>ua_state = st, ua_res = res, ua_ptr = buf, ua_len = len, ua_readto = readto\<rparr>"

definition sock_active :: "uip_conf \<Rightarrow> int \<Rightarrow> elua_uip \<Rightarrow> bool" where
  "sock_active cfg s u \<longleftrightarrow> ELUA_UIP_IS_SOCK_OK cfg s u \<and> uip_conn_active (conns u ! nat s)"

definition elua_net_socket :: "bool \<Rightarrow> elua_uip \<Rightarrow> int \<times> elua_uip" where
  "elua_net_socket dgram u =
     (if dgram then (- 1, u)
      else case find_conn (\<lambda>c. is_flags c UIP_CLOSED) (conns u) of
        None \<Rightarrow> (- 1, u)
      | Some i \<Rightarrow> (int i, u\<lparr>conns := (conns u)[i := set_state UIP_RESERVED (conns u ! i)]\<rparr>))"

definition elua_net_send :: "uip_conf \<Rightarrow> int \<Rightarrow> net_ptr \<Rightarrow> u16 \<Rightarrow> elua_uip \<Rightarrow> u16 option \<times> elua_uip" where
  "elua_net_send cfg s buf len u =
     (if \<not> sock_active cfg s u then (Some (- 1), u)
      else if len = 0 then (Some 0, u)
      else (None, set_pstate s (elua_prep_socket_state buf len ELUA_NET_NO_LASTCHAR ELUA_NET_ERR_OK ELUA_UIP_STATE_SEND) u))"

definition elua_net_recv_internal :: "uip_conf \<Rightarrow> int \<Rightarrow> net_ptr \<Rightarrow> u16 \<Rightarrow> u16 \<Rightarrow> bool \<Rightarrow> elua_uip \<Rightarrow> u16 option \<times> elua_uip" where
  "elua_net_recv_internal cfg s buf maxsize readto with_buffer u =
     (if \<not> sock_active cfg s u then (Some (- 1), u)
      else if maxsize = 0 then (Some 0, u)
      else (None, set_pstate s (elua_prep_socket_state buf maxsize readto (if with_buffer then 1 else 0) ELUA_UIP_STATE_RECV) u))"

text \<open>The value of a call to send or receive when the loop ends, and what the loop of a receive does when its time is over.\<close>

definition moved :: "u16 \<Rightarrow> int \<Rightarrow> elua_uip \<Rightarrow> u16 option" where
  "moved len s u = (if ua_state (pstate s u) = ELUA_UIP_STATE_IDLE then Some (len - ua_len (pstate s u)) else None)"

definition recv_expired :: "int \<Rightarrow> elua_uip \<Rightarrow> elua_uip" where
  "recv_expired s u =
     (if ua_state (pstate s u) \<noteq> ELUA_UIP_STATE_IDLE
      then set_pstate s ((pstate s u)\<lparr>ua_res := ELUA_NET_ERR_TIMEDOUT, ua_state := ELUA_UIP_STATE_IDLE\<rparr>) u else u)"

definition elua_net_recv :: "uip_conf \<Rightarrow> int \<Rightarrow> u8 list \<Rightarrow> u16 \<Rightarrow> u16 \<Rightarrow> elua_uip \<Rightarrow> u16 option \<times> elua_uip" where
  "elua_net_recv cfg s buf maxsize readto u = elua_net_recv_internal cfg s (CHARS buf 0) maxsize readto False u"

definition elua_net_recvbuf :: "uip_conf \<Rightarrow> int \<Rightarrow> u8 list \<Rightarrow> u16 \<Rightarrow> u16 \<Rightarrow> elua_uip \<Rightarrow> u16 option \<times> elua_uip" where
  "elua_net_recvbuf cfg s buf maxsize readto u = elua_net_recv_internal cfg s (LUA_BUFFER buf) maxsize readto True u"

definition elua_net_get_telnet_socket :: "uip_conf \<Rightarrow> elua_uip \<Rightarrow> int" where
  "elua_net_get_telnet_socket cfg u =
     (if BUILD_CON_TCP cfg then
        case elua_uip_telnet_socket (uapp u) of
          None \<Rightarrow> - 1
        | Some k \<Rightarrow> if uip_conn_active (conns u ! k) then int k else - 1
      else - 1)"

definition elua_net_close :: "uip_conf \<Rightarrow> int \<Rightarrow> elua_uip \<Rightarrow> int option \<times> elua_uip" where
  "elua_net_close cfg s u =
     (if \<not> sock_active cfg s u then (Some (- 1), u)
      else (None, set_pstate s (elua_prep_socket_state NULL_PTR 0 ELUA_NET_NO_LASTCHAR ELUA_NET_ERR_OK ELUA_UIP_STATE_CLOSE) u))"

definition done_res :: "int \<Rightarrow> elua_uip \<Rightarrow> int option" where
  "done_res s u =
     (if ua_state (pstate s u) = ELUA_UIP_STATE_IDLE then Some (if ua_res (pstate s u) = ELUA_NET_ERR_OK then 0 else - 1) else None)"

definition elua_net_get_last_err :: "uip_conf \<Rightarrow> int \<Rightarrow> elua_uip \<Rightarrow> int" where
  "elua_net_get_last_err cfg s u = (if ELUA_UIP_IS_SOCK_OK cfg s u then uint (ua_res (pstate s u)) else - 1)"

definition elua_listen :: "uip_conf \<Rightarrow> u16 \<Rightarrow> bool \<Rightarrow> elua_uip \<Rightarrow> int \<times> elua_uip" where
  "elua_listen cfg port flisten u =
     (if \<not> elua_uip_configured (uapp u) \<or> BUILD_CON_TCP cfg \<and> port = ELUA_NET_TELNET_PORT then (- 1, u)
      else
        let u = uip_unlisten (htons cfg port) u in
        (0, if flisten then uip_listen (htons cfg port) u else u))"

fun elua_net_find_pending :: "u16 \<Rightarrow> elua_uip_accept_pending list \<Rightarrow> nat option" where
  "elua_net_find_pending port [] = None"
| "elua_net_find_pending port (p # ps) =
     (if accept_request p \<and> acc_port p = port then Some 0 else map_option Suc (elua_net_find_pending port ps))"

text \<open>One round of the loop of \<^verbatim>\<open>elua_accept\<close>: the socket and the address of the other side, or nothing yet.\<close>

definition elua_accept :: "u16 \<Rightarrow> elua_uip \<Rightarrow> (int \<times> uip_ipaddr) option \<times> elua_uip" where
  "elua_accept port u =
     (let a = uapp u; ps = elua_uip_accept_pending a in
      if \<not> elua_uip_configured a then (Some (- 1, (0, 0)), u)
      else case elua_net_find_pending port ps of
        None \<Rightarrow> (None, u)
      | Some i \<Rightarrow> (Some (int (acc_sock (ps ! i)), acc_remote (ps ! i)),
          u\<lparr>uapp := a\<lparr>elua_uip_accept_pending := ps[i := (ps ! i)\<lparr>accept_request := False\<rparr>]\<rparr>\<rparr>))"

definition elua_net_connect :: "uip_conf \<Rightarrow> int \<Rightarrow> uip_ipaddr \<Rightarrow> u16 \<Rightarrow> elua_uip \<Rightarrow> (int option \<times> elua_uip) option" where
  "elua_net_connect cfg s addr port u =
     (if \<not> ELUA_UIP_IS_SOCK_OK cfg s u \<or> \<not> is_flags (conns u ! nat s) UIP_RESERVED then Some (Some (- 1), u)
      else do {
        let u = set_pstate s (elua_prep_socket_state NULL_PTR 0 ELUA_NET_NO_LASTCHAR ELUA_NET_ERR_OK ELUA_UIP_STATE_CONNECT) u;
        (r, u) \<leftarrow> uip_connect_socket cfg (nat s) addr (htons cfg port) u;
        let u = u\<lparr>uapp := (uapp u)\<lparr>elua_net_connecting := r\<rparr>\<rparr>;
        Some (if r = None then Some (- 1) else None, u)
      })"

definition connect_done :: "int \<Rightarrow> elua_uip \<Rightarrow> (int \<times> elua_uip) option" where
  "connect_done s u = do {
     r \<leftarrow> done_res s u;
     Some (r, u\<lparr>uapp := (uapp u)\<lparr>elua_net_connecting := None\<rparr>\<rparr>)
   }"

section \<open>The handler is an application of uIP\<close>

lemma frame_refl [simp]: "app_frame w w"
  by (simp add: app_frame_def)

lemma frame_trans: "app_frame w w1 \<Longrightarrow> app_frame w1 w2 \<Longrightarrow> app_frame w w2"
  by (cases "uc w"; cases "uc w1"; cases "uc w2"; simp add: app_frame_def)

lemma frame_calls [simp]:
  "app_frame w (uip_stop w') = app_frame w w'" "app_frame w (uip_restart w') = app_frame w w'" "app_frame w (uip_close w') = app_frame w w'"
  "app_frame w (set_appstate s w') = app_frame w w'" "app_frame w (w'\<lparr>app := a\<rparr>) = app_frame w w'" "app_frame w (w'\<lparr>uslen := n\<rparr>) = app_frame w w'"
  by (simp_all add: app_frame_def uip_stop_def uip_restart_def uip_close_def set_appstate_def)

lemma frame_send: "uip_send data w = Some w' \<Longrightarrow> app_frame w w'"
  by (auto simp: uip_send_def app_frame_def blit_length split: if_splits bind_splits)

lemma frame_appcall_send: "appcall_send cfg w = Some w' \<Longrightarrow> app_frame w w'"
  by (auto simp: appcall_send_def Let_def split: if_splits bind_splits prod.splits dest!: frame_send)
    (auto simp: app_frame_def set_appstate_def blit_length)

lemma elua_appcall_frame: "elua_uip_appcall cfg w = Some w' \<Longrightarrow> app_frame w w'"
  by (auto simp: elua_uip_appcall_def appcall_connected_def appcall_error_def elua_uip_telnet_handle_input_def appcall_recv_def Let_def
      dest!: frame_appcall_send split: if_splits bind_splits prod.splits option.splits)

interpretation elua_app: uip_application cfg "elua_uip_appcall cfg" for cfg
  by unfold_locales (rule elua_appcall_frame)

section \<open>The states of the connections\<close>

lemma free_conn_state:
  assumes "free_conn cs k best = Some j"
  shows "(\<exists>t. best = Some (j, t)) \<or> k \<le> j \<and> j < k + length cs \<and> tcpstate (cs ! (j - k)) \<in> {UIP_CLOSED, UIP_TIME_WAIT}"
  using assms
proof (induction cs k best rule: free_conn.induct)
  case (2 c cs k best)
  show ?case
  proof (cases "is_flags c UIP_CLOSED")
    case True
    then show ?thesis using "2.prems" by (simp add: is_flags_def)
  next
    case False
    let ?b = "if is_flags c UIP_TIME_WAIT \<and> (case best of None \<Rightarrow> True | Some (_, t) \<Rightarrow> rtimer c > t) then Some (k, rtimer c) else best"
    from "2.IH" [OF False] "2.prems" False
    consider t where "?b = Some (j, t)" | "k + 1 \<le> j" "j < k + 1 + length cs" "tcpstate (cs ! (j - (k + 1))) \<in> {UIP_CLOSED, UIP_TIME_WAIT}" by auto
    then show ?thesis
    proof cases
      case 1
      then show ?thesis by (auto simp: is_flags_def split: if_splits)
    next
      case 2
      moreover have "(c # cs) ! (j - k) = cs ! (j - (k + 1))" using 2(1) by (simp add: nth_Cons')
      ultimately show ?thesis by simp
    qed
  qed
qed simp

definition conn_step :: "tcp_state \<Rightarrow> tcp_state \<Rightarrow> bool" where
  "conn_step st st' \<longleftrightarrow> tcp_step st st' \<or> st \<in> {UIP_CLOSED, UIP_TIME_WAIT} \<and> st' = UIP_SYN_RCVD"

lemma on_conn_states:
  assumes r: "on_conn k f u = Some (u', out)" and f: "\<And>w w' out. f w = Some (w', out) \<Longrightarrow> uc w = conns u ! k \<Longrightarrow> conn_step (tcpstate (uc w)) (tcpstate (uc w'))"
    and j: "j < length (conns u)"
  shows "length (conns u') = length (conns u) \<and> conn_step (tcpstate (conns u ! j)) (tcpstate (conns u' ! j))"
proof -
  from r obtain w where w: "f \<lparr>uc = conns u ! k, sock = k, uflags = {}, ulen = 0, uslen = 0, appbuf = ubuf u, app = uapp u\<rparr> = Some (w, out)"
    and u': "u' = u\<lparr>conns := (conns u)[k := uc w], ubuf := appbuf w, uapp := app w\<rparr>"
    by (auto simp: on_conn_def split: bind_splits)
  have "conn_step (tcpstate (conns u ! k)) (tcpstate (uc w))" using f [OF w] by simp
  then show ?thesis using j by (cases "j = k") (auto simp: u' conn_step_def tcp_step_def)
qed

text \<open>C10: The connections follow the state diagram of TCP: the periodic timer and every segment move each connection of the table along an edge of the
  diagram, close it, or leave it; a connection is opened only in a slot that is closed or has only to time out, whatever the handler does.\<close>

theorem elua_tcp_states:
  assumes run: "uip_periodic cfg (elua_uip_appcall cfg) k u = Some (u', out) \<or> uip_input cfg (elua_uip_appcall cfg) g u = Some (u', out)"
    and j: "j < length (conns u)"
  shows "length (conns u') = length (conns u) \<and> conn_step (tcpstate (conns u ! j)) (tcpstate (conns u' ! j))"
  using run
proof
  assume "uip_periodic cfg (elua_uip_appcall cfg) k u = Some (u', out)"
  then have "on_conn k (uip_timer cfg (elua_uip_appcall cfg) (forced_poll u)) (u\<lparr>iss := iss u + 1\<rparr>) = Some (u', out)" by (simp add: uip_periodic_def)
  from on_conn_states [OF this, of j] show ?thesis using j elua_app.timer_step unfolding conn_step_def by (metis uip.select_convs(1) uip.surjective uip.update_convs(4))
next
  assume "uip_input cfg (elua_uip_appcall cfg) g u = Some (u', out)"
  then obtain b where b: "(let v = u\<lparr>ubuf := b\<rparr> in case find_conn (seg_of_conn g) (conns v) of
        Some k \<Rightarrow> if \<not> is_flags (conns v ! k) UIP_SYN_RCVD \<and> seg_flags g = {TCP_SYN} then Some (v, reset_seg g)
          else on_conn k (uip_found cfg (elua_uip_appcall cfg) g) v
      | None \<Rightarrow> if seg_flags g \<noteq> {TCP_SYN} then Some (v, reset_seg g)
          else if dport g \<in> set (listenports v) then uip_found_listen cfg g v else Some (v, reset_seg g)) = Some (u', out)"
    unfolding uip_input_def by (auto split: bind_splits)
  let ?v = "u\<lparr>ubuf := b\<rparr>"
  have same: "length (conns ?v) = length (conns u) \<and> conn_step (tcpstate (conns u ! j)) (tcpstate (conns ?v ! j))" by (simp add: conn_step_def tcp_step_def)
  consider (same) "u' = ?v" | (found) i where "on_conn i (uip_found cfg (elua_uip_appcall cfg) g) ?v = Some (u', out)"
    | (listen) "uip_found_listen cfg g ?v = Some (u', out)"
    using b by (auto simp: Let_def split: option.splits if_splits)
  then show ?thesis
  proof cases
    case same
    then show ?thesis using \<open>length (conns ?v) = _ \<and> _\<close> by simp
  next
    case (found i)
    have step: "conn_step (tcpstate (uc w)) (tcpstate (uc w'))" if "uip_found cfg (elua_uip_appcall cfg) g w = Some (w', out)" for w w' out
      using elua_app.found_step [OF that] by (simp add: conn_step_def)
    from on_conn_states [OF found step] j show ?thesis by simp
  next
    case listen
    show ?thesis
    proof (cases "free_conn (conns u) 0 None")
      case None
      then show ?thesis using listen \<open>length (conns ?v) = _ \<and> _\<close> by (simp add: uip_found_listen_def)
    next
      case (Some i)
      have st: "tcpstate (conns u ! i) \<in> {UIP_CLOSED, UIP_TIME_WAIT}" using free_conn_state [OF Some] by simp
      let ?f = "\<lambda>w. set_mss cfg (appbuf w) (length (seg_opts g)) (new_conn g (iss u) (uc w)) \<bind> (\<lambda>c. send_syn cfg {TCP_ACK} (w\<lparr>uc := c\<rparr>))"
      have on: "on_conn i ?f ?v = Some (u', out)" using listen Some by (simp add: uip_found_listen_def)
      have step: "conn_step (tcpstate (uc w)) (tcpstate (uc w'))" if "?f w = Some (w', out)" "uc w = conns ?v ! i" for w :: "elua_net uip_work" and w' out
      proof -
        from that(1) obtain c where c: "set_mss cfg (appbuf w) (length (seg_opts g)) (new_conn g (iss u) (uc w)) = Some c"
          "send_syn cfg {TCP_ACK} (w\<lparr>uc := c\<rparr>) = Some (w', out)" by (auto split: bind_splits)
        have "tcpstate (uc w') = UIP_SYN_RCVD" using set_mss_simps(1) [OF c(1)] send_syn_SomeD [OF c(2)] by (simp add: new_conn_def)
        then show ?thesis using that(2) st by (simp add: conn_step_def)
      qed
      from on_conn_states [OF on step] j show ?thesis by simp
    qed
  qed
qed

theorem elua_tcp_states_witness:
  "\<exists>u' out. uip_periodic example_uip_conf (elua_uip_appcall example_uip_conf) 0
      \<lparr>conns = [example_conn\<lparr>tcpstate := UIP_TIME_WAIT, stopped := False, rtimer := 119\<rparr>], listenports = [], lastport = 4096, iss = 1, forced_poll = False, ubuf = [],
        uapp = \<lparr>elua_uip_configured = True, elua_uip_telnet_socket = None, elua_uip_accept_pending = [], elua_net_connecting = None, appstates = []\<rparr>\<rparr> = Some (u', out)
    \<and> tcpstate (conns u' ! 0) = UIP_CLOSED \<and> conn_step UIP_TIME_WAIT (tcpstate (conns u' ! 0))"
proof -
  let ?u = "\<lparr>conns = [example_conn\<lparr>tcpstate := UIP_TIME_WAIT, stopped := False, rtimer := 119\<rparr>], listenports = [], lastport = 4096, iss = 1, forced_poll = False, ubuf = [],
        uapp = \<lparr>elua_uip_configured = True, elua_uip_telnet_socket = None, elua_uip_accept_pending = [], elua_net_connecting = None, appstates = []\<rparr>\<rparr> :: elua_uip"
  obtain u' out where u': "uip_periodic example_uip_conf (elua_uip_appcall example_uip_conf) 0 ?u = Some (u', out)" "tcpstate (conns u' ! 0) = UIP_CLOSED"
    by (simp add: uip_periodic_def on_conn_def uip_timer_def is_flags_def uip_drop_def Let_def)
  with elua_tcp_states [OF disjI1 [OF u'(1)], of 0] show ?thesis by auto
qed

end
