(* ===== verification/Net_Stream.thy ===== *)
theory Net_Stream
  imports Elua_Net
begin

text \<open>
  Sending over a socket, from the call to the bytes that the peer has: \<^verbatim>\<open>elua_net_send\<close>, the handler \<^verbatim>\<open>elua_uip_appcall\<close> and the TCP of uIP
  under it, against a network that loses, delays, repeats and reorders segments. The lemmas follow one socket through the steps of uIP; the
  theorems say that the peer gets a prefix of the data, all of them when the call returns without an error, and that a network without losses
  brings the call to its end. The last section shows what happens when the window of the peer shrinks.
\<close>

section \<open>16-bit lengths\<close>

lemma unat_of_nat16: "n < 2 ^ 16 \<Longrightarrow> unat (of_nat n :: u16) = n"
  by (simp add: unat_of_nat take_bit_nat_eq_self)

lemma sint_of_nat16: "n < 2 ^ 15 \<Longrightarrow> sint (of_nat n :: u16) = int n"
  by (simp only: signed_of_nat) (simp add: signed_take_bit_int_eq_self)

lemma UMIN_of_nat:
  assumes "n < 2 ^ 15"
  shows "UMIN (of_nat n) m = of_nat (min n (unat m))"
proof -
  have "uint m = int (unat m)" by simp
  moreover have "m = of_nat (unat m)" by simp
  ultimately show ?thesis unfolding UMIN_def sint_of_nat16 [OF assms] by (metis of_nat_less_iff min_def nat_less_le not_le)
qed

lemma sless_of_nat16: "n < 2 ^ 15 \<Longrightarrow> (0 <s (of_nat n :: u16)) = (0 < n)"
  by (simp add: word_sless_alt sint_of_nat16)

lemma of_nat16_eq_0: "n < 2 ^ 16 \<Longrightarrow> ((of_nat n :: u16) = 0) = (n = 0)"
  by (metis of_nat_0 unat_eq_zero unat_of_nat16)

lemma of_nat16_diff: "n \<le> m \<Longrightarrow> (of_nat m :: u16) - of_nat n = of_nat (m - n)"
  by (simp add: of_nat_diff)

lemma of_nat16_pos: "n < 2 ^ 16 \<Longrightarrow> (0 < (of_nat n :: u16)) = (0 < n)"
  by (metis of_nat16_eq_0 neq0_conv word_neq_0_conv)

section \<open>The handler while data are sent\<close>

definition chars_at :: "u8 list \<Rightarrow> nat \<Rightarrow> u8 list \<Rightarrow> bool" where
  "chars_at obj off buf \<longleftrightarrow> fetch obj off (length buf) = Some buf"

lemma chars_at_read:
  assumes "chars_at obj off buf" and "d + n \<le> length buf"
  shows "read_at (CHARS obj (off + d)) n = Some (take n (drop d buf))"
proof -
  from assms have le: "off + length buf \<le> length obj" and b: "buf = take (length buf) (drop off obj)"
    by (auto simp: chars_at_def fetch_def split: if_splits)
  have "take n (drop d buf) = take n (drop (off + d) obj)"
    by (subst b) (use assms(2) in \<open>simp add: drop_take ac_simps min_def\<close>)
  then show ?thesis using le assms(2) by (simp add: fetch_def)
qed

definition send_state :: "u8 list \<Rightarrow> nat \<Rightarrow> nat \<Rightarrow> nat \<Rightarrow> elua_uip_state" where
  "send_state obj off d n = \<lparr>ua_state = ELUA_UIP_STATE_SEND, ua_res = 0, ua_ptr = CHARS obj (off + d), ua_len = of_nat n, ua_readto = - 1\<rparr>"

lemma send_state_simps [simp]:
  "ua_state (send_state obj off d n) = ELUA_UIP_STATE_SEND" "ua_res (send_state obj off d n) = 0"
  "ua_ptr (send_state obj off d n) = CHARS obj (off + d)" "ua_len (send_state obj off d n) = of_nat n"
  by (simp_all add: send_state_def)

text \<open>A socket of the model that sends: \<open>d\<close> of the bytes are acknowledged.\<close>

definition sends :: "uip_conf \<Rightarrow> u8 list \<Rightarrow> nat \<Rightarrow> u8 list \<Rightarrow> nat \<Rightarrow> elua_net uip_work \<Rightarrow> bool" where
  "sends cfg obj off buf d w \<longleftrightarrow>
     elua_uip_configured (app w) \<and> sock w < length (appstates (app w)) \<and> \<not> telnet_conn cfg w \<and> length buf < 2 ^ 15
     \<and> chars_at obj off buf \<and> d < length buf \<and> unat (mss (uc w)) \<le> length (appbuf w) \<and> 0 < mss (uc w)
     \<and> appstate w = send_state obj off d (length buf - d)"

lemma set_appstate_same: "sock w < length (appstates (app w)) \<Longrightarrow> set_appstate (appstate w) w = w"
  by (simp add: set_appstate_def appstate_def)

lemma uip_send_fetch:
  assumes "data \<noteq> []" and "length data \<le> length (appbuf w)"
  obtains b where "uip_send data w = Some (w\<lparr>uslen := of_nat (length data), appbuf := b\<rparr>)" "length b = length (appbuf w)" "fetch b 0 (length data) = Some data"
proof -
  from assms obtain b where b: "blit (appbuf w) 0 data = Some b" unfolding blit_def by auto
  then have "length b = length (appbuf w)" "fetch b 0 (length data) = Some data" by (auto simp: blit_def fetch_def split: if_splits)
  with b assms(1) show thesis by (intro that [of b]) (simp_all add: uip_send_def)
qed

lemma send_piece:
  assumes buf: "length buf < 2 ^ 15" "chars_at obj off buf" "d < length buf" and m: "unat (mss (uc w)) \<le> length (appbuf w)" "0 < mss (uc w)"
    and nt: "\<not> telnet_conn cfg w" and st: "ack_len w = send_state obj off d (length buf - d)" and n: "n = min (length buf - d) (unat (mss (uc w)))"
  obtains b where "appcall_send cfg w = Some ((set_appstate (send_state obj off d (length buf - d)) w)\<lparr>uslen := of_nat n, appbuf := b\<rparr>)"
    "length b = length (appbuf w)" "fetch b 0 n = Some (take n (drop d buf))" "0 < n" "n < 2 ^ 15"
proof -
  have l: "length buf - d < 2 ^ 15" using buf by linarith
  have data: "length (take n (drop d buf)) = n" "take n (drop d buf) \<noteq> []" "n \<le> length (appbuf w)" "n < 2 ^ 16" "0 < n" "n < 2 ^ 15"
    using buf m n by (auto simp: word_less_nat_alt)
  have ab: "appbuf (set_appstate t w) = appbuf w" for t by (simp add: set_appstate_def)
  have "read_at (CHARS obj (off + d)) n = Some (take n (drop d buf))" using buf n by (intro chars_at_read) auto
  moreover have "unat (UMIN (of_nat (length buf - d)) (mss (uc w))) = n"
    unfolding UMIN_of_nat [OF l] using data(4) n by (simp add: unat_of_nat16)
  moreover have "0 <s (of_nat (length buf - d) :: u16)" unfolding sless_of_nat16 [OF l] using buf by linarith
  ultimately have "appcall_send cfg w = uip_send (take n (drop d buf)) (set_appstate (send_state obj off d (length buf - d)) w)"
    using nt by (simp add: appcall_send_def Let_def st)
  with uip_send_fetch [OF data(2), of "set_appstate (send_state obj off d (length buf - d)) w"] data(1,3,5,6) show thesis
    unfolding ab by (metis that)
qed

text \<open>Asked for data, again or for the first time, the handler puts the next piece into the packet.\<close>

lemma appcall_sends:
  assumes s: "sends cfg obj off buf d w" and f: "uflags w = {UIP_POLL} \<or> uflags w = {UIP_REXMIT}" and n: "n = min (length buf - d) (unat (mss (uc w)))"
  obtains b where "elua_uip_appcall cfg w = Some (w\<lparr>uslen := of_nat n, appbuf := b\<rparr>)" "length b = length (appbuf w)"
    "fetch b 0 n = Some (take n (drop d buf))" "0 < n" "n < 2 ^ 15"
proof -
  let ?s = "send_state obj off d (length buf - d)"
  note S = s [unfolded sends_def]
  have st: "appstate w = ?s" and cf: "elua_uip_configured (app w)" and nt: "\<not> telnet_conn cfg w" and buf: "length buf < 2 ^ 15" "chars_at obj off buf" "d < length buf"
    and m: "unat (mss (uc w)) \<le> length (appbuf w)" "0 < mss (uc w)" using S by blast+
  have ack: "ack_len w = ?s" using f by (simp only: ack_len_def Let_def st) (elim disjE; simp)
  have "set_appstate ?s w = w" using set_appstate_same [of w] S unfolding st by blast
  moreover have "elua_uip_appcall cfg w = appcall_send cfg w"
    using f by (elim disjE) (simp_all add: elua_uip_appcall_def st cf)
  ultimately show thesis using that send_piece [OF buf m nt ack n] by metis
qed

text \<open>When a piece is acknowledged, the next one follows, or the call is over.\<close>

definition sent_state :: "u8 list \<Rightarrow> nat \<Rightarrow> nat \<Rightarrow> elua_uip_state" where
  "sent_state obj off d = (send_state obj off d 0)\<lparr>ua_state := ELUA_UIP_STATE_IDLE\<rparr>"

lemma ack_len_send:
  assumes st: "appstate w = send_state obj off d k" and k: "k < 2 ^ 15" and f: "UIP_ACKDATA \<in> uflags w" and n: "n = min k (unat (mss (uc w)))"
  shows "ack_len w = (if k = n then sent_state obj off (d + n) else send_state obj off (d + n) (k - n))"
proof -
  have le: "n \<le> k" by (simp add: n)
  then have n16: "unat (of_nat n :: u16) = n" using k by (simp add: unat_of_nat16)
  have u: "UMIN (of_nat k) (mss (uc w)) = of_nat n" unfolding UMIN_of_nat [OF k] n by simp
  have z: "(of_nat k :: u16) - of_nat n = of_nat (k - n)" using of_nat16_diff [OF le] .
  have e: "((of_nat (k - n) :: u16) = 0) = (k = n)" using of_nat16_eq_0 [of "k - n"] k le by auto
  show ?thesis
    unfolding ack_len_def Let_def st send_state_simps u z e n16 using f
    by (simp add: sent_state_def send_state_def add.assoc del: of_nat_diff)
qed

lemma appcall_acked:
  assumes s: "sends cfg obj off buf d w" and f: "UIP_ACKDATA \<in> uflags w" "uflags w \<inter> {UIP_CONNECTED, UIP_ABORT, UIP_TIMEDOUT, UIP_CLOSE} = {}"
    and n: "n = min (length buf - d) (unat (mss (uc w)))" and n': "n' = min (length buf - (d + n)) (unat (mss (uc w)))"
  shows "d + n = length buf \<Longrightarrow> elua_uip_appcall cfg w = Some (set_appstate (sent_state obj off (length buf)) w)"
    and "d + n < length buf \<Longrightarrow>
      \<exists>b. elua_uip_appcall cfg w = Some ((set_appstate (send_state obj off (d + n) (length buf - (d + n))) w)\<lparr>uslen := of_nat n', appbuf := b\<rparr>)
        \<and> length b = length (appbuf w) \<and> fetch b 0 n' = Some (take n' (drop (d + n) buf)) \<and> 0 < n' \<and> n' < 2 ^ 15"
proof -
  note S = s [unfolded sends_def]
  have st: "appstate w = send_state obj off d (length buf - d)" and cf: "elua_uip_configured (app w)" and nt: "\<not> telnet_conn cfg w"
    and buf: "length buf < 2 ^ 15" "chars_at obj off buf" "d < length buf"
    and m: "unat (mss (uc w)) \<le> length (appbuf w)" "0 < mss (uc w)" using S by blast+
  have "n \<le> length buf - d" by (simp add: n)
  then have l: "length buf - d < 2 ^ 15" and le: "d + n \<le> length buf" using buf by simp_all
  have call: "elua_uip_appcall cfg w = appcall_send cfg w"
    using f by (auto simp: elua_uip_appcall_def st cf)
  have ack: "ack_len w = (if d + n = length buf then sent_state obj off (length buf) else send_state obj off (d + n) (length buf - (d + n)))"
    using ack_len_send [OF st l f(1) n] buf le by auto
  show "d + n = length buf \<Longrightarrow> elua_uip_appcall cfg w = Some (set_appstate (sent_state obj off (length buf)) w)"
    using ack call by (simp add: appcall_send_def sent_state_def)
  show "\<exists>b. elua_uip_appcall cfg w = Some ((set_appstate (send_state obj off (d + n) (length buf - (d + n))) w)\<lparr>uslen := of_nat n', appbuf := b\<rparr>)
        \<and> length b = length (appbuf w) \<and> fetch b 0 n' = Some (take n' (drop (d + n) buf)) \<and> 0 < n' \<and> n' < 2 ^ 15" if "d + n < length buf"
  proof -
    have "ack_len w = send_state obj off (d + n) (length buf - (d + n))" using ack that by simp
    then show ?thesis using send_piece [OF buf(1,2) that m nt _ n'] call by metis
  qed
qed

section \<open>A socket and its peer\<close>

text \<open>
  The other side of a connection. The network keeps every segment that was sent (it may lose, delay, repeat and reorder them); the peer takes
  a segment when its number is the next one, as TCP prescribes, and acknowledges bytes it took, at any time and as often as it likes. Its window
  is open for a whole segment, or closed. In the packet buffer may be anything between two runs of uIP on this connection.
\<close>

definition conn_work :: "nat \<Rightarrow> elua_uip \<Rightarrow> elua_net uip_work" where
  "conn_work k u = \<lparr>uc = conns u ! k, sock = k, uflags = {}, ulen = 0, uslen = 0, appbuf = ubuf u, app = uapp u\<rparr>"

definition peer_seg :: "u32 \<Rightarrow> u8 list \<Rightarrow> uip_conn \<Rightarrow> tcp_seg \<Rightarrow> bool" where
  "peer_seg base r c g \<longleftrightarrow>
     (TCP_ACK \<in> seg_flags g \<longrightarrow> (\<exists>k \<in> {..length r}. ackno g = base + of_nat k)) \<and> (wnd g = 0 \<or> initialmss c \<le> wnd g)"

type_synonym link = "elua_net uip_work \<times> tcp_seg set \<times> u8 list"

inductive exchange :: "uip_conf \<Rightarrow> u32 \<Rightarrow> link \<Rightarrow> link \<Rightarrow> bool" for cfg base s where
  start: "exchange cfg base s s"
| timer: "exchange cfg base s (w, N, r) \<Longrightarrow> length b = length (appbuf w) \<Longrightarrow>
    uip_timer cfg (elua_uip_appcall cfg) forced (w\<lparr>appbuf := b\<rparr>) = Some (w', out) \<Longrightarrow> exchange cfg base s (w', N \<union> set_option out, r)"
| input: "exchange cfg base s (w, N, r) \<Longrightarrow> length b = length (appbuf w) \<Longrightarrow> peer_seg base r (uc w) g \<Longrightarrow>
    uip_found cfg (elua_uip_appcall cfg) g (w\<lparr>appbuf := b\<rparr>) = Some (w', out) \<Longrightarrow> exchange cfg base s (w', N \<union> set_option out, r)"
| deliver: "exchange cfg base s (w, N, r) \<Longrightarrow> g \<in> N \<Longrightarrow> seqno g = base + of_nat (length r) \<Longrightarrow> exchange cfg base s (w, N, r @ seg_data g)"

section \<open>A socket that waits for nothing\<close>

definition idle :: "elua_net uip_work \<Rightarrow> bool" where
  "idle w \<longleftrightarrow> ua_state (appstate w) = ELUA_UIP_STATE_IDLE \<and> tcpstate (uc w) \<notin> {UIP_SYN_RCVD, UIP_SYN_SENT}"

definition no_data :: "tcp_seg option \<Rightarrow> bool" where
  "no_data out \<longleftrightarrow> (\<forall>g. out = Some g \<longrightarrow> seg_data g = [])"

lemma no_data_simps [simp]: "no_data None" "no_data (Some g) = (seg_data g = [])"
  by (simp_all add: no_data_def)

lemma send_nodata_data: "send_nodata cfg fl w = Some (w', out) \<Longrightarrow> no_data out \<and> app w' = app w \<and> sock w' = sock w \<and> uc w' = uc w \<and> appbuf w' = appbuf w"
  by (auto simp: send_nodata_def tcp_send_def)

lemma uip_drop_data: "uip_drop w = Some (w', out) \<Longrightarrow> no_data out \<and> app w' = app w \<and> sock w' = sock w \<and> uc w' = uc w \<and> appbuf w' = appbuf w"
  by (auto simp: uip_drop_def)

lemma apprexmit_no_data: "apprexmit cfg w = Some (w', out) \<Longrightarrow> uslen w = 0 \<Longrightarrow> no_data out \<and> app w' = app w \<and> sock w' = sock w \<and> uc w' = uc w \<and> appbuf w' = appbuf w"
  by (auto simp: apprexmit_def dest: send_nodata_data uip_drop_data split: if_splits)

lemma appsend_no_data:
  "appsend cfg w = Some (w', out) \<Longrightarrow> uslen w = 0 \<Longrightarrow> no_data out \<and> app w' = app w \<and> sock w' = sock w \<and> appbuf w' = appbuf w"
  by (auto simp: appsend_def take_slen_def Let_def dest!: send_nodata_data apprexmit_no_data split: if_splits)

lemma appcall_idle: "ua_state (appstate w) = ELUA_UIP_STATE_IDLE \<Longrightarrow> UIP_CONNECTED \<notin> uflags w \<Longrightarrow> elua_uip_appcall cfg w = Some w"
  by (simp add: elua_uip_appcall_def Let_def)

lemma appstate_cong: "app w' = app w \<Longrightarrow> sock w' = sock w \<Longrightarrow> appstate w' = appstate w"
  by (simp add: appstate_def)

definition same_app :: "elua_net uip_work \<Rightarrow> elua_net uip_work \<Rightarrow> bool" where
  "same_app w w' \<longleftrightarrow> app w' = app w \<and> sock w' = sock w \<and> length (appbuf w') = length (appbuf w)"

lemma idle_timer:
  assumes i: "idle w" and r: "uip_timer cfg (elua_uip_appcall cfg) forced w = Some (w', out)"
  shows "no_data out \<and> same_app w w' \<and> idle w'"
proof -
  have call: "elua_uip_appcall cfg (w\<lparr>ulen := l, uslen := n, uc := c, uflags := f\<rparr>) = Some (w\<lparr>ulen := l, uslen := n, uc := c, uflags := f\<rparr>)"
    "elua_uip_appcall cfg (w\<lparr>ulen := l, uslen := n, uflags := f\<rparr>) = Some (w\<lparr>ulen := l, uslen := n, uflags := f\<rparr>)"
    if "UIP_CONNECTED \<notin> f" for l n c f
    using i that by (intro appcall_idle; simp add: idle_def appstate_def)+
  have "no_data out \<and> same_app w w'"
    using r i unfolding uip_timer_def uip_timeout_def Let_def
    by (auto simp: call same_app_def idle_def send_syn_def dest!: send_nodata_data uip_drop_data apprexmit_no_data appsend_no_data
        split: if_splits tcp_state.splits)
  moreover from this have "appstate w' = appstate w" by (simp add: same_app_def appstate_def)
  ultimately show ?thesis using elua_app.timer_step [OF r] i
    by (cases "tcpstate (uc w)") (auto simp: idle_def tcp_step_def)
qed

lemma idle_call:
  assumes "ua_state (appstate w) = ELUA_UIP_STATE_IDLE" and "app v = app w" "sock v = sock w" "UIP_CONNECTED \<notin> uflags v"
  shows "elua_uip_appcall cfg v = Some v"
  using assms by (intro appcall_idle) (simp_all add: appstate_def)

lemma idle_established:
  assumes i: "ua_state (appstate w) = ELUA_UIP_STATE_IDLE" and v: "app v = app w" "sock v = sock w" "UIP_CONNECTED \<notin> uflags v"
    and r: "established_input cfg (elua_uip_appcall cfg) g v = Some (w', out)"
  shows "no_data out \<and> app w' = app w \<and> sock w' = sock w \<and> appbuf w' = appbuf v"
proof (cases "TCP_FIN \<in> seg_flags g \<and> \<not> stopped (uc v)")
  case True
  then show ?thesis using r v
    by (auto simp: established_input_def idle_call [OF i] dest!: uip_drop_data send_nodata_data split: if_splits)
next
  case False
  then show ?thesis using r v
    by (auto simp: established_input_def Let_def idle_call [OF i] dest!: uip_drop_data appsend_no_data split: if_splits)
qed

lemma idle_closing:
  assumes i: "ua_state (appstate w) = ELUA_UIP_STATE_IDLE" and v: "app v = app w" "sock v = sock w" "UIP_CONNECTED \<notin> uflags v"
    and r: "closing_input cfg (elua_uip_appcall cfg) g v = Some (w', out)"
  shows "no_data out \<and> app w' = app w \<and> sock w' = sock w \<and> appbuf w' = appbuf v"
  using r v
  by (auto simp: closing_input_def Let_def idle_call [OF i] dest!: uip_drop_data send_nodata_data split: if_splits tcp_state.splits)

lemma ack_flags: "uflags (ack_outstanding g (w\<lparr>uflags := {}, ulen := n\<rparr>)) \<subseteq> {UIP_ACKDATA}"
  by (simp add: ack_outstanding_def Let_def)

lemma idle_found:
  assumes i: "idle w" and r: "uip_found cfg (elua_uip_appcall cfg) g w = Some (w', out)"
  shows "no_data out \<and> same_app w w' \<and> idle w'"
proof -
  have st: "ua_state (appstate w) = ELUA_UIP_STATE_IDLE" using i by (simp add: idle_def)
  have same: "no_data out \<and> app w' = app w \<and> sock w' = sock w \<and> appbuf w' = appbuf w"
    using r
  proof (cases rule: elua_app.found_split)
    case (rst w1)
    moreover from this(1) have "w1 = w\<lparr>uc := set_state UIP_CLOSED (uc w), uflags := {UIP_ABORT}\<rparr>" by (simp add: idle_call [OF st])
    ultimately show ?thesis using uip_drop_data [of w1 w' out] by simp
  next
    case dup
    then show ?thesis using send_nodata_data by fastforce
  next
    case (input v)
    have v: "app v = app w" "sock v = sock w" "appbuf v = appbuf w" "UIP_CONNECTED \<notin> uflags v"
      using input(1) ack_flags [where g = g and w = w and n = "of_nat (length (seg_data g))"] by auto
    show ?thesis using input(4) i v(3) idle_established [OF st v(1,2,4), where cfg = cfg and g = g and w' = w' and out = out] idle_closing [OF st v(1,2,4), where cfg = cfg and g = g and w' = w' and out = out]
      by (cases "tcpstate (uc w)") (simp_all add: idle_def)
  qed
  then have "appstate w' = appstate w" by (simp add: appstate_def)
  then show ?thesis using elua_app.found_step [OF r] i same
    by (cases "tcpstate (uc w)") (auto simp: idle_def tcp_step_def same_app_def)
qed

section \<open>The socket that sends\<close>

text \<open>\<open>d\<close> bytes are acknowledged; in flight is nothing yet or a whole piece.\<close>

definition sending :: "uip_conf \<Rightarrow> u8 list \<Rightarrow> nat \<Rightarrow> u8 list \<Rightarrow> u32 \<Rightarrow> nat \<Rightarrow> elua_net uip_work \<Rightarrow> bool" where
  "sending cfg obj off buf base d w \<longleftrightarrow>
     sends cfg obj off buf d w \<and> tcpstate (uc w) = UIP_ESTABLISHED \<and> snd_nxt (uc w) = base + of_nat d \<and> mss (uc w) = initialmss (uc w)
     \<and> (conn_len (uc w) = 0 \<or> unat (conn_len (uc w)) = min (length buf - d) (unat (mss (uc w))))"

definition failed :: "u8 list \<Rightarrow> nat \<Rightarrow> elua_net uip_work \<Rightarrow> bool" where
  "failed buf d w \<longleftrightarrow> idle w \<and> ua_len (appstate w) = of_nat (length buf - d) \<and> ua_res (appstate w) \<noteq> 0"

definition finished :: "elua_net uip_work \<Rightarrow> bool" where
  "finished w \<longleftrightarrow> idle w \<and> ua_len (appstate w) = 0 \<and> ua_res (appstate w) = 0"

text \<open>A segment with the bytes of the buffer at its number.\<close>

definition piece :: "u8 list \<Rightarrow> u32 \<Rightarrow> nat \<Rightarrow> nat \<Rightarrow> tcp_seg \<Rightarrow> bool" where
  "piece buf base d n g \<longleftrightarrow> seqno g = base + of_nat d \<and> seg_data g = take n (drop d buf)"

lemma appcall_error_send:
  assumes s: "sends cfg obj off buf d w" and f: "UIP_CONNECTED \<notin> uflags w" "UIP_ABORT \<in> uflags w \<or> UIP_TIMEDOUT \<in> uflags w \<or> UIP_CLOSE \<in> uflags w"
    and st: "tcpstate (uc w) \<notin> {UIP_SYN_RCVD, UIP_SYN_SENT}"
  obtains w' where "elua_uip_appcall cfg w = Some w'" "failed buf d w'" "uc w' = uc w" "appbuf w' = appbuf w"
proof
  note S = s [unfolded sends_def]
  let ?w = "appcall_error cfg w"
  show "elua_uip_appcall cfg w = Some ?w" using S f by (simp add: elua_uip_appcall_def Let_def)
  have sock: "sock w < length (appstates (app w))" and nt: "\<not> telnet_conn cfg w" and a: "appstate w = send_state obj off d (length buf - d)" using S by blast+
  show "uc ?w = uc w" "appbuf ?w = appbuf w" by (simp_all add: appcall_error_def set_appstate_def nt)
  have "appstate ?w = (send_state obj off d (length buf - d))\<lparr>ua_res := (if UIP_ABORT \<in> uflags w then 3 else if UIP_TIMEDOUT \<in> uflags w then 1 else 2),
      ua_state := ELUA_UIP_STATE_IDLE\<rparr>"
    using sock by (simp add: appcall_error_def nt a Let_def) (simp add: appstate_def set_appstate_def)
  moreover have "tcpstate (uc ?w) = tcpstate (uc w)" by (simp add: appcall_error_def set_appstate_def nt)
  ultimately show "failed buf d ?w" using st by (simp add: failed_def idle_def)
qed

lemma of_nat16_unat: "unat x = n \<Longrightarrow> x = (of_nat n :: u16)"
  by auto

lemma apprexmit_piece:
  assumes n: "0 < n" "n < 2 ^ 15" and w: "uslen w = of_nat n" "conn_len (uc w) = of_nat n" "fetch (appbuf w) 0 n = Some data"
  shows "apprexmit cfg w = Some (w\<lparr>uflags := {}\<rparr>, Some (tcp_send cfg (uc w) {TCP_ACK, TCP_PSH} [] data))"
proof -
  have "0 < (of_nat n :: u16)" "unat (of_nat n :: u16) = n" using n by (simp_all add: of_nat16_pos unat_of_nat16)
  then show ?thesis by (simp add: apprexmit_def w)
qed

lemma take_slen_piece:
  assumes n: "0 < n" "n < 2 ^ 15" and w: "uslen w = of_nat n" "n \<le> unat (mss (uc w))"
    and c: "conn_len (uc w) = 0 \<or> conn_len (uc w) = of_nat n \<or> UIP_ACKDATA \<in> uflags w"
  shows "take_slen w = w\<lparr>uc := (uc w)\<lparr>conn_len := of_nat n\<rparr>\<rparr>"
proof -
  have pos: "0 < (of_nat n :: u16)" and nz: "(of_nat n :: u16) \<noteq> 0" using n by (simp_all add: of_nat16_pos of_nat16_eq_0)
  have le: "\<not> mss (uc w) < of_nat n" using w(2) n by (simp add: word_less_nat_alt unat_of_nat16)
  have slen: "w\<lparr>uslen := of_nat n\<rparr> = w" using w(1) by (cases w) simp
  show ?thesis
  proof (cases "UIP_ACKDATA \<in> uflags w \<or> conn_len (uc w) = 0")
    case True
    then show ?thesis using pos le slen by (auto simp: take_slen_def Let_def w(1))
  next
    case False
    then have l: "conn_len (uc w) = of_nat n" using c by simp
    then have "w\<lparr>uc := (uc w)\<lparr>conn_len := of_nat n\<rparr>\<rparr> = w" by (cases "uc w"; cases w) simp
    then show ?thesis using False pos nz slen l by (simp add: take_slen_def Let_def w(1))
  qed
qed

lemma appsend_piece:
  assumes n: "0 < n" "n < 2 ^ 15" and w: "uslen w = of_nat n" "n \<le> unat (mss (uc w))" "fetch (appbuf w) 0 n = Some data"
    and f: "UIP_ABORT \<notin> uflags w" "UIP_CLOSE \<notin> uflags w"
    and c: "conn_len (uc w) = 0 \<or> conn_len (uc w) = of_nat n \<or> UIP_ACKDATA \<in> uflags w"
  shows "appsend cfg w = Some (w\<lparr>uflags := {}, uc := (uc w)\<lparr>conn_len := of_nat n, nrtx := 0\<rparr>\<rparr>,
    Some (tcp_send cfg ((uc w)\<lparr>conn_len := of_nat n, nrtx := 0\<rparr>) {TCP_ACK, TCP_PSH} [] data))"
  using apprexmit_piece [OF n, of "w\<lparr>uc := (uc w)\<lparr>conn_len := of_nat n, nrtx := 0\<rparr>\<rparr>" data cfg] w f
  by (simp add: appsend_def Let_def take_slen_piece [OF n w(1,2) c])

lemma sending_upd:
  assumes s: "sending cfg obj off buf base d w"
    and e: "app w' = app w" "sock w' = sock w" "length (appbuf w') = length (appbuf w)" "tcpstate (uc w') = tcpstate (uc w)"
      "snd_nxt (uc w') = snd_nxt (uc w)" "mss (uc w') = mss (uc w)" "initialmss (uc w') = initialmss (uc w)"
    and c: "conn_len (uc w') = conn_len (uc w) \<or> unat (conn_len (uc w')) = min (length buf - d) (unat (mss (uc w)))"
  shows "sending cfg obj off buf base d w'"
  using s c unfolding sending_def sends_def telnet_conn_def appstate_def e by auto

lemma sendingD:
  assumes "sending cfg obj off buf base d w"
  shows "sends cfg obj off buf d w" "tcpstate (uc w) = UIP_ESTABLISHED" "snd_nxt (uc w) = base + of_nat d" "mss (uc w) = initialmss (uc w)"
    "conn_len (uc w) = 0 \<or> conn_len (uc w) = of_nat (min (length buf - d) (unat (mss (uc w))))" "d < length buf" "length buf < 2 ^ 15"
    "0 < mss (uc w)" "ua_state (appstate w) = ELUA_UIP_STATE_SEND"
proof -
  note S = assms [unfolded sending_def]
  show s: "sends cfg obj off buf d w" and "tcpstate (uc w) = UIP_ESTABLISHED" "snd_nxt (uc w) = base + of_nat d" "mss (uc w) = initialmss (uc w)"
    using S by blast+
  show "conn_len (uc w) = 0 \<or> conn_len (uc w) = of_nat (min (length buf - d) (unat (mss (uc w))))"
    using S of_nat16_unat by blast
  note T = s [unfolded sends_def]
  show "d < length buf" "length buf < 2 ^ 15" "0 < mss (uc w)" using T by blast+
  have "appstate w = send_state obj off d (length buf - d)" using T by blast
  then show "ua_state (appstate w) = ELUA_UIP_STATE_SEND" by simp
qed

lemma sends_upd:
  assumes s: "sends cfg obj off buf d w"
    and e: "app w' = app w" "sock w' = sock w" "length (appbuf w') = length (appbuf w)" "mss (uc w') = mss (uc w)"
  shows "sends cfg obj off buf d w'"
  using s unfolding sends_def telnet_conn_def appstate_def e .

lemma sending_timeout:
  assumes s: "sending cfg obj off buf base d w" and c: "conn_len (uc w) \<noteq> 0" and r: "uip_timeout cfg (elua_uip_appcall cfg) w = Some (w', out)"
  shows "sending cfg obj off buf base d w' \<and> conn_len (uc w') = conn_len (uc w) \<and> (\<exists>g. out = Some g \<and> piece buf base d (unat (conn_len (uc w))) g)
    \<or> failed buf d w' \<and> no_data out"
proof (cases "nrtx (uc w) = UIP_MAXRTX")
  case True
  let ?w = "w\<lparr>uc := set_state UIP_CLOSED (uc w), uflags := {UIP_TIMEDOUT}\<rparr>"
  have "sends cfg obj off buf d ?w" by (rule sends_upd [OF sendingD(1) [OF s]]) simp_all
  then obtain w1 where w1: "elua_uip_appcall cfg ?w = Some w1" "failed buf d w1"
    by (rule appcall_error_send) auto
  then have "send_nodata cfg {TCP_RST, TCP_ACK} w1 = Some (w', out)" using r True by (simp add: uip_timeout_def Let_def)
  then have "no_data out" "app w' = app w1" "sock w' = sock w1" "uc w' = uc w1" using send_nodata_data by blast+
  then show ?thesis using w1(2) by (simp add: failed_def idle_def appstate_def)
next
  case False
  define n where "n = min (length buf - d) (unat (mss (uc w)))"
  let ?c = "(uc w)\<lparr>rtimer := push_bit (if nrtx (uc w) > 4 then 4 else unat (nrtx (uc w))) UIP_RTO, nrtx := nrtx (uc w) + 1\<rparr>"
  let ?w = "w\<lparr>uc := ?c, uflags := {UIP_REXMIT}\<rparr>"
  have cl: "conn_len (uc w) = of_nat n" using sendingD(5) [OF s] c unfolding n_def by blast
  have s1: "sends cfg obj off buf d ?w" by (rule sends_upd [OF sendingD(1) [OF s]]) simp_all
  have f: "uflags ?w = {UIP_POLL} \<or> uflags ?w = {UIP_REXMIT}" and n': "n = min (length buf - d) (unat (mss (uc ?w)))" by (simp_all add: n_def)
  obtain b where b: "elua_uip_appcall cfg ?w = Some (?w\<lparr>uslen := of_nat n, appbuf := b\<rparr>)" "length b = length (appbuf ?w)"
    "fetch b 0 n = Some (take n (drop d buf))" "0 < n" "n < 2 ^ 15"
    by (rule appcall_sends [OF s1 f n'])
  have "apprexmit cfg (?w\<lparr>uslen := of_nat n, appbuf := b\<rparr>) = Some (w', out)"
    using r False b(1) sendingD(2) [OF s] by (simp add: uip_timeout_def Let_def is_flags_def)
  with apprexmit_piece [OF b(4,5), of "?w\<lparr>uslen := of_nat n, appbuf := b\<rparr>" _ cfg] b(3) cl
  have w': "w' = ?w\<lparr>uslen := of_nat n, appbuf := b, uflags := {}\<rparr>"
    and out: "out = Some (tcp_send cfg ?c {TCP_ACK, TCP_PSH} [] (take n (drop d buf)))" by simp_all
  have n: "unat (conn_len (uc w)) = n" unfolding cl using b(5) by (simp add: unat_of_nat16)
  have "sending cfg obj off buf base d w'" using b(2) by (intro sending_upd [OF s]) (simp_all add: w')
  moreover have "piece buf base d (unat (conn_len (uc w))) (tcp_send cfg ?c {TCP_ACK, TCP_PSH} [] (take n (drop d buf)))"
    using sendingD(3) [OF s] n by (simp add: piece_def tcp_send_def)
  ultimately show ?thesis using out by (simp add: w')
qed

lemma sending_poll:
  assumes s: "sending cfg obj off buf base d w" and q: "\<not> (uip_outstanding (uc w) \<and> \<not> forced)"
  shows "\<exists>w' g. uip_timer cfg (elua_uip_appcall cfg) forced w = Some (w', Some g) \<and> sending cfg obj off buf base d w'
    \<and> piece buf base d (unat (conn_len (uc w'))) g \<and> conn_len (uc w') \<noteq> 0 \<and> (conn_len (uc w) = 0 \<or> conn_len (uc w') = conn_len (uc w))"
proof -
  define n where "n = min (length buf - d) (unat (mss (uc w)))"
  let ?v = "w\<lparr>ulen := 0, uslen := 0, uflags := {UIP_POLL}\<rparr>"
  have act: "uip_conn_active (uc w)" "\<not> is_flags (uc w) UIP_TIME_WAIT" "\<not> is_flags (uc w) UIP_FIN_WAIT_2"
    using sendingD(2) [OF s] by (simp_all add: uip_conn_active_def is_flags_def)
  have s1: "sends cfg obj off buf d ?v" by (rule sends_upd [OF sendingD(1) [OF s]]) simp_all
  have f: "uflags ?v = {UIP_POLL} \<or> uflags ?v = {UIP_REXMIT}" and n': "n = min (length buf - d) (unat (mss (uc ?v)))" by (simp_all add: n_def)
  obtain b where b: "elua_uip_appcall cfg ?v = Some (?v\<lparr>uslen := of_nat n, appbuf := b\<rparr>)" "length b = length (appbuf ?v)"
    "fetch b 0 n = Some (take n (drop d buf))" "0 < n" "n < 2 ^ 15"
    by (rule appcall_sends [OF s1 f n'])
  let ?c = "(uc w)\<lparr>conn_len := of_nat n, nrtx := 0\<rparr>"
  let ?w = "?v\<lparr>uslen := of_nat n, appbuf := b, uflags := {}, uc := ?c\<rparr>"
  let ?g = "tcp_send cfg ?c {TCP_ACK, TCP_PSH} [] (take n (drop d buf))"
  have "appsend cfg (?v\<lparr>uslen := of_nat n, appbuf := b\<rparr>) = Some (?w, Some ?g)"
    using appsend_piece [OF b(4,5), of "?v\<lparr>uslen := of_nat n, appbuf := b\<rparr>" _ cfg] b(3) sendingD(5) [OF s] n' by simp
  then have "uip_timer cfg (elua_uip_appcall cfg) forced w = Some (?w, Some ?g)"
    using q act b(1) sendingD(2) [OF s] by (auto simp: uip_timer_def Let_def)
  moreover have n: "unat (of_nat n :: u16) = n" "(of_nat n :: u16) \<noteq> 0" using b(4,5) by (simp_all add: unat_of_nat16 of_nat16_eq_0)
  moreover have "sending cfg obj off buf base d ?w" using b(2) n by (intro sending_upd [OF s]) (simp_all add: n_def)
  moreover have "piece buf base d (unat (conn_len (uc ?w))) ?g"
    using sendingD(3) [OF s] n by (simp add: piece_def tcp_send_def)
  moreover have "conn_len (uc w) = 0 \<or> conn_len (uc ?w) = conn_len (uc w)" using sendingD(5) [OF s] by (auto simp: n_def)
  moreover have "conn_len (uc ?w) \<noteq> 0" using n(2) by simp
  ultimately show ?thesis by blast
qed

lemma sending_timer:
  assumes s: "sending cfg obj off buf base d w" and r: "uip_timer cfg (elua_uip_appcall cfg) forced w = Some (w', out)"
  shows "sending cfg obj off buf base d w' \<and> (conn_len (uc w) = 0 \<or> conn_len (uc w') = conn_len (uc w))
      \<and> (no_data out \<or> (\<exists>g. out = Some g \<and> piece buf base d (unat (conn_len (uc w'))) g))
    \<or> failed buf d w' \<and> no_data out"
proof -
  let ?w = "w\<lparr>ulen := 0, uslen := 0\<rparr>"
  have act: "uip_conn_active (uc w)" "\<not> is_flags (uc w) UIP_TIME_WAIT" "\<not> is_flags (uc w) UIP_FIN_WAIT_2"
    using sendingD(2) [OF s] by (simp_all add: uip_conn_active_def is_flags_def)
  show ?thesis
  proof (cases "uip_outstanding (uc w) \<and> \<not> forced")
    case True
    let ?v = "?w\<lparr>uc := (uc w)\<lparr>rtimer := rtimer (uc w) - 1\<rparr>\<rparr>"
    have v: "sending cfg obj off buf base d ?v" by (intro sending_upd [OF s]) simp_all
    have c: "conn_len (uc ?v) \<noteq> 0" using True by (simp add: uip_outstanding_def)
    show ?thesis
    proof (cases "rtimer (uc w) = 0")
      case z: True
      then have "uip_timeout cfg (elua_uip_appcall cfg) ?v = Some (w', out)" using r True act by (simp add: uip_timer_def Let_def)
      from sending_timeout [OF v c this] show ?thesis by auto
    next
      case z: False
      then have "uip_drop ?v = Some (w', out)" using r True act by (simp add: uip_timer_def Let_def)
      then have "w' = ?v\<lparr>uflags := {}\<rparr>" "out = None" by (auto simp: uip_drop_def)
      moreover from this(1) have "sending cfg obj off buf base d w'" by (intro sending_upd [OF s]) simp_all
      ultimately show ?thesis by simp
    qed
  next
    case False
    from sending_poll [OF s this] r show ?thesis by auto
  qed
qed

text \<open>What a segment acknowledges: the whole piece in flight, which the peer then has, or nothing.\<close>

lemma ack_cases:
  assumes s: "sending cfg obj off buf base d w" and p: "peer_seg base r (uc w) g" "length r \<le> length buf"
  obtains (new) n v where "n = unat (conn_len (uc w))" "0 < n" "d + n \<le> length r" "d + n \<le> length buf" "n = min (length buf - d) (unat (mss (uc w)))"
      "ack_outstanding g (w\<lparr>uflags := {}, ulen := m\<rparr>) = v" "uflags v = {UIP_ACKDATA}" "conn_len (uc v) = 0"
      "snd_nxt (uc v) = base + of_nat (d + n)" "mss (uc v) = mss (uc w)" "initialmss (uc v) = initialmss (uc w)" "tcpstate (uc v) = UIP_ESTABLISHED"
  | (old) "ack_outstanding g (w\<lparr>uflags := {}, ulen := m\<rparr>) = w\<lparr>uflags := {}, ulen := m\<rparr>"
proof (cases "TCP_ACK \<in> seg_flags g \<and> uip_outstanding (uc w) \<and> ackno g = snd_nxt (uc w) + ucast (conn_len (uc w))")
  case True
  define n where "n = unat (conn_len (uc w))"
  have nz: "conn_len (uc w) \<noteq> 0" using True by (simp add: uip_outstanding_def)
  then have pos: "0 < n" by (simp add: n_def unat_gt_0)
  have n: "n = min (length buf - d) (unat (mss (uc w)))" using s nz unfolding sending_def n_def by blast
  then have le: "d + n \<le> length buf" using sendingD(6) [OF s] by simp
  have conn: "ucast (conn_len (uc w)) = (of_nat n :: u32)" by (simp add: n_def)
  from p(1) True obtain k where k: "k \<le> length r" "ackno g = base + of_nat k" by (auto simp: peer_seg_def)
  then have "of_nat k = (of_nat (d + n) :: u32)" using True sendingD(3) [OF s] unfolding conn by (simp add: add.assoc)
  moreover have "k < 2 ^ LENGTH(32)" "d + n < 2 ^ LENGTH(32)" using k(1) p(2) le sendingD(7) [OF s] by simp_all
  ultimately have "k = d + n" unfolding word_of_nat_eq_iff by (metis take_bit_nat_eq_self)
  with k(1) have "d + n \<le> length r" by simp
  define v where "v = ack_outstanding g (w\<lparr>uflags := {}, ulen := m\<rparr>)"
  have v: "uflags v = {UIP_ACKDATA}" "conn_len (uc v) = 0" "mss (uc v) = mss (uc w)" "snd_nxt (uc v) = snd_nxt (uc w) + ucast (conn_len (uc w))"
    using True by (simp_all add: v_def ack_outstanding_def Let_def)
  have "snd_nxt (uc v) = base + of_nat (d + n)" using v(4) sendingD(3) [OF s] unfolding conn by (simp add: add.assoc)
  moreover have "initialmss (uc v) = initialmss (uc w)" "tcpstate (uc v) = UIP_ESTABLISHED" using sendingD(2) [OF s] by (simp_all add: v_def)
  ultimately show thesis using new [OF n_def pos \<open>d + n \<le> length r\<close> le n v_def [symmetric]] v by blast
next
  case False
  then show thesis using old by (auto simp: ack_outstanding_def Let_def)
qed

definition send_result :: "uip_conf \<Rightarrow> u8 list \<Rightarrow> nat \<Rightarrow> u8 list \<Rightarrow> u32 \<Rightarrow> nat \<Rightarrow> u8 list \<Rightarrow> elua_net uip_work \<Rightarrow> elua_net uip_work \<Rightarrow> tcp_seg option \<Rightarrow> bool" where
  "send_result cfg obj off buf base d r w w' out \<longleftrightarrow>
     sending cfg obj off buf base d w' \<and> conn_len (uc w') = conn_len (uc w) \<and> no_data out
     \<or> (\<exists>n > 0. d + n \<le> length r \<and> n = unat (conn_len (uc w)) \<and>
          (sending cfg obj off buf base (d + n) w' \<and> (\<exists>g. out = Some g \<and> piece buf base (d + n) (unat (conn_len (uc w'))) g)
           \<or> d + n = length buf \<and> finished w' \<and> no_data out))
     \<or> failed buf d w' \<and> no_data out"

lemma send_result_same:
  "sending cfg obj off buf base d w' \<Longrightarrow> conn_len (uc w') = conn_len (uc w) \<Longrightarrow> no_data out \<Longrightarrow> send_result cfg obj off buf base d r w w' out"
  by (simp add: send_result_def)

lemma send_result_failed: "failed buf d w' \<Longrightarrow> no_data out \<Longrightarrow> send_result cfg obj off buf base d r w w' out"
  by (simp add: send_result_def)

lemma failed_cong: "failed buf d v \<Longrightarrow> app w = app v \<Longrightarrow> sock w = sock v \<Longrightarrow> tcpstate (uc w) \<notin> {UIP_SYN_RCVD, UIP_SYN_SENT} \<Longrightarrow> failed buf d w"
  by (simp add: failed_def idle_def appstate_def)

text \<open>The piece in flight is acknowledged.\<close>

lemma sending_acked:
  assumes s: "sends cfg obj off buf d w" and f: "UIP_ACKDATA \<in> uflags w" "uflags w \<inter> {UIP_CONNECTED, UIP_ABORT, UIP_TIMEDOUT, UIP_CLOSE} = {}"
    and c: "conn_len (uc w) = 0" "snd_nxt (uc w) = base + of_nat (d + n)" "mss (uc w) = initialmss (uc w)" "tcpstate (uc w) = UIP_ESTABLISHED" "uslen w = 0"
    and n: "n = min (length buf - d) (unat (mss (uc w)))"
    and r: "elua_uip_appcall cfg w \<bind> appsend cfg = Some (w', out)"
  shows "sending cfg obj off buf base (d + n) w' \<and> conn_len (uc w') \<noteq> 0 \<and> (\<exists>g. out = Some g \<and> piece buf base (d + n) (unat (conn_len (uc w'))) g)
      \<or> d + n = length buf \<and> finished w' \<and> no_data out"
proof -
  define n' where "n' = min (length buf - (d + n)) (unat (mss (uc w)))"
  note A = appcall_acked [OF s f n n'_def]
  have d: "d + n \<le> length buf" and sock: "sock w < length (appstates (app w))" using s n unfolding sends_def by linarith+
  show ?thesis
  proof (cases "d + n = length buf")
    case True
    let ?w = "set_appstate (sent_state obj off (length buf)) w"
    have a: "appsend cfg ?w = Some (w', out)" using A(1) [OF True] r by simp
    have us: "uslen ?w = 0" "tcpstate (uc ?w) = UIP_ESTABLISHED" using c by (simp_all add: set_appstate_def)
    have "appstate ?w = sent_state obj off (length buf)" using sock by (simp add: appstate_def set_appstate_def)
    moreover have "appstate w' = appstate ?w" using appsend_no_data [OF a us(1)] by (simp add: appstate_def)
    moreover have "tcpstate (uc w') \<in> {UIP_ESTABLISHED, UIP_CLOSED, UIP_FIN_WAIT_1}" using appsend_state(1) [OF a] us(2) by simp
    ultimately have "finished w'" by (auto simp: finished_def idle_def sent_state_def)
    then show ?thesis using True appsend_no_data [OF a us(1)] by blast
  next
    case False
    with d have lt: "d + n < length buf" by simp
    let ?s = "send_state obj off (d + n) (length buf - (d + n))"
    from A(2) [OF lt] obtain b where b: "elua_uip_appcall cfg w = Some ((set_appstate ?s w)\<lparr>uslen := of_nat n', appbuf := b\<rparr>)"
      "length b = length (appbuf w)" "fetch b 0 n' = Some (take n' (drop (d + n) buf))" "0 < n'" "n' < 2 ^ 15" by blast
    let ?w = "(set_appstate ?s w)\<lparr>uslen := of_nat n', appbuf := b\<rparr>"
    let ?c = "(uc w)\<lparr>conn_len := of_nat n', nrtx := 0\<rparr>"
    have sa: "uc (set_appstate ?s w) = uc w" "uflags (set_appstate ?s w) = uflags w" "sock (set_appstate ?s w) = sock w" by (simp_all add: set_appstate_def)
    have "appsend cfg ?w = Some (w', out)" using b(1) r by simp
    with appsend_piece [OF b(4,5), of ?w _ cfg] b(3) f c(1) n'_def
    have w': "w' = ?w\<lparr>uflags := {}, uc := ?c\<rparr>" and out: "out = Some (tcp_send cfg ?c {TCP_ACK, TCP_PSH} [] (take n' (drop (d + n) buf)))"
      by (auto simp: sa)
    have un: "unat (of_nat n' :: u16) = n'" "(of_nat n' :: u16) \<noteq> 0" using b(4,5) by (simp_all add: unat_of_nat16 of_nat16_eq_0)
    have aw: "appstate w' = ?s" "app w' = (app w)\<lparr>appstates := (appstates (app w))[sock w := ?s]\<rparr>" "sock w' = sock w" "appbuf w' = b" "uc w' = ?c"
      using sock by (simp_all add: w' appstate_def set_appstate_def)
    have "sends cfg obj off buf (d + n) w'"
      using s lt b(2) unfolding sends_def aw(1) by (simp add: aw(2-5) telnet_conn_def)
    then have "sending cfg obj off buf base (d + n) w'"
      using c un by (simp add: sending_def aw(5) n'_def)
    moreover have "piece buf base (d + n) (unat (conn_len (uc w'))) (tcp_send cfg ?c {TCP_ACK, TCP_PSH} [] (take n' (drop (d + n) buf)))"
      using c un by (simp add: piece_def tcp_send_def aw(5))
    moreover have "conn_len (uc w') \<noteq> 0" using un(2) by (simp add: aw(5))
    ultimately show ?thesis using out by blast
  qed
qed

lemma newdata_stops:
  assumes "elua_uip_configured (app w)" "ua_state (appstate w) = ELUA_UIP_STATE_SEND" "uflags w = {UIP_NEWDATA}"
  shows "elua_uip_appcall cfg w = Some (uip_stop w)"
  using assms by (simp add: elua_uip_appcall_def Let_def)

text \<open>A segment that acknowledges nothing new leaves the socket as it is, unless it ends the connection.\<close>

lemma sending_established_old:
  assumes s: "sending cfg obj off buf base d w" and fl: "uflags w = {}" and win: "wnd g = 0 \<or> initialmss (uc w) \<le> wnd g"
    and r: "established_input cfg (elua_uip_appcall cfg) g w = Some (w', out)"
  shows "send_result cfg obj off buf base d r w w' out"
proof -
  note S = sendingD [OF s]
  have cf: "elua_uip_configured (app w)" using S(1) by (simp add: sends_def)
  show ?thesis
  proof (cases "TCP_FIN \<in> seg_flags g \<and> \<not> stopped (uc w)")
    case fin: True
    show ?thesis
    proof (cases "uip_outstanding (uc w)")
      case True
      then have "uip_drop w = Some (w', out)" using r fin by (simp add: established_input_def)
      then show ?thesis by (intro send_result_same sending_upd [OF s]) (auto dest!: uip_drop_data)
    next
      case False
      let ?w = "w\<lparr>uc := uip_add_rcv_nxt (1 + ulen w) (uc w), uflags := uflags w \<union> {UIP_CLOSE} \<union> (if ulen w > 0 then {UIP_NEWDATA} else {})\<rparr>"
      have "sends cfg obj off buf d ?w" by (rule sends_upd [OF S(1)]) simp_all
      then obtain w1 where w1: "elua_uip_appcall cfg ?w = Some w1" "failed buf d w1"
        by (rule appcall_error_send) (use fl S(2) in auto)
      then have "send_nodata cfg {TCP_FIN, TCP_ACK} (w1\<lparr>uc := (set_state UIP_LAST_ACK (uc w1))\<lparr>conn_len := 1, nrtx := 0\<rparr>\<rparr>) = Some (w', out)"
        using r fin False by (simp add: established_input_def)
      from send_nodata_data [OF this] show ?thesis by (intro send_result_failed failed_cong [OF w1(2)]) simp_all
    qed
  next
    case nofin: False
    have m: "(if wnd g > initialmss (uc w) \<or> wnd g = 0 then initialmss (uc w) else wnd g) = mss (uc w)" using win S(4) by auto
    show ?thesis
    proof (cases "ulen w > 0 \<and> \<not> stopped (uc w)")
      case True
      let ?w = "w\<lparr>uflags := {UIP_NEWDATA}, uc := (uip_add_rcv_nxt (ulen w) (uc w))\<lparr>mss := mss (uc w)\<rparr>, uslen := 0\<rparr>"
      have st: "ua_state (appstate ?w) = ELUA_UIP_STATE_SEND" using S(9) by (simp add: appstate_def)
      have "elua_uip_appcall cfg ?w \<bind> appsend cfg = Some (w', out)"
        using r nofin True m fl by (simp add: established_input_def Let_def cong: if_cong)
      moreover have "elua_uip_appcall cfg ?w = Some (uip_stop ?w)" by (rule newdata_stops) (use cf st in simp_all)
      ultimately have a: "appsend cfg (uip_stop ?w) = Some (w', out)" by simp
      have "uc w' = (uc (uip_stop ?w))\<lparr>nrtx := 0\<rparr>"
        using a by (simp add: appsend_def take_slen_def apprexmit_def uip_stop_def send_nodata_def) auto
      moreover from appsend_no_data [OF a] have "no_data out" "app w' = app w" "sock w' = sock w" "appbuf w' = appbuf w" by (simp_all add: uip_stop_def)
      ultimately show ?thesis by (intro send_result_same sending_upd [OF s]) (simp_all add: uip_stop_def)
    next
      case False
      then have "uip_drop (w\<lparr>uc := (uc w)\<lparr>mss := mss (uc w)\<rparr>\<rparr>) = Some (w', out)"
        using r nofin m fl by (auto simp: established_input_def Let_def cong: if_cong)
      from uip_drop_data [OF this] show ?thesis by (intro send_result_same sending_upd [OF s]) simp_all
    qed
  qed
qed

lemma sending_established_new:
  assumes s: "sends cfg obj off buf d w" and fl: "uflags w = {UIP_ACKDATA}" and win: "wnd g = 0 \<or> initialmss (uc w) \<le> wnd g"
    and c: "conn_len (uc w) = 0" "snd_nxt (uc w) = base + of_nat (d + n)" "mss (uc w) = initialmss (uc w)" "tcpstate (uc w) = UIP_ESTABLISHED"
    and n: "n = min (length buf - d) (unat (mss (uc w)))"
    and r: "established_input cfg (elua_uip_appcall cfg) g w = Some (w', out)"
  shows "sending cfg obj off buf base (d + n) w' \<and> conn_len (uc w') \<noteq> 0 \<and> (\<exists>g. out = Some g \<and> piece buf base (d + n) (unat (conn_len (uc w'))) g)
      \<or> d + n = length buf \<and> finished w' \<and> no_data out \<or> failed buf d w' \<and> no_data out"
proof (cases "TCP_FIN \<in> seg_flags g \<and> \<not> stopped (uc w)")
  case True
  let ?w = "w\<lparr>uc := uip_add_rcv_nxt (1 + ulen w) (uc w), uflags := uflags w \<union> {UIP_CLOSE} \<union> (if ulen w > 0 then {UIP_NEWDATA} else {})\<rparr>"
  have "sends cfg obj off buf d ?w" by (rule sends_upd [OF s]) simp_all
  then obtain w1 where w1: "elua_uip_appcall cfg ?w = Some w1" "failed buf d w1"
    by (rule appcall_error_send) (use fl c(4) in auto)
  then have "send_nodata cfg {TCP_FIN, TCP_ACK} (w1\<lparr>uc := (set_state UIP_LAST_ACK (uc w1))\<lparr>conn_len := 1, nrtx := 0\<rparr>\<rparr>) = Some (w', out)"
    using r True c(1) by (simp add: established_input_def uip_outstanding_def)
  from send_nodata_data [OF this] show ?thesis by (intro disjI2 conjI failed_cong [OF w1(2)]) simp_all
next
  case False
  have m: "(if wnd g > initialmss (uc w) \<or> wnd g = 0 then initialmss (uc w) else wnd g) = mss (uc w)" using win c(3) by auto
  define v where "v = (if ulen w > 0 \<and> \<not> stopped (uc w) then w\<lparr>uflags := insert UIP_NEWDATA (uflags w), uc := uip_add_rcv_nxt (ulen w) (uc w)\<rparr> else w)"
  let ?w = "v\<lparr>uc := (uc v)\<lparr>mss := mss (uc w)\<rparr>, uslen := 0\<rparr>"
  have v: "uflags v \<subseteq> {UIP_ACKDATA, UIP_NEWDATA}" "UIP_ACKDATA \<in> uflags v" "app v = app w" "sock v = sock w" "appbuf v = appbuf w"
    "conn_len (uc v) = conn_len (uc w)" "snd_nxt (uc v) = snd_nxt (uc w)" "initialmss (uc v) = initialmss (uc w)" "tcpstate (uc v) = tcpstate (uc w)"
    using fl by (auto simp: v_def)
  have "elua_uip_appcall cfg ?w \<bind> appsend cfg = Some (w', out)"
    using r False m v(2,8) by (simp add: established_input_def Let_def flip: v_def cong: if_cong)
  moreover have "sends cfg obj off buf d ?w" by (rule sends_upd [OF s]) (simp_all add: v)
  ultimately show ?thesis
    using sending_acked [of cfg obj off buf d ?w base n w' out] v c n by auto
qed

theorem sending_found:
  assumes s: "sending cfg obj off buf base d w" and p: "peer_seg base r (uc w) g" "length r \<le> length buf"
    and r: "uip_found cfg (elua_uip_appcall cfg) g w = Some (w', out)"
  shows "send_result cfg obj off buf base d r w w' out"
  using r
proof (cases rule: elua_app.found_split)
  case (rst w1)
  let ?w = "w\<lparr>uc := set_state UIP_CLOSED (uc w), uflags := {UIP_ABORT}\<rparr>"
  have "sends cfg obj off buf d ?w" by (rule sends_upd [OF sendingD(1) [OF s]]) simp_all
  then obtain w2 where "elua_uip_appcall cfg ?w = Some w2" "failed buf d w2" by (rule appcall_error_send) auto
  with rst(1) have "failed buf d w1" by simp
  then show ?thesis using uip_drop_data [OF rst(2)] by (intro send_result_failed) (auto simp: failed_def idle_def appstate_def)
next
  case dup
  from send_nodata_data [OF this] show ?thesis by (intro send_result_same sending_upd [OF s]) simp_all
next
  case (input v)
  have e: "established_input cfg (elua_uip_appcall cfg) g v = Some (w', out)" using input(4) sendingD(2) [OF s] by simp
  have win: "wnd g = 0 \<or> initialmss (uc w) \<le> wnd g" using p by (simp add: peer_seg_def)
  from s p show ?thesis
  proof (cases rule: ack_cases [where m = "of_nat (length (seg_data g))"])
    case (new n v1)
    then have v: "v1 = v" using input(1) by simp
    have sv: "sends cfg obj off buf d v" by (rule sends_upd [OF sendingD(1) [OF s]]) (simp_all add: input(1))
    have "mss (uc v) = initialmss (uc v)" using new(10,11) sendingD(4) [OF s] v by simp
    from sending_established_new [OF sv _ _ _ _ this _ _ e, of base n] new win v
    show ?thesis unfolding send_result_def by auto
  next
    case old
    have "sending cfg obj off buf base d v" by (rule sending_upd [OF s]) (simp_all add: input(1) old)
    from sending_established_old [OF this _ _ e, of r] old win show ?thesis by (simp add: input(1) send_result_def)
  qed
qed

section \<open>Every exchange\<close>

definition in_buffer :: "u8 list \<Rightarrow> u32 \<Rightarrow> nat \<Rightarrow> nat \<Rightarrow> tcp_seg \<Rightarrow> bool" where
  "in_buffer buf base d n g \<longleftrightarrow> seg_data g = [] \<or> (\<exists>p l. piece buf base p l g \<and> p \<le> d \<and> p + l \<le> d + n)"

definition link_inv :: "uip_conf \<Rightarrow> u8 list \<Rightarrow> nat \<Rightarrow> u8 list \<Rightarrow> u32 \<Rightarrow> link \<Rightarrow> bool" where
  "link_inv cfg obj off buf base s \<longleftrightarrow> (case s of (w, N, r) \<Rightarrow> \<exists>d n. d + n \<le> length buf \<and> d \<le> length r \<and> length r \<le> d + n
     \<and> r = take (length r) buf \<and> (\<forall>g \<in> N. in_buffer buf base d n g)
     \<and> (sending cfg obj off buf base d w \<and> n = unat (conn_len (uc w)) \<or> failed buf d w \<or> finished w \<and> r = buf))"

lemma in_buffer_mono: "in_buffer buf base d n g \<Longrightarrow> d \<le> d' \<Longrightarrow> d + n \<le> d' + n' \<Longrightarrow> in_buffer buf base d' n' g"
  unfolding in_buffer_def by (meson le_trans)

lemma link_invI:
  assumes "d + n \<le> length buf" "d \<le> length r" "length r \<le> d + n" "r = take (length r) buf" "\<forall>g \<in> N. in_buffer buf base d n g"
    "sending cfg obj off buf base d w \<and> n = unat (conn_len (uc w)) \<or> failed buf d w \<or> finished w \<and> r = buf"
  shows "link_inv cfg obj off buf base (w, N, r)"
  using assms unfolding link_inv_def by blast

lemma in_buffer_out: "no_data out \<or> (\<exists>g. out = Some g \<and> piece buf base d n g) \<Longrightarrow> \<forall>g \<in> set_option out. in_buffer buf base d n g"
  by (auto simp: in_buffer_def)

lemma in_buffer_union:
  assumes "\<forall>g \<in> N. in_buffer buf base d n g" "d \<le> d'" "d + n \<le> d' + n'" "no_data out \<or> (\<exists>g. out = Some g \<and> piece buf base d' n' g)"
  shows "\<forall>g \<in> N \<union> set_option out. in_buffer buf base d' n' g"
  using in_buffer_out [OF assms(4)] in_buffer_mono [OF _ assms(2,3)] assms(1) by blast

lemma piece_fits:
  assumes "sending cfg obj off buf base d w"
  shows "d + unat (conn_len (uc w)) \<le> length buf"
  using assms sendingD(6) [OF assms] unfolding sending_def by (auto simp: min_def)

lemma idle_ends: "failed buf d w \<or> finished w \<and> r = buf \<Longrightarrow> idle w"
  by (auto simp: failed_def finished_def)

lemma same_ends:
  assumes "failed buf d w \<or> finished w \<and> r = buf" "same_app w w'" "idle w'"
  shows "failed buf d w' \<or> finished w' \<and> r = buf"
  using assms by (auto simp: failed_def finished_def same_app_def appstate_def)

lemma sending_buf: "sending cfg obj off buf base d w \<Longrightarrow> length b = length (appbuf w) \<Longrightarrow> sending cfg obj off buf base d (w\<lparr>appbuf := b\<rparr>)"
  by (erule sending_upd) simp_all

lemma link_timer:
  assumes i: "link_inv cfg obj off buf base (w, N, r)" and b: "length b = length (appbuf w)"
    and t: "uip_timer cfg (elua_uip_appcall cfg) forced (w\<lparr>appbuf := b\<rparr>) = Some (w', out)"
  shows "link_inv cfg obj off buf base (w', N \<union> set_option out, r)"
proof -
  let ?w = "w\<lparr>appbuf := b\<rparr>"
  from i obtain d n where I: "d + n \<le> length buf" "d \<le> length r" "length r \<le> d + n" "r = take (length r) buf" "\<forall>g \<in> N. in_buffer buf base d n g"
    "sending cfg obj off buf base d w \<and> n = unat (conn_len (uc w)) \<or> (failed buf d w \<or> finished w \<and> r = buf)"
    unfolding link_inv_def by blast
  from I(6) show ?thesis
  proof
    assume s: "sending cfg obj off buf base d w \<and> n = unat (conn_len (uc w))"
    then have s1: "sending cfg obj off buf base d ?w" using sending_buf [OF _ b] by blast
    from sending_timer [OF s1 t] consider
        (more) "sending cfg obj off buf base d w'" "conn_len (uc ?w) = 0 \<or> conn_len (uc w') = conn_len (uc ?w)"
          "no_data out \<or> (\<exists>g. out = Some g \<and> piece buf base d (unat (conn_len (uc w'))) g)"
      | (failed) "failed buf d w'" "no_data out" by blast
    then show ?thesis
    proof cases
      case more
      then have "n \<le> unat (conn_len (uc w'))" using s by auto
      then show ?thesis
        using piece_fits [OF more(1)] I more in_buffer_union [OF I(5) order_refl _ more(3)] by (intro link_invI [of d "unat (conn_len (uc w'))"]) simp_all
    next
      case failed
      then show ?thesis using I in_buffer_union [OF I(5) order_refl order_refl] by (intro link_invI [of d n]) auto
    qed
  next
    assume e: "failed buf d w \<or> finished w \<and> r = buf"
    have "idle ?w" using idle_ends [OF e] by (simp add: idle_def appstate_def)
    from idle_timer [OF this t] b have o: "no_data out" "same_app w w'" "idle w'" by (simp_all add: same_app_def)
    show ?thesis using I in_buffer_union [OF I(5) order_refl order_refl] o(1) same_ends [OF e o(2,3)] by (intro link_invI [of d n]) auto
  qed
qed

lemma link_input:
  assumes i: "link_inv cfg obj off buf base (w, N, r)" and b: "length b = length (appbuf w)" and p: "peer_seg base r (uc w) g"
    and t: "uip_found cfg (elua_uip_appcall cfg) g (w\<lparr>appbuf := b\<rparr>) = Some (w', out)"
  shows "link_inv cfg obj off buf base (w', N \<union> set_option out, r)"
proof -
  let ?w = "w\<lparr>appbuf := b\<rparr>"
  from i obtain d n where I: "d + n \<le> length buf" "d \<le> length r" "length r \<le> d + n" "r = take (length r) buf" "\<forall>g \<in> N. in_buffer buf base d n g"
    "sending cfg obj off buf base d w \<and> n = unat (conn_len (uc w)) \<or> (failed buf d w \<or> finished w \<and> r = buf)"
    unfolding link_inv_def by blast
  from I(6) show ?thesis
  proof
    assume s: "sending cfg obj off buf base d w \<and> n = unat (conn_len (uc w))"
    then have s1: "sending cfg obj off buf base d ?w" using sending_buf [OF _ b] by blast
    have "length r \<le> length buf" using I by linarith
    from sending_found [OF s1 _ this t] p have "send_result cfg obj off buf base d r ?w w' out" by simp
    then consider (same) "sending cfg obj off buf base d w'" "conn_len (uc w') = conn_len (uc w)" "no_data out"
      | (more) "d + n \<le> length r" "sending cfg obj off buf base (d + n) w'" "\<exists>g. out = Some g \<and> piece buf base (d + n) (unat (conn_len (uc w'))) g"
      | (finished) "d + n \<le> length r" "d + n = length buf" "finished w'" "no_data out"
      | (failed) "failed buf d w'" "no_data out"
      unfolding send_result_def using s by auto
    then show ?thesis
    proof cases
      case same
      then show ?thesis using s I in_buffer_union [OF I(5) order_refl order_refl] by (intro link_invI [of d n]) auto
    next
      case more
      then show ?thesis using I(3,4) piece_fits [OF more(2)] in_buffer_union [OF I(5), of "d + n" "unat (conn_len (uc w'))" out]
        by (intro link_invI [of "d + n" "unat (conn_len (uc w'))"]) auto
    next
      case finished
      then have "r = buf" using I(3,4) by simp
      then show ?thesis using finished I in_buffer_union [OF I(5) order_refl order_refl] by (intro link_invI [of d n]) auto
    next
      case failed
      then show ?thesis using I in_buffer_union [OF I(5) order_refl order_refl] by (intro link_invI [of d n]) auto
    qed
  next
    assume e: "failed buf d w \<or> finished w \<and> r = buf"
    have "idle ?w" using idle_ends [OF e] by (simp add: idle_def appstate_def)
    from idle_found [OF this t] b have o: "no_data out" "same_app w w'" "idle w'" by (simp_all add: same_app_def)
    show ?thesis using I in_buffer_union [OF I(5) order_refl order_refl] o(1) same_ends [OF e o(2,3)] by (intro link_invI [of d n]) auto
  qed
qed

lemma link_deliver:
  assumes i: "link_inv cfg obj off buf base (w, N, r)" and len: "length buf < 2 ^ 15" and g: "g \<in> N" "seqno g = base + of_nat (length r)"
  shows "link_inv cfg obj off buf base (w, N, r @ seg_data g)"
proof -
  from i obtain d n where I: "d + n \<le> length buf" "d \<le> length r" "length r \<le> d + n" "r = take (length r) buf" "\<forall>g \<in> N. in_buffer buf base d n g"
    "sending cfg obj off buf base d w \<and> n = unat (conn_len (uc w)) \<or> (failed buf d w \<or> finished w \<and> r = buf)"
    unfolding link_inv_def by blast
  from I(5) g(1) have "in_buffer buf base d n g" by blast
  then consider "seg_data g = []" | p l where "piece buf base p l g" "p \<le> d" "p + l \<le> d + n" unfolding in_buffer_def by blast
  then show ?thesis
  proof cases
    case 1
    with i show ?thesis by simp
  next
    case 2
    have "of_nat p = (of_nat (length r) :: u32)" using 2(1) g(2) by (simp add: piece_def)
    moreover have "p < 2 ^ LENGTH(32)" "length r < 2 ^ LENGTH(32)" using 2(2) I(1-3) len by simp_all
    ultimately have "p = length r" unfolding word_of_nat_eq_iff by (metis take_bit_nat_eq_self)
    then have p: "p = d" "length r = d" using 2(2) I(2) by simp_all
    have data: "seg_data g = take l (drop d buf)" using 2(1) p(1) by (simp add: piece_def)
    have "length r + l \<le> length buf" using 2(3) I(1) p by linarith
    then have l: "length (r @ seg_data g) = d + l" using data p(2) by simp
    define r' where "r' = r @ seg_data g"
    have "r' = take (length r') buf" using I(4) l unfolding r'_def data p(2) by (simp add: take_add)
    moreover have "r = buf \<Longrightarrow> r' = buf" using data p(2) by (simp add: r'_def)
    moreover have "length r' = d + l" using l by (simp add: r'_def)
    ultimately have "link_inv cfg obj off buf base (w, N, r')"
      using I(1,5,6) 2(3) p(1) by (intro link_invI [of d n buf r']) auto
    then show ?thesis by (simp add: r'_def)
  qed
qed

theorem exchange_inv:
  assumes "exchange cfg base s t" and "link_inv cfg obj off buf base s" and len: "length buf < 2 ^ 15"
  shows "link_inv cfg obj off buf base t"
  using assms(1,2)
  by (induction rule: exchange.induct) (auto intro: link_timer link_input link_deliver [OF _ len])

section \<open>A loss-free exchange\<close>

lemma appsend_total: "uslen w = 0 \<Longrightarrow> \<exists>w' out. appsend cfg w = Some (w', out)"
  by (simp add: appsend_def take_slen_def apprexmit_def send_nodata_def uip_drop_def)

lemma acked_total:
  assumes s: "sends cfg obj off buf d w" and f: "UIP_ACKDATA \<in> uflags w" "uflags w \<inter> {UIP_CONNECTED, UIP_ABORT, UIP_TIMEDOUT, UIP_CLOSE} = {}"
    and n: "n = min (length buf - d) (unat (mss (uc w)))" and c: "uslen w = 0"
  shows "\<exists>w' out. elua_uip_appcall cfg w \<bind> appsend cfg = Some (w', out)"
proof -
  define n' where "n' = min (length buf - (d + n)) (unat (mss (uc w)))"
  note A = appcall_acked [OF s f n n'_def]
  have d: "d + n \<le> length buf" using s n unfolding sends_def by linarith
  show ?thesis
  proof (cases "d + n = length buf")
    case True
    have "uslen (set_appstate t w) = 0" for t using c by (simp add: set_appstate_def)
    then show ?thesis using A(1) [OF True] appsend_total by fastforce
  next
    case False
    with d have "d + n < length buf" by simp
    from A(2) [OF this] obtain b where b: "fetch b 0 n' = Some (take n' (drop (d + n) buf))" "0 < n'" "n' < 2 ^ 15"
      "elua_uip_appcall cfg w = Some ((set_appstate (send_state obj off (d + n) (length buf - (d + n))) w)\<lparr>uslen := of_nat n', appbuf := b\<rparr>)" by blast
    let ?w = "(set_appstate (send_state obj off (d + n) (length buf - (d + n))) w)\<lparr>uslen := of_nat n', appbuf := b\<rparr>"
    have "uc ?w = uc w" "uflags ?w = uflags w" by (simp_all add: set_appstate_def)
    then have "\<exists>w' out. appsend cfg ?w = Some (w', out)"
      using appsend_piece [OF b(2,3), of ?w "take n' (drop (d + n) buf)" cfg] b(1) f n'_def by auto
    then show ?thesis using b(4) by simp
  qed
qed

definition ack_seg :: "u32 \<Rightarrow> uip_conn \<Rightarrow> tcp_seg" where
  "ack_seg k c = \<lparr>seg_ip = ripaddr c, sport = rport c, dport = lport c, seqno = rcv_nxt c, ackno = k, seg_flags = {TCP_ACK},
     wnd = initialmss c, seg_opts = [], seg_data = []\<rparr>"

lemma ack_progress:
  assumes s: "sending cfg obj off buf base d w" and c: "conn_len (uc w) \<noteq> 0" and n: "n = unat (conn_len (uc w))"
  shows "\<exists>w' out. uip_found cfg (elua_uip_appcall cfg) (ack_seg (base + of_nat (d + n)) (uc w)) w = Some (w', out)
    \<and> (sending cfg obj off buf base (d + n) w' \<and> conn_len (uc w') \<noteq> 0 \<and> (\<exists>g. out = Some g \<and> piece buf base (d + n) (unat (conn_len (uc w'))) g)
       \<or> d + n = length buf \<and> finished w')"
proof -
  define gs where "gs = ack_seg (base + of_nat (d + n)) (uc w)"
  let ?w = "w\<lparr>uflags := {}, ulen := 0\<rparr>"
  define v where "v = ack_outstanding gs ?w"
  have conn: "ucast (conn_len (uc w)) = (of_nat n :: u32)" by (simp add: n)
  have k: "ackno gs = snd_nxt (uc w) + ucast (conn_len (uc w))"
    unfolding conn using sendingD(3) [OF s] by (simp add: gs_def ack_seg_def add.assoc)
  have g: "seg_flags gs = {TCP_ACK}" "seg_data gs = []" "wnd gs = mss (uc w)" using sendingD(4) [OF s] by (simp_all add: gs_def ack_seg_def)
  have "ackno gs = base + of_nat (d + n)" by (simp add: gs_def ack_seg_def)
  then have v: "uflags v = {UIP_ACKDATA}" "conn_len (uc v) = 0" "snd_nxt (uc v) = base + of_nat (d + n)"
    using c k g(1) unfolding v_def by (simp_all add: ack_outstanding_def Let_def uip_outstanding_def)
  have v': "tcpstate (uc v) = UIP_ESTABLISHED" "initialmss (uc v) = mss (uc w)" "mss (uc v) = mss (uc w)" "ulen v = 0" "app v = app w" "sock v = sock w" "appbuf v = appbuf w"
    using sendingD(2,4) [OF s] unfolding v_def by simp_all
  let ?v = "v\<lparr>uc := (uc v)\<lparr>mss := mss (uc w)\<rparr>, uslen := 0\<rparr>"
  have st: "tcpstate (uc w) = UIP_ESTABLISHED" by (rule sendingD(2) [OF s])
  have "uip_found cfg (elua_uip_appcall cfg) gs w = established_input cfg (elua_uip_appcall cfg) gs v"
    using v'(1) st by (simp add: uip_found_def expected_seg_def g Let_def flip: v_def)
  also have "\<dots> = elua_uip_appcall cfg ?v \<bind> appsend cfg"
    using v v' g by (simp add: established_input_def Let_def)
  finally have e: "uip_found cfg (elua_uip_appcall cfg) gs w = elua_uip_appcall cfg ?v \<bind> appsend cfg" .
  have sv: "sends cfg obj off buf d ?v" by (rule sends_upd [OF sendingD(1) [OF s]]) (simp_all add: v')
  have nm: "n = min (length buf - d) (unat (mss (uc ?v)))" using s c n unfolding sending_def by auto
  have fl: "UIP_ACKDATA \<in> uflags ?v" "uflags ?v \<inter> {UIP_CONNECTED, UIP_ABORT, UIP_TIMEDOUT, UIP_CLOSE} = {}" using v by simp_all
  obtain w' out where r: "elua_uip_appcall cfg ?v \<bind> appsend cfg = Some (w', out)" using acked_total [OF sv fl nm] by auto
  have "conn_len (uc ?v) = 0" "snd_nxt (uc ?v) = base + of_nat (d + n)" "mss (uc ?v) = initialmss (uc ?v)" "tcpstate (uc ?v) = UIP_ESTABLISHED" "uslen ?v = 0"
    using v v' by simp_all
  from sending_acked [OF sv fl this nm r] e r show ?thesis unfolding gs_def by auto
qed

lemma peer_ack: "k \<le> length r \<Longrightarrow> peer_seg base r c (ack_seg (base + of_nat k) c)"
  by (auto simp: peer_seg_def ack_seg_def)

lemma sending_completes:
  assumes "exchange cfg base s (w, N, take d buf)" "sending cfg obj off buf base d w" "conn_len (uc w) \<noteq> 0"
    "g \<in> N" "piece buf base d (unat (conn_len (uc w))) g"
  shows "\<exists>w' N'. exchange cfg base s (w', N', buf) \<and> finished w'"
  using assms
proof (induction "length buf - d" arbitrary: d w N g rule: less_induct)
  case less
  define n where "n = unat (conn_len (uc w))"
  have pos: "0 < n" using less.prems(3) by (simp add: n_def unat_gt_0)
  have fits: "d + n \<le> length buf" using piece_fits [OF less.prems(2)] by (simp add: n_def)
  have "seqno g = base + of_nat (length (take d buf))" "take d buf @ seg_data g = take (d + n) buf"
    using less.prems(5) fits by (simp_all add: piece_def take_add flip: n_def)
  with exchange.deliver [OF less.prems(1,4)] have x: "exchange cfg base s (w, N, take (d + n) buf)" by simp
  have "peer_seg base (take (d + n) buf) (uc w) (ack_seg (base + of_nat (d + n)) (uc w))" using fits by (intro peer_ack) simp
  note step = exchange.input [OF x refl this]
  from ack_progress [OF less.prems(2,3) n_def] obtain w' out where
    f: "uip_found cfg (elua_uip_appcall cfg) (ack_seg (base + of_nat (d + n)) (uc w)) w = Some (w', out)"
    and c: "sending cfg obj off buf base (d + n) w' \<and> conn_len (uc w') \<noteq> 0 \<and> (\<exists>g. out = Some g \<and> piece buf base (d + n) (unat (conn_len (uc w'))) g)
       \<or> d + n = length buf \<and> finished w'" by blast
  from f have "exchange cfg base s (w', N \<union> set_option out, take (d + n) buf)" by (intro step) simp
  with c show ?case using less.hyps [of "d + n" w' "N \<union> set_option out"] pos fits by fastforce
qed

section \<open>A call of \<^verbatim>\<open>elua_net_send\<close>\<close>

text \<open>A socket that may send: connected, nothing in flight, the segment size of the connection not changed by the peer's window.\<close>

definition send_ready :: "uip_conf \<Rightarrow> nat \<Rightarrow> u8 list \<Rightarrow> nat \<Rightarrow> u8 list \<Rightarrow> elua_uip \<Rightarrow> bool" where
  "send_ready cfg k obj off buf u \<longleftrightarrow>
     elua_uip_configured (uapp u) \<and> k < UIP_CONNS cfg \<and> k < length (appstates (uapp u)) \<and> elua_uip_telnet_socket (uapp u) \<noteq> Some k
     \<and> chars_at obj off buf \<and> buf \<noteq> [] \<and> length buf < 2 ^ 15
     \<and> tcpstate (conns u ! k) = UIP_ESTABLISHED \<and> conn_len (conns u ! k) = 0 \<and> mss (conns u ! k) = initialmss (conns u ! k)
     \<and> 0 < mss (conns u ! k) \<and> unat (mss (conns u ! k)) \<le> length (ubuf u)"

lemma send_started:
  assumes r: "send_ready cfg k obj off buf u" and c: "elua_net_send cfg (int k) (CHARS obj off) (of_nat (length buf)) u = (res, u')"
  shows "res = None" "sending cfg obj off buf (snd_nxt (conns u ! k)) 0 (conn_work k u')" "conn_len (uc (conn_work k u')) = 0"
proof -
  note R = r [unfolded send_ready_def]
  have cf: "elua_uip_configured (uapp u)" and k: "k < UIP_CONNS cfg" "k < length (appstates (uapp u))" and nt: "elua_uip_telnet_socket (uapp u) \<noteq> Some k"
    and buf: "chars_at obj off buf" "buf \<noteq> []" "length buf < 2 ^ 15"
    and conn: "tcpstate (conns u ! k) = UIP_ESTABLISHED" "conn_len (conns u ! k) = 0" "mss (conns u ! k) = initialmss (conns u ! k)" "0 < mss (conns u ! k)"
      "unat (mss (conns u ! k)) \<le> length (ubuf u)"
    using R by blast+
  have act: "sock_active cfg (int k) u"
    using cf k conn(1) by (simp add: sock_active_def ELUA_UIP_IS_SOCK_OK_def uip_conn_active_def is_flags_def)
  have len: "(of_nat (length buf) :: u16) \<noteq> 0" using of_nat16_eq_0 [of "length buf"] buf by simp
  let ?s = "elua_prep_socket_state (CHARS obj off) (of_nat (length buf)) ELUA_NET_NO_LASTCHAR ELUA_NET_ERR_OK ELUA_UIP_STATE_SEND"
  have "(res, u') = (None, set_pstate (int k) ?s u)" using c act len by (simp add: elua_net_send_def)
  then show "res = None" and u': "conn_len (uc (conn_work k u')) = 0" using conn(2) by (simp_all add: conn_work_def set_pstate_def)
  have w: "u' = set_pstate (int k) ?s u" using \<open>(res, u') = _\<close> by simp
  have "appstate (conn_work k u') = send_state obj off 0 (length buf)"
    using k(2) by (simp add: w conn_work_def appstate_def set_pstate_def elua_prep_socket_state_def send_state_def)
  then have "sends cfg obj off buf 0 (conn_work k u')"
    using cf k nt buf conn(4,5) unfolding sends_def by (simp add: w conn_work_def set_pstate_def telnet_conn_def)
  then show "sending cfg obj off buf (snd_nxt (conns u ! k)) 0 (conn_work k u')"
    using conn by (simp add: sending_def w conn_work_def set_pstate_def)
qed

lemma link_started:
  assumes "send_ready cfg k obj off buf u" and "elua_net_send cfg (int k) (CHARS obj off) (of_nat (length buf)) u = (res, u')"
  shows "link_inv cfg obj off buf (snd_nxt (conns u ! k)) (conn_work k u', {}, [])"
  using send_started [OF assms] by (intro link_invI [of 0 0]) simp_all


lemma send_completes:
  assumes ready: "send_ready cfg k obj off buf u" and call: "elua_net_send cfg (int k) (CHARS obj off) (of_nat (length buf)) u = (res, u')"
  shows "\<exists>w N. exchange cfg (snd_nxt (conns u ! k)) (conn_work k u', {}, []) (w, N, buf) \<and> finished w"
proof -
  let ?base = "snd_nxt (conns u ! k)" and ?w = "conn_work k u'"
  note S = send_started [OF ready call]
  have "\<not> (uip_outstanding (uc ?w) \<and> \<not> True)" by simp
  from sending_poll [OF S(2) this] obtain w g where
    w: "uip_timer cfg (elua_uip_appcall cfg) True ?w = Some (w, Some g)" "sending cfg obj off buf ?base 0 w"
      "piece buf ?base 0 (unat (conn_len (uc w))) g" "conn_len (uc w) \<noteq> 0" by blast
  have "exchange cfg ?base (?w, {}, []) (w, {} \<union> set_option (Some g), [])"
    by (rule exchange.timer [OF exchange.start refl]) (use w(1) in simp)
  then have "exchange cfg ?base (?w, {}, []) (w, {g}, take 0 buf)" by simp
  from sending_completes [OF this w(2,4) _ w(3)] show ?thesis by blast
qed


section \<open>A window that shrinks\<close>

text \<open>C39: The size of a segment may change between sending a piece and its acknowledgement, because uIP sets it to the window of the peer before it
  calls the handler, and the handler takes the new size for the length of what was acknowledged: when an acknowledgement carries a smaller
  window, the bytes after that size are sent a second time, as the bytes that follow.\<close>

theorem net_send_window_repeats:
  assumes s: "sending cfg obj off buf base d w" and c: "n = unat (conn_len (uc w))" and m: "0 < m" "unat m < n"
    and g: "g = (ack_seg (base + of_nat (d + n)) (uc w))\<lparr>wnd := m\<rparr>"
  shows "\<exists>w' g'. uip_found cfg (elua_uip_appcall cfg) g w = Some (w', Some g') \<and> seqno g' = base + of_nat (d + n)
    \<and> seg_data g' = take (min (length buf - (d + unat m)) (unat m)) (drop (d + unat m) buf) \<and> seg_data g' \<noteq> []"
proof -
  have c0: "conn_len (uc w) \<noteq> 0" using m c by auto
  then have nm: "n = min (length buf - d) (unat (mss (uc w)))" using s c unfolding sending_def by blast
  have mz: "m \<noteq> 0" using m(1) by auto
  have lt: "d + unat m < length buf" and mm: "unat m < unat (mss (uc w))" using m(2) nm by linarith+
  have conn: "ucast (conn_len (uc w)) = (of_nat n :: u32)" by (simp add: c)
  define v where "v = ack_outstanding g (w\<lparr>uflags := {}, ulen := 0\<rparr>)"
  have k: "ackno g = snd_nxt (uc w) + ucast (conn_len (uc w))"
    unfolding conn using sendingD(3) [OF s] by (simp add: g ack_seg_def add.assoc)
  have fl: "seg_flags g = {TCP_ACK}" "seg_data g = []" "wnd g = m" by (simp_all add: g ack_seg_def)
  have "ackno g = base + of_nat (d + n)" by (simp add: g ack_seg_def)
  then have v: "uflags v = {UIP_ACKDATA}" "conn_len (uc v) = 0" "snd_nxt (uc v) = base + of_nat (d + n)"
    using c0 k fl(1) unfolding v_def by (simp_all add: ack_outstanding_def Let_def uip_outstanding_def)
  have v': "tcpstate (uc v) = UIP_ESTABLISHED" "initialmss (uc v) = mss (uc w)" "ulen v = 0" "app v = app w" "sock v = sock w" "appbuf v = appbuf w"
    using sendingD(2,4) [OF s] unfolding v_def by simp_all
  have win: "(if wnd g > initialmss (uc v) \<or> wnd g = 0 then initialmss (uc v) else wnd g) = m"
    using mm mz by (simp add: fl v' word_less_nat_alt)
  let ?v = "v\<lparr>uc := (uc v)\<lparr>mss := m\<rparr>, uslen := 0\<rparr>"
  have e: "uip_found cfg (elua_uip_appcall cfg) g w = elua_uip_appcall cfg ?v \<bind> appsend cfg"
    using sendingD(2) [OF s] v v' win by (simp add: uip_found_def expected_seg_def fl Let_def established_input_def flip: v_def cong: if_cong)
  have sv: "sends cfg obj off buf d ?v"
    using sendingD(1) [OF s] m(1) mm unfolding sends_def telnet_conn_def appstate_def by (simp add: v')
  have f: "UIP_ACKDATA \<in> uflags ?v" "uflags ?v \<inter> {UIP_CONNECTED, UIP_ABORT, UIP_TIMEDOUT, UIP_CLOSE} = {}" using v by simp_all
  have m': "unat m = min (length buf - d) (unat (mss (uc ?v)))" using lt by simp
  define n' where "n' = min (length buf - (d + unat m)) (unat (mss (uc ?v)))"
  from appcall_acked(2) [OF sv f m' n'_def lt] obtain b where
    b: "fetch b 0 n' = Some (take n' (drop (d + unat m) buf))" "0 < n'" "n' < 2 ^ 15"
      "elua_uip_appcall cfg ?v = Some ((set_appstate (send_state obj off (d + unat m) (length buf - (d + unat m))) ?v)\<lparr>uslen := of_nat n', appbuf := b\<rparr>)" by blast
  let ?x = "(set_appstate (send_state obj off (d + unat m) (length buf - (d + unat m))) ?v)\<lparr>uslen := of_nat n', appbuf := b\<rparr>"
  have x: "uc ?x = uc ?v" "uflags ?x = uflags v" by (simp_all add: set_appstate_def)
  obtain w' where "appsend cfg ?x = Some (w', Some (tcp_send cfg ((uc ?v)\<lparr>conn_len := of_nat n', nrtx := 0\<rparr>) {TCP_ACK, TCP_PSH} [] (take n' (drop (d + unat m) buf))))"
    using appsend_piece [OF b(2,3), of ?x "take n' (drop (d + unat m) buf)" cfg] b(1) v(1) n'_def unfolding x by simp
  then show ?thesis using e b(2,4) v(3) lt unfolding n'_def by (auto simp: tcp_send_def)
qed

section \<open>Examples\<close>

definition example_uip :: elua_uip where
  "example_uip = \<lparr>conns = [unused_conn, example_conn, unused_conn, unused_conn], listenports = [0, 0, 0, 0], lastport = 4096, iss = 77,
     forced_poll = True, ubuf = replicate 970 0,
     uapp = \<lparr>elua_uip_configured = True, elua_uip_telnet_socket = None,
       elua_uip_accept_pending = replicate 4 \<lparr>accept_request = False, acc_sock = 0, acc_remote = (0, 0), acc_port = 0\<rparr>,
       elua_net_connecting = None, appstates = replicate 4 (elua_prep_socket_state NULL_PTR 0 0 0 ELUA_UIP_STATE_IDLE)\<rparr>\<rparr>"

lemma example_ready: "send_ready example_uip_conf 1 [1, 2, 3] 0 [1, 2, 3] example_uip"
  by (simp add: send_ready_def example_uip_conf_def example_uip_def example_conn_def unused_conn_def chars_at_def fetch_def)



theorem net_send_window_repeats_witness:
  "\<exists>w g w' g'. uip_found example_uip_conf (elua_uip_appcall example_uip_conf) g w = Some (w', Some g')
    \<and> seqno g' = 1000 + 3 \<and> seg_data g' = [2]"
proof -
  let ?buf = "[1, 2, 3] :: u8 list"
  obtain res u' where call: "elua_net_send example_uip_conf (int 1) (CHARS ?buf 0) (of_nat (length ?buf)) example_uip = (res, u')" by fastforce
  note S = send_started [OF example_ready call]
  let ?w = "(conn_work 1 u')\<lparr>uc := (uc (conn_work 1 u'))\<lparr>conn_len := 3\<rparr>\<rparr>"
  let ?g = "(ack_seg (snd_nxt (conns example_uip ! 1) + of_nat (0 + 3)) (uc ?w))\<lparr>wnd := 1\<rparr>"
  have "mss (uc (conn_work 1 u')) = 970"
    using call by (simp add: conn_work_def elua_net_send_def set_pstate_def example_uip_def example_conn_def unused_conn_def split: if_splits)
      (auto simp: conn_work_def)
  then have w: "sending example_uip_conf ?buf 0 ?buf (snd_nxt (conns example_uip ! 1)) 0 ?w" by (intro sending_upd [OF S(2)]) simp_all
  have "snd_nxt (conns example_uip ! 1) = 1000" by (simp add: example_uip_def example_conn_def)
  then show ?thesis
    using net_send_window_repeats [OF w, of 3 1 ?g] by auto
qed

end
