(* ===== verification/Net_Recv.thy ===== *)
theory Net_Recv
  imports Net_Stream
begin

text \<open>
  Receiving over a socket: \<^verbatim>\<open>elua_net_recvbuf\<close>, the handler and uIP under it, against a peer whose segments arrive in any order and repeatedly. The
  invariant \<open>receiving\<close> ties the number that uIP acknowledges to the contents of the Lua buffer. Then what a receive that ran out of time does to later
  data, and the text that the telnet console passes on, with \<open>telnet_text\<close> as its reference.
\<close>

section \<open>Receiving\<close>

text \<open>
  What the other side sends: segments with parts of its stream at their numbers, none of them closing or resetting the connection, as often and in
  any order. They carry no options, so their data are where the application looks for them.
\<close>

definition stream_seg :: "u32 \<Rightarrow> u8 list \<Rightarrow> tcp_seg \<Rightarrow> bool" where
  "stream_seg base src g \<longleftrightarrow> seg_opts g = [] \<and> seg_flags g \<subseteq> {TCP_ACK, TCP_PSH}
     \<and> (seg_data g = [] \<or> (\<exists>p \<in> {..length src}. seqno g = base + of_nat p \<and> p + length (seg_data g) \<le> length src
          \<and> seg_data g = take (length (seg_data g)) (drop p src)))"

inductive arrivals :: "uip_conf \<Rightarrow> u32 \<Rightarrow> u8 list \<Rightarrow> elua_net uip_work \<Rightarrow> elua_net uip_work \<Rightarrow> bool" for cfg base src s where
  start: "arrivals cfg base src s s"
| timer: "arrivals cfg base src s w \<Longrightarrow> length b = length (appbuf w) \<Longrightarrow>
    uip_timer cfg (elua_uip_appcall cfg) forced (w\<lparr>appbuf := b\<rparr>) = Some (w', out) \<Longrightarrow> arrivals cfg base src s w'"
| input: "arrivals cfg base src s w \<Longrightarrow> stream_seg base src g \<Longrightarrow> blit (appbuf w) 0 (seg_opts g @ seg_data g) = Some b \<Longrightarrow>
    uip_found cfg (elua_uip_appcall cfg) g (w\<lparr>appbuf := b\<rparr>) = Some (w', out) \<Longrightarrow> arrivals cfg base src s w'"

text \<open>\<open>c\<close> bytes of the stream are in the Lua buffer. A socket that is idle or has not started yet is stopped.\<close>

definition recv_state :: "elua_uip_st \<Rightarrow> u8 \<Rightarrow> u8 list \<Rightarrow> nat \<Rightarrow> elua_uip_state" where
  "recv_state st res l n = \<lparr>ua_state = st, ua_res = res, ua_ptr = LUA_BUFFER l, ua_len = of_nat n, ua_readto = - 1\<rparr>"

lemma recv_state_simps [simp]:
  "ua_state (recv_state st res l n) = st" "ua_res (recv_state st res l n) = res" "ua_ptr (recv_state st res l n) = LUA_BUFFER l"
  "ua_len (recv_state st res l n) = of_nat n" "ua_readto (recv_state st res l n) = - 1"
  "(recv_state st res l n)\<lparr>ua_state := st'\<rparr> = recv_state st' res l n" "(recv_state st res l n)\<lparr>ua_res := r\<rparr> = recv_state st r l n"
  by (simp_all add: recv_state_def)

definition receiving :: "uip_conf \<Rightarrow> u8 list \<Rightarrow> nat \<Rightarrow> u32 \<Rightarrow> u8 list \<Rightarrow> nat \<Rightarrow> elua_net uip_work \<Rightarrow> bool" where
  "receiving cfg l m base src c w \<longleftrightarrow>
     elua_uip_configured (app w) \<and> sock w < length (appstates (app w)) \<and> \<not> telnet_conn cfg w
     \<and> 0 < m \<and> m < 2 ^ 15 \<and> length src \<le> m \<and> c \<le> length src \<and> tcpstate (uc w) = UIP_ESTABLISHED \<and> conn_len (uc w) = 0 \<and> rcv_nxt (uc w) = base + of_nat c
     \<and> (c = 0 \<and> stopped (uc w) \<and> appstate w = recv_state ELUA_UIP_STATE_RECV 1 l m
        \<or> c < m \<and> \<not> stopped (uc w) \<and> appstate w = recv_state ELUA_UIP_STATE_RECV_2 1 (l @ take c src) (m - c)
        \<or> 0 < c \<and> stopped (uc w) \<and> appstate w = recv_state ELUA_UIP_STATE_IDLE 0 (l @ take c src) (m - c))"

lemma receivingI:
  assumes "receiving cfg l m base src c w" "app w' = app w" "sock w' = sock w" "tcpstate (uc w') = tcpstate (uc w)" "conn_len (uc w') = conn_len (uc w)"
    "rcv_nxt (uc w') = rcv_nxt (uc w)" "stopped (uc w') = stopped (uc w)"
  shows "receiving cfg l m base src c w'"
  using assms by (simp add: receiving_def telnet_conn_def appstate_def)

lemma receiving_set:
  assumes r: "receiving cfg l m base src c w" and w: "sock v = sock w" "app v = app w" "tcpstate (uc w') = UIP_ESTABLISHED" "conn_len (uc w') = 0"
    "rcv_nxt (uc w') = base + of_nat c'" and s: "app w' = app (set_appstate t v)" "sock w' = sock w" and c: "c' \<le> length src"
    and t: "c' < m \<and> \<not> stopped (uc w') \<and> t = recv_state ELUA_UIP_STATE_RECV_2 1 (l @ take c' src) (m - c')
        \<or> 0 < c' \<and> stopped (uc w') \<and> t = recv_state ELUA_UIP_STATE_IDLE 0 (l @ take c' src) (m - c')"
  shows "receiving cfg l m base src c' w'"
proof -
  note R = r [unfolded receiving_def]
  have a: "elua_uip_configured (app w)" "sock w < length (appstates (app w))" "\<not> telnet_conn cfg w" "0 < m" "m < 2 ^ 15" "length src \<le> m" using R by blast+
  have "appstate w' = t" "elua_uip_configured (app w')" "sock w' < length (appstates (app w'))" "\<not> telnet_conn cfg w'"
    using a w(1,2) s by (simp_all add: appstate_def set_appstate_def telnet_conn_def)
  then show ?thesis using a(4-6) w(3-5) c t unfolding receiving_def by blast
qed

lemma appsend_conn:
  assumes "appsend cfg w = Some (w', out)" "uslen w = 0" "UIP_ABORT \<notin> uflags w" "UIP_CLOSE \<notin> uflags w"
  shows "uc w' = (uc w)\<lparr>nrtx := 0\<rparr>" "app w' = app w" "sock w' = sock w" "appbuf w' = appbuf w"
  using assms by (auto simp: appsend_def take_slen_def apprexmit_def send_nodata_def uip_drop_def split: if_splits)

lemma receiving_timer:
  assumes r: "receiving cfg l m base src c w" and t: "uip_timer cfg (elua_uip_appcall cfg) forced w = Some (w', out)"
  shows "receiving cfg l m base src c w'"
proof -
  note R = r [unfolded receiving_def]
  have st: "tcpstate (uc w) = UIP_ESTABLISHED" "conn_len (uc w) = 0" and cf: "elua_uip_configured (app w)" and rn: "rcv_nxt (uc w) = base + of_nat c"
    and cl: "c \<le> length src" using R by blast+
  let ?w = "w\<lparr>ulen := 0, uslen := 0, uflags := {UIP_POLL}\<rparr>"
  have call: "elua_uip_appcall cfg ?w \<bind> appsend cfg = Some (w', out)"
    using t st by (simp add: uip_timer_def Let_def uip_outstanding_def uip_conn_active_def is_flags_def)
  have as: "appstate ?w = appstate w" by (simp add: appstate_def)
  consider (recv) "c = 0" "stopped (uc w)" "appstate w = recv_state ELUA_UIP_STATE_RECV 1 l m"
    | (other) "ua_state (appstate w) = ELUA_UIP_STATE_RECV_2 \<or> ua_state (appstate w) = ELUA_UIP_STATE_IDLE"
    using R by (elim conjE disjE) simp_all
  then show ?thesis
  proof cases
    case recv
    let ?t = "recv_state ELUA_UIP_STATE_RECV_2 1 l m"
    have "elua_uip_appcall cfg ?w = Some (uip_restart (set_appstate ?t ?w))"
      using cf by (simp add: elua_uip_appcall_def Let_def as recv)
    with call have a: "appsend cfg (uip_restart (set_appstate ?t ?w)) = Some (w', out)" by simp
    from appsend_conn [OF a] have w': "uc w' = (uc w)\<lparr>stopped := False, nrtx := 0\<rparr>" "app w' = app (set_appstate ?t ?w)" "sock w' = sock w"
      by (simp_all add: uip_restart_def set_appstate_def)
    have "0 < m" using R by blast
    then show ?thesis using recv st rn w' cl by (intro receiving_set [OF r, of ?w _ _ ?t]) simp_all
  next
    case other
    then have "elua_uip_appcall cfg ?w = Some ?w" using cf by (auto simp: elua_uip_appcall_def Let_def as)
    with call have a: "appsend cfg ?w = Some (w', out)" by simp
    from appsend_conn [OF a] show ?thesis by (intro receivingI [OF r]) simp_all
  qed
qed

text \<open>A segment of the stream that is the next one, at a socket that takes data: all its bytes go into the buffer.\<close>

lemma recv_bytes:
  assumes st: "appstate w = recv_state ELUA_UIP_STATE_RECV_2 1 l n" and cf: "elua_uip_configured (app w)" and nt: "\<not> telnet_conn cfg w"
    and f: "uflags w = {UIP_NEWDATA}" and d: "ulen w = of_nat (length data)" "fetch (appbuf w) 0 (length data) = Some data" "length data \<le> n" "n < 2 ^ 15"
  shows "elua_uip_appcall cfg w = Some
     (if n = length data \<or> ulen w < UIP_RECEIVE_WINDOW cfg then uip_stop (set_appstate (recv_state ELUA_UIP_STATE_IDLE 0 (l @ data) (n - length data)) w)
      else set_appstate (recv_state ELUA_UIP_STATE_RECV_2 1 (l @ data) (n - length data)) w)"
proof -
  have n: "sint (of_nat n :: u16) = int n" "unat (of_nat (length data) :: u16) = length data" "sint (of_nat (length data) :: u16) = int (length data)"
    using d(3,4) by (simp_all add: sint_of_nat16 unat_of_nat16)
  have u: "uint (of_nat (length data) :: u16) = int (length data)" using n(2) by (metis uint_nat)
  have z: "((of_nat (n - length data) :: u16) = 0) = (n = length data)" using of_nat16_eq_0 [of "n - length data"] d(3,4) by auto
  have "recv_data data (recv_state ELUA_UIP_STATE_RECV_2 1 l n) = Some (recv_state ELUA_UIP_STATE_RECV_2 1 (l @ data) (n - length data))"
    using of_nat16_diff [OF d(3)] by (simp add: recv_data_def recv_state_def)
  moreover have "elua_uip_appcall cfg w = appcall_recv cfg w" using cf nt f by (simp add: elua_uip_appcall_def Let_def st)
  ultimately show ?thesis
    unfolding appcall_recv_def Let_def st using d(1,2,3) n z u by (simp add: word_sless_alt)
qed

lemma receiving_found:
  assumes r: "receiving cfg l m base src c w" and g: "stream_seg base src g" and b: "fetch (appbuf w) 0 (length (seg_data g)) = Some (seg_data g)"
    and t: "uip_found cfg (elua_uip_appcall cfg) g w = Some (w', out)"
  shows "\<exists>c' \<ge> c. receiving cfg l m base src c' w'"
proof -
  note R = r [unfolded receiving_def]
  have st: "tcpstate (uc w) = UIP_ESTABLISHED" "conn_len (uc w) = 0" and cf: "elua_uip_configured (app w)" and rn: "rcv_nxt (uc w) = base + of_nat c"
    and cl: "c \<le> length src" "length src \<le> m" "m < 2 ^ 15" and nt: "\<not> telnet_conn cfg w" using R by blast+
  let ?w = "w\<lparr>uflags := {}, ulen := of_nat (length (seg_data g))\<rparr>"
  have fl: "TCP_RST \<notin> seg_flags g" "TCP_FIN \<notin> seg_flags g" using g by (auto simp: stream_seg_def)
  from t show ?thesis
  proof (cases rule: elua_app.found_split)
    case rst
    with fl show ?thesis by simp
  next
    case dup
    from send_nodata_data [OF this] show ?thesis by (intro exI [of _ c] conjI receivingI [OF r]) simp_all
  next
    case (input v)
    have v: "v = ?w" using input(1) st(2) by (simp add: ack_outstanding_def uip_outstanding_def Let_def)
    have e: "established_input cfg (elua_uip_appcall cfg) g ?w = Some (w', out)" using input(4) st(1) v by simp
    define k where "k = (if wnd g > initialmss (uc w) \<or> wnd g = 0 then initialmss (uc w) else wnd g)"
    show ?thesis
    proof (cases "seg_data g = [] \<or> stopped (uc w)")
      case True
      then have "uip_drop (?w\<lparr>uc := (uc w)\<lparr>mss := k\<rparr>\<rparr>) = Some (w', out)"
        using e fl by (auto simp: established_input_def Let_def k_def cong: if_cong)
      from uip_drop_data [OF this] show ?thesis by (intro exI [of _ c] conjI receivingI [OF r]) simp_all
    next
      case False
      then obtain p where p: "p \<le> length src" "seqno g = base + of_nat p" "p + length (seg_data g) \<le> length src" "seg_data g = take (length (seg_data g)) (drop p src)"
        using g by (auto simp: stream_seg_def)
      define n where "n = length (seg_data g)"
      have n: "0 < n" "n < 2 ^ 15" "p + n \<le> length src" using False p(3) cl by (auto simp: n_def)
      have pos: "0 < (of_nat n :: u16)" using n by (simp add: of_nat16_pos)
      have "seqno g = rcv_nxt (uc w)" using input(3) pos st(1) by (auto simp: expected_seg_def simp flip: n_def)
      then have "of_nat p = (of_nat c :: u32)" using p(2) rn by simp
      moreover have "p < 2 ^ LENGTH(32)" "c < 2 ^ LENGTH(32)" using p(1) cl by simp_all
      ultimately have pc: "p = c" unfolding word_of_nat_eq_iff by (metis take_bit_nat_eq_self)
      have s2: "c < m" "\<not> stopped (uc w)" "appstate w = recv_state ELUA_UIP_STATE_RECV_2 1 (l @ take c src) (m - c)" using R False by blast+
      let ?v = "?w\<lparr>uflags := {UIP_NEWDATA}, uc := (uip_add_rcv_nxt (of_nat n) (uc w))\<lparr>mss := k\<rparr>, uslen := 0\<rparr>"
      have call: "elua_uip_appcall cfg ?v \<bind> appsend cfg = Some (w', out)"
        using e fl False pos s2(2) by (simp add: established_input_def Let_def k_def flip: n_def cong: if_cong)
      have as: "appstate ?v = recv_state ELUA_UIP_STATE_RECV_2 1 (l @ take c src) (m - c)" using s2(3) by (simp add: appstate_def)
      have data: "(l @ take c src) @ seg_data g = l @ take (c + n) src" using p(4) pc by (simp add: take_add n_def)
      have left: "m - c - n = m - (c + n)" "(m - c = n) = (m = c + n)" using s2(1) by auto
      let ?over = "m = c + n \<or> of_nat n < UIP_RECEIVE_WINDOW cfg"
      let ?t = "recv_state (if ?over then ELUA_UIP_STATE_IDLE else ELUA_UIP_STATE_RECV_2) (if ?over then 0 else 1) (l @ take (c + n) src) (m - (c + n))"
      let ?x = "if ?over then uip_stop (set_appstate ?t ?v) else set_appstate ?t ?v"
      have "elua_uip_appcall cfg ?v = Some ?x"
        using recv_bytes [OF as, where data = "seg_data g" and cfg = cfg] cf nt b n p(3) pc cl data left
        by (simp add: telnet_conn_def flip: n_def)
      with call have a: "appsend cfg ?x = Some (w', out)" by simp
      have x: "uslen ?x = 0" "UIP_ABORT \<notin> uflags ?x" "UIP_CLOSE \<notin> uflags ?x" "sock ?x = sock w" "app ?x = app (set_appstate ?t ?v)"
        "rcv_nxt (uc ?x) = rcv_nxt (uc w) + of_nat n" "tcpstate (uc ?x) = tcpstate (uc w)" "conn_len (uc ?x) = conn_len (uc w)" "stopped (uc ?x) = ?over"
        using s2(2) n(2) by (auto simp: uip_stop_def set_appstate_def unsigned_of_nat take_bit_nat_eq_self)
      note w' = appsend_conn [OF a x(1-3)]
      have c': "c + n \<le> length src" using n(3) pc by simp
      have "receiving cfg l m base src (c + n) w'"
        by (rule receiving_set [OF r, of ?v _ _ ?t]) (use w' x st rn c' cl n in \<open>auto simp: add.assoc\<close>)
      then show ?thesis by (intro exI [of _ "c + n"]) simp
    qed
  qed
qed

lemma blit_fetch: "blit xs 0 ys = Some zs \<Longrightarrow> fetch zs 0 (length ys) = Some ys \<and> length zs = length xs"
  by (auto simp: blit_def fetch_def split: if_splits)

lemma receiving_buf: "receiving cfg l m base src c w \<Longrightarrow> receiving cfg l m base src c (w\<lparr>appbuf := b\<rparr>)"
  by (erule receivingI) simp_all

theorem arrivals_inv:
  assumes "arrivals cfg base src s w" and "receiving cfg l m base src c s"
  shows "\<exists>c'. receiving cfg l m base src c' w"
  using assms
proof (induction rule: arrivals.induct)
  case start
  then show ?case by blast
next
  case (timer w b forced w' out)
  then show ?case using receiving_timer [OF receiving_buf] by blast
next
  case (input w g b w' out)
  then have "fetch b 0 (length (seg_data g)) = Some (seg_data g)"
    using blit_fetch [of "appbuf w" "seg_data g" b] by (simp add: stream_seg_def)
  then show ?case using input.IH [OF input.prems] receiving_found [OF receiving_buf input.hyps(2) _ input.hyps(4)] by fastforce
qed

section \<open>A call of \<^verbatim>\<open>elua_net_recvbuf\<close>\<close>

text \<open>A socket that may receive: connected, stopped since its last call, nothing in flight. What the other side sends fits into the call.\<close>

definition recv_ready :: "uip_conf \<Rightarrow> nat \<Rightarrow> u8 list \<Rightarrow> nat \<Rightarrow> elua_uip \<Rightarrow> bool" where
  "recv_ready cfg k src m u \<longleftrightarrow>
     elua_uip_configured (uapp u) \<and> k < UIP_CONNS cfg \<and> k < length (appstates (uapp u)) \<and> elua_uip_telnet_socket (uapp u) \<noteq> Some k
     \<and> 0 < m \<and> m < 2 ^ 15 \<and> length src \<le> m
     \<and> tcpstate (conns u ! k) = UIP_ESTABLISHED \<and> stopped (conns u ! k) \<and> conn_len (conns u ! k) = 0"

lemma recv_started:
  assumes r: "recv_ready cfg k src m u" and c: "elua_net_recvbuf cfg (int k) l (of_nat m) ELUA_NET_NO_LASTCHAR u = (res, u')"
  shows "res = None" "receiving cfg l m (rcv_nxt (conns u ! k)) src 0 (conn_work k u')"
proof -
  note R = r [unfolded recv_ready_def]
  have cf: "elua_uip_configured (uapp u)" and k: "k < UIP_CONNS cfg" "k < length (appstates (uapp u))" and nt: "elua_uip_telnet_socket (uapp u) \<noteq> Some k"
    and m: "0 < m" "m < 2 ^ 15" "length src \<le> m" and conn: "tcpstate (conns u ! k) = UIP_ESTABLISHED" "stopped (conns u ! k)" "conn_len (conns u ! k) = 0"
    using R by blast+
  have act: "sock_active cfg (int k) u" using cf k conn(1) by (simp add: sock_active_def ELUA_UIP_IS_SOCK_OK_def uip_conn_active_def is_flags_def)
  have len: "(of_nat m :: u16) \<noteq> 0" using of_nat16_eq_0 [of m] m by simp
  let ?s = "recv_state ELUA_UIP_STATE_RECV 1 l m"
  have e: "(res, u') = (None, set_pstate (int k) ?s u)"
    using c act len by (simp add: elua_net_recvbuf_def elua_net_recv_internal_def elua_prep_socket_state_def recv_state_def)
  then show "res = None" by simp
  have w: "u' = set_pstate (int k) ?s u" using e by simp
  have "appstate (conn_work k u') = ?s" using k(2) by (simp add: w conn_work_def appstate_def set_pstate_def)
  then show "receiving cfg l m (rcv_nxt (conns u ! k)) src 0 (conn_work k u')"
    using cf k nt m conn unfolding receiving_def by (simp add: w conn_work_def set_pstate_def telnet_conn_def)
qed


text \<open>C40: A receive whose time is over leaves the connection running, and the data that arrive afterwards are lost: uIP acknowledges them, so that the
  other side will not send them again, and the idle handler does not look at them.\<close>

theorem recv_timeout_loses:
  assumes st: "ua_state (pstate (int k) u) = ELUA_UIP_STATE_RECV_2" and k: "k < length (appstates (uapp u))"
    and conn: "tcpstate (conns u ! k) = UIP_ESTABLISHED" "\<not> stopped (conns u ! k)" "conn_len (conns u ! k) = 0"
    and g: "seg_flags g \<subseteq> {TCP_ACK, TCP_PSH}" "seqno g = rcv_nxt (conns u ! k)" "seg_data g \<noteq> []" "length (seg_data g) < 2 ^ 16"
  shows "\<exists>w' a. uip_found cfg (elua_uip_appcall cfg) g (conn_work k (recv_expired (int k) u)) = Some (w', Some a)
    \<and> ackno a = rcv_nxt (conns u ! k) + of_nat (length (seg_data g))
    \<and> appstate w' = (pstate (int k) u)\<lparr>ua_res := ELUA_NET_ERR_TIMEDOUT, ua_state := ELUA_UIP_STATE_IDLE\<rparr>"
proof -
  let ?n = "of_nat (length (seg_data g)) :: u16" and ?s = "(pstate (int k) u)\<lparr>ua_res := ELUA_NET_ERR_TIMEDOUT, ua_state := ELUA_UIP_STATE_IDLE\<rparr>"
  define w where "w = conn_work k (recv_expired (int k) u)"
  have w: "uc w = conns u ! k" "sock w = k" and s: "appstate w = ?s"
    using st k by (simp_all add: w_def conn_work_def recv_expired_def set_pstate_def appstate_def)
  define m where "m = (if wnd g > initialmss (conns u ! k) \<or> wnd g = 0 then initialmss (conns u ! k) else wnd g)"
  let ?w = "w\<lparr>ulen := ?n, uflags := {UIP_NEWDATA}, uc := (uip_add_rcv_nxt ?n (conns u ! k))\<lparr>mss := m\<rparr>, uslen := 0\<rparr>"
  have fl: "TCP_RST \<notin> seg_flags g" "TCP_FIN \<notin> seg_flags g" using g(1) by auto
  have pos: "0 < ?n" using g(3,4) by (simp add: of_nat16_pos)
  have "ack_outstanding g (w\<lparr>uflags := {}, ulen := ?n\<rparr>) = w\<lparr>uflags := {}, ulen := ?n\<rparr>"
    using conn(3) by (simp add: ack_outstanding_def uip_outstanding_def w Let_def)
  then have "uip_found cfg (elua_uip_appcall cfg) g w = established_input cfg (elua_uip_appcall cfg) g (w\<lparr>uflags := {}, ulen := ?n\<rparr>)"
    using fl conn(1) g(2) by (simp add: uip_found_def expected_seg_def w Let_def)
  also have "\<dots> = elua_uip_appcall cfg ?w \<bind> appsend cfg"
    using fl conn(2) pos by (simp add: established_input_def Let_def w m_def cong: if_cong)
  also have "elua_uip_appcall cfg ?w = Some ?w" by (rule idle_call [of w]) (use s in simp_all)
  finally have "uip_found cfg (elua_uip_appcall cfg) g w = appsend cfg ?w" by simp
  also obtain w' where "appsend cfg ?w = Some (w', Some (tcp_send cfg (uc w') {TCP_ACK} [] []))" "app w' = app w" "sock w' = sock w"
    "rcv_nxt (uc w') = rcv_nxt (conns u ! k) + ucast ?n"
    by (simp add: appsend_def take_slen_def apprexmit_def send_nodata_def w)
  ultimately have *: "uip_found cfg (elua_uip_appcall cfg) g w = Some (w', Some (tcp_send cfg (uc w') {TCP_ACK} [] []))" "appstate w' = ?s"
    "rcv_nxt (uc w') = rcv_nxt (conns u ! k) + ucast ?n" using s by (simp_all add: appstate_def)
  have "(ucast ?n :: u32) = of_nat (length (seg_data g))" using g(4) by (simp add: unsigned_of_nat take_bit_nat_eq_self)
  then have "ackno (tcp_send cfg (uc w') {TCP_ACK} [] []) = rcv_nxt (conns u ! k) + of_nat (length (seg_data g))" using *(3) by (simp add: tcp_send_def)
  then show ?thesis using *(1,2) unfolding w_def by blast
qed

section \<open>Telnet\<close>

text \<open>The text of a packet of telnet: without commands, an end of file as the byte 26. A packet is whole when it does not end after an IAC.\<close>

fun telnet_text :: "u8 list \<Rightarrow> u8 list" where
  "telnet_text [] = []"
| "telnet_text (c # cs) =
     (if c \<noteq> 255 then c # telnet_text cs
      else case cs of
        [] \<Rightarrow> []
      | d # ds \<Rightarrow>
          if 251 \<le> d \<and> d \<le> 254 then telnet_text (drop 1 ds)
          else if d = 236 then 26 # telnet_text ds else telnet_text ds)"

fun telnet_whole :: "u8 list \<Rightarrow> bool" where
  "telnet_whole [] = True"
| "telnet_whole (c # cs) =
     (if c \<noteq> 255 then telnet_whole cs
      else case cs of
        [] \<Rightarrow> False
      | d # ds \<Rightarrow> if 251 \<le> d \<and> d \<le> 254 then telnet_whole (drop 1 ds) else telnet_whole ds)"

lemma telnet_scan_text:
  assumes "telnet_whole (drop i (take n b))" and "n \<le> length b" and "int (length acc) \<le> m"
  shows "telnet_scan b n m i acc = Some (take (nat m) (acc @ telnet_text (drop i (take n b))))"
  using assms
proof (induction b n m i acc rule: telnet_scan.induct)
  case (1 b n m i acc)
  show ?case
  proof (cases "i < n \<and> int (length acc) < m")
    case False
    then have "i < n \<Longrightarrow> length acc = nat m" using "1.prems"(3) by linarith
    moreover have "\<not> i < n \<Longrightarrow> take (nat m) acc = acc" using "1.prems"(3) by simp
    ultimately show ?thesis using False by (subst telnet_scan.simps) (cases "i < n"; simp)
  next
    case c: True
    have "length acc \<le> nat m" using c by linarith
    then have la: "take (nat m) acc = acc" by simp
    define r where "r = drop (i + 1) (take n b)"
    have ib: "i < length b" using c "1.prems"(2) by simp
    have d: "drop i (take n b) = b ! i # r" using c ib by (simp add: Cons_nth_drop_Suc [symmetric] r_def)
    have bi: "byte_at b i = Some (b ! i)" using ib by (simp add: byte_at_def)
    show ?thesis
    proof (cases "b ! i \<noteq> 255")
      case True
      then show ?thesis using "1.IH"(1) [OF c bi True] "1.prems" c bi d
        by (subst telnet_scan.simps) (simp add: r_def la)
    next
      case False
      with "1.prems"(1) d obtain e ds where r: "r = e # ds" by (auto split: list.splits)
      then have "\<not> length (take n b) \<le> i + 1" unfolding r_def by auto
      then have i1: "i + 1 < n" by simp
      have ib1: "i + 1 < length b" using i1 "1.prems"(2) by simp
      have e: "e = b ! (i + 1)" "ds = drop (i + 2) (take n b)"
        using r i1 ib1 Cons_nth_drop_Suc [of "i + 1" "take n b"] by (simp_all add: r_def)
      have b1: "byte_at b (i + 1) = Some (b ! (i + 1))" using ib1 by (simp add: byte_at_def)
      show ?thesis
      proof (cases "251 \<le> b ! (i + 1) \<and> b ! (i + 1) \<le> 254")
        case True
        have "drop 1 ds = drop (i + 3) (take n b)" unfolding e by (simp add: eval_nat_numeral)
        then show ?thesis using "1.IH"(2) [OF c bi False b1 True] "1.prems" c bi b1 d r e False True
          by (subst telnet_scan.simps) (simp add: la)
      next
        case no: False
        have bnd: "int (length (if b ! (i + 1) = 236 then acc @ [26] else acc)) \<le> m" using c by simp
        have wh: "telnet_whole (drop (i + 2) (take n b))" using "1.prems"(1) d r e no False by (simp split: if_splits)
        have step: "telnet_scan b n m i acc = telnet_scan b n m (i + 2) (if b ! (i + 1) = 236 then acc @ [26] else acc)"
          by (subst telnet_scan.simps) (simp only: if_P [OF c] bi b1 option.case False not_True_eq_False if_False if_not_P [OF no] simp_thms)
        have tx: "telnet_text (drop i (take n b)) = (if b ! (i + 1) = 236 then [26] else []) @ telnet_text (drop (i + 2) (take n b))"
          using d r e no False by auto
        show ?thesis using "1.IH"(3) [OF c bi False b1 no wh "1.prems"(2) bnd] unfolding step tx by simp
      qed
    qed
  qed
qed

text \<open>C33: A read of the telnet console gets the text of the packet: for a packet that does not end inside a command, the bytes that go into the buffer
  of the caller are those of the reference \<open>telnet_text\<close>, at most as many as the caller asked for, and their number is what the call returns.\<close>

theorem telnet_input_is_text:
  assumes w: "telnet_whole (take n (appbuf w))" "ulen w = of_nat n" "n < 2 ^ 16" "n \<le> length (appbuf w)" "sock w < length (appstates (app w))"
    and s: "appstate w = elua_prep_socket_state (CHARS b off) (of_nat m) readto res ELUA_UIP_STATE_RECV_2" "m < 2 ^ 15" "off + m \<le> length b"
    and t: "text = take m (telnet_text (take n (appbuf w)))" "text \<noteq> []"
  shows "\<exists>w' b'. elua_uip_telnet_handle_input w = Some w' \<and> blit b off text = Some b'
    \<and> appstate w' = elua_prep_socket_state (CHARS b' (off + length text)) (of_nat (m - length text)) readto ELUA_NET_ERR_OK ELUA_UIP_STATE_IDLE
    \<and> stopped (uc w')"
proof -
  have len: "length text \<le> m" using t(1) by simp
  have "telnet_scan (appbuf w) n (int m) 0 [] = Some text" using telnet_scan_text [of 0 n "appbuf w" "[]" "int m"] w(1,4) t(1) by simp
  moreover obtain b' where b': "blit b off text = Some b'" using len s(3) by (auto simp: blit_def)
  ultimately have "elua_uip_telnet_handle_input w = Some (uip_stop (set_appstate
      (elua_prep_socket_state (CHARS b' (off + length text)) (of_nat (m - length text)) readto ELUA_NET_ERR_OK ELUA_UIP_STATE_IDLE) w))"
    using w(2,3) s(1,2) t(2) of_nat16_diff [OF len]
    by (simp add: elua_uip_telnet_handle_input_def elua_prep_socket_state_def Let_def unat_of_nat16 sint_of_nat16 del: of_nat_diff)
  then show ?thesis using b' w(5) by (intro exI conjI) (assumption, simp_all add: uip_stop_def set_appstate_def appstate_def)
qed

text \<open>What is sent to a telnet client has a carriage return before every line feed.\<close>

lemma telnet_prep_send_text:
  "elua_uip_telnet_prep_send src n = (concat (map (\<lambda>c. if c = 10 then [13, 10] else [c]) src), n + of_nat (count_list src 10))"
  by (induction src n rule: elua_uip_telnet_prep_send.induct) (auto simp: algebra_simps)

text \<open>While a telnet client is registered, whether it is still there or not, no other can connect.\<close>

lemma telnet_second_refused:
  assumes "BUILD_CON_TCP cfg" "elua_uip_configured (app w)" "elua_uip_telnet_socket (app w) = Some j" "lport (uc w) = htons cfg ELUA_NET_TELNET_PORT"
    and "UIP_CONNECTED \<in> uflags w" "ua_state (appstate w) \<noteq> ELUA_UIP_STATE_CONNECT"
  shows "elua_uip_appcall cfg w = Some (uip_close w)"
  using assms by (simp add: elua_uip_appcall_def appcall_connected_def Let_def)

lemma telnet_idle_close_ignored:
  assumes "ua_state (appstate w) = ELUA_UIP_STATE_IDLE" "UIP_CONNECTED \<notin> uflags w" "elua_uip_appcall cfg w = Some w'"
  shows "elua_uip_telnet_socket (app w') = elua_uip_telnet_socket (app w)"
  using assms appcall_idle [of w cfg] by simp

section \<open>Examples\<close>

definition example_stream :: tcp_seg where
  "example_stream = \<lparr>seg_ip = (0, 0), sport = 7, dport = 0x5000, seqno = 500, ackno = 1000, seg_flags = {TCP_ACK}, wnd = 970, seg_opts = [], seg_data = [9, 8]\<rparr>"

definition example_small :: elua_uip where
  "example_small = example_uip\<lparr>ubuf := [0, 0, 0]\<rparr>"

definition example_call :: "elua_net uip_work" where
  "example_call = conn_work 1 (snd (elua_net_recvbuf example_uip_conf 1 [1] 10 ELUA_NET_NO_LASTCHAR example_small))"

definition example_arrival :: "elua_net uip_work option" where
  "example_arrival = do {
     (w, _) \<leftarrow> uip_timer example_uip_conf (elua_uip_appcall example_uip_conf) True example_call;
     b \<leftarrow> blit (appbuf w) 0 [9, 8];
     (w, _) \<leftarrow> uip_found example_uip_conf (elua_uip_appcall example_uip_conf) example_stream (w\<lparr>appbuf := b\<rparr>);
     Some w
   }"

lemma example_arrives: "case example_arrival of Some w \<Rightarrow> ua_state (appstate w) = ELUA_UIP_STATE_IDLE \<and> ua_len (appstate w) = 8 | None \<Rightarrow> False"
  by code_simp

lemma example_recv_ready: "recv_ready example_uip_conf 1 [9, 8] 10 example_small"
  by (simp add: recv_ready_def example_small_def example_uip_def example_uip_conf_def example_conn_def unused_conn_def)

lemma example_run:
  "\<exists>w. arrivals example_uip_conf 500 [9, 8] example_call w \<and> ua_state (appstate w) = ELUA_UIP_STATE_IDLE \<and> ua_len (appstate w) = 8"
proof -
  from example_arrives obtain w1 o1 b w2 o2 where
    t: "uip_timer example_uip_conf (elua_uip_appcall example_uip_conf) True example_call = Some (w1, o1)" "blit (appbuf w1) 0 [9, 8] = Some b"
      "uip_found example_uip_conf (elua_uip_appcall example_uip_conf) example_stream (w1\<lparr>appbuf := b\<rparr>) = Some (w2, o2)"
    and w: "ua_state (appstate w2) = ELUA_UIP_STATE_IDLE" "ua_len (appstate w2) = 8"
    by (auto simp: example_arrival_def split: option.splits bind_splits prod.splits)
  have "arrivals example_uip_conf 500 [9, 8] example_call w1" by (rule arrivals.timer [OF arrivals.start refl]) (use t(1) in simp)
  moreover have "stream_seg 500 [9, 8] example_stream" by (auto simp: stream_seg_def example_stream_def)
  ultimately have "arrivals example_uip_conf 500 [9, 8] example_call w2"
    by (rule arrivals.input) (use t(2,3) in \<open>simp_all add: example_stream_def\<close>)
  with w show ?thesis by blast
qed


theorem recv_timeout_loses_witness:
  "\<exists>w' a. uip_found example_uip_conf (elua_uip_appcall example_uip_conf) example_stream
      (conn_work 1 (recv_expired 1 (set_pstate 1 (recv_state ELUA_UIP_STATE_RECV_2 1 [] 10) (example_small\<lparr>conns := [unused_conn, example_conn\<lparr>stopped := False\<rparr>]\<rparr>)))) = Some (w', Some a)
    \<and> ackno a = 502 \<and> ua_ptr (appstate w') = LUA_BUFFER []"
proof -
  define u where "u = set_pstate 1 (recv_state ELUA_UIP_STATE_RECV_2 1 [] 10) (example_small\<lparr>conns := [unused_conn, example_conn\<lparr>stopped := False\<rparr>]\<rparr>)"
  have p: "pstate (int 1) u = recv_state ELUA_UIP_STATE_RECV_2 1 [] 10" "1 < length (appstates (uapp u))" "conns u ! 1 = example_conn\<lparr>stopped := False\<rparr>"
    by (simp_all add: u_def pstate_def set_pstate_def example_small_def example_uip_def)
  have "\<exists>w' a. uip_found example_uip_conf (elua_uip_appcall example_uip_conf) example_stream (conn_work 1 (recv_expired (int 1) u)) = Some (w', Some a)
    \<and> ackno a = rcv_nxt (conns u ! 1) + of_nat (length (seg_data example_stream))
    \<and> appstate w' = (pstate (int 1) u)\<lparr>ua_res := ELUA_NET_ERR_TIMEDOUT, ua_state := ELUA_UIP_STATE_IDLE\<rparr>"
    by (rule recv_timeout_loses) (use p in \<open>simp_all add: example_conn_def unused_conn_def example_stream_def\<close>)
  moreover have "rcv_nxt (conns u ! 1) + of_nat (length (seg_data example_stream)) = 502" using p(3) by (simp add: example_conn_def example_stream_def)
  moreover have "ua_ptr ((pstate (int 1) u)\<lparr>ua_res := ELUA_NET_ERR_TIMEDOUT, ua_state := ELUA_UIP_STATE_IDLE\<rparr>) = LUA_BUFFER []" using p(1) by simp
  moreover have "int 1 = 1" by simp
  ultimately show ?thesis unfolding u_def by metis
qed

theorem telnet_input_is_text_witness:
  "\<exists>w' b'. elua_uip_telnet_handle_input (example_call\<lparr>appbuf := [104, 255, 251, 1, 105], ulen := 5,
      app := (app example_call)\<lparr>appstates := replicate 2 (elua_prep_socket_state (CHARS [0, 0, 0] 0) 3 0 0 ELUA_UIP_STATE_RECV_2)\<rparr>\<rparr>) = Some w'
    \<and> blit [0, 0, 0] 0 [104, 105] = Some b' \<and> ua_ptr (appstate w') = CHARS b' 2"
proof -
  define w where "w = example_call\<lparr>appbuf := [104, 255, 251, 1, 105], ulen := 5,
      app := (app example_call)\<lparr>appstates := replicate 2 (elua_prep_socket_state (CHARS [0, 0, 0] 0) 3 0 0 ELUA_UIP_STATE_RECV_2)\<rparr>\<rparr>"
  have sock: "sock w = 1" by (simp add: w_def example_call_def conn_work_def)
  have b: "take 5 (appbuf w) = [104, 255, 251, 1, 105]" "ulen w = of_nat 5" "5 \<le> length (appbuf w)" "sock w < length (appstates (app w))"
    using sock by (simp_all add: w_def)
  have a: "appstate w = elua_prep_socket_state (CHARS [0, 0, 0] 0) (of_nat 3) 0 0 ELUA_UIP_STATE_RECV_2"
    unfolding appstate_def sock by (simp add: w_def)
  have t: "telnet_whole (take 5 (appbuf w))" "[104, 105] = take 3 (telnet_text (take 5 (appbuf w)))"
    unfolding b(1) by simp_all
  have "\<exists>w' b'. elua_uip_telnet_handle_input w = Some w' \<and> blit [0, 0, 0] 0 [104, 105] = Some b'
    \<and> appstate w' = elua_prep_socket_state (CHARS b' (0 + length [104 :: u8, 105])) (of_nat (3 - length [104 :: u8, 105])) 0 ELUA_NET_ERR_OK ELUA_UIP_STATE_IDLE
    \<and> stopped (uc w')"
    by (rule telnet_input_is_text [OF t(1) b(2) _ b(3,4) a _ _ t(2)]) simp_all
  then show ?thesis unfolding w_def elua_prep_socket_state_def by fastforce
qed

end
